(* ===== verification/E2fs_Prelude.thy ===== *)
theory E2fs_Prelude
  imports Main "HOL-Library.Word"
begin

text \<open>
  What the components of the development share: the machine integer types of the C code, the
  error codes its functions return, the outcome of an allocation, arrays as lists that are
  updated by index, and the lemma collections the component theories add to.

  Conventions.  An \<open>errcode_t\<close> function that writes its result through a pointer is a function
  into \<open>errcode + 'a\<close>: \<open>Inl\<close> is the non-zero error code, \<open>Inr\<close> the result of the
  return value 0.  A function that mutates a structure takes the structure and returns the new
  one.  The C library's \<open>malloc\<close> and \<open>realloc\<close> may fail at any call: an operation that
  allocates takes an argument of type \<open>malloc\<close> that says which request sizes are granted, and
  every theorem holds for all of them.
\<close>

section \<open>Types\<close>

type_synonym u8 = "8 word"
type_synonym u16 = "16 word"
type_synonym u32 = "32 word"
type_synonym u64 = "64 word"

text \<open>The non-zero values of \<open>errcode_t\<close> that the modelled functions return.\<close>

datatype errcode =
    EXT2_ET_NO_MEMORY
  | EXT2_ET_INVALID_ARGUMENT
  | EXT2_ET_MAGIC_BADBLOCKS_LIST
  | EXT2_ET_MAGIC_BADBLOCKS_ITERATE
  | EXT2_ET_MAGIC_EXT2FS_FILSYS
  | EXT2_ET_MAGIC_GENERIC_BITMAP
  | EXT2_ET_MAGIC_BLOCK_BITMAP
  | EXT2_ET_MAGIC_INODE_BITMAP
  | EXT2_ET_MAGIC_GENERIC_BITMAP64
  | EXT2_ET_MAGIC_BLOCK_BITMAP64
  | EXT2_ET_MAGIC_INODE_BITMAP64
  | EINVAL
  | ENOENT
  | EOVERFLOW
  | EIO
  | EXT2_ET_RO_FILSYS
  | EXT2_ET_RO_BLOCK_ITERATE
  | EXT2_ET_BAD_IND_BLOCK
  | EXT2_ET_BAD_DIND_BLOCK
  | EXT2_ET_BAD_TIND_BLOCK
  | EXT2_ET_INLINE_DATA_CANT_ITERATE
  | EXT2_ET_FILE_TOO_BIG
  | EXT2_ET_NO_DIRECTORY
  | EXT2_ET_DIR_CORRUPTED
  | EXT2_ET_DIR_NO_SPACE
  | EXT2_ET_DIR_EXISTS
  | EXT2_ET_FILE_NOT_FOUND
  | EXT2_ET_DIR_CSUM_INVALID
  | EXT2_ET_DIR_NO_SPACE_FOR_CSUM
  | EXT2_ET_DB_NOT_FOUND
  | EXT2_ET_BLOCK_ALLOC_FAIL
  | EXT2_ET_INODE_ALLOC_FAIL
  | EXT2_ET_NO_BLOCK_BITMAP
  | EXT2_ET_NO_INODE_BITMAP
  | EXT2_ET_SET_BMAP_NO_IND
  | EXT2_ET_INLINE_DATA_NO_BLOCK
  | EXT2_ET_SYMLINK_LOOP
  | EXT2_ET_FILE_RO
  | EXT2_ET_MAGIC_EXT2_FILE

type_synonym malloc = "nat \<Rightarrow> bool"

text \<open>
  \<open>ext2fs_resize_mem\<close> on an array of \<open>length xs\<close> elements: the old elements stay, new ones
  hold whatever the allocator returned, here \<open>junk\<close>.
\<close>

definition resize_arr :: "'a \<Rightarrow> nat \<Rightarrow> 'a list \<Rightarrow> 'a list" where
  "resize_arr junk n xs = take n xs @ replicate (n - length xs) junk"

section \<open>Lemma collections\<close>

named_theorems array_simps \<open>arrays held in lists: updates, shifts, resizing\<close>
named_theorems wf_intros \<open>well-formedness of the result of an operation\<close>

lemma length_resize_arr [array_simps]: "length (resize_arr junk n xs) = n"
  by (simp add: resize_arr_def)

lemma take_resize_arr [array_simps]: "k \<le> n \<Longrightarrow> k \<le> length xs \<Longrightarrow> take k (resize_arr junk n xs) = take k xs"
  by (simp add: resize_arr_def min_def)

lemma nat_int_minus_1 [simp]: "nat (int n - 1) = n - Suc 0"
  by simp

section \<open>Differences of machine integers\<close>

lemma unat_sub: "s \<le> x \<Longrightarrow> unat (x - s) = unat x - unat s" for x s :: "'a::len word"
  by (simp add: unat_sub_if_size word_le_nat_alt)

lemma unat_succ: "x \<noteq> - 1 \<Longrightarrow> unat (x + 1) = unat x + 1" for x :: "'a::len word"
  using unatSuc [of x] by (simp add: add.commute eq_neg_iff_add_eq_0)

lemma le_succ: "x \<noteq> - 1 \<Longrightarrow> x \<le> y \<longleftrightarrow> y = x \<or> x + 1 \<le> y" for x y :: "'a::len word"
  using unat_succ [of x] by (auto simp: word_le_nat_alt word_unat_eq_iff)

lemma below_max: "x \<le> y \<Longrightarrow> y \<noteq> - 1 \<Longrightarrow> x \<noteq> - 1" for x y :: "'a::len word"
  by (metis antisym word_order.extremum)

section \<open>Arrays: a prefix in use, elements moved up or down by one\<close>

text \<open>
  \<open>shift_up xs j k\<close> is \<open>for (i = k; i > j; i--) xs[i] = xs[i-1];\<close> and \<open>shift_down xs j n\<close> is
  \<open>for (i = j; i < n - 1; i++) xs[i] = xs[i+1];\<close>, the two loops by which a sorted array makes
  room for an element and closes the gap of a removed one.
\<close>

fun shift_up :: "'a list \<Rightarrow> nat \<Rightarrow> nat \<Rightarrow> 'a list" where
  "shift_up xs j k = (if k > j then shift_up (xs[k := xs ! (k - 1)]) j (k - 1) else xs)"

function shift_down :: "'a list \<Rightarrow> nat \<Rightarrow> nat \<Rightarrow> 'a list" where
  "shift_down xs i n = (if i < n - 1 then shift_down (xs[i := xs ! (i + 1)]) (i + 1) n else xs)"
  by pat_completeness auto
termination
  by (relation "measure (\<lambda>(xs, i, n). n - i)") auto

declare shift_up.simps [simp del] shift_down.simps [simp del]

lemma length_shift_up [array_simps]: "length (shift_up xs j k) = length xs"
  by (induction xs j k rule: shift_up.induct) (subst shift_up.simps, simp)

lemma length_shift_down [array_simps]: "length (shift_down xs i n) = length xs"
  by (induction xs i n rule: shift_down.induct) (subst shift_down.simps, simp)

lemma nth_shift_up:
  "k < length xs \<Longrightarrow> shift_up xs j k ! m = (if j < m \<and> m \<le> k then xs ! (m - 1) else xs ! m)"
proof (induction xs j k rule: shift_up.induct)
  case (1 xs j k)
  show ?case
  proof (cases "k > j")
    case True
    have "shift_up xs j k ! m = shift_up (xs[k := xs ! (k - 1)]) j (k - 1) ! m"
      using True by (subst shift_up.simps) simp
    also have "\<dots> = (if j < m \<and> m \<le> k - 1 then xs[k := xs ! (k - 1)] ! (m - 1)
                     else xs[k := xs ! (k - 1)] ! m)"
      using "1.IH" True "1.prems" by simp
    also have "\<dots> = (if j < m \<and> m \<le> k then xs ! (m - 1) else xs ! m)"
      using True "1.prems" by (cases "m = k") (auto simp: nth_list_update)
    finally show ?thesis .
  next
    case False
    then show ?thesis by (subst shift_up.simps) auto
  qed
qed

lemma nth_shift_down:
  "n \<le> length xs \<Longrightarrow>
   shift_down xs i n ! m = (if i \<le> m \<and> m < n - 1 then xs ! (m + 1) else xs ! m)"
proof (induction xs i n rule: shift_down.induct)
  case (1 xs i n)
  show ?case
  proof (cases "i < n - 1")
    case True
    have "shift_down xs i n ! m = shift_down (xs[i := xs ! (i + 1)]) (i + 1) n ! m"
      using True by (subst shift_down.simps) simp
    also have "\<dots> = (if i + 1 \<le> m \<and> m < n - 1 then xs[i := xs ! (i + 1)] ! (m + 1)
                     else xs[i := xs ! (i + 1)] ! m)"
      using "1.IH" True "1.prems" by simp
    also have "\<dots> = (if i \<le> m \<and> m < n - 1 then xs ! (m + 1) else xs ! m)"
      using True "1.prems" by (cases "m = i") (auto simp: nth_list_update)
    finally show ?thesis .
  next
    case False
    then show ?thesis by (subst shift_down.simps) auto
  qed
qed

text \<open>
  On the prefix of \<open>n\<close> elements in use, the first loop and a store make an insertion, the
  second a deletion.
\<close>

lemma take_shift_up_insert:
  assumes "n < length xs" "j \<le> n"
  shows "take (Suc n) ((shift_up xs j n)[j := x]) = take j xs @ x # drop j (take n xs)"
proof (rule nth_equalityI)
  show "length (take (Suc n) ((shift_up xs j n)[j := x])) = length (take j xs @ x # drop j (take n xs))"
    using assms by (simp add: array_simps)
next
  fix m assume "m < length (take (Suc n) ((shift_up xs j n)[j := x]))"
  then have m: "m < Suc n" by simp
  consider "m < j" | "m = j" | "m > j" by linarith
  then show "take (Suc n) ((shift_up xs j n)[j := x]) ! m = (take j xs @ x # drop j (take n xs)) ! m"
  proof cases
    case 3
    then have "m - j = Suc (m - Suc j)" "j + (m - Suc j) = m - 1" by auto
    with assms m 3 show ?thesis
      by (simp add: nth_shift_up nth_append min_def)
  qed (use assms m in \<open>auto simp: nth_shift_up nth_append array_simps\<close>)
qed

lemma take_shift_down_delete:
  assumes "n \<le> length xs" "i < n"
  shows "take (n - 1) (shift_down xs i n) = take i xs @ drop (Suc i) (take n xs)"
proof (rule nth_equalityI)
  show "length (take (n - 1) (shift_down xs i n)) = length (take i xs @ drop (Suc i) (take n xs))"
    using assms by (simp add: array_simps)
next
  fix m assume "m < length (take (n - 1) (shift_down xs i n))"
  then have m: "m < n - 1" using assms by (simp add: array_simps)
  show "take (n - 1) (shift_down xs i n) ! m = (take i xs @ drop (Suc i) (take n xs)) ! m"
  proof (cases "m < i")
    case True
    with assms m show ?thesis by (simp add: nth_shift_down nth_append)
  next
    case False
    then have "Suc i + (m - i) = Suc m" by simp
    with False assms m show ?thesis
      by (simp add: nth_shift_down nth_append min_def)
  qed
qed

end
