(* ===== verification/U32_List.thy ===== *)
theory U32_List
  imports E2fs_Prelude
begin

text \<open>
  The sorted list of 32-bit block numbers of \<open>lib/ext2fs/badblocks.c\<close>: the structure
  \<open>ext2_struct_u32_list\<close> (an array of \<open>bb_size\<close> slots, the first \<open>bb_num\<close> in use), its
  constructors, insertion, binary search, deletion, iteration and comparison.  The specification
  is a set of block numbers; the interface the callers rely on is the locale \<open>u32_set_ops\<close>,
  interpreted on the model of the code.
\<close>

section \<open>The structure and its operations\<close>

record u32_list =
  bb_magic :: errcode
  bb_num :: nat
  bb_size :: nat
  bb_list :: "u32 list"
  badblocks_flags :: int

definition make_u32_list ::
  "malloc \<Rightarrow> nat \<Rightarrow> nat \<Rightarrow> u32 list option \<Rightarrow> errcode + u32_list" where
  "make_u32_list mal sz n lst =
     (let size' = (if sz \<noteq> 0 then sz else 10) in
      if \<not> mal 32 then Inl EXT2_ET_NO_MEMORY
      else if \<not> mal (size' * 4) then Inl EXT2_ET_NO_MEMORY
      else Inr \<lparr>bb_magic = EXT2_ET_MAGIC_BADBLOCKS_LIST, bb_num = n, bb_size = size',
                bb_list = (case lst of Some xs \<Rightarrow> take size' xs | None \<Rightarrow> replicate size' 0),
                badblocks_flags = 0\<rparr>)"

definition ext2fs_u32_list_create :: "malloc \<Rightarrow> nat \<Rightarrow> errcode + u32_list" where
  "ext2fs_u32_list_create mal sz = make_u32_list mal sz 0 None"

definition ext2fs_u32_copy :: "malloc \<Rightarrow> u32_list \<Rightarrow> errcode + u32_list" where
  "ext2fs_u32_copy mal src =
     (case make_u32_list mal (bb_size src) (bb_num src) (Some (bb_list src)) of
        Inl e \<Rightarrow> Inl e
      | Inr dest \<Rightarrow> Inr (dest\<lparr>badblocks_flags := badblocks_flags src\<rparr>))"

text \<open>
  The growth step of \<open>ext2fs_u32_list_add\<close>; \<open>junk\<close> is what the fresh slots hold.
\<close>

definition u32_list_grow :: "malloc \<Rightarrow> u32 \<Rightarrow> u32_list \<Rightarrow> errcode + u32_list" where
  "u32_list_grow mal junk bb =
     (if bb_num bb \<ge> bb_size bb
      then if mal ((bb_size bb + 100) * 4)
           then Inr (bb\<lparr>bb_size := bb_size bb + 100,
                        bb_list := resize_arr junk (bb_size bb + 100) (bb_list bb)\<rparr>)
           else Inl EXT2_ET_NO_MEMORY
      else Inr bb)"

text \<open>
  The insertion loop: \<open>None\<close> is its early return (the block is there), \<open>Some j\<close> the place
  where it stops.
\<close>

function u32_add_scan :: "u32 list \<Rightarrow> nat \<Rightarrow> u32 \<Rightarrow> nat \<Rightarrow> nat option" where
  "u32_add_scan xs n blk i =
     (if i < n
      then if xs ! i = blk then None
           else if xs ! i > blk then Some i
           else u32_add_scan xs n blk (i + 1)
      else Some n)"
  by pat_completeness auto
termination
  by (relation "measure (\<lambda>(xs, n, blk, i). n - i)") auto

declare u32_add_scan.simps [simp del]

definition ext2fs_u32_list_add :: "malloc \<Rightarrow> u32 \<Rightarrow> u32_list \<Rightarrow> u32 \<Rightarrow> errcode + u32_list" where
  "ext2fs_u32_list_add mal junk bb0 blk =
     (if bb_magic bb0 \<noteq> EXT2_ET_MAGIC_BADBLOCKS_LIST then Inl EXT2_ET_MAGIC_BADBLOCKS_LIST
      else case u32_list_grow mal junk bb0 of
        Inl e \<Rightarrow> Inl e
      | Inr bb \<Rightarrow>
          let i = bb_num bb - 1 in
          if bb_num bb \<noteq> 0 \<and> bb_list bb ! i = blk then Inr bb
          else if bb_num bb = 0 \<or> bb_list bb ! i < blk
          then Inr (bb\<lparr>bb_list := (bb_list bb)[bb_num bb := blk], bb_num := bb_num bb + 1\<rparr>)
          else case u32_add_scan (bb_list bb) (bb_num bb) blk 0 of
                 None \<Rightarrow> Inr bb
               | Some j \<Rightarrow> Inr (bb\<lparr>bb_list := (shift_up (bb_list bb) j (bb_num bb))[j := blk],
                                   bb_num := bb_num bb + 1\<rparr>))"

text \<open>
  The binary search.  Its loop stops when the middle meets a bound, both of which have been
  compared already; the result is the index or -1.
\<close>

function u32_find_loop :: "u32 list \<Rightarrow> u32 \<Rightarrow> nat \<Rightarrow> nat \<Rightarrow> int" where
  "u32_find_loop xs blk low high =
     (if low < high
      then let mid = (low + high) div 2 in
           if mid = low \<or> mid = high then - 1
           else if blk = xs ! mid then int mid
           else if blk < xs ! mid then u32_find_loop xs blk low mid
           else u32_find_loop xs blk mid high
      else - 1)"
  by pat_completeness auto
termination
  by (relation "measure (\<lambda>(xs, blk, low, high). high - low)") auto

declare u32_find_loop.simps [simp del]

definition ext2fs_u32_list_find :: "u32_list \<Rightarrow> u32 \<Rightarrow> int" where
  "ext2fs_u32_list_find bb blk =
     (if bb_magic bb \<noteq> EXT2_ET_MAGIC_BADBLOCKS_LIST then - 1
      else if bb_num bb = 0 then - 1
      else let low = 0; high = bb_num bb - 1 in
           if blk = bb_list bb ! low then int low
           else if blk = bb_list bb ! high then int high
           else u32_find_loop (bb_list bb) blk low high)"

definition ext2fs_u32_list_test :: "u32_list \<Rightarrow> u32 \<Rightarrow> bool" where
  "ext2fs_u32_list_test bb blk = (if ext2fs_u32_list_find bb blk < 0 then False else True)"

text \<open>The deletion returns 0 and the shorter list, or -1 (\<open>None\<close>) and leaves the list alone.\<close>

definition ext2fs_u32_list_del :: "u32_list \<Rightarrow> u32 \<Rightarrow> u32_list option" where
  "ext2fs_u32_list_del bb blk =
     (if bb_num bb = 0 then None
      else let remloc = ext2fs_u32_list_find bb blk in
           if remloc < 0 then None
           else Some (bb\<lparr>bb_list := shift_down (bb_list bb) (nat remloc) (bb_num bb),
                         bb_num := bb_num bb - 1\<rparr>))"

record u32_iterate =
  it_magic :: errcode
  it_bb :: u32_list
  it_ptr :: nat

definition ext2fs_u32_list_iterate_begin :: "malloc \<Rightarrow> u32_list \<Rightarrow> errcode + u32_iterate" where
  "ext2fs_u32_list_iterate_begin mal bb =
     (if bb_magic bb \<noteq> EXT2_ET_MAGIC_BADBLOCKS_LIST then Inl EXT2_ET_MAGIC_BADBLOCKS_LIST
      else if \<not> mal 24 then Inl EXT2_ET_NO_MEMORY
      else Inr \<lparr>it_magic = EXT2_ET_MAGIC_BADBLOCKS_ITERATE, it_bb = bb, it_ptr = 0\<rparr>)"

text \<open>One step: \<open>Some blk\<close> is the return value 1 with \<open>*blk\<close> set, \<open>None\<close> the value 0.\<close>

definition ext2fs_u32_list_iterate :: "u32_iterate \<Rightarrow> u32 option \<times> u32_iterate" where
  "ext2fs_u32_list_iterate it =
     (if it_magic it \<noteq> EXT2_ET_MAGIC_BADBLOCKS_ITERATE then (None, it)
      else if bb_magic (it_bb it) \<noteq> EXT2_ET_MAGIC_BADBLOCKS_LIST then (None, it)
      else if it_ptr it < bb_num (it_bb it)
      then (Some (bb_list (it_bb it) ! it_ptr it), it\<lparr>it_ptr := it_ptr it + 1\<rparr>)
      else (None, it))"

definition ext2fs_u32_list_equal :: "u32_list \<Rightarrow> u32_list \<Rightarrow> errcode + bool" where
  "ext2fs_u32_list_equal bb1 bb2 =
     (if bb_magic bb1 \<noteq> EXT2_ET_MAGIC_BADBLOCKS_LIST then Inl EXT2_ET_MAGIC_BADBLOCKS_LIST
      else if bb_magic bb2 \<noteq> EXT2_ET_MAGIC_BADBLOCKS_LIST then Inl EXT2_ET_MAGIC_BADBLOCKS_LIST
      else if bb_num bb1 \<noteq> bb_num bb2 then Inr False
      else if take (bb_num bb1) (bb_list bb1) \<noteq> take (bb_num bb1) (bb_list bb2) then Inr False
      else Inr True)"

definition ext2fs_u32_list_count :: "u32_list \<Rightarrow> nat" where
  "ext2fs_u32_list_count bb = bb_num bb"


section \<open>Invariant and abstraction\<close>

definition wf_u32 :: "u32_list \<Rightarrow> bool" where
  "wf_u32 bb \<longleftrightarrow> bb_magic bb = EXT2_ET_MAGIC_BADBLOCKS_LIST \<and> bb_num bb \<le> bb_size bb
     \<and> bb_size bb \<noteq> 0 \<and> length (bb_list bb) = bb_size bb
     \<and> sorted_wrt (<) (take (bb_num bb) (bb_list bb))"

definition u32_elems :: "u32_list \<Rightarrow> u32 list" where
  "u32_elems bb = take (bb_num bb) (bb_list bb)"

definition u32_abs :: "u32_list \<Rightarrow> u32 set" where
  "u32_abs bb = set (u32_elems bb)"

lemma wf_u32_length: "wf_u32 bb \<Longrightarrow> length (u32_elems bb) = bb_num bb"
  by (simp add: wf_u32_def u32_elems_def)

lemma wf_u32_nth_less:
  "wf_u32 bb \<Longrightarrow> i < j \<Longrightarrow> j < bb_num bb \<Longrightarrow> bb_list bb ! i < bb_list bb ! j"
  using sorted_wrt_nth_less [of "(<)" "take (bb_num bb) (bb_list bb)" i j]
  by (simp add: wf_u32_def)

lemma wf_u32_nth_mono:
  "wf_u32 bb \<Longrightarrow> i \<le> j \<Longrightarrow> j < bb_num bb \<Longrightarrow> bb_list bb ! i \<le> bb_list bb ! j"
  using wf_u32_nth_less [of bb i j] by (cases "i = j") auto

lemma u32_abs_nth: "wf_u32 bb \<Longrightarrow> x \<in> u32_abs bb \<longleftrightarrow> (\<exists>i < bb_num bb. bb_list bb ! i = x)"
  by (auto simp: u32_abs_def u32_elems_def in_set_conv_nth wf_u32_def)

lemma finite_u32_abs [simp]: "finite (u32_abs bb)"
  by (simp add: u32_abs_def)

section \<open>Creation and copying\<close>

lemma wf_create [wf_intros]:
  "ext2fs_u32_list_create mal sz = Inr bb \<Longrightarrow> wf_u32 bb \<and> u32_abs bb = {}"
  by (auto simp: ext2fs_u32_list_create_def make_u32_list_def Let_def wf_u32_def u32_abs_def
      u32_elems_def split: if_splits)

lemma copy_elems:
  "wf_u32 src \<Longrightarrow> ext2fs_u32_copy mal src = Inr dest \<Longrightarrow>
   wf_u32 dest \<and> u32_elems dest = u32_elems src \<and> badblocks_flags dest = badblocks_flags src"
  by (auto simp: ext2fs_u32_copy_def make_u32_list_def Let_def wf_u32_def u32_elems_def
      split: if_splits)

section \<open>Insertion\<close>

lemma grow_keeps:
  assumes "wf_u32 bb0" "u32_list_grow mal junk bb0 = Inr bb"
  shows "wf_u32 bb" "u32_elems bb = u32_elems bb0" "bb_num bb < bb_size bb"
proof -
  have "wf_u32 bb \<and> u32_elems bb = u32_elems bb0 \<and> bb_num bb < bb_size bb"
    using assms by (auto simp: u32_list_grow_def wf_u32_def u32_elems_def array_simps split: if_splits)
  then show "wf_u32 bb" "u32_elems bb = u32_elems bb0" "bb_num bb < bb_size bb" by auto
qed

lemma add_scan_None:
  "u32_add_scan xs n blk i = None \<Longrightarrow> n \<le> length xs \<Longrightarrow> blk \<in> set (take n xs)"
proof (induction xs n blk i rule: u32_add_scan.induct)
  case (1 xs n blk i)
  show ?case
  proof (cases "i < n \<and> xs ! i = blk")
    case True
    with "1.prems" show ?thesis by (auto simp: in_set_conv_nth)
  next
    case False
    with "1.prems" have "i < n" "\<not> xs ! i > blk" and rec: "u32_add_scan xs n blk (i + 1) = None"
      by (auto simp: u32_add_scan.simps [of xs n blk i] split: if_splits)
    with "1.IH" False "1.prems" show ?thesis by blast
  qed
qed

lemma add_scan_Some:
  "u32_add_scan xs n blk i = Some j \<Longrightarrow> i \<le> n \<Longrightarrow> \<forall>k < i. xs ! k < blk \<Longrightarrow>
   j \<le> n \<and> (\<forall>k < j. xs ! k < blk) \<and> (j < n \<longrightarrow> blk < xs ! j)"
proof (induction xs n blk i rule: u32_add_scan.induct)
  case (1 xs n blk i)
  show ?case
  proof (cases "i < n \<and> xs ! i \<noteq> blk \<and> \<not> blk < xs ! i")
    case True
    then have "u32_add_scan xs n blk (i + 1) = Some j"
      using "1.prems"(1) by (simp add: u32_add_scan.simps [of xs n blk i])
    moreover have "\<forall>k < i + 1. xs ! k < blk"
      using "1.prems"(3) True by (auto simp: less_Suc_eq)
    ultimately show ?thesis using "1.IH" True by auto
  next
    case False
    with "1.prems" show ?thesis
      by (auto simp: u32_add_scan.simps [of xs n blk i] split: if_splits)
  qed
qed

lemma insert_sorted_at:
  fixes xs :: "u32 list"
  assumes "sorted_wrt (<) xs" "j \<le> length xs" "\<forall>k < j. xs ! k < x" "\<forall>k < length xs. j \<le> k \<longrightarrow> x < xs ! k"
  shows "sorted_wrt (<) (take j xs @ x # drop j xs)"
proof -
  have "\<forall>y \<in> set (take j xs). y < x" "\<forall>y \<in> set (drop j xs). x < y"
    using assms(2-4) by (auto simp: in_set_conv_nth)
  moreover have "sorted_wrt (<) (take j xs @ drop j xs)" using assms(1) by simp
  ultimately show ?thesis
    unfolding sorted_wrt_append by auto
qed

lemma set_insert_at: "set (take j xs @ x # drop j xs) = insert x (set xs)"
  using set_append [of "take j xs" "drop j xs"] by simp


lemma u32_list_add_elems:
  assumes "wf_u32 bb0" "ext2fs_u32_list_add mal junk bb0 blk = Inr bb'"
  shows "wf_u32 bb' \<and> u32_abs bb' = insert blk (u32_abs bb0)"
proof -
  from assms obtain bb where g: "u32_list_grow mal junk bb0 = Inr bb"
    by (auto simp: ext2fs_u32_list_add_def split: if_splits sum.splits)
  note wf = grow_keeps [OF assms(1) g]
  then have same: "u32_abs bb = u32_abs bb0" by (simp add: u32_abs_def)
  let ?n = "bb_num bb" and ?xs = "bb_list bb"
  have len: "?n < length ?xs" and srt: "sorted_wrt (<) (take ?n ?xs)"
    using wf by (auto simp: wf_u32_def)
  consider (last) "?n \<noteq> 0" "?xs ! (?n - 1) = blk" "bb' = bb"
    | (app) "?n = 0 \<or> ?xs ! (?n - 1) < blk" "bb' = bb\<lparr>bb_list := ?xs[?n := blk], bb_num := ?n + 1\<rparr>"
    | (old) "u32_add_scan ?xs ?n blk 0 = None" "bb' = bb"
    | (ins) j where "?n \<noteq> 0" "\<not> ?xs ! (?n - 1) < blk" "?xs ! (?n - 1) \<noteq> blk"
        "u32_add_scan ?xs ?n blk 0 = Some j"
        "bb' = bb\<lparr>bb_list := (shift_up ?xs j ?n)[j := blk], bb_num := ?n + 1\<rparr>"
    using assms(2) g by (auto simp: ext2fs_u32_list_add_def Let_def split: if_splits option.splits)
  then show ?thesis
  proof cases
    case last
    then have "blk \<in> u32_abs bb" using u32_abs_nth [OF wf(1), of blk] by (metis diff_less less_numeral_extra(1) neq0_conv)
    with last wf same show ?thesis by auto
  next
    case app
    have "\<forall>y \<in> set (take ?n ?xs). y < blk"
    proof
      fix y assume "y \<in> set (take ?n ?xs)"
      then obtain k where k: "k < ?n" "y = ?xs ! k" by (auto simp: in_set_conv_nth)
      then have "y \<le> ?xs ! (?n - 1)" using wf_u32_nth_mono [OF wf(1), of k "?n - 1"] by simp
      with k app(1) show "y < blk" by auto
    qed
    with app wf srt len have "wf_u32 bb'"
      by (simp add: wf_u32_def take_Suc_conv_app_nth sorted_wrt_append)
    moreover have "u32_abs bb' = insert blk (u32_abs bb)"
      using app len by (simp add: u32_abs_def u32_elems_def take_Suc_conv_app_nth)
    ultimately show ?thesis by (simp add: same)
  next
    case old
    then have "blk \<in> u32_abs bb" using add_scan_None [OF old(1)] len by (simp add: u32_abs_def u32_elems_def)
    with old wf same show ?thesis by auto
  next
    case (ins j)
    have j: "j \<le> ?n" "\<forall>k < j. ?xs ! k < blk" "j < ?n \<longrightarrow> blk < ?xs ! j"
      using add_scan_Some [OF ins(4)] by auto
    have above: "blk < ?xs ! k" if "k < ?n" "j \<le> k" for k
      using j(3) that wf_u32_nth_mono [OF wf(1), of j k] by (meson le_less_trans less_le_trans)
    have elems: "take (Suc ?n) ((shift_up ?xs j ?n)[j := blk]) = take j (take ?n ?xs) @ blk # drop j (take ?n ?xs)"
      using take_shift_up_insert [OF len j(1)] j(1) by (simp add: min_def)
    have "sorted_wrt (<) (take j (take ?n ?xs) @ blk # drop j (take ?n ?xs))"
      by (rule insert_sorted_at [OF srt]) (use j above len in auto)
    with ins wf elems len have "wf_u32 bb'" by (simp add: wf_u32_def array_simps)
    moreover have "u32_abs bb' = insert blk (u32_abs bb)"
      using ins elems set_insert_at [of j "take ?n ?xs" blk] by (simp add: u32_abs_def u32_elems_def)
    ultimately show ?thesis by (simp add: same)
  qed
qed

text \<open>Insertion fails only when the allocator refuses to grow a full list.\<close>

lemma u32_list_add_fails:
  "wf_u32 bb \<Longrightarrow> (\<exists>e. ext2fs_u32_list_add mal junk bb blk = Inl e) \<longleftrightarrow>
   bb_num bb = bb_size bb \<and> \<not> mal ((bb_size bb + 100) * 4)"
  by (auto simp: ext2fs_u32_list_add_def u32_list_grow_def wf_u32_def Let_def split: option.splits)

section \<open>Binary search\<close>

lemma find_loop_sound:
  "u32_find_loop xs blk low high = r \<Longrightarrow> r \<noteq> - 1 \<Longrightarrow> high < n \<Longrightarrow>
   0 \<le> r \<and> nat r < n \<and> xs ! nat r = blk"
proof (induction xs blk low high rule: u32_find_loop.induct)
  case (1 xs blk low high)
  let ?mid = "(low + high) div 2"
  show ?case
  proof (cases "low < high \<and> ?mid \<noteq> low \<and> ?mid \<noteq> high \<and> blk \<noteq> xs ! ?mid")
    case True
    with "1.prems" "1.IH" show ?thesis
      by (cases "blk < xs ! ?mid") (auto simp: u32_find_loop.simps [of xs blk low high] Let_def)
  next
    case False
    with "1.prems" show ?thesis
      by (auto simp: u32_find_loop.simps [of xs blk low high] Let_def split: if_splits)
  qed
qed

lemma find_loop_complete:
  "\<lbrakk>\<forall>i j. i < j \<longrightarrow> j \<le> high \<longrightarrow> xs ! i < xs ! j; low < i; i < high; xs ! i = blk\<rbrakk> \<Longrightarrow>
   u32_find_loop xs blk low high = int i"
proof (induction xs blk low high rule: u32_find_loop.induct)
  case (1 xs blk low high)
  let ?mid = "(low + high) div 2"
  have mid: "low < high" "?mid \<noteq> low" "?mid \<noteq> high" "?mid < high" using "1.prems" by auto
  have srt: "\<And>i j. i < j \<Longrightarrow> j \<le> high \<Longrightarrow> xs ! i < xs ! j" using "1.prems"(1) by blast
  consider "i = ?mid" | "i < ?mid" | "i > ?mid" by linarith
  then show ?case
  proof cases
    case 1
    with mid "1.prems"(4) show ?thesis by (simp add: u32_find_loop.simps [of xs blk low high] Let_def)
  next
    case 2
    then have "blk < xs ! ?mid" using srt [of i ?mid] mid "1.prems" by auto
    with mid 2 "1.prems" "1.IH"(1) [OF mid(1) refl] show ?thesis
      by (simp add: u32_find_loop.simps [of xs blk low high] Let_def)
  next
    case 3
    then have "xs ! ?mid < blk" using srt [of ?mid i] mid "1.prems" by auto
    then have "blk \<noteq> xs ! ?mid" "\<not> blk < xs ! ?mid" by auto
    with mid 3 "1.prems" "1.IH"(2) [OF mid(1) refl] show ?thesis
      by (simp add: u32_find_loop.simps [of xs blk low high] Let_def)
  qed
qed


lemma u32_list_find_sound:
  assumes "wf_u32 bb" "ext2fs_u32_list_find bb blk \<noteq> - 1"
  shows "0 \<le> ext2fs_u32_list_find bb blk \<and> nat (ext2fs_u32_list_find bb blk) < bb_num bb
    \<and> bb_list bb ! nat (ext2fs_u32_list_find bb blk) = blk"
  using assms find_loop_sound [OF refl, of "bb_list bb" blk 0 "bb_num bb - 1" "bb_num bb"]
  by (auto simp: ext2fs_u32_list_find_def wf_u32_def Let_def split: if_splits)

lemma u32_list_find_complete:
  assumes "wf_u32 bb" "i < bb_num bb" "bb_list bb ! i = blk"
  shows "ext2fs_u32_list_find bb blk = int i"
proof -
  let ?h = "bb_num bb - 1"
  have srt: "\<forall>i j. i < j \<longrightarrow> j \<le> ?h \<longrightarrow> bb_list bb ! i < bb_list bb ! j"
    using wf_u32_nth_less [OF assms(1)] assms(2) by (metis Suc_pred' gr_implies_not0 le_imp_less_Suc neq0_conv)
  have uniq: "bb_list bb ! k = blk \<Longrightarrow> k < bb_num bb \<Longrightarrow> k = i" for k
    using wf_u32_nth_less [OF assms(1), of k i] wf_u32_nth_less [OF assms(1), of i k] assms
    by (metis less_irrefl linorder_neqE_nat)
  show ?thesis
  proof (cases "i = 0 \<or> i = ?h")
    case True
    with assms uniq [of ?h] uniq [of 0] show ?thesis
      by (auto simp: ext2fs_u32_list_find_def wf_u32_def Let_def)
  next
    case False
    with find_loop_complete [OF srt, of 0 i blk] assms uniq [of 0] uniq [of ?h] show ?thesis
      by (auto simp: ext2fs_u32_list_find_def wf_u32_def Let_def)
  qed
qed

lemma u32_list_test_abs:
  assumes "wf_u32 bb"
  shows "ext2fs_u32_list_test bb blk \<longleftrightarrow> blk \<in> u32_abs bb"
proof
  assume "ext2fs_u32_list_test bb blk"
  then have "ext2fs_u32_list_find bb blk \<noteq> - 1" by (auto simp: ext2fs_u32_list_test_def split: if_splits)
  from u32_list_find_sound [OF assms this] show "blk \<in> u32_abs bb"
    by (auto simp: u32_abs_nth [OF assms])
next
  assume "blk \<in> u32_abs bb"
  then obtain i where "i < bb_num bb" "bb_list bb ! i = blk" by (auto simp: u32_abs_nth [OF assms])
  from u32_list_find_complete [OF assms this] show "ext2fs_u32_list_test bb blk"
    by (simp add: ext2fs_u32_list_test_def)
qed

section \<open>Deletion\<close>

lemma u32_list_del_None:
  assumes "wf_u32 bb"
  shows "ext2fs_u32_list_del bb blk = None \<longleftrightarrow> blk \<notin> u32_abs bb"
proof (cases "bb_num bb = 0")
  case True
  then show ?thesis by (simp add: ext2fs_u32_list_del_def u32_abs_def u32_elems_def)
next
  case False
  then have "ext2fs_u32_list_del bb blk = None \<longleftrightarrow> \<not> ext2fs_u32_list_test bb blk"
    by (auto simp: ext2fs_u32_list_del_def ext2fs_u32_list_test_def Let_def split: if_splits)
  then show ?thesis by (simp add: u32_list_test_abs [OF assms])
qed

lemma set_delete_at:
  assumes "distinct xs" "i < length xs"
  shows "set (take i xs @ drop (Suc i) xs) = set xs - {xs ! i}"
proof -
  have "xs = take i xs @ xs ! i # drop (Suc i) xs" using assms(2) by (rule id_take_nth_drop)
  moreover from this assms(1) have "distinct (take i xs @ xs ! i # drop (Suc i) xs)" by simp
  ultimately show ?thesis
    by (metis Diff_insert_absorb Un_insert_right distinct_append distinct.simps(2) list.simps(15) set_append
        Un_iff disjoint_iff list.set_intros(1))
qed

lemma u32_list_del_Some:
  assumes "wf_u32 bb" "ext2fs_u32_list_del bb blk = Some bb'"
  shows "wf_u32 bb' \<and> u32_abs bb' = u32_abs bb - {blk}"
proof -
  let ?i = "nat (ext2fs_u32_list_find bb blk)" and ?n = "bb_num bb" and ?xs = "bb_list bb"
  from assms(2) have del: "bb' = bb\<lparr>bb_list := shift_down ?xs ?i ?n, bb_num := ?n - 1\<rparr>"
    and found: "ext2fs_u32_list_find bb blk \<noteq> - 1"
    by (auto simp: ext2fs_u32_list_del_def Let_def split: if_splits)
  have i: "?i < ?n" "?xs ! ?i = blk" using u32_list_find_sound [OF assms(1) found] by auto
  have len: "?n \<le> length ?xs" and srt: "sorted_wrt (<) (take ?n ?xs)"
    using assms(1) by (auto simp: wf_u32_def)
  have elems: "take (?n - 1) (shift_down ?xs ?i ?n) = take ?i (take ?n ?xs) @ drop (Suc ?i) (take ?n ?xs)"
    using take_shift_down_delete [OF len i(1)] i(1) by (simp add: min_def)
  have "sorted_wrt (<) (take ?i (take ?n ?xs) @ take 1 (drop ?i (take ?n ?xs)) @ drop (Suc ?i) (take ?n ?xs))"
    using srt by (metis append_take_drop_id drop_drop plus_1_eq_Suc)
  then have "sorted_wrt (<) (take ?i (take ?n ?xs) @ drop (Suc ?i) (take ?n ?xs))"
    by (auto simp: sorted_wrt_append)
  with assms(1) elems have "wf_u32 bb'" by (auto simp: del wf_u32_def array_simps)
  moreover have "distinct (take ?n ?xs)"
    using srt by (simp add: strict_sorted_iff)
  then have "u32_abs bb' = u32_abs bb - {blk}"
    using set_delete_at [of "take ?n ?xs" ?i] i len
    by (simp add: del u32_abs_def u32_elems_def elems [unfolded One_nat_def])
  ultimately show ?thesis ..
qed

section \<open>Iteration and comparison\<close>

text \<open>Collects what a \<open>while (ext2fs_u32_list_iterate(iter, &blk))\<close> loop sees.\<close>

fun u32_iterate_all :: "nat \<Rightarrow> u32_iterate \<Rightarrow> u32 list option" where
  "u32_iterate_all 0 it = None"
| "u32_iterate_all (Suc fuel) it =
     (case ext2fs_u32_list_iterate it of
        (None, _) \<Rightarrow> Some []
      | (Some blk, it') \<Rightarrow> map_option ((#) blk) (u32_iterate_all fuel it'))"

lemma iterate_all_from:
  "it_magic it = EXT2_ET_MAGIC_BADBLOCKS_ITERATE \<Longrightarrow> wf_u32 (it_bb it) \<Longrightarrow>
   it_ptr it \<le> bb_num (it_bb it) \<Longrightarrow> bb_num (it_bb it) - it_ptr it < fuel \<Longrightarrow>
   u32_iterate_all fuel it = Some (drop (it_ptr it) (u32_elems (it_bb it)))"
proof (induction fuel arbitrary: it)
  case (Suc fuel)
  let ?bb = "it_bb it" and ?p = "it_ptr it"
  show ?case
  proof (cases "?p < bb_num ?bb")
    case True
    have "u32_iterate_all fuel (it\<lparr>it_ptr := ?p + 1\<rparr>) = Some (drop (?p + 1) (u32_elems ?bb))"
      using Suc.IH [of "it\<lparr>it_ptr := ?p + 1\<rparr>"] Suc.prems True by simp
    moreover have "drop ?p (u32_elems ?bb) = bb_list ?bb ! ?p # drop (?p + 1) (u32_elems ?bb)"
      using True wf_u32_length [OF Suc.prems(2)] Cons_nth_drop_Suc [of ?p "u32_elems ?bb"]
      by (simp add: u32_elems_def)
    ultimately show ?thesis
      using Suc.prems True by (simp add: ext2fs_u32_list_iterate_def wf_u32_def)
  next
    case False
    with Suc.prems show ?thesis
      by (simp add: ext2fs_u32_list_iterate_def wf_u32_def u32_elems_def)
  qed
qed simp

lemma sorted_elems_unique:
  fixes xs ys :: "u32 list"
  shows "sorted_wrt (<) xs \<Longrightarrow> sorted_wrt (<) ys \<Longrightarrow> set xs = set ys \<Longrightarrow> xs = ys"
  by (simp add: strict_sorted_equal)


section \<open>The interface: a set of block numbers\<close>

text \<open>
  What the callers of the list rely on: \<open>add\<close> inserts, \<open>del\<close> removes or reports absence,
  \<open>test\<close> is membership, and the invariant survives.
\<close>

locale u32_set_ops =
  fixes add :: "'s \<Rightarrow> u32 \<Rightarrow> errcode + 's"
    and del :: "'s \<Rightarrow> u32 \<Rightarrow> 's option"
    and test :: "'s \<Rightarrow> u32 \<Rightarrow> bool"
    and abs :: "'s \<Rightarrow> u32 set"
    and inv :: "'s \<Rightarrow> bool"
  assumes add_law: "inv s \<Longrightarrow> add s b = Inr s' \<Longrightarrow> inv s' \<and> abs s' = insert b (abs s)"
    and del_law: "inv s \<Longrightarrow> del s b = Some s' \<Longrightarrow> inv s' \<and> abs s' = abs s - {b}"
    and del_absent: "inv s \<Longrightarrow> del s b = None \<longleftrightarrow> b \<notin> abs s"
    and test_law: "inv s \<Longrightarrow> test s b \<longleftrightarrow> b \<in> abs s"
begin

lemma test_add: "inv s \<Longrightarrow> add s b = Inr s' \<Longrightarrow> test s' c \<longleftrightarrow> c = b \<or> test s c"
  using add_law [of s b s'] by (auto simp: test_law)

lemma test_del: "inv s \<Longrightarrow> del s b = Some s' \<Longrightarrow> test s' c \<longleftrightarrow> c \<noteq> b \<and> test s c"
  using del_law [of s b s'] by (auto simp: test_law)

lemma add_then_del:
  assumes "inv s" "add s b = Inr s'" "b \<notin> abs s"
  shows "\<exists>s''. del s' b = Some s'' \<and> inv s'' \<and> abs s'' = abs s"
proof -
  from add_law [OF assms(1,2)] have a: "inv s'" "abs s' = insert b (abs s)" by auto
  then have "del s' b \<noteq> None" by (simp add: del_absent)
  then obtain s'' where "del s' b = Some s''" by auto
  with del_law [OF a(1) this] a assms(3) show ?thesis by auto
qed

end

interpretation badblocks: u32_set_ops "ext2fs_u32_list_add mal junk" ext2fs_u32_list_del
  ext2fs_u32_list_test u32_abs wf_u32
  by unfold_locales
    (rule u32_list_add_elems u32_list_del_Some u32_list_del_None u32_list_test_abs; assumption)+

section \<open>Properties\<close>

text \<open>
  C26.  \<open>ext2fs_u32_list_add\<close> is insertion into a set.  It fails exactly when the magic number of the
  list is wrong, with the code for that, and when the list is full and cannot be enlarged, with the
  code for a lack of memory; otherwise the list is well formed afterwards (strictly sorted, within its
  allocation) and its members are those before and the added block.
\<close>

theorem u32_list_add_correct:
  assumes "bb_magic bb = EXT2_ET_MAGIC_BADBLOCKS_LIST \<longrightarrow> wf_u32 bb"
  shows "case ext2fs_u32_list_add mal junk bb blk of
      Inl e \<Rightarrow> if bb_magic bb \<noteq> EXT2_ET_MAGIC_BADBLOCKS_LIST then e = EXT2_ET_MAGIC_BADBLOCKS_LIST
               else e = EXT2_ET_NO_MEMORY \<and> bb_num bb = bb_size bb \<and> \<not> mal ((bb_size bb + 100) * 4)
    | Inr bb' \<Rightarrow> bb_magic bb = EXT2_ET_MAGIC_BADBLOCKS_LIST \<and> (bb_num bb = bb_size bb \<longrightarrow> mal ((bb_size bb + 100) * 4))
        \<and> wf_u32 bb' \<and> u32_abs bb' = insert blk (u32_abs bb)
        \<and> (\<forall>c. ext2fs_u32_list_test bb' c \<longleftrightarrow> c = blk \<or> ext2fs_u32_list_test bb c)"
proof (cases "bb_magic bb = EXT2_ET_MAGIC_BADBLOCKS_LIST")
  case True
  with assms have wf: "wf_u32 bb" by simp
  show ?thesis
  proof (cases "ext2fs_u32_list_add mal junk bb blk")
    case (Inl e)
    then have "e = EXT2_ET_NO_MEMORY"
      using True by (auto simp: ext2fs_u32_list_add_def u32_list_grow_def Let_def split: if_splits option.splits)
    with Inl True u32_list_add_fails [OF wf, of mal junk blk] show ?thesis by auto
  next
    case (Inr bb')
    with True u32_list_add_fails [OF wf, of mal junk blk] badblocks.add_law [OF wf Inr] badblocks.test_add [OF wf Inr]
    show ?thesis by auto
  qed
qed (simp add: ext2fs_u32_list_add_def)

definition u32_demo :: u32_list where
  "u32_demo = \<lparr>bb_magic = EXT2_ET_MAGIC_BADBLOCKS_LIST, bb_num = 3, bb_size = 3,
              bb_list = [2, 5, 9], badblocks_flags = 0\<rparr>"

lemma wf_u32_demo: "wf_u32 u32_demo"
  by (simp add: wf_u32_def u32_demo_def)

lemma u32_abs_demo: "u32_abs u32_demo = {2, 5, 9}"
  by (simp add: u32_abs_def u32_elems_def u32_demo_def)

lemma u32_list_add_correct_witness:
  "\<exists>bb'. ext2fs_u32_list_add (\<lambda>_. True) 0 u32_demo 7 = Inr bb' \<and> u32_abs bb' = {2, 5, 7, 9}"
proof (cases "ext2fs_u32_list_add (\<lambda>_. True) 0 u32_demo 7")
  case (Inl e)
  have "bb_magic u32_demo = EXT2_ET_MAGIC_BADBLOCKS_LIST" by (simp add: u32_demo_def)
  with u32_list_add_correct [OF impI [OF wf_u32_demo], where mal = "\<lambda>_. True" and junk = 0 and blk = 7] Inl show ?thesis by simp
next
  case (Inr bb')
  with u32_list_add_correct [OF impI [OF wf_u32_demo], where mal = "\<lambda>_. True" and junk = 0 and blk = 7]
  have "u32_abs bb' = insert 7 (u32_abs u32_demo)" by simp
  then have "u32_abs bb' = {2, 5, 7, 9}" by (simp only: u32_abs_demo) blast
  with Inr show ?thesis by blast
qed

text \<open>
  \<open>ext2fs_u32_list_find\<close> returns the index of the block, in range, exactly when the block is
  in the list, and -1 otherwise: the binary search misses nothing although it never compares its
  bounds inside the loop.
\<close>

theorem u32_list_find_correct:
  assumes "wf_u32 bb"
  shows "if blk \<in> u32_abs bb
    then \<exists>i < bb_num bb. ext2fs_u32_list_find bb blk = int i \<and> bb_list bb ! i = blk
    else ext2fs_u32_list_find bb blk = - 1"
proof (cases "blk \<in> u32_abs bb")
  case True
  with u32_list_find_complete [OF assms] show ?thesis by (auto simp: u32_abs_nth [OF assms])
next
  case False
  with u32_list_find_sound [OF assms, of blk] show ?thesis by (auto simp: u32_abs_nth [OF assms])
qed

lemma u32_list_find_correct_witness:
  "9 \<in> u32_abs u32_demo \<and> ext2fs_u32_list_find u32_demo 9 = 2 \<and> ext2fs_u32_list_find u32_demo 4 = - 1"
  using u32_list_find_correct [OF wf_u32_demo, of 9] u32_list_find_correct [OF wf_u32_demo, of 4]
  by (auto simp: u32_abs_demo) (simp add: ext2fs_u32_list_find_def u32_demo_def)

text \<open>
  \<open>ext2fs_u32_list_del\<close> removes the block when it is there, keeping the list well formed, and
  fails without a change exactly when it is not.
\<close>

theorem u32_list_del_correct:
  assumes "wf_u32 bb"
  shows "case ext2fs_u32_list_del bb blk of
      None \<Rightarrow> blk \<notin> u32_abs bb
    | Some bb' \<Rightarrow> blk \<in> u32_abs bb \<and> wf_u32 bb' \<and> u32_abs bb' = u32_abs bb - {blk}"
  using badblocks.del_absent [OF assms, of blk] badblocks.del_law [OF assms, of blk]
  by (cases "ext2fs_u32_list_del bb blk") auto

lemma u32_list_del_correct_witness:
  "\<exists>bb'. ext2fs_u32_list_del u32_demo 5 = Some bb' \<and> u32_abs bb' = {2, 9}"
  using u32_list_del_correct [OF wf_u32_demo, of 5]
  by (cases "ext2fs_u32_list_del u32_demo 5") (simp_all add: u32_abs_demo insert_Diff_if)

text \<open>
  A full iteration over a list terminates and yields the blocks in strictly increasing order,
  each one once; \<open>ext2fs_u32_list_equal\<close> decides whether two lists hold the same set.
\<close>

theorem u32_list_iterate_correct:
  assumes "wf_u32 bb" "wf_u32 bb2" "ext2fs_u32_list_iterate_begin mal bb = Inr it"
  shows "\<exists>xs. u32_iterate_all (Suc (ext2fs_u32_list_count bb)) it = Some xs
      \<and> sorted_wrt (<) xs \<and> set xs = u32_abs bb
    \<and> ext2fs_u32_list_equal bb bb2 = Inr (u32_abs bb = u32_abs bb2)"
proof -
  have it: "it_bb it = bb" "it_ptr it = 0" "it_magic it = EXT2_ET_MAGIC_BADBLOCKS_ITERATE"
    using assms by (auto simp: ext2fs_u32_list_iterate_begin_def split: if_splits)
  have "u32_iterate_all (Suc (ext2fs_u32_list_count bb)) it = Some (u32_elems bb)"
    using iterate_all_from [of it "Suc (bb_num bb)"] it assms(1) by (simp add: ext2fs_u32_list_count_def)
  moreover have s: "sorted_wrt (<) (u32_elems bb)" "sorted_wrt (<) (u32_elems bb2)"
    using assms by (simp_all add: wf_u32_def u32_elems_def)
  moreover have "ext2fs_u32_list_equal bb bb2 = Inr (u32_elems bb = u32_elems bb2)"
    using wf_u32_length [OF assms(1)] wf_u32_length [OF assms(2)] assms(1,2)
    by (cases "bb_num bb = bb_num bb2")
      (auto simp: ext2fs_u32_list_equal_def wf_u32_def u32_elems_def dest: arg_cong [of _ _ length])
  moreover have "u32_elems bb = u32_elems bb2 \<longleftrightarrow> u32_abs bb = u32_abs bb2"
    using sorted_elems_unique [OF s] by (auto simp: u32_abs_def)
  ultimately show ?thesis by (auto simp: u32_abs_def)
qed

lemma u32_list_iterate_correct_witness:
  "\<exists>it xs. ext2fs_u32_list_iterate_begin (\<lambda>_. True) u32_demo = Inr it
     \<and> u32_iterate_all 4 it = Some xs \<and> set xs = {2, 5, 9}"
proof -
  obtain it where it: "ext2fs_u32_list_iterate_begin (\<lambda>_. True) u32_demo = Inr it"
    by (simp add: ext2fs_u32_list_iterate_begin_def u32_demo_def)
  have n: "Suc (ext2fs_u32_list_count u32_demo) = 4" by (simp add: ext2fs_u32_list_count_def u32_demo_def)
  from u32_list_iterate_correct [OF wf_u32_demo wf_u32_demo it] obtain xs where
    "u32_iterate_all 4 it = Some xs" "set xs = u32_abs u32_demo" by (auto simp: n)
  with it show ?thesis by (simp add: u32_abs_demo)
qed

end
