(* ===== verification/Badblocks_File.thy ===== *)
theory Badblocks_File
  imports U32_List
begin

text \<open>
  The reader of a bad blocks file, \<open>lib/ext2fs/read_bb_file.c\<close>, a client of the block list.  The
  file itself is input: a list with, for every line \<open>fgets\<close> delivers, what
  \<open>sscanf(buf, "%llu", &blockno)\<close> makes of it, \<open>None\<close> when no number was converted.  The loop is
  written over the insertion operation it calls, its lemmas are proved from the interface
  \<open>u32_set_ops\<close> only, and the property rests on the interpretation for \<open>badblocks.c\<close>.
\<close>

section \<open>The reader\<close>

record bb_filsys =
  fs_magic_ok :: bool
  fs_first_data_block :: u32
  fs_blocks_count :: u64

text \<open>
  The result: the error code (\<open>None\<close> for 0), the list as the reader leaves it, and the block
  numbers the \<open>invalid\<close> callback was called with, oldest first.
\<close>

fun read_bb_lines ::
  "('s \<Rightarrow> u32 \<Rightarrow> errcode + 's) \<Rightarrow> bb_filsys option \<Rightarrow> u64 option list \<Rightarrow> 's
   \<Rightarrow> errcode option \<times> 's \<times> u64 list" where
  "read_bb_lines add fs [] s = (None, s, [])"
| "read_bb_lines add fs (None # ls) s = read_bb_lines add fs ls s"
| "read_bb_lines add fs (Some blockno # ls) s =
     (if drop_bit 32 blockno \<noteq> 0 then (Some EOVERFLOW, s, [])
      else if (case fs of None \<Rightarrow> False
               | Some f \<Rightarrow> blockno < ucast (fs_first_data_block f) \<or> blockno \<ge> fs_blocks_count f)
      then (case read_bb_lines add fs ls s of (e, s', bad) \<Rightarrow> (e, s', blockno # bad))
      else case add s (ucast blockno) of
             Inl e \<Rightarrow> (Some e, s, [])
           | Inr s' \<Rightarrow> read_bb_lines add fs ls s')"

definition ext2fs_read_bb_FILE2 ::
  "malloc \<Rightarrow> u32 \<Rightarrow> bb_filsys option \<Rightarrow> u64 option list \<Rightarrow> u32_list option
   \<Rightarrow> errcode option \<times> u32_list option \<times> u64 list" where
  "ext2fs_read_bb_FILE2 mal junk fs ls bb_list0 =
     (if (case fs of None \<Rightarrow> False | Some f \<Rightarrow> \<not> fs_magic_ok f)
      then (Some EXT2_ET_MAGIC_EXT2FS_FILSYS, bb_list0, [])
      else case (case bb_list0 of None \<Rightarrow> ext2fs_u32_list_create mal 10 | Some bb \<Rightarrow> Inr bb) of
             Inl e \<Rightarrow> (Some e, bb_list0, [])
           | Inr bb \<Rightarrow>
               (case read_bb_lines (ext2fs_u32_list_add mal junk) fs ls bb of
                  (e, bb', bad) \<Rightarrow> (e, Some bb', bad)))"

section \<open>What a file says\<close>

definition bb_valid :: "bb_filsys option \<Rightarrow> u64 \<Rightarrow> bool" where
  "bb_valid fs b \<longleftrightarrow> (case fs of None \<Rightarrow> True
     | Some f \<Rightarrow> ucast (fs_first_data_block f) \<le> b \<and> b < fs_blocks_count f)"

text \<open>The numbers of a file, in order.\<close>

definition bb_numbers :: "u64 option list \<Rightarrow> u64 list" where
  "bb_numbers ls = List.map_filter (\<lambda>l. l) ls"

lemma bb_numbers_simps [simp]:
  "bb_numbers [] = []" "bb_numbers (None # ls) = bb_numbers ls"
  "bb_numbers (Some b # ls) = b # bb_numbers ls"
  by (simp_all add: bb_numbers_def map_filter_simps)

context u32_set_ops
begin

lemma read_bb_lines_ok:
  "inv s \<Longrightarrow> read_bb_lines add fs ls s = (None, s', bad) \<Longrightarrow>
   inv s' \<and> abs s' = abs s \<union> ucast ` {b \<in> set (bb_numbers ls). bb_valid fs b}
   \<and> bad = filter (\<lambda>b. \<not> bb_valid fs b) (bb_numbers ls)
   \<and> (\<forall>b \<in> set (bb_numbers ls). drop_bit 32 b = 0)"
proof (induction ls arbitrary: s bad)
  case (Cons l ls)
  show ?case
  proof (cases l)
    case None
    with Cons show ?thesis by simp
  next
    case (Some blockno)
    with Cons.prems(2) have no_ov: "drop_bit 32 blockno = 0" by (auto split: if_splits)
    show ?thesis
    proof (cases "bb_valid fs blockno")
      case False
      then have inval: "(case fs of None \<Rightarrow> False
          | Some f \<Rightarrow> blockno < ucast (fs_first_data_block f) \<or> blockno \<ge> fs_blocks_count f)"
        by (auto simp: bb_valid_def not_le not_less split: option.splits)
      with Cons.prems(2) no_ov Some obtain bad' where
        "read_bb_lines add fs ls s = (None, s', bad')" "bad = blockno # bad'"
        by (auto split: prod.splits)
      with Cons.IH [OF Cons.prems(1)] no_ov False Some show ?thesis by auto
    next
      case True
      then have val: "\<not> (case fs of None \<Rightarrow> False
          | Some f \<Rightarrow> blockno < ucast (fs_first_data_block f) \<or> blockno \<ge> fs_blocks_count f)"
        by (auto simp: bb_valid_def split: option.splits)
      with Cons.prems(2) no_ov Some obtain s1 where
        a: "add s (ucast blockno) = Inr s1" and r: "read_bb_lines add fs ls s1 = (None, s', bad)"
        by (auto split: sum.splits)
      from add_law [OF Cons.prems(1) a] have s1: "inv s1" "abs s1 = insert (ucast blockno) (abs s)" by auto
      from Cons.IH [OF s1(1) r] no_ov s1(2) True Some show ?thesis by auto
    qed
  qed
qed simp

end

text \<open>
  C27.  When \<open>ext2fs_read_bb_FILE2\<close> succeeds, the list holds what it held before and exactly the
  numbers of the file that lie inside the file system, none of which exceeds 32 bits, and the
  callback has been called with exactly the other ones, in file order.
\<close>

theorem read_bb_FILE2_correct:
  assumes "wf_u32 bb"
    and "ext2fs_read_bb_FILE2 mal junk fs ls (Some bb) = (None, Some bb', bad)"
  shows "wf_u32 bb' \<and> u32_abs bb' = u32_abs bb \<union> ucast ` {b \<in> set (bb_numbers ls). bb_valid fs b}
    \<and> bad = filter (\<lambda>b. \<not> bb_valid fs b) (bb_numbers ls)
    \<and> (\<forall>b \<in> set (bb_numbers ls). drop_bit 32 b = 0)"
proof (rule badblocks.read_bb_lines_ok [OF assms(1)])
  show "read_bb_lines (ext2fs_u32_list_add mal junk) fs ls bb = (None, bb', bad)"
    using assms(2) by (auto simp: ext2fs_read_bb_FILE2_def split: if_splits prod.splits)
qed

lemma read_bb_FILE2_correct_witness:
  "\<exists>bb'. ext2fs_read_bb_FILE2 (\<lambda>_. True) 0 (Some \<lparr>fs_magic_ok = True, fs_first_data_block = 1, fs_blocks_count = 100\<rparr>)
      [Some 12, None, Some 200] (Some u32_demo) = (None, Some bb', [200])
    \<and> u32_abs bb' = {2, 5, 9, 12}"
proof -
  let ?fs = "Some \<lparr>fs_magic_ok = True, fs_first_data_block = 1, fs_blocks_count = 100\<rparr>"
  obtain bb' where a: "ext2fs_u32_list_add (\<lambda>_. True) 0 u32_demo 12 = Inr bb'"
    using u32_list_add_fails [OF wf_u32_demo, of "\<lambda>_. True" 0 12]
    by (cases "ext2fs_u32_list_add (\<lambda>_. True) 0 u32_demo 12") auto
  then have r: "ext2fs_read_bb_FILE2 (\<lambda>_. True) 0 ?fs [Some 12, None, Some 200] (Some u32_demo)
      = (None, Some bb', [200])"
    by (simp add: ext2fs_read_bb_FILE2_def)
  from read_bb_FILE2_correct [OF wf_u32_demo r]
  have "u32_abs bb' = u32_abs u32_demo \<union> ucast ` {b. (b = 12 \<or> b = 200) \<and> bb_valid ?fs b}" by simp
  moreover have "{b. (b = 12 \<or> b = 200) \<and> bb_valid ?fs b} = {12 :: u64}" by (auto simp: bb_valid_def)
  ultimately have "u32_abs bb' = {2, 5, 9} \<union> {12}" by (simp add: u32_abs_demo)
  with r show ?thesis by blast
qed

end
