(* ===== verification/Sorted_Array.thy ===== *)
theory Sorted_Array
  imports E2fs_Prelude
begin

text \<open>
  Arrays sorted by a key, which the reference counts of attribute blocks and the inode counts are kept
  in: the binary search, the \<open>memmove\<close> that makes room for an element, and the meaning of such an array
  as a total function from keys to values, 0 where there is no element.
\<close>

section \<open>Binary search\<close>

text \<open>\<open>Inl mid\<close> on a hit, \<open>Inr low\<close> with the final lower bound otherwise.\<close>

function key_search :: "('a \<Rightarrow> 'k::linorder) \<Rightarrow> 'a list \<Rightarrow> 'k \<Rightarrow> int \<Rightarrow> int \<Rightarrow> nat + nat" where
  "key_search key xs k low high =
     (if low \<le> high
      then let mid = (low + high) div 2 in
           if k = key (xs ! nat mid) then Inl (nat mid)
           else if k < key (xs ! nat mid) then key_search key xs k low (mid - 1)
           else key_search key xs k (mid + 1) high
      else Inr (nat low))"
  by pat_completeness auto
termination
  by (relation "measure (\<lambda>(key, xs, k, low, high). nat (high - low + 1))") auto

declare key_search.simps [simp del]

lemma key_search_spec:
  assumes srt: "\<And>i j. i < j \<Longrightarrow> j < n \<Longrightarrow> key (xs ! i) < key (xs ! j)"
    and "0 \<le> low" "low \<le> high + 1" "high < int n"
    and "\<forall>i. int i < low \<longrightarrow> key (xs ! i) < k" "\<forall>i < n. high < int i \<longrightarrow> k < key (xs ! i)"
  shows "case key_search key xs k low high of
      Inl m \<Rightarrow> m < n \<and> key (xs ! m) = k
    | Inr l \<Rightarrow> l \<le> n \<and> (\<forall>i < l. key (xs ! i) < k) \<and> (\<forall>i < n. l \<le> i \<longrightarrow> k < key (xs ! i))"
  using assms
proof (induction key xs k low high rule: key_search.induct)
  case (1 key xs k low high)
  note srt = "1.prems"(1)
  let ?mid = "(low + high) div 2"
  show ?case
  proof (cases "low \<le> high")
    case False
    with "1.prems" show ?thesis by (simp add: key_search.simps [of key xs k low high])
  next
    case True
    have mid: "low \<le> ?mid" "?mid \<le> high" "nat ?mid < n" using True "1.prems" by auto
    consider "k = key (xs ! nat ?mid)" | "k < key (xs ! nat ?mid)" | "key (xs ! nat ?mid) < k"
      by (meson linorder_less_linear)
    then show ?thesis
    proof cases
      case 1
      then have "key_search key xs k low high = Inl (nat ?mid)"
        using True by (subst key_search.simps) (simp add: Let_def)
      with 1 mid show ?thesis by simp
    next
      case 2
      have above: "\<forall>i < n. ?mid - 1 < int i \<longrightarrow> k < key (xs ! i)"
      proof (intro allI impI)
        fix i assume i: "i < n" "?mid - 1 < int i"
        with mid 2 srt [of "nat ?mid" i] show "k < key (xs ! i)"
          by (cases "i = nat ?mid") (auto intro: less_trans)
      qed
      then have "k \<noteq> key (xs ! nat ?mid)" using 2 by (metis less_irrefl)
      then have "key_search key xs k low high = key_search key xs k low (?mid - 1)"
        using True 2 by (simp add: key_search.simps [of key xs k low high] Let_def)
      then show ?thesis
        using "1.IH"(1) [OF True refl _ 2 srt] "1.prems" above mid 2 by auto
    next
      case 3
      have below: "\<forall>i. int i < ?mid + 1 \<longrightarrow> key (xs ! i) < k"
      proof (intro allI impI)
        fix i assume "int i < ?mid + 1"
        then have "i = nat ?mid \<or> i < nat ?mid" by linarith
        with mid(3) 3 srt [of i "nat ?mid"] show "key (xs ! i) < k"
          by (auto intro: less_trans)
      qed
      have ne: "k \<noteq> key (xs ! nat ?mid)" "\<not> k < key (xs ! nat ?mid)" using 3 by auto
      then have "key_search key xs k low high = key_search key xs k (?mid + 1) high"
        using True by (simp add: key_search.simps [of key xs k low high] Let_def)
      then show ?thesis
        using "1.IH"(2) [OF True refl ne srt] "1.prems" below mid by auto
    qed
  qed
qed

section \<open>Making room\<close>

text \<open>The \<open>memmove\<close> of \<open>num\<close> elements from \<open>pos\<close> to \<open>pos + 1\<close>.\<close>

definition memmove_up :: "'a list \<Rightarrow> nat \<Rightarrow> nat \<Rightarrow> 'a list" where
  "memmove_up xs pos num =
     take (pos + 1) xs @ take num (drop pos xs) @ drop (pos + 1 + num) xs"

lemma memmove_up_take:
  assumes "pos < n" "n < length xs"
  shows "length (memmove_up xs pos (n - pos)) = length xs"
    "take (Suc n) ((memmove_up xs pos (n - pos))[pos := e]) = take pos xs @ e # drop pos (take n xs)"
proof -
  show "length (memmove_up xs pos (n - pos)) = length xs"
    using assms by (simp add: memmove_up_def)
  have "(memmove_up xs pos (n - pos))[pos := e] = take pos xs @ e # take (n - pos) (drop pos xs) @ drop (Suc n) xs"
    using assms by (simp add: memmove_up_def list_update_append take_Suc_conv_app_nth)
  then show "take (Suc n) ((memmove_up xs pos (n - pos))[pos := e]) = take pos xs @ e # drop pos (take n xs)"
    using assms by (simp add: take_drop Suc_diff_le)
qed

text \<open>Moving nothing when the element goes to the end, as the code does.\<close>

lemma insert_at_take:
  assumes "pos \<le> n" "n < length xs"
  shows "length ((if n - pos \<noteq> 0 then memmove_up xs pos (n - pos) else xs)[pos := e]) = length xs"
    "take (Suc n) ((if n - pos \<noteq> 0 then memmove_up xs pos (n - pos) else xs)[pos := e]) = take pos xs @ e # drop pos (take n xs)"
proof -
  show "length ((if n - pos \<noteq> 0 then memmove_up xs pos (n - pos) else xs)[pos := e]) = length xs"
    using memmove_up_take(1) [of pos n xs] assms by auto
  show "take (Suc n) ((if n - pos \<noteq> 0 then memmove_up xs pos (n - pos) else xs)[pos := e]) = take pos xs @ e # drop pos (take n xs)"
  proof (cases "n = pos")
    case True
    with assms show ?thesis by (simp add: take_Suc_conv_app_nth)
  next
    case False
    with assms memmove_up_take(2) [of pos n xs e] show ?thesis by simp
  qed
qed

section \<open>The function that a sorted array stands for\<close>

definition sorted_keys :: "('a \<Rightarrow> 'k::linorder) \<Rightarrow> 'a list \<Rightarrow> bool" where
  "sorted_keys key es = sorted_wrt (\<lambda>a b. key a < key b) es"

fun val_of :: "('a \<Rightarrow> 'k) \<Rightarrow> ('a \<Rightarrow> 'v::zero) \<Rightarrow> 'a list \<Rightarrow> 'k \<Rightarrow> 'v" where
  "val_of key val [] k = 0"
| "val_of key val (e # es) k = (if key e = k then val e else val_of key val es k)"

lemma sorted_keys_nth: "sorted_keys key es \<Longrightarrow> i < j \<Longrightarrow> j < length es \<Longrightarrow> key (es ! i) < key (es ! j)"
  by (simp add: sorted_keys_def sorted_wrt_iff_nth_less)

lemma val_of_absent: "k \<notin> key ` set es \<Longrightarrow> val_of key val es k = 0"
  by (induction es) auto

lemma val_of_nth: "sorted_keys key es \<Longrightarrow> i < length es \<Longrightarrow> val_of key val es (key (es ! i)) = val (es ! i)"
proof (induction es arbitrary: i)
  case (Cons e es)
  then show ?case
    by (cases i) (auto simp: sorted_keys_def)
qed simp

lemma val_of_append: "val_of key val (xs @ ys) k = (if k \<in> key ` set xs then val_of key val xs k else val_of key val ys k)"
  by (induction xs) auto

text \<open>A new element of value 0, and a new value of an element.\<close>

lemma val_of_insert_zero:
  assumes "val e = 0" "key e \<notin> key ` set es"
  shows "val_of key val (take i es @ e # drop i es) = val_of key val es"
proof
  fix k
  have "val_of key val es k = (if k \<in> key ` set (take i es) then val_of key val (take i es) k else val_of key val (drop i es) k)"
    using val_of_append [of key val "take i es" "drop i es" k] by simp
  moreover have "key e \<notin> key ` set (take i es)" using assms(2) by (auto dest: in_set_takeD)
  ultimately show "val_of key val (take i es @ e # drop i es) k = val_of key val es k"
    using val_of_absent [OF assms(2), of val] assms(1) by (cases "key e = k") (auto simp: val_of_append)
qed

lemma sorted_keys_insert:
  assumes "sorted_keys key es" "\<forall>a\<in>set (take i es). key a < key e" "\<forall>a\<in>set (drop i es). key e < key a"
  shows "sorted_keys key (take i es @ e # drop i es)"
proof -
  have "sorted_keys key (take i es @ drop i es)" using assms(1) by simp
  with assms(2,3) show ?thesis unfolding sorted_keys_def sorted_wrt_append by auto
qed

lemma val_of_update:
  assumes "sorted_keys key es" "i < length es" "key e = key (es ! i)"
  shows "val_of key val (es[i := e]) = (val_of key val es)(key (es ! i) := val e)"
  using assms
proof (induction es arbitrary: i)
  case (Cons a es)
  then show ?case by (cases i) (auto simp: sorted_keys_def fun_eq_iff)
qed simp

lemma sorted_keys_update:
  "sorted_keys key es \<Longrightarrow> i < length es \<Longrightarrow> key e = key (es ! i) \<Longrightarrow> sorted_keys key (es[i := e])"
  by (auto simp: sorted_keys_def sorted_wrt_iff_nth_less nth_list_update)

text \<open>The last key bounds all others.\<close>

lemma keys_below_last:
  assumes "sorted_keys key es" "es \<noteq> []" "e \<in> set es"
  shows "key e \<le> key (es ! (length es - 1))"
proof -
  obtain i where i: "i < length es" "e = es ! i" using assms(3) by (auto simp: in_set_conv_nth)
  then show ?thesis
    using sorted_keys_nth [OF assms(1), of i "length es - 1"] by (cases "i = length es - 1") (auto intro: less_imp_le)
qed

end
