(* ===== verification/EA_Refcount.thy ===== *)
theory EA_Refcount
  imports Sorted_Array
begin

text \<open>
  The reference counts of extended attribute blocks, \<open>e2fsck/ea_refcount.c\<close>: a sorted array of
  (key, count) entries with a cursor for sequential access, entries of count zero dropped lazily
  when the array is full.  A pointer to an element is its index; a null \<open>ext2_refcount_t\<close> is
  \<open>None\<close>.  The specification is a total function from keys to counts, 0 where there is no entry;
  the interface is the locale \<open>counter_map\<close>.
\<close>

section \<open>The structure and its operations\<close>

record ea_refcount_el =
  ea_key :: u64
  ea_value :: u64

record ea_refcount =
  rc_count :: nat
  rc_size :: nat
  rc_cursor :: nat
  rc_list :: "ea_refcount_el list"

type_synonym ext2_refcount_t = "ea_refcount option"

definition ea_refcount_create :: "malloc \<Rightarrow> nat \<Rightarrow> errcode + ext2_refcount_t" where
  "ea_refcount_create mal sz0 =
     (let sz = (if sz0 = 0 then 500 else sz0) in
      if \<not> mal 32 then Inl EXT2_ET_NO_MEMORY
      else if \<not> mal (sz * 16) then Inl EXT2_ET_NO_MEMORY
      else Inr (Some \<lparr>rc_count = 0, rc_size = sz, rc_cursor = 0,
                      rc_list = replicate sz \<lparr>ea_key = 0, ea_value = 0\<rparr>\<rparr>))"

text \<open>The loop of \<open>refcount_collapse\<close>: entry \<open>i\<close> is moved down to \<open>j\<close> unless its count is 0.\<close>

function collapse_loop ::
  "ea_refcount_el list \<Rightarrow> nat \<Rightarrow> nat \<Rightarrow> nat \<Rightarrow> ea_refcount_el list \<times> nat" where
  "collapse_loop xs n i j =
     (if i < n
      then if ea_value (xs ! i) \<noteq> 0
           then collapse_loop (if i \<noteq> j then xs[j := xs ! i] else xs) n (i + 1) (j + 1)
           else collapse_loop xs n (i + 1) j
      else (xs, j))"
  by pat_completeness auto
termination
  by (relation "measure (\<lambda>(xs, n, i, j). n - i)") auto

declare collapse_loop.simps [simp del]

definition refcount_collapse :: "ea_refcount \<Rightarrow> ea_refcount" where
  "refcount_collapse rc =
     (case collapse_loop (rc_list rc) (rc_count rc) 0 0 of
        (xs, j) \<Rightarrow> rc\<lparr>rc_list := xs, rc_count := j\<rparr>)"

definition insert_refcount_el ::
  "malloc \<Rightarrow> ea_refcount_el \<Rightarrow> ea_refcount \<Rightarrow> u64 \<Rightarrow> nat \<Rightarrow> nat option \<times> ea_refcount" where
  "insert_refcount_el mal junk rc0 key pos =
     (let new_size = rc_size rc0 + 100 in
      if rc_count rc0 \<ge> rc_size rc0 \<and> \<not> mal (new_size * 16) then (None, rc0)
      else
        let rc = (if rc_count rc0 \<ge> rc_size rc0
                  then rc0\<lparr>rc_list := resize_arr junk new_size (rc_list rc0), rc_size := new_size\<rparr>
                  else rc0)
        in if rc_count rc < pos then (None, rc)
           else let num = rc_count rc - pos;
                    xs = (if num \<noteq> 0 then memmove_up (rc_list rc) pos num else rc_list rc)
                in (Some pos, rc\<lparr>rc_list := xs[pos := \<lparr>ea_key = key, ea_value = 0\<rparr>],
                                 rc_count := rc_count rc + 1\<rparr>))"

text \<open>The binary search, \<open>Inl\<close> on a hit and \<open>Inr\<close> with the final lower bound otherwise.\<close>

definition el_search :: "ea_refcount_el list \<Rightarrow> u64 \<Rightarrow> int \<Rightarrow> int \<Rightarrow> nat + nat" where
  "el_search xs key low high = key_search ea_key xs key low high"

text \<open>
  \<open>get_refcount_el\<close>.  The \<open>goto retry\<close> runs at most once, as the collapse that precedes it has
  made room.
\<close>

function get_el ::
  "malloc \<Rightarrow> ea_refcount_el \<Rightarrow> ea_refcount \<Rightarrow> u64 \<Rightarrow> bool \<Rightarrow> nat option \<times> ea_refcount" where
  "get_el mal junk rc key create =
     (if create \<and> (rc_count rc = 0 \<or> key > ea_key (rc_list rc ! (rc_count rc - 1)))
      then let rc' = (if rc_count rc \<ge> rc_size rc then refcount_collapse rc else rc)
           in insert_refcount_el mal junk rc' key (rc_count rc')
      else if rc_count rc = 0 then (None, rc)
      else
        let cur = (if rc_cursor rc \<ge> rc_count rc then 0 else rc_cursor rc) in
        if key = ea_key (rc_list rc ! cur) then (Some cur, rc\<lparr>rc_cursor := cur + 1\<rparr>)
        else case el_search (rc_list rc) key 0 (int (rc_count rc) - 1) of
               Inl mid \<Rightarrow> (Some mid, rc\<lparr>rc_cursor := mid + 1\<rparr>)
             | Inr low \<Rightarrow>
                 if create
                 then if rc_count rc \<ge> rc_size rc
                      then let rc' = refcount_collapse (rc\<lparr>rc_cursor := cur\<rparr>) in
                           if rc_count rc' < rc_size rc' then get_el mal junk rc' key create
                           else insert_refcount_el mal junk rc' key low
                      else insert_refcount_el mal junk (rc\<lparr>rc_cursor := cur\<rparr>) key low
                 else (None, rc\<lparr>rc_cursor := cur\<rparr>))"
  by pat_completeness auto
termination
  by (relation "measure (\<lambda>(mal, junk, rc, key, create). if rc_count rc \<ge> rc_size rc then 1 else 0)")
    auto

declare get_el.simps [simp del]

definition get_refcount_el ::
  "malloc \<Rightarrow> ea_refcount_el \<Rightarrow> ext2_refcount_t \<Rightarrow> u64 \<Rightarrow> bool \<Rightarrow> nat option \<times> ext2_refcount_t" where
  "get_refcount_el mal junk r key create =
     (case r of None \<Rightarrow> (None, None)
      | Some rc \<Rightarrow> (case get_el mal junk rc key create of (el, rc') \<Rightarrow> (el, Some rc')))"

text \<open>Reading and writing through the element pointer.\<close>

definition el_value :: "ext2_refcount_t \<Rightarrow> nat \<Rightarrow> u64" where
  "el_value r i = (case r of None \<Rightarrow> 0 | Some rc \<Rightarrow> ea_value (rc_list rc ! i))"

definition set_el_value :: "ext2_refcount_t \<Rightarrow> nat \<Rightarrow> u64 \<Rightarrow> ext2_refcount_t" where
  "set_el_value r i v =
     map_option (\<lambda>rc. rc\<lparr>rc_list := (rc_list rc)[i := (rc_list rc ! i)\<lparr>ea_value := v\<rparr>]\<rparr>) r"

definition ea_refcount_fetch ::
  "malloc \<Rightarrow> ea_refcount_el \<Rightarrow> ext2_refcount_t \<Rightarrow> u64 \<Rightarrow> u64 \<times> ext2_refcount_t" where
  "ea_refcount_fetch mal junk r key =
     (case get_refcount_el mal junk r key False of
        (None, r') \<Rightarrow> (0, r')
      | (Some el, r') \<Rightarrow> (el_value r' el, r'))"

definition ea_refcount_increment ::
  "malloc \<Rightarrow> ea_refcount_el \<Rightarrow> ext2_refcount_t \<Rightarrow> u64 \<Rightarrow> (errcode + u64) \<times> ext2_refcount_t" where
  "ea_refcount_increment mal junk r key =
     (case get_refcount_el mal junk r key True of
        (None, r') \<Rightarrow> (Inl EXT2_ET_NO_MEMORY, r')
      | (Some el, r') \<Rightarrow>
          let v = el_value r' el + 1 in (Inr v, set_el_value r' el v))"

definition ea_refcount_decrement ::
  "malloc \<Rightarrow> ea_refcount_el \<Rightarrow> ext2_refcount_t \<Rightarrow> u64 \<Rightarrow> (errcode + u64) \<times> ext2_refcount_t" where
  "ea_refcount_decrement mal junk r key =
     (case get_refcount_el mal junk r key False of
        (None, r') \<Rightarrow> (Inl EXT2_ET_INVALID_ARGUMENT, r')
      | (Some el, r') \<Rightarrow>
          if el_value r' el = 0 then (Inl EXT2_ET_INVALID_ARGUMENT, r')
          else let v = el_value r' el - 1 in (Inr v, set_el_value r' el v))"

definition ea_refcount_store ::
  "malloc \<Rightarrow> ea_refcount_el \<Rightarrow> ext2_refcount_t \<Rightarrow> u64 \<Rightarrow> u64 \<Rightarrow> errcode option \<times> ext2_refcount_t" where
  "ea_refcount_store mal junk r key v =
     (case get_refcount_el mal junk r key (v \<noteq> 0) of
        (None, r') \<Rightarrow> (if v \<noteq> 0 then Some EXT2_ET_NO_MEMORY else None, r')
      | (Some el, r') \<Rightarrow> (None, set_el_value r' el v))"

definition ext2fs_get_refcount_size :: "ext2_refcount_t \<Rightarrow> nat" where
  "ext2fs_get_refcount_size r = (case r of None \<Rightarrow> 0 | Some rc \<Rightarrow> rc_size rc)"

definition ea_refcount_intr_begin :: "ea_refcount \<Rightarrow> ea_refcount" where
  "ea_refcount_intr_begin rc = rc\<lparr>rc_cursor := 0\<rparr>"

text \<open>One step of the iteration: the key (0 at the end), the count written to \<open>*ret\<close> if any.\<close>

function ea_refcount_intr_next :: "ea_refcount \<Rightarrow> u64 \<times> u64 option \<times> ea_refcount" where
  "ea_refcount_intr_next rc =
     (if rc_cursor rc \<ge> rc_count rc then (0, None, rc)
      else let el = rc_list rc ! rc_cursor rc; rc' = rc\<lparr>rc_cursor := rc_cursor rc + 1\<rparr> in
           if ea_value el \<noteq> 0 then (ea_key el, Some (ea_value el), rc')
           else ea_refcount_intr_next rc')"
  by pat_completeness auto
termination
  by (relation "measure (\<lambda>rc. rc_count rc - rc_cursor rc)") auto

declare ea_refcount_intr_next.simps [simp del]


section \<open>Invariant and abstraction\<close>

definition rc_elems :: "ea_refcount \<Rightarrow> ea_refcount_el list" where
  "rc_elems rc = take (rc_count rc) (rc_list rc)"

definition keys_sorted :: "ea_refcount_el list \<Rightarrow> bool" where
  "keys_sorted es \<longleftrightarrow> sorted_wrt (\<lambda>a b. ea_key a < ea_key b) es"

lemma keys_sorted_eq: "keys_sorted = sorted_keys ea_key"
  by (simp add: fun_eq_iff keys_sorted_def sorted_keys_def)

definition wf_rc :: "ea_refcount \<Rightarrow> bool" where
  "wf_rc rc \<longleftrightarrow> rc_count rc \<le> rc_size rc \<and> rc_size rc \<noteq> 0 \<and> length (rc_list rc) = rc_size rc
     \<and> keys_sorted (rc_elems rc)"

definition ents_lookup :: "ea_refcount_el list \<Rightarrow> u64 \<Rightarrow> u64" where
  "ents_lookup = val_of ea_key ea_value"

lemma ents_lookup_simps [simp]:
  "ents_lookup [] k = 0" "ents_lookup (e # es) k = (if ea_key e = k then ea_value e else ents_lookup es k)"
  by (simp_all add: ents_lookup_def)

definition rc_abs :: "ea_refcount \<Rightarrow> u64 \<Rightarrow> u64" where
  "rc_abs rc = ents_lookup (rc_elems rc)"

lemma wf_rc_length: "wf_rc rc \<Longrightarrow> length (rc_elems rc) = rc_count rc"
  by (simp add: wf_rc_def rc_elems_def)

lemma keys_sorted_nth: "keys_sorted es \<Longrightarrow> i < j \<Longrightarrow> j < length es \<Longrightarrow> ea_key (es ! i) < ea_key (es ! j)"
  unfolding keys_sorted_eq by (rule sorted_keys_nth)

lemma keys_sorted_inj:
  assumes "keys_sorted es" "i < length es" "j < length es" "ea_key (es ! i) = ea_key (es ! j)"
  shows "i = j"
  using keys_sorted_nth [OF assms(1), of i j] keys_sorted_nth [OF assms(1), of j i] assms
  by (cases i j rule: linorder_cases) auto

lemma lookup_absent: "k \<notin> ea_key ` set es \<Longrightarrow> ents_lookup es k = 0"
  unfolding ents_lookup_def by (rule val_of_absent)

lemma lookup_nth: "keys_sorted es \<Longrightarrow> i < length es \<Longrightarrow> ents_lookup es (ea_key (es ! i)) = ea_value (es ! i)"
  unfolding ents_lookup_def keys_sorted_eq by (rule val_of_nth)

lemma lookup_filter:
  "keys_sorted es \<Longrightarrow> ents_lookup (filter (\<lambda>e. ea_value e \<noteq> 0) es) k = ents_lookup es k"
proof (induction es)
  case (Cons e es)
  then have "ea_key e \<notin> ea_key ` set es" by (auto simp: keys_sorted_def)
  with Cons show ?case by (auto simp: keys_sorted_def lookup_absent)
qed simp

lemma keys_sorted_filter: "keys_sorted es \<Longrightarrow> keys_sorted (filter P es)"
  by (simp add: keys_sorted_def sorted_wrt_filter)

lemma lookup_update:
  "keys_sorted es \<Longrightarrow> i < length es \<Longrightarrow>
   ents_lookup (es[i := (es ! i)\<lparr>ea_value := v\<rparr>]) = (ents_lookup es)(ea_key (es ! i) := v)"
  unfolding ents_lookup_def keys_sorted_eq by (subst val_of_update) auto

lemma keys_sorted_update:
  "keys_sorted es \<Longrightarrow> i < length es \<Longrightarrow> keys_sorted (es[i := (es ! i)\<lparr>ea_value := v\<rparr>])"
  unfolding keys_sorted_eq by (rule sorted_keys_update) auto

section \<open>Collapse, search and insertion\<close>

lemma collapse_loop_spec:
  "\<lbrakk>collapse_loop xs n i j = (xs', j'); j \<le> i; i \<le> n; n \<le> length xs\<rbrakk> \<Longrightarrow>
   length xs' = length xs \<and> j' \<le> n \<and>
   take j' xs' = take j xs @ filter (\<lambda>e. ea_value e \<noteq> 0) (drop i (take n xs))"
proof (induction xs n i j rule: collapse_loop.induct)
  case (1 xs n i j)
  show ?case
  proof (cases "i < n")
    case True
    then have d: "drop i (take n xs) = xs ! i # drop (i + 1) (take n xs)"
      using "1.prems" Cons_nth_drop_Suc [of i "take n xs"] by simp
    show ?thesis
    proof (cases "ea_value (xs ! i) \<noteq> 0")
      case nz: True
      let ?xs = "if i \<noteq> j then xs[j := xs ! i] else xs"
      have rec: "collapse_loop ?xs n (i + 1) (j + 1) = (xs', j')"
        using "1.prems"(1) True nz by (simp add: collapse_loop.simps [of xs n i j])
      have "take (j + 1) ?xs = take j xs @ [xs ! i]"
        using "1.prems" True by (auto simp: take_Suc_conv_app_nth)
      moreover have "drop (i + 1) (take n ?xs) = drop (i + 1) (take n xs)"
        using "1.prems" by (auto simp: take_update_swap)
      ultimately show ?thesis
        using "1.IH"(1) [OF True nz rec] "1.prems" True nz d by auto
    next
      case False
      then have rec: "collapse_loop xs n (i + 1) j = (xs', j')"
        using "1.prems"(1) True by (simp add: collapse_loop.simps [of xs n i j])
      from "1.IH"(2) [OF True _ rec] "1.prems" True False d show ?thesis by auto
    qed
  next
    case False
    with "1.prems" show ?thesis by (simp add: collapse_loop.simps [of xs n i j])
  qed
qed

lemma collapse_spec:
  assumes "wf_rc rc"
  shows "wf_rc (refcount_collapse rc)" "rc_abs (refcount_collapse rc) = rc_abs rc"
    "rc_elems (refcount_collapse rc) = filter (\<lambda>e. ea_value e \<noteq> 0) (rc_elems rc)"
    "rc_size (refcount_collapse rc) = rc_size rc" "rc_count (refcount_collapse rc) \<le> rc_count rc"
proof -
  obtain xs j where c: "collapse_loop (rc_list rc) (rc_count rc) 0 0 = (xs, j)" by fastforce
  have n: "rc_count rc \<le> length (rc_list rc)" using assms by (simp add: wf_rc_def)
  from collapse_loop_spec [OF c _ _ n] have l: "length xs = length (rc_list rc)" "j \<le> rc_count rc"
    and f: "take j xs = filter (\<lambda>e. ea_value e \<noteq> 0) (rc_elems rc)" by (auto simp: rc_elems_def)
  have rc': "refcount_collapse rc = rc\<lparr>rc_list := xs, rc_count := j\<rparr>" by (simp add: refcount_collapse_def c)
  show e: "rc_elems (refcount_collapse rc) = filter (\<lambda>e. ea_value e \<noteq> 0) (rc_elems rc)"
    using f by (simp add: rc' rc_elems_def)
  show "wf_rc (refcount_collapse rc)"
    using assms l e keys_sorted_filter [of "rc_elems rc"] by (simp add: wf_rc_def rc')
  show "rc_abs (refcount_collapse rc) = rc_abs rc"
    using assms by (simp add: rc_abs_def e fun_eq_iff lookup_filter wf_rc_def)
  show "rc_size (refcount_collapse rc) = rc_size rc" "rc_count (refcount_collapse rc) \<le> rc_count rc"
    using l by (simp_all add: rc')
qed

lemma el_search_all:
  assumes "wf_rc rc"
  shows "case el_search (rc_list rc) key 0 (int (rc_count rc) - 1) of
      Inl m \<Rightarrow> m < rc_count rc \<and> ea_key (rc_list rc ! m) = key
    | Inr l \<Rightarrow> l \<le> rc_count rc \<and> (\<forall>i < l. ea_key (rc_list rc ! i) < key)
        \<and> (\<forall>i < rc_count rc. l \<le> i \<longrightarrow> key < ea_key (rc_list rc ! i))"
  unfolding el_search_def
proof (rule key_search_spec)
  fix i j assume "i < j" "j < rc_count rc"
  then show "ea_key (rc_list rc ! i) < ea_key (rc_list rc ! j)"
    using assms keys_sorted_nth [of "rc_elems rc" i j] by (simp add: wf_rc_def rc_elems_def)
qed simp_all

lemma insert_refcount_el_spec:
  assumes "wf_rc rc" "pos \<le> rc_count rc"
    and below: "\<forall>i < pos. ea_key (rc_list rc ! i) < key"
    and above: "\<forall>i < rc_count rc. pos \<le> i \<longrightarrow> key < ea_key (rc_list rc ! i)"
    and ins: "insert_refcount_el mal junk rc key pos = (r, rc')"
  shows "wf_rc rc' \<and> rc_abs rc' = rc_abs rc \<and> key \<notin> ea_key ` set (rc_elems rc)
    \<and> (case r of None \<Rightarrow> rc_count rc = rc_size rc \<and> \<not> mal ((rc_size rc + 100) * 16)
       | Some i \<Rightarrow> i < rc_count rc' \<and> ea_key (rc_list rc' ! i) = key)"
proof -
  have srt: "keys_sorted (rc_elems rc)" using assms(1) by (simp add: wf_rc_def)
  have absent: "key \<notin> ea_key ` set (rc_elems rc)"
  proof
    assume "key \<in> ea_key ` set (rc_elems rc)"
    then obtain i where "i < rc_count rc" "ea_key (rc_list rc ! i) = key"
      using wf_rc_length [OF assms(1)] by (auto simp: in_set_conv_nth rc_elems_def)
    with below above show False by (metis less_irrefl not_le)
  qed
  show ?thesis
  proof (cases "rc_count rc \<ge> rc_size rc \<and> \<not> mal ((rc_size rc + 100) * 16)")
    case True
    with ins assms(1) absent show ?thesis by (auto simp: insert_refcount_el_def Let_def wf_rc_def)
  next
    case False
    let ?n = "rc_count rc" and ?e = "\<lparr>ea_key = key, ea_value = 0\<rparr>"
    define rc1 where "rc1 = (if rc_count rc \<ge> rc_size rc
      then rc\<lparr>rc_list := resize_arr junk (rc_size rc + 100) (rc_list rc), rc_size := rc_size rc + 100\<rparr>
      else rc)"
    have rc1: "rc_count rc1 = ?n" "?n < length (rc_list rc1)" "length (rc_list rc1) = rc_size rc1"
      "take ?n (rc_list rc1) = rc_elems rc" "rc_size rc1 \<noteq> 0"
      using assms(1) by (auto simp: rc1_def wf_rc_def rc_elems_def array_simps)
    let ?xs = "if ?n - pos \<noteq> 0 then memmove_up (rc_list rc1) pos (?n - pos) else rc_list rc1"
    from ins False assms(2) rc1(1) have res: "r = Some pos"
      "rc' = rc1\<lparr>rc_list := ?xs[pos := ?e], rc_count := ?n + 1\<rparr>"
      by (auto simp: insert_refcount_el_def Let_def rc1_def)
    note ins' = insert_at_take [OF assms(2) rc1(2), of ?e]
    have "take pos (rc_list rc1) = take pos (rc_elems rc)"
      using rc1(4) assms(2) by (metis min.absorb1 take_take)
    with ins' have len: "length (rc_list rc') = rc_size rc'" and
      el: "rc_elems rc' = take pos (rc_elems rc) @ ?e # drop pos (rc_elems rc)"
      using rc1 by (simp_all add: res rc_elems_def)
    have "\<forall>a \<in> set (take pos (rc_elems rc)). ea_key a < key" "\<forall>a \<in> set (drop pos (rc_elems rc)). key < ea_key a"
      using below above wf_rc_length [OF assms(1)] assms(2)
      by (auto simp: in_set_conv_nth rc_elems_def)
    then have "keys_sorted (rc_elems rc')"
      using srt unfolding el keys_sorted_eq by (intro sorted_keys_insert) auto
    moreover have "rc_abs rc' = rc_abs rc"
      using absent by (simp add: rc_abs_def el ents_lookup_def val_of_insert_zero)
    moreover have "ea_key (rc_list rc' ! pos) = key"
      using ins'(1) assms(2) rc1(2) by (simp add: res)
    ultimately show ?thesis using len rc1 absent assms(2) by (simp add: wf_rc_def res)
  qed
qed


section \<open>Finding or creating an entry\<close>

lemma wf_rc_cursor [simp]: "wf_rc (rc\<lparr>rc_cursor := c\<rparr>) = wf_rc rc" "rc_abs (rc\<lparr>rc_cursor := c\<rparr>) = rc_abs rc"
  "rc_elems (rc\<lparr>rc_cursor := c\<rparr>) = rc_elems rc"
  by (simp_all add: wf_rc_def rc_abs_def rc_elems_def)

text \<open>What \<open>get_refcount_el\<close> promises: the table's meaning is unchanged and the element it returns is
  the one of the key; without \<open>create\<close> it fails only for absent keys, with it only for lack of
  memory.\<close>

definition el_found :: "malloc \<Rightarrow> ea_refcount \<Rightarrow> u64 \<Rightarrow> bool \<Rightarrow> nat option \<times> ea_refcount \<Rightarrow> bool" where
  "el_found mal rc key create res \<longleftrightarrow> wf_rc (snd res) \<and> rc_abs (snd res) = rc_abs rc
     \<and> (case fst res of
          None \<Rightarrow> (if create then \<not> mal ((rc_size rc + 100) * 16) else key \<notin> ea_key ` set (rc_elems rc))
        | Some i \<Rightarrow> i < rc_count (snd res) \<and> ea_key (rc_list (snd res) ! i) = key)"

lemma el_found_insert:
  assumes "wf_rc rc" "rc_abs rc = rc_abs rc0" "rc_size rc = rc_size rc0" "pos \<le> rc_count rc"
    and "\<forall>i < pos. ea_key (rc_list rc ! i) < key"
    and "\<forall>i < rc_count rc. pos \<le> i \<longrightarrow> key < ea_key (rc_list rc ! i)"
  shows "el_found mal rc0 key True (insert_refcount_el mal junk rc key pos)"
proof -
  obtain r rc' where i: "insert_refcount_el mal junk rc key pos = (r, rc')" by fastforce
  from insert_refcount_el_spec [OF assms(1,4-6) i] assms(2,3) show ?thesis
    by (auto simp: el_found_def i split: option.splits)
qed

lemma el_found_trans:
  "el_found mal rc' key create res \<Longrightarrow> create \<Longrightarrow> rc_abs rc' = rc_abs rc \<Longrightarrow> rc_size rc' = rc_size rc \<Longrightarrow>
   el_found mal rc key create res"
  by (auto simp: el_found_def split: option.splits)

lemma el_key_less_last:
  assumes "wf_rc rc" "rc_count rc = 0 \<or> ea_key (rc_list rc ! (rc_count rc - 1)) < key"
  shows "\<forall>e \<in> set (rc_elems rc). ea_key e < key"
proof
  fix e assume "e \<in> set (rc_elems rc)"
  then obtain i where i: "i < rc_count rc" "e = rc_elems rc ! i"
    using wf_rc_length [OF assms(1)] by (auto simp: in_set_conv_nth)
  moreover have "ea_key (rc_elems rc ! i) \<le> ea_key (rc_elems rc ! (rc_count rc - 1))"
    using keys_sorted_nth [of "rc_elems rc" i "rc_count rc - 1"] i assms(1) wf_rc_length [OF assms(1)]
    by (cases "i = rc_count rc - 1") (auto simp: wf_rc_def intro: less_imp_le)
  moreover have "rc_elems rc ! (rc_count rc - 1) = rc_list rc ! (rc_count rc - 1)"
    using i by (simp add: rc_elems_def)
  ultimately show "ea_key e < key" using assms(2) by auto
qed

lemma rc_elems_nth: "i < rc_count rc \<Longrightarrow> rc_elems rc ! i = rc_list rc ! i"
  by (simp add: rc_elems_def)

lemma key_in_elems: "wf_rc rc \<Longrightarrow> key \<in> ea_key ` set (rc_elems rc) \<longleftrightarrow> (\<exists>i < rc_count rc. ea_key (rc_list rc ! i) = key)"
  using wf_rc_length [of rc] by (auto simp: in_set_conv_nth image_iff rc_elems_nth Bex_def)

lemma el_found_append:
  assumes "wf_rc rc" "rc_count rc = 0 \<or> ea_key (rc_list rc ! (rc_count rc - 1)) < key"
    and "rc' = (if rc_count rc \<ge> rc_size rc then refcount_collapse rc else rc)"
  shows "el_found mal rc key True (insert_refcount_el mal junk rc' key (rc_count rc'))"
proof (rule el_found_insert)
  have sub: "wf_rc rc'" "rc_abs rc' = rc_abs rc" "rc_size rc' = rc_size rc" "set (rc_elems rc') \<subseteq> set (rc_elems rc)"
    using collapse_spec [OF assms(1)] assms(1) by (auto simp: assms(3))
  then show "wf_rc rc'" "rc_abs rc' = rc_abs rc" "rc_size rc' = rc_size rc" by auto
  show "\<forall>i < rc_count rc'. ea_key (rc_list rc' ! i) < key"
    using el_key_less_last [OF assms(1,2)] sub(4) wf_rc_length [OF sub(1)]
    by (metis nth_mem rc_elems_nth subsetD)
qed auto

lemma get_el_spec: "wf_rc rc \<Longrightarrow> el_found mal rc key create (get_el mal junk rc key create)"
proof (induction mal junk rc key create rule: get_el.induct)
  case (1 mal junk rc key create)
  note wf = "1.prems"
  let ?last = "create \<and> (rc_count rc = 0 \<or> key > ea_key (rc_list rc ! (rc_count rc - 1)))"
  let ?cur = "if rc_cursor rc \<ge> rc_count rc then 0 else rc_cursor rc"
  let ?rc = "rc\<lparr>rc_cursor := ?cur\<rparr>"
  note eq = get_el.simps [of mal junk rc key create]
  consider (last) ?last
    | (empty) "\<not> ?last" "rc_count rc = 0"
    | (cur) "\<not> ?last" "rc_count rc \<noteq> 0" "key = ea_key (rc_list rc ! ?cur)"
    | (hit) m where "\<not> ?last" "rc_count rc \<noteq> 0" "key \<noteq> ea_key (rc_list rc ! ?cur)"
        "el_search (rc_list rc) key 0 (int (rc_count rc) - 1) = Inl m"
    | (miss) l where "\<not> ?last" "rc_count rc \<noteq> 0" "key \<noteq> ea_key (rc_list rc ! ?cur)"
        "el_search (rc_list rc) key 0 (int (rc_count rc) - 1) = Inr l"
    by (cases "el_search (rc_list rc) key 0 (int (rc_count rc) - 1)") blast+
  then show ?case
  proof cases
    case last
    let ?rc1 = "if rc_count rc \<ge> rc_size rc then refcount_collapse rc else rc"
    from last have "get_el mal junk rc key create = insert_refcount_el mal junk ?rc1 key (rc_count ?rc1)"
      by (subst eq, subst if_P [OF last]) (simp only: Let_def)
    with el_found_append [OF wf _ refl, of key mal junk] last show ?thesis by simp
  next
    case empty
    have "get_el mal junk rc key create = (None, rc)"
      by (subst eq, subst if_not_P [OF empty(1)]) (simp add: empty(2))
    with empty wf show ?thesis by (auto simp: el_found_def rc_elems_def)
  next
    case cur
    have "get_el mal junk rc key create = (Some ?cur, rc\<lparr>rc_cursor := ?cur + 1\<rparr>)"
      by (subst eq, subst if_not_P [OF cur(1)], subst if_not_P [OF cur(2)])
        (simp only: Let_def if_P [OF cur(3)])
    moreover have "?cur < rc_count rc" using cur by auto
    ultimately show ?thesis using wf cur(3) by (simp only: el_found_def) simp
  next
    case hit
    have "get_el mal junk rc key create = (Some m, rc\<lparr>rc_cursor := m + 1\<rparr>)"
      by (subst eq, subst if_not_P [OF hit(1)], subst if_not_P [OF hit(2)])
        (simp only: Let_def if_not_P [OF hit(3)] hit(4) sum.case)
    with el_search_all [OF wf, of key] wf hit(4) show ?thesis by (simp add: el_found_def)
  next
    case miss
    from el_search_all [OF wf, of key] miss(4) have l: "l \<le> rc_count rc"
      "\<forall>i < l. ea_key (rc_list rc ! i) < key" "\<forall>i < rc_count rc. l \<le> i \<longrightarrow> key < ea_key (rc_list rc ! i)"
      by auto
    then have abs: "key \<notin> ea_key ` set (rc_elems rc)"
      by (simp add: key_in_elems [OF wf]) (metis less_irrefl not_le)
    let ?rc' = "refcount_collapse ?rc"
    have c: "wf_rc ?rc'" "rc_abs ?rc' = rc_abs rc" "rc_size ?rc' = rc_size rc"
      "rc_elems ?rc' = filter (\<lambda>e. ea_value e \<noteq> 0) (rc_elems rc)"
      using collapse_spec [of ?rc] wf by simp_all
    have red: "get_el mal junk rc key create =
       (if create
        then if rc_count rc \<ge> rc_size rc
             then if rc_count ?rc' < rc_size ?rc' then get_el mal junk ?rc' key create
                  else insert_refcount_el mal junk ?rc' key l
             else insert_refcount_el mal junk ?rc key l
        else (None, ?rc))"
      by (subst eq, subst if_not_P [OF miss(1)], subst if_not_P [OF miss(2)])
        (simp only: Let_def if_not_P [OF miss(3)] miss(4) sum.case)
    consider "\<not> create" | (room) "create" "\<not> rc_count rc \<ge> rc_size rc"
      | (retry) "create" "rc_count rc \<ge> rc_size rc" "rc_count ?rc' < rc_size ?rc'"
      | (grow) "create" "rc_count rc \<ge> rc_size rc" "\<not> rc_count ?rc' < rc_size ?rc'" by blast
    then show ?thesis
    proof cases
      case 1
      with abs wf red show ?thesis by (simp add: el_found_def)
    next
      case room
      with el_found_insert [of ?rc rc l key] wf l red show ?thesis by simp
    next
      case retry
      have "el_found mal ?rc' key create (get_el mal junk ?rc' key create)"
        using "1.IH" [OF _ _ refl _ miss(4)] miss retry c(1) by blast
      then have "el_found mal rc key create (get_el mal junk ?rc' key create)"
        by (rule el_found_trans) (use retry c in auto)
      moreover have "get_el mal junk rc key create = get_el mal junk ?rc' key create"
        using red retry by simp
      ultimately show ?thesis by simp
    next
      case grow
      have full: "rc_count rc = rc_size rc" using wf grow(2) by (simp add: wf_rc_def)
      have "length (rc_elems ?rc') = length (rc_elems rc)"
        using grow(3) full wf_rc_length [OF c(1)] wf_rc_length [OF wf] c(1,3) by (simp add: wf_rc_def)
      then have same: "rc_elems ?rc' = rc_elems rc" unfolding c(4) by (metis filter_id_conv length_filter_less less_irrefl)
      then have cnt: "rc_count ?rc' = rc_count rc" using wf_rc_length [OF c(1)] wf_rc_length [OF wf] by simp
      then have "\<And>i. i < rc_count rc \<Longrightarrow> rc_list ?rc' ! i = rc_list rc ! i"
        using same by (metis rc_elems_nth)
      with el_found_insert [of ?rc' rc l key] c l cnt grow red show ?thesis by simp
    qed
  qed
qed


section \<open>The operations on the specification\<close>

definition wf_refcount :: "ext2_refcount_t \<Rightarrow> bool" where
  "wf_refcount r \<longleftrightarrow> (\<exists>rc. r = Some rc \<and> wf_rc rc)"

definition refcount_abs :: "ext2_refcount_t \<Rightarrow> u64 \<Rightarrow> u64" where
  "refcount_abs r = (case r of None \<Rightarrow> (\<lambda>_. 0) | Some rc \<Rightarrow> rc_abs rc)"

lemma wf_create_refcount [wf_intros]:
  "ea_refcount_create mal sz = Inr r \<Longrightarrow> wf_refcount r \<and> refcount_abs r = (\<lambda>_. 0)"
  by (auto simp: ea_refcount_create_def Let_def wf_refcount_def wf_rc_def rc_elems_def keys_sorted_def
      refcount_abs_def rc_abs_def split: if_splits)

text \<open>One lemma for all four operations: what the lookup they start with returns.\<close>

lemma get_refcount_el_spec:
  assumes "wf_refcount r" "get_refcount_el mal junk r key create = (el, r')"
  shows "wf_refcount r' \<and> refcount_abs r' = refcount_abs r
    \<and> (case el of
         None \<Rightarrow> (if create then \<not> mal ((ext2fs_get_refcount_size r + 100) * 16) else refcount_abs r key = 0)
       | Some i \<Rightarrow> el_value r' i = refcount_abs r key
           \<and> (\<forall>v. wf_refcount (set_el_value r' i v)
                 \<and> refcount_abs (set_el_value r' i v) = (refcount_abs r)(key := v)))"
proof -
  from assms obtain rc rc' where rc: "r = Some rc" "wf_rc rc" "r' = Some rc'"
    "get_el mal junk rc key create = (el, rc')"
    by (auto simp: wf_refcount_def get_refcount_el_def split: prod.splits)
  from get_el_spec [OF rc(2), of mal key create junk] have f: "el_found mal rc key create (el, rc')"
    by (simp add: rc(4))
  then have wf: "wf_rc rc'" and abs: "rc_abs rc' = rc_abs rc" by (auto simp: el_found_def)
  have srt: "keys_sorted (rc_elems rc')" using wf by (simp add: wf_rc_def)
  show ?thesis
  proof (cases el)
    case None
    with f rc wf abs show ?thesis
      by (auto simp: el_found_def wf_refcount_def refcount_abs_def ext2fs_get_refcount_size_def rc_abs_def
          lookup_absent)
  next
    case (Some i)
    with f have i: "i < rc_count rc'" "ea_key (rc_list rc' ! i) = key" by (auto simp: el_found_def)
    then have il: "i < length (rc_elems rc')" "rc_elems rc' ! i = rc_list rc' ! i"
      using wf_rc_length [OF wf] by (simp_all add: rc_elems_nth)
    have val: "el_value r' i = refcount_abs r key"
      using lookup_nth [OF srt il(1)] il i abs by (simp add: el_value_def rc refcount_abs_def rc_abs_def)
    have "wf_refcount (set_el_value r' i v) \<and> refcount_abs (set_el_value r' i v) = (refcount_abs r)(key := v)" for v
    proof -
      let ?rc = "rc'\<lparr>rc_list := (rc_list rc')[i := (rc_list rc' ! i)\<lparr>ea_value := v\<rparr>]\<rparr>"
      have el: "rc_elems ?rc = (rc_elems rc')[i := (rc_elems rc' ! i)\<lparr>ea_value := v\<rparr>]"
        using il by (simp add: rc_elems_def take_update_swap)
      then have "wf_rc ?rc" using wf keys_sorted_update [OF srt il(1)] by (simp add: wf_rc_def)
      moreover have "rc_abs ?rc = (rc_abs rc)(key := v)"
        using lookup_update [OF srt il(1), of v] il i abs by (simp add: rc_abs_def el)
      ultimately show ?thesis
        by (simp add: set_el_value_def rc wf_refcount_def refcount_abs_def)
    qed
    with val Some rc wf abs show ?thesis by (simp add: wf_refcount_def refcount_abs_def)
  qed
qed

section \<open>The interface: a map of counters\<close>

locale counter_map =
  fixes fetch :: "'s \<Rightarrow> 'k \<Rightarrow> 'v::len word \<times> 's"
    and increment :: "'s \<Rightarrow> 'k \<Rightarrow> (errcode + 'v word) \<times> 's"
    and decrement :: "'s \<Rightarrow> 'k \<Rightarrow> (errcode + 'v word) \<times> 's"
    and store :: "'s \<Rightarrow> 'k \<Rightarrow> 'v word \<Rightarrow> errcode option \<times> 's"
    and abs :: "'s \<Rightarrow> 'k \<Rightarrow> 'v word"
    and inv :: "'s \<Rightarrow> bool"
  assumes fetch_law: "inv s \<Longrightarrow> fetch s k = (v, s') \<Longrightarrow> inv s' \<and> abs s' = abs s \<and> v = abs s k"
    and increment_law: "inv s \<Longrightarrow> increment s k = (res, s') \<Longrightarrow> inv s' \<and>
      (case res of Inl e \<Rightarrow> abs s' = abs s | Inr v \<Rightarrow> v = abs s k + 1 \<and> abs s' = (abs s)(k := v))"
    and decrement_law: "inv s \<Longrightarrow> decrement s k = (res, s') \<Longrightarrow> inv s' \<and>
      (case res of Inl e \<Rightarrow> abs s k = 0 \<and> abs s' = abs s
       | Inr v \<Rightarrow> abs s k \<noteq> 0 \<and> v = abs s k - 1 \<and> abs s' = (abs s)(k := v))"
    and store_law: "inv s \<Longrightarrow> store s k v = (e, s') \<Longrightarrow> inv s' \<and>
      (case e of Some _ \<Rightarrow> v \<noteq> 0 \<and> abs s' = abs s | None \<Rightarrow> abs s' = (abs s)(k := v))"
begin

lemma fetch_after_store:
  assumes "inv s" "store s k v = (None, s1)" "fetch s1 j = (w, s2)"
  shows "w = (if j = k then v else abs s j)"
  using store_law [OF assms(1,2)] fetch_law [OF _ assms(3)] by auto

text \<open>A reference taken can be given back: the decrement after an increment that did not wrap
  succeeds and restores every count.\<close>

lemma increment_then_decrement:
  assumes "inv s" "increment s k = (Inr v, s1)" "v \<noteq> 0" "decrement s1 k = (res, s2)"
  shows "res = Inr (abs s k) \<and> inv s2 \<and> abs s2 = abs s"
proof -
  from increment_law [OF assms(1,2)] have s1: "inv s1" "abs s1 = (abs s)(k := v)" "v = abs s k + 1"
    by auto
  from decrement_law [OF s1(1) assms(4)] s1 assms(3) show ?thesis by (cases res) auto
qed

end

interpretation ea_refs: counter_map "ea_refcount_fetch mal junk" "ea_refcount_increment mal junk"
  "ea_refcount_decrement mal junk" "ea_refcount_store mal junk" refcount_abs wf_refcount
proof
  fix s k v s' assume "wf_refcount s" "ea_refcount_fetch mal junk s k = (v, s')"
  then show "wf_refcount s' \<and> refcount_abs s' = refcount_abs s \<and> v = refcount_abs s k"
    using get_refcount_el_spec [of s mal junk k False]
    by (auto simp: ea_refcount_fetch_def split: prod.splits option.splits)
next
  fix s k res s' assume "wf_refcount s" "ea_refcount_increment mal junk s k = (res, s')"
  then show "wf_refcount s' \<and> (case res of Inl e \<Rightarrow> refcount_abs s' = refcount_abs s
      | Inr v \<Rightarrow> v = refcount_abs s k + 1 \<and> refcount_abs s' = (refcount_abs s)(k := v))"
    using get_refcount_el_spec [of s mal junk k True]
    by (auto simp: ea_refcount_increment_def Let_def split: prod.splits option.splits)
next
  fix s k res s' assume "wf_refcount s" "ea_refcount_decrement mal junk s k = (res, s')"
  then show "wf_refcount s' \<and> (case res of Inl e \<Rightarrow> refcount_abs s k = 0 \<and> refcount_abs s' = refcount_abs s
      | Inr v \<Rightarrow> refcount_abs s k \<noteq> 0 \<and> v = refcount_abs s k - 1 \<and> refcount_abs s' = (refcount_abs s)(k := v))"
    using get_refcount_el_spec [of s mal junk k False]
    by (auto simp: ea_refcount_decrement_def Let_def split: prod.splits option.splits if_splits)
next
  fix s k v e s' assume "wf_refcount s" "ea_refcount_store mal junk s k v = (e, s')"
  then show "wf_refcount s' \<and> (case e of Some _ \<Rightarrow> v \<noteq> 0 \<and> refcount_abs s' = refcount_abs s
      | None \<Rightarrow> refcount_abs s' = (refcount_abs s)(k := v))"
    using get_refcount_el_spec [of s mal junk k "v \<noteq> 0"]
    by (auto simp: ea_refcount_store_def split: prod.splits option.splits if_splits)
qed


section \<open>Iteration\<close>

text \<open>What the loop \<open>while ((key = ea_refcount_intr_next(refcount, &value)) != 0)\<close> of the callers sees.\<close>

fun refcount_entries :: "nat \<Rightarrow> ea_refcount \<Rightarrow> (u64 \<times> u64) list option" where
  "refcount_entries 0 rc = None"
| "refcount_entries (Suc fuel) rc =
     (case ea_refcount_intr_next rc of
        (_, None, _) \<Rightarrow> Some []
      | (key, Some v, rc') \<Rightarrow>
          if key = 0 then Some [] else map_option ((#) (key, v)) (refcount_entries fuel rc'))"

definition live_from :: "ea_refcount \<Rightarrow> (u64 \<times> u64) list" where
  "live_from rc = map (\<lambda>e. (ea_key e, ea_value e))
     (filter (\<lambda>e. ea_value e \<noteq> 0) (drop (rc_cursor rc) (rc_elems rc)))"

lemma intr_next_spec:
  "wf_rc rc \<Longrightarrow> case live_from rc of
      [] \<Rightarrow> (\<exists>rc'. ea_refcount_intr_next rc = (0, None, rc'))
    | (k, v) # es \<Rightarrow> (\<exists>rc'. ea_refcount_intr_next rc = (k, Some v, rc') \<and> live_from rc' = es
        \<and> wf_rc rc' \<and> rc_elems rc' = rc_elems rc)"
proof (induction rc rule: ea_refcount_intr_next.induct)
  case (1 rc)
  let ?rc' = "rc\<lparr>rc_cursor := rc_cursor rc + 1\<rparr>" and ?el = "rc_list rc ! rc_cursor rc"
  show ?case
  proof (cases "rc_cursor rc \<ge> rc_count rc")
    case True
    then have "live_from rc = []" using wf_rc_length [OF "1.prems"] by (simp add: live_from_def)
    with True show ?thesis by (simp add: ea_refcount_intr_next.simps [of rc])
  next
    case False
    then have d: "drop (rc_cursor rc) (rc_elems rc) = ?el # drop (rc_cursor rc + 1) (rc_elems rc)"
      using wf_rc_length [OF "1.prems"] Cons_nth_drop_Suc [of "rc_cursor rc" "rc_elems rc"]
      by (simp add: rc_elems_nth)
    show ?thesis
    proof (cases "ea_value ?el \<noteq> 0")
      case True
      then have "live_from rc = (ea_key ?el, ea_value ?el) # live_from ?rc'" by (simp add: live_from_def d)
      with True False "1.prems" show ?thesis by (simp add: ea_refcount_intr_next.simps [of rc] Let_def)
    next
      case nz: False
      then have "live_from rc = live_from ?rc'" by (simp add: live_from_def d)
      moreover have "ea_refcount_intr_next rc = ea_refcount_intr_next ?rc'"
        using nz False by (simp add: ea_refcount_intr_next.simps [of rc] Let_def)
      ultimately show ?thesis using "1.IH" [OF False refl refl nz] "1.prems" by (auto split: list.splits)
    qed
  qed
qed

lemma refcount_entries_from:
  "wf_rc rc \<Longrightarrow> length (live_from rc) < fuel \<Longrightarrow> 0 \<notin> fst ` set (live_from rc) \<Longrightarrow>
   refcount_entries fuel rc = Some (live_from rc)"
proof (induction fuel arbitrary: rc)
  case (Suc fuel)
  show ?case
  proof (cases "live_from rc")
    case Nil
    with intr_next_spec [OF Suc.prems(1)] show ?thesis by auto
  next
    case (Cons e es)
    then obtain k v where e: "e = (k, v)" "k \<noteq> 0" using Suc.prems(3) by (cases e) auto
    with intr_next_spec [OF Suc.prems(1)] Cons obtain rc' where
      n: "ea_refcount_intr_next rc = (k, Some v, rc')" "live_from rc' = es" "wf_rc rc'" by auto
    with Suc.IH [of rc'] Suc.prems Cons have "refcount_entries fuel rc' = Some es" by simp
    with n e Cons show ?thesis by simp
  qed
qed simp

lemma live_lookup:
  "keys_sorted es \<Longrightarrow>
   (k, v) \<in> set (map (\<lambda>e. (ea_key e, ea_value e)) (filter (\<lambda>e. ea_value e \<noteq> 0) es)) \<longleftrightarrow>
   ents_lookup es k = v \<and> v \<noteq> 0"
proof (induction es)
  case (Cons e es)
  then have "ea_key e \<notin> ea_key ` set es" by (auto simp: keys_sorted_def)
  with Cons show ?case by (auto simp: keys_sorted_def image_iff)
qed auto

section \<open>Properties\<close>

text \<open>
  C24.  The sorted array with its cursor, lazy deletion, collapse and regrowth refines a total map
  from keys to counts: fetch reads it, increment, decrement and store update one key modulo
  2^64, decrement refuses exactly the zero counts, and a failed operation changes nothing.
\<close>

theorem ea_refcount_refines_map:
  assumes "wf_refcount r"
    and "ea_refcount_fetch mal junk r key = (fv, r1)"
    and "ea_refcount_increment mal junk r key = (ir, r2)"
    and "ea_refcount_decrement mal junk r key = (dr, r3)"
    and "ea_refcount_store mal junk r key v = (sr, r4)"
  shows "wf_refcount r1 \<and> wf_refcount r2 \<and> wf_refcount r3 \<and> wf_refcount r4
    \<and> fv = refcount_abs r key \<and> refcount_abs r1 = refcount_abs r
    \<and> (case ir of Inl _ \<Rightarrow> refcount_abs r2 = refcount_abs r
       | Inr n \<Rightarrow> n = refcount_abs r key + 1 \<and> refcount_abs r2 = (refcount_abs r)(key := n))
    \<and> (case dr of Inl _ \<Rightarrow> refcount_abs r key = 0 \<and> refcount_abs r3 = refcount_abs r
       | Inr n \<Rightarrow> refcount_abs r key \<noteq> 0 \<and> n = refcount_abs r key - 1
                  \<and> refcount_abs r3 = (refcount_abs r)(key := n))
    \<and> (case sr of Some _ \<Rightarrow> v \<noteq> 0 \<and> refcount_abs r4 = refcount_abs r
       | None \<Rightarrow> refcount_abs r4 = (refcount_abs r)(key := v))"
  using ea_refs.fetch_law [OF assms(1,2)] ea_refs.increment_law [OF assms(1,3)]
    ea_refs.decrement_law [OF assms(1,4)] ea_refs.store_law [OF assms(1,5)]
  by blast

definition refcount_demo :: ea_refcount where
  "refcount_demo = \<lparr>rc_count = 2, rc_size = 2, rc_cursor = 1,
     rc_list = [\<lparr>ea_key = 3, ea_value = 1\<rparr>, \<lparr>ea_key = 8, ea_value = 2\<rparr>]\<rparr>"

lemma wf_refcount_demo: "wf_rc refcount_demo"
  by (simp add: wf_rc_def refcount_demo_def rc_elems_def keys_sorted_def)

lemma wf_refcount_Some: "wf_rc rc \<Longrightarrow> wf_refcount (Some rc)"
  by (simp add: wf_refcount_def)

lemma refcount_demo_abs: "refcount_abs (Some refcount_demo) k = (if k = 3 then 1 else if k = 8 then 2 else 0)"
  by (simp add: refcount_abs_def rc_abs_def rc_elems_def refcount_demo_def)

lemma ea_refcount_refines_map_witness:
  "\<exists>r3. ea_refcount_decrement (\<lambda>_. True) \<lparr>ea_key = 0, ea_value = 0\<rparr> (Some refcount_demo) 8 = (Inr 1, r3)
     \<and> refcount_abs r3 3 = 1 \<and> refcount_abs r3 8 = 1"
proof -
  let ?j = "\<lparr>ea_key = 0, ea_value = 0\<rparr>" and ?r = "Some refcount_demo"
  obtain fv r1 ir r2 dr r3 sr r4 where
    f: "ea_refcount_fetch (\<lambda>_. True) ?j ?r 8 = (fv, r1)" and
    i: "ea_refcount_increment (\<lambda>_. True) ?j ?r 8 = (ir, r2)" and
    d: "ea_refcount_decrement (\<lambda>_. True) ?j ?r 8 = (dr, r3)" and
    s: "ea_refcount_store (\<lambda>_. True) ?j ?r 8 0 = (sr, r4)"
    by (metis surj_pair)
  from ea_refcount_refines_map [OF wf_refcount_Some [OF wf_refcount_demo] f i d s]
  have "case dr of Inl _ \<Rightarrow> refcount_abs ?r 8 = 0
      | Inr n \<Rightarrow> n = refcount_abs ?r 8 - 1 \<and> refcount_abs r3 = (refcount_abs ?r)(8 := n)"
    by (auto split: sum.splits)
  then have "dr = Inr 1 \<and> refcount_abs r3 3 = 1 \<and> refcount_abs r3 8 = 1"
    by (cases dr) (auto simp: refcount_demo_abs)
  with d show ?thesis by blast
qed

text \<open>
  The iteration, started afresh, terminates and yields exactly the keys with a non-zero count
  and their counts, in increasing key order, provided the key 0, which doubles as the end mark,
  has no count.
\<close>

theorem ea_refcount_iteration_correct:
  assumes "wf_rc rc" "rc_abs rc 0 = 0"
  shows "\<exists>es. refcount_entries (Suc (rc_count rc)) (ea_refcount_intr_begin rc) = Some es
    \<and> sorted_wrt (<) (map fst es) \<and> (\<forall>k v. (k, v) \<in> set es \<longleftrightarrow> rc_abs rc k = v \<and> v \<noteq> 0)"
proof -
  let ?rc = "ea_refcount_intr_begin rc"
  have wf: "wf_rc ?rc" and el: "rc_elems ?rc = rc_elems rc" using assms(1) by (simp_all add: ea_refcount_intr_begin_def)
  have lf: "live_from ?rc = map (\<lambda>e. (ea_key e, ea_value e)) (filter (\<lambda>e. ea_value e \<noteq> 0) (rc_elems rc))"
    by (simp add: live_from_def el) (simp add: ea_refcount_intr_begin_def)
  have srt: "keys_sorted (rc_elems rc)" using assms(1) by (simp add: wf_rc_def)
  have mem: "(k, v) \<in> set (live_from ?rc) \<longleftrightarrow> rc_abs rc k = v \<and> v \<noteq> 0" for k v
    unfolding lf rc_abs_def by (rule live_lookup [OF srt])
  have "length (live_from ?rc) \<le> rc_count rc"
    unfolding lf using wf_rc_length [OF assms(1)] length_filter_le [of _ "rc_elems rc"] by (metis length_map)
  moreover have "0 \<notin> fst ` set (live_from ?rc)" using mem assms(2) by force
  ultimately have "refcount_entries (Suc (rc_count rc)) ?rc = Some (live_from ?rc)"
    by (intro refcount_entries_from [OF wf]) auto
  moreover have "sorted_wrt (<) (map fst (live_from ?rc))"
    using keys_sorted_filter [OF srt] by (simp add: lf keys_sorted_def sorted_wrt_map o_def)
  ultimately show ?thesis using mem by blast
qed

lemma ea_refcount_iteration_correct_witness:
  "\<exists>es. refcount_entries 3 (ea_refcount_intr_begin refcount_demo) = Some es \<and> (3, 1) \<in> set es \<and> (8, 2) \<in> set es"
proof -
  have z: "rc_abs refcount_demo 0 = 0" using refcount_demo_abs [of 0] by (simp add: refcount_abs_def)
  have n: "Suc (rc_count refcount_demo) = 3" by (simp add: refcount_demo_def)
  from ea_refcount_iteration_correct [OF wf_refcount_demo z] obtain es where
    "refcount_entries 3 (ea_refcount_intr_begin refcount_demo) = Some es"
    "\<forall>k v. (k, v) \<in> set es \<longleftrightarrow> rc_abs refcount_demo k = v \<and> v \<noteq> 0" by (auto simp: n)
  moreover have "rc_abs refcount_demo 3 = 1" "rc_abs refcount_demo 8 = 2"
    using refcount_demo_abs [of 3] refcount_demo_abs [of 8] by (simp_all add: refcount_abs_def)
  ultimately show ?thesis by auto
qed

end
