(* ===== verification/Region.thy ===== *)
theory Region
  imports E2fs_Prelude
begin

text \<open>
  The allocator of sub-ranges of a region, \<open>e2fsck/region.c\<close>.  The allocated ranges are a singly
  linked list in the C heap, sorted by address, neighbours merged, with a pointer to its last
  node that two fast paths use.  The nodes live in an explicit heap (a map from addresses to
  nodes): the code mutates and frees them through several pointers at once.  Reading a node that
  is not allocated is the result \<open>None\<close>, and so is a search that does not end, so a theorem that
  an operation returns \<open>Some\<close> says that it ends and touches live nodes only.
\<close>

section \<open>The structures and the operations\<close>

type_synonym addr = nat

record region_el =
  r_start :: u64
  r_end :: u64
  r_next :: "addr option"

type_synonym region_heap = "addr \<Rightarrow> region_el option"

record region_struct =
  reg_min :: u64
  reg_max :: u64
  reg_allocated :: "addr option"
  reg_last :: "addr option"

definition region_create :: "bool \<Rightarrow> u64 \<Rightarrow> u64 \<Rightarrow> region_struct option" where
  "region_create mem_ok mn mx =
     (if \<not> mem_ok then None
      else Some \<lparr>reg_min = mn, reg_max = mx, reg_allocated = None, reg_last = None\<rparr>)"

text \<open>\<open>region_free\<close> frees the nodes from \<open>r\<close> on; the next pointer is read before the node goes.\<close>

partial_function (option) region_free_loop :: "region_heap \<Rightarrow> addr option \<Rightarrow> region_heap option" where
  "region_free_loop h r =
     (case r of
        None \<Rightarrow> Some h
      | Some p \<Rightarrow> (case h p of
          None \<Rightarrow> None
        | Some el \<Rightarrow> region_free_loop (h(p := None)) (r_next el)))"

definition region_free :: "region_struct \<Rightarrow> region_heap \<Rightarrow> region_heap option" where
  "region_free reg h = region_free_loop h (reg_allocated reg)"

text \<open>
  The search loop of \<open>region_allocate\<close> ends in one of three ways: the range meets an allocated
  one (\<open>return 1\<close>), a node was grown in place, perhaps swallowing its successor (\<open>return 0\<close>; the
  heap and the new value of \<open>region->last\<close>), or a new node goes between \<open>prev\<close> and \<open>r\<close>.
\<close>

datatype search_result =
    Conflict
  | Grown region_heap "addr option"
  | Insert_between "addr option" "addr option"

partial_function (option) region_search ::
  "region_heap \<Rightarrow> addr option \<Rightarrow> u64 \<Rightarrow> u64 \<Rightarrow> addr option \<Rightarrow> addr option \<Rightarrow> search_result option" where
  "region_search h lst start en r prev =
     (case r of
        None \<Rightarrow> Some (Insert_between r prev)
      | Some p \<Rightarrow> (case h p of
          None \<Rightarrow> None
        | Some el \<Rightarrow>
            if (start \<ge> r_start el \<and> start < r_end el)
               \<or> (en > r_start el \<and> en \<le> r_end el)
               \<or> (start \<le> r_start el \<and> en \<ge> r_end el)
            then Some Conflict
            else if en = r_start el
            then Some (Grown (h(p \<mapsto> el\<lparr>r_start := start\<rparr>)) lst)
            else if start = r_end el
            then (case r_next el of
                    Some nx \<Rightarrow> (case h nx of
                      None \<Rightarrow> None
                    | Some nel \<Rightarrow>
                        if en > r_start nel then Some Conflict
                        else if en = r_start nel
                        then Some (Grown (h(p \<mapsto> el\<lparr>r_end := r_end nel, r_next := r_next nel\<rparr>,
                                            nx := None))
                                         (if r_next nel = None then Some p else lst))
                        else Some (Grown (h(p \<mapsto> el\<lparr>r_end := en\<rparr>)) lst))
                  | None \<Rightarrow> Some (Grown (h(p \<mapsto> el\<lparr>r_end := en\<rparr>)) lst))
            else if start < r_start el then Some (Insert_between r prev)
            else region_search h lst start en (r_next el) r))"

text \<open>
  The label \<open>append_to_list\<close>.  The allocator is a parameter: it gives the address of a node that
  is not in use, or nothing.
\<close>

definition region_insert ::
  "(region_heap \<Rightarrow> addr option) \<Rightarrow> region_struct \<Rightarrow> region_heap \<Rightarrow> u64 \<Rightarrow> 32 word \<Rightarrow>
   addr option \<Rightarrow> addr option \<Rightarrow> (int \<times> region_struct \<times> region_heap) option" where
  "region_insert alloc reg h start n r prev =
     (case alloc h of
        None \<Rightarrow> Some (- 1, reg, h)
      | Some a \<Rightarrow>
          let h1 = h(a \<mapsto> \<lparr>r_start = start, r_end = start + scast n, r_next = r\<rparr>);
              reg1 = (if r = None then reg\<lparr>reg_last := Some a\<rparr> else reg)
          in case prev of
               Some p \<Rightarrow> (case h1 p of
                   None \<Rightarrow> None
                 | Some pe \<Rightarrow> Some (0, reg1, h1(p \<mapsto> pe\<lparr>r_next := Some a\<rparr>)))
             | None \<Rightarrow> Some (0, reg1\<lparr>reg_allocated := Some a\<rparr>, h1))"

definition region_search_insert ::
  "(region_heap \<Rightarrow> addr option) \<Rightarrow> region_struct \<Rightarrow> region_heap \<Rightarrow> u64 \<Rightarrow> 32 word \<Rightarrow>
   (int \<times> region_struct \<times> region_heap) option" where
  "region_search_insert alloc reg h start n =
     (case region_search h (reg_last reg) start (start + scast n) (reg_allocated reg) None of
        None \<Rightarrow> None
      | Some Conflict \<Rightarrow> Some (1, reg, h)
      | Some (Grown h' lst) \<Rightarrow> Some (0, reg\<lparr>reg_last := lst\<rparr>, h')
      | Some (Insert_between r prev) \<Rightarrow> region_insert alloc reg h start n r prev)"

definition region_allocate ::
  "(region_heap \<Rightarrow> addr option) \<Rightarrow> region_struct \<Rightarrow> region_heap \<Rightarrow> u64 \<Rightarrow> 32 word \<Rightarrow>
   (int \<times> region_struct \<times> region_heap) option" where
  "region_allocate alloc reg h start n =
     (let en = start + scast n in
      if start < reg_min reg \<or> en > reg_max reg then Some (- 1, reg, h)
      else if n = 0 then Some (1, reg, h)
      else case reg_last reg of
        None \<Rightarrow> region_search_insert alloc reg h start n
      | Some l \<Rightarrow> (case h l of
          None \<Rightarrow> None
        | Some le \<Rightarrow>
            if r_end le = start \<and> r_next le = None
            then Some (0, reg, h(l \<mapsto> le\<lparr>r_end := en\<rparr>))
            else if start > r_end le \<and> r_next le = None
            then region_insert alloc reg h start n None (Some l)
            else region_search_insert alloc reg h start n))"

section \<open>The list in the heap\<close>

text \<open>\<open>chain h p as q\<close>: following the next pointers from \<open>p\<close> visits the nodes \<open>as\<close> and arrives at \<open>q\<close>.\<close>

fun chain :: "region_heap \<Rightarrow> addr option \<Rightarrow> addr list \<Rightarrow> addr option \<Rightarrow> bool" where
  "chain h p [] q = (p = q)"
| "chain h p (a # as) q =
     (p = Some a \<and> (case h a of None \<Rightarrow> False | Some el \<Rightarrow> chain h (r_next el) as q))"

definition node_iv :: "region_heap \<Rightarrow> addr \<Rightarrow> u64 \<times> u64" where
  "node_iv h a = (case h a of None \<Rightarrow> (0, 0) | Some el \<Rightarrow> (r_start el, r_end el))"

abbreviation ivs :: "region_heap \<Rightarrow> addr list \<Rightarrow> (u64 \<times> u64) list" where
  "ivs h as \<equiv> map (node_iv h) as"

text \<open>Non-empty ranges in increasing order with a gap between any two, inside the region.\<close>

fun gaps :: "('a::linorder \<times> 'a) list \<Rightarrow> bool" where
  "gaps [] = True"
| "gaps ((a, b) # xs) = (a < b \<and> (case xs of [] \<Rightarrow> True | (c, d) # ys \<Rightarrow> b < c) \<and> gaps xs)"

definition covered :: "('a::linorder \<times> 'a) list \<Rightarrow> 'a set" where
  "covered xs = (\<Union>(a, b) \<in> set xs. {a..<b})"

definition wf_region :: "region_struct \<Rightarrow> region_heap \<Rightarrow> addr list \<Rightarrow> bool" where
  "wf_region reg h as \<longleftrightarrow>
     chain h (reg_allocated reg) as None \<and> distinct as
     \<and> reg_last reg = (if as = [] then None else Some (last as))
     \<and> gaps (ivs h as) \<and> covered (ivs h as) \<subseteq> {reg_min reg..<reg_max reg}"

section \<open>Adding a range to a list of ranges\<close>

text \<open>
  What the search and the insertion do to the list of ranges, whatever the heap: \<open>None\<close> is a
  conflict.
\<close>

fun add_iv :: "'a::linorder \<Rightarrow> 'a \<Rightarrow> ('a \<times> 'a) list \<Rightarrow> ('a \<times> 'a) list option" where
  "add_iv s e [] = Some [(s, e)]"
| "add_iv s e ((a, b) # xs) =
     (if (s \<ge> a \<and> s < b) \<or> (e > a \<and> e \<le> b) \<or> (s \<le> a \<and> e \<ge> b) then None
      else if e = a then Some ((s, b) # xs)
      else if s = b then
        (case xs of
           [] \<Rightarrow> Some [(a, e)]
         | (c, d) # ys \<Rightarrow> if e > c then None
                        else if e = c then Some ((a, d) # ys)
                        else Some ((a, e) # xs))
      else if s < a then Some ((s, e) # (a, b) # xs)
      else map_option ((#) (a, b)) (add_iv s e xs))"

lemma covered_simps [simp]:
  "covered [] = {}" "covered ((a, b) # xs) = {a..<b} \<union> covered xs"
  by (auto simp: covered_def)

lemma covered_append: "covered (xs @ ys) = covered xs \<union> covered ys"
  by (auto simp: covered_def)

lemma gaps_lower:
  assumes "gaps ((a, b) # xs)" "x \<in> covered xs" shows "b < x"
  using assms
proof (induction xs arbitrary: a b)
  case (Cons p xs)
  obtain c d where p: "p = (c, d)" by (cases p)
  have "b < c" "c < d" and g: "gaps ((c, d) # xs)" using Cons.prems(1) by (simp_all add: p)
  consider "x \<in> {c..<d}" | "x \<in> covered xs" using Cons.prems(2) by (auto simp: p)
  then show ?case
  proof cases
    case 1 then have "c \<le> x" by simp
    with \<open>b < c\<close> show ?thesis by (rule less_le_trans)
  next
    case 2 then have "d < x" by (rule Cons.IH [OF g])
    with \<open>b < c\<close> \<open>c < d\<close> show ?thesis by (meson less_trans)
  qed
qed simp

lemma add_iv_None:
  assumes "add_iv s e xs = None" "gaps xs" "s < e"
  shows "{s..<e} \<inter> covered xs \<noteq> {}"
  using assms
proof (induction s e xs rule: add_iv.induct)
  case (2 s e a b xs)
  have ab: "a < b" and g: "gaps xs" using 2 by auto
  show ?case
  proof (cases "(s \<ge> a \<and> s < b) \<or> (e > a \<and> e \<le> b) \<or> (s \<le> a \<and> e \<ge> b)")
    case True
    then have "max s a \<in> {s..<e} \<inter> {a..<b}" using 2(4) ab by auto
    then show ?thesis unfolding covered_simps by blast
  next
    case out: False
    note rest = 2(2) [unfolded add_iv.simps if_not_P [OF out]]
    show ?thesis
    proof (cases "s = b")
      case True
      with rest obtain c d ys where xs: "xs = (c, d) # ys" "c < e" using ab by (auto split: if_splits list.splits)
      then have "c \<in> {s..<e} \<inter> {c..<d}" using 2(3) True by auto
      then show ?thesis unfolding covered_simps xs by blast
    next
      case False
      then have "add_iv s e xs = None" "e \<noteq> a" "\<not> s < a" using rest by (auto split: if_splits)
      then have "{s..<e} \<inter> covered xs \<noteq> {}" using 2(1) [OF out] False g 2(4) by blast
      then show ?thesis unfolding covered_simps by blast
    qed
  qed
qed simp

lemma add_iv_Some:
  assumes "add_iv s e xs = Some ys" "gaps xs" "s < e"
  shows "gaps ys \<and> covered ys = covered xs \<union> {s..<e} \<and> {s..<e} \<inter> covered xs = {}
    \<and> (ys \<noteq> [] \<and> (fst (hd ys) = s \<or> xs \<noteq> [] \<and> fst (hd ys) = fst (hd xs)))"
  using assms
proof (induction s e xs arbitrary: ys rule: add_iv.induct)
  case (1 s e)
  then show ?case by auto
next
  case (2 s e a b xs)
  have ab: "a < b" and g: "gaps xs" using 2 by auto
  have low: "\<And>x. x \<in> covered xs \<Longrightarrow> b < x" using gaps_lower 2 by blast
  have not_in: "\<not> (a \<le> s \<and> s < b)" "\<not> (a < e \<and> e \<le> b)" "\<not> (s \<le> a \<and> b \<le> e)"
    using 2(2) by (auto split: if_splits)
  consider (left) "e = a" | (right) "s = b" | (before) "e \<noteq> a" "s < a" | (after) "e \<noteq> a" "s \<noteq> b" "\<not> s < a"
    by blast
  then show ?case
  proof cases
    case left
    then have ys: "ys = (s, b) # xs" using 2(2) by (simp split: if_splits)
    have "\<not> x < a" if "x \<in> covered xs" for x using low [OF that] ab by auto
    then show ?thesis using 2(3,4) left ab not_in by (auto simp: ys)
  next
    case right
    show ?thesis
    proof (cases xs)
      case Nil
      then show ?thesis using 2(2-4) right ab by (auto split: if_splits)
    next
      case (Cons p zs)
      obtain c d where xs: "xs = (c, d) # zs" using Cons by (cases p) auto
      have bc: "b < c" "c < d" and gz: "gaps ((c, d) # zs)" using 2(3) by (simp_all add: xs)
      have lowz: "\<And>x. x \<in> covered zs \<Longrightarrow> d < x" using gaps_lower [OF gz] by blast
      have ec: "e \<le> c" using 2(2) right not_in ab 2(4) by (auto simp: xs split: if_splits)
      show ?thesis
      proof (cases "e = c")
        case True
        have ys: "ys = (a, d) # zs" using 2(2) right not_in ab True 2(4) bc by (auto simp: xs split: if_splits)
        have "\<not> x < c" if "x \<in> covered zs" for x using lowz [OF that] bc by auto
        then show ?thesis using 2(3,4) True right bc ab by (auto simp: ys xs split: list.splits)
      next
        case False
        have ys: "ys = (a, e) # xs" using 2(2) right not_in ab False ec 2(4) bc by (auto simp: xs split: if_splits)
        have "\<not> x < e" if "x \<in> covered zs" for x using lowz [OF that] bc ec by auto
        then show ?thesis using 2(3,4) False right bc ab ec by (auto simp: ys xs)
      qed
    qed
  next
    case before
    have ys: "ys = (s, e) # (a, b) # xs" using 2(2) before not_in ab by (auto split: if_splits)
    have ea: "e < a" using before not_in 2(4) by auto
    have "\<not> x < e" if "x \<in> covered xs" for x using low [OF that] ab ea by auto
    then show ?thesis using 2(3,4) before ab ea by (auto simp: ys)
  next
    case after
    then obtain zs where zs: "add_iv s e xs = Some zs" "ys = (a, b) # zs" using 2(2) not_in by (auto split: if_splits)
    have bs: "b < s" using after not_in by auto
    have IH: "gaps zs" "covered zs = covered xs \<union> {s..<e}" "{s..<e} \<inter> covered xs = {}"
      "zs \<noteq> []" "fst (hd zs) = s \<or> xs \<noteq> [] \<and> fst (hd zs) = fst (hd xs)"
      using 2(1) [OF _ _ _ _ zs(1) g 2(4)] after not_in by (metis)+
    have "gaps ys" using IH ab bs 2(3) by (cases zs; cases xs) (auto simp: zs)
    moreover have "{s..<e} \<inter> {a..<b} = {}" using bs by auto
    ultimately show ?thesis using IH by (auto simp: zs)
  qed
qed

section \<open>The heap operations implement the list operations\<close>

lemma chain_append: "chain h p (as @ bs) q \<longleftrightarrow> (\<exists>m. chain h p as m \<and> chain h m bs q)"
  by (induction as arbitrary: p) (auto split: option.splits)

lemma chain_upd [simp]: "a \<notin> set as \<Longrightarrow> chain (h(a := x)) p as q = chain h p as q"
  by (induction as arbitrary: p) (auto split: option.splits)

lemma ivs_upd [simp]: "a \<notin> set as \<Longrightarrow> ivs (h(a := x)) as = ivs h as"
  by (auto simp: node_iv_def)

lemma node_iv_upd [simp]:
  "node_iv (h(a \<mapsto> el)) a = (r_start el, r_end el)"
  "b \<noteq> a \<Longrightarrow> node_iv (h(b := x)) a = node_iv h a"
  by (simp_all add: node_iv_def)

lemma chain_live: "chain h p as q \<Longrightarrow> a \<in> set as \<Longrightarrow> h a \<noteq> None"
  by (induction as arbitrary: p) (auto split: option.splits)

lemma chain_frame:
  "chain h p as q \<Longrightarrow> (\<forall>a \<in> set as. h' a = h a) \<Longrightarrow> chain h' p as q"
  by (induction as arbitrary: p) (auto split: option.splits)

declare add_iv.simps(2) [simp del]

text \<open>The outcome of the search, started at the head \<open>p\<close> of the chain \<open>as\<close>.\<close>

definition search_outcome ::
  "region_heap \<Rightarrow> addr option \<Rightarrow> u64 \<Rightarrow> u64 \<Rightarrow> addr option \<Rightarrow> addr option \<Rightarrow> addr list \<Rightarrow> search_result \<Rightarrow> bool" where
  "search_outcome h lst s e p prev as res =
     (case res of
        Conflict \<Rightarrow> add_iv s e (ivs h as) = None
      | Grown h' lst' \<Rightarrow> \<exists>as'. chain h' p as' None \<and> as' \<noteq> [] \<and> distinct as' \<and> set as' \<subseteq> set as
          \<and> add_iv s e (ivs h as) = Some (ivs h' as') \<and> (\<forall>a. a \<notin> set as \<longrightarrow> h' a = h a)
          \<and> (lst' = lst \<and> last as' = last as \<or> lst' = Some (last as'))
      | Insert_between r pv \<Rightarrow> \<exists>as1 as2. as = as1 @ as2 \<and> chain h p as1 r \<and> chain h r as2 None
          \<and> pv = (if as1 = [] then prev else Some (last as1))
          \<and> add_iv s e (ivs h as) = Some (ivs h as1 @ (s, e) # ivs h as2))"

lemma search_step:
  assumes h: "h a = Some el" and rest: "chain h (r_next el) as None" and a: "a \<notin> set as" "distinct as"
    and more: "region_search h lst s e (r_next el) (Some a) = Some res
                \<and> search_outcome h lst s e (r_next el) (Some a) as res"
  shows "\<exists>res. region_search h lst s e (Some a) prev = Some res
    \<and> search_outcome h lst s e (Some a) prev (a # as) res"
proof -
  let ?meets = "(s \<ge> r_start el \<and> s < r_end el) \<or> (e > r_start el \<and> e \<le> r_end el)
    \<or> (s \<le> r_start el \<and> e \<ge> r_end el)"
  note st = region_search.simps [of h lst s e "Some a" prev, simplified h option.case]
  have iv: "node_iv h a = (r_start el, r_end el)" by (simp add: node_iv_def h)
  note sp = add_iv.simps(2) [of s e "r_start el" "r_end el" "ivs h as"]
  consider (meets) ?meets | (left) "\<not> ?meets" "e = r_start el" | (right) "\<not> ?meets" "e \<noteq> r_start el" "s = r_end el"
    | (before) "\<not> ?meets" "e \<noteq> r_start el" "s \<noteq> r_end el" "s < r_start el"
    | (after) "\<not> ?meets" "e \<noteq> r_start el" "s \<noteq> r_end el" "\<not> s < r_start el" by argo
  then show ?thesis
  proof cases
    case meets
    show ?thesis unfolding st if_P [OF meets] search_outcome_def by (simp add: iv sp [unfolded if_P [OF meets]])
  next
    case left
    note st2 = st [unfolded if_not_P [OF left(1)] if_P [OF left(2)]]
    note sp2 = sp [unfolded if_not_P [OF left(1)] if_P [OF left(2)]]
    show ?thesis using rest a by (auto simp: st2 sp2 search_outcome_def iv intro!: exI [of _ "a # as"])
  next
    case right
    note st2 = st [unfolded if_not_P [OF right(1)] if_not_P [OF right(2)] if_P [OF right(3)]]
    note sp2 = sp [unfolded if_not_P [OF right(1)] if_not_P [OF right(2)] if_P [OF right(3)]]
    show ?thesis
    proof (cases as)
      case Nil
      then have "r_next el = None" using rest by simp
      then show ?thesis using Nil
        by (auto simp: st2 sp2 [unfolded Nil list.map] search_outcome_def iv intro!: exI [of _ "[a]"])
    next
      case (Cons b bs)
      then obtain nel where b: "r_next el = Some b" "h b = Some nel" "chain h (r_next nel) bs None"
        using rest by (auto split: option.splits)
      have ivb: "node_iv h b = (r_start nel, r_end nel)" by (simp add: node_iv_def b)
      have ab: "a \<noteq> b" "a \<notin> set bs" "b \<notin> set bs" "distinct bs" using a Cons by auto
      consider (c) "e > r_start nel" | (j) "e = r_start nel" | (g) "\<not> e > r_start nel" "e \<noteq> r_start nel" by blast
      then show ?thesis
      proof cases
        case c
        then show ?thesis by (simp add: st2 sp2 [unfolded Cons list.map ivb] b Cons search_outcome_def iv ivb)
      next
        case j
        have nx: "r_next nel = None \<longleftrightarrow> bs = []" using b(3) by (cases bs) auto
        let ?h = "h(a \<mapsto> el\<lparr>r_end := r_end nel, r_next := r_next nel\<rparr>, b := None)"
        let ?lst = "if r_next nel = None then Some a else lst"
        have j': "r_start nel = e" using j by simp
        have "add_iv s e (ivs h (a # b # bs)) = Some (ivs ?h (a # bs))"
          by (simp add: sp2 [unfolded Cons list.map ivb j'] iv ivb j' ab ab(1) [symmetric])
        then have "search_outcome h lst s e (Some a) prev (a # as) (Grown ?h ?lst)"
          unfolding search_outcome_def search_result.case Cons
          by (intro exI [of _ "a # bs"]) (use ab b nx in auto)
        then show ?thesis by (auto simp: st2 b j')
      next
        case g
        let ?h = "h(a \<mapsto> el\<lparr>r_end := e\<rparr>)"
        have "add_iv s e (ivs h (a # b # bs)) = Some (ivs ?h (a # b # bs))"
          by (simp add: sp2 [unfolded Cons list.map ivb] iv ivb g ab ab(1) [symmetric])
        moreover have "chain ?h (Some a) (a # b # bs) None" using b ab by simp
        ultimately have "search_outcome h lst s e (Some a) prev (a # as) (Grown ?h lst)"
          unfolding search_outcome_def search_result.case Cons
          by (intro exI [of _ "a # b # bs"]) (use ab in auto)
        then show ?thesis using g by (auto simp: st2 b)
      qed
    qed
  next
    case before
    note st2 = st [unfolded if_not_P [OF before(1)] if_not_P [OF before(2)] if_not_P [OF before(3)] if_P [OF before(4)]]
    note sp2 = sp [unfolded if_not_P [OF before(1)] if_not_P [OF before(2)] if_not_P [OF before(3)] if_P [OF before(4)]]
    show ?thesis using rest h by (auto simp: st2 sp2 iv search_outcome_def intro!: exI [of _ "[]"])
  next
    case after
    note st2 = st [unfolded if_not_P [OF after(1)] if_not_P [OF after(2)] if_not_P [OF after(3)] if_not_P [OF after(4)]]
    note sp2 = sp [unfolded if_not_P [OF after(1)] if_not_P [OF after(2)] if_not_P [OF after(3)] if_not_P [OF after(4)]]
    have r: "region_search h lst s e (r_next el) (Some a) = Some res"
      and o: "search_outcome h lst s e (r_next el) (Some a) as res" using more by auto
    have "search_outcome h lst s e (Some a) prev (a # as) res"
    proof (cases res)
      case Conflict
      then show ?thesis using o by (simp add: search_outcome_def iv sp2)
    next
      case (Grown h' lst')
      with o obtain as' where as': "chain h' (r_next el) as' None" "as' \<noteq> []" "distinct as'" "set as' \<subseteq> set as"
        "add_iv s e (ivs h as) = Some (ivs h' as')" "\<forall>a. a \<notin> set as \<longrightarrow> h' a = h a"
        "lst' = lst \<and> last as' = last as \<or> lst' = Some (last as')" by (auto simp: search_outcome_def)
      have "h' a = Some el" using as'(6) a h by simp
      moreover from this have "node_iv h' a = node_iv h a" by (simp add: node_iv_def h)
      moreover have "as \<noteq> []" using as'(2,4) by (cases as) auto
      ultimately show ?thesis unfolding Grown search_outcome_def using as' a
        by (auto simp: sp2 iv intro!: exI [of _ "a # as'"])
    next
      case (Insert_between r pv)
      with o obtain as1 as2 where x: "as = as1 @ as2" "chain h (r_next el) as1 r" "chain h r as2 None"
        "pv = (if as1 = [] then Some a else Some (last as1))"
        "add_iv s e (ivs h as) = Some (ivs h as1 @ (s, e) # ivs h as2)" by (auto simp: search_outcome_def)
      have "add_iv s e (ivs h (a # as)) = Some (ivs h (a # as1) @ (s, e) # ivs h as2)"
        by (simp add: iv sp2 x(5) del: map_append)
      moreover have "chain h (Some a) (a # as1) r" using x h by simp
      ultimately show ?thesis unfolding Insert_between search_outcome_def search_result.case
        by (intro exI [of _ "a # as1"] exI [of _ as2]) (use x in simp)
    qed
    then show ?thesis using r by (auto simp: st2)
  qed
qed

lemma search_correct:
  assumes "chain h p as None" "distinct as"
  shows "\<exists>res. region_search h lst s e p prev = Some res \<and> search_outcome h lst s e p prev as res"
  using assms
proof (induction as arbitrary: p prev)
  case Nil
  then show ?case by (simp add: region_search.simps [of h lst s e None prev] search_outcome_def)
next
  case (Cons a as)
  then obtain el where p: "p = Some a" and h: "h a = Some el" "chain h (r_next el) as None"
    by (auto split: option.splits)
  obtain res where "region_search h lst s e (r_next el) (Some a) = Some res
    \<and> search_outcome h lst s e (r_next el) (Some a) as res" using Cons.IH [OF h(2)] Cons.prems(2) by auto
  then show ?case unfolding p using search_step [OF h(1,2)] Cons.prems(2) by auto
qed

lemma end_after_start:
  fixes s :: u64 and n :: "32 word"
  assumes "0 < sint n" "uint s + sint n < 2 ^ 64"
  shows "s < s + scast n"
proof -
  have b: "0 \<le> uint s" by simp
  then have lt: "sint n < 2 ^ 64" using assms by linarith
  have "uint (scast n :: u64) = sint n mod 2 ^ 64"
    unfolding scast_eq uint_word_of_int by simp
  also have "\<dots> = sint n" using lt assms(1) by (intro mod_pos_pos_trivial) linarith+
  finally have "uint (s + scast n) = uint s + sint n"
    using assms(2) by (simp add: uint_word_ariths mod_pos_pos_trivial b assms(1) less_imp_le)
  then show ?thesis using assms(1) by (simp add: word_less_def)
qed

text \<open>A successful step from a region with nodes \<open>as\<close> to one with nodes \<open>as'\<close>.\<close>

definition region_added ::
  "region_struct \<Rightarrow> region_heap \<Rightarrow> addr list \<Rightarrow> u64 \<Rightarrow> u64 \<Rightarrow> region_struct \<Rightarrow> region_heap \<Rightarrow> addr list \<Rightarrow> bool" where
  "region_added reg h as s e reg' h' as' \<longleftrightarrow>
     chain h' (reg_allocated reg') as' None \<and> distinct as' \<and> as' \<noteq> [] \<and> reg_last reg' = Some (last as')
     \<and> add_iv s e (ivs h as) = Some (ivs h' as') \<and> reg_min reg' = reg_min reg \<and> reg_max reg' = reg_max reg
     \<and> (\<forall>a. a \<notin> set as \<and> h a \<noteq> None \<longrightarrow> h' a = h a)"

lemma region_insert_correct:
  assumes as: "wf_region reg h as" "as = as1 @ as2"
    and c: "chain h (reg_allocated reg) as1 r" "chain h r as2 None"
    and prev: "prev = (if as1 = [] then None else Some (last as1))"
    and al: "alloc h = Some a" "h a = None"
    and sp: "add_iv s (s + scast n) (ivs h as) = Some (ivs h as1 @ (s, s + scast n) # ivs h as2)"
  shows "\<exists>reg' h' as'. region_insert alloc reg h s n r prev = Some (0, reg', h')
    \<and> region_added reg h as s (s + scast n) reg' h' as'"
proof -
  let ?nd = "\<lparr>r_start = s, r_end = s + scast n, r_next = r\<rparr>"
  let ?reg = "if r = None then reg\<lparr>reg_last := Some a\<rparr> else reg"
  have d: "distinct as1" "distinct as2" "set as1 \<inter> set as2 = {}" using as by (auto simp: wf_region_def)
  have fr: "a \<notin> set as1" "a \<notin> set as2" using chain_live [OF c(1)] chain_live [OF c(2)] al(2) by blast+
  have lst: "reg_last ?reg = Some (last (a # as2))"
  proof (cases as2)
    case Nil then show ?thesis using c(2) by simp
  next
    case (Cons b bs) then show ?thesis using c(2) as by (simp add: wf_region_def)
  qed
  show ?thesis
  proof (cases as1 rule: rev_cases)
    case Nil
    let ?h = "h(a \<mapsto> ?nd)"
    have "region_added reg h as s (s + scast n) (?reg\<lparr>reg_allocated := Some a\<rparr>) ?h (a # as2)"
      unfolding region_added_def using c(2) d fr lst sp al(2) Nil by auto
    then show ?thesis using al(1) prev Nil by (auto simp: region_insert_def)
  next
    case (snoc xs z)
    then obtain el where z: "chain h (reg_allocated reg) xs (Some z)" "h z = Some el" "r_next el = r"
      using c(1) by (auto simp: chain_append split: option.splits)
    have az: "a \<noteq> z" "z \<notin> set xs" "z \<notin> set as2" "a \<notin> set xs" "distinct xs" "set xs \<inter> set as2 = {}"
      using fr d snoc by auto
    let ?h = "h(a \<mapsto> ?nd, z \<mapsto> el\<lparr>r_next := Some a\<rparr>)"
    have "chain ?h (reg_allocated ?reg) (xs @ z # a # as2) None"
      unfolding chain_append using z c(2) az fr by (intro exI [of _ "Some z"]) auto
    moreover have "ivs ?h (xs @ z # a # as2) = ivs h as1 @ (s, s + scast n) # ivs h as2"
      using z az fr by (simp add: snoc node_iv_def)
    moreover have "distinct (xs @ z # a # as2)" using az fr d by auto
    ultimately have "region_added reg h as s (s + scast n) ?reg ?h (xs @ z # a # as2)"
      unfolding region_added_def using lst sp al(2) snoc as(2) by auto
    then show ?thesis using al(1) prev snoc z(2) az by (auto simp: region_insert_def Let_def)
  qed
qed

lemma add_iv_after:
  assumes "\<forall>(a, b) \<in> set xs. a < b \<and> b < s" "s < e"
  shows "add_iv s e (xs @ ys) = map_option ((@) xs) (add_iv s e ys)"
  using assms
proof (induction xs)
  case (Cons p xs)
  obtain a b where p: "p = (a, b)" by (cases p)
  have o: "a < b" "b < s" "s < e" using Cons.prems by (auto simp: p)
  have no: "\<not> ((s \<ge> a \<and> s < b) \<or> (e > a \<and> e \<le> b) \<or> (s \<le> a \<and> e \<ge> b))" "e \<noteq> a" "s \<noteq> b" "\<not> s < a"
    using o by auto
  have "add_iv s e ((a, b) # xs @ ys) = map_option ((#) (a, b)) (add_iv s e (xs @ ys))"
    unfolding add_iv.simps if_not_P [OF no(1)] if_not_P [OF no(2)] if_not_P [OF no(3)] if_not_P [OF no(4)] ..
  then show ?case using Cons by (simp add: p option.map_comp o_def)
qed (simp add: option.map_ident append_Nil [abs_def])

lemma gaps_append: "gaps (xs @ ys) \<Longrightarrow> gaps ys"
  by (induction xs) auto

lemma gaps_last_upper:
  assumes "gaps (xs @ [(a, b)])" "(c, d) \<in> set xs" shows "c < d \<and> d < a"
  using assms
proof (induction xs)
  case (Cons p xs)
  obtain c' d' where p: "p = (c', d')" by (cases p)
  have g: "gaps (xs @ [(a, b)])" "c' < d'" using Cons.prems(1) by (auto simp: p)
  show ?case
  proof (cases "(c, d) \<in> set xs")
    case True then show ?thesis using Cons.IH g by blast
  next
    case False
    then have cd: "c = c'" "d = d'" using Cons.prems(2) by (auto simp: p)
    have "a < b" using gaps_append [OF g(1)] by simp
    then have "a \<in> covered (xs @ [(a, b)])" by (simp add: covered_append)
    then have "d' < a" using gaps_lower [of c' d' "xs @ [(a, b)]" a] Cons.prems(1) by (simp add: p)
    then show ?thesis using cd g by simp
  qed
qed simp

lemma region_search_insert_correct:
  assumes wf: "wf_region reg h as" and al: "\<forall>a. alloc h = Some a \<longrightarrow> h a = None"
  shows "case add_iv s (s + scast n) (ivs h as) of
      None \<Rightarrow> region_search_insert alloc reg h s n = Some (1, reg, h)
    | Some ys \<Rightarrow> alloc h = None \<and> region_search_insert alloc reg h s n = Some (- 1, reg, h)
        \<or> (\<exists>reg' h' as'. region_search_insert alloc reg h s n = Some (0, reg', h')
             \<and> region_added reg h as s (s + scast n) reg' h' as')"
proof -
  have c: "chain h (reg_allocated reg) as None" "distinct as" using wf by (simp_all add: wf_region_def)
  let ?e = "s + scast n"
  obtain res where r: "region_search h (reg_last reg) s ?e (reg_allocated reg) None = Some res"
    and o: "search_outcome h (reg_last reg) s ?e (reg_allocated reg) None as res"
    using search_correct [OF c] by blast
  show ?thesis
  proof (cases res)
    case Conflict
    then show ?thesis using r o by (simp add: search_outcome_def region_search_insert_def)
  next
    case (Grown h' lst')
    with o obtain as' where as': "chain h' (reg_allocated reg) as' None" "as' \<noteq> []" "distinct as'"
      "set as' \<subseteq> set as" "add_iv s ?e (ivs h as) = Some (ivs h' as')" "\<forall>a. a \<notin> set as \<longrightarrow> h' a = h a"
      "lst' = reg_last reg \<and> last as' = last as \<or> lst' = Some (last as')" by (auto simp: search_outcome_def)
    have "as \<noteq> []" using as'(2,4) by auto
    then have "lst' = Some (last as')" using as'(7) wf by (auto simp: wf_region_def)
    then have "region_added reg h as s ?e (reg\<lparr>reg_last := lst'\<rparr>) h' as'"
      using as' by (simp add: region_added_def)
    then show ?thesis using r Grown as'(5) by (auto simp: region_search_insert_def)
  next
    case (Insert_between r' pv)
    with o obtain as1 as2 where x: "as = as1 @ as2" "chain h (reg_allocated reg) as1 r'" "chain h r' as2 None"
        "pv = (if as1 = [] then None else Some (last as1))"
        "add_iv s ?e (ivs h as) = Some (ivs h as1 @ (s, ?e) # ivs h as2)" by (auto simp: search_outcome_def)
    show ?thesis
    proof (cases "alloc h")
      case None
      then show ?thesis using r Insert_between x(5) by (simp add: region_search_insert_def region_insert_def)
    next
      case (Some a)
      have "h a = None" using al Some by blast
      from region_insert_correct [where alloc = alloc and s = s and n = n and a = a, OF wf x(1-4) Some this x(5)] show ?thesis
        using r Insert_between x(5) by (simp add: region_search_insert_def)
    qed
  qed
qed

text \<open>The fast paths do what the search would have done.\<close>

lemma wf_region_snoc:
  assumes "wf_region reg h as" "reg_last reg = Some l"
  obtains xs le where "as = xs @ [l]" "h l = Some le" "r_next le = None" "chain h (reg_allocated reg) xs (Some l)"
    "r_start le < r_end le" "\<forall>(a, b) \<in> set (ivs h xs). a < b \<and> b < r_start le"
proof -
  have "as \<noteq> []" "last as = l" using assms by (auto simp: wf_region_def split: if_splits)
  then obtain xs where as: "as = xs @ [l]" by (metis append_butlast_last_id)
  then obtain le where le: "h l = Some le" "r_next le = None" "chain h (reg_allocated reg) xs (Some l)"
    using assms by (auto simp: wf_region_def chain_append split: option.splits)
  have g: "gaps (ivs h xs @ [(r_start le, r_end le)])" using assms(1) le(1) by (simp add: wf_region_def as node_iv_def)
  have "r_start le < r_end le" using gaps_append [OF g] by simp
  moreover have "\<forall>(a, b) \<in> set (ivs h xs). a < b \<and> b < r_start le"
    using gaps_last_upper [OF g] by blast
  ultimately show thesis using that as le by blast
qed

lemma region_allocate_add_iv:
  assumes wf: "wf_region reg h as" and al: "\<forall>a. alloc h = Some a \<longrightarrow> h a = None"
    and n: "0 < sint n" "uint s + sint n < 2 ^ 64"
    and b: "reg_min reg \<le> s" "s + scast n \<le> reg_max reg"
  shows "case add_iv s (s + scast n) (ivs h as) of
      None \<Rightarrow> region_allocate alloc reg h s n = Some (1, reg, h)
    | Some ys \<Rightarrow> alloc h = None \<and> region_allocate alloc reg h s n = Some (- 1, reg, h)
        \<or> (\<exists>reg' h' as'. region_allocate alloc reg h s n = Some (0, reg', h')
             \<and> region_added reg h as s (s + scast n) reg' h' as')"
proof -
  let ?e = "s + scast n"
  have se: "s < ?e" by (rule end_after_start [OF n])
  have n0: "n \<noteq> 0" using n(1) by auto
  note pre = region_allocate_def [of alloc reg h s n] Let_def
  have bounds: "\<not> (s < reg_min reg \<or> ?e > reg_max reg)" using b by auto
  show ?thesis
  proof (cases "reg_last reg")
    case None
    then have "region_allocate alloc reg h s n = region_search_insert alloc reg h s n"
      using bounds n0 by (simp add: pre)
    then show ?thesis using region_search_insert_correct [where alloc = alloc and s = s and n = n, OF wf al] by (simp only:)
  next
    case (Some l)
    obtain xs le where x: "as = xs @ [l]" "h l = Some le" "r_next le = None" "chain h (reg_allocated reg) xs (Some l)"
      "r_start le < r_end le" "\<forall>(a, b) \<in> set (ivs h xs). a < b \<and> b < r_start le"
      using wf_region_snoc [OF wf Some] by blast
    have iv: "ivs h as = ivs h xs @ [(r_start le, r_end le)]" by (simp add: x node_iv_def)
    have d: "distinct as" "l \<notin> set xs" using wf by (auto simp: wf_region_def x(1))
    consider (grow) "r_end le = s" | (app) "r_end le \<noteq> s" "s > r_end le" | (search) "r_end le \<noteq> s" "\<not> s > r_end le" by blast
    then show ?thesis
    proof cases
      case grow
      let ?h = "h(l \<mapsto> le\<lparr>r_end := ?e\<rparr>)"
      have r: "region_allocate alloc reg h s n = Some (0, reg, ?h)"
        using bounds n0 Some x(2,3) grow by (simp add: pre)
      have all: "\<forall>(a, b) \<in> set (ivs h xs). a < b \<and> b < s" using x(5,6) grow by fastforce
      have "add_iv s ?e [(r_start le, s)] = Some [(r_start le, ?e)]"
        using x(5) se grow by (auto simp: add_iv.simps(2))
      then have "add_iv s ?e (ivs h as) = Some (ivs ?h as)"
        unfolding iv grow add_iv_after [OF all se] by (simp add: x(1) d)
      moreover have "chain ?h (reg_allocated reg) as None"
        unfolding x(1) chain_append using x(3,4) d by auto
      ultimately have "region_added reg h as s ?e reg ?h as"
        using Some x(1) d by (simp add: region_added_def)
      then show ?thesis using r by (auto simp: region_added_def)
    next
      case app
      have r: "region_allocate alloc reg h s n = region_insert alloc reg h s n None (Some l)"
        using bounds n0 Some x(2,3) app by (simp add: pre)
      have all: "\<forall>(a, b) \<in> set (ivs h as). a < b \<and> b < s" unfolding iv using x(5,6) app by force
      have sp: "add_iv s ?e (ivs h as) = Some (ivs h as @ [(s, ?e)])"
        using add_iv_after [OF all se, of "[]"] by simp
      have ch: "chain h (reg_allocated reg) as None" using wf by (simp add: wf_region_def)
      show ?thesis
      proof (cases "alloc h")
        case None
        then show ?thesis using r sp by (simp add: region_insert_def)
      next
        case al1: (Some a)
        have "h a = None" using al al1 by blast
        from region_insert_correct [where alloc = alloc and s = s and n = n and a = a and ?as2.0 = "[]"
            and ?as1.0 = as and r = None and prev = "Some l", OF wf _ ch _ _ al1 this]
        show ?thesis using sp r by (simp add: x(1))
      qed
    next
      case search
      have "region_allocate alloc reg h s n = region_search_insert alloc reg h s n"
        using bounds n0 Some x(2) search by (simp add: pre)
      then show ?thesis using region_search_insert_correct [where alloc = alloc and s = s and n = n, OF wf al] by (simp only:)
    qed
  qed
qed

lemma region_added_wf:
  assumes "wf_region reg h as" "region_added reg h as s e reg' h' as'" "s < e" "reg_min reg \<le> s" "e \<le> reg_max reg"
  shows "wf_region reg' h' as'" "covered (ivs h' as') = covered (ivs h as) \<union> {s..<e}"
    "covered (ivs h as) \<inter> {s..<e} = {}"
proof -
  have "gaps (ivs h as)" using assms(1) by (simp add: wf_region_def)
  from add_iv_Some [OF _ this assms(3)] assms(2)
  have *: "gaps (ivs h' as')" "covered (ivs h' as') = covered (ivs h as) \<union> {s..<e}" "{s..<e} \<inter> covered (ivs h as) = {}"
    by (auto simp: region_added_def)
  have "{s..<e} \<subseteq> {reg_min reg..<reg_max reg}" using assms(4,5) by auto
  then show "wf_region reg' h' as'" using assms(1,2) * by (simp add: wf_region_def region_added_def)
  show "covered (ivs h' as') = covered (ivs h as) \<union> {s..<e}" "covered (ivs h as) \<inter> {s..<e} = {}"
    using * by auto
qed

section \<open>Properties\<close>

text \<open>
  C25.  On a well-formed region, allocating a non-empty range that does not wrap around ends without
  touching a node that is not live.  The result is 0 exactly when the range lies inside the region,
  is free and memory could be had where it was needed: then the set of allocated addresses grows by
  exactly the range, and the list stays sorted, disjoint and merged, with \<open>last\<close> its last node.  It
  is 1 exactly when the range lies inside the region and meets an allocated one.  Otherwise, and on 1,
  nothing changes.
\<close>

theorem region_allocate_correct:
  assumes "wf_region reg h as" "\<forall>a. alloc h = Some a \<longrightarrow> h a = None"
    "0 < sint n" "uint s + sint n < 2 ^ 64"
  shows "\<exists>ret reg' h' as'. region_allocate alloc reg h s n = Some (ret, reg', h') \<and> wf_region reg' h' as'
    \<and> reg_min reg' = reg_min reg \<and> reg_max reg' = reg_max reg
    \<and> covered (ivs h' as') = covered (ivs h as) \<union> (if ret = 0 then {s..<s + scast n} else {})
    \<and> (ret = 0 \<longrightarrow> reg_min reg \<le> s \<and> s + scast n \<le> reg_max reg \<and> covered (ivs h as) \<inter> {s..<s + scast n} = {})
    \<and> (ret = 1 \<longleftrightarrow> reg_min reg \<le> s \<and> s + scast n \<le> reg_max reg \<and> covered (ivs h as) \<inter> {s..<s + scast n} \<noteq> {})
    \<and> (ret = 0 \<or> ret = 1 \<or> ret = - 1) \<and> (ret \<noteq> 0 \<longrightarrow> reg' = reg \<and> h' = h)
    \<and> (ret = - 1 \<longrightarrow> s < reg_min reg \<or> s + scast n > reg_max reg \<or> alloc h = None)"
proof -
  let ?e = "s + scast n"
  have se: "s < ?e" by (rule end_after_start [OF assms(3,4)])
  show ?thesis
  proof (cases "reg_min reg \<le> s \<and> ?e \<le> reg_max reg")
    case False
    then have "region_allocate alloc reg h s n = Some (- 1, reg, h)"
      by (auto simp: region_allocate_def Let_def not_le)
    then show ?thesis using False assms(1) by (intro exI [of _ "- 1"] exI [of _ reg] exI [of _ h] exI [of _ as]) auto
  next
    case True
    have g: "gaps (ivs h as)" using assms(1) by (simp add: wf_region_def)
    have *: "case add_iv s ?e (ivs h as) of
      None \<Rightarrow> region_allocate alloc reg h s n = Some (1, reg, h)
    | Some ys \<Rightarrow> alloc h = None \<and> region_allocate alloc reg h s n = Some (- 1, reg, h)
        \<or> (\<exists>reg' h' as'. region_allocate alloc reg h s n = Some (0, reg', h')
             \<and> region_added reg h as s ?e reg' h' as')"
      using region_allocate_add_iv [where alloc = alloc, OF assms] True by blast
    consider (meets) "region_allocate alloc reg h s n = Some (1, reg, h)" "add_iv s ?e (ivs h as) = None"
      | (nomem) ys where "alloc h = None" "region_allocate alloc reg h s n = Some (- 1, reg, h)"
          "add_iv s ?e (ivs h as) = Some ys"
      | (ok) reg' h' as' where "region_allocate alloc reg h s n = Some (0, reg', h')"
          "region_added reg h as s ?e reg' h' as'"
      using * by (cases "add_iv s ?e (ivs h as)") auto
    then show ?thesis
    proof cases
      case meets
      then show ?thesis using True assms(1) add_iv_None [OF meets(2) g se]
        by (intro exI [of _ "1"] exI [of _ reg] exI [of _ h] exI [of _ as]) (simp add: Int_commute)
    next
      case nomem
      then show ?thesis using True assms(1) add_iv_Some [OF nomem(3) g se]
        by (intro exI [of _ "- 1"] exI [of _ reg] exI [of _ h] exI [of _ as]) (simp add: Int_commute)
    next
      case ok
      then show ?thesis using True region_added_wf [OF assms(1) ok(2) se]
        by (intro exI [of _ 0] exI [of _ reg'] exI [of _ h'] exI [of _ as']) (simp add: region_added_def)
    qed
  qed
qed

definition region_demo :: region_struct where
  "region_demo = \<lparr>reg_min = 1, reg_max = 1001, reg_allocated = Some 0, reg_last = Some 1\<rparr>"

definition region_demo_heap :: region_heap where
  "region_demo_heap = [0 \<mapsto> \<lparr>r_start = 10, r_end = 20, r_next = Some 1\<rparr>,
                       1 \<mapsto> \<lparr>r_start = 30, r_end = 40, r_next = None\<rparr>]"

lemma wf_region_demo: "wf_region region_demo region_demo_heap [0, 1]"
  by (auto simp: wf_region_def region_demo_def region_demo_heap_def node_iv_def)

lemma region_allocate_correct_witness:
  "\<exists>ret reg' h' as'. region_allocate (\<lambda>_. Some 2) region_demo region_demo_heap 15 5 = Some (ret, reg', h')
     \<and> wf_region reg' h' as' \<and> ret = 1"
proof -
  have "(15 :: u64) \<in> covered (ivs region_demo_heap [0, 1]) \<inter> {15..<15 + scast (5 :: 32 word)}"
    by (simp add: region_demo_heap_def node_iv_def)
  then have "covered (ivs region_demo_heap [0, 1]) \<inter> {15..<15 + scast (5 :: 32 word)} \<noteq> {}" by blast
  moreover have "reg_min region_demo \<le> 15 \<and> 15 + scast (5 :: 32 word) \<le> reg_max region_demo"
    by (simp add: region_demo_def)
  moreover have "\<forall>a. Some 2 = Some a \<longrightarrow> region_demo_heap a = None" by (simp add: region_demo_heap_def)
  ultimately show ?thesis
    using region_allocate_correct [OF wf_region_demo, of "\<lambda>_. Some 2" 5 15] by auto
qed

lemma region_free_loop_correct:
  "chain h p as None \<Longrightarrow> distinct as \<Longrightarrow>
    region_free_loop h p = Some (\<lambda>a. if a \<in> set as then None else h a)"
proof (induction as arbitrary: h p)
  case Nil
  then show ?case by (simp add: region_free_loop.simps [of h None])
next
  case (Cons a as)
  then obtain el where p: "p = Some a" "h a = Some el" "chain h (r_next el) as None"
    by (auto split: option.splits)
  have "region_free_loop h p = region_free_loop (h(a := None)) (r_next el)"
    unfolding p(1) by (subst region_free_loop.simps) (simp add: p(2))
  also have "\<dots> = Some (\<lambda>b. if b \<in> set as then None else (h(a := None)) b)"
    by (rule Cons.IH) (use Cons.prems(2) p(3) chain_upd [of a as h None] in \<open>simp_all del: fun_upd_apply\<close>)
  finally show ?case by (auto simp: fun_eq_iff)
qed

text \<open>
  Freeing a well-formed region ends, reads no node after it was freed, and frees exactly the
  nodes of the list.
\<close>

theorem region_free_correct:
  assumes "wf_region reg h as"
  shows "region_free reg h = Some (\<lambda>a. if a \<in> set as then None else h a)"
  using assms region_free_loop_correct unfolding region_free_def wf_region_def by blast

lemma region_free_correct_witness: "region_free region_demo region_demo_heap = Some (\<lambda>_. None)"
  using region_free_correct [OF wf_region_demo] by (simp add: region_demo_heap_def fun_eq_iff)

end
