(* ===== verification/Bitops.thy ===== *)
theory Bitops
  imports E2fs_Prelude
begin

unbundle bit_operations_syntax

text \<open>
  Bit operations on arrays of bytes: \<open>lib/ext2fs/bitops.c\<close>, the inline fast versions of
  \<open>lib/ext2fs/bitops.h\<close>, and the two routines on ranges that the array bitmaps share,
  \<open>ext2fs_mem_is_zero\<close> and the test that a range of bits is clear.  The specification of an
  array of bytes is the set of the bits that are set, \<open>byte_bit xs i\<close> for bit number \<open>i\<close>.
\<close>

section \<open>One bit\<close>

text \<open>
  The 32-bit and the 64-bit functions have the same bodies but for the type of the bit number; the
  mask is an \<open>int\<close>, the returned value the bit of the byte that the mask selects, before the
  operation.
\<close>

definition set_bit_at :: "'a::len word \<Rightarrow> u8 list \<Rightarrow> u32 \<times> u8 list" where
  "set_bit_at nr addr =
     (let p = unat (drop_bit 3 nr);
          mask = push_bit (unat (nr AND 7)) (1 :: u32);
          retval = mask AND ucast (addr ! p)
      in (retval, addr[p := addr ! p OR ucast mask]))"

definition clear_bit_at :: "'a::len word \<Rightarrow> u8 list \<Rightarrow> u32 \<times> u8 list" where
  "clear_bit_at nr addr =
     (let p = unat (drop_bit 3 nr);
          mask = push_bit (unat (nr AND 7)) (1 :: u32);
          retval = mask AND ucast (addr ! p)
      in (retval, addr[p := addr ! p AND ucast (NOT mask)]))"

definition test_bit_at :: "'a::len word \<Rightarrow> u8 list \<Rightarrow> u32" where
  "test_bit_at nr addr =
     (let p = unat (drop_bit 3 nr);
          mask = push_bit (unat (nr AND 7)) (1 :: u32)
      in mask AND ucast (addr ! p))"

definition ext2fs_set_bit :: "u32 \<Rightarrow> u8 list \<Rightarrow> u32 \<times> u8 list" where
  "ext2fs_set_bit nr addr = set_bit_at nr addr"

definition ext2fs_clear_bit :: "u32 \<Rightarrow> u8 list \<Rightarrow> u32 \<times> u8 list" where
  "ext2fs_clear_bit nr addr = clear_bit_at nr addr"

definition ext2fs_test_bit :: "u32 \<Rightarrow> u8 list \<Rightarrow> u32" where
  "ext2fs_test_bit nr addr = test_bit_at nr addr"

definition ext2fs_set_bit64 :: "u64 \<Rightarrow> u8 list \<Rightarrow> u32 \<times> u8 list" where
  "ext2fs_set_bit64 nr addr = set_bit_at nr addr"

definition ext2fs_clear_bit64 :: "u64 \<Rightarrow> u8 list \<Rightarrow> u32 \<times> u8 list" where
  "ext2fs_clear_bit64 nr addr = clear_bit_at nr addr"

definition ext2fs_test_bit64 :: "u64 \<Rightarrow> u8 list \<Rightarrow> u32" where
  "ext2fs_test_bit64 nr addr = test_bit_at nr addr"

definition ext2fs_fast_set_bit :: "u32 \<Rightarrow> u8 list \<Rightarrow> u8 list" where
  "ext2fs_fast_set_bit nr addr =
     (let p = unat (drop_bit 3 nr)
      in addr[p := addr ! p OR ucast (push_bit (unat (nr AND 7)) (1 :: u32))])"

definition ext2fs_fast_clear_bit :: "u32 \<Rightarrow> u8 list \<Rightarrow> u8 list" where
  "ext2fs_fast_clear_bit nr addr =
     (let p = unat (drop_bit 3 nr)
      in addr[p := addr ! p AND ucast (NOT (push_bit (unat (nr AND 7)) (1 :: u32)))])"

definition ext2fs_fast_set_bit64 :: "u64 \<Rightarrow> u8 list \<Rightarrow> u8 list" where
  "ext2fs_fast_set_bit64 nr addr =
     (let p = unat (drop_bit 3 nr)
      in addr[p := addr ! p OR ucast (push_bit (unat (nr AND 7)) (1 :: u32))])"

definition ext2fs_fast_clear_bit64 :: "u64 \<Rightarrow> u8 list \<Rightarrow> u8 list" where
  "ext2fs_fast_clear_bit64 nr addr =
     (let p = unat (drop_bit 3 nr)
      in addr[p := addr ! p AND ucast (NOT (push_bit (unat (nr AND 7)) (1 :: u32)))])"

section \<open>The set of bits of an array\<close>

definition byte_bit :: "u8 list \<Rightarrow> nat \<Rightarrow> bool" where
  "byte_bit xs i \<longleftrightarrow> i div 8 < length xs \<and> bit (xs ! (i div 8)) (i mod 8)"

named_theorems bits_simps \<open>the bits of an array after an operation\<close>

lemma unat_and_7: "unat (nr AND 7) = unat nr mod 8" for nr :: "'a::len word"
proof -
  have "nr AND 7 = take_bit 3 nr" using take_bit_eq_mask [of 3 nr] by (simp add: mask_eq_exp_minus_1)
  then have "unat (nr AND 7) = take_bit 3 (unat nr)" by (simp only: unsigned_take_bit_eq)
  then show ?thesis by (simp add: take_bit_eq_mod)
qed

lemma unat_drop_3: "unat (drop_bit 3 nr) = unat nr div 8" for nr :: "'a::len word"
  by (simp only: unat_drop_bit_eq) (simp add: drop_bit_eq_div)

lemma bit_one_shifted: "bit (push_bit k (1 :: u32)) j \<longleftrightarrow> j = k \<and> k < 32"
  unfolding push_bit_of_1 bit_exp_iff possible_bit_def by auto

lemma set_bit_byte: "k < 8 \<Longrightarrow> bit (w OR ucast (push_bit k (1 :: u32)) :: u8) j \<longleftrightarrow> j = k \<or> bit w j"
  by (auto simp: bit_or_iff bit_ucast_iff bit_one_shifted simp del: push_bit_of_1)

lemma clear_bit_byte: "k < 8 \<Longrightarrow> bit (w AND ucast (NOT (push_bit k (1 :: u32))) :: u8) j \<longleftrightarrow> j \<noteq> k \<and> bit w j"
  by (auto simp: bit_and_iff bit_ucast_iff bit_not_iff bit_one_shifted dest: bit_imp_le_length simp del: push_bit_of_1)

lemma word_nz_bit: "w \<noteq> 0 \<longleftrightarrow> (\<exists>j < LENGTH('a). bit w j)" for w :: "'a::len word"
  by (auto simp: bit_eq_iff dest: bit_imp_le_length)

lemma mask_byte_nz:
  assumes "k < 8" shows "push_bit k (1 :: u32) AND ucast (w :: u8) \<noteq> 0 \<longleftrightarrow> bit w k"
proof -
  have "push_bit k (1 :: u32) AND ucast w \<noteq> 0 \<longleftrightarrow> (\<exists>j < 32. bit (push_bit k (1 :: u32) AND ucast w) j)"
    unfolding word_nz_bit by simp
  also have "\<dots> \<longleftrightarrow> bit w k"
    unfolding bit_and_iff bit_one_shifted bit_ucast_iff using assms by auto
  finally show ?thesis .
qed

lemma byte_bit_upd:
  assumes "p < length xs" "k < 8"
  shows "byte_bit (xs[p := xs ! p OR ucast (push_bit k (1 :: u32))]) j \<longleftrightarrow> j = 8 * p + k \<or> byte_bit xs j"
    and "byte_bit (xs[p := xs ! p AND ucast (NOT (push_bit k (1 :: u32)))]) j \<longleftrightarrow> j \<noteq> 8 * p + k \<and> byte_bit xs j"
proof -
  have eq: "j = 8 * p + k \<longleftrightarrow> j div 8 = p \<and> j mod 8 = k" using assms(2) by auto
  show "byte_bit (xs[p := xs ! p OR ucast (push_bit k (1 :: u32))]) j \<longleftrightarrow> j = 8 * p + k \<or> byte_bit xs j"
    unfolding byte_bit_def eq using assms by (auto simp: nth_list_update set_bit_byte simp del: push_bit_of_1)
  show "byte_bit (xs[p := xs ! p AND ucast (NOT (push_bit k (1 :: u32)))]) j \<longleftrightarrow> j \<noteq> 8 * p + k \<and> byte_bit xs j"
    unfolding byte_bit_def eq using assms by (auto simp: nth_list_update clear_bit_byte simp del: push_bit_of_1)
qed

lemma byte_bit_at: "k < 8 \<Longrightarrow> byte_bit xs (8 * p + k) \<longleftrightarrow> p < length xs \<and> bit (xs ! p) k"
  by (simp add: byte_bit_def)

lemma byte_bit_nth: "i div 8 < length xs \<Longrightarrow> byte_bit xs i = bit (xs ! (i div 8)) (i mod 8)"
  by (simp add: byte_bit_def)

lemma set_bit_at_bits [bits_simps]:
  assumes "unat nr div 8 < length xs"
  shows "fst (set_bit_at nr xs) \<noteq> 0 \<longleftrightarrow> byte_bit xs (unat nr)"
    "byte_bit (snd (set_bit_at nr xs)) j \<longleftrightarrow> j = unat nr \<or> byte_bit xs j"
    "length (snd (set_bit_at nr xs)) = length xs"
  using assms mask_byte_nz [of "unat nr mod 8" "xs ! (unat nr div 8)"] byte_bit_upd(1) [of "unat nr div 8" xs "unat nr mod 8" j]
  by (simp_all add: set_bit_at_def Let_def unat_and_7 unat_drop_3 byte_bit_nth del: push_bit_of_1)

lemma clear_bit_at_bits [bits_simps]:
  assumes "unat nr div 8 < length xs"
  shows "fst (clear_bit_at nr xs) \<noteq> 0 \<longleftrightarrow> byte_bit xs (unat nr)"
    "byte_bit (snd (clear_bit_at nr xs)) j \<longleftrightarrow> j \<noteq> unat nr \<and> byte_bit xs j"
    "length (snd (clear_bit_at nr xs)) = length xs"
  using assms mask_byte_nz [of "unat nr mod 8" "xs ! (unat nr div 8)"] byte_bit_upd(2) [of "unat nr div 8" xs "unat nr mod 8" j]
  by (simp_all add: clear_bit_at_def Let_def unat_and_7 unat_drop_3 byte_bit_nth del: push_bit_of_1)

lemma test_bit_at_bits [bits_simps]:
  assumes "unat nr div 8 < length xs"
  shows "test_bit_at nr xs \<noteq> 0 \<longleftrightarrow> byte_bit xs (unat nr)"
  using assms mask_byte_nz [of "unat nr mod 8" "xs ! (unat nr div 8)"]
  by (simp add: test_bit_at_def Let_def unat_and_7 unat_drop_3 byte_bit_nth del: push_bit_of_1)

lemmas bitop_defs = ext2fs_set_bit_def ext2fs_clear_bit_def ext2fs_test_bit_def
  ext2fs_set_bit64_def ext2fs_clear_bit64_def ext2fs_test_bit64_def

lemma fast_bits_64:
  "ext2fs_fast_set_bit64 nr xs = snd (ext2fs_set_bit64 nr xs)"
  "ext2fs_fast_clear_bit64 nr xs = snd (ext2fs_clear_bit64 nr xs)"
  by (simp_all add: ext2fs_fast_set_bit64_def ext2fs_fast_clear_bit64_def bitop_defs set_bit_at_def clear_bit_at_def Let_def)

lemma fast_bits_32:
  "ext2fs_fast_set_bit nr xs = snd (ext2fs_set_bit nr xs)"
  "ext2fs_fast_clear_bit nr xs = snd (ext2fs_clear_bit nr xs)"
  by (simp_all add: ext2fs_fast_set_bit_def ext2fs_fast_clear_bit_def bitop_defs set_bit_at_def clear_bit_at_def Let_def)

lemma fast_set_64: "ext2fs_fast_set_bit64 nr xs = snd (set_bit_at nr xs)"
  and fast_clear_64: "ext2fs_fast_clear_bit64 nr xs = snd (clear_bit_at nr xs)"
  and clear_bit64: "ext2fs_clear_bit64 nr xs = clear_bit_at nr xs"
  by (simp_all add: fast_bits_64 bitop_defs)

lemma fast_set_32: "ext2fs_fast_set_bit nr32 xs = snd (set_bit_at nr32 xs)"
  and fast_clear_32: "ext2fs_fast_clear_bit nr32 xs = snd (clear_bit_at nr32 xs)"
  and set_bit32: "ext2fs_set_bit nr32 xs = set_bit_at nr32 xs"
  and clear_bit32: "ext2fs_clear_bit nr32 xs = clear_bit_at nr32 xs"
  by (simp_all add: fast_bits_32 bitop_defs)

section \<open>Ranges\<close>

text \<open>
  \<open>ext2fs_mem_is_zero\<close> compares with a block of 256 zero bytes at a time; \<open>mem\<close> is the index
  of the first byte.
\<close>

function ext2fs_mem_is_zero :: "u8 list \<Rightarrow> nat \<Rightarrow> nat \<Rightarrow> bool" where
  "ext2fs_mem_is_zero xs mem len =
     (if len \<ge> 256
      then if take 256 (drop mem xs) \<noteq> replicate 256 0 then False
           else ext2fs_mem_is_zero xs (mem + 256) (len - 256)
      else if len \<noteq> 0 then take len (drop mem xs) = replicate len 0
      else True)"
  by pat_completeness auto
termination
  by (relation "measure (\<lambda>(xs, mem, len). len)") auto

declare ext2fs_mem_is_zero.simps [simp del]

text \<open>\<open>for (i = n; i > 0; i--, b--) acc |= 1 << b;\<close>\<close>

fun mask_down :: "nat \<Rightarrow> nat \<Rightarrow> u32 \<Rightarrow> u32" where
  "mask_down 0 b acc = acc"
| "mask_down (Suc i) b acc = mask_down i (b - 1) (acc OR push_bit b 1)"

text \<open>
  The body shared by \<open>ba_test_clear_bmap_extent\<close> and
  \<open>ext2fs_test_clear_generic_bitmap_range\<close>, after the start of the bitmap has been subtracted:
  whether the \<open>len\<close> bits from \<open>start\<close> on are all clear.  A \<open>char\<close> is signed; only the bits of
  the byte meet the masks.
\<close>

definition test_clear_tail :: "u8 list \<Rightarrow> nat \<Rightarrow> nat \<Rightarrow> nat \<Rightarrow> bool" where
  "test_clear_tail ADDR start_byte len_byte len_bit =
     (if len_bit \<noteq> 0
      then let last_bit = mask_down len_bit (len_bit - 1) 0 in
           if last_bit AND scast (ADDR ! (start_byte + len_byte)) \<noteq> 0 then False
           else if len_byte = 0 then True
           else ext2fs_mem_is_zero ADDR start_byte len_byte
      else ext2fs_mem_is_zero ADDR start_byte len_byte)"

definition test_clear_range :: "u8 list \<Rightarrow> nat \<Rightarrow> nat \<Rightarrow> bool" where
  "test_clear_range ADDR start len =
     (let start_byte = start div 8; start_bit = start mod 8 in
      if start_bit \<noteq> 0
      then let mark_count = (if len < 8 - start_bit then len else 8 - start_bit);
               mark_bit = (if len < 8 - start_bit then len + start_bit - 1 else 7);
               first_bit = mask_down mark_count mark_bit 0
           in if first_bit AND scast (ADDR ! start_byte) \<noteq> 0 then False
              else if len \<le> 8 - start_bit then True
              else test_clear_tail ADDR (start_byte + 1) ((len - mark_count) div 8) ((len - mark_count) mod 8)
      else test_clear_tail ADDR start_byte (len div 8) (len mod 8))"

text \<open>What the range functions compute.\<close>

lemma all_shift: "(\<forall>i. a \<le> i \<and> i < a + n \<longrightarrow> P i) \<longleftrightarrow> (\<forall>i < n. P (a + i))" for n :: nat
  by (metis add_less_cancel_left le_add1 le_add_diff_inverse)

lemma take_drop_zero:
  "a + n \<le> length xs \<Longrightarrow> take n (drop a xs) = replicate n z \<longleftrightarrow> (\<forall>i. a \<le> i \<and> i < a + n \<longrightarrow> xs ! i = z)"
  unfolding all_shift by (simp add: list_eq_iff_nth_eq)

lemma mem_is_zero_correct:
  "mem + len \<le> length xs \<Longrightarrow> ext2fs_mem_is_zero xs mem len \<longleftrightarrow> (\<forall>i. mem \<le> i \<and> i < mem + len \<longrightarrow> xs ! i = 0)"
proof (induction xs mem len rule: ext2fs_mem_is_zero.induct)
  case (1 xs mem len)
  note st = ext2fs_mem_is_zero.simps [of xs mem len]
  show ?case
  proof (cases "len \<ge> 256")
    case True
    have hd: "take 256 (drop mem xs) = replicate 256 0 \<longleftrightarrow> (\<forall>i. mem \<le> i \<and> i < mem + 256 \<longrightarrow> xs ! i = 0)"
      using 1(2) True by (intro take_drop_zero) simp
    show ?thesis
    proof (cases "take 256 (drop mem xs) = replicate 256 0")
      case eq: True
      have "ext2fs_mem_is_zero xs (mem + 256) (len - 256)
        \<longleftrightarrow> (\<forall>i. mem + 256 \<le> i \<and> i < mem + 256 + (len - 256) \<longrightarrow> xs ! i = 0)"
        using 1(2) True eq by (intro 1(1)) auto
      moreover have "mem + 256 + (len - 256) = mem + len" using True by simp
      ultimately show ?thesis using hd True eq unfolding st
        by (auto simp: eq) (metis not_le)
    next
      case False
      then show ?thesis using hd True unfolding st by simp (meson add_le_mono order.refl less_le_trans)
    qed
  next
    case False
    then show ?thesis using take_drop_zero [OF 1(2)] unfolding st by (auto)
  qed
qed

lemma byte_zero_bits: "w = 0 \<longleftrightarrow> (\<forall>k < 8. \<not> bit w k)" for w :: u8
  using word_nz_bit [of w] by auto

lemma bytes_zero_bits:
  assumes "a + n \<le> length xs"
  shows "(\<forall>i. a \<le> i \<and> i < a + n \<longrightarrow> xs ! i = 0) \<longleftrightarrow> (\<forall>j. 8 * a \<le> j \<and> j < 8 * (a + n) \<longrightarrow> \<not> byte_bit xs j)"
proof safe
  fix j assume z: "\<forall>i. a \<le> i \<and> i < a + n \<longrightarrow> xs ! i = 0" and j: "8 * a \<le> j" "j < 8 * (a + n)" "byte_bit xs j"
  have "a \<le> j div 8" "j div 8 < a + n" using j by (simp_all add: less_eq_div_iff_mult_less_eq div_less_iff_less_mult mult.commute)
  then have "xs ! (j div 8) = 0" using z by blast
  then show False using j(3) by (simp add: byte_bit_def)
next
  fix i assume z: "\<forall>j. 8 * a \<le> j \<and> j < 8 * (a + n) \<longrightarrow> \<not> byte_bit xs j" and i: "a \<le> i" "i < a + n"
  have "\<not> bit (xs ! i) k" if "k < 8" for k
  proof -
    have "\<not> byte_bit xs (8 * i + k)" using z i that by auto
    then show ?thesis using i assms that by (simp add: byte_bit_def)
  qed
  then show "xs ! i = 0" using byte_zero_bits by blast
qed

lemma bit_mask_down:
  "n \<le> b + 1 \<Longrightarrow> b < 32 \<Longrightarrow> bit (mask_down n b acc) j \<longleftrightarrow> bit acc j \<or> (b + 1 \<le> j + n \<and> j \<le> b)"
proof (induction n b acc rule: mask_down.induct)
  case (2 i b acc)
  show ?case
  proof (cases "i = 0")
    case True
    then show ?thesis using 2(3) by (auto simp: bit_or_iff bit_one_shifted simp del: push_bit_of_1)
  next
    case False
    then show ?thesis using 2 by (auto simp: bit_or_iff bit_one_shifted simp del: push_bit_of_1)
  qed
qed auto

lemma mask_meets_byte:
  assumes "n \<le> b + 1" "b < 8"
  shows "mask_down n b 0 AND scast (w :: u8) \<noteq> 0 \<longleftrightarrow> (\<exists>k. b + 1 \<le> k + n \<and> k \<le> b \<and> bit w k)"
proof -
  have *: "bit (mask_down n b 0 AND scast w) j \<longleftrightarrow> b + 1 \<le> j + n \<and> j \<le> b \<and> bit w j" if "j < 32" for j
  proof (cases "j \<le> b")
    case True
    then have "min 7 j = j" using assms by simp
    then show ?thesis using assms that by (simp add: bit_and_iff bit_mask_down bit_signed_iff min.commute)
  next
    case False
    then show ?thesis using assms by (simp add: bit_and_iff bit_mask_down)
  qed
  have "mask_down n b 0 AND scast w \<noteq> 0 \<longleftrightarrow> (\<exists>j < 32. b + 1 \<le> j + n \<and> j \<le> b \<and> bit w j)"
    unfolding word_nz_bit using * by auto
  moreover have "\<And>j. j \<le> b \<Longrightarrow> j < 32" using assms(2) by simp
  ultimately show ?thesis by blast
qed

lemma test_clear_tail_correct:
  assumes "8 * a + 8 * n + r \<le> 8 * length xs" "r < 8"
  shows "test_clear_tail xs a n r \<longleftrightarrow> (\<forall>j. 8 * a \<le> j \<and> j < 8 * a + 8 * n + r \<longrightarrow> \<not> byte_bit xs j)"
proof -
  have len: "a + n \<le> length xs" using assms by simp
  have whole: "ext2fs_mem_is_zero xs a n \<longleftrightarrow> (\<forall>j. 8 * a \<le> j \<and> j < 8 * (a + n) \<longrightarrow> \<not> byte_bit xs j)"
    using mem_is_zero_correct [OF len] bytes_zero_bits [OF len] by simp
  show ?thesis
  proof (cases "r = 0")
    case True
    then show ?thesis using whole by (simp add: test_clear_tail_def algebra_simps)
  next
    case False
    have le: "k \<le> r - Suc 0 \<longleftrightarrow> k < r" for k using False by auto
    have px: "a + n < length xs" using assms False by simp
    have last: "mask_down r (r - 1) 0 AND scast (xs ! (a + n)) \<noteq> 0
      \<longleftrightarrow> (\<exists>j. 8 * (a + n) \<le> j \<and> j < 8 * (a + n) + r \<and> byte_bit xs j)"
    proof -
      have "mask_down r (r - 1) 0 AND scast (xs ! (a + n)) \<noteq> 0 \<longleftrightarrow> (\<exists>k < r. bit (xs ! (a + n)) k)"
        using mask_meets_byte [of r "r - 1" "xs ! (a + n)"] False assms(2) le by simp
      also have "\<dots> \<longleftrightarrow> (\<exists>k < r. byte_bit xs (8 * (a + n) + k))"
        using byte_bit_at [of _ xs "a + n"] assms px by (metis less_trans)
      also have "\<dots> \<longleftrightarrow> (\<exists>j. 8 * (a + n) \<le> j \<and> j < 8 * (a + n) + r \<and> byte_bit xs j)"
        by (metis add_less_cancel_left le_add1 le_add_diff_inverse)
      finally show ?thesis .
    qed
    have split: "(\<forall>j. 8 * a \<le> j \<and> j < 8 * a + 8 * n + r \<longrightarrow> \<not> byte_bit xs j)
      \<longleftrightarrow> (\<forall>j. 8 * a \<le> j \<and> j < 8 * (a + n) \<longrightarrow> \<not> byte_bit xs j)
        \<and> \<not> (\<exists>j. 8 * (a + n) \<le> j \<and> j < 8 * (a + n) + r \<and> byte_bit xs j)"
      by (auto simp: algebra_simps not_less) (metis not_le)
    show ?thesis unfolding split last [symmetric] whole [symmetric]
      using False ext2fs_mem_is_zero.simps [of xs a 0] by (auto simp: test_clear_tail_def Let_def)
  qed
qed

lemma range_split:
  fixes a m e :: nat
  assumes "a \<le> m" "m \<le> e"
  shows "(\<forall>j. a \<le> j \<and> j < e \<longrightarrow> \<not> B j)
    \<longleftrightarrow> \<not> (\<exists>j. a \<le> j \<and> j < m \<and> B j) \<and> (\<forall>j. m \<le> j \<and> j < e \<longrightarrow> \<not> B j)"
proof (intro iffI allI impI)
  fix j assume "\<not> (\<exists>j. a \<le> j \<and> j < m \<and> B j) \<and> (\<forall>j. m \<le> j \<and> j < e \<longrightarrow> \<not> B j)" "a \<le> j \<and> j < e"
  then show "\<not> B j" by (cases "j < m") auto
qed (use assms in auto)

lemma test_clear_range_correct:
  assumes "start + len \<le> 8 * length xs"
  shows "test_clear_range xs start len \<longleftrightarrow> (\<forall>j. start \<le> j \<and> j < start + len \<longrightarrow> \<not> byte_bit xs j)"
proof -
  define p k where "p = start div 8" and "k = start mod 8"
  have st: "start = 8 * p + k" "k < 8" by (auto simp: p_def k_def)
  show ?thesis
  proof (cases "k = 0")
    case True
    then show ?thesis using test_clear_tail_correct [of p "len div 8" "len mod 8" xs] assms st
      by (simp add: test_clear_range_def Let_def add.commute)
  next
    case False
    let ?n = "if len < 8 - k then len else 8 - k"
    let ?b = "if len < 8 - k then len + k - 1 else 7"
    have hd: "mask_down ?n ?b 0 AND scast (xs ! p) \<noteq> 0 \<longleftrightarrow> (\<exists>j. start \<le> j \<and> j < start + ?n \<and> byte_bit xs j)"
    proof (cases "len = 0")
      case True
      then show ?thesis using st False by simp
    next
      case len: False
      have px: "p < length xs" using assms st len by simp
      have "mask_down ?n ?b 0 AND scast (xs ! p) \<noteq> 0 \<longleftrightarrow> (\<exists>i. ?b + 1 \<le> i + ?n \<and> i \<le> ?b \<and> bit (xs ! p) i)"
        using False st(2) by (intro mask_meets_byte) auto
      also have "\<dots> \<longleftrightarrow> (\<exists>i. k \<le> i \<and> i < k + ?n \<and> byte_bit xs (8 * p + i))"
      proof (rule ex_cong1)
        fix i
        have "?b + 1 \<le> i + ?n \<and> i \<le> ?b \<longleftrightarrow> k \<le> i \<and> i < k + ?n" using False st(2) len by auto
        moreover have "i \<le> ?b \<Longrightarrow> i < 8" using st(2) False by (auto split: if_splits)
        ultimately show "(?b + 1 \<le> i + ?n \<and> i \<le> ?b \<and> bit (xs ! p) i) \<longleftrightarrow> (k \<le> i \<and> i < k + ?n \<and> byte_bit xs (8 * p + i))"
          using px byte_bit_at [of i xs p] by blast
      qed
      also have "\<dots> \<longleftrightarrow> (\<exists>j. start \<le> j \<and> j < start + ?n \<and> byte_bit xs j)"
      proof safe
        fix i assume "k \<le> i" "i < k + ?n" "byte_bit xs (8 * p + i)"
        then show "\<exists>j \<ge> start. j < start + ?n \<and> byte_bit xs j" using st(1) by (intro exI [of _ "8 * p + i"]) auto
      next
        fix j assume "start \<le> j" "j < start + ?n" "byte_bit xs j"
        then show "\<exists>i \<ge> k. i < k + ?n \<and> byte_bit xs (8 * p + i)" using st(1) by (intro exI [of _ "j - 8 * p"]) auto
      qed
      finally show ?thesis .
    qed
    note def = test_clear_range_def [of xs start len, folded p_def k_def] Let_def
    show ?thesis
    proof (cases "len \<le> 8 - k")
      case True
      then have "?n = len" by auto
      then show ?thesis using hd True False by (auto simp: def)
    next
      case long: False
      have n: "?n = 8 - k" "?b = 7" using long by auto
      have tl: "test_clear_tail xs (p + 1) ((len - (8 - k)) div 8) ((len - (8 - k)) mod 8)
        \<longleftrightarrow> (\<forall>j. 8 * (p + 1) \<le> j \<and> j < start + len \<longrightarrow> \<not> byte_bit xs j)"
        using test_clear_tail_correct [of "p + 1" "(len - (8 - k)) div 8" "(len - (8 - k)) mod 8" xs]
          assms st long by (simp add: ac_simps)
      have ends: "start + (8 - k) = 8 * (p + 1)" "8 * (p + 1) \<le> start + len" using st long by auto
      have "test_clear_range xs start len \<longleftrightarrow> \<not> (mask_down ?n ?b 0 AND scast (xs ! p) \<noteq> 0)
          \<and> test_clear_tail xs (p + 1) ((len - (8 - k)) div 8) ((len - (8 - k)) mod 8)"
        using False long by (simp add: def n)
      also have "\<dots> \<longleftrightarrow> (\<forall>j. start \<le> j \<and> j < start + len \<longrightarrow> \<not> byte_bit xs j)"
        unfolding n hd [unfolded n] tl ends(1) by (rule range_split [symmetric]) (use ends in auto)
      finally show ?thesis .
    qed
  qed
qed

end
