(* ===== verification/Bit_Loops.thy ===== *)
theory Bit_Loops
  imports Bitops
begin

text \<open>
  The loops over the bits of an array that the 32-bit and the 64-bit bitmaps have in common, for a
  word of any length.
\<close>

section \<open>The loops\<close>

text \<open>
  \<open>for (i = 0; i < num; i++) f(bitno + i - start, xs)\<close>, and the loop of the two resize functions
  that clears the bits from \<open>bitno\<close> down to the old end, exclusive.
\<close>

function for_bits :: "('a::len word \<Rightarrow> u8 list \<Rightarrow> u8 list) \<Rightarrow> 'a word \<Rightarrow> 'a word \<Rightarrow> nat \<Rightarrow> nat \<Rightarrow> u8 list \<Rightarrow> u8 list" where
  "for_bits f start bitno i num xs =
     (if i < num then for_bits f start bitno (i + 1) num (f (bitno + of_nat i - start) xs) else xs)"
  by pat_completeness auto
termination by (relation "measure (\<lambda>(f, start, bitno, i, num, xs). num - i)") auto

function clear_down :: "('a::len word \<Rightarrow> u8 list \<Rightarrow> u32 \<times> u8 list) \<Rightarrow> 'a word \<Rightarrow> 'a word \<Rightarrow> 'a word \<Rightarrow> u8 list \<Rightarrow> u8 list" where
  "clear_down clear_bit start old_end bitno xs =
     (if bitno > old_end
      then clear_down clear_bit start old_end (bitno - 1) (snd (clear_bit (bitno - start) xs))
      else xs)"
  by pat_completeness auto
termination
proof (relation "measure (\<lambda>(clear_bit, start, old_end, bitno, xs). unat bitno)")
  fix clear_bit :: "'a word \<Rightarrow> u8 list \<Rightarrow> u32 \<times> u8 list" and old_end bitno start :: "'a word" and xs :: "u8 list"
  assume "old_end < bitno"
  then have "bitno \<noteq> 0" by auto
  then have "unat (bitno - 1) < unat bitno" by (simp add: unat_minus_one unat_gt_0)
  then show "((clear_bit, start, old_end, bitno - 1, snd (clear_bit (bitno - start) xs)), clear_bit, start, old_end, bitno, xs)
    \<in> measure (\<lambda>(clear_bit, start, old_end, bitno, xs). unat bitno)" by simp
qed simp

declare for_bits.simps [simp del] clear_down.simps [simp del]

section \<open>What they do to the bits\<close>

lemma byte_bit_zeros [simp]: "\<not> byte_bit (replicate n 0) i"
  by (auto simp: byte_bit_def)

lemma byte_bit_append:
  "byte_bit (xs @ ys) i \<longleftrightarrow> (if i div 8 < length xs then byte_bit xs i else byte_bit ys (i - 8 * length xs))"
proof (cases "i div 8 < length xs")
  case False
  then have "8 * length xs \<le> i" by linarith
  then obtain m where "i = 8 * length xs + m" using le_Suc_ex by blast
  then show ?thesis by (simp add: byte_bit_def nth_append)
qed (simp add: byte_bit_def nth_append)

lemma loop_index:
  fixes start bitno :: "'a::len word"
  assumes "i < num" "unat (bitno - start) + num \<le> 2 ^ LENGTH('a)"
  shows "unat (bitno + of_nat i - start) = unat (bitno - start) + i"
proof -
  have "bitno + of_nat i - start = (bitno - start) + of_nat i" by simp
  moreover have "i < 2 ^ LENGTH('a)" "unat (bitno - start) + i < 2 ^ LENGTH('a)" using assms by linarith+
  ultimately show ?thesis by (simp only: unat_word_ariths(1)) (simp add: unat_of_nat take_bit_eq_mod)
qed

lemma for_set_bits:
  fixes start bitno :: "'a::len word"
  assumes f: "\<And>nr xs. f nr xs = snd (set_bit_at nr xs)"
    and b: "unat (bitno - start) + num \<le> 2 ^ LENGTH('a)" and len: "unat (bitno - start) + num \<le> 8 * length xs"
  shows "(byte_bit (for_bits f start bitno i num xs) j
      \<longleftrightarrow> byte_bit xs j \<or> unat (bitno - start) + i \<le> j \<and> j < unat (bitno - start) + num)
    \<and> length (for_bits f start bitno i num xs) = length xs"
  using len
proof (induction "num - i" arbitrary: i xs)
  case 0
  then show ?case by (subst (1 2) for_bits.simps) auto
next
  case (Suc k)
  let ?n = "bitno + of_nat i - start"
  have i: "i < num" using Suc(2) by simp
  have u: "unat ?n = unat (bitno - start) + i" by (rule loop_index [OF i b])
  have "unat ?n div 8 < length xs" using Suc(3) i unfolding u by auto
  note sb = set_bit_at_bits [OF this]
  have ys: "length (f ?n xs) = length xs" "byte_bit (f ?n xs) j \<longleftrightarrow> j = unat (bitno - start) + i \<or> byte_bit xs j"
    using sb [unfolded u] by (simp_all add: f)
  have e: "for_bits f start bitno i num xs = for_bits f start bitno (i + 1) num (f ?n xs)"
    using i by (subst for_bits.simps) simp
  have "k = num - (i + 1)" using Suc(2) by simp
  from Suc(1) [OF this, of "f ?n xs", unfolded ys, OF Suc(3)] show ?case unfolding e using i by auto
qed

lemma for_clear_bits:
  fixes start bitno :: "'a::len word"
  assumes f: "\<And>nr xs. f nr xs = snd (clear_bit_at nr xs)"
    and b: "unat (bitno - start) + num \<le> 2 ^ LENGTH('a)" and len: "unat (bitno - start) + num \<le> 8 * length xs"
  shows "(byte_bit (for_bits f start bitno i num xs) j
      \<longleftrightarrow> byte_bit xs j \<and> \<not> (unat (bitno - start) + i \<le> j \<and> j < unat (bitno - start) + num))
    \<and> length (for_bits f start bitno i num xs) = length xs"
  using len
proof (induction "num - i" arbitrary: i xs)
  case 0
  then show ?case by (subst (1 2) for_bits.simps) auto
next
  case (Suc k)
  let ?n = "bitno + of_nat i - start"
  have i: "i < num" using Suc(2) by simp
  have u: "unat ?n = unat (bitno - start) + i" by (rule loop_index [OF i b])
  have "unat ?n div 8 < length xs" using Suc(3) i unfolding u by auto
  note sb = clear_bit_at_bits [OF this]
  have ys: "length (f ?n xs) = length xs" "byte_bit (f ?n xs) j \<longleftrightarrow> j \<noteq> unat (bitno - start) + i \<and> byte_bit xs j"
    using sb [unfolded u] by (simp_all add: f)
  have e: "for_bits f start bitno i num xs = for_bits f start bitno (i + 1) num (f ?n xs)"
    using i by (subst for_bits.simps) simp
  have "k = num - (i + 1)" using Suc(2) by simp
  from Suc(1) [OF this, of "f ?n xs", unfolded ys, OF Suc(3)] show ?case unfolding e using i by auto
qed

lemma clear_down_bits:
  fixes start :: "'a::len word"
  assumes f: "\<And>nr xs. f nr xs = clear_bit_at nr xs" and so: "start \<le> old_end"
  shows "start \<le> bitno \<Longrightarrow> unat (bitno - start) < 8 * length xs \<Longrightarrow> (byte_bit (clear_down f start old_end bitno xs) j
      \<longleftrightarrow> byte_bit xs j \<and> \<not> (unat (old_end - start) < j \<and> j \<le> unat (bitno - start)))
    \<and> length (clear_down f start old_end bitno xs) = length xs"
proof (induction "unat bitno" arbitrary: bitno xs rule: less_induct)
  case less
  note st = clear_down.simps [of f start old_end bitno xs]
  show ?case
  proof (cases "bitno > old_end")
    case True
    let ?ys = "snd (f (bitno - start) xs)"
    have "unat (bitno - start) div 8 < length xs" using less(3) by linarith
    note sb = clear_bit_at_bits [OF this]
    have ys: "length ?ys = length xs" "byte_bit ?ys j \<longleftrightarrow> j \<noteq> unat (bitno - start) \<and> byte_bit xs j"
      using sb by (simp_all add: f)
    have u1: "unat (bitno - 1) = unat bitno - 1" using True by (intro unat_minus_one) auto
    have lt: "unat old_end < unat bitno" "unat start \<le> unat old_end" using True so by (simp_all add: word_le_nat_alt word_less_nat_alt)
    have sle: "start \<le> bitno - 1" unfolding word_le_nat_alt u1 using lt by linarith
    have u2: "unat (bitno - 1 - start) = unat (bitno - start) - 1"
      using unat_sub [OF sle] unat_sub [OF less(2)] u1 by simp
    have os: "unat (old_end - start) < unat (bitno - start)" using unat_sub [OF so] unat_sub [OF less(2)] lt by simp
    have e: "clear_down f start old_end bitno xs = clear_down f start old_end (bitno - 1) ?ys"
      unfolding st using True by simp
    have dec: "unat (bitno - 1) < unat bitno" using u1 lt by linarith
    from less(1) [OF dec sle, of ?ys, unfolded ys u2] less(3) os show ?thesis unfolding e by auto
  next
    case False
    then have "unat (bitno - start) \<le> unat (old_end - start)"
      using unat_sub [OF so] unat_sub [OF less(2)] by (simp add: word_le_nat_alt not_less)
    then show ?thesis unfolding st using False by auto
  qed
qed

end
