(* ===== verification/Bmap64.thy ===== *)
theory Bmap64
  imports E2fs_Prelude
begin

text \<open>
  The 64-bit bitmap structure and the table of operations of a back end, \<open>lib/ext2fs/bmap64.h\<close>,
  and the contract that the generic layer \<open>lib/ext2fs/gen_bitmap64.c\<close> relies on, as the locale
  \<open>bitmap_backend\<close>.  The array back end (theory \<open>Bmap_BA\<close>) and the tree of extents (theory
  \<open>Bmap_RB\<close>) are the two interpretations.

  The private data of a back end is the type parameter; the description, the file system handle and
  the base error code, which only error messages use, are left out.
\<close>

section \<open>The structure and the table of operations\<close>

record 'p bmap64 =
  bm_magic :: errcode
  bm_flags :: u32
  bm_start :: u64
  bm_end :: u64
  bm_real_end :: u64
  bm_cluster_bits :: nat
  bm_private :: 'p

text \<open>
  An operation returns the value of the C function with the bitmap it leaves behind: also a test
  may change the private data (the read cursor of the tree).  \<open>op_resize\<close> returns its error code,
  if any.  The two search operations may be null, and write their result on success only.
\<close>

record 'p bitmap_ops =
  op_new_bmap :: "malloc \<Rightarrow> 'p option bmap64 \<Rightarrow> errcode + 'p bmap64"
  op_copy_bmap :: "malloc \<Rightarrow> 'p bmap64 \<Rightarrow> 'p option bmap64 \<Rightarrow> errcode + 'p bmap64 \<times> 'p bmap64"
  op_resize_bmap :: "malloc \<Rightarrow> 'p bmap64 \<Rightarrow> u64 \<Rightarrow> u64 \<Rightarrow> errcode option \<times> 'p bmap64"
  op_mark_bmap :: "'p bmap64 \<Rightarrow> u64 \<Rightarrow> u32 \<times> 'p bmap64"
  op_unmark_bmap :: "'p bmap64 \<Rightarrow> u64 \<Rightarrow> u32 \<times> 'p bmap64"
  op_test_bmap :: "'p bmap64 \<Rightarrow> u64 \<Rightarrow> u32 \<times> 'p bmap64"
  op_mark_bmap_extent :: "'p bmap64 \<Rightarrow> u64 \<Rightarrow> u32 \<Rightarrow> 'p bmap64"
  op_unmark_bmap_extent :: "'p bmap64 \<Rightarrow> u64 \<Rightarrow> u32 \<Rightarrow> 'p bmap64"
  op_test_clear_bmap_extent :: "'p bmap64 \<Rightarrow> u64 \<Rightarrow> u32 \<Rightarrow> bool"
  op_set_bmap_range :: "'p bmap64 \<Rightarrow> u64 \<Rightarrow> nat \<Rightarrow> u8 list \<Rightarrow> 'p bmap64"
  op_get_bmap_range :: "'p bmap64 \<Rightarrow> u64 \<Rightarrow> nat \<Rightarrow> u8 list \<Rightarrow> u8 list"
  op_clear_bmap :: "'p bmap64 \<Rightarrow> 'p bmap64"
  op_find_first_zero :: "('p bmap64 \<Rightarrow> u64 \<Rightarrow> u64 \<Rightarrow> errcode + u64) option"
  op_find_first_set :: "('p bmap64 \<Rightarrow> u64 \<Rightarrow> u64 \<Rightarrow> errcode + u64) option"

section \<open>The contract of a back end\<close>

text \<open>The \<open>n\<close> numbers from \<open>x\<close> on, and the parts of the structure no operation but resize changes.\<close>

definition run :: "u64 \<Rightarrow> nat \<Rightarrow> u64 set" where
  "run x n = {y. x \<le> y \<and> unat y < unat x + n}"

definition same_header :: "'p bmap64 \<Rightarrow> 'q bmap64 \<Rightarrow> bool" where
  "same_header b c \<longleftrightarrow> bm_magic b = bm_magic c \<and> bm_flags b = bm_flags c \<and> bm_start b = bm_start c
     \<and> bm_end b = bm_end c \<and> bm_real_end b = bm_real_end c \<and> bm_cluster_bits b = bm_cluster_bits c"

definition in_bmap :: "'p bmap64 \<Rightarrow> u64 \<Rightarrow> nat \<Rightarrow> bool" where
  "in_bmap b x n \<longleftrightarrow> bm_start b \<le> x \<and> unat x + n \<le> unat (bm_real_end b) + 1"

text \<open>\<open>r\<close> is the first number in \<open>{s..e}\<close> that satisfies \<open>P\<close>.\<close>

definition first_in :: "(u64 \<Rightarrow> bool) \<Rightarrow> u64 \<Rightarrow> u64 \<Rightarrow> u64 \<Rightarrow> bool" where
  "first_in P s e r \<longleftrightarrow> s \<le> r \<and> r \<le> e \<and> P r \<and> (\<forall>y. s \<le> y \<and> y < r \<longrightarrow> \<not> P y)"

lemma same_header_refl [simp]: "same_header b b"
  by (simp add: same_header_def)

lemma same_header_private [simp]: "same_header (b\<lparr>bm_private := p\<rparr>) b"
  by (simp add: same_header_def)

lemma run_0 [simp]: "run x 0 = {}"
  by (auto simp: run_def word_le_nat_alt)

lemma run_Suc: "unat x + n < 2 ^ 64 \<Longrightarrow> run x (Suc n) = insert (x + of_nat n) (run x n)"
proof -
  assume n: "unat x + n < 2 ^ 64"
  then have u: "unat (x + of_nat n) = unat x + n"
    by (simp add: unat_word_ariths unat_of_nat)
  show ?thesis using u by (auto simp: run_def word_le_nat_alt word_unat_eq_iff)
qed

text \<open>Numbers of a bitmap and their offsets from its start.\<close>

lemma sub_le_sub: "s \<le> x \<Longrightarrow> x \<le> e \<Longrightarrow> unat (x - s) \<le> unat (e - s)" for x s e :: u64
  using unat_sub [of s x] unat_sub [of s e] order_trans [of s x e] by (simp add: word_le_nat_alt)

lemma sub_eq_sub: "unat (x - s) = unat (y - s) \<longleftrightarrow> x = y" for x y s :: u64
  by (simp add: word_unat_eq_iff [symmetric])

lemma in_bmap_1: "in_bmap b x 1 \<longleftrightarrow> bm_start b \<le> x \<and> x \<le> bm_real_end b"
  by (auto simp: in_bmap_def word_le_nat_alt)

lemma in_run_sub:
  assumes "s \<le> x" shows "y \<in> run x n \<and> s \<le> y \<longleftrightarrow> s \<le> y \<and> unat (x - s) \<le> unat (y - s) \<and> unat (y - s) < unat (x - s) + n"
  using assms unat_sub [of s x] unat_sub [of s y] by (auto simp: run_def word_le_nat_alt)

text \<open>The contract.\<close>

locale bitmap_backend =
  fixes ops :: "'p bitmap_ops" and wf :: "'p bmap64 \<Rightarrow> bool" and bits :: "'p bmap64 \<Rightarrow> u64 set"
  assumes bits_in: "wf b \<Longrightarrow> x \<in> bits b \<Longrightarrow> bm_start b \<le> x \<and> x \<le> bm_real_end b"
    and wf_ends: "wf b \<Longrightarrow> bm_start b \<le> bm_real_end b \<and> bm_end b \<le> bm_real_end b"
    and wf_end: "wf b \<Longrightarrow> e \<le> bm_real_end b \<Longrightarrow> wf (b\<lparr>bm_end := e\<rparr>) \<and> bits (b\<lparr>bm_end := e\<rparr>) = bits b"
    and new_ok: "bm_start b0 \<le> bm_end b0 \<Longrightarrow> bm_end b0 \<le> bm_real_end b0
      \<Longrightarrow> unat (bm_real_end b0) < unat (bm_start b0) + 2 ^ 63
      \<Longrightarrow> op_new_bmap ops mal b0 = Inr b \<Longrightarrow> wf b \<and> bits b = {} \<and> same_header b b0"
    and copy_ok: "wf a \<Longrightarrow> same_header d0 a \<Longrightarrow> op_copy_bmap ops mal a d0 = Inr (a', d)
      \<Longrightarrow> wf d \<and> bits d = bits a \<and> same_header d a \<and> wf a' \<and> bits a' = bits a \<and> same_header a' a"
    and mark_ok: "wf b \<Longrightarrow> in_bmap b x 1 \<Longrightarrow> op_mark_bmap ops b x = (r, b')
      \<Longrightarrow> wf b' \<and> bits b' = insert x (bits b) \<and> (r \<noteq> 0 \<longleftrightarrow> x \<in> bits b) \<and> same_header b' b"
    and unmark_ok: "wf b \<Longrightarrow> in_bmap b x 1 \<Longrightarrow> op_unmark_bmap ops b x = (r, b')
      \<Longrightarrow> wf b' \<and> bits b' = bits b - {x} \<and> same_header b' b \<and> (x \<in> bits b \<longrightarrow> r \<noteq> 0)"
    and test_ok: "wf b \<Longrightarrow> in_bmap b x 1 \<Longrightarrow> op_test_bmap ops b x = (r, b')
      \<Longrightarrow> wf b' \<and> bits b' = bits b \<and> (r \<noteq> 0 \<longleftrightarrow> x \<in> bits b) \<and> same_header b' b"
    and mark_extent_ok: "wf b \<Longrightarrow> in_bmap b x (unat n) \<Longrightarrow> wf (op_mark_bmap_extent ops b x n)
      \<and> bits (op_mark_bmap_extent ops b x n) = bits b \<union> run x (unat n) \<and> same_header (op_mark_bmap_extent ops b x n) b"
    and unmark_extent_ok: "wf b \<Longrightarrow> in_bmap b x (unat n) \<Longrightarrow> wf (op_unmark_bmap_extent ops b x n)
      \<and> bits (op_unmark_bmap_extent ops b x n) = bits b - run x (unat n) \<and> same_header (op_unmark_bmap_extent ops b x n) b"
    and test_clear_ok: "wf b \<Longrightarrow> in_bmap b x (unat n)
      \<Longrightarrow> op_test_clear_bmap_extent ops b x n \<longleftrightarrow> bits b \<inter> run x (unat n) = {}"
    and clear_ok: "wf b \<Longrightarrow> wf (op_clear_bmap ops b) \<and> bits (op_clear_bmap ops b) = {} \<and> same_header (op_clear_bmap ops b) b"
    and find_zero_ok: "wf b \<Longrightarrow> bits b \<noteq> {} \<Longrightarrow> bm_start b \<le> s \<Longrightarrow> s \<le> e \<Longrightarrow> e \<le> bm_real_end b
      \<Longrightarrow> op_find_first_zero ops = Some ff
      \<Longrightarrow> case ff b s e of Inr r \<Rightarrow> first_in (\<lambda>x. x \<notin> bits b) s e r
            | Inl err \<Rightarrow> err = ENOENT \<and> (\<forall>x. s \<le> x \<and> x \<le> e \<longrightarrow> x \<in> bits b)"
    and find_set_ok: "wf b \<Longrightarrow> bm_start b \<le> s \<Longrightarrow> s \<le> e \<Longrightarrow> e \<le> bm_real_end b
      \<Longrightarrow> op_find_first_set ops = Some ff
      \<Longrightarrow> case ff b s e of Inr r \<Rightarrow> first_in (\<lambda>x. x \<in> bits b) s e r
            | Inl err \<Rightarrow> err = ENOENT \<and> (\<forall>x. s \<le> x \<and> x \<le> e \<longrightarrow> x \<notin> bits b)"
    and resize_ok: "wf b \<Longrightarrow> bm_start b \<le> bm_end b \<Longrightarrow> bm_start b \<le> ne \<Longrightarrow> ne \<le> nre \<Longrightarrow> bm_real_end b \<le> nre
      \<Longrightarrow> unat nre < unat (bm_start b) + 2 ^ 63 \<Longrightarrow> op_resize_bmap ops mal b ne nre = (None, b')
      \<Longrightarrow> wf b' \<and> bits b' \<inter> {..ne} = bits b \<inter> {..ne} \<inter> {..bm_end b}
          \<and> bm_start b' = bm_start b \<and> bm_end b' = ne \<and> bm_real_end b' = nre
          \<and> bm_magic b' = bm_magic b \<and> bm_cluster_bits b' = bm_cluster_bits b"

end
