(* ===== verification/Bmap_BA.thy ===== *)
theory Bmap_BA
  imports Bit_Loops Bmap64
begin

text \<open>
  The bitmap back end that keeps an array of bytes, \<open>lib/ext2fs/blkmap64_ba.c\<close>.  Bit number
  \<open>bitno - start\<close> of the array stands for \<open>bitno\<close>.  The well-formedness invariant gives the
  array its length and says that the bits of the last byte beyond \<open>real_end\<close> are clear; the
  abstraction is the set of the numbers whose bit is set.  The theory proves that the back end meets
  the contract \<open>bitmap_backend\<close>.

  The address of the array matters to the two search functions only, which compare eight bytes at a
  time once they are aligned: \<open>base\<close> is that address, and the theorems hold for every one.
  \<open>junk\<close> is what fresh memory holds.
\<close>

section \<open>The structure and its operations\<close>

record ba_private =
  ba_array :: "u8 list"

type_synonym ba_bmap = "ba_private bmap64"

definition ba_size :: "u64 \<Rightarrow> u64 \<Rightarrow> nat" where
  "ba_size start real_end = unat ((real_end - start) div 8 + 1)"

definition with_private :: "'q bmap64 \<Rightarrow> 'p \<Rightarrow> 'p bmap64" where
  "with_private b p = \<lparr>bm_magic = bm_magic b, bm_flags = bm_flags b, bm_start = bm_start b, bm_end = bm_end b,
     bm_real_end = bm_real_end b, bm_cluster_bits = bm_cluster_bits b, bm_private = p\<rparr>"

definition ba_alloc_private_data :: "u8 \<Rightarrow> malloc \<Rightarrow> ba_private option bmap64 \<Rightarrow> errcode + ba_bmap" where
  "ba_alloc_private_data junk mal bitmap =
     (if \<not> mal 8 then Inl EXT2_ET_NO_MEMORY
      else let sz = ba_size (bm_start bitmap) (bm_real_end bitmap) in
           if \<not> mal sz then Inl EXT2_ET_NO_MEMORY
           else Inr (with_private bitmap \<lparr>ba_array = replicate sz junk\<rparr>))"

definition ba_new_bmap :: "u8 \<Rightarrow> malloc \<Rightarrow> ba_private option bmap64 \<Rightarrow> errcode + ba_bmap" where
  "ba_new_bmap junk mal bitmap =
     (case ba_alloc_private_data junk mal bitmap of
        Inl e \<Rightarrow> Inl e
      | Inr b \<Rightarrow> let sz = ba_size (bm_start b) (bm_real_end b)
                in Inr (b\<lparr>bm_private := \<lparr>ba_array = replicate sz 0 @ drop sz (ba_array (bm_private b))\<rparr>\<rparr>))"

definition ba_copy_bmap :: "u8 \<Rightarrow> malloc \<Rightarrow> ba_bmap \<Rightarrow> ba_private option bmap64 \<Rightarrow> errcode + ba_bmap \<times> ba_bmap" where
  "ba_copy_bmap junk mal src dest =
     (case ba_alloc_private_data junk mal dest of
        Inl e \<Rightarrow> Inl e
      | Inr d \<Rightarrow> let sz = ba_size (bm_start src) (bm_real_end src)
                in Inr (src, d\<lparr>bm_private := \<lparr>ba_array = take sz (ba_array (bm_private src))
                                                    @ drop sz (ba_array (bm_private d))\<rparr>\<rparr>))"

definition ba_resize_bmap :: "u8 \<Rightarrow> malloc \<Rightarrow> ba_bmap \<Rightarrow> u64 \<Rightarrow> u64 \<Rightarrow> errcode option \<times> ba_bmap" where
  "ba_resize_bmap junk mal bmap new_end new_real_end =
     (let arr = (if new_end > bm_end bmap
                 then clear_down ext2fs_clear_bit64 (bm_start bmap) (bm_end bmap)
                        (if bm_real_end bmap > new_end then new_end else bm_real_end bmap)
                        (ba_array (bm_private bmap))
                 else ba_array (bm_private bmap));
          bmap1 = bmap\<lparr>bm_private := \<lparr>ba_array = arr\<rparr>\<rparr>
      in if new_real_end = bm_real_end bmap then (None, bmap1\<lparr>bm_end := new_end\<rparr>)
         else let sz = ba_size (bm_start bmap) (bm_real_end bmap);
                  new_size = ba_size (bm_start bmap) new_real_end
              in if sz \<noteq> new_size \<and> \<not> mal new_size then (Some EXT2_ET_NO_MEMORY, bmap1)
                 else let arr1 = (if sz \<noteq> new_size then resize_arr junk new_size arr else arr);
                          arr2 = (if new_size > sz then take sz arr1 @ replicate (new_size - sz) 0 else arr1)
                      in (None, bmap1\<lparr>bm_private := \<lparr>ba_array = arr2\<rparr>, bm_end := new_end,
                                      bm_real_end := new_real_end\<rparr>))"

definition ba_mark_bmap :: "ba_bmap \<Rightarrow> u64 \<Rightarrow> u32 \<times> ba_bmap" where
  "ba_mark_bmap bitmap arg =
     (case ext2fs_set_bit64 (arg - bm_start bitmap) (ba_array (bm_private bitmap)) of
        (r, xs) \<Rightarrow> (r, bitmap\<lparr>bm_private := \<lparr>ba_array = xs\<rparr>\<rparr>))"

definition ba_unmark_bmap :: "ba_bmap \<Rightarrow> u64 \<Rightarrow> u32 \<times> ba_bmap" where
  "ba_unmark_bmap bitmap arg =
     (case ext2fs_clear_bit64 (arg - bm_start bitmap) (ba_array (bm_private bitmap)) of
        (r, xs) \<Rightarrow> (r, bitmap\<lparr>bm_private := \<lparr>ba_array = xs\<rparr>\<rparr>))"

definition ba_test_bmap :: "ba_bmap \<Rightarrow> u64 \<Rightarrow> u32 \<times> ba_bmap" where
  "ba_test_bmap bitmap arg =
     (ext2fs_test_bit64 (arg - bm_start bitmap) (ba_array (bm_private bitmap)), bitmap)"

definition ba_mark_bmap_extent :: "ba_bmap \<Rightarrow> u64 \<Rightarrow> u32 \<Rightarrow> ba_bmap" where
  "ba_mark_bmap_extent bitmap arg num =
     bitmap\<lparr>bm_private := \<lparr>ba_array = for_bits ext2fs_fast_set_bit64 (bm_start bitmap) arg 0 (unat num) (ba_array (bm_private bitmap))\<rparr>\<rparr>"

definition ba_unmark_bmap_extent :: "ba_bmap \<Rightarrow> u64 \<Rightarrow> u32 \<Rightarrow> ba_bmap" where
  "ba_unmark_bmap_extent bitmap arg num =
     bitmap\<lparr>bm_private := \<lparr>ba_array = for_bits ext2fs_fast_clear_bit64 (bm_start bitmap) arg 0 (unat num) (ba_array (bm_private bitmap))\<rparr>\<rparr>"

definition ba_test_clear_bmap_extent :: "ba_bmap \<Rightarrow> u64 \<Rightarrow> u32 \<Rightarrow> bool" where
  "ba_test_clear_bmap_extent bitmap start len =
     test_clear_range (ba_array (bm_private bitmap)) (unat (start - bm_start bitmap)) (unat len)"

text \<open>
  \<open>memcpy\<close> of whole bytes from and to the buffer; the start is not made relative to the start of the
  bitmap.
\<close>

definition ba_set_bmap_range :: "ba_bmap \<Rightarrow> u64 \<Rightarrow> nat \<Rightarrow> u8 list \<Rightarrow> ba_bmap" where
  "ba_set_bmap_range bitmap start num inp =
     (let xs = ba_array (bm_private bitmap); p = unat (drop_bit 3 start); n = (num + 7) div 8
      in bitmap\<lparr>bm_private := \<lparr>ba_array = take p xs @ take n inp @ drop (p + n) xs\<rparr>\<rparr>)"

definition ba_get_bmap_range :: "ba_bmap \<Rightarrow> u64 \<Rightarrow> nat \<Rightarrow> u8 list \<Rightarrow> u8 list" where
  "ba_get_bmap_range bitmap start num out =
     (let xs = ba_array (bm_private bitmap); p = unat (drop_bit 3 start); n = (num + 7) div 8
      in take n (drop p xs) @ drop n out)"

definition ba_clear_bmap :: "ba_bmap \<Rightarrow> ba_bmap" where
  "ba_clear_bmap bitmap =
     (let sz = ba_size (bm_start bitmap) (bm_real_end bitmap)
      in bitmap\<lparr>bm_private := \<lparr>ba_array = replicate sz 0 @ drop sz (ba_array (bm_private bitmap))\<rparr>\<rparr>)"

text \<open>
  The two search functions differ in the value \<open>v\<close> of the bit they look for and in the byte
  they may skip.  \<open>bitpos\<close> and \<open>count\<close> are \<open>unsigned long\<close>; both stay below \<open>2 ^ 64\<close>, so they are
  natural numbers here.  The pointer \<open>pos\<close> is the index of a byte.  The four loops in order: single
  bits up to a byte boundary, bytes up to an aligned address, words of eight bytes and then bytes, and
  the bits of what is left.
\<close>

definition skip_byte :: "bool \<Rightarrow> u8" where
  "skip_byte v = (if v then 0 else 0xff)"

function ba_scan_bits :: "bool \<Rightarrow> u8 list \<Rightarrow> nat \<Rightarrow> nat \<Rightarrow> nat + nat \<times> nat" where
  "ba_scan_bits v xs bitpos count =
     (if bitpos mod 8 \<noteq> 0 \<and> count > 0
      then if (ext2fs_test_bit64 (of_nat bitpos) xs \<noteq> 0) = v then Inl bitpos
           else ba_scan_bits v xs (bitpos + 1) (count - 1)
      else Inr (bitpos, count))"
  by pat_completeness auto
termination by (relation "measure (\<lambda>(v, xs, bitpos, count). count)") auto

function ba_scan_align :: "bool \<Rightarrow> nat \<Rightarrow> u8 list \<Rightarrow> nat \<Rightarrow> nat \<Rightarrow> bool \<times> nat \<times> nat" where
  "ba_scan_align v base xs bitpos count =
     (if count \<ge> 8 \<and> (base + bitpos div 8) mod 8 \<noteq> 0
      then if xs ! (bitpos div 8) \<noteq> skip_byte v then (True, bitpos, count)
           else ba_scan_align v base xs (bitpos + 8) (count - 8)
      else (False, bitpos, count))"
  by pat_completeness auto
termination by (relation "measure (\<lambda>(v, base, xs, bitpos, count). count)") auto

definition load64 :: "u8 list \<Rightarrow> nat \<Rightarrow> u64" where
  "load64 xs pos = word_rcat (rev (take 8 (drop pos xs)))"

fun ba_scan_words :: "bool \<Rightarrow> u8 list \<Rightarrow> nat \<Rightarrow> nat \<Rightarrow> nat \<times> nat" where
  "ba_scan_words v xs pos 0 = (pos, 0)"
| "ba_scan_words v xs pos (Suc i) =
     (if load64 xs pos \<noteq> (if v then 0 else - 1) then (pos, Suc i) else ba_scan_words v xs (pos + 8) i)"

fun ba_scan_bytes :: "bool \<Rightarrow> u8 list \<Rightarrow> nat \<Rightarrow> nat \<Rightarrow> nat" where
  "ba_scan_bytes v xs pos 0 = 0"
| "ba_scan_bytes v xs pos (Suc i) =
     (if xs ! pos \<noteq> skip_byte v then Suc i else ba_scan_bytes v xs (pos + 1) i)"

fun ba_scan_tail :: "bool \<Rightarrow> u8 list \<Rightarrow> nat \<Rightarrow> nat \<Rightarrow> nat option" where
  "ba_scan_tail v xs bitpos 0 = None"
| "ba_scan_tail v xs bitpos (Suc c) =
     (if (ext2fs_test_bit64 (of_nat bitpos) xs \<noteq> 0) = v then Some bitpos
      else ba_scan_tail v xs (bitpos + 1) c)"

definition ba_scan_blocks :: "bool \<Rightarrow> u8 list \<Rightarrow> nat \<Rightarrow> nat \<Rightarrow> nat \<times> nat" where
  "ba_scan_blocks v xs bitpos count =
     (let max_loop_count = count div 64;
          (pos, i) = ba_scan_words v xs (bitpos div 8) max_loop_count;
          count1 = count - 64 * (max_loop_count - i);
          bitpos1 = bitpos + 64 * (max_loop_count - i);
          max_loop_count1 = count1 div 8;
          j = ba_scan_bytes v xs pos max_loop_count1
      in (bitpos1 + 8 * (max_loop_count1 - j), count1 - 8 * (max_loop_count1 - j)))"

definition ba_find_first :: "bool \<Rightarrow> nat \<Rightarrow> ba_bmap \<Rightarrow> u64 \<Rightarrow> u64 \<Rightarrow> errcode + u64" where
  "ba_find_first v base bitmap start en =
     (let xs = ba_array (bm_private bitmap) in
      case ba_scan_bits v xs (unat (start - bm_start bitmap)) (unat (en - start + 1)) of
        Inl b \<Rightarrow> Inr (of_nat b + bm_start bitmap)
      | Inr (bitpos, count) \<Rightarrow>
          if count = 0 then Inl ENOENT
          else case ba_scan_align v base xs bitpos count of
            (byte_found, bitpos1, count1) \<Rightarrow>
              (case (if \<not> byte_found then ba_scan_blocks v xs bitpos1 count1 else (bitpos1, count1)) of
                (bitpos2, count2) \<Rightarrow>
                  (case ba_scan_tail v xs bitpos2 count2 of
                     Some b \<Rightarrow> Inr (of_nat b + bm_start bitmap)
                   | None \<Rightarrow> Inl ENOENT)))"

definition ba_find_first_zero :: "nat \<Rightarrow> ba_bmap \<Rightarrow> u64 \<Rightarrow> u64 \<Rightarrow> errcode + u64" where
  "ba_find_first_zero = ba_find_first False"

definition ba_find_first_set :: "nat \<Rightarrow> ba_bmap \<Rightarrow> u64 \<Rightarrow> u64 \<Rightarrow> errcode + u64" where
  "ba_find_first_set = ba_find_first True"

text \<open>\<open>struct ext2_bitmap_ops ext2fs_blkmap64_bitarray\<close>.\<close>

definition ext2fs_blkmap64_bitarray :: "u8 \<Rightarrow> nat \<Rightarrow> ba_private bitmap_ops" where
  "ext2fs_blkmap64_bitarray junk base =
     \<lparr>op_new_bmap = ba_new_bmap junk, op_copy_bmap = ba_copy_bmap junk, op_resize_bmap = ba_resize_bmap junk,
      op_mark_bmap = ba_mark_bmap, op_unmark_bmap = ba_unmark_bmap, op_test_bmap = ba_test_bmap,
      op_mark_bmap_extent = ba_mark_bmap_extent, op_unmark_bmap_extent = ba_unmark_bmap_extent,
      op_test_clear_bmap_extent = ba_test_clear_bmap_extent,
      op_set_bmap_range = ba_set_bmap_range, op_get_bmap_range = ba_get_bmap_range,
      op_clear_bmap = ba_clear_bmap,
      op_find_first_zero = Some (ba_find_first_zero base), op_find_first_set = Some (ba_find_first_set base)\<rparr>"

declare ba_scan_bits.simps [simp del] ba_scan_align.simps [simp del]

section \<open>Invariant and abstraction\<close>

definition wf_ba :: "ba_bmap \<Rightarrow> bool" where
  "wf_ba b \<longleftrightarrow> bm_start b \<le> bm_real_end b \<and> bm_end b \<le> bm_real_end b
     \<and> unat (bm_real_end b) < unat (bm_start b) + 2 ^ 63
     \<and> length (ba_array (bm_private b)) = ba_size (bm_start b) (bm_real_end b)
     \<and> (\<forall>i. unat (bm_real_end b - bm_start b) < i \<longrightarrow> \<not> byte_bit (ba_array (bm_private b)) i)"

definition ba_bits :: "ba_bmap \<Rightarrow> u64 set" where
  "ba_bits b = {x. bm_start b \<le> x \<and> x \<le> bm_real_end b \<and> byte_bit (ba_array (bm_private b)) (unat (x - bm_start b))}"

lemma ba_size_eq: "ba_size s e = unat (e - s) div 8 + 1"
proof -
  have "unat (e - s) div 8 + 1 < 2 ^ 64" using unsigned_less [of "e - s", where ?'a = nat] by simp
  moreover have "unat ((e - s) div 8) = unat (e - s) div 8" by (simp add: unat_div)
  ultimately show ?thesis by (simp add: ba_size_def unat_word_ariths)
qed

section \<open>The search\<close>

definition none_in :: "bool \<Rightarrow> u8 list \<Rightarrow> nat \<Rightarrow> nat \<Rightarrow> bool" where
  "none_in v xs a b \<longleftrightarrow> (\<forall>j. a \<le> j \<and> j < b \<longrightarrow> byte_bit xs j \<noteq> v)"

lemma none_in_join: "none_in v xs a b \<Longrightarrow> none_in v xs b c \<Longrightarrow> none_in v xs a c"
  unfolding none_in_def using not_le by blast

lemma none_in_empty [simp]: "none_in v xs a a"
  unfolding none_in_def using not_le by blast

lemma test_bit64_nat:
  "p < 8 * length xs \<Longrightarrow> 8 * length xs < 2 ^ 64 \<Longrightarrow> ext2fs_test_bit64 (of_nat p) xs \<noteq> 0 \<longleftrightarrow> byte_bit xs p"
  by (simp add: bitop_defs test_bit_at_bits unat_of_nat less_mult_imp_div_less mult.commute)

lemma skip_byte_none: "p < length xs \<Longrightarrow> xs ! p = skip_byte v \<longleftrightarrow> none_in v xs (8 * p) (8 * p + 8)"
proof -
  assume p: "p < length xs"
  have "xs ! p = skip_byte v \<longleftrightarrow> (\<forall>k < 8. bit (xs ! p) k = bit (skip_byte v) k)"
    by (auto simp: bit_eq_iff)
  also have "\<dots> \<longleftrightarrow> (\<forall>k < 8. bit (xs ! p) k \<noteq> v)"
  proof -
    have "bit (skip_byte v) k \<longleftrightarrow> \<not> v" if "k < 8" for k
      using that by (cases v) (simp_all add: skip_byte_def less_Suc_eq numeral_eq_Suc, auto)
    then show ?thesis by auto
  qed
  also have "\<dots> \<longleftrightarrow> (\<forall>k < 8. byte_bit xs (8 * p + k) \<noteq> v)" using p by (auto simp: byte_bit_at)
  also have "\<dots> \<longleftrightarrow> none_in v xs (8 * p) (8 * p + 8)" unfolding none_in_def all_shift ..
  finally show ?thesis .
qed

lemma bit_load64: "pos + 8 \<le> length xs \<Longrightarrow> n < 64 \<Longrightarrow> bit (load64 xs pos) n \<longleftrightarrow> byte_bit xs (8 * pos + n)"
proof -
  assume l: "pos + 8 \<le> length xs" "n < 64"
  then have "n div 8 < 8" by simp
  then show ?thesis using l
    by (simp add: load64_def word_rcat_def bit_word_of_int_iff byte_bit_def
        bit_horner_sum_uint_exp_iff [where 'a = 8, simplified])
qed

lemma load64_none:
  assumes "pos + 8 \<le> length xs"
  shows "load64 xs pos = (if v then 0 else - 1) \<longleftrightarrow> none_in v xs (8 * pos) (8 * pos + 64)"
proof -
  have "load64 xs pos = (if v then 0 else - 1) \<longleftrightarrow> (\<forall>n < 64. bit (load64 xs pos) n \<noteq> v)"
    by (auto simp: bit_eq_iff)
  also have "\<dots> \<longleftrightarrow> none_in v xs (8 * pos) (8 * pos + 64)"
    unfolding none_in_def all_shift using bit_load64 [OF assms] by auto
  finally show ?thesis .
qed

definition first_at :: "bool \<Rightarrow> u8 list \<Rightarrow> nat \<Rightarrow> nat \<Rightarrow> nat \<Rightarrow> bool" where
  "first_at v xs a e b \<longleftrightarrow> a \<le> b \<and> b < e \<and> byte_bit xs b = v \<and> none_in v xs a b"

lemma none_in_step: "byte_bit xs a \<noteq> v \<Longrightarrow> none_in v xs (Suc a) b \<Longrightarrow> none_in v xs a b"
  unfolding none_in_def by (metis Suc_leI le_neq_implies_less)

lemma first_at_step: "none_in v xs a a' \<Longrightarrow> a \<le> a' \<Longrightarrow> first_at v xs a' e b \<Longrightarrow> first_at v xs a e b"
  by (auto simp: first_at_def dest: none_in_join)

lemma scan_bits_correct:
  assumes "8 * length xs < 2 ^ 64" "bitpos + count \<le> 8 * length xs"
  shows "case ba_scan_bits v xs bitpos count of
      Inl b \<Rightarrow> first_at v xs bitpos (bitpos + count) b
    | Inr (p, c) \<Rightarrow> p + c = bitpos + count \<and> bitpos \<le> p \<and> none_in v xs bitpos p \<and> (c > 0 \<longrightarrow> p mod 8 = 0)"
  using assms
proof (induction v xs bitpos count rule: ba_scan_bits.induct)
  case (1 v xs bitpos count)
  note st = ba_scan_bits.simps [of v xs bitpos count]
  show ?case
  proof (cases "bitpos mod 8 \<noteq> 0 \<and> count > 0")
    case True
    have t: "ext2fs_test_bit64 (of_nat bitpos) xs \<noteq> 0 \<longleftrightarrow> byte_bit xs bitpos"
      using 1(2,3) True by (intro test_bit64_nat) auto
    show ?thesis
    proof (cases "byte_bit xs bitpos = v")
      case eq: True
      then show ?thesis unfolding st using True t by (simp add: first_at_def)
    next
      case False
      have e: "ba_scan_bits v xs bitpos count = ba_scan_bits v xs (bitpos + 1) (count - 1)"
        unfolding st using True t False by auto
      have sum: "bitpos + 1 + (count - 1) = bitpos + count" using True by simp
      have IH: "case ba_scan_bits v xs (bitpos + 1) (count - 1) of
          Inl b \<Rightarrow> first_at v xs (bitpos + 1) (bitpos + 1 + (count - 1)) b
        | Inr (p, c) \<Rightarrow> p + c = bitpos + 1 + (count - 1) \<and> bitpos + 1 \<le> p
            \<and> none_in v xs (bitpos + 1) p \<and> (c > 0 \<longrightarrow> p mod 8 = 0)"
        using True t False 1(2,3) sum by (intro 1(1)) auto
      have n1: "none_in v xs bitpos (bitpos + 1)" using False by (auto simp: none_in_def less_Suc_eq_le)
      show ?thesis using IH n1 unfolding e sum
        by (auto split: sum.splits intro: first_at_step none_in_join)
    qed
  next
    case False
    then show ?thesis unfolding st by auto
  qed
qed

lemma scan_align_correct:
  assumes "bitpos + count \<le> 8 * length xs" "bitpos mod 8 = 0" "ba_scan_align v base xs bitpos count = (f, p, c)"
  shows "p + c = bitpos + count \<and> bitpos \<le> p \<and> none_in v xs bitpos p \<and> p mod 8 = 0"
  using assms
proof (induction v base xs bitpos count rule: ba_scan_align.induct)
  case (1 v base xs bitpos count)
  note st = ba_scan_align.simps [of v base xs bitpos count]
  show ?case
  proof (cases "count \<ge> 8 \<and> (base + bitpos div 8) mod 8 \<noteq> 0 \<and> xs ! (bitpos div 8) = skip_byte v")
    case True
    then have e: "ba_scan_align v base xs (bitpos + 8) (count - 8) = (f, p, c)" using 1(4) unfolding st by auto
    have "bitpos div 8 < length xs" using True 1(2) by auto
    then have n: "none_in v xs bitpos (bitpos + 8)" using skip_byte_none [of "bitpos div 8" xs v] True 1(3) by auto
    have "p + c = bitpos + 8 + (count - 8) \<and> bitpos + 8 \<le> p \<and> none_in v xs (bitpos + 8) p \<and> p mod 8 = 0"
      using True 1(2,3) e by (intro 1(1)) auto
    then show ?thesis using n True by (auto intro: none_in_join)
  next
    case False
    then have "p = bitpos \<and> c = count" using 1(4) unfolding st by (auto split: if_splits)
    then show ?thesis using 1(3) by simp
  qed
qed

lemma scan_words_correct:
  "pos + 8 * n \<le> length xs \<Longrightarrow> ba_scan_words v xs pos n = (p, i) \<Longrightarrow>
    i \<le> n \<and> p = pos + 8 * (n - i) \<and> none_in v xs (8 * pos) (8 * p)"
proof (induction v xs pos n rule: ba_scan_words.induct)
  case (2 v xs pos n)
  show ?case
  proof (cases "load64 xs pos = (if v then 0 else - 1)")
    case True
    then have e: "ba_scan_words v xs (pos + 8) n = (p, i)" using 2(3) by simp
    have "none_in v xs (8 * pos) (8 * pos + 64)" using load64_none [of pos xs v] True 2(2) by simp
    moreover have "i \<le> n \<and> p = pos + 8 + 8 * (n - i) \<and> none_in v xs (8 * (pos + 8)) (8 * p)"
      using True 2(2) e by (intro 2(1)) auto
    ultimately show ?thesis using none_in_join [of v xs "8 * pos" "8 * pos + 64"] by (auto simp: Suc_diff_le)
  next
    case False
    then show ?thesis using 2(3) by auto
  qed
qed auto

lemma scan_bytes_correct:
  "pos + n \<le> length xs \<Longrightarrow> ba_scan_bytes v xs pos n \<le> n
    \<and> none_in v xs (8 * pos) (8 * (pos + (n - ba_scan_bytes v xs pos n)))"
proof (induction v xs pos n rule: ba_scan_bytes.induct)
  case (2 v xs pos n)
  show ?case
  proof (cases "xs ! pos = skip_byte v")
    case True
    have a: "none_in v xs (8 * pos) (8 * (pos + 1))" using skip_byte_none [of pos xs v] True 2(2) by (simp add: add.commute)
    have "ba_scan_bytes v xs (pos + 1) n \<le> n
      \<and> none_in v xs (8 * (pos + 1)) (8 * (pos + 1 + (n - ba_scan_bytes v xs (pos + 1) n)))"
      using True 2(2) by (intro 2(1)) auto
    then have IH: "ba_scan_bytes v xs (pos + 1) n \<le> n"
      "none_in v xs (8 * (pos + 1)) (8 * (pos + 1 + (n - ba_scan_bytes v xs (pos + 1) n)))" by blast+
    have "pos + (Suc n - ba_scan_bytes v xs (pos + 1) n) = pos + 1 + (n - ba_scan_bytes v xs (pos + 1) n)"
      using IH(1) by simp
    moreover have "ba_scan_bytes v xs pos (Suc n) = ba_scan_bytes v xs (pos + 1) n" using True by simp
    ultimately show ?thesis using none_in_join [OF a IH(2)] IH(1) by (simp only: le_SucI)
  next
    case False
    then show ?thesis by simp
  qed
qed simp

lemma scan_blocks_correct:
  assumes "bitpos + count \<le> 8 * length xs" "bitpos mod 8 = 0" "ba_scan_blocks v xs bitpos count = (p, c)"
  shows "p + c = bitpos + count \<and> bitpos \<le> p \<and> none_in v xs bitpos p"
proof -
  obtain q i where w: "ba_scan_words v xs (bitpos div 8) (count div 64) = (q, i)" by fastforce
  have b8: "8 * (bitpos div 8) = bitpos" using assms(2) by auto
  have "bitpos div 8 + 8 * (count div 64) \<le> length xs" using assms(1) b8 by linarith
  note ws = scan_words_correct [OF this w, unfolded b8]
  have wq: "i \<le> count div 64" "q = bitpos div 8 + 8 * (count div 64 - i)" "none_in v xs bitpos (8 * q)"
    using ws by blast+
  let ?c1 = "count - 64 * (count div 64 - i)"
  let ?p1 = "bitpos + 64 * (count div 64 - i)"
  let ?j = "ba_scan_bytes v xs q (?c1 div 8)"
  have sum1: "?p1 + ?c1 = bitpos + count" using wq(1) by (simp add: algebra_simps)
  have q1: "8 * q = ?p1" using wq(2) b8 by simp
  have "q + ?c1 div 8 \<le> length xs" using assms(1) sum1 q1 by linarith
  note sb = scan_bytes_correct [OF this, of v]
  have j: "?j \<le> ?c1 div 8" "none_in v xs (8 * q) (8 * (q + (?c1 div 8 - ?j)))"
    using sb by blast+
  have pc: "p = ?p1 + 8 * (?c1 div 8 - ?j)" "c = ?c1 - 8 * (?c1 div 8 - ?j)"
    using assms(3) w by (simp_all add: ba_scan_blocks_def Let_def)
  have "8 * (?c1 div 8 - ?j) \<le> ?c1" by linarith
  then have "p + c = bitpos + count" using sum1 pc by linarith
  moreover have "none_in v xs bitpos p" using none_in_join [OF wq(3) j(2)] pc(1) q1 by (simp add: distrib_left)
  ultimately show ?thesis using pc(1) by simp
qed

lemma scan_tail_correct:
  "8 * length xs < 2 ^ 64 \<Longrightarrow> bitpos + c \<le> 8 * length xs \<Longrightarrow> case ba_scan_tail v xs bitpos c of
      Some b \<Rightarrow> first_at v xs bitpos (bitpos + c) b
    | None \<Rightarrow> none_in v xs bitpos (bitpos + c)"
proof (induction v xs bitpos c rule: ba_scan_tail.induct)
  case (2 v xs bitpos c)
  have t: "ext2fs_test_bit64 (of_nat bitpos) xs \<noteq> 0 \<longleftrightarrow> byte_bit xs bitpos"
    using 2 by (intro test_bit64_nat) auto
  show ?case
  proof (cases "byte_bit xs bitpos = v")
    case True
    then show ?thesis using t by (simp add: first_at_def)
  next
    case False
    have "none_in v xs bitpos (Suc bitpos)" using False by (auto simp: none_in_def less_Suc_eq_le)
    moreover have "case ba_scan_tail v xs (bitpos + 1) c of
      Some b \<Rightarrow> first_at v xs (bitpos + 1) (bitpos + 1 + c) b
    | None \<Rightarrow> none_in v xs (bitpos + 1) (bitpos + 1 + c)"
      using 2 False t by (intro 2(1)) auto
    ultimately show ?thesis using False t
      by (auto split: option.splits intro: first_at_step none_in_join)
  qed
qed simp

lemma find_first_nat:
  assumes "8 * length xs < 2 ^ 64" "a + n \<le> 8 * length xs"
    and xs: "xs = ba_array (bm_private b)" and an: "unat (s - bm_start b) = a" "unat (e - s + 1) = n"
  shows "(\<exists>j. ba_find_first v base b s e = Inr (of_nat j + bm_start b) \<and> first_at v xs a (a + n) j)
    \<or> ba_find_first v base b s e = Inl ENOENT \<and> none_in v xs a (a + n)"
proof -
  note def = ba_find_first_def [of v base b s e, folded xs, unfolded an Let_def]
  note sb = scan_bits_correct [OF assms(1,2), of v]
  show ?thesis
  proof (cases "ba_scan_bits v xs a n")
    case (Inl j)
    then show ?thesis using sb by (auto simp: def)
  next
    case (Inr pc)
    obtain p c where pc: "pc = (p, c)" by fastforce
    have s1: "p + c = a + n" "a \<le> p" "none_in v xs a p" "c > 0 \<longrightarrow> p mod 8 = 0"
      using sb Inr pc by auto
    show ?thesis
    proof (cases "c = 0")
      case True
      then show ?thesis using s1 Inr pc by (simp add: def)
    next
      case False
      obtain f p1 c1 where al: "ba_scan_align v base xs p c = (f, p1, c1)" by (metis prod_cases3)
      have s2: "p1 + c1 = a + n" "p \<le> p1" "none_in v xs p p1" "p1 mod 8 = 0"
        using scan_align_correct [OF _ _ al] s1 False assms(2) by auto
      obtain p2 c2 where bl: "(if \<not> f then ba_scan_blocks v xs p1 c1 else (p1, c1)) = (p2, c2)" by fastforce
      have s3: "p2 + c2 = a + n \<and> p1 \<le> p2 \<and> none_in v xs p1 p2"
      proof (cases f)
        case True
        then show ?thesis using bl s2 by simp
      next
        case nf: False
        then show ?thesis using scan_blocks_correct [of p1 c1 xs v p2 c2] bl s2 assms(2) by auto
      qed
      have none: "none_in v xs a p2" using s1(3) s2(3) s3 none_in_join by blast
      have tl: "case ba_scan_tail v xs p2 c2 of Some j \<Rightarrow> first_at v xs p2 (a + n) j | None \<Rightarrow> none_in v xs p2 (a + n)"
        using scan_tail_correct [OF assms(1), of p2 c2 v] s3 assms(2) by (metis (no_types))
      have r: "ba_find_first v base b s e = (case ba_scan_tail v xs p2 c2 of
          Some j \<Rightarrow> Inr (of_nat j + bm_start b) | None \<Rightarrow> Inl ENOENT)"
        using Inr pc False al bl by (simp add: def)
      have "a \<le> p2" using s1 s2 s3 by simp
      then show ?thesis using tl none unfolding r
        by (auto split: option.splits intro: first_at_step none_in_join)
    qed
  qed
qed

lemma wf_ba_len:
  assumes "wf_ba b"
  shows "8 * length (ba_array (bm_private b)) < 2 ^ 64" "unat (bm_real_end b - bm_start b) < 8 * length (ba_array (bm_private b))"
  using assms unat_sub [of "bm_start b" "bm_real_end b"] by (auto simp: wf_ba_def ba_size_eq)

lemma find_first_correct:
  assumes "wf_ba b" "bm_start b \<le> s" "s \<le> e" "e \<le> bm_real_end b"
  shows "case ba_find_first v base b s e of
      Inr r \<Rightarrow> first_in (\<lambda>x. (x \<in> ba_bits b) = v) s e r
    | Inl err \<Rightarrow> err = ENOENT \<and> (\<forall>x. s \<le> x \<and> x \<le> e \<longrightarrow> (x \<in> ba_bits b) \<noteq> v)"
proof -
  let ?st = "bm_start b"
  let ?xs = "ba_array (bm_private b)"
  let ?a = "unat (s - ?st)" and ?n = "unat (e - s + 1)"
  have le: "unat ?st \<le> unat s" "unat s \<le> unat e" "unat e \<le> unat (bm_real_end b)"
    "unat (bm_real_end b) < unat ?st + 2 ^ 63" using assms by (simp_all add: wf_ba_def word_le_nat_alt)
  have a: "?a = unat s - unat ?st" by (rule unat_sub [OF assms(2)])
  have es: "unat (e - s) = unat e - unat s" by (rule unat_sub [OF assms(3)])
  have n: "?n = unat e - unat s + 1" using es le by (simp add: unat_word_ariths)
  have in_r: "x \<in> ba_bits b \<longleftrightarrow> byte_bit ?xs (unat x - unat ?st)" if "s \<le> x" "x \<le> e" for x
    using that assms unat_sub [of ?st x] order_trans [of ?st s x] order_trans [of x e] by (auto simp: ba_bits_def)
  have bound: "?a + ?n \<le> 8 * length ?xs"
    using wf_ba_len(2) [OF assms(1)] le unat_sub [of ?st "bm_real_end b"] assms(1) unfolding a n
    by (simp add: wf_ba_def)
  from find_first_nat [OF wf_ba_len(1) [OF assms(1)] bound refl refl refl, of v base]
  consider j where "ba_find_first v base b s e = Inr (of_nat j + ?st)" "first_at v ?xs ?a (?a + ?n) j"
    | "ba_find_first v base b s e = Inl ENOENT" "none_in v ?xs ?a (?a + ?n)" by blast
  then show ?thesis
  proof cases
    case 1
    have j: "?a \<le> j" "j < ?a + ?n" "byte_bit ?xs j = v" "none_in v ?xs ?a j" using 1(2) by (auto simp: first_at_def)
    let ?r = "of_nat j + ?st"
    have "j + unat ?st \<le> unat e" using j(2) le unfolding a n by linarith
    moreover from this have "j + unat ?st < 2 ^ 64" using unsigned_less [of e, where ?'a = nat] by simp
    ultimately have r: "unat ?r = j + unat ?st" by (simp add: unat_word_ariths unat_of_nat)
    have "s \<le> ?r" "?r \<le> e" using j le \<open>j + unat ?st \<le> unat e\<close> unfolding word_le_nat_alt r a by linarith+
    moreover have "(?r \<in> ba_bits b) = v" using in_r [OF calculation] r j(3) by simp
    moreover have "(y \<in> ba_bits b) \<noteq> v" if y: "s \<le> y" "y < ?r" for y
    proof -
      have yn: "unat s \<le> unat y" "unat y < j + unat ?st" using y r by (simp_all add: word_le_nat_alt word_less_nat_alt)
      then have "?a \<le> unat y - unat ?st" "unat y - unat ?st < j" using le unfolding a by linarith+
      then have "byte_bit ?xs (unat y - unat ?st) \<noteq> v" using j(4) unfolding none_in_def by blast
      moreover have "y \<le> e" using yn \<open>j + unat ?st \<le> unat e\<close> by (simp add: word_le_nat_alt)
      ultimately show ?thesis using in_r [OF y(1)] by simp
    qed
    ultimately show ?thesis using 1(1) by (auto simp: first_in_def)
  next
    case 2
    have "(x \<in> ba_bits b) \<noteq> v" if x: "s \<le> x" "x \<le> e" for x
    proof -
      have "?a \<le> unat x - unat ?st" "unat x - unat ?st < ?a + ?n"
        using x le unfolding a n by (simp_all add: word_le_nat_alt)
      then show ?thesis using 2(2) in_r [OF x] unfolding none_in_def by blast
    qed
    then show ?thesis using 2(1) by simp
  qed
qed

section \<open>The operations meet the contract\<close>

abbreviation set_array :: "ba_bmap \<Rightarrow> u8 list \<Rightarrow> ba_bmap" where
  "set_array b xs \<equiv> b\<lparr>bm_private := \<lparr>ba_array = xs\<rparr>\<rparr>"

lemma wf_set_array:
  assumes "wf_ba b" "length xs = length (ba_array (bm_private b))"
    "\<And>i. byte_bit xs i \<Longrightarrow> i \<le> unat (bm_real_end b - bm_start b)"
  shows "wf_ba (set_array b xs)"
  using assms unfolding wf_ba_def by (force simp: not_le)

lemma ba_bits_set_array:
  "x \<in> ba_bits (set_array b xs) \<longleftrightarrow> bm_start b \<le> x \<and> x \<le> bm_real_end b \<and> byte_bit xs (unat (x - bm_start b))"
  by (simp add: ba_bits_def)

lemma byte_bit_bound: "wf_ba b \<Longrightarrow> byte_bit (ba_array (bm_private b)) i \<Longrightarrow> i \<le> unat (bm_real_end b - bm_start b)"
  unfolding wf_ba_def using not_le by blast

lemma bit_index_ok: "wf_ba b \<Longrightarrow> bm_start b \<le> x \<Longrightarrow> x \<le> bm_real_end b \<Longrightarrow> unat (x - bm_start b) div 8 < length (ba_array (bm_private b))"
  using wf_ba_len(2) [of b] sub_le_sub [of "bm_start b" x "bm_real_end b"] by linarith

lemma ba_mark_correct:
  assumes "wf_ba b" "in_bmap b x 1" "ba_mark_bmap b x = (r, b')"
  shows "wf_ba b' \<and> ba_bits b' = insert x (ba_bits b) \<and> (r \<noteq> 0 \<longleftrightarrow> x \<in> ba_bits b) \<and> same_header b' b"
proof -
  let ?xs = "ba_array (bm_private b)"
  let ?r = "set_bit_at (x - bm_start b) ?xs"
  have x: "bm_start b \<le> x" "x \<le> bm_real_end b" using assms(2) [unfolded in_bmap_1] by blast+
  note sb = set_bit_at_bits [OF bit_index_ok [OF assms(1) x]]
  have b': "b' = set_array b (snd ?r)" "r = fst ?r"
    using assms(3) by (auto simp: ba_mark_bmap_def bitop_defs split: prod.splits)
  have "wf_ba b'" unfolding b' using assms(1) sb byte_bit_bound sub_le_sub [OF x]
    by (intro wf_set_array) auto
  moreover have "ba_bits b' = insert x (ba_bits b)"
    unfolding b' set_eq_iff ba_bits_set_array sb(2) sub_eq_sub using x by (auto simp: ba_bits_def)
  ultimately show ?thesis using sb(1) x by (auto simp: b' ba_bits_def)
qed

lemma ba_unmark_correct:
  assumes "wf_ba b" "in_bmap b x 1" "ba_unmark_bmap b x = (r, b')"
  shows "wf_ba b' \<and> ba_bits b' = ba_bits b - {x} \<and> (r \<noteq> 0 \<longleftrightarrow> x \<in> ba_bits b) \<and> same_header b' b"
proof -
  let ?xs = "ba_array (bm_private b)"
  let ?r = "clear_bit_at (x - bm_start b) ?xs"
  have x: "bm_start b \<le> x" "x \<le> bm_real_end b" using assms(2) [unfolded in_bmap_1] by blast+
  note sb = clear_bit_at_bits [OF bit_index_ok [OF assms(1) x]]
  have b': "b' = set_array b (snd ?r)" "r = fst ?r"
    using assms(3) by (auto simp: ba_unmark_bmap_def bitop_defs split: prod.splits)
  have "wf_ba b'" unfolding b' using assms(1) sb byte_bit_bound by (intro wf_set_array) auto
  moreover have "ba_bits b' = ba_bits b - {x}"
    unfolding b' set_eq_iff ba_bits_set_array sb(2) sub_eq_sub using x by (auto simp: ba_bits_def)
  ultimately show ?thesis using sb(1) x by (auto simp: b' ba_bits_def)
qed

lemma ba_test_correct:
  assumes "wf_ba b" "in_bmap b x 1"
  shows "fst (ba_test_bmap b x) \<noteq> 0 \<longleftrightarrow> x \<in> ba_bits b"
proof -
  have x: "bm_start b \<le> x" "x \<le> bm_real_end b" using assms(2) [unfolded in_bmap_1] by blast+
  show ?thesis using test_bit_at_bits [OF bit_index_ok [OF assms(1) x]] x
    by (simp add: ba_test_bmap_def bitop_defs ba_bits_def)
qed

lemma extent_index:
  assumes "wf_ba b" "in_bmap b x n"
  shows "bm_start b \<le> x" "unat (x - bm_start b) + n \<le> 2 ^ LENGTH(64)"
    "unat (x - bm_start b) + n \<le> 8 * length (ba_array (bm_private b))"
    "unat (x - bm_start b) + n \<le> unat (bm_real_end b - bm_start b) + 1"
    "y \<in> run x n \<Longrightarrow> bm_start b \<le> y \<and> y \<le> bm_real_end b"
proof -
  show x: "bm_start b \<le> x" using assms(2) by (simp add: in_bmap_def)
  have n: "unat x + n \<le> unat (bm_real_end b) + 1" and l: "unat (bm_real_end b) < unat (bm_start b) + 2 ^ 63"
    and se: "bm_start b \<le> bm_real_end b" using assms by (simp_all add: in_bmap_def wf_ba_def)
  show le: "unat (x - bm_start b) + n \<le> unat (bm_real_end b - bm_start b) + 1"
    using n x se unat_sub [OF x] unat_sub [OF se] by (simp add: word_le_nat_alt)
  then show "unat (x - bm_start b) + n \<le> 2 ^ LENGTH(64)"
    using unsigned_less [of "bm_real_end b - bm_start b", where ?'a = nat] by simp
  from le show "unat (x - bm_start b) + n \<le> 8 * length (ba_array (bm_private b))"
    using wf_ba_len(2) [OF assms(1)] by linarith
  show "bm_start b \<le> y \<and> y \<le> bm_real_end b" if "y \<in> run x n"
    using that x n by (auto simp: run_def word_le_nat_alt)
qed

lemma ba_mark_extent_correct:
  assumes "wf_ba b" "in_bmap b x (unat n)"
  shows "wf_ba (ba_mark_bmap_extent b x n) \<and> ba_bits (ba_mark_bmap_extent b x n) = ba_bits b \<union> run x (unat n)"
proof -
  note ix = extent_index [OF assms]
  note lp = for_set_bits [OF fast_set_64 ix(2,3), of 0]
  let ?xs = "for_bits ext2fs_fast_set_bit64 (bm_start b) x 0 (unat n) (ba_array (bm_private b))"
  have "wf_ba (set_array b ?xs)"
    using lp ix(4) byte_bit_bound [OF assms(1)] by (intro wf_set_array assms(1)) auto
  moreover have "ba_bits (set_array b ?xs) = ba_bits b \<union> run x (unat n)"
    unfolding set_eq_iff ba_bits_set_array using lp in_run_sub [OF ix(1)] ix(5) by (auto simp: ba_bits_def)
  ultimately show ?thesis by (simp add: ba_mark_bmap_extent_def)
qed

lemma ba_unmark_extent_correct:
  assumes "wf_ba b" "in_bmap b x (unat n)"
  shows "wf_ba (ba_unmark_bmap_extent b x n) \<and> ba_bits (ba_unmark_bmap_extent b x n) = ba_bits b - run x (unat n)"
proof -
  note ix = extent_index [OF assms]
  note lp = for_clear_bits [OF fast_clear_64 ix(2,3), of 0]
  let ?xs = "for_bits ext2fs_fast_clear_bit64 (bm_start b) x 0 (unat n) (ba_array (bm_private b))"
  have "wf_ba (set_array b ?xs)"
    using lp byte_bit_bound [OF assms(1)] by (intro wf_set_array assms(1)) auto
  moreover have "ba_bits (set_array b ?xs) = ba_bits b - run x (unat n)"
    unfolding set_eq_iff ba_bits_set_array using lp in_run_sub [OF ix(1)] by (auto simp: ba_bits_def)
  ultimately show ?thesis by (simp add: ba_unmark_bmap_extent_def)
qed

lemma ba_test_clear_correct:
  assumes "wf_ba b" "in_bmap b x (unat n)"
  shows "ba_test_clear_bmap_extent b x n \<longleftrightarrow> ba_bits b \<inter> run x (unat n) = {}"
proof -
  note ix = extent_index [OF assms]
  let ?xs = "ba_array (bm_private b)"
  let ?o = "unat (x - bm_start b)"
  have "(\<forall>j. ?o \<le> j \<and> j < ?o + unat n \<longrightarrow> \<not> byte_bit ?xs j) \<longleftrightarrow> (\<forall>y. y \<in> run x (unat n) \<longrightarrow> y \<notin> ba_bits b)"
  proof (intro iffI allI impI)
    fix y assume *: "\<forall>j. ?o \<le> j \<and> j < ?o + unat n \<longrightarrow> \<not> byte_bit ?xs j" "y \<in> run x (unat n)"
    then show "y \<notin> ba_bits b" using in_run_sub [OF ix(1), of y "unat n"] ix(5) [of y] by (auto simp: ba_bits_def)
  next
    fix j assume *: "\<forall>y. y \<in> run x (unat n) \<longrightarrow> y \<notin> ba_bits b" "?o \<le> j \<and> j < ?o + unat n"
    let ?y = "of_nat j + bm_start b"
    have j: "j < 2 ^ 64" using * ix(4) unsigned_less [of "bm_real_end b - bm_start b", where ?'a = nat] by simp
    then have yj: "unat (?y - bm_start b) = j" by (simp add: unat_of_nat)
    have "j + unat (bm_start b) \<le> unat (bm_real_end b)"
    proof -
      have se: "bm_start b \<le> bm_real_end b" using assms(1) by (simp add: wf_ba_def)
      then show ?thesis using * ix(4) unat_sub [OF se] se [unfolded word_le_nat_alt] by linarith
    qed
    then have "unat ?y = j + unat (bm_start b)"
      using unsigned_less [of "bm_real_end b", where ?'a = nat] j by (simp add: unat_word_ariths unat_of_nat)
    then have le: "bm_start b \<le> ?y" by (simp add: word_le_nat_alt)
    then have "?y \<in> run x (unat n)" using in_run_sub [OF ix(1), of ?y "unat n"] * yj by simp
    then show "\<not> byte_bit ?xs j" using * ix(5) [of ?y] yj by (auto simp: ba_bits_def)
  qed
  then show ?thesis using test_clear_range_correct [OF ix(3)]
    by (auto simp: ba_test_clear_bmap_extent_def)
qed

lemma with_private_simps [simp]:
  "bm_start (with_private b p) = bm_start b" "bm_end (with_private b p) = bm_end b"
  "bm_real_end (with_private b p) = bm_real_end b" "bm_private (with_private b p) = p"
  "same_header (with_private b p) b"
  by (simp_all add: with_private_def same_header_def)

lemma ba_new_correct:
  assumes "bm_start b0 \<le> bm_end b0" "bm_end b0 \<le> bm_real_end b0" "unat (bm_real_end b0) < unat (bm_start b0) + 2 ^ 63"
    and "ba_new_bmap junk mal b0 = Inr b"
  shows "wf_ba b \<and> ba_bits b = {} \<and> same_header b b0"
proof -
  let ?n = "ba_size (bm_start b0) (bm_real_end b0)"
  have b: "b = set_array (with_private b0 \<lparr>ba_array = replicate ?n junk\<rparr>) (replicate ?n 0)"
    using assms(4) by (auto simp: ba_new_bmap_def ba_alloc_private_data_def Let_def split: if_splits)
  have "bm_start b0 \<le> bm_real_end b0" using assms(1,2) by (rule order_trans)
  then show ?thesis using assms(1-3) unfolding b by (simp add: wf_ba_def ba_bits_def same_header_def with_private_def)
qed

lemma ba_copy_correct:
  assumes "wf_ba s" "same_header d0 s" "ba_copy_bmap junk mal s d0 = Inr (s', d)"
  shows "s' = s \<and> wf_ba d \<and> ba_bits d = ba_bits s \<and> same_header d s"
proof -
  let ?n = "ba_size (bm_start s) (bm_real_end s)"
  have h: "ba_size (bm_start d0) (bm_real_end d0) = ?n" using assms(2) by (simp add: same_header_def)
  have len: "length (ba_array (bm_private s)) = ?n" using assms(1) by (simp add: wf_ba_def)
  have d: "s' = s" "d = set_array (with_private d0 \<lparr>ba_array = replicate ?n junk\<rparr>) (ba_array (bm_private s))"
    using assms(3) len by (auto simp: ba_copy_bmap_def ba_alloc_private_data_def Let_def h split: if_splits)
  show ?thesis using assms(1,2) unfolding d
    by (simp add: wf_ba_def ba_bits_def same_header_def with_private_def)
qed

lemma ba_clear_correct: "wf_ba b \<Longrightarrow> wf_ba (ba_clear_bmap b) \<and> ba_bits (ba_clear_bmap b) = {}"
  by (simp add: wf_ba_def ba_bits_def ba_clear_bmap_def Let_def)

lemma ba_size_mono: "s \<le> e \<Longrightarrow> e \<le> e' \<Longrightarrow> ba_size s e \<le> ba_size s e'"
  using sub_le_sub [of s e e'] by (simp add: ba_size_eq div_le_mono)

lemma ba_resize_correct:
  assumes wf: "wf_ba b" and se: "bm_start b \<le> bm_end b" "bm_start b \<le> ne" "ne \<le> nre" "bm_real_end b \<le> nre"
    and big: "unat nre < unat (bm_start b) + 2 ^ 63" and r: "ba_resize_bmap junk mal b ne nre = (None, b')"
  shows "wf_ba b' \<and> ba_bits b' \<inter> {..ne} = ba_bits b \<inter> {..ne} \<inter> {..bm_end b}
    \<and> bm_start b' = bm_start b \<and> bm_end b' = ne \<and> bm_real_end b' = nre
    \<and> bm_magic b' = bm_magic b \<and> bm_cluster_bits b' = bm_cluster_bits b"
proof -
  let ?s = "bm_start b" and ?xs = "ba_array (bm_private b)"
  let ?top = "if bm_real_end b > ne then ne else bm_real_end b"
  let ?arr = "if ne > bm_end b then clear_down ext2fs_clear_bit64 ?s (bm_end b) ?top ?xs else ?xs"
  have sr: "?s \<le> bm_real_end b" "bm_end b \<le> bm_real_end b" using wf by (simp_all add: wf_ba_def)
  have top: "?s \<le> ?top" "?top \<le> bm_real_end b" using se sr by auto
  have arr: "length ?arr = length ?xs" "byte_bit ?arr j \<longleftrightarrow> byte_bit ?xs j
      \<and> (bm_end b < ne \<longrightarrow> \<not> (unat (bm_end b - ?s) < j \<and> j \<le> unat (?top - ?s)))" for j
    using clear_down_bits [OF clear_bit64 se(1) top(1), of ?xs] sub_le_sub [OF top] wf_ba_len(2) [OF wf] by auto
  have len: "length ?arr = ba_size ?s (bm_real_end b)" using arr(1) wf by (simp add: wf_ba_def)
  have mono: "ba_size ?s (bm_real_end b) \<le> ba_size ?s nre" by (rule ba_size_mono [OF sr(1) se(4)])
  define arr2 where "arr2 = ?arr @ replicate (ba_size ?s nre - ba_size ?s (bm_real_end b)) 0"
  have b': "b' = b\<lparr>bm_private := \<lparr>ba_array = arr2\<rparr>, bm_end := ne, bm_real_end := nre\<rparr>"
  proof (cases "nre = bm_real_end b")
    case True
    then show ?thesis using r by (intro bmap64.equality) (auto simp: ba_resize_bmap_def Let_def arr2_def)
  next
    case False
    then show ?thesis using r len mono
      by (auto simp: ba_resize_bmap_def Let_def arr2_def resize_arr_def split: if_splits)
  qed
  have bits2: "byte_bit arr2 j \<longleftrightarrow> byte_bit ?arr j" for j
    unfolding arr2_def byte_bit_append by (auto simp: byte_bit_def)
  have len2: "length arr2 = ba_size ?s nre" unfolding arr2_def using len mono by simp
  have tail: "\<not> byte_bit arr2 j" if "unat (nre - ?s) < j" for j
  proof
    assume "byte_bit arr2 j"
    then have "j \<le> unat (bm_real_end b - ?s)" using byte_bit_bound [OF wf, of j] by (simp add: bits2 arr(2))
    then show False using that sub_le_sub [OF sr(1) se(4)] by linarith
  qed
  have "wf_ba b'"
    unfolding wf_ba_def b' using se(3) big len2 tail order_trans [OF sr(1) se(4)] by simp
  moreover have "x \<in> ba_bits b' \<and> x \<le> ne \<longleftrightarrow> x \<in> ba_bits b \<and> x \<le> ne \<and> x \<le> bm_end b" for x
  proof (cases "?s \<le> x \<and> x \<le> ne")
    case True
    then have xs: "?s \<le> x" "x \<le> ne" by auto
    have lr: "byte_bit ?xs (unat (x - ?s)) \<Longrightarrow> x \<le> bm_real_end b"
      using byte_bit_bound [OF wf, of "unat (x - ?s)"] unat_sub [OF xs(1)] unat_sub [OF sr(1)] xs(1) sr(1)
      by (auto simp: word_le_nat_alt)
    have cut: "unat (bm_end b - ?s) < unat (x - ?s) \<longleftrightarrow> bm_end b < x" "unat (x - ?s) \<le> unat (?top - ?s) \<longleftrightarrow> x \<le> ?top"
      using unat_sub [OF xs(1)] unat_sub [OF se(1)] unat_sub [OF top(1)] xs(1) se(1) top(1)
      by (auto simp: word_le_nat_alt word_less_nat_alt)
    have "x \<in> ba_bits b' \<longleftrightarrow> byte_bit ?arr (unat (x - ?s))"
      using xs se(3) by (auto simp: b' ba_bits_def bits2)
    also have "\<dots> \<longleftrightarrow> byte_bit ?xs (unat (x - ?s)) \<and> (bm_end b < ne \<longrightarrow> \<not> (bm_end b < x \<and> x \<le> ?top))"
      unfolding arr(2) cut ..
    also have "\<dots> \<longleftrightarrow> x \<in> ba_bits b \<and> x \<le> bm_end b"
      using lr xs by (auto simp: ba_bits_def not_less not_le)
    finally show ?thesis using xs by auto
  next
    case False
    then show ?thesis by (auto simp: b' ba_bits_def)
  qed
  then have "ba_bits b' \<inter> {..ne} = ba_bits b \<inter> {..ne} \<inter> {..bm_end b}" by auto
  ultimately show ?thesis by (simp add: b')
qed

lemma bitarray_ops [simp]:
  fixes junk base
  defines "ops \<equiv> ext2fs_blkmap64_bitarray junk base"
  shows "op_new_bmap ops = ba_new_bmap junk" "op_copy_bmap ops = ba_copy_bmap junk" "op_resize_bmap ops = ba_resize_bmap junk"
    "op_mark_bmap ops = ba_mark_bmap" "op_unmark_bmap ops = ba_unmark_bmap" "op_test_bmap ops = ba_test_bmap"
    "op_mark_bmap_extent ops = ba_mark_bmap_extent" "op_unmark_bmap_extent ops = ba_unmark_bmap_extent"
    "op_test_clear_bmap_extent ops = ba_test_clear_bmap_extent" "op_set_bmap_range ops = ba_set_bmap_range"
    "op_get_bmap_range ops = ba_get_bmap_range" "op_clear_bmap ops = ba_clear_bmap"
    "op_find_first_zero ops = Some (ba_find_first_zero base)" "op_find_first_set ops = Some (ba_find_first_set base)"
  by (simp_all add: ops_def ext2fs_blkmap64_bitarray_def)

interpretation ba: bitmap_backend "ext2fs_blkmap64_bitarray junk base" wf_ba ba_bits
proof (unfold_locales, unfold bitarray_ops option.inject, goal_cases)
  case (1 b x) then show ?case by (simp add: ba_bits_def)
next
  case (2 b) then show ?case by (simp add: wf_ba_def)
next
  case (3 b e) then show ?case by (simp add: wf_ba_def ba_bits_def)
next
  case (4 b0 mal b) then show ?case by (rule ba_new_correct)
next
  case (5 a d0 mal a' d) then show ?case using ba_copy_correct [OF 5] by simp
next
  case (6 b x r b') then show ?case by (rule ba_mark_correct)
next
  case (7 b x r b') then show ?case using ba_unmark_correct [OF 7] by simp
next
  case (8 b x r b')
  then have "b' = b" "r = fst (ba_test_bmap b x)" by (auto simp: ba_test_bmap_def)
  then show ?case using 8(1) ba_test_correct [OF 8(1,2)] by simp
next
  case (9 b x n) then show ?case using ba_mark_extent_correct [OF 9] by (simp add: ba_mark_bmap_extent_def)
next
  case (10 b x n) then show ?case using ba_unmark_extent_correct [OF 10] by (simp add: ba_unmark_bmap_extent_def)
next
  case (11 b x n) then show ?case by (rule ba_test_clear_correct)
next
  case (12 b) then show ?case using ba_clear_correct [OF 12] by (simp add: ba_clear_bmap_def Let_def)
next
  case (13 b s e ff)
  from find_first_correct [OF 13(1,3-5), of False base] show ?case
    unfolding 13(6) [symmetric] ba_find_first_zero_def by (simp split: sum.splits)
next
  case (14 b s e ff)
  from find_first_correct [OF 14(1-4), of True base] show ?case
    unfolding 14(5) [symmetric] ba_find_first_set_def by (simp split: sum.splits)
next
  case (15 b ne nre mal b') then show ?case by (rule ba_resize_correct)
qed

section \<open>Properties\<close>

text \<open>
  C22.  Marking, unmarking and testing one number, and marking and unmarking a run of numbers, inside
  the bitmap are insertion, deletion, membership, union and difference on the set the array stands
  for; the returned value is non-zero exactly when the number was in the set before.
\<close>

theorem ba_bit_operations_correct:
  assumes "wf_ba b" "in_bmap b x 1" "in_bmap b y (unat n)"
  shows "wf_ba (snd (ba_mark_bmap b x)) \<and> ba_bits (snd (ba_mark_bmap b x)) = insert x (ba_bits b)
    \<and> wf_ba (snd (ba_unmark_bmap b x)) \<and> ba_bits (snd (ba_unmark_bmap b x)) = ba_bits b - {x}
    \<and> (fst (ba_mark_bmap b x) \<noteq> 0) = (x \<in> ba_bits b) \<and> (fst (ba_unmark_bmap b x) \<noteq> 0) = (x \<in> ba_bits b)
    \<and> (fst (ba_test_bmap b x) \<noteq> 0) = (x \<in> ba_bits b)
    \<and> wf_ba (ba_mark_bmap_extent b y n) \<and> ba_bits (ba_mark_bmap_extent b y n) = ba_bits b \<union> run y (unat n)
    \<and> wf_ba (ba_unmark_bmap_extent b y n) \<and> ba_bits (ba_unmark_bmap_extent b y n) = ba_bits b - run y (unat n)"
  using ba_mark_correct [OF assms(1,2) prod.collapse [symmetric]] ba_unmark_correct [OF assms(1,2) prod.collapse [symmetric]]
    ba_test_correct [OF assms(1,2)] ba_mark_extent_correct [OF assms(1,3)] ba_unmark_extent_correct [OF assms(1,3)]
  by blast

definition ba_demo :: ba_bmap where
  "ba_demo = \<lparr>bm_magic = EXT2_ET_MAGIC_BLOCK_BITMAP64, bm_flags = 0, bm_start = 1, bm_end = 20, bm_real_end = 20,
     bm_cluster_bits = 0, bm_private = \<lparr>ba_array = [0xff, 0xff, 0x0e]\<rparr>\<rparr>"

lemma byte_bit_demo: "byte_bit [0xff, 0xff, 0x0e] i \<longleftrightarrow> i < 20 \<and> i \<noteq> 16"
proof -
  define p k where "p = i div 8" and "k = i mod 8"
  have i: "i = 8 * p + k" "k < 8" by (auto simp: p_def k_def)
  have ff: "bit (0xff :: u8) k" using i(2) by (simp add: numeral_eq_Suc less_Suc_eq) auto
  have e: "bit (0x0e :: u8) k \<longleftrightarrow> k = 1 \<or> k = 2 \<or> k = 3" using i(2) by (simp add: numeral_eq_Suc less_Suc_eq) auto
  consider "p = 0" | "p = 1" | "p = 2" | "3 \<le> p" by linarith
  then show ?thesis unfolding i(1) byte_bit_at [OF i(2)]
    by cases (use ff e i(2) in \<open>auto simp: nth_Cons'\<close>)
qed

lemma wf_ba_demo: "wf_ba ba_demo"
  by (simp add: wf_ba_def ba_demo_def byte_bit_demo ba_size_eq)

lemma ba_demo_bits: "x \<in> ba_bits ba_demo \<longleftrightarrow> 1 \<le> x \<and> x \<le> 20 \<and> x \<noteq> 17"
proof (cases "1 \<le> x \<and> x \<le> 20")
  case True
  then have "unat (x - 1) = unat x - 1" "unat x \<le> 20" "1 \<le> unat x" using unat_sub [of 1 x] by (simp_all add: word_le_nat_alt)
  moreover have "x = 17 \<longleftrightarrow> unat x = 17" by (auto simp: word_unat_eq_iff)
  ultimately show ?thesis using True by (auto simp: ba_bits_def ba_demo_def byte_bit_demo)
qed (auto simp: ba_bits_def ba_demo_def)

lemma ba_bit_operations_correct_witness:
  "ba_bits (snd (ba_mark_bmap ba_demo 17)) = insert 17 (ba_bits ba_demo)
    \<and> fst (ba_mark_bmap ba_demo 17) = 0 \<and> ba_bits (ba_unmark_bmap_extent ba_demo 3 5) = ba_bits ba_demo - run 3 5"
proof -
  have a: "in_bmap ba_demo 17 1" "in_bmap ba_demo 3 (unat (5 :: u32))" by (simp_all add: in_bmap_def ba_demo_def)
  show ?thesis using ba_bit_operations_correct [OF wf_ba_demo a] by (simp add: ba_demo_bits)
qed

text \<open>
  C23.  The range test compares whole bytes, and bits of the first and the last byte through masks; it
  answers yes exactly when no number of the run is in the set.
\<close>

theorem ba_test_clear_extent_correct:
  assumes "wf_ba b" "in_bmap b x (unat n)"
  shows "ba_test_clear_bmap_extent b x n \<longleftrightarrow> ba_bits b \<inter> run x (unat n) = {}"
  by (rule ba_test_clear_correct [OF assms])

lemma ba_test_clear_extent_correct_witness: "\<not> ba_test_clear_bmap_extent ba_demo 15 4"
proof -
  have "in_bmap ba_demo 15 (unat (4 :: u32))" by (simp add: in_bmap_def ba_demo_def)
  moreover have "16 \<in> ba_bits ba_demo \<inter> run 15 (unat (4 :: u32))" by (simp add: ba_demo_bits run_def)
  ultimately show ?thesis using ba_test_clear_extent_correct [OF wf_ba_demo, of 15 4] by blast
qed

text \<open>
  The two searches, with their loops over bits, aligned bytes and eight-byte words, return the
  first number of the interval that is out of the set, or in it, and \<open>ENOENT\<close> exactly when there is
  none, whatever the alignment of the array.
\<close>

theorem ba_find_first_correct:
  assumes "wf_ba b" "bm_start b \<le> s" "s \<le> e" "e \<le> bm_real_end b"
  shows "(case ba_find_first_zero base b s e of Inr r \<Rightarrow> first_in (\<lambda>x. x \<notin> ba_bits b) s e r
      | Inl err \<Rightarrow> err = ENOENT \<and> (\<forall>x. s \<le> x \<and> x \<le> e \<longrightarrow> x \<in> ba_bits b))
    \<and> (case ba_find_first_set base b s e of Inr r \<Rightarrow> first_in (\<lambda>x. x \<in> ba_bits b) s e r
      | Inl err \<Rightarrow> err = ENOENT \<and> (\<forall>x. s \<le> x \<and> x \<le> e \<longrightarrow> x \<notin> ba_bits b))"
  using find_first_correct [OF assms, of False base] find_first_correct [OF assms, of True base]
  unfolding ba_find_first_zero_def ba_find_first_set_def by (simp split: sum.splits)

lemma ba_find_first_correct_witness: "ba_find_first_zero 3 ba_demo 1 20 = Inr 17"
proof -
  have h: "bm_start ba_demo \<le> 1" "(1 :: u64) \<le> 20" "20 \<le> bm_real_end ba_demo" by (simp_all add: ba_demo_def)
  have "17 \<notin> ba_bits ba_demo" by (simp add: ba_demo_bits)
  with ba_find_first_correct [OF wf_ba_demo h, of 3]
  obtain r where r: "ba_find_first_zero 3 ba_demo 1 20 = Inr r" "first_in (\<lambda>x. x \<notin> ba_bits ba_demo) 1 20 r"
    by (cases "ba_find_first_zero 3 ba_demo 1 20") auto
  then have "r = 17" unfolding first_in_def ba_demo_bits by blast
  then show ?thesis using r by simp
qed

text \<open>
  Growing a bitmap, to any new end inside the new real end, keeps the numbers up to the old end
  and clears all the new ones up to the new end, also those of the old padding.
\<close>

theorem ba_resize_grow_correct:
  assumes "wf_ba b" "bm_start b \<le> bm_end b" "bm_start b \<le> ne" "ne \<le> nre" "bm_real_end b \<le> nre"
    and "unat nre < unat (bm_start b) + 2 ^ 63" and "ba_resize_bmap junk mal b ne nre = (None, b')"
  shows "wf_ba b' \<and> bm_end b' = ne \<and> bm_real_end b' = nre
    \<and> ba_bits b' \<inter> {..ne} = ba_bits b \<inter> {..ne} \<inter> {..bm_end b}"
  using ba_resize_correct [OF assms] by blast

lemma ba_resize_grow_correct_witness:
  "\<exists>b'. ba_resize_bmap 0xaa (\<lambda>_. True) ba_demo 30 30 = (None, b') \<and> 20 \<in> ba_bits b' \<and> 21 \<notin> ba_bits b'"
proof -
  obtain b' where r: "ba_resize_bmap 0xaa (\<lambda>_. True) ba_demo 30 30 = (None, b')"
    by (simp add: ba_resize_bmap_def Let_def ba_demo_def)
  have "ba_bits b' \<inter> {..30} = ba_bits ba_demo \<inter> {..30} \<inter> {..bm_end ba_demo}"
    using ba_resize_grow_correct [OF wf_ba_demo _ _ _ _ _ r] by (simp add: ba_demo_def)
  moreover have "20 \<in> ba_bits ba_demo" "bm_end ba_demo = 20" by (simp add: ba_demo_bits, simp add: ba_demo_def)
  ultimately have "20 \<in> ba_bits b' \<inter> {..30}" "21 \<notin> ba_bits b' \<inter> {..30}" by auto
  then show ?thesis using r by auto
qed

text \<open>
  Without the hypothesis on the real end the new part is not always clear: shrinking leaves the bits
  of the last byte in place, and growing back within that byte brings them to life again.
\<close>

definition ba_full :: ba_bmap where
  "ba_full = \<lparr>bm_magic = EXT2_ET_MAGIC_BLOCK_BITMAP64, bm_flags = 0, bm_start = 0, bm_end = 15, bm_real_end = 15,
     bm_cluster_bits = 0, bm_private = \<lparr>ba_array = [0, 0xff]\<rparr>\<rparr>"

lemma ba_shrink_then_grow_keeps_bits:
  "12 \<in> ba_bits (snd (ba_resize_bmap 0 mal (snd (ba_resize_bmap 0 mal ba_full 9 9)) 15 15))"
  by (simp add: ba_full_def ba_resize_bmap_def Let_def ba_bits_def ba_size_def byte_bit_def
      clear_down.simps [of ext2fs_clear_bit64 0 9 9])

end
