(* ===== verification/RBTree.thy ===== *)
theory RBTree
  imports Main
begin

text \<open>
  The red-black trees of \<open>lib/ext2fs/rbtree.c\<close> and \<open>rbtree.h\<close>.  The C code works on nodes linked
  by child and parent pointers; a pointer to a node is here a location, the subtree at the node with
  the path to the root, innermost frame first.  Climbing to the parent pops a frame, so
  the rebalancing loops are recursions along the path, and every rotation, recolouring and
  replacement of a link is the one the code makes at that point.

  Reading a child or a sibling of a null pointer does not happen in a well-formed tree; where a case
  analysis needs a value there, the model leaves the tree as it is.

  The theory proves that insertion and removal keep the sequence of the other nodes, the red-black
  invariant (no red node has a red child, the root is black) and the balance of black heights, and
  that the traversal functions follow the in-order sequence.
\<close>

section \<open>Trees, paths and rotations\<close>

datatype color = Red | Black

datatype 'a rbt = Leaf | Node color "'a rbt" 'a "'a rbt"

text \<open>
  A frame is the parent as its child sees it: \<open>FL c v r\<close> when the child is the left one, with the
  parent's colour, value and right child; \<open>FR c l v\<close> when it is the right one.
\<close>

datatype 'a frame = FL color 'a "'a rbt" | FR color "'a rbt" 'a

fun plug1 :: "'a rbt \<Rightarrow> 'a frame \<Rightarrow> 'a rbt" where
  "plug1 t (FL c v r) = Node c t v r"
| "plug1 t (FR c l v) = Node c l v t"

fun plug :: "'a rbt \<Rightarrow> 'a frame list \<Rightarrow> 'a rbt" where
  "plug t [] = t"
| "plug t (f # up) = plug (plug1 t f) up"

fun frame_color :: "'a frame \<Rightarrow> color" where
  "frame_color (FL c v r) = c"
| "frame_color (FR c l v) = c"

fun is_red :: "'a rbt \<Rightarrow> bool" where
  "is_red (Node Red l v r) = True"
| "is_red t = False"

text \<open>\<open>!n || ext2fs_rb_is_black(n)\<close>.\<close>

definition is_black :: "'a rbt \<Rightarrow> bool" where
  "is_black t = (\<not> is_red t)"

fun set_color :: "color \<Rightarrow> 'a rbt \<Rightarrow> 'a rbt" where
  "set_color c (Node d l v r) = Node c l v r"
| "set_color c Leaf = Leaf"

abbreviation "set_black \<equiv> set_color Black"
abbreviation "set_red \<equiv> set_color Red"

fun rotate_left :: "'a rbt \<Rightarrow> 'a rbt" where
  "rotate_left (Node c a x (Node d b y e)) = Node d (Node c a x b) y e"
| "rotate_left t = t"

fun rotate_right :: "'a rbt \<Rightarrow> 'a rbt" where
  "rotate_right (Node c (Node d a x b) y e) = Node d a x (Node c b y e)"
| "rotate_right t = t"

section \<open>Insertion\<close>

text \<open>
  \<open>ext2fs_rb_insert_color\<close>: \<open>node\<close> is red and hangs at the end of the path.  After the rotation at
  the grandparent the parent of the node is black, so the loop ends there; the root is blackened.
\<close>

fun rb_insert_color :: "'a rbt \<Rightarrow> 'a frame list \<Rightarrow> 'a rbt" where
  "rb_insert_color node [] = set_black node"
| "rb_insert_color node [p] = set_black (plug1 node p)"
| "rb_insert_color node (p # g # up) =
     (if frame_color p = Red
      then (case g of
              FL gc gv uncle \<Rightarrow>
                if is_red uncle
                then rb_insert_color (Node Red (set_black (plug1 node p)) gv (set_black uncle)) up
                else let parent = (case p of FR c l v \<Rightarrow> rotate_left (plug1 node p) | FL c v r \<Rightarrow> plug1 node p)
                     in set_black (plug (rotate_right (Node Red (set_black parent) gv uncle)) up)
            | FR gc uncle gv \<Rightarrow>
                if is_red uncle
                then rb_insert_color (Node Red (set_black uncle) gv (set_black (plug1 node p))) up
                else let parent = (case p of FL c v r \<Rightarrow> rotate_right (plug1 node p) | FR c l v \<Rightarrow> plug1 node p)
                     in set_black (plug (rotate_left (Node Red uncle gv (set_black parent))) up))
      else set_black (plug node (p # g # up)))"

text \<open>\<open>ext2fs_rb_link_node\<close> at the empty place at the end of a path, then the rebalancing.\<close>

definition rb_link_insert :: "'a \<Rightarrow> 'a frame list \<Rightarrow> 'a rbt" where
  "rb_link_insert x path = rb_insert_color (Node Red Leaf x Leaf) path"

section \<open>Removal\<close>

text \<open>
  One round of the loop of \<open>__rb_erase_color\<close> once the sibling \<open>other\<close> is black, for a node that is
  the left child, and for one that is the right child: the new subtree in place of the parent, and
  whether the loop breaks.
\<close>

fun erase_fix_left :: "color \<Rightarrow> 'a rbt \<Rightarrow> 'a \<Rightarrow> 'a rbt \<Rightarrow> 'a rbt \<times> bool" where
  "erase_fix_left pc node pv (Node oc ol ov orr) =
     (if is_black ol \<and> is_black orr then (Node pc node pv (Node Red ol ov orr), False)
      else let other = (if is_black orr then rotate_right (Node Red (set_black ol) ov orr) else Node oc ol ov orr);
               other' = (case other of Node c l v r \<Rightarrow> Node pc l v (set_black r) | Leaf \<Rightarrow> Leaf)
           in (rotate_left (Node Black node pv other'), True))"
| "erase_fix_left pc node pv Leaf = (Node pc node pv Leaf, True)"

fun erase_fix_right :: "color \<Rightarrow> 'a rbt \<Rightarrow> 'a \<Rightarrow> 'a rbt \<Rightarrow> 'a rbt \<times> bool" where
  "erase_fix_right pc (Node oc ol ov orr) pv node =
     (if is_black ol \<and> is_black orr then (Node pc (Node Red ol ov orr) pv node, False)
      else let other = (if is_black ol then rotate_left (Node Red ol ov (set_black orr)) else Node oc ol ov orr);
               other' = (case other of Node c l v r \<Rightarrow> Node pc (set_black l) v r | Leaf \<Rightarrow> Leaf)
           in (rotate_right (Node Black other' pv node), True))"
| "erase_fix_right pc Leaf pv node = (Node pc Leaf pv node, True)"

lemma erase_fix_red:
  "erase_fix_left Red node pv other = (t, False) \<Longrightarrow> is_red t"
  "erase_fix_right Red other pv node = (t, False) \<Longrightarrow> is_red t"
  by (cases other; auto simp: Let_def split: if_splits)+

text \<open>
  The loop.  A red sibling is first rotated above the parent, which becomes red; the round then runs
  one level deeper.  After a break the node is the root, which is blackened.
\<close>

function rb_erase_color :: "'a rbt \<Rightarrow> 'a frame list \<Rightarrow> 'a rbt" where
  "rb_erase_color node path =
     (case path of
        [] \<Rightarrow> set_black node
      | f # up \<Rightarrow>
          if is_red node then plug (set_black node) path
          else case f of
            FL pc pv other \<Rightarrow>
              (case other of
                 Node Red ol ov orr \<Rightarrow>
                   let up' = FL Black ov orr # up in
                   (case erase_fix_left Red node pv ol of
                      (t, brk) \<Rightarrow> if brk then set_black (plug t up')
                                 else rb_erase_color t up')
               | _ \<Rightarrow>
                   (case erase_fix_left pc node pv other of
                      (t, brk) \<Rightarrow> if brk then set_black (plug t up) else rb_erase_color t up))
          | FR pc other pv \<Rightarrow>
              (case other of
                 Node Red ol ov orr \<Rightarrow>
                   let up' = FR Black ol ov # up in
                   (case erase_fix_right Red orr pv node of
                      (t, brk) \<Rightarrow> if brk then set_black (plug t up')
                                 else rb_erase_color t up')
               | _ \<Rightarrow>
                   (case erase_fix_right pc other pv node of
                      (t, brk) \<Rightarrow> if brk then set_black (plug t up) else rb_erase_color t up)))"
  by pat_completeness auto
termination
  by (relation "measure (\<lambda>(node, path). 2 * length path + (if is_red node then 0 else 1))")
    (auto dest: erase_fix_red [OF sym])

declare rb_erase_color.simps [simp del]

text \<open>\<open>ext2fs_rb_erase\<close>; the leftmost node of the right subtree takes the place of a node with two children.\<close>

fun leftmost :: "'a rbt \<Rightarrow> 'a frame list \<Rightarrow> ('a rbt \<times> 'a frame list)" where
  "leftmost (Node c l v r) path = (if l = Leaf then (Node c l v r, path) else leftmost l (FL c v r # path))"
| "leftmost Leaf path = (Leaf, path)"

fun rightmost :: "'a rbt \<Rightarrow> 'a frame list \<Rightarrow> ('a rbt \<times> 'a frame list)" where
  "rightmost (Node c l v r) path = (if r = Leaf then (Node c l v r, path) else rightmost r (FR c l v # path))"
| "rightmost Leaf path = (Leaf, path)"

definition unlink :: "color \<Rightarrow> 'a rbt \<Rightarrow> 'a frame list \<Rightarrow> 'a rbt" where
  "unlink col child path = (if col = Black then rb_erase_color child path else plug child path)"

fun rb_erase :: "'a rbt \<Rightarrow> 'a frame list \<Rightarrow> 'a rbt" where
  "rb_erase (Node c l v r) path =
     (if l = Leaf then unlink c r path
      else if r = Leaf then unlink c l path
      else (case leftmost r [] of
              (Node nc nl nv child, inner) \<Rightarrow> unlink nc child (inner @ FR c l nv # path)
            | (Leaf, inner) \<Rightarrow> plug (Node c l v r) path))"
| "rb_erase Leaf path = plug Leaf path"

section \<open>Traversal\<close>

definition rb_first :: "'a rbt \<Rightarrow> ('a rbt \<times> 'a frame list) option" where
  "rb_first root = (if root = Leaf then None else Some (leftmost root []))"

definition rb_last :: "'a rbt \<Rightarrow> ('a rbt \<times> 'a frame list) option" where
  "rb_last root = (if root = Leaf then None else Some (rightmost root []))"

text \<open>The climb to the first ancestor of which the node is in the left subtree, and its mirror image.\<close>

fun climb_next :: "'a rbt \<Rightarrow> 'a frame list \<Rightarrow> ('a rbt \<times> 'a frame list) option" where
  "climb_next t [] = None"
| "climb_next t (FR c l v # up) = climb_next (Node c l v t) up"
| "climb_next t (FL c v r # up) = Some (Node c t v r, up)"

fun climb_prev :: "'a rbt \<Rightarrow> 'a frame list \<Rightarrow> ('a rbt \<times> 'a frame list) option" where
  "climb_prev t [] = None"
| "climb_prev t (FL c v r # up) = climb_prev (Node c t v r) up"
| "climb_prev t (FR c l v # up) = Some (Node c l v t, up)"

fun rb_next :: "'a rbt \<times> 'a frame list \<Rightarrow> ('a rbt \<times> 'a frame list) option" where
  "rb_next (Node c l v r, path) =
     (if r \<noteq> Leaf then Some (leftmost r (FR c l v # path)) else climb_next (Node c l v r) path)"
| "rb_next (Leaf, path) = None"

fun rb_prev :: "'a rbt \<times> 'a frame list \<Rightarrow> ('a rbt \<times> 'a frame list) option" where
  "rb_prev (Node c l v r, path) =
     (if l \<noteq> Leaf then Some (rightmost l (FL c v r # path)) else climb_prev (Node c l v r) path)"
| "rb_prev (Leaf, path) = None"

section \<open>The sequence of a tree\<close>

fun inorder :: "'a rbt \<Rightarrow> 'a list" where
  "inorder Leaf = []"
| "inorder (Node c l v r) = inorder l @ v # inorder r"

text \<open>What is to the left and to the right of the hole at the end of a path.\<close>

fun before :: "'a frame list \<Rightarrow> 'a list" where
  "before [] = []"
| "before (FL c v r # up) = before up"
| "before (FR c l v # up) = before up @ inorder l @ [v]"

fun after :: "'a frame list \<Rightarrow> 'a list" where
  "after [] = []"
| "after (FL c v r # up) = v # inorder r @ after up"
| "after (FR c l v # up) = after up"

lemma inorder_plug: "inorder (plug t path) = before path @ inorder t @ after path"
proof (induction path arbitrary: t)
  case (Cons f up)
  then show ?case by (cases f) auto
qed simp

lemma plug_append: "plug t (p @ q) = plug (plug t p) q"
  by (induction p arbitrary: t) auto

lemma before_append: "before (p @ q) = before q @ before p"
  by (induction p rule: before.induct) auto

lemma after_append: "after (p @ q) = after p @ after q"
  by (induction p rule: after.induct) auto

lemma inorder_set_color [simp]: "inorder (set_color c t) = inorder t"
  by (cases t) auto

lemma inorder_rotate [simp]: "inorder (rotate_left t) = inorder t" "inorder (rotate_right t) = inorder t"
  by (cases t rule: rotate_left.cases; simp) (cases t rule: rotate_right.cases; simp)

lemma inorder_plug1: "inorder (plug1 t f) = before [f] @ inorder t @ after [f]"
  by (cases f) auto

declare rb_insert_color.simps(3) [simp del]

lemma rb_insert_color_black:
  "frame_color p = Black \<Longrightarrow> rb_insert_color t (p # g # up) = set_black (plug t (p # g # up))"
  by (simp add: rb_insert_color.simps(3))

lemma rb_insert_color_red:
  assumes "frame_color p = Red"
  shows "is_red u \<Longrightarrow> rb_insert_color t (p # FL gc gv u # up)
      = rb_insert_color (Node Red (set_black (plug1 t p)) gv (set_black u)) up"
    and "is_red u \<Longrightarrow> rb_insert_color t (p # FR gc u gv # up)
      = rb_insert_color (Node Red (set_black u) gv (set_black (plug1 t p))) up"
    and "\<not> is_red u \<Longrightarrow> rb_insert_color t (p # FL gc gv u # up)
      = set_black (plug (rotate_right (Node Red (set_black
          (case p of FR c l v \<Rightarrow> rotate_left (plug1 t p) | FL c v r \<Rightarrow> plug1 t p)) gv u)) up)"
    and "\<not> is_red u \<Longrightarrow> rb_insert_color t (p # FR gc u gv # up)
      = set_black (plug (rotate_left (Node Red u gv (set_black
          (case p of FL c v r \<Rightarrow> rotate_right (plug1 t p) | FR c l v \<Rightarrow> plug1 t p)))) up)"
  using assms by (simp_all add: rb_insert_color.simps(3) Let_def)

lemma color_cases [case_names Red Black]: "(c = Red \<Longrightarrow> P) \<Longrightarrow> (c = Black \<Longrightarrow> P) \<Longrightarrow> P"
  by (cases c) auto

lemma inorder_insert_color: "inorder (rb_insert_color t path) = before path @ inorder t @ after path"
proof (induction t path rule: rb_insert_color.induct)
  case (1 node)
  then show ?case by simp
next
  case (2 node p)
  then show ?case by (simp add: inorder_plug1)
next
  case (3 node p g up)
  show ?case
  proof (cases "frame_color p" rule: color_cases)
    case Black
    then show ?thesis by (simp add: rb_insert_color_black inorder_plug inorder_plug1 del: plug.simps(2))
  next
    case Red
    show ?thesis
    proof (cases g)
      case (FL gc gv u)
      show ?thesis
      proof (cases "is_red u")
        case True
        have "inorder (rb_insert_color (Node Red (set_black (plug1 node p)) gv (set_black u)) up)
          = before up @ inorder (Node Red (set_black (plug1 node p)) gv (set_black u)) @ after up"
          using Red FL True 3(1) by simp
        then show ?thesis unfolding FL rb_insert_color_red(1) [OF Red True] by (cases p) auto
      next
        case False
        show ?thesis unfolding FL rb_insert_color_red(3) [OF Red False] by (cases p) (auto simp: inorder_plug)
      qed
    next
      case (FR gc u gv)
      show ?thesis
      proof (cases "is_red u")
        case True
        have "inorder (rb_insert_color (Node Red (set_black u) gv (set_black (plug1 node p))) up)
          = before up @ inorder (Node Red (set_black u) gv (set_black (plug1 node p))) @ after up"
          using Red FR True 3(2) by simp
        then show ?thesis unfolding FR rb_insert_color_red(2) [OF Red True] by (cases p) auto
      next
        case False
        show ?thesis unfolding FR rb_insert_color_red(4) [OF Red False] by (cases p) (auto simp: inorder_plug)
      qed
    qed
  qed
qed

lemma inorder_recolored [simp]:
  "inorder (case t of Node c l v r \<Rightarrow> Node pc l v (set_black r) | Leaf \<Rightarrow> Leaf) = inorder t"
  "inorder (case t of Node c l v r \<Rightarrow> Node pc (set_black l) v r | Leaf \<Rightarrow> Leaf) = inorder t"
  by (cases t; simp)+

lemma inorder_erase_fix:
  "inorder (fst (erase_fix_left pc node pv other)) = inorder node @ pv # inorder other"
  "inorder (fst (erase_fix_right pc other pv node)) = inorder other @ pv # inorder node"
  by (cases other; simp add: Let_def)+

lemma erase_fix_inorder:
  "erase_fix_left pc node pv other = (t, b) \<Longrightarrow> inorder t = inorder node @ pv # inorder other"
  "erase_fix_right pc other pv node = (t, b) \<Longrightarrow> inorder t = inorder other @ pv # inorder node"
  using inorder_erase_fix [of pc node pv other] inorder_erase_fix(2) [of pc other pv node] by auto

text \<open>One round of the loop, by the shape of the innermost frame.\<close>

lemma rb_erase_color_Nil: "rb_erase_color t [] = set_black t"
  by (simp add: rb_erase_color.simps [of t "[]"])

lemma rb_erase_color_is_red: "is_red t \<Longrightarrow> path \<noteq> [] \<Longrightarrow> rb_erase_color t path = plug (set_black t) path"
  by (subst rb_erase_color.simps) (auto split: list.splits)

lemma rb_erase_color_red_sibling:
  assumes "\<not> is_red t"
  shows "erase_fix_left Red t pv ol = (t', brk) \<Longrightarrow> rb_erase_color t (FL pc pv (Node Red ol ov orr) # up)
      = (if brk then set_black (plug t' (FL Black ov orr # up)) else rb_erase_color t' (FL Black ov orr # up))"
    and "erase_fix_right Red orr pv t = (t', brk) \<Longrightarrow> rb_erase_color t (FR pc (Node Red ol ov orr) pv # up)
      = (if brk then set_black (plug t' (FR Black ol ov # up)) else rb_erase_color t' (FR Black ol ov # up))"
  by (subst rb_erase_color.simps; use assms in \<open>simp add: Let_def\<close>)+

lemma rb_erase_color_black_sibling:
  assumes "\<not> is_red t" "\<not> is_red other"
  shows "erase_fix_left pc t pv other = (t', brk) \<Longrightarrow> rb_erase_color t (FL pc pv other # up)
      = (if brk then set_black (plug t' up) else rb_erase_color t' up)"
    and "erase_fix_right pc other pv t = (t', brk) \<Longrightarrow> rb_erase_color t (FR pc other pv # up)
      = (if brk then set_black (plug t' up) else rb_erase_color t' up)"
  by (subst rb_erase_color.simps; use assms in \<open>auto split: rbt.splits color.splits\<close>)+

text \<open>Induction along the rounds of the loop.\<close>

lemma erase_color_induct [case_names Nil node_red left_red right_red left_black right_black]:
  assumes "\<And>t. P t []" "\<And>t f up. is_red t \<Longrightarrow> P t (f # up)"
    and "\<And>t pc pv ol ov orr up. \<not> is_red t
      \<Longrightarrow> (\<And>t'. erase_fix_left Red t pv ol = (t', False) \<Longrightarrow> P t' (FL Black ov orr # up))
      \<Longrightarrow> P t (FL pc pv (Node Red ol ov orr) # up)"
    and "\<And>t pc pv ol ov orr up. \<not> is_red t
      \<Longrightarrow> (\<And>t'. erase_fix_right Red orr pv t = (t', False) \<Longrightarrow> P t' (FR Black ol ov # up))
      \<Longrightarrow> P t (FR pc (Node Red ol ov orr) pv # up)"
    and "\<And>t pc pv other up. \<not> is_red t \<Longrightarrow> \<not> is_red other
      \<Longrightarrow> (\<And>t'. erase_fix_left pc t pv other = (t', False) \<Longrightarrow> P t' up) \<Longrightarrow> P t (FL pc pv other # up)"
    and "\<And>t pc pv other up. \<not> is_red t \<Longrightarrow> \<not> is_red other
      \<Longrightarrow> (\<And>t'. erase_fix_right pc other pv t = (t', False) \<Longrightarrow> P t' up) \<Longrightarrow> P t (FR pc other pv # up)"
  shows "P t path"
proof (induction "2 * length path + (if is_red t then 0 else 1 :: nat)" arbitrary: t path rule: less_induct)
  case less
  show ?case
  proof (cases path)
    case Nil
    then show ?thesis using assms(1) by simp
  next
    case (Cons f up)
    show ?thesis
    proof (cases "is_red t")
      case True
      then show ?thesis using assms(2) Cons by simp
    next
      case nr: False
      show ?thesis
      proof (cases f)
        case (FL pc pv other)
        show ?thesis
        proof (cases "is_red other")
          case True
          then obtain ol ov orr where o: "other = Node Red ol ov orr" by (cases other rule: is_red.cases) auto
          show ?thesis unfolding Cons FL o
            by (rule assms(3) [OF nr], rule less) (use nr Cons erase_fix_red(1) in auto)
        next
          case False
          show ?thesis unfolding Cons FL
            by (rule assms(5) [OF nr False], rule less) (use nr Cons in auto)
        qed
      next
        case (FR pc other pv)
        show ?thesis
        proof (cases "is_red other")
          case True
          then obtain ol ov orr where o: "other = Node Red ol ov orr" by (cases other rule: is_red.cases) auto
          show ?thesis unfolding Cons FR o
            by (rule assms(4) [OF nr], rule less) (use nr Cons erase_fix_red(2) in auto)
        next
          case False
          show ?thesis unfolding Cons FR
            by (rule assms(6) [OF nr False], rule less) (use nr Cons in auto)
        qed
      qed
    qed
  qed
qed

lemma inorder_erase_color: "inorder (rb_erase_color t path) = before path @ inorder t @ after path"
proof (induction t path rule: erase_color_induct)
  case (Nil t)
  then show ?case by (simp add: rb_erase_color_Nil)
next
  case (node_red t f up)
  then show ?case by (simp add: rb_erase_color_is_red inorder_plug del: plug.simps)
next
  case (left_red t pc pv ol ov orr up)
  obtain t' brk where e: "erase_fix_left Red t pv ol = (t', brk)" by fastforce
  show ?case unfolding rb_erase_color_red_sibling(1) [OF left_red(1) e]
    using left_red(2) e erase_fix_inorder(1) [OF e] by (cases brk) (auto simp: inorder_plug)
next
  case (right_red t pc pv ol ov orr up)
  obtain t' brk where e: "erase_fix_right Red orr pv t = (t', brk)" by fastforce
  show ?case unfolding rb_erase_color_red_sibling(2) [OF right_red(1) e]
    using right_red(2) e erase_fix_inorder(2) [OF e] by (cases brk) (auto simp: inorder_plug)
next
  case (left_black t pc pv other up)
  obtain t' brk where e: "erase_fix_left pc t pv other = (t', brk)" by fastforce
  show ?case unfolding rb_erase_color_black_sibling(1) [OF left_black(1,2) e]
    using left_black(3) e erase_fix_inorder(1) [OF e] by (cases brk) (auto simp: inorder_plug)
next
  case (right_black t pc pv other up)
  obtain t' brk where e: "erase_fix_right pc other pv t = (t', brk)" by fastforce
  show ?case unfolding rb_erase_color_black_sibling(2) [OF right_black(1,2) e]
    using right_black(3) e erase_fix_inorder(2) [OF e] by (cases brk) (auto simp: inorder_plug)
qed

lemma inorder_unlink: "inorder (unlink c t path) = before path @ inorder t @ after path"
  by (simp add: unlink_def inorder_erase_color inorder_plug)

lemma leftmost_spec:
  "t \<noteq> Leaf \<Longrightarrow> leftmost t path = (n, p) \<Longrightarrow> \<exists>inner c v r. p = inner @ path \<and> n = Node c Leaf v r
    \<and> before inner = [] \<and> plug n inner = t"
proof (induction t path arbitrary: n p rule: leftmost.induct)
  case (1 c l v r path)
  show ?case
  proof (cases "l = Leaf")
    case True
    then show ?thesis using 1(3) by (intro exI [of _ "[]"]) auto
  next
    case False
    then obtain inner c' v' r' where "p = inner @ FL c v r # path" "n = Node c' Leaf v' r'" "before inner = []" "plug n inner = l"
      using 1(1) [OF False False] 1(3) by auto
    then show ?thesis by (intro exI [of _ "inner @ [FL c v r]"] exI conjI) (auto simp: before_append plug_append)
  qed
qed simp

lemma rightmost_spec:
  "t \<noteq> Leaf \<Longrightarrow> rightmost t path = (n, p) \<Longrightarrow> \<exists>inner c v l. p = inner @ path \<and> n = Node c l v Leaf
    \<and> after inner = [] \<and> plug n inner = t"
proof (induction t path arbitrary: n p rule: rightmost.induct)
  case (1 c l v r path)
  show ?case
  proof (cases "r = Leaf")
    case True
    then show ?thesis using 1(3) by (intro exI [of _ "[]"]) auto
  next
    case False
    then obtain inner c' v' l' where "p = inner @ FR c l v # path" "n = Node c' l' v' Leaf" "after inner = []" "plug n inner = r"
      using 1(1) [OF False False] 1(3) by auto
    then show ?thesis by (intro exI [of _ "inner @ [FR c l v]"] exI conjI) (auto simp: after_append plug_append)
  qed
qed simp

lemma inorder_erase: "inorder (rb_erase (Node c l v r) path) = before path @ inorder l @ inorder r @ after path"
proof (cases "l = Leaf \<or> r = Leaf")
  case True
  then show ?thesis by (auto simp: inorder_unlink)
next
  case False
  obtain n inner where lm: "leftmost r [] = (n, inner)" by fastforce
  from leftmost_spec [OF _ lm] False obtain nc nv nr where n: "n = Node nc Leaf nv nr" "before inner = []" "plug n inner = r"
    by auto
  have "inorder r = nv # inorder nr @ after inner" using n inorder_plug [of n inner] by simp
  then show ?thesis using False lm n by (simp add: inorder_unlink before_append after_append)
qed

section \<open>The red-black invariant\<close>

fun black_count :: "color \<Rightarrow> nat" where
  "black_count Black = 1"
| "black_count Red = 0"

fun bh :: "'a rbt \<Rightarrow> nat" where
  "bh Leaf = 0"
| "bh (Node c l v r) = bh l + black_count c"

fun invh :: "'a rbt \<Rightarrow> bool" where
  "invh Leaf = True"
| "invh (Node c l v r) = (invh l \<and> invh r \<and> bh l = bh r)"

fun invc :: "'a rbt \<Rightarrow> bool" where
  "invc Leaf = True"
| "invc (Node c l v r) = (invc l \<and> invc r \<and> (c = Red \<longrightarrow> \<not> is_red l \<and> \<not> is_red r))"

definition rb_inv :: "'a rbt \<Rightarrow> bool" where
  "rb_inv t \<longleftrightarrow> invc t \<and> invh t \<and> \<not> is_red t"

text \<open>
  The same for a path: no red parent takes a red node, which at the top of the tree is the demand that
  the root is black, and the subtrees beside the path fit a node of black height \<open>h\<close>.
\<close>

fun top_red :: "'a frame list \<Rightarrow> bool" where
  "top_red [] = True"
| "top_red (f # up) = (frame_color f = Red)"

fun pathc :: "'a frame list \<Rightarrow> bool" where
  "pathc [] = True"
| "pathc (FL c v r # up) = (invc r \<and> (c = Red \<longrightarrow> \<not> is_red r \<and> \<not> top_red up) \<and> pathc up)"
| "pathc (FR c l v # up) = (invc l \<and> (c = Red \<longrightarrow> \<not> is_red l \<and> \<not> top_red up) \<and> pathc up)"

fun pathh :: "'a frame list \<Rightarrow> nat \<Rightarrow> bool" where
  "pathh [] h = True"
| "pathh (FL c v r # up) h = (invh r \<and> bh r = h \<and> pathh up (h + black_count c))"
| "pathh (FR c l v # up) h = (invh l \<and> bh l = h \<and> pathh up (h + black_count c))"

lemma rb_inv_plug:
  "rb_inv (plug t path) \<longleftrightarrow> invc t \<and> invh t \<and> (is_red t \<longrightarrow> \<not> top_red path) \<and> pathc path \<and> pathh path (bh t)"
proof (induction path arbitrary: t)
  case Nil
  then show ?case by (auto simp: rb_inv_def)
next
  case (Cons f up)
  have red: "is_red (plug1 t f) \<longleftrightarrow> frame_color f = Red" by (cases f; cases "frame_color f") auto
  show ?case using Cons.IH [of "plug1 t f"] red by (cases f) auto
qed

lemma set_black_inv [simp]: "rb_inv t \<Longrightarrow> set_black t = t"
  by (cases t rule: is_red.cases) (auto simp: rb_inv_def intro: color.exhaust)

lemma set_color_facts [simp]:
  "invh (set_color c t) = invh t" "is_red (set_black t) = False" "invc t \<Longrightarrow> invc (set_black t)"
  "bh (set_black t) = bh t + (if is_red t then 1 else 0)"
  by (cases t rule: is_red.cases; simp)+

lemma insert_color_inv:
  assumes "invc t" "invh t" "is_red t" "pathc path" "pathh path (bh t)"
  shows "rb_inv (rb_insert_color t path)"
  using assms
proof (induction t path rule: rb_insert_color.induct)
  case (1 t)
  then show ?case by (simp add: rb_inv_def)
next
  case (2 t p)
  then have "rb_inv (plug t [p])" unfolding rb_inv_plug by (cases p) auto
  then show ?case by simp
next
  case (3 t p g up)
  show ?case
  proof (cases "frame_color p" rule: color_cases)
    case Black
    have "rb_inv (plug t (p # g # up))" unfolding rb_inv_plug using 3(3-7) Black by simp
    then show ?thesis unfolding rb_insert_color_black [OF Black] by simp
  next
    case Red
    from 3(5) obtain tl tv tr where t: "t = Node Red tl tv tr" by (cases t rule: is_red.cases) auto
    show ?thesis
    proof (cases g)
      case (FL gc gv u)
      have gb: "gc = Black" using 3(6) Red by (cases p; cases gc) (auto simp: FL)
      show ?thesis
      proof (cases "is_red u")
        case True
        have "rb_inv (rb_insert_color (Node Red (set_black (plug1 t p)) gv (set_black u)) up)"
          by (rule 3(1) [OF Red FL True]; cases p; use 3(3-7) Red True in \<open>simp add: FL gb t\<close>)
        then show ?thesis unfolding FL rb_insert_color_red(1) [OF Red True] .
      next
        case False
        have "rb_inv (plug (rotate_right (Node Red (set_black
          (case p of FR c l v \<Rightarrow> rotate_left (plug1 t p) | FL c v r \<Rightarrow> plug1 t p)) gv u)) up)"
          unfolding rb_inv_plug using 3(3-7) Red False by (cases p) (simp_all add: FL gb t)
        then show ?thesis unfolding FL rb_insert_color_red(3) [OF Red False] by simp
      qed
    next
      case (FR gc u gv)
      have gb: "gc = Black" using 3(6) Red by (cases p; cases gc) (auto simp: FR)
      show ?thesis
      proof (cases "is_red u")
        case True
        have "rb_inv (rb_insert_color (Node Red (set_black u) gv (set_black (plug1 t p))) up)"
          by (rule 3(2) [OF Red FR True]; cases p; use 3(3-7) Red True in \<open>simp add: FR gb t\<close>)
        then show ?thesis unfolding FR rb_insert_color_red(2) [OF Red True] .
      next
        case False
        have "rb_inv (plug (rotate_left (Node Red u gv (set_black
          (case p of FL c v r \<Rightarrow> rotate_right (plug1 t p) | FR c l v \<Rightarrow> plug1 t p)))) up)"
          unfolding rb_inv_plug using 3(3-7) Red False by (cases p) (simp_all add: FR gb t)
        then show ?thesis unfolding FR rb_insert_color_red(4) [OF Red False] by simp
      qed
    qed
  qed
qed

lemma black_cases: "\<not> is_red t \<Longrightarrow> (t = Leaf \<Longrightarrow> P) \<Longrightarrow> (\<And>l v r. t = Node Black l v r \<Longrightarrow> P) \<Longrightarrow> P"
  by (cases t rule: is_red.cases) auto

lemma red_cases: "is_red t \<Longrightarrow> (\<And>l v r. t = Node Red l v r \<Longrightarrow> P) \<Longrightarrow> P"
  by (cases t rule: is_red.cases) auto

text \<open>One round on a node that is one black short: either the subtree is repaired, or all of it is short.\<close>

lemma erase_fix_left_inv:
  assumes "\<not> is_red t" "invc t" "invh t" "\<not> is_red other" "invc other" "invh other" "bh other = bh t + 1"
    and "erase_fix_left pc t pv other = (t', brk)"
  shows "if brk then invc t' \<and> invh t' \<and> bh t' = bh t + 1 + black_count pc \<and> (is_red t' \<longleftrightarrow> pc = Red)
    else invc (set_black t') \<and> invh t' \<and> bh t' = bh t + black_count pc \<and> is_red t' = (pc = Red)"
proof -
  obtain ol ov orr where o: "other = Node Black ol ov orr"
    using assms(4,7) by (cases other rule: is_red.cases) auto
  show ?thesis
  proof (cases "is_red orr")
    case True
    then obtain a v b where "orr = Node Red a v b" by (rule red_cases)
    then show ?thesis using assms by (cases pc) (auto simp: o is_black_def Let_def)
  next
    case False
    show ?thesis
    proof (cases "is_red ol")
      case True
      then obtain a v b where "ol = Node Red a v b" by (rule red_cases)
      then show ?thesis using assms False by (cases pc) (auto simp: o is_black_def Let_def)
    next
      case ol: False
      then show ?thesis using assms False by (cases pc) (auto simp: o is_black_def)
    qed
  qed
qed

lemma erase_fix_right_inv:
  assumes "\<not> is_red t" "invc t" "invh t" "\<not> is_red other" "invc other" "invh other" "bh other = bh t + 1"
    and "erase_fix_right pc other pv t = (t', brk)"
  shows "if brk then invc t' \<and> invh t' \<and> bh t' = bh t + 1 + black_count pc \<and> (is_red t' \<longleftrightarrow> pc = Red)
    else invc (set_black t') \<and> invh t' \<and> bh t' = bh t + black_count pc \<and> is_red t' = (pc = Red)"
proof -
  obtain ol ov orr where o: "other = Node Black ol ov orr"
    using assms(4,7) by (cases other rule: is_red.cases) auto
  show ?thesis
  proof (cases "is_red ol")
    case True
    then obtain a v b where "ol = Node Red a v b" by (rule red_cases)
    then show ?thesis using assms by (cases pc) (auto simp: o is_black_def Let_def)
  next
    case False
    show ?thesis
    proof (cases "is_red orr")
      case True
      then obtain a v b where "orr = Node Red a v b" by (rule red_cases)
      then show ?thesis using assms False by (cases pc) (auto simp: o is_black_def Let_def)
    next
      case orr: False
      then show ?thesis using assms False by (cases pc) (auto simp: o is_black_def)
    qed
  qed
qed

lemma invc_set_black: "\<not> is_red t \<Longrightarrow> invc (set_black t) = invc t"
  by (cases t rule: is_red.cases) auto

lemma erase_color_inv:
  "invc (set_black t) \<Longrightarrow> invh t \<Longrightarrow> pathc path \<Longrightarrow> pathh path (bh t + 1) \<Longrightarrow> rb_inv (rb_erase_color t path)"
proof (induction t path rule: erase_color_induct)
  case (Nil t)
  then show ?case by (simp add: rb_erase_color_Nil rb_inv_def)
next
  case (node_red t f up)
  then have "rb_inv (plug (set_black t) (f # up))" unfolding rb_inv_plug by simp
  then show ?case using node_red(1) by (simp add: rb_erase_color_is_red del: plug.simps)
next
  case (left_red t pc pv ol ov orr up)
  obtain t' brk where e: "erase_fix_left Red t pv ol = (t', brk)" by fastforce
  have pc: "pc = Black" using left_red(5) by (cases pc) auto
  have t: "invc t" using left_red(1,3) by (simp add: invc_set_black)
  have fx: "if brk then invc t' \<and> invh t' \<and> bh t' = bh t + 1 \<and> is_red t'
    else invc (set_black t') \<and> invh t' \<and> bh t' = bh t \<and> is_red t'"
    using erase_fix_left_inv [OF left_red(1) t left_red(4) _ _ _ _ e] left_red(5,6) by simp
  show ?case
  proof (cases brk)
    case True
    then have "rb_inv (plug t' (FL Black ov orr # up))"
      unfolding rb_inv_plug using fx left_red(5,6) pc by simp
    then show ?thesis unfolding rb_erase_color_red_sibling(1) [OF left_red(1) e] using True by simp
  next
    case False
    have "rb_inv (rb_erase_color t' (FL Black ov orr # up))"
      using left_red(2) [of t'] e False fx left_red(5,6) pc by simp
    then show ?thesis unfolding rb_erase_color_red_sibling(1) [OF left_red(1) e] using False by simp
  qed
next
  case (right_red t pc pv ol ov orr up)
  obtain t' brk where e: "erase_fix_right Red orr pv t = (t', brk)" by fastforce
  have pc: "pc = Black" using right_red(5) by (cases pc) auto
  have t: "invc t" using right_red(1,3) by (simp add: invc_set_black)
  have fx: "if brk then invc t' \<and> invh t' \<and> bh t' = bh t + 1 \<and> is_red t'
    else invc (set_black t') \<and> invh t' \<and> bh t' = bh t \<and> is_red t'"
    using erase_fix_right_inv [OF right_red(1) t right_red(4) _ _ _ _ e] right_red(5,6) by simp
  show ?case
  proof (cases brk)
    case True
    then have "rb_inv (plug t' (FR Black ol ov # up))"
      unfolding rb_inv_plug using fx right_red(5,6) pc by simp
    then show ?thesis unfolding rb_erase_color_red_sibling(2) [OF right_red(1) e] using True by simp
  next
    case False
    have "rb_inv (rb_erase_color t' (FR Black ol ov # up))"
      using right_red(2) [of t'] e False fx right_red(5,6) pc by simp
    then show ?thesis unfolding rb_erase_color_red_sibling(2) [OF right_red(1) e] using False by simp
  qed
next
  case (left_black t pc pv other up)
  obtain t' brk where e: "erase_fix_left pc t pv other = (t', brk)" by fastforce
  have t: "invc t" using left_black(1,4) by (simp add: invc_set_black)
  have fx: "if brk then invc t' \<and> invh t' \<and> bh t' = bh t + 1 + black_count pc \<and> (is_red t' \<longleftrightarrow> pc = Red)
    else invc (set_black t') \<and> invh t' \<and> bh t' = bh t + black_count pc \<and> is_red t' = (pc = Red)"
    using erase_fix_left_inv [OF left_black(1) t left_black(5) left_black(2) _ _ _ e] left_black(6,7) by simp
  show ?case
  proof (cases brk)
    case True
    then have "rb_inv (plug t' up)" unfolding rb_inv_plug using fx left_black(6,7) by simp
    then show ?thesis unfolding rb_erase_color_black_sibling(1) [OF left_black(1,2) e] using True by simp
  next
    case False
    have "rb_inv (rb_erase_color t' up)" using left_black(3) [of t'] e False fx left_black(6,7) by simp
    then show ?thesis unfolding rb_erase_color_black_sibling(1) [OF left_black(1,2) e] using False by simp
  qed
next
  case (right_black t pc pv other up)
  obtain t' brk where e: "erase_fix_right pc other pv t = (t', brk)" by fastforce
  have t: "invc t" using right_black(1,4) by (simp add: invc_set_black)
  have fx: "if brk then invc t' \<and> invh t' \<and> bh t' = bh t + 1 + black_count pc \<and> (is_red t' \<longleftrightarrow> pc = Red)
    else invc (set_black t') \<and> invh t' \<and> bh t' = bh t + black_count pc \<and> is_red t' = (pc = Red)"
    using erase_fix_right_inv [OF right_black(1) t right_black(5) right_black(2) _ _ _ e] right_black(6,7) by simp
  show ?case
  proof (cases brk)
    case True
    then have "rb_inv (plug t' up)" unfolding rb_inv_plug using fx right_black(6,7) by simp
    then show ?thesis unfolding rb_erase_color_black_sibling(2) [OF right_black(1,2) e] using True by simp
  next
    case False
    have "rb_inv (rb_erase_color t' up)" using right_black(3) [of t'] e False fx right_black(6,7) by simp
    then show ?thesis unfolding rb_erase_color_black_sibling(2) [OF right_black(1,2) e] using False by simp
  qed
qed

lemma unlink_inv:
  assumes "invc t" "invh t" "pathc path" "pathh path (bh t + black_count c)" "c = Red \<Longrightarrow> \<not> is_red t"
  shows "rb_inv (unlink c t path)"
proof (cases c)
  case Red
  then show ?thesis using assms by (simp add: unlink_def rb_inv_plug)
next
  case Black
  then show ?thesis using assms erase_color_inv [of t path] by (simp add: unlink_def)
qed

lemma erase_inv:
  assumes "rb_inv (plug (Node c l v r) path)"
  shows "rb_inv (rb_erase (Node c l v r) path)"
proof -
  note inv = assms [unfolded rb_inv_plug]
  show ?thesis
  proof (cases "l = Leaf \<or> r = Leaf")
    case True
    then show ?thesis using inv unlink_inv [of r path c] unlink_inv [of l path c] by auto
  next
    case False
    obtain n inner where lm: "leftmost r [] = (n, inner)" by fastforce
    from leftmost_spec [OF _ lm] False obtain nc nv nr where n: "n = Node nc Leaf nv nr" "plug n inner = r"
      by auto
    have "rb_inv (plug n (inner @ FR c l nv # path))"
      unfolding plug_append n(2) rb_inv_plug using inv by (cases c) auto
    then have "rb_inv (unlink nc nr (inner @ FR c l nv # path))"
      unfolding rb_inv_plug n(1) by (intro unlink_inv) auto
    then show ?thesis using False lm n(1) by simp
  qed
qed

section \<open>Traversal follows the sequence\<close>

text \<open>A location in a tree, with what comes before and after its node.\<close>

fun loc_at :: "'a rbt \<Rightarrow> 'a list \<Rightarrow> 'a \<Rightarrow> 'a list \<Rightarrow> 'a rbt \<times> 'a frame list \<Rightarrow> bool" where
  "loc_at root xs x ys (Node c l v r, path) \<longleftrightarrow>
     plug (Node c l v r) path = root \<and> xs = before path @ inorder l \<and> v = x \<and> ys = inorder r @ after path"
| "loc_at root xs x ys (Leaf, path) = False"

lemma loc_atE:
  assumes "loc_at root xs x ys loc"
  obtains c l r path where "loc = (Node c l x r, path)" "plug (Node c l x r) path = root"
    "xs = before path @ inorder l" "ys = inorder r @ after path"
proof -
  obtain t path where "loc = (t, path)" by fastforce
  then show thesis using assms that by (cases t) auto
qed

lemma loc_at_inorder: "loc_at root xs x ys loc \<Longrightarrow> inorder root = xs @ x # ys"
  by (elim loc_atE) (auto simp: inorder_plug)

lemma climb_next_spec:
  "case climb_next t path of
     None \<Rightarrow> after path = []
   | Some loc \<Rightarrow> \<exists>x ys. after path = x # ys \<and> loc_at (plug t path) (before path @ inorder t) x ys loc"
  by (induction t path rule: climb_next.induct) (auto split: option.splits)

lemma climb_prev_spec:
  "case climb_prev t path of
     None \<Rightarrow> before path = []
   | Some loc \<Rightarrow> \<exists>xs x. before path = xs @ [x] \<and> loc_at (plug t path) xs x (inorder t @ after path) loc"
  by (induction t path rule: climb_prev.induct) (auto split: option.splits)

lemma leftmost_loc:
  assumes "t \<noteq> Leaf"
  shows "\<exists>x ys. inorder t = x # ys \<and> loc_at (plug t path) (before path) x (ys @ after path) (leftmost t path)"
proof -
  obtain n p where lm: "leftmost t path = (n, p)" by fastforce
  from leftmost_spec [OF assms lm] obtain inner c v r where
    i: "p = inner @ path" "n = Node c Leaf v r" "before inner = []" "plug n inner = t" by blast
  have "inorder t = v # inorder r @ after inner" using inorder_plug [of n inner] i by simp
  moreover have "plug n p = plug t path" using i by (simp add: plug_append)
  ultimately show ?thesis unfolding lm using i by (simp add: before_append after_append)
qed

lemma rightmost_loc:
  assumes "t \<noteq> Leaf"
  shows "\<exists>xs x. inorder t = xs @ [x] \<and> loc_at (plug t path) (before path @ xs) x (after path) (rightmost t path)"
proof -
  obtain n p where lm: "rightmost t path = (n, p)" by fastforce
  from rightmost_spec [OF assms lm] obtain inner c v l where
    i: "p = inner @ path" "n = Node c l v Leaf" "after inner = []" "plug n inner = t" by blast
  have "inorder t = (before inner @ inorder l) @ [v]" using inorder_plug [of n inner] i by simp
  moreover have "plug n p = plug t path" using i by (simp add: plug_append)
  ultimately show ?thesis unfolding lm using i by (simp add: before_append after_append)
qed

lemma inorder_Nil [simp]: "inorder t = [] \<longleftrightarrow> t = Leaf"
  by (cases t) auto

lemma rb_next_correct:
  assumes "loc_at root xs x ys loc"
  shows "case rb_next loc of None \<Rightarrow> ys = [] | Some loc' \<Rightarrow> \<exists>y zs. ys = y # zs \<and> loc_at root (xs @ [x]) y zs loc'"
proof -
  obtain c l r path where loc: "loc = (Node c l x r, path)" using assms by (rule loc_atE)
  show ?thesis
  proof (cases "r = Leaf")
    case True
    then show ?thesis using assms climb_next_spec [where t = "Node c l x r" and path = path] loc by (auto split: option.splits)
  next
    case False
    then show ?thesis using assms leftmost_loc [OF False, of "FR c l x # path"] loc by auto
  qed
qed

lemma rb_prev_correct:
  assumes "loc_at root xs x ys loc"
  shows "case rb_prev loc of None \<Rightarrow> xs = [] | Some loc' \<Rightarrow> \<exists>ws w. xs = ws @ [w] \<and> loc_at root ws w (x # ys) loc'"
proof -
  obtain c l r path where loc: "loc = (Node c l x r, path)" using assms by (rule loc_atE)
  show ?thesis
  proof (cases "l = Leaf")
    case True
    then show ?thesis using assms climb_prev_spec [where t = "Node c l x r" and path = path] loc by (auto split: option.splits)
  next
    case False
    then show ?thesis using assms rightmost_loc [OF False, of "FL c x r # path"] loc by auto
  qed
qed

lemma rb_first_correct:
  "case rb_first root of None \<Rightarrow> inorder root = [] | Some loc \<Rightarrow> \<exists>x ys. loc_at root [] x ys loc"
  using leftmost_loc [of root "[]"] by (auto simp: rb_first_def)

lemma rb_last_correct:
  "case rb_last root of None \<Rightarrow> inorder root = [] | Some loc \<Rightarrow> \<exists>xs x. loc_at root xs x [] loc"
  using rightmost_loc [of root "[]"] by (auto simp: rb_last_def)

lemma rb_erase_correct:
  assumes "loc_at root xs x ys loc"
  shows "inorder (rb_erase (fst loc) (snd loc)) = xs @ ys"
    and "rb_inv root \<Longrightarrow> rb_inv (rb_erase (fst loc) (snd loc))"
proof -
  obtain c l r path where loc: "loc = (Node c l x r, path)" "plug (Node c l x r) path = root"
    "xs = before path @ inorder l" "ys = inorder r @ after path" using assms by (rule loc_atE)
  show "inorder (rb_erase (fst loc) (snd loc)) = xs @ ys"
    using inorder_erase [of c l x r path] loc by simp
  show "rb_inv root \<Longrightarrow> rb_inv (rb_erase (fst loc) (snd loc))"
    using erase_inv [of c l x r path] loc by simp
qed

lemma rb_link_insert_correct:
  assumes "plug Leaf path = root"
  shows "inorder (rb_link_insert x path) = before path @ x # after path"
    and "rb_inv root \<Longrightarrow> rb_inv (rb_link_insert x path)"
proof -
  show "inorder (rb_link_insert x path) = before path @ x # after path"
    by (simp add: rb_link_insert_def inorder_insert_color)
  assume "rb_inv root"
  then show "rb_inv (rb_link_insert x path)"
    unfolding rb_link_insert_def using assms rb_inv_plug [of Leaf path] by (intro insert_color_inv) auto
qed

text \<open>\<open>ext2fs_rb_replace_node\<close>: the new node takes over the links and the colour.\<close>

fun rb_replace_node :: "'a rbt \<times> 'a frame list \<Rightarrow> 'a \<Rightarrow> 'a rbt" where
  "rb_replace_node (Node c l v r, path) x = plug (Node c l x r) path"
| "rb_replace_node (Leaf, path) x = plug Leaf path"

section \<open>Properties\<close>

text \<open>
  C19.  Linking a new node at an empty place and rebalancing puts it between what was before and after
  that place, and keeps the red-black invariant: no red node has a red child, all paths have the same
  number of black nodes, the root is black.
\<close>

theorem rb_insert_preserves:
  assumes "rb_inv (plug Leaf path)"
  shows "rb_inv (rb_link_insert x path) \<and> inorder (rb_link_insert x path) = before path @ x # after path"
  using rb_link_insert_correct [OF refl, where x = x] assms by blast

lemma rb_insert_preserves_witness:
  "rb_inv (rb_link_insert (5 :: nat) [FR Red Leaf 4, FR Black (Node Red Leaf 1 Leaf) 2])
   \<and> inorder (rb_link_insert (5 :: nat) [FR Red Leaf 4, FR Black (Node Red Leaf 1 Leaf) 2]) = [1, 2, 4, 5]"
proof -
  have "rb_inv (plug Leaf [FR Red Leaf 4, FR Black (Node Red Leaf (1 :: nat) Leaf) 2])" by (simp add: rb_inv_def)
  from rb_insert_preserves [OF this, of 5] show ?thesis by simp
qed

text \<open>
  C18.  Removing a node, with the successor taking the place of a node with two children, removes
  exactly that node from the sequence and keeps the red-black invariant.
\<close>

theorem rb_erase_preserves:
  assumes "rb_inv root" "loc_at root xs x ys loc"
  shows "rb_inv (rb_erase (fst loc) (snd loc)) \<and> inorder (rb_erase (fst loc) (snd loc)) = xs @ ys"
  using rb_erase_correct [OF assms(2)] assms(1) by blast

lemma rb_erase_preserves_witness:
  "rb_inv (rb_erase (Node Black (Node Black Leaf 1 Leaf) 2 (Node Black Leaf (3 :: nat) (Node Red Leaf 4 Leaf))) [])
   \<and> inorder (rb_erase (Node Black (Node Black Leaf 1 Leaf) 2 (Node Black Leaf (3 :: nat) (Node Red Leaf 4 Leaf))) []) = [1, 3, 4]"
proof -
  let ?t = "Node Black (Node Black Leaf 1 Leaf) 2 (Node Black Leaf (3 :: nat) (Node Red Leaf 4 Leaf))"
  have "rb_inv ?t" "loc_at ?t [1] 2 [3, 4] (?t, [])" by (simp_all add: rb_inv_def)
  from rb_erase_preserves [OF this] show ?thesis by simp
qed

text \<open>
  From a location in a tree, the next and the previous node are the neighbours in the sequence,
  and null exactly at its ends.
\<close>

theorem rb_traversal_correct:
  assumes "loc_at root xs x ys loc"
  shows "(case rb_next loc of None \<Rightarrow> ys = [] | Some loc' \<Rightarrow> \<exists>y zs. ys = y # zs \<and> loc_at root (xs @ [x]) y zs loc')
    \<and> (case rb_prev loc of None \<Rightarrow> xs = [] | Some loc' \<Rightarrow> \<exists>ws w. xs = ws @ [w] \<and> loc_at root ws w (x # ys) loc')"
  using rb_next_correct [OF assms] rb_prev_correct [OF assms] by blast

lemma rb_traversal_correct_witness:
  "rb_next (Node Red Leaf (1 :: nat) Leaf, [FL Black 2 Leaf]) \<noteq> None"
proof -
  have "loc_at (Node Black (Node Red Leaf (1 :: nat) Leaf) 2 Leaf) [] 1 [2] (Node Red Leaf 1 Leaf, [FL Black 2 Leaf])"
    by simp
  from rb_traversal_correct [OF this] show ?thesis by (auto split: option.splits)
qed

end
