(* ===== verification/Bmap_RB.thy ===== *)
theory Bmap_RB
  imports RBTree Bitops Bmap64
begin

text \<open>
  The bitmap back end that keeps the runs of set bits as extents in a red-black tree,
  \<open>lib/ext2fs/blkmap64_rb.c\<close>, with a write cursor and a read cursor to the extents last used and the
  successor of the read cursor.

  A pointer to an extent is its identity \<open>ext_id\<close>: the cursors hold identities, reading through one
  looks the extent up in the tree, and freeing an extent clears the cursors that point to it, as the
  code does.  The starts and counts are offsets from the start of the bitmap; the invariant bounds
  them by \<open>2 ^ 63\<close>, so that no sum of the code wraps around and natural numbers stand for the
  \<open>__u64\<close> values.  A new extent gets an identity that is not in use; the code calls \<open>abort\<close> when
  there is no memory for it.
\<close>

section \<open>The structure\<close>

record rb_ext =
  ext_id :: nat
  ext_start :: nat
  ext_count :: nat

record rb_private =
  rb_root :: "rb_ext rbt"
  rb_wcursor :: "nat option"
  rb_rcursor :: "nat option"
  rb_rcursor_next :: "nat option"

type_synonym rb_bmap = "rb_private bmap64"

abbreviation ext_end :: "rb_ext \<Rightarrow> nat" where
  "ext_end e \<equiv> ext_start e + ext_count e"

section \<open>Pointers to extents\<close>

fun find_loc :: "nat \<Rightarrow> rb_ext rbt \<Rightarrow> rb_ext frame list \<Rightarrow> (rb_ext rbt \<times> rb_ext frame list) option" where
  "find_loc i Leaf path = None"
| "find_loc i (Node c l e r) path =
     (if ext_id e = i then Some (Node c l e r, path)
      else case find_loc i l (FL c e r # path) of
             Some loc \<Rightarrow> Some loc
           | None \<Rightarrow> find_loc i r (FR c l e # path))"

fun node_ext :: "rb_ext rbt \<times> rb_ext frame list \<Rightarrow> rb_ext option" where
  "node_ext (Node c l e r, path) = Some e"
| "node_ext (Leaf, path) = None"

definition ext_of :: "rb_ext rbt \<Rightarrow> nat \<Rightarrow> rb_ext option" where
  "ext_of root i = Option.bind (find_loc i root []) node_ext"

definition next_id :: "rb_ext rbt \<Rightarrow> nat \<Rightarrow> nat option" where
  "next_id root i = map_option ext_id (Option.bind (Option.bind (find_loc i root []) rb_next) node_ext)"

definition prev_id :: "rb_ext rbt \<Rightarrow> nat \<Rightarrow> nat option" where
  "prev_id root i = map_option ext_id (Option.bind (Option.bind (find_loc i root []) rb_prev) node_ext)"

definition first_id :: "rb_ext rbt \<Rightarrow> nat option" where
  "first_id root = map_option ext_id (Option.bind (rb_first root) node_ext)"

definition last_id :: "rb_ext rbt \<Rightarrow> nat option" where
  "last_id root = map_option ext_id (Option.bind (rb_last root) node_ext)"

definition erase_id :: "nat \<Rightarrow> rb_ext rbt \<Rightarrow> rb_ext rbt" where
  "erase_id i root = (case find_loc i root [] of Some (n, path) \<Rightarrow> rb_erase n path | None \<Rightarrow> root)"

text \<open>Writing the fields of an extent through a pointer to it.\<close>

definition write_ext :: "nat \<Rightarrow> nat \<Rightarrow> nat \<Rightarrow> rb_ext rbt \<Rightarrow> rb_ext rbt" where
  "write_ext i s c root = map_rbt (\<lambda>e. if ext_id e = i then e\<lparr>ext_start := s, ext_count := c\<rparr> else e) root"

definition fresh_id :: "rb_ext rbt \<Rightarrow> nat" where
  "fresh_id root = Suc (sum_list (map ext_id (inorder root)))"

text \<open>\<open>ext2fs_rb_erase\<close> followed by \<open>rb_free_extent\<close>.\<close>

definition rb_free_extent :: "nat \<Rightarrow> rb_private \<Rightarrow> rb_private" where
  "rb_free_extent i bp =
     bp\<lparr>rb_wcursor := (if rb_wcursor bp = Some i then None else rb_wcursor bp),
        rb_rcursor := (if rb_rcursor bp = Some i then None else rb_rcursor bp),
        rb_rcursor_next := (if rb_rcursor_next bp = Some i then None else rb_rcursor_next bp)\<rparr>"

definition erase_free :: "nat \<Rightarrow> rb_private \<Rightarrow> rb_private" where
  "erase_free i bp = rb_free_extent i (bp\<lparr>rb_root := erase_id i (rb_root bp)\<rparr>)"

section \<open>Insertion of an extent\<close>

text \<open>The descent to an extent that the new one overlaps or touches, or to an empty place.\<close>

fun ins_descend :: "nat \<Rightarrow> rb_ext rbt \<Rightarrow> rb_ext frame list \<Rightarrow> rb_ext + rb_ext frame list" where
  "ins_descend start Leaf path = Inr path"
| "ins_descend start (Node c l e r) path =
     (if start < ext_start e then ins_descend start l (FL c e r # path)
      else if start > ext_end e then ins_descend start r (FR c l e # path)
      else Inl e)"

text \<open>
  The loop at \<open>skip_insert\<close> that swallows the extents to the right; \<open>count\<close> grows when the last one
  reaches beyond.  The fuel is the number of extents, one for each round.
\<close>

fun merge_right :: "nat \<Rightarrow> rb_private \<Rightarrow> nat \<Rightarrow> nat \<Rightarrow> nat option \<Rightarrow> rb_private \<times> nat" where
  "merge_right 0 bp start count node = (bp, count)"
| "merge_right (Suc k) bp start count node =
     (case node of
        None \<Rightarrow> (bp, count)
      | Some i \<Rightarrow>
          let nxt = next_id (rb_root bp) i in
          (case ext_of (rb_root bp) i of
             None \<Rightarrow> (bp, count)
           | Some ext \<Rightarrow>
               if ext_end ext \<le> start then merge_right k bp start count nxt
               else if start + count < ext_start ext then (bp, count)
               else if start + count \<ge> ext_end ext then merge_right k (erase_free i bp) start count nxt
               else (erase_free i bp, count + (ext_end ext - (start + count)))))"

definition ins_finish :: "nat \<Rightarrow> nat \<Rightarrow> nat \<Rightarrow> rb_private \<Rightarrow> rb_private" where
  "ins_finish i start count bp =
     (case merge_right (length (inorder (rb_root bp))) bp start count (next_id (rb_root bp) i) of
        (bp', count') \<Rightarrow> bp'\<lparr>rb_root := write_ext i start count' (rb_root bp')\<rparr>)"

text \<open>The label \<open>got_extent\<close>, and the case of a new extent.\<close>

definition ins_got :: "nat \<Rightarrow> nat \<Rightarrow> rb_ext \<Rightarrow> rb_private \<Rightarrow> u32 \<times> rb_private" where
  "ins_got start count ext bp =
     (if start + count \<le> ext_end ext then (1, bp)
      else (if ext_end ext = start then 0 else 1,
            ins_finish (ext_id ext) (ext_start ext) (count + (start - ext_start ext)) bp))"

definition ins_new :: "nat \<Rightarrow> nat \<Rightarrow> rb_ext frame list \<Rightarrow> rb_private \<Rightarrow> u32 \<times> rb_private" where
  "ins_new start count path bp =
     (let i = fresh_id (rb_root bp);
          root = rb_link_insert \<lparr>ext_id = i, ext_start = start, ext_count = count\<rparr> path;
          bp1 = bp\<lparr>rb_root := root, rb_wcursor := Some i\<rparr>;
          (bp2, start2, count2) =
            (case prev_id root i of
               None \<Rightarrow> (bp1, start, count)
             | Some p \<Rightarrow> (case ext_of root p of
                 None \<Rightarrow> (bp1, start, count)
               | Some ext \<Rightarrow>
                   if ext_end ext = start then (erase_free p bp1, ext_start ext, count + ext_count ext)
                   else (bp1, start, count)))
      in (0, ins_finish i start2 count2 bp2))"

definition ins_tree :: "nat \<Rightarrow> nat \<Rightarrow> rb_private \<Rightarrow> u32 \<times> rb_private" where
  "ins_tree start count bp =
     (case ins_descend start (rb_root bp) [] of
        Inl ext \<Rightarrow> ins_got start count ext bp
      | Inr path \<Rightarrow> ins_new start count path bp)"

definition rb_insert_extent :: "nat \<Rightarrow> nat \<Rightarrow> rb_private \<Rightarrow> u32 \<times> rb_private" where
  "rb_insert_extent start count bp0 =
     (if count = 0 then (0, bp0)
      else let bp = bp0\<lparr>rb_rcursor_next := None\<rparr> in
           case Option.bind (rb_wcursor bp) (ext_of (rb_root bp)) of
             Some ext \<Rightarrow> if start \<ge> ext_start ext \<and> start \<le> ext_end ext then ins_got start count ext bp
                        else ins_tree start count bp
           | None \<Rightarrow> ins_tree start count bp)"

section \<open>Removal of an extent\<close>

text \<open>The loop that deletes and truncates extents on the right; one unit of fuel a round.\<close>

fun rm_right :: "nat \<Rightarrow> rb_private \<Rightarrow> nat \<Rightarrow> nat \<Rightarrow> nat option \<Rightarrow> u32 \<Rightarrow> u32 \<times> rb_private" where
  "rm_right 0 bp start count parent retval = (retval, bp)"
| "rm_right (Suc k) bp start count parent retval =
     (case parent of
        None \<Rightarrow> (retval, bp)
      | Some i \<Rightarrow>
          let node = next_id (rb_root bp) i in
          (case ext_of (rb_root bp) i of
             None \<Rightarrow> (retval, bp)
           | Some ext \<Rightarrow>
               if ext_end ext \<le> start then rm_right k bp start count node retval
               else if start + count < ext_start ext then (retval, bp)
               else if start + count \<ge> ext_end ext then rm_right k (erase_free i bp) start count node 1
               else (1, bp\<lparr>rb_root := write_ext i (start + count)
                              (ext_count ext - (start + count - ext_start ext)) (rb_root bp)\<rparr>)))"

text \<open>
  The descent, which already changes the extent it finds around \<open>start\<close>.  When that extent is cut
  off at \<open>start\<close>, the next round of the loop finds \<open>start\<close> at its new end and goes right.
\<close>

fun rm_descend :: "nat \<Rightarrow> nat \<Rightarrow> rb_ext rbt \<Rightarrow> nat option \<Rightarrow> rb_private \<Rightarrow> u32 \<Rightarrow> u32 \<times> rb_private" where
  "rm_descend start count Leaf parent bp retval =
     rm_right (length (inorder (rb_root bp))) bp start count parent retval"
| "rm_descend start count (Node c l ext r) parent bp retval =
     (if start < ext_start ext then rm_descend start count l (Some (ext_id ext)) bp retval
      else if start \<ge> ext_end ext then rm_descend start count r (Some (ext_id ext)) bp retval
      else if start > ext_start ext \<and> start + count < ext_end ext
      then (1, snd (rb_insert_extent (start + count) (ext_end ext - (start + count))
                 (bp\<lparr>rb_root := write_ext (ext_id ext) (ext_start ext) (start - ext_start ext) (rb_root bp)\<rparr>)))
      else let cut = start + count \<ge> ext_end ext;
               cnt = (if cut then start - ext_start ext else ext_count ext);
               retval' = (if cut then 1 else retval);
               bp' = (if cut then bp\<lparr>rb_root := write_ext (ext_id ext) (ext_start ext) cnt (rb_root bp)\<rparr> else bp)
           in if cnt = 0
              then rm_right (length (inorder (rb_root bp'))) (erase_free (ext_id ext) bp') start count
                     (next_id (rb_root bp') (ext_id ext)) retval'
              else if start = ext_start ext
              then (1, bp'\<lparr>rb_root := write_ext (ext_id ext) (ext_start ext + count) (cnt - count) (rb_root bp')\<rparr>)
              else rm_descend start count r (Some (ext_id ext)) bp' retval')"

definition rb_remove_extent :: "nat \<Rightarrow> nat \<Rightarrow> rb_private \<Rightarrow> u32 \<times> rb_private" where
  "rb_remove_extent start count bp =
     (if rb_root bp = Leaf then (0, bp) else rm_descend start count (rb_root bp) None bp 0)"

section \<open>Tests and searches\<close>

text \<open>The descent of the functions that only look: the extent around \<open>start\<close>, or the last node visited.\<close>

fun find_descend :: "nat \<Rightarrow> rb_ext rbt \<Rightarrow> nat option \<Rightarrow> rb_ext + nat option" where
  "find_descend start Leaf parent = Inr parent"
| "find_descend start (Node c l e r) parent =
     (if start < ext_start e then find_descend start l (Some (ext_id e))
      else if start \<ge> ext_end e then find_descend start r (Some (ext_id e))
      else Inl e)"

definition rb_search_tree :: "nat \<Rightarrow> rb_private \<Rightarrow> u32 \<times> rb_private" where
  "rb_search_tree n bp =
     (case find_descend n (rb_root bp) None of
        Inl e \<Rightarrow> (1, bp\<lparr>rb_rcursor := Some (ext_id e), rb_rcursor_next := None\<rparr>)
      | Inr p \<Rightarrow> (0, bp))"

text \<open>\<open>rb_test_bit\<close> after the read cursor missed: the write cursor, then the tree.\<close>

definition rb_test_wcursor :: "nat \<Rightarrow> rb_private \<Rightarrow> u32 \<times> rb_private" where
  "rb_test_wcursor n bp =
     (case Option.bind (rb_wcursor bp) (ext_of (rb_root bp)) of
        None \<Rightarrow> rb_search_tree n bp
      | Some w \<Rightarrow> if n \<ge> ext_start w \<and> n < ext_end w then (1, bp) else rb_search_tree n bp)"

definition rb_test_bit :: "rb_private \<Rightarrow> nat \<Rightarrow> u32 \<times> rb_private" where
  "rb_test_bit bp n =
     (case Option.bind (rb_rcursor bp) (ext_of (rb_root bp)) of
        None \<Rightarrow> rb_search_tree n bp
      | Some rc \<Rightarrow>
          if n \<ge> ext_start rc \<and> n < ext_end rc then (1, bp)
          else let nxt = (case rb_rcursor_next bp of Some j \<Rightarrow> Some j
                          | None \<Rightarrow> next_id (rb_root bp) (ext_id rc));
                   bp1 = bp\<lparr>rb_rcursor_next := nxt\<rparr>
               in (case Option.bind nxt (ext_of (rb_root bp)) of
                     Some next_ext \<Rightarrow>
                       if n \<ge> ext_end rc \<and> n < ext_start next_ext then (0, bp1)
                       else rb_test_wcursor n (bp1\<lparr>rb_rcursor := None, rb_rcursor_next := None\<rparr>)
                   | None \<Rightarrow> rb_test_wcursor n (bp1\<lparr>rb_rcursor := None, rb_rcursor_next := None\<rparr>)))"

text \<open>The loop of \<open>rb_test_clear_bmap_extent\<close> to the right of the last node visited.\<close>

fun clean_right :: "nat \<Rightarrow> rb_ext rbt \<Rightarrow> nat \<Rightarrow> nat \<Rightarrow> nat option \<Rightarrow> bool" where
  "clean_right 0 root start len node = True"
| "clean_right (Suc k) root start len node =
     (case node of
        None \<Rightarrow> True
      | Some i \<Rightarrow> (case ext_of root i of
          None \<Rightarrow> True
        | Some ext \<Rightarrow>
            if ext_end ext \<le> start then clean_right k root start len (next_id root i)
            else if start + len \<le> ext_start ext then True
            else False))"

definition rb_test_clear :: "rb_private \<Rightarrow> nat \<Rightarrow> nat \<Rightarrow> bool" where
  "rb_test_clear bp start len =
     (if len = 0 \<or> rb_root bp = Leaf then True
      else case find_descend start (rb_root bp) None of
             Inl e \<Rightarrow> False
           | Inr parent \<Rightarrow> clean_right (length (inorder (rb_root bp))) (rb_root bp) start len parent)"

definition rb_first_zero :: "rb_private \<Rightarrow> nat \<Rightarrow> nat \<Rightarrow> errcode + nat" where
  "rb_first_zero bp start en =
     (if start > en then Inl EINVAL
      else if rb_root bp = Leaf then Inl ENOENT
      else case find_descend start (rb_root bp) None of
             Inl ext \<Rightarrow> if ext_end ext \<le> en then Inr (ext_end ext) else Inl ENOENT
           | Inr p \<Rightarrow> Inr start)"

definition rb_first_set :: "rb_private \<Rightarrow> nat \<Rightarrow> nat \<Rightarrow> errcode + nat" where
  "rb_first_set bp start en =
     (if start > en then Inl EINVAL
      else if rb_root bp = Leaf then Inl ENOENT
      else case find_descend start (rb_root bp) None of
             Inl ext \<Rightarrow> Inr start
           | Inr parent \<Rightarrow>
               (case Option.bind parent (ext_of (rb_root bp)) of
                  None \<Rightarrow> Inl ENOENT
                | Some ext \<Rightarrow>
                    (case (if ext_start ext < start then Option.bind (next_id (rb_root bp) (ext_id ext)) (ext_of (rb_root bp))
                           else Some ext) of
                       None \<Rightarrow> Inl ENOENT
                     | Some e \<Rightarrow> if ext_start e \<le> en then Inr (ext_start e) else Inl ENOENT)))"

section \<open>Whole trees\<close>

fun free_tree :: "nat \<Rightarrow> rb_ext rbt \<Rightarrow> nat option \<Rightarrow> rb_ext rbt" where
  "free_tree 0 root node = root"
| "free_tree (Suc k) root node =
     (case node of
        None \<Rightarrow> root
      | Some i \<Rightarrow> let nxt = next_id root i in free_tree k (erase_id i root) nxt)"

definition rb_free_tree :: "rb_ext rbt \<Rightarrow> rb_ext rbt" where
  "rb_free_tree root = free_tree (length (inorder root)) root (first_id root)"

fun truncate_loop :: "nat \<Rightarrow> nat \<Rightarrow> rb_ext rbt \<Rightarrow> rb_ext rbt" where
  "truncate_loop 0 new_max root = root"
| "truncate_loop (Suc k) new_max root =
     (case last_id root of
        None \<Rightarrow> root
      | Some i \<Rightarrow> (case ext_of root i of
          None \<Rightarrow> root
        | Some ext \<Rightarrow>
            if ext_end ext - 1 \<le> new_max then root
            else if ext_start ext > new_max then truncate_loop k new_max (erase_id i root)
            else truncate_loop k new_max (write_ext i (ext_start ext) (new_max - ext_start ext + 1) root)))"

definition rb_truncate :: "nat \<Rightarrow> rb_ext rbt \<Rightarrow> rb_ext rbt" where
  "rb_truncate new_max root = truncate_loop (Suc (length (inorder root))) new_max root"

text \<open>\<open>rb_copy_bmap\<close> links a copy of each extent to the right of the last node of the new tree.\<close>

definition link_last :: "rb_ext \<Rightarrow> rb_ext rbt \<Rightarrow> rb_ext rbt" where
  "link_last e root =
     (case rb_last root of
        None \<Rightarrow> rb_link_insert e []
      | Some (Node c l v r, path) \<Rightarrow> rb_link_insert e (FR c l v # path)
      | Some (Leaf, path) \<Rightarrow> root)"

fun copy_loop :: "nat \<Rightarrow> malloc \<Rightarrow> rb_ext rbt \<Rightarrow> nat option \<Rightarrow> rb_ext rbt \<Rightarrow> errcode + rb_ext rbt" where
  "copy_loop 0 mal src node dest = Inr dest"
| "copy_loop (Suc k) mal src node dest =
     (case node of
        None \<Rightarrow> Inr dest
      | Some i \<Rightarrow>
          if \<not> mal 40 then Inl EXT2_ET_NO_MEMORY
          else (case ext_of src i of
                  None \<Rightarrow> Inr dest
                | Some e \<Rightarrow> copy_loop k mal src (next_id src i) (link_last (e\<lparr>ext_id := fresh_id dest\<rparr>) dest)))"

section \<open>The operations of the back end\<close>

definition rb_with_private :: "'q bmap64 \<Rightarrow> 'p \<Rightarrow> 'p bmap64" where
  "rb_with_private b p = \<lparr>bm_magic = bm_magic b, bm_flags = bm_flags b, bm_start = bm_start b, bm_end = bm_end b,
     bm_real_end = bm_real_end b, bm_cluster_bits = bm_cluster_bits b, bm_private = p\<rparr>"

definition rb_empty_private :: rb_private where
  "rb_empty_private = \<lparr>rb_root = Leaf, rb_wcursor = None, rb_rcursor = None, rb_rcursor_next = None\<rparr>"

definition rb_new_bmap :: "malloc \<Rightarrow> rb_private option bmap64 \<Rightarrow> errcode + rb_bmap" where
  "rb_new_bmap mal bitmap =
     (if \<not> mal 32 then Inl EXT2_ET_NO_MEMORY else Inr (rb_with_private bitmap rb_empty_private))"

definition rb_copy_bmap :: "malloc \<Rightarrow> rb_bmap \<Rightarrow> rb_private option bmap64 \<Rightarrow> errcode + rb_bmap \<times> rb_bmap" where
  "rb_copy_bmap mal src dest =
     (if \<not> mal 32 then Inl EXT2_ET_NO_MEMORY
      else let sroot = rb_root (bm_private src);
               src1 = src\<lparr>bm_private := (bm_private src)\<lparr>rb_rcursor := None\<rparr>\<rparr>
           in (case copy_loop (length (inorder sroot)) mal sroot (first_id sroot) Leaf of
                 Inl e \<Rightarrow> Inl e
               | Inr droot \<Rightarrow> Inr (src1, rb_with_private dest (rb_empty_private\<lparr>rb_root := droot\<rparr>))))"

definition rb_resize_bmap :: "malloc \<Rightarrow> rb_bmap \<Rightarrow> u64 \<Rightarrow> u64 \<Rightarrow> errcode option \<times> rb_bmap" where
  "rb_resize_bmap mal bmap new_end new_real_end =
     (let bp = (bm_private bmap)\<lparr>rb_rcursor := None, rb_wcursor := None\<rparr>;
          lim = unat ((if new_end < bm_end bmap then new_end else bm_end bmap) - bm_start bmap);
          bp1 = bp\<lparr>rb_root := rb_truncate lim (rb_root bp)\<rparr>;
          bp2 = (if new_end < new_real_end
                 then snd (rb_insert_extent (unat (new_end + 1 - bm_start bmap)) (unat (new_real_end - new_end)) bp1)
                 else bp1)
      in (None, bmap\<lparr>bm_end := new_end, bm_real_end := new_real_end, bm_private := bp2\<rparr>))"

definition rb_mark_bmap :: "rb_bmap \<Rightarrow> u64 \<Rightarrow> u32 \<times> rb_bmap" where
  "rb_mark_bmap bitmap arg =
     (case rb_insert_extent (unat (arg - bm_start bitmap)) 1 (bm_private bitmap) of
        (r, bp) \<Rightarrow> (r, bitmap\<lparr>bm_private := bp\<rparr>))"

definition rb_unmark_bmap :: "rb_bmap \<Rightarrow> u64 \<Rightarrow> u32 \<times> rb_bmap" where
  "rb_unmark_bmap bitmap arg =
     (case rb_remove_extent (unat (arg - bm_start bitmap)) 1 (bm_private bitmap) of
        (r, bp) \<Rightarrow> (r, bitmap\<lparr>bm_private := bp\<rparr>))"

definition rb_test_bmap :: "rb_bmap \<Rightarrow> u64 \<Rightarrow> u32 \<times> rb_bmap" where
  "rb_test_bmap bitmap arg =
     (case rb_test_bit (bm_private bitmap) (unat (arg - bm_start bitmap)) of
        (r, bp) \<Rightarrow> (r, bitmap\<lparr>bm_private := bp\<rparr>))"

definition rb_mark_bmap_extent :: "rb_bmap \<Rightarrow> u64 \<Rightarrow> u32 \<Rightarrow> rb_bmap" where
  "rb_mark_bmap_extent bitmap arg num =
     bitmap\<lparr>bm_private := snd (rb_insert_extent (unat (arg - bm_start bitmap)) (unat num) (bm_private bitmap))\<rparr>"

definition rb_unmark_bmap_extent :: "rb_bmap \<Rightarrow> u64 \<Rightarrow> u32 \<Rightarrow> rb_bmap" where
  "rb_unmark_bmap_extent bitmap arg num =
     bitmap\<lparr>bm_private := snd (rb_remove_extent (unat (arg - bm_start bitmap)) (unat num) (bm_private bitmap))\<rparr>"

definition rb_test_clear_bmap_extent :: "rb_bmap \<Rightarrow> u64 \<Rightarrow> u32 \<Rightarrow> bool" where
  "rb_test_clear_bmap_extent bitmap start len =
     rb_test_clear (bm_private bitmap) (unat (start - bm_start bitmap)) (unat len)"

text \<open>
  \<open>rb_set_bmap_range\<close>: runs of set bits of the buffer become extents; whole bytes of ones, and of
  zeros outside a run, are skipped.  \<open>first_set\<close> is -1 (\<open>None\<close>) outside a run.  \<open>base\<close> is
  \<open>start - bitmap->start\<close>.
\<close>

function set_range_loop :: "nat \<Rightarrow> nat \<Rightarrow> u8 list \<Rightarrow> nat \<Rightarrow> nat option \<Rightarrow> rb_private \<Rightarrow> rb_private" where
  "set_range_loop base num inp i first_set bp =
     (if i < num
      then if i mod 8 = 0 \<and> inp ! (i div 8) = 0xff
           then set_range_loop base num inp (i + 8) (if first_set = None then Some i else first_set) bp
           else if i mod 8 = 0 \<and> inp ! (i div 8) = 0 \<and> first_set = None
           then set_range_loop base num inp (i + 8) first_set bp
           else if ext2fs_test_bit (of_nat i) inp \<noteq> 0
           then set_range_loop base num inp (i + 1) (if first_set = None then Some i else first_set) bp
           else (case first_set of
                   None \<Rightarrow> set_range_loop base num inp (i + 1) None bp
                 | Some f \<Rightarrow> set_range_loop base num inp (i + 1) None
                              (snd (rb_insert_extent (base + f) (i - f) bp)))
      else (case first_set of
              None \<Rightarrow> bp
            | Some f \<Rightarrow> snd (rb_insert_extent (base + f) (num - f) bp)))"
  by pat_completeness auto
termination by (relation "measure (\<lambda>(base, num, inp, i, first_set, bp). num - i)") auto

declare set_range_loop.simps [simp del]

definition rb_set_bmap_range :: "rb_bmap \<Rightarrow> u64 \<Rightarrow> nat \<Rightarrow> u8 list \<Rightarrow> rb_bmap" where
  "rb_set_bmap_range bitmap start num inp =
     bitmap\<lparr>bm_private := set_range_loop (unat (start - bm_start bitmap)) num inp 0 None (bm_private bitmap)\<rparr>"

text \<open>The loops of \<open>rb_get_bmap_range\<close>; \<open>pos\<close> is relative to \<open>start\<close> in the inner one.\<close>

function fill_out :: "nat \<Rightarrow> nat \<Rightarrow> u8 list \<Rightarrow> u8 list" where
  "fill_out pos count out =
     (if count > 0
      then if count \<ge> 8 \<and> pos mod 8 = 0
           then let nbytes = count div 8; offset = pos div 8
                in fill_out (pos + 8 * nbytes) (count - 8 * nbytes)
                     (take offset out @ replicate nbytes 0xff @ drop (offset + nbytes) out)
           else fill_out (pos + 1) (count - 1) (ext2fs_fast_set_bit64 (of_nat pos) out)
      else out)"
  by pat_completeness auto
termination by (relation "measure (\<lambda>(pos, count, out). count)") auto

declare fill_out.simps [simp del]

definition get_extent :: "nat \<Rightarrow> nat \<Rightarrow> rb_ext \<Rightarrow> u8 list \<Rightarrow> u8 list" where
  "get_extent start num ext out =
     (let pos = (if ext_start ext < start then start else ext_start ext);
          count0 = (if ext_start ext < start then ext_count ext - (start - ext_start ext) else ext_count ext);
          count = (if pos + count0 > start + num then start + num - pos else count0)
      in fill_out (pos - start) count out)"

fun get_right :: "nat \<Rightarrow> rb_ext rbt \<Rightarrow> nat \<Rightarrow> nat \<Rightarrow> nat option \<Rightarrow> u8 list \<Rightarrow> u8 list" where
  "get_right 0 root start num parent out = out"
| "get_right (Suc k) root start num parent out =
     (case parent of
        None \<Rightarrow> out
      | Some i \<Rightarrow> (case ext_of root i of
          None \<Rightarrow> out
        | Some ext \<Rightarrow>
            if ext_start ext \<ge> start + num then out
            else if ext_start ext < start \<and> ext_end ext < start
            then get_right k root start num (next_id root i) out
            else get_right k root start num (next_id root i) (get_extent start num ext out)))"

definition rb_get_bmap_range :: "rb_bmap \<Rightarrow> u64 \<Rightarrow> nat \<Rightarrow> u8 list \<Rightarrow> u8 list" where
  "rb_get_bmap_range bitmap start num out =
     (let root = rb_root (bm_private bitmap); s = unat (start - bm_start bitmap) in
      if root = Leaf then out
      else let parent = (case find_descend s root None of Inl e \<Rightarrow> Some (ext_id e) | Inr p \<Rightarrow> p);
               n = (num + 7) div 8
           in get_right (length (inorder root)) root s num parent (replicate n 0 @ drop n out))"

definition rb_clear_bmap :: "rb_bmap \<Rightarrow> rb_bmap" where
  "rb_clear_bmap bitmap =
     bitmap\<lparr>bm_private := \<lparr>rb_root = rb_free_tree (rb_root (bm_private bitmap)),
                           rb_wcursor = None, rb_rcursor = None, rb_rcursor_next = None\<rparr>\<rparr>"

text \<open>The extents that \<open>rb_free_bmap\<close> leaves behind when it releases the tree and the private data.\<close>

definition rb_free_bmap :: "rb_bmap \<Rightarrow> rb_ext list" where
  "rb_free_bmap bitmap = inorder (rb_free_tree (rb_root (bm_private bitmap)))"

definition rb_find_first_zero :: "rb_bmap \<Rightarrow> u64 \<Rightarrow> u64 \<Rightarrow> errcode + u64" where
  "rb_find_first_zero bitmap start en =
     map_sum id (\<lambda>n. of_nat n + bm_start bitmap)
       (rb_first_zero (bm_private bitmap) (unat (start - bm_start bitmap)) (unat (en - bm_start bitmap)))"

definition rb_find_first_set :: "rb_bmap \<Rightarrow> u64 \<Rightarrow> u64 \<Rightarrow> errcode + u64" where
  "rb_find_first_set bitmap start en =
     map_sum id (\<lambda>n. of_nat n + bm_start bitmap)
       (rb_first_set (bm_private bitmap) (unat (start - bm_start bitmap)) (unat (en - bm_start bitmap)))"

text \<open>\<open>struct ext2_bitmap_ops ext2fs_blkmap64_rbtree\<close>.\<close>

definition ext2fs_blkmap64_rbtree :: "rb_private bitmap_ops" where
  "ext2fs_blkmap64_rbtree =
     \<lparr>op_new_bmap = rb_new_bmap, op_copy_bmap = rb_copy_bmap, op_resize_bmap = rb_resize_bmap,
      op_mark_bmap = rb_mark_bmap, op_unmark_bmap = rb_unmark_bmap, op_test_bmap = rb_test_bmap,
      op_mark_bmap_extent = rb_mark_bmap_extent, op_unmark_bmap_extent = rb_unmark_bmap_extent,
      op_test_clear_bmap_extent = rb_test_clear_bmap_extent,
      op_set_bmap_range = rb_set_bmap_range, op_get_bmap_range = rb_get_bmap_range,
      op_clear_bmap = rb_clear_bmap,
      op_find_first_zero = Some rb_find_first_zero, op_find_first_set = Some rb_find_first_set\<rparr>"

section \<open>Pointers and the sequence of extents\<close>

text \<open>
  The lemmas of this section turn the operations through pointers into operations on the in-order
  sequence, in which identities are distinct.
\<close>

abbreviation "seq root \<equiv> inorder root"
abbreviation "ids es \<equiv> map ext_id es"

lemma find_loc_None: "find_loc i t path = None \<longleftrightarrow> i \<notin> set (ids (seq t))"
  by (induction i t path rule: find_loc.induct) (auto split: option.splits)

lemma find_loc_Some:
  "find_loc i t path = Some loc \<Longrightarrow> \<exists>xs e ys. ext_id e = i \<and> loc_at (plug t path) xs e ys loc"
  by (induction i t path rule: find_loc.induct) (auto split: if_splits option.splits)

lemma distinct_split_unique:
  assumes "xs @ x # ys = xs' @ x' # ys'" "f x = f x'" "distinct (map f (xs @ x # ys))"
  shows "xs = xs' \<and> x = x' \<and> ys = ys'"
proof -
  have "x \<notin> set xs" "x' \<notin> set xs'"
    using assms(3) assms(3) [unfolded assms(1)] by auto
  have "x' = x"
  proof -
    have "x \<in> set (xs @ x # ys)" by simp
    moreover have "x' \<in> set (xs @ x # ys)" unfolding assms(1) by simp
    ultimately show ?thesis using assms(2,3) unfolding distinct_map inj_on_def by metis
  qed
  moreover have "x \<notin> set ys" using assms(3) by auto
  ultimately show ?thesis using assms(1) \<open>x \<notin> set xs\<close> \<open>x' \<notin> set xs'\<close>
    append_Cons_eq_iff [of x xs ys xs' ys'] by simp
qed

lemma find_loc_at:
  assumes "seq root = xs @ e # ys" "distinct (ids (seq root))" "ext_id e = i"
  obtains loc where "find_loc i root [] = Some loc" "loc_at root xs e ys loc"
proof -
  have "i \<in> set (ids (seq root))" using assms(1,3) by auto
  then obtain loc where l: "find_loc i root [] = Some loc" using find_loc_None [of i root "[]"] by auto
  from find_loc_Some [OF l] obtain xs' e' ys' where e': "ext_id e' = i" "loc_at root xs' e' ys' loc" by auto
  have "xs @ e # ys = xs' @ e' # ys'" using loc_at_inorder [OF e'(2)] assms(1) by simp
  from distinct_split_unique [OF this, of ext_id] assms e' have "xs = xs' \<and> e = e' \<and> ys = ys'" by simp
  then show thesis using that l e' by blast
qed

lemma node_ext_at: "loc_at root xs e ys loc \<Longrightarrow> node_ext loc = Some e"
  by (elim loc_atE) simp

lemma ext_of_at:
  "seq root = xs @ e # ys \<Longrightarrow> distinct (ids (seq root)) \<Longrightarrow> ext_id e = i \<Longrightarrow> ext_of root i = Some e"
  by (elim find_loc_at, assumption+) (simp add: ext_of_def node_ext_at)

lemma ext_of_None: "ext_of root i = None \<longleftrightarrow> i \<notin> set (ids (seq root))"
proof (cases "find_loc i root []")
  case None
  then show ?thesis using find_loc_None [of i root "[]"] by (simp add: ext_of_def)
next
  case (Some loc)
  then have "node_ext loc \<noteq> None" using find_loc_Some [OF Some] node_ext_at by fastforce
  then show ?thesis using Some find_loc_None [of i root "[]"] by (simp add: ext_of_def)
qed

lemma ext_of_Some:
  assumes "ext_of root i = Some e" shows "\<exists>xs ys. seq root = xs @ e # ys \<and> ext_id e = i"
proof -
  obtain loc where l: "find_loc i root [] = Some loc" "node_ext loc = Some e"
    using assms by (auto simp: ext_of_def Option.bind_eq_Some_conv)
  from find_loc_Some [OF l(1)] obtain xs e' ys where e': "ext_id e' = i" "loc_at root xs e' ys loc" by auto
  then have "e' = e" using node_ext_at [OF e'(2)] l(2) by simp
  then show ?thesis using e' loc_at_inorder [OF e'(2)] by auto
qed

lemma next_id_at:
  assumes "seq root = xs @ e # ys" "distinct (ids (seq root))" "ext_id e = i"
  shows "next_id root i = (case ys of [] \<Rightarrow> None | y # zs \<Rightarrow> Some (ext_id y))"
proof -
  obtain loc where l: "find_loc i root [] = Some loc" "loc_at root xs e ys loc" by (rule find_loc_at [OF assms])
  show ?thesis using rb_next_correct [OF l(2)] l(1)
    by (auto simp: next_id_def split: option.splits dest: node_ext_at)
qed

lemma prev_id_at:
  assumes "seq root = xs @ e # ys" "distinct (ids (seq root))" "ext_id e = i"
  shows "prev_id root i = (if xs = [] then None else Some (ext_id (last xs)))"
proof -
  obtain loc where l: "find_loc i root [] = Some loc" "loc_at root xs e ys loc" by (rule find_loc_at [OF assms])
  show ?thesis using rb_prev_correct [OF l(2)] l(1)
    by (auto simp: prev_id_def split: option.splits dest: node_ext_at)
qed

lemma erase_id_at:
  assumes "seq root = xs @ e # ys" "distinct (ids (seq root))" "ext_id e = i"
  shows "seq (erase_id i root) = xs @ ys" "rb_inv root \<Longrightarrow> rb_inv (erase_id i root)"
proof -
  obtain loc where l: "find_loc i root [] = Some loc" "loc_at root xs e ys loc" by (rule find_loc_at [OF assms])
  show "seq (erase_id i root) = xs @ ys" "rb_inv root \<Longrightarrow> rb_inv (erase_id i root)"
    using rb_erase_correct [OF l(2)] l(1) by (cases loc; simp add: erase_id_def)+
qed

lemma first_id_seq: "first_id root = (case seq root of [] \<Rightarrow> None | e # es \<Rightarrow> Some (ext_id e))"
proof (cases "rb_first root")
  case None
  then show ?thesis using rb_first_correct [of root] by (simp add: first_id_def)
next
  case (Some loc)
  then obtain x ys where "loc_at root [] x ys loc" using rb_first_correct [of root] by auto
  from loc_at_inorder [OF this] node_ext_at [OF this] show ?thesis using Some by (simp add: first_id_def)
qed

lemma last_id_seq: "last_id root = (if seq root = [] then None else Some (ext_id (last (seq root))))"
proof (cases "rb_last root")
  case None
  then show ?thesis using rb_last_correct [of root] by (simp add: last_id_def)
next
  case (Some loc)
  then obtain xs x where "loc_at root xs x [] loc" using rb_last_correct [of root] by auto
  from loc_at_inorder [OF this] node_ext_at [OF this] show ?thesis using Some by (simp add: last_id_def)
qed

lemma inorder_map_rbt: "inorder (map_rbt f t) = map f (inorder t)"
  by (induction t) auto

lemma rb_inv_map: "rb_inv (map_rbt f t) = rb_inv t"
proof -
  have r: "is_red (map_rbt f t) = is_red t" for t by (cases t rule: is_red.cases) auto
  have b: "bh (map_rbt f t) = bh t" for t by (induction t) auto
  have "invc (map_rbt f t) = invc t" for t by (induction t) (auto simp: r)
  moreover have "invh (map_rbt f t) = invh t" for t by (induction t) (auto simp: b)
  ultimately show ?thesis by (simp add: rb_inv_def r)
qed

lemma map_other_id: "i \<notin> set (ids xs) \<Longrightarrow> map (\<lambda>e. if ext_id e = i then f e else e) xs = xs"
  by (induction xs) auto

lemma write_ext_at:
  assumes "seq root = xs @ e # ys" "distinct (ids (seq root))" "ext_id e = i"
  shows "seq (write_ext i s c root) = xs @ e\<lparr>ext_start := s, ext_count := c\<rparr> # ys"
proof -
  have n: "i \<notin> set (ids xs)" "i \<notin> set (ids ys)" using assms by auto
  show ?thesis
    unfolding write_ext_def inorder_map_rbt assms(1) map_append list.map
      map_other_id [OF n(1)] map_other_id [OF n(2)] if_P [OF assms(3)] ..
qed

lemma write_ext_inv [simp]: "rb_inv (write_ext i s c root) = rb_inv root"
  by (simp add: write_ext_def rb_inv_map)

lemma fresh_id_not_in: "fresh_id root \<notin> set (ids (seq root))"
  using member_le_sum_list [of "fresh_id root" "ids (seq root)"] by (auto simp: fresh_id_def)

end
