(* ===== verification/Bmap_RB_Correct.thy ===== *)
theory Bmap_RB_Correct
  imports Bmap_RB
begin

text \<open>
  The extent tree back end of theory \<open>Bmap_RB\<close> keeps its invariant and implements a set of numbers.
  The invariant: the tree is a red-black tree, identities are distinct, the extents are non-empty, in
  increasing order and never adjacent, within the bitmap; the cursors point to extents of the tree,
  and the cached successor of the read cursor is its successor.  Its abstraction is the union of the
  extents.  Theory \<open>Bmap_RB_Backend\<close> builds the interpretation of \<open>bitmap_backend\<close> on these lemmas.
\<close>

section \<open>Invariant\<close>

definition gap :: "rb_ext \<Rightarrow> rb_ext \<Rightarrow> bool" where
  "gap e f \<longleftrightarrow> ext_end e < ext_start f"

definition ext_ok :: "nat \<Rightarrow> rb_ext list \<Rightarrow> bool" where
  "ext_ok lim es \<longleftrightarrow> sorted_wrt gap es \<and> (\<forall>e \<in> set es. 0 < ext_count e \<and> ext_end e \<le> lim)"

definition ext_set :: "rb_ext list \<Rightarrow> nat set" where
  "ext_set es = (\<Union>e \<in> set es. {ext_start e..<ext_end e})"

fun adjacent :: "nat \<Rightarrow> nat \<Rightarrow> rb_ext list \<Rightarrow> bool" where
  "adjacent i j (e # f # es) = (ext_id e = i \<and> ext_id f = j \<or> adjacent i j (f # es))"
| "adjacent i j es = False"

definition cursors_ok :: "rb_private \<Rightarrow> bool" where
  "cursors_ok bp \<longleftrightarrow>
     (\<forall>i. rb_wcursor bp = Some i \<longrightarrow> i \<in> set (ids (seq (rb_root bp))))
     \<and> (\<forall>i. rb_rcursor bp = Some i \<longrightarrow> i \<in> set (ids (seq (rb_root bp))))
     \<and> (\<forall>i j. rb_rcursor bp = Some i \<and> rb_rcursor_next bp = Some j \<longrightarrow> adjacent i j (seq (rb_root bp)))"

definition tree_ok :: "rb_private \<Rightarrow> bool" where
  "tree_ok bp \<longleftrightarrow> rb_inv (rb_root bp) \<and> distinct (ids (seq (rb_root bp))) \<and> cursors_ok bp"

definition rb_ok :: "nat \<Rightarrow> rb_private \<Rightarrow> bool" where
  "rb_ok lim bp \<longleftrightarrow> tree_ok bp \<and> ext_ok lim (seq (rb_root bp))"

abbreviation rb_set :: "rb_private \<Rightarrow> nat set" where
  "rb_set bp \<equiv> ext_set (seq (rb_root bp))"

lemma ext_set_simps [simp]:
  "ext_set [] = {}" "ext_set (e # es) = {ext_start e..<ext_end e} \<union> ext_set es"
  "ext_set (xs @ ys) = ext_set xs \<union> ext_set ys"
  by (auto simp: ext_set_def)

lemma ext_ok_Nil [simp]: "ext_ok lim []"
  by (simp add: ext_ok_def)

lemma ext_ok_append:
  "ext_ok lim (xs @ ys) \<longleftrightarrow> ext_ok lim xs \<and> ext_ok lim ys \<and> (\<forall>x \<in> set xs. \<forall>y \<in> set ys. gap x y)"
  by (auto simp: ext_ok_def sorted_wrt_append)

lemma ext_ok_Cons:
  "ext_ok lim (e # es) \<longleftrightarrow> 0 < ext_count e \<and> ext_end e \<le> lim \<and> ext_ok lim es \<and> (\<forall>y \<in> set es. gap e y)"
  by (auto simp: ext_ok_def)

lemma adjacent_remove:
  "adjacent i j (xs @ e # ys) \<Longrightarrow> ext_id e \<noteq> i \<Longrightarrow> ext_id e \<noteq> j \<Longrightarrow> adjacent i j (xs @ ys)"
proof (induction xs)
  case Nil
  then show ?case by (cases ys) auto
next
  case (Cons x xs)
  then show ?case by (cases xs; cases ys) (auto split: list.splits)
qed

lemma adjacent_ids: "ids es = ids es' \<Longrightarrow> adjacent i j es = adjacent i j es'"
proof (induction i j es arbitrary: es' rule: adjacent.induct)
  case (1 i j e f es)
  then obtain e' f' es'' where "es' = e' # f' # es''" "ext_id e' = ext_id e" "ext_id f' = ext_id f" "ids (f # es) = ids (f' # es'')"
    by (auto simp: Cons_eq_map_conv)
  then show ?case using 1(1) [of "f' # es''"] by simp
qed (auto simp: Cons_eq_map_conv)

lemma adjacent_split:
  "adjacent i j es \<Longrightarrow> \<exists>xs e f ys. es = xs @ e # f # ys \<and> ext_id e = i \<and> ext_id f = j"
proof (induction i j es rule: adjacent.induct)
  case (1 i j e f es)
  show ?case
  proof (cases "ext_id e = i \<and> ext_id f = j")
    case True then show ?thesis by (intro exI [of _ "[]"]) auto
  next
    case False
    then obtain xs e' f' ys where "f # es = xs @ e' # f' # ys" "ext_id e' = i" "ext_id f' = j" using 1 by auto
    then show ?thesis by (intro exI [of _ "e # xs"]) auto
  qed
qed auto

section \<open>Erasing and writing\<close>

lemma erase_free_ok:
  assumes "tree_ok bp" "seq (rb_root bp) = xs @ e # ys" "ext_id e = i"
  shows "tree_ok (erase_free i bp)" "seq (rb_root (erase_free i bp)) = xs @ ys"
    "rb_rcursor_next bp = None \<Longrightarrow> rb_rcursor_next (erase_free i bp) = None"
proof -
  have d: "distinct (ids (seq (rb_root bp)))" using assms(1) by (simp add: tree_ok_def)
  note er = erase_id_at [OF assms(2) d assms(3)]
  show s: "seq (rb_root (erase_free i bp)) = xs @ ys" using er(1) by (simp add: erase_free_def rb_free_extent_def)
  have "cursors_ok (erase_free i bp)"
    using assms unfolding tree_ok_def cursors_ok_def s
    by (auto simp: erase_free_def rb_free_extent_def intro: adjacent_remove split: if_splits)
  then show "tree_ok (erase_free i bp)" using assms(1) d er s
    by (auto simp: tree_ok_def assms(2) erase_free_def rb_free_extent_def)
  show "rb_rcursor_next bp = None \<Longrightarrow> rb_rcursor_next (erase_free i bp) = None"
    by (simp add: erase_free_def rb_free_extent_def)
qed

lemma ids_update [simp]: "ext_id (e\<lparr>ext_start := s, ext_count := c\<rparr>) = ext_id e"
  by simp

lemma write_ok:
  assumes "tree_ok bp" "seq (rb_root bp) = xs @ e # ys" "ext_id e = i"
  shows "tree_ok (bp\<lparr>rb_root := write_ext i s c (rb_root bp)\<rparr>)"
    "seq (write_ext i s c (rb_root bp)) = xs @ e\<lparr>ext_start := s, ext_count := c\<rparr> # ys"
proof -
  have d: "distinct (ids (seq (rb_root bp)))" using assms(1) by (simp add: tree_ok_def)
  show w: "seq (write_ext i s c (rb_root bp)) = xs @ e\<lparr>ext_start := s, ext_count := c\<rparr> # ys"
    by (rule write_ext_at [OF assms(2) d assms(3)])
  have i: "ids (xs @ e\<lparr>ext_start := s, ext_count := c\<rparr> # ys) = ids (xs @ e # ys)" by simp
  have r: "rb_root (bp\<lparr>rb_root := t\<rparr>) = t" "rb_wcursor (bp\<lparr>rb_root := t\<rparr>) = rb_wcursor bp"
    "rb_rcursor (bp\<lparr>rb_root := t\<rparr>) = rb_rcursor bp" "rb_rcursor_next (bp\<lparr>rb_root := t\<rparr>) = rb_rcursor_next bp" for t
    by simp_all
  show "tree_ok (bp\<lparr>rb_root := write_ext i s c (rb_root bp)\<rparr>)"
    using assms(1) unfolding tree_ok_def cursors_ok_def
    unfolding r w adjacent_ids [OF i] i write_ext_inv assms(2) .
qed

section \<open>Merging to the right\<close>

text \<open>Pointers to the first extent of a list.\<close>

definition hd_id :: "rb_ext list \<Rightarrow> nat option" where
  "hd_id ys = (case ys of [] \<Rightarrow> None | y # zs \<Rightarrow> Some (ext_id y))"

lemma hd_id_simps [simp]: "hd_id [] = None" "hd_id (y # ys) = Some (ext_id y)"
  by (simp_all add: hd_id_def)

lemma merge_right_correct:
  assumes "tree_ok bp" "seq (rb_root bp) = xs @ ys" "length ys \<le> k"
    and "ext_ok lim ys" "\<forall>y \<in> set ys. s \<le> ext_start y"
    and "merge_right k bp s c (hd_id ys) = (bp', c')" "rb_rcursor_next bp = None" "s + c \<le> lim"
  shows "\<exists>zs. tree_ok bp' \<and> seq (rb_root bp') = xs @ zs \<and> set zs \<subseteq> set ys \<and> ext_ok lim zs \<and> c \<le> c' \<and> s + c' \<le> lim
    \<and> (\<forall>z \<in> set zs. s + c' < ext_start z) \<and> {s..<s + c'} \<union> ext_set zs = {s..<s + c} \<union> ext_set ys
    \<and> rb_rcursor_next bp' = None"
  using assms
proof (induction ys arbitrary: k bp c)
  case Nil
  then have "bp' = bp" "c' = c" by (cases k; simp)+
  then show ?case using Nil by (intro exI [of _ "[]"]) simp
next
  case (Cons y ys)
  obtain k' where k: "k = Suc k'" "length ys \<le> k'" using Cons.prems(3) by (cases k) auto
  have d: "distinct (ids (seq (rb_root bp)))" using Cons.prems(1) by (simp add: tree_ok_def)
  have nx: "next_id (rb_root bp) (ext_id y) = hd_id ys"
    using next_id_at [OF Cons.prems(2) d refl] by (simp add: hd_id_def)
  have ex: "ext_of (rb_root bp) (ext_id y) = Some y" by (rule ext_of_at [OF Cons.prems(2) d refl])
  have y: "0 < ext_count y" "s \<le> ext_start y" "ext_ok lim ys" "ext_end y \<le> lim" "\<forall>z \<in> set ys. gap y z"
    using Cons.prems(4,5) by (auto simp: ext_ok_Cons)
  have beyond: "\<not> ext_end y \<le> s" using y by linarith
  note er = erase_free_ok [OF Cons.prems(1,2) refl]
  have st: "merge_right k bp s c (hd_id (y # ys)) =
      (if s + c < ext_start y then (bp, c)
       else if s + c \<ge> ext_end y then merge_right k' (erase_free (ext_id y) bp) s c (hd_id ys)
       else (erase_free (ext_id y) bp, c + (ext_end y - (s + c))))"
    using beyond by (simp add: k nx ex Let_def)
  consider (stop) "s + c < ext_start y" | (swallow) "\<not> s + c < ext_start y" "s + c \<ge> ext_end y"
    | (last) "\<not> s + c < ext_start y" "\<not> s + c \<ge> ext_end y" by blast
  then show ?case
  proof cases
    case stop
    then have "bp' = bp" "c' = c" using Cons.prems(6) unfolding st by simp_all
    then show ?thesis using Cons.prems stop y by (intro exI [of _ "y # ys"]) (auto simp: gap_def)
  next
    case swallow
    then have m: "merge_right k' (erase_free (ext_id y) bp) s c (hd_id ys) = (bp', c')" using Cons.prems(6) unfolding st by simp
    have "\<exists>zs. tree_ok bp' \<and> seq (rb_root bp') = xs @ zs \<and> set zs \<subseteq> set ys \<and> ext_ok lim zs \<and> c \<le> c' \<and> s + c' \<le> lim
      \<and> (\<forall>z \<in> set zs. s + c' < ext_start z) \<and> {s..<s + c'} \<union> ext_set zs = {s..<s + c} \<union> ext_set ys
      \<and> rb_rcursor_next bp' = None"
      using Cons.prems(5) by (intro Cons.IH [OF er(1,2) k(2) y(3) _ m er(3) [OF Cons.prems(7)] Cons.prems(8)]) simp
    moreover have "{s..<s + c} \<union> ext_set (y # ys) = {s..<s + c} \<union> ext_set ys" using swallow y(2) by auto
    ultimately show ?thesis by (metis set_subset_Cons subset_trans)
  next
    case last
    then have b: "bp' = erase_free (ext_id y) bp" "c' = c + (ext_end y - (s + c))" using Cons.prems(6) unfolding st by simp_all
    have c': "s + c' = ext_end y" using b(2) last by simp
    have "{s..<s + c'} \<union> ext_set ys = {s..<s + c} \<union> ext_set (y # ys)"
      unfolding c' using last y(2) by auto
    then show ?thesis using er Cons.prems(7) y c' b last
      by (intro exI [of _ ys]) (auto simp: gap_def)
  qed
qed

section \<open>Insertion\<close>

lemma gap_write: "gap x (e\<lparr>ext_start := s, ext_count := c\<rparr>) \<longleftrightarrow> ext_end x < s"
  "gap (e\<lparr>ext_start := s, ext_count := c\<rparr>) y \<longleftrightarrow> s + c < ext_start y"
  by (simp_all add: gap_def)

lemma ins_finish_correct:
  assumes "tree_ok bp" "seq (rb_root bp) = xs @ e # ys" "ext_id e = i" "rb_rcursor_next bp = None"
    and "ext_ok lim xs" "ext_ok lim ys" "\<forall>x \<in> set xs. ext_end x < s" "\<forall>y \<in> set ys. s \<le> ext_start y"
    and "0 < c" "s + c \<le> lim"
  shows "rb_ok lim (ins_finish i s c bp) \<and> rb_set (ins_finish i s c bp) = ext_set xs \<union> {s..<s + c} \<union> ext_set ys"
proof -
  have d: "distinct (ids (seq (rb_root bp)))" using assms(1) by (simp add: tree_ok_def)
  have nx: "next_id (rb_root bp) i = hd_id ys" using next_id_at [OF assms(2) d assms(3)] by (simp add: hd_id_def)
  obtain bp' c' where m: "merge_right (length (seq (rb_root bp))) bp s c (hd_id ys) = (bp', c')" by fastforce
  have sq: "seq (rb_root bp) = (xs @ [e]) @ ys" using assms(2) by simp
  have "length ys \<le> length (seq (rb_root bp))" by (simp add: assms(2))
  from merge_right_correct [OF assms(1) sq this assms(6,8) m assms(4,10)] obtain zs where
    z: "tree_ok bp'" "seq (rb_root bp') = xs @ e # zs" "set zs \<subseteq> set ys" "ext_ok lim zs" "c \<le> c'" "s + c' \<le> lim"
      "\<forall>z \<in> set zs. s + c' < ext_start z" "{s..<s + c'} \<union> ext_set zs = {s..<s + c} \<union> ext_set ys"
    by auto
  have f: "ins_finish i s c bp = bp'\<lparr>rb_root := write_ext i s c' (rb_root bp')\<rparr>" by (simp add: ins_finish_def nx m)
  note w = write_ok [OF z(1,2) assms(3), of s c']
  have "gap x z" if "x \<in> set xs" "z \<in> set zs" for x z using that assms(7,8) z(3) by (force simp: gap_def)
  then have "ext_ok lim (xs @ e\<lparr>ext_start := s, ext_count := c'\<rparr> # zs)"
    using assms(5,7,9) z by (auto simp: ext_ok_append ext_ok_Cons gap_write)
  then show ?thesis unfolding f rb_ok_def using w z(8) by (auto simp: Un_assoc)
qed

lemma ins_descend_correct:
  assumes "\<forall>x \<in> set (before path). ext_end x < start" "\<forall>y \<in> set (after path). start < ext_start y"
    and "ext_ok lim (seq t)"
  shows "case ins_descend start t path of
      Inl e \<Rightarrow> e \<in> set (seq t) \<and> ext_start e \<le> start \<and> start \<le> ext_end e
    | Inr p \<Rightarrow> plug Leaf p = plug t path \<and> (\<forall>x \<in> set (before p). ext_end x < start) \<and> (\<forall>y \<in> set (after p). start < ext_start y)"
  using assms
proof (induction start t path rule: ins_descend.induct)
  case (2 start c l e r path)
  have ok: "ext_ok lim (seq l)" "ext_ok lim (seq r)" "0 < ext_count e" "\<forall>y \<in> set (seq r). gap e y"
    "\<forall>x \<in> set (seq l). gap x e" using 2(5) by (simp_all add: ext_ok_append ext_ok_Cons)
  consider (l) "start < ext_start e" | (r) "\<not> start < ext_start e" "start > ext_end e"
    | (hit) "\<not> start < ext_start e" "\<not> start > ext_end e" by blast
  then show ?case
  proof cases
    case l
    have "\<forall>y \<in> set (after (FL c e r # path)). start < ext_start y"
      using 2(4) l ok(4) by (auto simp: gap_def)
    from 2(1) [OF l _ this ok(1)] 2(3) l show ?thesis by (auto split: sum.splits)
  next
    case r
    have "\<forall>x \<in> set (before (FR c l e # path)). ext_end x < start"
      using 2(3) r ok(3,5) by (auto simp: gap_def)
    from 2(2) [OF r this _ ok(2)] 2(4) r show ?thesis by (auto split: sum.splits)
  next
    case hit
    then show ?thesis by simp
  qed
qed auto

lemma in_seq_split: "e \<in> set es \<Longrightarrow> \<exists>xs ys. es = xs @ e # ys"
  by (rule split_list)

lemma ins_got_correct:
  assumes "rb_ok lim bp" "e \<in> set (seq (rb_root bp))" "ext_start e \<le> start" "start \<le> ext_end e"
    and "0 < count" "start + count \<le> lim" "rb_rcursor_next bp = None" "ins_got start count e bp = (r, bp')"
  shows "rb_ok lim bp' \<and> rb_set bp' = rb_set bp \<union> {start..<start + count} \<and> (r \<noteq> 0 \<longleftrightarrow> start \<in> rb_set bp)"
proof -
  obtain xs ys where sq: "seq (rb_root bp) = xs @ e # ys" using in_seq_split [OF assms(2)] by auto
  have ok: "tree_ok bp" "ext_ok lim xs" "ext_ok lim ys" "0 < ext_count e" "\<forall>y \<in> set ys. gap e y" "\<forall>x \<in> set xs. gap x e"
    using assms(1) by (simp_all add: rb_ok_def sq ext_ok_append ext_ok_Cons)
  have hit: "start \<in> rb_set bp \<longleftrightarrow> start < ext_end e"
  proof
    assume "start \<in> rb_set bp"
    then show "start < ext_end e" using assms(3,4) ok(5,6) by (fastforce simp: sq ext_set_def gap_def)
  next
    assume "start < ext_end e"
    then show "start \<in> rb_set bp" using assms(3) by (simp add: sq)
  qed
  show ?thesis
  proof (cases "start + count \<le> ext_end e")
    case True
    then have "bp' = bp" "r = 1" using assms(8) by (simp_all add: ins_got_def)
    moreover have "{start..<start + count} \<subseteq> rb_set bp" using True assms(3) by (auto simp: sq)
    moreover have "start < ext_end e" using True assms(5) by simp
    ultimately show ?thesis using assms(1) hit by auto
  next
    case False
    let ?c = "count + (start - ext_start e)"
    have bp': "bp' = ins_finish (ext_id e) (ext_start e) ?c bp" "r = (if ext_end e = start then 0 else 1)"
      using assms(8) False by (simp_all add: ins_got_def)
    have sc: "ext_start e + ?c = start + count" using assms(3) by simp
    have "rb_ok lim bp' \<and> rb_set bp' = ext_set xs \<union> {ext_start e..<ext_start e + ?c} \<union> ext_set ys"
      unfolding bp' using assms(5,6) ok(5,6) unfolding gap_def
      by (intro ins_finish_correct [OF ok(1) sq refl assms(7) ok(2,3)]) (use sc in auto)
    moreover have "ext_set xs \<union> {ext_start e..<ext_start e + ?c} \<union> ext_set ys = rb_set bp \<union> {start..<start + count}"
      unfolding sc sq using assms(3,4) False by auto
    ultimately show ?thesis using bp'(2) hit assms(4) by auto
  qed
qed

lemma ins_new_correct:
  assumes "rb_ok lim bp" "plug Leaf path = rb_root bp" "\<forall>x \<in> set (before path). ext_end x < start"
    and "\<forall>y \<in> set (after path). start < ext_start y" "0 < count" "start + count \<le> lim"
    and "rb_rcursor_next bp = None" "ins_new start count path bp = (r, bp')"
  shows "rb_ok lim bp' \<and> rb_set bp' = rb_set bp \<union> {start..<start + count} \<and> r = 0 \<and> start \<notin> rb_set bp"
proof -
  let ?xs = "before path" and ?ys = "after path" and ?i = "fresh_id (rb_root bp)"
  let ?new = "\<lparr>ext_id = ?i, ext_start = start, ext_count = count\<rparr>"
  let ?root = "rb_link_insert ?new path"
  let ?bp1 = "bp\<lparr>rb_root := ?root, rb_wcursor := Some ?i\<rparr>"
  have sq: "seq (rb_root bp) = ?xs @ ?ys" using inorder_plug [of Leaf path] assms(2) by simp
  have ok: "tree_ok bp" "ext_ok lim ?xs" "ext_ok lim ?ys" using assms(1) by (simp_all add: rb_ok_def sq ext_ok_append)
  note li = rb_link_insert_correct [OF assms(2), of ?new]
  have sq1: "seq (rb_root ?bp1) = ?xs @ ?new # ?ys" using li(1) by simp
  have d: "distinct (ids (?xs @ ?new # ?ys))"
    using ok(1) fresh_id_not_in [of "rb_root bp"] by (auto simp: tree_ok_def sq)
  have "cursors_ok ?bp1" using ok(1) assms(7) sq1 unfolding tree_ok_def cursors_ok_def sq by auto
  then have tk: "tree_ok ?bp1" using li(2) ok(1) d sq1 by (simp add: tree_ok_def)
  have dr: "distinct (ids (seq ?root))" using d li(1) by simp
  have no_merge: "(case prev_id ?root ?i of
               None \<Rightarrow> (?bp1, start, count)
             | Some p \<Rightarrow> (case ext_of ?root p of
                 None \<Rightarrow> (?bp1, start, count)
               | Some ext \<Rightarrow>
                   if ext_end ext = start then (erase_free p ?bp1, ext_start ext, count + ext_count ext)
                   else (?bp1, start, count))) = (?bp1, start, count)"
  proof (cases "?xs = []")
    case True
    then show ?thesis using prev_id_at [OF li(1) dr] by simp
  next
    case False
    then have xl: "?xs = butlast ?xs @ [last ?xs]" by simp
    have "seq ?root = butlast ?xs @ last ?xs # ?new # ?ys" unfolding li(1) by (subst xl) simp
    from ext_of_at [OF this dr refl] have "ext_of ?root (ext_id (last ?xs)) = Some (last ?xs)" .
    moreover have "ext_end (last ?xs) < start" using assms(3) False by simp
    ultimately show ?thesis using prev_id_at [OF li(1) dr] False by simp
  qed
  have bp': "bp' = ins_finish ?i start count ?bp1" "r = 0"
    using assms(8) unfolding ins_new_def Let_def no_merge by simp_all
  have "rb_ok lim bp' \<and> rb_set bp' = ext_set ?xs \<union> {start..<start + count} \<union> ext_set ?ys"
    unfolding bp' using assms by (intro ins_finish_correct [OF tk sq1 _ _ ok(2,3)]) auto
  moreover have "start \<notin> rb_set bp" using assms(3,4) by (force simp: sq ext_set_def)
  ultimately show ?thesis using bp' by (auto simp: sq)
qed

lemma ext_of_cursor:
  assumes "tree_ok bp" "rb_wcursor bp = Some i \<or> rb_rcursor bp = Some i"
  shows "\<exists>e. ext_of (rb_root bp) i = Some e \<and> e \<in> set (seq (rb_root bp)) \<and> ext_id e = i"
proof -
  have "i \<in> set (ids (seq (rb_root bp)))" using assms by (auto simp: tree_ok_def cursors_ok_def)
  then have "ext_of (rb_root bp) i \<noteq> None" by (simp add: ext_of_None)
  then obtain e where "ext_of (rb_root bp) i = Some e" by auto
  with ext_of_Some [OF this] show ?thesis by auto
qed

lemma insert_extent_correct:
  assumes ok0: "rb_ok lim bp0" and lim: "start + count \<le> lim" and r: "rb_insert_extent start count bp0 = (r, bp')"
  shows "rb_ok lim bp' \<and> rb_set bp' = rb_set bp0 \<union> {start..<start + count}
    \<and> (0 < count \<longrightarrow> (r \<noteq> 0 \<longleftrightarrow> start \<in> rb_set bp0))"
proof (cases "count = 0")
  case True
  then show ?thesis using assms by (simp add: rb_insert_extent_def)
next
  case False
  let ?bp = "bp0\<lparr>rb_rcursor_next := None\<rparr>"
  have ok: "rb_ok lim ?bp" using ok0 by (auto simp: rb_ok_def tree_ok_def cursors_ok_def)
  have tree: "rb_ok lim bp' \<and> rb_set bp' = rb_set ?bp \<union> {start..<start + count} \<and> (r \<noteq> 0 \<longleftrightarrow> start \<in> rb_set ?bp)"
    if t: "ins_tree start count ?bp = (r, bp')"
  proof -
    have "ext_ok lim (seq (rb_root ?bp))" using ok by (simp add: rb_ok_def)
    note ds = ins_descend_correct [of "[]" start, simplified, OF this]
    show ?thesis
    proof (cases "ins_descend start (rb_root ?bp) []")
      case (Inl e)
      then have "ins_got start count e ?bp = (r, bp')" using t by (simp add: ins_tree_def)
      from ins_got_correct [OF ok _ _ _ _ lim _ this] ds Inl False show ?thesis by simp
    next
      case (Inr p)
      then have "ins_new start count p ?bp = (r, bp')" using t by (simp add: ins_tree_def)
      from ins_new_correct [OF ok _ _ _ _ lim _ this] ds Inr False show ?thesis by simp
    qed
  qed
  have cur: "rb_ok lim bp' \<and> rb_set bp' = rb_set ?bp \<union> {start..<start + count} \<and> (r \<noteq> 0 \<longleftrightarrow> start \<in> rb_set ?bp)"
  proof (cases "rb_wcursor ?bp")
    case None
    then have "ins_tree start count ?bp = (r, bp')" using r False by (simp add: rb_insert_extent_def Let_def)
    then show ?thesis by (rule tree)
  next
    case (Some i)
    have "tree_ok ?bp" using ok by (simp add: rb_ok_def)
    from ext_of_cursor [OF this, of i] Some obtain e where
      e: "ext_of (rb_root ?bp) i = Some e" "e \<in> set (seq (rb_root ?bp))" by auto
    show ?thesis
    proof (cases "ext_start e \<le> start \<and> start \<le> ext_end e")
      case True
      then have "ins_got start count e ?bp = (r, bp')"
        using r False Some e(1) by (simp add: rb_insert_extent_def Let_def)
      from ins_got_correct [OF ok e(2) _ _ _ lim _ this] True False show ?thesis by simp
    next
      case ns: False
      then have "ins_tree start count ?bp = (r, bp')"
        using r False Some e(1) by (auto simp: rb_insert_extent_def Let_def)
      then show ?thesis by (rule tree)
    qed
  qed
  then show ?thesis by simp
qed

section \<open>Removal\<close>

text \<open>An extent may shrink where it is.\<close>

lemma ext_ok_shrink:
  assumes "ext_ok lim (xs @ e # ys)" "0 < c" "ext_start e \<le> s" "s + c \<le> ext_end e"
  shows "ext_ok lim (xs @ e\<lparr>ext_start := s, ext_count := c\<rparr> # ys)"
proof -
  have "\<forall>y \<in> set ys. s + c < ext_start y" "\<forall>x \<in> set xs. ext_end x < s"
    using assms by (force simp: ext_ok_append ext_ok_Cons gap_def)+
  then show ?thesis using assms by (simp add: ext_ok_append ext_ok_Cons gap_write)
qed

lemma off_left: "\<forall>x \<in> set xs. ext_end x \<le> a \<Longrightarrow> ext_set xs \<inter> {a..<b} = {}"
  by (induction xs) auto

lemma off_right: "\<forall>y \<in> set ys. b \<le> ext_start y \<Longrightarrow> ext_set ys \<inter> {a..<b} = {}"
  by (induction ys) auto

lemma rm_right_correct:
  assumes "tree_ok bp" "seq (rb_root bp) = xs @ ys" "length ys \<le> k" "ext_ok lim (xs @ ys)"
    and "\<forall>y \<in> set ys. start < ext_start y" "rm_right k bp start count (hd_id ys) r = (r', bp')"
  shows "rb_ok lim bp' \<and> rb_set bp' = ext_set xs \<union> (ext_set ys - {start..<start + count})
    \<and> (r \<noteq> 0 \<or> ext_set ys \<inter> {start..<start + count} \<noteq> {} \<longrightarrow> r' \<noteq> 0)"
  using assms
proof (induction ys arbitrary: k bp r)
  case Nil
  then have "bp' = bp" "r' = r" by (cases k; simp)+
  then show ?case using Nil by (simp add: rb_ok_def)
next
  case (Cons y ys)
  obtain k' where k: "k = Suc k'" "length ys \<le> k'" using Cons.prems(3) by (cases k) auto
  have d: "distinct (ids (seq (rb_root bp)))" using Cons.prems(1) by (simp add: tree_ok_def)
  have nx: "next_id (rb_root bp) (ext_id y) = hd_id ys"
    using next_id_at [OF Cons.prems(2) d refl] by (simp add: hd_id_def)
  have ex: "ext_of (rb_root bp) (ext_id y) = Some y" by (rule ext_of_at [OF Cons.prems(2) d refl])
  have y: "0 < ext_count y" "start < ext_start y" "ext_ok lim ys" "ext_end y \<le> lim" "\<forall>z \<in> set ys. gap y z"
      "ext_ok lim xs" "\<forall>x \<in> set xs. gap x y" "\<forall>x \<in> set xs. \<forall>z \<in> set ys. gap x z" "\<forall>z \<in> set ys. start < ext_start z"
    using Cons.prems(4,5) by (auto simp: ext_ok_Cons ext_ok_append)
  have beyond: "\<not> ext_end y \<le> start" using y(2) by linarith
  note er = erase_free_ok [OF Cons.prems(1,2) refl]
  have st: "rm_right k bp start count (hd_id (y # ys)) r =
      (if start + count < ext_start y then (r, bp)
       else if start + count \<ge> ext_end y then rm_right k' (erase_free (ext_id y) bp) start count (hd_id ys) 1
       else (1, bp\<lparr>rb_root := write_ext (ext_id y) (start + count)
                              (ext_count y - (start + count - ext_start y)) (rb_root bp)\<rparr>))"
    using beyond by (simp add: k nx ex Let_def)
  have later: "start + count \<le> m \<Longrightarrow> (\<forall>z \<in> set ys. m < ext_start z) \<Longrightarrow> ext_set ys \<inter> {start..<start + count} = {}" for m
    by (intro off_right) force
  consider (stop) "start + count < ext_start y" | (del) "\<not> start + count < ext_start y" "start + count \<ge> ext_end y"
    | (trunc) "\<not> start + count < ext_start y" "\<not> start + count \<ge> ext_end y" by blast
  then show ?case
  proof cases
    case stop
    then have b: "bp' = bp" "r' = r" using Cons.prems(6) unfolding st by simp_all
    have "ext_set (y # ys) \<inter> {start..<start + count} = {}"
      using stop y(5) later [of "ext_end y"] by (auto simp: gap_def)
    then show ?thesis using b Cons.prems by (auto simp: rb_ok_def)
  next
    case del
    then have "rm_right k' (erase_free (ext_id y) bp) start count (hd_id ys) 1 = (r', bp')"
      using Cons.prems(6) unfolding st by simp
    then have "rb_ok lim bp' \<and> rb_set bp' = ext_set xs \<union> (ext_set ys - {start..<start + count})
      \<and> ((1 :: u32) \<noteq> 0 \<or> ext_set ys \<inter> {start..<start + count} \<noteq> {} \<longrightarrow> r' \<noteq> 0)"
      using y by (intro Cons.IH [OF er(1,2) k(2)]) (auto simp: ext_ok_append)
    moreover have "ext_set (y # ys) - {start..<start + count} = ext_set ys - {start..<start + count}"
      using del y(2) by auto
    ultimately show ?thesis by simp
  next
    case trunc
    let ?c = "ext_count y - (start + count - ext_start y)"
    have b: "r' = 1" "bp' = bp\<lparr>rb_root := write_ext (ext_id y) (start + count) ?c (rb_root bp)\<rparr>"
      using Cons.prems(6) trunc unfolding st by simp_all
    note w = write_ok [OF Cons.prems(1,2) refl, of "start + count" ?c]
    have e: "start + count + ?c = ext_end y" "0 < ?c" using trunc by auto
    have "ext_ok lim (xs @ y\<lparr>ext_start := start + count, ext_count := ?c\<rparr> # ys)"
      using trunc e by (intro ext_ok_shrink [OF Cons.prems(4)]) auto
    moreover have "ext_set (y # ys) - {start..<start + count} = {start + count..<ext_end y} \<union> ext_set ys"
      using trunc y(2,5) later [of "ext_end y"] by (auto simp: gap_def)
    ultimately show ?thesis using w b e by (simp add: rb_ok_def add.commute)
  qed
qed

text \<open>The node the descent ends at is a neighbour of the empty place.\<close>

definition parent_ok :: "rb_ext list \<Rightarrow> rb_ext list \<Rightarrow> nat option \<Rightarrow> bool" where
  "parent_ok xs ys p \<longleftrightarrow>
     p = None \<and> xs = [] \<and> ys = [] \<or> xs \<noteq> [] \<and> p = Some (ext_id (last xs)) \<or> ys \<noteq> [] \<and> p = hd_id ys"

lemma rm_right_parent:
  assumes "tree_ok bp" "seq (rb_root bp) = xs @ ys" "length (xs @ ys) \<le> k" "ext_ok lim (xs @ ys)"
    and "\<forall>x \<in> set xs. ext_end x \<le> start" "\<forall>y \<in> set ys. start < ext_start y"
    and "parent_ok xs ys p" "rm_right k bp start count p r = (r', bp')"
  shows "rb_ok lim bp' \<and> rb_set bp' = rb_set bp - {start..<start + count}
    \<and> (r \<noteq> 0 \<or> rb_set bp \<inter> {start..<start + count} \<noteq> {} \<longrightarrow> r' \<noteq> 0)"
proof -
  have left: "ext_set xs \<inter> {start..<start + count} = {}" by (rule off_left [OF assms(5)])
  have len: "length ys \<le> k" using assms(3) by simp
  consider (hd) "p = hd_id ys" | (last) "xs \<noteq> []" "p = Some (ext_id (last xs))"
    using assms(7) by (auto simp: parent_ok_def)
  then have "\<exists>k. length ys \<le> k \<and> rm_right k bp start count (hd_id ys) r = (r', bp')"
  proof cases
    case hd
    then show ?thesis using assms(8) len by auto
  next
    case last
    obtain k' where k: "k = Suc k'" using assms(3) last(1) by (cases k) auto
    have d: "distinct (ids (seq (rb_root bp)))" using assms(1) by (simp add: tree_ok_def)
    have "xs = butlast xs @ [last xs]" using last(1) by simp
    then have sq: "seq (rb_root bp) = butlast xs @ last xs # ys" unfolding assms(2) by (metis append_Cons append_Nil append_assoc)
    have nx: "next_id (rb_root bp) (ext_id (last xs)) = hd_id ys"
      using next_id_at [OF sq d refl] by (simp add: hd_id_def)
    have ex: "ext_of (rb_root bp) (ext_id (last xs)) = Some (last xs)" by (rule ext_of_at [OF sq d refl])
    have "ext_end (last xs) \<le> start" using assms(5) last(1) by simp
    then have "rm_right k' bp start count (hd_id ys) r = (r', bp')" using assms(8) by (simp add: k last nx ex Let_def)
    moreover have "length ys \<le> k'" using assms(3) k last(1) by (cases xs) auto
    ultimately show ?thesis by blast
  qed
  then obtain k2 where "length ys \<le> k2" "rm_right k2 bp start count (hd_id ys) r = (r', bp')" by blast
  from rm_right_correct [OF assms(1,2) this(1) assms(4,6) this(2)] show ?thesis
    using left by (auto simp: assms(2))
qed

text \<open>The three ways in which the extent around \<open>start\<close> changes.\<close>

lemma rm_hit_split:
  assumes ok: "rb_ok lim bp" and sq: "seq (rb_root bp) = xs @ e # ys" and lim: "start + count \<le> lim"
    and hit: "ext_start e < start" "start + count < ext_end e"
  shows "let bp' = snd (rb_insert_extent (start + count) (ext_end e - (start + count))
                 (bp\<lparr>rb_root := write_ext (ext_id e) (ext_start e) (start - ext_start e) (rb_root bp)\<rparr>))
    in rb_ok lim bp' \<and> rb_set bp' = rb_set bp - {start..<start + count}"
proof -
  let ?c = "start - ext_start e"
  let ?bp1 = "bp\<lparr>rb_root := write_ext (ext_id e) (ext_start e) ?c (rb_root bp)\<rparr>"
  have tk: "tree_ok bp" and eo: "ext_ok lim (xs @ e # ys)" using ok by (simp_all add: rb_ok_def sq)
  note w = write_ok [OF tk sq refl, of "ext_start e" ?c]
  have ee: "ext_end e \<le> lim" "\<forall>y \<in> set ys. gap e y" "\<forall>x \<in> set xs. gap x e" using eo by (auto simp: ext_ok_append ext_ok_Cons)
  have "ext_ok lim (xs @ e\<lparr>ext_start := ext_start e, ext_count := ?c\<rparr> # ys)"
    using hit by (intro ext_ok_shrink [OF eo]) auto
  then have ok1: "rb_ok lim ?bp1" using w by (simp add: rb_ok_def)
  have "rb_set ?bp1 = ext_set xs \<union> {ext_start e..<start} \<union> ext_set ys" using w(2) hit by (simp add: Un_assoc)
  moreover have "\<forall>x \<in> set xs. ext_end x \<le> start" "\<forall>y \<in> set ys. start + count \<le> ext_start y"
    using ee(2,3) hit by (force simp: gap_def)+
  then have "x \<notin> {start..<start + count}" if "x \<in> ext_set xs \<union> ext_set ys" for x
    using that off_left [of xs start "start + count"] off_right [of ys "start + count" start] by blast
  ultimately have "rb_set ?bp1 \<union> {start + count..<ext_end e} = rb_set bp - {start..<start + count}"
    using hit by (auto simp: sq)
  moreover have "start + count + (ext_end e - (start + count)) = ext_end e" using hit by simp
  ultimately show ?thesis
    using insert_extent_correct [OF ok1 _ prod.collapse [symmetric], of "start + count" "ext_end e - (start + count)"] ee(1)
    by (simp add: Let_def)
qed

lemma gap_left: "gap x e \<Longrightarrow> ext_start e \<le> n \<Longrightarrow> ext_end x \<le> n"
  and gap_right: "gap e y \<Longrightarrow> n < ext_end e \<Longrightarrow> n < ext_start y"
  by (simp_all add: gap_def)

lemma rm_descend_correct:
  assumes "rb_ok lim bp" "start + count \<le> lim" "seq (rb_root bp) = xs @ seq t @ ys"
    and "\<forall>x \<in> set xs. ext_end x \<le> start" "\<forall>y \<in> set ys. start < ext_start y"
    and "t = Leaf \<longrightarrow> parent_ok xs ys parent" "rm_descend start count t parent bp r = (r', bp')"
  shows "rb_ok lim bp' \<and> rb_set bp' = rb_set bp - {start..<start + count}
    \<and> (r \<noteq> 0 \<or> rb_set bp \<inter> {start..<start + count} \<noteq> {} \<longrightarrow> r' \<noteq> 0)"
  using assms
proof (induction t arbitrary: xs ys parent bp r)
  case Leaf
  have tk: "tree_ok bp" "ext_ok lim (xs @ ys)" using Leaf.prems(1,3) by (simp_all add: rb_ok_def)
  show ?case
    by (rule rm_right_parent [OF tk(1) _ _ tk(2) Leaf.prems(4,5)])
      (use Leaf.prems in simp_all)
next
  case (Node c l e t)
  let ?xs = "xs @ seq l" and ?ys = "seq t @ ys"
  have sq: "seq (rb_root bp) = ?xs @ e # ?ys" using Node.prems(3) by simp
  have tk: "tree_ok bp" and eo: "ext_ok lim (?xs @ e # ?ys)" using Node.prems(1) by (simp_all add: rb_ok_def sq)
  have e: "0 < ext_count e" "ext_end e \<le> lim" "\<forall>y \<in> set ?ys. gap e y" "\<forall>x \<in> set ?xs. gap x e"
    using eo by (auto simp: ext_ok_append ext_ok_Cons)
  consider (left) "start < ext_start e" | (right) "\<not> start < ext_start e" "start \<ge> ext_end e"
    | (hit) "\<not> start < ext_start e" "\<not> start \<ge> ext_end e" by blast
  then show ?case
  proof cases
    case left
    have "start < ext_start y" if "y \<in> set (e # ?ys)" for y
    proof (cases "y = e")
      case False
      then have "ext_end e < ext_start y" using that e(3) by (auto simp: gap_def)
      then show ?thesis using left by simp
    qed (simp add: left)
    then show ?thesis
      by (intro Node.IH(1) [where xs = xs and ys = "e # ?ys" and parent = "Some (ext_id e)"])
        (use Node.prems left in \<open>auto simp: parent_ok_def\<close>)
  next
    case right
    have "ext_end x \<le> start" if "x \<in> set (?xs @ [e])" for x
    proof (cases "x = e")
      case False
      then have "ext_end x < ext_start e" using that e(4) by (auto simp: gap_def)
      then show ?thesis using right by simp
    qed (simp add: right)
    then show ?thesis
      by (intro Node.IH(2) [where xs = "?xs @ [e]" and ys = ys and parent = "Some (ext_id e)"])
        (use Node.prems right in \<open>auto simp: parent_ok_def\<close>)
  next
    case hit
    have xs: "\<forall>x \<in> set ?xs. ext_end x \<le> start" and ys: "\<forall>y \<in> set ?ys. start < ext_start y"
      using e(3,4) gap_left gap_right hit by (meson not_le)+
    have off: "x \<notin> ext_set ?xs \<and> x \<notin> ext_set ?ys" if "x \<in> {start..<ext_end e}" for x
      using that off_left [OF xs, of "ext_end e"] off_right [of ?ys "ext_end e" start] e(3)
      by (auto simp: gap_def less_imp_le)
    show ?thesis
    proof (cases "start > ext_start e \<and> start + count < ext_end e")
      case True
      then have b: "r' = 1" "bp' = snd (rb_insert_extent (start + count) (ext_end e - (start + count))
                 (bp\<lparr>rb_root := write_ext (ext_id e) (ext_start e) (start - ext_start e) (rb_root bp)\<rparr>))"
        using Node.prems(7) hit by simp_all
      show ?thesis using rm_hit_split [OF Node.prems(1) sq Node.prems(2)] True unfolding b Let_def by simp
    next
      case ns: False
      show ?thesis
      proof (cases "start + count \<ge> ext_end e")
        case cut: True
        let ?c = "start - ext_start e"
        let ?e = "e\<lparr>ext_start := ext_start e, ext_count := ?c\<rparr>"
        let ?bp1 = "bp\<lparr>rb_root := write_ext (ext_id e) (ext_start e) ?c (rb_root bp)\<rparr>"
        note w = write_ok [OF tk sq refl, of "ext_start e" ?c]
        have sq1: "seq (rb_root ?bp1) = ?xs @ ?e # ?ys" using w(2) by simp
        show ?thesis
        proof (cases "?c = 0")
          case True
          have d: "distinct (ids (seq (rb_root ?bp1)))" using w(1) unfolding tree_ok_def by simp
          have nx: "next_id (rb_root ?bp1) (ext_id e) = hd_id ?ys"
            using next_id_at [OF sq1 d] by (simp add: hd_id_def)
          have b: "rm_right (length (seq (rb_root ?bp1))) (erase_free (ext_id e) ?bp1) start count (hd_id ?ys) 1 = (r', bp')"
            using Node.prems(7) hit ns cut True nx by (simp add: Let_def)
          note er = erase_free_ok [OF w(1) sq1, of "ext_id e"]
          have len: "length ?ys \<le> length (seq (rb_root ?bp1))" unfolding sq1 by simp
          have "ext_ok lim (?xs @ ?ys)" using eo by (simp add: ext_ok_append ext_ok_Cons)
          from rm_right_correct [OF er(1) er(2) len this ys b]
          have "rb_ok lim bp' \<and> rb_set bp' = ext_set ?xs \<union> (ext_set ?ys - {start..<start + count}) \<and> r' \<noteq> 0" by simp
          moreover have "ext_set ?xs \<inter> {start..<start + count} = {}" by (rule off_left [OF xs])
          moreover have "{ext_start e..<ext_end e} \<subseteq> {start..<start + count}" using True cut hit by auto
          ultimately show ?thesis by (auto simp: sq)
        next
          case nz: False
          have eo1: "ext_ok lim (?xs @ ?e # ?ys)"
            using hit nz by (intro ext_ok_shrink [OF eo]) auto
          then have ok1: "rb_ok lim ?bp1" using w sq1 by (simp add: rb_ok_def)
          have b: "rm_descend start count t (Some (ext_id e)) ?bp1 1 = (r', bp')"
            using Node.prems(7) hit ns cut nz by (simp add: Let_def)
          have "rb_ok lim bp' \<and> rb_set bp' = rb_set ?bp1 - {start..<start + count}
            \<and> ((1 :: u32) \<noteq> 0 \<or> rb_set ?bp1 \<inter> {start..<start + count} \<noteq> {} \<longrightarrow> r' \<noteq> 0)"
          proof (rule Node.IH(2) [OF ok1 Node.prems(2) _ _ _ _ b, where xs = "?xs @ [?e]" and ys = ys])
            show "seq (rb_root ?bp1) = (?xs @ [?e]) @ seq t @ ys" using sq1 by simp
            show "\<forall>x \<in> set (?xs @ [?e]). ext_end x \<le> start" using xs nz by auto
            show "\<forall>y \<in> set ys. start < ext_start y" using ys by simp
            show "t = Leaf \<longrightarrow> parent_ok (?xs @ [?e]) ys (Some (ext_id e))" by (simp add: parent_ok_def)
          qed
          moreover have "rb_set ?bp1 = rb_set bp - {start..<ext_end e}"
            unfolding sq1 sq using hit nz off by auto
          moreover have "{start..<ext_end e} \<subseteq> {start..<start + count}" using cut by auto
          moreover have "(1 :: u32) \<noteq> 0" by simp
          ultimately show ?thesis by blast
        qed
      next
        case nc: False
        then have eq: "start = ext_start e" using ns hit by auto
        let ?c = "ext_count e - count"
        have b: "r' = 1" "bp' = bp\<lparr>rb_root := write_ext (ext_id e) (ext_start e + count) ?c (rb_root bp)\<rparr>"
          using Node.prems(7) hit ns nc eq e(1) by (simp_all add: Let_def)
        note w = write_ok [OF tk sq refl, of "ext_start e + count" ?c]
        have end_eq: "ext_start e + count + ?c = ext_end e" "0 < ?c" using nc eq by auto
        have "ext_ok lim (?xs @ e\<lparr>ext_start := ext_start e + count, ext_count := ?c\<rparr> # ?ys)"
          using end_eq by (intro ext_ok_shrink [OF eo]) auto
        then have "rb_ok lim bp'" using w b by (simp add: rb_ok_def)
        moreover have "rb_set bp' = ext_set ?xs \<union> ({start + count..<ext_end e} \<union> ext_set ?ys)"
          unfolding b using w(2) end_eq(1) eq by (simp add: Un_assoc)
        moreover have "x \<notin> ext_set ?xs \<and> x \<notin> ext_set ?ys" if "x \<in> {start..<start + count}" for x
          using that off [of x] nc by simp
        ultimately show ?thesis using b(1) nc eq by (auto simp: sq)
      qed
    qed
  qed
qed

lemma remove_extent_correct:
  assumes "rb_ok lim bp" "start + count \<le> lim" "rb_remove_extent start count bp = (r, bp')"
  shows "rb_ok lim bp' \<and> rb_set bp' = rb_set bp - {start..<start + count}
    \<and> (rb_set bp \<inter> {start..<start + count} \<noteq> {} \<longrightarrow> r \<noteq> 0)"
proof (cases "rb_root bp = Leaf")
  case True
  then show ?thesis using assms by (simp add: rb_remove_extent_def)
next
  case False
  then have "rm_descend start count (rb_root bp) None bp 0 = (r, bp')" using assms(3) by (simp add: rb_remove_extent_def)
  from rm_descend_correct [OF assms(1,2) _ _ _ _ this, of "[]" "[]"] False show ?thesis by simp
qed

section \<open>Tests and searches\<close>

lemma find_descend_correct:
  assumes "ext_ok lim (xs @ seq t @ ys)" "\<forall>x \<in> set xs. ext_end x \<le> n" "\<forall>y \<in> set ys. n < ext_start y"
    and "t = Leaf \<longrightarrow> parent_ok xs ys parent"
  shows "case find_descend n t parent of
      Inl e \<Rightarrow> e \<in> set (seq t) \<and> ext_start e \<le> n \<and> n < ext_end e
    | Inr p \<Rightarrow> \<exists>ls rs. xs @ seq t @ ys = ls @ rs \<and> (\<forall>x \<in> set ls. ext_end x \<le> n)
        \<and> (\<forall>y \<in> set rs. n < ext_start y) \<and> parent_ok ls rs p"
  using assms
proof (induction t arbitrary: xs ys parent)
  case Leaf
  then show ?case by simp blast
next
  case (Node c l e t)
  let ?xs = "xs @ seq l" and ?ys = "seq t @ ys"
  have eo: "ext_ok lim (?xs @ e # ?ys)" using Node.prems(1) by simp
  have e: "0 < ext_count e" "\<forall>y \<in> set ?ys. gap e y" "\<forall>x \<in> set ?xs. gap x e"
    using eo by (auto simp: ext_ok_append ext_ok_Cons)
  consider (left) "n < ext_start e" | (right) "\<not> n < ext_start e" "n \<ge> ext_end e"
    | (hit) "\<not> n < ext_start e" "\<not> n \<ge> ext_end e" by blast
  then show ?case
  proof cases
    case left
    have "\<forall>y \<in> set (e # ?ys). n < ext_start y" using left e(1,2) gap_right [of e _ n] by auto
    from Node.IH(1) [of xs "e # ?ys" "Some (ext_id e)"] this left eo Node.prems(2) show ?thesis
      by (simp add: parent_ok_def split: sum.splits)
  next
    case right
    have "\<forall>x \<in> set (?xs @ [e]). ext_end x \<le> n" using right e(3) gap_left [of _ e n] by auto
    from Node.IH(2) [of "?xs @ [e]" ys "Some (ext_id e)"] this right eo Node.prems(3) show ?thesis
      by (simp add: parent_ok_def split: sum.splits)
  next
    case hit
    then show ?thesis by simp
  qed
qed

lemma find_root:
  assumes "rb_ok lim bp"
  shows "case find_descend n (rb_root bp) None of
      Inl e \<Rightarrow> e \<in> set (seq (rb_root bp)) \<and> ext_start e \<le> n \<and> n < ext_end e \<and> n \<in> rb_set bp
    | Inr p \<Rightarrow> n \<notin> rb_set bp \<and> (\<exists>ls rs. seq (rb_root bp) = ls @ rs \<and> (\<forall>x \<in> set ls. ext_end x \<le> n)
        \<and> (\<forall>y \<in> set rs. n < ext_start y) \<and> parent_ok ls rs p)"
proof -
  have eo: "ext_ok lim (seq (rb_root bp))" using assms by (simp add: rb_ok_def)
  have "case find_descend n (rb_root bp) None of
      Inl e \<Rightarrow> e \<in> set (seq (rb_root bp)) \<and> ext_start e \<le> n \<and> n < ext_end e
    | Inr p \<Rightarrow> \<exists>ls rs. seq (rb_root bp) = ls @ rs \<and> (\<forall>x \<in> set ls. ext_end x \<le> n)
        \<and> (\<forall>y \<in> set rs. n < ext_start y) \<and> parent_ok ls rs p"
    using find_descend_correct [of lim "[]" "rb_root bp" "[]" n None] eo by (simp add: parent_ok_def split: sum.splits)
  moreover have "n \<notin> ext_set (ls @ rs)" if "\<forall>x \<in> set ls. ext_end x \<le> n" "\<forall>y \<in> set rs. n < ext_start y" for ls rs
    using that by (force simp: ext_set_def)
  moreover have "n \<in> rb_set bp" if "e \<in> set (seq (rb_root bp))" "ext_start e \<le> n" "n < ext_end e" for e
    using that by (auto simp: ext_set_def)
  ultimately show ?thesis by (auto split: sum.splits)
qed

lemma search_tree_correct:
  assumes "rb_ok lim bp" "rb_search_tree n bp = (r, bp')"
  shows "rb_ok lim bp' \<and> rb_set bp' = rb_set bp \<and> (r \<noteq> 0 \<longleftrightarrow> n \<in> rb_set bp)"
proof (cases "find_descend n (rb_root bp) None")
  case (Inl e)
  then show ?thesis using find_root [OF assms(1), of n] assms
    by (auto simp: rb_search_tree_def rb_ok_def tree_ok_def cursors_ok_def)
next
  case (Inr p)
  then show ?thesis using find_root [OF assms(1), of n] assms by (auto simp: rb_search_tree_def)
qed

lemma test_wcursor_correct:
  assumes "rb_ok lim bp" "rb_test_wcursor n bp = (r, bp')"
  shows "rb_ok lim bp' \<and> rb_set bp' = rb_set bp \<and> (r \<noteq> 0 \<longleftrightarrow> n \<in> rb_set bp)"
proof (cases "\<exists>i w. rb_wcursor bp = Some i \<and> ext_of (rb_root bp) i = Some w \<and> ext_start w \<le> n \<and> n < ext_end w")
  case True
  then obtain i w where w: "rb_wcursor bp = Some i" "ext_of (rb_root bp) i = Some w" "ext_start w \<le> n" "n < ext_end w" by auto
  have "w \<in> set (seq (rb_root bp))" using ext_of_Some [OF w(2)] by auto
  then have "n \<in> rb_set bp" using w(3,4) by (auto simp: ext_set_def)
  then show ?thesis using assms w by (auto simp: rb_test_wcursor_def)
next
  case False
  then have "rb_search_tree n bp = (r, bp')" using assms(2)
    by (auto simp: rb_test_wcursor_def split: bind_splits option.splits if_splits)
  then show ?thesis by (rule search_tree_correct [OF assms(1)])
qed

lemma between_adjacent:
  assumes "ext_ok lim es" "adjacent (ext_id e) (ext_id f) es" "distinct (ids es)" "e \<in> set es" "f \<in> set es"
    and "ext_end e \<le> n" "n < ext_start f"
  shows "n \<notin> ext_set es"
proof -
  from adjacent_split [OF assms(2)] obtain xs e' f' ys where
    s: "es = xs @ e' # f' # ys" "ext_id e' = ext_id e" "ext_id f' = ext_id f" by auto
  have inj: "inj_on ext_id (set es)" using assms(3) by (simp add: distinct_map)
  have "e' \<in> set es" "f' \<in> set es" using s(1) by simp_all
  then have ef: "e' = e" "f' = f" using inj_onD [OF inj] s(2,3) assms(4,5) by blast+
  have "\<forall>x \<in> set (xs @ [e]). ext_end x \<le> n" "\<forall>y \<in> set (f # ys). n + 1 \<le> ext_start y"
    using assms(1,6,7) unfolding s(1) ef by (auto simp: ext_ok_append ext_ok_Cons gap_def)
  then have "ext_set (xs @ [e]) \<inter> {n..<n + 1} = {}" "ext_set (f # ys) \<inter> {n..<n + 1} = {}"
    by (simp_all only: off_left off_right)
  moreover have "n \<in> {n..<n + 1}" by simp
  ultimately show ?thesis unfolding s(1) ef by (simp only: ext_set_simps) (auto simp del: atLeastLessThan_singleton)
qed

lemma test_bit_correct:
  assumes ok: "rb_ok lim bp" and r: "rb_test_bit bp n = (r, bp')"
  shows "rb_ok lim bp' \<and> rb_set bp' = rb_set bp \<and> (r \<noteq> 0 \<longleftrightarrow> n \<in> rb_set bp)"
proof (cases "rb_rcursor bp")
  case None
  then have "rb_search_tree n bp = (r, bp')" using r by (simp add: rb_test_bit_def)
  then show ?thesis by (rule search_tree_correct [OF ok])
next
  case (Some i)
  have tk: "tree_ok bp" and eo: "ext_ok lim (seq (rb_root bp))" using ok by (simp_all add: rb_ok_def)
  have d: "distinct (ids (seq (rb_root bp)))" using tk by (simp add: tree_ok_def)
  from ext_of_cursor [OF tk, of i] Some obtain rc where
    rc: "ext_of (rb_root bp) i = Some rc" "rc \<in> set (seq (rb_root bp))" "ext_id rc = i" by auto
  show ?thesis
  proof (cases "ext_start rc \<le> n \<and> n < ext_end rc")
    case True
    then have "n \<in> rb_set bp" using rc(2) by (auto simp: ext_set_def)
    then show ?thesis using True r Some rc(1) ok by (auto simp: rb_test_bit_def)
  next
    case miss: False
    define nxt where "nxt = (case rb_rcursor_next bp of Some j \<Rightarrow> Some j | None \<Rightarrow> next_id (rb_root bp) (ext_id rc))"
    let ?bp1 = "bp\<lparr>rb_rcursor_next := nxt\<rparr>"
    have adj: "adjacent i j (seq (rb_root bp))" if "nxt = Some j" for j
    proof (cases "rb_rcursor_next bp")
      case None
      obtain xs ys where sq: "seq (rb_root bp) = xs @ rc # ys" using in_seq_split [OF rc(2)] by auto
      have "hd_id ys = Some j" using that None next_id_at [OF sq d refl] by (simp add: nxt_def hd_id_def)
      then obtain y zs where "ys = y # zs" "ext_id y = j" by (cases ys) auto
      then have sq': "seq (rb_root bp) = xs @ rc # y # zs" using sq by simp
      have "adjacent (ext_id rc) (ext_id y) (xs @ rc # y # zs)"
        by (induction xs) (auto, metis adjacent.simps(1) append_Cons append_Nil list.exhaust)
      then show ?thesis using sq' rc(3) \<open>ext_id y = j\<close> by simp
    next
      case (Some k)
      then show ?thesis using that tk \<open>rb_rcursor bp = Some i\<close> by (auto simp: nxt_def tree_ok_def cursors_ok_def)
    qed
    have ok1: "rb_ok lim ?bp1" using ok adj Some by (auto simp: rb_ok_def tree_ok_def cursors_ok_def)
    let ?bp2 = "?bp1\<lparr>rb_rcursor := None, rb_rcursor_next := None\<rparr>"
    have ok2: "rb_ok lim ?bp2" using ok by (auto simp: rb_ok_def tree_ok_def cursors_ok_def)
    have other: ?thesis if "rb_test_wcursor n ?bp2 = (r, bp')"
      using test_wcursor_correct [OF ok2 that] by simp
    show ?thesis
    proof (cases "\<exists>j f. nxt = Some j \<and> ext_of (rb_root bp) j = Some f \<and> ext_end rc \<le> n \<and> n < ext_start f")
      case True
      then obtain j f where f: "nxt = Some j" "ext_of (rb_root bp) j = Some f" "ext_end rc \<le> n" "n < ext_start f" by auto
      have ff: "f \<in> set (seq (rb_root bp))" "ext_id f = j" using ext_of_Some [OF f(2)] by auto
      have "n \<notin> rb_set bp" using between_adjacent [OF eo _ d rc(2) ff(1) f(3,4)] adj [OF f(1)] rc(3) ff(2) by simp
      moreover have "rb_test_bit bp n = (0, ?bp1)"
        using f Some rc(1) miss by (simp add: rb_test_bit_def Let_def nxt_def [symmetric])
      ultimately show ?thesis using r ok1 by auto
    next
      case False
      have "rb_test_bit bp n = rb_test_wcursor n ?bp2"
        using Some rc(1) miss False
        by (auto simp: rb_test_bit_def Let_def nxt_def [symmetric] split: option.splits bind_splits)
      then show ?thesis using other r by simp
    qed
  qed
qed

text \<open>What a parent pointer leads to.\<close>

lemma parent_cases:
  assumes "parent_ok ls rs p" "seq root = ls @ rs" "distinct (ids (seq root))"
  obtains (none) "p = None" "ls = []" "rs = []"
  | (last) "ls \<noteq> []" "p = Some (ext_id (last ls))" "ext_of root (ext_id (last ls)) = Some (last ls)"
      "next_id root (ext_id (last ls)) = hd_id rs"
  | (hd) y ys where "rs = y # ys" "p = Some (ext_id y)" "ext_of root (ext_id y) = Some y"
proof -
  consider (a) "p = None" "ls = []" "rs = []" | (b) "ls \<noteq> []" "p = Some (ext_id (last ls))"
    | (c) "rs \<noteq> []" "p = hd_id rs" using assms(1) by (auto simp: parent_ok_def)
  then show thesis
  proof cases
    case b
    then have "seq root = butlast ls @ last ls # rs" using assms(2) by simp
    from ext_of_at [OF this assms(3) refl] next_id_at [OF this assms(3) refl] b show thesis
      by (intro last) (simp_all add: hd_id_def)
  next
    case c
    then obtain y ys where y: "rs = y # ys" by (cases rs) auto
    then have "seq root = ls @ y # ys" using assms(2) by simp
    from ext_of_at [OF this assms(3) refl] y c show thesis by (intro hd) auto
  qed (rule none)
qed

lemma hd_ext:
  assumes "seq root = ls @ y # ys" "distinct (ids (seq root))" shows "ext_of root (ext_id y) = Some y"
  by (rule ext_of_at [OF assms refl])

lemma clean_right_correct:
  assumes "ext_ok lim (seq root)" "seq root = ls @ rs" "distinct (ids (seq root))" "parent_ok ls rs p"
    and "\<forall>x \<in> set ls. ext_end x \<le> start" "\<forall>y \<in> set rs. start < ext_start y" "length (seq root) \<le> k"
  shows "clean_right k root start len p \<longleftrightarrow> ext_set rs \<inter> {start..<start + len} = {}"
proof -
  have eo: "ext_ok lim rs" using assms(1,2) by (simp add: ext_ok_append)
  have hd: "clean_right k root start len (hd_id rs) \<longleftrightarrow> ext_set rs \<inter> {start..<start + len} = {}"
    if len: "length rs \<le> k" for k
  proof (cases rs)
    case Nil
    then show ?thesis by (cases k) simp_all
  next
    case (Cons y ys)
    then obtain k' where k: "k = Suc k'" using len Cons by (cases k) auto
    have y: "start < ext_start y" "0 < ext_count y" "\<forall>z \<in> set ys. gap y z" using assms(6) eo Cons by (auto simp: ext_ok_Cons)
    have ex: "ext_of root (ext_id y) = Some y" by (rule hd_ext [OF assms(2,3) [unfolded Cons]])
    have st: "clean_right k root start len (hd_id rs) \<longleftrightarrow> start + len \<le> ext_start y"
      using y(1) by (simp add: k Cons ex)
    show ?thesis
    proof (cases "start + len \<le> ext_start y")
      case True
      then have "\<forall>z \<in> set rs. start + len \<le> ext_start z" using y(2,3) Cons by (force simp: gap_def)
      from off_right [OF this] st True show ?thesis by simp
    next
      case False
      then have "ext_start y \<in> ext_set rs \<inter> {start..<start + len}" using y(1,2) Cons by simp
      then show ?thesis using st False by auto
    qed
  qed
  from assms(4,2,3) show ?thesis
  proof (cases rule: parent_cases)
    case none
    then show ?thesis by (cases k) simp_all
  next
    case last
    have l: "0 < length ls" using last(1) by simp
    then obtain k' where k: "k = Suc k'" using assms(2,7) by (cases k) auto
    have "length rs \<le> k'" using assms(7) unfolding assms(2) k length_append using l by linarith
    moreover have "ext_end (last ls) \<le> start" using assms(5) last(1) by simp
    ultimately show ?thesis using hd [of k'] by (simp add: k last)
  next
    case (hd y ys)
    then have "p = hd_id rs" by simp
    then show ?thesis using \<open>\<And>k. length rs \<le> k \<Longrightarrow> clean_right k root start len (hd_id rs) = (ext_set rs \<inter> {start..<start + len} = {})\<close> [of k]
        assms(2,7) by simp
  qed
qed

lemma test_clear_set_correct:
  assumes "rb_ok lim bp"
  shows "rb_test_clear bp start len \<longleftrightarrow> rb_set bp \<inter> {start..<start + len} = {}"
proof (cases "len = 0 \<or> rb_root bp = Leaf")
  case True
  then show ?thesis by (auto simp: rb_test_clear_def)
next
  case False
  have tk: "tree_ok bp" and eo: "ext_ok lim (seq (rb_root bp))" using assms by (simp_all add: rb_ok_def)
  have d: "distinct (ids (seq (rb_root bp)))" using tk by (simp add: tree_ok_def)
  show ?thesis
  proof (cases "find_descend start (rb_root bp) None")
    case (Inl e)
    then have "start \<in> rb_set bp" using find_root [OF assms, of start] by simp
    then show ?thesis using Inl False by (auto simp: rb_test_clear_def)
  next
    case (Inr p)
    then obtain ls rs where s: "seq (rb_root bp) = ls @ rs" "\<forall>x \<in> set ls. ext_end x \<le> start"
      "\<forall>y \<in> set rs. start < ext_start y" "parent_ok ls rs p"
      using find_root [OF assms, of start] by auto
    have "rb_test_clear bp start len \<longleftrightarrow> ext_set rs \<inter> {start..<start + len} = {}"
      using clean_right_correct [OF eo s(1) d s(4,2,3) order_refl] Inr False by (simp add: rb_test_clear_def)
    then show ?thesis using off_left [OF s(2), of "start + len"] by (auto simp: s(1))
  qed
qed

lemma first_zero_correct:
  assumes "rb_ok lim bp" "start \<le> en" "rb_set bp \<noteq> {}"
  shows "case rb_first_zero bp start en of
      Inr r \<Rightarrow> start \<le> r \<and> r \<le> en \<and> r \<notin> rb_set bp \<and> {start..<r} \<subseteq> rb_set bp
    | Inl err \<Rightarrow> err = ENOENT \<and> {start..en} \<subseteq> rb_set bp"
proof -
  have nl: "rb_root bp \<noteq> Leaf" using assms(3) by auto
  show ?thesis
  proof (cases "find_descend start (rb_root bp) None")
    case (Inl e)
    then have e: "e \<in> set (seq (rb_root bp))" "ext_start e \<le> start" "start < ext_end e"
      using find_root [OF assms(1), of start] by simp_all
    have sub: "{ext_start e..<ext_end e} \<subseteq> rb_set bp" using e(1) by (auto simp: ext_set_def)
    obtain xs ys where sq: "seq (rb_root bp) = xs @ e # ys" using in_seq_split [OF e(1)] by auto
    have "ext_ok lim (xs @ e # ys)" using assms(1) by (simp add: rb_ok_def sq)
    then have g: "\<forall>x \<in> set (xs @ [e]). ext_end x \<le> ext_end e" "\<forall>y \<in> set ys. ext_end e + 1 \<le> ext_start y"
      by (auto simp: ext_ok_append ext_ok_Cons gap_def)
    have "ext_end e \<notin> ext_set (xs @ [e]) \<union> ext_set ys"
      using off_left [OF g(1), of "ext_end e + 1"] off_right [OF g(2), of "ext_end e"] by auto
    then have "ext_end e \<notin> rb_set bp" by (simp add: sq)
    then show ?thesis using Inl nl assms(2) e sub by (auto simp: rb_first_zero_def)
  next
    case (Inr p)
    then show ?thesis using find_root [OF assms(1), of start] nl assms(2) by (simp add: rb_first_zero_def)
  qed
qed

lemma first_set_correct:
  assumes "rb_ok lim bp" "start \<le> en"
  shows "case rb_first_set bp start en of
      Inr r \<Rightarrow> start \<le> r \<and> r \<le> en \<and> r \<in> rb_set bp \<and> {start..<r} \<inter> rb_set bp = {}
    | Inl err \<Rightarrow> err = ENOENT \<and> {start..en} \<inter> rb_set bp = {}"
proof (cases "rb_root bp = Leaf")
  case True
  then show ?thesis using assms(2) by (simp add: rb_first_set_def)
next
  case False
  have tk: "tree_ok bp" and eo: "ext_ok lim (seq (rb_root bp))" using assms by (simp_all add: rb_ok_def)
  have d: "distinct (ids (seq (rb_root bp)))" using tk by (simp add: tree_ok_def)
  show ?thesis
  proof (cases "find_descend start (rb_root bp) None")
    case (Inl e)
    then show ?thesis using find_root [OF assms(1), of start] False assms(2) by (simp add: rb_first_set_def)
  next
    case (Inr p)
    then obtain ls rs where s: "seq (rb_root bp) = ls @ rs" "\<forall>x \<in> set ls. ext_end x \<le> start"
      "\<forall>y \<in> set rs. start < ext_start y" "parent_ok ls rs p"
      using find_root [OF assms(1), of start] by auto
    have val: "rb_first_set bp start en = (case rs of [] \<Rightarrow> Inl ENOENT
        | y # ys \<Rightarrow> if ext_start y \<le> en then Inr (ext_start y) else Inl ENOENT)"
      using s(4,1) d
    proof (cases rule: parent_cases)
      case none
      then show ?thesis using s(1) False by simp
    next
      case last
      have "last ls \<in> set ls" using last(1) by simp
      moreover from this have "0 < ext_count (last ls)" using eo s(1) by (auto simp: ext_ok_append ext_ok_def)
      ultimately have "ext_start (last ls) < start" using s(2) by (meson le_less_trans less_add_same_cancel1 less_le_trans)
      moreover have "ext_of (rb_root bp) (ext_id y) = Some y" if "rs = y # ys" for y ys
        using hd_ext [OF s(1) [unfolded that] d] .
      ultimately show ?thesis using Inr False assms(2) last
        by (auto simp: rb_first_set_def split: list.splits)
    next
      case (hd y ys)
      then have "\<not> ext_start y < start" using s(3) by simp
      then show ?thesis using Inr False assms(2) hd by (simp add: rb_first_set_def)
    qed
    show ?thesis
    proof (cases rs)
      case Nil
      then show ?thesis using val off_left [OF s(2), of "Suc en"] by (auto simp: s(1) atLeastLessThanSuc_atLeastAtMost Int_commute)
    next
      case (Cons y ys)
      have y: "start < ext_start y" "0 < ext_count y" "\<forall>z \<in> set rs. ext_start y \<le> ext_start z"
        using s(1,3) eo Cons by (auto simp: ext_ok_append ext_ok_Cons gap_def)
      have none: "{start..<ext_start y} \<inter> rb_set bp = {}"
        using off_left [OF s(2), of "ext_start y"] off_right [OF y(3), of start] by (auto simp: s(1))
      have "ext_start y \<in> rb_set bp" using y(2) by (simp add: s(1) Cons)
      moreover have "{start..en} \<inter> rb_set bp = {}" if "\<not> ext_start y \<le> en"
      proof -
        have "{start..en} \<subseteq> {start..<ext_start y}" using that by auto
        then show ?thesis using none by blast
      qed
      ultimately show ?thesis using val Cons none y(1) by auto
    qed
  qed
qed

end
