(* ===== verification/Bmap_RB_Backend.thy ===== *)
theory Bmap_RB_Backend
  imports Bmap_RB_Correct
begin

text \<open>
  The extent tree as a back end of the 64-bit bitmaps: the operations on whole trees (freeing,
  truncating, copying), the set of numbers a bitmap stands for, the interpretation of the contract
  \<open>bitmap_backend\<close>, and the properties of the back end.
\<close>

section \<open>Whole trees\<close>

lemma free_tree_correct:
  "length (seq root) = k \<Longrightarrow> distinct (ids (seq root)) \<Longrightarrow> free_tree k root (hd_id (seq root)) = Leaf"
proof (induction k arbitrary: root)
  case (Suc k)
  then obtain e es where s: "seq root = [] @ e # es" by (cases "seq root") auto
  note n = next_id_at [OF s Suc.prems(2) refl] and er = erase_id_at(1) [OF s Suc.prems(2) refl]
  have "free_tree k (erase_id (ext_id e) root) (hd_id (seq (erase_id (ext_id e) root))) = Leaf"
    using Suc er s by (intro Suc.IH) auto
  then show ?case using s n er by (simp add: hd_id_def)
qed simp

lemma rb_free_tree_correct: "distinct (ids (seq root)) \<Longrightarrow> rb_free_tree root = Leaf"
  using free_tree_correct [of root] by (simp add: rb_free_tree_def first_id_seq hd_id_def)

lemma truncate_done:
  assumes "seq root = xs @ [e]" "distinct (ids (seq root))" "ext_end e - 1 \<le> m"
  shows "truncate_loop k m root = root"
proof (cases k)
  case (Suc k')
  have "ext_of root (ext_id e) = Some e" using ext_of_at [of root xs e "[]"] assms by simp
  then show ?thesis using assms Suc by (simp add: last_id_seq)
qed simp

lemma ext_set_below: "ext_ok lim es \<Longrightarrow> lim \<le> Suc m \<Longrightarrow> ext_set es \<inter> {..m} = ext_set es"
  by (force simp: ext_set_def ext_ok_def)

lemma ext_ok_le: "ext_ok lim es \<Longrightarrow> lim \<le> lim' \<Longrightarrow> ext_ok lim' es"
  by (force simp: ext_ok_def)

lemma ext_ok_last: "ext_ok lim (xs @ [e]) \<Longrightarrow> ext_end e \<le> n \<Longrightarrow> ext_ok n (xs @ [e])"
  by (force simp: ext_ok_def sorted_wrt_append gap_def)

lemma ext_ok_before: "ext_ok lim (xs @ [e]) \<Longrightarrow> ext_start e \<le> n \<Longrightarrow> ext_ok n xs"
  by (force simp: ext_ok_def sorted_wrt_append gap_def)

lemma truncate_loop_correct:
  assumes "rb_inv root" "distinct (ids (seq root))" "ext_ok lim (seq root)" "length (seq root) < k"
  shows "rb_inv (truncate_loop k m root) \<and> distinct (ids (seq (truncate_loop k m root)))
    \<and> ext_ok (Suc m) (seq (truncate_loop k m root)) \<and> ext_set (seq (truncate_loop k m root)) = ext_set (seq root) \<inter> {..m}"
  using assms
proof (induction k arbitrary: root)
  case (Suc k)
  note d = Suc.prems(2)
  show ?case
  proof (cases "seq root = []")
    case True
    then show ?thesis using Suc.prems(1) by (simp add: last_id_seq)
  next
    case False
    then obtain xs e where s: "seq root = xs @ [e]" by (metis append_butlast_last_id)
    have ex: "ext_of root (ext_id e) = Some e" using ext_of_at [of root xs e "[]"] s d by simp
    have eo: "ext_ok lim (xs @ [e])" and pos: "0 < ext_count e" using Suc.prems(3) s by (simp_all add: ext_ok_append ext_ok_Cons)
    consider (stop) "ext_end e - 1 \<le> m" | (drop) "\<not> ext_end e - 1 \<le> m" "m < ext_start e"
      | (cut) "\<not> ext_end e - 1 \<le> m" "ext_start e \<le> m" by linarith
    then show ?thesis
    proof cases
      case stop
      then have "ext_ok (Suc m) (seq root)" using ext_ok_last [OF eo] s by simp
      then show ?thesis using truncate_done [OF s d stop] Suc.prems ext_set_below [of "Suc m" "seq root" m] by simp
    next
      case drop
      let ?r = "erase_id (ext_id e) root"
      have er: "seq ?r = xs" "rb_inv ?r" using erase_id_at [of root xs e "[]"] s d Suc.prems(1) by simp_all
      have "rb_inv (truncate_loop k m ?r) \<and> distinct (ids (seq (truncate_loop k m ?r)))
        \<and> ext_ok (Suc m) (seq (truncate_loop k m ?r)) \<and> ext_set (seq (truncate_loop k m ?r)) = ext_set (seq ?r) \<inter> {..m}"
        using Suc.prems s er eo by (intro Suc.IH) (auto simp: ext_ok_append)
      moreover have "truncate_loop (Suc k) m root = truncate_loop k m ?r" using drop s ex by (simp add: last_id_seq)
      moreover have "ext_set (seq root) \<inter> {..m} = ext_set xs \<inter> {..m}" using s drop by auto
      ultimately show ?thesis using er by simp
    next
      case cut
      let ?e = "e\<lparr>ext_start := ext_start e, ext_count := m - ext_start e + 1\<rparr>"
      let ?r = "write_ext (ext_id e) (ext_start e) (m - ext_start e + 1) root"
      have w: "seq ?r = xs @ [?e]" using write_ext_at [of root xs e "[]"] s d by simp
      have "truncate_loop k m ?r = ?r" using w d s cut by (intro truncate_done [OF w]) auto
      moreover have "truncate_loop (Suc k) m root = truncate_loop k m ?r"
        using cut s ex by (simp add: last_id_seq)
      moreover have ok: "ext_ok (Suc m) (xs @ [?e])"
        using ext_ok_last [OF ext_ok_shrink [OF eo [unfolded append_Nil2], of "m - ext_start e + 1" "ext_start e"], of "Suc m"] cut by simp
      moreover have "ext_set xs \<inter> {..m} = ext_set xs" using ext_ok_before [OF eo cut(2)] ext_set_below by simp
      ultimately show ?thesis using w d s cut Suc.prems(1) by auto
    qed
  qed
qed simp

lemma rb_truncate_correct:
  assumes "rb_inv root" "distinct (ids (seq root))" "ext_ok lim (seq root)"
  shows "rb_inv (rb_truncate m root) \<and> distinct (ids (seq (rb_truncate m root)))
    \<and> ext_ok (Suc m) (seq (rb_truncate m root)) \<and> ext_set (seq (rb_truncate m root)) = ext_set (seq root) \<inter> {..m}"
  unfolding rb_truncate_def by (rule truncate_loop_correct [OF assms]) simp

text \<open>A copy has the same extents, in nodes of its own.\<close>

definition shape :: "rb_ext list \<Rightarrow> (nat \<times> nat) list" where
  "shape es = map (\<lambda>e. (ext_start e, ext_count e)) es"

lemma shape_simps [simp]: "shape [] = []" "shape (e # es) = (ext_start e, ext_count e) # shape es"
  "shape (xs @ ys) = shape xs @ shape ys"
  by (simp_all add: shape_def)

lemma shape_gap: "shape es = shape fs \<Longrightarrow> (\<forall>y \<in> set es. gap e y) = (\<forall>y \<in> set fs. gap e y)"
  by (induction es fs rule: list_induct2') (auto simp: gap_def)

lemma shape_ok: "shape es = shape fs \<Longrightarrow> ext_ok lim es = ext_ok lim fs \<and> ext_set es = ext_set fs"
proof (induction es fs rule: list_induct2')
  case (4 e es f fs)
  then have "(\<forall>y \<in> set es. gap e y) = (\<forall>y \<in> set fs. gap f y)" using shape_gap [of es fs] by (simp add: gap_def)
  then show ?case using 4 by (simp add: ext_ok_Cons)
qed simp_all

lemma link_last_correct:
  "seq (link_last e root) = seq root @ [e]" "rb_inv root \<Longrightarrow> rb_inv (link_last e root)"
proof -
  have "\<exists>path. link_last e root = rb_link_insert e path \<and> plug Leaf path = root \<and> before path = seq root \<and> after path = []"
  proof (cases "rb_last root")
    case None
    then show ?thesis using rb_last_correct [of root] by (intro exI [of _ "[]"]) (simp add: link_last_def)
  next
    case (Some loc)
    then obtain xs x where l: "loc_at root xs x [] loc" using rb_last_correct [of root] by auto
    then obtain c l r path where loc: "loc = (Node c l x r, path)" "plug (Node c l x r) path = root"
      "[] = inorder r @ after path" by (rule loc_atE)
    then have "r = Leaf" "after path = []" by simp_all
    then show ?thesis using Some loc inorder_plug [of "Node c l x r" path]
      by (intro exI [of _ "FR c l x # path"]) (simp add: link_last_def)
  qed
  then obtain path where p: "link_last e root = rb_link_insert e path" "plug Leaf path = root" "before path = seq root" "after path = []"
    by blast
  show "seq (link_last e root) = seq root @ [e]" "rb_inv root \<Longrightarrow> rb_inv (link_last e root)"
    using rb_link_insert_correct [OF p(2), of e] p by simp_all
qed

lemma copy_loop_correct:
  assumes "seq src = xs @ ys" "distinct (ids (seq src))" "rb_inv d0" "distinct (ids (seq d0))"
    and "shape (seq d0) = shape xs" "copy_loop (length ys) mal src (hd_id ys) d0 = Inr d"
  shows "rb_inv d \<and> distinct (ids (seq d)) \<and> shape (seq d) = shape (seq src)"
  using assms
proof (induction ys arbitrary: xs d0)
  case (Cons y ys)
  note n = next_id_at [OF Cons.prems(1,2) refl] and ex = ext_of_at [OF Cons.prems(1,2) refl]
  let ?e = "y\<lparr>ext_id := fresh_id d0\<rparr>"
  have c: "copy_loop (length ys) mal src (hd_id ys) (link_last ?e d0) = Inr d"
    using Cons.prems(6) n ex by (simp add: hd_id_def split: if_splits)
  show ?case
    using Cons.prems fresh_id_not_in [of d0]
    by (intro Cons.IH [OF _ _ _ _ _ c, of "xs @ [y]"]) (simp_all add: link_last_correct)
qed simp

section \<open>The bitmap as a set of numbers\<close>

definition rb_top :: "rb_bmap \<Rightarrow> nat" where
  "rb_top b = unat (bm_real_end b - bm_start b)"

definition wf_rb :: "rb_bmap \<Rightarrow> bool" where
  "wf_rb b \<longleftrightarrow> bm_start b \<le> bm_real_end b \<and> bm_end b \<le> bm_real_end b
     \<and> unat (bm_real_end b) < unat (bm_start b) + 2 ^ 63 \<and> rb_ok (Suc (rb_top b)) (bm_private b)"

definition rb_bits :: "rb_bmap \<Rightarrow> u64 set" where
  "rb_bits b = {x. bm_start b \<le> x \<and> x \<le> bm_real_end b \<and> unat (x - bm_start b) \<in> rb_set (bm_private b)}"

lemma wf_rb_ok: "wf_rb b \<Longrightarrow> rb_ok (Suc (rb_top b)) (bm_private b)"
  by (simp add: wf_rb_def)

lemma rb_top_private [simp]: "rb_top (b\<lparr>bm_private := p\<rparr>) = rb_top b"
  by (simp add: rb_top_def)

lemma wf_rb_private: "wf_rb b \<Longrightarrow> rb_ok (Suc (rb_top b)) p \<Longrightarrow> wf_rb (b\<lparr>bm_private := p\<rparr>)"
  by (simp add: wf_rb_def)

lemma rb_set_bound: "rb_ok lim p \<Longrightarrow> n \<in> rb_set p \<Longrightarrow> n < lim"
  by (force simp: rb_ok_def ext_ok_def ext_set_def)

lemma run_index:
  assumes "wf_rb b" "in_bmap b x n"
  shows "unat (x - bm_start b) + n \<le> Suc (rb_top b)"
    "y \<in> run x n \<longleftrightarrow> bm_start b \<le> y \<and> y \<le> bm_real_end b
      \<and> unat (y - bm_start b) \<in> {unat (x - bm_start b)..<unat (x - bm_start b) + n}"
proof -
  have x: "bm_start b \<le> x" using assms(2) by (simp add: in_bmap_def)
  have n: "unat x + n \<le> unat (bm_real_end b) + 1" and se: "bm_start b \<le> bm_real_end b"
    using assms by (simp_all add: in_bmap_def wf_rb_def)
  show "unat (x - bm_start b) + n \<le> Suc (rb_top b)"
    using n x se unat_sub [OF x] unat_sub [OF se] by (simp add: word_le_nat_alt rb_top_def)
  have "y \<in> run x n \<Longrightarrow> bm_start b \<le> y \<and> y \<le> bm_real_end b"
    using x n by (auto simp: run_def word_le_nat_alt)
  then show "y \<in> run x n \<longleftrightarrow> bm_start b \<le> y \<and> y \<le> bm_real_end b
      \<and> unat (y - bm_start b) \<in> {unat (x - bm_start b)..<unat (x - bm_start b) + n}"
    using in_run_sub [OF x, of y n] by auto
qed

lemma run_1 [simp]: "run x 1 = {x}" "run x (Suc 0) = {x}"
  by (auto simp: run_def word_le_nat_alt word_unat_eq_iff)

text \<open>An operation on the tree, seen through the bitmap.\<close>

lemma lift_insert:
  assumes "wf_rb b" "in_bmap b x n" "rb_insert_extent (unat (x - bm_start b)) n (bm_private b) = (r, p)"
  shows "wf_rb (b\<lparr>bm_private := p\<rparr>)" "rb_bits (b\<lparr>bm_private := p\<rparr>) = rb_bits b \<union> run x n"
    "0 < n \<Longrightarrow> r \<noteq> 0 \<longleftrightarrow> x \<in> rb_bits b"
proof -
  note ix = run_index [OF assms(1,2)]
  note c = insert_extent_correct [OF wf_rb_ok [OF assms(1)] ix(1) assms(3)]
  show "wf_rb (b\<lparr>bm_private := p\<rparr>)" using c assms(1) by (intro wf_rb_private) blast+
  show "rb_bits (b\<lparr>bm_private := p\<rparr>) = rb_bits b \<union> run x n"
    unfolding set_eq_iff Un_iff ix(2) using c by (auto simp: rb_bits_def)
  show "0 < n \<Longrightarrow> r \<noteq> 0 \<longleftrightarrow> x \<in> rb_bits b"
    using c assms(2) by (auto simp: rb_bits_def in_bmap_def word_le_nat_alt)
qed

lemma lift_remove:
  assumes "wf_rb b" "in_bmap b x n" "rb_remove_extent (unat (x - bm_start b)) n (bm_private b) = (r, p)"
  shows "wf_rb (b\<lparr>bm_private := p\<rparr>)" "rb_bits (b\<lparr>bm_private := p\<rparr>) = rb_bits b - run x n"
    "rb_bits b \<inter> run x n \<noteq> {} \<Longrightarrow> r \<noteq> 0"
proof -
  note ix = run_index [OF assms(1,2)]
  note c = remove_extent_correct [OF wf_rb_ok [OF assms(1)] ix(1) assms(3)]
  show "wf_rb (b\<lparr>bm_private := p\<rparr>)" using c assms(1) by (intro wf_rb_private) blast+
  show "rb_bits (b\<lparr>bm_private := p\<rparr>) = rb_bits b - run x n"
    unfolding set_eq_iff Diff_iff ix(2) using c by (auto simp: rb_bits_def)
  show "rb_bits b \<inter> run x n \<noteq> {} \<Longrightarrow> r \<noteq> 0"
    using c ix(2) by (auto simp: rb_bits_def)
qed

lemma lift_test:
  assumes "wf_rb b" "in_bmap b x 1" "rb_test_bit (bm_private b) (unat (x - bm_start b)) = (r, p)"
  shows "wf_rb (b\<lparr>bm_private := p\<rparr>)" "rb_bits (b\<lparr>bm_private := p\<rparr>) = rb_bits b" "r \<noteq> 0 \<longleftrightarrow> x \<in> rb_bits b"
proof -
  note c = test_bit_correct [OF wf_rb_ok [OF assms(1)] assms(3)]
  show "wf_rb (b\<lparr>bm_private := p\<rparr>)" using c assms(1) by (intro wf_rb_private) blast+
  show "rb_bits (b\<lparr>bm_private := p\<rparr>) = rb_bits b" using c by (simp add: rb_bits_def)
  show "r \<noteq> 0 \<longleftrightarrow> x \<in> rb_bits b" using c assms(2) unfolding in_bmap_1 by (simp add: rb_bits_def)
qed

lemma lift_test_clear:
  assumes "wf_rb b" "in_bmap b x n"
  shows "rb_test_clear (bm_private b) (unat (x - bm_start b)) n \<longleftrightarrow> rb_bits b \<inter> run x n = {}"
proof -
  let ?o = "unat (x - bm_start b)"
  note ix = run_index [OF assms]
  have eq: "rb_test_clear (bm_private b) ?o n \<longleftrightarrow> rb_set (bm_private b) \<inter> {?o..<?o + n} = {}"
    by (rule test_clear_set_correct [OF wf_rb_ok [OF assms(1)]])
  have "m \<in> (\<lambda>y. unat (y - bm_start b)) ` (rb_bits b \<inter> run x n)" if "m \<in> rb_set (bm_private b)" "m \<in> {?o..<?o + n}" for m
  proof -
    have m: "m \<le> rb_top b" using rb_set_bound [OF wf_rb_ok [OF assms(1)] that(1)] by simp
    have se: "bm_start b \<le> bm_real_end b" using assms(1) by (simp add: wf_rb_def)
    have lt: "unat (bm_start b) + m \<le> unat (bm_real_end b)"
      using m unat_sub [OF se] se by (simp add: rb_top_def word_le_nat_alt)
    define y where "y = bm_start b + of_nat m"
    have u: "unat y = unat (bm_start b) + m"
      using lt unsigned_less [of "bm_real_end b", where ?'a = nat] by (simp add: y_def unat_word_ariths unat_of_nat)
    then have "bm_start b \<le> y" "y \<le> bm_real_end b" using lt by (simp_all add: word_le_nat_alt)
    moreover from this have "unat (y - bm_start b) = m" using unat_sub [of "bm_start b" y] u by simp
    ultimately show ?thesis using that ix(2) [of y] by (intro image_eqI [of _ _ y]) (auto simp: rb_bits_def)
  qed
  moreover have "unat (y - bm_start b) \<in> rb_set (bm_private b) \<inter> {?o..<?o + n}" if "y \<in> rb_bits b \<inter> run x n" for y
    using that ix(2) [of y] by (simp add: rb_bits_def)
  ultimately show ?thesis unfolding eq by blast
qed

lemma off_le:
  fixes s0 x y :: u64
  assumes "s0 \<le> x" "s0 \<le> y"
  shows "x \<le> y \<longleftrightarrow> unat (x - s0) \<le> unat (y - s0)" "x < y \<longleftrightarrow> unat (x - s0) < unat (y - s0)"
  using assms unat_sub [of s0 x] unat_sub [of s0 y] by (auto simp: word_le_nat_alt word_less_nat_alt)

lemma off_word:
  fixes s0 e :: u64
  assumes "s0 \<le> e" "r \<le> unat (e - s0)"
  shows "unat (of_nat r + s0 - s0) = r" "s0 \<le> of_nat r + s0" "of_nat r + s0 \<le> e"
proof -
  have "r + unat s0 \<le> unat e" using assms unat_sub [OF assms(1)] by (simp add: word_le_nat_alt)
  then have u: "unat (of_nat r + s0) = r + unat s0"
    using unsigned_less [of e, where ?'a = nat] by (simp add: unat_word_ariths unat_of_nat)
  then show a: "s0 \<le> of_nat r + s0" by (simp add: word_le_nat_alt)
  show "unat (of_nat r + s0 - s0) = r" unfolding unat_sub [OF a] u by simp
  show "of_nat r + s0 \<le> e" using u \<open>r + unat s0 \<le> unat e\<close> by (simp add: word_le_nat_alt)
qed

lemma find_lift:
  fixes s0 s e :: u64 and Q :: "nat \<Rightarrow> bool"
  assumes "s0 \<le> s" "s \<le> e" and PQ: "\<And>y. s \<le> y \<Longrightarrow> y \<le> e \<Longrightarrow> P y = Q (unat (y - s0))"
    and c: "case res of Inr r \<Rightarrow> unat (s - s0) \<le> r \<and> r \<le> unat (e - s0) \<and> Q r \<and> (\<forall>j. unat (s - s0) \<le> j \<and> j < r \<longrightarrow> \<not> Q j)
      | Inl err \<Rightarrow> err = ENOENT \<and> (\<forall>j. unat (s - s0) \<le> j \<and> j \<le> unat (e - s0) \<longrightarrow> \<not> Q j)"
  shows "case map_sum id (\<lambda>n. of_nat n + s0) res of Inr r \<Rightarrow> first_in P s e r
      | Inl err \<Rightarrow> err = ENOENT \<and> (\<forall>x. s \<le> x \<and> x \<le> e \<longrightarrow> \<not> P x)"
proof (cases res)
  case (Inl err)
  have "\<not> P x" if "s \<le> x" "x \<le> e" for x
    using that PQ [OF that] c Inl sub_le_sub [of s0 x e] off_le(1) [of s0 s x] order_trans [OF assms(1) that(1)] assms(1) by simp
  then show ?thesis using c Inl by simp
next
  case (Inr r)
  have se: "s0 \<le> e" using assms(1,2) by (rule order_trans)
  let ?x = "of_nat r + s0"
  have r: "unat (s - s0) \<le> r" "r \<le> unat (e - s0)" "Q r" "\<And>j. unat (s - s0) \<le> j \<Longrightarrow> j < r \<Longrightarrow> \<not> Q j"
    using c Inr by auto
  note w = off_word [OF se r(2)]
  have sx: "s \<le> ?x" using off_le(1) [OF assms(1) w(2)] w(1) r(1) by simp
  have "\<not> P y" if "s \<le> y" "y < ?x" for y
  proof -
    have y: "s0 \<le> y" "y \<le> e" using that(1) assms(1) that(2) w(3) by auto
    show ?thesis using PQ [OF that(1) y(2)] r(4) off_le(2) [OF y(1) w(2)] off_le(1) [OF assms(1) y(1)] w(1) that by simp
  qed
  then show ?thesis using Inr sx w(1,3) PQ [OF sx w(3)] r(3) by (simp add: first_in_def)
qed

lemma rb_find_zero_correct:
  assumes "wf_rb b" "rb_bits b \<noteq> {}" "bm_start b \<le> s" "s \<le> e" "e \<le> bm_real_end b"
  shows "case rb_find_first_zero b s e of Inr r \<Rightarrow> first_in (\<lambda>x. x \<notin> rb_bits b) s e r
      | Inl err \<Rightarrow> err = ENOENT \<and> (\<forall>x. s \<le> x \<and> x \<le> e \<longrightarrow> x \<in> rb_bits b)"
proof -
  have le: "unat (s - bm_start b) \<le> unat (e - bm_start b)" by (rule sub_le_sub [OF assms(3,4)])
  have ne: "rb_set (bm_private b) \<noteq> {}" using assms(2) by (auto simp: rb_bits_def)
  have "case rb_find_first_zero b s e of Inr r \<Rightarrow> first_in (\<lambda>x. x \<notin> rb_bits b) s e r
      | Inl err \<Rightarrow> err = ENOENT \<and> (\<forall>x. s \<le> x \<and> x \<le> e \<longrightarrow> \<not> x \<notin> rb_bits b)"
    unfolding rb_find_first_zero_def
  proof (rule find_lift [OF assms(3,4), of _ "\<lambda>n. n \<notin> rb_set (bm_private b)"])
    show "(y \<notin> rb_bits b) = (unat (y - bm_start b) \<notin> rb_set (bm_private b))" if "s \<le> y" "y \<le> e" for y
      using that assms(3,5) by (auto simp: rb_bits_def)
  qed (use first_zero_correct [OF wf_rb_ok [OF assms(1)] le ne] in \<open>auto split: sum.splits\<close>)
  then show ?thesis by (simp split: sum.splits)
qed

lemma rb_find_set_correct:
  assumes "wf_rb b" "bm_start b \<le> s" "s \<le> e" "e \<le> bm_real_end b"
  shows "case rb_find_first_set b s e of Inr r \<Rightarrow> first_in (\<lambda>x. x \<in> rb_bits b) s e r
      | Inl err \<Rightarrow> err = ENOENT \<and> (\<forall>x. s \<le> x \<and> x \<le> e \<longrightarrow> x \<notin> rb_bits b)"
proof -
  have le: "unat (s - bm_start b) \<le> unat (e - bm_start b)" by (rule sub_le_sub [OF assms(2,3)])
  show ?thesis unfolding rb_find_first_set_def
  proof (rule find_lift [OF assms(2,3), of _ "\<lambda>n. n \<in> rb_set (bm_private b)"])
    show "(y \<in> rb_bits b) = (unat (y - bm_start b) \<in> rb_set (bm_private b))" if "s \<le> y" "y \<le> e" for y
      using that assms(2,4) by (auto simp: rb_bits_def)
  qed (use first_set_correct [OF wf_rb_ok [OF assms(1)] le] in \<open>auto split: sum.splits\<close>)
qed

text \<open>The code takes the missing root of an empty tree for the end of the search.\<close>

lemma rb_find_zero_empty:
  assumes "wf_rb b" "rb_bits b = {}" "bm_start b \<le> s" "s \<le> e"
  shows "rb_find_first_zero b s e = Inl ENOENT"
proof -
  have ok: "rb_ok (Suc (rb_top b)) (bm_private b)" by (rule wf_rb_ok [OF assms(1)])
  have se: "bm_start b \<le> bm_real_end b" using assms(1) by (simp add: wf_rb_def)
  have "n \<notin> rb_set (bm_private b)" for n
  proof
    assume n: "n \<in> rb_set (bm_private b)"
    then have "n \<le> unat (bm_real_end b - bm_start b)" using rb_set_bound [OF ok n] by (simp add: rb_top_def)
    note w = off_word [OF se this]
    have "of_nat n + bm_start b \<in> rb_bits b" using n w by (simp add: rb_bits_def)
    with assms(2) show False by simp
  qed
  then have e: "rb_set (bm_private b) = {}" by blast
  have "rb_root (bm_private b) = Leaf"
  proof (rule ccontr)
    assume "rb_root (bm_private b) \<noteq> Leaf"
    then obtain x where "x \<in> set (seq (rb_root (bm_private b)))" by (cases "rb_root (bm_private b)") auto
    with e ok show False by (force simp: rb_ok_def ext_ok_def ext_set_def)
  qed
  with sub_le_sub [OF assms(3,4)] show ?thesis by (simp add: rb_find_first_zero_def rb_first_zero_def)
qed

section \<open>New, copied, cleared and resized bitmaps\<close>

lemma with_private_facts [simp]:
  "bm_start (rb_with_private b p) = bm_start b" "bm_end (rb_with_private b p) = bm_end b"
  "bm_real_end (rb_with_private b p) = bm_real_end b" "bm_private (rb_with_private b p) = p"
  "same_header (rb_with_private b p) b" "rb_top (rb_with_private b p) = unat (bm_real_end b - bm_start b)"
  by (simp_all add: rb_with_private_def same_header_def rb_top_def)

lemma rb_ok_fresh:
  "rb_ok lim (rb_empty_private\<lparr>rb_root := d\<rparr>) \<longleftrightarrow> rb_inv d \<and> distinct (ids (seq d)) \<and> ext_ok lim (seq d)"
  by (simp add: rb_ok_def tree_ok_def cursors_ok_def rb_empty_private_def)

lemma fresh_root [simp]: "rb_root (rb_empty_private\<lparr>rb_root := d\<rparr>) = d"
  by (simp add: rb_empty_private_def)

lemma rb_empty_ok [simp]: "rb_ok lim \<lparr>rb_root = Leaf, rb_wcursor = None, rb_rcursor = None, rb_rcursor_next = None\<rparr>"
  by (simp add: rb_ok_def tree_ok_def cursors_ok_def rb_inv_def)

lemma rb_new_correct:
  assumes "bm_start b0 \<le> bm_end b0" "bm_end b0 \<le> bm_real_end b0" "unat (bm_real_end b0) < unat (bm_start b0) + 2 ^ 63"
    and "rb_new_bmap mal b0 = Inr b"
  shows "wf_rb b \<and> rb_bits b = {} \<and> same_header b b0"
proof -
  have "b = rb_with_private b0 rb_empty_private" using assms(4) by (simp add: rb_new_bmap_def split: if_splits)
  then show ?thesis using assms by (simp add: wf_rb_def rb_bits_def rb_empty_private_def)
qed

lemma rb_clear_correct: "wf_rb b \<Longrightarrow> wf_rb (rb_clear_bmap b) \<and> rb_bits (rb_clear_bmap b) = {}"
proof -
  assume wf: "wf_rb b"
  then have "distinct (ids (seq (rb_root (bm_private b))))" by (simp add: wf_rb_def rb_ok_def tree_ok_def)
  then show ?thesis using wf by (simp add: rb_clear_bmap_def rb_free_tree_correct wf_rb_def rb_bits_def)
qed

lemma rb_copy_correct:
  assumes "wf_rb a" "same_header d0 a" "rb_copy_bmap mal a d0 = Inr (a', d)"
  shows "wf_rb d \<and> rb_bits d = rb_bits a \<and> same_header d a \<and> wf_rb a' \<and> rb_bits a' = rb_bits a \<and> same_header a' a"
proof -
  let ?r = "rb_root (bm_private a)"
  have ok: "rb_ok (Suc (rb_top a)) (bm_private a)" by (rule wf_rb_ok [OF assms(1)])
  then have dist: "distinct (ids (seq ?r))" and eo: "ext_ok (Suc (rb_top a)) (seq ?r)"
    by (simp_all add: rb_ok_def tree_ok_def)
  obtain t where t: "copy_loop (length (seq ?r)) mal ?r (hd_id (seq ?r)) Leaf = Inr t"
    and d: "d = rb_with_private d0 (rb_empty_private\<lparr>rb_root := t\<rparr>)"
    and a': "a' = a\<lparr>bm_private := (bm_private a)\<lparr>rb_rcursor := None\<rparr>\<rparr>"
    using assms(3) by (auto simp: rb_copy_bmap_def Let_def first_id_seq hd_id_def split: if_splits sum.splits)
  have "rb_inv t \<and> distinct (ids (seq t)) \<and> shape (seq t) = shape (seq ?r)"
    using copy_loop_correct [of ?r "[]" "seq ?r" Leaf mal t] dist t by (simp add: rb_inv_def)
  moreover from this have "ext_ok (Suc (rb_top a)) (seq t)" "ext_set (seq t) = rb_set (bm_private a)"
    using shape_ok [of "seq t" "seq ?r"] eo by simp_all
  moreover have h: "bm_start d0 = bm_start a" "bm_end d0 = bm_end a" "bm_real_end d0 = bm_real_end a"
    using assms(2) by (simp_all add: same_header_def)
  ultimately have "wf_rb d \<and> rb_bits d = rb_bits a"
    using assms(1) unfolding d wf_rb_def by (simp add: rb_ok_fresh rb_bits_def rb_top_def)
  moreover have "wf_rb a'" using ok assms(1) unfolding a' wf_rb_def
    by (auto simp: rb_ok_def tree_ok_def cursors_ok_def)
  ultimately show ?thesis using assms(2) by (simp add: a' d rb_bits_def same_header_def rb_with_private_def)
qed

lemma rb_resize_correct:
  assumes wf: "wf_rb b" and se: "bm_start b \<le> bm_end b" "bm_start b \<le> ne" "ne \<le> nre"
    and big: "unat nre < unat (bm_start b) + 2 ^ 63" and r: "rb_resize_bmap mal b ne nre = (None, b')"
  shows "wf_rb b' \<and> rb_bits b' \<inter> {..ne} = rb_bits b \<inter> {..ne} \<inter> {..bm_end b}
    \<and> (\<forall>x. ne < x \<and> x \<le> nre \<longrightarrow> x \<in> rb_bits b')
    \<and> bm_start b' = bm_start b \<and> bm_end b' = ne \<and> bm_real_end b' = nre
    \<and> bm_magic b' = bm_magic b \<and> bm_cluster_bits b' = bm_cluster_bits b"
proof -
  let ?s = "bm_start b" and ?m = "if ne < bm_end b then ne else bm_end b"
  let ?lim = "unat (?m - ?s)" and ?hi = "Suc (unat (nre - ?s))"
  let ?bp = "(bm_private b)\<lparr>rb_rcursor := None, rb_wcursor := None\<rparr>"
  let ?bp1 = "?bp\<lparr>rb_root := rb_truncate ?lim (rb_root ?bp)\<rparr>"
  define bp2 where "bp2 = (if ne < nre then snd (rb_insert_extent (unat (ne + 1 - ?s)) (unat (nre - ne)) ?bp1) else ?bp1)"
  have b': "b' = b\<lparr>bm_end := ne, bm_real_end := nre, bm_private := bp2\<rparr>"
    using r unfolding rb_resize_bmap_def Let_def bp2_def by simp
  have ok: "rb_ok (Suc (rb_top b)) (bm_private b)" by (rule wf_rb_ok [OF wf])
  have tr: "rb_inv (rb_root ?bp1) \<and> distinct (ids (seq (rb_root ?bp1)))
    \<and> ext_ok (Suc ?lim) (seq (rb_root ?bp1)) \<and> rb_set ?bp1 = rb_set (bm_private b) \<inter> {..?lim}"
    using rb_truncate_correct [of "rb_root (bm_private b)" "Suc (rb_top b)" ?lim] ok by (simp add: rb_ok_def tree_ok_def)
  have ms: "?s \<le> ?m" "?m \<le> nre" "?s \<le> nre" using se order_trans [OF se(2,3)] by auto
  have "Suc ?lim \<le> ?hi" using sub_le_sub [OF ms(1,2)] by simp
  then have ok1: "rb_ok ?hi ?bp1" using tr ext_ok_le by (auto simp: rb_ok_def tree_ok_def cursors_ok_def)
  have bp2: "rb_ok ?hi bp2 \<and> rb_set bp2 = (rb_set (bm_private b) \<inter> {..?lim}) \<union> {n. unat (ne - ?s) < n \<and> n < ?hi}"
  proof (cases "ne < nre")
    case True
    have "unat (ne + 1) = unat ne + 1" using True unsigned_less [of nre, where ?'a = nat]
      by (simp add: word_less_nat_alt unat_word_ariths)
    then have ns: "?s \<le> ne + 1" and u: "unat (ne + 1 - ?s) = unat (ne - ?s) + 1"
      using se(2) unat_sub [OF se(2)] unat_sub [of ?s "ne + 1"] by (auto simp: word_le_nat_alt)
    have sum: "unat (ne + 1 - ?s) + unat (nre - ne) = ?hi"
      unfolding u unat_sub [OF se(2)] unat_sub [OF se(3)] unat_sub [OF ms(3)] using se(2,3) by (simp add: word_le_nat_alt)
    obtain rr where ins: "rb_insert_extent (unat (ne + 1 - ?s)) (unat (nre - ne)) ?bp1 = (rr, bp2)"
      using True by (simp add: bp2_def) (metis prod.collapse)
    from insert_extent_correct [OF ok1 eq_imp_le [OF sum] this, unfolded sum]
    have c: "rb_ok ?hi bp2" "rb_set bp2 = rb_set ?bp1 \<union> {unat (ne + 1 - ?s)..<?hi}" by blast+
    have "{unat (ne + 1 - ?s)..<?hi} = {n. unat (ne - ?s) < n \<and> n < ?hi}" unfolding u by auto
    then show ?thesis using c tr by simp
  next
    case False
    then have "ne = nre" using se(3) by simp
    then have e: "{n. unat (ne - ?s) < n \<and> n < ?hi} = {}" by auto
    have bp1: "bp2 = ?bp1" using False by (simp only: bp2_def if_False)
    show ?thesis unfolding bp1 e Un_empty_right using ok1 tr by blast
  qed
  have "wf_rb b'" unfolding wf_rb_def b' using ms(3) se(3) big bp2 by (simp add: rb_top_def)
  moreover have "x \<in> rb_bits b' \<and> x \<le> ne \<longleftrightarrow> x \<in> rb_bits b \<and> x \<le> ne \<and> x \<le> bm_end b" for x
  proof (cases "?s \<le> x \<and> x \<le> ne")
    case True
    then have xs: "?s \<le> x" "x \<le> ne" "x \<le> nre" using se(3) by auto
    have top: "unat (x - ?s) \<in> rb_set (bm_private b) \<Longrightarrow> x \<le> bm_real_end b"
      using rb_set_bound [OF ok, of "unat (x - ?s)"] off_le(1) [OF xs(1), of "bm_real_end b"] wf
      by (simp add: rb_top_def wf_rb_def)
    have "unat (x - ?s) \<le> unat (ne - ?s)" using off_le(1) [OF xs(1) se(2)] xs(2) by simp
    then have "x \<in> rb_bits b' \<longleftrightarrow> unat (x - ?s) \<in> rb_set (bm_private b) \<and> unat (x - ?s) \<le> ?lim"
      using xs bp2 by (auto simp: rb_bits_def b')
    also have "\<dots> \<longleftrightarrow> unat (x - ?s) \<in> rb_set (bm_private b) \<and> x \<le> bm_end b"
      using off_le(1) [OF xs(1) ms(1)] xs(2) by auto
    finally show ?thesis using xs top by (auto simp: rb_bits_def)
  qed (auto simp: rb_bits_def b')
  then have "rb_bits b' \<inter> {..ne} = rb_bits b \<inter> {..ne} \<inter> {..bm_end b}" by auto
  moreover have "x \<in> rb_bits b'" if "ne < x" "x \<le> nre" for x
  proof -
    have "?s \<le> x" using se(2) that(1) by (meson order.strict_implies_order order_trans)
    then show ?thesis using that bp2 off_le(2) [OF se(2), of x] off_le(1) [of ?s x nre] ms(3) by (simp add: rb_bits_def b')
  qed
  ultimately show ?thesis by (simp add: b')
qed

lemma rb_free_bmap_releases_all: "wf_rb b \<Longrightarrow> rb_free_bmap b = []"
  by (simp add: rb_free_bmap_def rb_free_tree_correct wf_rb_def rb_ok_def tree_ok_def)

text \<open>The tree of extents fulfils the contract of a back end.\<close>

lemma rbtree_ops [simp]:
  "op_new_bmap ext2fs_blkmap64_rbtree = rb_new_bmap" "op_copy_bmap ext2fs_blkmap64_rbtree = rb_copy_bmap"
  "op_resize_bmap ext2fs_blkmap64_rbtree = rb_resize_bmap"
  "op_mark_bmap ext2fs_blkmap64_rbtree = rb_mark_bmap" "op_unmark_bmap ext2fs_blkmap64_rbtree = rb_unmark_bmap"
  "op_test_bmap ext2fs_blkmap64_rbtree = rb_test_bmap"
  "op_mark_bmap_extent ext2fs_blkmap64_rbtree = rb_mark_bmap_extent"
  "op_unmark_bmap_extent ext2fs_blkmap64_rbtree = rb_unmark_bmap_extent"
  "op_test_clear_bmap_extent ext2fs_blkmap64_rbtree = rb_test_clear_bmap_extent"
  "op_set_bmap_range ext2fs_blkmap64_rbtree = rb_set_bmap_range"
  "op_get_bmap_range ext2fs_blkmap64_rbtree = rb_get_bmap_range"
  "op_clear_bmap ext2fs_blkmap64_rbtree = rb_clear_bmap"
  "op_find_first_zero ext2fs_blkmap64_rbtree = Some rb_find_first_zero"
  "op_find_first_set ext2fs_blkmap64_rbtree = Some rb_find_first_set"
  by (simp_all add: ext2fs_blkmap64_rbtree_def)

interpretation rb: bitmap_backend ext2fs_blkmap64_rbtree wf_rb rb_bits
proof (unfold_locales, unfold rbtree_ops option.inject, goal_cases)
  case (1 b x) then show ?case by (simp add: rb_bits_def)
next
  case (2 b) then show ?case by (simp add: wf_rb_def)
next
  case (3 b e) then show ?case by (simp add: wf_rb_def rb_bits_def rb_top_def)
next
  case (4 b0 mal b) then show ?case by (rule rb_new_correct)
next
  case (5 a d0 mal a' d) then show ?case by (rule rb_copy_correct)
next
  case (6 b x r b')
  then obtain p where "rb_insert_extent (unat (x - bm_start b)) 1 (bm_private b) = (r, p)" "b' = b\<lparr>bm_private := p\<rparr>"
    by (auto simp: rb_mark_bmap_def split: prod.splits)
  then show ?case using lift_insert [OF 6(1,2)] by simp
next
  case (7 b x r b')
  then obtain p where "rb_remove_extent (unat (x - bm_start b)) 1 (bm_private b) = (r, p)" "b' = b\<lparr>bm_private := p\<rparr>"
    by (auto simp: rb_unmark_bmap_def split: prod.splits)
  then show ?case using lift_remove [OF 7(1,2)] by simp
next
  case (8 b x r b')
  then obtain p where "rb_test_bit (bm_private b) (unat (x - bm_start b)) = (r, p)" "b' = b\<lparr>bm_private := p\<rparr>"
    by (auto simp: rb_test_bmap_def split: prod.splits)
  then show ?case using lift_test [OF 8(1,2)] by simp
next
  case (9 b x n) then show ?case using lift_insert [OF 9 prod.collapse [symmetric]] by (simp add: rb_mark_bmap_extent_def)
next
  case (10 b x n) then show ?case using lift_remove [OF 10 prod.collapse [symmetric]] by (simp add: rb_unmark_bmap_extent_def)
next
  case (11 b x n) then show ?case using lift_test_clear [OF 11] by (simp add: rb_test_clear_bmap_extent_def)
next
  case (12 b) then show ?case using rb_clear_correct [OF 12] by (simp add: rb_clear_bmap_def)
next
  case (13 b s e ff) then show ?case using rb_find_zero_correct [OF 13(1-5)] by simp
next
  case (14 b s e ff) then show ?case using rb_find_set_correct [OF 14(1-4)] by simp
next
  case (15 b ne nre mal b') then show ?case using rb_resize_correct [OF 15(1-4,6,7)] by blast
qed

section \<open>Properties\<close>

text \<open>
  C17.  Through the cursors and the tree, marking and unmarking a run of numbers are union and
  difference on the set the extents stand for, and keep the invariant of the tree: red-black,
  extents in order, non-empty and never adjacent, cursors on extents of the tree.
\<close>

theorem rb_extent_operations_correct:
  assumes "wf_rb b" "in_bmap b x (unat n)"
  shows "wf_rb (rb_mark_bmap_extent b x n) \<and> rb_bits (rb_mark_bmap_extent b x n) = rb_bits b \<union> run x (unat n)
    \<and> wf_rb (rb_unmark_bmap_extent b x n) \<and> rb_bits (rb_unmark_bmap_extent b x n) = rb_bits b - run x (unat n)
    \<and> (rb_test_clear_bmap_extent b x n \<longleftrightarrow> rb_bits b \<inter> run x (unat n) = {})"
  using rb.mark_extent_ok [OF assms] rb.unmark_extent_ok [OF assms] rb.test_clear_ok [OF assms] by simp

definition rb_demo_new :: rb_bmap where
  "rb_demo_new = \<lparr>bm_magic = EXT2_ET_MAGIC_BLOCK_BITMAP64, bm_flags = 0, bm_start = 1, bm_end = 100, bm_real_end = 120,
     bm_cluster_bits = 0, bm_private = rb_empty_private\<rparr>"

lemma wf_rb_demo_new: "wf_rb rb_demo_new" "rb_bits rb_demo_new = {}"
  by (simp_all add: wf_rb_def rb_demo_new_def rb_bits_def rb_empty_private_def)

text \<open>The numbers 10 to 29, in one extent.\<close>

definition rb_demo :: rb_bmap where
  "rb_demo = rb_mark_bmap_extent rb_demo_new 10 20"

lemma demo_header [simp]: "bm_start rb_demo = 1" "bm_end rb_demo = 100" "bm_real_end rb_demo = 120"
  by (simp_all add: rb_demo_def rb_mark_bmap_extent_def rb_demo_new_def)

lemma wf_rb_demo: "wf_rb rb_demo" "x \<in> rb_bits rb_demo \<longleftrightarrow> 10 \<le> x \<and> x < 30"
proof -
  have "in_bmap rb_demo_new 10 (unat (20 :: u32))" by (simp add: in_bmap_def rb_demo_new_def)
  from rb.mark_extent_ok [OF wf_rb_demo_new(1) this]
  show "wf_rb rb_demo" "x \<in> rb_bits rb_demo \<longleftrightarrow> 10 \<le> x \<and> x < 30"
    by (auto simp: rb_demo_def wf_rb_demo_new run_def word_less_nat_alt)
qed

lemma rb_extent_operations_correct_witness:
  "wf_rb (rb_unmark_bmap_extent rb_demo 15 5)
   \<and> 14 \<in> rb_bits (rb_unmark_bmap_extent rb_demo 15 5) \<and> 15 \<notin> rb_bits (rb_unmark_bmap_extent rb_demo 15 5)
   \<and> 20 \<in> rb_bits (rb_unmark_bmap_extent rb_demo 15 5)"
proof -
  have "in_bmap rb_demo 15 (unat (5 :: u32))" by (simp add: in_bmap_def)
  from rb_extent_operations_correct [OF wf_rb_demo(1) this] show ?thesis
    by (simp add: wf_rb_demo(2) run_def)
qed

text \<open>
  C20.  Marking, unmarking and testing one number are insertion, deletion and membership; the results of
  marking and testing say whether the number was in the set, and testing, which moves the read cursor
  and answers from the cursors when it can, leaves the set and the invariant as they are.
\<close>

theorem rb_bit_operations_correct:
  assumes "wf_rb b" "in_bmap b x 1"
  shows "wf_rb (snd (rb_mark_bmap b x)) \<and> rb_bits (snd (rb_mark_bmap b x)) = insert x (rb_bits b)
    \<and> (fst (rb_mark_bmap b x) \<noteq> 0) = (x \<in> rb_bits b)
    \<and> wf_rb (snd (rb_unmark_bmap b x)) \<and> rb_bits (snd (rb_unmark_bmap b x)) = rb_bits b - {x}
    \<and> (x \<in> rb_bits b \<longrightarrow> fst (rb_unmark_bmap b x) \<noteq> 0)
    \<and> wf_rb (snd (rb_test_bmap b x)) \<and> rb_bits (snd (rb_test_bmap b x)) = rb_bits b
    \<and> (fst (rb_test_bmap b x) \<noteq> 0) = (x \<in> rb_bits b)"
  using rb.mark_ok [OF assms, unfolded rbtree_ops, OF prod.collapse [symmetric]]
    rb.unmark_ok [OF assms, unfolded rbtree_ops, OF prod.collapse [symmetric]]
    rb.test_ok [OF assms, unfolded rbtree_ops, OF prod.collapse [symmetric]] by blast

lemma rb_bit_operations_correct_witness:
  "fst (rb_test_bmap rb_demo 29) \<noteq> 0 \<and> fst (rb_test_bmap rb_demo 30) = 0 \<and> fst (rb_mark_bmap rb_demo 30) = 0"
proof -
  have "in_bmap rb_demo 29 1" "in_bmap rb_demo 30 1" by (simp_all add: in_bmap_def)
  from this [THEN rb_bit_operations_correct [OF wf_rb_demo(1)]] show ?thesis by (simp add: wf_rb_demo(2))
qed

text \<open>
  The value of unmarking one number says "was set" also for a clear number just before an extent: the
  comparison \<open>start + count < ext->start\<close> of \<open>rb_remove_extent\<close> stops one place too early.
\<close>

lemma rb_unmark_reports_clear_number:
  "9 \<notin> rb_bits rb_demo \<and> fst (rb_unmark_bmap rb_demo 9) = 1 \<and> rb_bits (snd (rb_unmark_bmap rb_demo 9)) = rb_bits rb_demo"
proof -
  have v: "fst (rb_unmark_bmap rb_demo 9) = 1" by code_simp
  have "in_bmap rb_demo 9 1" by (simp add: in_bmap_def)
  from rb.unmark_ok [OF wf_rb_demo(1) this, unfolded rbtree_ops, OF prod.collapse [symmetric]]
  have "rb_bits (snd (rb_unmark_bmap rb_demo 9)) = rb_bits rb_demo - {9}" by blast
  moreover have "9 \<notin> rb_bits rb_demo" by (simp add: wf_rb_demo(2))
  ultimately show ?thesis using v by simp
qed

text \<open>
  C21.  The two searches return the first number of the interval that is out of the set, or in it, and
  \<open>ENOENT\<close> when there is none; with one exception, which is a defect of the code: on an empty bitmap
  the search for a number out of the set returns \<open>ENOENT\<close>, though its start is the answer.
\<close>

theorem rb_find_first_correct:
  assumes "wf_rb b" "bm_start b \<le> s" "s \<le> e" "e \<le> bm_real_end b"
  shows "(if rb_bits b = {} then rb_find_first_zero b s e = Inl ENOENT
      else case rb_find_first_zero b s e of Inr r \<Rightarrow> first_in (\<lambda>x. x \<notin> rb_bits b) s e r
      | Inl err \<Rightarrow> err = ENOENT \<and> (\<forall>x. s \<le> x \<and> x \<le> e \<longrightarrow> x \<in> rb_bits b))
    \<and> (case rb_find_first_set b s e of Inr r \<Rightarrow> first_in (\<lambda>x. x \<in> rb_bits b) s e r
      | Inl err \<Rightarrow> err = ENOENT \<and> (\<forall>x. s \<le> x \<and> x \<le> e \<longrightarrow> x \<notin> rb_bits b))"
  using rb_find_zero_correct [OF assms(1) _ assms(2-4)] rb_find_zero_empty [OF assms(1) _ assms(2,3)] rb_find_set_correct [OF assms]
  by simp

lemma first_in_unique: "first_in P s e r \<Longrightarrow> first_in P s e r' \<Longrightarrow> r' = r"
  unfolding first_in_def by (meson antisym not_le)

lemma rb_find_first_correct_witness:
  "rb_find_first_zero rb_demo 12 120 = Inr 30 \<and> rb_find_first_set rb_demo 3 120 = Inr 10"
proof -
  have "10 \<in> rb_bits rb_demo" by (simp add: wf_rb_demo(2))
  then have ne: "rb_bits rb_demo \<noteq> {}" by blast
  note f = rb_find_first_correct [OF wf_rb_demo(1)]
  have z: "case rb_find_first_zero rb_demo 12 120 of Inr r \<Rightarrow> first_in (\<lambda>x. x \<notin> rb_bits rb_demo) 12 120 r
      | Inl err \<Rightarrow> err = ENOENT \<and> (\<forall>x. 12 \<le> x \<and> x \<le> 120 \<longrightarrow> x \<in> rb_bits rb_demo)"
    using f [of 12 120] ne by simp
  have s: "case rb_find_first_set rb_demo 3 120 of Inr r \<Rightarrow> first_in (\<lambda>x. x \<in> rb_bits rb_demo) 3 120 r
      | Inl err \<Rightarrow> err = ENOENT \<and> (\<forall>x. 3 \<le> x \<and> x \<le> 120 \<longrightarrow> x \<notin> rb_bits rb_demo)"
    using f [of 3 120] by simp
  have k: "first_in (\<lambda>x. x \<notin> rb_bits rb_demo) 12 120 30" "first_in (\<lambda>x. x \<in> rb_bits rb_demo) 3 120 10"
    by (auto simp: first_in_def wf_rb_demo(2) intro: order_trans [of 10 12])
  have "\<exists>r. rb_find_first_zero rb_demo 12 120 = Inr r \<and> first_in (\<lambda>x. x \<notin> rb_bits rb_demo) 12 120 r"
    using z k(1) by (cases "rb_find_first_zero rb_demo 12 120") (auto simp: first_in_def)
  moreover have "\<exists>r. rb_find_first_set rb_demo 3 120 = Inr r \<and> first_in (\<lambda>x. x \<in> rb_bits rb_demo) 3 120 r"
    using s k(2) by (cases "rb_find_first_set rb_demo 3 120") (auto simp: first_in_def)
  ultimately show ?thesis using first_in_unique [OF k(1)] first_in_unique [OF k(2)] by metis
qed

text \<open>The exception: a new bitmap.\<close>

lemma rb_find_first_zero_empty: "rb_find_first_zero rb_demo_new 1 120 = Inl ENOENT"
  by (simp add: rb_find_first_zero_def rb_first_zero_def rb_demo_new_def rb_empty_private_def)

text \<open>Reading a range of an empty tree leaves the buffer of the caller as it was.\<close>

lemma rb_get_range_empty: "rb_get_bmap_range rb_demo_new s n out = out"
  by (simp add: rb_get_bmap_range_def rb_demo_new_def rb_empty_private_def)

text \<open>
  Resizing, to any new end and real end, keeps the numbers up to the smaller of the old and the
  new end, clears the rest up to the new end, sets the padding behind it, and keeps the invariant.
\<close>

theorem rb_resize_keeps_set:
  assumes "wf_rb b" "bm_start b \<le> bm_end b" "bm_start b \<le> ne" "ne \<le> nre"
    and "unat nre < unat (bm_start b) + 2 ^ 63" and "rb_resize_bmap mal b ne nre = (None, b')"
  shows "wf_rb b' \<and> bm_end b' = ne \<and> bm_real_end b' = nre
    \<and> rb_bits b' \<inter> {..ne} = rb_bits b \<inter> {..ne} \<inter> {..bm_end b}
    \<and> (\<forall>x. ne < x \<and> x \<le> nre \<longrightarrow> x \<in> rb_bits b')"
  using rb_resize_correct [OF assms] by blast

lemma rb_resize_keeps_set_witness:
  "\<exists>b'. rb_resize_bmap (\<lambda>_. True) rb_demo 20 200 = (None, b') \<and> 20 \<in> rb_bits b' \<and> 200 \<in> rb_bits b' \<and> 5 \<notin> rb_bits b'"
proof -
  obtain b' where r: "rb_resize_bmap (\<lambda>_. True) rb_demo 20 200 = (None, b')"
    by (simp add: rb_resize_bmap_def Let_def)
  have p: "rb_bits b' \<inter> {..20} = rb_bits rb_demo \<inter> {..20} \<inter> {..bm_end rb_demo}
    \<and> (\<forall>x. 20 < x \<and> x \<le> 200 \<longrightarrow> x \<in> rb_bits b')"
    using rb_resize_keeps_set [OF wf_rb_demo(1) _ _ _ _ r] by simp
  moreover have "20 \<in> rb_bits rb_demo \<inter> {..20} \<inter> {..bm_end rb_demo}" "5 \<notin> rb_bits rb_demo \<inter> {..20} \<inter> {..bm_end rb_demo}"
    by (simp_all add: wf_rb_demo(2))
  ultimately have "20 \<in> rb_bits b' \<inter> {..20}" "5 \<notin> rb_bits b' \<inter> {..20}" "200 \<in> rb_bits b'" by auto
  then show ?thesis using r by auto
qed

end
