(* ===== verification/Gen_Bitmap32.thy ===== *)
theory Gen_Bitmap32
  imports Bit_Loops
begin

text \<open>
  The old bitmaps with 32-bit numbers, \<open>lib/ext2fs/gen_bitmap.c\<close>: a structure with an array of bytes,
  in which bit number \<open>x - start\<close> stands for \<open>x\<close>.  The well-formedness invariant says that the array
  is long enough for \<open>start..real_end\<close>; the abstraction is the set of the numbers of that interval
  whose bit is set.

  The functions of this theory take a structure of the 32-bit kind.  Called with a bitmap of the
  64-bit kind most of them forward to the functions of \<open>gen_bitmap64.c\<close>; that dispatch is in theory
  \<open>Gen_Bitmap64\<close>.  The warnings they print are left out, and so is the handle of the file system.
  Loops that may not end, because their counter wraps around below the largest number, are partial.
\<close>

section \<open>The structure\<close>

text \<open>The magic number 0 of a freed structure is \<open>None\<close>.\<close>

record bitmap32 =
  b32_magic :: "errcode option"
  b32_start :: u32
  b32_end :: u32
  b32_real_end :: u32
  b32_description :: "string option"
  b32_bitmap :: "u8 list"

definition ext2fs_is_32_bitmap :: "errcode option \<Rightarrow> bool" where
  "ext2fs_is_32_bitmap magic \<longleftrightarrow> magic = Some EXT2_ET_MAGIC_GENERIC_BITMAP
     \<or> magic = Some EXT2_ET_MAGIC_BLOCK_BITMAP \<or> magic = Some EXT2_ET_MAGIC_INODE_BITMAP"

definition check_magic :: "bitmap32 option \<Rightarrow> errcode option" where
  "check_magic bitmap =
     (case bitmap of
        None \<Rightarrow> Some EXT2_ET_MAGIC_GENERIC_BITMAP
      | Some b \<Rightarrow> if \<not> (b32_magic b = Some EXT2_ET_MAGIC_GENERIC_BITMAP \<or> b32_magic b = Some EXT2_ET_MAGIC_INODE_BITMAP
                        \<or> b32_magic b = Some EXT2_ET_MAGIC_BLOCK_BITMAP)
                  then Some EXT2_ET_MAGIC_GENERIC_BITMAP else None)"

section \<open>Making, copying and freeing\<close>

text \<open>
  \<open>b32_bytes\<close> is the number of bytes in use, \<open>b32_alloc\<close> the number allocated.  \<open>memcpy\<close> reads that
  many bytes of the initial map; \<open>junk\<close> stands for fresh memory and for what lies behind the map.
\<close>

definition b32_bytes :: "u32 \<Rightarrow> u32 \<Rightarrow> nat" where
  "b32_bytes start real_end = unat ((real_end - start) div 8 + 1)"

definition b32_alloc :: "u32 \<Rightarrow> u32 \<Rightarrow> nat" where
  "b32_alloc start real_end = (b32_bytes start real_end + 7) div 4 * 4"

definition ext2fs_make_generic_bitmap ::
  "u8 \<Rightarrow> malloc \<Rightarrow> errcode option \<Rightarrow> u32 \<Rightarrow> u32 \<Rightarrow> u32 \<Rightarrow> string option \<Rightarrow> u8 list option \<Rightarrow> errcode + bitmap32" where
  "ext2fs_make_generic_bitmap junk mal magic start en real_end descr init_map =
     (if \<not> mal 88 then Inl EXT2_ET_NO_MEMORY
      else if (case descr of Some d \<Rightarrow> \<not> mal (length d + 1) | None \<Rightarrow> False) then Inl EXT2_ET_NO_MEMORY
      else let sz = b32_alloc start real_end in
           if \<not> mal sz then Inl EXT2_ET_NO_MEMORY
           else Inr \<lparr>b32_magic = magic, b32_start = start, b32_end = en, b32_real_end = real_end,
                     b32_description = descr,
                     b32_bitmap = (case init_map of
                         Some m \<Rightarrow> take sz (m @ replicate sz junk)
                       | None \<Rightarrow> replicate sz 0)\<rparr>)"

definition ext2fs_allocate_generic_bitmap ::
  "u8 \<Rightarrow> malloc \<Rightarrow> u32 \<Rightarrow> u32 \<Rightarrow> u32 \<Rightarrow> string option \<Rightarrow> errcode + bitmap32" where
  "ext2fs_allocate_generic_bitmap junk mal start en real_end descr =
     ext2fs_make_generic_bitmap junk mal (Some EXT2_ET_MAGIC_GENERIC_BITMAP) start en real_end descr None"

definition ext2fs_copy_generic_bitmap :: "u8 \<Rightarrow> malloc \<Rightarrow> bitmap32 \<Rightarrow> errcode + bitmap32" where
  "ext2fs_copy_generic_bitmap junk mal src =
     ext2fs_make_generic_bitmap junk mal (b32_magic src) (b32_start src) (b32_end src) (b32_real_end src)
       (b32_description src) (Some (b32_bitmap src))"

text \<open>What is left of the structure: nothing, unless the magic number is wrong.\<close>

definition ext2fs_free_generic_bitmap :: "bitmap32 option \<Rightarrow> bitmap32 option" where
  "ext2fs_free_generic_bitmap gen_bitmap =
     (if check_magic gen_bitmap \<noteq> None then gen_bitmap else None)"

section \<open>One number\<close>

definition ext2fs_test_generic_bitmap :: "bitmap32 \<Rightarrow> u32 \<Rightarrow> u32" where
  "ext2fs_test_generic_bitmap bitmap bitno =
     (if \<not> ext2fs_is_32_bitmap (b32_magic bitmap) then 0
      else if bitno < b32_start bitmap \<or> bitno > b32_end bitmap then 0
      else ext2fs_test_bit (bitno - b32_start bitmap) (b32_bitmap bitmap))"

definition ext2fs_mark_generic_bitmap :: "bitmap32 \<Rightarrow> u32 \<Rightarrow> u32 \<times> bitmap32" where
  "ext2fs_mark_generic_bitmap bitmap bitno =
     (if \<not> ext2fs_is_32_bitmap (b32_magic bitmap) then (0, bitmap)
      else if bitno < b32_start bitmap \<or> bitno > b32_end bitmap then (0, bitmap)
      else case ext2fs_set_bit (bitno - b32_start bitmap) (b32_bitmap bitmap) of
             (r, xs) \<Rightarrow> (r, bitmap\<lparr>b32_bitmap := xs\<rparr>))"

definition ext2fs_unmark_generic_bitmap :: "bitmap32 \<Rightarrow> u32 \<Rightarrow> u32 \<times> bitmap32" where
  "ext2fs_unmark_generic_bitmap bitmap bitno =
     (if \<not> ext2fs_is_32_bitmap (b32_magic bitmap) then (0, bitmap)
      else if bitno < b32_start bitmap \<or> bitno > b32_end bitmap then (0, bitmap)
      else case ext2fs_clear_bit (bitno - b32_start bitmap) (b32_bitmap bitmap) of
             (r, xs) \<Rightarrow> (r, bitmap\<lparr>b32_bitmap := xs\<rparr>))"

definition ext2fs_get_generic_bitmap_start :: "bitmap32 \<Rightarrow> u32" where
  "ext2fs_get_generic_bitmap_start bitmap =
     (if \<not> ext2fs_is_32_bitmap (b32_magic bitmap) then 0 else b32_start bitmap)"

definition ext2fs_get_generic_bitmap_end :: "bitmap32 \<Rightarrow> u32" where
  "ext2fs_get_generic_bitmap_end bitmap =
     (if \<not> ext2fs_is_32_bitmap (b32_magic bitmap) then 0 else b32_end bitmap)"

section \<open>The whole bitmap\<close>

definition ext2fs_clear_generic_bitmap :: "bitmap32 \<Rightarrow> bitmap32" where
  "ext2fs_clear_generic_bitmap bitmap =
     (if \<not> ext2fs_is_32_bitmap (b32_magic bitmap) then bitmap
      else let n = b32_bytes (b32_start bitmap) (b32_real_end bitmap)
           in bitmap\<lparr>b32_bitmap := replicate n 0 @ drop n (b32_bitmap bitmap)\<rparr>)"

text \<open>The old end is returned through \<open>oend\<close>, on success.\<close>

definition ext2fs_fudge_generic_bitmap_end ::
  "bitmap32 \<Rightarrow> errcode \<Rightarrow> errcode \<Rightarrow> u32 \<Rightarrow> errcode + u32 \<times> bitmap32" where
  "ext2fs_fudge_generic_bitmap_end bitmap magic neq en =
     (if b32_magic bitmap \<noteq> Some magic then Inl magic
      else if en > b32_real_end bitmap then Inl neq
      else Inr (b32_end bitmap, bitmap\<lparr>b32_end := en\<rparr>))"

definition ext2fs_resize_generic_bitmap ::
  "u8 \<Rightarrow> malloc \<Rightarrow> errcode \<Rightarrow> u32 \<Rightarrow> u32 \<Rightarrow> bitmap32 \<Rightarrow> errcode option \<times> bitmap32" where
  "ext2fs_resize_generic_bitmap junk mal magic new_end new_real_end bmap =
     (if b32_magic bmap \<noteq> Some magic then (Some magic, bmap)
      else
        let arr = (if new_end > b32_end bmap
                   then clear_down ext2fs_clear_bit (b32_start bmap) (b32_end bmap)
                          (if b32_real_end bmap > new_end then new_end else b32_real_end bmap) (b32_bitmap bmap)
                   else b32_bitmap bmap)
        in if new_real_end = b32_real_end bmap
           then (None, bmap\<lparr>b32_bitmap := arr, b32_end := new_end\<rparr>)
           else let sz = b32_bytes (b32_start bmap) (b32_real_end bmap);
                    new_size = b32_bytes (b32_start bmap) new_real_end
                in if sz \<noteq> new_size \<and> \<not> mal new_size then (Some EXT2_ET_NO_MEMORY, bmap\<lparr>b32_bitmap := arr\<rparr>)
                   else let arr1 = (if sz \<noteq> new_size then resize_arr junk new_size arr else arr);
                            arr2 = (if new_size > sz
                                    then take sz arr1 @ replicate (new_size - sz) 0 @ drop new_size arr1 else arr1)
                        in (None, bmap\<lparr>b32_bitmap := arr2, b32_end := new_end, b32_real_end := new_real_end\<rparr>))"

text \<open>The last loop of the comparison; \<open>memcmp\<close> compares the whole bytes before.\<close>

partial_function (option) compare_loop :: "bitmap32 \<Rightarrow> bitmap32 \<Rightarrow> errcode \<Rightarrow> u32 \<Rightarrow> errcode option option" where
  "compare_loop bm1 bm2 neq i =
     (if i \<le> b32_end bm1
      then if ext2fs_test_generic_bitmap bm1 i \<noteq> ext2fs_test_generic_bitmap bm2 i then Some (Some neq)
           else compare_loop bm1 bm2 neq (i + 1)
      else Some None)"

definition ext2fs_compare_generic_bitmap ::
  "errcode \<Rightarrow> errcode \<Rightarrow> bitmap32 option \<Rightarrow> bitmap32 option \<Rightarrow> errcode option option" where
  "ext2fs_compare_generic_bitmap magic neq gen_bm1 gen_bm2 =
     (case gen_bm1 of
        None \<Rightarrow> Some (Some magic)
      | Some bm1 \<Rightarrow>
          if b32_magic bm1 \<noteq> Some magic then Some (Some magic)
          else (case gen_bm2 of
                  None \<Rightarrow> Some (Some magic)
                | Some bm2 \<Rightarrow>
                    if b32_magic bm2 \<noteq> Some magic then Some (Some magic)
                    else let n = unat ((b32_end bm1 - b32_start bm1) div 8) in
                      if b32_start bm1 \<noteq> b32_start bm2 \<or> b32_end bm1 \<noteq> b32_end bm2
                         \<or> take n (b32_bitmap bm1) \<noteq> take n (b32_bitmap bm2)
                      then Some (Some neq)
                      else compare_loop bm1 bm2 neq (b32_end bm1 - ((b32_end bm1 - b32_start bm1) mod 8))))"

function padding_loop :: "u32 \<Rightarrow> u32 \<Rightarrow> u32 \<Rightarrow> u32 \<Rightarrow> u8 list \<Rightarrow> u8 list" where
  "padding_loop en real_end i j xs =
     (if i \<le> real_end \<and> i > en then padding_loop en real_end (i + 1) (j + 1) (snd (ext2fs_set_bit j xs)) else xs)"
  by pat_completeness auto
termination
proof (relation "measure (\<lambda>(en, real_end, i, j, xs). if i > en then 2 ^ 32 - unat i else 0)")
  fix en real_end i j :: u32 and xs :: "u8 list"
  assume "i \<le> real_end \<and> i > en"
  then show "((en, real_end, i + 1, j + 1, snd (ext2fs_set_bit j xs)), en, real_end, i, j, xs)
    \<in> measure (\<lambda>(en, real_end, i, j, xs). if i > en then 2 ^ 32 - unat i else 0)"
    using unsigned_less [of i, where ?'a = nat] by (cases "unat i + 1 = 2 ^ 32") (auto simp: word_less_nat_alt unat_word_ariths)
qed simp

declare padding_loop.simps [simp del]

definition ext2fs_set_generic_bitmap_padding :: "bitmap32 \<Rightarrow> bitmap32" where
  "ext2fs_set_generic_bitmap_padding bm =
     (let i = b32_end bm + 1
      in bm\<lparr>b32_bitmap := padding_loop (b32_end bm) (b32_real_end bm) i (i - b32_start bm) (b32_bitmap bm)\<rparr>)"

section \<open>Ranges of bits as bytes\<close>

text \<open>Byte \<open>start div 8\<close> of the array, although bit 0 of the array stands for \<open>b32_start\<close>.\<close>

definition ext2fs_get_generic_bitmap_range :: "bitmap32 option \<Rightarrow> errcode \<Rightarrow> u32 \<Rightarrow> u32 \<Rightarrow> u8 list \<Rightarrow> errcode + u8 list" where
  "ext2fs_get_generic_bitmap_range gen_bmap magic start num out =
     (case gen_bmap of
        None \<Rightarrow> Inl magic
      | Some bmap \<Rightarrow>
          if b32_magic bmap \<noteq> Some magic then Inl magic
          else if start < b32_start bmap \<or> start + num - 1 > b32_real_end bmap then Inl EXT2_ET_INVALID_ARGUMENT
          else let n = unat ((num + 7) div 8)
               in Inr (take n (drop (unat (start div 8)) (b32_bitmap bmap)) @ drop n out))"

definition ext2fs_set_generic_bitmap_range :: "bitmap32 option \<Rightarrow> errcode \<Rightarrow> u32 \<Rightarrow> u32 \<Rightarrow> u8 list \<Rightarrow> errcode + bitmap32" where
  "ext2fs_set_generic_bitmap_range gen_bmap magic start num inp =
     (case gen_bmap of
        None \<Rightarrow> Inl magic
      | Some bmap \<Rightarrow>
          if b32_magic bmap \<noteq> Some magic then Inl magic
          else if start < b32_start bmap \<or> start + num - 1 > b32_real_end bmap then Inl EXT2_ET_INVALID_ARGUMENT
          else let n = unat ((num + 7) div 8); p = unat (start div 8); xs = b32_bitmap bmap
               in Inr (bmap\<lparr>b32_bitmap := take p xs @ take n inp @ drop (p + n) xs\<rparr>))"

section \<open>Searches\<close>

text \<open>The loop \<open>while (start <= end)\<close> for a bit of value \<open>v\<close>.\<close>

partial_function (option) find_loop32 :: "bool \<Rightarrow> bitmap32 \<Rightarrow> u32 \<Rightarrow> u32 \<Rightarrow> (errcode + u32) option" where
  "find_loop32 v bitmap start en =
     (if start \<le> en
      then if (ext2fs_test_bit (start - b32_start bitmap) (b32_bitmap bitmap) \<noteq> 0) = v then Some (Inr start)
           else find_loop32 v bitmap (start + 1) en
      else Some (Inl ENOENT))"

definition ext2fs_find_first_zero_generic_bitmap :: "bitmap32 \<Rightarrow> u32 \<Rightarrow> u32 \<Rightarrow> (errcode + u32) option" where
  "ext2fs_find_first_zero_generic_bitmap bitmap start en =
     (if start < b32_start bitmap \<or> en > b32_end bitmap \<or> start > en then Some (Inl EINVAL)
      else find_loop32 False bitmap start en)"

definition ext2fs_find_first_set_generic_bitmap :: "bitmap32 \<Rightarrow> u32 \<Rightarrow> u32 \<Rightarrow> (errcode + u32) option" where
  "ext2fs_find_first_set_generic_bitmap bitmap start en =
     (if start < b32_start bitmap \<or> en > b32_end bitmap \<or> start > en then Some (Inl EINVAL)
      else find_loop32 True bitmap start en)"

section \<open>Runs\<close>

text \<open>
  \<open>num\<close> is an \<open>int\<close>.  A wrong magic number makes the two tests return it as an \<open>int\<close>, which the callers
  take for true: \<open>Inl\<close>.
\<close>

definition ext2fs_test_clear_generic_bitmap_range :: "bitmap32 \<Rightarrow> u32 \<Rightarrow> u32 \<Rightarrow> bool" where
  "ext2fs_test_clear_generic_bitmap_range bitmap start len =
     test_clear_range (b32_bitmap bitmap) (unat (start - b32_start bitmap)) (unat len)"

definition ext2fs_test_block_bitmap_range :: "bitmap32 \<Rightarrow> u32 \<Rightarrow> u32 \<Rightarrow> errcode + bool" where
  "ext2fs_test_block_bitmap_range bitmap block num =
     (if b32_magic bitmap \<noteq> Some EXT2_ET_MAGIC_BLOCK_BITMAP then Inl EXT2_ET_MAGIC_BLOCK_BITMAP
      else if block < b32_start bitmap \<or> block > b32_real_end bitmap \<or> block + num - 1 > b32_real_end bitmap then Inr False
      else Inr (ext2fs_test_clear_generic_bitmap_range bitmap block num))"

definition ext2fs_test_inode_bitmap_range :: "bitmap32 \<Rightarrow> u32 \<Rightarrow> u32 \<Rightarrow> errcode + bool" where
  "ext2fs_test_inode_bitmap_range bitmap inode num =
     (if b32_magic bitmap \<noteq> Some EXT2_ET_MAGIC_INODE_BITMAP then Inl EXT2_ET_MAGIC_INODE_BITMAP
      else if inode < b32_start bitmap \<or> inode > b32_real_end bitmap \<or> inode + num - 1 > b32_real_end bitmap then Inr False
      else Inr (ext2fs_test_clear_generic_bitmap_range bitmap inode num))"

definition ext2fs_mark_block_bitmap_range :: "bitmap32 \<Rightarrow> u32 \<Rightarrow> u32 \<Rightarrow> bitmap32" where
  "ext2fs_mark_block_bitmap_range bitmap block num =
     (if block < b32_start bitmap \<or> block > b32_end bitmap \<or> block + num - 1 > b32_end bitmap then bitmap
      else bitmap\<lparr>b32_bitmap := for_bits ext2fs_fast_set_bit (b32_start bitmap) block 0 (nat (sint num)) (b32_bitmap bitmap)\<rparr>)"

definition ext2fs_unmark_block_bitmap_range :: "bitmap32 \<Rightarrow> u32 \<Rightarrow> u32 \<Rightarrow> bitmap32" where
  "ext2fs_unmark_block_bitmap_range bitmap block num =
     (if block < b32_start bitmap \<or> block > b32_end bitmap \<or> block + num - 1 > b32_end bitmap then bitmap
      else bitmap\<lparr>b32_bitmap := for_bits ext2fs_fast_clear_bit (b32_start bitmap) block 0 (nat (sint num)) (b32_bitmap bitmap)\<rparr>)"

section \<open>Invariant and abstraction\<close>

definition wf32 :: "bitmap32 \<Rightarrow> bool" where
  "wf32 b \<longleftrightarrow> ext2fs_is_32_bitmap (b32_magic b) \<and> b32_start b \<le> b32_end b \<and> b32_end b \<le> b32_real_end b
     \<and> b32_bytes (b32_start b) (b32_real_end b) \<le> length (b32_bitmap b)"

definition bits32 :: "bitmap32 \<Rightarrow> u32 set" where
  "bits32 b = {x. b32_start b \<le> x \<and> x \<le> b32_real_end b \<and> byte_bit (b32_bitmap b) (unat (x - b32_start b))}"

lemma b32_bytes_eq: "b32_bytes s e = unat (e - s) div 8 + 1"
proof -
  have "unat (e - s) div 8 + 1 < 2 ^ 32" using unsigned_less [of "e - s", where ?'a = nat] by simp
  moreover have "unat ((e - s) div 8) = unat (e - s) div 8" by (simp add: unat_div)
  ultimately show ?thesis by (simp add: b32_bytes_def unat_word_ariths)
qed

lemma sub_mono: "s \<le> x \<Longrightarrow> x \<le> y \<Longrightarrow> unat (x - s) \<le> unat (y - s)" for s x y :: "'a::len word"
  using unat_sub [of s x] unat_sub [of s y] order_trans [of s x y] by (simp add: word_le_nat_alt diff_le_mono)

lemma sub_inject: "unat (x - s) = unat (y - s) \<longleftrightarrow> x = y" for x y s :: "'a::len word"
  by (simp add: word_unat_eq_iff [symmetric])

lemma b32_index:
  assumes "wf32 b" "b32_start b \<le> x" "x \<le> b32_real_end b"
  shows "unat (x - b32_start b) < 8 * length (b32_bitmap b)" "unat (x - b32_start b) div 8 < length (b32_bitmap b)"
proof -
  have "unat (x - b32_start b) \<le> unat (b32_real_end b - b32_start b)" by (rule sub_mono [OF assms(2,3)])
  then show "unat (x - b32_start b) < 8 * length (b32_bitmap b)"
    using assms(1) unfolding wf32_def b32_bytes_eq by linarith
  then show "unat (x - b32_start b) div 8 < length (b32_bitmap b)" by linarith
qed

lemma wf32_array: "wf32 b \<Longrightarrow> length xs = length (b32_bitmap b) \<Longrightarrow> wf32 (b\<lparr>b32_bitmap := xs\<rparr>)"
  by (simp add: wf32_def)

lemma bits32_array:
  "x \<in> bits32 (b\<lparr>b32_bitmap := xs\<rparr>) \<longleftrightarrow> b32_start b \<le> x \<and> x \<le> b32_real_end b \<and> byte_bit xs (unat (x - b32_start b))"
  by (simp add: bits32_def)

lemma in_bits32: "b32_start b \<le> x \<Longrightarrow> x \<le> b32_real_end b \<Longrightarrow> x \<in> bits32 b \<longleftrightarrow> byte_bit (b32_bitmap b) (unat (x - b32_start b))"
  by (simp add: bits32_def)

section \<open>Correctness\<close>

lemma b32_in:
  assumes "wf32 b" "b32_start b \<le> x" "x \<le> b32_end b" shows "x \<le> b32_real_end b"
  using assms by (auto simp: wf32_def intro: order_trans)

lemma test32_correct:
  assumes "wf32 b"
  shows "ext2fs_test_generic_bitmap b x \<noteq> 0 \<longleftrightarrow> b32_start b \<le> x \<and> x \<le> b32_end b \<and> x \<in> bits32 b"
proof (cases "b32_start b \<le> x \<and> x \<le> b32_end b")
  case True
  then have x: "b32_start b \<le> x" "x \<le> b32_real_end b" and g: "\<not> x < b32_start b" "\<not> b32_end b < x"
    using b32_in [OF assms] by auto
  show ?thesis using True g test_bit_at_bits [OF b32_index(2) [OF assms x]] in_bits32 [OF x] assms
    by (simp add: ext2fs_test_generic_bitmap_def wf32_def bitop_defs)
next
  case False
  then show ?thesis by (auto simp: ext2fs_test_generic_bitmap_def not_le)
qed

lemma mark32_correct:
  assumes "wf32 b"
  shows "wf32 (snd (ext2fs_mark_generic_bitmap b x))"
    "bits32 (snd (ext2fs_mark_generic_bitmap b x))
      = (if b32_start b \<le> x \<and> x \<le> b32_end b then insert x (bits32 b) else bits32 b)"
    "fst (ext2fs_mark_generic_bitmap b x) = ext2fs_test_generic_bitmap b x"
proof -
  let ?r = "set_bit_at (x - b32_start b) (b32_bitmap b)"
  have "wf32 (snd (ext2fs_mark_generic_bitmap b x)) \<and> bits32 (snd (ext2fs_mark_generic_bitmap b x))
      = (if b32_start b \<le> x \<and> x \<le> b32_end b then insert x (bits32 b) else bits32 b)
    \<and> fst (ext2fs_mark_generic_bitmap b x) = ext2fs_test_generic_bitmap b x"
  proof (cases "b32_start b \<le> x \<and> x \<le> b32_end b")
    case True
    then have x: "b32_start b \<le> x" "x \<le> b32_real_end b" and g: "\<not> x < b32_start b" "\<not> b32_end b < x"
      using b32_in [OF assms] by auto
    note sb = set_bit_at_bits [OF b32_index(2) [OF assms x]]
    have e: "ext2fs_mark_generic_bitmap b x = (fst ?r, b\<lparr>b32_bitmap := snd ?r\<rparr>)"
      using g assms by (simp add: ext2fs_mark_generic_bitmap_def wf32_def bitop_defs split: prod.split)
    have "bits32 (b\<lparr>b32_bitmap := snd ?r\<rparr>) = insert x (bits32 b)"
      unfolding set_eq_iff bits32_array sb(2) sub_inject using x by (auto simp: bits32_def)
    moreover have "fst ?r = ext2fs_test_generic_bitmap b x"
      using g assms by (simp add: ext2fs_test_generic_bitmap_def wf32_def bitop_defs set_bit_at_def test_bit_at_def Let_def)
    ultimately show ?thesis using True sb(3) wf32_array [OF assms] by (simp add: e)
  next
    case False
    then have "x < b32_start b \<or> b32_end b < x" by auto
    then show ?thesis using assms unfolding if_not_P [OF False] by (simp add: ext2fs_mark_generic_bitmap_def ext2fs_test_generic_bitmap_def)
  qed
  then show "wf32 (snd (ext2fs_mark_generic_bitmap b x))" "bits32 (snd (ext2fs_mark_generic_bitmap b x))
      = (if b32_start b \<le> x \<and> x \<le> b32_end b then insert x (bits32 b) else bits32 b)"
    "fst (ext2fs_mark_generic_bitmap b x) = ext2fs_test_generic_bitmap b x" by blast+
qed

lemma mark32_header:
  "b32_magic (snd (ext2fs_mark_generic_bitmap b x)) = b32_magic b"
  "b32_start (snd (ext2fs_mark_generic_bitmap b x)) = b32_start b"
  "b32_end (snd (ext2fs_mark_generic_bitmap b x)) = b32_end b"
  by (simp_all add: ext2fs_mark_generic_bitmap_def split: prod.split)

lemma unmark32_correct:
  assumes "wf32 b"
  shows "wf32 (snd (ext2fs_unmark_generic_bitmap b x))"
    "bits32 (snd (ext2fs_unmark_generic_bitmap b x))
      = (if b32_start b \<le> x \<and> x \<le> b32_end b then bits32 b - {x} else bits32 b)"
    "fst (ext2fs_unmark_generic_bitmap b x) = ext2fs_test_generic_bitmap b x"
proof -
  let ?r = "clear_bit_at (x - b32_start b) (b32_bitmap b)"
  have "wf32 (snd (ext2fs_unmark_generic_bitmap b x)) \<and> bits32 (snd (ext2fs_unmark_generic_bitmap b x))
      = (if b32_start b \<le> x \<and> x \<le> b32_end b then bits32 b - {x} else bits32 b)
    \<and> fst (ext2fs_unmark_generic_bitmap b x) = ext2fs_test_generic_bitmap b x"
  proof (cases "b32_start b \<le> x \<and> x \<le> b32_end b")
    case True
    then have x: "b32_start b \<le> x" "x \<le> b32_real_end b" and g: "\<not> x < b32_start b" "\<not> b32_end b < x"
      using b32_in [OF assms] by auto
    note sb = clear_bit_at_bits [OF b32_index(2) [OF assms x]]
    have e: "ext2fs_unmark_generic_bitmap b x = (fst ?r, b\<lparr>b32_bitmap := snd ?r\<rparr>)"
      using g assms by (simp add: ext2fs_unmark_generic_bitmap_def wf32_def bitop_defs split: prod.split)
    have "bits32 (b\<lparr>b32_bitmap := snd ?r\<rparr>) = bits32 b - {x}"
      unfolding set_eq_iff bits32_array sb(2) sub_inject using x by (auto simp: bits32_def)
    moreover have "fst ?r = ext2fs_test_generic_bitmap b x"
      using g assms by (simp add: ext2fs_test_generic_bitmap_def wf32_def bitop_defs clear_bit_at_def test_bit_at_def Let_def)
    ultimately show ?thesis using True sb(3) wf32_array [OF assms] by (simp add: e)
  next
    case False
    then have "x < b32_start b \<or> b32_end b < x" by auto
    then show ?thesis using assms unfolding if_not_P [OF False] by (simp add: ext2fs_unmark_generic_bitmap_def ext2fs_test_generic_bitmap_def)
  qed
  then show "wf32 (snd (ext2fs_unmark_generic_bitmap b x))" "bits32 (snd (ext2fs_unmark_generic_bitmap b x))
      = (if b32_start b \<le> x \<and> x \<le> b32_end b then bits32 b - {x} else bits32 b)"
    "fst (ext2fs_unmark_generic_bitmap b x) = ext2fs_test_generic_bitmap b x" by blast+
qed

text \<open>The searches.  A loop up to the largest number may not end, so that one is left out.\<close>

definition first32 :: "(u32 \<Rightarrow> bool) \<Rightarrow> u32 \<Rightarrow> u32 \<Rightarrow> errcode + u32 \<Rightarrow> bool" where
  "first32 P s e res = (case res of
     Inr r \<Rightarrow> s \<le> r \<and> r \<le> e \<and> P r \<and> (\<forall>y. s \<le> y \<and> y < r \<longrightarrow> \<not> P y)
   | Inl err \<Rightarrow> err = ENOENT \<and> (\<forall>y. s \<le> y \<and> y \<le> e \<longrightarrow> \<not> P y))"

lemma first32_step:
  assumes "s \<le> e" "\<not> P s" "e \<noteq> - 1" "first32 P (s + 1) e res"
  shows "first32 P s e res"
proof -
  note s1 = le_succ [OF below_max [OF assms(1,3)]]
  show ?thesis using assms(2,4) unfolding first32_def by (auto simp: s1 split: sum.splits)
qed

lemma find_loop32_correct:
  assumes "wf32 b" "e \<le> b32_real_end b" "e \<noteq> - 1" "b32_start b \<le> s"
  shows "\<exists>res. find_loop32 v b s e = Some res \<and> first32 (\<lambda>x. (x \<in> bits32 b) = v) s e res"
  using assms(4)
proof (induction "unat e + 1 - unat s" arbitrary: s rule: less_induct)
  case less
  note st = find_loop32.simps [of v b s e]
  show ?case
  proof (cases "s \<le> e")
    case False
    then have "find_loop32 v b s e = Some (Inl ENOENT)" unfolding st by simp
    moreover have "first32 (\<lambda>x. (x \<in> bits32 b) = v) s e (Inl ENOENT)"
      using False by (auto simp: first32_def intro: order_trans)
    ultimately show ?thesis by blast
  next
    case True
    have x: "s \<le> b32_real_end b" using True assms(2) by (rule order_trans)
    have t: "ext2fs_test_bit (s - b32_start b) (b32_bitmap b) \<noteq> 0 \<longleftrightarrow> s \<in> bits32 b"
      using test_bit_at_bits [OF b32_index(2) [OF assms(1) less(2) x]] in_bits32 [OF less(2) x] by (simp add: bitop_defs)
    show ?thesis
    proof (cases "(s \<in> bits32 b) = v")
      case hit: True
      then have "find_loop32 v b s e = Some (Inr s)" unfolding st t using True by simp
      moreover have "first32 (\<lambda>x. (x \<in> bits32 b) = v) s e (Inr s)" using True hit by (auto simp: first32_def)
      ultimately show ?thesis by blast
    next
      case miss: False
      note u = unat_succ [OF below_max [OF True assms(3)]]
      have le: "b32_start b \<le> s + 1" using less(2) u by (simp add: word_le_nat_alt)
      have "unat e + 1 - unat (s + 1) < unat e + 1 - unat s" using u True by (simp add: word_le_nat_alt)
      from less(1) [OF this le] obtain res where
        r: "find_loop32 v b (s + 1) e = Some res" "first32 (\<lambda>x. (x \<in> bits32 b) = v) (s + 1) e res" by blast
      have "find_loop32 v b s e = Some res" unfolding st t using True miss r(1) by simp
      with first32_step [OF True _ assms(3) r(2)] miss show ?thesis by blast
    qed
  qed
qed

text \<open>Comparison: whole bytes, then the last bits one by one.\<close>

lemma test_bit_at_value:
  assumes "unat nr div 8 < length xs"
  shows "test_bit_at nr xs = (if byte_bit xs (unat nr) then push_bit (unat nr mod 8) 1 else 0)"
proof (rule bit_word_eqI)
  fix j assume "j < LENGTH(32)"
  then show "bit (test_bit_at nr xs) j = bit (if byte_bit xs (unat nr) then push_bit (unat nr mod 8) 1 else 0 :: u32) j"
    using assms by (auto simp: test_bit_at_def Let_def unat_and_7 unat_drop_3 bit_and_iff bit_one_shifted byte_bit_nth bit_simps
        simp del: push_bit_of_1)
qed

lemma test32_value:
  assumes "wf32 b" "b32_start b \<le> x" "x \<le> b32_end b"
  shows "ext2fs_test_generic_bitmap b x = (if x \<in> bits32 b then push_bit (unat (x - b32_start b) mod 8) 1 else 0)"
proof -
  have x: "x \<le> b32_real_end b" by (rule b32_in [OF assms])
  have g: "\<not> x < b32_start b" "\<not> b32_end b < x" using assms by auto
  show ?thesis using g assms(1) test_bit_at_value [OF b32_index(2) [OF assms(1,2) x]] in_bits32 [OF assms(2) x]
    by (simp add: ext2fs_test_generic_bitmap_def wf32_def bitop_defs)
qed

lemma push_bit_one_nz: "k < 8 \<Longrightarrow> push_bit k (1 :: u32) \<noteq> 0"
  by (auto simp: word_nz_bit bit_one_shifted simp del: push_bit_of_1)

lemma test32_eq:
  assumes "wf32 b" "wf32 c" "b32_start b = b32_start c" "b32_start b \<le> x" "x \<le> b32_end b" "x \<le> b32_end c"
  shows "ext2fs_test_generic_bitmap b x = ext2fs_test_generic_bitmap c x \<longleftrightarrow> (x \<in> bits32 b \<longleftrightarrow> x \<in> bits32 c)"
  using test32_value [OF assms(1,4,5)] test32_value [of c x] assms push_bit_one_nz [of "unat (x - b32_start c) mod 8"]
  by (simp del: push_bit_of_1)

lemma compare_loop_correct:
  assumes "wf32 b" "wf32 c" "b32_start b = b32_start c" "b32_end b = b32_end c" "b32_end b \<noteq> - 1" "b32_start b \<le> i"
  shows "compare_loop b c neq i
    = Some (if \<forall>x. i \<le> x \<and> x \<le> b32_end b \<longrightarrow> (x \<in> bits32 b \<longleftrightarrow> x \<in> bits32 c) then None else Some neq)"
  using assms(6)
proof (induction "unat (b32_end b) + 1 - unat i" arbitrary: i rule: less_induct)
  case less
  note st = compare_loop.simps [of b c neq i]
  show ?case
  proof (cases "i \<le> b32_end b")
    case False
    then have "\<forall>x. \<not> (i \<le> x \<and> x \<le> b32_end b)" by (auto intro: order_trans)
    then show ?thesis unfolding st using False by simp blast
  next
    case True
    have t: "ext2fs_test_generic_bitmap b i = ext2fs_test_generic_bitmap c i \<longleftrightarrow> (i \<in> bits32 b \<longleftrightarrow> i \<in> bits32 c)"
      using test32_eq [OF assms(1-3) less(2) True] True assms(4) by simp
    note u = unat_succ [OF below_max [OF True assms(5)]]
    have le: "b32_start b \<le> i + 1" using less(2) u by (simp add: word_le_nat_alt)
    note s1 = le_succ [OF below_max [OF True assms(5)]]
    have "unat (b32_end b) + 1 - unat (i + 1) < unat (b32_end b) + 1 - unat i" using u True by (simp add: word_le_nat_alt)
    note IH = less(1) [OF this le]
    show ?thesis
    proof (cases "i \<in> bits32 b \<longleftrightarrow> i \<in> bits32 c")
      case same: True
      then have "compare_loop b c neq i = compare_loop b c neq (i + 1)" unfolding st using t True by simp
      moreover have "(\<forall>x. i \<le> x \<and> x \<le> b32_end b \<longrightarrow> (x \<in> bits32 b \<longleftrightarrow> x \<in> bits32 c))
        \<longleftrightarrow> (\<forall>x. i + 1 \<le> x \<and> x \<le> b32_end b \<longrightarrow> (x \<in> bits32 b \<longleftrightarrow> x \<in> bits32 c))"
        using same unfolding s1 by blast
      ultimately show ?thesis using IH by simp
    next
      case diff: False
      then have "compare_loop b c neq i = Some (Some neq)" unfolding st using t True by simp
      moreover have "\<not> (\<forall>x. i \<le> x \<and> x \<le> b32_end b \<longrightarrow> (x \<in> bits32 b \<longleftrightarrow> x \<in> bits32 c))" using diff True by blast
      ultimately show ?thesis by (simp only: if_False)
    qed
  qed
qed

text \<open>Equal bytes are equal bits.\<close>

lemma byte_eq_bits: "w = v \<longleftrightarrow> (\<forall>k < 8. bit w k = bit v k)" for w v :: u8
proof
  assume b: "\<forall>k < 8. bit w k = bit v k"
  show "w = v" by (rule bit_word_eqI) (use b in simp)
qed simp

lemma take_eq_bits:
  assumes "n \<le> length xs" "n \<le> length ys"
  shows "take n xs = take n ys \<longleftrightarrow> (\<forall>j < 8 * n. byte_bit xs j = byte_bit ys j)"
proof
  assume t: "take n xs = take n ys"
  show "\<forall>j < 8 * n. byte_bit xs j = byte_bit ys j"
  proof (intro allI impI)
    fix j assume "j < 8 * n"
    then have j: "j div 8 < n" by linarith
    then have "xs ! (j div 8) = ys ! (j div 8)" using t by (metis nth_take)
    then show "byte_bit xs j = byte_bit ys j" using j assms by (simp add: byte_bit_nth)
  qed
next
  assume b: "\<forall>j < 8 * n. byte_bit xs j = byte_bit ys j"
  show "take n xs = take n ys"
  proof (rule nth_equalityI)
    fix p assume "p < length (take n xs)"
    then have p: "p < n" by simp
    have "bit (xs ! p) k = bit (ys ! p) k" if "k < 8" for k
      using b [rule_format, of "8 * p + k"] p that assms byte_bit_at [OF that] by auto
    then show "take n xs ! p = take n ys ! p" using p by (simp add: byte_eq_bits)
  qed (use assms in simp)
qed

lemma split_at_whole:
  fixes s e :: u32
  assumes "s \<le> e"
  defines "i \<equiv> e - (e - s) mod 8"
  shows "s \<le> i" "i \<le> e" "unat (i - s) = 8 * (unat (e - s) div 8)"
proof -
  let ?m = "(e - s) mod 8"
  have m: "?m \<le> e - s" by (simp add: word_le_nat_alt unat_mod)
  have es: "e - s \<le> e" using unat_sub [OF assms(1)] by (simp add: word_le_nat_alt)
  have me: "?m \<le> e" using m es by (rule order_trans)
  have ui: "unat i = unat e - unat ?m" unfolding i_def by (rule unat_sub [OF me])
  have um: "unat ?m = unat (e - s) mod 8" by (simp add: unat_mod)
  have le: "unat ?m \<le> unat e - unat s" using m unat_sub [OF assms(1)] by (simp add: word_le_nat_alt)
  have se: "unat s \<le> unat e" using assms(1) by (simp add: word_le_nat_alt)
  show si: "s \<le> i" unfolding word_le_nat_alt ui using le se by linarith
  show "i \<le> e" unfolding word_le_nat_alt ui by simp
  have "unat (i - s) = unat (e - s) - unat (e - s) mod 8"
    unfolding unat_sub [OF si] ui um unat_sub [OF assms(1)] using le se by simp
  then show "unat (i - s) = 8 * (unat (e - s) div 8)" by (simp add: minus_mod_eq_mult_div)
qed

definition used32 :: "bitmap32 \<Rightarrow> u32 set" where
  "used32 b = bits32 b \<inter> {..b32_end b}"

lemma compare32_correct:
  assumes "wf32 b" "wf32 c" "b32_magic b = Some m" "b32_magic c = Some m" "b32_end b \<noteq> - 1"
  shows "ext2fs_compare_generic_bitmap m neq (Some b) (Some c)
    = Some (if b32_start b = b32_start c \<and> b32_end b = b32_end c \<and> used32 b = used32 c then None else Some neq)"
proof (cases "b32_start b = b32_start c \<and> b32_end b = b32_end c")
  case False
  then show ?thesis using assms(3,4) by (auto simp: ext2fs_compare_generic_bitmap_def)
next
  case True
  let ?s = "b32_start b" and ?e = "b32_end b"
  let ?i = "?e - (?e - ?s) mod 8" and ?n = "unat (?e - ?s) div 8"
  have se: "?s \<le> ?e" using assms(1) by (simp add: wf32_def)
  note i = split_at_whole [OF se]
  have un: "unat ((?e - ?s) div 8) = ?n" by (simp add: unat_div)
  have er: "?e \<le> b32_real_end b" "?e \<le> b32_real_end c" using assms(1,2) True by (simp_all add: wf32_def)
  have lens: "?n \<le> length (b32_bitmap b)" "?n \<le> length (b32_bitmap c)"
    using b32_index(2) [OF assms(1) se er(1)] b32_index(2) [OF assms(2), of ?e] er(2) se True by simp_all
  have agree: "(x \<in> bits32 b \<longleftrightarrow> x \<in> bits32 c) \<longleftrightarrow> byte_bit (b32_bitmap b) (unat (x - ?s)) = byte_bit (b32_bitmap c) (unat (x - ?s))"
    if "?s \<le> x" "x \<le> ?e" for x
    using that er order_trans [OF that(2)] True by (auto simp: bits32_def)
  have whole: "take ?n (b32_bitmap b) = take ?n (b32_bitmap c)
    \<longleftrightarrow> (\<forall>x. ?s \<le> x \<and> x < ?i \<longrightarrow> (x \<in> bits32 b \<longleftrightarrow> x \<in> bits32 c))"
  proof
    assume t: "take ?n (b32_bitmap b) = take ?n (b32_bitmap c)"
    show "\<forall>x. ?s \<le> x \<and> x < ?i \<longrightarrow> (x \<in> bits32 b \<longleftrightarrow> x \<in> bits32 c)"
    proof (intro allI impI)
      fix x assume x: "?s \<le> x \<and> x < ?i"
      then have "x \<le> ?e" using i(2) by (meson less_imp_le order_trans)
      moreover have "unat (x - ?s) < 8 * ?n"
        using x unat_sub [of ?s x] unat_sub [OF i(1)] i(3) i(1) by (auto simp: word_less_nat_alt word_le_nat_alt)
      ultimately show "x \<in> bits32 b \<longleftrightarrow> x \<in> bits32 c" using agree [of x] x take_eq_bits [OF lens] t by simp
    qed
  next
    assume a: "\<forall>x. ?s \<le> x \<and> x < ?i \<longrightarrow> (x \<in> bits32 b \<longleftrightarrow> x \<in> bits32 c)"
    have "byte_bit (b32_bitmap b) j = byte_bit (b32_bitmap c) j" if "j < 8 * ?n" for j
    proof -
      define x where "x = ?s + of_nat j"
      have ni: "unat ?s + 8 * ?n \<le> unat ?e" using i(1-3) unat_sub [OF i(1)] by (simp add: word_le_nat_alt)
      then have u: "unat x = unat ?s + j"
        using that unsigned_less [of ?e, where ?'a = nat] by (simp add: x_def unat_word_ariths unat_of_nat)
      have x: "?s \<le> x" "x \<le> ?e" "x < ?i"
        using u that ni i(3) unat_sub [OF i(1)] i(1) by (simp_all add: word_le_nat_alt word_less_nat_alt)
      have "unat (x - ?s) = j" using unat_sub [OF x(1)] u by simp
      then show ?thesis using a x agree [OF x(1,2)] by simp
    qed
    then show "take ?n (b32_bitmap b) = take ?n (b32_bitmap c)" using take_eq_bits [OF lens] by blast
  qed
  have used: "used32 b = used32 c \<longleftrightarrow> (\<forall>x. ?s \<le> x \<and> x < ?i \<longrightarrow> (x \<in> bits32 b \<longleftrightarrow> x \<in> bits32 c))
      \<and> (\<forall>x. ?i \<le> x \<and> x \<le> ?e \<longrightarrow> (x \<in> bits32 b \<longleftrightarrow> x \<in> bits32 c))" (is "_ \<longleftrightarrow> ?R")
  proof -
    have "used32 b = used32 c \<longleftrightarrow> (\<forall>x. ?s \<le> x \<and> x \<le> ?e \<longrightarrow> (x \<in> bits32 b \<longleftrightarrow> x \<in> bits32 c))"
      using True by (auto simp: used32_def bits32_def)
    also have "\<dots> \<longleftrightarrow> ?R" using i(1,2) by (meson leD le_less_linear less_imp_le order_trans)
    finally show ?thesis .
  qed
  have "ext2fs_compare_generic_bitmap m neq (Some b) (Some c)
    = (if take ?n (b32_bitmap b) \<noteq> take ?n (b32_bitmap c) then Some (Some neq) else compare_loop b c neq ?i)"
    using assms(3,4) True un by (simp add: ext2fs_compare_generic_bitmap_def Let_def)
  then show ?thesis
    using compare_loop_correct [OF assms(1,2) _ _ assms(5) i(1), of neq] True used whole by simp
qed

text \<open>Making and copying.\<close>

lemma b32_alloc_ge: "b32_bytes s e \<le> b32_alloc s e"
  unfolding b32_alloc_def by presburger

lemma byte_bit_take_append:
  "j < 8 * n \<Longrightarrow> n \<le> length xs \<Longrightarrow> byte_bit (take m (xs @ ys)) j \<longleftrightarrow> j < 8 * m \<and> byte_bit xs j"
  by (auto simp: byte_bit_def nth_append)

lemma make32_correct:
  assumes "b32_start_arg \<le> en" "en \<le> real_end" "ext2fs_is_32_bitmap magic"
    and "ext2fs_make_generic_bitmap junk mal magic b32_start_arg en real_end descr None = Inr b"
  shows "wf32 b \<and> bits32 b = {}"
  using assms b32_alloc_ge [of b32_start_arg real_end]
  by (auto simp: ext2fs_make_generic_bitmap_def Let_def wf32_def bits32_def split: if_splits option.splits)

lemma copy32_correct:
  assumes "wf32 a" "ext2fs_copy_generic_bitmap junk mal a = Inr b"
  shows "wf32 b \<and> bits32 b = bits32 a \<and> b32_start b = b32_start a \<and> b32_end b = b32_end a"
proof -
  let ?n = "b32_alloc (b32_start a) (b32_real_end a)" and ?k = "b32_bytes (b32_start a) (b32_real_end a)"
  have b: "b = a\<lparr>b32_bitmap := take ?n (b32_bitmap a @ replicate ?n junk)\<rparr>"
    using assms(2)
    by (intro bitmap32.equality)
      (auto simp: ext2fs_copy_generic_bitmap_def ext2fs_make_generic_bitmap_def Let_def split: if_splits option.splits)
  have k: "?k \<le> length (b32_bitmap a)" using assms(1) by (simp add: wf32_def)
  have "byte_bit (b32_bitmap b) (unat (x - b32_start a)) = byte_bit (b32_bitmap a) (unat (x - b32_start a))"
    if "b32_start a \<le> x" "x \<le> b32_real_end a" for x
  proof -
    have "m < 8 * (m div 8 + 1)" for m :: nat by presburger
    then have j: "unat (x - b32_start a) < 8 * ?k" using sub_mono [OF that] unfolding b32_bytes_eq by (rule le_less_trans [rotated])
    then show ?thesis using byte_bit_take_append [OF j k, of ?n] b32_alloc_ge [of "b32_start a" "b32_real_end a"]
      by (simp add: b del: take_append)
  qed
  then have "bits32 b = bits32 a" by (auto simp: bits32_def b)
  moreover have "wf32 b" using assms(1) b32_alloc_ge [of "b32_start a" "b32_real_end a"] by (simp add: b wf32_def)
  ultimately show ?thesis by (simp add: b)
qed

text \<open>Runs, for the sizes that do not wrap around.\<close>

definition run32 :: "u32 \<Rightarrow> nat \<Rightarrow> u32 set" where
  "run32 x n = {y. x \<le> y \<and> unat y < unat x + n}"

definition in_b32 :: "bitmap32 \<Rightarrow> u32 \<Rightarrow> u32 \<Rightarrow> u32 \<Rightarrow> bool" where
  "in_b32 b lst x n \<longleftrightarrow> b32_start b \<le> x \<and> 0 < unat n \<and> unat x + unat n \<le> unat lst + 1 \<and> unat n < 2 ^ 31"

lemma in_b32_guard:
  assumes "in_b32 b lst x n"
  shows "\<not> x < b32_start b" "\<not> x > lst" "\<not> x + n - 1 > lst"
proof -
  have n: "n \<noteq> 0" using assms by (auto simp: in_b32_def)
  have "unat (n - 1) = unat n - 1" by (rule unat_minus_one [OF n])
  moreover have "unat x + (unat n - 1) < 2 ^ 32"
    using assms [unfolded in_b32_def] unsigned_less [of lst, where ?'a = nat] by simp linarith
  ultimately have "unat (x + (n - 1)) = unat x + (unat n - 1)" unfolding unat_word_ariths(1) by simp
  then have "unat (x + n - 1) = unat x + unat n - 1" using assms by (simp add: in_b32_def algebra_simps)
  then show "\<not> x + n - 1 > lst" "\<not> x < b32_start b" "\<not> x > lst"
    using assms by (auto simp: in_b32_def word_less_nat_alt word_le_nat_alt)
qed

lemma run32_index:
  assumes "wf32 b" "lst \<le> b32_real_end b" "in_b32 b lst x n"
  shows "unat (x - b32_start b) + unat n \<le> 2 ^ LENGTH(32)"
    "unat (x - b32_start b) + unat n \<le> 8 * length (b32_bitmap b)"
    "y \<in> run32 x (unat n) \<longleftrightarrow> b32_start b \<le> y \<and> y \<le> b32_real_end b
      \<and> unat (x - b32_start b) \<le> unat (y - b32_start b) \<and> unat (y - b32_start b) < unat (x - b32_start b) + unat n"
    "nat (sint n) = unat n"
proof -
  have x: "b32_start b \<le> x" "unat x + unat n \<le> unat (b32_real_end b) + 1" "unat n < 2 ^ 31"
    using assms(2,3) by (simp_all add: in_b32_def word_le_nat_alt)
  have se: "b32_start b \<le> b32_real_end b" using assms(1) by (auto simp: wf32_def intro: order_trans)
  have le: "unat (x - b32_start b) + unat n \<le> unat (b32_real_end b - b32_start b) + 1"
    using x unat_sub [OF x(1)] unat_sub [OF se] se by (simp add: word_le_nat_alt)
  then show "unat (x - b32_start b) + unat n \<le> 2 ^ LENGTH(32)"
    using unsigned_less [of "b32_real_end b - b32_start b", where ?'a = nat] by simp
  show "unat (x - b32_start b) + unat n \<le> 8 * length (b32_bitmap b)"
    using le b32_index(1) [OF assms(1) se order_refl] by linarith
  show "y \<in> run32 x (unat n) \<longleftrightarrow> b32_start b \<le> y \<and> y \<le> b32_real_end b
      \<and> unat (x - b32_start b) \<le> unat (y - b32_start b) \<and> unat (y - b32_start b) < unat (x - b32_start b) + unat n"
    using x unat_sub [OF x(1)] unat_sub [of "b32_start b" y] by (auto simp: run32_def word_le_nat_alt)
  have u: "uint n = int (unat n)" by simp
  have "int (unat n) < int (2 ^ 31)" using x(3) by (simp only: of_nat_less_iff)
  then have "uint n < 2 ^ 31" unfolding u by simp
  moreover have "0 \<le> uint n" unfolding u by (rule of_nat_0_le_iff)
  then have "- (2 ^ 31) \<le> uint n" by (rule order_trans [rotated]) simp
  ultimately have "signed_take_bit 31 (uint n) = uint n" by (intro signed_take_bit_int_eq_self)
  then have "sint n = int (unat n)" unfolding sint_uint u by simp
  then show "nat (sint n) = unat n" by simp
qed

lemma mark_range32_correct:
  assumes "wf32 b" "in_b32 b (b32_end b) x n"
  shows "wf32 (ext2fs_mark_block_bitmap_range b x n)
    \<and> bits32 (ext2fs_mark_block_bitmap_range b x n) = bits32 b \<union> run32 x (unat n)"
proof -
  have er: "b32_end b \<le> b32_real_end b" using assms(1) by (simp add: wf32_def)
  note ix = run32_index [OF assms(1) er assms(2)] and g = in_b32_guard [OF assms(2)]
  note lp = for_set_bits [OF fast_set_32 ix(1,2), of 0]
  let ?xs = "for_bits ext2fs_fast_set_bit (b32_start b) x 0 (unat n) (b32_bitmap b)"
  have e: "ext2fs_mark_block_bitmap_range b x n = b\<lparr>b32_bitmap := ?xs\<rparr>"
    using g by (simp add: ext2fs_mark_block_bitmap_range_def ix(4))
  have "bits32 (b\<lparr>b32_bitmap := ?xs\<rparr>) = bits32 b \<union> run32 x (unat n)"
    unfolding set_eq_iff bits32_array Un_iff ix(3) using lp by (auto simp: bits32_def)
  then show ?thesis unfolding e using wf32_array [OF assms(1)] lp by blast
qed

lemma unmark_range32_correct:
  assumes "wf32 b" "in_b32 b (b32_end b) x n"
  shows "wf32 (ext2fs_unmark_block_bitmap_range b x n)
    \<and> bits32 (ext2fs_unmark_block_bitmap_range b x n) = bits32 b - run32 x (unat n)"
proof -
  have er: "b32_end b \<le> b32_real_end b" using assms(1) by (simp add: wf32_def)
  note ix = run32_index [OF assms(1) er assms(2)] and g = in_b32_guard [OF assms(2)]
  note lp = for_clear_bits [OF fast_clear_32 ix(1,2), of 0]
  let ?xs = "for_bits ext2fs_fast_clear_bit (b32_start b) x 0 (unat n) (b32_bitmap b)"
  have e: "ext2fs_unmark_block_bitmap_range b x n = b\<lparr>b32_bitmap := ?xs\<rparr>"
    using g by (simp add: ext2fs_unmark_block_bitmap_range_def ix(4))
  have "bits32 (b\<lparr>b32_bitmap := ?xs\<rparr>) = bits32 b - run32 x (unat n)"
    unfolding set_eq_iff bits32_array Diff_iff ix(3) using lp by (auto simp: bits32_def)
  then show ?thesis unfolding e using wf32_array [OF assms(1)] lp by blast
qed

lemma test_range32_correct:
  assumes "wf32 b" "in_b32 b (b32_real_end b) x n"
  shows "ext2fs_test_clear_generic_bitmap_range b x n \<longleftrightarrow> bits32 b \<inter> run32 x (unat n) = {}"
proof -
  note ix = run32_index [OF assms(1) order_refl assms(2)]
  let ?o = "unat (x - b32_start b)"
  have eq: "ext2fs_test_clear_generic_bitmap_range b x n
    \<longleftrightarrow> (\<forall>j. ?o \<le> j \<and> j < ?o + unat n \<longrightarrow> \<not> byte_bit (b32_bitmap b) j)"
    unfolding ext2fs_test_clear_generic_bitmap_range_def by (rule test_clear_range_correct [OF ix(2)])
  have "\<exists>y. y \<in> run32 x (unat n) \<and> unat (y - b32_start b) = j" if "?o \<le> j" "j < ?o + unat n" for j
  proof -
    define y where "y = b32_start b + of_nat j"
    have x: "b32_start b \<le> x" "unat x + unat n \<le> unat (b32_real_end b) + 1" using assms(2) by (simp_all add: in_b32_def)
    have "unat (b32_start b) + j < 2 ^ 32"
      using that x unat_sub [OF x(1)] unsigned_less [of "b32_real_end b", where ?'a = nat] by (simp add: word_le_nat_alt)
    then have u: "unat y = unat (b32_start b) + j" by (simp add: y_def unat_word_ariths unat_of_nat)
    then have sy: "b32_start b \<le> y" by (simp add: word_le_nat_alt)
    have "unat (y - b32_start b) = j" using unat_sub [OF sy] u by simp
    moreover have "y \<in> run32 x (unat n)" using u that x unat_sub [OF x(1)] by (auto simp: run32_def word_le_nat_alt)
    ultimately show ?thesis by blast
  qed
  then show ?thesis unfolding eq using ix(3) by (auto simp: bits32_def)
qed

text \<open>Padding.\<close>

lemma padding_loop_bits:
  assumes "s \<le> en" "unat (re - s) < 8 * length xs" "en < i \<or> i = 0" and sr: "s \<le> re"
  shows "(byte_bit (padding_loop en re i (i - s) xs) m
      \<longleftrightarrow> byte_bit xs m \<or> (en < i \<and> unat (i - s) \<le> m \<and> m \<le> unat (re - s)))
    \<and> length (padding_loop en re i (i - s) xs) = length xs"
  using assms(2,3)
proof (induction "if i > en then 2 ^ 32 - unat i else 0" arbitrary: i xs rule: less_induct)
  case less
  note st = padding_loop.simps [of en re i "i - s" xs]
  show ?case
  proof (cases "i \<le> re \<and> i > en")
    case False
    have "\<not> unat (i - s) \<le> unat (re - s)" if "en < i"
    proof -
      have "s \<le> i" using that assms(1) by simp
      then show ?thesis using that False unat_sub [of s i] unat_sub [OF sr] sr by (auto simp: word_le_nat_alt)
    qed
    then show ?thesis unfolding st using False by auto
  next
    case True
    then have si: "s \<le> i" using assms(1) by (meson le_less_trans less_imp_le)
    have isr: "unat (i - s) \<le> unat (re - s)" using sub_mono [OF si] True by blast
    then have "unat (i - s) div 8 < length xs" using less(2) by linarith
    note sb = set_bit_at_bits [OF this]
    let ?ys = "snd (ext2fs_set_bit (i - s) xs)"
    have ys: "length ?ys = length xs" "byte_bit ?ys m \<longleftrightarrow> m = unat (i - s) \<or> byte_bit xs m"
      using sb by (simp_all add: set_bit32)
    have j: "i - s + 1 = i + 1 - s" by simp
    have e: "padding_loop en re i (i - s) xs = padding_loop en re (i + 1) (i + 1 - s) ?ys"
      unfolding st j using True by simp
    show ?thesis
    proof (cases "i = - 1")
      case max: True
      have re: "re = i" using True max by (metis antisym word_order.extremum)
      have "padding_loop en re (i + 1) (i + 1 - s) ?ys = ?ys" using max by (subst padding_loop.simps) simp
      then have "padding_loop en re i (i - s) xs = ?ys" unfolding e .
      moreover have "unat (i - s) \<le> m \<and> m \<le> unat (re - s) \<longleftrightarrow> m = unat (i - s)" unfolding re by auto
      ultimately show ?thesis using ys True by (simp add: disj_commute)
    next
      case False
      note u = unat_succ [OF False]
      have gt: "en < i + 1" using True u by (simp add: word_less_nat_alt)
      have s1: "s \<le> i + 1" using si u by (simp add: word_le_nat_alt)
      have us: "unat (i + 1 - s) = unat (i - s) + 1" using unat_sub [OF s1] unat_sub [OF si] u si by (simp add: word_le_nat_alt)
      have "(if i + 1 > en then 2 ^ 32 - unat (i + 1) else 0) < (if i > en then 2 ^ 32 - unat i else (0 :: nat))"
        using u gt True unsigned_less [of i, where ?'a = nat] by simp
      from less(1) [OF this, of ?ys] gt less(2) ys us show ?thesis unfolding e using True isr by auto
    qed
  qed
qed

text \<open>Growing; the bits of the last byte behind \<open>real_end\<close> have to be clear.\<close>

definition tail32 :: "bitmap32 \<Rightarrow> bool" where
  "tail32 b \<longleftrightarrow> (\<forall>i. i < 8 * b32_bytes (b32_start b) (b32_real_end b) \<and> byte_bit (b32_bitmap b) i
     \<longrightarrow> i \<le> unat (b32_real_end b - b32_start b))"

lemma resize32_correct:
  assumes wf: "wf32 b" "tail32 b" and se: "b32_start b \<le> ne" "ne \<le> nre" "b32_real_end b \<le> nre"
    and r: "ext2fs_resize_generic_bitmap junk mal m ne nre b = (None, b')"
  shows "wf32 b' \<and> used32 b' = used32 b \<inter> {..ne} \<and> b32_end b' = ne \<and> b32_real_end b' = nre"
proof -
  let ?s = "b32_start b" and ?xs = "b32_bitmap b" and ?re = "b32_real_end b"
  let ?top = "if ?re > ne then ne else ?re"
  let ?arr = "if ne > b32_end b then clear_down ext2fs_clear_bit ?s (b32_end b) ?top ?xs else ?xs"
  let ?n = "b32_bytes ?s ?re" and ?n' = "b32_bytes ?s nre"
  have e: "?s \<le> b32_end b" "b32_end b \<le> ?re" using wf by (simp_all add: wf32_def)
  have sr: "?s \<le> ?re" using e by (rule order_trans)
  have top: "?s \<le> ?top" "?top \<le> ?re" using se sr by auto
  have arr: "length ?arr = length ?xs" "byte_bit ?arr j \<longleftrightarrow> byte_bit ?xs j
      \<and> (b32_end b < ne \<longrightarrow> \<not> (unat (b32_end b - ?s) < j \<and> j \<le> unat (?top - ?s)))" for j
    using clear_down_bits [OF clear_bit32 e(1) top(1), of ?xs] b32_index(1) [OF wf(1) top] by auto
  have n: "?n \<le> length ?xs" using wf by (simp add: wf32_def)
  have mono: "?n \<le> ?n'" unfolding b32_bytes_eq using sub_mono [OF sr se(3)] by (simp add: div_le_mono)
  have b: "b32_start b' = ?s" "b32_end b' = ne" "b32_real_end b' = nre" "b32_magic b' = b32_magic b"
    using r by (auto simp: ext2fs_resize_generic_bitmap_def Let_def split: if_splits)
  have len: "?n' \<le> length (b32_bitmap b')"
    using r n mono arr(1) by (auto simp: ext2fs_resize_generic_bitmap_def Let_def array_simps split: if_splits)
  have bits: "byte_bit (b32_bitmap b') j \<longleftrightarrow> byte_bit ?arr j \<and> j < 8 * ?n" if "j < 8 * ?n'" for j
  proof (cases "nre = ?re")
    case True
    then have "b32_bitmap b' = ?arr" using r by (auto simp: ext2fs_resize_generic_bitmap_def Let_def split: if_splits)
    then show ?thesis using that True by simp
  next
    case False
    show ?thesis
    proof (cases "?n' = ?n")
      case True
      then have "b32_bitmap b' = ?arr" using r False by (auto simp: ext2fs_resize_generic_bitmap_def Let_def split: if_splits)
      then show ?thesis using that True by simp
    next
      case neq: False
      then have gt: "?n < ?n'" using mono by simp
      let ?res = "resize_arr junk ?n' ?arr"
      have b2: "b32_bitmap b' = take ?n ?res @ replicate (?n' - ?n) 0"
        using r False neq gt by (auto simp: ext2fs_resize_generic_bitmap_def Let_def array_simps split: if_splits)
      have tk: "take ?n ?res = take ?n ?arr" using gt n arr(1) by (intro take_resize_arr) auto
      have "byte_bit (take ?n ?arr @ replicate (?n' - ?n) 0) j \<longleftrightarrow> byte_bit ?arr j \<and> j < 8 * ?n"
        using n arr(1) unfolding byte_bit_append by (auto simp: byte_bit_def)
      then show ?thesis unfolding b2 tk .
    qed
  qed
  have "x \<in> used32 b' \<longleftrightarrow> x \<in> used32 b \<and> x \<le> ne" for x
  proof (cases "?s \<le> x \<and> x \<le> ne")
    case True
    then have x: "?s \<le> x" "x \<le> ne" "x \<le> nre" using se by auto
    let ?j = "unat (x - ?s)"
    have j': "?j < 8 * ?n'" using sub_mono [OF x(1,3)] unfolding b32_bytes_eq by presburger
    have cut: "unat (b32_end b - ?s) < ?j \<longleftrightarrow> b32_end b < x" "?j \<le> unat (?top - ?s) \<longleftrightarrow> x \<le> ?top" "?j \<le> unat (?re - ?s) \<longleftrightarrow> x \<le> ?re"
      using unat_sub [OF x(1)] unat_sub [OF e(1)] unat_sub [OF top(1)] unat_sub [OF sr] x(1) e(1) top(1) sr
      by (auto simp: word_le_nat_alt word_less_nat_alt)
    have in_re: "?j < 8 * ?n \<and> byte_bit ?xs ?j \<longleftrightarrow> x \<le> ?re \<and> byte_bit ?xs ?j"
      using wf(2) cut(3) sub_mono [OF x(1), of ?re] unfolding tail32_def b32_bytes_eq
      by (metis Suc_eq_plus1 div_less_iff_less_mult le_imp_less_Suc less_Suc_eq_le mult.commute zero_less_numeral div_le_mono)
    have "x \<in> used32 b' \<longleftrightarrow> byte_bit ?arr ?j \<and> ?j < 8 * ?n"
      using x bits [OF j'] by (auto simp: used32_def bits32_def b)
    also have "\<dots> \<longleftrightarrow> x \<le> ?re \<and> byte_bit ?xs ?j \<and> \<not> (b32_end b < ne \<and> b32_end b < x \<and> x \<le> ?top)"
      unfolding arr(2) cut using in_re by blast
    also have "\<dots> \<longleftrightarrow> x \<le> b32_end b \<and> x \<le> ?re \<and> byte_bit ?xs ?j"
      using x(2) by (auto simp: not_less)
    finally show ?thesis using x by (auto simp: used32_def bits32_def)
  next
    case False
    then show ?thesis by (auto simp: used32_def bits32_def b)
  qed
  then have "used32 b' = used32 b \<inter> {..ne}" by auto
  then show ?thesis using wf(1) se len by (simp add: b wf32_def)
qed

lemma padding32_correct:
  assumes "wf32 b"
  shows "wf32 (ext2fs_set_generic_bitmap_padding b) \<and> used32 (ext2fs_set_generic_bitmap_padding b) = used32 b
    \<and> (\<forall>x. b32_end b < x \<and> x \<le> b32_real_end b \<longrightarrow> x \<in> bits32 (ext2fs_set_generic_bitmap_padding b))"
proof -
  let ?s = "b32_start b" and ?e = "b32_end b" and ?r = "b32_real_end b"
  have o: "?s \<le> ?e" "?e \<le> ?r" using assms by (simp_all add: wf32_def)
  have sr: "?s \<le> ?r" using o by (rule order_trans)
  have gt: "?e < ?e + 1 \<or> ?e + 1 = 0" using unat_succ [of ?e] by (auto simp: word_less_nat_alt eq_neg_iff_add_eq_0)
  define xs where "xs = padding_loop ?e ?r (?e + 1) (?e + 1 - ?s) (b32_bitmap b)"
  have p: "(byte_bit xs m \<longleftrightarrow> byte_bit (b32_bitmap b) m \<or> (?e < ?e + 1 \<and> unat (?e + 1 - ?s) \<le> m \<and> m \<le> unat (?r - ?s)))
      \<and> length xs = length (b32_bitmap b)" for m
    unfolding xs_def by (rule padding_loop_bits [OF o(1) b32_index(1) [OF assms sr order_refl] gt sr])
  have e: "ext2fs_set_generic_bitmap_padding b = b\<lparr>b32_bitmap := xs\<rparr>"
    by (simp add: ext2fs_set_generic_bitmap_padding_def Let_def xs_def)
  have ge: "?e < ?e + 1 \<and> unat (?e + 1 - ?s) \<le> unat (x - ?s) \<longleftrightarrow> ?e < x" if x: "?s \<le> x" for x
  proof (cases "?e = - 1")
    case True
    then show ?thesis using word_order.extremum [of x] by (simp add: leD)
  next
    case False
    note u = unat_succ [OF False]
    have s1: "?s \<le> ?e + 1" and lt: "?e < ?e + 1" using o(1) u by (simp_all add: word_le_nat_alt word_less_nat_alt)
    show ?thesis using lt u unat_sub [OF s1] unat_sub [OF x] s1 x by (auto simp: word_le_nat_alt word_less_nat_alt)
  qed
  have bits: "x \<in> bits32 (b\<lparr>b32_bitmap := xs\<rparr>) \<longleftrightarrow> x \<in> bits32 b \<or> (?e < x \<and> x \<le> ?r)" for x
  proof (cases "?s \<le> x \<and> x \<le> ?r")
    case True
    then show ?thesis using p [of "unat (x - ?s)"] ge [of x] sub_mono [of ?s x ?r] unfolding bits32_array by (auto simp: bits32_def)
  next
    case False
    have "?e < x \<Longrightarrow> ?s \<le> x" using o(1) by (meson le_less_trans less_imp_le)
    then show ?thesis using False unfolding bits32_array by (auto simp: bits32_def)
  qed
  have "used32 (b\<lparr>b32_bitmap := xs\<rparr>) = used32 b" using bits by (auto simp: used32_def leD)
  then show ?thesis using wf32_array [OF assms, of xs] p bits unfolding e by blast
qed

section \<open>Properties\<close>

text \<open>
  Marking, unmarking and testing a number inside \<open>start..end\<close> are insertion, deletion and
  membership; outside they change nothing and return 0; and the returned value of marking and
  unmarking says whether the number was in the set before.
\<close>

theorem bitmap32_bit_operations_correct:
  assumes "wf32 b"
  shows "wf32 (snd (ext2fs_mark_generic_bitmap b x)) \<and> wf32 (snd (ext2fs_unmark_generic_bitmap b x))
    \<and> bits32 (snd (ext2fs_mark_generic_bitmap b x)) = (if b32_start b \<le> x \<and> x \<le> b32_end b then insert x (bits32 b) else bits32 b)
    \<and> bits32 (snd (ext2fs_unmark_generic_bitmap b x)) = (if b32_start b \<le> x \<and> x \<le> b32_end b then bits32 b - {x} else bits32 b)
    \<and> (ext2fs_test_generic_bitmap b x \<noteq> 0 \<longleftrightarrow> b32_start b \<le> x \<and> x \<le> b32_end b \<and> x \<in> bits32 b)
    \<and> fst (ext2fs_mark_generic_bitmap b x) = ext2fs_test_generic_bitmap b x
    \<and> fst (ext2fs_unmark_generic_bitmap b x) = ext2fs_test_generic_bitmap b x"
  using mark32_correct [OF assms(1), of x] unmark32_correct [OF assms(1), of x] test32_correct [OF assms(1), of x]
  by blast

text \<open>The numbers 3 to 12 with room up to 17; 3, 5 and 12 are marked.\<close>

definition demo32 :: bitmap32 where
  "demo32 = \<lparr>b32_magic = Some EXT2_ET_MAGIC_BLOCK_BITMAP, b32_start = 3, b32_end = 12, b32_real_end = 17,
     b32_description = None, b32_bitmap = [0x05, 0x02, 0, 0]\<rparr>"

lemma wf_demo32: "wf32 demo32"
  by (simp add: wf32_def demo32_def ext2fs_is_32_bitmap_def b32_bytes_def)

lemma bitmap32_bit_operations_correct_witness:
  "ext2fs_test_generic_bitmap demo32 5 \<noteq> 0 \<and> bits32 (snd (ext2fs_mark_generic_bitmap demo32 4)) = insert 4 (bits32 demo32)"
proof -
  have "b32_start demo32 \<le> 4" "4 \<le> b32_end demo32" "b32_start demo32 \<le> 5" "5 \<le> b32_end demo32" "5 \<in> bits32 demo32"
    by (simp_all add: demo32_def bits32_def byte_bit_def)
  then show ?thesis using bitmap32_bit_operations_correct [OF wf_demo32, of 4] bitmap32_bit_operations_correct [OF wf_demo32, of 5] by simp
qed

text \<open>
  C28.  Marking, unmarking and testing a run of numbers, for a size that is positive as an \<open>int\<close> and a run that
  lies inside the bitmap, are union, difference and disjointness.
\<close>

theorem bitmap32_ranges_correct:
  assumes "wf32 b" "in_b32 b (b32_end b) x n"
  shows "wf32 (ext2fs_mark_block_bitmap_range b x n) \<and> wf32 (ext2fs_unmark_block_bitmap_range b x n)
    \<and> bits32 (ext2fs_mark_block_bitmap_range b x n) = bits32 b \<union> run32 x (unat n)
    \<and> bits32 (ext2fs_unmark_block_bitmap_range b x n) = bits32 b - run32 x (unat n)
    \<and> (b32_magic b = Some EXT2_ET_MAGIC_BLOCK_BITMAP \<longrightarrow>
        ext2fs_test_block_bitmap_range b x n = Inr (bits32 b \<inter> run32 x (unat n) = {}))"
proof -
  have "unat (b32_end b) \<le> unat (b32_real_end b)" using assms(1) by (simp add: wf32_def word_le_nat_alt)
  then have re: "in_b32 b (b32_real_end b) x n" using assms(2) by (simp add: in_b32_def)
  have "b32_magic b = Some EXT2_ET_MAGIC_BLOCK_BITMAP \<longrightarrow>
      ext2fs_test_block_bitmap_range b x n = Inr (ext2fs_test_clear_generic_bitmap_range b x n)"
    using in_b32_guard [OF re] by (simp add: ext2fs_test_block_bitmap_range_def)
  then show ?thesis using mark_range32_correct [OF assms] unmark_range32_correct [OF assms] test_range32_correct [OF assms(1) re]
    by simp
qed

lemma bitmap32_ranges_correct_witness:
  "ext2fs_test_block_bitmap_range demo32 4 2 = Inr False \<and> 6 \<in> bits32 (ext2fs_mark_block_bitmap_range demo32 4 4)"
proof -
  have "in_b32 demo32 (b32_end demo32) 4 2" "in_b32 demo32 (b32_end demo32) 4 4" by (simp_all add: in_b32_def demo32_def)
  note r = this [THEN bitmap32_ranges_correct [OF wf_demo32]]
  have "5 \<in> bits32 demo32 \<inter> run32 4 2" "6 \<in> run32 4 4" "b32_magic demo32 = Some EXT2_ET_MAGIC_BLOCK_BITMAP"
    by (simp_all add: run32_def demo32_def bits32_def byte_bit_def)
  then show ?thesis using r by auto
qed

text \<open>
  The comparison, which compares whole bytes and then the last bits, returns 0 exactly when the
  two bitmaps have the same ends and the same numbers in between.  It returns whenever the end is not
  the largest number.
\<close>

theorem bitmap32_compare_correct:
  assumes "wf32 b" "wf32 c" "b32_magic b = Some m" "b32_magic c = Some m" "b32_end b \<noteq> - 1"
  shows "ext2fs_compare_generic_bitmap m neq (Some b) (Some c)
    = Some (if b32_start b = b32_start c \<and> b32_end b = b32_end c \<and> used32 b = used32 c then None else Some neq)"
  by (rule compare32_correct [OF assms])

lemma bitmap32_compare_correct_witness:
  "ext2fs_compare_generic_bitmap EXT2_ET_MAGIC_BLOCK_BITMAP EINVAL (Some demo32)
     (Some (snd (ext2fs_mark_generic_bitmap demo32 4))) = Some (Some EINVAL)"
proof -
  let ?c = "snd (ext2fs_mark_generic_bitmap demo32 4)"
  have m: "b32_magic demo32 = Some EXT2_ET_MAGIC_BLOCK_BITMAP" "b32_magic ?c = Some EXT2_ET_MAGIC_BLOCK_BITMAP"
    "b32_end demo32 \<noteq> - 1" "b32_end ?c = 12"
    by (simp_all add: mark32_header) (simp_all add: demo32_def)
  have c: "bits32 ?c = insert 4 (bits32 demo32)"
    using mark32_correct(2) [OF wf_demo32, of 4] by (simp only:) (simp add: demo32_def)
  have "4 \<notin> bits32 demo32" by (simp add: demo32_def bits32_def byte_bit_def)
  then have "used32 demo32 \<noteq> used32 ?c" unfolding used32_def m(4) c by auto
  then show ?thesis using bitmap32_compare_correct [OF wf_demo32 mark32_correct(1) [OF wf_demo32] m(1,2,3)] by simp
qed

text \<open>
  The searches return the first number of the interval that is out of the set, or in it, or
  \<open>ENOENT\<close> when there is none, and \<open>EINVAL\<close> for an interval that is empty or not inside the bitmap.
  They return whenever the interval does not end at the largest number.
\<close>

theorem bitmap32_find_first_correct:
  assumes "wf32 b" "e \<noteq> - 1"
  shows "if b32_start b \<le> s \<and> s \<le> e \<and> e \<le> b32_end b
    then (\<exists>res. ext2fs_find_first_zero_generic_bitmap b s e = Some res \<and> first32 (\<lambda>x. x \<notin> bits32 b) s e res)
      \<and> (\<exists>res. ext2fs_find_first_set_generic_bitmap b s e = Some res \<and> first32 (\<lambda>x. x \<in> bits32 b) s e res)
    else ext2fs_find_first_zero_generic_bitmap b s e = Some (Inl EINVAL)
      \<and> ext2fs_find_first_set_generic_bitmap b s e = Some (Inl EINVAL)"
proof (cases "b32_start b \<le> s \<and> s \<le> e \<and> e \<le> b32_end b")
  case True
  then have g: "\<not> (s < b32_start b \<or> e > b32_end b \<or> s > e)" by auto
  have e: "e \<le> b32_real_end b" using True assms(1) by (auto simp: wf32_def intro: order_trans)
  note f = find_loop32_correct [OF assms(1) e assms(2)]
  show ?thesis unfolding if_P [OF True] ext2fs_find_first_zero_generic_bitmap_def ext2fs_find_first_set_generic_bitmap_def if_not_P [OF g]
    using f [of s False] f [of s True] True by simp
next
  case False
  then have g: "s < b32_start b \<or> e > b32_end b \<or> s > e" by auto
  show ?thesis unfolding if_not_P [OF False] ext2fs_find_first_zero_generic_bitmap_def ext2fs_find_first_set_generic_bitmap_def if_P [OF g] by simp
qed

lemma bitmap32_find_first_correct_witness:
  "\<exists>res. ext2fs_find_first_set_generic_bitmap demo32 4 12 = Some res \<and> first32 (\<lambda>x. x \<in> bits32 demo32) 4 12 res"
proof -
  have "b32_start demo32 \<le> 4 \<and> (4 :: u32) \<le> 12 \<and> 12 \<le> b32_end demo32" by (simp add: demo32_def)
  then show ?thesis using bitmap32_find_first_correct [OF wf_demo32, of 12 4] by simp
qed

text \<open>
  Growing keeps the numbers in use and clears the new ones up to the new end, provided that the
  bits of the last byte behind the old real end are clear; setting the padding, from the end to the real end,
  leaves the numbers in use as they are.
\<close>

theorem bitmap32_resize_padding_correct:
  assumes "wf32 b" "tail32 b" "b32_start b \<le> ne" "ne \<le> nre" "b32_real_end b \<le> nre"
    and "ext2fs_resize_generic_bitmap junk mal m ne nre b = (None, b')"
  shows "wf32 b' \<and> used32 b' = used32 b \<inter> {..ne} \<and> b32_end b' = ne \<and> b32_real_end b' = nre
    \<and> used32 (ext2fs_set_generic_bitmap_padding b') = used32 b \<inter> {..ne}
    \<and> (\<forall>x. ne < x \<and> x \<le> nre \<longrightarrow> x \<in> bits32 (ext2fs_set_generic_bitmap_padding b'))"
  using resize32_correct [OF assms] padding32_correct [of b'] by auto

lemma bitmap32_resize_padding_correct_witness:
  "\<exists>b'. ext2fs_resize_generic_bitmap 0xaa (\<lambda>_. True) EXT2_ET_MAGIC_BLOCK_BITMAP 40 50 demo32 = (None, b')
     \<and> used32 b' = used32 demo32 \<and> 45 \<in> bits32 (ext2fs_set_generic_bitmap_padding b')"
proof -
  obtain b' where r: "ext2fs_resize_generic_bitmap 0xaa (\<lambda>_. True) EXT2_ET_MAGIC_BLOCK_BITMAP 40 50 demo32 = (None, b')"
    by (simp add: ext2fs_resize_generic_bitmap_def Let_def demo32_def)
  have "byte_bit (b32_bitmap demo32) i \<Longrightarrow> i < 14" for i
  proof (rule ccontr)
    assume b: "byte_bit (b32_bitmap demo32) i" "\<not> i < 14"
    then have "i div 8 < 4" by (simp add: byte_bit_def demo32_def)
    then consider "i div 8 = 1" | "i div 8 = 2" | "i div 8 = 3" using b(2) by linarith
    then show False
    proof cases
      case 1
      then have "i mod 8 = 6 \<or> i mod 8 = 7" using b(2) by presburger
      then show False using b(1) 1 by (auto simp: byte_bit_def demo32_def)
    qed (use b(1) in \<open>auto simp: byte_bit_def demo32_def\<close>)
  qed
  then have t: "tail32 demo32" by (force simp: tail32_def demo32_def)
  have "used32 b' = used32 demo32 \<inter> {..40}" "\<forall>x. 40 < x \<and> x \<le> 50 \<longrightarrow> x \<in> bits32 (ext2fs_set_generic_bitmap_padding b')"
    using bitmap32_resize_padding_correct [OF wf_demo32 t _ _ _ r] by (simp_all add: demo32_def)
  moreover have "used32 demo32 \<subseteq> {..40}" by (auto simp: used32_def demo32_def intro: order_trans)
  ultimately show ?thesis using r by auto
qed

text \<open>
  The copy reads as many bytes as it allocates.  A bitmap that was resized has fewer: the copy reads behind
  the end of the array.
\<close>

lemma copy_reads_behind_array:
  assumes "ext2fs_resize_generic_bitmap 0 (\<lambda>_. True) EXT2_ET_MAGIC_BLOCK_BITMAP 40 50 demo32 = (None, b')"
  shows "length (b32_bitmap b') < b32_alloc (b32_start b') (b32_real_end b')"
  using assms by (auto simp: ext2fs_resize_generic_bitmap_def Let_def demo32_def b32_bytes_def b32_alloc_def array_simps)

end
