(* ===== verification/Gen_Bitmap64.thy ===== *)
theory Gen_Bitmap64
  imports Gen_Bitmap32 Bmap64
begin

text \<open>
  The generic bitmaps, \<open>lib/ext2fs/gen_bitmap64.c\<close>: what the library and its programs call.  A bitmap
  is a structure of the 32-bit kind (theory \<open>Gen_Bitmap32\<close>) or of the 64-bit kind with a table of
  operations; the functions check for a null pointer and for the magic number, convert block numbers
  to cluster numbers, check the bounds and call the back end.

  The table \<open>ops\<close> that \<open>bitmap->bitmap_ops\<close> points to is an argument; so are the tables of both
  bitmaps where there are two.  Two kinds of structure are two constructors here, so that a 32-bit
  structure with a 64-bit magic number cannot be expressed.  The statistics and the warnings are left out.

  The lemmas about the 64-bit kind are proved in the locale \<open>generic_backend\<close>, an extension of
  \<open>bitmap_backend\<close>, for every back end that fulfils the contract; the properties are in theory \<open>Gen_Bitmap_Props\<close>, on the two back ends.
\<close>

section \<open>Both kinds of bitmap\<close>

datatype 'p gbmap = GB32 bitmap32 | GB64 "'p bmap64"

definition ext2fs_is_64_bitmap :: "errcode \<Rightarrow> bool" where
  "ext2fs_is_64_bitmap magic \<longleftrightarrow> magic = EXT2_ET_MAGIC_GENERIC_BITMAP64
     \<or> magic = EXT2_ET_MAGIC_BLOCK_BITMAP64 \<or> magic = EXT2_ET_MAGIC_INODE_BITMAP64"

text \<open>\<open>arg & ~0xffffffffULL\<close>\<close>

definition above_32 :: "u64 \<Rightarrow> bool" where
  "above_32 arg \<longleftrightarrow> arg AND NOT 0xffffffff \<noteq> 0"

section \<open>One number\<close>

definition outside64 :: "'p bmap64 \<Rightarrow> u64 \<Rightarrow> bool" where
  "outside64 b c \<longleftrightarrow> c < bm_start b \<or> c > bm_end b"

fun ext2fs_mark_generic_bmap :: "'p bitmap_ops \<Rightarrow> 'p gbmap option \<Rightarrow> u64 \<Rightarrow> u32 \<times> 'p gbmap option" where
  "ext2fs_mark_generic_bmap ops None arg = (0, None)"
| "ext2fs_mark_generic_bmap ops (Some (GB32 b)) arg =
     (if ext2fs_is_32_bitmap (b32_magic b)
      then if above_32 arg then (0, Some (GB32 b))
           else (case ext2fs_mark_generic_bitmap b (ucast arg) of (r, b') \<Rightarrow> (r, Some (GB32 b')))
      else (0, Some (GB32 b)))"
| "ext2fs_mark_generic_bmap ops (Some (GB64 b)) arg =
     (if \<not> ext2fs_is_64_bitmap (bm_magic b) then (0, Some (GB64 b))
      else let c = drop_bit (bm_cluster_bits b) arg in
           if outside64 b c then (0, Some (GB64 b))
           else (case op_mark_bmap ops b c of (r, b') \<Rightarrow> (r, Some (GB64 b'))))"

fun ext2fs_unmark_generic_bmap :: "'p bitmap_ops \<Rightarrow> 'p gbmap option \<Rightarrow> u64 \<Rightarrow> u32 \<times> 'p gbmap option" where
  "ext2fs_unmark_generic_bmap ops None arg = (0, None)"
| "ext2fs_unmark_generic_bmap ops (Some (GB32 b)) arg =
     (if ext2fs_is_32_bitmap (b32_magic b)
      then if above_32 arg then (0, Some (GB32 b))
           else (case ext2fs_unmark_generic_bitmap b (ucast arg) of (r, b') \<Rightarrow> (r, Some (GB32 b')))
      else (0, Some (GB32 b)))"
| "ext2fs_unmark_generic_bmap ops (Some (GB64 b)) arg =
     (if \<not> ext2fs_is_64_bitmap (bm_magic b) then (0, Some (GB64 b))
      else let c = drop_bit (bm_cluster_bits b) arg in
           if outside64 b c then (0, Some (GB64 b))
           else (case op_unmark_bmap ops b c of (r, b') \<Rightarrow> (r, Some (GB64 b'))))"

fun ext2fs_test_generic_bmap :: "'p bitmap_ops \<Rightarrow> 'p gbmap option \<Rightarrow> u64 \<Rightarrow> u32 \<times> 'p gbmap option" where
  "ext2fs_test_generic_bmap ops None arg = (0, None)"
| "ext2fs_test_generic_bmap ops (Some (GB32 b)) arg =
     (if ext2fs_is_32_bitmap (b32_magic b)
      then if above_32 arg then (0, Some (GB32 b))
           else (ext2fs_test_generic_bitmap b (ucast arg), Some (GB32 b))
      else (0, Some (GB32 b)))"
| "ext2fs_test_generic_bmap ops (Some (GB64 b)) arg =
     (if \<not> ext2fs_is_64_bitmap (bm_magic b) then (0, Some (GB64 b))
      else let c = drop_bit (bm_cluster_bits b) arg in
           if outside64 b c then (0, Some (GB64 b))
           else (case op_test_bmap ops b c of (r, b') \<Rightarrow> (r, Some (GB64 b'))))"

section \<open>The whole bitmap\<close>

text \<open>What is left of a freed bitmap: nothing, unless the magic number is neither kind's.\<close>

fun ext2fs_free_generic_bmap :: "'p gbmap option \<Rightarrow> 'p gbmap option" where
  "ext2fs_free_generic_bmap None = None"
| "ext2fs_free_generic_bmap (Some (GB32 b)) =
     (if ext2fs_is_32_bitmap (b32_magic b) then map_option GB32 (ext2fs_free_generic_bitmap (Some b)) else Some (GB32 b))"
| "ext2fs_free_generic_bmap (Some (GB64 b)) =
     (if \<not> ext2fs_is_64_bitmap (bm_magic b) then Some (GB64 b) else None)"

text \<open>
  The copy of a 64-bit bitmap allocates the structure (120 bytes) and the description "copy of ..."
  (\<open>descr\<close> is the length of the old one, if any); \<open>src\<close> may change (the cursors of a tree).
\<close>

definition bmap64_header :: "'p bmap64 \<Rightarrow> 'q option bmap64" where
  "bmap64_header src = \<lparr>bm_magic = bm_magic src, bm_flags = 0, bm_start = bm_start src, bm_end = bm_end src,
     bm_real_end = bm_real_end src, bm_cluster_bits = bm_cluster_bits src, bm_private = None\<rparr>"

fun ext2fs_copy_generic_bmap ::
  "'p bitmap_ops \<Rightarrow> u8 \<Rightarrow> malloc \<Rightarrow> nat option \<Rightarrow> 'p gbmap option \<Rightarrow> errcode + 'p gbmap \<times> 'p gbmap" where
  "ext2fs_copy_generic_bmap ops junk mal descr None = Inl EINVAL"
| "ext2fs_copy_generic_bmap ops junk mal descr (Some (GB32 b)) =
     (if ext2fs_is_32_bitmap (b32_magic b)
      then map_sum id (\<lambda>d. (GB32 b, GB32 d)) (ext2fs_copy_generic_bitmap junk mal b)
      else Inl EINVAL)"
| "ext2fs_copy_generic_bmap ops junk mal descr (Some (GB64 b)) =
     (if \<not> ext2fs_is_64_bitmap (bm_magic b) then Inl EINVAL
      else if \<not> mal 120 then Inl EXT2_ET_NO_MEMORY
      else if (case descr of Some n \<Rightarrow> \<not> mal (n + 10) | None \<Rightarrow> False) then Inl EXT2_ET_NO_MEMORY
      else map_sum id (\<lambda>(s, d). (GB64 s, GB64 d)) (op_copy_bmap ops mal b (bmap64_header b)))"

text \<open>The 32-bit function takes the ends as 32-bit numbers: they are truncated.\<close>

fun ext2fs_resize_generic_bmap ::
  "'p bitmap_ops \<Rightarrow> u8 \<Rightarrow> malloc \<Rightarrow> 'p gbmap option \<Rightarrow> u64 \<Rightarrow> u64 \<Rightarrow> errcode option \<times> 'p gbmap option" where
  "ext2fs_resize_generic_bmap ops junk mal None new_end new_real_end = (Some EINVAL, None)"
| "ext2fs_resize_generic_bmap ops junk mal (Some (GB32 b)) new_end new_real_end =
     (case b32_magic b of
        Some m \<Rightarrow> if ext2fs_is_32_bitmap (Some m)
                   then (case ext2fs_resize_generic_bitmap junk mal m (ucast new_end) (ucast new_real_end) b of
                           (r, b') \<Rightarrow> (r, Some (GB32 b')))
                   else (Some EINVAL, Some (GB32 b))
      | None \<Rightarrow> (Some EINVAL, Some (GB32 b)))"
| "ext2fs_resize_generic_bmap ops junk mal (Some (GB64 b)) new_end new_real_end =
     (if \<not> ext2fs_is_64_bitmap (bm_magic b) then (Some EINVAL, Some (GB64 b))
      else (case op_resize_bmap ops mal b new_end new_real_end of (r, b') \<Rightarrow> (r, Some (GB64 b'))))"

fun ext2fs_fudge_generic_bmap_end ::
  "'p gbmap option \<Rightarrow> errcode \<Rightarrow> u64 \<Rightarrow> errcode + u64 \<times> 'p gbmap option" where
  "ext2fs_fudge_generic_bmap_end None neq en = Inl EINVAL"
| "ext2fs_fudge_generic_bmap_end (Some (GB32 b)) neq en =
     (case b32_magic b of
        Some m \<Rightarrow> if ext2fs_is_32_bitmap (Some m)
                   then map_sum id (\<lambda>(o32, b'). (ucast o32, Some (GB32 b'))) (ext2fs_fudge_generic_bitmap_end b m neq (ucast en))
                   else Inl EINVAL
      | None \<Rightarrow> Inl EINVAL)"
| "ext2fs_fudge_generic_bmap_end (Some (GB64 b)) neq en =
     (if \<not> ext2fs_is_64_bitmap (bm_magic b) then Inl EINVAL
      else if en > bm_real_end b then Inl neq
      else Inr (bm_end b, Some (GB64 (b\<lparr>bm_end := en\<rparr>))))"

text \<open>The two functions return \<open>EINVAL\<close>, as a number, for a pointer that is no bitmap.\<close>

fun ext2fs_get_generic_bmap_start :: "'p gbmap option \<Rightarrow> errcode + u64" where
  "ext2fs_get_generic_bmap_start None = Inl EINVAL"
| "ext2fs_get_generic_bmap_start (Some (GB32 b)) =
     (if ext2fs_is_32_bitmap (b32_magic b) then Inr (ucast (ext2fs_get_generic_bitmap_start b)) else Inl EINVAL)"
| "ext2fs_get_generic_bmap_start (Some (GB64 b)) =
     (if \<not> ext2fs_is_64_bitmap (bm_magic b) then Inl EINVAL else Inr (bm_start b))"

fun ext2fs_get_generic_bmap_end :: "'p gbmap option \<Rightarrow> errcode + u64" where
  "ext2fs_get_generic_bmap_end None = Inl EINVAL"
| "ext2fs_get_generic_bmap_end (Some (GB32 b)) =
     (if ext2fs_is_32_bitmap (b32_magic b) then Inr (ucast (ext2fs_get_generic_bitmap_end b)) else Inl EINVAL)"
| "ext2fs_get_generic_bmap_end (Some (GB64 b)) =
     (if \<not> ext2fs_is_64_bitmap (bm_magic b) then Inl EINVAL else Inr (bm_end b))"

text \<open>No check for a null pointer here.\<close>

fun ext2fs_clear_generic_bmap :: "'p bitmap_ops \<Rightarrow> 'p gbmap \<Rightarrow> 'p gbmap" where
  "ext2fs_clear_generic_bmap ops (GB32 b) = GB32 (ext2fs_clear_generic_bitmap b)"
| "ext2fs_clear_generic_bmap ops (GB64 b) = GB64 (op_clear_bmap ops b)"

fun ext2fs_set_generic_bmap_padding :: "'p bitmap_ops \<Rightarrow> 'p gbmap \<Rightarrow> 'p gbmap" where
  "ext2fs_set_generic_bmap_padding ops (GB32 b) = GB32 (ext2fs_set_generic_bitmap_padding b)"
| "ext2fs_set_generic_bmap_padding ops (GB64 b) =
     GB64 (op_mark_bmap_extent ops b (bm_end b + 1) (ucast (bm_real_end b - bm_end b)))"

section \<open>Ranges of bits as bytes\<close>

fun ext2fs_set_generic_bmap_range ::
  "'p bitmap_ops \<Rightarrow> 'p gbmap option \<Rightarrow> u64 \<Rightarrow> u32 \<Rightarrow> u8 list \<Rightarrow> errcode + 'p gbmap" where
  "ext2fs_set_generic_bmap_range ops None start num inp = Inl EINVAL"
| "ext2fs_set_generic_bmap_range ops (Some (GB32 b)) start num inp =
     (case b32_magic b of
        Some m \<Rightarrow> if ext2fs_is_32_bitmap (Some m)
                   then if above_32 (start + ucast num - 1) then Inl EINVAL
                        else map_sum id GB32 (ext2fs_set_generic_bitmap_range (Some b) m (ucast start) num inp)
                   else Inl EINVAL
      | None \<Rightarrow> Inl EINVAL)"
| "ext2fs_set_generic_bmap_range ops (Some (GB64 b)) start num inp =
     (if \<not> ext2fs_is_64_bitmap (bm_magic b) then Inl EINVAL
      else Inr (GB64 (op_set_bmap_range ops b start (unat num) inp)))"

fun ext2fs_get_generic_bmap_range ::
  "'p bitmap_ops \<Rightarrow> 'p gbmap option \<Rightarrow> u64 \<Rightarrow> u32 \<Rightarrow> u8 list \<Rightarrow> errcode + u8 list" where
  "ext2fs_get_generic_bmap_range ops None start num out = Inl EINVAL"
| "ext2fs_get_generic_bmap_range ops (Some (GB32 b)) start num out =
     (case b32_magic b of
        Some m \<Rightarrow> if ext2fs_is_32_bitmap (Some m)
                   then if above_32 (start + ucast num - 1) then Inl EINVAL
                        else ext2fs_get_generic_bitmap_range (Some b) m (ucast start) num out
                   else Inl EINVAL
      | None \<Rightarrow> Inl EINVAL)"
| "ext2fs_get_generic_bmap_range ops (Some (GB64 b)) start num out =
     (if \<not> ext2fs_is_64_bitmap (bm_magic b) then Inl EINVAL
      else Inr (op_get_bmap_range ops b start (unat num) out))"

section \<open>Comparison\<close>

text \<open>
  The only loop of the comparison of 64-bit bitmaps; it runs over the numbers in the last, incomplete
  group of eight.  A test may change a bitmap.
\<close>

partial_function (option) compare_bmap_loop ::
  "'p bitmap_ops \<Rightarrow> 'q bitmap_ops \<Rightarrow> errcode \<Rightarrow> u64 \<Rightarrow> u64 \<Rightarrow> 'p gbmap option \<Rightarrow> 'q gbmap option \<Rightarrow> errcode option option" where
  "compare_bmap_loop ops1 ops2 neq en i g1 g2 =
     (if i \<le> en
      then let (r1, g1') = ext2fs_test_generic_bmap ops1 g1 i; (r2, g2') = ext2fs_test_generic_bmap ops2 g2 i
           in if r1 \<noteq> r2 then Some (Some neq) else compare_bmap_loop ops1 ops2 neq en (i + 1) g1' g2'
      else Some None)"

fun ext2fs_compare_generic_bmap ::
  "'p bitmap_ops \<Rightarrow> 'q bitmap_ops \<Rightarrow> errcode \<Rightarrow> 'p gbmap option \<Rightarrow> 'q gbmap option \<Rightarrow> errcode option option" where
  "ext2fs_compare_generic_bmap ops1 ops2 neq (Some (GB64 b1)) (Some (GB64 b2)) =
     (if bm_magic b1 \<noteq> bm_magic b2 then Some (Some EINVAL)
      else if \<not> ext2fs_is_64_bitmap (bm_magic b1) then Some (Some EINVAL)
      else if bm_start b1 \<noteq> bm_start b2 \<or> bm_end b1 \<noteq> bm_end b2 then Some (Some neq)
      else compare_bmap_loop ops1 ops2 neq (bm_end b1) (bm_end b1 - (bm_end b1 - bm_start b1) mod 8)
             (Some (GB64 b1)) (Some (GB64 b2)))"
| "ext2fs_compare_generic_bmap ops1 ops2 neq (Some (GB32 b1)) (Some (GB32 b2)) =
     (if b32_magic b1 \<noteq> b32_magic b2 then Some (Some EINVAL)
      else (case b32_magic b1 of
              Some m \<Rightarrow> if ext2fs_is_32_bitmap (Some m) then ext2fs_compare_generic_bitmap m neq (Some b1) (Some b2)
                         else Some (Some EINVAL)
            | None \<Rightarrow> Some (Some EINVAL)))"
| "ext2fs_compare_generic_bmap ops1 ops2 neq g1 g2 = Some (Some EINVAL)"

section \<open>Runs of blocks\<close>

text \<open>
  The run of clusters that a run of blocks touches: the first one, and their number as an
  \<open>unsigned int\<close>.
\<close>

definition cluster_run :: "'p bmap64 \<Rightarrow> u64 \<Rightarrow> u32 \<Rightarrow> u64 \<times> u32" where
  "cluster_run b block num =
     (let c = drop_bit (bm_cluster_bits b) block;
          en = drop_bit (bm_cluster_bits b) (block + ucast num + (push_bit (bm_cluster_bits b) 1 - 1))
      in (c, ucast (en - c)))"

definition run_outside64 :: "'p bmap64 \<Rightarrow> u64 \<Rightarrow> u32 \<Rightarrow> bool" where
  "run_outside64 b c n \<longleftrightarrow> c < bm_start b \<or> c > bm_end b \<or> c + ucast n - 1 > bm_end b"

text \<open>\<open>EINVAL\<close> is a number other than 0 here, which a caller takes for "all clear": \<open>Inl\<close>.\<close>

fun ext2fs_test_block_bitmap_range2 :: "'p bitmap_ops \<Rightarrow> 'p gbmap option \<Rightarrow> u64 \<Rightarrow> u32 \<Rightarrow> errcode + bool" where
  "ext2fs_test_block_bitmap_range2 ops None block num = Inl EINVAL"
| "ext2fs_test_block_bitmap_range2 ops (Some (GB32 b)) block num =
     (if num = 1 then Inr (fst (ext2fs_test_generic_bmap ops (Some (GB32 b)) block) = 0)
      else if ext2fs_is_32_bitmap (b32_magic b)
      then if above_32 block \<or> above_32 (block + ucast num - 1) then Inl EINVAL
           else ext2fs_test_block_bitmap_range b (ucast block) num
      else Inl EINVAL)"
| "ext2fs_test_block_bitmap_range2 ops (Some (GB64 b)) block num =
     (if num = 1 then Inr (fst (ext2fs_test_generic_bmap ops (Some (GB64 b)) block) = 0)
      else if \<not> ext2fs_is_64_bitmap (bm_magic b) then Inl EINVAL
      else case cluster_run b block num of (c, n) \<Rightarrow>
             if run_outside64 b c n then Inl EINVAL else Inr (op_test_clear_bmap_extent ops b c n))"

fun ext2fs_mark_block_bitmap_range2 :: "'p bitmap_ops \<Rightarrow> 'p gbmap option \<Rightarrow> u64 \<Rightarrow> u32 \<Rightarrow> 'p gbmap option" where
  "ext2fs_mark_block_bitmap_range2 ops None block num = None"
| "ext2fs_mark_block_bitmap_range2 ops (Some (GB32 b)) block num =
     (if ext2fs_is_32_bitmap (b32_magic b)
      then if above_32 block \<or> above_32 (block + ucast num - 1) then Some (GB32 b)
           else Some (GB32 (ext2fs_mark_block_bitmap_range b (ucast block) num))
      else Some (GB32 b))"
| "ext2fs_mark_block_bitmap_range2 ops (Some (GB64 b)) block num =
     (if \<not> ext2fs_is_64_bitmap (bm_magic b) then Some (GB64 b)
      else case cluster_run b block num of (c, n) \<Rightarrow>
             if run_outside64 b c n then Some (GB64 b) else Some (GB64 (op_mark_bmap_extent ops b c n)))"

fun ext2fs_unmark_block_bitmap_range2 :: "'p bitmap_ops \<Rightarrow> 'p gbmap option \<Rightarrow> u64 \<Rightarrow> u32 \<Rightarrow> 'p gbmap option" where
  "ext2fs_unmark_block_bitmap_range2 ops None block num = None"
| "ext2fs_unmark_block_bitmap_range2 ops (Some (GB32 b)) block num =
     (if ext2fs_is_32_bitmap (b32_magic b)
      then if above_32 block \<or> above_32 (block + ucast num - 1) then Some (GB32 b)
           else Some (GB32 (ext2fs_unmark_block_bitmap_range b (ucast block) num))
      else Some (GB32 b))"
| "ext2fs_unmark_block_bitmap_range2 ops (Some (GB64 b)) block num =
     (if \<not> ext2fs_is_64_bitmap (bm_magic b) then Some (GB64 b)
      else case cluster_run b block num of (c, n) \<Rightarrow>
             if run_outside64 b c n then Some (GB64 b) else Some (GB64 (op_unmark_bmap_extent ops b c n)))"

section \<open>Searches\<close>

text \<open>
  Without an operation of the back end, a loop over tests.  \<open>found\<close> converts back: the first block of
  the cluster, but not before \<open>start\<close>.
\<close>

partial_function (option) find_test_loop ::
  "bool \<Rightarrow> 'p bitmap_ops \<Rightarrow> 'p bmap64 \<Rightarrow> u64 \<Rightarrow> u64 \<Rightarrow> (errcode + u64) option" where
  "find_test_loop v ops b cout cend =
     (if cout \<le> cend
      then (case op_test_bmap ops b cout of
              (r, b') \<Rightarrow> if (r \<noteq> 0) = v then Some (Inr cout) else find_test_loop v ops b' (cout + 1) cend)
      else Some (Inl ENOENT))"

definition found64 :: "'p bmap64 \<Rightarrow> u64 \<Rightarrow> u64 \<Rightarrow> u64" where
  "found64 b start cout =
     (let blk = push_bit (bm_cluster_bits b) cout in if blk \<ge> start then blk else start)"

definition find_generic64 ::
  "bool \<Rightarrow> 'p bitmap_ops \<Rightarrow> ('p bmap64 \<Rightarrow> u64 \<Rightarrow> u64 \<Rightarrow> errcode + u64) option \<Rightarrow> 'p bmap64 \<Rightarrow> u64 \<Rightarrow> u64
   \<Rightarrow> (errcode + u64) option" where
  "find_generic64 v ops find_first b start en =
     (if \<not> ext2fs_is_64_bitmap (bm_magic b) then Some (Inl EINVAL)
      else let cstart = drop_bit (bm_cluster_bits b) start; cend = drop_bit (bm_cluster_bits b) en in
           if cstart < bm_start b \<or> cend > bm_end b \<or> start > en then Some (Inl EINVAL)
           else map_option (map_sum id (found64 b start))
                  (case find_first of
                     Some f \<Rightarrow> Some (f b cstart cend)
                   | None \<Rightarrow> find_test_loop v ops b cstart cend))"

fun ext2fs_find_first_zero_generic_bmap :: "'p bitmap_ops \<Rightarrow> 'p gbmap option \<Rightarrow> u64 \<Rightarrow> u64 \<Rightarrow> (errcode + u64) option" where
  "ext2fs_find_first_zero_generic_bmap ops None start en = Some (Inl EINVAL)"
| "ext2fs_find_first_zero_generic_bmap ops (Some (GB32 b)) start en =
     (if ext2fs_is_32_bitmap (b32_magic b)
      then if above_32 start \<or> above_32 en then Some (Inl EINVAL)
           else map_option (map_sum id ucast) (ext2fs_find_first_zero_generic_bitmap b (ucast start) (ucast en))
      else Some (Inl EINVAL))"
| "ext2fs_find_first_zero_generic_bmap ops (Some (GB64 b)) start en =
     find_generic64 False ops (op_find_first_zero ops) b start en"

fun ext2fs_find_first_set_generic_bmap :: "'p bitmap_ops \<Rightarrow> 'p gbmap option \<Rightarrow> u64 \<Rightarrow> u64 \<Rightarrow> (errcode + u64) option" where
  "ext2fs_find_first_set_generic_bmap ops None start en = Some (Inl EINVAL)"
| "ext2fs_find_first_set_generic_bmap ops (Some (GB32 b)) start en =
     (if ext2fs_is_32_bitmap (b32_magic b)
      then if above_32 start \<or> above_32 en then Some (Inl EINVAL)
           else map_option (map_sum id ucast) (ext2fs_find_first_set_generic_bitmap b (ucast start) (ucast en))
      else Some (Inl EINVAL))"
| "ext2fs_find_first_set_generic_bmap ops (Some (GB64 b)) start en =
     find_generic64 True ops (op_find_first_set ops) b start en"

section \<open>From blocks to clusters\<close>

text \<open>
  \<open>ext2fs_convert_subcluster_bitmap\<close> reads a bitmap of blocks and marks the clusters in a new bitmap.
  \<open>ratio_bits\<close> is \<open>fs->cluster_ratio_bits\<close>, \<open>alloc\<close> the result of \<open>ext2fs_allocate_block_bitmap\<close>.
  The old bitmap is freed.  \<open>n\<close> is the position in the cluster.
\<close>

partial_function (option) convert_loop ::
  "'p bitmap_ops \<Rightarrow> 'q bitmap_ops \<Rightarrow> nat \<Rightarrow> u64 \<Rightarrow> u64 \<Rightarrow> nat \<Rightarrow> 'p gbmap option \<Rightarrow> 'q gbmap option \<Rightarrow> 'q gbmap option option" where
  "convert_loop ops1 ops2 ratio re i n bmap cmap =
     (if i < re
      then (case ext2fs_test_generic_bmap ops1 bmap i of
              (r, bmap') \<Rightarrow>
                if r \<noteq> 0
                then convert_loop ops1 ops2 ratio re (i + (of_nat ratio - of_nat n)) 0 bmap'
                       (snd (ext2fs_mark_generic_bmap ops2 cmap i))
                else convert_loop ops1 ops2 ratio re (i + 1) (if n + 1 \<ge> ratio then 0 else n + 1) bmap' cmap)
      else Some cmap)"

definition ext2fs_convert_subcluster_bitmap ::
  "'p bitmap_ops \<Rightarrow> 'q bitmap_ops \<Rightarrow> nat \<Rightarrow> (errcode + 'q bmap64) \<Rightarrow> 'p bmap64
   \<Rightarrow> (errcode + 'p bmap64 + 'q gbmap option) option" where
  "ext2fs_convert_subcluster_bitmap ops1 ops2 ratio_bits alloc bmap =
     (if ratio_bits = bm_cluster_bits bmap then Some (Inr (Inl bmap))
      else case alloc of
        Inl e \<Rightarrow> Some (Inl e)
      | Inr cmap \<Rightarrow>
          (case convert_loop ops1 ops2 (2 ^ ratio_bits) (bm_real_end bmap) (bm_start bmap) 0
                  (Some (GB64 (bmap\<lparr>bm_end := bm_real_end bmap\<rparr>)))
                  (Some (GB64 (cmap\<lparr>bm_end := bm_real_end cmap\<rparr>))) of
             None \<Rightarrow> None
           | Some (Some (GB64 c)) \<Rightarrow> Some (Inr (Inr (Some (GB64 (c\<lparr>bm_end := bm_end cmap\<rparr>)))))
           | Some g \<Rightarrow> Some (Inr (Inr g))))"

section \<open>Sets of blocks\<close>

text \<open>
  The blocks that a 64-bit bitmap stands for, when \<open>bits\<close> gives the clusters: the blocks of the
  clusters in the set, up to the end.
\<close>

definition cluster_no :: "'p bmap64 \<Rightarrow> u64 \<Rightarrow> u64" where
  "cluster_no b x = drop_bit (bm_cluster_bits b) x"

definition block_set :: "('p bmap64 \<Rightarrow> u64 set) \<Rightarrow> 'p bmap64 \<Rightarrow> u64 set" where
  "block_set bits b = {x. \<not> outside64 b (cluster_no b x) \<and> cluster_no b x \<in> bits b}"

definition cluster_mates :: "'p bmap64 \<Rightarrow> u64 \<Rightarrow> u64 set" where
  "cluster_mates b x = {y. cluster_no b y = cluster_no b x}"

lemma header_eqs:
  assumes "same_header b' b"
  shows "bm_magic b' = bm_magic b" "bm_start b' = bm_start b" "bm_end b' = bm_end b" "bm_real_end b' = bm_real_end b"
    "bm_cluster_bits b' = bm_cluster_bits b" "cluster_no b' = cluster_no b" "outside64 b' = outside64 b" "in_bmap b' = in_bmap b"
  using assms by (auto simp: same_header_def cluster_no_def outside64_def in_bmap_def fun_eq_iff)

lemma unat_cluster: "unat (cluster_no b x) = unat x div 2 ^ bm_cluster_bits b"
  unfolding cluster_no_def unat_drop_bit_eq by (rule drop_bit_eq_div)

lemma cluster_mono: "x \<le> y \<Longrightarrow> cluster_no b x \<le> cluster_no b y"
  by (simp add: word_le_nat_alt unat_cluster div_le_mono)

lemma block_set_upd:
  assumes "same_header b' b" "\<And>c. \<not> outside64 b c \<Longrightarrow> c \<in> bits b' \<longleftrightarrow> c \<in> C \<or> (c \<in> bits b \<and> c \<notin> D)"
  shows "block_set bits b' = {x. \<not> outside64 b (cluster_no b x) \<and> cluster_no b x \<in> C}
      \<union> (block_set bits b - {x. cluster_no b x \<in> D})"
  using assms(2) by (auto simp: block_set_def header_eqs [OF assms(1)])

lemma inside_in_bmap: "\<not> outside64 b c \<Longrightarrow> bm_end b \<le> bm_real_end b \<Longrightarrow> in_bmap b c 1"
  by (auto simp: outside64_def in_bmap_def word_le_nat_alt not_less)

text \<open>The clusters of a run of blocks.\<close>

lemma ceil_div:
  fixes B N R :: nat
  assumes "0 < R" "0 < N"
  shows "(B + N + R - 1) div R = Suc ((B + N - 1) div R)"
proof -
  have "(B + N + R - 1) div R = (B + N - 1 + R) div R" using assms by (intro arg_cong [of _ _ "\<lambda>x. x div R"]) simp
  also have "\<dots> = (B + N - 1) div R + 1" using assms(1) by (intro div_add_self2) simp
  finally show ?thesis by simp
qed

lemma ceil_div_bounds:
  fixes B N R :: nat
  assumes "0 < R" "0 < N"
  shows "B div R < (B + N + R - 1) div R" "(B + N + R - 1) div R - B div R \<le> N"
proof -
  have "B div R \<le> (B + N - 1) div R" using assms by (intro div_le_mono) simp
  then show "B div R < (B + N + R - 1) div R" unfolding ceil_div [OF assms] by simp
  have "(B + N - 1) div R \<le> (B + (N - 1) * R) div R" using assms by (intro div_le_mono) (cases N; simp)
  also have "\<dots> = B div R + (N - 1)" using assms(1) by simp
  finally show "(B + N + R - 1) div R - B div R \<le> N" unfolding ceil_div [OF assms] using assms(2) by linarith
qed

lemma clusters_of_run:
  fixes B N R q :: nat
  assumes "0 < R" "0 < N"
  shows "B div R \<le> q \<and> q < (B + N + R - 1) div R \<longleftrightarrow> (\<exists>x. B \<le> x \<and> x < B + N \<and> x div R = q)" (is "?l \<longleftrightarrow> ?r")
proof
  assume l: ?l
  show ?r
  proof (cases "q = B div R")
    case True
    then show ?thesis using assms by (intro exI [of _ B]) auto
  next
    case False
    have "q \<le> (B + N - 1) div R" using l unfolding ceil_div [OF assms] by simp
    then have "q * R \<le> B + N - 1" using assms by (meson div_times_less_eq_dividend le_trans mult_le_mono1)
    moreover have "B < q * R"
      using False l assms(1) by (metis div_less_iff_less_mult order_le_imp_less_or_eq)
    ultimately show ?thesis using assms by (intro exI [of _ "q * R"]) auto
  qed
next
  assume ?r
  then obtain x where x: "B \<le> x" "x < B + N" "x div R = q" by blast
  show ?l using div_le_mono [OF x(1), of R] div_le_mono [of x "B + N - 1" R] x unfolding ceil_div [OF assms] by (simp add: less_Suc_eq_le)
qed

definition mates_of_run :: "'p bmap64 \<Rightarrow> u64 \<Rightarrow> nat \<Rightarrow> u64 set" where
  "mates_of_run b block n = (\<Union>x \<in> run block n. cluster_mates b x)"

text \<open>The run is not empty, does not wrap around, and the cluster size is in the range of an \<open>int\<close>.\<close>

definition run_ok :: "'p bmap64 \<Rightarrow> u64 \<Rightarrow> u32 \<Rightarrow> bool" where
  "run_ok b block num \<longleftrightarrow> 0 < unat num \<and> bm_cluster_bits b < 31
     \<and> unat block + unat num + 2 ^ bm_cluster_bits b \<le> 2 ^ 64"

definition run_inside :: "'p bmap64 \<Rightarrow> u64 \<Rightarrow> u32 \<Rightarrow> bool" where
  "run_inside b block num \<longleftrightarrow> bm_start b \<le> cluster_no b block \<and> cluster_no b (block + ucast num - 1) \<le> bm_end b"

lemma unat_lt_32: "unat (x :: u32) < 2 ^ 32"
  using unsigned_less [where ?'a = nat, of x] by simp

lemma unat_ucast_32_64: "unat (ucast (x :: u32) :: u64) = unat x"
  using unat_lt_32 [of x] by (simp add: unsigned_ucast_eq take_bit_nat_eq_self_iff)

lemma unat_run_last:
  assumes "0 < unat num" "unat block + unat num < 2 ^ 64"
  shows "unat (block + ucast (num :: u32) - 1 :: u64) = unat block + unat num - 1"
proof -
  have u: "unat (block + ucast num :: u64) = unat block + unat num"
    using assms by (simp add: unat_word_ariths unat_ucast_32_64)
  then have "(block + ucast num :: u64) \<noteq> 0" using assms by (auto simp: unat_eq_0)
  from unat_minus_one [OF this] show ?thesis unfolding u .
qed

lemma in_mates_of_run:
  assumes "unat block + n \<le> 2 ^ 64"
  shows "y \<in> mates_of_run b block n \<longleftrightarrow>
    (\<exists>x. unat block \<le> x \<and> x < unat block + n \<and> x div 2 ^ bm_cluster_bits b = unat y div 2 ^ bm_cluster_bits b)" (is "?l \<longleftrightarrow> ?r")
proof
  assume ?l
  then obtain x where x: "x \<in> run block n" "cluster_no b y = cluster_no b x" by (auto simp: mates_of_run_def cluster_mates_def)
  from x(2) have "unat (cluster_no b y) = unat (cluster_no b x)" by simp
  then show ?r using x(1) by (intro exI [of _ "unat x"]) (simp add: run_def word_le_nat_alt unat_cluster)
next
  assume ?r
  then obtain x where x: "unat block \<le> x" "x < unat block + n" "x div 2 ^ bm_cluster_bits b = unat y div 2 ^ bm_cluster_bits b" by blast
  have u: "unat (of_nat x :: u64) = x" using x(2) assms by (simp add: unat_of_nat)
  have "of_nat x \<in> run block n" using x u by (simp add: run_def word_le_nat_alt)
  moreover have "cluster_no b y = cluster_no b (of_nat x)" using x(3) u by (simp add: word_unat_eq_iff unat_cluster)
  ultimately show ?l by (auto simp: mates_of_run_def cluster_mates_def)
qed

lemma cluster_run_correct:
  assumes "run_ok b block num"
  shows "fst (cluster_run b block num) = cluster_no b block" (is ?A)
    and "unat (cluster_no b block) + unat (snd (cluster_run b block num)) = Suc (unat (cluster_no b (block + ucast num - 1)))" (is ?S)
    and "c \<in> run (cluster_no b block) (unat (snd (cluster_run b block num))) \<longleftrightarrow>
      (\<exists>x. unat block \<le> x \<and> x < unat block + unat num \<and> x div 2 ^ bm_cluster_bits b = unat c)" (is ?C)
proof -
  let ?k = "bm_cluster_bits b" and ?B = "unat block" and ?N = "unat num"
  let ?R = "2 ^ ?k :: nat"
  let ?e = "block + ucast num + (push_bit ?k 1 - 1) :: u64"
  have R: "0 < ?R" "?k < 31" "0 < ?N" "?B + ?N + ?R \<le> 2 ^ 64" using assms by (simp_all add: run_ok_def)
  have lt: "?B + ?N < 2 ^ 64" using R(1,4) by linarith
  show ?A by (simp add: cluster_run_def Let_def cluster_no_def)
  have k0: "?R < 2 ^ 64" using R(2) by (intro power_strict_increasing) simp_all
  have "(push_bit ?k 1 :: u64) = of_nat ?R" by (simp add: push_bit_eq_mult)
  then have k1: "unat (push_bit ?k 1 :: u64) = ?R" using k0 by (simp only: unat_of_nat) simp
  then have "(push_bit ?k 1 :: u64) \<noteq> 0" using R(1) by (metis less_irrefl unat_0)
  from unat_minus_one [OF this] have k2: "unat (push_bit ?k 1 - 1 :: u64) = ?R - 1" unfolding k1 .
  note n = unat_ucast_32_64 [of num]
  have e: "unat ?e = ?B + ?N + ?R - 1"
    using R lt unfolding unat_word_ariths(1) k2 n by simp
  have ce: "unat (cluster_no b ?e) = (?B + ?N + ?R - 1) div ?R" unfolding unat_cluster e ..
  have cb: "unat (cluster_no b block) = ?B div ?R" by (rule unat_cluster)
  note bnd = ceil_div_bounds [OF R(1,3), of ?B]
  have "unat (cluster_no b ?e - cluster_no b block) = (?B + ?N + ?R - 1) div ?R - ?B div ?R"
    using unat_sub [of "cluster_no b block" "cluster_no b ?e"] bnd(1) unfolding ce cb word_le_nat_alt by simp
  moreover have "?N < 2 ^ 32" by (rule unat_lt_32)
  ultimately have sn: "unat (snd (cluster_run b block num)) = (?B + ?N + ?R - 1) div ?R - ?B div ?R"
    using bnd(2) by (simp add: cluster_run_def Let_def cluster_no_def unsigned_ucast_eq take_bit_eq_mod)
  have l: "unat (block + ucast num - 1) = ?B + ?N - 1" using R(3) lt by (intro unat_run_last) simp_all
  show ?S unfolding sn cb unat_cluster [of b "block + ucast num - 1"] l ceil_div [OF R(1,3), symmetric]
    using bnd(1) by simp
  have "c \<in> run (cluster_no b block) (unat (snd (cluster_run b block num)))
      \<longleftrightarrow> ?B div ?R \<le> unat c \<and> unat c < (?B + ?N + ?R - 1) div ?R"
    using bnd(1) by (auto simp: run_def word_le_nat_alt sn unat_cluster)
  then show ?C unfolding clusters_of_run [OF R(1,3)] .
qed

lemma run_ok_bound:
  assumes "run_ok b block num" shows "0 < unat num" "unat block + unat num < 2 ^ 64"
proof -
  have "0 < (2 :: nat) ^ bm_cluster_bits b" by simp
  then show "0 < unat num" "unat block + unat num < 2 ^ 64" using assms unfolding run_ok_def by linarith+
qed

lemma cluster_in_run:
  assumes "run_ok b block num"
  shows "cluster_no b y \<in> run (cluster_no b block) (unat (snd (cluster_run b block num))) \<longleftrightarrow> y \<in> mates_of_run b block (unat num)"
  using in_mates_of_run [of block "unat num" y b] run_ok_bound [OF assms]
  unfolding cluster_run_correct(3) [OF assms] unat_cluster by simp

lemma cluster_of_run:
  assumes "run_ok b block num" "c \<in> run (cluster_no b block) (unat (snd (cluster_run b block num)))"
  shows "\<exists>y. cluster_no b y = c"
proof -
  obtain x where x: "x < unat block + unat num" "x div 2 ^ bm_cluster_bits b = unat c"
    using assms(2) unfolding cluster_run_correct(3) [OF assms(1)] by blast
  have "unat (of_nat x :: u64) = x" using x(1) run_ok_bound [OF assms(1)] by (simp add: unat_of_nat)
  then have "unat (cluster_no b (of_nat x)) = unat c" using x(2) by (simp add: unat_cluster)
  then show ?thesis by (metis word_unat_eq_iff)
qed

text \<open>What a search for the first number with \<open>P\<close> in \<open>{s..e}\<close> returns.\<close>

definition search_result :: "(u64 \<Rightarrow> bool) \<Rightarrow> u64 \<Rightarrow> u64 \<Rightarrow> errcode + u64 \<Rightarrow> bool" where
  "search_result P s e res \<longleftrightarrow> (case res of
       Inr r \<Rightarrow> first_in P s e r
     | Inl err \<Rightarrow> err = ENOENT \<and> (\<forall>x. s \<le> x \<and> x \<le> e \<longrightarrow> \<not> P x))"

lemma found_cluster:
  assumes "bm_cluster_bits b < 64" "start \<le> en" "cluster_no b start \<le> c" "c \<le> cluster_no b en"
  shows "unat (found64 b start c) = max (unat c * 2 ^ bm_cluster_bits b) (unat start)"
    and "start \<le> found64 b start c" "found64 b start c \<le> en" "cluster_no b (found64 b start c) = c"
    and "y < found64 b start c \<Longrightarrow> start \<le> y \<Longrightarrow> cluster_no b y < c"
proof -
  let ?R = "2 ^ bm_cluster_bits b :: nat"
  have c: "unat c \<le> unat en div ?R" "unat start div ?R \<le> unat c"
    using assms(3,4) by (simp_all add: word_le_nat_alt unat_cluster)
  have le: "unat c * ?R \<le> unat en" using c(1) by (meson div_times_less_eq_dividend le_trans mult_le_mono1)
  have "unat c * ?R < 2 ^ 64" using le unsigned_less [of en, where ?'a = nat] by simp
  moreover have "push_bit (bm_cluster_bits b) c = of_nat (unat c * ?R)" by (simp add: push_bit_eq_mult)
  ultimately have "unat (push_bit (bm_cluster_bits b) c) = unat c * ?R" by (simp only: unat_of_nat) simp
  then show f: "unat (found64 b start c) = max (unat c * ?R) (unat start)"
    by (simp add: found64_def Let_def word_le_nat_alt max_def)
  show "start \<le> found64 b start c" "found64 b start c \<le> en"
    using f le assms(2) by (simp_all add: word_le_nat_alt)
  show "cluster_no b (found64 b start c) = c"
  proof (cases "unat c * ?R \<le> unat start")
    case True
    then have "unat c \<le> unat start div ?R" by (simp add: less_eq_div_iff_mult_less_eq)
    then show ?thesis using f True c(2) by (simp add: word_unat_eq_iff unat_cluster max_def)
  qed (use f in \<open>simp add: word_unat_eq_iff unat_cluster max_def\<close>)
  show "cluster_no b y < c" if "y < found64 b start c" "start \<le> y"
  proof -
    have "unat y < unat c * ?R" using that f by (auto simp: word_less_nat_alt word_le_nat_alt)
    then show ?thesis by (simp add: word_less_nat_alt unat_cluster div_less_iff_less_mult)
  qed
qed

lemma found64_correct:
  assumes "bm_cluster_bits b < 64" "start \<le> en" "bm_start b \<le> cluster_no b start" "cluster_no b en \<le> bm_end b"
    and "search_result (\<lambda>c. (c \<in> bits b) = v) (cluster_no b start) (cluster_no b en) res"
  shows "search_result (\<lambda>x. (x \<in> block_set bits b) = v) start en (map_sum id (found64 b start) res)"
proof -
  have bs: "x \<in> block_set bits b \<longleftrightarrow> cluster_no b x \<in> bits b" if "start \<le> x" "x \<le> en" for x
    using cluster_mono [OF that(1), of b] cluster_mono [OF that(2), of b] assms(3,4)
    by (auto simp: block_set_def outside64_def not_less)
  show ?thesis
  proof (cases res)
    case (Inl e)
    have "cluster_no b start \<le> cluster_no b x \<and> cluster_no b x \<le> cluster_no b en" if "start \<le> x" "x \<le> en" for x
      using that by (simp add: cluster_mono)
    then show ?thesis using Inl assms(5) bs by (simp add: search_result_def)
  next
    case (Inr c)
    then have f: "first_in (\<lambda>c. (c \<in> bits b) = v) (cluster_no b start) (cluster_no b en) c"
      using assms(5) by (simp add: search_result_def)
    then have c: "cluster_no b start \<le> c" "c \<le> cluster_no b en" by (simp_all add: first_in_def)
    note fc = found_cluster [OF assms(1,2) c]
    have "(y \<in> block_set bits b) \<noteq> v" if "start \<le> y" "y < found64 b start c" for y
      using fc(5) [OF that(2,1)] cluster_mono [OF that(1), of b] that fc(3) f bs [of y] by (auto simp: first_in_def)
    then show ?thesis using f Inr fc(2,3,4) bs [of "found64 b start c"] by (auto simp: search_result_def first_in_def)
  qed
qed

text \<open>A search inside a 64-bit bitmap.\<close>

definition search_ready :: "'p bmap64 \<Rightarrow> u64 \<Rightarrow> u64 \<Rightarrow> bool" where
  "search_ready b start en \<longleftrightarrow> ext2fs_is_64_bitmap (bm_magic b) \<and> bm_cluster_bits b < 64 \<and> start \<le> en
     \<and> bm_start b \<le> cluster_no b start \<and> cluster_no b en \<le> bm_end b \<and> bm_end b \<noteq> - 1"

lemma run_outside_iff:
  assumes "run_ok b block num"
  shows "run_outside64 b (cluster_no b block) (snd (cluster_run b block num)) \<longleftrightarrow> \<not> run_inside b block num"
proof -
  let ?c = "cluster_no b block" and ?n = "snd (cluster_run b block num)" and ?l = "cluster_no b (block + ucast num - 1)"
  have sum: "unat ?c + unat ?n = Suc (unat ?l)" by (rule cluster_run_correct [OF assms])
  have "?c + ucast ?n = ?l + 1"
  proof -
    have "(of_nat (unat ?c + unat ?n) :: u64) = of_nat (Suc (unat ?l))" unfolding sum ..
    then show ?thesis by (simp add: unat_ucast_32_64 add.commute)
  qed
  then have "?c + ucast ?n - 1 = ?l" by simp
  moreover have "?c \<le> ?l"
  proof (rule cluster_mono)
    note r = run_ok_bound [OF assms]
    from unat_run_last [OF r] show "block \<le> block + ucast num - 1" using r(1) by (simp add: word_le_nat_alt)
  qed
  ultimately show ?thesis by (auto simp: run_outside64_def run_inside_def not_less)
qed

lemma run_in_bmap:
  assumes "run_ok b block num" "run_inside b block num" "bm_end b \<le> bm_real_end b"
  shows "in_bmap b (cluster_no b block) (unat (snd (cluster_run b block num)))"
proof -
  have "unat (cluster_no b (block + ucast num - 1)) \<le> unat (bm_real_end b)"
    using assms(2,3) by (simp add: run_inside_def word_le_nat_alt)
  then show ?thesis using assms(2) cluster_run_correct(2) [OF assms(1)] by (simp add: in_bmap_def run_inside_def)
qed

lemma cluster_inside_run:
  assumes "run_ok b block num" "run_inside b block num" "y \<in> mates_of_run b block (unat num)"
  shows "\<not> outside64 b (cluster_no b y)"
proof -
  have "cluster_no b y \<in> run (cluster_no b block) (unat (snd (cluster_run b block num)))"
    using cluster_in_run [OF assms(1)] assms(3) by blast
  then have "cluster_no b block \<le> cluster_no b y" "cluster_no b y \<le> cluster_no b (block + ucast num - 1)"
    unfolding run_def cluster_run_correct(2) [OF assms(1)] by (simp_all add: word_le_nat_alt)
  then show ?thesis using assms(2) by (auto simp: outside64_def run_inside_def not_less)
qed

text \<open>
  What the generic layer needs beyond the contract of a back end: the value of a test depends only on
  whether the number is in the set, and on the header, so that two bitmaps of the same back end can be
  compared by the values of their tests.
\<close>

locale generic_backend = bitmap_backend +
  assumes test_value: "wf b \<Longrightarrow> wf c \<Longrightarrow> same_header b c \<Longrightarrow> in_bmap b x 1 \<Longrightarrow> x \<in> bits b \<longleftrightarrow> x \<in> bits c
    \<Longrightarrow> fst (op_test_bmap ops b x) = fst (op_test_bmap ops c x)"
begin

lemma gen_range:
  assumes "wf b" "ext2fs_is_64_bitmap (bm_magic b)" "run_ok b block num" "run_inside b block num"
  shows "\<exists>b'. ext2fs_mark_block_bitmap_range2 ops (Some (GB64 b)) block num = Some (GB64 b') \<and> wf b' \<and> same_header b' b
      \<and> block_set bits b' = block_set bits b \<union> mates_of_run b block (unat num)"
    and "\<exists>b'. ext2fs_unmark_block_bitmap_range2 ops (Some (GB64 b)) block num = Some (GB64 b') \<and> wf b' \<and> same_header b' b
      \<and> block_set bits b' = block_set bits b - mates_of_run b block (unat num)"
proof -
  let ?c = "cluster_no b block" and ?n = "snd (cluster_run b block num)"
  note cr = cluster_run_correct(1) [OF assms(3)]
  have ib: "in_bmap b ?c (unat ?n)" using run_in_bmap [OF assms(3,4)] wf_ends [OF assms(1)] by simp
  have no: "\<not> run_outside64 b ?c ?n" using run_outside_iff [OF assms(3)] assms(4) by simp
  note mem = cluster_in_run [OF assms(3)] and ins = cluster_inside_run [OF assms(3,4)]
  note k = mark_extent_ok [OF assms(1) ib]
  have "block_set bits (op_mark_bmap_extent ops b ?c ?n) = block_set bits b \<union> mates_of_run b block (unat num)"
  proof -
    have "block_set bits (op_mark_bmap_extent ops b ?c ?n) = {x. \<not> outside64 b (cluster_no b x) \<and> cluster_no b x \<in> run ?c (unat ?n)}
        \<union> (block_set bits b - {x. cluster_no b x \<in> {}})"
      by (rule block_set_upd) (use k in auto)
    also have "\<dots> = block_set bits b \<union> mates_of_run b block (unat num)" unfolding mem using ins by blast
    finally show ?thesis .
  qed
  then show "\<exists>b'. ext2fs_mark_block_bitmap_range2 ops (Some (GB64 b)) block num = Some (GB64 b') \<and> wf b' \<and> same_header b' b
      \<and> block_set bits b' = block_set bits b \<union> mates_of_run b block (unat num)"
    using k no assms(2) by (intro exI [of _ "op_mark_bmap_extent ops b ?c ?n"]) (simp add: case_prod_beta cr)
  note k = unmark_extent_ok [OF assms(1) ib]
  have "block_set bits (op_unmark_bmap_extent ops b ?c ?n) = block_set bits b - mates_of_run b block (unat num)"
  proof -
    have "block_set bits (op_unmark_bmap_extent ops b ?c ?n) = {x. \<not> outside64 b (cluster_no b x) \<and> cluster_no b x \<in> {}}
        \<union> (block_set bits b - {x. cluster_no b x \<in> run ?c (unat ?n)})"
      by (rule block_set_upd) (use k in auto)
    also have "\<dots> = block_set bits b - mates_of_run b block (unat num)" unfolding mem by blast
    finally show ?thesis .
  qed
  then show "\<exists>b'. ext2fs_unmark_block_bitmap_range2 ops (Some (GB64 b)) block num = Some (GB64 b') \<and> wf b' \<and> same_header b' b
      \<and> block_set bits b' = block_set bits b - mates_of_run b block (unat num)"
    using k no assms(2) by (intro exI [of _ "op_unmark_bmap_extent ops b ?c ?n"]) (simp add: case_prod_beta cr)
qed

lemma gen_range_test:
  assumes "wf b" "ext2fs_is_64_bitmap (bm_magic b)" "run_ok b block num" "num \<noteq> 1"
  shows "ext2fs_test_block_bitmap_range2 ops (Some (GB64 b)) block num =
    (if run_inside b block num then Inr (block_set bits b \<inter> mates_of_run b block (unat num) = {}) else Inl EINVAL)"
proof -
  let ?c = "cluster_no b block" and ?n = "snd (cluster_run b block num)"
  note cr = cluster_run_correct(1) [OF assms(3)]
  have e: "ext2fs_test_block_bitmap_range2 ops (Some (GB64 b)) block num =
      (if run_inside b block num then Inr (op_test_clear_bmap_extent ops b ?c ?n) else Inl EINVAL)"
    using assms(2,4) by (simp add: case_prod_beta cr run_outside_iff [OF assms(3)])
  show ?thesis
  proof (cases "run_inside b block num")
    case True
    note mem = cluster_in_run [OF assms(3)] and ins = cluster_inside_run [OF assms(3) True]
    have ib: "in_bmap b ?c (unat ?n)" using run_in_bmap [OF assms(3) True] wf_ends [OF assms(1)] by simp
    have "bits b \<inter> run ?c (unat ?n) = {} \<longleftrightarrow> block_set bits b \<inter> mates_of_run b block (unat num) = {}"
    proof -
      have "\<exists>y. y \<in> block_set bits b \<and> y \<in> mates_of_run b block (unat num)" if c: "c \<in> bits b" "c \<in> run ?c (unat ?n)" for c
      proof -
        obtain y where "cluster_no b y = c" using cluster_of_run [OF assms(3) c(2)] by blast
        moreover from this have "y \<in> mates_of_run b block (unat num)" using c(2) mem by blast
        ultimately show ?thesis using c(1) ins by (auto simp: block_set_def)
      qed
      moreover have "cluster_no b y \<in> bits b \<inter> run ?c (unat ?n)" if "y \<in> block_set bits b \<inter> mates_of_run b block (unat num)" for y
        using that mem by (auto simp: block_set_def)
      ultimately show ?thesis by blast
    qed
    then show ?thesis using e test_clear_ok [OF assms(1) ib] True by simp
  qed (simp add: e del: ext2fs_test_block_bitmap_range2.simps)
qed

lemma gen_mark:
  assumes "wf b" "ext2fs_is_64_bitmap (bm_magic b)" "\<not> outside64 b (cluster_no b x)"
  shows "\<exists>r b'. ext2fs_mark_generic_bmap ops (Some (GB64 b)) x = (r, Some (GB64 b')) \<and> wf b' \<and> same_header b' b
    \<and> block_set bits b' = block_set bits b \<union> cluster_mates b x \<and> (r \<noteq> 0 \<longleftrightarrow> x \<in> block_set bits b)"
proof -
  let ?c = "cluster_no b x"
  obtain r b' where m: "op_mark_bmap ops b ?c = (r, b')" by fastforce
  have "bm_end b \<le> bm_real_end b" using wf_ends [OF assms(1)] by simp
  note k = mark_ok [OF assms(1) inside_in_bmap [OF assms(3) this] m]
  have "ext2fs_mark_generic_bmap ops (Some (GB64 b)) x = (r, Some (GB64 b'))"
    using assms(2,3) m by (simp add: Let_def cluster_no_def)
  moreover have "block_set bits b' = block_set bits b \<union> cluster_mates b x"
    using block_set_upd [of b' b bits "{?c}" "{}"] k assms(3) by (auto simp: cluster_mates_def)
  moreover have "x \<in> block_set bits b \<longleftrightarrow> ?c \<in> bits b" using assms(3) by (simp add: block_set_def)
  ultimately show ?thesis using k by simp
qed

lemma gen_unmark:
  assumes "wf b" "ext2fs_is_64_bitmap (bm_magic b)" "\<not> outside64 b (cluster_no b x)"
  shows "\<exists>r b'. ext2fs_unmark_generic_bmap ops (Some (GB64 b)) x = (r, Some (GB64 b')) \<and> wf b' \<and> same_header b' b
    \<and> block_set bits b' = block_set bits b - cluster_mates b x \<and> (x \<in> block_set bits b \<longrightarrow> r \<noteq> 0)"
proof -
  let ?c = "cluster_no b x"
  obtain r b' where m: "op_unmark_bmap ops b ?c = (r, b')" by fastforce
  have "bm_end b \<le> bm_real_end b" using wf_ends [OF assms(1)] by simp
  note k = unmark_ok [OF assms(1) inside_in_bmap [OF assms(3) this] m]
  have "ext2fs_unmark_generic_bmap ops (Some (GB64 b)) x = (r, Some (GB64 b'))"
    using assms(2,3) m by (simp add: Let_def cluster_no_def)
  moreover have "block_set bits b' = block_set bits b - cluster_mates b x"
    using block_set_upd [of b' b bits "{}" "{?c}"] k by (auto simp: cluster_mates_def)
  moreover have "x \<in> block_set bits b \<longleftrightarrow> ?c \<in> bits b" using assms(3) by (simp add: block_set_def)
  ultimately show ?thesis using k by simp
qed

lemma gen_test:
  assumes "wf b" "ext2fs_is_64_bitmap (bm_magic b)"
  shows "\<exists>r b'. ext2fs_test_generic_bmap ops (Some (GB64 b)) x = (r, Some (GB64 b')) \<and> wf b' \<and> same_header b' b
    \<and> bits b' = bits b \<and> block_set bits b' = block_set bits b \<and> (r \<noteq> 0 \<longleftrightarrow> x \<in> block_set bits b)"
proof (cases "outside64 b (cluster_no b x)")
  case True
  then show ?thesis using assms by (simp add: Let_def cluster_no_def [symmetric] block_set_def)
next
  case False
  let ?c = "cluster_no b x"
  obtain r b' where m: "op_test_bmap ops b ?c = (r, b')" by fastforce
  have "bm_end b \<le> bm_real_end b" using wf_ends [OF assms(1)] by simp
  note k = test_ok [OF assms(1) inside_in_bmap [OF False this] m]
  have "ext2fs_test_generic_bmap ops (Some (GB64 b)) x = (r, Some (GB64 b'))"
    using assms(2) False m by (simp add: Let_def cluster_no_def)
  moreover have "block_set bits b' = block_set bits b"
    using block_set_upd [of b' b bits "{}" "{}"] k by simp
  ultimately show ?thesis using k False by (simp add: block_set_def)
qed

lemma find_test_loop_correct:
  assumes "wf b" "bm_start b \<le> cout" "cend \<le> bm_real_end b" "cend \<noteq> - 1"
  shows "\<exists>res. find_test_loop v ops b cout cend = Some res \<and> search_result (\<lambda>c. (c \<in> bits b) = v) cout cend res"
  using assms
proof (induction "unat cend + 1 - unat cout" arbitrary: b cout rule: less_induct)
  case less
  show ?case
  proof (cases "cout \<le> cend")
    case False
    then show ?thesis 
      by (subst find_test_loop.simps) (auto simp: search_result_def)
  next
    case True
    obtain r b' where t: "op_test_bmap ops b cout = (r, b')" by fastforce
    have "in_bmap b cout 1" unfolding in_bmap_1 using less.prems True by simp
    note k = test_ok [OF less.prems(1) this t]
    show ?thesis
    proof (cases "(r \<noteq> 0) = v")
      case hit: True
      then have "find_test_loop v ops b cout cend = Some (Inr cout)"
        by (subst find_test_loop.simps) (simp add: True t hit del: find_test_loop.simps)
      moreover have "(cout \<in> bits b) = v" using hit k by blast
      then have "search_result (\<lambda>c. (c \<in> bits b) = v) cout cend (Inr cout)"
        using True leD by (simp add: search_result_def first_in_def) blast
      ultimately show ?thesis by blast
    next
      case no: False
      have "cout \<noteq> - 1" using True less.prems(4) by (metis word_n1_ge order_antisym)
      then have u: "unat (cout + 1) = unat cout + 1" by (simp add: unat_succ)
      have m: "unat cend + 1 - unat (cout + 1) < unat cend + 1 - unat cout" using True u by (simp add: word_le_nat_alt)
      have "bm_start b' \<le> cout + 1" using less.prems(2) u header_eqs(2) [of b' b] k by (simp add: word_le_nat_alt)
      moreover have "cend \<le> bm_real_end b'" using less.prems(3) header_eqs(4) [of b' b] k by simp
      ultimately obtain res where res: "find_test_loop v ops b' (cout + 1) cend = Some res"
          "search_result (\<lambda>c. (c \<in> bits b') = v) (cout + 1) cend res"
        using less.hyps [OF m, of b'] k less.prems(4) by blast
      have nx: "cout \<le> y \<longleftrightarrow> y = cout \<or> cout + 1 \<le> y" for y
        using u by (auto simp: word_le_nat_alt word_unat_eq_iff)
      have "search_result (\<lambda>c. (c \<in> bits b) = v) cout cend res"
        using res(2) k no True unfolding search_result_def first_in_def by (auto split: sum.splits simp: nx)
      moreover have "find_test_loop v ops b cout cend = Some res"
        by (subst find_test_loop.simps) (simp add: True t no res(1))
      ultimately show ?thesis by blast
    qed
  qed
qed

text \<open>The searches: with an operation of the back end, or with the loop over tests.\<close>

lemma gen_search:
  assumes "wf b" "search_ready b start en"
    and "\<And>ff. find_first = Some ff \<Longrightarrow>
      search_result (\<lambda>c. (c \<in> bits b) = v) (cluster_no b start) (cluster_no b en) (ff b (cluster_no b start) (cluster_no b en))"
  shows "\<exists>res. find_generic64 v ops find_first b start en = Some res \<and> search_result (\<lambda>x. (x \<in> block_set bits b) = v) start en res"
proof -
  let ?s = "cluster_no b start" and ?e = "cluster_no b en"
  have r: "ext2fs_is_64_bitmap (bm_magic b)" "bm_cluster_bits b < 64" "start \<le> en" "bm_start b \<le> ?s" "?e \<le> bm_end b" "bm_end b \<noteq> - 1"
    using assms(2) by (simp_all add: search_ready_def)
  have "?e \<le> bm_real_end b" using r(5) wf_ends [OF assms(1)] by auto
  moreover have "?e \<noteq> - 1" using r(5,6) below_max by blast
  ultimately have l: "\<exists>res. find_test_loop v ops b ?s ?e = Some res \<and> search_result (\<lambda>c. (c \<in> bits b) = v) ?s ?e res"
    using find_test_loop_correct [OF assms(1) r(4)] by blast
  have "\<exists>res. (case find_first of Some f \<Rightarrow> Some (f b ?s ?e) | None \<Rightarrow> find_test_loop v ops b ?s ?e) = Some res
      \<and> search_result (\<lambda>c. (c \<in> bits b) = v) ?s ?e res"
  proof (cases find_first)
    case None
    then show ?thesis using l by simp
  next
    case (Some ff)
    then show ?thesis using assms(3) [OF Some] by simp
  qed
  then obtain res where res: "(case find_first of Some f \<Rightarrow> Some (f b ?s ?e) | None \<Rightarrow> find_test_loop v ops b ?s ?e) = Some res"
      "search_result (\<lambda>c. (c \<in> bits b) = v) ?s ?e res" by blast
  have "find_generic64 v ops find_first b start en = Some (map_sum id (found64 b start) res)"
    using r(1,3,4,5) res(1) by (auto simp: find_generic64_def Let_def cluster_no_def [symmetric])
  then show ?thesis using found64_correct [where bits = bits and v = v, OF r(2-5) res(2)] by blast
qed

lemma gen_find_first:
  assumes "wf b" "search_ready b start en"
  shows "\<exists>res. ext2fs_find_first_set_generic_bmap ops (Some (GB64 b)) start en = Some res
      \<and> search_result (\<lambda>x. x \<in> block_set bits b) start en res"
    and "bits b \<noteq> {} \<Longrightarrow> \<exists>res. ext2fs_find_first_zero_generic_bmap ops (Some (GB64 b)) start en = Some res
      \<and> search_result (\<lambda>x. x \<notin> block_set bits b) start en res"
proof -
  let ?s = "cluster_no b start" and ?e = "cluster_no b en"
  have r: "bm_start b \<le> ?s" "?s \<le> ?e" "?e \<le> bm_real_end b"
    using assms(2) cluster_mono wf_ends [OF assms(1)] by (auto simp: search_ready_def)
  have "\<exists>res. find_generic64 True ops (op_find_first_set ops) b start en = Some res
      \<and> search_result (\<lambda>x. (x \<in> block_set bits b) = True) start en res"
  proof (rule gen_search [OF assms])
    fix ff assume "op_find_first_set ops = Some ff"
    from find_set_ok [OF assms(1) r this] show "search_result (\<lambda>c. (c \<in> bits b) = True) ?s ?e (ff b ?s ?e)"
      by (simp add: search_result_def)
  qed
  then show "\<exists>res. ext2fs_find_first_set_generic_bmap ops (Some (GB64 b)) start en = Some res
      \<and> search_result (\<lambda>x. x \<in> block_set bits b) start en res" by simp
  assume ne: "bits b \<noteq> {}"
  have "\<exists>res. find_generic64 False ops (op_find_first_zero ops) b start en = Some res
      \<and> search_result (\<lambda>x. (x \<in> block_set bits b) = False) start en res"
  proof (rule gen_search [OF assms])
    fix ff assume "op_find_first_zero ops = Some ff"
    from find_zero_ok [OF assms(1) ne r this] show "search_result (\<lambda>c. (c \<in> bits b) = False) ?s ?e (ff b ?s ?e)"
      by (simp add: search_result_def split: sum.splits)
  qed
  then show "\<exists>res. ext2fs_find_first_zero_generic_bmap ops (Some (GB64 b)) start en = Some res
      \<and> search_result (\<lambda>x. x \<notin> block_set bits b) start en res" by simp
qed

text \<open>The whole bitmap.  The new end of \<open>resize\<close> and the ends are cluster numbers.\<close>

lemma gen_clear: "wf b \<Longrightarrow> \<exists>b'. ext2fs_clear_generic_bmap ops (GB64 b) = GB64 b' \<and> wf b' \<and> same_header b' b \<and> block_set bits b' = {}"
  using clear_ok [of b] by (auto simp: block_set_def)

lemma gen_copy:
  assumes "wf b" "bm_flags b = 0" "ext2fs_copy_generic_bmap ops junk mal descr (Some (GB64 b)) = Inr (g, h)"
  shows "\<exists>b' d. g = GB64 b' \<and> h = GB64 d \<and> wf b' \<and> wf d \<and> same_header b' b \<and> same_header d b
    \<and> block_set bits b' = block_set bits b \<and> block_set bits d = block_set bits b"
proof -
  obtain b' d where c: "op_copy_bmap ops mal b (bmap64_header b) = Inr (b', d)" "g = GB64 b'" "h = GB64 d"
    using assms(3) by (cases "op_copy_bmap ops mal b (bmap64_header b)") (auto split: if_splits)
  have "same_header (bmap64_header b :: 'a option bmap64) b" using assms(2) by (simp add: same_header_def bmap64_header_def)
  note k = copy_ok [OF assms(1) this c(1)]
  have "block_set bits b' = block_set bits b" "block_set bits d = block_set bits b"
    using k by (auto simp: block_set_def header_eqs [of b' b] header_eqs [of d b])
  then show ?thesis using k c by blast
qed

lemma gen_resize:
  assumes "wf b" "bm_start b \<le> bm_end b" "bm_start b \<le> ne" "ne \<le> nre" "bm_real_end b \<le> nre" "unat nre < unat (bm_start b) + 2 ^ 63"
    and "ext2fs_resize_generic_bmap ops junk mal (Some (GB64 b)) ne nre = (None, g)"
  shows "\<exists>b'. g = Some (GB64 b') \<and> wf b' \<and> bm_end b' = ne \<and> bm_real_end b' = nre
    \<and> block_set bits b' = {x \<in> block_set bits b. cluster_no b x \<le> ne}"
proof -
  obtain b' where c: "op_resize_bmap ops mal b ne nre = (None, b')" "g = Some (GB64 b')"
    using assms(7) by (auto split: if_splits prod.splits)
  note k = resize_ok [OF assms(1-6) c(1)]
  have cl: "cluster_no b' x = cluster_no b x" for x using k by (simp add: cluster_no_def)
  have "x \<in> block_set bits b' \<longleftrightarrow> x \<in> block_set bits b \<and> cluster_no b x \<le> ne" for x
  proof -
    have "cluster_no b x \<in> bits b' \<inter> {..ne} \<longleftrightarrow> cluster_no b x \<in> bits b \<inter> {..ne} \<inter> {..bm_end b}" using k by simp
    then show ?thesis using k by (auto simp: block_set_def outside64_def cl not_less)
  qed
  then show ?thesis using k c by blast
qed

lemma gen_padding:
  assumes "wf b" "bm_start b \<le> bm_end b" "bm_end b \<noteq> - 1" "unat (bm_real_end b) - unat (bm_end b) < 2 ^ 32"
  shows "\<exists>b'. ext2fs_set_generic_bmap_padding ops (GB64 b) = GB64 b' \<and> wf b' \<and> same_header b' b
    \<and> block_set bits b' = block_set bits b \<and> bits b' = bits b \<union> {c. bm_end b < c \<and> c \<le> bm_real_end b}"
proof -
  let ?n = "ucast (bm_real_end b - bm_end b) :: u32"
  have le: "bm_end b \<le> bm_real_end b" using wf_ends [OF assms(1)] by simp
  have n: "unat ?n = unat (bm_real_end b) - unat (bm_end b)"
    using assms(4) unat_sub [OF le] by (simp add: unsigned_ucast_eq take_bit_nat_eq_self_iff)
  have u: "unat (bm_end b + 1) = unat (bm_end b) + 1" using assms(3) by (rule unat_succ)
  have "in_bmap b (bm_end b + 1) (unat ?n)"
    using assms(2) le by (simp add: in_bmap_def word_le_nat_alt n u)
  note k = mark_extent_ok [OF assms(1) this]
  have r: "run (bm_end b + 1) (unat ?n) = {c. bm_end b < c \<and> c \<le> bm_real_end b}"
    using le by (auto simp: run_def word_le_nat_alt word_less_nat_alt n u)
  have "block_set bits (op_mark_bmap_extent ops b (bm_end b + 1) ?n)
      = {x. \<not> outside64 b (cluster_no b x) \<and> cluster_no b x \<in> {}} \<union> (block_set bits b - {x. cluster_no b x \<in> {}})"
    by (rule block_set_upd) (use k r in \<open>auto simp: outside64_def\<close>)
  then show ?thesis using k r by simp
qed

end

section \<open>Two bitmaps\<close>

context generic_backend
begin

lemma gen_test_value:
  assumes "wf b" "wf c" "same_header b c" "ext2fs_is_64_bitmap (bm_magic b)" "x \<in> block_set bits b \<longleftrightarrow> x \<in> block_set bits c"
  shows "fst (ext2fs_test_generic_bmap ops (Some (GB64 b)) x) = fst (ext2fs_test_generic_bmap ops (Some (GB64 c)) x)"
proof (cases "outside64 c (cluster_no c x)")
  case True
  then show ?thesis using assms(4) header_eqs [OF assms(3)] by (simp add: Let_def cluster_no_def [symmetric])
next
  case False
  let ?c = "cluster_no c x"
  have "?c \<in> bits b \<longleftrightarrow> ?c \<in> bits c" using assms(5) False header_eqs [OF assms(3)] by (simp add: block_set_def)
  moreover have "in_bmap b ?c 1" using inside_in_bmap [of b ?c] False header_eqs [OF assms(3)] wf_ends [OF assms(1)] by simp
  ultimately have "fst (op_test_bmap ops b ?c) = fst (op_test_bmap ops c ?c)" using test_value assms(1-3) by blast
  then show ?thesis using assms(4) False header_eqs [OF assms(3)] by (simp add: Let_def cluster_no_def [symmetric] split_beta)
qed

lemma compare_bmap_loop_correct:
  assumes "wf b" "wf c" "same_header b c" "ext2fs_is_64_bitmap (bm_magic b)" "en \<noteq> - 1"
  shows "compare_bmap_loop ops ops neq en i (Some (GB64 b)) (Some (GB64 c))
    = Some (if \<forall>x. i \<le> x \<and> x \<le> en \<longrightarrow> (x \<in> block_set bits b \<longleftrightarrow> x \<in> block_set bits c) then None else Some neq)"
  using assms
proof (induction "unat en + 1 - unat i" arbitrary: b c i rule: less_induct)
  case less
  show ?case
  proof (cases "i \<le> en")
    case False
    then have "\<forall>x. i \<le> x \<and> x \<le> en \<longrightarrow> (x \<in> block_set bits b \<longleftrightarrow> x \<in> block_set bits c)" by auto
    then show ?thesis by (subst compare_bmap_loop.simps) (simp add: False)
  next
    case True
    have mc: "ext2fs_is_64_bitmap (bm_magic c)" using less.prems(4) header_eqs(1) [OF less.prems(3)] by simp
    obtain r b' where t: "ext2fs_test_generic_bmap ops (Some (GB64 b)) i = (r, Some (GB64 b'))" "wf b'" "same_header b' b"
        "block_set bits b' = block_set bits b" "r \<noteq> 0 \<longleftrightarrow> i \<in> block_set bits b"
      using gen_test [OF less.prems(1,4), of i] by blast
    obtain r2 c' where t2: "ext2fs_test_generic_bmap ops (Some (GB64 c)) i = (r2, Some (GB64 c'))" "wf c'" "same_header c' c"
        "block_set bits c' = block_set bits c" "r2 \<noteq> 0 \<longleftrightarrow> i \<in> block_set bits c"
      using gen_test [OF less.prems(2) mc, of i] by blast
    have eq: "r = r2 \<longleftrightarrow> (i \<in> block_set bits b \<longleftrightarrow> i \<in> block_set bits c)"
      using gen_test_value [OF less.prems(1-4), of i] t(1,5) t2(1,5) by auto
    note step = compare_bmap_loop.simps [of ops ops neq en i "Some (GB64 b)" "Some (GB64 c)", unfolded t(1) t2(1)]
    show ?thesis
    proof (cases "r = r2")
      case False
      then have "\<not> (\<forall>x. i \<le> x \<and> x \<le> en \<longrightarrow> (x \<in> block_set bits b \<longleftrightarrow> x \<in> block_set bits c))" using eq True by auto
      then show ?thesis unfolding step using True False by simp
    next
      case r: True
      have i: "i \<noteq> - 1" using True less.prems(5) by (rule below_max)
      have m: "unat en + 1 - unat (i + 1) < unat en + 1 - unat i" using True unat_succ [OF i] by (simp add: word_le_nat_alt)
      have "same_header b' c'" "ext2fs_is_64_bitmap (bm_magic b')"
        using t(3) t2(3) less.prems(3,4) by (simp_all add: same_header_def)
      from less.hyps [OF m t(2) t2(2) this less.prems(5)]
      show ?thesis unfolding step using True r eq le_succ [OF i] by (auto simp: t(4) t2(4))
    qed
  qed
qed

lemma gen_compare:
  assumes "wf b" "wf c" "same_header b c" "ext2fs_is_64_bitmap (bm_magic b)" "bm_end b \<noteq> - 1"
  shows "ext2fs_compare_generic_bmap ops ops neq (Some (GB64 b)) (Some (GB64 c))
    = Some (if \<forall>x. bm_end b - (bm_end b - bm_start b) mod 8 \<le> x \<and> x \<le> bm_end b
                 \<longrightarrow> (x \<in> block_set bits b \<longleftrightarrow> x \<in> block_set bits c) then None else Some neq)"
  using header_eqs [OF assms(3)] assms(4) compare_bmap_loop_correct [OF assms] by simp

end

text \<open>
  A bitmap of blocks that starts on a cluster boundary, and an empty bitmap of clusters that covers it.
\<close>

definition convert_ready :: "'p bmap64 \<Rightarrow> 'q bmap64 \<Rightarrow> bool" where
  "convert_ready b c \<longleftrightarrow> ext2fs_is_64_bitmap (bm_magic b) \<and> ext2fs_is_64_bitmap (bm_magic c)
     \<and> bm_cluster_bits b = 0 \<and> 0 < bm_cluster_bits c \<and> bm_cluster_bits c < 31
     \<and> unat (bm_start b) mod 2 ^ bm_cluster_bits c = 0 \<and> unat (bm_real_end b) + 2 ^ bm_cluster_bits c < 2 ^ 64
     \<and> bm_start c \<le> cluster_no c (bm_start b) \<and> cluster_no c (bm_real_end b) \<le> bm_real_end c"

text \<open>The conversion from blocks to clusters reads a bitmap of one back end and marks one of another.\<close>

locale bitmap_pair = src: generic_backend ops1 wf1 bits1 + dst: generic_backend ops2 wf2 bits2
  for ops1 :: "'p bitmap_ops" and wf1 bits1 and ops2 :: "'q bitmap_ops" and wf2 bits2
begin

lemma convert_loop_correct:
  assumes "wf1 b" "ext2fs_is_64_bitmap (bm_magic b)"
    and "wf2 c" "ext2fs_is_64_bitmap (bm_magic c)" "bm_cluster_bits c < 31" "ratio = 2 ^ bm_cluster_bits c"
    and "unat re + ratio < 2 ^ 64" "n = unat i mod ratio"
    and "\<And>x. i \<le> x \<Longrightarrow> x < re \<Longrightarrow> \<not> outside64 c (cluster_no c x)"
  shows "\<exists>c'. convert_loop ops1 ops2 ratio re i n (Some (GB64 b)) (Some (GB64 c)) = Some (Some (GB64 c')) \<and> wf2 c' \<and> same_header c' c
    \<and> block_set bits2 c' = block_set bits2 c \<union> {y. \<exists>x. i \<le> x \<and> x < re \<and> x \<in> block_set bits1 b \<and> y \<in> cluster_mates c x}"
  using assms
proof (induction "unat re - unat i" arbitrary: b c i n rule: less_induct)
  case less
  let ?B = "\<lambda>b. block_set bits1 b" and ?C = "\<lambda>c. block_set bits2 c"
  show ?case
  proof (cases "i < re")
    case False
    then have "{y. \<exists>x. i \<le> x \<and> x < re \<and> x \<in> ?B b \<and> y \<in> cluster_mates c x} = {}" by auto
    moreover have "convert_loop ops1 ops2 ratio re i n (Some (GB64 b)) (Some (GB64 c)) = Some (Some (GB64 c))"
      using False by (subst convert_loop.simps) simp
    ultimately show ?thesis using less.prems(3) by (intro exI [of _ c]) auto
  next
    case True
    obtain r b' where t: "ext2fs_test_generic_bmap ops1 (Some (GB64 b)) i = (r, Some (GB64 b'))" "wf1 b'" "same_header b' b"
        "?B b' = ?B b" "r \<noteq> 0 \<longleftrightarrow> i \<in> ?B b"
      using src.gen_test [OF less.prems(1,2), of i] by blast
    have m': "ext2fs_is_64_bitmap (bm_magic b')" using less.prems(2) header_eqs(1) [OF t(3)] by simp
    have R: "0 < ratio" "n < ratio" using less.prems(6,8) by simp_all
    have i: "unat i < unat re" using True by (simp add: word_less_nat_alt)
    show ?thesis
    proof (cases "r = 0")
      case no: True
      have u: "unat (i + 1) = unat i + 1" using True by (intro unat_succ) auto
      have nx: "x \<ge> i + 1 \<longleftrightarrow> i < x" for x using u by (auto simp: word_le_nat_alt word_less_nat_alt)
      let ?n = "if n + 1 \<ge> ratio then 0 else n + 1"
      have n: "?n = unat (i + 1) mod ratio" using less.prems(8) R u by (simp add: mod_Suc)
      have m: "unat re - unat (i + 1) < unat re - unat i" using i u by simp
      have o: "\<not> outside64 c (cluster_no c x)" if "i + 1 \<le> x" "x < re" for x
        using that less.prems(9) nx by simp
      obtain c' where c': "convert_loop ops1 ops2 ratio re (i + 1) ?n (Some (GB64 b')) (Some (GB64 c)) = Some (Some (GB64 c'))"
          "wf2 c'" "same_header c' c"
          "?C c' = ?C c \<union> {y. \<exists>x. i + 1 \<le> x \<and> x < re \<and> x \<in> ?B b' \<and> y \<in> cluster_mates c x}"
        using less.hyps [OF m t(2) m' less.prems(3-7) n o] by blast
      have "convert_loop ops1 ops2 ratio re i n (Some (GB64 b)) (Some (GB64 c)) = Some (Some (GB64 c'))"
        using c'(1) True no t(1) by (subst convert_loop.simps) (simp del: ext2fs_test_generic_bmap.simps)
      moreover have "{y. \<exists>x. i + 1 \<le> x \<and> x < re \<and> x \<in> ?B b' \<and> y \<in> cluster_mates c x}
          = {y. \<exists>x. i \<le> x \<and> x < re \<and> x \<in> ?B b \<and> y \<in> cluster_mates c x}"
        using t(4,5) no unfolding nx by (auto simp: order_le_less)
      ultimately show ?thesis using c' by auto
    next
      case hit: False
      let ?q = "unat i div ratio" and ?i = "i + (of_nat ratio - of_nat n)"
      have qn: "unat i = ?q * ratio + n" using less.prems(8) by simp
      have u: "unat ?i = Suc ?q * ratio"
      proof -
        have "?i = of_nat (unat i + (ratio - n))" using R by (simp add: of_nat_diff)
        moreover have "unat i + (ratio - n) < 2 ^ 64" using less.prems(7) i by simp
        ultimately have "unat ?i = unat i + (ratio - n)" by (simp only: unat_of_nat) simp
        then show ?thesis using qn R by simp
      qed
      have n: "0 = unat ?i mod ratio" unfolding u by simp
      have lt: "unat i < unat ?i" using qn R unfolding u by simp
      have m: "unat re - unat ?i < unat re - unat i" using lt i by simp
      have ni: "\<not> outside64 c (cluster_no c i)" using less.prems(9) True by simp
      obtain r2 c1 where k: "ext2fs_mark_generic_bmap ops2 (Some (GB64 c)) i = (r2, Some (GB64 c1))" "wf2 c1" "same_header c1 c"
          "?C c1 = ?C c \<union> cluster_mates c i"
        using dst.gen_mark [OF less.prems(3,4) ni] by blast
      note h = header_eqs [OF k(3)]
      have cm: "cluster_mates c1 = cluster_mates c" by (simp add: fun_eq_iff cluster_mates_def h)
      have o: "\<not> outside64 c1 (cluster_no c1 x)" if "?i \<le> x" "x < re" for x
        using that less.prems(9) [of x] lt by (simp add: h word_le_nat_alt)
      have "ext2fs_is_64_bitmap (bm_magic c1)" "bm_cluster_bits c1 < 31" "ratio = 2 ^ bm_cluster_bits c1"
        using less.prems(4-6) by (simp_all add: h)
      then obtain c' where c': "convert_loop ops1 ops2 ratio re ?i 0 (Some (GB64 b')) (Some (GB64 c1)) = Some (Some (GB64 c'))"
          "wf2 c'" "same_header c' c1"
          "?C c' = ?C c1 \<union> {y. \<exists>x. ?i \<le> x \<and> x < re \<and> x \<in> ?B b' \<and> y \<in> cluster_mates c x}"
        using less.hyps [OF m t(2) m' k(2) _ _ _ less.prems(7) n o] unfolding cm by blast
      have "convert_loop ops1 ops2 ratio re i n (Some (GB64 b)) (Some (GB64 c)) = Some (Some (GB64 c'))"
        using c'(1) True hit t(1) k(1)
        by (subst convert_loop.simps) (simp del: ext2fs_test_generic_bmap.simps ext2fs_mark_generic_bmap.simps)
      moreover have "same_header c' c" using c'(3) k(3) by (simp add: same_header_def)
      moreover have "?C c' = ?C c \<union> {y. \<exists>x. i \<le> x \<and> x < re \<and> x \<in> ?B b \<and> y \<in> cluster_mates c x}"
      proof -
        have same: "cluster_mates c x = cluster_mates c i" if "i \<le> x" "x < ?i" for x
        proof -
          have "?q * ratio \<le> unat x" "unat x < Suc ?q * ratio"
            using that qn u by (simp_all add: word_le_nat_alt word_less_nat_alt)
          then have "unat x div ratio = ?q" by (simp add: div_nat_eqI mult.commute)
          then have "cluster_no c x = cluster_no c i" by (simp add: word_unat_eq_iff unat_cluster less.prems(6) [symmetric])
          then show ?thesis by (simp add: cluster_mates_def)
        qed
        have "{y. \<exists>x. i \<le> x \<and> x < re \<and> x \<in> ?B b \<and> y \<in> cluster_mates c x}
          = cluster_mates c i \<union> {y. \<exists>x. ?i \<le> x \<and> x < re \<and> x \<in> ?B b' \<and> y \<in> cluster_mates c x}" (is "?l = ?r")
        proof (intro set_eqI iffI)
          fix y assume "y \<in> ?l"
          then obtain x where x: "i \<le> x" "x < re" "x \<in> ?B b" "y \<in> cluster_mates c x" by blast
          then show "y \<in> ?r" using same [of x] t(4) by (cases "x < ?i") (auto simp: not_less)
        next
          fix y assume "y \<in> ?r"
          moreover have "i \<le> x" if "?i \<le> x" for x using that lt by (simp add: word_le_nat_alt)
          ultimately show "y \<in> ?l" using t(4,5) hit True by auto
        qed
        then show ?thesis using c'(4) k(4) by auto
      qed
      ultimately show ?thesis using c'(2) by blast
    qed
  qed
qed

lemma gen_convert:
  assumes "wf1 b" "wf2 c" "bits2 c = {}" "convert_ready b c"
  shows "\<exists>c'. ext2fs_convert_subcluster_bitmap ops1 ops2 (bm_cluster_bits c) (Inr c) b = Some (Inr (Inr (Some (GB64 c'))))
    \<and> wf2 c' \<and> same_header c' c
    \<and> block_set bits2 c' = {y. cluster_no c y \<le> bm_end c \<and> (\<exists>x \<in> bits1 b. x < bm_real_end b \<and> y \<in> cluster_mates c x)}"
proof -
  let ?b = "b\<lparr>bm_end := bm_real_end b\<rparr>" and ?c = "c\<lparr>bm_end := bm_real_end c\<rparr>"
  note r = assms(4) [unfolded convert_ready_def]
  have wb: "wf1 ?b" "bits1 ?b = bits1 b" using src.wf_end [OF assms(1), of "bm_real_end b"] by simp_all
  have wc: "wf2 ?c" "bits2 ?c = {}" using dst.wf_end [OF assms(2), of "bm_real_end c"] assms(3) by simp_all
  have cn: "cluster_no ?c = cluster_no c" by (simp add: fun_eq_iff cluster_no_def)
  then have cm: "cluster_mates ?c = cluster_mates c" by (simp add: fun_eq_iff cluster_mates_def)
  have B: "block_set bits1 ?b = bits1 b"
    using src.bits_in [OF assms(1)] r by (auto simp: block_set_def outside64_def cluster_no_def wb(2) not_less)
  have o: "\<not> outside64 ?c (cluster_no ?c x)" if "bm_start b \<le> x" "x < bm_real_end b" for x
  proof -
    have "cluster_no c (bm_start b) \<le> cluster_no c x" "cluster_no c x \<le> cluster_no c (bm_real_end b)"
      using that by (simp_all add: cluster_mono)
    then show ?thesis using r unfolding cn by (auto simp: outside64_def not_less)
  qed
  obtain d where d: "convert_loop ops1 ops2 (2 ^ bm_cluster_bits c) (bm_real_end b) (bm_start b) 0 (Some (GB64 ?b)) (Some (GB64 ?c))
        = Some (Some (GB64 d))" "wf2 d" "same_header d ?c"
      "block_set bits2 d = block_set bits2 ?c \<union> {y. \<exists>x. bm_start b \<le> x \<and> x < bm_real_end b \<and> x \<in> bits1 b \<and> y \<in> cluster_mates c x}"
    using convert_loop_correct [of ?b ?c "2 ^ bm_cluster_bits c" "bm_real_end b" 0 "bm_start b"] r wb(1) wc(1) o
    unfolding B cm by auto
  note h = header_eqs [OF d(3)]
  let ?d = "d\<lparr>bm_end := bm_end c\<rparr>"
  have hd: "same_header ?d c" using d(3) by (simp add: same_header_def)
  have wd: "wf2 ?d" "bits2 ?d = bits2 d"
    using dst.wf_end [OF d(2), of "bm_end c"] dst.wf_ends [OF assms(2)] h(4) by simp_all
  have "ext2fs_convert_subcluster_bitmap ops1 ops2 (bm_cluster_bits c) (Inr c) b = Some (Inr (Inr (Some (GB64 ?d))))"
    using r d(1) by (simp add: ext2fs_convert_subcluster_bitmap_def)
  moreover have "block_set bits2 ?d = {y \<in> block_set bits2 d. cluster_no c y \<le> bm_end c}"
    using h hd dst.wf_ends [OF assms(2)] by (auto simp: block_set_def outside64_def wd(2) header_eqs [OF hd] cn not_less)
  moreover have "block_set bits2 d = {y. \<exists>x \<in> bits1 b. x < bm_real_end b \<and> y \<in> cluster_mates c x}"
    using d(4) src.bits_in [OF assms(1)] by (auto simp: block_set_def wc(2))
  ultimately show ?thesis using wd(1) hd by auto
qed

end

end
