(* ===== verification/Gen_Bitmap_Props.thy ===== *)
theory Gen_Bitmap_Props
  imports Gen_Bitmap64 Bmap_BA Bmap_RB_Backend
begin

text \<open>
  The generic bitmaps on the two back ends: the allocation, which chooses the back end, and the
  properties of the generic operations for the array and for the tree, from the lemmas of theory
  \<open>Gen_Bitmap64\<close> by interpretation.
\<close>

section \<open>Allocation\<close>

text \<open>The pointer \<open>bitmap->bitmap_ops\<close> of the new bitmap says which back end it has.\<close>

datatype any_bmap = Bitarray ba_bmap | Rbtree rb_bmap

definition EXT2FS_BMAP64_BITARRAY :: int where "EXT2FS_BMAP64_BITARRAY = 1"
definition EXT2FS_BMAP64_RBTREE :: int where "EXT2FS_BMAP64_RBTREE = 2"
definition EXT2FS_BMAP64_AUTODIR :: int where "EXT2FS_BMAP64_AUTODIR = 3"

text \<open>
  \<open>num_dirs\<close> is the result of \<open>ext2fs_get_num_dirs\<close>, \<open>inodes_count\<close> and \<open>ratio_bits\<close> are fields of the
  file system; \<open>descr\<close> is the length of the description.
\<close>

definition alloc_ops :: "(errcode + u32) \<Rightarrow> u32 \<Rightarrow> int \<Rightarrow> errcode + bool" where
  "alloc_ops num_dirs inodes_count type =
     (let t = (if type = 0 then EXT2FS_BMAP64_BITARRAY else type) in
      if t = EXT2FS_BMAP64_BITARRAY then Inr False
      else if t = EXT2FS_BMAP64_RBTREE then Inr True
      else if t = EXT2FS_BMAP64_AUTODIR
      then (case num_dirs of
              Inl e \<Rightarrow> Inr False
            | Inr n \<Rightarrow> if n > inodes_count div 320 then Inr False else Inr True)
      else Inl EINVAL)"

definition alloc_header :: "nat \<Rightarrow> errcode \<Rightarrow> u64 \<Rightarrow> u64 \<Rightarrow> u64 \<Rightarrow> 'p option bmap64" where
  "alloc_header ratio_bits magic start en real_end =
     \<lparr>bm_magic = magic, bm_flags = 0, bm_start = start, bm_end = en, bm_real_end = real_end,
      bm_cluster_bits = (if magic = EXT2_ET_MAGIC_BLOCK_BITMAP64 then ratio_bits else 0), bm_private = None\<rparr>"

definition ext2fs_alloc_generic_bmap ::
  "u8 \<Rightarrow> nat \<Rightarrow> malloc \<Rightarrow> (errcode + u32) \<Rightarrow> u32 \<Rightarrow> nat \<Rightarrow> errcode \<Rightarrow> int \<Rightarrow> u64 \<Rightarrow> u64 \<Rightarrow> u64 \<Rightarrow> nat option \<Rightarrow> errcode + any_bmap" where
  "ext2fs_alloc_generic_bmap junk base mal num_dirs inodes_count ratio_bits magic type start en real_end descr =
     (case alloc_ops num_dirs inodes_count type of
        Inl e \<Rightarrow> Inl e
      | Inr tree \<Rightarrow>
          if \<not> mal 120 then Inl EXT2_ET_NO_MEMORY
          else if (case descr of Some n \<Rightarrow> \<not> mal (n + 1) | None \<Rightarrow> False) then Inl EXT2_ET_NO_MEMORY
          else if tree
          then map_sum id Rbtree (op_new_bmap ext2fs_blkmap64_rbtree mal (alloc_header ratio_bits magic start en real_end))
          else map_sum id Bitarray (op_new_bmap (ext2fs_blkmap64_bitarray junk base) mal (alloc_header ratio_bits magic start en real_end)))"

section \<open>What the operations do to the set of blocks\<close>

text \<open>The argument is a well-formed bitmap like \<open>b\<close> that stands for the set \<open>S\<close> of blocks.\<close>

definition bmap_is :: "('p bmap64 \<Rightarrow> bool) \<Rightarrow> ('p bmap64 \<Rightarrow> u64 set) \<Rightarrow> 'p bmap64 \<Rightarrow> u64 set \<Rightarrow> 'p gbmap option \<Rightarrow> bool" where
  "bmap_is ok bits b S g \<longleftrightarrow> (\<exists>b'. g = Some (GB64 b') \<and> ok b' \<and> same_header b' b \<and> block_set bits b' = S)"

definition bmap_ready :: "('p bmap64 \<Rightarrow> bool) \<Rightarrow> 'p bmap64 \<Rightarrow> bool" where
  "bmap_ready ok b \<longleftrightarrow> ok b \<and> ext2fs_is_64_bitmap (bm_magic b)"

lemma bmap_is_Some: "bmap_is ok bits b S (Some (GB64 b')) \<longleftrightarrow> ok b' \<and> same_header b' b \<and> block_set bits b' = S"
  by (simp add: bmap_is_def)

text \<open>The answers of the two searches, for any table of operations.\<close>

definition searches_right :: "'p bitmap_ops \<Rightarrow> ('p bmap64 \<Rightarrow> u64 set) \<Rightarrow> 'p bmap64 \<Rightarrow> u64 \<Rightarrow> u64 \<Rightarrow> bool" where
  "searches_right ops bits b start en \<longleftrightarrow>
     (\<exists>r1 r2. ext2fs_find_first_set_generic_bmap ops (Some (GB64 b)) start en = Some r1
        \<and> search_result (\<lambda>x. x \<in> block_set bits b) start en r1
        \<and> ext2fs_find_first_zero_generic_bmap ops (Some (GB64 b)) start en = Some r2
        \<and> search_result (\<lambda>x. x \<notin> block_set bits b) start en r2)"

text \<open>A table without the two searches, for which the generic functions test one number after the other.\<close>

definition no_search :: "'p bitmap_ops \<Rightarrow> 'p bitmap_ops" where
  "no_search ops = ops\<lparr>op_find_first_zero := None, op_find_first_set := None\<rparr>"

context generic_backend
begin

lemma no_search_backend: "generic_backend (no_search ops) wf bits"
proof -
  have e: "op_new_bmap (no_search ops) = op_new_bmap ops" "op_copy_bmap (no_search ops) = op_copy_bmap ops"
    "op_mark_bmap (no_search ops) = op_mark_bmap ops" "op_unmark_bmap (no_search ops) = op_unmark_bmap ops"
    "op_test_bmap (no_search ops) = op_test_bmap ops" "op_mark_bmap_extent (no_search ops) = op_mark_bmap_extent ops"
    "op_unmark_bmap_extent (no_search ops) = op_unmark_bmap_extent ops"
    "op_test_clear_bmap_extent (no_search ops) = op_test_clear_bmap_extent ops"
    "op_clear_bmap (no_search ops) = op_clear_bmap ops" "op_resize_bmap (no_search ops) = op_resize_bmap ops"
    "op_find_first_zero (no_search ops) = None" "op_find_first_set (no_search ops) = None"
    by (simp_all add: no_search_def)
  show ?thesis
    by (unfold_locales; (unfold e)?; ((rule bits_in wf_ends wf_end new_ok copy_ok mark_ok unmark_ok test_ok mark_extent_ok
          unmark_extent_ok test_clear_ok clear_ok resize_ok test_value; assumption) | simp))
qed

lemma searches_with:
  assumes "wf b" "search_ready b start en" "bits b \<noteq> {}"
  shows "searches_right ops bits b start en"
  using gen_find_first(1) [OF assms(1,2)] gen_find_first(2) [OF assms] unfolding searches_right_def by blast

lemma searches_no:
  assumes "wf b" "search_ready b start en" "op_find_first_zero ops = None" "op_find_first_set ops = None"
  shows "searches_right ops bits b start en"
  using gen_find_first(1) [OF assms(1,2)] gen_search [OF assms(1,2), of None False] assms(3)
  unfolding searches_right_def by auto

lemma bit_operations:
  assumes "bmap_ready wf b" "\<not> outside64 b (cluster_no b x)"
  shows "(case ext2fs_mark_generic_bmap ops (Some (GB64 b)) x of (r, g) \<Rightarrow>
        bmap_is wf bits b (block_set bits b \<union> cluster_mates b x) g \<and> (r \<noteq> 0 \<longleftrightarrow> x \<in> block_set bits b))
    \<and> (case ext2fs_unmark_generic_bmap ops (Some (GB64 b)) x of (r, g) \<Rightarrow>
        bmap_is wf bits b (block_set bits b - cluster_mates b x) g \<and> (x \<in> block_set bits b \<longrightarrow> r \<noteq> 0))
    \<and> (case ext2fs_test_generic_bmap ops (Some (GB64 b)) x of (r, g) \<Rightarrow>
        bmap_is wf bits b (block_set bits b) g \<and> (r \<noteq> 0 \<longleftrightarrow> x \<in> block_set bits b))"
proof -
  have r: "wf b" "ext2fs_is_64_bitmap (bm_magic b)" using assms(1) by (simp_all add: bmap_ready_def)
  show ?thesis using gen_mark [OF r assms(2)] gen_unmark [OF r assms(2)] gen_test [OF r, of x]
    by (elim exE conjE) (simp only: prod.case bmap_is_Some simp_thms)
qed

lemma range_operations:
  assumes "bmap_ready wf b" "run_ok b block num"
  shows "(if run_inside b block num
      then bmap_is wf bits b (block_set bits b \<union> mates_of_run b block (unat num)) (ext2fs_mark_block_bitmap_range2 ops (Some (GB64 b)) block num)
        \<and> bmap_is wf bits b (block_set bits b - mates_of_run b block (unat num)) (ext2fs_unmark_block_bitmap_range2 ops (Some (GB64 b)) block num)
      else ext2fs_mark_block_bitmap_range2 ops (Some (GB64 b)) block num = Some (GB64 b)
        \<and> ext2fs_unmark_block_bitmap_range2 ops (Some (GB64 b)) block num = Some (GB64 b))
    \<and> ext2fs_test_block_bitmap_range2 ops (Some (GB64 b)) block num =
      (if num = 1 then Inr (block \<notin> block_set bits b)
       else if run_inside b block num then Inr (block_set bits b \<inter> mates_of_run b block (unat num) = {}) else Inl EINVAL)"
proof
  have r: "wf b" "ext2fs_is_64_bitmap (bm_magic b)" using assms(1) by (simp_all add: bmap_ready_def)
  note cr = cluster_run_correct(1) [OF assms(2)]
  show "if run_inside b block num
      then bmap_is wf bits b (block_set bits b \<union> mates_of_run b block (unat num)) (ext2fs_mark_block_bitmap_range2 ops (Some (GB64 b)) block num)
        \<and> bmap_is wf bits b (block_set bits b - mates_of_run b block (unat num)) (ext2fs_unmark_block_bitmap_range2 ops (Some (GB64 b)) block num)
      else ext2fs_mark_block_bitmap_range2 ops (Some (GB64 b)) block num = Some (GB64 b)
        \<and> ext2fs_unmark_block_bitmap_range2 ops (Some (GB64 b)) block num = Some (GB64 b)"
  proof (cases "run_inside b block num")
    case True
    then show ?thesis using gen_range [OF r assms(2) True] by (simp add: bmap_is_def)
  next
    case False
    then show ?thesis using r(2) run_outside_iff [OF assms(2)] by (simp add: case_prod_beta cr)
  qed
  show "ext2fs_test_block_bitmap_range2 ops (Some (GB64 b)) block num =
      (if num = 1 then Inr (block \<notin> block_set bits b)
       else if run_inside b block num then Inr (block_set bits b \<inter> mates_of_run b block (unat num) = {}) else Inl EINVAL)"
  proof (cases "num = 1")
    case True
    then show ?thesis using gen_test [OF r, of block] by (auto simp del: ext2fs_test_generic_bmap.simps)
  next
    case False
    then show ?thesis using gen_range_test [OF r assms(2) False] by (simp del: ext2fs_test_block_bitmap_range2.simps)
  qed
qed

lemma whole_operations:
  assumes "bmap_ready wf b" "bm_start b \<le> bm_end b" "bm_end b \<noteq> - 1" "unat (bm_real_end b) - unat (bm_end b) < 2 ^ 32"
  shows "bmap_is wf bits b {} (Some (ext2fs_clear_generic_bmap ops (GB64 b)))
    \<and> bmap_is wf bits b (block_set bits b) (Some (ext2fs_set_generic_bmap_padding ops (GB64 b)))
    \<and> (bm_flags b = 0 \<longrightarrow> (case ext2fs_copy_generic_bmap ops junk mal descr (Some (GB64 b)) of
         Inl e \<Rightarrow> True
       | Inr (g, h) \<Rightarrow> bmap_is wf bits b (block_set bits b) (Some g) \<and> bmap_is wf bits b (block_set bits b) (Some h)))"
proof -
  have r: "wf b" using assms(1) by (simp add: bmap_ready_def)
  have "bmap_is wf bits b (block_set bits b) (Some g) \<and> bmap_is wf bits b (block_set bits b) (Some h)"
    if "bm_flags b = 0" "ext2fs_copy_generic_bmap ops junk mal descr (Some (GB64 b)) = Inr (g, h)" for g h
    using gen_copy [OF r that] by (auto simp: bmap_is_def)
  then show ?thesis using gen_clear [OF r] gen_padding [OF r assms(2-4)]
    by (simp add: bmap_is_def del: ext2fs_copy_generic_bmap.simps split: sum.splits prod.splits)
qed

lemma resize_operation:
  assumes "wf b" "bm_start b \<le> bm_end b" "bm_start b \<le> ne" "ne \<le> nre" "bm_real_end b \<le> nre" "unat nre < unat (bm_start b) + 2 ^ 63"
  shows "case ext2fs_resize_generic_bmap ops junk mal (Some (GB64 b)) ne nre of
      (Some e, g) \<Rightarrow> True
    | (None, g) \<Rightarrow> \<exists>b'. g = Some (GB64 b') \<and> wf b' \<and> bm_end b' = ne \<and> bm_real_end b' = nre
        \<and> block_set bits b' = {x \<in> block_set bits b. cluster_no b x \<le> ne}"
  using gen_resize [OF assms] by (simp del: ext2fs_resize_generic_bmap.simps split: prod.split option.split)

end

section \<open>The interpretations\<close>

lemma rb_test_bit_values: "fst (rb_test_bit bp n) \<in> {0, 1}"
proof -
  have s: "fst (rb_search_tree n q) \<in> {0, 1}" for q by (auto simp: rb_search_tree_def split: sum.splits)
  then have "fst (rb_test_wcursor n q) \<in> {0, 1}" for q by (auto simp: rb_test_wcursor_def split: option.splits)
  then show ?thesis using s by (auto simp: rb_test_bit_def Let_def split: option.splits)
qed

text \<open>A test of the array gives the mask of the bit, or 0.\<close>

lemma test_bit_at_values: "test_bit_at nr xs \<in> {0, push_bit (unat (nr AND 7)) 1}"
proof -
  have "push_bit k 1 AND (w :: u32) = (if bit w k then push_bit k 1 else 0)" for k w
    by (rule bit_eqI) (auto simp: bit_simps)
  then show ?thesis by (simp add: test_bit_at_def Let_def)
qed

interpretation rb: generic_backend ext2fs_blkmap64_rbtree wf_rb rb_bits
proof
  fix b c :: rb_bmap and x
  assume *: "wf_rb b" "wf_rb c" "same_header b c" "in_bmap b x 1" "x \<in> rb_bits b \<longleftrightarrow> x \<in> rb_bits c"
  then have "in_bmap c x 1" by (simp add: in_bmap_def same_header_def)
  then have "fst (rb_test_bmap b x) \<noteq> 0 \<longleftrightarrow> fst (rb_test_bmap c x) \<noteq> 0"
    using rb.test_ok [OF *(1,4), unfolded rbtree_ops, OF prod.collapse [symmetric]]
      rb.test_ok [OF *(2), of x, unfolded rbtree_ops, OF _ prod.collapse [symmetric]] *(5) by blast
  moreover have "fst (rb_test_bmap d x) \<in> {0, 1}" for d
    using rb_test_bit_values by (simp add: rb_test_bmap_def split_beta)
  note this [of b] this [of c]
  ultimately have "fst (rb_test_bmap b x) = fst (rb_test_bmap c x)" by auto
  then show "fst (op_test_bmap ext2fs_blkmap64_rbtree b x) = fst (op_test_bmap ext2fs_blkmap64_rbtree c x)"
    unfolding rbtree_ops .
qed

interpretation ba: generic_backend "ext2fs_blkmap64_bitarray junk base" wf_ba ba_bits
proof
  fix b c :: ba_bmap and x
  assume *: "wf_ba b" "wf_ba c" "same_header b c" "in_bmap b x 1" "x \<in> ba_bits b \<longleftrightarrow> x \<in> ba_bits c"
  then have "in_bmap c x 1" "bm_start b = bm_start c" by (simp_all add: in_bmap_def same_header_def)
  then have "fst (ba_test_bmap b x) = fst (ba_test_bmap c x)"
    using ba_test_correct [OF *(1,4)] ba_test_correct [OF *(2), of x] *(5)
      test_bit_at_values [of "x - bm_start c" "ba_array (bm_private b)"] test_bit_at_values [of "x - bm_start c" "ba_array (bm_private c)"]
    by (auto simp: ba_test_bmap_def bitop_defs)
  then show "fst (op_test_bmap (ext2fs_blkmap64_bitarray junk base) b x)
      = fst (op_test_bmap (ext2fs_blkmap64_bitarray junk base) c x)"
    unfolding bitarray_ops .
qed

interpretation rb_to_rb: bitmap_pair ext2fs_blkmap64_rbtree wf_rb rb_bits ext2fs_blkmap64_rbtree wf_rb rb_bits ..
interpretation ba_to_ba: bitmap_pair "ext2fs_blkmap64_bitarray junk base" wf_ba ba_bits "ext2fs_blkmap64_bitarray junk base" wf_ba ba_bits ..
interpretation rb_to_ba: bitmap_pair ext2fs_blkmap64_rbtree wf_rb rb_bits "ext2fs_blkmap64_bitarray junk base" wf_ba ba_bits ..
interpretation ba_to_rb: bitmap_pair "ext2fs_blkmap64_bitarray junk base" wf_ba ba_bits ext2fs_blkmap64_rbtree wf_rb rb_bits ..

section \<open>The searches of the two back ends\<close>

lemma ba_searches:
  assumes "wf_ba c" "search_ready c start en"
  shows "searches_right (ext2fs_blkmap64_bitarray junk base) ba_bits c start en"
proof -
  let ?s = "cluster_no c start" and ?e = "cluster_no c en"
  have r: "bm_start c \<le> ?s" "?s \<le> ?e" "?e \<le> bm_real_end c"
    using assms(2) cluster_mono ba.wf_ends [OF assms(1)] by (auto simp: search_ready_def)
  from find_first_correct [OF assms(1) r, of False base]
  have "search_result (\<lambda>x. (x \<in> ba_bits c) = False) ?s ?e (ba_find_first_zero base c ?s ?e)"
    unfolding ba_find_first_zero_def search_result_def by (simp split: sum.splits)
  then have "\<exists>res. find_generic64 False (ext2fs_blkmap64_bitarray junk base) (Some (ba_find_first_zero base)) c start en = Some res
      \<and> search_result (\<lambda>x. (x \<in> block_set ba_bits c) = False) start en res"
    by (intro ba.gen_search [OF assms]) simp
  then show ?thesis
    using ba.gen_find_first(1) [OF assms, where junk = junk and base = base] unfolding searches_right_def by (simp add: bitarray_ops)
qed

lemma rb_searches_empty:
  assumes "wf_rb b" "search_ready b start en" "rb_bits b = {}"
  shows "ext2fs_find_first_set_generic_bmap ext2fs_blkmap64_rbtree (Some (GB64 b)) start en = Some (Inl ENOENT)"
    and "ext2fs_find_first_zero_generic_bmap ext2fs_blkmap64_rbtree (Some (GB64 b)) start en = Some (Inl ENOENT)"
proof -
  let ?s = "cluster_no b start" and ?e = "cluster_no b en"
  have r: "bm_start b \<le> ?s" "?s \<le> ?e" using assms(2) cluster_mono by (auto simp: search_ready_def)
  show "ext2fs_find_first_zero_generic_bmap ext2fs_blkmap64_rbtree (Some (GB64 b)) start en = Some (Inl ENOENT)"
    using rb_find_zero_empty [OF assms(1,3) r] assms(2)
    by (auto simp: rbtree_ops find_generic64_def search_ready_def Let_def cluster_no_def)
  obtain res where res: "ext2fs_find_first_set_generic_bmap ext2fs_blkmap64_rbtree (Some (GB64 b)) start en = Some res"
    "search_result (\<lambda>x. x \<in> block_set rb_bits b) start en res" using rb.gen_find_first(1) [OF assms(1,2)] by blast
  then show "ext2fs_find_first_set_generic_bmap ext2fs_blkmap64_rbtree (Some (GB64 b)) start en = Some (Inl ENOENT)"
    using assms(3) by (cases res) (auto simp: search_result_def first_in_def block_set_def)
qed

section \<open>The properties\<close>

text \<open>
  C29.  Marking, unmarking and testing one block inside the bitmap add, remove and ask for the blocks of
  its cluster, on both back ends; marking and testing return whether the block was in the set.
\<close>

theorem generic_bit_operations_correct:
  assumes "bmap_ready wf_rb b" "\<not> outside64 b (cluster_no b x)"
    and "bmap_ready wf_ba c" "\<not> outside64 c (cluster_no c y)"
  shows "((case ext2fs_mark_generic_bmap ext2fs_blkmap64_rbtree (Some (GB64 b)) x of (r, g) \<Rightarrow>
        bmap_is wf_rb rb_bits b (block_set rb_bits b \<union> cluster_mates b x) g \<and> (r \<noteq> 0 \<longleftrightarrow> x \<in> block_set rb_bits b))
    \<and> (case ext2fs_unmark_generic_bmap ext2fs_blkmap64_rbtree (Some (GB64 b)) x of (r, g) \<Rightarrow>
        bmap_is wf_rb rb_bits b (block_set rb_bits b - cluster_mates b x) g \<and> (x \<in> block_set rb_bits b \<longrightarrow> r \<noteq> 0))
    \<and> (case ext2fs_test_generic_bmap ext2fs_blkmap64_rbtree (Some (GB64 b)) x of (r, g) \<Rightarrow>
        bmap_is wf_rb rb_bits b (block_set rb_bits b) g \<and> (r \<noteq> 0 \<longleftrightarrow> x \<in> block_set rb_bits b)))
    \<and> ((case ext2fs_mark_generic_bmap (ext2fs_blkmap64_bitarray junk base) (Some (GB64 c)) y of (r, g) \<Rightarrow>
        bmap_is wf_ba ba_bits c (block_set ba_bits c \<union> cluster_mates c y) g \<and> (r \<noteq> 0 \<longleftrightarrow> y \<in> block_set ba_bits c))
    \<and> (case ext2fs_unmark_generic_bmap (ext2fs_blkmap64_bitarray junk base) (Some (GB64 c)) y of (r, g) \<Rightarrow>
        bmap_is wf_ba ba_bits c (block_set ba_bits c - cluster_mates c y) g \<and> (y \<in> block_set ba_bits c \<longrightarrow> r \<noteq> 0))
    \<and> (case ext2fs_test_generic_bmap (ext2fs_blkmap64_bitarray junk base) (Some (GB64 c)) y of (r, g) \<Rightarrow>
        bmap_is wf_ba ba_bits c (block_set ba_bits c) g \<and> (r \<noteq> 0 \<longleftrightarrow> y \<in> block_set ba_bits c)))"
  by (rule conjI [OF rb.bit_operations [OF assms(1,2)] ba.bit_operations [OF assms(3,4)]])

lemma demo_rest [simp]: "bm_magic rb_demo = EXT2_ET_MAGIC_BLOCK_BITMAP64" "bm_cluster_bits rb_demo = 0" "bm_flags rb_demo = 0"
  "bm_magic rb_demo_new = EXT2_ET_MAGIC_BLOCK_BITMAP64" "bm_cluster_bits rb_demo_new = 0" "bm_flags rb_demo_new = 0"
  "bm_start rb_demo_new = 1" "bm_end rb_demo_new = 100" "bm_real_end rb_demo_new = 120"
  by (simp_all add: rb_demo_def rb_mark_bmap_extent_def rb_demo_new_def)

lemma rb_demo_ready: "bmap_ready wf_rb rb_demo" "bmap_ready wf_rb rb_demo_new" "same_header rb_demo rb_demo_new"
  by (simp_all add: bmap_ready_def wf_rb_demo wf_rb_demo_new ext2fs_is_64_bitmap_def same_header_def)

lemma plain_demo_blocks: "x \<in> block_set rb_bits rb_demo \<longleftrightarrow> 10 \<le> x \<and> x < 30" "block_set rb_bits rb_demo_new = {}"
  by (auto simp: block_set_def cluster_no_def outside64_def wf_rb_demo(2) wf_rb_demo_new(2) word_le_nat_alt word_less_nat_alt not_less)

text \<open>A bitmap of clusters of four blocks: the clusters 10 to 29, that is the blocks 40 to 119.\<close>

definition cluster_demo :: rb_bmap where
  "cluster_demo = rb_demo\<lparr>bm_cluster_bits := 2\<rparr>"

lemma cluster_demo_ready: "bmap_ready wf_rb cluster_demo" "rb_bits cluster_demo = rb_bits rb_demo"
  "bm_start cluster_demo = 1" "bm_end cluster_demo = 100" "bm_real_end cluster_demo = 120"
  "bm_cluster_bits cluster_demo = 2" "bm_flags cluster_demo = 0"
proof -
  show "bmap_ready wf_rb cluster_demo"
    using wf_rb_demo(1) by (simp add: bmap_ready_def cluster_demo_def wf_rb_def rb_top_def ext2fs_is_64_bitmap_def
      rb_demo_def rb_mark_bmap_extent_def rb_demo_new_def)
qed (simp_all add: cluster_demo_def rb_bits_def rb_demo_def rb_mark_bmap_extent_def rb_demo_new_def)

lemma ba_demo_ready: "bmap_ready wf_ba ba_demo"
  using wf_ba_demo by (simp add: bmap_ready_def ext2fs_is_64_bitmap_def ba_demo_def)

lemma cluster_demo_blocks: "x \<in> block_set rb_bits cluster_demo \<longleftrightarrow> 40 \<le> x \<and> x < 120"
proof -
  have "x \<in> block_set rb_bits cluster_demo \<longleftrightarrow> 10 \<le> unat x div 4 \<and> unat x div 4 < 30"
    by (auto simp: block_set_def outside64_def cluster_demo_ready wf_rb_demo(2) word_le_nat_alt word_less_nat_alt unat_cluster not_less)
  then show ?thesis by (auto simp: word_le_nat_alt word_less_nat_alt)
qed

lemma generic_bit_operations_correct_witness:
  "fst (ext2fs_test_generic_bmap ext2fs_blkmap64_rbtree (Some (GB64 cluster_demo)) 41) \<noteq> 0
   \<and> fst (ext2fs_mark_generic_bmap (ext2fs_blkmap64_bitarray 0 0) (Some (GB64 ba_demo)) 17) = 0"
proof -
  have o: "\<not> outside64 cluster_demo (cluster_no cluster_demo 41)" "\<not> outside64 ba_demo (cluster_no ba_demo 17)"
    by (simp_all add: outside64_def cluster_no_def cluster_demo_ready ba_demo_def)
  have "cluster_no ba_demo 17 = 17" by (simp add: cluster_no_def ba_demo_def)
  then have b: "17 \<notin> block_set ba_bits ba_demo" by (simp add: block_set_def ba_demo_bits)
  have m: "41 \<in> block_set rb_bits cluster_demo" by (simp add: cluster_demo_blocks)
  from generic_bit_operations_correct [OF cluster_demo_ready(1) o(1) ba_demo_ready o(2), where junk = 0 and base = 0]
  show ?thesis using b m by (simp only: split_beta simp_thms)
qed

text \<open>
  C30.  Marking and unmarking a run of blocks (of at least one, with an end that does not wrap around) inside
  the bitmap add and remove the blocks of all clusters that the run touches, and a run that is not inside leaves the bitmap as it was; testing a run of more
  than one block says whether none of these blocks is in the set, or refuses a run that is not inside;
  testing a run of one block says whether it is not in the set, also outside of the bitmap.
\<close>

theorem generic_ranges_correct:
  assumes "bmap_ready wf_rb b" "run_ok b block num" "bmap_ready wf_ba c" "run_ok c block num"
  shows "(if run_inside b block num
      then bmap_is wf_rb rb_bits b (block_set rb_bits b \<union> mates_of_run b block (unat num))
          (ext2fs_mark_block_bitmap_range2 ext2fs_blkmap64_rbtree (Some (GB64 b)) block num)
        \<and> bmap_is wf_rb rb_bits b (block_set rb_bits b - mates_of_run b block (unat num))
          (ext2fs_unmark_block_bitmap_range2 ext2fs_blkmap64_rbtree (Some (GB64 b)) block num)
      else ext2fs_mark_block_bitmap_range2 ext2fs_blkmap64_rbtree (Some (GB64 b)) block num = Some (GB64 b)
        \<and> ext2fs_unmark_block_bitmap_range2 ext2fs_blkmap64_rbtree (Some (GB64 b)) block num = Some (GB64 b))
    \<and> ext2fs_test_block_bitmap_range2 ext2fs_blkmap64_rbtree (Some (GB64 b)) block num =
      (if num = 1 then Inr (block \<notin> block_set rb_bits b)
       else if run_inside b block num then Inr (block_set rb_bits b \<inter> mates_of_run b block (unat num) = {}) else Inl EINVAL)
    \<and> (if run_inside c block num
      then bmap_is wf_ba ba_bits c (block_set ba_bits c \<union> mates_of_run c block (unat num))
          (ext2fs_mark_block_bitmap_range2 (ext2fs_blkmap64_bitarray junk base) (Some (GB64 c)) block num)
        \<and> bmap_is wf_ba ba_bits c (block_set ba_bits c - mates_of_run c block (unat num))
          (ext2fs_unmark_block_bitmap_range2 (ext2fs_blkmap64_bitarray junk base) (Some (GB64 c)) block num)
      else ext2fs_mark_block_bitmap_range2 (ext2fs_blkmap64_bitarray junk base) (Some (GB64 c)) block num = Some (GB64 c)
        \<and> ext2fs_unmark_block_bitmap_range2 (ext2fs_blkmap64_bitarray junk base) (Some (GB64 c)) block num = Some (GB64 c))
    \<and> ext2fs_test_block_bitmap_range2 (ext2fs_blkmap64_bitarray junk base) (Some (GB64 c)) block num =
      (if num = 1 then Inr (block \<notin> block_set ba_bits c)
       else if run_inside c block num then Inr (block_set ba_bits c \<inter> mates_of_run c block (unat num) = {}) else Inl EINVAL)"
  using rb.range_operations [OF assms(1,2)] ba.range_operations [OF assms(3,4), where junk = junk and base = base] by blast

lemma generic_ranges_correct_witness:
  "ext2fs_test_block_bitmap_range2 ext2fs_blkmap64_rbtree (Some (GB64 cluster_demo)) 37 4 = Inr False
   \<and> ext2fs_test_block_bitmap_range2 (ext2fs_blkmap64_bitarray 0 0) (Some (GB64 ba_demo)) 37 4 = Inl EINVAL
   \<and> ext2fs_mark_block_bitmap_range2 (ext2fs_blkmap64_bitarray 0 0) (Some (GB64 ba_demo)) 37 4 = Some (GB64 ba_demo)"
proof -
  have r: "run_ok cluster_demo 37 4" "run_ok ba_demo 37 4" by (simp_all add: run_ok_def cluster_demo_ready ba_demo_def)
  have i: "run_inside cluster_demo 37 4" "\<not> run_inside ba_demo 37 4"
    by (simp_all add: run_inside_def cluster_no_def cluster_demo_ready ba_demo_def)
  have "40 \<in> run 37 (unat (4 :: u32))" by (simp add: run_def)
  then have "40 \<in> mates_of_run cluster_demo 37 (unat (4 :: u32))" by (auto simp: mates_of_run_def cluster_mates_def)
  then have "block_set rb_bits cluster_demo \<inter> mates_of_run cluster_demo 37 (unat (4 :: u32)) \<noteq> {}"
    using cluster_demo_blocks [of 40] by auto
  with generic_ranges_correct [OF cluster_demo_ready(1) r(1) ba_demo_ready r(2), where junk = 0 and base = 0] i
  show ?thesis by (simp del: ext2fs_mark_block_bitmap_range2.simps ext2fs_unmark_block_bitmap_range2.simps ext2fs_test_block_bitmap_range2.simps)
qed

text \<open>
  C31.  The searches in an interval inside of the bitmap return, and their result is the first block of the
  interval in the set, or out of it, where clusters are translated to their first block but never before the start; \<open>ENOENT\<close> when
  there is none.  This holds for the array, for the tree when there is a block in it, and for tables of
  operations without a search, for which the numbers are tested one by one.  On an empty tree the
  search for a block in the set is right, and the one for a block out of it returns \<open>ENOENT\<close>, which is
  the defect of the back end.
\<close>

theorem generic_find_first_correct:
  assumes "wf_rb b" "search_ready b start en" "wf_ba c" "search_ready c start en"
  shows "(if rb_bits b \<noteq> {} then searches_right ext2fs_blkmap64_rbtree rb_bits b start en
      else ext2fs_find_first_set_generic_bmap ext2fs_blkmap64_rbtree (Some (GB64 b)) start en = Some (Inl ENOENT)
        \<and> ext2fs_find_first_zero_generic_bmap ext2fs_blkmap64_rbtree (Some (GB64 b)) start en = Some (Inl ENOENT))
    \<and> searches_right (ext2fs_blkmap64_bitarray junk base) ba_bits c start en
    \<and> searches_right (no_search ext2fs_blkmap64_rbtree) rb_bits b start en
    \<and> searches_right (no_search (ext2fs_blkmap64_bitarray junk base)) ba_bits c start en"
proof (intro conjI)
  show "if rb_bits b \<noteq> {} then searches_right ext2fs_blkmap64_rbtree rb_bits b start en
      else ext2fs_find_first_set_generic_bmap ext2fs_blkmap64_rbtree (Some (GB64 b)) start en = Some (Inl ENOENT)
        \<and> ext2fs_find_first_zero_generic_bmap ext2fs_blkmap64_rbtree (Some (GB64 b)) start en = Some (Inl ENOENT)"
    using rb.searches_with [OF assms(1,2)] rb_searches_empty [OF assms(1,2)] by simp
  show "searches_right (ext2fs_blkmap64_bitarray junk base) ba_bits c start en" by (rule ba_searches [OF assms(3,4)])
  show "searches_right (no_search ext2fs_blkmap64_rbtree) rb_bits b start en"
    by (rule generic_backend.searches_no [OF rb.no_search_backend assms(1,2)]) (simp_all add: no_search_def)
  show "searches_right (no_search (ext2fs_blkmap64_bitarray junk base)) ba_bits c start en"
    by (rule generic_backend.searches_no [OF ba.no_search_backend assms(3,4)]) (simp_all add: no_search_def)
qed

lemma generic_find_first_correct_witness:
  "ext2fs_find_first_set_generic_bmap (ext2fs_blkmap64_bitarray 0 0) (Some (GB64 ba_demo)) 17 20 = Some (Inr 18)
   \<and> ext2fs_find_first_zero_generic_bmap (ext2fs_blkmap64_bitarray 0 0) (Some (GB64 ba_demo)) 18 20 = Some (Inl ENOENT)"
proof -
  have b: "x \<in> block_set ba_bits ba_demo \<longleftrightarrow> 1 \<le> x \<and> x \<le> 20 \<and> x \<noteq> 17" for x
    by (auto simp: block_set_def cluster_no_def ba_demo_bits outside64_def) (auto simp: ba_demo_def)
  have r: "search_ready rb_demo s 20" "search_ready ba_demo s 20" if "s = 17 \<or> s = 18" for s
    using that by (auto simp: search_ready_def ext2fs_is_64_bitmap_def cluster_no_def ba_demo_def)
  note f = generic_find_first_correct [OF wf_rb_demo(1) r(1) wf_ba_demo r(2), where junk = 0 and base = 0, THEN conjunct2, THEN conjunct1,
      unfolded searches_right_def]
  obtain r3 where r3: "ext2fs_find_first_set_generic_bmap (ext2fs_blkmap64_bitarray 0 0) (Some (GB64 ba_demo)) 17 20 = Some r3"
      "search_result (\<lambda>x. x \<in> block_set ba_bits ba_demo) 17 20 r3" using f [of 17] by blast
  obtain r4 where r4: "ext2fs_find_first_zero_generic_bmap (ext2fs_blkmap64_bitarray 0 0) (Some (GB64 ba_demo)) 18 20 = Some r4"
      "search_result (\<lambda>x. x \<notin> block_set ba_bits ba_demo) 18 20 r4" using f [of 18] by blast
  have "first_in (\<lambda>x. x \<in> block_set ba_bits ba_demo) 17 20 18"
    by (auto simp: first_in_def b word_le_nat_alt word_less_nat_alt word_unat_eq_iff)
  moreover from this have "\<exists>r. r3 = Inr r" using r3(2) by (cases r3) (auto simp: search_result_def first_in_def)
  ultimately have "r3 = Inr 18" using r3(2) by (auto simp: search_result_def first_in_unique)
  moreover have "r4 = Inl ENOENT"
    using r4(2) by (cases r4) (auto simp: search_result_def first_in_def b word_le_nat_alt word_less_nat_alt word_unat_eq_iff)
  ultimately show ?thesis using r3(1) r4(1) by simp
qed

text \<open>
  The comparison of two 64-bit bitmaps returns.  Bitmaps of different kinds are refused, and those
  with different ends are different, whatever their back ends.  For bitmaps of one back end with the
  same header it says equal exactly when the blocks agree from the start of the last, incomplete group
  of eight on; the numbers before are not looked at.
\<close>

theorem generic_compare_correct:
  assumes "bmap_ready wf_rb b" "bmap_ready wf_rb c" "same_header b c" "bm_end b \<noteq> - 1"
    and "bmap_ready wf_ba d" "bmap_ready wf_ba e" "same_header d e" "bm_end d \<noteq> - 1"
  shows "ext2fs_compare_generic_bmap ext2fs_blkmap64_rbtree ext2fs_blkmap64_rbtree neq (Some (GB64 b)) (Some (GB64 c))
      = Some (if \<forall>x. bm_end b - (bm_end b - bm_start b) mod 8 \<le> x \<and> x \<le> bm_end b
                   \<longrightarrow> (x \<in> block_set rb_bits b \<longleftrightarrow> x \<in> block_set rb_bits c) then None else Some neq)
    \<and> ext2fs_compare_generic_bmap (ext2fs_blkmap64_bitarray junk base) (ext2fs_blkmap64_bitarray junk base) neq (Some (GB64 d)) (Some (GB64 e))
      = Some (if \<forall>x. bm_end d - (bm_end d - bm_start d) mod 8 \<le> x \<and> x \<le> bm_end d
                   \<longrightarrow> (x \<in> block_set ba_bits d \<longleftrightarrow> x \<in> block_set ba_bits e) then None else Some neq)
    \<and> (bm_magic x \<noteq> bm_magic y \<longrightarrow> ext2fs_compare_generic_bmap ops1 ops2 neq (Some (GB64 x)) (Some (GB64 y)) = Some (Some EINVAL))
    \<and> (bm_magic x = bm_magic y \<and> ext2fs_is_64_bitmap (bm_magic x) \<and> (bm_start x \<noteq> bm_start y \<or> bm_end x \<noteq> bm_end y)
        \<longrightarrow> ext2fs_compare_generic_bmap ops1 ops2 neq (Some (GB64 x)) (Some (GB64 y)) = Some (Some neq))"
proof (intro conjI)
  show "ext2fs_compare_generic_bmap ext2fs_blkmap64_rbtree ext2fs_blkmap64_rbtree neq (Some (GB64 b)) (Some (GB64 c))
      = Some (if \<forall>x. bm_end b - (bm_end b - bm_start b) mod 8 \<le> x \<and> x \<le> bm_end b
                   \<longrightarrow> (x \<in> block_set rb_bits b \<longleftrightarrow> x \<in> block_set rb_bits c) then None else Some neq)"
    using rb.gen_compare [of b c] assms(1-4) unfolding bmap_ready_def by blast
  show "ext2fs_compare_generic_bmap (ext2fs_blkmap64_bitarray junk base) (ext2fs_blkmap64_bitarray junk base) neq (Some (GB64 d)) (Some (GB64 e))
      = Some (if \<forall>x. bm_end d - (bm_end d - bm_start d) mod 8 \<le> x \<and> x \<le> bm_end d
                   \<longrightarrow> (x \<in> block_set ba_bits d \<longleftrightarrow> x \<in> block_set ba_bits e) then None else Some neq)"
    using ba.gen_compare [of d e] assms(5-8) unfolding bmap_ready_def by blast
qed auto

lemma generic_compare_correct_witness:
  "ext2fs_compare_generic_bmap ext2fs_blkmap64_rbtree ext2fs_blkmap64_rbtree EXT2_ET_INVALID_ARGUMENT (Some (GB64 rb_demo)) (Some (GB64 rb_demo_new)) = Some None
   \<and> 10 \<in> block_set rb_bits rb_demo \<and> 10 \<notin> block_set rb_bits rb_demo_new"
proof -
  have "\<forall>x. 97 \<le> x \<and> x \<le> 100 \<longrightarrow> (x \<in> block_set rb_bits rb_demo \<longleftrightarrow> x \<in> block_set rb_bits rb_demo_new)"
    by (auto simp: plain_demo_blocks word_le_nat_alt word_less_nat_alt)
  moreover have "bm_end ba_demo \<noteq> - 1" by (simp add: ba_demo_def)
  moreover have "(100 :: u64) - (100 - 1) mod 8 = 97" by simp
  ultimately show ?thesis
    using generic_compare_correct [OF rb_demo_ready _ ba_demo_ready ba_demo_ready same_header_refl, where neq = EXT2_ET_INVALID_ARGUMENT and junk = 0 and base = 0, THEN conjunct1]
    by (simp add: plain_demo_blocks del: ext2fs_compare_generic_bmap.simps)
qed

text \<open>
  C32.  The conversion of a tree of blocks to an array of clusters returns the bitmap with exactly the
  clusters that have a block in the set; the real end of the tree itself is not looked at.
\<close>

theorem convert_subcluster_correct:
  assumes "wf_rb b" "wf_ba c" "ba_bits c = {}" "convert_ready b c"
  shows "\<exists>c'. ext2fs_convert_subcluster_bitmap ext2fs_blkmap64_rbtree (ext2fs_blkmap64_bitarray junk base) (bm_cluster_bits c) (Inr c) b
      = Some (Inr (Inr (Some (GB64 c')))) \<and> wf_ba c' \<and> same_header c' c
    \<and> block_set ba_bits c' = {y. cluster_no c y \<le> bm_end c \<and> (\<exists>x \<in> rb_bits b. x < bm_real_end b \<and> y \<in> cluster_mates c x)}"
  by (rule rb_to_ba.gen_convert [OF assms])

text \<open>The blocks 10 to 29 in a tree that starts at 0, and 32 clusters of four blocks, none of them in use.\<close>

definition convert_src :: rb_bmap where
  "convert_src = rb_mark_bmap_extent (rb_demo_new\<lparr>bm_start := 0\<rparr>) 10 20"

definition convert_dst :: ba_bmap where
  "convert_dst = \<lparr>bm_magic = EXT2_ET_MAGIC_BLOCK_BITMAP64, bm_flags = 0, bm_start = 0, bm_end = 31, bm_real_end = 31,
     bm_cluster_bits = 2, bm_private = \<lparr>ba_array = replicate 4 0\<rparr>\<rparr>"

lemma convert_src: "wf_rb convert_src" "x \<in> rb_bits convert_src \<longleftrightarrow> 10 \<le> x \<and> x < 30"
  "same_header convert_src (rb_demo_new\<lparr>bm_start := 0\<rparr>)"
proof -
  let ?n = "rb_demo_new\<lparr>bm_start := 0\<rparr>"
  have n: "wf_rb ?n" "rb_bits ?n = {}" by (simp_all add: wf_rb_def rb_demo_new_def rb_bits_def rb_empty_private_def)
  have "in_bmap ?n 10 (unat (20 :: u32))" by (simp add: in_bmap_def)
  note k = rb.mark_extent_ok [OF n(1) this, unfolded rbtree_ops]
  show "wf_rb convert_src" "x \<in> rb_bits convert_src \<longleftrightarrow> 10 \<le> x \<and> x < 30" "same_header convert_src ?n"
    using k by (auto simp: convert_src_def n run_def word_less_nat_alt)
qed

lemma convert_dst: "wf_ba convert_dst" "ba_bits convert_dst = {}"
  by (simp_all add: wf_ba_def ba_bits_def convert_dst_def ba_size_eq)

lemma convert_subcluster_correct_witness:
  "\<exists>c'. ext2fs_convert_subcluster_bitmap ext2fs_blkmap64_rbtree (ext2fs_blkmap64_bitarray 0 0) 2 (Inr convert_dst) convert_src
      = Some (Inr (Inr (Some (GB64 c')))) \<and> 8 \<in> block_set ba_bits c' \<and> 7 \<notin> block_set ba_bits c'"
proof -
  have r: "convert_ready convert_src convert_dst" using header_eqs [OF convert_src(3)]
    by (simp add: convert_ready_def ext2fs_is_64_bitmap_def convert_dst_def cluster_no_def)
  have h: "bm_cluster_bits convert_dst = 2" "bm_end convert_dst = 31" by (simp_all add: convert_dst_def)
  obtain c' where c': "ext2fs_convert_subcluster_bitmap ext2fs_blkmap64_rbtree (ext2fs_blkmap64_bitarray 0 0) 2 (Inr convert_dst) convert_src
      = Some (Inr (Inr (Some (GB64 c'))))"
      "block_set ba_bits c' = {y. cluster_no convert_dst y \<le> 31 \<and> (\<exists>x \<in> rb_bits convert_src. x < bm_real_end convert_src \<and> y \<in> cluster_mates convert_dst x)}"
    using convert_subcluster_correct [OF convert_src(1) convert_dst r, where junk = 0 and base = 0] unfolding h by blast
  have "10 \<in> rb_bits convert_src" by (simp add: convert_src(2))
  moreover have "(10 :: u64) < bm_real_end convert_src" using header_eqs(4) [OF convert_src(3)] by simp
  moreover have "8 \<in> cluster_mates convert_dst 10" by (simp add: cluster_mates_def cluster_no_def h)
  ultimately have "8 \<in> block_set ba_bits c'" unfolding c'(2) by (auto simp: cluster_no_def h)
  moreover have "7 \<notin> cluster_mates convert_dst x" if "x \<in> rb_bits convert_src" for x
  proof
    have "(10 :: u64) \<le> x" using that by (simp add: convert_src(2))
    then have "10 \<le> unat x" by (simp add: word_le_nat_alt)
    moreover assume "7 \<in> cluster_mates convert_dst x"
    then have "unat (cluster_no convert_dst 7) = unat (cluster_no convert_dst x)" by (simp add: cluster_mates_def)
    then have "unat x div 4 = 1" by (simp add: unat_cluster h)
    ultimately show False by simp
  qed
  then have "7 \<notin> block_set ba_bits c'" unfolding c'(2) by blast
  ultimately show ?thesis using c'(1) by blast
qed

text \<open>The block at the real end is in no cluster of the result, also when it is in the set.\<close>

lemma convert_loses_real_end:
  assumes "wf_rb b" "wf_ba c" "ba_bits c = {}" "convert_ready b c" "rb_bits b = {bm_real_end b}"
  shows "\<exists>c'. ext2fs_convert_subcluster_bitmap ext2fs_blkmap64_rbtree (ext2fs_blkmap64_bitarray junk base) (bm_cluster_bits c) (Inr c) b
      = Some (Inr (Inr (Some (GB64 c')))) \<and> block_set ba_bits c' = {}"
  using rb_to_ba.gen_convert [OF assms(1-4), where junk = junk and base = base] assms(5) by auto

text \<open>
  Clearing a bitmap leaves no block in it; marking the padding leaves the set of blocks as it is; a
  copy, and the bitmap that was copied, stand for the same set as before.  On both back ends.
\<close>

theorem generic_whole_bitmap_correct:
  assumes "bmap_ready wf_rb b" "bm_start b \<le> bm_end b" "bm_end b \<noteq> - 1" "unat (bm_real_end b) - unat (bm_end b) < 2 ^ 32"
    and "bmap_ready wf_ba c" "bm_start c \<le> bm_end c" "bm_end c \<noteq> - 1" "unat (bm_real_end c) - unat (bm_end c) < 2 ^ 32"
  shows "(bmap_is wf_rb rb_bits b {} (Some (ext2fs_clear_generic_bmap ext2fs_blkmap64_rbtree (GB64 b)))
      \<and> bmap_is wf_rb rb_bits b (block_set rb_bits b) (Some (ext2fs_set_generic_bmap_padding ext2fs_blkmap64_rbtree (GB64 b)))
      \<and> (bm_flags b = 0 \<longrightarrow> (case ext2fs_copy_generic_bmap ext2fs_blkmap64_rbtree junk mal descr (Some (GB64 b)) of
           Inl e \<Rightarrow> True
         | Inr (g, h) \<Rightarrow> bmap_is wf_rb rb_bits b (block_set rb_bits b) (Some g) \<and> bmap_is wf_rb rb_bits b (block_set rb_bits b) (Some h))))
    \<and> (bmap_is wf_ba ba_bits c {} (Some (ext2fs_clear_generic_bmap (ext2fs_blkmap64_bitarray junk base) (GB64 c)))
      \<and> bmap_is wf_ba ba_bits c (block_set ba_bits c) (Some (ext2fs_set_generic_bmap_padding (ext2fs_blkmap64_bitarray junk base) (GB64 c)))
      \<and> (bm_flags c = 0 \<longrightarrow> (case ext2fs_copy_generic_bmap (ext2fs_blkmap64_bitarray junk base) junk mal descr (Some (GB64 c)) of
           Inl e \<Rightarrow> True
         | Inr (g, h) \<Rightarrow> bmap_is wf_ba ba_bits c (block_set ba_bits c) (Some g) \<and> bmap_is wf_ba ba_bits c (block_set ba_bits c) (Some h))))"
  by (rule conjI [OF rb.whole_operations [OF assms(1-4)] ba.whole_operations [OF assms(5-8)]])

lemma generic_whole_bitmap_correct_witness:
  "bmap_is wf_rb rb_bits cluster_demo {} (Some (ext2fs_clear_generic_bmap ext2fs_blkmap64_rbtree (GB64 cluster_demo)))
   \<and> bmap_is wf_ba ba_bits ba_demo {} (Some (ext2fs_clear_generic_bmap (ext2fs_blkmap64_bitarray 0 0) (GB64 ba_demo)))"
proof -
  have "bm_start ba_demo \<le> bm_end ba_demo" "bm_end ba_demo \<noteq> - 1" "unat (bm_real_end ba_demo) - unat (bm_end ba_demo) < 2 ^ 32"
    by (simp_all add: ba_demo_def)
  with generic_whole_bitmap_correct [OF cluster_demo_ready(1) _ _ _ ba_demo_ready, where junk = 0 and base = 0]
  show ?thesis by (simp add: cluster_demo_ready)
qed

text \<open>
  When growing a bitmap or moving its end succeeds, the bitmap has the new ends and its set is the
  old one up to the new end, on both back ends.
\<close>

theorem generic_resize_correct:
  assumes "wf_rb b" "bm_start b \<le> bm_end b" "bm_start b \<le> ne" "ne \<le> nre" "bm_real_end b \<le> nre" "unat nre < unat (bm_start b) + 2 ^ 63"
    and "wf_ba c" "bm_start c \<le> bm_end c" "bm_start c \<le> ne" "bm_real_end c \<le> nre" "unat nre < unat (bm_start c) + 2 ^ 63"
  shows "(case ext2fs_resize_generic_bmap ext2fs_blkmap64_rbtree junk mal (Some (GB64 b)) ne nre of
        (Some e, g) \<Rightarrow> True
      | (None, g) \<Rightarrow> \<exists>b'. g = Some (GB64 b') \<and> wf_rb b' \<and> bm_end b' = ne \<and> bm_real_end b' = nre
          \<and> block_set rb_bits b' = {x \<in> block_set rb_bits b. cluster_no b x \<le> ne})
    \<and> (case ext2fs_resize_generic_bmap (ext2fs_blkmap64_bitarray junk base) junk mal (Some (GB64 c)) ne nre of
        (Some e, g) \<Rightarrow> True
      | (None, g) \<Rightarrow> \<exists>b'. g = Some (GB64 b') \<and> wf_ba b' \<and> bm_end b' = ne \<and> bm_real_end b' = nre
          \<and> block_set ba_bits b' = {x \<in> block_set ba_bits c. cluster_no c x \<le> ne})"
  by (rule conjI [OF rb.resize_operation [OF assms(1-6)] ba.resize_operation [OF assms(7-9,4,10,11)]])

lemma generic_resize_correct_witness:
  "\<exists>b'. ext2fs_resize_generic_bmap ext2fs_blkmap64_rbtree 0 (\<lambda>_. True) (Some (GB64 rb_demo)) 20 200 = (None, Some (GB64 b'))
    \<and> 10 \<in> block_set rb_bits b' \<and> 21 \<notin> block_set rb_bits b'"
proof -
  obtain b' where r: "rb_resize_bmap (\<lambda>_. True) rb_demo 20 200 = (None, b')" by (simp add: rb_resize_bmap_def Let_def)
  have e: "ext2fs_resize_generic_bmap ext2fs_blkmap64_rbtree 0 (\<lambda>_. True) (Some (GB64 rb_demo)) 20 200 = (None, Some (GB64 b'))"
    by (simp add: r rbtree_ops ext2fs_is_64_bitmap_def)
  have "bm_start ba_demo \<le> bm_end ba_demo" "bm_start ba_demo \<le> 20" "bm_real_end ba_demo \<le> 200" "(200 :: nat) < unat (bm_start ba_demo) + 2 ^ 63"
    by (simp_all add: ba_demo_def)
  with generic_resize_correct [OF wf_rb_demo(1) _ _ _ _ _ wf_ba_demo, of 20 200 0 "\<lambda>_. True" 0]
  have "block_set rb_bits b' = {x \<in> block_set rb_bits rb_demo. cluster_no rb_demo x \<le> 20}"
    by (simp add: e del: ext2fs_resize_generic_bmap.simps)
  then show ?thesis using e by (simp add: plain_demo_blocks cluster_no_def)
qed

text \<open>A new bitmap with the given header and no block in it.\<close>

definition alloc_result :: "errcode \<Rightarrow> nat \<Rightarrow> u64 \<Rightarrow> u64 \<Rightarrow> u64 \<Rightarrow> ('p bmap64 \<Rightarrow> bool) \<Rightarrow> ('p bmap64 \<Rightarrow> u64 set) \<Rightarrow> 'p bmap64 \<Rightarrow> bool" where
  "alloc_result magic ratio_bits start en real_end ok bits b \<longleftrightarrow> bmap_ready ok b \<and> block_set bits b = {}
     \<and> bm_magic b = magic \<and> bm_start b = start \<and> bm_end b = en \<and> bm_real_end b = real_end
     \<and> bm_cluster_bits b = (if magic = EXT2_ET_MAGIC_BLOCK_BITMAP64 then ratio_bits else 0)"

text \<open>
  C33.  The allocation fails with \<open>EINVAL\<close> exactly for an unknown type, otherwise at most for lack of
  memory.  It chooses the array for type 1 and by default (0), the tree for type 2, and for the
  automatic choice of type 3 the tree exactly when the directories can be counted and are no more than a
  320th of the inodes.  What it returns has the ends it was given, the cluster size of the file system
  for a bitmap of blocks only, and no block in it.
\<close>

theorem alloc_generic_bmap_correct:
  assumes "ext2fs_is_64_bitmap magic" "start \<le> en" "en \<le> real_end" "unat real_end < unat start + 2 ^ 63"
  shows "case ext2fs_alloc_generic_bmap junk base mal num_dirs inodes_count ratio_bits magic type start en real_end descr of
      Inl e \<Rightarrow> if type \<in> {0, 1, 2, 3} then e = EXT2_ET_NO_MEMORY \<and> (\<exists>n. \<not> mal n) else e = EINVAL
    | Inr (Bitarray b) \<Rightarrow> (type \<in> {0, 1} \<or> type = 3 \<and> \<not> (\<exists>n. num_dirs = Inr n \<and> n \<le> inodes_count div 320))
        \<and> alloc_result magic ratio_bits start en real_end wf_ba ba_bits b
    | Inr (Rbtree b) \<Rightarrow> (type = 2 \<or> type = 3 \<and> (\<exists>n. num_dirs = Inr n \<and> n \<le> inodes_count div 320))
        \<and> alloc_result magic ratio_bits start en real_end wf_rb rb_bits b"
proof -
  let ?h = "alloc_header ratio_bits magic start en real_end"
  have h: "bm_start ?h = start" "bm_end ?h = en" "bm_real_end ?h = real_end" "bm_magic ?h = magic"
    "bm_cluster_bits ?h = (if magic = EXT2_ET_MAGIC_BLOCK_BITMAP64 then ratio_bits else 0)" by (simp_all add: alloc_header_def)
  have rb: "alloc_result magic ratio_bits start en real_end wf_rb rb_bits b" if "op_new_bmap ext2fs_blkmap64_rbtree mal ?h = Inr b" for b
  proof -
    have "wf_rb b" "rb_bits b = {}" "same_header b (?h :: rb_private option bmap64)"
      using rb.new_ok [OF _ _ _ that, unfolded h, OF assms(2-4)] by simp_all
    then show ?thesis using assms(1) by (simp add: alloc_result_def bmap_ready_def block_set_def same_header_def h)
  qed
  have ba: "alloc_result magic ratio_bits start en real_end wf_ba ba_bits b" if "op_new_bmap (ext2fs_blkmap64_bitarray junk base) mal ?h = Inr b" for b
  proof -
    have "wf_ba b" "ba_bits b = {}" "same_header b (?h :: ba_private option bmap64)"
      using ba.new_ok [OF _ _ _ that, unfolded h, OF assms(2-4)] by simp_all
    then show ?thesis using assms(1) by (simp add: alloc_result_def bmap_ready_def block_set_def same_header_def h)
  qed
  have rbe: "e = EXT2_ET_NO_MEMORY \<and> (\<exists>n. \<not> mal n)" if "op_new_bmap ext2fs_blkmap64_rbtree mal ?h = Inl e" for e
    using that unfolding rbtree_ops by (auto simp: rb_new_bmap_def split: if_splits)
  have bae: "e = EXT2_ET_NO_MEMORY \<and> (\<exists>n. \<not> mal n)" if "op_new_bmap (ext2fs_blkmap64_bitarray junk base) mal ?h = Inl e" for e
    using that unfolding bitarray_ops by (auto simp: ba_new_bmap_def ba_alloc_private_data_def Let_def split: if_splits)
  have t: "alloc_ops num_dirs inodes_count type = Inl e \<Longrightarrow> e = EINVAL \<and> type \<notin> {0, 1, 2, 3}"
    "alloc_ops num_dirs inodes_count type = Inr True \<Longrightarrow> type = 2 \<or> type = 3 \<and> (\<exists>n. num_dirs = Inr n \<and> n \<le> inodes_count div 320)"
    "alloc_ops num_dirs inodes_count type = Inr False \<Longrightarrow>
       type \<in> {0, 1} \<or> type = 3 \<and> \<not> (\<exists>n. num_dirs = Inr n \<and> n \<le> inodes_count div 320)" for e
    by (auto simp: alloc_ops_def Let_def not_le not_less EXT2FS_BMAP64_BITARRAY_def EXT2FS_BMAP64_RBTREE_def EXT2FS_BMAP64_AUTODIR_def
      split: if_splits sum.splits)
  show ?thesis
  proof (cases "alloc_ops num_dirs inodes_count type")
    case (Inl e)
    then show ?thesis using t(1) [OF Inl] by (auto simp: ext2fs_alloc_generic_bmap_def)
  next
    case (Inr tree)
    consider "\<not> mal 120" | n where "descr = Some n" "\<not> mal (n + 1)" | (go) "mal 120" "\<not> (case descr of Some n \<Rightarrow> \<not> mal (n + 1) | None \<Rightarrow> False)"
      by (cases descr) auto
    then show ?thesis
    proof cases
      case go
      show ?thesis
      proof (cases tree)
        case True
        have "ext2fs_alloc_generic_bmap junk base mal num_dirs inodes_count ratio_bits magic type start en real_end descr
            = map_sum id Rbtree (op_new_bmap ext2fs_blkmap64_rbtree mal ?h)"
          using go Inr True by (simp add: ext2fs_alloc_generic_bmap_def)
        moreover have "type = 2 \<or> type = 3 \<and> (\<exists>n. num_dirs = Inr n \<and> n \<le> inodes_count div 320)" using Inr True t(2) by simp
        ultimately show ?thesis using rb rbe by (cases "op_new_bmap ext2fs_blkmap64_rbtree mal ?h") auto
      next
        case False
        have "ext2fs_alloc_generic_bmap junk base mal num_dirs inodes_count ratio_bits magic type start en real_end descr
            = map_sum id Bitarray (op_new_bmap (ext2fs_blkmap64_bitarray junk base) mal ?h)"
          using go Inr False by (simp add: ext2fs_alloc_generic_bmap_def)
        moreover have "type \<in> {0, 1} \<or> type = 3 \<and> \<not> (\<exists>n. num_dirs = Inr n \<and> n \<le> inodes_count div 320)"
          using Inr False t(3) by simp
        ultimately show ?thesis using ba bae by (cases "op_new_bmap (ext2fs_blkmap64_bitarray junk base) mal ?h") auto
      qed
    qed (use Inr t(2,3) in \<open>cases tree; auto simp: ext2fs_alloc_generic_bmap_def\<close>)+
  qed
qed

lemma alloc_generic_bmap_correct_witness:
  "\<exists>b. ext2fs_alloc_generic_bmap 0 0 (\<lambda>_. True) (Inr 7) 3200 4 EXT2_ET_MAGIC_BLOCK_BITMAP64 3 1 100 128 None = Inr (Rbtree b)
    \<and> block_set rb_bits b = {} \<and> bm_cluster_bits b = 4"
proof -
  have "\<exists>b. ext2fs_alloc_generic_bmap 0 0 (\<lambda>_. True) (Inr 7) 3200 4 EXT2_ET_MAGIC_BLOCK_BITMAP64 3 1 100 128 None = Inr (Rbtree b)"
    by (simp add: ext2fs_alloc_generic_bmap_def alloc_ops_def EXT2FS_BMAP64_BITARRAY_def EXT2FS_BMAP64_RBTREE_def
      EXT2FS_BMAP64_AUTODIR_def rbtree_ops rb_new_bmap_def)
  moreover have "ext2fs_is_64_bitmap EXT2_ET_MAGIC_BLOCK_BITMAP64" by (simp add: ext2fs_is_64_bitmap_def)
  note alloc_generic_bmap_correct [OF this, where start = 1 and en = 100 and real_end = 128 and mal = "\<lambda>_. True"
      and num_dirs = "Inr 7" and inodes_count = 3200 and type = 3 and descr = None and junk = 0 and base = 0 and ratio_bits = 4]
  ultimately show ?thesis by (auto simp: alloc_result_def)
qed

end
