(* ===== verification/Uuid.thy ===== *)
theory Uuid
  imports E2fs_Prelude
begin

text \<open>
  Universally unique identifiers, \<open>lib/uuid\<close>: the 16 bytes on disk and their fields (\<open>pack.c\<close>,
  \<open>unpack.c\<close>), the text form (\<open>parse.c\<close>, \<open>unparse.c\<close>), the order (\<open>compare.c\<close>), the small operations
  (\<open>clear.c\<close>, \<open>copy.c\<close>, \<open>isnull.c\<close>) and the questions about type, variant and time (\<open>uuid_time.c\<close>).
  A \<open>uuid_t\<close> is a list of 16 bytes.  A C string is the list of its characters before the final 0.
\<close>

unbundle bit_operations_syntax

section \<open>The fields\<close>

record uuid =
  time_low :: u32
  time_mid :: u16
  time_hi_and_version :: u16
  clock_seq :: u16
  node :: "u8 list"

text \<open>\<open>tmp\<close> is shifted to the right between the stores, from the last byte of a field to the first.\<close>

definition uuid_pack :: "uuid \<Rightarrow> u8 list" where
  "uuid_pack uu =
     (let t0 = time_low uu; t1 = drop_bit 8 t0; t2 = drop_bit 8 t1; t3 = drop_bit 8 t2;
          m0 = (ucast (time_mid uu) :: u32); m1 = drop_bit 8 m0;
          h0 = (ucast (time_hi_and_version uu) :: u32); h1 = drop_bit 8 h0;
          c0 = (ucast (clock_seq uu) :: u32); c1 = drop_bit 8 c0
      in [ucast t3, ucast t2, ucast t1, ucast t0, ucast m1, ucast m0, ucast h1, ucast h0, ucast c1, ucast c0]
         @ take 6 (node uu))"

text \<open>\<open>tmp = (tmp << 8) | *ptr++\<close>\<close>

definition next_byte :: "u32 \<Rightarrow> u8 \<Rightarrow> u32" where
  "next_byte tmp b = push_bit 8 tmp OR ucast b"

definition uuid_unpack :: "u8 list \<Rightarrow> uuid" where
  "uuid_unpack p =
     \<lparr>time_low = next_byte (next_byte (next_byte (ucast (p ! 0)) (p ! 1)) (p ! 2)) (p ! 3),
      time_mid = ucast (next_byte (ucast (p ! 4)) (p ! 5)),
      time_hi_and_version = ucast (next_byte (ucast (p ! 6)) (p ! 7)),
      clock_seq = ucast (next_byte (ucast (p ! 8)) (p ! 9)),
      node = take 6 (drop 10 p)\<rparr>"

section \<open>The small operations\<close>

definition uuid_clear :: "u8 list" where
  "uuid_clear = replicate 16 0"

definition uuid_copy :: "u8 list \<Rightarrow> u8 list" where
  "uuid_copy src = map (\<lambda>i. src ! i) [0..<16]"

fun uuid_is_null_loop :: "nat \<Rightarrow> u8 list \<Rightarrow> bool" where
  "uuid_is_null_loop 0 cp = True"
| "uuid_is_null_loop (Suc n) cp = (if hd cp \<noteq> 0 then False else uuid_is_null_loop n (tl cp))"

definition uuid_is_null :: "u8 list \<Rightarrow> bool" where
  "uuid_is_null uu = uuid_is_null_loop 16 uu"

text \<open>\<open>memcmp\<close>; only the sign of its value is specified.\<close>

fun memcmp :: "u8 list \<Rightarrow> u8 list \<Rightarrow> int" where
  "memcmp (x # xs) (y # ys) = (if x = y then memcmp xs ys else if x < y then - 1 else 1)"
| "memcmp xs ys = 0"

definition uuid_compare :: "u8 list \<Rightarrow> u8 list \<Rightarrow> int" where
  "uuid_compare uu1 uu2 =
     (let u1 = uuid_unpack uu1; u2 = uuid_unpack uu2 in
      if time_low u1 \<noteq> time_low u2 then if time_low u1 < time_low u2 then - 1 else 1
      else if time_mid u1 \<noteq> time_mid u2 then if time_mid u1 < time_mid u2 then - 1 else 1
      else if time_hi_and_version u1 \<noteq> time_hi_and_version u2
        then if time_hi_and_version u1 < time_hi_and_version u2 then - 1 else 1
      else if clock_seq u1 \<noteq> clock_seq u2 then if clock_seq u1 < clock_seq u2 then - 1 else 1
      else memcmp (node u1) (node u2))"

section \<open>Text\<close>

text \<open>\<open>%0wx\<close> and \<open>%0wX\<close>\<close>

definition hex_digit :: "bool \<Rightarrow> nat \<Rightarrow> char" where
  "hex_digit upper d = char_of (if d < 10 then 48 + d else if upper then 55 + d else 87 + d)"

fun to_hex :: "bool \<Rightarrow> nat \<Rightarrow> string" where
  "to_hex upper n = (if n < 16 then [hex_digit upper n] else to_hex upper (n div 16) @ [hex_digit upper (n mod 16)])"

declare to_hex.simps [simp del]

definition fmt_hex :: "bool \<Rightarrow> nat \<Rightarrow> nat \<Rightarrow> string" where
  "fmt_hex upper w n = (let s = to_hex upper n in replicate (w - length s) (CHR ''0'') @ s)"

definition uuid_unparse_x :: "bool \<Rightarrow> u8 list \<Rightarrow> string" where
  "uuid_unparse_x upper uu =
     (let u = uuid_unpack uu; x = fmt_hex upper in
      x 8 (unat (time_low u)) @ ''-'' @ x 4 (unat (time_mid u)) @ ''-'' @ x 4 (unat (time_hi_and_version u)) @ ''-''
      @ x 2 (unat (drop_bit 8 (clock_seq u))) @ x 2 (unat (clock_seq u AND 0xFF)) @ ''-''
      @ x 2 (unat (node u ! 0)) @ x 2 (unat (node u ! 1)) @ x 2 (unat (node u ! 2))
      @ x 2 (unat (node u ! 3)) @ x 2 (unat (node u ! 4)) @ x 2 (unat (node u ! 5)))"

definition uuid_unparse_lower :: "u8 list \<Rightarrow> string" where
  "uuid_unparse_lower uu = uuid_unparse_x False uu"

definition uuid_unparse_upper :: "u8 list \<Rightarrow> string" where
  "uuid_unparse_upper uu = uuid_unparse_x True uu"

text \<open>The default format is the lower one, \<open>UUID_UNPARSE_DEFAULT_UPPER\<close> not being defined.\<close>

definition uuid_unparse :: "u8 list \<Rightarrow> string" where
  "uuid_unparse uu = uuid_unparse_x False uu"

definition isxdigit :: "char \<Rightarrow> bool" where
  "isxdigit c \<longleftrightarrow> (let n = (of_char c :: nat) in 48 \<le> n \<and> n \<le> 57 \<or> 65 \<le> n \<and> n \<le> 70 \<or> 97 \<le> n \<and> n \<le> 102)"

definition xdigit_val :: "char \<Rightarrow> nat" where
  "xdigit_val c = (let n = (of_char c :: nat) in if n \<le> 57 then n - 48 else if n \<le> 70 then n - 55 else n - 87)"

text \<open>
  \<open>strtoul(s, NULL, 16)\<close> on a string that begins with a hexadecimal digit and has no \<open>x\<close> after it:
  the value of the longest prefix of digits.
\<close>

definition strtoul16 :: "string \<Rightarrow> nat" where
  "strtoul16 s = foldl (\<lambda>v c. 16 * v + xdigit_val c) 0 (takeWhile isxdigit s)"

text \<open>The loop over the characters; the end of the list is the 0 at the end of the string.\<close>

fun parse_check :: "nat \<Rightarrow> string \<Rightarrow> bool" where
  "parse_check i [] = (i = 36)"
| "parse_check i (c # cs) =
     (if i = 8 \<or> i = 13 \<or> i = 18 \<or> i = 23 then if c = CHR ''-'' then parse_check (Suc i) cs else False
      else if \<not> isxdigit c then False else parse_check (Suc i) cs)"

definition uuid_parse :: "string \<Rightarrow> u8 list option" where
  "uuid_parse inp =
     (if length inp \<noteq> 36 then None
      else if \<not> parse_check 0 inp then None
      else Some (uuid_pack
        \<lparr>time_low = of_nat (strtoul16 inp),
         time_mid = of_nat (strtoul16 (drop 9 inp)),
         time_hi_and_version = of_nat (strtoul16 (drop 14 inp)),
         clock_seq = of_nat (strtoul16 (drop 19 inp)),
         node = map (\<lambda>i. of_nat (strtoul16 [inp ! (24 + 2 * i), inp ! (25 + 2 * i)])) [0..<6]\<rparr>))"

section \<open>Type, variant and time\<close>

definition uuid_type :: "u8 list \<Rightarrow> int" where
  "uuid_type uu = uint (drop_bit 12 (time_hi_and_version (uuid_unpack uu)) AND 0xF)"

datatype uuid_variant_t = UUID_VARIANT_NCS | UUID_VARIANT_DCE | UUID_VARIANT_MICROSOFT | UUID_VARIANT_OTHER

definition uuid_variant :: "u8 list \<Rightarrow> uuid_variant_t" where
  "uuid_variant uu =
     (let var = clock_seq (uuid_unpack uu) in
      if var AND 0x8000 = 0 then UUID_VARIANT_NCS
      else if var AND 0x4000 = 0 then UUID_VARIANT_DCE
      else if var AND 0x2000 = 0 then UUID_VARIANT_MICROSOFT
      else UUID_VARIANT_OTHER)"

text \<open>The time between 15 October 1582 and 1 January 1970, in units of 100 ns.\<close>

definition time_offset :: u64 where
  "time_offset = push_bit 32 0x01B21DD2 + 0x13814000"

text \<open>Seconds and microseconds; the unsigned value is what the conversion to \<open>time_t\<close> starts from.\<close>

definition uuid_time :: "u8 list \<Rightarrow> u64 \<times> u64" where
  "uuid_time uu =
     (let u = uuid_unpack uu;
          high = (ucast (time_mid u) OR push_bit 16 (ucast (time_hi_and_version u) AND 0xFFF) :: u32);
          clock_reg = (ucast (time_low u) OR push_bit 32 (ucast high) :: u64) - time_offset
      in (clock_reg div 10000000, clock_reg mod 10000000 div 10))"

section \<open>Bytes in big-endian order\<close>

definition be_nat :: "u8 list \<Rightarrow> nat" where
  "be_nat xs = foldl (\<lambda>v x. 256 * v + unat x) 0 xs"

lemma unat_byte: "unat (x :: u8) < 256"
  using unsigned_less [where ?'a = nat, of x] by simp

lemma be_nat_snoc [simp]: "be_nat (xs @ [x]) = 256 * be_nat xs + unat x"
  by (simp add: be_nat_def)

lemma be_nat_Nil [simp]: "be_nat [] = 0"
  by (simp add: be_nat_def)

lemma be_nat_simps [simp]: "be_nat [a] = unat a" "be_nat [a, b] = 256 * unat a + unat b"
  "be_nat [a, b, c, d] = 256 * (256 * (256 * unat a + unat b) + unat c) + unat d"
  by (simp_all add: be_nat_def)

lemma be_nat_bound: "be_nat xs < 256 ^ length xs"
proof (induction xs rule: rev_induct)
  case (snoc x xs)
  then have "256 * (be_nat xs + 1) \<le> 256 * 256 ^ length xs" by (intro mult_left_mono) simp_all
  then show ?case using unat_byte [of x] by simp
qed simp

lemma next_byte_unat: "unat t < 2 ^ 24 \<Longrightarrow> unat (next_byte t b) = 256 * unat t + unat b"
proof -
  assume t: "unat t < 2 ^ 24"
  have "next_byte t b = push_bit 8 t + ucast b"
    unfolding next_byte_def by (rule disjunctive_add_eq_or [symmetric], rule bit_eqI)
      (auto simp: bit_simps dest: bit_imp_le_length)
  also have "\<dots> = of_nat (256 * unat t + unat b)"
    by (simp add: push_bit_eq_mult)
  finally have e: "next_byte t b = of_nat (256 * unat t + unat b)" .
  have "256 * unat t + unat b < 2 ^ 32" using t unat_byte [of b] by simp
  then show ?thesis unfolding e unat_of_nat by simp
qed

lemma ucast_byte_unat: "unat (ucast (b :: u8) :: u32) = unat b"
  using unat_byte [of b] by (simp add: unsigned_ucast_eq take_bit_nat_eq_self_iff)

lemma read_2: "unat (next_byte (ucast a) b) = be_nat [a, b]"
  using unat_byte [of a] by (simp add: next_byte_unat ucast_byte_unat)

lemma read_4: "unat (next_byte (next_byte (next_byte (ucast a) b) c) d) = be_nat [a, b, c, d]"
  using unat_byte [of a] unat_byte [of b] unat_byte [of c] by (simp add: next_byte_unat ucast_byte_unat)

lemma read_16: "unat (ucast (next_byte (ucast a) b) :: u16) = be_nat [a, b]"
  using unat_byte [of a] unat_byte [of b] by (simp add: unsigned_ucast_eq read_2 take_bit_nat_eq_self_iff del: be_nat_simps)
    (simp add: be_nat_simps)

text \<open>The fields of a list of 16 bytes.\<close>

lemma bytes_16:
  assumes "length p = 16"
  obtains a0 a1 a2 a3 b0 b1 c0 c1 d0 d1 n0 n1 n2 n3 n4 n5
  where "p = [a0, a1, a2, a3, b0, b1, c0, c1, d0, d1, n0, n1, n2, n3, n4, n5]"
  using assms by (auto simp: numeral_eq_Suc length_Suc_conv)

lemma unpack_fields:
  assumes "p = [a0, a1, a2, a3, b0, b1, c0, c1, d0, d1, n0, n1, n2, n3, n4, n5]"
  shows "unat (time_low (uuid_unpack p)) = be_nat [a0, a1, a2, a3]" "unat (time_mid (uuid_unpack p)) = be_nat [b0, b1]"
    "unat (time_hi_and_version (uuid_unpack p)) = be_nat [c0, c1]" "unat (clock_seq (uuid_unpack p)) = be_nat [d0, d1]"
    "node (uuid_unpack p) = [n0, n1, n2, n3, n4, n5]"
  unfolding assms uuid_unpack_def by (simp_all add: read_4 read_16 del: be_nat_simps)

lemma unat_low_byte: "unat (ucast w :: u8) = unat w mod 256"
  by (simp add: unsigned_ucast_eq take_bit_eq_mod)

lemma unat_shift: "unat (drop_bit k (w :: 'a::len word)) = unat w div 2 ^ k"
  unfolding unat_drop_bit_eq by (rule drop_bit_eq_div)

lemma ucast_half_unat: "unat (ucast (h :: u16) :: u32) = unat h"
  using unsigned_less [where ?'a = nat, of h] by (simp add: unsigned_ucast_eq take_bit_nat_eq_self_iff)

lemmas pack_unats = unat_low_byte unat_shift ucast_half_unat

lemma unpack_pack:
  assumes "length (node u) = 6"
  shows "uuid_unpack (uuid_pack u) = u"
proof -
  obtain n0 n1 n2 n3 n4 n5 where n: "node u = [n0, n1, n2, n3, n4, n5]"
    using assms by (auto simp: numeral_eq_Suc length_Suc_conv)
  let ?b = "\<lambda>k w. ucast (drop_bit k w) :: u8" and ?h = "\<lambda>w :: u16. ucast w :: u32"
  have pk: "uuid_pack u = [?b 24 (time_low u), ?b 16 (time_low u), ?b 8 (time_low u), ucast (time_low u),
      ?b 8 (?h (time_mid u)), ucast (?h (time_mid u)), ?b 8 (?h (time_hi_and_version u)), ucast (?h (time_hi_and_version u)),
      ?b 8 (?h (clock_seq u)), ucast (?h (clock_seq u)), n0, n1, n2, n3, n4, n5]"
    by (simp add: uuid_pack_def Let_def n)
  note f = unpack_fields [OF pk]
  have 4: "16777216 * (n div 16777216) + 65536 * (n div 65536 mod 256) + 256 * (n div 256 mod 256) + n mod 256 = n" for n :: nat
  proof -
    have q: "n div 65536 = n div 256 div 256" "n div 16777216 = n div 65536 div 256" by (simp_all add: div_mult2_eq [symmetric])
    have m: "m = 256 * (m div 256) + m mod 256" for m :: nat by simp
    show ?thesis using m [of n] m [of "n div 256", folded q] m [of "n div 65536", folded q] by linarith
  qed
  have 2: "256 * (n div 256 mod 256) + n mod 256 = n" if "n < 2 ^ 16" for n :: nat
    using that by (simp add: less_mult_imp_div_less)
  have "unat (time_low u) < 2 ^ 32" "unat (time_mid u) < 2 ^ 16" "unat (time_hi_and_version u) < 2 ^ 16" "unat (clock_seq u) < 2 ^ 16"
    using unsigned_less [where ?'a = nat, of "time_low u"] unsigned_less [where ?'a = nat, of "time_mid u"]
      unsigned_less [where ?'a = nat, of "time_hi_and_version u"] unsigned_less [where ?'a = nat, of "clock_seq u"] by simp_all
  then show ?thesis
    by (intro uuid.equality) (simp_all add: word_unat_eq_iff f pack_unats n 4 2 less_mult_imp_div_less)
qed

lemma pack_unpack:
  assumes "length p = 16"
  shows "uuid_pack (uuid_unpack p) = p"
proof -
  obtain a0 a1 a2 a3 b0 b1 c0 c1 d0 d1 n0 n1 n2 n3 n4 n5 where
    p: "p = [a0, a1, a2, a3, b0, b1, c0, c1, d0, d1, n0, n1, n2, n3, n4, n5]" by (rule bytes_16 [OF assms])
  note f = unpack_fields [OF p]
  have q: "n div 65536 = n div 256 div 256" "n div 16777216 = n div 256 div 256 div 256" for n :: nat by (simp_all add: div_mult2_eq [symmetric])
  have d: "(256 * x + unat (b :: u8)) div 256 = x" "(256 * x + unat b) mod 256 = unat b" "unat b mod 256 = unat b" for x b
    using unat_byte [of b] by simp_all
  have s: "unat (b :: u8) div 256 = 0" for b using unat_byte [of b] by simp
  have "uuid_pack (uuid_unpack p) = [a0, a1, a2, a3, b0, b1, c0, c1, d0, d1, n0, n1, n2, n3, n4, n5]"
    unfolding uuid_pack_def Let_def f(5) by (simp add: word_unat_eq_iff f(1-4) pack_unats q d s del: distrib_left_numeral div_mult2_numeral_eq)
  then show ?thesis unfolding p .
qed

lemma length_pack: "length (node u) = 6 \<Longrightarrow> length (uuid_pack u) = 16"
  by (simp add: uuid_pack_def Let_def)

lemma length_node_unpack: "length p = 16 \<Longrightarrow> length (node (uuid_unpack p)) = 6"
  by (simp add: uuid_unpack_def)

text \<open>The order of byte strings of the same length is the order of the numbers they stand for.\<close>

lemma memcmp_append:
  assumes "length xs = length ys"
  shows "memcmp (xs @ xs') (ys @ ys') = (if be_nat xs = be_nat ys then memcmp xs' ys' else if be_nat xs < be_nat ys then - 1 else 1)"
  using assms
proof (induction xs ys rule: list_induct2)
  case (Cons x xs y ys)
  have c: "be_nat (z # zs) = 256 ^ length zs * unat z + be_nat zs" for z zs
    by (induction zs rule: rev_induct) (simp_all add: be_nat_def algebra_simps)
  show ?case
  proof (cases "x = y")
    case True
    then show ?thesis using Cons by (simp add: c)
  next
    case False
    have b: "be_nat xs < 256 ^ length ys" "be_nat ys < 256 ^ length ys" using be_nat_bound [of xs] be_nat_bound [of ys] Cons.hyps by simp_all
    have lt: "be_nat (u # us) < be_nat (v # vs)" if "unat u < unat v" "length us = length vs" "be_nat us < 256 ^ length vs" for u v us vs
    proof -
      have "256 ^ length vs * (unat u + 1) \<le> 256 ^ length vs * unat v" using that(1) by (intro mult_left_mono) simp_all
      then show ?thesis using that(2,3) by (simp add: c)
    qed
    show ?thesis
    proof (cases "x < y")
      case True
      then show ?thesis using lt [of x y xs ys] b Cons.hyps False by (simp add: word_less_nat_alt)
    next
      case g: False
      then have "unat y < unat x" using False by (simp add: word_less_nat_alt word_unat_eq_iff)
      then show ?thesis using lt [of y x ys xs] b Cons.hyps False g by (simp add: word_less_nat_alt)
    qed
  qed
qed simp

lemma compare_bytes:
  assumes "length p = 16" "length q = 16"
  shows "uuid_compare p q = memcmp p q"
proof -
  obtain a0 a1 a2 a3 b0 b1 c0 c1 d0 d1 n0 n1 n2 n3 n4 n5 where
    p: "p = [a0, a1, a2, a3, b0, b1, c0, c1, d0, d1, n0, n1, n2, n3, n4, n5]" by (rule bytes_16 [OF assms(1)])
  obtain a0' a1' a2' a3' b0' b1' c0' c1' d0' d1' n0' n1' n2' n3' n4' n5' where
    q: "q = [a0', a1', a2', a3', b0', b1', c0', c1', d0', d1', n0', n1', n2', n3', n4', n5']" by (rule bytes_16 [OF assms(2)])
  note f = unpack_fields [OF p] unpack_fields [OF q]
  have "memcmp p q = memcmp ([a0, a1, a2, a3] @ [b0, b1] @ [c0, c1] @ [d0, d1] @ [n0, n1, n2, n3, n4, n5])
      ([a0', a1', a2', a3'] @ [b0', b1'] @ [c0', c1'] @ [d0', d1'] @ [n0', n1', n2', n3', n4', n5'])"
    unfolding p q by simp
  also have "\<dots> = uuid_compare p q"
    unfolding uuid_compare_def Let_def
    by (simp only: memcmp_append list.size word_unat_eq_iff word_less_nat_alt f)
       (auto simp del: be_nat_simps)
  finally show ?thesis ..
qed

section \<open>Numbers as text\<close>

definition hexval :: "string \<Rightarrow> nat" where
  "hexval s = foldl (\<lambda>v c. 16 * v + xdigit_val c) 0 s"

lemma hexval_simps [simp]: "hexval [] = 0" "hexval (s @ [c]) = 16 * hexval s + xdigit_val c"
  by (simp_all add: hexval_def)

lemma hexval_append: "hexval (s @ t) = 16 ^ length t * hexval s + hexval t"
  by (induction t rule: rev_induct) (simp_all flip: append_assoc add: algebra_simps)

lemma hex_digit: "d < 16 \<Longrightarrow> isxdigit (hex_digit u d)" "d < 16 \<Longrightarrow> xdigit_val (hex_digit u d) = d"
  by (auto simp: hex_digit_def isxdigit_def xdigit_val_def Let_def)

lemma xdigit_val_bound: "isxdigit c \<Longrightarrow> xdigit_val c < 16"
  by (auto simp: isxdigit_def xdigit_val_def Let_def)

lemma hexval_bound: "\<forall>c \<in> set s. isxdigit c \<Longrightarrow> hexval s < 16 ^ length s"
proof (induction s rule: rev_induct)
  case (snoc c s)
  then have "16 * (hexval s + 1) \<le> 16 * 16 ^ length s" by (intro mult_left_mono) simp_all
  then show ?case using xdigit_val_bound [of c] snoc.prems by simp
qed simp

lemma to_hex_digits: "\<forall>c \<in> set (to_hex u n). isxdigit c"
proof (induction u n rule: to_hex.induct)
  case (1 u n)
  then show ?case by (subst to_hex.simps) (simp add: hex_digit)
qed

lemma hexval_to_hex: "hexval (to_hex u n) = n"
proof (induction u n rule: to_hex.induct)
  case (1 u n)
  have "hexval [c] = xdigit_val c" for c by (simp add: hexval_def)
  then show ?case using 1 by (subst to_hex.simps) (simp add: hex_digit)
qed

lemma length_to_hex: "0 < w \<Longrightarrow> n < 16 ^ w \<Longrightarrow> length (to_hex u n) \<le> w"
proof (induction u n arbitrary: w rule: to_hex.induct)
  case (1 u n)
  show ?case
  proof (cases "n < 16")
    case True
    then show ?thesis using 1(2) by (simp add: to_hex.simps [of u n])
  next
    case False
    then obtain v where v: "w = Suc v" "0 < v" using 1(2,3) by (cases w; cases "w - 1") auto
    have "n div 16 < 16 ^ v" using 1(3) v by (simp add: less_mult_imp_div_less)
    then show ?thesis using 1(1) [OF False v(2)] False v(1) by (simp add: to_hex.simps [of u n])
  qed
qed

lemma hexval_zeros: "hexval (replicate k (CHR ''0'') @ s) = hexval s"
proof -
  have "hexval (replicate k (CHR ''0'')) = 0"
    by (induction k) (simp_all add: hexval_def xdigit_val_def)
  then show ?thesis by (simp add: hexval_append)
qed

lemma fmt_hex:
  assumes "0 < w" "n < 16 ^ w"
  shows "length (fmt_hex u w n) = w" "\<forall>c \<in> set (fmt_hex u w n). isxdigit c" "hexval (fmt_hex u w n) = n"
proof -
  have "isxdigit (CHR ''0'')" by (simp add: isxdigit_def)
  then show "length (fmt_hex u w n) = w" "\<forall>c \<in> set (fmt_hex u w n). isxdigit c" "hexval (fmt_hex u w n) = n"
    using length_to_hex [OF assms, of u] to_hex_digits [of u n] by (auto simp: fmt_hex_def Let_def hexval_zeros hexval_to_hex)
qed

lemma strtoul16_append:
  assumes "\<forall>c \<in> set s. isxdigit c" "rest = [] \<or> \<not> isxdigit (hd rest)"
  shows "strtoul16 (s @ rest) = hexval s"
proof -
  have "takeWhile isxdigit (s @ rest) = s" using assms by (cases rest) (auto simp: takeWhile_append2)
  then show ?thesis by (simp add: strtoul16_def hexval_def)
qed

lemma parse_check_append:
  assumes "\<forall>c \<in> set s. isxdigit c" "\<forall>j < length s. i + j \<notin> {8, 13, 18, 23}"
  shows "parse_check i (s @ rest) = parse_check (i + length s) rest"
  using assms
proof (induction s arbitrary: i)
  case (Cons c s)
  have k: "i + k \<notin> {8, 13, 18, 23}" if "k < length (c # s)" for k using Cons.prems(2) that by blast
  have "\<forall>j < length s. Suc i + j \<notin> {8, 13, 18, 23}" using k [of "Suc _"] by simp
  moreover have "i \<notin> {8, 13, 18, 23}" using k [of 0] by simp
  ultimately show ?case using Cons.IH [of "Suc i"] Cons.prems(1) by simp
qed simp

text \<open>The text form: five groups of hexadecimal digits.\<close>

definition uuid_groups :: "string \<Rightarrow> string \<Rightarrow> string \<Rightarrow> string \<Rightarrow> string \<Rightarrow> string" where
  "uuid_groups a b c d e = a @ ''-'' @ b @ ''-'' @ c @ ''-'' @ d @ ''-'' @ e"

definition group_ok :: "nat \<Rightarrow> string \<Rightarrow> bool" where
  "group_ok n s \<longleftrightarrow> length s = n \<and> (\<forall>c \<in> set s. isxdigit c)"

lemma parse_groups:
  assumes "group_ok 8 a" "group_ok 4 b" "group_ok 4 c" "group_ok 4 d" "group_ok 12 e"
  shows "uuid_parse (uuid_groups a b c d e) = Some (uuid_pack \<lparr>time_low = of_nat (hexval a), time_mid = of_nat (hexval b),
      time_hi_and_version = of_nat (hexval c), clock_seq = of_nat (hexval d),
      node = map (\<lambda>i. of_nat (hexval [e ! (2 * i), e ! (2 * i + 1)])) [0..<6]\<rparr>)"
proof -
  let ?s = "uuid_groups a b c d e"
  have g: "length a = 8" "length b = 4" "length c = 4" "length d = 4" "length e = 12"
    "\<forall>x \<in> set a. isxdigit x" "\<forall>x \<in> set b. isxdigit x" "\<forall>x \<in> set c. isxdigit x" "\<forall>x \<in> set d. isxdigit x" "\<forall>x \<in> set e. isxdigit x"
    using assms by (simp_all add: group_ok_def)
  have dash: "\<not> isxdigit (CHR ''-'')" by (simp add: isxdigit_def)
  have l: "length ?s = 36" by (simp add: uuid_groups_def g)
  have "parse_check 0 ?s" unfolding uuid_groups_def
    by (simp add: parse_check_append g) (use parse_check_append [of e 24 "[]"] g in simp)
  moreover have "strtoul16 ?s = hexval a" "strtoul16 (drop 9 ?s) = hexval b" "strtoul16 (drop 14 ?s) = hexval c" "strtoul16 (drop 19 ?s) = hexval d"
    unfolding uuid_groups_def by (simp_all add: g drop_Cons' strtoul16_append dash)
  moreover have "strtoul16 [?s ! (24 + 2 * i), ?s ! (25 + 2 * i)] = hexval [e ! (2 * i), e ! (2 * i + 1)]" if "i < 6" for i
  proof -
    have n: "?s ! (24 + k) = e ! k" for k by (simp add: uuid_groups_def nth_append g)
    have "?s ! (25 + 2 * i) = e ! (2 * i + 1)" using n [of "2 * i + 1"] by (simp add: add.commute)
    moreover have "isxdigit (e ! (2 * i))" "isxdigit (e ! (2 * i + 1))" using g that by simp_all
    ultimately show ?thesis using strtoul16_append [of "[e ! (2 * i), e ! (2 * i + 1)]" "[]"] n [of "2 * i"] by simp
  qed
  then have "map (\<lambda>i. of_nat (strtoul16 [?s ! (24 + 2 * i), ?s ! (25 + 2 * i)]) :: u8) [0..<6]
      = map (\<lambda>i. of_nat (hexval [e ! (2 * i), e ! (2 * i + 1)])) [0..<6]" by (intro map_cong) auto
  ultimately show ?thesis by (simp only: uuid_parse_def l simp_thms if_False if_True not_True_eq_False)
qed

lemma unat_and_ff: "unat ((w :: 'a::len word) AND 0xFF) = unat w mod 256"
proof -
  have e: "w AND 0xFF = take_bit 8 w" by (simp add: take_bit_eq_mask mask_eq_exp_minus_1)
  have "unat (take_bit 8 w) = take_bit 8 (unat w)" by (rule unsigned_take_bit_eq)
  also have "\<dots> = unat w mod 256" by (simp add: take_bit_eq_mod)
  finally show ?thesis unfolding e .
qed

lemma unparse_groups:
  fixes p u
  defines "x \<equiv> fmt_hex u" and "f \<equiv> uuid_unpack p"
  shows "uuid_unparse_x u p = uuid_groups (x 8 (unat (time_low f))) (x 4 (unat (time_mid f))) (x 4 (unat (time_hi_and_version f)))
     (x 2 (unat (clock_seq f) div 256) @ x 2 (unat (clock_seq f) mod 256))
     (x 2 (unat (node f ! 0)) @ x 2 (unat (node f ! 1)) @ x 2 (unat (node f ! 2)) @ x 2 (unat (node f ! 3))
      @ x 2 (unat (node f ! 4)) @ x 2 (unat (node f ! 5)))"
  unfolding x_def f_def by (simp add: uuid_unparse_x_def Let_def uuid_groups_def unat_shift unat_and_ff)

lemma pair_nth:
  assumes "length a = 2" "length b = 2" "length c = 2" "length d = 2" "length e = 2" "length f = 2"
  shows "map (\<lambda>i. [(a @ b @ c @ d @ e @ f) ! (2 * i), (a @ b @ c @ d @ e @ f) ! (2 * i + 1)]) [0..<6] = [a, b, c, d, e, f]"
  using assms by (auto simp: length_Suc_conv numeral_2_eq_2 upt_rec)

lemma parse_unparse:
  assumes "length p = 16"
  shows "uuid_parse (uuid_unparse_x u p) = Some p"
proof -
  let ?f = "uuid_unpack p" and ?x = "fmt_hex u"
  obtain n0 n1 n2 n3 n4 n5 where n: "node ?f = [n0, n1, n2, n3, n4, n5]"
    using length_node_unpack [OF assms] by (auto simp: numeral_eq_Suc length_Suc_conv)
  have b: "unat (time_low ?f) < 16 ^ 8" "unat (time_mid ?f) < 16 ^ 4" "unat (time_hi_and_version ?f) < 16 ^ 4" "unat (clock_seq ?f) < 16 ^ 4"
    using unsigned_less [where ?'a = nat, of "time_low ?f"] unsigned_less [where ?'a = nat, of "time_mid ?f"]
      unsigned_less [where ?'a = nat, of "time_hi_and_version ?f"] unsigned_less [where ?'a = nat, of "clock_seq ?f"] by simp_all
  have bb: "unat (w :: u8) < 16 ^ 2" for w using unat_byte [of w] by simp
  have c: "unat (clock_seq ?f) div 256 < 16 ^ 2" "unat (clock_seq ?f) mod 256 < 16 ^ 2" using b(4) by simp_all
  note x8 = fmt_hex [of 8 _ u, OF _ b(1), simplified] and x2 = fmt_hex [of 2 _ u, OF _ bb, simplified]
    and c1 = fmt_hex [of 2 _ u, OF _ c(1), simplified] and c2 = fmt_hex [of 2 _ u, OF _ c(2), simplified]
    and x4 = fmt_hex [of 4 _ u, OF _ b(2), simplified] fmt_hex [of 4 _ u, OF _ b(3), simplified]
  let ?e = "?x 2 (unat n0) @ ?x 2 (unat n1) @ ?x 2 (unat n2) @ ?x 2 (unat n3) @ ?x 2 (unat n4) @ ?x 2 (unat n5)"
  have g: "group_ok 8 (?x 8 (unat (time_low ?f)))" "group_ok 4 (?x 4 (unat (time_mid ?f)))" "group_ok 4 (?x 4 (unat (time_hi_and_version ?f)))"
    "group_ok 4 (?x 2 (unat (clock_seq ?f) div 256) @ ?x 2 (unat (clock_seq ?f) mod 256))" "group_ok 12 ?e"
    using x8 x2 c1 c2 x4 by (auto simp: group_ok_def)
  have nd: "map (\<lambda>i. of_nat (hexval [?e ! (2 * i), ?e ! (2 * i + 1)])) [0..<6] = node ?f"
  proof -
    have "map (\<lambda>i. of_nat (hexval [?e ! (2 * i), ?e ! (2 * i + 1)]) :: u8) [0..<6]
        = map (of_nat \<circ> hexval) (map (\<lambda>i. [?e ! (2 * i), ?e ! (2 * i + 1)]) [0..<6])" by simp
    also have "\<dots> = node ?f" unfolding pair_nth [OF x2(1) x2(1) x2(1) x2(1) x2(1) x2(1)] by (simp add: x2 n)
    finally show ?thesis .
  qed
  have "uuid_parse (uuid_unparse_x u p) = Some (uuid_pack ?f)"
  proof -
    have h: "hexval (?x 2 (unat (clock_seq ?f) div 256) @ ?x 2 (unat (clock_seq ?f) mod 256)) = unat (clock_seq ?f)"
      by (simp add: hexval_append c1 c2)
    have r: "\<lparr>time_low = time_low ?f, time_mid = time_mid ?f, time_hi_and_version = time_hi_and_version ?f,
        clock_seq = clock_seq ?f, node = node ?f\<rparr> = ?f" by (rule uuid.equality) simp_all
    have "uuid_unparse_x u p = uuid_groups (?x 8 (unat (time_low ?f))) (?x 4 (unat (time_mid ?f))) (?x 4 (unat (time_hi_and_version ?f)))
        (?x 2 (unat (clock_seq ?f) div 256) @ ?x 2 (unat (clock_seq ?f) mod 256)) ?e"
      unfolding unparse_groups n by simp
    then show ?thesis using parse_groups [OF g, unfolded nd h x8 x4 of_nat_unat, unfolded ucast_id r] by simp
  qed
  then show ?thesis using pack_unpack [OF assms] by simp
qed

text \<open>Lower-case digits: the text of a number of given length is unique.\<close>

definition low_digit :: "char \<Rightarrow> bool" where
  "low_digit c \<longleftrightarrow> isxdigit c \<and> \<not> (65 \<le> (of_char c :: nat) \<and> (of_char c :: nat) \<le> 70)"

definition to_lower :: "char \<Rightarrow> char" where
  "to_lower c = (if 65 \<le> (of_char c :: nat) \<and> (of_char c :: nat) \<le> 90 then char_of ((of_char c :: nat) + 32) else c)"

lemma to_lower_digit: "isxdigit c \<Longrightarrow> low_digit (to_lower c) \<and> xdigit_val (to_lower c) = xdigit_val c"
  by (auto simp: isxdigit_def low_digit_def to_lower_def xdigit_val_def Let_def)

lemma low_digit_inj: "low_digit c \<Longrightarrow> low_digit d \<Longrightarrow> xdigit_val c = xdigit_val d \<Longrightarrow> c = d"
proof -
  assume *: "low_digit c" "low_digit d" "xdigit_val c = xdigit_val d"
  define m n where "m = (of_char c :: nat)" and "n = (of_char d :: nat)"
  have "m = n"
    using * unfolding low_digit_def isxdigit_def xdigit_val_def Let_def m_def [symmetric] n_def [symmetric] by (auto split: if_splits)
  then show "c = d" unfolding m_def n_def by (metis char_of_char)
qed

lemma low_hexval_inj:
  "length s = length t \<Longrightarrow> \<forall>c \<in> set s. low_digit c \<Longrightarrow> \<forall>c \<in> set t. low_digit c \<Longrightarrow> hexval s = hexval t \<Longrightarrow> s = t"
proof (induction s arbitrary: t rule: rev_induct)
  case (snoc c s)
  obtain d t' where t: "t = t' @ [d]" using snoc.prems(1) by (cases t rule: rev_cases) auto
  have b: "xdigit_val c < 16" "xdigit_val d < 16" using snoc.prems(2,3) xdigit_val_bound by (auto simp: t low_digit_def)
  have "16 * hexval s + xdigit_val c = 16 * hexval t' + xdigit_val d" using snoc.prems(4) by (simp add: t)
  then have "hexval s = hexval t'" "xdigit_val c = xdigit_val d" using b by presburger+
  then show ?case using snoc low_digit_inj [of c d] by (simp add: t)
qed simp

lemma fmt_hex_low:
  assumes "0 < w" "n < 16 ^ w"
  shows "\<forall>c \<in> set (fmt_hex False w n). low_digit c"
proof -
  have d: "d < 16 \<Longrightarrow> low_digit (hex_digit False d)" for d
    by (auto simp: low_digit_def hex_digit) (auto simp: hex_digit_def split: if_splits)
  have "\<forall>c \<in> set (to_hex False m). low_digit c" for m
  proof (induction m rule: less_induct)
    case (less m)
    have "\<forall>c \<in> set (to_hex False (m div 16)). low_digit c" if "\<not> m < 16"
      using that by (intro less) simp
    then show ?case by (subst to_hex.simps) (auto simp: d)
  qed
  moreover have "low_digit (CHR ''0'')" by (simp add: low_digit_def isxdigit_def)
  ultimately show ?thesis by (auto simp: fmt_hex_def Let_def)
qed

lemma fmt_hexval:
  assumes "group_ok w s" "0 < w"
  shows "fmt_hex False w (hexval s) = map to_lower s"
proof -
  have s: "length s = w" "\<forall>c \<in> set s. isxdigit c" using assms(1) by (simp_all add: group_ok_def)
  have b: "hexval s < 16 ^ w" using hexval_bound [OF s(2)] s(1) by simp
  have "hexval (map to_lower s) = hexval s"
    using s(2) by (induction s rule: rev_induct) (simp_all add: to_lower_digit)
  then show ?thesis
    using fmt_hex [OF assms(2) b, of False] fmt_hex_low [OF assms(2) b] s to_lower_digit
    by (intro low_hexval_inj) auto
qed

lemma parse_check_iff:
  "parse_check i s \<longleftrightarrow> i + length s = 36
     \<and> (\<forall>k < length s. if i + k \<in> {8, 13, 18, 23} then s ! k = CHR ''-'' else isxdigit (s ! k))"
proof (induction s arbitrary: i)
  case (Cons c s)
  show ?case unfolding parse_check.simps Cons.IH [of "Suc i"] by (auto simp: All_less_Suc2)
qed auto

lemma accepted_groups:
  assumes "length s = 36" "parse_check 0 s"
  shows "\<exists>a b c d e. s = uuid_groups a b c d e \<and> group_ok 8 a \<and> group_ok 4 b \<and> group_ok 4 c \<and> group_ok 4 d \<and> group_ok 12 e"
proof -
  have k: "if k \<in> {8, 13, 18, 23} then s ! k = CHR ''-'' else isxdigit (s ! k)" if "k < 36" for k
    using assms that by (simp add: parse_check_iff)
  have st: "drop m s = take n (drop m s) @ s ! (m + n) # drop (m + n + 1) s" if "m + n < 36" for m n
    using id_take_nth_drop [of n "drop m s"] that assms(1) by (simp add: add.commute)
  have g: "group_ok n (take n (drop m s))" if "m + n \<le> 36" "{m..<m + n} \<inter> {8, 13, 18, 23} = {}" for m n
    unfolding group_ok_def
  proof (intro conjI ballI)
    show "length (take n (drop m s)) = n" using that(1) assms(1) by simp
    fix c assume "c \<in> set (take n (drop m s))"
    then obtain j where j: "j < n" "c = s ! (m + j)" using that(1) assms(1) by (auto simp: in_set_conv_nth)
    have "m + j \<in> {m..<m + n}" using j(1) by simp
    then have "m + j \<notin> {8, 13, 18, 23}" using that(2) by blast
    then show "isxdigit c" using k [of "m + j"] j that(1) by simp
  qed
  have "s = uuid_groups (take 8 s) (take 4 (drop 9 s)) (take 4 (drop 14 s)) (take 4 (drop 19 s)) (take 12 (drop 24 s))"
    using st [of 0 8] st [of 9 4] st [of 14 4] st [of 19 4] k [of 8] k [of 13] k [of 18] k [of 23] assms(1)
    by (simp add: uuid_groups_def)
  moreover have "{0..<8} \<inter> {8, 13, 18, 23} = ({} :: nat set)" "{9..<13} \<inter> {8, 13, 18, 23} = ({} :: nat set)"
    "{14..<18} \<inter> {8, 13, 18, 23} = ({} :: nat set)" "{19..<23} \<inter> {8, 13, 18, 23} = ({} :: nat set)"
    "{24..<36} \<inter> {8, 13, 18, 23} = ({} :: nat set)" by auto
  ultimately show ?thesis using g [of 0 8] g [of 9 4] g [of 14 4] g [of 19 4] g [of 24 12] by simp blast
qed

lemma unparse_parse:
  assumes "uuid_parse s = Some q"
  shows "length q = 16" "uuid_unparse_x False q = map to_lower s"
    "\<exists>a b c d e. s = uuid_groups a b c d e \<and> group_ok 8 a \<and> group_ok 4 b \<and> group_ok 4 c \<and> group_ok 4 d \<and> group_ok 12 e"
proof -
  have ok: "length s = 36" "parse_check 0 s" using assms by (simp_all add: uuid_parse_def split: if_splits)
  show "\<exists>a b c d e. s = uuid_groups a b c d e \<and> group_ok 8 a \<and> group_ok 4 b \<and> group_ok 4 c \<and> group_ok 4 d \<and> group_ok 12 e"
    by (rule accepted_groups [OF ok])
  then obtain a b c d e where s: "s = uuid_groups a b c d e"
    and g: "group_ok 8 a" "group_ok 4 b" "group_ok 4 c" "group_ok 4 d" "group_ok 12 e" by blast
  let ?n = "map (\<lambda>i. of_nat (hexval [e ! (2 * i), e ! (2 * i + 1)]) :: u8) [0..<6]"
  let ?u = "\<lparr>time_low = of_nat (hexval a), time_mid = of_nat (hexval b), time_hi_and_version = of_nat (hexval c),
      clock_seq = of_nat (hexval d), node = ?n\<rparr>"
  have q: "q = uuid_pack ?u" using parse_groups [OF g] assms s by simp
  have l: "length (node ?u) = 6" by simp
  then show "length q = 16" unfolding q by (rule length_pack)
  have b: "hexval t < 16 ^ n" if "group_ok n t" for t n using that hexval_bound [of t] by (auto simp: group_ok_def)
  have v: "unat (of_nat (hexval a) :: u32) = hexval a" "unat (of_nat (hexval b) :: u16) = hexval b"
    "unat (of_nat (hexval c) :: u16) = hexval c" "unat (of_nat (hexval d) :: u16) = hexval d"
    using b [OF g(1)] b [OF g(2)] b [OF g(3)] b [OF g(4)] by (simp_all add: unat_of_nat)
  have d: "fmt_hex False 2 (hexval d div 256) @ fmt_hex False 2 (hexval d mod 256) = map to_lower d"
  proof -
    obtain d1 d2 d3 d4 where d4: "d = [d1, d2] @ [d3, d4]" using g(4) by (auto simp: group_ok_def numeral_eq_Suc length_Suc_conv)
    have g2: "group_ok 2 [d1, d2]" "group_ok 2 [d3, d4]" using g(4) unfolding d4 by (simp_all add: group_ok_def)
    have "hexval d = 256 * hexval [d1, d2] + hexval [d3, d4]" unfolding d4 using hexval_append [of "[d1, d2]" "[d3, d4]"] by simp
    then have "hexval d div 256 = hexval [d1, d2]" "hexval d mod 256 = hexval [d3, d4]" using b [OF g2(2)] by simp_all
    then show ?thesis using fmt_hexval [OF g2(1)] fmt_hexval [OF g2(2)] unfolding d4 by simp
  qed
  have e: "fmt_hex False 2 (unat (?n ! 0)) @ fmt_hex False 2 (unat (?n ! 1)) @ fmt_hex False 2 (unat (?n ! 2)) @ fmt_hex False 2 (unat (?n ! 3))
      @ fmt_hex False 2 (unat (?n ! 4)) @ fmt_hex False 2 (unat (?n ! 5)) = map to_lower e"
  proof -
    have "fmt_hex False 2 (unat (?n ! i)) = [to_lower (e ! (2 * i)), to_lower (e ! (2 * i + 1))]" if "i < 6" for i
    proof -
      have g2: "group_ok 2 [e ! (2 * i), e ! (2 * i + 1)]" using g(5) that by (simp add: group_ok_def)
      have "unat (?n ! i) = hexval [e ! (2 * i), e ! (2 * i + 1)]" using b [OF g2] that by (simp add: unat_of_nat)
      then show ?thesis using fmt_hexval [OF g2] by simp
    qed
    note this [of 0] this [of 1] this [of 2] this [of 3] this [of 4] this [of 5]
    moreover obtain e0 e1 e2 e3 e4 e5 e6 e7 e8 e9 e10 e11 where "e = [e0, e1, e2, e3, e4, e5, e6, e7, e8, e9, e10, e11]"
      using g(5) by (auto simp: group_ok_def numeral_eq_Suc length_Suc_conv)
    ultimately show ?thesis by simp
  qed
  have "uuid_unparse_x False q = uuid_groups (map to_lower a) (map to_lower b) (map to_lower c) (map to_lower d) (map to_lower e)"
    unfolding unparse_groups unfolding q unpack_pack [OF l]
    using fmt_hexval [OF g(1)] fmt_hexval [OF g(2)] fmt_hexval [OF g(3)] d e by (simp add: v del: upt_rec_numeral)
  moreover have "to_lower (CHR ''-'') = CHR ''-''" by (simp add: to_lower_def)
  ultimately show "uuid_unparse_x False q = map to_lower s" by (simp add: s uuid_groups_def)
qed

lemma memcmp_eq_0: "length p = length q \<Longrightarrow> memcmp p q = 0 \<longleftrightarrow> p = q"
  by (induction p q rule: list_induct2) auto

lemma memcmp_swap: "length p = length q \<Longrightarrow> memcmp q p = - memcmp p q"
  by (induction p q rule: list_induct2) auto

section \<open>The properties\<close>

text \<open>
  C36.  Packing the fields and unpacking 16 bytes are inverse to each other.
\<close>

theorem uuid_pack_unpack_roundtrip:
  "(length (node u) = 6 \<longrightarrow> length (uuid_pack u) = 16 \<and> uuid_unpack (uuid_pack u) = u)
   \<and> (length p = 16 \<longrightarrow> length (node (uuid_unpack p)) = 6 \<and> uuid_pack (uuid_unpack p) = p)"
  by (simp add: unpack_pack pack_unpack length_pack length_node_unpack)

definition uuid_demo :: "u8 list" where
  "uuid_demo = [0x12, 0x34, 0x56, 0x78, 0x9a, 0xbc, 0x1d, 0xef, 0x80, 0x01, 0x00, 0x11, 0x22, 0x33, 0x44, 0x5f]"

lemma length_uuid_demo: "length uuid_demo = 16"
  by (simp add: uuid_demo_def)

lemma uuid_pack_unpack_roundtrip_witness: "uuid_pack (uuid_unpack uuid_demo) = uuid_demo"
  using uuid_pack_unpack_roundtrip [of undefined uuid_demo] length_uuid_demo by simp

text \<open>
  C37.  The text form and the bytes: both formats print a text that parses back to the same bytes; and a
  text is accepted only if it has the form of five groups of digits, and then prints back as itself in
  lower case.
\<close>

theorem uuid_text_roundtrip:
  "(length p = 16 \<longrightarrow> uuid_parse (uuid_unparse_lower p) = Some p \<and> uuid_parse (uuid_unparse_upper p) = Some p)
   \<and> (uuid_parse s = Some q \<longrightarrow> length q = 16 \<and> uuid_unparse_lower q = map to_lower s
        \<and> (\<exists>a b c d e. s = uuid_groups a b c d e \<and> group_ok 8 a \<and> group_ok 4 b \<and> group_ok 4 c \<and> group_ok 4 d \<and> group_ok 12 e))"
  using parse_unparse [of p] unparse_parse [of s q] by (auto simp: uuid_unparse_lower_def uuid_unparse_upper_def)

lemma uuid_text_roundtrip_witness:
  "uuid_parse (uuid_unparse_lower uuid_demo) = Some uuid_demo"
  using uuid_text_roundtrip [of uuid_demo] length_uuid_demo by simp

text \<open>
  The comparison by fields is the comparison of the 16 bytes in order.
\<close>

theorem uuid_compare_correct:
  assumes "length p = 16" "length q = 16"
  shows "uuid_compare p q = memcmp p q \<and> (uuid_compare p q = 0 \<longleftrightarrow> p = q) \<and> uuid_compare q p = - uuid_compare p q"
  using assms by (simp add: compare_bytes memcmp_eq_0 memcmp_swap [of p q])

lemma uuid_compare_correct_witness: "uuid_compare uuid_demo uuid_clear = 1 \<and> uuid_compare uuid_clear uuid_demo = - 1"
proof -
  have "length uuid_clear = 16" by (simp add: uuid_clear_def)
  from uuid_compare_correct [OF length_uuid_demo this] show ?thesis
    by (simp add: uuid_demo_def uuid_clear_def numeral_eq_Suc)
qed

end
