(* ===== verification/Uuid_Clock.thy ===== *)
theory Uuid_Clock
  imports Uuid "HOL-Library.Signed_Division"
begin

text \<open>
  The generation of identifiers, \<open>lib/uuid/gen_uuid.c\<close>: the clock of the time-based ones, which turns
  readings of the system clock into numbers that increase, with its state in the process and in the file
  \<open>clock.txt\<close>; the assembly of time-based and random identifiers; and the series of identifiers from the
  daemon.

  The readings of \<open>gettimeofday\<close>, the random bytes, the node address and the answer of the daemon are
  arguments.  A call that has to wait for the clock to move on reads again and again: the readings are a
  list, and a call that runs through all of them without an answer is \<open>None\<close>.
\<close>

unbundle bit_operations_syntax

section \<open>The clock\<close>

type_synonym timeval = "int \<times> int"

text \<open>
  The file is missing (\<open>state_fd\<close> is negative) or has a content: the four numbers of a line
  \<open>clock: %04x tv: %lu %lu adj: %d\<close>, if it is one.
\<close>

datatype state_file = No_File | State_File "(u16 \<times> int \<times> int \<times> int) option"

record uuid_clock =
  adjustment :: int
  last_tv :: timeval
  clk_seq :: u16
  clk_file :: state_file

definition MAX_ADJUSTMENT :: int where "MAX_ADJUSTMENT = 10"

definition load_state :: "uuid_clock \<Rightarrow> uuid_clock" where
  "load_state c =
     (case clk_file c of
        State_File (Some (cl, tv1, tv2, a)) \<Rightarrow> c\<lparr>clk_seq := cl AND 0x3FFF, last_tv := (tv1, tv2), adjustment := a\<rparr>
      | _ \<Rightarrow> c)"

text \<open>The first use takes a random sequence number, and a time one second ago.\<close>

fun first_state :: "u16 \<Rightarrow> timeval list \<Rightarrow> uuid_clock \<Rightarrow> (uuid_clock \<times> timeval list) option" where
  "first_state rnd readings c =
     (if fst (last_tv c) = 0 \<and> snd (last_tv c) = 0
      then (case readings of
              [] \<Rightarrow> None
            | (s, us) # rest \<Rightarrow> Some (c\<lparr>clk_seq := rnd AND 0x3FFF, last_tv := (s - 1, us)\<rparr>, rest))
      else Some (c, readings))"

text \<open>From the label \<open>try_again\<close>: the reading that is used, the new state and the readings left.\<close>

fun try_again :: "timeval list \<Rightarrow> uuid_clock \<Rightarrow> (timeval \<times> uuid_clock \<times> timeval list) option" where
  "try_again [] c = None"
| "try_again (tv # rest) c =
     (if fst tv < fst (last_tv c) \<or> (fst tv = fst (last_tv c) \<and> snd tv < snd (last_tv c))
      then Some (tv, c\<lparr>clk_seq := (clk_seq c + 1) AND 0x3FFF, adjustment := 0, last_tv := tv\<rparr>, rest)
      else if fst tv = fst (last_tv c) \<and> snd tv = snd (last_tv c)
      then if adjustment c \<ge> MAX_ADJUSTMENT then try_again rest c
           else Some (tv, c\<lparr>adjustment := adjustment c + 1\<rparr>, rest)
      else Some (tv, c\<lparr>adjustment := 0, last_tv := tv\<rparr>, rest))"

definition clock_reg :: "timeval \<Rightarrow> int \<Rightarrow> u64" where
  "clock_reg tv adj = of_int (snd tv * 10 + adj) + of_int (fst tv) * 10000000 + (push_bit 32 0x01B21DD2 + 0x13814000)"

text \<open>A caller that takes \<open>num\<close> identifiers at once moves the state to the last of them.\<close>

definition reserve :: "int option \<Rightarrow> uuid_clock \<Rightarrow> uuid_clock" where
  "reserve num c =
     (case num of
        Some n \<Rightarrow>
          if n > 1
          then let adj = adjustment c + (n - 1);
                   us = snd (last_tv c) + adj sdiv 10;
                   s = fst (last_tv c) + us sdiv 1000000
               in c\<lparr>adjustment := adj smod 10, last_tv := (s, us smod 1000000)\<rparr>
          else c
      | None \<Rightarrow> c)"

text \<open>Descriptor 0 is taken for open here, the test in the code is \<open>state_fd > 0\<close>.\<close>

definition save_state :: "uuid_clock \<Rightarrow> uuid_clock" where
  "save_state c =
     (case clk_file c of
        No_File \<Rightarrow> c
      | State_File _ \<Rightarrow> c\<lparr>clk_file := State_File (Some (clk_seq c, fst (last_tv c), snd (last_tv c), adjustment c))\<rparr>)"

definition get_clock :: "u16 \<Rightarrow> int option \<Rightarrow> timeval list \<Rightarrow> uuid_clock \<Rightarrow> ((u32 \<times> u32 \<times> u16) \<times> uuid_clock \<times> timeval list) option" where
  "get_clock rnd num readings c =
     (case first_state rnd readings (load_state c) of
        None \<Rightarrow> None
      | Some (c1, rs) \<Rightarrow>
          (case try_again rs c1 of
             None \<Rightarrow> None
           | Some (tv, c2, rest) \<Rightarrow>
               let reg = clock_reg tv (adjustment c2); c3 = save_state (reserve num c2)
               in Some ((ucast (drop_bit 32 reg), ucast reg, clk_seq c3), c3, rest)))"

section \<open>Identifiers\<close>

text \<open>The node address: of a network card, or random bytes with the multicast bit.\<close>

definition init_node :: "u8 list option \<Rightarrow> u8 list \<Rightarrow> u8 list" where
  "init_node addr rnd = (case addr of Some a \<Rightarrow> a | None \<Rightarrow> rnd[0 := rnd ! 0 OR 0x01])"

definition time_uuid :: "u8 list \<Rightarrow> u32 \<times> u32 \<times> u16 \<Rightarrow> u8 list" where
  "time_uuid node_id regs =
     (case regs of (clock_mid, low, seq) \<Rightarrow>
        uuid_pack \<lparr>time_low = low, time_mid = ucast clock_mid,
          time_hi_and_version = ucast ((drop_bit 16 clock_mid AND 0x0FFF) OR 0x1000), clock_seq = seq OR 0x8000, node = node_id\<rparr>)"

definition uuid__generate_time ::
  "u8 list \<Rightarrow> u16 \<Rightarrow> int option \<Rightarrow> timeval list \<Rightarrow> uuid_clock \<Rightarrow> (u8 list \<times> uuid_clock \<times> timeval list) option" where
  "uuid__generate_time node_id rnd num readings c =
     map_option (\<lambda>(regs, c', rest). (time_uuid node_id regs, c', rest)) (get_clock rnd num readings c)"

definition random_uuid :: "u8 list \<Rightarrow> u8 list" where
  "random_uuid buf =
     (let uu = uuid_unpack buf in
      uuid_pack (uu\<lparr>clock_seq := (clock_seq uu AND 0x3FFF) OR 0x8000,
                    time_hi_and_version := (time_hi_and_version uu AND 0x0FFF) OR 0x4000\<rparr>))"

text \<open>\<open>bufs\<close> are the random bytes of the rounds, \<open>n\<close> of them.\<close>

definition uuid__generate_random :: "(nat \<Rightarrow> u8 list) \<Rightarrow> int option \<Rightarrow> u8 list list" where
  "uuid__generate_random bufs num =
     (let n = (case num of None \<Rightarrow> 1 | Some k \<Rightarrow> if k = 0 then 1 else k)
      in map (\<lambda>i. random_uuid (bufs i)) [0..<nat n])"

definition uuid_generate_random :: "(nat \<Rightarrow> u8 list) \<Rightarrow> u8 list" where
  "uuid_generate_random bufs = uuid__generate_random bufs (Some 1) ! 0"

text \<open>The next identifier of a series: the time counts on through the three fields.\<close>

definition uuid_next :: "uuid \<Rightarrow> uuid" where
  "uuid_next uu =
     (let low = time_low uu + 1 in
      if low \<noteq> 0 then uu\<lparr>time_low := low\<rparr>
      else let mid = time_mid uu + 1 in
           if mid \<noteq> 0 then uu\<lparr>time_low := low, time_mid := mid\<rparr>
           else uu\<lparr>time_low := low, time_mid := mid, time_hi_and_version := time_hi_and_version uu + 1\<rparr>)"

text \<open>
  \<open>uuid_generate_time\<close> with thread-local state: the identifiers left of the last series, the last one, and
  the time of the series.  \<open>now\<close> is \<open>time(0)\<close>, \<open>daemon\<close> the first identifier of a new series of a thousand.
\<close>

record uuid_series =
  ser_num :: int
  ser_uu :: uuid
  ser_time :: int

definition uuid_generate_time ::
  "int \<Rightarrow> u8 list option \<Rightarrow> u8 list \<Rightarrow> u16 \<Rightarrow> timeval list \<Rightarrow> uuid_series \<times> uuid_clock
   \<Rightarrow> (u8 list \<times> (uuid_series \<times> uuid_clock) \<times> timeval list) option" where
  "uuid_generate_time now daemon node_id rnd readings st =
     (case st of (ser, c) \<Rightarrow>
        let n = (if ser_num ser > 0 \<and> now > ser_time ser + 1 then 0 else ser_num ser) in
        if n \<le> 0
        then (case daemon of
                Some out \<Rightarrow> Some (out, (\<lparr>ser_num = 1000 - 1, ser_uu = uuid_unpack out, ser_time = now\<rparr>, c), readings)
              | None \<Rightarrow> map_option (\<lambda>(out, c', rest). (out, (ser\<lparr>ser_num := 0\<rparr>, c'), rest))
                          (uuid__generate_time node_id rnd None readings c))
        else let uu = uuid_next (ser_uu ser)
             in Some (uuid_pack uu, (ser\<lparr>ser_num := n - 1, ser_uu := uu\<rparr>, c), readings))"

text \<open>\<open>random_fd\<close> says whether there is a device with random bytes.\<close>

definition uuid_generate ::
  "bool \<Rightarrow> (nat \<Rightarrow> u8 list) \<Rightarrow> int \<Rightarrow> u8 list option \<Rightarrow> u8 list \<Rightarrow> u16 \<Rightarrow> timeval list \<Rightarrow> uuid_series \<times> uuid_clock
   \<Rightarrow> (u8 list \<times> (uuid_series \<times> uuid_clock) \<times> timeval list) option" where
  "uuid_generate random_fd bufs now daemon node_id rnd readings st =
     (if random_fd then Some (uuid_generate_random bufs, st, readings)
      else uuid_generate_time now daemon node_id rnd readings st)"

section \<open>The numbers a clock gives out\<close>

text \<open>
  Microseconds, and the value of a state in units of 100 ns: every number that was given out under the
  present sequence number is at most this value.
\<close>

definition tv_us :: "timeval \<Rightarrow> int" where
  "tv_us tv = fst tv * 1000000 + snd tv"

definition tv_ok :: "timeval \<Rightarrow> bool" where
  "tv_ok tv \<longleftrightarrow> 0 < fst tv \<and> fst tv < 2 ^ 33 \<and> 0 \<le> snd tv \<and> snd tv < 1000000"

definition clock_val :: "uuid_clock \<Rightarrow> int" where
  "clock_val c = tv_us (last_tv c) * 10 + adjustment c"

definition wf_clock :: "uuid_clock \<Rightarrow> bool" where
  "wf_clock c \<longleftrightarrow> 0 < fst (last_tv c) \<and> 0 \<le> snd (last_tv c) \<and> snd (last_tv c) < 1000000
     \<and> 0 \<le> adjustment c \<and> adjustment c \<le> 10 \<and> clk_seq c AND 0x3FFF = clk_seq c"

lemma and_3fff: "unat ((w :: u16) AND 0x3FFF) = unat w mod 2 ^ 14"
proof -
  have e: "w AND 0x3FFF = take_bit 14 w" by (simp add: take_bit_eq_mask mask_eq_exp_minus_1)
  have "unat (take_bit 14 w) = take_bit 14 (unat w)" by (rule unsigned_take_bit_eq)
  also have "\<dots> = unat w mod 2 ^ 14" by (rule take_bit_eq_mod)
  finally show ?thesis unfolding e .
qed

lemma and_3fff_idem [simp]: "(w AND 0x3FFF) AND 0x3FFF = (w AND 0x3FFF :: u16)"
  by (simp add: and.assoc)

lemma next_seq_differs: "(w :: u16) AND 0x3FFF = w \<Longrightarrow> (w + 1) AND 0x3FFF \<noteq> w"
proof
  assume *: "w AND 0x3FFF = w" "(w + 1) AND 0x3FFF = w"
  have m: "unat w mod 2 ^ 14 = unat w" using and_3fff [of w] *(1) by simp
  then have "unat w < 2 ^ 14" by (metis mod_less_divisor zero_less_numeral zero_less_power)
  then have "unat (w + 1) = unat w + 1" by (intro unat_succ) (auto simp: unsigned_minus_1_eq_mask mask_eq_exp_minus_1)
  then have "(unat w + 1) mod 2 ^ 14 = unat w" using and_3fff [of "w + 1"] *(2) by simp
  then show False using \<open>unat w < 2 ^ 14\<close> by (cases "unat w + 1 = 2 ^ 14") auto
qed

text \<open>What one reading does to the state.\<close>

definition clock_moves :: "uuid_clock \<Rightarrow> uuid_clock \<Rightarrow> bool" where
  "clock_moves c c' \<longleftrightarrow>
     (if clk_seq c' = clk_seq c then clock_val c \<le> clock_val c' \<and> (adjustment c < 10 \<longrightarrow> clock_val c < clock_val c')
      else clk_seq c' = (clk_seq c + 1) AND 0x3FFF)"

lemma try_again_correct:
  assumes "wf_clock c" "\<forall>tv \<in> set rs. tv_ok tv" "try_again rs c = Some (tv, c', rest)"
  shows "wf_clock c' \<and> tv \<in> set rs \<and> tv_ok tv \<and> last_tv c' = tv \<and> clk_file c' = clk_file c \<and> set rest \<subseteq> set rs \<and> clock_moves c c'"
  using assms(2,3)
proof (induction rs)
  case (Cons t rs)
  let ?l = "last_tv c"
  have w: "0 < fst ?l" "0 \<le> snd ?l" "snd ?l < 1000000" "0 \<le> adjustment c" "adjustment c \<le> 10" "clk_seq c AND 0x3FFF = clk_seq c"
    using assms(1) by (simp_all add: wf_clock_def)
  have t: "0 < fst t" "0 \<le> snd t" "snd t < 1000000" "tv_ok t" using Cons.prems(1) by (simp_all add: tv_ok_def)
  consider (setback) "fst t < fst ?l \<or> fst t = fst ?l \<and> snd t < snd ?l"
    | (same) "t = ?l" | (later) "fst ?l < fst t \<or> fst t = fst ?l \<and> snd ?l < snd t"
    by (metis linorder_neqE prod.expand)
  then show ?case
  proof cases
    case setback
    then have r: "tv = t" "c' = c\<lparr>clk_seq := (clk_seq c + 1) AND 0x3FFF, adjustment := 0, last_tv := t\<rparr>" "rest = rs"
      using Cons.prems(2) by auto
    show ?thesis using w t next_seq_differs [OF w(6)] by (auto simp: r wf_clock_def clock_moves_def)
  next
    case same
    show ?thesis
    proof (cases "adjustment c \<ge> 10")
      case True
      then have "try_again rs c = Some (tv, c', rest)" using Cons.prems(2) same by (simp add: MAX_ADJUSTMENT_def)
      then show ?thesis using Cons.IH Cons.prems(1) by auto
    next
      case False
      then have r: "tv = t" "c' = c\<lparr>adjustment := adjustment c + 1\<rparr>" "rest = rs"
        using Cons.prems(2) same by (simp_all add: MAX_ADJUSTMENT_def)
      show ?thesis using w t False same by (auto simp: r wf_clock_def clock_moves_def clock_val_def)
    qed
  next
    case later
    then have r: "tv = t" "c' = c\<lparr>adjustment := 0, last_tv := t\<rparr>" "rest = rs"
      using Cons.prems(2) by (auto split: if_splits)
    have "tv_us ?l < tv_us t" using later w t by (auto simp: tv_us_def)
    then show ?thesis using w t by (auto simp: r wf_clock_def clock_moves_def clock_val_def)
  qed
qed simp

text \<open>How many numbers a call reserves.\<close>

definition span :: "int option \<Rightarrow> int" where
  "span num = (case num of Some n \<Rightarrow> max 1 n | None \<Rightarrow> 1)"

lemma reserve_correct:
  assumes "wf_clock c"
  shows "wf_clock (reserve num c) \<and> clock_val (reserve num c) = clock_val c + (span num - 1)
    \<and> clk_seq (reserve num c) = clk_seq c \<and> clk_file (reserve num c) = clk_file c"
proof (cases "\<exists>n. num = Some n \<and> n > 1")
  case True
  then obtain n where n: "num = Some n" "n > 1" by blast
  have w: "0 < fst (last_tv c)" "0 \<le> snd (last_tv c)" "snd (last_tv c) < 1000000" "0 \<le> adjustment c" "adjustment c \<le> 10"
    using assms by (simp_all add: wf_clock_def)
  have d: "a sdiv b = a div b" "a smod b = a mod b" if "0 \<le> a" "0 < b" for a b :: int
    using that by (simp_all add: signed_divide_int_def signed_modulo_int_def minus_div_mult_eq_mod sgn_if mult.commute)
  let ?a = "adjustment c + (n - 1)" and ?u = "snd (last_tv c)"
  have p: "0 \<le> ?a" "0 \<le> ?u + ?a div 10" using w n by (simp_all add: pos_imp_zdiv_nonneg_iff)
  have "reserve num c = c\<lparr>adjustment := ?a mod 10, last_tv := (fst (last_tv c) + (?u + ?a div 10) div 1000000, (?u + ?a div 10) mod 1000000)\<rparr>"
    using n p by (simp add: reserve_def Let_def d)
  then show ?thesis using assms w p n
    by (auto simp: wf_clock_def clock_val_def tv_us_def span_def pos_imp_zdiv_nonneg_iff) 
next
  case False
  then have "reserve num c = c" "span num = 1" by (auto simp: reserve_def span_def split: option.splits)
  then show ?thesis using assms by simp
qed

section \<open>One call\<close>

text \<open>The clock has been used before, and the file, if there is one, holds what the process knows.\<close>

definition steady :: "uuid_clock \<Rightarrow> bool" where
  "steady c \<longleftrightarrow> wf_clock c
     \<and> (case clk_file c of
          State_File (Some (cl, a, b, d)) \<Rightarrow> cl = clk_seq c \<and> a = fst (last_tv c) \<and> b = snd (last_tv c) \<and> d = adjustment c
        | _ \<Rightarrow> True)"

text \<open>The number of 100 ns intervals since 1970 that the two halves of a result stand for.\<close>

definition regs_reg :: "u32 \<times> u32 \<times> u16 \<Rightarrow> u64" where
  "regs_reg r = (case r of (mid, low, seq) \<Rightarrow> push_bit 32 (ucast mid) OR ucast low)"

definition regs_number :: "u32 \<times> u32 \<times> u16 \<Rightarrow> int" where
  "regs_number r = uint (regs_reg r - time_offset)"

lemma split_reg: "regs_reg (ucast (drop_bit 32 reg), ucast reg, seq) = reg"
  by (rule bit_eqI) (auto simp: regs_reg_def bit_simps)

lemma reg_halves: "ucast (drop_bit 32 (regs_reg (mid, low, seq))) = mid" "ucast (regs_reg (mid, low, seq)) = low"
proof -
  have "ucast (drop_bit 32 (push_bit 32 (ucast mid) OR ucast low :: u64)) = mid"
    by (rule bit_eqI) (auto simp: bit_simps dest: bit_imp_le_length)
  then show "ucast (drop_bit 32 (regs_reg (mid, low, seq))) = mid" by (simp add: regs_reg_def)
  have "ucast (push_bit 32 (ucast mid) OR ucast low :: u64) = low" by (rule bit_eqI) (simp add: bit_simps)
  then show "ucast (regs_reg (mid, low, seq)) = low" by (simp add: regs_reg_def)
qed

lemma clock_reg_number: "clock_reg tv adj = of_int (tv_us tv * 10 + adj) + time_offset"
  by (simp add: clock_reg_def tv_us_def time_offset_def algebra_simps)

lemma load_steady: "steady c \<Longrightarrow> load_state c = c"
  by (auto simp: steady_def load_state_def wf_clock_def split: state_file.splits option.splits)

lemma save_steady:
  assumes "wf_clock c"
  shows "steady (save_state c)" "clock_val (save_state c) = clock_val c" "clk_seq (save_state c) = clk_seq c"
    "adjustment (save_state c) = adjustment c"
  using assms by (auto simp: steady_def save_state_def wf_clock_def clock_val_def split: state_file.splits)

text \<open>
  A call in a steady state: the number it returns, the value of the new state, and what the old value has
  to do with the number.
\<close>

lemma get_clock_correct:
  assumes "steady c" "\<forall>tv \<in> set rs. tv_ok tv" "get_clock rnd num rs c = Some (r, c', rest)"
  shows "steady c'" "snd (snd r) = clk_seq c'" "clock_val c' = regs_number r + (span num - 1)"
    "if clk_seq c' = clk_seq c
     then clock_val c \<le> regs_number r \<and> (adjustment c < 10 \<longrightarrow> clock_val c < regs_number r)
     else clk_seq c' = (clk_seq c + 1) AND 0x3FFF"
    "\<exists>tv \<in> set rs. \<exists>adj. regs_reg r = clock_reg tv adj \<and> regs_number r = tv_us tv * 10 + adj \<and> 0 \<le> adj \<and> adj \<le> 10"
    "set rest \<subseteq> set rs"
proof -
  have wf: "wf_clock c" using assms(1) by (simp add: steady_def)
  then have f: "first_state rnd rs (load_state c) = Some (c, rs)"
    using load_steady [OF assms(1)] by (auto simp: wf_clock_def)
  obtain tv c2 where t: "try_again rs c = Some (tv, c2, rest)"
    and r: "r = (ucast (drop_bit 32 (clock_reg tv (adjustment c2))), ucast (clock_reg tv (adjustment c2)), clk_seq (save_state (reserve num c2)))"
    and c': "c' = save_state (reserve num c2)"
    using assms(3) unfolding get_clock_def f option.case prod.case Let_def
    by (cases "try_again rs c") auto
  note k = try_again_correct [OF wf assms(2) t]
  note k2 = reserve_correct [of c2 num]
  note k3 = save_steady [of "reserve num c2"]
  show "steady c'" "snd (snd r) = clk_seq c'" "set rest \<subseteq> set rs" using k k2 k3 by (simp_all add: c' r)
  have adj: "0 \<le> adjustment c2" "adjustment c2 \<le> 10" using k by (simp_all add: wf_clock_def)
  have v: "clock_val c2 = tv_us tv * 10 + adjustment c2" using k by (simp add: clock_val_def)
  have "0 \<le> tv_us tv" "tv_us tv < 2 ^ 54" using k by (auto simp: tv_ok_def tv_us_def)
  then have b: "0 \<le> clock_val c2" "clock_val c2 < 2 ^ 64" using adj v by simp_all
  have reg: "regs_reg r = clock_reg tv (adjustment c2)" unfolding r by (rule split_reg)
  have n: "regs_number r = clock_val c2"
    unfolding regs_number_def reg clock_reg_number v [symmetric] using b by (simp add: unsigned_of_int take_bit_int_eq_self_iff)
  show "clock_val c' = regs_number r + (span num - 1)" using k k2 k3 n by (simp add: c')
  show "if clk_seq c' = clk_seq c
     then clock_val c \<le> regs_number r \<and> (adjustment c < 10 \<longrightarrow> clock_val c < regs_number r)
     else clk_seq c' = (clk_seq c + 1) AND 0x3FFF"
    using k k2 k3 n by (auto simp: c' clock_moves_def split: if_splits)
  have "tv \<in> set rs" using k by simp
  then show "\<exists>tv \<in> set rs. \<exists>adj. regs_reg r = clock_reg tv adj \<and> regs_number r = tv_us tv * 10 + adj \<and> 0 \<le> adj \<and> adj \<le> 10"
    using reg n v adj by auto
qed

section \<open>Runs of calls\<close>

text \<open>
  What a run has given out: for each call the first and the last number it reserved, the sequence number
  and the adjustment it left.
\<close>

inductive clock_run :: "uuid_clock \<Rightarrow> (int \<times> int \<times> u16 \<times> int) list \<Rightarrow> uuid_clock \<Rightarrow> bool" where
  start: "clock_run c [] c"
| call: "clock_run c0 issued c \<Longrightarrow> \<forall>tv \<in> set rs. tv_ok tv \<Longrightarrow> get_clock rnd num rs c = Some (r, c', rest)
    \<Longrightarrow> clock_run c0 (issued @ [(regs_number r, regs_number r + span num - 1, snd (snd r), adjustment c')]) c'"

inductive_cases clock_run_snocE: "clock_run c0 (issued @ [x]) c"

text \<open>One entry comes before another: never above it, and below it unless the state was full.\<close>

definition issued_before :: "int \<times> int \<times> u16 \<times> int \<Rightarrow> int \<times> int \<times> u16 \<times> int \<Rightarrow> bool" where
  "issued_before x y \<longleftrightarrow> fst (snd x) \<le> fst y \<and> (snd (snd (snd x)) < 10 \<longrightarrow> fst (snd x) < fst y)"

lemma clock_run_invariant:
  assumes "clock_run c0 issued c" "steady c0" "\<forall>x \<in> set issued. fst (snd (snd x)) = clk_seq c0"
  shows "steady c \<and> clk_seq c = clk_seq c0 \<and> sorted_wrt issued_before issued
    \<and> (\<forall>x \<in> set issued. fst (snd x) \<le> clock_val c
          \<and> (snd (snd (snd x)) < 10 \<longrightarrow> fst (snd x) < clock_val c \<or> adjustment c < 10))"
  using assms
proof (induction rule: clock_run.induct)
  case (start c)
  then show ?case by simp
next
  case (call c0 issued c rs rnd num r c' rest)
  have ih: "steady c" "clk_seq c = clk_seq c0" "sorted_wrt issued_before issued"
    "\<forall>x \<in> set issued. fst (snd x) \<le> clock_val c \<and> (snd (snd (snd x)) < 10 \<longrightarrow> fst (snd x) < clock_val c \<or> adjustment c < 10)"
    using call.IH call.prems by simp_all
  note k = get_clock_correct [OF ih(1) call.hyps(2,3)]
  have seq: "clk_seq c' = clk_seq c0" using call.prems(2) k(2) by simp
  then have m: "clock_val c \<le> regs_number r" "adjustment c < 10 \<Longrightarrow> clock_val c < regs_number r" using k(4) ih(2) by simp_all
  have sp: "1 \<le> span num" by (simp add: span_def split: option.splits)
  let ?y = "(regs_number r, regs_number r + span num - 1, snd (snd r), adjustment c')"
  have before: "issued_before x ?y" if "x \<in> set issued" for x
    using ih(4) that m by (fastforce simp: issued_before_def)
  have v: "fst (snd x) \<le> clock_val c' \<and> (snd (snd (snd x)) < 10 \<longrightarrow> fst (snd x) < clock_val c' \<or> adjustment c' < 10)"
    if "x \<in> set (issued @ [?y])" for x
  proof (cases "x = ?y")
    case True
    then show ?thesis using k(3) by simp
  next
    case False
    then have "x \<in> set issued" using that by simp
    then have "issued_before x ?y" by (rule before)
    then show ?thesis using k(3) sp by (auto simp: issued_before_def)
  qed
  show ?case using k(1) seq ih(3) before v by (simp add: sorted_wrt_append)
qed

section \<open>The fields of generated identifiers\<close>

lemma mask_numerals: "(0x0FFF :: u32) = mask 12" "(0x0FFF :: u16) = mask 12" "(0xF :: u16) = mask 4" "(0x3FFF :: u16) = mask 14"
  by (simp_all add: mask_eq_exp_minus_1)

lemma power_numerals: "(0x1000 :: u32) = push_bit 12 1" "(4 :: u16) = push_bit 2 1" "(0x4000 :: u16) = push_bit 14 1" "(0x8000 :: u16) = push_bit 15 1"
  by (simp_all add: push_bit_eq_mult)

lemma bit_numerals:
  "bit (0x0FFF :: u32) n \<longleftrightarrow> n < 12" "bit (0x0FFF :: u16) n \<longleftrightarrow> n < 12" "bit (0xF :: u16) n \<longleftrightarrow> n < 4" "bit (0x3FFF :: u16) n \<longleftrightarrow> n < 14"
  "bit (0x1000 :: u32) n \<longleftrightarrow> n = 12" "bit (4 :: u16) n \<longleftrightarrow> n = 2" "bit (0x4000 :: u16) n \<longleftrightarrow> n = 14" "bit (0x8000 :: u16) n \<longleftrightarrow> n = 15"
  unfolding mask_numerals power_numerals bit_mask_iff bit_push_bit_iff bit_1_iff by auto

lemma time_uuid_fields:
  assumes "length node_id = 6"
  shows "uuid_unpack (time_uuid node_id (mid, low, seq)) = \<lparr>time_low = low, time_mid = ucast mid,
    time_hi_and_version = ucast ((drop_bit 16 mid AND 0x0FFF) OR 0x1000), clock_seq = seq OR 0x8000, node = node_id\<rparr>"
  using assms by (simp add: time_uuid_def unpack_pack)

lemma variant_dce:
  assumes "clock_seq (uuid_unpack p) = (s AND 0x3FFF) OR 0x8000"
  shows "uuid_variant p = UUID_VARIANT_DCE"
proof -
  have a: "((s AND 0x3FFF) OR 0x8000) AND 0x8000 = (0x8000 :: u16)" by (rule bit_eqI) (auto simp: bit_simps bit_numerals simp del: bit_numeral_word_iff)
  have b: "((s AND 0x3FFF) OR 0x8000) AND 0x4000 = (0 :: u16)" by (rule bit_eqI) (auto simp: bit_simps bit_numerals simp del: bit_numeral_word_iff)
  show ?thesis unfolding uuid_variant_def assms Let_def a b by simp
qed

lemma time_uuid_type: "length node_id = 6 \<Longrightarrow> uuid_type (time_uuid node_id (mid, low, seq)) = 1"
proof -
  assume n: "length node_id = 6"
  have "drop_bit 12 (ucast ((drop_bit 16 mid AND 0x0FFF) OR 0x1000 :: u32) :: u16) AND 0xF = 1"
    by (rule bit_eqI) (auto simp: bit_simps bit_numerals bit_1_iff simp del: bit_numeral_word_iff)
  then show ?thesis by (simp add: uuid_type_def time_uuid_fields [OF n])
qed

lemma random_uuid_fields:
  assumes "length buf = 16"
  shows "uuid_unpack (random_uuid buf) = (uuid_unpack buf)\<lparr>clock_seq := (clock_seq (uuid_unpack buf) AND 0x3FFF) OR 0x8000,
    time_hi_and_version := (time_hi_and_version (uuid_unpack buf) AND 0x0FFF) OR 0x4000\<rparr>"
  using length_node_unpack [OF assms] by (simp add: random_uuid_def Let_def unpack_pack)

lemma random_uuid_type: "length buf = 16 \<Longrightarrow> uuid_type (random_uuid buf) = 4"
proof -
  assume n: "length buf = 16"
  have "drop_bit 12 ((h AND 0x0FFF) OR 0x4000) AND 0xF = (4 :: u16)" for h
    by (rule bit_eqI) (auto simp: bit_simps bit_numerals simp del: bit_numeral_word_iff)
  then show ?thesis by (simp add: uuid_type_def random_uuid_fields [OF n])
qed

lemma time_uuid_time:
  assumes "length node_id = 6" "reg < 2 ^ 60"
  shows "uuid_time (time_uuid node_id (ucast (drop_bit 32 reg), ucast reg, seq))
    = ((reg - time_offset) div 10000000, (reg - time_offset) mod 10000000 div 10)"
proof -
  let ?mid = "ucast (drop_bit 32 reg) :: u32"
  have r: "\<not> bit reg n" if "60 \<le> n" for n
  proof -
    have "unat reg < 2 ^ 60" using assms(2) by (simp add: word_less_nat_alt)
    then have "take_bit 60 (unat reg) = unat reg" by (simp add: take_bit_nat_eq_self_iff)
    then have "bit (unat reg) n = (n < 60 \<and> bit (unat reg) n)" by (metis bit_take_bit_iff)
    then show ?thesis using that by (simp add: bit_unsigned_iff)
  qed
  have r28: "bit reg (32 + n) \<Longrightarrow> n < 28" for n using r [of "32 + n"] by (cases "n < 28") auto
  have h: "(ucast (ucast ?mid :: u16) OR push_bit 16 (ucast (ucast ((drop_bit 16 ?mid AND 0x0FFF) OR 0x1000) :: u16) AND 0xFFF) :: u32) = ?mid"
    by (rule bit_eqI) (auto simp: bit_simps bit_numerals not_less simp del: bit_numeral_word_iff push_bit_numeral dest: r28)
  have "(ucast (ucast reg :: u32) OR push_bit 32 (ucast ?mid) :: u64) = reg"
    by (rule bit_eqI) (auto simp: bit_simps)
  then show ?thesis unfolding uuid_time_def time_uuid_fields [OF assms(1)] Let_def uuid.simps h by simp
qed

lemma uuid_next_time:
  fixes u defines "t \<equiv> \<lambda>u. unat (time_hi_and_version u) * 2 ^ 48 + unat (time_mid u) * 2 ^ 32 + unat (time_low u)"
  assumes "time_hi_and_version u \<noteq> - 1"
  shows "t (uuid_next u) = t u + 1"
proof -
  have z: "unat x = 2 ^ LENGTH('a) - 1" if "x + 1 = 0" for x :: "'a::len word"
    using that by (simp add: eq_neg_iff_add_eq_0 [symmetric] unsigned_minus_1_eq_mask mask_eq_exp_minus_1)
  have s: "unat (x + 1) = unat x + 1" if "x + 1 \<noteq> 0" for x :: "'a::len word"
    using that unatSuc [of x] by (simp add: add.commute)
  show ?thesis using z [of "time_low u"] z [of "time_mid u"] s [of "time_low u"] s [of "time_mid u"] unat_succ [OF assms(2)]
    by (auto simp: uuid_next_def Let_def t_def)
qed

section \<open>The properties\<close>

text \<open>
  C34.  Over any run of calls, with any readings of the clock and any sizes of series, as long as the
  clock was never set back (the sequence number stayed): the numbers given out increase, no number of a
  call is above a later one, and it is below every later one unless the call left the adjustment at its
  maximum.
\<close>

theorem uuid_clock_increasing:
  assumes "clock_run c0 issued c" "steady c0" "\<forall>x \<in> set issued. fst (snd (snd x)) = clk_seq c0"
  shows "sorted_wrt (\<lambda>(a, b, s, d) (a', b', s', d'). b \<le> a' \<and> (d < 10 \<longrightarrow> b < a')) issued"
proof -
  have "(\<lambda>(a, b, s, d) (a', b', s', d'). b \<le> a' \<and> (d < 10 \<longrightarrow> b < a')) = issued_before"
    by (auto simp: fun_eq_iff issued_before_def)
  then show ?thesis using clock_run_invariant [OF assms] by simp
qed

definition clock_demo :: uuid_clock where
  "clock_demo = \<lparr>adjustment = 9, last_tv = (100, 5), clk_seq = 7, clk_file = No_File\<rparr>"

lemma clock_demo_call:
  "\<exists>r c'. get_clock 0 None [(100, 5 + u)] (clock_demo\<lparr>adjustment := a\<rparr>) = Some (r, c', []) \<and> snd (snd r) = 7
     \<and> c' = clock_demo\<lparr>adjustment := if u = 0 then a + 1 else 0, last_tv := (100, 5 + u)\<rparr>
     \<and> regs_reg r = clock_reg (100, 5 + u) (if u = 0 then a + 1 else 0)"
  if "0 \<le> u" "a < 10" for u a
  using that by (auto simp: get_clock_def load_state_def clock_demo_def MAX_ADJUSTMENT_def Let_def reserve_def save_state_def split_reg)

lemma steady_demo: "steady clock_demo"
  by (simp add: steady_def wf_clock_def clock_demo_def)

lemma uuid_clock_increasing_witness:
  "\<exists>a b s d a' b' s' d' c. clock_run clock_demo [(a, b, s, d), (a', b', s', d')] c \<and> b \<le> a'"
proof -
  let ?c = "\<lambda>a u. clock_demo\<lparr>adjustment := a, last_tv := (100, 5 + u)\<rparr>"
  have "clock_demo = clock_demo\<lparr>adjustment := 9\<rparr>" by (simp add: clock_demo_def)
  then obtain r where r: "get_clock 0 None [(100, 5)] clock_demo = Some (r, clock_demo\<lparr>adjustment := 10, last_tv := (100, 5)\<rparr>, [])" "snd (snd r) = 7"
    using clock_demo_call [of 0 9] by auto
  let ?c1 = "clock_demo\<lparr>adjustment := 10, last_tv := (100, 5)\<rparr>"
  have "\<exists>r2 c2. get_clock 0 None [(100, 7)] ?c1 = Some (r2, c2, []) \<and> snd (snd r2) = 7"
    by (simp add: get_clock_def load_state_def clock_demo_def Let_def reserve_def save_state_def)
  then obtain r2 c2 where r2: "get_clock 0 None [(100, 7)] ?c1 = Some (r2, c2, [])" "snd (snd r2) = 7" by blast
  have o: "\<forall>tv \<in> set [(100, n)]. tv_ok tv" if "0 \<le> n" "n < 1000000" for n using that by (simp add: tv_ok_def)
  have run: "clock_run clock_demo ([] @ [(regs_number r, regs_number r + span None - 1, snd (snd r), adjustment ?c1)]
      @ [(regs_number r2, regs_number r2 + span None - 1, snd (snd r2), adjustment c2)]) c2"
    using clock_run.call [OF clock_run.call [OF clock_run.start o r(1)] o r2(1)] by simp
  have s: "sorted_wrt (\<lambda>(a, b, s, d) (a', b', s', d'). b \<le> a' \<and> (d < 10 \<longrightarrow> b < a'))
      ([] @ [(regs_number r, regs_number r + span None - 1, snd (snd r), adjustment ?c1)]
      @ [(regs_number r2, regs_number r2 + span None - 1, snd (snd r2), adjustment c2)])"
    using uuid_clock_increasing [OF run steady_demo] r(2) r2(2) by (simp add: clock_demo_def)
  have "regs_number r + span None - 1 \<le> regs_number r2" using s by simp
  then show ?thesis using run [simplified] by blast
qed

text \<open>
  At the maximum the next microsecond repeats a number: the adjustment goes up to 10, but ten units of
  100 ns are a microsecond.
\<close>

lemma clock_number_repeats:
  "\<exists>r c1 c2. get_clock 0 None [(100, 5)] clock_demo = Some (r, c1, []) \<and> get_clock 0 None [(100, 6)] c1 = Some (r, c2, [])"
  by (simp add: get_clock_def load_state_def clock_demo_def MAX_ADJUSTMENT_def Let_def reserve_def save_state_def clock_reg_def)

lemma div_mod_10000000: "v div 10000000 = v div 10 div 1000000" "v mod 10000000 div 10 = v div 10 mod 1000000" for v :: int
proof -
  show "v div 10000000 = v div 10 div 1000000" by (simp add: zdiv_zmult2_eq [symmetric])
  have "v mod 10000000 = 10 * (v div 10 mod 1000000) + v mod 10" using zmod_zmult2_eq [of 1000000 v 10] by simp
  then show "v mod 10000000 div 10 = v div 10 mod 1000000" by simp
qed

lemma uint_small: "0 \<le> x \<Longrightarrow> x < 2 ^ 57 \<Longrightarrow> uint (of_int x :: u64) = x"
  by (simp add: unsigned_of_int take_bit_int_eq_self_iff)

lemma div_mod_small:
  assumes "0 \<le> x" "x < 2 ^ 57" "0 < d" "d < 2 ^ 57"
  shows "(of_int x :: u64) div of_int d = of_int (x div d)" "(of_int x :: u64) mod of_int d = of_int (x mod d)"
proof -
  have "x div d \<le> x" "0 \<le> x div d" "x mod d < d" "0 \<le> x mod d"
    using assms by (simp_all add: zdiv_mono2 [of x 1 d, simplified] pos_imp_zdiv_nonneg_iff)
  moreover from this have "x mod d < 2 ^ 57" using assms(4) by linarith
  ultimately show "(of_int x :: u64) div of_int d = of_int (x div d)" "(of_int x :: u64) mod of_int d = of_int (x mod d)"
    using assms by (simp_all add: word_uint_eq_iff uint_div_distrib uint_mod_distrib uint_small)
qed

text \<open>
  C35.  A time-based identifier is of type 1 and of the DCE variant, and its time is that of one of the
  readings of the clock, to the microsecond, or one microsecond later.
\<close>

theorem time_uuid_correct:
  assumes "length node_id = 6" "steady c" "\<forall>tv \<in> set rs. tv_ok tv" "uuid__generate_time node_id rnd num rs c = Some (p, c', rest)"
  shows "length p = 16 \<and> uuid_type p = 1 \<and> uuid_variant p = UUID_VARIANT_DCE \<and> node (uuid_unpack p) = node_id
    \<and> (\<exists>tv \<in> set rs. \<exists>us \<in> {tv_us tv, tv_us tv + 1}. uuid_time p = (of_int (us div 1000000), of_int (us mod 1000000)))"
proof -
  obtain mid low seq where g: "get_clock rnd num rs c = Some ((mid, low, seq), c', rest)" "p = time_uuid node_id (mid, low, seq)"
    using assms(4) by (auto simp: uuid__generate_time_def)
  note k = get_clock_correct [OF assms(2,3) g(1)]
  have "seq AND 0x3FFF = seq" using k(1,2) by (simp add: steady_def wf_clock_def)
  then have "clock_seq (uuid_unpack p) = (seq AND 0x3FFF) OR 0x8000" unfolding g(2) time_uuid_fields [OF assms(1)] by simp
  then have v: "uuid_variant p = UUID_VARIANT_DCE" by (rule variant_dce)
  obtain tv adj where tv: "tv \<in> set rs" "regs_reg (mid, low, seq) = clock_reg tv adj" "0 \<le> adj" "adj \<le> 10" using k(5) by blast
  let ?v = "tv_us tv * 10 + adj"
  have "tv_ok tv" using assms(3) tv(1) by blast
  then have b: "0 \<le> ?v" "?v < 2 ^ 57" using tv(3,4) by (auto simp: tv_ok_def tv_us_def)
  have uv: "uint (of_int ?v :: u64) = ?v" using b by (rule uint_small)
  have "uint time_offset = 0x01B21DD213814000" by (simp add: time_offset_def push_bit_eq_mult)
  then have ur: "uint (clock_reg tv adj) = ?v + 0x01B21DD213814000"
    unfolding clock_reg_number uint_word_ariths(1) uv using b by simp
  have small: "clock_reg tv adj < 2 ^ 60" unfolding word_less_def ur using b by simp
  have split: "mid = ucast (drop_bit 32 (clock_reg tv adj))" "low = ucast (clock_reg tv adj)"
    unfolding tv(2) [symmetric] by (rule reg_halves [symmetric])+
  have "uuid_time p = (of_int ?v div 10000000, of_int ?v mod 10000000 div 10)"
    unfolding g(2) split time_uuid_time [OF assms(1) small] unfolding clock_reg_number by simp
  also have "\<dots> = (of_int (?v div 10000000), of_int (?v mod 10000000 div 10))"
  proof -
    have m: "0 \<le> ?v mod 10000000" "?v mod 10000000 < 2 ^ 57" by (simp_all add: order_less_trans [OF pos_mod_bound])
    show ?thesis using div_mod_small [OF b, of 10000000] div_mod_small(1) [OF m, of 10] by simp
  qed
  also have "\<dots> = (of_int ((tv_us tv + adj div 10) div 1000000), of_int ((tv_us tv + adj div 10) mod 1000000))"
  proof -
    have "?v div 10 = tv_us tv + adj div 10" by simp
    then show ?thesis unfolding div_mod_10000000 by (simp only:)
  qed
  finally have t: "uuid_time p = (of_int ((tv_us tv + adj div 10) div 1000000), of_int ((tv_us tv + adj div 10) mod 1000000))" .
  have "tv_us tv + adj div 10 \<in> {tv_us tv, tv_us tv + 1}" using tv(3,4) by auto
  then have "\<exists>tv \<in> set rs. \<exists>us \<in> {tv_us tv, tv_us tv + 1}. uuid_time p = (of_int (us div 1000000), of_int (us mod 1000000))"
    using t tv(1) by blast
  then show ?thesis using v time_uuid_type [OF assms(1)] time_uuid_fields [OF assms(1)] length_pack assms(1)
    by (simp add: g(2)) (simp add: time_uuid_def length_pack)
qed

lemma time_uuid_correct_witness:
  "\<exists>p c'. uuid__generate_time [1, 2, 3, 4, 5, 6] 0 None [(100, 7)] clock_demo = Some (p, c', []) \<and> uuid_type p = 1
     \<and> uuid_time p \<in> {(100, 7), (100, 8)}"
proof -
  have "\<exists>p c'. uuid__generate_time [1, 2, 3, 4, 5, 6] 0 None [(100, 7)] clock_demo = Some (p, c', [])"
    by (simp add: uuid__generate_time_def get_clock_def load_state_def clock_demo_def Let_def reserve_def save_state_def)
  then obtain p c' where g: "uuid__generate_time [1, 2, 3, 4, 5, 6] 0 None [(100, 7)] clock_demo = Some (p, c', [])" by blast
  have "\<forall>tv \<in> set [(100, 7)]. tv_ok tv" by (simp add: tv_ok_def)
  from time_uuid_correct [OF _ steady_demo this g] show ?thesis using g by (auto simp: tv_us_def)
qed

text \<open>
  A random identifier is of type 4 and of the DCE variant, and keeps the random bytes of all fields
  but the six bits of the two marks; a call makes as many as it was asked for, one by default.
\<close>

theorem random_uuid_correct:
  assumes "\<forall>i. length (bufs i) = 16"
  shows "length (uuid__generate_random bufs num) = (case num of None \<Rightarrow> 1 | Some k \<Rightarrow> if k = 0 then 1 else nat k)
    \<and> (\<forall>i < length (uuid__generate_random bufs num). let p = uuid__generate_random bufs num ! i in
         length p = 16 \<and> uuid_type p = 4 \<and> uuid_variant p = UUID_VARIANT_DCE
       \<and> time_low (uuid_unpack p) = time_low (uuid_unpack (bufs i)) \<and> time_mid (uuid_unpack p) = time_mid (uuid_unpack (bufs i))
       \<and> time_hi_and_version (uuid_unpack p) AND 0x0FFF = time_hi_and_version (uuid_unpack (bufs i)) AND 0x0FFF
       \<and> clock_seq (uuid_unpack p) AND 0x3FFF = clock_seq (uuid_unpack (bufs i)) AND 0x3FFF
       \<and> node (uuid_unpack p) = node (uuid_unpack (bufs i)))"
proof -
  have one: "length p = 16 \<and> uuid_type p = 4 \<and> uuid_variant p = UUID_VARIANT_DCE
       \<and> time_low (uuid_unpack p) = time_low (uuid_unpack b) \<and> time_mid (uuid_unpack p) = time_mid (uuid_unpack b)
       \<and> time_hi_and_version (uuid_unpack p) AND 0x0FFF = time_hi_and_version (uuid_unpack b) AND 0x0FFF
       \<and> clock_seq (uuid_unpack p) AND 0x3FFF = clock_seq (uuid_unpack b) AND 0x3FFF
       \<and> node (uuid_unpack p) = node (uuid_unpack b)" if p: "p = random_uuid b" and b: "length b = 16" for p b
  proof -
    note f = random_uuid_fields [OF b]
    have "clock_seq (uuid_unpack p) = (clock_seq (uuid_unpack b) AND 0x3FFF) OR 0x8000" by (simp add: p f)
    then have "uuid_variant p = UUID_VARIANT_DCE" by (rule variant_dce)
    moreover have "((h AND 0x0FFF) OR 0x4000) AND 0x0FFF = (h AND 0x0FFF :: u16)" for h
      by (rule bit_eqI) (auto simp: bit_simps bit_numerals simp del: bit_numeral_word_iff)
    moreover have "((h AND 0x3FFF) OR 0x8000) AND 0x3FFF = (h AND 0x3FFF :: u16)" for h
      by (rule bit_eqI) (auto simp: bit_simps bit_numerals simp del: bit_numeral_word_iff)
    moreover have "length p = 16" unfolding p random_uuid_def Let_def using length_node_unpack [OF b] by (intro length_pack) simp
    ultimately show ?thesis using random_uuid_type [OF b] by (simp add: p f)
  qed
  show ?thesis using one assms by (auto simp: uuid__generate_random_def Let_def split: option.split)
qed

lemma random_uuid_correct_witness: "uuid_type (uuid__generate_random (\<lambda>_. uuid_demo) None ! 0) = 4"
proof -
  have "\<forall>i :: nat. length ((\<lambda>_. uuid_demo) i) = 16" by (simp add: length_uuid_demo)
  from random_uuid_correct [OF this, of None] show ?thesis by (auto simp: Let_def)
qed

end
