(* ===== verification/Bytes.thy ===== *)
theory Bytes
  imports E2fs_Prelude
begin

text \<open>
  Blocks as lists of bytes: stores into a block, and little-endian fields, which are the form of all
  structures of a file system but its journal.  The code casts a pointer into a buffer to a structure;
  on a little-endian machine its fields are these.
\<close>

unbundle bit_operations_syntax

type_synonym block = "u8 list"

section \<open>Stores\<close>

text \<open>Storing the bytes \<open>bs\<close> at offset \<open>i\<close> of a buffer.\<close>

definition put_at :: "block \<Rightarrow> nat \<Rightarrow> u8 list \<Rightarrow> block" where
  "put_at p i bs = take i p @ bs @ drop (i + length bs) p"

lemma length_put_at [simp]: "i + length bs \<le> length p \<Longrightarrow> length (put_at p i bs) = length p"
  by (simp add: put_at_def)

lemma nth_put_at:
  "i + length bs \<le> length p \<Longrightarrow> k < length p \<Longrightarrow>
   put_at p i bs ! k = (if i \<le> k \<and> k < i + length bs then bs ! (k - i) else p ! k)"
  by (auto simp: put_at_def nth_append min_def)

lemma put_at_twice: "length a = length b \<Longrightarrow> i + length a \<le> length p \<Longrightarrow> put_at (put_at p i a) i b = put_at p i b"
  by (cases b) (auto simp: put_at_def min_def)

lemma put_at_middle: "length pre = i \<Longrightarrow> length bs = length old \<Longrightarrow> put_at (pre @ old @ post) i bs = pre @ bs @ post"
  by (simp add: put_at_def)

section \<open>Little-endian fields\<close>

definition get_le16 :: "block \<Rightarrow> nat \<Rightarrow> u16" where
  "get_le16 p i = ucast (p ! i) OR push_bit 8 (ucast (p ! (i + 1)))"

definition get_le32 :: "block \<Rightarrow> nat \<Rightarrow> u32" where
  "get_le32 p i =
     ucast (p ! i) OR push_bit 8 (ucast (p ! (i + 1))) OR push_bit 16 (ucast (p ! (i + 2))) OR push_bit 24 (ucast (p ! (i + 3)))"

definition le16 :: "u16 \<Rightarrow> u8 list" where
  "le16 v = [ucast v, ucast (drop_bit 8 v)]"

definition le32 :: "u32 \<Rightarrow> u8 list" where
  "le32 v = [ucast v, ucast (drop_bit 8 v), ucast (drop_bit 16 v), ucast (drop_bit 24 v)]"

lemma length_le [simp]: "length (le16 v) = 2" "length (le32 w) = 4"
  by (simp_all add: le16_def le32_def)

lemma join_le16: "ucast (ucast v :: u8) OR push_bit 8 (ucast (ucast (drop_bit 8 v) :: u8)) = (v :: u16)"
proof (rule bit_word_eqI)
  fix n
  assume "n < LENGTH(16)"
  then have "n < 8 \<or> 8 \<le> n \<and> n < 16" by simp linarith
  then show "bit (ucast (ucast v :: u8) OR push_bit 8 (ucast (ucast (drop_bit 8 v) :: u8)) :: u16) n = bit v n"
    by (elim disjE) (auto simp: bit_simps)
qed

lemma join_le32:
  "ucast (ucast v :: u8) OR push_bit 8 (ucast (ucast (drop_bit 8 v) :: u8)) OR push_bit 16 (ucast (ucast (drop_bit 16 v) :: u8))
     OR push_bit 24 (ucast (ucast (drop_bit 24 v) :: u8)) = (v :: u32)"
proof (rule bit_word_eqI)
  fix n
  assume "n < LENGTH(32)"
  then have "n < 8 \<or> 8 \<le> n \<and> n < 16 \<or> 16 \<le> n \<and> n < 24 \<or> 24 \<le> n \<and> n < 32" by simp linarith
  then show "bit (ucast (ucast v :: u8) OR push_bit 8 (ucast (ucast (drop_bit 8 v) :: u8)) OR push_bit 16 (ucast (ucast (drop_bit 16 v) :: u8))
     OR push_bit 24 (ucast (ucast (drop_bit 24 v) :: u8)) :: u32) n = bit v n"
    by (elim disjE) (auto simp: bit_simps)
qed

text \<open>A field that lies in the middle of a block.\<close>

lemma get_le16_middle: "length pre = i \<Longrightarrow> get_le16 (pre @ le16 v @ post) i = v"
  by (simp add: get_le16_def le16_def nth_append join_le16)

lemma get_le32_middle: "length pre = i \<Longrightarrow> get_le32 (pre @ le32 v @ post) i = v"
  by (simp add: get_le32_def le32_def nth_append join_le32)

text \<open>An array of 32-bit numbers.\<close>

definition get_le32s :: "nat \<Rightarrow> block \<Rightarrow> u32 list" where
  "get_le32s n p = map (\<lambda>i. get_le32 p (4 * i)) [0..<n]"

definition le32s :: "u32 list \<Rightarrow> block" where
  "le32s vs = concat (map le32 vs)"

lemma length_get_le32s [simp]: "length (get_le32s n p) = n"
  by (simp add: get_le32s_def)

lemma get_le32s_of_le32s: "get_le32s (length vs) (le32s vs @ post) = vs"
proof -
  have "get_le32 (pre @ le32s vs @ post) (length pre + 4 * i) = vs ! i" if "i < length vs" for pre i
    using that
  proof (induction vs arbitrary: pre i)
    case (Cons v vs)
    show ?case
    proof (cases i)
      case 0
      then show ?thesis using get_le32_middle [of pre "length pre" v "le32s vs @ post"] by (simp add: le32s_def)
    next
      case (Suc k)
      with Cons.IH [of k "pre @ le32 v"] Cons.prems show ?thesis by (simp add: le32s_def algebra_simps)
    qed
  qed simp
  from this [of _ "[]"] show ?thesis by (auto simp: get_le32s_def intro!: nth_equalityI)
qed

end
