(* ===== verification/Jbd.thy ===== *)
theory Jbd
  imports Bytes
begin

text \<open>
  The on-disk journal of ext3 and ext4, \<open>lib/ext2fs/kernel-jbd.h\<close> and \<open>lib/ext2fs/jfs_compat.h\<close>: block
  types, the superblock fields that recovery reads, the feature predicates, the size of a block tag
  and the comparison of transaction numbers, which wrap around at 32 bits.  A block is the list of
  its bytes; every multi-byte field is big-endian.  \<open>e2fsck/recovery.c\<close> reads fields with
  \<open>get_be32\<close> and \<open>get_be16\<close>.
\<close>

unbundle bit_operations_syntax

type_synonym tid = u32

section \<open>The transaction numbers\<close>

definition tid_gt :: "tid \<Rightarrow> tid \<Rightarrow> bool" where
  "tid_gt x y = (sint (x - y) > 0)"

definition tid_geq :: "tid \<Rightarrow> tid \<Rightarrow> bool" where
  "tid_geq x y = (sint (x - y) \<ge> 0)"

text \<open>
  The number of steps from a base transaction to \<open>x\<close>.  Within half of the number space after the
  base, the two comparisons are those of the distances.
\<close>

definition tid_dist :: "tid \<Rightarrow> tid \<Rightarrow> nat" where
  "tid_dist base x = unat (x - base)"

lemma sint_diff_small:
  fixes a b :: u32
  assumes "unat a < 2 ^ 31" "unat b < 2 ^ 31"
  shows "sint (a - b) = int (unat a) - int (unat b)"
proof -
  have "sint (a - b) = signed_take_bit 31 (uint a - uint b)"
  proof -
    have "sint (a - b) = signed_take_bit 31 (take_bit 32 (uint a - uint b))"
      by (simp add: sint_uint uint_word_ariths take_bit_eq_mod)
    then show ?thesis by (simp add: signed_take_bit_take_bit)
  qed
  also have "\<dots> = uint a - uint b"
  proof (rule signed_take_bit_int_eq_self)
    have "unat a < 2147483648" "unat b < 2147483648" using assms by simp_all
    moreover have "uint a = int (unat a)" "uint b = int (unat b)" by (simp_all only: uint_nat)
    moreover have "(2::int) ^ 31 = 2147483648" by simp
    ultimately show "- (2 ^ 31) \<le> uint a - uint b" "uint a - uint b < 2 ^ 31" by linarith+
  qed
  finally show ?thesis by simp
qed

lemma tid_cmp_dist:
  assumes "tid_dist base x < 2 ^ 31" "tid_dist base y < 2 ^ 31"
  shows "tid_gt x y \<longleftrightarrow> tid_dist base y < tid_dist base x"
    and "tid_geq x y \<longleftrightarrow> tid_dist base y \<le> tid_dist base x"
proof -
  have "sint (x - y) = int (tid_dist base x) - int (tid_dist base y)"
    using sint_diff_small [of "x - base" "y - base"] assms by (simp add: tid_dist_def)
  then show "tid_gt x y \<longleftrightarrow> tid_dist base y < tid_dist base x"
    and "tid_geq x y \<longleftrightarrow> tid_dist base y \<le> tid_dist base x"
    by (auto simp: tid_gt_def tid_geq_def)
qed

section \<open>Big-endian fields of a block\<close>

definition get_be32 :: "block \<Rightarrow> nat \<Rightarrow> u32" where
  "get_be32 p i =
     (let ret = ucast (p ! i); ret = push_bit 8 ret + ucast (p ! (i + 1));
          ret = push_bit 8 ret + ucast (p ! (i + 2))
      in push_bit 8 ret + ucast (p ! (i + 3)))"

definition get_be16 :: "block \<Rightarrow> nat \<Rightarrow> u16" where
  "get_be16 p i = (let ret = ucast (p ! i) in push_bit 8 ret + ucast (p ! (i + 1)))"

text \<open>\<open>ext2fs_be64_to_cpu\<close> of the eight bytes at \<open>i\<close>\<close>

definition get_be64 :: "block \<Rightarrow> nat \<Rightarrow> u64" where
  "get_be64 p i = push_bit 32 (ucast (get_be32 p i)) OR ucast (get_be32 p (i + 4))"

definition put_be16 :: "u16 \<Rightarrow> u8 list" where
  "put_be16 v = [ucast (drop_bit 8 v), ucast v]"

definition put_be32 :: "u32 \<Rightarrow> u8 list" where
  "put_be32 v = [ucast (drop_bit 24 v), ucast (drop_bit 16 v), ucast (drop_bit 8 v), ucast v]"

section \<open>Constants\<close>

definition JFS_MAGIC_NUMBER :: u32 where "JFS_MAGIC_NUMBER = 0xc03b3998"
definition JFS_DESCRIPTOR_BLOCK :: u32 where "JFS_DESCRIPTOR_BLOCK = 1"
definition JFS_COMMIT_BLOCK :: u32 where "JFS_COMMIT_BLOCK = 2"
definition JFS_REVOKE_BLOCK :: u32 where "JFS_REVOKE_BLOCK = 5"

definition JFS_FLAG_ESCAPE :: u16 where "JFS_FLAG_ESCAPE = 1"
definition JFS_FLAG_SAME_UUID :: u16 where "JFS_FLAG_SAME_UUID = 2"
definition JFS_FLAG_LAST_TAG :: u16 where "JFS_FLAG_LAST_TAG = 8"

definition JFS_FEATURE_COMPAT_CHECKSUM :: u32 where "JFS_FEATURE_COMPAT_CHECKSUM = 1"
definition JFS_FEATURE_INCOMPAT_REVOKE :: u32 where "JFS_FEATURE_INCOMPAT_REVOKE = 1"
definition JFS_FEATURE_INCOMPAT_64BIT :: u32 where "JFS_FEATURE_INCOMPAT_64BIT = 2"
definition JFS_FEATURE_INCOMPAT_ASYNC_COMMIT :: u32 where "JFS_FEATURE_INCOMPAT_ASYNC_COMMIT = 4"
definition JFS_FEATURE_INCOMPAT_CSUM_V2 :: u32 where "JFS_FEATURE_INCOMPAT_CSUM_V2 = 8"
definition JFS_FEATURE_INCOMPAT_CSUM_V3 :: u32 where "JFS_FEATURE_INCOMPAT_CSUM_V3 = 16"

lemmas jfs_consts = JFS_MAGIC_NUMBER_def JFS_DESCRIPTOR_BLOCK_def JFS_COMMIT_BLOCK_def JFS_REVOKE_BLOCK_def
  JFS_FLAG_ESCAPE_def JFS_FLAG_SAME_UUID_def JFS_FLAG_LAST_TAG_def JFS_FEATURE_COMPAT_CHECKSUM_def JFS_FEATURE_INCOMPAT_REVOKE_def
  JFS_FEATURE_INCOMPAT_64BIT_def JFS_FEATURE_INCOMPAT_ASYNC_COMMIT_def JFS_FEATURE_INCOMPAT_CSUM_V2_def
  JFS_FEATURE_INCOMPAT_CSUM_V3_def

lemma jfs_block_types_distinct [simp]:
  "JFS_DESCRIPTOR_BLOCK \<noteq> JFS_COMMIT_BLOCK" "JFS_DESCRIPTOR_BLOCK \<noteq> JFS_REVOKE_BLOCK"
  "JFS_COMMIT_BLOCK \<noteq> JFS_DESCRIPTOR_BLOCK" "JFS_COMMIT_BLOCK \<noteq> JFS_REVOKE_BLOCK"
  "JFS_REVOKE_BLOCK \<noteq> JFS_DESCRIPTOR_BLOCK" "JFS_REVOKE_BLOCK \<noteq> JFS_COMMIT_BLOCK"
  by (simp_all add: jfs_consts)

section \<open>The superblock and its features\<close>

text \<open>
  The superblock fields that recovery and the writer of \<open>debugfs\<close> use, after conversion from big-endian; \<open>j_format_version\<close>
  is set by the code that loads the superblock.
\<close>

record journal_superblock =
  s_sequence :: u32
  s_start :: u32
  s_feature_compat :: u32
  s_feature_incompat :: u32
  s_uuid :: "u8 list"

record journal_format =
  j_format_version :: int
  j_superblock :: journal_superblock

definition has_compat :: "'a journal_format_scheme \<Rightarrow> u32 \<Rightarrow> bool" where
  "has_compat j m = (j_format_version j \<ge> 2 \<and> s_feature_compat (j_superblock j) AND m \<noteq> 0)"

definition has_incompat :: "'a journal_format_scheme \<Rightarrow> u32 \<Rightarrow> bool" where
  "has_incompat j m = (j_format_version j \<ge> 2 \<and> s_feature_incompat (j_superblock j) AND m \<noteq> 0)"

definition jfs_has_feature_checksum :: "'a journal_format_scheme \<Rightarrow> bool" where
  "jfs_has_feature_checksum j = has_compat j JFS_FEATURE_COMPAT_CHECKSUM"
definition jfs_has_feature_64bit :: "'a journal_format_scheme \<Rightarrow> bool" where
  "jfs_has_feature_64bit j = has_incompat j JFS_FEATURE_INCOMPAT_64BIT"
definition jfs_has_feature_async_commit :: "'a journal_format_scheme \<Rightarrow> bool" where
  "jfs_has_feature_async_commit j = has_incompat j JFS_FEATURE_INCOMPAT_ASYNC_COMMIT"
definition jfs_has_feature_csum2 :: "'a journal_format_scheme \<Rightarrow> bool" where
  "jfs_has_feature_csum2 j = has_incompat j JFS_FEATURE_INCOMPAT_CSUM_V2"
definition jfs_has_feature_csum3 :: "'a journal_format_scheme \<Rightarrow> bool" where
  "jfs_has_feature_csum3 j = has_incompat j JFS_FEATURE_INCOMPAT_CSUM_V3"

text \<open>
  \<open>sizeof(journal_block_tag3_t)\<close> is 16 and \<open>sizeof(journal_block_tag_t)\<close> 12.  With \<open>csum2\<close> two
  more bytes are counted, which the structure already has.
\<close>

definition journal_tag_bytes :: "'a journal_format_scheme \<Rightarrow> nat" where
  "journal_tag_bytes j =
     (if jfs_has_feature_csum3 j then 16
      else let sz = 12; sz = (if jfs_has_feature_csum2 j then sz + 2 else sz)
           in if jfs_has_feature_64bit j then sz else sz - 4)"

definition journal_has_csum_v2or3 :: "'a journal_format_scheme \<Rightarrow> bool" where
  "journal_has_csum_v2or3 j = (jfs_has_feature_csum2 j \<or> jfs_has_feature_csum3 j)"

lemma journal_tag_bytes_bounds: "8 \<le> journal_tag_bytes j" "journal_tag_bytes j \<le> 16"
  by (auto simp: journal_tag_bytes_def Let_def)

lemma journal_tag_bytes_pos [simp]: "0 < journal_tag_bytes j"
  using journal_tag_bytes_bounds(1) [of j] by simp

lemma journal_tag_bytes_64bit: "jfs_has_feature_64bit j \<Longrightarrow> 12 \<le> journal_tag_bytes j"
  by (auto simp: journal_tag_bytes_def Let_def)

end
