(* ===== verification/Revoke.thy ===== *)
theory Revoke
  imports Jbd
begin

text \<open>
  The revoke table of journal recovery, \<open>e2fsck/revoke.c\<close>: a hash table whose buckets are linked
  lists of records, one record for a revoked block with the number of the last transaction that
  revoked it.  A bucket is the list of its records from \<open>list_head.next\<close> on; a pointer to a record
  is the number of its bucket and its position there.  \<open>journal_oom_retry\<close> is 1 in this program, so
  \<open>insert_revoke_hash\<close> repeats its allocation until it is granted and returns 0.
\<close>

section \<open>The table\<close>

record revoke_record =
  rec_sequence :: tid
  rec_blocknr :: u64

record revoke_table =
  hash_size :: nat
  hash_shift :: nat
  hash_table :: "revoke_record list list"

definition GOLDEN_RATIO_64 :: u64 where "GOLDEN_RATIO_64 = 0x61C8864680B583EB"

text \<open>The branch of \<open>hash_64\<close> for a \<open>long\<close> of eight bytes; the result is cut to 32 bits.\<close>

definition hash_64 :: "u64 \<Rightarrow> nat \<Rightarrow> u32" where
  "hash_64 val bits = ucast (drop_bit (64 - bits) (val * GOLDEN_RATIO_64))"

definition revoke_hash :: "revoke_table \<Rightarrow> u64 \<Rightarrow> nat" where
  "revoke_hash t b = unat (hash_64 b (hash_shift t))"

definition insert_revoke_hash :: "revoke_table \<Rightarrow> u64 \<Rightarrow> tid \<Rightarrow> revoke_table" where
  "insert_revoke_hash t b s =
     (let h = revoke_hash t b
      in t\<lparr>hash_table := (hash_table t)[h := \<lparr>rec_sequence = s, rec_blocknr = b\<rparr> # hash_table t ! h]\<rparr>)"

fun find_in_bucket :: "u64 \<Rightarrow> revoke_record list \<Rightarrow> nat option" where
  "find_in_bucket b [] = None"
| "find_in_bucket b (r # rs) = (if rec_blocknr r = b then Some 0 else map_option Suc (find_in_bucket b rs))"

definition find_revoke_record :: "revoke_table \<Rightarrow> u64 \<Rightarrow> (nat \<times> nat) option" where
  "find_revoke_record t b =
     (let h = revoke_hash t b in map_option (\<lambda>i. (h, i)) (find_in_bucket b (hash_table t ! h)))"

definition record_at :: "revoke_table \<Rightarrow> nat \<times> nat \<Rightarrow> revoke_record" where
  "record_at t p = hash_table t ! fst p ! snd p"

definition set_record_at :: "revoke_table \<Rightarrow> nat \<times> nat \<Rightarrow> revoke_record \<Rightarrow> revoke_table" where
  "set_record_at t p r = t\<lparr>hash_table := (hash_table t)[fst p := (hash_table t ! fst p)[snd p := r]]\<rparr>"

definition journal_set_revoke :: "revoke_table \<Rightarrow> u64 \<Rightarrow> tid \<Rightarrow> revoke_table" where
  "journal_set_revoke t b s =
     (case find_revoke_record t b of
        Some p \<Rightarrow> if tid_gt s (rec_sequence (record_at t p))
                  then set_record_at t p ((record_at t p)\<lparr>rec_sequence := s\<rparr>) else t
      | None \<Rightarrow> insert_revoke_hash t b s)"

definition journal_test_revoke :: "revoke_table \<Rightarrow> u64 \<Rightarrow> tid \<Rightarrow> bool" where
  "journal_test_revoke t b s =
     (case find_revoke_record t b of
        None \<Rightarrow> False
      | Some p \<Rightarrow> if tid_gt s (rec_sequence (record_at t p)) then False else True)"

text \<open>\<open>while (!list_empty(hash_list)) list_del(hash_list->next);\<close>\<close>

fun drain_bucket :: "revoke_record list \<Rightarrow> revoke_record list" where
  "drain_bucket [] = []"
| "drain_bucket (r # rs) = drain_bucket rs"

fun clear_from :: "nat \<Rightarrow> nat \<Rightarrow> revoke_record list list \<Rightarrow> revoke_record list list" where
  "clear_from i 0 tab = tab"
| "clear_from i (Suc n) tab = clear_from (Suc i) n (tab[i := drain_bucket (tab ! i)])"

definition journal_clear_revoke :: "revoke_table \<Rightarrow> revoke_table" where
  "journal_clear_revoke t = t\<lparr>hash_table := clear_from 0 (hash_size t) (hash_table t)\<rparr>"

section \<open>Creating and destroying the tables\<close>

text \<open>\<open>while((tmp >>= 1UL) != 0UL) shift++;\<close>\<close>

fun shift_of :: "nat \<Rightarrow> nat \<Rightarrow> nat" where
  "shift_of tmp shift = (if tmp div 2 \<noteq> 0 then shift_of (tmp div 2) (shift + 1) else shift)"

declare shift_of.simps [simp del]

text \<open>
  The two arguments of type \<open>bool\<close> say whether the allocations of the table and of its array of
  list heads are granted.
\<close>

definition journal_init_revoke_table :: "bool \<Rightarrow> bool \<Rightarrow> nat \<Rightarrow> revoke_table option" where
  "journal_init_revoke_table m1 m2 n =
     (if \<not> m1 then None
      else if \<not> m2 then None
      else Some \<lparr>hash_size = n, hash_shift = shift_of n 0, hash_table = replicate n []\<rparr>)"

text \<open>Destroying a table asserts that every bucket is empty: \<open>False\<close> is the failed assertion.\<close>

definition journal_destroy_revoke_table :: "revoke_table \<Rightarrow> bool" where
  "journal_destroy_revoke_table t = list_all (\<lambda>i. hash_table t ! i = []) [0..<hash_size t]"

text \<open>
  The journal's pointers to its two tables.  A pointer to a table that was freed stays what it is
  in the C code; using it is an error.  \<open>j_revoke\<close> is \<open>NULL\<close> or points to the second table.
\<close>

datatype table_ptr = Null | Freed | Table revoke_table

record revoke_ptrs =
  j_revoke_table_0 :: table_ptr
  j_revoke_table_1 :: table_ptr
  j_revoke_set :: bool

definition is_power_of_2 :: "nat \<Rightarrow> bool" where
  "is_power_of_2 x = (x \<noteq> 0 \<and> x AND (x - 1) = 0)"

text \<open>
  \<open>None\<close> is a failed assertion, \<open>Some (False, _)\<close> the return of \<open>-ENOMEM\<close>.  The four allocations
  are granted as \<open>m\<close> says.
\<close>

definition journal_init_revoke :: "(nat \<Rightarrow> bool) \<Rightarrow> revoke_ptrs \<Rightarrow> nat \<Rightarrow> (bool \<times> revoke_ptrs) option" where
  "journal_init_revoke m p n =
     (if j_revoke_table_0 p \<noteq> Null \<or> \<not> is_power_of_2 n then None
      else (case journal_init_revoke_table (m 0) (m 1) n of
              None \<Rightarrow> Some (False, p)
            | Some t0 \<Rightarrow>
                (case journal_init_revoke_table (m 2) (m 3) n of
                   None \<Rightarrow> (if journal_destroy_revoke_table t0
                            then Some (False, p\<lparr>j_revoke_table_0 := Freed, j_revoke_table_1 := Null\<rparr>) else None)
                 | Some t1 \<Rightarrow> Some (True, \<lparr>j_revoke_table_0 = Table t0, j_revoke_table_1 = Table t1, j_revoke_set = True\<rparr>))))"

definition destroy_ptr :: "table_ptr \<Rightarrow> table_ptr option" where
  "destroy_ptr q = (case q of Null \<Rightarrow> Some Null | Freed \<Rightarrow> None
                    | Table t \<Rightarrow> if journal_destroy_revoke_table t then Some Freed else None)"

text \<open>\<open>None\<close> is a failed assertion or a table that is freed twice.\<close>

definition journal_destroy_revoke :: "revoke_ptrs \<Rightarrow> revoke_ptrs option" where
  "journal_destroy_revoke p =
     (let p = p\<lparr>j_revoke_set := False\<rparr>
      in case destroy_ptr (j_revoke_table_0 p) of
           None \<Rightarrow> None
         | Some q0 \<Rightarrow>
             (case destroy_ptr (j_revoke_table_1 p) of
                None \<Rightarrow> None
              | Some q1 \<Rightarrow> Some (p\<lparr>j_revoke_table_0 := q0, j_revoke_table_1 := q1\<rparr>)))"

section \<open>The contract: a map from blocks to the last revoking transaction\<close>

text \<open>Recording one more revocation in the map.\<close>

definition note_revoke :: "(u64 \<rightharpoonup> tid) \<Rightarrow> u64 \<Rightarrow> tid \<Rightarrow> (u64 \<rightharpoonup> tid)" where
  "note_revoke m b s = m(b \<mapsto> (case m b of None \<Rightarrow> s | Some s' \<Rightarrow> if tid_gt s s' then s else s'))"

locale revoke_store =
  fixes ok :: "'t \<Rightarrow> bool" and revoked :: "'t \<Rightarrow> u64 \<rightharpoonup> tid"
    and set_revoke :: "'t \<Rightarrow> u64 \<Rightarrow> tid \<Rightarrow> 't" and test_revoke :: "'t \<Rightarrow> u64 \<Rightarrow> tid \<Rightarrow> bool"
    and clear_revoke :: "'t \<Rightarrow> 't"
  assumes set_ok: "ok t \<Longrightarrow> ok (set_revoke t b s)"
    and set_revoked: "ok t \<Longrightarrow> revoked (set_revoke t b s) = note_revoke (revoked t) b s"
    and test_revoked: "ok t \<Longrightarrow> test_revoke t b s \<longleftrightarrow> (\<exists>s'. revoked t b = Some s' \<and> \<not> tid_gt s s')"
    and clear_ok: "ok t \<Longrightarrow> ok (clear_revoke t)"
    and clear_revoked: "ok t \<Longrightarrow> revoked (clear_revoke t) = Map.empty"
begin

definition set_all :: "'t \<Rightarrow> (u64 \<times> tid) list \<Rightarrow> 't" where
  "set_all t xs = fold (\<lambda>x t. set_revoke t (fst x) (snd x)) xs t"

lemma set_all_ok: "ok t \<Longrightarrow> ok (set_all t xs)"
  by (induction xs arbitrary: t) (simp_all add: set_all_def set_ok)

lemma set_all_revoked:
  "ok t \<Longrightarrow> revoked (set_all t xs) = fold (\<lambda>x m. note_revoke m (fst x) (snd x)) xs (revoked t)"
  by (induction xs arbitrary: t) (simp_all add: set_all_def set_ok set_revoked)

end

text \<open>
  Of a series of revocations whose transactions lie within half of the number space, the map keeps
  the latest one of every block.
\<close>

definition latest_in :: "tid \<Rightarrow> (u64 \<times> tid) list \<Rightarrow> (u64 \<rightharpoonup> tid) \<Rightarrow> bool" where
  "latest_in base xs m =
     (\<forall>b. case m b of None \<Rightarrow> b \<notin> fst ` set xs
          | Some s \<Rightarrow> (b, s) \<in> set xs \<and> (\<forall>s'. (b, s') \<in> set xs \<longrightarrow> tid_dist base s' \<le> tid_dist base s))"

lemma latest_in_None: "latest_in base xs m \<Longrightarrow> m b = None \<Longrightarrow> b \<notin> fst ` set xs"
  unfolding latest_in_def by (drule spec [of _ b]) simp

lemma latest_in_Some:
  "latest_in base xs m \<Longrightarrow> m b = Some u \<Longrightarrow>
   (b, u) \<in> set xs \<and> (\<forall>s'. (b, s') \<in> set xs \<longrightarrow> tid_dist base s' \<le> tid_dist base u)"
  unfolding latest_in_def by (drule spec [of _ b]) simp

lemma latest_in_note:
  assumes "latest_in base xs m" "\<forall>x\<in>set xs. tid_dist base (snd x) < 2 ^ 31" "tid_dist base s < 2 ^ 31"
  shows "latest_in base (xs @ [(b, s)]) (note_revoke m b s)"
  unfolding latest_in_def
proof
  fix c
  show "case note_revoke m b s c of None \<Rightarrow> c \<notin> fst ` set (xs @ [(b, s)])
        | Some u \<Rightarrow> (c, u) \<in> set (xs @ [(b, s)]) \<and>
            (\<forall>s'. (c, s') \<in> set (xs @ [(b, s)]) \<longrightarrow> tid_dist base s' \<le> tid_dist base u)"
  proof (cases "c = b")
    case True
    show ?thesis
    proof (cases "m b")
      case None
      with assms(1) have "b \<notin> fst ` set xs" by (rule latest_in_None)
      with None True show ?thesis by (force simp: note_revoke_def)
    next
      case (Some u)
      with assms(1) have u: "(b, u) \<in> set xs" "\<And>s'. (b, s') \<in> set xs \<Longrightarrow> tid_dist base s' \<le> tid_dist base u"
        using latest_in_Some by fast+
      with assms(2,3) have "tid_gt s u \<longleftrightarrow> tid_dist base u < tid_dist base s"
        by (intro tid_cmp_dist(1)) auto
      with True Some u show ?thesis by (force simp: note_revoke_def)
    qed
  next
    case False
    with assms(1) show ?thesis by (auto simp: latest_in_def note_revoke_def dest: spec [of _ c] split: option.splits)
  qed
qed

lemma latest_in_fold:
  assumes "\<forall>x\<in>set xs. tid_dist base (snd x) < 2 ^ 31"
  shows "latest_in base xs (fold (\<lambda>x m. note_revoke m (fst x) (snd x)) xs Map.empty)"
  using assms
proof (induction xs rule: rev_induct)
  case Nil
  show ?case by (simp add: latest_in_def)
next
  case (snoc x xs)
  then show ?case using latest_in_note [of base xs _ "snd x" "fst x"] by simp
qed

context revoke_store
begin

text \<open>A block of transaction \<open>s\<close> is revoked just when \<open>s\<close> or a later transaction revoked it.\<close>

lemma test_series:
  assumes "ok t" "revoked t = Map.empty" "\<forall>x\<in>set xs. tid_dist base (snd x) < 2 ^ 31"
    "tid_dist base s < 2 ^ 31"
  shows "test_revoke (set_all t xs) b s \<longleftrightarrow> (\<exists>s'. (b, s') \<in> set xs \<and> tid_dist base s \<le> tid_dist base s')"
proof -
  define m where "m = revoked (set_all t xs)"
  have m: "latest_in base xs m"
    using latest_in_fold [OF assms(3)] assms(1,2) by (simp add: m_def set_all_revoked)
  have t: "test_revoke (set_all t xs) b s \<longleftrightarrow> (\<exists>u. m b = Some u \<and> \<not> tid_gt s u)"
    using test_revoked [OF set_all_ok [OF assms(1)]] by (simp add: m_def)
  show ?thesis
  proof (cases "m b")
    case None
    with m have "b \<notin> fst ` set xs" by (rule latest_in_None)
    with t None show ?thesis by force
  next
    case (Some u)
    with m have u: "(b, u) \<in> set xs" "\<And>s'. (b, s') \<in> set xs \<Longrightarrow> tid_dist base s' \<le> tid_dist base u"
      using latest_in_Some by fast+
    with assms(3,4) have "tid_gt s u \<longleftrightarrow> tid_dist base u < tid_dist base s"
      by (intro tid_cmp_dist(1)) auto
    with t Some have "test_revoke (set_all t xs) b s \<longleftrightarrow> tid_dist base s \<le> tid_dist base u"
      by (simp add: not_less)
    with u show ?thesis by (meson le_trans)
  qed
qed

lemma clear_then_test: "ok t \<Longrightarrow> \<not> test_revoke (clear_revoke t) b s"
  by (simp add: test_revoked clear_ok clear_revoked)

end

section \<open>The hash table keeps the contract\<close>

definition bucket_ok :: "revoke_table \<Rightarrow> nat \<Rightarrow> bool" where
  "bucket_ok t i = (distinct (map rec_blocknr (hash_table t ! i)) \<and>
                    (\<forall>r\<in>set (hash_table t ! i). revoke_hash t (rec_blocknr r) = i))"

definition table_ok :: "revoke_table \<Rightarrow> bool" where
  "table_ok t = (1 \<le> hash_shift t \<and> hash_shift t \<le> 31 \<and> hash_size t = 2 ^ hash_shift t \<and>
                 length (hash_table t) = hash_size t \<and> (\<forall>i<hash_size t. bucket_ok t i))"

definition revoke_map :: "revoke_table \<Rightarrow> u64 \<rightharpoonup> tid" where
  "revoke_map t b = map_option rec_sequence (find (\<lambda>r. rec_blocknr r = b) (hash_table t ! revoke_hash t b))"

lemma hash_64_bound:
  assumes "1 \<le> bits" "bits \<le> 31"
  shows "unat (hash_64 val bits) < 2 ^ bits"
proof -
  let ?w = "val * GOLDEN_RATIO_64"
  have "unat (drop_bit (64 - bits) ?w) = unat ?w div 2 ^ (64 - bits)"
    by (simp only: unat_drop_bit_eq) (simp only: drop_bit_eq_div)
  also have "\<dots> < 2 ^ bits"
  proof (rule less_mult_imp_div_less)
    have "(2::nat) ^ 64 = 2 ^ bits * 2 ^ (64 - bits)"
      using assms by (simp flip: power_add)
    then show "unat ?w < 2 ^ bits * 2 ^ (64 - bits)"
      using unsigned_less [of ?w, where ?'a = nat] by simp
  qed
  finally have b: "unat (drop_bit (64 - bits) ?w) < 2 ^ bits" .
  have "(2::nat) ^ bits \<le> 2 ^ 31" using assms(2) by (intro power_increasing) auto
  with b have "unat (drop_bit (64 - bits) ?w) < 2 ^ 32" by simp
  then have "unat (hash_64 val bits) = unat (drop_bit (64 - bits) ?w)"
    by (simp add: hash_64_def unsigned_ucast_eq take_bit_nat_eq_self)
  with b show ?thesis by simp
qed

lemma revoke_hash_bound: "table_ok t \<Longrightarrow> revoke_hash t b < hash_size t"
  by (simp add: table_ok_def revoke_hash_def hash_64_bound)

lemma find_in_bucket_None: "find_in_bucket b l = None \<longleftrightarrow> b \<notin> rec_blocknr ` set l"
  by (induction l) auto

lemma find_in_bucket_Some:
  "find_in_bucket b l = Some i \<Longrightarrow> i < length l \<and> rec_blocknr (l ! i) = b \<and> find (\<lambda>r. rec_blocknr r = b) l = Some (l ! i)"
  by (induction l arbitrary: i) (auto split: if_splits)

lemma find_None_bucket: "find (\<lambda>r. rec_blocknr r = b) l = None \<longleftrightarrow> b \<notin> rec_blocknr ` set l"
  by (induction l) auto

lemma find_update_seq:
  assumes "i < length l" "find_in_bucket b l = Some i"
  shows "find (\<lambda>r. rec_blocknr r = c) (l[i := (l ! i)\<lparr>rec_sequence := s\<rparr>])
       = (if c = b then Some ((l ! i)\<lparr>rec_sequence := s\<rparr>) else find (\<lambda>r. rec_blocknr r = c) l)"
  using assms by (induction l arbitrary: i) (auto split: if_splits)

lemma map_blocknr_update: "map rec_blocknr (l[i := (l ! i)\<lparr>rec_sequence := s\<rparr>]) = map rec_blocknr l"
  by (cases "i < length l") (simp_all add: map_update list_update_same_conv list_update_beyond)

lemma hash_update [simp]: "revoke_hash (t\<lparr>hash_table := x\<rparr>) b = revoke_hash t b"
  by (simp add: revoke_hash_def)

text \<open>Replacing one bucket keeps the table well-formed when the new bucket is.\<close>

lemma table_ok_bucket:
  assumes "table_ok t" "h < hash_size t" "distinct (map rec_blocknr l)" "\<forall>r\<in>set l. revoke_hash t (rec_blocknr r) = h"
  shows "table_ok (t\<lparr>hash_table := (hash_table t)[h := l]\<rparr>)"
  using assms by (auto simp: table_ok_def bucket_ok_def nth_list_update)

lemma revoke_map_bucket:
  assumes "h < length (hash_table t)"
  shows "revoke_map (t\<lparr>hash_table := (hash_table t)[h := l]\<rparr>) b
       = (if revoke_hash t b = h then map_option rec_sequence (find (\<lambda>r. rec_blocknr r = b) l) else revoke_map t b)"
  using assms by (simp add: revoke_map_def nth_list_update)

lemma insert_revoke_hash_ok:
  assumes "table_ok t" "revoke_map t b = None"
  shows "table_ok (insert_revoke_hash t b s)" "revoke_map (insert_revoke_hash t b s) = (revoke_map t)(b \<mapsto> s)"
proof -
  let ?h = "revoke_hash t b"
  let ?l = "\<lparr>rec_sequence = s, rec_blocknr = b\<rparr> # hash_table t ! ?h"
  have h: "?h < hash_size t" "?h < length (hash_table t)" "bucket_ok t ?h"
    using assms(1) revoke_hash_bound [OF assms(1), of b] by (auto simp: table_ok_def)
  have b: "b \<notin> rec_blocknr ` set (hash_table t ! ?h)"
    using assms(2) by (simp add: revoke_map_def find_None_bucket)
  show "table_ok (insert_revoke_hash t b s)"
    unfolding insert_revoke_hash_def Let_def
    using assms(1) h b by (intro table_ok_bucket) (auto simp: bucket_ok_def)
  show "revoke_map (insert_revoke_hash t b s) = (revoke_map t)(b \<mapsto> s)"
    unfolding insert_revoke_hash_def Let_def
    using h by (auto simp: fun_eq_iff revoke_map_bucket) (simp_all add: revoke_map_def)
qed

lemma find_revoke_record_map:
  assumes "find_revoke_record t b = Some p"
  shows "revoke_map t b = Some (rec_sequence (record_at t p))"
  using assms find_in_bucket_Some
  by (fastforce simp: find_revoke_record_def revoke_map_def record_at_def Let_def)

lemma find_revoke_record_None: "find_revoke_record t b = None \<longleftrightarrow> revoke_map t b = None"
  by (simp add: find_revoke_record_def revoke_map_def Let_def find_in_bucket_None find_None_bucket)

lemma set_record_at_ok:
  assumes "table_ok t" "find_revoke_record t b = Some p"
  shows "table_ok (set_record_at t p ((record_at t p)\<lparr>rec_sequence := s\<rparr>))"
    "revoke_map (set_record_at t p ((record_at t p)\<lparr>rec_sequence := s\<rparr>)) = (revoke_map t)(b \<mapsto> s)"
proof -
  obtain h i where p: "p = (h, i)" "h = revoke_hash t b" "find_in_bucket b (hash_table t ! h) = Some i"
    using assms(2) by (auto simp: find_revoke_record_def Let_def)
  let ?l = "hash_table t ! h"
  let ?l' = "?l[i := (?l ! i)\<lparr>rec_sequence := s\<rparr>]"
  have h: "h < hash_size t" "h < length (hash_table t)" "bucket_ok t h"
    using assms(1) revoke_hash_bound [OF assms(1), of b] p(2) by (auto simp: table_ok_def)
  have i: "i < length ?l" "rec_blocknr (?l ! i) = b" using find_in_bucket_Some [OF p(3)] by auto
  have e: "set_record_at t p ((record_at t p)\<lparr>rec_sequence := s\<rparr>) = t\<lparr>hash_table := (hash_table t)[h := ?l']\<rparr>"
    by (simp add: set_record_at_def record_at_def p(1))
  have "set (map rec_blocknr ?l') = set (map rec_blocknr ?l)" by (simp only: map_blocknr_update)
  then have r: "\<forall>r\<in>set ?l'. revoke_hash t (rec_blocknr r) = h"
    using h(3) unfolding bucket_ok_def by (metis (no_types, lifting) image_eqI image_iff list.set_map)
  show "table_ok (set_record_at t p ((record_at t p)\<lparr>rec_sequence := s\<rparr>))"
    unfolding e using assms(1) h r by (intro table_ok_bucket) (simp_all only: map_blocknr_update bucket_ok_def)
  show "revoke_map (set_record_at t p ((record_at t p)\<lparr>rec_sequence := s\<rparr>)) = (revoke_map t)(b \<mapsto> s)"
    unfolding e fun_eq_iff revoke_map_bucket [OF h(2)] find_update_seq [OF i(1) p(3)]
    by (auto simp: p(2) revoke_map_def)
qed

lemma journal_set_revoke_ok:
  assumes "table_ok t"
  shows "table_ok (journal_set_revoke t b s)"
    "revoke_map (journal_set_revoke t b s) = note_revoke (revoke_map t) b s"
  using assms insert_revoke_hash_ok [OF assms] set_record_at_ok [OF assms]
  by (auto simp: journal_set_revoke_def note_revoke_def find_revoke_record_None dest: find_revoke_record_map
      split: option.splits)

lemma drain_bucket_Nil [simp]: "drain_bucket rs = []"
  by (induction rs) auto

lemma clear_from_nth:
  "i + n \<le> length tab \<Longrightarrow> length (clear_from i n tab) = length tab \<and>
   (\<forall>k<length tab. clear_from i n tab ! k = (if i \<le> k \<and> k < i + n then [] else tab ! k))"
  by (induction i n tab rule: clear_from.induct) (auto simp: nth_list_update)

lemma journal_clear_revoke_ok:
  assumes "table_ok t"
  shows "table_ok (journal_clear_revoke t)" "revoke_map (journal_clear_revoke t) = Map.empty"
    "i < hash_size t \<Longrightarrow> hash_table (journal_clear_revoke t) ! i = []"
proof -
  have c: "length (hash_table (journal_clear_revoke t)) = hash_size t"
    "\<And>i. i < hash_size t \<Longrightarrow> hash_table (journal_clear_revoke t) ! i = []"
    using assms clear_from_nth [of 0 "hash_size t" "hash_table t"]
    by (auto simp: table_ok_def journal_clear_revoke_def)
  then show "i < hash_size t \<Longrightarrow> hash_table (journal_clear_revoke t) ! i = []" by simp
  show "table_ok (journal_clear_revoke t)"
    using assms c by (auto simp: table_ok_def bucket_ok_def journal_clear_revoke_def)
  show "revoke_map (journal_clear_revoke t) = Map.empty"
    using c(2) [OF revoke_hash_bound [OF assms]]
    by (auto simp: fun_eq_iff revoke_map_def journal_clear_revoke_def)
qed

interpretation rv: revoke_store table_ok revoke_map journal_set_revoke journal_test_revoke journal_clear_revoke
proof
  fix t b s assume t: "table_ok t"
  show "table_ok (journal_set_revoke t b s)"
    "revoke_map (journal_set_revoke t b s) = note_revoke (revoke_map t) b s"
    using journal_set_revoke_ok [OF t] by auto
  show "journal_test_revoke t b s \<longleftrightarrow> (\<exists>s'. revoke_map t b = Some s' \<and> \<not> tid_gt s s')"
    using find_revoke_record_None [of t b] find_revoke_record_map [of t b]
    by (auto simp: journal_test_revoke_def split: option.splits)
  show "table_ok (journal_clear_revoke t)" "revoke_map (journal_clear_revoke t) = Map.empty"
    using journal_clear_revoke_ok [OF t] by auto
qed

section \<open>Creation and destruction\<close>

lemma shift_of_power: "shift_of (2 ^ k) a = a + k"
proof (induction k arbitrary: a)
  case 0
  show ?case by (subst shift_of.simps) simp
next
  case (Suc k)
  show ?case by (subst shift_of.simps) (simp add: Suc)
qed

lemma is_power_of_2_iff: "is_power_of_2 n \<longleftrightarrow> (\<exists>k. n = 2 ^ k)"
proof
  show "is_power_of_2 n \<Longrightarrow> \<exists>k. n = 2 ^ k"
  proof (induction n rule: less_induct)
    case (less n)
    then have n: "n \<noteq> 0" "n AND (n - 1) = 0" by (auto simp: is_power_of_2_def)
    show ?case
    proof (cases "even n")
      case True
      then obtain m where m: "n = 2 * m" by (elim evenE)
      with n(1) have "n - 1 = 2 * (m - 1) + 1" by simp
      then have d: "(n - 1) div 2 = m - 1" by simp
      from n(2) have "m AND (m - 1) = 0"
        by (subst (asm) and_rec) (use m d in simp)
      with n(1) m have "is_power_of_2 m" "m < n" by (auto simp: is_power_of_2_def)
      with less.IH obtain k where "m = 2 ^ k" by blast
      with m have "n = 2 ^ Suc k" by simp
      then show ?thesis by blast
    next
      case False
      then obtain m where m: "n = 2 * m + 1" by (elim oddE)
      then have "n AND (n - 1) = 2 * m" by (subst and_rec) simp
      with n(2) m have "n = 2 ^ 0" by simp
      then show ?thesis by blast
    qed
  qed
next
  assume "\<exists>k. n = 2 ^ k"
  then obtain k where n: "n = 2 ^ k" by blast
  have "(2 ^ k :: nat) AND (2 ^ k - 1) = 0"
    by (simp only: take_bit_eq_mask [symmetric] mask_eq_exp_minus_1 [symmetric]) simp
  with n show "is_power_of_2 n" by (simp add: is_power_of_2_def)
qed

lemma journal_init_revoke_table_ok:
  assumes "journal_init_revoke_table m1 m2 n = Some t" "is_power_of_2 n" "2 \<le> n" "n < 2 ^ 32"
  shows "table_ok t" "revoke_map t = Map.empty" "journal_destroy_revoke_table t"
proof -
  obtain k where k: "n = 2 ^ k" using assms(2) by (auto simp: is_power_of_2_iff)
  with assms(3) have "k \<noteq> 0" by (cases k) auto
  moreover have "k < 32" using assms(4) k by (meson power_less_imp_less_exp one_less_numeral_iff semiring_norm(76))
  ultimately have k': "1 \<le> k" "k \<le> 31" by auto
  have t: "t = \<lparr>hash_size = n, hash_shift = k, hash_table = replicate n []\<rparr>"
    using assms(1) by (auto simp: journal_init_revoke_table_def k shift_of_power split: if_splits)
  show ok: "table_ok t" using k k' by (simp add: t table_ok_def bucket_ok_def)
  show "revoke_map t = Map.empty"
    using revoke_hash_bound [OF ok] by (simp add: revoke_map_def fun_eq_iff t)
  show "journal_destroy_revoke_table t" by (simp add: journal_destroy_revoke_table_def t list_all_iff)
qed

lemma destroy_cleared: "table_ok t \<Longrightarrow> journal_destroy_revoke_table (journal_clear_revoke t)"
  using journal_clear_revoke_ok(3) by (simp add: journal_destroy_revoke_table_def list_all_iff journal_clear_revoke_def)

section \<open>Properties\<close>

text \<open>
  C10. The hash table implements a map from revoked blocks to the last revoking transaction: on a
  well-formed table, setting a revocation updates the map (keeping the later of two transactions in
  wrap-around order), testing reads it, clearing empties it, and each keeps the table well-formed.
\<close>

theorem revoke_table_refines_map:
  assumes "table_ok t"
  shows "table_ok (journal_set_revoke t b s)
    \<and> revoke_map (journal_set_revoke t b s) = (revoke_map t)(b \<mapsto> (case revoke_map t b of None \<Rightarrow> s
        | Some s' \<Rightarrow> if tid_gt s s' then s else s'))
    \<and> (journal_test_revoke t b s \<longleftrightarrow> (\<exists>s'. revoke_map t b = Some s' \<and> \<not> tid_gt s s'))
    \<and> table_ok (journal_clear_revoke t) \<and> revoke_map (journal_clear_revoke t) = Map.empty"
  using rv.set_ok [OF assms] rv.set_revoked [OF assms] rv.test_revoked [OF assms] rv.clear_ok [OF assms]
    rv.clear_revoked [OF assms]
  by (simp add: note_revoke_def)

theorem revoke_table_refines_map_witness:
  "table_ok \<lparr>hash_size = 2, hash_shift = 1, hash_table = [[], []]\<rparr> \<and>
   revoke_map (journal_set_revoke \<lparr>hash_size = 2, hash_shift = 1, hash_table = [[], []]\<rparr> 7 3) 7 = Some 3"
proof -
  let ?t = "\<lparr>hash_size = 2, hash_shift = 1, hash_table = [[], []]\<rparr>"
  have t: "table_ok ?t" by (simp add: table_ok_def bucket_ok_def less_2_cases_iff)
  then have "revoke_map ?t 7 = None"
    using revoke_hash_bound [OF t, of 7] by (auto simp: revoke_map_def less_2_cases_iff)
  with t revoke_table_refines_map [of ?t 7 3] show ?thesis by simp
qed

text \<open>
  C11. Revocation is decided by the order of transactions: after any series of revocations recorded in
  a newly created or cleared table, a block logged by transaction \<open>s\<close> counts as revoked exactly when
  some revocation of that block came from \<open>s\<close> or from a later transaction, whatever the order in
  which they were recorded and across the wrap-around of the transaction number.
\<close>

theorem revoke_series_correct:
  assumes "table_ok t" "\<forall>x\<in>set xs. tid_dist base (snd x) < 2 ^ 31" "tid_dist base s < 2 ^ 31"
  shows "journal_test_revoke
           (fold (\<lambda>x t. journal_set_revoke t (fst x) (snd x)) xs (journal_clear_revoke t)) b s
         \<longleftrightarrow> (\<exists>s'. (b, s') \<in> set xs \<and> tid_dist base s \<le> tid_dist base s')"
  using rv.test_series [OF rv.clear_ok [OF assms(1)] rv.clear_revoked [OF assms(1)] assms(2,3), of b]
  by (simp add: rv.set_all_def)

theorem revoke_series_correct_witness:
  "journal_test_revoke (fold (\<lambda>x t. journal_set_revoke t (fst x) (snd x)) [(5, 0xFFFFFFFF), (9, 0)]
     (journal_clear_revoke \<lparr>hash_size = 2, hash_shift = 1, hash_table = [[], []]\<rparr>)) 9 0xFFFFFFFF"
  using revoke_series_correct [of "\<lparr>hash_size = 2, hash_shift = 1, hash_table = [[], []]\<rparr>"
      "[(5, 0xFFFFFFFF), (9, 0)]" "0xFFFFFFFF" "0xFFFFFFFF" 9]
  by (simp add: table_ok_def bucket_ok_def less_2_cases_iff tid_dist_def)

text \<open>
  The life of the revoke tables: when every allocation is granted, creating tables of a size that
  is a power of two gives an empty table, and after any use of it by recovery, clearing and then
  destroying the tables passes every assertion and frees both tables once.
\<close>

theorem revoke_lifecycle_correct:
  assumes "is_power_of_2 n" "2 \<le> n" "n < 2 ^ 32"
  shows "\<exists>t0 t1. journal_init_revoke (\<lambda>_. True) \<lparr>j_revoke_table_0 = Null, j_revoke_table_1 = Null, j_revoke_set = False\<rparr> n
           = Some (True, \<lparr>j_revoke_table_0 = Table t0, j_revoke_table_1 = Table t1, j_revoke_set = True\<rparr>)
       \<and> table_ok t1 \<and> revoke_map t1 = Map.empty
       \<and> (\<forall>xs. journal_destroy_revoke \<lparr>j_revoke_table_0 = Table t0, j_revoke_table_1 =
              Table (journal_clear_revoke (fold (\<lambda>x t. journal_set_revoke t (fst x) (snd x)) xs t1)), j_revoke_set = True\<rparr>
            = Some \<lparr>j_revoke_table_0 = Freed, j_revoke_table_1 = Freed, j_revoke_set = False\<rparr>)"
proof -
  obtain t where t: "journal_init_revoke_table True True n = Some t" by (simp add: journal_init_revoke_table_def)
  note ok = journal_init_revoke_table_ok [OF t assms]
  have "table_ok (fold (\<lambda>x t. journal_set_revoke t (fst x) (snd x)) xs t)" for xs
    using rv.set_all_ok [OF ok(1), of xs] by (simp add: rv.set_all_def)
  then show ?thesis
    using assms(1) t ok
    by (intro exI [of _ t]) (simp add: journal_init_revoke_def journal_destroy_revoke_def destroy_ptr_def destroy_cleared)
qed

theorem revoke_lifecycle_correct_witness:
  "\<exists>t0 t1. journal_init_revoke (\<lambda>_. True) \<lparr>j_revoke_table_0 = Null, j_revoke_table_1 = Null, j_revoke_set = False\<rparr> 1024
           = Some (True, \<lparr>j_revoke_table_0 = Table t0, j_revoke_table_1 = Table t1, j_revoke_set = True\<rparr>)"
proof -
  have "is_power_of_2 1024" unfolding is_power_of_2_iff by (rule exI [of _ 10]) simp
  from revoke_lifecycle_correct [OF this] show ?thesis by auto
qed

text \<open>
  When the second table cannot be allocated, the pointer to the first one, already freed, stays in
  the journal: destroying the tables, which the caller does on every error, frees it again.
\<close>

theorem init_failure_frees_twice:
  assumes "is_power_of_2 n" "2 \<le> n" "n < 2 ^ 32"
  shows "\<exists>p. journal_init_revoke (\<lambda>k. k < 2) \<lparr>j_revoke_table_0 = Null, j_revoke_table_1 = Null, j_revoke_set = False\<rparr> n
           = Some (False, p) \<and> journal_destroy_revoke p = None"
proof -
  obtain t where t: "journal_init_revoke_table True True n = Some t" by (simp add: journal_init_revoke_table_def)
  moreover have "journal_init_revoke_table False False n = None" by (simp add: journal_init_revoke_table_def)
  ultimately show ?thesis
    using assms(1) journal_init_revoke_table_ok(3) [OF t assms]
    by (simp add: journal_init_revoke_def journal_destroy_revoke_def destroy_ptr_def)
qed

end
