(* ===== verification/Recovery.thy ===== *)
theory Recovery
  imports Revoke
begin

text \<open>
  Journal recovery, \<open>e2fsck/recovery.c\<close>, on the buffer layer of \<open>e2fsck/journal.c\<close>: three passes
  over the circular log (find its end, collect the revocations, replay the blocks).

  The two devices a buffer can belong to are the file system and an external journal; a disk maps a
  device and a block number to the contents of the block.  What the operating system decides is a
  parameter of type \<open>env\<close>: which reads, writes and flushes fail.  The two CRC functions are fields
  of the same record: their tables are made by the build, and nothing that is proved here depends on
  what they compute.  The inode of an internal journal is the map from its logical to its physical
  blocks, which fails for an unmapped block.

  The functions of the source that return an \<open>int\<close> return \<open>None\<close> for 0.  A memory allocation of the
  buffer layer that fails ends the program (\<open>e2fsck_allocate_memory\<close>), so \<open>__getblk\<close> returns no
  \<open>NULL\<close>.  The loop of a pass may run forever on a hostile log: it is a partial function, and not
  returning is \<open>None\<close>.
\<close>

section \<open>Devices and buffers\<close>

datatype kdev = K_DEV_FS | K_DEV_JOURNAL

type_synonym disk = "kdev \<Rightarrow> u64 \<Rightarrow> block"

record env =
  read_fails :: "kdev \<Rightarrow> u64 \<Rightarrow> bool"
  write_fails :: "kdev \<Rightarrow> u64 \<Rightarrow> bool"
  flush_fails :: "kdev \<Rightarrow> bool"
  crc32c_le :: "u32 \<Rightarrow> u8 list \<Rightarrow> u32"
  crc32_be :: "u32 \<Rightarrow> u8 list \<Rightarrow> u32"

datatype jbd_err = E_IO | E_INVAL | E_BADCRC | E_CORRUPTED | E_BMAP

record buffer_head =
  b_io :: kdev
  b_size :: nat
  b_err :: bool
  b_dirty :: bool
  b_uptodate :: bool
  b_blocknr :: u64
  b_data :: block

definition getblk :: "kdev \<Rightarrow> u64 \<Rightarrow> nat \<Rightarrow> buffer_head" where
  "getblk dev blocknr blocksize =
     \<lparr>b_io = dev, b_size = blocksize, b_err = False, b_dirty = False, b_uptodate = False,
      b_blocknr = blocknr, b_data = replicate blocksize 0\<rparr>"

definition sync_blockdev :: "env \<Rightarrow> kdev \<Rightarrow> jbd_err option" where
  "sync_blockdev env dev = (if flush_fails env dev then Some E_IO else None)"

datatype rw = READ | WRITE

definition set_block :: "disk \<Rightarrow> kdev \<Rightarrow> u64 \<Rightarrow> block \<Rightarrow> disk" where
  "set_block d dev b p = d(dev := (d dev)(b := p))"

text \<open>One turn of the loop of \<open>ll_rw_block\<close>.\<close>

definition rw_one :: "env \<Rightarrow> rw \<Rightarrow> buffer_head \<Rightarrow> disk \<Rightarrow> buffer_head \<times> disk" where
  "rw_one env rw bh d =
     (if rw = READ \<and> \<not> b_uptodate bh then
        if read_fails env (b_io bh) (b_blocknr bh) then (bh\<lparr>b_err := True\<rparr>, d)
        else (bh\<lparr>b_data := d (b_io bh) (b_blocknr bh), b_uptodate := True\<rparr>, d)
      else if rw = WRITE \<and> b_dirty bh then
        if write_fails env (b_io bh) (b_blocknr bh) then (bh\<lparr>b_err := True\<rparr>, d)
        else (bh\<lparr>b_dirty := False, b_uptodate := True\<rparr>, set_block d (b_io bh) (b_blocknr bh) (b_data bh))
      else (bh, d))"

fun ll_rw_block :: "env \<Rightarrow> rw \<Rightarrow> buffer_head list \<Rightarrow> disk \<Rightarrow> buffer_head list \<times> disk" where
  "ll_rw_block env rw [] d = ([], d)"
| "ll_rw_block env rw (bh # bhs) d =
     (let (bh', d') = rw_one env rw bh d; (bhs', d'') = ll_rw_block env rw bhs d' in (bh' # bhs', d''))"

definition mark_buffer_dirty :: "buffer_head \<Rightarrow> buffer_head" where
  "mark_buffer_dirty bh = bh\<lparr>b_dirty := True\<rparr>"

definition mark_buffer_uptodate :: "buffer_head \<Rightarrow> bool \<Rightarrow> buffer_head" where
  "mark_buffer_uptodate bh v = bh\<lparr>b_uptodate := v\<rparr>"

definition brelse :: "env \<Rightarrow> buffer_head \<Rightarrow> disk \<Rightarrow> disk" where
  "brelse env bh d = (if b_dirty bh then snd (ll_rw_block env WRITE [bh] d) else d)"

definition wait_on_buffer :: "env \<Rightarrow> buffer_head \<Rightarrow> disk \<Rightarrow> buffer_head" where
  "wait_on_buffer env bh d = (if \<not> b_uptodate bh then hd (fst (ll_rw_block env READ [bh] d)) else bh)"

section \<open>The journal\<close>

record journal = journal_format +
  j_head :: u64
  j_tail :: u64
  j_first :: u64
  j_last :: u64
  j_dev :: kdev
  j_fs_dev :: kdev
  j_blocksize :: nat
  j_maxlen :: u32
  j_inode :: "(u64 \<Rightarrow> u64 option) option"
  j_tail_sequence :: tid
  j_transaction_sequence :: tid
  j_revoke :: revoke_table
  j_failed_commit :: tid
  j_csum_seed :: u32

definition journal_bmap :: "journal \<Rightarrow> u64 \<Rightarrow> u64 option" where
  "journal_bmap j b = (case j_inode j of None \<Rightarrow> Some b | Some f \<Rightarrow> f b)"

definition jread :: "env \<Rightarrow> journal \<Rightarrow> disk \<Rightarrow> u32 \<Rightarrow> jbd_err + buffer_head" where
  "jread env j d offset =
     (if offset \<ge> j_maxlen j then Inl E_CORRUPTED
      else (case journal_bmap j (ucast offset) of
              None \<Rightarrow> Inl E_BMAP
            | Some blocknr \<Rightarrow>
                let bh = getblk (j_dev j) blocknr (j_blocksize j);
                    bh = (if \<not> b_uptodate bh then wait_on_buffer env bh d else bh)
                in if \<not> b_uptodate bh then Inl E_IO else Inr bh))"

text \<open>The bytes from \<open>i\<close> on with the four-byte field there set to 0\<close>

definition zero_field :: "block \<Rightarrow> nat \<Rightarrow> block" where
  "zero_field p i = take i p @ replicate 4 0 @ drop (i + 4) p"

definition jbd2_chksum :: "env \<Rightarrow> u32 \<Rightarrow> u8 list \<Rightarrow> u32" where
  "jbd2_chksum env crc p = crc32c_le env crc p"

definition jbd2_descr_block_csum_verify :: "env \<Rightarrow> journal \<Rightarrow> block \<Rightarrow> bool" where
  "jbd2_descr_block_csum_verify env j buf =
     (if \<not> journal_has_csum_v2or3 j then True
      else let tail = j_blocksize j - 4
           in get_be32 buf tail = jbd2_chksum env (j_csum_seed j) (take (j_blocksize j) (zero_field buf tail)))"

definition jbd2_commit_block_csum_verify :: "env \<Rightarrow> journal \<Rightarrow> block \<Rightarrow> bool" where
  "jbd2_commit_block_csum_verify env j buf =
     (if \<not> journal_has_csum_v2or3 j then True
      else get_be32 buf 16 = jbd2_chksum env (j_csum_seed j) (take (j_blocksize j) (zero_field buf 16)))"

definition jbd2_block_tag_csum_verify :: "env \<Rightarrow> journal \<Rightarrow> block \<Rightarrow> nat \<Rightarrow> block \<Rightarrow> u32 \<Rightarrow> bool" where
  "jbd2_block_tag_csum_verify env j p tag buf sequence =
     (if \<not> journal_has_csum_v2or3 j then True
      else let csum32 = jbd2_chksum env (j_csum_seed j) (put_be32 sequence);
               csum32 = jbd2_chksum env csum32 (take (j_blocksize j) buf)
           in if jfs_has_feature_csum3 j then get_be32 p (tag + 12) = csum32
              else get_be16 p (tag + 4) = ucast (csum32 AND 0xFFFF))"

definition jbd2_revoke_block_csum_verify :: "env \<Rightarrow> journal \<Rightarrow> block \<Rightarrow> bool" where
  "jbd2_revoke_block_csum_verify env j buf =
     (if \<not> journal_has_csum_v2or3 j then True
      else let tail = j_blocksize j - 4
           in get_be32 buf tail = jbd2_chksum env (j_csum_seed j) (take (j_blocksize j) (zero_field buf tail)))"

text \<open>\<open>tag->t_flags\<close> lies six bytes into a tag of either form.\<close>

definition tag_flags :: "block \<Rightarrow> nat \<Rightarrow> u16" where
  "tag_flags p tag = get_be16 p (tag + 6)"

text \<open>The address of the tag after the one at \<open>tag\<close>: a tag without the flag is followed by a UUID.\<close>

definition next_tag :: "'a journal_format_scheme \<Rightarrow> block \<Rightarrow> nat \<Rightarrow> nat" where
  "next_tag j p tag =
     tag + journal_tag_bytes j + (if tag_flags p tag AND JFS_FLAG_SAME_UUID = 0 then 16 else 0)"

lemma next_tag_gt: "tag < next_tag j p tag"
  by (simp add: next_tag_def)

text \<open>The loop of \<open>count_tags\<close>; \<open>sz\<close> is the block size less the checksum at its end.\<close>

function count_tags_loop :: "journal \<Rightarrow> block \<Rightarrow> nat \<Rightarrow> nat \<Rightarrow> nat \<Rightarrow> nat" where
  "count_tags_loop j p sz tag nr =
     (if tag + journal_tag_bytes j \<le> sz then
        let nr = nr + 1 in
        if tag_flags p tag AND JFS_FLAG_LAST_TAG \<noteq> 0 then nr
        else count_tags_loop j p sz (next_tag j p tag) nr
      else nr)"
  by pat_completeness auto
termination
  by (relation "measure (\<lambda>(j, p, sz, tag, nr). Suc sz - tag)")
    (auto intro!: diff_less_mono2 next_tag_gt)

declare count_tags_loop.simps [simp del]

definition descr_csum_size :: "'a journal_format_scheme \<Rightarrow> nat" where
  "descr_csum_size j = (if journal_has_csum_v2or3 j then 4 else 0)"

definition count_tags :: "journal \<Rightarrow> block \<Rightarrow> nat" where
  "count_tags j p = count_tags_loop j p (j_blocksize j - descr_csum_size j) 12 0"

definition wrap :: "journal \<Rightarrow> u64 \<Rightarrow> u64" where
  "wrap j v = (if v \<ge> j_last j then v - (j_last j - j_first j) else v)"

definition read_tag_block :: "'a journal_format_scheme \<Rightarrow> block \<Rightarrow> nat \<Rightarrow> u64" where
  "read_tag_block j p tag =
     (let block = ucast (get_be32 p tag)
      in if jfs_has_feature_64bit j then block OR push_bit 32 (ucast (get_be32 p (tag + 8))) else block)"

text \<open>
  \<open>calc_chksums\<close>: the result is the error flag, the next log block and the checksum, which the code
  updates through pointers.
\<close>

fun calc_chksums_loop :: "env \<Rightarrow> journal \<Rightarrow> disk \<Rightarrow> nat \<Rightarrow> u64 \<Rightarrow> u32 \<Rightarrow> bool \<times> u64 \<times> u32" where
  "calc_chksums_loop env j d 0 blk crc = (False, blk, crc)"
| "calc_chksums_loop env j d (Suc n) blk crc =
     (let io_block = blk; blk = wrap j (blk + 1)
      in case jread env j d (ucast io_block) of
           Inl _ \<Rightarrow> (True, blk, crc)
         | Inr obh \<Rightarrow> calc_chksums_loop env j d n blk (crc32_be env crc (take (b_size obh) (b_data obh))))"

definition calc_chksums :: "env \<Rightarrow> journal \<Rightarrow> disk \<Rightarrow> buffer_head \<Rightarrow> u64 \<Rightarrow> u32 \<Rightarrow> bool \<times> u64 \<times> u32" where
  "calc_chksums env j d bh blk crc =
     (let num_blks = count_tags j (b_data bh); crc = crc32_be env crc (take (b_size bh) (b_data bh))
      in calc_chksums_loop env j d num_blks blk crc)"

section \<open>One pass over the log\<close>

datatype passtype = PASS_SCAN | PASS_REVOKE | PASS_REPLAY

text \<open>The three counters are only printed.\<close>

record recovery_info =
  start_transaction :: tid
  end_transaction :: tid
  nr_replays :: int
  nr_revokes :: int
  nr_revoke_hits :: int

text \<open>The variables of \<open>do_one_pass\<close> that live across its turns, with the journal, the information and the disk.\<close>

record pass_state =
  next_commit_ID :: tid
  next_log_block :: u64
  success :: "jbd_err option"
  crc32_sum :: u32
  block_error :: bool
  the_journal :: journal
  the_info :: recovery_info
  the_disk :: disk

datatype outcome = Continue pass_state | Done pass_state | Failed jbd_err pass_state

text \<open>
  \<open>scan_revoke_records\<close>: the loop over the records from \<open>offset\<close> on, then its guards.  A revocation
  always succeeds, see \<open>insert_revoke_hash\<close>.
\<close>

function revoke_records_loop :: "block \<Rightarrow> nat \<Rightarrow> nat \<Rightarrow> nat \<Rightarrow> tid \<Rightarrow> revoke_table \<Rightarrow> int \<Rightarrow> revoke_table \<times> int" where
  "revoke_records_loop p record_len lim offset s t n =
     (if record_len \<noteq> 0 \<and> offset + record_len \<le> lim then
        let blocknr = (if record_len = 4 then ucast (get_be32 p offset) else get_be64 p offset)
        in revoke_records_loop p record_len lim (offset + record_len) s (journal_set_revoke t blocknr s) (n + 1)
      else (t, n))"
  by pat_completeness auto
termination
  by (relation "measure (\<lambda>(p, record_len, lim, offset, s, t, n). Suc lim - offset)") auto

declare revoke_records_loop.simps [simp del]

definition scan_revoke_records ::
    "env \<Rightarrow> journal \<Rightarrow> block \<Rightarrow> tid \<Rightarrow> recovery_info \<Rightarrow> jbd_err + (journal \<times> recovery_info)" where
  "scan_revoke_records env j p s info =
     (let rcount = unat (get_be32 p 12)
      in if \<not> jbd2_revoke_block_csum_verify env j p then Inl E_BADCRC
         else if rcount > j_blocksize j - descr_csum_size j then Inl E_INVAL
         else let record_len = (if jfs_has_feature_64bit j then 8 else 4);
                  (t, n) = revoke_records_loop p record_len rcount 16 s (j_revoke j) (nr_revokes info)
              in Inr (j\<lparr>j_revoke := t\<rparr>, info\<lparr>nr_revokes := n\<rparr>))"

text \<open>What replay stores in the file system: the escaped magic number of a data block is restored.\<close>

definition unescape :: "u16 \<Rightarrow> block \<Rightarrow> block" where
  "unescape flags p = (if flags AND JFS_FLAG_ESCAPE \<noteq> 0 then put_be32 JFS_MAGIC_NUMBER @ drop 4 p else p)"

text \<open>
  One tag of a descriptor block in the replay pass: the body of the tag loop up to \<open>skip_write\<close>.
\<close>

definition replay_tag :: "env \<Rightarrow> block \<Rightarrow> nat \<Rightarrow> pass_state \<Rightarrow> pass_state" where
  "replay_tag env p tag st =
     (let j = the_journal st; flags = tag_flags p tag;
          io_block = next_log_block st;
          st = st\<lparr>next_log_block := wrap j (next_log_block st + 1)\<rparr>
      in case jread env j (the_disk st) (ucast io_block) of
           Inl err \<Rightarrow> st\<lparr>success := Some err\<rparr>
         | Inr obh \<Rightarrow>
             let blocknr = read_tag_block j p tag; info = the_info st
             in if journal_test_revoke (j_revoke j) blocknr (next_commit_ID st)
                then st\<lparr>the_info := info\<lparr>nr_revoke_hits := nr_revoke_hits info + 1\<rparr>\<rparr>
                else if \<not> jbd2_block_tag_csum_verify env j p tag (b_data obh) (get_be32 p 8)
                then st\<lparr>success := Some E_BADCRC, block_error := True\<rparr>
                else let nbh = getblk (j_fs_dev j) blocknr (j_blocksize j);
                         nbh = nbh\<lparr>b_data := unescape flags (take (j_blocksize j) (b_data obh))\<rparr>;
                         nbh = mark_buffer_uptodate nbh True;
                         nbh = mark_buffer_dirty nbh
                     in st\<lparr>the_info := info\<lparr>nr_replays := nr_replays info + 1\<rparr>,
                           the_disk := brelse env nbh (the_disk st)\<rparr>)"

function replay_tags :: "env \<Rightarrow> block \<Rightarrow> nat \<Rightarrow> nat \<Rightarrow> pass_state \<Rightarrow> pass_state" where
  "replay_tags env p sz tag st =
     (if tag + journal_tag_bytes (the_journal st) \<le> sz then
        let st' = replay_tag env p tag st
        in if tag_flags p tag AND JFS_FLAG_LAST_TAG \<noteq> 0 then st'
           else replay_tags env p sz (next_tag (the_journal st) p tag) st'
      else st)"
  by pat_completeness auto
termination
  by (relation "measure (\<lambda>(env, p, sz, tag, st). Suc sz - tag)")
    (auto intro!: diff_less_mono2 next_tag_gt)

declare replay_tags.simps [simp del]

definition descriptor_step :: "env \<Rightarrow> passtype \<Rightarrow> buffer_head \<Rightarrow> pass_state \<Rightarrow> outcome" where
  "descriptor_step env pass bh st =
     (let j = the_journal st; info = the_info st; p = b_data bh
      in if descr_csum_size j > 0 \<and> \<not> jbd2_descr_block_csum_verify env j p then Failed E_BADCRC st
         else if pass \<noteq> PASS_REPLAY then
           if pass = PASS_SCAN \<and> jfs_has_feature_checksum j \<and> end_transaction info = 0 then
             (let (err, blk, crc) = calc_chksums env j (the_disk st) bh (next_log_block st) (crc32_sum st)
              in Continue (st\<lparr>next_log_block := blk, crc32_sum := crc\<rparr>))
           else Continue (st\<lparr>next_log_block := wrap j (next_log_block st + of_nat (count_tags j p))\<rparr>)
         else Continue (replay_tags env p (j_blocksize j - descr_csum_size j) 12 st))"

text \<open>
  The checksum of a commit block in the scan pass, feature \<open>checksum\<close>: whether the block's fields
  are neither the computed sum nor all zero.
\<close>

definition commit_chksum_err :: "pass_state \<Rightarrow> block \<Rightarrow> bool" where
  "commit_chksum_err st p =
     (let found_chksum = get_be32 p 16; h_chksum_type = p ! 12; h_chksum_size = p ! 13
      in if crc32_sum st = found_chksum \<and> h_chksum_type = 1 \<and> h_chksum_size = 4 then False
         else \<not> (h_chksum_type = 0 \<and> h_chksum_size = 0 \<and> found_chksum = 0))"

text \<open>The last part of the commit case: the checksum of version 2 or 3, then the next transaction.\<close>

definition commit_end :: "env \<Rightarrow> passtype \<Rightarrow> block \<Rightarrow> pass_state \<Rightarrow> outcome" where
  "commit_end env pass p st =
     (let j = the_journal st; id = next_commit_ID st
      in if pass = PASS_SCAN \<and> \<not> jbd2_commit_block_csum_verify env j p then
           let st = st\<lparr>the_info := (the_info st)\<lparr>end_transaction := id\<rparr>\<rparr>
           in if \<not> jfs_has_feature_async_commit j
              then Continue (st\<lparr>the_journal := j\<lparr>j_failed_commit := id\<rparr>\<rparr>)
              else Continue (st\<lparr>next_commit_ID := id + 1\<rparr>)
         else Continue (st\<lparr>next_commit_ID := id + 1\<rparr>))"

text \<open>
  A \<open>break\<close> of the source in this case leaves the \<open>switch\<close> only, so the outer loop goes on.
\<close>

definition commit_step :: "env \<Rightarrow> passtype \<Rightarrow> block \<Rightarrow> pass_state \<Rightarrow> outcome" where
  "commit_step env pass p st =
     (let j = the_journal st; info = the_info st; id = next_commit_ID st
      in if pass = PASS_SCAN \<and> jfs_has_feature_checksum j then
           if end_transaction info \<noteq> 0
           then Continue (st\<lparr>the_journal := j\<lparr>j_failed_commit := end_transaction info\<rparr>\<rparr>)
           else if commit_chksum_err st p then
             let st = st\<lparr>the_info := info\<lparr>end_transaction := id\<rparr>\<rparr>
             in if \<not> jfs_has_feature_async_commit j
                then Continue (st\<lparr>the_journal := j\<lparr>j_failed_commit := id\<rparr>\<rparr>)
                else commit_end env pass p (st\<lparr>crc32_sum := - 1\<rparr>)
           else commit_end env pass p (st\<lparr>crc32_sum := - 1\<rparr>)
         else commit_end env pass p st)"

definition revoke_step :: "env \<Rightarrow> passtype \<Rightarrow> block \<Rightarrow> pass_state \<Rightarrow> outcome" where
  "revoke_step env pass p st =
     (if pass \<noteq> PASS_REVOKE then Continue st
      else (case scan_revoke_records env (the_journal st) p (next_commit_ID st) (the_info st) of
              Inl err \<Rightarrow> Failed err st
            | Inr (j, info) \<Rightarrow> Continue (st\<lparr>the_journal := j, the_info := info\<rparr>)))"

text \<open>One turn of the loop of \<open>do_one_pass\<close>.\<close>

definition pass_step :: "env \<Rightarrow> passtype \<Rightarrow> pass_state \<Rightarrow> outcome" where
  "pass_step env pass st =
     (let j = the_journal st
      in if pass \<noteq> PASS_SCAN \<and> tid_geq (next_commit_ID st) (end_transaction (the_info st)) then Done st
         else (case jread env j (the_disk st) (ucast (next_log_block st)) of
                 Inl err \<Rightarrow> Failed err st
               | Inr bh \<Rightarrow>
                   let st = st\<lparr>next_log_block := wrap j (next_log_block st + 1)\<rparr>; p = b_data bh
                   in if get_be32 p 0 \<noteq> JFS_MAGIC_NUMBER then Done st
                      else let blocktype = get_be32 p 4; sequence = get_be32 p 8
                           in if sequence \<noteq> next_commit_ID st then Done st
                              else if blocktype = JFS_DESCRIPTOR_BLOCK then descriptor_step env pass bh st
                              else if blocktype = JFS_COMMIT_BLOCK then commit_step env pass p st
                              else if blocktype = JFS_REVOKE_BLOCK then revoke_step env pass p st
                              else Done st))"

text \<open>The code after the loop.\<close>

definition pass_done :: "passtype \<Rightarrow> pass_state \<Rightarrow> jbd_err option \<times> pass_state" where
  "pass_done pass st =
     (let info = the_info st;
          st = (if pass = PASS_SCAN then
                  if end_transaction info = 0 then st\<lparr>the_info := info\<lparr>end_transaction := next_commit_ID st\<rparr>\<rparr> else st
                else if end_transaction info \<noteq> next_commit_ID st \<and> success st = None
                then st\<lparr>success := Some E_IO\<rparr> else st);
          st = (if block_error st \<and> success st = None then st\<lparr>success := Some E_IO\<rparr> else st)
      in (success st, st))"

partial_function (option) pass_loop ::
    "env \<Rightarrow> passtype \<Rightarrow> pass_state \<Rightarrow> (jbd_err option \<times> pass_state) option" where
  "pass_loop env pass st =
     (case pass_step env pass st of
        Continue st' \<Rightarrow> pass_loop env pass st'
      | Done st' \<Rightarrow> Some (pass_done pass st')
      | Failed err st' \<Rightarrow> Some (Some err, st'))"

definition pass_start :: "passtype \<Rightarrow> journal \<Rightarrow> recovery_info \<Rightarrow> disk \<Rightarrow> pass_state" where
  "pass_start pass j info d =
     (let sb = j_superblock j
      in \<lparr>next_commit_ID = s_sequence sb, next_log_block = ucast (s_start sb), success = None,
          crc32_sum = - 1, block_error = False, the_journal = j,
          the_info = (if pass = PASS_SCAN then info\<lparr>start_transaction := s_sequence sb\<rparr> else info),
          the_disk = d\<rparr>)"

definition do_one_pass :: "env \<Rightarrow> journal \<Rightarrow> recovery_info \<Rightarrow> disk \<Rightarrow> passtype \<Rightarrow>
    (jbd_err option \<times> journal \<times> recovery_info \<times> disk) option" where
  "do_one_pass env j info d pass =
     map_option (\<lambda>(err, st). (err, the_journal st, the_info st, the_disk st))
       (pass_loop env pass (pass_start pass j info d))"

section \<open>Recovery\<close>

definition no_info :: recovery_info where
  "no_info = \<lparr>start_transaction = 0, end_transaction = 0, nr_replays = 0, nr_revokes = 0, nr_revoke_hits = 0\<rparr>"

text \<open>A pass that runs only when none before it failed: \<open>if (!err) err = do_one_pass(...);\<close>\<close>

definition then_pass :: "env \<Rightarrow> passtype \<Rightarrow> jbd_err option \<times> journal \<times> recovery_info \<times> disk \<Rightarrow>
    (jbd_err option \<times> journal \<times> recovery_info \<times> disk) option" where
  "then_pass env pass r =
     (case r of (err, j, info, d) \<Rightarrow> if err = None then do_one_pass env j info d pass else Some r)"

text \<open>
  The code after the passes: \<open>JFS_BARRIER\<close> is 0 in this program, so the second flush is never asked for.
\<close>

definition recover_end :: "env \<Rightarrow> jbd_err option \<times> journal \<times> recovery_info \<times> disk \<Rightarrow>
    jbd_err option \<times> journal \<times> disk" where
  "recover_end env r =
     (case r of (err, j, info, d) \<Rightarrow>
        let j = j\<lparr>j_transaction_sequence := end_transaction info + 1\<rparr>;
            j = j\<lparr>j_revoke := journal_clear_revoke (j_revoke j)\<rparr>;
            err2 = sync_blockdev env (j_fs_dev j);
            err = (if err = None then err2 else err)
        in (err, j, d))"

definition journal_recover :: "env \<Rightarrow> journal \<Rightarrow> disk \<Rightarrow> (jbd_err option \<times> journal \<times> disk) option" where
  "journal_recover env j d =
     (if s_start (j_superblock j) = 0
      then Some (None, j\<lparr>j_transaction_sequence := s_sequence (j_superblock j) + 1\<rparr>, d)
      else (case do_one_pass env j no_info d PASS_SCAN of
              None \<Rightarrow> None
            | Some r1 \<Rightarrow>
                (case then_pass env PASS_REVOKE r1 of
                   None \<Rightarrow> None
                 | Some r2 \<Rightarrow> map_option (recover_end env) (then_pass env PASS_REPLAY r2))))"

definition journal_skip_recovery :: "env \<Rightarrow> journal \<Rightarrow> disk \<Rightarrow> (jbd_err option \<times> journal \<times> disk) option" where
  "journal_skip_recovery env j d =
     map_option (\<lambda>(err, j, info, d).
         (err, (if err = None then j\<lparr>j_transaction_sequence := end_transaction info + 1\<rparr>
                else j\<lparr>j_transaction_sequence := j_transaction_sequence j + 1\<rparr>)\<lparr>j_tail := 0\<rparr>, d))
       (do_one_pass env j no_info d PASS_SCAN)"

end
