(* ===== verification/Recovery_Log.thy ===== *)
theory Recovery_Log
  imports Recovery
begin

text \<open>
  The contents of a journal as recovery reads it.  A transaction is a list of items, each the blocks
  of one descriptor or the revocations of one revoke block; relations say that such items lie in the
  log from one position to another.  For each pass one lemma says what it does on them, so that the
  passes become folds over the abstract log.
\<close>

section \<open>The circular log\<close>

definition journal_ok :: "journal \<Rightarrow> bool" where
  "journal_ok j = (j_first j < j_last j \<and> j_last j \<le> ucast (j_maxlen j))"

definition log_pos :: "journal \<Rightarrow> u64 \<Rightarrow> bool" where
  "log_pos j pos = (j_first j \<le> pos \<and> pos < j_last j)"

definition adv :: "journal \<Rightarrow> u64 \<Rightarrow> u64" where
  "adv j pos = wrap j (pos + 1)"

lemma unat_j_last: "journal_ok j \<Longrightarrow> unat (j_last j) < 2 ^ 32"
proof -
  assume "journal_ok j"
  then have "unat (j_last j) \<le> unat (ucast (j_maxlen j) :: u64)"
    by (simp add: journal_ok_def word_le_nat_alt)
  moreover have m: "unat (j_maxlen j) < 2 ^ 32" using unsigned_less [of "j_maxlen j", where ?'a = nat] by simp
  moreover have "unat (ucast (j_maxlen j) :: u64) = unat (j_maxlen j)"
    using m by (simp add: unsigned_ucast_eq take_bit_nat_eq_self)
  ultimately show ?thesis by simp
qed

lemma unat_wrap_add:
  assumes "journal_ok j" "log_pos j pos" "k \<le> unat (j_last j) - unat (j_first j)"
  shows "unat (wrap j (pos + of_nat k))
       = (if unat (j_last j) \<le> unat pos + k then unat pos + k - (unat (j_last j) - unat (j_first j)) else unat pos + k)"
proof -
  have fl: "unat (j_first j) < unat (j_last j)" "unat (j_first j) \<le> unat pos" "unat pos < unat (j_last j)"
    "unat (j_last j) < 4294967296"
    using assms(1,2) unat_j_last [OF assms(1)] by (simp_all add: journal_ok_def log_pos_def word_less_nat_alt word_le_nat_alt)
  have s: "unat (pos + of_nat k) = unat pos + k"
    using fl assms(3) by (simp add: unat_word_ariths unat_of_nat)
  have d: "unat (j_last j - j_first j) = unat (j_last j) - unat (j_first j)"
    using assms(1) by (intro unat_sub) (simp add: journal_ok_def order.strict_implies_order)
  show ?thesis
  proof (cases "unat (j_last j) \<le> unat pos + k")
    case True
    then have le: "j_last j \<le> pos + of_nat k" by (simp add: word_le_nat_alt s)
    then have "j_last j - j_first j \<le> pos + of_nat k"
      by (simp add: word_le_nat_alt s d True) (use True in linarith)
    then have "unat (pos + of_nat k - (j_last j - j_first j)) = unat pos + k - (unat (j_last j) - unat (j_first j))"
      by (simp only: unat_sub s d)
    with le True show ?thesis by (simp add: wrap_def)
  next
    case False
    then show ?thesis by (simp add: wrap_def word_le_nat_alt s)
  qed
qed

lemma log_pos_wrap:
  assumes "journal_ok j" "log_pos j pos" "k \<le> unat (j_last j) - unat (j_first j)"
  shows "log_pos j (wrap j (pos + of_nat k))"
proof -
  have "unat (j_first j) < unat (j_last j)" "unat (j_first j) \<le> unat pos" "unat pos < unat (j_last j)"
    using assms(1,2) by (simp_all add: journal_ok_def log_pos_def word_less_nat_alt word_le_nat_alt)
  then show ?thesis
    using assms(3) unat_wrap_add [OF assms]
    by (auto simp: log_pos_def word_less_nat_alt word_le_nat_alt split: if_splits)
qed

lemma adv_as_wrap: "adv j pos = wrap j (pos + of_nat 1)"
  by (simp add: adv_def)

lemma log_pos_adv: "journal_ok j \<Longrightarrow> log_pos j pos \<Longrightarrow> log_pos j (adv j pos)"
  unfolding adv_as_wrap by (rule log_pos_wrap) (auto simp: journal_ok_def word_less_nat_alt)

lemma log_pos_advs: "journal_ok j \<Longrightarrow> log_pos j pos \<Longrightarrow> log_pos j ((adv j ^^ k) pos)"
  by (induction k) (simp_all add: log_pos_adv)

text \<open>Passing over \<open>k\<close> blocks at once is passing over them one by one, when they fit in the log.\<close>

lemma wrap_add_advs:
  assumes "journal_ok j" "log_pos j pos" "k \<le> unat (j_last j) - unat (j_first j)"
  shows "wrap j (pos + of_nat k) = (adv j ^^ k) pos"
  using assms(3)
proof (induction k)
  case 0
  have "pos < j_last j" using assms(2) by (simp add: log_pos_def)
  then show ?case by (auto simp: wrap_def dest: leD)
next
  case (Suc k)
  have b: "unat (j_first j) < unat (j_last j)" "unat (j_first j) \<le> unat pos" "unat pos < unat (j_last j)"
    using assms(1,2) by (simp_all add: journal_ok_def log_pos_def word_less_nat_alt word_le_nat_alt)
  let ?q = "wrap j (pos + of_nat k)"
  have q: "log_pos j ?q" using Suc.prems by (intro log_pos_wrap assms) simp
  have "unat (adv j ?q) = unat (wrap j (pos + of_nat (Suc k)))"
    unfolding adv_as_wrap
    using b Suc.prems unat_wrap_add [OF assms(1) q, of 1] unat_wrap_add [OF assms(1,2), of k]
      unat_wrap_add [OF assms(1,2), of "Suc k"]
    by (auto split: if_splits)
  then have "adv j ?q = wrap j (pos + of_nat (Suc k))" by (rule unsigned_word_eqI)
  with Suc show ?case by simp
qed

section \<open>Reading the log\<close>

definition log_block :: "env \<Rightarrow> journal \<Rightarrow> disk \<Rightarrow> u64 \<Rightarrow> block option" where
  "log_block env j d pos = (case jread env j d (ucast pos) of Inl _ \<Rightarrow> None | Inr bh \<Rightarrow> Some (b_data bh))"

text \<open>The device blocks that hold the journal.\<close>

definition journal_blocks :: "journal \<Rightarrow> (kdev \<times> u64) set" where
  "journal_blocks j = {(j_dev j, b) | b. \<exists>off. off < j_maxlen j \<and> journal_bmap j (ucast off) = Some b}"

definition same_log :: "journal \<Rightarrow> disk \<Rightarrow> disk \<Rightarrow> bool" where
  "same_log j d0 d = (\<forall>(dev, b)\<in>journal_blocks j. d dev b = d0 dev b)"

lemma wait_on_new_buffer:
  "wait_on_buffer env (getblk dev b n) d =
     (if read_fails env dev b then (getblk dev b n)\<lparr>b_err := True\<rparr>
      else (getblk dev b n)\<lparr>b_data := d dev b, b_uptodate := True\<rparr>)"
  by (simp add: wait_on_buffer_def getblk_def rw_one_def)

lemma jread_eq:
  "jread env j d off =
     (if off \<ge> j_maxlen j then Inl E_CORRUPTED
      else (case journal_bmap j (ucast off) of None \<Rightarrow> Inl E_BMAP
            | Some b \<Rightarrow> if read_fails env (j_dev j) b then Inl E_IO
                        else Inr ((getblk (j_dev j) b (j_blocksize j))\<lparr>b_data := d (j_dev j) b, b_uptodate := True\<rparr>)))"
  by (simp add: jread_def Let_def wait_on_new_buffer split: option.split) (simp add: getblk_def)

lemma jread_same_log:
  assumes "same_log j d0 d"
  shows "jread env j d off = jread env j d0 off"
proof -
  have "d (j_dev j) b = d0 (j_dev j) b" if "off < j_maxlen j" "journal_bmap j (ucast off) = Some b" for b
    using assms that by (auto simp: same_log_def journal_blocks_def)
  then show ?thesis by (auto simp: jread_eq not_le split: option.split)
qed

lemma same_log_refl [simp]: "same_log j d d"
  by (simp add: same_log_def)

lemma log_block_Some:
  assumes "log_block env j d pos = Some p"
  obtains bh where "jread env j d (ucast pos) = Inr bh" "b_data bh = p"
  using assms by (auto simp: log_block_def split: sum.splits)

text \<open>What is read from the log does not depend on the revoke table of the journal.\<close>

lemma journal_revoke_irrelevant [simp]:
  "jread env (j\<lparr>j_revoke := t\<rparr>) = jread env j"
  "wrap (j\<lparr>j_revoke := t\<rparr>) = wrap j"
  "jfs_has_feature_checksum (j\<lparr>j_revoke := t\<rparr>) = jfs_has_feature_checksum j"
  "jfs_has_feature_64bit (j\<lparr>j_revoke := t\<rparr>) = jfs_has_feature_64bit j"
  "jfs_has_feature_async_commit (j\<lparr>j_revoke := t\<rparr>) = jfs_has_feature_async_commit j"
  "journal_has_csum_v2or3 (j\<lparr>j_revoke := t\<rparr>) = journal_has_csum_v2or3 j"
  "jfs_has_feature_csum3 (j\<lparr>j_revoke := t\<rparr>) = jfs_has_feature_csum3 j"
  "journal_tag_bytes (j\<lparr>j_revoke := t\<rparr>) = journal_tag_bytes j"
  "descr_csum_size (j\<lparr>j_revoke := t\<rparr>) = descr_csum_size j"
  "read_tag_block (j\<lparr>j_revoke := t\<rparr>) = read_tag_block j"
  "next_tag (j\<lparr>j_revoke := t\<rparr>) = next_tag j"
  by (auto simp: fun_eq_iff jread_eq journal_bmap_def wrap_def jfs_has_feature_checksum_def jfs_has_feature_64bit_def
      jfs_has_feature_async_commit_def journal_has_csum_v2or3_def jfs_has_feature_csum2_def jfs_has_feature_csum3_def
      has_compat_def has_incompat_def journal_tag_bytes_def descr_csum_size_def read_tag_block_def next_tag_def
      split: option.split)

lemma journal_revoke_irrelevant' [simp]:
  "jbd2_descr_block_csum_verify env (j\<lparr>j_revoke := t\<rparr>) = jbd2_descr_block_csum_verify env j"
  "jbd2_commit_block_csum_verify env (j\<lparr>j_revoke := t\<rparr>) = jbd2_commit_block_csum_verify env j"
  "jbd2_block_tag_csum_verify env (j\<lparr>j_revoke := t\<rparr>) = jbd2_block_tag_csum_verify env j"
  "jbd2_revoke_block_csum_verify env (j\<lparr>j_revoke := t\<rparr>) = jbd2_revoke_block_csum_verify env j"
  by (simp_all add: fun_eq_iff jbd2_descr_block_csum_verify_def jbd2_commit_block_csum_verify_def
      jbd2_block_tag_csum_verify_def jbd2_revoke_block_csum_verify_def jbd2_chksum_def)

section \<open>The tags of a descriptor block, the records of a revoke block\<close>

function tag_list :: "'a journal_format_scheme \<Rightarrow> block \<Rightarrow> nat \<Rightarrow> nat \<Rightarrow> nat list" where
  "tag_list j p sz tag =
     (if tag + journal_tag_bytes j \<le> sz then
        tag # (if tag_flags p tag AND JFS_FLAG_LAST_TAG \<noteq> 0 then [] else tag_list j p sz (next_tag j p tag))
      else [])"
  by pat_completeness auto
termination
  by (relation "measure (\<lambda>(j, p, sz, tag). Suc sz - tag)") (auto intro!: diff_less_mono2 next_tag_gt)

declare tag_list.simps [simp del]

definition descr_tags :: "journal \<Rightarrow> block \<Rightarrow> nat list" where
  "descr_tags j p = tag_list j p (j_blocksize j - descr_csum_size j) 12"

function revoke_list :: "block \<Rightarrow> nat \<Rightarrow> nat \<Rightarrow> nat \<Rightarrow> u64 list" where
  "revoke_list p record_len lim offset =
     (if record_len \<noteq> 0 \<and> offset + record_len \<le> lim then
        (if record_len = 4 then ucast (get_be32 p offset) else get_be64 p offset)
        # revoke_list p record_len lim (offset + record_len)
      else [])"
  by pat_completeness auto
termination
  by (relation "measure (\<lambda>(p, record_len, lim, offset). Suc lim - offset)") auto

declare revoke_list.simps [simp del]

definition revoke_records :: "journal \<Rightarrow> block \<Rightarrow> u64 list" where
  "revoke_records j p = revoke_list p (if jfs_has_feature_64bit j then 8 else 4) (unat (get_be32 p 12)) 16"

lemma count_tags_loop_eq: "count_tags_loop j p sz tag nr = nr + length (tag_list j p sz tag)"
  by (induction j p sz tag nr rule: count_tags_loop.induct)
    (subst count_tags_loop.simps, subst tag_list.simps, simp)

lemma count_tags_eq: "count_tags j p = length (descr_tags j p)"
  by (simp add: count_tags_def descr_tags_def count_tags_loop_eq)

lemma revoke_records_loop_eq:
  "revoke_records_loop p record_len lim offset s t n =
     (fold (\<lambda>b t. journal_set_revoke t b s) (revoke_list p record_len lim offset) t,
      n + int (length (revoke_list p record_len lim offset)))"
proof (induction p record_len lim offset s t n rule: revoke_records_loop.induct)
  case (1 p record_len lim offset s t n)
  then show ?case
    by (subst revoke_records_loop.simps, subst (1 2) revoke_list.simps) (simp add: Let_def)
qed

lemma replay_tag_keeps [simp]:
  "the_journal (replay_tag env p tag st) = the_journal st"
  "next_commit_ID (replay_tag env p tag st) = next_commit_ID st"
  "next_log_block (replay_tag env p tag st) = adv (the_journal st) (next_log_block st)"
  "end_transaction (the_info (replay_tag env p tag st)) = end_transaction (the_info st)"
  by (auto simp: replay_tag_def Let_def adv_def split: sum.split)

lemma replay_tags_fold:
  "replay_tags env p sz tag st = fold (replay_tag env p) (tag_list (the_journal st) p sz tag) st"
proof (induction env p sz tag st rule: replay_tags.induct)
  case (1 env p sz tag st)
  then show ?case
    by (subst replay_tags.simps, subst tag_list.simps) (simp add: Let_def)
qed

text \<open>The tags lie inside the block, before its checksum, and after the header.\<close>

lemma tag_list_bounds:
  "x \<in> set (tag_list j p sz tag) \<Longrightarrow> tag \<le> x \<and> x + journal_tag_bytes j \<le> sz"
proof (induction j p sz tag rule: tag_list.induct)
  case (1 j p sz tag)
  from "1.prems" have c: "tag + journal_tag_bytes j \<le> sz"
    by (subst (asm) tag_list.simps) (auto split: if_splits)
  show ?case
  proof (cases "x = tag")
    case False
    with "1.prems" c have "x \<in> set (tag_list j p sz (next_tag j p tag))" "tag_flags p tag AND JFS_FLAG_LAST_TAG = 0"
      by (subst (asm) tag_list.simps, auto split: if_splits)+
    with "1.IH" c have "next_tag j p tag \<le> x \<and> x + journal_tag_bytes j \<le> sz" by simp
    with next_tag_gt [of tag j p] show ?thesis by linarith
  qed (use c in simp)
qed

lemma tag_list_length: "journal_tag_bytes j * length (tag_list j p sz tag) \<le> sz - tag"
proof (induction j p sz tag rule: tag_list.induct)
  case (1 j p sz tag)
  let ?n = "next_tag j p tag"
  have n: "tag + journal_tag_bytes j \<le> ?n" by (simp add: next_tag_def)
  show ?case
  proof (cases "tag + journal_tag_bytes j \<le> sz \<and> tag_flags p tag AND JFS_FLAG_LAST_TAG = 0")
    case True
    with 1 have "journal_tag_bytes j * length (tag_list j p sz ?n) \<le> sz - ?n" by simp
    moreover have "sz - ?n + journal_tag_bytes j \<le> sz - tag" using True n by linarith
    ultimately show ?thesis using True by (subst tag_list.simps) simp
  next
    case False
    then show ?thesis by (subst tag_list.simps) auto
  qed
qed

section \<open>Transactions in the log\<close>

datatype log_item = Writes "(u64 \<times> block) list" | Revokes "u64 list"

type_synonym log_trans = "log_item list"

definition header_is :: "block \<Rightarrow> u32 \<Rightarrow> tid \<Rightarrow> bool" where
  "header_is p blocktype s = (get_be32 p 0 = JFS_MAGIC_NUMBER \<and> get_be32 p 4 = blocktype \<and> get_be32 p 8 = s)"

text \<open>
  The data blocks for the tags of descriptor \<open>p\<close> lie from \<open>pos\<close> on, with the file system blocks they
  are for and their unescaped contents.
\<close>

inductive data_at :: "env \<Rightarrow> journal \<Rightarrow> disk \<Rightarrow> block \<Rightarrow> nat list \<Rightarrow> u64 \<Rightarrow> (u64 \<times> block) list \<Rightarrow> u64 \<Rightarrow> bool"
  for env j d p where
  data_nil: "data_at env j d p [] pos [] pos"
| data_cons: "\<lbrakk>log_block env j d pos = Some q; jbd2_block_tag_csum_verify env j p tag q (get_be32 p 8);
     data_at env j d p tags (adv j pos) ws pos'\<rbrakk> \<Longrightarrow>
   data_at env j d p (tag # tags) pos
     ((read_tag_block j p tag, unescape (tag_flags p tag) (take (j_blocksize j) q)) # ws) pos'"

text \<open>The items of transaction \<open>s\<close> lie from one position to another.\<close>

inductive items_at :: "env \<Rightarrow> journal \<Rightarrow> disk \<Rightarrow> tid \<Rightarrow> u64 \<Rightarrow> log_trans \<Rightarrow> u64 \<Rightarrow> bool"
  for env j d s where
  items_nil: "items_at env j d s pos [] pos"
| items_writes: "\<lbrakk>log_block env j d pos = Some p; header_is p JFS_DESCRIPTOR_BLOCK s;
     jbd2_descr_block_csum_verify env j p;
     length (descr_tags j p) \<le> unat (j_last j) - unat (j_first j);
     data_at env j d p (descr_tags j p) (adv j pos) ws pos1; items_at env j d s pos1 items pos'\<rbrakk> \<Longrightarrow>
   items_at env j d s pos (Writes ws # items) pos'"
| items_revokes: "\<lbrakk>log_block env j d pos = Some p; header_is p JFS_REVOKE_BLOCK s;
     jbd2_revoke_block_csum_verify env j p; unat (get_be32 p 12) \<le> j_blocksize j - descr_csum_size j;
     items_at env j d s (adv j pos) items pos'\<rbrakk> \<Longrightarrow>
   items_at env j d s pos (Revokes (revoke_records j p) # items) pos'"

text \<open>Its commit block, which ends it, and a block that ends the log.\<close>

definition commit_at :: "env \<Rightarrow> journal \<Rightarrow> disk \<Rightarrow> tid \<Rightarrow> u64 \<Rightarrow> bool" where
  "commit_at env j d s pos =
     (case log_block env j d pos of None \<Rightarrow> False
      | Some p \<Rightarrow> header_is p JFS_COMMIT_BLOCK s \<and> jbd2_commit_block_csum_verify env j p)"

definition stop_at :: "env \<Rightarrow> journal \<Rightarrow> disk \<Rightarrow> tid \<Rightarrow> u64 \<Rightarrow> bool" where
  "stop_at env j d s pos =
     (case log_block env j d pos of None \<Rightarrow> False
      | Some p \<Rightarrow> get_be32 p 0 \<noteq> JFS_MAGIC_NUMBER \<or> get_be32 p 8 \<noteq> s \<or>
                  get_be32 p 4 \<notin> {JFS_DESCRIPTOR_BLOCK, JFS_COMMIT_BLOCK, JFS_REVOKE_BLOCK})"

text \<open>Committed transactions, numbered from \<open>s\<close> on, lie one after the other.\<close>

inductive trans_at :: "env \<Rightarrow> journal \<Rightarrow> disk \<Rightarrow> tid \<Rightarrow> u64 \<Rightarrow> log_trans list \<Rightarrow> u64 \<Rightarrow> bool"
  for env j d where
  trans_nil: "trans_at env j d s pos [] pos"
| trans_cons: "\<lbrakk>items_at env j d s pos t pos1; commit_at env j d s pos1;
     trans_at env j d (s + 1) (adv j pos1) ts pos'\<rbrakk> \<Longrightarrow> trans_at env j d s pos (t # ts) pos'"

inductive_cases items_at_NilE: "items_at env j d s pos [] pos'"
inductive_cases trans_at_NilE: "trans_at env j d s pos [] pos'"
inductive_simps data_at_Nil: "data_at env j d p [] pos ws pos'"
inductive_simps data_at_Cons: "data_at env j d p (tag # tags) pos ws pos'"

text \<open>
  The log that recovery finds: committed transactions from the position in the superblock on, then
  possibly the beginning of one more, whose commit block never reached the disk.
\<close>

definition log_at :: "env \<Rightarrow> journal \<Rightarrow> disk \<Rightarrow> log_trans list \<Rightarrow> log_trans \<Rightarrow> bool" where
  "log_at env j d ts tail =
     (\<exists>pos pos'. log_pos j (ucast (s_start (j_superblock j))) \<and> s_start (j_superblock j) \<noteq> 0 \<and>
        trans_at env j d (s_sequence (j_superblock j)) (ucast (s_start (j_superblock j))) ts pos \<and>
        items_at env j d (s_sequence (j_superblock j) + of_nat (length ts)) pos tail pos' \<and>
        stop_at env j d (s_sequence (j_superblock j) + of_nat (length ts)) pos')"

lemma data_at_advs: "data_at env j d p tags pos ws pos' \<Longrightarrow> pos' = (adv j ^^ length tags) pos"
  by (induction rule: data_at.induct) (simp_all add: funpow_swap1)

lemma items_at_log_pos:
  "items_at env j d s pos items pos' \<Longrightarrow> journal_ok j \<Longrightarrow> log_pos j pos \<Longrightarrow> log_pos j pos'"
  by (induction rule: items_at.induct) (auto dest!: data_at_advs simp: log_pos_adv log_pos_advs)

section \<open>What the passes do on the items of the log\<close>

definition write_block :: "env \<Rightarrow> kdev \<Rightarrow> u64 \<times> block \<Rightarrow> disk \<Rightarrow> disk" where
  "write_block env dev w d = (if write_fails env dev (fst w) then d else set_block d dev (fst w) (snd w))"

text \<open>The effect of an item of transaction \<open>s\<close> on the revoke table and the disk.\<close>

fun item_effect :: "env \<Rightarrow> kdev \<Rightarrow> passtype \<Rightarrow> tid \<Rightarrow> log_item \<Rightarrow> revoke_table \<times> disk \<Rightarrow> revoke_table \<times> disk" where
  "item_effect env dev pass s (Writes ws) (t, d) =
     (t, if pass = PASS_REPLAY then fold (write_block env dev) (filter (\<lambda>w. \<not> journal_test_revoke t (fst w) s) ws) d
         else d)"
| "item_effect env dev pass s (Revokes bs) (t, d) =
     (if pass = PASS_REVOKE then fold (\<lambda>b t. journal_set_revoke t b s) bs t else t, d)"

definition items_effect :: "env \<Rightarrow> kdev \<Rightarrow> passtype \<Rightarrow> tid \<Rightarrow> log_trans \<Rightarrow> revoke_table \<times> disk \<Rightarrow> revoke_table \<times> disk" where
  "items_effect env dev pass s items = fold (item_effect env dev pass s) items"

fun trans_effect :: "env \<Rightarrow> kdev \<Rightarrow> passtype \<Rightarrow> tid \<Rightarrow> log_trans list \<Rightarrow> revoke_table \<times> disk \<Rightarrow> revoke_table \<times> disk" where
  "trans_effect env dev pass s [] x = x"
| "trans_effect env dev pass s (t # ts) x = trans_effect env dev pass (s + 1) ts (items_effect env dev pass s t x)"

text \<open>A pass that stands between two blocks of the log and has met no error.\<close>

definition pass_at :: "pass_state \<Rightarrow> journal \<Rightarrow> tid \<Rightarrow> u64 \<Rightarrow> tid \<Rightarrow> revoke_table \<times> disk \<Rightarrow> bool" where
  "pass_at st j s pos e x =
     (next_commit_ID st = s \<and> next_log_block st = pos \<and> end_transaction (the_info st) = e \<and>
      the_journal st = j\<lparr>j_revoke := fst x\<rparr> \<and> the_disk st = snd x \<and> success st = None \<and> \<not> block_error st)"

text \<open>Whether a pass goes on at transaction \<open>s\<close>.\<close>

definition goes_on :: "passtype \<Rightarrow> tid \<Rightarrow> tid \<Rightarrow> bool" where
  "goes_on pass s e = (pass = PASS_SCAN \<or> \<not> tid_geq s e)"

definition item_writes :: "log_item \<Rightarrow> (u64 \<times> block) list" where
  "item_writes i = (case i of Writes ws \<Rightarrow> ws | Revokes bs \<Rightarrow> [])"

definition item_revokes :: "log_item \<Rightarrow> u64 list" where
  "item_revokes i = (case i of Writes ws \<Rightarrow> [] | Revokes bs \<Rightarrow> bs)"

text \<open>The replay of these blocks does not overwrite the journal itself.\<close>

definition avoids_journal :: "journal \<Rightarrow> log_trans \<Rightarrow> bool" where
  "avoids_journal j t = (\<forall>i\<in>set t. \<forall>w\<in>set (item_writes i). (j_fs_dev j, fst w) \<notin> journal_blocks j)"

lemma journal_blocks_revoke [simp]: "journal_blocks (j\<lparr>j_revoke := t\<rparr>) = journal_blocks j"
  by (simp add: journal_blocks_def journal_bmap_def)

lemma same_log_write:
  "same_log j d0 d \<Longrightarrow> (dev, fst w) \<notin> journal_blocks j \<Longrightarrow> same_log j d0 (write_block env dev w d)"
  by (auto simp: same_log_def write_block_def set_block_def)

lemma same_log_writes:
  "same_log j d0 d \<Longrightarrow> \<forall>w\<in>set ws. (dev, fst w) \<notin> journal_blocks j \<Longrightarrow> same_log j d0 (fold (write_block env dev) ws d)"
  by (induction ws arbitrary: d) (auto intro: same_log_write)

lemma brelse_dirty:
  "brelse env (mark_buffer_dirty (mark_buffer_uptodate ((getblk dev b n)\<lparr>b_data := q\<rparr>) True)) d = write_block env dev (b, q) d"
  by (simp add: brelse_def mark_buffer_dirty_def mark_buffer_uptodate_def getblk_def rw_one_def write_block_def)

text \<open>One tag, in the state of a pass.\<close>

lemma replay_tag_at:
  assumes "pass_at st j s pos e (t, d)" "same_log j d0 d" "log_block env j d0 pos = Some q"
    "jbd2_block_tag_csum_verify env j p tag q (get_be32 p 8)"
  shows "pass_at (replay_tag env p tag st) j s (adv j pos) e
           (t, if journal_test_revoke t (read_tag_block j p tag) s then d
               else write_block env (j_fs_dev j) (read_tag_block j p tag, unescape (tag_flags p tag) (take (j_blocksize j) q)) d)"
proof -
  from assms(3) obtain bh where bh: "jread env j d0 (ucast pos) = Inr bh" "b_data bh = q"
    by (rule log_block_Some)
  then have "jread env j d (ucast pos) = Inr bh" using jread_same_log [OF assms(2)] by simp
  with assms(1,4) bh(2) show ?thesis
    by (auto simp: pass_at_def replay_tag_def Let_def adv_def brelse_dirty)
qed

lemma replay_tag_at':
  assumes "pass_at st j s pos e (t, d)" "same_log j d0 d" "log_block env j d0 pos = Some q"
    "jbd2_block_tag_csum_verify env j p tag q (get_be32 p 8)"
    "(j_fs_dev j, read_tag_block j p tag) \<notin> journal_blocks j"
  obtains d' where "pass_at (replay_tag env p tag st) j s (adv j pos) e (t, d')" "same_log j d0 d'"
    "d' = fold (write_block env (j_fs_dev j)) (filter (\<lambda>w. \<not> journal_test_revoke t (fst w) s)
            [(read_tag_block j p tag, unescape (tag_flags p tag) (take (j_blocksize j) q))]) d"
  using replay_tag_at [OF assms(1-4)] assms(2,5) same_log_write
  by (cases "journal_test_revoke t (read_tag_block j p tag) s") (fastforce+)

lemma replay_tags_at:
  assumes "data_at env j d0 p tags pos ws pos'" "pass_at st j s pos e (t, d)" "same_log j d0 d"
    "\<forall>w\<in>set ws. (j_fs_dev j, fst w) \<notin> journal_blocks j"
  shows "pass_at (fold (replay_tag env p) tags st) j s pos' e
           (t, fold (write_block env (j_fs_dev j)) (filter (\<lambda>w. \<not> journal_test_revoke t (fst w) s) ws) d)"
  using assms
proof (induction arbitrary: st d rule: data_at.induct)
  case (data_nil pos)
  then show ?case by simp
next
  case (data_cons pos q tag tags ws pos')
  have "(j_fs_dev j, read_tag_block j p tag) \<notin> journal_blocks j" using data_cons.prems(3) by simp
  from replay_tag_at' [OF data_cons.prems(1,2) data_cons.hyps(1,2) this]
  obtain d' where d': "pass_at (replay_tag env p tag st) j s (adv j pos) e (t, d')" "same_log j d0 d'"
    "d' = fold (write_block env (j_fs_dev j)) (filter (\<lambda>w. \<not> journal_test_revoke t (fst w) s)
            [(read_tag_block j p tag, unescape (tag_flags p tag) (take (j_blocksize j) q))]) d" .
  from data_cons.IH [OF d'(1,2)] data_cons.prems(3) show ?case
    by (simp add: d'(3) split: if_splits)
qed

text \<open>One turn of the loop, by the kind of the block it meets.\<close>

lemma pass_loop_continue: "pass_step env pass st = Continue st' \<Longrightarrow> pass_loop env pass st = pass_loop env pass st'"
  by (subst pass_loop.simps) simp

lemma pass_step_block:
  assumes "pass_at st j s pos e x" "same_log j d0 (snd x)" "goes_on pass s e" "log_block env j d0 pos = Some p"
  obtains bh where "b_data bh = p"
    "pass_at (st\<lparr>next_log_block := adv j pos\<rparr>) j s (adv j pos) e x"
    "pass_step env pass st =
      (let st = st\<lparr>next_log_block := adv j pos\<rparr>
       in if get_be32 p 0 \<noteq> JFS_MAGIC_NUMBER then Done st
          else if get_be32 p 8 \<noteq> s then Done st
          else if get_be32 p 4 = JFS_DESCRIPTOR_BLOCK then descriptor_step env pass bh st
          else if get_be32 p 4 = JFS_COMMIT_BLOCK then commit_step env pass p st
          else if get_be32 p 4 = JFS_REVOKE_BLOCK then revoke_step env pass p st
          else Done st)"
proof -
  from assms(4) obtain bh where bh: "jread env j d0 (ucast pos) = Inr bh" "b_data bh = p"
    by (rule log_block_Some)
  then have r: "jread env j (snd x) (ucast pos) = Inr bh" using jread_same_log [OF assms(2)] by simp
  show thesis
    using assms(1,3) r bh(2)
    by (intro that [of bh]) (auto simp: pass_at_def pass_step_def goes_on_def Let_def adv_def)
qed

lemma descriptor_step_at:
  assumes "pass_at st j s pos e (t, d)" "same_log j d0 d" "\<not> jfs_has_feature_checksum j"
    "jbd2_descr_block_csum_verify env j (b_data bh)" "journal_ok j" "log_pos j pos"
    "length (descr_tags j (b_data bh)) \<le> unat (j_last j) - unat (j_first j)"
    "data_at env j d0 (b_data bh) (descr_tags j (b_data bh)) pos ws pos'"
    "pass = PASS_REPLAY \<longrightarrow> (\<forall>w\<in>set ws. (j_fs_dev j, fst w) \<notin> journal_blocks j)"
  obtains st' where "descriptor_step env pass bh st = Continue st'"
    "pass_at st' j s pos' e (item_effect env (j_fs_dev j) pass s (Writes ws) (t, d))"
proof (cases "pass = PASS_REPLAY")
  case True
  let ?st' = "replay_tags env (b_data bh) (j_blocksize j - descr_csum_size j) 12 st"
  have j: "the_journal st = j\<lparr>j_revoke := t\<rparr>" using assms(1) by (simp add: pass_at_def)
  have "tag_list (j\<lparr>j_revoke := t\<rparr>) p n k = tag_list j p n k" for p n k
    by (induction j p n k rule: tag_list.induct) (subst (1 2) tag_list.simps, simp)
  then have "?st' = fold (replay_tag env (b_data bh)) (descr_tags j (b_data bh)) st"
    by (simp add: replay_tags_fold descr_tags_def j)
  moreover have "descriptor_step env pass bh st = Continue ?st'"
    using True assms(4) by (simp add: descriptor_step_def j)
  ultimately show thesis
    using that replay_tags_at [OF assms(8,1,2)] assms(9) True by simp
next
  case False
  have j: "the_journal st = j\<lparr>j_revoke := t\<rparr>" "next_log_block st = pos" using assms(1) by (simp_all add: pass_at_def)
  have c: "count_tags (j\<lparr>j_revoke := t\<rparr>) p = count_tags j p" for p
  proof -
    have "count_tags_loop (j\<lparr>j_revoke := t\<rparr>) p n k m = count_tags_loop j p n k m" for n k m
      by (induction j p n k m rule: count_tags_loop.induct) (subst (1 2) count_tags_loop.simps, simp)
    then show ?thesis by (simp add: count_tags_def)
  qed
  have "wrap j (pos + of_nat (count_tags j (b_data bh))) = pos'"
    using wrap_add_advs [OF assms(5-7)] data_at_advs [OF assms(8)] by (simp add: count_tags_eq)
  then have "descriptor_step env pass bh st = Continue (st\<lparr>next_log_block := pos'\<rparr>)"
    using False assms(3,4) by (simp add: descriptor_step_def j c)
  moreover have "pass_at (st\<lparr>next_log_block := pos'\<rparr>) j s pos' e (t, d)"
    using assms(1) by (simp add: pass_at_def)
  ultimately show thesis using that False by simp
qed

lemma revoke_step_at:
  assumes "pass_at st j s pos e (t, d)" "jbd2_revoke_block_csum_verify env j p"
    "unat (get_be32 p 12) \<le> j_blocksize j - descr_csum_size j"
  obtains st' where "revoke_step env pass p st = Continue st'"
    "pass_at st' j s pos e (item_effect env (j_fs_dev j) pass s (Revokes (revoke_records j p)) (t, d))"
  using assms
  by (cases "pass = PASS_REVOKE")
    (auto simp: revoke_step_def pass_at_def scan_revoke_records_def Let_def revoke_records_loop_eq revoke_records_def)

lemma commit_step_at:
  assumes "pass_at st j s pos e x" "\<not> jfs_has_feature_checksum j" "jbd2_commit_block_csum_verify env j p"
  obtains st' where "commit_step env pass p st = Continue st'" "pass_at st' j (s + 1) pos e x"
  using assms by (auto simp: commit_step_def commit_end_def pass_at_def Let_def)

lemma item_effect_same_log:
  assumes "same_log j d0 (snd x)"
    "pass = PASS_REPLAY \<longrightarrow> (\<forall>w\<in>set (item_writes i). (j_fs_dev j, fst w) \<notin> journal_blocks j)"
  shows "same_log j d0 (snd (item_effect env (j_fs_dev j) pass s i x))"
  using assms by (cases x; cases i) (auto simp: item_writes_def intro!: same_log_writes)

lemma items_pass:
  assumes "items_at env j d0 s pos items pos'" "pass_at st j s pos e x" "same_log j d0 (snd x)" "goes_on pass s e"
    "\<not> jfs_has_feature_checksum j" "journal_ok j" "log_pos j pos" "pass = PASS_REPLAY \<longrightarrow> avoids_journal j items"
  shows "\<exists>st'. pass_loop env pass st = pass_loop env pass st' \<and>
           pass_at st' j s pos' e (items_effect env (j_fs_dev j) pass s items x) \<and>
           same_log j d0 (snd (items_effect env (j_fs_dev j) pass s items x))"
  using assms
proof (induction arbitrary: st x rule: items_at.induct)
  case (items_nil pos)
  then show ?case by (auto simp: items_effect_def)
next
  case (items_writes pos p ws pos1 items pos')
  let ?x = "item_effect env (j_fs_dev j) pass s (Writes ws) x"
  obtain t d where x: "x = (t, d)" by (cases x)
  from pass_step_block [OF items_writes.prems(1-3) items_writes.hyps(1)] obtain bh where
    bh: "b_data bh = p" "pass_at (st\<lparr>next_log_block := adv j pos\<rparr>) j s (adv j pos) e x"
      "pass_step env pass st = descriptor_step env pass bh (st\<lparr>next_log_block := adv j pos\<rparr>)"
    using items_writes.hyps(2) by (auto simp: header_is_def)
  have a: "pass = PASS_REPLAY \<longrightarrow> (\<forall>w\<in>set ws. (j_fs_dev j, fst w) \<notin> journal_blocks j)"
    "pass = PASS_REPLAY \<longrightarrow> avoids_journal j items"
    using items_writes.prems(7) by (auto simp: avoids_journal_def item_writes_def)
  have lp: "log_pos j (adv j pos)" by (rule log_pos_adv [OF items_writes.prems(5,6)])
  obtain st1 where st1: "descriptor_step env pass bh (st\<lparr>next_log_block := adv j pos\<rparr>) = Continue st1"
    "pass_at st1 j s pos1 e ?x"
    using descriptor_step_at [of "st\<lparr>next_log_block := adv j pos\<rparr>" j s "adv j pos" e t d d0 env bh ws pos1 pass]
      items_writes.hyps items_writes.prems bh a(1) lp x by auto
  have "same_log j d0 (snd ?x)"
    using item_effect_same_log [OF items_writes.prems(2), of pass "Writes ws"] a(1) by (simp add: item_writes_def)
  moreover have "log_pos j pos1"
    using data_at_advs [OF items_writes.hyps(5)] log_pos_advs [OF items_writes.prems(5) lp] by simp
  ultimately obtain st' where "pass_loop env pass st1 = pass_loop env pass st'"
    "pass_at st' j s pos' e (items_effect env (j_fs_dev j) pass s items ?x)"
    "same_log j d0 (snd (items_effect env (j_fs_dev j) pass s items ?x))"
    using items_writes.IH [OF st1(2)] items_writes.prems a(2) by blast
  moreover have "pass_loop env pass st = pass_loop env pass st1"
    using bh(3) st1(1) by (intro pass_loop_continue) simp
  ultimately show ?case by (auto simp: items_effect_def)
next
  case (items_revokes pos p items pos')
  let ?i = "Revokes (revoke_records j p)"
  let ?x = "item_effect env (j_fs_dev j) pass s ?i x"
  obtain t d where x: "x = (t, d)" by (cases x)
  from pass_step_block [OF items_revokes.prems(1-3) items_revokes.hyps(1)] obtain bh where
    bh: "pass_at (st\<lparr>next_log_block := adv j pos\<rparr>) j s (adv j pos) e x"
      "pass_step env pass st = revoke_step env pass p (st\<lparr>next_log_block := adv j pos\<rparr>)"
    using items_revokes.hyps(2) by (auto simp: header_is_def)
  obtain st1 where st1: "revoke_step env pass p (st\<lparr>next_log_block := adv j pos\<rparr>) = Continue st1"
    "pass_at st1 j s (adv j pos) e ?x"
    using revoke_step_at [of "st\<lparr>next_log_block := adv j pos\<rparr>" j s "adv j pos" e t d env p pass]
      items_revokes.hyps bh x by auto
  have a: "pass = PASS_REPLAY \<longrightarrow> avoids_journal j items" using items_revokes.prems(7) by (simp add: avoids_journal_def)
  have "same_log j d0 (snd ?x)"
    using item_effect_same_log [OF items_revokes.prems(2), of pass ?i] by (simp add: item_writes_def)
  then obtain st' where "pass_loop env pass st1 = pass_loop env pass st'"
    "pass_at st' j s pos' e (items_effect env (j_fs_dev j) pass s items ?x)"
    "same_log j d0 (snd (items_effect env (j_fs_dev j) pass s items ?x))"
    using items_revokes.IH [OF st1(2)] items_revokes.prems log_pos_adv [OF items_revokes.prems(5,6)] a by blast
  moreover have "pass_loop env pass st = pass_loop env pass st1"
    using bh(2) st1(1) by (intro pass_loop_continue) simp
  ultimately show ?case by (auto simp: items_effect_def)
qed

text \<open>A committed transaction, then a series of them; the pass goes on at each.\<close>

lemma commit_pass:
  assumes "commit_at env j d0 s pos" "pass_at st j s pos e x" "same_log j d0 (snd x)" "goes_on pass s e"
    "\<not> jfs_has_feature_checksum j"
  shows "\<exists>st'. pass_loop env pass st = pass_loop env pass st' \<and> pass_at st' j (s + 1) (adv j pos) e x"
proof -
  from assms(1) obtain p where p: "log_block env j d0 pos = Some p" "header_is p JFS_COMMIT_BLOCK s"
    "jbd2_commit_block_csum_verify env j p"
    by (auto simp: commit_at_def split: option.splits)
  from pass_step_block [OF assms(2-4) p(1)] obtain bh where
    bh: "pass_at (st\<lparr>next_log_block := adv j pos\<rparr>) j s (adv j pos) e x"
      "pass_step env pass st = commit_step env pass p (st\<lparr>next_log_block := adv j pos\<rparr>)"
    using p(2) by (auto simp: header_is_def)
  from commit_step_at [OF bh(1) assms(5) p(3)] obtain st' where
    "commit_step env pass p (st\<lparr>next_log_block := adv j pos\<rparr>) = Continue st'" "pass_at st' j (s + 1) (adv j pos) e x"
    by blast
  with bh(2) show ?thesis by (auto intro: pass_loop_continue)
qed

lemma trans_pass:
  assumes "trans_at env j d0 s pos ts pos'" "pass_at st j s pos e x" "same_log j d0 (snd x)"
    "\<forall>k<length ts. goes_on pass (s + of_nat k) e"
    "\<not> jfs_has_feature_checksum j" "journal_ok j" "log_pos j pos" "pass = PASS_REPLAY \<longrightarrow> (\<forall>t\<in>set ts. avoids_journal j t)"
  shows "\<exists>st'. pass_loop env pass st = pass_loop env pass st' \<and>
           pass_at st' j (s + of_nat (length ts)) pos' e (trans_effect env (j_fs_dev j) pass s ts x) \<and>
           same_log j d0 (snd (trans_effect env (j_fs_dev j) pass s ts x)) \<and> log_pos j pos'"
  using assms
proof (induction arbitrary: st x rule: trans_at.induct)
  case (trans_nil s pos)
  then show ?case by auto
next
  case (trans_cons s pos t pos1 ts pos')
  let ?x = "items_effect env (j_fs_dev j) pass s t x"
  have g: "goes_on pass s e" using trans_cons.prems(3) by force
  obtain st1 where st1: "pass_loop env pass st = pass_loop env pass st1" "pass_at st1 j s pos1 e ?x"
    "same_log j d0 (snd ?x)"
    using items_pass [OF trans_cons.hyps(1) trans_cons.prems(1,2) g trans_cons.prems(4,5,6)] trans_cons.prems(7)
    by auto
  obtain st2 where st2: "pass_loop env pass st1 = pass_loop env pass st2" "pass_at st2 j (s + 1) (adv j pos1) e ?x"
    using commit_pass [OF trans_cons.hyps(2) st1(2,3) g trans_cons.prems(4)] by blast
  have "\<forall>k<length ts. goes_on pass (s + 1 + of_nat k) e"
  proof (intro allI impI)
    fix k assume "k < length ts"
    with trans_cons.prems(3) have "goes_on pass (s + of_nat (Suc k)) e" by (metis Suc_less_eq length_Cons)
    then show "goes_on pass (s + 1 + of_nat k) e" by (simp add: add.assoc)
  qed
  moreover have "log_pos j (adv j pos1)"
    using items_at_log_pos [OF trans_cons.hyps(1) trans_cons.prems(5,6)] trans_cons.prems(5) by (simp add: log_pos_adv)
  ultimately obtain st' where "pass_loop env pass st2 = pass_loop env pass st'"
    "pass_at st' j (s + 1 + of_nat (length ts)) pos' e (trans_effect env (j_fs_dev j) pass (s + 1) ts ?x)"
    "same_log j d0 (snd (trans_effect env (j_fs_dev j) pass (s + 1) ts ?x))" "log_pos j pos'"
    using trans_cons.IH [OF st2(2) st1(3)] trans_cons.prems by auto
  then show ?case using st1(1) st2(1) by (auto simp: add.assoc)
qed

end
