(* ===== verification/Recovery_Props.thy ===== *)
theory Recovery_Props
  imports Recovery_Log
begin

text \<open>
  What recovery guarantees, over the abstract log: the file system ends up with the latest committed
  and unrevoked contents of every logged block, the tag loops stay inside a descriptor block, and a
  log that the scan never leaves.
\<close>

section \<open>The specification\<close>

definition writes_of :: "log_trans \<Rightarrow> (u64 \<times> block) list" where
  "writes_of t = concat (map item_writes t)"

definition revokes_of :: "log_trans \<Rightarrow> u64 list" where
  "revokes_of t = concat (map item_revokes t)"

definition revoked_in :: "log_trans list \<Rightarrow> u64 set" where
  "revoked_in ts = (\<Union>t\<in>set ts. set (revokes_of t))"

text \<open>
  The writes to replay, in order: those of a transaction whose block is revoked neither by it nor by
  a later committed transaction.
\<close>

fun survivors :: "log_trans list \<Rightarrow> (u64 \<times> block) list" where
  "survivors [] = []"
| "survivors (t # ts) = filter (\<lambda>w. fst w \<notin> revoked_in (t # ts)) (writes_of t) @ survivors ts"

section \<open>The passes as folds\<close>

lemma items_effect_scan: "items_effect env dev PASS_SCAN s items x = x"
proof -
  have "item_effect env dev PASS_SCAN s i x = x" for i x by (cases x; cases i) simp_all
  then show ?thesis by (induction items arbitrary: x) (simp_all add: items_effect_def)
qed

lemma trans_effect_scan: "trans_effect env dev PASS_SCAN s ts x = x"
  by (induction ts arbitrary: s) (simp_all add: items_effect_scan)

lemma items_effect_revoke:
  "items_effect env dev PASS_REVOKE s items (t, d) = (fold (\<lambda>b t. journal_set_revoke t b s) (revokes_of items) t, d)"
proof (induction items arbitrary: t)
  case (Cons i items)
  then show ?case by (cases i) (simp_all add: items_effect_def revokes_of_def item_revokes_def)
qed (simp add: items_effect_def revokes_of_def)

fun revoke_series :: "tid \<Rightarrow> log_trans list \<Rightarrow> (u64 \<times> tid) list" where
  "revoke_series s [] = []"
| "revoke_series s (t # ts) = map (\<lambda>b. (b, s)) (revokes_of t) @ revoke_series (s + 1) ts"

lemma trans_effect_revoke:
  "trans_effect env dev PASS_REVOKE s ts (t, d) = (rv.set_all t (revoke_series s ts), d)"
proof (induction ts arbitrary: s t)
  case (Cons x ts)
  then show ?case by (simp add: items_effect_revoke rv.set_all_def fold_map comp_def)
qed (simp add: rv.set_all_def)

lemma items_effect_replay:
  "items_effect env dev PASS_REPLAY s items (t, d) =
     (t, fold (write_block env dev) (filter (\<lambda>w. \<not> journal_test_revoke t (fst w) s) (writes_of items)) d)"
proof (induction items arbitrary: d)
  case (Cons i items)
  then show ?case by (cases i) (simp_all add: items_effect_def writes_of_def item_writes_def)
qed (simp add: items_effect_def writes_of_def)

lemma revoke_series_iff:
  "(b, s') \<in> set (revoke_series s ts) \<longleftrightarrow> (\<exists>i<length ts. s' = s + of_nat i \<and> b \<in> set (revokes_of (ts ! i)))"
proof (induction ts arbitrary: s)
  case (Cons t ts)
  have "(\<exists>i<length (t # ts). s' = s + of_nat i \<and> b \<in> set (revokes_of ((t # ts) ! i))) \<longleftrightarrow>
        (s' = s \<and> b \<in> set (revokes_of t)) \<or> (\<exists>i<length ts. s' = s + 1 + of_nat i \<and> b \<in> set (revokes_of (ts ! i)))"
    by (simp add: Ex_less_Suc2 add.assoc)
  with Cons show ?case by auto
qed simp

lemma revoked_in_drop:
  "b \<in> revoked_in (drop k ts) \<longleftrightarrow> (\<exists>i<length ts. k \<le> i \<and> b \<in> set (revokes_of (ts ! i)))"
proof
  assume "b \<in> revoked_in (drop k ts)"
  then obtain t where t: "t \<in> set (drop k ts)" "b \<in> set (revokes_of t)"
    by (auto simp: revoked_in_def)
  from t(1) obtain i where "i < length (drop k ts)" "drop k ts ! i = t"
    unfolding in_set_conv_nth by blast
  with t(2) show "\<exists>i<length ts. k \<le> i \<and> b \<in> set (revokes_of (ts ! i))"
    by (intro exI [of _ "k + i"]) simp
next
  assume "\<exists>i<length ts. k \<le> i \<and> b \<in> set (revokes_of (ts ! i))"
  then obtain i where i: "i < length ts" "k \<le> i" "b \<in> set (revokes_of (ts ! i))" by blast
  then have "drop k ts ! (i - k) = ts ! i" "i - k < length (drop k ts)" by auto
  then have "ts ! i \<in> set (drop k ts)" by (metis nth_mem)
  with i(3) show "b \<in> revoked_in (drop k ts)" by (auto simp: revoked_in_def)
qed

lemma tid_dist_of_nat: "k < 2 ^ 32 \<Longrightarrow> tid_dist s (s + of_nat k) = k"
  by (simp add: tid_dist_def unat_of_nat)

lemma tid_geq_of_nat:
  "i < 2 ^ 31 \<Longrightarrow> k < 2 ^ 31 \<Longrightarrow> tid_geq (s + of_nat i) (s + of_nat k) \<longleftrightarrow> k \<le> i"
  using tid_cmp_dist(2) [of s "s + of_nat i" "s + of_nat k"] by (simp add: tid_dist_of_nat)

text \<open>After the revoke pass, the table answers which writes of transaction \<open>s + k\<close> are revoked.\<close>

lemma revoke_pass_table:
  assumes "table_ok t" "revoke_map t = Map.empty" "length ts < 2 ^ 31" "k < length ts"
  shows "journal_test_revoke (rv.set_all t (revoke_series s ts)) b (s + of_nat k) \<longleftrightarrow> b \<in> revoked_in (drop k ts)"
proof -
  have d: "tid_dist s (s + of_nat i) = i" if "i < length ts" for i
    using that assms(3) by (intro tid_dist_of_nat) simp
  have "\<forall>x\<in>set (revoke_series s ts). tid_dist s (snd x) < 2 ^ 31"
    using assms(3) by (auto simp: revoke_series_iff d)
  moreover have "tid_dist s (s + of_nat k) < 2 ^ 31" using assms(3,4) d [OF assms(4)] by simp
  ultimately have "journal_test_revoke (rv.set_all t (revoke_series s ts)) b (s + of_nat k) \<longleftrightarrow>
      (\<exists>s'. (b, s') \<in> set (revoke_series s ts) \<and> k \<le> tid_dist s s')"
    using rv.test_series [OF assms(1,2), of "revoke_series s ts" s "s + of_nat k" b] d [OF assms(4)] by simp
  also have "\<dots> \<longleftrightarrow> b \<in> revoked_in (drop k ts)"
    unfolding revoked_in_drop revoke_series_iff using d by auto
  finally show ?thesis .
qed

lemma trans_effect_replay:
  assumes "\<And>k b. k < length ts \<Longrightarrow> journal_test_revoke t b (s + of_nat k) \<longleftrightarrow> b \<in> revoked_in (drop k ts)"
  shows "trans_effect env dev PASS_REPLAY s ts (t, d) = (t, fold (write_block env dev) (survivors ts) d)"
  using assms
proof (induction ts arbitrary: s d)
  case (Cons x ts)
  have "filter (\<lambda>w. \<not> journal_test_revoke t (fst w) s) (writes_of x) =
        filter (\<lambda>w. fst w \<notin> revoked_in (x # ts)) (writes_of x)"
    using Cons.prems [of 0] by simp
  moreover have "journal_test_revoke t b (s + 1 + of_nat k) \<longleftrightarrow> b \<in> revoked_in (drop k ts)"
    if "k < length ts" for k b
    using Cons.prems [of "Suc k" b] that by (simp add: add.assoc)
  ultimately show ?case
    using Cons.IH [of "s + 1"] by (simp add: items_effect_replay)
qed simp

section \<open>The three passes\<close>

abbreviation log_start :: "journal \<Rightarrow> u64" where
  "log_start j \<equiv> ucast (s_start (j_superblock j))"

abbreviation first_tid :: "journal \<Rightarrow> tid" where
  "first_tid j \<equiv> s_sequence (j_superblock j)"

text \<open>A journal whose log is well-formed, for recovery with a fresh revoke table.\<close>

definition recoverable :: "env \<Rightarrow> journal \<Rightarrow> disk \<Rightarrow> log_trans list \<Rightarrow> log_trans \<Rightarrow> bool" where
  "recoverable env j d ts tail =
     (journal_ok j \<and> \<not> jfs_has_feature_checksum j \<and> table_ok (j_revoke j) \<and> revoke_map (j_revoke j) = Map.empty \<and>
      log_at env j d ts tail \<and> length ts < 2 ^ 31 \<and> (\<forall>t\<in>set ts. avoids_journal j t))"

lemma pass_start_at:
  "pass_at (pass_start pass j info d) j (first_tid j) (log_start j) (end_transaction info) (j_revoke j, d)"
  by (simp add: pass_at_def pass_start_def Let_def)

lemma stop_step:
  assumes "stop_at env j d s pos" "pass_at st j s pos e x" "same_log j d (snd x)" "goes_on pass s e"
  shows "pass_loop env pass st = Some (pass_done pass (st\<lparr>next_log_block := adv j pos\<rparr>))"
proof -
  from assms(1) obtain p where p: "log_block env j d pos = Some p"
    "get_be32 p 0 \<noteq> JFS_MAGIC_NUMBER \<or> get_be32 p 8 \<noteq> s \<or>
     get_be32 p 4 \<notin> {JFS_DESCRIPTOR_BLOCK, JFS_COMMIT_BLOCK, JFS_REVOKE_BLOCK}"
    by (auto simp: stop_at_def split: option.splits)
  obtain bh where "pass_step env pass st =
      (let st = st\<lparr>next_log_block := adv j pos\<rparr>
       in if get_be32 p 0 \<noteq> JFS_MAGIC_NUMBER then Done st
          else if get_be32 p 8 \<noteq> s then Done st
          else if get_be32 p 4 = JFS_DESCRIPTOR_BLOCK then descriptor_step env pass bh st
          else if get_be32 p 4 = JFS_COMMIT_BLOCK then commit_step env pass p st
          else if get_be32 p 4 = JFS_REVOKE_BLOCK then revoke_step env pass p st
          else Done st)"
    by (rule pass_step_block [OF assms(2-4) p(1)])
  also have "\<dots> = Done (st\<lparr>next_log_block := adv j pos\<rparr>)" using p(2) by (simp add: Let_def)
  finally have "pass_step env pass st = Done (st\<lparr>next_log_block := adv j pos\<rparr>)" .
  then show ?thesis by (subst pass_loop.simps) simp
qed

lemma scan_pass:
  assumes "recoverable env j d ts tail" "end_transaction info = 0"
  obtains info' where "do_one_pass env j info d PASS_SCAN = Some (None, j, info', d)"
    "end_transaction info' = first_tid j + of_nat (length ts)"
proof -
  let ?s = "first_tid j + of_nat (length ts)"
  from assms(1) obtain pos pos' where l: "log_pos j (log_start j)" "trans_at env j d (first_tid j) (log_start j) ts pos"
    "items_at env j d ?s pos tail pos'" "stop_at env j d ?s pos'"
    by (auto simp: recoverable_def log_at_def)
  from assms(1) have j: "journal_ok j" "\<not> jfs_has_feature_checksum j" by (auto simp: recoverable_def)
  have g: "goes_on PASS_SCAN s e" for s e by (simp add: goes_on_def)
  have p: "pass_at (pass_start PASS_SCAN j info d) j (first_tid j) (log_start j) 0 (j_revoke j, d)"
    using pass_start_at [of PASS_SCAN j info d] assms(2) by simp
  obtain st1 where st1: "pass_loop env PASS_SCAN (pass_start PASS_SCAN j info d) = pass_loop env PASS_SCAN st1"
    "pass_at st1 j ?s pos 0 (j_revoke j, d)" "log_pos j pos"
    using trans_pass [OF l(2) p, where pass = PASS_SCAN] g j l(1) by (auto simp: trans_effect_scan)
  obtain st2 where st2: "pass_loop env PASS_SCAN st1 = pass_loop env PASS_SCAN st2" "pass_at st2 j ?s pos' 0 (j_revoke j, d)"
    using items_pass [OF l(3) st1(2) _ g j(2,1) st1(3)] by (auto simp: items_effect_scan)
  have "pass_loop env PASS_SCAN st2 = Some (pass_done PASS_SCAN (st2\<lparr>next_log_block := adv j pos'\<rparr>))"
    by (rule stop_step [OF l(4) st2(2) _ g]) simp
  with st1(1) st2 show thesis
    by (intro that [of "(the_info st2)\<lparr>end_transaction := ?s\<rparr>"])
      (simp_all add: do_one_pass_def pass_done_def pass_at_def Let_def)
qed

text \<open>The other two passes stop at the end that the first one found.\<close>

lemma later_pass:
  assumes "recoverable env j d ts tail" "pass \<noteq> PASS_SCAN"
    "end_transaction info = first_tid j + of_nat (length ts)"
    "same_log j d (snd (trans_effect env (j_fs_dev j) pass (first_tid j) ts (t, d)))
     \<Longrightarrow> trans_effect env (j_fs_dev j) pass (first_tid j) ts (t, d) = (t', d')"
  obtains info' where "do_one_pass env (j\<lparr>j_revoke := t\<rparr>) info d pass = Some (None, j\<lparr>j_revoke := t'\<rparr>, info', d')"
    "end_transaction info' = end_transaction info"
proof -
  let ?s = "first_tid j + of_nat (length ts)"
  from assms(1) obtain pos where l: "log_pos j (log_start j)" "trans_at env j d (first_tid j) (log_start j) ts pos"
    by (auto simp: recoverable_def log_at_def)
  from assms(1) have j: "journal_ok j" "\<not> jfs_has_feature_checksum j" "length ts < 2 ^ 31" "\<forall>t\<in>set ts. avoids_journal j t"
    by (auto simp: recoverable_def)
  have g: "\<forall>k<length ts. goes_on pass (first_tid j + of_nat k) ?s"
    using j(3) by (auto simp: goes_on_def tid_geq_of_nat)
  have "pass_at (pass_start pass (j\<lparr>j_revoke := t\<rparr>) info d) j (first_tid j) (log_start j) ?s (t, d)"
    using assms(2,3) by (simp add: pass_at_def pass_start_def Let_def)
  from trans_pass [OF l(2) this _ g j(2,1) l(1)] j(4) assms(4) obtain st where
    st: "pass_loop env pass (pass_start pass (j\<lparr>j_revoke := t\<rparr>) info d) = pass_loop env pass st"
      "pass_at st j ?s pos ?s (t', d')"
    by auto
  have "tid_geq ?s ?s" by (simp add: tid_geq_def)
  with assms(2) st(2) have "pass_step env pass st = Done st" by (simp add: pass_step_def pass_at_def Let_def)
  then have "pass_loop env pass st = Some (pass_done pass st)" by (subst pass_loop.simps) simp
  with st assms(2,3) show thesis
    by (intro that [of "the_info st"]) (simp_all add: do_one_pass_def pass_done_def pass_at_def Let_def)
qed

text \<open>Recovery writes the surviving blocks in their order, and asks the device to flush.\<close>

lemma journal_recover_fold:
  assumes "recoverable env j d ts tail"
  obtains j' where "journal_recover env j d =
      Some (sync_blockdev env (j_fs_dev j), j', fold (write_block env (j_fs_dev j)) (survivors ts) d)"
    "j_transaction_sequence j' = first_tid j + of_nat (length ts) + 1"
    "table_ok (j_revoke j')" "revoke_map (j_revoke j') = Map.empty"
proof -
  let ?t = "rv.set_all (j_revoke j) (revoke_series (first_tid j) ts)"
  let ?d = "fold (write_block env (j_fs_dev j)) (survivors ts) d"
  from assms have j: "table_ok (j_revoke j)" "revoke_map (j_revoke j) = Map.empty" "length ts < 2 ^ 31"
    "s_start (j_superblock j) \<noteq> 0"
    by (auto simp: recoverable_def log_at_def)
  obtain i1 where i1: "do_one_pass env j no_info d PASS_SCAN = Some (None, j, i1, d)"
    "end_transaction i1 = first_tid j + of_nat (length ts)"
    by (rule scan_pass [OF assms, of no_info]) (auto simp: no_info_def)
  obtain i2 where i2: "do_one_pass env (j\<lparr>j_revoke := j_revoke j\<rparr>) i1 d PASS_REVOKE = Some (None, j\<lparr>j_revoke := ?t\<rparr>, i2, d)"
    "end_transaction i2 = end_transaction i1"
    by (rule later_pass [OF assms _ i1(2), of PASS_REVOKE "j_revoke j" ?t d]) (simp_all add: trans_effect_revoke)
  have "trans_effect env (j_fs_dev j) PASS_REPLAY (first_tid j) ts (?t, d) = (?t, ?d)"
    using revoke_pass_table [OF j(1-3)] by (intro trans_effect_replay) auto
  then obtain i3 where i3: "do_one_pass env (j\<lparr>j_revoke := ?t\<rparr>) i2 d PASS_REPLAY = Some (None, j\<lparr>j_revoke := ?t\<rparr>, i3, ?d)"
    "end_transaction i3 = end_transaction i2"
    using later_pass [OF assms, of PASS_REPLAY i2 ?t ?t ?d] i1(2) i2(2) by auto
  have ok: "table_ok ?t" by (rule rv.set_all_ok [OF j(1)])
  show thesis
    using i1 i2 i3 j(4)
    by (intro that [of "j\<lparr>j_revoke := journal_clear_revoke ?t, j_transaction_sequence := first_tid j + of_nat (length ts) + 1\<rparr>"])
      (simp_all add: journal_recover_def then_pass_def recover_end_def Let_def rv.clear_ok [OF ok] rv.clear_revoked [OF ok])
qed

text \<open>The contents after a series of writes: the last one of a block counts, unless the device fails.\<close>

lemma fold_write_block:
  "fold (write_block env dev) ws d dev' b =
     (if dev' = dev \<and> \<not> write_fails env dev b
      then (case map_of (rev ws) b of Some p \<Rightarrow> p | None \<Rightarrow> d dev b) else d dev' b)"
proof (induction ws arbitrary: d)
  case (Cons w ws)
  show ?case
    unfolding fold.simps comp_apply Cons
    by (auto simp: write_block_def set_block_def map_add_def split: option.split)
qed simp

section \<open>A log that was partly replayed\<close>

lemma log_block_same_log: "same_log j d d2 \<Longrightarrow> log_block env j d2 = log_block env j d"
  by (simp add: fun_eq_iff log_block_def jread_same_log)

lemma data_at_cong:
  "data_at env j d p tags pos ws pos' \<Longrightarrow> log_block env j d2 = log_block env j d \<Longrightarrow> data_at env j d2 p tags pos ws pos'"
  by (induction rule: data_at.induct) (auto intro: data_at.intros)

lemma items_at_cong:
  "items_at env j d s pos items pos' \<Longrightarrow> log_block env j d2 = log_block env j d \<Longrightarrow> items_at env j d2 s pos items pos'"
  by (induction rule: items_at.induct) (auto intro: items_at.intros data_at_cong)

lemma trans_at_cong:
  "trans_at env j d s pos ts pos' \<Longrightarrow> log_block env j d2 = log_block env j d \<Longrightarrow> trans_at env j d2 s pos ts pos'"
  by (induction rule: trans_at.induct) (auto intro: trans_at.intros items_at_cong simp: commit_at_def)

lemma recoverable_same_log:
  assumes "recoverable env j d ts tail" "same_log j d d2"
  shows "recoverable env j d2 ts tail"
  using assms(1) log_block_same_log [OF assms(2), of env]
  by (auto simp: recoverable_def log_at_def stop_at_def intro: trans_at_cong items_at_cong)

lemma survivors_subset: "w \<in> set (survivors ts) \<Longrightarrow> \<exists>t\<in>set ts. \<exists>i\<in>set t. w \<in> set (item_writes i)"
  by (induction ts) (auto simp: writes_of_def)

lemma survivors_avoid:
  "recoverable env j d ts tail \<Longrightarrow> w \<in> set (survivors ts) \<Longrightarrow> (j_fs_dev j, fst w) \<notin> journal_blocks j"
  by (drule survivors_subset) (auto simp: recoverable_def avoids_journal_def)

lemma map_of_rev_None: "map_of (rev ws) b = None \<longleftrightarrow> b \<notin> fst ` set ws"
  by (simp add: map_of_eq_None_iff)

lemma fold_write_blocks_agree:
  assumes "\<And>b. \<not> write_fails env dev b" "\<And>dev' b. d2 dev' b \<noteq> d dev' b \<Longrightarrow> dev' = dev \<and> b \<in> fst ` set ws"
  shows "fold (write_block env dev) ws d2 = fold (write_block env dev) ws d"
proof (intro ext)
  fix dev' b
  show "fold (write_block env dev) ws d2 dev' b = fold (write_block env dev) ws d dev' b"
  proof (cases "d2 dev' b = d dev' b")
    case False
    then have "dev' = dev" "map_of (rev ws) b \<noteq> None" using assms(2) [of dev' b] by (auto simp: map_of_rev_None)
    then show ?thesis using assms(1) [of b] by (auto simp: fold_write_block)
  next
    case True
    then show ?thesis by (cases "dev' = dev") (simp_all add: fold_write_block split: option.split)
  qed
qed

section \<open>The bytes that the tag loops read\<close>

lemma nth_same_take: "take n p = take n q \<Longrightarrow> i < n \<Longrightarrow> p ! i = q ! (i :: nat)"
  by (metis nth_take)

lemma tag_fields_take:
  assumes "take sz p' = take sz p" "12 \<le> tag" "tag + journal_tag_bytes j \<le> sz"
  shows "tag_flags p' tag = tag_flags p tag" "read_tag_block j p' tag = read_tag_block j p tag" "get_be32 p' 8 = get_be32 p 8"
    "jbd2_block_tag_csum_verify env j p' tag q s = jbd2_block_tag_csum_verify env j p tag q s"
proof -
  note same = nth_same_take [OF assms(1)]
  have b: "tag + 8 \<le> sz" using assms(3) journal_tag_bytes_bounds(1) [of j] by linarith
  have 32: "get_be32 p' i = get_be32 p i" if "i + 4 \<le> sz" for i using that by (simp add: get_be32_def same)
  have 16: "get_be16 p' i = get_be16 p i" if "i + 2 \<le> sz" for i using that by (simp add: get_be16_def same)
  show "tag_flags p' tag = tag_flags p tag" "get_be32 p' 8 = get_be32 p 8"
    using b assms(2) by (simp_all add: tag_flags_def 16 32)
  show "read_tag_block j p' tag = read_tag_block j p tag"
    using b assms(3) journal_tag_bytes_64bit [of j] by (auto simp: read_tag_block_def Let_def 32)
  have "tag + 16 \<le> sz" if "jfs_has_feature_csum3 j" using that assms(3) by (simp add: journal_tag_bytes_def)
  then have "get_be32 p' (tag + 12) = get_be32 p (tag + 12)" if "jfs_has_feature_csum3 j" using that by (intro 32) simp
  with b show "jbd2_block_tag_csum_verify env j p' tag q s = jbd2_block_tag_csum_verify env j p tag q s"
    by (simp add: jbd2_block_tag_csum_verify_def Let_def 16)
qed

lemma replay_tags_take:
  "take sz p' = take sz p \<Longrightarrow> 12 \<le> tag \<Longrightarrow> replay_tags env p' sz tag st = replay_tags env p sz tag st"
proof (induction env p sz tag st rule: replay_tags.induct)
  case (1 env p sz tag st)
  show ?case
  proof (cases "tag + journal_tag_bytes (the_journal st) \<le> sz")
    case True
    note f = tag_fields_take [OF "1.prems" True]
    have "replay_tag env p' tag st = replay_tag env p tag st" by (simp only: replay_tag_def Let_def f)
    moreover have "next_tag (the_journal st) p' tag = next_tag (the_journal st) p tag" by (simp only: next_tag_def f)
    moreover have "12 \<le> next_tag (the_journal st) p tag" using "1.prems"(2) next_tag_gt [of tag "the_journal st" p] by linarith
    ultimately show ?thesis
      using 1 True f(1) by (subst (1 2) replay_tags.simps) (simp add: Let_def)
  qed (subst (1 2) replay_tags.simps, simp)
qed

lemma count_tags_take:
  "take sz p' = take sz p \<Longrightarrow> 12 \<le> tag \<Longrightarrow> count_tags_loop j p' sz tag nr = count_tags_loop j p sz tag nr"
proof (induction j p sz tag nr rule: count_tags_loop.induct)
  case (1 j p sz tag nr)
  show ?case
  proof (cases "tag + journal_tag_bytes j \<le> sz")
    case True
    note f = tag_fields_take [OF "1.prems" True]
    have "next_tag j p' tag = next_tag j p tag" by (simp only: next_tag_def f)
    moreover have "12 \<le> next_tag j p tag" using "1.prems"(2) next_tag_gt [of tag j p] by linarith
    ultimately show ?thesis
      using 1 True f(1) by (subst (1 2) count_tags_loop.simps) (simp add: Let_def)
  qed (subst (1 2) count_tags_loop.simps, simp)
qed

lemma replay_fold_position:
  "next_log_block (fold (replay_tag env p) tags st) = (adv (the_journal st) ^^ length tags) (next_log_block st)"
  by (induction tags arbitrary: st) (simp_all add: funpow_swap1)

section \<open>A log that never ends\<close>

lemma revoke_block_skipped:
  assumes "pass_at st j s pos 0 (t, d)" "log_block env j d pos = Some p" "header_is p JFS_REVOKE_BLOCK s"
  obtains st' where "pass_step env PASS_SCAN st = Continue st'" "pass_at st' j s (adv j pos) 0 (t, d)"
proof -
  obtain bh where "pass_at (st\<lparr>next_log_block := adv j pos\<rparr>) j s (adv j pos) 0 (t, d)"
    "pass_step env PASS_SCAN st = revoke_step env PASS_SCAN p (st\<lparr>next_log_block := adv j pos\<rparr>)"
    using pass_step_block [OF assms(1) _ _ assms(2), of PASS_SCAN] assms(3)
    by (auto simp: goes_on_def header_is_def)
  then show thesis using that by (simp add: revoke_step_def)
qed

lemma endless_scan:
  assumes "journal_ok j" "\<And>pos. log_pos j pos \<Longrightarrow> \<exists>p. log_block env j d pos = Some p \<and> header_is p JFS_REVOKE_BLOCK s"
    "log_pos j pos" "pass_at st j s pos 0 (t, d)"
  shows "pass_loop env PASS_SCAN st = None"
proof -
  define stuck where "stuck = (\<lambda>st. \<exists>pos. log_pos j pos \<and> pass_at st j s pos 0 (t, d))"
  have "\<not> (e = env \<and> pass = PASS_SCAN \<and> stuck st)" if "pass_loop e pass st = Some y" for e pass st y
  proof (rule pass_loop.raw_induct [where P = "\<lambda>e pass st y. \<not> (e = env \<and> pass = PASS_SCAN \<and> stuck st)", OF _ that])
    fix pl e pass st y
    assume IH: "\<And>e pass st y. pl e pass st = Some y \<Longrightarrow> \<not> (e = env \<and> pass = PASS_SCAN \<and> stuck st)"
      and step: "(case pass_step e pass st of Continue st' \<Rightarrow> pl e pass st' | Done st' \<Rightarrow> Some (pass_done pass st')
         | Failed err st' \<Rightarrow> Some (Some err, st')) = Some (y :: jbd_err option \<times> pass_state)"
    show "\<not> (e = env \<and> pass = PASS_SCAN \<and> stuck st)"
    proof
      assume a: "e = env \<and> pass = PASS_SCAN \<and> stuck st"
      then obtain pos where pos: "log_pos j pos" "pass_at st j s pos 0 (t, d)" by (auto simp: stuck_def)
      from assms(2) [OF pos(1)] obtain p where "log_block env j d pos = Some p" "header_is p JFS_REVOKE_BLOCK s"
        by blast
      from revoke_block_skipped [OF pos(2) this] obtain st' where
        st': "pass_step env PASS_SCAN st = Continue st'" "pass_at st' j s (adv j pos) 0 (t, d)" .
      then have "stuck st'" using log_pos_adv [OF assms(1) pos(1)] by (auto simp: stuck_def)
      moreover have "pl env PASS_SCAN st' = Some y" using step a st'(1) by simp
      ultimately show False using IH by blast
    qed
  qed
  then show ?thesis using assms(3,4) by (cases "pass_loop env PASS_SCAN st") (auto simp: stuck_def)
qed

section \<open>A small journal\<close>

text \<open>
  An external journal of five blocks of 32 bytes: transaction 7 logs block 100 and commits, then
  transaction 8 begins with a revocation of that block and never commits.
\<close>

definition ok_env :: env where
  "ok_env = \<lparr>read_fails = \<lambda>_ _. False, write_fails = \<lambda>_ _. False, flush_fails = \<lambda>_. False,
     crc32c_le = \<lambda>_ _. 0, crc32_be = \<lambda>_ _. 0\<rparr>"

definition header_bytes :: "u32 \<Rightarrow> u32 \<Rightarrow> block" where
  "header_bytes ty s = put_be32 JFS_MAGIC_NUMBER @ put_be32 ty @ put_be32 s"

definition pad_block :: "block \<Rightarrow> block" where
  "pad_block p = p @ replicate (32 - length p) 0"

definition small_block :: "u64 \<Rightarrow> block" where
  "small_block b =
     (if b = 1 then pad_block (header_bytes JFS_DESCRIPTOR_BLOCK 7 @ put_be32 100 @ [0, 0, 0, 10])
      else if b = 2 then replicate 32 0xAB
      else if b = 3 then pad_block (header_bytes JFS_COMMIT_BLOCK 7)
      else if b = 4 then pad_block (header_bytes JFS_REVOKE_BLOCK 8 @ put_be32 20 @ put_be32 100)
      else replicate 32 0)"

definition small_disk :: disk where
  "small_disk dev b = (case dev of K_DEV_JOURNAL \<Rightarrow> small_block b | K_DEV_FS \<Rightarrow> replicate 32 1)"

definition small_table :: revoke_table where
  "small_table = \<lparr>hash_size = 2, hash_shift = 1, hash_table = [[], []]\<rparr>"

definition small_journal :: journal where
  "small_journal =
     \<lparr>j_format_version = 2, j_superblock = \<lparr>s_sequence = 7, s_start = 1, s_feature_compat = 0, s_feature_incompat = 0,
         s_uuid = replicate 16 0\<rparr>,
      j_head = 4, j_tail = 1, j_first = 1, j_last = 6, j_dev = K_DEV_JOURNAL, j_fs_dev = K_DEV_FS, j_blocksize = 32,
      j_maxlen = 6, j_inode = None, j_tail_sequence = 7, j_transaction_sequence = 7, j_revoke = small_table, j_failed_commit = 0,
      j_csum_seed = 0\<rparr>"

lemma small_features [simp]:
  "jfs_has_feature_checksum small_journal = False" "jfs_has_feature_64bit small_journal = False"
  "jfs_has_feature_csum2 small_journal = False" "jfs_has_feature_csum3 small_journal = False"
  "journal_has_csum_v2or3 small_journal = False" "journal_tag_bytes small_journal = 8"
  "descr_csum_size small_journal = 0" "j_blocksize small_journal = 32"
  "j_first small_journal = 1" "j_last small_journal = 6" "s_start (j_superblock small_journal) = 1"
  "s_sequence (j_superblock small_journal) = 7" "j_fs_dev small_journal = K_DEV_FS" "j_revoke small_journal = small_table"
  by (simp_all add: small_journal_def jfs_has_feature_checksum_def jfs_has_feature_64bit_def jfs_has_feature_csum2_def
      jfs_has_feature_csum3_def has_compat_def has_incompat_def journal_has_csum_v2or3_def journal_tag_bytes_def
      descr_csum_size_def)

lemma small_table_ok: "table_ok small_table"
  by (simp add: table_ok_def bucket_ok_def small_table_def less_2_cases_iff)

lemma small_table_empty: "revoke_map small_table = Map.empty"
proof
  fix b
  have "revoke_hash small_table b < 2" using revoke_hash_bound [OF small_table_ok, of b] by (simp add: small_table_def)
  then consider "revoke_hash small_table b = 0" | "revoke_hash small_table b = 1" by linarith
  then show "revoke_map small_table b = None"
    by cases (simp_all add: revoke_map_def, simp_all add: small_table_def)
qed

lemma small_log_block:
  "b < 6 \<Longrightarrow> log_block ok_env small_journal small_disk b = Some (small_block b)"
proof -
  assume b: "b < 6"
  then have u: "unat b < 6" by (simp add: word_less_nat_alt)
  have "b = word_of_nat (unat b)" by simp
  with u obtain n where n: "b = word_of_nat n" "n < 6" by blast
  from n(2) have "n \<in> {0, 1, 2, 3, 4, 5}" by auto
  then have "b \<in> {0, 1, 2, 3, 4, 5}" unfolding n(1) by auto
  then have "ucast (ucast b :: u32) = b" "(ucast b :: u32) < 6" by auto
  then show ?thesis
    by (simp add: log_block_def jread_eq small_journal_def journal_bmap_def ok_env_def small_disk_def not_le)
qed

lemmas small_eval = small_block_def pad_block_def header_bytes_def put_be32_def get_be32_def get_be16_def jfs_consts
  header_is_def tag_flags_def

lemma small_descr_tags: "descr_tags small_journal (small_block 1) = [12]"
  unfolding descr_tags_def by (subst tag_list.simps) (simp add: small_eval)

lemma small_trans:
  "trans_at ok_env small_journal small_disk 7 1 [[Writes [(100, replicate 32 0xAB)]]] 4"
proof (rule trans_cons)
  have adv: "adv small_journal 1 = 2" "adv small_journal 2 = 3" "adv small_journal 3 = 4"
    by (simp_all add: adv_def wrap_def)
  have "data_at ok_env small_journal small_disk (small_block 1) [12] 2
      [(read_tag_block small_journal (small_block 1) 12,
        unescape (tag_flags (small_block 1) 12) (take 32 (small_block 2)))] 3"
    using data_cons [of ok_env small_journal small_disk 2 "small_block 2" "small_block 1" 12 "[]" "[]" 3]
    by (simp add: small_log_block jbd2_block_tag_csum_verify_def adv data_nil)
  moreover have "read_tag_block small_journal (small_block 1) 12 = 100"
    by (simp add: read_tag_block_def small_eval)
  moreover have "unescape (tag_flags (small_block 1) 12) (take 32 (small_block 2)) = replicate 32 0xAB"
    by (simp add: unescape_def small_eval)
  ultimately show "items_at ok_env small_journal small_disk 7 1 [Writes [(100, replicate 32 0xAB)]] 3"
    by (intro items_writes [where p = "small_block 1" and ?pos1.0 = 3])
      (simp_all add: small_log_block small_descr_tags adv items_nil jbd2_descr_block_csum_verify_def, simp_all add: small_eval)
  show "commit_at ok_env small_journal small_disk 7 3"
    by (simp add: commit_at_def small_log_block jbd2_commit_block_csum_verify_def) (simp add: small_eval)
  show "trans_at ok_env small_journal small_disk (7 + 1) (adv small_journal 3) [] 4"
    by (simp add: adv trans_nil)
qed

lemma small_tail: "items_at ok_env small_journal small_disk 8 4 [Revokes [100]] 5"
proof -
  have "revoke_records small_journal (small_block 4) = [100]"
    unfolding revoke_records_def by (subst revoke_list.simps, subst revoke_list.simps) (simp add: small_eval)
  moreover have "items_at ok_env small_journal small_disk 8 4 [Revokes (revoke_records small_journal (small_block 4))] 5"
    by (rule items_revokes)
      (simp_all add: small_log_block jbd2_revoke_block_csum_verify_def adv_def wrap_def items_nil, simp_all add: small_eval)
  ultimately show ?thesis by simp
qed

lemma small_recoverable:
  "recoverable ok_env small_journal small_disk [[Writes [(100, replicate 32 0xAB)]]] [Revokes [100]]"
proof -
  have "stop_at ok_env small_journal small_disk 8 5"
    by (simp add: stop_at_def small_log_block) (simp add: small_eval)
  moreover have "journal_ok small_journal" by (simp add: journal_ok_def) (simp add: small_journal_def)
  moreover have "avoids_journal small_journal t" for t
    by (simp add: avoids_journal_def journal_blocks_def) (simp add: small_journal_def)
  ultimately show ?thesis
    using small_trans small_tail
    by (auto simp: recoverable_def log_at_def log_pos_def small_table_ok small_table_empty)
qed

section \<open>Properties\<close>

text \<open>
  C7. Recovery applies the committed transactions and nothing else: on a log of complete transactions
  followed by an incomplete one, it returns, every block of the file system holds the last logged copy
  that no revocation of the same or a later committed transaction cancels (unless the device refuses
  to write that block), all other blocks are unchanged, and the next transaction number follows the
  last committed one.  The revoke table is empty again.  The result is the outcome of the flush alone.
\<close>

theorem recovery_replays_committed:
  assumes "recoverable env j d ts tail"
  shows "\<exists>j' d'. journal_recover env j d = Some (sync_blockdev env (j_fs_dev j), j', d')
    \<and> (\<forall>b. d' (j_fs_dev j) b =
         (if write_fails env (j_fs_dev j) b then d (j_fs_dev j) b
          else (case map_of (rev (survivors ts)) b of Some p \<Rightarrow> p | None \<Rightarrow> d (j_fs_dev j) b)))
    \<and> (\<forall>dev b. dev \<noteq> j_fs_dev j \<longrightarrow> d' dev b = d dev b)
    \<and> j_transaction_sequence j' = s_sequence (j_superblock j) + of_nat (length ts) + 1
    \<and> revoke_map (j_revoke j') = Map.empty"
proof -
  obtain j' where "journal_recover env j d =
      Some (sync_blockdev env (j_fs_dev j), j', fold (write_block env (j_fs_dev j)) (survivors ts) d)"
    "j_transaction_sequence j' = first_tid j + of_nat (length ts) + 1" "revoke_map (j_revoke j') = Map.empty"
    using journal_recover_fold [OF assms] by metis
  then show ?thesis by (auto simp: fold_write_block)
qed

theorem recovery_replays_committed_witness:
  "\<exists>j' d'. journal_recover ok_env small_journal small_disk = Some (None, j', d') \<and>
     d' K_DEV_FS 100 = replicate 32 0xAB \<and> d' K_DEV_FS 99 = replicate 32 1"
proof -
  have "survivors [[Writes [(100, replicate 32 0xAB)]]] = [(100, replicate 32 0xAB)]"
    by (simp add: writes_of_def item_writes_def revoked_in_def revokes_of_def item_revokes_def)
  with recovery_replays_committed [OF small_recoverable] show ?thesis
    by (auto simp: sync_blockdev_def ok_env_def small_disk_def)
qed

text \<open>
  Skipping recovery reads the log and writes nothing: the disk stays as it is, and the journal
  restarts after the last committed transaction.
\<close>

theorem skip_recovery_correct:
  assumes "recoverable env j d ts tail"
  shows "journal_skip_recovery env j d =
    Some (None, j\<lparr>j_transaction_sequence := s_sequence (j_superblock j) + of_nat (length ts) + 1, j_tail := 0\<rparr>, d)"
proof -
  obtain i where "do_one_pass env j no_info d PASS_SCAN = Some (None, j, i, d)"
    "end_transaction i = first_tid j + of_nat (length ts)"
    by (rule scan_pass [OF assms, of no_info]) (auto simp: no_info_def)
  then show ?thesis by (simp add: journal_skip_recovery_def)
qed

theorem skip_recovery_correct_witness:
  "journal_skip_recovery ok_env small_journal small_disk =
     Some (None, small_journal\<lparr>j_transaction_sequence := 9, j_tail := 0\<rparr>, small_disk)"
  using skip_recovery_correct [OF small_recoverable] by simp

text \<open>
  C9. Recovery need not return: on a log whose every block is a revoke block of the first expected
  transaction, the scan goes round the log forever, since it has no bound on the blocks it visits.
\<close>

theorem recovery_diverges:
  assumes "journal_ok j" "log_pos j (ucast (s_start (j_superblock j)))" "s_start (j_superblock j) \<noteq> 0"
    "\<forall>pos. log_pos j pos \<longrightarrow>
       (\<exists>p. log_block env j d pos = Some p \<and> header_is p JFS_REVOKE_BLOCK (s_sequence (j_superblock j)))"
  shows "journal_recover env j d = None"
proof -
  have "pass_at (pass_start PASS_SCAN j no_info d) j (first_tid j) (log_start j) 0 (j_revoke j, d)"
    using pass_start_at [of PASS_SCAN j no_info d] by (simp add: no_info_def)
  from endless_scan [OF assms(1) _ assms(2) this] assms(4) have
    "pass_loop env PASS_SCAN (pass_start PASS_SCAN j no_info d) = None" by blast
  with assms(3) show ?thesis by (simp add: journal_recover_def do_one_pass_def)
qed

definition looping_disk :: disk where
  "looping_disk dev b = pad_block (header_bytes JFS_REVOKE_BLOCK 7)"

theorem recovery_diverges_witness: "journal_recover ok_env small_journal looping_disk = None"
proof (rule recovery_diverges)
  show "journal_ok small_journal" using small_recoverable by (simp add: recoverable_def)
  show "\<forall>pos. log_pos small_journal pos \<longrightarrow> (\<exists>p. log_block ok_env small_journal looping_disk pos = Some p \<and>
          header_is p JFS_REVOKE_BLOCK (s_sequence (j_superblock small_journal)))"
  proof (intro allI impI)
    fix pos assume "log_pos small_journal pos"
    then have "pos < 6" by (simp add: log_pos_def)
    then have "log_block ok_env small_journal small_disk pos \<noteq> None" by (simp add: small_log_block)
    then have "log_block ok_env small_journal looping_disk pos = Some (pad_block (header_bytes JFS_REVOKE_BLOCK 7))"
      by (auto simp: log_block_def jread_eq looping_disk_def split: option.splits if_splits)
    then show "\<exists>p. log_block ok_env small_journal looping_disk pos = Some p \<and>
        header_is p JFS_REVOKE_BLOCK (s_sequence (j_superblock small_journal))"
      by (simp add: small_eval)
  qed
qed (simp_all add: log_pos_def)

text \<open>
  Reading the tags of a descriptor block stays inside the block: what the replay loop does, and
  what the counting loop of the other passes returns, depends on nothing of the block but its bytes
  before the checksum at its end; the tags counted fit between the header and that checksum; and replay
  passes over exactly as many log blocks as were counted, so that the passes agree on where the next
  block of the log is.
\<close>

theorem descriptor_tags_in_block:
  "let j = the_journal st; sz = j_blocksize j - descr_csum_size j
   in (\<forall>p'. take sz p' = take sz p \<longrightarrow> replay_tags env p' sz 12 st = replay_tags env p sz 12 st \<and> count_tags j p' = count_tags j p)
    \<and> journal_tag_bytes j * count_tags j p \<le> sz - 12
    \<and> next_log_block (replay_tags env p sz 12 st) = (adv j ^^ count_tags j p) (next_log_block st)"
  unfolding Let_def
proof (intro conjI allI impI)
  let ?sz = "j_blocksize (the_journal st) - descr_csum_size (the_journal st)"
  show "replay_tags env p' ?sz 12 st = replay_tags env p ?sz 12 st" "count_tags (the_journal st) p' = count_tags (the_journal st) p"
    if "take ?sz p' = take ?sz p" for p'
    unfolding count_tags_def by (rule replay_tags_take [OF that], simp) (rule count_tags_take [OF that], simp)
  show "journal_tag_bytes (the_journal st) * count_tags (the_journal st) p \<le> ?sz - 12"
    unfolding count_tags_eq descr_tags_def by (rule tag_list_length)
  show "next_log_block (replay_tags env p ?sz 12 st) = (adv (the_journal st) ^^ count_tags (the_journal st) p) (next_log_block st)"
    unfolding count_tags_eq descr_tags_def replay_tags_fold by (rule replay_fold_position)
qed

theorem descriptor_tags_in_block_witness:
  "replay_tags ok_env (small_block 1 @ [1, 2, 3]) 32 12 (pass_start PASS_REPLAY small_journal no_info small_disk) =
     replay_tags ok_env (small_block 1) 32 12 (pass_start PASS_REPLAY small_journal no_info small_disk)"
proof -
  let ?st = "pass_start PASS_REPLAY small_journal no_info small_disk"
  have j: "the_journal ?st = small_journal" by (simp add: pass_start_def Let_def)
  have "length (small_block 1) = 32" by (simp add: small_eval)
  then have "take 32 (small_block 1 @ [1, 2, 3]) = take 32 (small_block 1)" by simp
  moreover have "\<forall>p'. take 32 p' = take 32 (small_block 1) \<longrightarrow> replay_tags ok_env p' 32 12 ?st = replay_tags ok_env (small_block 1) 32 12 ?st"
    using descriptor_tags_in_block [of ?st "small_block 1" ok_env, unfolded Let_def j small_features diff_zero] by blast
  ultimately show ?thesis by blast
qed

end
