(* ===== verification/Recovery_Restart.thy ===== *)
theory Recovery_Restart
  imports Recovery_Props
begin

text \<open>
  Recovery that is interrupted.  A relation follows a run of \<open>journal_recover\<close> through its passes, the
  blocks of the log and the tags of a descriptor block, and says which disks there are on the way,
  with a block that is just being written holding anything.  Such a disk differs from the one before
  only in blocks that the whole run writes, so recovery can be run again.
\<close>

section \<open>The disks on the way\<close>

text \<open>
  In the tag loop \<open>replay_tags\<close>: before a tag, after it, or while its block is being written (which
  the code does when it counts a replayed block).
\<close>

inductive tags_disk :: "env \<Rightarrow> block \<Rightarrow> nat \<Rightarrow> nat \<Rightarrow> pass_state \<Rightarrow> disk \<Rightarrow> bool" for env p sz where
  tags_now: "tags_disk env p sz tag st (the_disk st)"
| tags_torn: "\<lbrakk>tag + journal_tag_bytes (the_journal st) \<le> sz;
     nr_replays (the_info (replay_tag env p tag st)) = nr_replays (the_info st) + 1\<rbrakk> \<Longrightarrow>
   tags_disk env p sz tag st
     (set_block (the_disk st) (j_fs_dev (the_journal st)) (read_tag_block (the_journal st) p tag) q)"
| tags_after: "tag + journal_tag_bytes (the_journal st) \<le> sz \<Longrightarrow>
   tags_disk env p sz tag st (the_disk (replay_tag env p tag st))"
| tags_next: "\<lbrakk>tag + journal_tag_bytes (the_journal st) \<le> sz; tag_flags p tag AND JFS_FLAG_LAST_TAG = 0;
     tags_disk env p sz (next_tag (the_journal st) p tag) (replay_tag env p tag st) d\<rbrakk> \<Longrightarrow>
   tags_disk env p sz tag st d"

text \<open>In the loop of a pass: at the beginning of a turn, inside the tag loop, at the end of the pass.\<close>

inductive pass_disk :: "env \<Rightarrow> passtype \<Rightarrow> pass_state \<Rightarrow> disk \<Rightarrow> bool" for env pass where
  pass_now: "pass_disk env pass st (the_disk st)"
| pass_tags: "\<lbrakk>pass = PASS_REPLAY; \<not> tid_geq (next_commit_ID st) (end_transaction (the_info st));
     jread env (the_journal st) (the_disk st) (ucast (next_log_block st)) = Inr bh;
     header_is (b_data bh) JFS_DESCRIPTOR_BLOCK (next_commit_ID st);
     descr_csum_size (the_journal st) = 0 \<or> jbd2_descr_block_csum_verify env (the_journal st) (b_data bh);
     tags_disk env (b_data bh) (j_blocksize (the_journal st) - descr_csum_size (the_journal st)) 12
       (st\<lparr>next_log_block := wrap (the_journal st) (next_log_block st + 1)\<rparr>) d\<rbrakk> \<Longrightarrow>
   pass_disk env pass st d"
| pass_next: "\<lbrakk>pass_step env pass st = Continue st'; pass_disk env pass st' d\<rbrakk> \<Longrightarrow> pass_disk env pass st d"
| pass_stops: "pass_step env pass st = Done st' \<Longrightarrow> pass_disk env pass st (the_disk st')"
| pass_fails: "pass_step env pass st = Failed err st' \<Longrightarrow> pass_disk env pass st (the_disk st')"

text \<open>In the whole recovery: during one of its passes, each of which starts when those before it went well.\<close>

inductive recover_disk :: "env \<Rightarrow> journal \<Rightarrow> disk \<Rightarrow> disk \<Rightarrow> bool" for env j d where
  in_none: "recover_disk env j d d"
| in_scan: "\<lbrakk>s_start (j_superblock j) \<noteq> 0; pass_disk env PASS_SCAN (pass_start PASS_SCAN j no_info d) d2\<rbrakk> \<Longrightarrow>
   recover_disk env j d d2"
| in_revoke: "\<lbrakk>s_start (j_superblock j) \<noteq> 0; do_one_pass env j no_info d PASS_SCAN = Some (None, j1, i1, d1);
     pass_disk env PASS_REVOKE (pass_start PASS_REVOKE j1 i1 d1) d2\<rbrakk> \<Longrightarrow>
   recover_disk env j d d2"
| in_replay: "\<lbrakk>s_start (j_superblock j) \<noteq> 0; do_one_pass env j no_info d PASS_SCAN = Some (None, j1, i1, d1);
     do_one_pass env j1 i1 d1 PASS_REVOKE = Some (None, j', i', d');
     pass_disk env PASS_REPLAY (pass_start PASS_REPLAY j' i' d') d2\<rbrakk> \<Longrightarrow>
   recover_disk env j d d2"

section \<open>The end of a run is one of its disks\<close>

lemma pass_loop_disk:
  "pass_loop env pass st = Some (err, st') \<Longrightarrow> pass_disk env pass st (the_disk st')"
proof -
  assume r: "pass_loop env pass st = Some (err, st')"
  have "pass_disk env pass st (the_disk (snd y))" if "pass_loop env pass st = Some y" for y
  proof (rule pass_loop.raw_induct [where P = "\<lambda>env pass st y. pass_disk env pass st (the_disk (snd y))", OF _ that])
    fix pl env pass st y
    assume IH: "\<And>env pass st y. pl env pass st = Some y \<Longrightarrow> pass_disk env pass st (the_disk (snd y))"
      and step: "(case pass_step env pass st of Continue st' \<Rightarrow> pl env pass st' | Done st' \<Rightarrow> Some (pass_done pass st')
         | Failed err st' \<Rightarrow> Some (Some err, st')) = Some (y :: jbd_err option \<times> pass_state)"
    have "the_disk (snd (pass_done pass st)) = the_disk st" for st by (simp add: pass_done_def Let_def)
    with step show "pass_disk env pass st (the_disk (snd y))"
      by (cases "pass_step env pass st") (auto intro: pass_next pass_stops pass_fails dest: IH)
  qed
  with r show ?thesis by force
qed

lemma do_one_pass_disk:
  "do_one_pass env j info d pass = Some (err, j', info', d') \<Longrightarrow> pass_disk env pass (pass_start pass j info d) d'"
  using pass_loop_disk by (auto simp: do_one_pass_def)

lemma journal_recover_disk:
  assumes "journal_recover env j d = Some (err, j', d')"
  shows "recover_disk env j d d'"
proof (cases "s_start (j_superblock j) = 0")
  case True
  with assms show ?thesis by (simp add: journal_recover_def in_none)
next
  case False
  with assms obtain e1 j1 i1 d1 where 1: "do_one_pass env j no_info d PASS_SCAN = Some (e1, j1, i1, d1)"
    by (auto simp: journal_recover_def split: option.splits)
  show ?thesis
  proof (cases e1)
    case (Some e)
    with 1 False assms have "d' = d1" by (auto simp: journal_recover_def then_pass_def recover_end_def Let_def)
    with do_one_pass_disk [OF 1] False show ?thesis by (auto intro: in_scan)
  next
    case None
    with assms 1 False obtain e2 j2 i2 d2 where 2: "do_one_pass env j1 i1 d1 PASS_REVOKE = Some (e2, j2, i2, d2)"
      by (auto simp: journal_recover_def then_pass_def split: option.splits)
    show ?thesis
    proof (cases e2)
      case (Some e)
      with 1 2 None False assms have "d' = d2" by (auto simp: journal_recover_def then_pass_def recover_end_def Let_def)
      with do_one_pass_disk [OF 2] 1 None False show ?thesis by (auto intro: in_revoke)
    next
      case None2: None
      with assms 1 2 None False have "\<exists>e3 j3 i3. do_one_pass env j2 i2 d2 PASS_REPLAY = Some (e3, j3, i3, d')"
        by (auto simp: journal_recover_def then_pass_def recover_end_def Let_def)
      with 1 2 None None2 False show ?thesis by (blast intro: in_replay do_one_pass_disk)
    qed
  qed
qed

section \<open>The first two passes change no disk\<close>

lemma pass_step_disk:
  assumes "pass \<noteq> PASS_REPLAY"
  shows "case pass_step env pass st of Continue st' \<Rightarrow> the_disk st' = the_disk st | Done st' \<Rightarrow> the_disk st' = the_disk st
    | Failed err st' \<Rightarrow> the_disk st' = the_disk st"
  using assms
  by (auto simp: pass_step_def descriptor_step_def commit_step_def commit_end_def revoke_step_def Let_def
      split: sum.split outcome.split prod.split if_split)

lemma pass_step_end:
  "pass_step env pass st = Done st' \<or> pass_step env pass st = Failed err st' \<Longrightarrow> the_disk st' = the_disk st"
  by (auto simp: pass_step_def descriptor_step_def commit_step_def commit_end_def revoke_step_def Let_def
      split: sum.splits prod.splits if_splits)

lemma pass_disk_reads:
  "pass_disk env pass st d \<Longrightarrow> pass \<noteq> PASS_REPLAY \<Longrightarrow> d = the_disk st"
proof (induction rule: pass_disk.induct)
  case (pass_next st st' d)
  then show ?case using pass_step_disk [where pass = pass and env = env and st = st] by simp
qed (use pass_step_end in blast)+

section \<open>The replay pass stays within the blocks to write\<close>

text \<open>The disks \<open>d\<close> and \<open>d2\<close> differ only in the blocks \<open>S\<close> of the file system.\<close>

definition within :: "journal \<Rightarrow> u64 set \<Rightarrow> disk \<Rightarrow> disk \<Rightarrow> bool" where
  "within j S d d2 = (\<forall>dev b. d2 dev b \<noteq> d dev b \<longrightarrow> dev = j_fs_dev j \<and> b \<in> S)"

lemma within_refl [simp]: "within j S d d"
  by (simp add: within_def)

lemma within_set_block: "within j S d d1 \<Longrightarrow> b \<in> S \<Longrightarrow> within j S d (set_block d1 (j_fs_dev j) b q)"
  by (auto simp: within_def set_block_def)

lemma within_writes:
  "within j S d d1 \<Longrightarrow> fst ` set ws \<subseteq> S \<Longrightarrow> within j S d (fold (write_block env (j_fs_dev j)) ws d1)"
  by (induction ws arbitrary: d1) (auto simp: write_block_def intro!: within_set_block)

lemma within_same_log: "within j S d d1 \<Longrightarrow> \<forall>b\<in>S. (j_fs_dev j, b) \<notin> journal_blocks j \<Longrightarrow> same_log j d d1"
  by (fastforce simp: within_def same_log_def)

text \<open>One tag whose data block is in the log, then the tag loop.\<close>

lemma tag_within:
  assumes "tag + journal_tag_bytes (the_journal st) \<le> sz" "data_at env j d0 p (tag_list j p sz tag) pos ws pos'"
    "pass_at st j s pos e (t, d)" "within j S d0 d" "\<forall>b\<in>S. (j_fs_dev j, b) \<notin> journal_blocks j"
    "fst ` set (filter (\<lambda>w. \<not> journal_test_revoke t (fst w) s) ws) \<subseteq> S"
  obtains d1 ws' where "pass_at (replay_tag env p tag st) j s (adv j pos) e (t, d1)" "within j S d0 d1"
    "tag_flags p tag AND JFS_FLAG_LAST_TAG = 0 \<longrightarrow>
       data_at env j d0 p (tag_list j p sz (next_tag j p tag)) (adv j pos) ws' pos'"
    "fst ` set (filter (\<lambda>w. \<not> journal_test_revoke t (fst w) s) ws') \<subseteq> S"
    "journal_test_revoke t (read_tag_block j p tag) s \<or> read_tag_block j p tag \<in> S"
proof -
  let ?b = "read_tag_block j p tag"
  have "tag + journal_tag_bytes j \<le> sz" using assms(1,3) by (simp add: pass_at_def)
  then have tl: "tag_list j p sz tag = tag # (if tag_flags p tag AND JFS_FLAG_LAST_TAG \<noteq> 0 then [] else tag_list j p sz (next_tag j p tag))"
    by (subst tag_list.simps) simp
  obtain q ws' where q: "log_block env j d0 pos = Some q" "jbd2_block_tag_csum_verify env j p tag q (get_be32 p 8)"
    "ws = (?b, unescape (tag_flags p tag) (take (j_blocksize j) q)) # ws'"
    "data_at env j d0 p (if tag_flags p tag AND JFS_FLAG_LAST_TAG \<noteq> 0 then [] else tag_list j p sz (next_tag j p tag)) (adv j pos) ws' pos'"
    using assms(2) unfolding tl data_at_Cons by blast
  have w: "journal_test_revoke t ?b s \<or> ?b \<in> S" using assms(6) by (auto simp: q(3) split: if_splits)
  have r: "within j S d0 (if journal_test_revoke t ?b s then d
      else write_block env (j_fs_dev j) (?b, unescape (tag_flags p tag) (take (j_blocksize j) q)) d)"
    using w assms(4) by (auto simp: write_block_def within_set_block)
  have "fst ` set (filter (\<lambda>w. \<not> journal_test_revoke t (fst w) s) ws') \<subseteq> S"
    using assms(6) by (auto simp: q(3) split: if_splits)
  with q(4) w show thesis
    by (intro that [OF replay_tag_at [OF assms(3) within_same_log [OF assms(4,5)] q(1,2)] r, of ws']) auto
qed

lemma tags_disk_within:
  assumes "tags_disk env p sz tag st d2" "data_at env j d0 p (tag_list j p sz tag) pos ws pos'"
    "pass_at st j s pos e (t, d)" "within j S d0 d" "\<forall>b\<in>S. (j_fs_dev j, b) \<notin> journal_blocks j"
    "fst ` set (filter (\<lambda>w. \<not> journal_test_revoke t (fst w) s) ws) \<subseteq> S"
  shows "within j S d0 d2"
  using assms
proof (induction arbitrary: pos ws d rule: tags_disk.induct)
  case (tags_now tag st)
  then show ?case by (simp add: pass_at_def)
next
  case (tags_torn tag st q)
  have j: "the_journal st = j\<lparr>j_revoke := t\<rparr>" "the_disk st = d" "next_commit_ID st = s"
    using tags_torn.prems(2) by (simp_all add: pass_at_def)
  have "\<not> journal_test_revoke t (read_tag_block j p tag) s"
    using tags_torn.hyps(2) by (auto simp: replay_tag_def Let_def j split: sum.splits if_splits)
  with tag_within [OF tags_torn.hyps(1) tags_torn.prems] have "read_tag_block j p tag \<in> S" by metis
  with tags_torn.prems(3) show ?case by (simp add: j within_set_block)
next
  case (tags_after tag st)
  obtain d1 where "pass_at (replay_tag env p tag st) j s (adv j pos) e (t, d1)" "within j S d0 d1"
    using tag_within [OF tags_after.hyps(1) tags_after.prems] by metis
  then show ?case by (simp add: pass_at_def)
next
  case (tags_next tag st d2)
  have j: "next_tag (the_journal st) = next_tag j" using tags_next.prems(2) by (simp add: pass_at_def)
  obtain d1 ws' where "pass_at (replay_tag env p tag st) j s (adv j pos) e (t, d1)" "within j S d0 d1"
    "data_at env j d0 p (tag_list j p sz (next_tag j p tag)) (adv j pos) ws' pos'"
    "fst ` set (filter (\<lambda>w. \<not> journal_test_revoke t (fst w) s) ws') \<subseteq> S"
    using tag_within [OF tags_next.hyps(1) tags_next.prems] tags_next.hyps(2) by metis
  with tags_next.IH [unfolded j] tags_next.prems(4) show ?case by blast
qed

text \<open>
  A state of the replay pass inside the log: items of a transaction, its commit block and more
  transactions lie ahead, or nothing does.  What is yet to be written is in \<open>S\<close>.
\<close>

fun kept :: "revoke_table \<Rightarrow> tid \<Rightarrow> log_trans list \<Rightarrow> (u64 \<times> block) list" where
  "kept t s [] = []"
| "kept t s (x # ts) = filter (\<lambda>w. \<not> journal_test_revoke t (fst w) s) (writes_of x) @ kept t (s + 1) ts"

definition ahead :: "env \<Rightarrow> journal \<Rightarrow> disk \<Rightarrow> u64 set \<Rightarrow> tid \<Rightarrow> revoke_table \<Rightarrow> pass_state \<Rightarrow> log_trans list \<Rightarrow> bool" where
  "ahead env j d0 S e t st ts =
     (\<exists>s pos d. pass_at st j s pos e (t, d) \<and> within j S d0 d \<and> log_pos j pos \<and> length ts < 2 ^ 31 \<and>
        e = s + of_nat (length ts) \<and> fst ` set (kept t s ts) \<subseteq> S \<and> (\<forall>x\<in>set ts. avoids_journal j x) \<and>
        (\<exists>pos'. trans_at env j d0 s pos ts pos'))"

lemma kept_survivors:
  assumes "\<And>k b. k < length ts \<Longrightarrow> journal_test_revoke t b (s + of_nat k) \<longleftrightarrow> b \<in> revoked_in (drop k ts)"
  shows "kept t s ts = survivors ts"
  using assms
proof (induction ts arbitrary: s)
  case (Cons x ts)
  have "filter (\<lambda>w. \<not> journal_test_revoke t (fst w) s) (writes_of x) = filter (\<lambda>w. fst w \<notin> revoked_in (x # ts)) (writes_of x)"
    using Cons.prems [of 0] by simp
  moreover have "journal_test_revoke t b (s + 1 + of_nat k) \<longleftrightarrow> b \<in> revoked_in (drop k ts)" if "k < length ts" for k b
    using Cons.prems [of "Suc k" b] that by (simp add: add.assoc)
  ultimately show ?case using Cons.IH [of "s + 1"] by simp
qed simp

lemma ahead_Cons:
  assumes "ahead env j d0 S e t st (x # ts)"
  obtains s pos d pos1 pos' where "pass_at st j s pos e (t, d)" "within j S d0 d" "log_pos j pos" "goes_on PASS_REPLAY s e"
    "items_at env j d0 s pos x pos1" "commit_at env j d0 s pos1" "trans_at env j d0 (s + 1) (adv j pos1) ts pos'"
    "fst ` set (filter (\<lambda>w. \<not> journal_test_revoke t (fst w) s) (writes_of x)) \<subseteq> S" "fst ` set (kept t (s + 1) ts) \<subseteq> S"
    "Suc (length ts) < 2 ^ 31" "e = s + 1 + of_nat (length ts)" "\<forall>x\<in>set ts. avoids_journal j x" "avoids_journal j x"
proof -
  obtain s pos d pos' where a: "pass_at st j s pos e (t, d)" "within j S d0 d" "log_pos j pos" "length (x # ts) < 2 ^ 31"
    "e = s + of_nat (length (x # ts))" "fst ` set (kept t s (x # ts)) \<subseteq> S" "\<forall>x\<in>set (x # ts). avoids_journal j x"
    "trans_at env j d0 s pos (x # ts) pos'"
    using assms by (auto simp: ahead_def)
  have "goes_on PASS_REPLAY s e"
    using tid_geq_of_nat [of 0 "length (x # ts)" s] a(4) by (simp add: goes_on_def a(5))
  moreover obtain pos1 where "items_at env j d0 s pos x pos1" "commit_at env j d0 s pos1"
    "trans_at env j d0 (s + 1) (adv j pos1) ts pos'"
    using a(8) by (cases rule: trans_at.cases) auto
  ultimately show thesis
    using a(4-7) by (intro that [OF a(1-3)]) (simp_all add: add.assoc image_Un)
qed

lemma ahead_step:
  assumes "ahead env j d0 S e t st ts" "pass_step env PASS_REPLAY st = Continue st'"
    "journal_ok j" "\<not> jfs_has_feature_checksum j" "\<forall>b\<in>S. (j_fs_dev j, b) \<notin> journal_blocks j"
  shows "\<exists>ts'. ahead env j d0 S e t st' ts'"
proof (cases ts)
  case Nil
  then obtain s pos d where "pass_at st j s pos e (t, d)" "e = s" using assms(1) by (auto simp: ahead_def)
  then have "pass_step env PASS_REPLAY st = Done st" by (simp add: pass_step_def pass_at_def tid_geq_def Let_def)
  with assms(2) show ?thesis by simp
next
  case (Cons x ts1)
  from assms(1) obtain s pos d pos1 pos' where a: "pass_at st j s pos e (t, d)" "within j S d0 d" "log_pos j pos"
    "goes_on PASS_REPLAY s e" "items_at env j d0 s pos x pos1" "commit_at env j d0 s pos1"
    "trans_at env j d0 (s + 1) (adv j pos1) ts1 pos'"
    "fst ` set (filter (\<lambda>w. \<not> journal_test_revoke t (fst w) s) (writes_of x)) \<subseteq> S" "fst ` set (kept t (s + 1) ts1) \<subseteq> S"
    "Suc (length ts1) < 2 ^ 31" "e = s + 1 + of_nat (length ts1)" "\<forall>x\<in>set ts1. avoids_journal j x" "avoids_journal j x"
    unfolding Cons by (rule ahead_Cons)
  have sl: "same_log j d0 (snd (t, d))" using within_same_log [OF a(2) assms(5)] by simp
  note block = pass_step_block [OF a(1) sl a(4)]
  have adv: "log_pos j (adv j pos)" by (rule log_pos_adv [OF assms(3) a(3)])
  have go: "\<exists>ts'. ahead env j d0 S e t st' ts'"
    if "pass_at st' j s pos2 e (t, d2)" "within j S d0 d2" "log_pos j pos2" "items_at env j d0 s pos2 items pos1"
      "writes_of x = ws @ writes_of items" "\<forall>i\<in>set items. i \<in> set x" for pos2 d2 items ws
  proof -
    have "trans_at env j d0 s pos2 (items # ts1) pos'" by (rule trans_cons [OF that(4) a(6,7)])
    moreover have "fst ` set (kept t s (items # ts1)) \<subseteq> S" using a(8,9) that(5) by (auto simp: image_Un)
    moreover have "avoids_journal j items" using a(13) that(6) by (auto simp: avoids_journal_def)
    ultimately have "ahead env j d0 S e t st' (items # ts1)"
      unfolding ahead_def
      by (intro exI [of _ s] exI [of _ pos2] exI [of _ d2] conjI exI [of _ pos'])
        (use that(1-3) a(10-12) in \<open>simp_all add: add.assoc\<close>)
    then show ?thesis by blast
  qed
  from a(5) show ?thesis
  proof (cases rule: items_at.cases)
    case items_nil
    obtain p where p: "log_block env j d0 pos = Some p" "header_is p JFS_COMMIT_BLOCK s" "jbd2_commit_block_csum_verify env j p"
      using a(6) items_nil by (auto simp: commit_at_def split: option.splits)
    obtain bh where bh: "pass_at (st\<lparr>next_log_block := adv j pos\<rparr>) j s (adv j pos) e (t, d)"
      "pass_step env PASS_REPLAY st = commit_step env PASS_REPLAY p (st\<lparr>next_log_block := adv j pos\<rparr>)"
      using block [OF p(1)] p(2) by (auto simp: header_is_def)
    from commit_step_at [OF bh(1) assms(4) p(3)] bh(2) assms(2) have "pass_at st' j (s + 1) (adv j pos) e (t, d)"
      by (metis outcome.inject(1))
    with a items_nil adv have "ahead env j d0 S e t st' ts1"
      unfolding ahead_def by (intro exI [of _ "s + 1"] exI [of _ "adv j pos"] exI [of _ d]) auto
    then show ?thesis by blast
  next
    case (items_writes p ws pos2 items)
    obtain bh where bh: "b_data bh = p" "pass_at (st\<lparr>next_log_block := adv j pos\<rparr>) j s (adv j pos) e (t, d)"
      "pass_step env PASS_REPLAY st = descriptor_step env PASS_REPLAY bh (st\<lparr>next_log_block := adv j pos\<rparr>)"
      using block [OF items_writes(2)] items_writes(3) by (auto simp: header_is_def)
    have av: "\<forall>w\<in>set ws. (j_fs_dev j, fst w) \<notin> journal_blocks j"
      using a(13) items_writes(1) by (auto simp: avoids_journal_def item_writes_def)
    let ?d = "fold (write_block env (j_fs_dev j)) (filter (\<lambda>w. \<not> journal_test_revoke t (fst w) s) ws) d"
    obtain st1 where "descriptor_step env PASS_REPLAY bh (st\<lparr>next_log_block := adv j pos\<rparr>) = Continue st1"
      "pass_at st1 j s pos2 e (item_effect env (j_fs_dev j) PASS_REPLAY s (Writes ws) (t, d))"
      by (rule descriptor_step_at [OF bh(2) _ assms(4) _ assms(3) adv, where ?d0.0 = d0 and bh = bh and ws = ws and pos' = pos2 and pass = PASS_REPLAY and env = env])
        (use items_writes sl av bh(1) in auto)
    with bh(3) assms(2) have st': "pass_at st' j s pos2 e (t, ?d)" by simp
    have w: "writes_of x = ws @ writes_of items" by (simp add: writes_of_def items_writes(1) item_writes_def)
    have "within j S d0 ?d" using a(2,8) by (intro within_writes) (auto simp: w image_Un)
    moreover have "log_pos j pos2" using data_at_advs [OF items_writes(6)] log_pos_advs [OF assms(3) adv] by simp
    ultimately show ?thesis by (rule go [OF st' _ _ items_writes(7) w]) (simp add: items_writes(1))
  next
    case (items_revokes p items)
    obtain bh where bh: "pass_at (st\<lparr>next_log_block := adv j pos\<rparr>) j s (adv j pos) e (t, d)"
      "pass_step env PASS_REPLAY st = revoke_step env PASS_REPLAY p (st\<lparr>next_log_block := adv j pos\<rparr>)"
      using block [OF items_revokes(2)] items_revokes(3) by (auto simp: header_is_def)
    then have "pass_at st' j s (adv j pos) e (t, d)" using assms(2) by (simp add: revoke_step_def)
    then show ?thesis
      by (rule go [OF _ a(2) adv items_revokes(6), of "[]"]) (simp_all add: items_revokes(1) writes_of_def item_writes_def)
  qed
qed

lemma ahead_tags:
  assumes "ahead env j d0 S e t st ts" "journal_ok j" "\<forall>b\<in>S. (j_fs_dev j, b) \<notin> journal_blocks j"
    "\<not> tid_geq (next_commit_ID st) (end_transaction (the_info st))"
    "jread env (the_journal st) (the_disk st) (ucast (next_log_block st)) = Inr bh"
    "header_is (b_data bh) JFS_DESCRIPTOR_BLOCK (next_commit_ID st)"
    "tags_disk env (b_data bh) (j_blocksize (the_journal st) - descr_csum_size (the_journal st)) 12
       (st\<lparr>next_log_block := wrap (the_journal st) (next_log_block st + 1)\<rparr>) d2"
  shows "within j S d0 d2"
proof (cases ts)
  case Nil
  then obtain s pos d where "pass_at st j s pos e (t, d)" "e = s" using assms(1) by (auto simp: ahead_def)
  with assms(4) show ?thesis by (simp add: pass_at_def tid_geq_def)
next
  case (Cons x ts1)
  from assms(1) obtain s pos d pos1 where a: "pass_at st j s pos e (t, d)" "within j S d0 d"
    "items_at env j d0 s pos x pos1" "commit_at env j d0 s pos1"
    "fst ` set (filter (\<lambda>w. \<not> journal_test_revoke t (fst w) s) (writes_of x)) \<subseteq> S"
    unfolding Cons by (rule ahead_Cons)
  have st: "the_journal st = j\<lparr>j_revoke := t\<rparr>" "the_disk st = d" "next_log_block st = pos" "next_commit_ID st = s"
    using a(1) by (simp_all add: pass_at_def)
  have b: "log_block env j d0 pos = Some (b_data bh)"
    using assms(5) jread_same_log [OF within_same_log [OF a(2) assms(3)]] by (simp add: log_block_def st)
  obtain ws pos2 items where x: "x = Writes ws # items"
    "data_at env j d0 (b_data bh) (descr_tags j (b_data bh)) (adv j pos) ws pos2"
    using a(3)
  proof (cases rule: items_at.cases)
    case items_nil
    with a(4) b assms(6) show ?thesis by (simp add: commit_at_def header_is_def st)
  next
    case (items_writes p ws pos2 items)
    with b that show ?thesis by simp
  next
    case (items_revokes p items)
    with b assms(6) show ?thesis by (simp add: header_is_def st)
  qed
  have "pass_at (st\<lparr>next_log_block := adv j pos\<rparr>) j s (adv j pos) e (t, d)" using a(1) by (simp add: pass_at_def)
  moreover have "fst ` set (filter (\<lambda>w. \<not> journal_test_revoke t (fst w) s) ws) \<subseteq> S"
    using a(5) by (simp add: x(1) writes_of_def item_writes_def image_Un)
  ultimately show ?thesis
    using tags_disk_within [OF _ x(2) [unfolded descr_tags_def] _ a(2) assms(3)] assms(7) by (simp add: st adv_def)
qed

lemma replay_disk_within:
  assumes "pass_disk env PASS_REPLAY st d2" "ahead env j d0 S e t st ts"
    "journal_ok j" "\<not> jfs_has_feature_checksum j" "\<forall>b\<in>S. (j_fs_dev j, b) \<notin> journal_blocks j"
  shows "within j S d0 d2"
  using assms
proof (induction st d2 arbitrary: ts rule: pass_disk.induct)
  case (pass_now st)
  then show ?case by (auto simp: ahead_def pass_at_def)
next
  case (pass_tags st bh d)
  then show ?case by (intro ahead_tags [of env j d0 S e t st ts bh])
next
  case (pass_next st st' d)
  then show ?case using ahead_step by blast
next
  case (pass_stops st st')
  then have "the_disk st' = the_disk st" using pass_step_end by blast
  with pass_stops.prems(1) show ?case by (auto simp: ahead_def pass_at_def)
next
  case (pass_fails st err st')
  then have "the_disk st' = the_disk st" using pass_step_end by blast
  with pass_fails.prems(1) show ?case by (auto simp: ahead_def pass_at_def)
qed

section \<open>Recovery again\<close>

lemma recover_disk_within:
  assumes "recoverable env j d ts tail" "recover_disk env j d d2"
  shows "within j (fst ` set (survivors ts)) d d2"
  using assms(2)
proof (cases rule: recover_disk.cases)
  case in_scan
  then have "d2 = d" by (auto dest: pass_disk_reads simp: pass_start_def Let_def)
  then show ?thesis by simp
next
  case (in_revoke j1 i1 d1)
  obtain i where "do_one_pass env j no_info d PASS_SCAN = Some (None, j, i, d)"
    by (rule scan_pass [OF assms(1), of no_info]) (simp_all add: no_info_def)
  with in_revoke have "d2 = d" by (auto dest: pass_disk_reads simp: pass_start_def Let_def)
  then show ?thesis by simp
next
  case (in_replay j1 i1 d1 j' i' d')
  let ?t = "rv.set_all (j_revoke j) (revoke_series (first_tid j) ts)"
  let ?e = "first_tid j + of_nat (length ts)"
  from assms(1) have j: "table_ok (j_revoke j)" "revoke_map (j_revoke j) = Map.empty" "length ts < 2 ^ 31"
    "journal_ok j" "\<not> jfs_has_feature_checksum j"
    by (auto simp: recoverable_def)
  obtain i where i: "do_one_pass env j no_info d PASS_SCAN = Some (None, j, i, d)" "end_transaction i = ?e"
    by (rule scan_pass [OF assms(1), of no_info]) (auto simp: no_info_def)
  obtain i2 where i2: "do_one_pass env (j\<lparr>j_revoke := j_revoke j\<rparr>) i d PASS_REVOKE = Some (None, j\<lparr>j_revoke := ?t\<rparr>, i2, d)"
    "end_transaction i2 = end_transaction i"
    by (rule later_pass [OF assms(1) _ i(2), of PASS_REVOKE "j_revoke j" ?t d]) (simp_all add: trans_effect_revoke)
  have r: "j' = j\<lparr>j_revoke := ?t\<rparr>" "i' = i2" "d' = d" using in_replay i i2 by auto
  obtain pos pos' where l: "log_pos j (log_start j)" "trans_at env j d (first_tid j) (log_start j) ts pos"
    using assms(1) by (auto simp: recoverable_def log_at_def)
  have "pass_at (pass_start PASS_REPLAY j' i' d') j (first_tid j) (log_start j) ?e (?t, d)"
    using i(2) i2(2) by (simp add: r pass_at_def pass_start_def Let_def)
  moreover have "kept ?t (first_tid j) ts = survivors ts"
    using revoke_pass_table [OF j(1-3)] by (intro kept_survivors) auto
  moreover have "\<forall>t\<in>set ts. avoids_journal j t" using assms(1) by (simp add: recoverable_def)
  ultimately have "ahead env j d (fst ` set (survivors ts)) ?e ?t (pass_start PASS_REPLAY j' i' d') ts"
    using l j(3) unfolding ahead_def
    by (intro exI [of _ "first_tid j"] exI [of _ "log_start j"] exI [of _ d] conjI exI [of _ pos]) simp_all
  then show ?thesis
    using replay_disk_within [OF in_replay(4) _ j(4,5)] survivors_avoid [OF assms(1)] by blast
qed simp

lemma restart_agrees:
  assumes "recoverable env j d ts tail" "\<forall>b. \<not> write_fails env (j_fs_dev j) b" "within j (fst ` set (survivors ts)) d d2"
  shows "recoverable env j d2 ts tail"
    and "fold (write_block env (j_fs_dev j)) (survivors ts) d2 = fold (write_block env (j_fs_dev j)) (survivors ts) d"
proof -
  have "same_log j d d2" using within_same_log [OF assms(3)] survivors_avoid [OF assms(1)] by blast
  with assms(1) show "recoverable env j d2 ts tail" by (rule recoverable_same_log)
  show "fold (write_block env (j_fs_dev j)) (survivors ts) d2 = fold (write_block env (j_fs_dev j)) (survivors ts) d"
    using assms(2,3) by (intro fold_write_blocks_agree) (auto simp: within_def)
qed

text \<open>
  C8. An interrupted recovery can be repeated: when any number of runs are cut off one after the other,
  each at any point of its passes, also while a block of the file system is being written (which then
  may hold anything), the log is still intact, and the run that is not cut off ends with the same disk
  and the same result as one on the disk before the first of them, provided that no write fails.  (The
  end of a complete run is one of the disks of the relation, too.)
\<close>

theorem recovery_restartable:
  assumes "recoverable env j d ts tail" "\<forall>b. \<not> write_fails env (j_fs_dev j) b" "(recover_disk env j)\<^sup>*\<^sup>* d d2"
  shows "recoverable env j d2 ts tail \<and> (\<exists>e j1 j2 d'. journal_recover env j d = Some (e, j1, d') \<and>
           journal_recover env j d2 = Some (e, j2, d') \<and> recover_disk env j d2 d')"
proof -
  let ?W = "fold (write_block env (j_fs_dev j)) (survivors ts)"
  have r: "recoverable env j d2 ts tail \<and> ?W d2 = ?W d"
    using assms(3)
  proof (induction rule: rtranclp_induct)
    case (step d1 d2)
    then have d1: "recoverable env j d1 ts tail" by simp
    from restart_agrees [OF d1 assms(2) recover_disk_within [OF d1 step.hyps(2)]] step.IH show ?case by simp
  qed (simp add: assms(1))
  then show ?thesis
    using journal_recover_fold [OF assms(1)] journal_recover_fold [of env j d2 ts tail] journal_recover_disk [of env j d2] by metis
qed

text \<open>The small journal, when the run is cut off while block 100 is being written.\<close>

lemma small_torn: "recover_disk ok_env small_journal small_disk (set_block small_disk K_DEV_FS 100 [1, 2, 3])"
proof -
  let ?j = "small_journal"
  obtain i where i: "do_one_pass ok_env ?j no_info small_disk PASS_SCAN = Some (None, ?j, i, small_disk)" "end_transaction i = 8"
    by (rule scan_pass [OF small_recoverable, of no_info]) (auto simp: no_info_def)
  have j: "?j\<lparr>j_revoke := small_table\<rparr> = ?j" by (simp add: small_journal_def)
  obtain i2 where "do_one_pass ok_env (?j\<lparr>j_revoke := small_table\<rparr>) i small_disk PASS_REVOKE =
      Some (None, ?j\<lparr>j_revoke := small_table\<rparr>, i2, small_disk)" "end_transaction i2 = end_transaction i"
    by (rule later_pass [OF small_recoverable, of PASS_REVOKE i small_table small_table small_disk])
      (simp_all add: i(2) items_effect_revoke revokes_of_def item_revokes_def)
  then have i2: "do_one_pass ok_env ?j i small_disk PASS_REVOKE = Some (None, ?j, i2, small_disk)" "end_transaction i2 = 8"
    by (simp_all add: j i(2))
  define st where "st = pass_start PASS_REPLAY ?j i2 small_disk"
  have st: "the_journal st = ?j" "the_disk st = small_disk" "next_log_block st = 1" "next_commit_ID st = 7"
    "end_transaction (the_info st) = 8"
    using i2(2) by (simp_all add: st_def pass_start_def Let_def)
  obtain bh where bh: "jread ok_env ?j small_disk (ucast (1 :: u64)) = Inr bh" "b_data bh = small_block 1"
    using log_block_Some [OF small_log_block [of 1]] by auto
  obtain bh2 where bh2: "jread ok_env ?j small_disk (ucast (2 :: u64)) = Inr bh2" "b_data bh2 = small_block 2"
    using log_block_Some [OF small_log_block [of 2]] by auto
  let ?st = "st\<lparr>next_log_block := 2\<rparr>"
  have b100: "read_tag_block ?j (small_block 1) 12 = 100" by (simp add: read_tag_block_def small_eval)
  have nr: "\<not> journal_test_revoke small_table b s" for b s
    by (simp add: rv.test_revoked [OF small_table_ok] small_table_empty)
  have "nr_replays (the_info (replay_tag ok_env (small_block 1) 12 ?st)) = nr_replays (the_info ?st) + 1"
    using bh2 nr by (simp add: replay_tag_def Let_def st jbd2_block_tag_csum_verify_def)
  then have "tags_disk ok_env (small_block 1) 32 12 ?st (set_block small_disk K_DEV_FS 100 [1, 2, 3])"
    using tags_torn [of 12 ?st 32 ok_env "small_block 1" "[1, 2, 3]"] by (simp add: st b100)
  then have "pass_disk ok_env PASS_REPLAY st (set_block small_disk K_DEV_FS 100 [1, 2, 3])"
    using bh by (intro pass_tags [of _ st ok_env bh]) (simp_all add: st tid_geq_def wrap_def, simp_all add: small_eval)
  with i i2 show ?thesis
    unfolding st_def by (intro in_replay) simp_all
qed

theorem recovery_restartable_witness:
  "\<exists>e j1 j2 d'. journal_recover ok_env small_journal small_disk = Some (e, j1, d') \<and>
     journal_recover ok_env small_journal (set_block small_disk K_DEV_FS 100 [1, 2, 3]) = Some (e, j2, d')"
proof -
  have "\<forall>b. \<not> write_fails ok_env (j_fs_dev small_journal) b" by (simp add: ok_env_def)
  from recovery_restartable [OF small_recoverable this r_into_rtranclp [where r = "recover_disk ok_env small_journal", OF small_torn]]
  show ?thesis by blast
qed

end
