(* ===== verification/Journal_Write.thy ===== *)
theory Journal_Write
  imports Recovery
begin

text \<open>
  Writing transactions to the journal: \<open>debugfs/do_journal.c\<close> on the buffers and checksums of
  \<open>debugfs/journal.c\<close>, whose buffer layer is that of \<open>e2fsck/journal.c\<close> (theory \<open>Recovery\<close>) but for
  \<open>getblk\<close>, which can fail here: the arguments of type \<open>bool\<close> say whether it succeeds.

  A buffer that could not be written stays dirty, and its release tries once more; as a write that
  fails keeps failing in the model, this has no effect and is left out.
\<close>

datatype jw_err = JW_INVALID | JW_NOMEM | JW_NOSPC | JW_BAD_BLOCK | JW_IO | JW_BMAP | JW_ERRNO nat

section \<open>Bytes\<close>

definition put_be64 :: "u64 \<Rightarrow> u8 list" where
  "put_be64 v = put_be32 (ucast (drop_bit 32 v)) @ put_be32 (ucast v)"

definition put_header :: "block \<Rightarrow> u32 \<Rightarrow> tid \<Rightarrow> block" where
  "put_header p blocktype s =
     (let p = put_at p 0 (put_be32 JFS_MAGIC_NUMBER); p = put_at p 4 (put_be32 blocktype)
      in put_at p 8 (put_be32 s))"

section \<open>Checksums\<close>

definition jbd2_commit_block_csum_set :: "env \<Rightarrow> journal \<Rightarrow> block \<Rightarrow> block" where
  "jbd2_commit_block_csum_set env j p =
     (if \<not> journal_has_csum_v2or3 j then p
      else let p = put_at p 12 [0]; p = put_at p 13 [0]; p = put_at p 16 (put_be32 0);
               csum = jbd2_chksum env (j_csum_seed j) (take (j_blocksize j) p)
           in put_at p 16 (put_be32 csum))"

text \<open>The checksum in the last four bytes of a descriptor or revoke block.\<close>

definition tail_csum_set :: "env \<Rightarrow> journal \<Rightarrow> block \<Rightarrow> block" where
  "tail_csum_set env j p =
     (if \<not> journal_has_csum_v2or3 j then p
      else let tail = j_blocksize j - 4;
               p = put_at p tail (put_be32 0);
               csum = jbd2_chksum env (j_csum_seed j) (take (j_blocksize j) p)
           in put_at p tail (put_be32 csum))"

definition jbd2_revoke_csum_set :: "env \<Rightarrow> journal \<Rightarrow> block \<Rightarrow> block" where
  "jbd2_revoke_csum_set = tail_csum_set"

definition jbd2_descr_block_csum_set :: "env \<Rightarrow> journal \<Rightarrow> block \<Rightarrow> block" where
  "jbd2_descr_block_csum_set = tail_csum_set"

definition jbd2_block_tag_csum_set :: "env \<Rightarrow> journal \<Rightarrow> block \<Rightarrow> nat \<Rightarrow> block \<Rightarrow> u32 \<Rightarrow> block" where
  "jbd2_block_tag_csum_set env j p tag buf sequence =
     (if \<not> journal_has_csum_v2or3 j then p
      else let csum32 = jbd2_chksum env (j_csum_seed j) (put_be32 sequence);
               csum32 = jbd2_chksum env csum32 (take (j_blocksize j) buf)
           in if jfs_has_feature_csum3 j then put_at p (tag + 12) (put_be32 csum32)
              else put_at p (tag + 4) (put_be16 (ucast csum32)))"

section \<open>The transaction\<close>

definition J_TRANS_MAGIC :: u32 where "J_TRANS_MAGIC = 0xD15EA5ED"
definition J_TRANS_OPEN :: u32 where "J_TRANS_OPEN = 1"
definition J_TRANS_COMMITTED :: u32 where "J_TRANS_COMMITTED = 2"

record transaction =
  tr_magic :: u32
  tr_block :: u64
  tr_start :: u64
  tr_end :: u64
  tr_tid :: tid
  tr_flags :: u32

text \<open>What the writer uses of the file system's superblock.\<close>

record fs_super =
  fs_blocks_count :: u64
  needs_recovery :: bool

definition trans_writable :: "transaction \<Rightarrow> bool" where
  "trans_writable tr =
     (tr_magic tr = J_TRANS_MAGIC \<and>
      \<not> (tr_flags tr AND J_TRANS_COMMITTED \<noteq> 0 \<or> \<not> tr_flags tr AND J_TRANS_OPEN \<noteq> 0))"

text \<open>\<open>journal_bmap\<close>, \<open>mark_buffer_dirty\<close> and \<open>ll_rw_block\<close> of a buffer with the contents \<open>p\<close>.\<close>

definition write_log_block :: "env \<Rightarrow> journal \<Rightarrow> disk \<Rightarrow> u64 \<Rightarrow> block \<Rightarrow> jw_err + disk" where
  "write_log_block env j d pos p =
     (case journal_bmap j pos of
        None \<Rightarrow> Inl JW_BMAP
      | Some b \<Rightarrow>
          let bh = (getblk (j_dev j) b (j_blocksize j))\<lparr>b_data := p\<rparr>;
              (bh, d) = rw_one env WRITE (mark_buffer_dirty bh) d
          in if b_err bh then Inl JW_IO else Inr d)"

section \<open>The commit block\<close>

text \<open>The checksum of version 1 over the blocks of the transaction, read back from the log.\<close>

fun commit_csum_loop :: "env \<Rightarrow> journal \<Rightarrow> disk \<Rightarrow> nat \<Rightarrow> u64 \<Rightarrow> u32 \<Rightarrow> jw_err + u32" where
  "commit_csum_loop env j d 0 cblk csum = Inr csum"
| "commit_csum_loop env j d (Suc n) cblk csum =
     (case journal_bmap j cblk of
        None \<Rightarrow> Inl JW_BMAP
      | Some b \<Rightarrow>
          let cbh = mark_buffer_uptodate (getblk (j_dev j) b (j_blocksize j)) False;
              cbh = fst (rw_one env READ cbh d)
          in if b_err cbh then Inl JW_IO
             else commit_csum_loop env j d n (cblk + 1) (crc32_be env csum (take (b_size cbh) (b_data cbh))))"

definition blocks_between :: "u64 \<Rightarrow> u64 \<Rightarrow> nat" where
  "blocks_between a b = unat b - unat a"

text \<open>
  The commit block: the time \<open>(sec, usec)\<close> is that of \<open>gettimeofday\<close>.  The seconds are a 32-bit
  big-endian number stored in a 64-bit field of a little-endian machine.
\<close>

definition commit_bytes :: "env \<Rightarrow> journal \<Rightarrow> tid \<Rightarrow> u32 \<times> u32 \<Rightarrow> u32 option \<Rightarrow> block" where
  "commit_bytes env j s now csum_v1 =
     (let p = put_header (replicate (j_blocksize j) 0) JFS_COMMIT_BLOCK s;
          p = (case csum_v1 of
                 Some csum \<Rightarrow> put_at (put_at (put_at p 12 [1]) 13 [4]) 16 (put_be32 csum)
               | None \<Rightarrow> put_at (put_at (put_at p 12 [0]) 13 [0]) 16 (put_be32 0));
          p = put_at p 48 (put_be32 (fst now) @ replicate 4 0);
          p = put_at p 56 (put_be32 (snd now * 1000))
      in jbd2_commit_block_csum_set env j p)"

definition journal_commit_trans ::
    "env \<Rightarrow> bool \<Rightarrow> bool \<Rightarrow> u32 \<times> u32 \<Rightarrow> journal \<Rightarrow> transaction \<times> fs_super \<times> disk \<Rightarrow>
     jw_err option \<times> transaction \<times> fs_super \<times> disk" where
  "journal_commit_trans env m1 m2 now j x =
     (case x of (tr, fs, d) \<Rightarrow>
        if \<not> trans_writable tr then (Some JW_INVALID, tr, fs, d)
        else if \<not> m1 then (Some JW_NOMEM, tr, fs, d)
        else
          (case (if jfs_has_feature_checksum j then
                   if \<not> m2 then Inl JW_NOMEM
                   else map_sum id Some (commit_csum_loop env j d (blocks_between (tr_start tr) (tr_block tr)) (tr_start tr) (- 1))
                 else Inr None) of
             Inl err \<Rightarrow> (Some err, tr, fs, d)
           | Inr csum_v1 \<Rightarrow>
               (case write_log_block env j d (tr_block tr) (commit_bytes env j (tr_tid tr) now csum_v1) of
                  Inl err \<Rightarrow> (Some err, tr, fs, d)
                | Inr d \<Rightarrow>
                    (None,
                     tr\<lparr>tr_flags := (tr_flags tr OR J_TRANS_COMMITTED) AND NOT J_TRANS_OPEN, tr_block := tr_block tr + 1\<rparr>,
                     fs\<lparr>needs_recovery := True\<rparr>, d))))"

section \<open>Revoke blocks\<close>

definition revoke_size :: "journal \<Rightarrow> nat" where
  "revoke_size j = (if jfs_has_feature_64bit j then 8 else 4)"

text \<open>Storing the record count and the checksum, and writing the block.\<close>

definition write_revoke_block :: "env \<Rightarrow> journal \<Rightarrow> disk \<Rightarrow> u64 \<Rightarrow> block \<Rightarrow> nat \<Rightarrow> jw_err + block \<times> disk" where
  "write_revoke_block env j d pos buf offset =
     (let buf = jbd2_revoke_csum_set env j (put_at buf 12 (put_be32 (of_nat offset)))
      in map_sum id (Pair buf) (write_log_block env j d pos buf))"

definition put_revoke :: "journal \<Rightarrow> block \<Rightarrow> nat \<Rightarrow> u64 \<Rightarrow> block" where
  "put_revoke j buf offset b =
     (if jfs_has_feature_64bit j then put_at buf offset (put_be64 b) else put_at buf offset (put_be32 (ucast b)))"

text \<open>The loop over the revoked blocks; the result is the error, the next block and the disk.\<close>

fun revoke_loop ::
    "env \<Rightarrow> journal \<Rightarrow> u64 \<Rightarrow> u64 list \<Rightarrow> block \<Rightarrow> nat \<Rightarrow> u64 \<Rightarrow> disk \<Rightarrow> jw_err option \<times> u64 \<times> disk" where
  "revoke_loop env j count [] buf offset curr_blk d =
     (case write_revoke_block env j d curr_blk buf offset of
        Inl err \<Rightarrow> (Some err, curr_blk, d)
      | Inr (buf, d) \<Rightarrow> (None, curr_blk + 1, d))"
| "revoke_loop env j count (b # bs) buf offset curr_blk d =
     (if offset + revoke_size j > j_blocksize j - descr_csum_size j then
        (case write_revoke_block env j d curr_blk buf offset of
           Inl err \<Rightarrow> (Some err, curr_blk, d)
         | Inr (buf, d) \<Rightarrow>
             if b \<ge> count then (Some JW_BAD_BLOCK, curr_blk + 1, d)
             else revoke_loop env j count bs (put_revoke j buf 16 b) (16 + revoke_size j) (curr_blk + 1) d)
      else if b \<ge> count then (Some JW_BAD_BLOCK, curr_blk, d)
      else revoke_loop env j count bs (put_revoke j buf offset b) (offset + revoke_size j) curr_blk d)"

definition journal_add_revoke_to_trans ::
    "env \<Rightarrow> bool \<Rightarrow> journal \<Rightarrow> u64 list \<Rightarrow> transaction \<times> fs_super \<times> disk \<Rightarrow>
     jw_err option \<times> transaction \<times> fs_super \<times> disk" where
  "journal_add_revoke_to_trans env m j revoke_list x =
     (case x of (tr, fs, d) \<Rightarrow>
        if \<not> trans_writable tr then (Some JW_INVALID, tr, fs, d)
        else if revoke_list = [] then (None, tr, fs, d)
        else if \<not> m then (Some JW_NOMEM, tr, fs, d)
        else
          let buf = put_header (replicate (j_blocksize j) 0) JFS_REVOKE_BLOCK (tr_tid tr);
              (err, curr_blk, d) = revoke_loop env j (fs_blocks_count fs) revoke_list buf 16 (tr_block tr) d
          in (err, tr\<lparr>tr_block := curr_blk\<rparr>, fs, d))"

section \<open>Descriptor and data blocks\<close>

text \<open>
  The tag at offset \<open>jdbt\<close> for block \<open>b\<close> with the data \<open>data\<close>; \<open>is_last\<close> for the last block of the
  list.  The result is the descriptor, the data as it is logged, and the distance to the next tag.
  The UUID is copied to \<open>jdbt + tag_bytes\<close>, where \<open>jdbt\<close> points to structures of 12 bytes.
\<close>

definition put_tag :: "env \<Rightarrow> journal \<Rightarrow> tid \<Rightarrow> block \<Rightarrow> nat \<Rightarrow> u64 \<Rightarrow> block \<Rightarrow> bool \<Rightarrow> block \<times> block \<times> nat" where
  "put_tag env j s jdb jdbt b data is_last =
     (let tag_bytes = journal_tag_bytes j;
          jdb = put_at jdb jdbt (put_be32 (ucast (b AND 0xFFFFFFFF)));
          (flags, jdb, next) =
            (if jdbt \<noteq> 12 then (JFS_FLAG_SAME_UUID, jdb, tag_bytes)
             else (0, put_at jdb (jdbt + 12 * tag_bytes) (s_uuid (j_superblock j)), tag_bytes + 16));
          flags = (if is_last then flags OR JFS_FLAG_LAST_TAG else flags);
          (flags, data) =
            (if get_be32 data 0 = JFS_MAGIC_NUMBER then (flags OR JFS_FLAG_ESCAPE, put_at data 0 (put_be32 0))
             else (flags, data));
          jdb = put_at jdb (jdbt + 6) (put_be16 flags);
          jdb = (if jfs_has_feature_64bit j then put_at jdb (jdbt + 8) (put_be32 (ucast (drop_bit 32 b))) else jdb);
          jdb = jbd2_block_tag_csum_set env j jdb jdbt data s
      in (jdb, data, next))"

text \<open>
  The loop over the blocks.  The file holds the remaining blocks \<open>fp\<close>; when it is at its end, the
  error is the value of \<open>errno\<close>, which may be 0 (\<open>None\<close>).
\<close>

fun blocks_loop ::
    "env \<Rightarrow> journal \<Rightarrow> u64 \<Rightarrow> tid \<Rightarrow> jw_err option \<Rightarrow> u64 list \<Rightarrow> block list \<Rightarrow> block \<Rightarrow> nat \<Rightarrow> u64 \<Rightarrow> u64 \<Rightarrow> disk \<Rightarrow>
     jw_err option \<times> u64 \<times> disk" where
  "blocks_loop env j count s errno [] fp jdb jdbt jdb_blk curr_blk d =
     (if jdbt \<noteq> 12 then
        (case write_log_block env j d jdb_blk (jbd2_descr_block_csum_set env j jdb) of
           Inl err \<Rightarrow> (Some err, curr_blk, d)
         | Inr d \<Rightarrow> (None, curr_blk, d))
      else (None, curr_blk, d))"
| "blocks_loop env j count s errno (b # bs) fp jdb jdbt jdb_blk curr_blk d =
     (case fp of
        [] \<Rightarrow> (errno, curr_blk, d)
      | data # fp \<Rightarrow>
          (case (if jdbt + journal_tag_bytes j > j_blocksize j - descr_csum_size j then
                   let jdb = jbd2_descr_block_csum_set env j jdb
                   in map_sum id (\<lambda>d. (jdb, 12, curr_blk, curr_blk + 1, d)) (write_log_block env j d jdb_blk jdb)
                 else Inr (jdb, jdbt, jdb_blk, curr_blk, d)) of
             Inl err \<Rightarrow> (Some err, curr_blk, d)
           | Inr (jdb, jdbt, jdb_blk, curr_blk, d) \<Rightarrow>
               if b \<ge> count then (Some JW_BAD_BLOCK, curr_blk, d)
               else
                 let (jdb, data, next) = put_tag env j s jdb jdbt b data (bs = [])
                 in case write_log_block env j d curr_blk data of
                      Inl err \<Rightarrow> (Some err, curr_blk, d)
                    | Inr d \<Rightarrow> blocks_loop env j count s errno bs fp jdb (jdbt + next) jdb_blk (curr_blk + 1) d))"

definition journal_add_blocks_to_trans ::
    "env \<Rightarrow> bool \<Rightarrow> bool \<Rightarrow> jw_err option \<Rightarrow> journal \<Rightarrow> u64 list \<Rightarrow> block list \<Rightarrow> transaction \<times> fs_super \<times> disk \<Rightarrow>
     jw_err option \<times> transaction \<times> fs_super \<times> disk" where
  "journal_add_blocks_to_trans env m1 m2 errno j block_list fp x =
     (case x of (tr, fs, d) \<Rightarrow>
        if \<not> trans_writable tr then (Some JW_INVALID, tr, fs, d)
        else if block_list = [] then (None, tr, fs, d)
        else if \<not> m1 then (Some JW_NOMEM, tr, fs, d)
        else if \<not> m2 then (Some JW_NOMEM, tr, fs, d)
        else
          let jdb = put_header (replicate (j_blocksize j) 0) JFS_DESCRIPTOR_BLOCK (tr_tid tr);
              (err, curr_blk, d) =
                blocks_loop env j (fs_blocks_count fs) (tr_tid tr) errno block_list fp jdb 12 (tr_block tr) (tr_block tr + 1) d
          in (err, tr\<lparr>tr_block := curr_blk\<rparr>, fs, d))"

section \<open>Opening, closing and writing a transaction\<close>

definition journal_guess_blocks :: "journal \<Rightarrow> u64 \<Rightarrow> u64 \<Rightarrow> u64" where
  "journal_guess_blocks j data_blocks revoke_blocks =
     (let ret = 1;
          bs = of_nat (j_blocksize j - descr_csum_size j);
          ret = ret + revoke_blocks * of_nat (revoke_size j) div bs;
          bs = of_nat (j_blocksize j - 16 - descr_csum_size j);
          ret = ret + data_blocks * of_nat (journal_tag_bytes j) div bs
      in ret + data_blocks)"

definition journal_open_trans :: "journal \<Rightarrow> u64 \<Rightarrow> jw_err + transaction" where
  "journal_open_trans j blocks =
     (let (s, start) = (if j_tail j = 0 then (j_tail_sequence j, j_first j) else (j_transaction_sequence j, j_head j))
      in if start + blocks > j_last j then Inl JW_NOSPC
         else Inr \<lparr>tr_magic = J_TRANS_MAGIC, tr_block = start, tr_start = start, tr_end = start + blocks,
                   tr_tid = s, tr_flags = J_TRANS_OPEN\<rparr>)"

definition journal_close_trans :: "journal \<Rightarrow> transaction \<Rightarrow> fs_super \<Rightarrow> jw_err option \<times> journal \<times> fs_super" where
  "journal_close_trans j tr fs =
     (if tr_magic tr \<noteq> J_TRANS_MAGIC then (Some JW_INVALID, j, fs)
      else if tr_flags tr AND J_TRANS_COMMITTED = 0 then (None, j, fs)
      else
        let j = (if j_tail j = 0
                 then j\<lparr>j_tail_sequence := tr_tid tr, j_tail := tr_start tr,
                        j_superblock := (j_superblock j)\<lparr>s_start := ucast (tr_start tr)\<rparr>\<rparr>
                 else j);
            j = j\<lparr>j_head := tr_end tr + 1, j_transaction_sequence := tr_tid tr + 1\<rparr>
        in (None, j, fs\<lparr>needs_recovery := True\<rparr>))"

definition JOURNAL_WRITE_NO_COMMIT :: u32 where "JOURNAL_WRITE_NO_COMMIT = 1"

text \<open>\<open>m k\<close>: whether the \<open>k\<close>-th allocation of a buffer succeeds.\<close>

definition journal_write ::
    "env \<Rightarrow> (nat \<Rightarrow> bool) \<Rightarrow> jw_err option \<Rightarrow> u32 \<times> u32 \<Rightarrow> journal \<Rightarrow> u32 \<Rightarrow> u64 list \<Rightarrow> u64 list \<Rightarrow> block list \<Rightarrow>
     fs_super \<Rightarrow> disk \<Rightarrow> jw_err option \<times> journal \<times> fs_super \<times> disk" where
  "journal_write env m errno now j flags block_list revoke_list fp fs d =
     (let j = (if revoke_list \<noteq> [] then
                 j\<lparr>j_superblock := (j_superblock j)\<lparr>s_feature_incompat :=
                      s_feature_incompat (j_superblock j) OR JFS_FEATURE_INCOMPAT_REVOKE\<rparr>\<rparr>
               else j)
      in case journal_open_trans j (journal_guess_blocks j (of_nat (length block_list)) (of_nat (length revoke_list))) of
           Inl err \<Rightarrow> (Some err, j, fs, d)
         | Inr tr \<Rightarrow>
             let (err, tr, fs, d) = journal_add_blocks_to_trans env (m 0) (m 1) errno j block_list fp (tr, fs, d)
             in if err \<noteq> None then (err, j, fs, d)
                else
                  let (err, tr, fs, d) = journal_add_revoke_to_trans env (m 2) j revoke_list (tr, fs, d)
                  in if err \<noteq> None then (err, j, fs, d)
                     else
                       let (err, tr, fs, d) =
                             (if flags AND JOURNAL_WRITE_NO_COMMIT = 0
                              then journal_commit_trans env (m 3) (m 4) now j (tr, fs, d) else (None, tr, fs, d))
                       in if err \<noteq> None then (err, j, fs, d)
                          else let (err, j, fs) = journal_close_trans j tr fs in (err, j, fs, d))"

text \<open>
  \<open>ext2fs_journal_release\<close>: what closing stores in the journal's superblock of a writable file system.
\<close>

definition journal_release_super :: "bool \<Rightarrow> bool \<Rightarrow> bool \<Rightarrow> journal \<Rightarrow> journal" where
  "journal_release_super writable reset drop_it j =
     (if drop_it then j
      else if writable then
        let jsb = (j_superblock j)\<lparr>s_sequence := j_tail_sequence j\<rparr>;
            jsb = (if reset then jsb\<lparr>s_start := 0\<rparr> else jsb)
        in j\<lparr>j_superblock := jsb\<rparr>
      else j)"

section \<open>Finding the end of the log\<close>

datatype head_step = Head_Continue tid u64 u64 | Head_End "jw_err option" tid u64

text \<open>
  One turn of the loop of \<open>journal_find_head\<close> with the expected transaction, the next block and the
  head so far.
\<close>

definition find_head_step :: "env \<Rightarrow> journal \<Rightarrow> disk \<Rightarrow> tid \<Rightarrow> u64 \<Rightarrow> u64 \<Rightarrow> head_step" where
  "find_head_step env j d s pos head =
     (case journal_bmap j pos of
        None \<Rightarrow> Head_End (Some JW_BMAP) s head
      | Some b \<Rightarrow>
          let bh = mark_buffer_uptodate (getblk (j_dev j) b (j_blocksize j)) False;
              bh = fst (rw_one env READ bh d); p = b_data bh
          in if b_err bh then Head_End (Some JW_IO) s head
             else
               let pos = wrap j (pos + 1)
               in if get_be32 p 0 \<noteq> JFS_MAGIC_NUMBER then Head_End None s head
                  else if get_be32 p 8 \<noteq> s then Head_End None s head
                  else if get_be32 p 4 = JFS_DESCRIPTOR_BLOCK
                  then Head_Continue s (wrap j (pos + of_nat (count_tags j p))) head
                  else if get_be32 p 4 = JFS_COMMIT_BLOCK then Head_Continue (s + 1) pos pos
                  else if get_be32 p 4 = JFS_REVOKE_BLOCK then Head_Continue s pos head
                  else Head_End (Some JW_INVALID) s head)"

partial_function (option) find_head_loop ::
    "env \<Rightarrow> journal \<Rightarrow> disk \<Rightarrow> tid \<Rightarrow> u64 \<Rightarrow> u64 \<Rightarrow> (jw_err option \<times> tid \<times> u64) option" where
  "find_head_loop env j d s pos head =
     (case find_head_step env j d s pos head of
        Head_Continue s pos head \<Rightarrow> find_head_loop env j d s pos head
      | Head_End err s head \<Rightarrow> Some (err, s, head))"

definition journal_find_head :: "env \<Rightarrow> bool \<Rightarrow> journal \<Rightarrow> disk \<Rightarrow> (jw_err option \<times> journal) option" where
  "journal_find_head env m j d =
     (let s = s_sequence (j_superblock j); pos = ucast (s_start (j_superblock j))
      in if pos = 0 then Some (None, j)
         else if \<not> m then Some (Some JW_NOMEM, j)
         else map_option
                (\<lambda>(err, s, head).
                   (err, if err = None then j\<lparr>j_transaction_sequence := s, j_head := head\<rparr> else j))
                (find_head_loop env j d s pos pos))"

end
