(* ===== verification/Journal_Write_Log.thy ===== *)
theory Journal_Write_Log
  imports Journal_Write Recovery_Log
begin

text \<open>
  What the writer stores is what recovery reads: fields of a block survive stores elsewhere, a block
  with its checksum verifies, and the loops of the writer lay out descriptor, data and revoke blocks
  so that the relations of \<open>Recovery_Log\<close> hold for them.
\<close>

section \<open>Fields of a block\<close>

lemma length_put_be [simp]: "length (put_be32 v) = 4" "length (put_be16 h) = 2" "length (put_be64 w) = 8"
  by (simp_all add: put_be32_def put_be16_def put_be64_def)

lemma zero_field_put_at: "i + 4 \<le> length p \<Longrightarrow> zero_field p i = put_at p i (put_be32 0)"
  by (simp add: zero_field_def put_at_def put_be32_def numeral_eq_Suc)

lemma get_be_other:
  assumes "i + length bs \<le> length p"
  shows "k + 4 \<le> i \<or> i + length bs \<le> k \<Longrightarrow> k + 4 \<le> length p \<Longrightarrow> get_be32 (put_at p i bs) k = get_be32 p k"
    and "k + 2 \<le> i \<or> i + length bs \<le> k \<Longrightarrow> k + 2 \<le> length p \<Longrightarrow> get_be16 (put_at p i bs) k = get_be16 p k"
  using assms by (auto simp: get_be32_def get_be16_def nth_put_at)

lemma byte_ident: "push_bit 8 (drop_bit 8 x) + ucast (ucast x :: u8) = (x :: u32)" "push_bit 8 (drop_bit 8 y) + ucast (ucast y :: u8) = (y :: u16)"
proof -
  have "ucast (ucast x :: u8) = take_bit 8 x" "ucast (ucast y :: u8) = take_bit 8 y"
    by (auto intro!: bit_word_eqI simp: bit_simps)
  then show "push_bit 8 (drop_bit 8 x) + ucast (ucast x :: u8) = x" "push_bit 8 (drop_bit 8 y) + ucast (ucast y :: u8) = y"
    by (simp_all add: bits_ident)
qed

lemma be32_bytes:
  fixes v :: u32
  shows "push_bit 8 (push_bit 8 (push_bit 8 (ucast (ucast (drop_bit 24 v) :: u8)) + ucast (ucast (drop_bit 16 v) :: u8))
           + ucast (ucast (drop_bit 8 v) :: u8)) + ucast (ucast v :: u8) = v"
proof -
  have "ucast (ucast (drop_bit 24 v) :: u8) = drop_bit 24 v"
  proof (rule bit_word_eqI)
    fix n
    show "bit (ucast (ucast (drop_bit 24 v) :: u8) :: u32) n = bit (drop_bit 24 v) n"
      using bit_imp_le_length [of v "24 + n"] by (auto simp: bit_simps)
  qed
  then show ?thesis
    using byte_ident(1) [of v] byte_ident(1) [of "drop_bit 8 v"] byte_ident(1) [of "drop_bit 16 v"] by simp
qed

lemma get_be32_same: "i + 4 \<le> length p \<Longrightarrow> get_be32 (put_at p i (put_be32 v)) i = v"
  by (simp add: get_be32_def nth_put_at put_be32_def nth_Cons' be32_bytes)

lemma get_be16_same: "i + 2 \<le> length p \<Longrightarrow> get_be16 (put_at p i (put_be16 v)) i = v"
proof -
  assume "i + 2 \<le> length p"
  then have "get_be16 (put_at p i (put_be16 v)) i = push_bit 8 (ucast (ucast (drop_bit 8 v) :: u8)) + ucast (ucast v :: u8)"
    by (simp add: get_be16_def nth_put_at put_be16_def nth_Cons')
  also have "ucast (ucast (drop_bit 8 v) :: u8) = drop_bit 8 v"
  proof (rule bit_word_eqI)
    fix n
    show "bit (ucast (ucast (drop_bit 8 v) :: u8) :: u16) n = bit (drop_bit 8 v) n"
      using bit_imp_le_length [of v "8 + n"] by (auto simp: bit_simps)
  qed
  finally show ?thesis by (simp add: byte_ident)
qed

lemma join_halves: "push_bit 32 (ucast (ucast (drop_bit 32 v) :: u32)) OR ucast (ucast v :: u32) = (v :: u64)"
  by (rule bit_word_eqI) (auto simp: bit_simps)

lemma put_be64_split:
  "i + 8 \<le> length p \<Longrightarrow> put_at p i (put_be64 v) = put_at (put_at p i (put_be32 (ucast (drop_bit 32 v)))) (i + 4) (put_be32 (ucast v))"
  by (simp add: put_at_def put_be64_def min_def add.commute)

lemma get_be64_same: "i + 8 \<le> length p \<Longrightarrow> get_be64 (put_at p i (put_be64 v)) i = v"
  by (simp add: get_be64_def put_be64_split get_be32_same get_be_other join_halves)

text \<open>The other way round: the four bytes at the start are those of the number that is read there.\<close>

lemma put_get_be32: "4 \<le> length p \<Longrightarrow> put_be32 (get_be32 p 0) = take 4 p"
proof -
  assume "4 \<le> length p"
  then obtain a b c e q where p: "p = a # b # c # e # q"
    by (auto simp: numeral_eq_Suc Suc_le_length_iff)
  have b: "bit (push_bit 8 x + (ucast (y :: u8) :: u32)) n \<longleftrightarrow> n < 32 \<and> (if n < 8 then bit y n else bit x (n - 8))" for x y n
  proof -
    have "push_bit 8 x + (ucast y :: u32) = push_bit 8 x OR ucast y"
      by (rule disjunctive_add) (auto simp: bit_simps dest: bit_imp_le_length)
    then show ?thesis by (auto simp: bit_simps dest: bit_imp_le_length)
  qed
  show ?thesis
    unfolding p get_be32_def Let_def put_be32_def
    by (auto intro!: bit_word_eqI simp: bit_ucast_iff bit_drop_bit_eq b nth_Cons' dest: bit_imp_le_length)
qed

section \<open>Checksums verify\<close>

lemma tail_csum_verify:
  assumes "length p = j_blocksize j" "4 \<le> j_blocksize j"
  shows "jbd2_descr_block_csum_verify env j (tail_csum_set env j p)"
    and "jbd2_revoke_block_csum_verify env j (tail_csum_set env j p)"
  using assms
  by (simp_all add: jbd2_descr_block_csum_verify_def jbd2_revoke_block_csum_verify_def tail_csum_set_def Let_def
      get_be32_same zero_field_put_at put_at_twice)

lemma length_tail_csum [simp]:
  "length p = j_blocksize j \<Longrightarrow> 4 \<le> j_blocksize j \<Longrightarrow> length (tail_csum_set env j p) = j_blocksize j"
  by (simp add: tail_csum_set_def Let_def)

lemma get_be_tail_csum:
  assumes "length p = j_blocksize j" "4 \<le> j_blocksize j"
  shows "k + 4 \<le> j_blocksize j - descr_csum_size j \<Longrightarrow> get_be32 (tail_csum_set env j p) k = get_be32 p k"
    and "k + 2 \<le> j_blocksize j - descr_csum_size j \<Longrightarrow> get_be16 (tail_csum_set env j p) k = get_be16 p k"
  using assms by (auto simp: tail_csum_set_def Let_def descr_csum_size_def get_be_other split: if_splits)

lemma tag_csum_verify:
  assumes "tag + journal_tag_bytes j \<le> length p"
  shows "jbd2_block_tag_csum_verify env j (jbd2_block_tag_csum_set env j p tag buf s) tag buf s"
proof (cases "journal_has_csum_v2or3 j")
  case True
  have "tag + 16 \<le> length p" if "jfs_has_feature_csum3 j"
    using assms(1) that by (simp add: journal_tag_bytes_def)
  moreover have "tag + 6 \<le> length p" using assms(1) journal_tag_bytes_bounds(1) [of j] by simp
  moreover have "ucast (x AND 0xFFFF) = (ucast x :: u16)" for x :: u32
  proof -
    have "(0xFFFF :: u32) = mask 16" by (simp add: mask_eq_exp_minus_1)
    then have "x AND 0xFFFF = take_bit 16 x" by (simp only: take_bit_eq_mask)
    then show ?thesis by (auto intro!: bit_word_eqI simp: bit_simps)
  qed
  ultimately show ?thesis
    using True by (auto simp: jbd2_block_tag_csum_verify_def jbd2_block_tag_csum_set_def Let_def get_be32_same get_be16_same)
qed (simp add: jbd2_block_tag_csum_verify_def)

section \<open>Storing blocks in the log\<close>

text \<open>
  A journal that can be written: its blocks are mapped one to one to blocks of the device that can be
  read and written, and a block has room for a descriptor with the misplaced UUID.
\<close>

definition writable_log :: "env \<Rightarrow> journal \<Rightarrow> bool" where
  "writable_log env j =
     (journal_ok j \<and> 256 \<le> j_blocksize j \<and> j_blocksize j < 2 ^ 31 \<and> length (s_uuid (j_superblock j)) = 16 \<and>
      (\<forall>pos. log_pos j pos \<longrightarrow>
         (\<exists>b. journal_bmap j pos = Some b \<and> \<not> read_fails env (j_dev j) b \<and> \<not> write_fails env (j_dev j) b)) \<and>
      (\<forall>p q. log_pos j p \<and> log_pos j q \<and> journal_bmap j p = journal_bmap j q \<longrightarrow> p = q))"

definition in_log :: "journal \<Rightarrow> nat \<Rightarrow> bool" where
  "in_log j n = (unat (j_first j) \<le> n \<and> n < unat (j_last j))"

definition lb :: "env \<Rightarrow> journal \<Rightarrow> disk \<Rightarrow> nat \<Rightarrow> block option" where
  "lb env j d n = log_block env j d (of_nat n)"

text \<open>Block \<open>n\<close> of the log is changed to \<open>p\<close>; nothing else is, in the log or outside of the journal.\<close>

definition stores :: "env \<Rightarrow> journal \<Rightarrow> disk \<Rightarrow> nat \<Rightarrow> block \<Rightarrow> disk \<Rightarrow> bool" where
  "stores env j d n p d' =
     ((\<forall>m. in_log j m \<longrightarrow> lb env j d' m = (if m = n then Some p else lb env j d m)) \<and>
      (\<forall>dev b. (dev, b) \<notin> journal_blocks j \<longrightarrow> d' dev b = d dev b))"

lemma unat_of_nat_log: "journal_ok j \<Longrightarrow> n \<le> unat (j_last j) \<Longrightarrow> unat (of_nat n :: u64) = n"
  using unat_j_last [of j] by (simp add: unat_of_nat)

lemma log_pos_of_nat: "journal_ok j \<Longrightarrow> in_log j n \<Longrightarrow> log_pos j (of_nat n)"
  using unat_of_nat_log [of j n] by (simp add: in_log_def log_pos_def word_le_nat_alt word_less_nat_alt)

lemma adv_of_nat: "journal_ok j \<Longrightarrow> n + 1 < unat (j_last j) \<Longrightarrow> adv j (of_nat n) = of_nat (n + 1)"
proof -
  assume a: "journal_ok j" "n + 1 < unat (j_last j)"
  then have "\<not> j_last j \<le> (of_nat (n + 1) :: u64)"
    using unat_of_nat_log [OF a(1), of "n + 1"] by (simp add: word_le_nat_alt)
  then show ?thesis by (simp add: adv_def wrap_def add.commute)
qed

lemma unat_ucast_32: "unat b < 2 ^ 32 \<Longrightarrow> unat (ucast (b :: u64) :: u32) = unat b"
  unfolding unsigned_ucast_eq by (subst take_bit_nat_eq_self) auto

lemma unat_ucast_64: "unat (ucast (m :: u32) :: u64) = unat m"
proof -
  have "unat m < 2 ^ 64" using unsigned_less [of m, where ?'a = nat] by simp
  then show ?thesis unfolding unsigned_ucast_eq by (subst take_bit_nat_eq_self) auto
qed

lemma ucast_ucast_small: "unat (b :: u64) < 2 ^ 32 \<Longrightarrow> ucast (ucast b :: u32) = b"
  unfolding word_unat_eq_iff unat_ucast_64 by (rule unat_ucast_32)

lemma log_block_write:
  assumes "writable_log env j" "log_pos j pos" "log_pos j q"
  obtains b c where "journal_bmap j pos = Some b" "journal_bmap j q = Some c" "b = c \<longleftrightarrow> pos = q"
    "write_log_block env j d pos p = Inr (set_block d (j_dev j) b p)"
    "\<forall>d'. log_block env j d' q = Some (d' (j_dev j) c)" "(j_dev j, b) \<in> journal_blocks j"
proof -
  obtain b where b: "journal_bmap j pos = Some b" "\<not> write_fails env (j_dev j) b"
    using assms(1,2) by (auto simp: writable_log_def)
  obtain c where c: "journal_bmap j q = Some c" "\<not> read_fails env (j_dev j) c"
    using assms(1,3) by (auto simp: writable_log_def)
  have ok: "journal_ok j" using assms(1) by (simp add: writable_log_def)
  have s: "ucast (ucast r :: u32) = r" "(ucast r :: u32) < j_maxlen j" if "log_pos j r" for r
  proof -
    have r: "unat r < unat (j_last j)" using that by (simp add: log_pos_def word_less_nat_alt)
    then show e: "ucast (ucast r :: u32) = r" using unat_j_last [OF ok] by (intro ucast_ucast_small) simp
    have "r < ucast (j_maxlen j)" using ok that by (auto simp: journal_ok_def log_pos_def)
    then show "(ucast r :: u32) < j_maxlen j"
      using r unat_j_last [OF ok] by (simp add: word_less_nat_alt unat_ucast_64 unat_ucast_32)
  qed
  show thesis
  proof
    show "b = c \<longleftrightarrow> pos = q" using assms b(1) c(1) by (auto simp: writable_log_def)
    show "write_log_block env j d pos p = Inr (set_block d (j_dev j) b p)"
      using b by (simp add: write_log_block_def rw_one_def mark_buffer_dirty_def getblk_def)
    show "\<forall>d'. log_block env j d' q = Some (d' (j_dev j) c)"
      using c s [OF assms(3)] by (simp add: log_block_def jread_eq not_le)
    show "(j_dev j, b) \<in> journal_blocks j"
      using b(1) s [OF assms(2)] by (auto simp: journal_blocks_def intro!: exI [of _ "ucast pos"])
  qed (use b c in auto)
qed

lemma write_log_block_stores:
  assumes "writable_log env j" "in_log j n"
  obtains d' where "write_log_block env j d (of_nat n) p = Inr d'" "stores env j d n p d'"
proof -
  have ok: "journal_ok j" using assms(1) by (simp add: writable_log_def)
  have pos: "log_pos j (of_nat n)" by (rule log_pos_of_nat [OF ok assms(2)])
  obtain b where b: "write_log_block env j d (of_nat n) p = Inr (set_block d (j_dev j) b p)" "(j_dev j, b) \<in> journal_blocks j"
    "journal_bmap j (of_nat n) = Some b"
    by (rule log_block_write [OF assms(1) pos pos])
  have "lb env j (set_block d (j_dev j) b p) m = (if m = n then Some p else lb env j d m)" if m: "in_log j m" for m
  proof -
    obtain b' c where c: "journal_bmap j (of_nat n) = Some b'" "b' = c \<longleftrightarrow> (of_nat n :: u64) = of_nat m"
      "\<forall>d'. log_block env j d' (of_nat m) = Some (d' (j_dev j) c)"
      by (rule log_block_write [OF assms(1) pos log_pos_of_nat [OF ok m], where d = d and p = p])
    have "(of_nat n :: u64) = of_nat m \<longleftrightarrow> n = m"
      using unat_of_nat_log [OF ok] assms(2) m by (metis in_log_def order.strict_implies_order)
    with b(3) c show ?thesis by (auto simp: lb_def set_block_def)
  qed
  then have "stores env j d n p (set_block d (j_dev j) b p)"
    using b(2) by (auto simp: stores_def set_block_def)
  with b(1) show thesis by (rule that)
qed

section \<open>Tags\<close>

definition tag_off :: "'a journal_format_scheme \<Rightarrow> nat \<Rightarrow> nat" where
  "tag_off j k = (if k = 0 then 12 else 28 + k * journal_tag_bytes j)"

text \<open>The data as it is logged, and what the fields of tag \<open>k\<close> must say about it.\<close>

definition logged :: "block \<Rightarrow> block" where
  "logged data = (if get_be32 data 0 = JFS_MAGIC_NUMBER then put_at data 0 (put_be32 0) else data)"

definition tag_fields :: "env \<Rightarrow> journal \<Rightarrow> tid \<Rightarrow> block \<Rightarrow> nat \<Rightarrow> u64 \<Rightarrow> block \<Rightarrow> bool \<Rightarrow> bool" where
  "tag_fields env j s p k b data lst =
     (read_tag_block j p (tag_off j k) = b \<and>
      (tag_flags p (tag_off j k) AND JFS_FLAG_SAME_UUID = 0 \<longleftrightarrow> k = 0) \<and>
      (tag_flags p (tag_off j k) AND JFS_FLAG_LAST_TAG \<noteq> 0 \<longleftrightarrow> lst) \<and>
      (tag_flags p (tag_off j k) AND JFS_FLAG_ESCAPE \<noteq> 0 \<longleftrightarrow> get_be32 data 0 = JFS_MAGIC_NUMBER) \<and>
      jbd2_block_tag_csum_verify env j p (tag_off j k) (logged data) s)"

text \<open>The fields of a tag depend on the bytes of the tag only.\<close>

lemma tag_fields_cong:
  assumes "\<And>i. tag_off j k \<le> i \<Longrightarrow> i + 4 \<le> tag_off j k + journal_tag_bytes j \<Longrightarrow> get_be32 p' i = get_be32 p i"
    "\<And>i. tag_off j k \<le> i \<Longrightarrow> i + 2 \<le> tag_off j k + journal_tag_bytes j \<Longrightarrow> get_be16 p' i = get_be16 p i"
  shows "tag_fields env j s p' k b data lst = tag_fields env j s p k b data lst"
proof -
  have "read_tag_block j p' (tag_off j k) = read_tag_block j p (tag_off j k)"
    using assms(1) [of "tag_off j k"] assms(1) [of "tag_off j k + 8"] journal_tag_bytes_64bit [of j] journal_tag_bytes_bounds(1) [of j]
    by (auto simp: read_tag_block_def Let_def)
  moreover have "tag_flags p' (tag_off j k) = tag_flags p (tag_off j k)"
    using assms(2) [of "tag_off j k + 6"] journal_tag_bytes_bounds(1) [of j] by (simp add: tag_flags_def)
  moreover have "jfs_has_feature_csum3 j \<Longrightarrow> journal_tag_bytes j = 16" by (simp add: journal_tag_bytes_def)
  then have "jbd2_block_tag_csum_verify env j p' (tag_off j k) (logged data) s = jbd2_block_tag_csum_verify env j p (tag_off j k) (logged data) s"
    using assms(1) [of "tag_off j k + 12"] assms(2) [of "tag_off j k + 4"] journal_tag_bytes_bounds(1) [of j]
    by (auto simp: jbd2_block_tag_csum_verify_def Let_def)
  ultimately show ?thesis by (simp add: tag_fields_def)
qed

lemma tag_off_Suc: "tag_off j (Suc k) = tag_off j k + journal_tag_bytes j + (if k = 0 then 16 else 0)"
  by (simp add: tag_off_def)

lemma tag_off_mono: "i < k \<Longrightarrow> tag_off j i + journal_tag_bytes j \<le> tag_off j k"
proof (induction k)
  case (Suc k)
  then show ?case by (cases "i = k") (auto simp: tag_off_Suc)
qed simp

lemma tag_off_ge: "12 \<le> tag_off j k" "tag_off j k = 12 \<longleftrightarrow> k = 0"
  by (auto simp: tag_off_def)

lemma length_logged [simp]: "4 \<le> length data \<Longrightarrow> length (logged data) = length data"
  by (simp add: logged_def)

text \<open>What the flags of a tag are made of.\<close>

definition new_flags :: "nat \<Rightarrow> bool \<Rightarrow> block \<Rightarrow> u16" where
  "new_flags k lst data =
     (let flags = (if k = 0 then 0 else JFS_FLAG_SAME_UUID);
          flags = (if lst then flags OR JFS_FLAG_LAST_TAG else flags)
      in if get_be32 data 0 = JFS_MAGIC_NUMBER then flags OR JFS_FLAG_ESCAPE else flags)"

lemma new_flags_bits:
  "new_flags k lst data AND JFS_FLAG_SAME_UUID = 0 \<longleftrightarrow> k = 0"
  "new_flags k lst data AND JFS_FLAG_LAST_TAG \<noteq> 0 \<longleftrightarrow> lst"
  "new_flags k lst data AND JFS_FLAG_ESCAPE \<noteq> 0 \<longleftrightarrow> get_be32 data 0 = JFS_MAGIC_NUMBER"
  by (simp_all add: new_flags_def Let_def jfs_consts)

text \<open>The descriptor after the stores of one tag, in their order.\<close>

definition tagged :: "env \<Rightarrow> journal \<Rightarrow> tid \<Rightarrow> block \<Rightarrow> nat \<Rightarrow> u64 \<Rightarrow> block \<Rightarrow> bool \<Rightarrow> block" where
  "tagged env j s p k b data lst =
     (let t = tag_off j k;
          p = put_at p t (put_be32 (ucast (b AND 0xFFFFFFFF)));
          p = (if k = 0 then put_at p (t + 12 * journal_tag_bytes j) (s_uuid (j_superblock j)) else p);
          p = put_at p (t + 6) (put_be16 (new_flags k lst data));
          p = (if jfs_has_feature_64bit j then put_at p (t + 8) (put_be32 (ucast (drop_bit 32 b))) else p)
      in jbd2_block_tag_csum_set env j p t (logged data) s)"

lemma put_tag_eq:
  "put_tag env j s p (tag_off j k) b data lst =
     (tagged env j s p k b data lst, logged data, tag_off j (Suc k) - tag_off j k)"
  by (cases "k = 0"; cases "get_be32 data 0 = JFS_MAGIC_NUMBER"; cases lst)
    (simp_all add: put_tag_def tagged_def new_flags_def logged_def Let_def tag_off_def)

lemma tagged_length_other:
  assumes "tag_off j k + journal_tag_bytes j \<le> length p" "k = 0 \<longrightarrow> 28 + 12 * journal_tag_bytes j \<le> length p"
    "length (s_uuid (j_superblock j)) = 16"
  shows "length (tagged env j s p k b data lst) = length p"
    and "i + 4 \<le> tag_off j k \<Longrightarrow> get_be32 (tagged env j s p k b data lst) i = get_be32 p i"
    and "i + 2 \<le> tag_off j k \<Longrightarrow> get_be16 (tagged env j s p k b data lst) i = get_be16 p i"
proof -
  let ?t = "tag_off j k"
  note t = journal_tag_bytes_bounds(1) [of j] journal_tag_bytes_64bit [of j]
  have c3: "jfs_has_feature_csum3 j \<Longrightarrow> journal_tag_bytes j = 16" by (simp add: journal_tag_bytes_def)
  define p1 where "p1 = put_at p ?t (put_be32 (ucast (b AND 0xFFFFFFFF)))"
  define p2 where "p2 = (if k = 0 then put_at p1 (?t + 12 * journal_tag_bytes j) (s_uuid (j_superblock j)) else p1)"
  define p3 where "p3 = put_at p2 (?t + 6) (put_be16 (new_flags k lst data))"
  define p4 where "p4 = (if jfs_has_feature_64bit j then put_at p3 (?t + 8) (put_be32 (ucast (drop_bit 32 b))) else p3)"
  have p5: "tagged env j s p k b data lst = jbd2_block_tag_csum_set env j p4 ?t (logged data) s"
    by (simp add: tagged_def p1_def p2_def p3_def p4_def Let_def)
  have l: "length p1 = length p" "length p2 = length p" "length p3 = length p" "length p4 = length p"
    using assms t by (auto simp: p1_def p2_def p3_def p4_def tag_off_def)
  then show "length (tagged env j s p k b data lst) = length p"
    using assms t c3 by (auto simp: p5 jbd2_block_tag_csum_set_def Let_def)
  show "get_be32 (tagged env j s p k b data lst) i = get_be32 p i" if "i + 4 \<le> ?t"
  proof -
    have "get_be32 p1 i = get_be32 p i" using that assms t by (simp add: p1_def get_be_other)
    also have "get_be32 p1 i = get_be32 p2 i" using that assms t l by (cases "k = 0") (simp_all add: p2_def get_be_other tag_off_def)
    also have "get_be32 p2 i = get_be32 p3 i" using that assms t l by (simp add: p3_def get_be_other)
    also have "get_be32 p3 i = get_be32 p4 i" using that assms t l by (cases "jfs_has_feature_64bit j") (auto simp: p4_def get_be_other)
    finally have "get_be32 p4 i = get_be32 p i" by simp
    then show ?thesis using that assms t l c3 by (auto simp: p5 jbd2_block_tag_csum_set_def Let_def get_be_other)
  qed
  show "get_be16 (tagged env j s p k b data lst) i = get_be16 p i" if "i + 2 \<le> ?t"
  proof -
    have "get_be16 p1 i = get_be16 p i" using that assms t by (simp add: p1_def get_be_other)
    also have "get_be16 p1 i = get_be16 p2 i" using that assms t l by (cases "k = 0") (simp_all add: p2_def get_be_other tag_off_def)
    also have "get_be16 p2 i = get_be16 p3 i" using that assms t l by (simp add: p3_def get_be_other)
    also have "get_be16 p3 i = get_be16 p4 i" using that assms t l by (cases "jfs_has_feature_64bit j") (auto simp: p4_def get_be_other)
    finally have "get_be16 p4 i = get_be16 p i" by simp
    then show ?thesis using that assms t l c3 by (auto simp: p5 jbd2_block_tag_csum_set_def Let_def get_be_other)
  qed
qed

lemma join_low_high: "ucast (ucast (b AND 0xFFFFFFFF :: u64) :: u32) OR push_bit 32 (ucast (ucast (drop_bit 32 b) :: u32)) = b"
proof -
  have "(0xFFFFFFFF :: u64) = mask 32" by (simp add: mask_eq_exp_minus_1)
  then have "b AND 0xFFFFFFFF = take_bit 32 b" by (simp only: take_bit_eq_mask)
  then show ?thesis by (auto intro!: bit_word_eqI simp: bit_simps dest: bit_imp_le_length)
qed

lemma low_half: "b < 2 ^ 32 \<Longrightarrow> ucast (ucast (b AND 0xFFFFFFFF :: u64) :: u32) = (b :: u64)"
proof -
  assume "b < 2 ^ 32"
  then have "unat b < 2 ^ 32" by (simp add: word_less_nat_alt)
  have "(0xFFFFFFFF :: u64) = mask 32" by (simp add: mask_eq_exp_minus_1)
  then have "b AND 0xFFFFFFFF = take_bit 32 b" by (simp only: take_bit_eq_mask)
  then have "ucast (b AND 0xFFFFFFFF) = (ucast b :: u32)" by (auto intro!: bit_word_eqI simp: bit_simps)
  then show ?thesis using ucast_ucast_small [OF \<open>unat b < 2 ^ 32\<close>] by simp
qed

lemma tagged_fields:
  assumes "tag_off j k + journal_tag_bytes j \<le> length p" "k = 0 \<longrightarrow> 28 + 12 * journal_tag_bytes j \<le> length p"
    "length (s_uuid (j_superblock j)) = 16" "jfs_has_feature_64bit j \<or> b < 2 ^ 32"
  shows "tag_fields env j s (tagged env j s p k b data lst) k b data lst"
proof -
  let ?t = "tag_off j k"
  note t = journal_tag_bytes_bounds(1) [of j] journal_tag_bytes_64bit [of j]
  have c3: "jfs_has_feature_csum3 j \<Longrightarrow> journal_tag_bytes j = 16" by (simp add: journal_tag_bytes_def)
  define p1 where "p1 = put_at p ?t (put_be32 (ucast (b AND 0xFFFFFFFF)))"
  define p2 where "p2 = (if k = 0 then put_at p1 (?t + 12 * journal_tag_bytes j) (s_uuid (j_superblock j)) else p1)"
  define p3 where "p3 = put_at p2 (?t + 6) (put_be16 (new_flags k lst data))"
  define p4 where "p4 = (if jfs_has_feature_64bit j then put_at p3 (?t + 8) (put_be32 (ucast (drop_bit 32 b))) else p3)"
  define p5 where "p5 = jbd2_block_tag_csum_set env j p4 ?t (logged data) s"
  have e: "tagged env j s p k b data lst = p5"
    by (simp add: tagged_def p1_def p2_def p3_def p4_def p5_def Let_def)
  have l: "length p1 = length p" "length p2 = length p" "length p3 = length p" "length p4 = length p"
    using assms t by (auto simp: p1_def p2_def p3_def p4_def tag_off_def)
  have lo: "get_be32 p5 ?t = ucast (b AND 0xFFFFFFFF)"
  proof -
    have "get_be32 p1 ?t = ucast (b AND 0xFFFFFFFF)" using assms t by (simp add: p1_def get_be32_same)
    moreover have "get_be32 p2 ?t = get_be32 p1 ?t" using assms t l by (cases "k = 0") (simp_all add: p2_def get_be_other tag_off_def)
    moreover have "get_be32 p3 ?t = get_be32 p2 ?t" using assms t l by (simp add: p3_def get_be_other)
    moreover have "get_be32 p4 ?t = get_be32 p3 ?t" using assms t l by (cases "jfs_has_feature_64bit j") (auto simp: p4_def get_be_other)
    ultimately have "get_be32 p4 ?t = ucast (b AND 0xFFFFFFFF)" by simp
    then show ?thesis using assms t l c3 by (auto simp: p5_def jbd2_block_tag_csum_set_def Let_def get_be_other)
  qed
  have hi: "get_be32 p5 (?t + 8) = ucast (drop_bit 32 b)" if "jfs_has_feature_64bit j"
    using assms t l c3 that by (auto simp: p4_def p5_def jbd2_block_tag_csum_set_def Let_def get_be_other get_be32_same)
  have fl: "get_be16 p5 (?t + 6) = new_flags k lst data"
  proof -
    have "get_be16 p4 (?t + 6) = new_flags k lst data"
      using assms t l by (auto simp: p3_def p4_def get_be_other get_be16_same)
    then show ?thesis using assms t l c3 by (auto simp: p5_def jbd2_block_tag_csum_set_def Let_def get_be_other)
  qed
  have "read_tag_block j p5 ?t = b"
    using lo hi assms(4) by (auto simp: read_tag_block_def Let_def join_low_high low_half)
  moreover have "jbd2_block_tag_csum_verify env j p5 ?t (logged data) s"
    unfolding p5_def using assms(1) l by (intro tag_csum_verify) simp
  ultimately show ?thesis
    unfolding e tag_fields_def tag_flags_def fl by (simp add: new_flags_bits)
qed

section \<open>Descriptor blocks\<close>

abbreviation tags_end :: "journal \<Rightarrow> nat" where
  "tags_end j \<equiv> j_blocksize j - descr_csum_size j"

text \<open>The block \<open>p\<close> is a descriptor with tags for \<open>xs\<close>; \<open>fin\<close>: the last one is marked as the last.\<close>

definition desc_ok :: "env \<Rightarrow> journal \<Rightarrow> tid \<Rightarrow> block \<Rightarrow> (u64 \<times> block) list \<Rightarrow> bool \<Rightarrow> bool" where
  "desc_ok env j s p xs fin =
     (length p = j_blocksize j \<and> header_is p JFS_DESCRIPTOR_BLOCK s \<and>
      (\<forall>k<length xs. tag_off j k + journal_tag_bytes j \<le> tags_end j \<and>
         tag_fields env j s p k (fst (xs ! k)) (snd (xs ! k)) (fin \<and> k = length xs - 1)))"

lemma header_is_cong:
  "(\<And>i. i \<le> 8 \<Longrightarrow> get_be32 p' i = get_be32 p i) \<Longrightarrow> header_is p' ty s = header_is p ty s"
  by (simp add: header_is_def)

lemma writable_sizes:
  assumes "writable_log env j"
  shows "256 \<le> j_blocksize j" "journal_ok j" "length (s_uuid (j_superblock j)) = 16"
    "28 + 12 * journal_tag_bytes j \<le> j_blocksize j" "descr_csum_size j \<le> 4" "16 \<le> tags_end j" "j_blocksize j < 2 ^ 31"
    "12 + journal_tag_bytes j \<le> tags_end j"
  using assms journal_tag_bytes_bounds(2) [of j] by (auto simp: writable_log_def descr_csum_size_def)

lemma desc_ok_push:
  assumes "desc_ok env j s p xs False" "writable_log env j" "tag_off j (length xs) + journal_tag_bytes j \<le> tags_end j"
    "jfs_has_feature_64bit j \<or> b < 2 ^ 32"
  shows "desc_ok env j s (tagged env j s p (length xs) b data lst) (xs @ [(b, data)]) lst"
proof -
  let ?k = "length xs" and ?p = "tagged env j s p (length xs) b data lst"
  note sz = writable_sizes [OF assms(2)]
  have p: "length p = j_blocksize j" using assms(1) by (simp add: desc_ok_def)
  have fit: "tag_off j ?k + journal_tag_bytes j \<le> length p" "?k = 0 \<longrightarrow> 28 + 12 * journal_tag_bytes j \<le> length p"
    using assms(3) p sz by auto
  note other = tagged_length_other [OF fit sz(3), where env = env and s = s and b = b and data = data and lst = lst]
  have "header_is ?p JFS_DESCRIPTOR_BLOCK s = header_is p JFS_DESCRIPTOR_BLOCK s"
    using other(2) tag_off_ge(1) [of j ?k] by (intro header_is_cong) auto
  moreover have "tag_fields env j s ?p i c q lst' = tag_fields env j s p i c q lst'" if "i < ?k" for i c q lst'
    using other(2,3) tag_off_mono [OF that, of j] by (intro tag_fields_cong) auto
  moreover have "tag_fields env j s ?p ?k b data lst" by (rule tagged_fields [OF fit sz(3) assms(4)])
  ultimately show ?thesis
    using assms(1,3) other(1) p by (auto simp: desc_ok_def nth_append less_Suc_eq)
qed

lemma desc_ok_csum:
  assumes "desc_ok env j s p xs fin" "writable_log env j"
  shows "desc_ok env j s (tail_csum_set env j p) xs fin"
proof -
  note sz = writable_sizes [OF assms(2)]
  have p: "length p = j_blocksize j" "4 \<le> j_blocksize j" using assms(1) sz by (auto simp: desc_ok_def)
  note other = get_be_tail_csum [OF p, where env = env]
  have "header_is (tail_csum_set env j p) JFS_DESCRIPTOR_BLOCK s = header_is p JFS_DESCRIPTOR_BLOCK s"
    using other(1) sz by (intro header_is_cong) auto
  moreover have "tag_fields env j s (tail_csum_set env j p) i c q lst = tag_fields env j s p i c q lst"
    if "i < length xs" for i c q lst
    using other assms(1) that by (intro tag_fields_cong) (auto simp: desc_ok_def)
  ultimately show ?thesis
    using assms(1) p by (simp add: desc_ok_def)
qed

lemma desc_tags:
  assumes "desc_ok env j s p xs fin" "fin \<or> tags_end j < tag_off j (length xs) + journal_tag_bytes j" "k < length xs"
  shows "tag_list j p (tags_end j) (tag_off j k) = map (tag_off j) [k..<length xs]"
  using assms(3)
proof (induction "length xs - k" arbitrary: k)
  case (Suc m)
  have f: "tag_off j k + journal_tag_bytes j \<le> tags_end j"
    "tag_flags p (tag_off j k) AND JFS_FLAG_SAME_UUID = 0 \<longleftrightarrow> k = 0"
    "tag_flags p (tag_off j k) AND JFS_FLAG_LAST_TAG \<noteq> 0 \<longleftrightarrow> fin \<and> k = length xs - 1"
    using assms(1) Suc.prems by (auto simp: desc_ok_def tag_fields_def)
  have n: "next_tag j p (tag_off j k) = tag_off j (Suc k)" using f(2) by (simp add: next_tag_def tag_off_Suc)
  have u: "[k..<length xs] = k # [Suc k..<length xs]" using Suc.prems by (rule upt_conv_Cons)
  show ?case
  proof (cases "Suc k < length xs")
    case True
    with Suc have "tag_list j p (tags_end j) (tag_off j (Suc k)) = map (tag_off j) [Suc k..<length xs]" by simp
    with f n u True show ?thesis by (subst tag_list.simps) auto
  next
    case False
    then have l: "k = length xs - 1" "Suc k = length xs" using Suc.prems by auto
    have "\<not> fin \<Longrightarrow> tag_list j p (tags_end j) (tag_off j (Suc k)) = []"
      using assms(2) l(2) by (subst tag_list.simps) auto
    with f n u l show ?thesis by (subst tag_list.simps) auto
  qed
qed simp

lemma unescape_logged:
  assumes "length data = n" "4 \<le> n" "flags AND JFS_FLAG_ESCAPE \<noteq> 0 \<longleftrightarrow> get_be32 data 0 = JFS_MAGIC_NUMBER"
  shows "unescape flags (take n (logged data)) = data"
proof (cases "get_be32 data 0 = JFS_MAGIC_NUMBER")
  case True
  then have "put_be32 JFS_MAGIC_NUMBER = take 4 data" using put_get_be32 [of data] assms(1,2) by simp
  moreover have "drop 4 (put_at data 0 (put_be32 0)) = drop 4 data" by (simp add: put_at_def)
  ultimately show ?thesis using True assms by (simp add: unescape_def logged_def)
qed (use assms in \<open>simp add: unescape_def logged_def\<close>)

lemma desc_data_at:
  assumes "desc_ok env j s p xs fin" "journal_ok j" "n + length xs < unat (j_last j)" "k \<le> length xs"
    "\<forall>i<length xs. lb env j d (n + i) = Some (logged (snd (xs ! i))) \<and> length (snd (xs ! i)) = j_blocksize j"
    "4 \<le> j_blocksize j"
  shows "data_at env j d p (map (tag_off j) [k..<length xs]) (of_nat (n + k)) (drop k xs) (of_nat (n + length xs))"
  using assms(4)
proof (induction "length xs - k" arbitrary: k)
  case 0
  then show ?case by (simp add: data_nil)
next
  case (Suc m)
  then have k: "k < length xs" by simp
  have f: "tag_fields env j s p k (fst (xs ! k)) (snd (xs ! k)) (fin \<and> k = length xs - 1)"
    "get_be32 p 8 = s" using assms(1) k by (auto simp: desc_ok_def header_is_def)
  have "data_at env j d p (map (tag_off j) [Suc k..<length xs]) (of_nat (n + Suc k)) (drop (Suc k) xs) (of_nat (n + length xs))"
    by (rule Suc.hyps(1)) (use Suc.hyps(2) k in auto)
  moreover have "adv j (of_nat (n + k)) = of_nat (n + Suc k)"
    using adv_of_nat [OF assms(2), of "n + k"] assms(3) k by simp
  moreover have "log_block env j d (of_nat (n + k)) = Some (logged (snd (xs ! k)))"
    using assms(5) k by (simp add: lb_def)
  ultimately have "data_at env j d p (tag_off j k # map (tag_off j) [Suc k..<length xs]) (of_nat (n + k))
      ((read_tag_block j p (tag_off j k),
        unescape (tag_flags p (tag_off j k)) (take (j_blocksize j) (logged (snd (xs ! k))))) # drop (Suc k) xs) (of_nat (n + length xs))"
    using f by (intro data_cons) (auto simp: tag_fields_def)
  moreover have "unescape (tag_flags p (tag_off j k)) (take (j_blocksize j) (logged (snd (xs ! k)))) = snd (xs ! k)"
    using f(1) assms(5,6) k by (intro unescape_logged) (auto simp: tag_fields_def)
  moreover have "read_tag_block j p (tag_off j k) = fst (xs ! k)" using f(1) by (simp add: tag_fields_def)
  ultimately show ?case
    using k by (simp add: upt_conv_Cons Cons_nth_drop_Suc del: upt_Suc)
qed

text \<open>A full or final descriptor with its data blocks is an item of the log.\<close>

lemma descriptor_item:
  assumes "desc_ok env j s p xs fin" "writable_log env j" "xs \<noteq> []"
    "fin \<or> tags_end j < tag_off j (length xs) + journal_tag_bytes j"
    "unat (j_first j) \<le> n" "n + 1 + length xs < unat (j_last j)"
    "lb env j d n = Some (tail_csum_set env j p)"
    "\<forall>i<length xs. lb env j d (n + 1 + i) = Some (logged (snd (xs ! i))) \<and> length (snd (xs ! i)) = j_blocksize j"
    "items_at env j d s (of_nat (n + 1 + length xs)) items pos'"
  shows "items_at env j d s (of_nat n) (Writes xs # items) pos'"
proof -
  let ?p = "tail_csum_set env j p"
  note sz = writable_sizes [OF assms(2)]
  have ok: "desc_ok env j s ?p xs fin" by (rule desc_ok_csum [OF assms(1,2)])
  have tags: "descr_tags j ?p = map (tag_off j) [0..<length xs]"
    using desc_tags [OF ok assms(4), of 0] assms(3) by (simp add: descr_tags_def tag_off_def)
  have adv: "adv j (of_nat n) = of_nat (n + 1)" using adv_of_nat [OF sz(2), of n] assms(6) by simp
  have "data_at env j d ?p (descr_tags j ?p) (of_nat (n + 1)) xs (of_nat (n + 1 + length xs))"
    using desc_data_at [OF ok sz(2) assms(6), of 0 d] assms(8) sz(1) by (simp add: tags)
  moreover have "length (descr_tags j ?p) \<le> unat (j_last j) - unat (j_first j)"
    using assms(5,6) by (simp add: tags)
  moreover have "header_is ?p JFS_DESCRIPTOR_BLOCK s" using ok by (simp add: desc_ok_def)
  moreover have "jbd2_descr_block_csum_verify env j ?p"
    using assms(1) sz by (intro tail_csum_verify) (auto simp: desc_ok_def)
  ultimately show ?thesis
    using assms(7,9) adv by (intro items_writes [where p = ?p and ?pos1.0 = "of_nat (n + 1 + length xs)"]) (auto simp: lb_def)
qed

end
