(* ===== verification/Journal_Write_Loops.thy ===== *)
theory Journal_Write_Loops
  imports Journal_Write_Log
begin

text \<open>
  The loops of the writer.  Each leaves, from its first block of the log to its last, items that
  recovery reads as the given blocks or revocations, and changes nothing else.
\<close>

section \<open>Items from one block to another\<close>

text \<open>
  Any disk that agrees with \<open>d\<close> on the blocks from \<open>a\<close> to before \<open>c\<close> has these items there, followed
  by what lies from \<open>c\<close> on.
\<close>

definition laid_out :: "env \<Rightarrow> journal \<Rightarrow> tid \<Rightarrow> disk \<Rightarrow> nat \<Rightarrow> nat \<Rightarrow> log_trans \<Rightarrow> bool" where
  "laid_out env j s d a c items =
     (\<forall>d' rest pos. (\<forall>m. a \<le> m \<and> m < c \<longrightarrow> lb env j d' m = lb env j d m) \<longrightarrow>
        items_at env j d' s (of_nat c) rest pos \<longrightarrow> items_at env j d' s (of_nat a) (items @ rest) pos)"

definition framed :: "env \<Rightarrow> journal \<Rightarrow> disk \<Rightarrow> disk \<Rightarrow> nat \<Rightarrow> nat \<Rightarrow> bool" where
  "framed env j d d' a c =
     ((\<forall>m. in_log j m \<and> (m < a \<or> c \<le> m) \<longrightarrow> lb env j d' m = lb env j d m) \<and>
      (\<forall>dev b. (dev, b) \<notin> journal_blocks j \<longrightarrow> d' dev b = d dev b))"

lemma laid_out_Nil: "laid_out env j s d a a []"
  by (simp add: laid_out_def)

lemma laid_out_append:
  assumes "laid_out env j s d a b xs" "laid_out env j s d b c ys" "a \<le> b" "b \<le> c"
  shows "laid_out env j s d a c (xs @ ys)"
  unfolding laid_out_def
proof (intro allI impI)
  fix d' rest pos
  assume e: "\<forall>m. a \<le> m \<and> m < c \<longrightarrow> lb env j d' m = lb env j d m" and r: "items_at env j d' s (of_nat c) rest pos"
  from e r assms(2,3) have "items_at env j d' s (of_nat b) (ys @ rest) pos" by (auto simp: laid_out_def)
  with e assms(1,4) have "items_at env j d' s (of_nat a) (xs @ ys @ rest) pos" by (auto simp: laid_out_def)
  then show "items_at env j d' s (of_nat a) ((xs @ ys) @ rest) pos" by simp
qed

lemma laid_out_cong:
  "laid_out env j s d a c xs \<Longrightarrow> (\<And>m. a \<le> m \<Longrightarrow> m < c \<Longrightarrow> lb env j d' m = lb env j d m) \<Longrightarrow> laid_out env j s d' a c xs"
  by (simp add: laid_out_def)

lemma laid_out_items: "laid_out env j s d a c xs \<Longrightarrow> items_at env j d s (of_nat a) xs (of_nat c)"
  unfolding laid_out_def by (metis append_Nil2 items_nil)

lemma framed_refl [simp]: "framed env j d d a c"
  by (simp add: framed_def)

lemma framed_trans:
  "framed env j d d1 a b \<Longrightarrow> framed env j d1 d2 b' c \<Longrightarrow> a \<le> b' \<Longrightarrow> b \<le> c \<Longrightarrow> framed env j d d2 a c"
  by (auto simp: framed_def)

lemma framed_stores: "stores env j d n p d' \<Longrightarrow> a \<le> n \<Longrightarrow> n < c \<Longrightarrow> framed env j d d' a c"
  by (auto simp: framed_def stores_def)

lemma framed_inside: "framed env j d d' a c \<Longrightarrow> in_log j m \<Longrightarrow> m < a \<or> c \<le> m \<Longrightarrow> lb env j d' m = lb env j d m"
  by (simp add: framed_def)

lemma stores_lb: "stores env j d n p d' \<Longrightarrow> in_log j m \<Longrightarrow> lb env j d' m = (if m = n then Some p else lb env j d m)"
  by (simp add: stores_def)

section \<open>Blocks\<close>

text \<open>The data blocks for \<open>xs\<close> lie from \<open>n\<close> on.\<close>

definition data_blocks :: "env \<Rightarrow> journal \<Rightarrow> disk \<Rightarrow> nat \<Rightarrow> (u64 \<times> block) list \<Rightarrow> bool" where
  "data_blocks env j d n xs =
     (\<forall>i<length xs. lb env j d (n + i) = Some (logged (snd (xs ! i))) \<and> length (snd (xs ! i)) = j_blocksize j)"

lemma laid_out_descriptor:
  assumes "desc_ok env j s p xs fin" "writable_log env j" "xs \<noteq> []"
    "fin \<or> tags_end j < tag_off j (length xs) + journal_tag_bytes j"
    "unat (j_first j) \<le> n" "n + 1 + length xs < unat (j_last j)"
    "lb env j d n = Some (tail_csum_set env j p)" "data_blocks env j d (n + 1) xs"
  shows "laid_out env j s d n (n + 1 + length xs) [Writes xs]"
  unfolding laid_out_def
proof (intro allI impI)
  fix d' rest pos
  assume e: "\<forall>m. n \<le> m \<and> m < n + 1 + length xs \<longrightarrow> lb env j d' m = lb env j d m"
    and r: "items_at env j d' s (of_nat (n + 1 + length xs)) rest pos"
  have "\<forall>i<length xs. lb env j d' (n + 1 + i) = Some (logged (snd (xs ! i))) \<and> length (snd (xs ! i)) = j_blocksize j"
    using assms(8) e by (simp add: data_blocks_def)
  moreover have "lb env j d' n = Some (tail_csum_set env j p)" using assms(7) e by simp
  ultimately show "items_at env j d' s (of_nat n) ([Writes xs] @ rest) pos"
    using descriptor_item [OF assms(1-6), of d' rest pos] r by simp
qed

text \<open>The data block of one more tag is stored after those of \<open>xs\<close>.\<close>

lemma data_blocks_push:
  assumes "data_blocks env j d n xs" "stores env j d (n + length xs) (logged data) d'" "length data = j_blocksize j"
    "unat (j_first j) \<le> n" "n + length xs < unat (j_last j)"
  shows "data_blocks env j d' n (xs @ [(b, data)])"
proof -
  have "in_log j (n + i)" if "i \<le> length xs" for i using assms(4,5) that by (simp add: in_log_def)
  then show ?thesis
    using assms(1-3) by (auto simp: data_blocks_def nth_append less_Suc_eq stores_lb)
qed

lemma desc_ok_Nil: "desc_ok env j s p xs fin \<Longrightarrow> desc_ok env j s p [] fin'"
  by (simp add: desc_ok_def)

definition no_revokes :: "log_trans \<Rightarrow> bool" where
  "no_revokes items = (\<forall>i\<in>set items. item_revokes i = [])"

text \<open>
  What a loop promises that starts at log block \<open>a\<close>: it succeeds, and its items lie from \<open>a\<close> to a
  block \<open>c\<close> that is neither before \<open>lo\<close> nor after \<open>hi\<close>.
\<close>

definition loop_done ::
    "env \<Rightarrow> journal \<Rightarrow> tid \<Rightarrow> disk \<Rightarrow> nat \<Rightarrow> nat \<Rightarrow> nat \<Rightarrow> (log_trans \<Rightarrow> bool) \<Rightarrow> jw_err option \<times> u64 \<times> disk \<Rightarrow> bool" where
  "loop_done env j s d a lo hi P r =
     (\<exists>c d' items. r = (None, of_nat c, d') \<and> a \<le> c \<and> lo \<le> c \<and> c \<le> hi \<and> laid_out env j s d' a c items \<and>
        P items \<and> framed env j d d' a c)"

lemma loop_done_weaken:
  "loop_done env j s d a lo' hi' P r \<Longrightarrow> lo \<le> lo' \<Longrightarrow> hi' \<le> hi \<Longrightarrow> loop_done env j s d a lo hi P r"
  unfolding loop_done_def by (elim exE conjE, intro exI conjI) (assumption | simp)+

lemma loop_done_stores:
  assumes "loop_done env j s d1 a lo' hi P r" "stores env j d n p d1" "a \<le> n" "n < lo'" "lo \<le> lo'"
  shows "loop_done env j s d a lo hi P r"
proof -
  from assms(1) obtain c d' items where r: "r = (None, of_nat c, d')" "a \<le> c" "lo' \<le> c" "c \<le> hi"
    "laid_out env j s d' a c items" "P items" "framed env j d1 d' a c"
    by (auto simp: loop_done_def)
  have "framed env j d d1 a c" by (rule framed_stores [OF assms(2,3)]) (use assms(4) r(3) in simp)
  then have "framed env j d d' a c" by (rule framed_trans [OF _ r(7)]) simp_all
  with r assms(5) show ?thesis by (auto simp: loop_done_def)
qed

text \<open>A block at \<open>a\<close> that completes one item is stored, and the loop goes on behind that item.\<close>

lemma loop_done_item:
  assumes "stores env j d a p d1" "loop_done env j s d1 b lo hi Q r" "a < b" "b \<le> lo"
    "unat (j_first j) \<le> a" "b < unat (j_last j)"
    "laid_out env j s d1 a b [i]" "\<And>items. Q items \<Longrightarrow> P (i # items)"
  shows "loop_done env j s d a lo hi P r"
proof -
  from assms(2) obtain c d' items where r: "r = (None, of_nat c, d')" "b \<le> c" "lo \<le> c" "c \<le> hi"
    "laid_out env j s d' b c items" "Q items" "framed env j d1 d' b c"
    by (auto simp: loop_done_def)
  have "lb env j d' m = lb env j d1 m" if "a \<le> m" "m < b" for m
    using r(7) by (rule framed_inside) (use that assms(5,6) in \<open>auto simp: in_log_def\<close>)
  then have "laid_out env j s d' a b [i]" by (rule laid_out_cong [OF assms(7)])
  then have "laid_out env j s d' a c ([i] @ items)"
    by (rule laid_out_append [OF _ r(5)]) (use assms(3) r(2) in auto)
  moreover have "framed env j d d' a c"
    by (rule framed_trans [OF framed_stores [OF assms(1)] r(7)]) (use assms(3) r(2) in auto)
  ultimately show ?thesis
    using r assms(3) assms(8) [OF r(6)] unfolding loop_done_def
    by (intro exI [of _ c] exI [of _ d'] exI [of _ "i # items"]) simp
qed

lemma blocks_loop_push:
  assumes w: "writable_log env j" and ok: "desc_ok env j s p xs False" and db: "data_blocks env j d (a + 1) xs"
    and fit: "tag_off j (length xs) + journal_tag_bytes j \<le> tags_end j"
    and pos: "unat (j_first j) \<le> a" "a + 1 + length xs < unat (j_last j)"
    and b: "b < count" "jfs_has_feature_64bit j \<or> b < 2 ^ 32" and data: "length data = j_blocksize j"
  obtains d1 where
    "blocks_loop env j count s errno (b # bs) (data # fp) p (tag_off j (length xs)) (of_nat a) (of_nat (a + 1 + length xs)) d =
       blocks_loop env j count s errno bs fp (tagged env j s p (length xs) b data (bs = []))
         (tag_off j (Suc (length xs))) (of_nat a) (of_nat (a + 2 + length xs)) d1"
    "stores env j d (a + 1 + length xs) (logged data) d1"
    "data_blocks env j d1 (a + 1) (xs @ [(b, data)])"
    "desc_ok env j s (tagged env j s p (length xs) b data (bs = [])) (xs @ [(b, data)]) (bs = [])"
proof -
  have "in_log j (a + 1 + length xs)" using pos by (simp add: in_log_def)
  then obtain d1 where d1: "write_log_block env j d (of_nat (a + 1 + length xs)) (logged data) = Inr d1"
    "stores env j d (a + 1 + length xs) (logged data) d1"
    by (rule write_log_block_stores [OF w])
  have t: "tag_off j (length xs) + (tag_off j (Suc (length xs)) - tag_off j (length xs)) = tag_off j (Suc (length xs))"
    by (simp add: tag_off_Suc)
  have n: "(of_nat (Suc (a + length xs)) :: u64) + 1 = of_nat (a + 2 + length xs)" by simp
  show thesis
  proof
    show "blocks_loop env j count s errno (b # bs) (data # fp) p (tag_off j (length xs)) (of_nat a) (of_nat (a + 1 + length xs)) d =
       blocks_loop env j count s errno bs fp (tagged env j s p (length xs) b data (bs = []))
         (tag_off j (Suc (length xs))) (of_nat a) (of_nat (a + 2 + length xs)) d1"
    proof -
      have "\<not> count \<le> b" using b(1) by simp
      moreover have "\<not> tags_end j < tag_off j (length xs) + journal_tag_bytes j" using fit by simp
      ultimately show ?thesis using d1(1) by (simp add: put_tag_eq t n del: of_nat_add of_nat_Suc add_2_eq_Suc add_2_eq_Suc')
    qed
    show "data_blocks env j d1 (a + 1) (xs @ [(b, data)])"
      using pos by (intro data_blocks_push [OF db d1(2) data]) auto
    show "desc_ok env j s (tagged env j s p (length xs) b data (bs = [])) (xs @ [(b, data)]) (bs = [])"
      by (rule desc_ok_push [OF ok w fit b(2)])
  qed (rule d1(2))
qed

text \<open>Writing out a descriptor that is full or holds the last tag completes an item.\<close>

lemma flush_descriptor:
  assumes "writable_log env j" "desc_ok env j s p xs fin" "xs \<noteq> []"
    "fin \<or> tags_end j < tag_off j (length xs) + journal_tag_bytes j" "data_blocks env j d (a + 1) xs"
    "unat (j_first j) \<le> a" "a + 1 + length xs < unat (j_last j)"
  obtains d1 where "write_log_block env j d (of_nat a) (tail_csum_set env j p) = Inr d1"
    "stores env j d a (tail_csum_set env j p) d1" "laid_out env j s d1 a (a + 1 + length xs) [Writes xs]"
proof -
  have a: "in_log j a" using assms(6,7) by (simp add: in_log_def)
  obtain d1 where d1: "write_log_block env j d (of_nat a) (tail_csum_set env j p) = Inr d1"
    "stores env j d a (tail_csum_set env j p) d1"
    by (rule write_log_block_stores [OF assms(1) a])
  have "lb env j d1 (a + 1 + i) = lb env j d (a + 1 + i)" if "i < length xs" for i
    using stores_lb [OF d1(2), of "a + 1 + i"] assms(6,7) that by (simp add: in_log_def)
  then have "data_blocks env j d1 (a + 1) xs" using assms(5) by (simp add: data_blocks_def)
  moreover have "lb env j d1 a = Some (tail_csum_set env j p)" using stores_lb [OF d1(2) a] by simp
  ultimately have "laid_out env j s d1 a (a + 1 + length xs) [Writes xs]"
    by (intro laid_out_descriptor [OF assms(2,1,3,4,6,7)])
  with d1 show thesis by (rule that)
qed

definition writes_exactly :: "(u64 \<times> block) list \<Rightarrow> log_trans \<Rightarrow> bool" where
  "writes_exactly xs items = (concat (map item_writes items) = xs \<and> no_revokes items)"

text \<open>All blocks of a list fit the file system and the log format.\<close>

definition good_blocks :: "journal \<Rightarrow> u64 \<Rightarrow> u64 list \<Rightarrow> bool" where
  "good_blocks j count bs = (\<forall>b\<in>set bs. b < count \<and> (jfs_has_feature_64bit j \<or> b < 2 ^ 32))"

theorem blocks_loop_done:
  assumes w: "writable_log env j" and ok: "desc_ok env j s p xs (bs = [])" and ne: "bs = [] \<longrightarrow> xs \<noteq> []"
    and db: "data_blocks env j d (a + 1) xs"
    and pos: "unat (j_first j) \<le> a" "a + 1 + length xs + 2 * length bs < unat (j_last j)"
    and good: "good_blocks j count bs" and data: "length fp = length bs" "\<forall>q\<in>set fp. length q = j_blocksize j"
  shows "loop_done env j s d a (a + 1 + length xs) (a + 1 + length xs + 2 * length bs) (writes_exactly (xs @ zip bs fp))
           (blocks_loop env j count s errno bs fp p (tag_off j (length xs)) (of_nat a) (of_nat (a + 1 + length xs)) d)"
  using ok ne db pos good data
proof (induction bs arbitrary: fp p xs a d)
  case Nil
  have last: "a + 1 + length xs < unat (j_last j)" using Nil.prems(5) by simp
  obtain d1 where d1: "write_log_block env j d (of_nat a) (tail_csum_set env j p) = Inr d1"
    "stores env j d a (tail_csum_set env j p) d1" "laid_out env j s d1 a (a + 1 + length xs) [Writes xs]"
    by (rule flush_descriptor [OF w Nil.prems(1) _ _ Nil.prems(3,4) last]) (use Nil.prems(2) in auto)
  have "framed env j d d1 a (a + 1 + length xs)" by (rule framed_stores [OF d1(2)]) auto
  moreover have "tag_off j (length xs) \<noteq> 12" using Nil.prems(2) tag_off_ge(2) [of j "length xs"] by simp
  ultimately show ?case
    using d1(1,3) Nil.prems(7)
    by (auto simp: loop_done_def jbd2_descr_block_csum_set_def writes_exactly_def no_revokes_def item_writes_def item_revokes_def
        intro!: exI [of _ "a + 1 + length xs"] exI [of _ "[Writes xs]"] simp del: of_nat_add of_nat_Suc)
next
  case (Cons b bs)
  note sz = writable_sizes [OF w]
  obtain q fp' where fp: "fp = q # fp'" "length fp' = length bs" "length q = j_blocksize j" "\<forall>q\<in>set fp'. length q = j_blocksize j"
    using Cons.prems(7,8) by (cases fp) auto
  have b: "b < count" "jfs_has_feature_64bit j \<or> b < 2 ^ 32" "good_blocks j count bs"
    using Cons.prems(6) by (auto simp: good_blocks_def)
  have push: "loop_done env j s d a (a + 1 + length xs) (a + 2 + length xs + 2 * length bs) (writes_exactly (xs @ (b, q) # zip bs fp'))
      (blocks_loop env j count s errno (b # bs) fp p (tag_off j (length xs)) (of_nat a) (of_nat (a + 1 + length xs)) d)"
    if "desc_ok env j s p xs False" "data_blocks env j d (a + 1) xs" "tag_off j (length xs) + journal_tag_bytes j \<le> tags_end j"
      "unat (j_first j) \<le> a" "a + 2 + length xs + 2 * length bs < unat (j_last j)" for p xs a d
  proof -
    note h = that
    have a: "a + 1 + length xs < unat (j_last j)" using h(5) by simp
    obtain d1 where d1: "blocks_loop env j count s errno (b # bs) fp p (tag_off j (length xs)) (of_nat a) (of_nat (a + 1 + length xs)) d =
       blocks_loop env j count s errno bs fp' (tagged env j s p (length xs) b q (bs = []))
         (tag_off j (Suc (length xs))) (of_nat a) (of_nat (a + 2 + length xs)) d1"
      "stores env j d (a + 1 + length xs) (logged q) d1"
      "data_blocks env j d1 (a + 1) (xs @ [(b, q)])"
      "desc_ok env j s (tagged env j s p (length xs) b q (bs = [])) (xs @ [(b, q)]) (bs = [])"
      unfolding fp(1) by (rule blocks_loop_push [OF w h(1,2,3,4) a b(1,2) fp(3)])
    have "loop_done env j s d1 a (a + 1 + length (xs @ [(b, q)])) (a + 1 + length (xs @ [(b, q)]) + 2 * length bs)
        (writes_exactly ((xs @ [(b, q)]) @ zip bs fp'))
        (blocks_loop env j count s errno bs fp' (tagged env j s p (length xs) b q (bs = []))
         (tag_off j (length (xs @ [(b, q)]))) (of_nat a) (of_nat (a + 1 + length (xs @ [(b, q)]))) d1)"
      using h(4,5) by (intro Cons.IH [OF d1(4) _ d1(3) _ _ b(3) fp(2,4)]) auto
    then have "loop_done env j s d1 a (a + 1 + length (xs @ [(b, q)])) (a + 2 + length xs + 2 * length bs)
        (writes_exactly (xs @ (b, q) # zip bs fp'))
        (blocks_loop env j count s errno (b # bs) fp p (tag_off j (length xs)) (of_nat a) (of_nat (a + 1 + length xs)) d)"
      unfolding d1(1) by simp
    then show ?thesis by (rule loop_done_stores [OF _ d1(2)]) auto
  qed
  show ?case
  proof (cases "tag_off j (length xs) + journal_tag_bytes j \<le> tags_end j")
    case True
    have "loop_done env j s d a (a + 1 + length xs) (a + 2 + length xs + 2 * length bs) (writes_exactly (xs @ (b, q) # zip bs fp'))
      (blocks_loop env j count s errno (b # bs) fp p (tag_off j (length xs)) (of_nat a) (of_nat (a + 1 + length xs)) d)"
      using Cons.prems True by (intro push) auto
    then show ?thesis unfolding fp(1) zip_Cons_Cons by (rule loop_done_weaken) simp_all
  next
    case False
    let ?p = "tail_csum_set env j p" and ?b = "a + 1 + length xs"
    have xs: "xs \<noteq> []" using False sz by (auto simp: tag_off_def)
    have last: "a + 1 + length xs < unat (j_last j)" using Cons.prems(5) by simp
    obtain d1 where d1: "write_log_block env j d (of_nat a) ?p = Inr d1" "stores env j d a ?p d1"
      and lay: "laid_out env j s d1 a ?b [Writes xs]"
      by (rule flush_descriptor [OF w Cons.prems(1) xs _ Cons.prems(3,4) last]) (use False in auto)
    have ok: "desc_ok env j s ?p [] False"
      using Cons.prems(1) by (intro desc_ok_Nil [OF desc_ok_csum [OF _ w]]) simp
    have next_desc: "blocks_loop env j count s errno (b # bs) fp p (tag_off j (length xs)) (of_nat a) (of_nat ?b) d =
        blocks_loop env j count s errno (b # bs) fp ?p (tag_off j (length ([] :: (u64 \<times> block) list))) (of_nat ?b)
          (of_nat (?b + 1 + length ([] :: (u64 \<times> block) list))) d1"
    proof -
      have "\<not> tags_end j < 12 + journal_tag_bytes j" using sz(8) by simp
      moreover have "(of_nat (Suc (a + length xs)) :: u64) + 1 = of_nat (Suc (Suc (a + length xs)))" by simp
      ultimately show ?thesis using False d1(1)
        by (simp add: fp(1) jbd2_descr_block_csum_set_def tag_off_def not_le del: of_nat_Suc of_nat_add)
    qed
    have rest: "loop_done env j s d1 ?b (?b + 1 + length ([] :: (u64 \<times> block) list)) (?b + 2 + length ([] :: (u64 \<times> block) list) + 2 * length bs)
        (writes_exactly ([] @ (b, q) # zip bs fp'))
        (blocks_loop env j count s errno (b # bs) fp p (tag_off j (length xs)) (of_nat a) (of_nat ?b) d)"
      unfolding next_desc
      using ok sz(8) Cons.prems(4,5) by (intro push) (auto simp: data_blocks_def tag_off_def)
    have "loop_done env j s d a (?b + 1) (?b + 2 + 2 * length bs) (writes_exactly (xs @ (b, q) # zip bs fp'))
        (blocks_loop env j count s errno (b # bs) fp p (tag_off j (length xs)) (of_nat a) (of_nat ?b) d)"
    proof (rule loop_done_item [OF d1(2) _ _ _ _ _ lay])
      show "loop_done env j s d1 ?b (?b + 1) (?b + 2 + 2 * length bs) (writes_exactly ((b, q) # zip bs fp'))
        (blocks_loop env j count s errno (b # bs) fp p (tag_off j (length xs)) (of_nat a) (of_nat ?b) d)"
        using rest by (simp only: list.size add_0_right append_Nil)
    qed (use Cons.prems(4,5) in \<open>auto simp: writes_exactly_def no_revokes_def item_writes_def item_revokes_def\<close>)
    then show ?thesis unfolding fp(1) zip_Cons_Cons by (rule loop_done_weaken) simp_all
  qed
qed

section \<open>Revocations\<close>

definition revokes_exactly :: "u64 list \<Rightarrow> log_trans \<Rightarrow> bool" where
  "revokes_exactly bs items = (concat (map item_writes items) = [] \<and> concat (map item_revokes items) = bs)"

definition record_at :: "journal \<Rightarrow> block \<Rightarrow> nat \<Rightarrow> u64" where
  "record_at j p off = (if jfs_has_feature_64bit j then get_be64 p off else ucast (get_be32 p off))"

abbreviation rec_off :: "journal \<Rightarrow> nat \<Rightarrow> nat" where
  "rec_off j k \<equiv> 16 + revoke_size j * k"

text \<open>The block \<open>p\<close> is a revoke block with the records \<open>xs\<close>, its count apart.\<close>

definition revs_ok :: "journal \<Rightarrow> tid \<Rightarrow> block \<Rightarrow> u64 list \<Rightarrow> bool" where
  "revs_ok j s p xs =
     (length p = j_blocksize j \<and> header_is p JFS_REVOKE_BLOCK s \<and> rec_off j (length xs) \<le> tags_end j \<and>
      (\<forall>k<length xs. record_at j p (rec_off j k) = xs ! k))"

lemma record_at_cong:
  assumes "\<And>i. off \<le> i \<Longrightarrow> i + 4 \<le> off + revoke_size j \<Longrightarrow> get_be32 p' i = get_be32 p i"
  shows "record_at j p' off = record_at j p off"
  using assms [of off] assms [of "off + 4"] by (auto simp: record_at_def get_be64_def revoke_size_def)

lemma rec_off_mono: "k < n \<Longrightarrow> rec_off j k + revoke_size j \<le> rec_off j n"
  using mult_le_mono2 [of "Suc k" n "revoke_size j"] by simp

lemma revoke_list_records:
  assumes "\<forall>k<length xs. record_at j p (rec_off j k) = xs ! k" "k \<le> length xs"
  shows "revoke_list p (revoke_size j) (rec_off j (length xs)) (rec_off j k) = drop k xs"
  using assms(2)
proof (induction "length xs - k" arbitrary: k)
  case 0
  then show ?case by (subst revoke_list.simps) (simp add: revoke_size_def)
next
  case (Suc m)
  then have k: "k < length xs" by simp
  have "revoke_list p (revoke_size j) (rec_off j (length xs)) (rec_off j (Suc k)) = drop (Suc k) xs"
    using Suc.hyps(2) by (intro Suc.hyps(1)) auto
  moreover have "rec_off j (Suc k) = rec_off j k + revoke_size j" by simp
  moreover have "record_at j p (rec_off j k) # drop (Suc k) xs = drop k xs"
    using assms(1) k by (simp add: Cons_nth_drop_Suc)
  moreover have "revoke_size j \<noteq> 0" "revoke_size j = 4 \<longleftrightarrow> \<not> jfs_has_feature_64bit j" by (simp_all add: revoke_size_def)
  ultimately show ?case
    using rec_off_mono [OF k, of j] by (subst revoke_list.simps, cases "jfs_has_feature_64bit j") (simp_all add: record_at_def ac_simps)
qed

lemma put_revoke_ok:
  assumes "revs_ok j s p xs" "rec_off j (length xs) + revoke_size j \<le> tags_end j" "jfs_has_feature_64bit j \<or> b < 2 ^ 32"
  shows "revs_ok j s (put_revoke j p (rec_off j (length xs)) b) (xs @ [b])"
proof -
  let ?o = "rec_off j (length xs)" let ?p = "put_revoke j p ?o b"
  have p: "length p = j_blocksize j" "?o + revoke_size j \<le> length p" using assms(1,2) by (auto simp: revs_ok_def)
  have l: "length ?p = j_blocksize j" using p by (auto simp: put_revoke_def revoke_size_def)
  have o: "get_be32 ?p i = get_be32 p i" if "i + 4 \<le> ?o" for i
    using p that by (auto simp: put_revoke_def revoke_size_def get_be_other)
  have "header_is ?p JFS_REVOKE_BLOCK s = header_is p JFS_REVOKE_BLOCK s"
    by (intro header_is_cong o) simp
  moreover have "record_at j ?p (rec_off j k) = record_at j p (rec_off j k)" if "k < length xs" for k
    using rec_off_mono [OF that, of j] by (intro record_at_cong o) linarith
  moreover have "record_at j ?p ?o = b"
    using p assms(3) by (auto simp: record_at_def put_revoke_def revoke_size_def get_be64_same get_be32_same
        ucast_ucast_small word_less_nat_alt)
  moreover have "rec_off j (length (xs @ [b])) \<le> tags_end j" using assms(2) by simp
  ultimately show ?thesis
    using assms(1) l by (simp add: revs_ok_def nth_append) (metis less_antisym)
qed

text \<open>The block as it is written, with the count and the checksum.\<close>

definition sealed :: "env \<Rightarrow> journal \<Rightarrow> block \<Rightarrow> nat \<Rightarrow> block" where
  "sealed env j p off = tail_csum_set env j (put_at p 12 (put_be32 (of_nat off)))"

lemma sealed_block:
  assumes w: "writable_log env j" and ok: "revs_ok j s p xs"
  shows "revs_ok j s (sealed env j p (rec_off j (length xs))) xs"
    and "jbd2_revoke_block_csum_verify env j (sealed env j p (rec_off j (length xs)))"
    and "revoke_records j (sealed env j p (rec_off j (length xs))) = xs"
    and "unat (get_be32 (sealed env j p (rec_off j (length xs))) 12) = rec_off j (length xs)"
proof -
  let ?o = "rec_off j (length xs)" let ?q = "put_at p 12 (put_be32 (of_nat ?o))" let ?p = "sealed env j p ?o"
  note sz = writable_sizes [OF w]
  have p: "length p = j_blocksize j" "?o \<le> tags_end j" using ok by (auto simp: revs_ok_def)
  have q: "length ?q = j_blocksize j" "4 \<le> j_blocksize j" using p sz by auto
  have o: "get_be32 ?p i = get_be32 p i" if "i + 4 \<le> 12 \<or> 16 \<le> i" "i + 4 \<le> tags_end j" for i
    using get_be_tail_csum(1) [OF q that(2)] that p sz by (simp add: sealed_def get_be_other)
  have "get_be32 ?p 12 = of_nat ?o"
    using get_be_tail_csum(1) [OF q, of 12] p sz by (simp add: sealed_def get_be32_same)
  moreover have "unat (of_nat n :: u32) = n" if "n < 2 ^ 31" for n using that by (simp add: unat_of_nat)
  ultimately show c: "unat (get_be32 ?p 12) = ?o" using p(2) sz(7) by (metis diff_le_self le_less_trans order.trans)
  have "header_is ?p JFS_REVOKE_BLOCK s = header_is p JFS_REVOKE_BLOCK s"
    using sz by (intro header_is_cong o) auto
  moreover have "record_at j ?p (rec_off j k) = record_at j p (rec_off j k)" if "k < length xs" for k
    using rec_off_mono [OF that, of j] p(2) by (intro record_at_cong o) linarith+
  ultimately show r: "revs_ok j s ?p xs"
    using ok q by (simp add: revs_ok_def sealed_def)
  show "jbd2_revoke_block_csum_verify env j ?p" unfolding sealed_def by (rule tail_csum_verify(2) [OF q])
  have "revoke_list ?p (revoke_size j) ?o (rec_off j 0) = drop 0 xs"
    using r by (intro revoke_list_records) (auto simp: revs_ok_def)
  then show "revoke_records j ?p = xs"
    unfolding revoke_records_def c revoke_size_def [symmetric] by simp
qed

lemma flush_revokes:
  assumes "writable_log env j" "revs_ok j s p xs" "unat (j_first j) \<le> a" "a + 1 < unat (j_last j)"
  obtains d1 where "write_revoke_block env j d (of_nat a) p (rec_off j (length xs)) = Inr (sealed env j p (rec_off j (length xs)), d1)"
    "stores env j d a (sealed env j p (rec_off j (length xs))) d1" "laid_out env j s d1 a (a + 1) [Revokes xs]"
proof -
  let ?p = "sealed env j p (rec_off j (length xs))"
  note sz = writable_sizes [OF assms(1)]
  note b = sealed_block [OF assms(1,2)]
  have a: "in_log j a" using assms(3,4) by (simp add: in_log_def)
  obtain d1 where d1: "write_log_block env j d (of_nat a) ?p = Inr d1" "stores env j d a ?p d1"
    by (rule write_log_block_stores [OF assms(1) a])
  have "laid_out env j s d1 a (a + 1) [Revokes xs]"
    unfolding laid_out_def
  proof (intro allI impI)
    fix d' rest pos
    assume "\<forall>m. a \<le> m \<and> m < a + 1 \<longrightarrow> lb env j d' m = lb env j d1 m" and r: "items_at env j d' s (of_nat (a + 1)) rest pos"
    then have "lb env j d' a = Some ?p" using stores_lb [OF d1(2) a] by simp
    moreover have "adv j (of_nat a) = of_nat (a + 1)" by (rule adv_of_nat [OF sz(2) assms(4)])
    ultimately show "items_at env j d' s (of_nat a) ([Revokes xs] @ rest) pos"
      using items_revokes [of env j d' "of_nat a" ?p s rest pos] b r by (simp add: revs_ok_def lb_def)
  qed
  with d1 show thesis by (intro that) (auto simp: write_revoke_block_def sealed_def jbd2_revoke_csum_set_def)
qed

theorem revoke_loop_done:
  assumes w: "writable_log env j" and ok: "revs_ok j s p xs"
    and pos: "unat (j_first j) \<le> a" "a + 1 + length bs < unat (j_last j)" and good: "good_blocks j count bs"
  shows "loop_done env j s d a (a + 1) (a + 1 + length bs) (revokes_exactly (xs @ bs))
           (revoke_loop env j count bs p (rec_off j (length xs)) (of_nat a) d)"
  using ok pos good
proof (induction bs arbitrary: p xs a d)
  case Nil
  obtain d1 where d1: "write_revoke_block env j d (of_nat a) p (rec_off j (length xs)) = Inr (sealed env j p (rec_off j (length xs)), d1)"
    "stores env j d a (sealed env j p (rec_off j (length xs))) d1" "laid_out env j s d1 a (a + 1) [Revokes xs]"
    by (rule flush_revokes [OF w Nil.prems(1,2)]) (use Nil.prems(3) in auto)
  have "framed env j d d1 a (a + 1)" by (rule framed_stores [OF d1(2)]) auto
  then show ?case
    using d1(1,3)
    by (auto simp: loop_done_def revokes_exactly_def item_writes_def item_revokes_def
        intro!: exI [of _ "a + 1"] exI [of _ "[Revokes xs]"])
next
  case (Cons b bs)
  note sz = writable_sizes [OF w]
  have b: "b < count" "\<not> count \<le> b" "jfs_has_feature_64bit j \<or> b < 2 ^ 32" "good_blocks j count bs"
    using Cons.prems(4) by (auto simp: good_blocks_def)
  have one: "rec_off j 1 = 16 + revoke_size j" by simp
  show ?case
  proof (cases "rec_off j (length xs) + revoke_size j \<le> tags_end j")
    case True
    have "loop_done env j s d a (a + 1) (a + 1 + length bs) (revokes_exactly ((xs @ [b]) @ bs))
       (revoke_loop env j count bs (put_revoke j p (rec_off j (length xs)) b) (rec_off j (length (xs @ [b]))) (of_nat a) d)"
      using Cons.prems(2,3) by (intro Cons.IH put_revoke_ok [OF Cons.prems(1) True b(3)] b(4)) auto
    moreover have "rec_off j (length (xs @ [b])) = rec_off j (length xs) + revoke_size j" by simp
    ultimately have "loop_done env j s d a (a + 1) (a + 1 + length bs) (revokes_exactly (xs @ b # bs))
       (revoke_loop env j count (b # bs) p (rec_off j (length xs)) (of_nat a) d)"
      using True b(2) by (simp add: not_le [symmetric] ac_simps)
    then show ?thesis by (rule loop_done_weaken) simp_all
  next
    case False
    let ?p = "sealed env j p (rec_off j (length xs))"
    obtain d1 where d1: "write_revoke_block env j d (of_nat a) p (rec_off j (length xs)) = Inr (?p, d1)"
      "stores env j d a ?p d1" and lay: "laid_out env j s d1 a (a + 1) [Revokes xs]"
      by (rule flush_revokes [OF w Cons.prems(1,2)]) (use Cons.prems(3) in auto)
    have "revs_ok j s ?p []"
      using sealed_block(1) [OF w Cons.prems(1)] sz(6) by (simp add: revs_ok_def)
    moreover have "rec_off j (length ([] :: u64 list)) + revoke_size j \<le> tags_end j"
      using sz(1,5) by (auto simp: revoke_size_def)
    ultimately have "revs_ok j s (put_revoke j ?p (rec_off j (length ([] :: u64 list))) b) ([] @ [b])"
      by (intro put_revoke_ok b(3))
    then have "revs_ok j s (put_revoke j ?p 16 b) [b]" by simp
    then have rest: "loop_done env j s d1 (a + 1) (a + 1 + 1) (a + 1 + 1 + length bs) (revokes_exactly ([b] @ bs))
        (revoke_loop env j count bs (put_revoke j ?p 16 b) (rec_off j (length [b])) (of_nat (a + 1)) d1)"
      using Cons.prems(2,3) by (intro Cons.IH b(4)) auto
    have "revoke_loop env j count (b # bs) p (rec_off j (length xs)) (of_nat a) d =
        revoke_loop env j count bs (put_revoke j ?p 16 b) (rec_off j (length [b])) (of_nat (a + 1)) d1"
    proof -
      have "tags_end j < rec_off j (length xs) + revoke_size j" using False by simp
      then show ?thesis using d1(1) b(2) by (simp add: add.commute)
    qed
    then have "loop_done env j s d a (a + 1 + 1) (a + 1 + 1 + length bs) (revokes_exactly (xs @ b # bs))
       (revoke_loop env j count (b # bs) p (rec_off j (length xs)) (of_nat a) d)"
      using Cons.prems(2,3) rest
      by (auto intro!: loop_done_item [OF d1(2) _ _ _ _ _ lay] simp: revokes_exactly_def item_writes_def item_revokes_def)
    then show ?thesis by (rule loop_done_weaken) simp_all
  qed
qed

end
