(* ===== verification/Journal_Write_Props.thy ===== *)
theory Journal_Write_Props
  imports Journal_Write_Loops Recovery_Props
begin

text \<open>
  Properties of the writer: a written transaction is one that recovery replays, the search for the end
  of the log finds the block after it, and the writer stores nothing outside of the journal.
\<close>

section \<open>Journals that differ in their counters only\<close>

definition same_format :: "journal \<Rightarrow> journal \<Rightarrow> bool" where
  "same_format j j' =
     (j_first j' = j_first j \<and> j_last j' = j_last j \<and> j_dev j' = j_dev j \<and> j_fs_dev j' = j_fs_dev j \<and>
      j_blocksize j' = j_blocksize j \<and> j_maxlen j' = j_maxlen j \<and> j_inode j' = j_inode j \<and>
      j_csum_seed j' = j_csum_seed j \<and> j_format_version j' = j_format_version j \<and>
      s_uuid (j_superblock j') = s_uuid (j_superblock j) \<and>
      s_feature_compat (j_superblock j') = s_feature_compat (j_superblock j) \<and>
      (\<forall>m\<in>{JFS_FEATURE_INCOMPAT_64BIT, JFS_FEATURE_INCOMPAT_ASYNC_COMMIT, JFS_FEATURE_INCOMPAT_CSUM_V2, JFS_FEATURE_INCOMPAT_CSUM_V3}.
         s_feature_incompat (j_superblock j') AND m = s_feature_incompat (j_superblock j) AND m))"

lemma same_format_features:
  assumes "same_format j j'"
  shows "jfs_has_feature_checksum j' = jfs_has_feature_checksum j" "jfs_has_feature_64bit j' = jfs_has_feature_64bit j"
    "journal_has_csum_v2or3 j' = journal_has_csum_v2or3 j" "jfs_has_feature_csum3 j' = jfs_has_feature_csum3 j"
    "journal_tag_bytes j' = journal_tag_bytes j" "descr_csum_size j' = descr_csum_size j"
  using assms
  by (simp_all add: same_format_def jfs_has_feature_checksum_def jfs_has_feature_64bit_def journal_has_csum_v2or3_def
      jfs_has_feature_csum2_def jfs_has_feature_csum3_def has_compat_def has_incompat_def journal_tag_bytes_def
      descr_csum_size_def)

lemma tag_list_same_bytes:
  "journal_tag_bytes j' = journal_tag_bytes j \<Longrightarrow> tag_list j' p sz t = tag_list j p sz t"
proof (induction j p sz t rule: tag_list.induct)
  case (1 j p sz t)
  then show ?case by (subst (1 2) tag_list.simps) (simp add: next_tag_def)
qed

lemma same_format_simps:
  assumes "same_format j j'"
  shows "log_block env j' = log_block env j" "adv j' = adv j" "journal_bmap j' = journal_bmap j"
    "journal_ok j' = journal_ok j" "log_pos j' = log_pos j" "journal_blocks j' = journal_blocks j"
    "writable_log env j' = writable_log env j"
    "read_tag_block j' = read_tag_block j" "descr_tags j' p = descr_tags j p"
    "revoke_records j' p = revoke_records j p"
    "jbd2_descr_block_csum_verify env j' = jbd2_descr_block_csum_verify env j"
    "jbd2_commit_block_csum_verify env j' = jbd2_commit_block_csum_verify env j"
    "jbd2_block_tag_csum_verify env j' = jbd2_block_tag_csum_verify env j"
    "jbd2_revoke_block_csum_verify env j' = jbd2_revoke_block_csum_verify env j"
proof -
  have f: "j_first j' = j_first j" "j_last j' = j_last j" "j_dev j' = j_dev j" "j_blocksize j' = j_blocksize j"
    "j_maxlen j' = j_maxlen j" "j_inode j' = j_inode j" "j_csum_seed j' = j_csum_seed j"
    "s_uuid (j_superblock j') = s_uuid (j_superblock j)"
    using assms by (simp_all add: same_format_def)
  note ft = same_format_features [OF assms]
  show b: "journal_bmap j' = journal_bmap j" by (simp add: journal_bmap_def fun_eq_iff f)
  show l: "journal_ok j' = journal_ok j" "log_pos j' = log_pos j"
    by (simp_all add: journal_ok_def log_pos_def fun_eq_iff f)
  have "jread env j' = jread env j"
    by (simp add: fun_eq_iff jread_eq f b split: option.split)
  then show "log_block env j' = log_block env j" "adv j' = adv j" "journal_blocks j' = journal_blocks j"
    "writable_log env j' = writable_log env j"
    by (simp_all add: log_block_def adv_def wrap_def journal_blocks_def writable_log_def fun_eq_iff f b l)
  show "read_tag_block j' = read_tag_block j" "revoke_records j' p = revoke_records j p"
    by (simp_all add: read_tag_block_def revoke_records_def fun_eq_iff ft)
  show "descr_tags j' p = descr_tags j p" unfolding descr_tags_def f ft by (rule tag_list_same_bytes [OF ft(5)])
qed (use assms in \<open>simp_all add: jbd2_descr_block_csum_verify_def jbd2_commit_block_csum_verify_def fun_eq_iff
       jbd2_block_tag_csum_verify_def jbd2_revoke_block_csum_verify_def same_format_features, simp_all add: same_format_def\<close>)

lemma data_at_same_format:
  "data_at env j d p tags pos ws pos' \<Longrightarrow> same_format j j' \<Longrightarrow> data_at env j' d p tags pos ws pos'"
proof (induction rule: data_at.induct)
  case (data_cons pos q tag tags ws pos')
  have "j_blocksize j' = j_blocksize j" using data_cons.prems by (simp add: same_format_def)
  with data_cons show ?case
    using data_at.data_cons [of env j' d pos q p tag tags ws pos'] by (simp add: same_format_simps)
qed (rule data_nil)

lemma items_at_same_format:
  "items_at env j d s pos items pos' \<Longrightarrow> same_format j j' \<Longrightarrow> items_at env j' d s pos items pos'"
proof (induction rule: items_at.induct)
  case (items_writes pos p ws pos1 items pos')
  then have "data_at env j' d p (descr_tags j' p) (adv j' pos) ws pos1" "j_first j' = j_first j" "j_last j' = j_last j"
    by (simp_all add: same_format_simps data_at_same_format) (simp_all add: same_format_def)
  with items_writes show ?case
    by (intro items_at.items_writes [where p = p and ?pos1.0 = pos1]) (simp_all add: same_format_simps)
next
  case (items_revokes pos p items pos')
  have "j_blocksize j' = j_blocksize j" using items_revokes.prems by (simp add: same_format_def)
  with items_revokes show ?case
    using items_at.items_revokes [of env j' d pos p s items pos']
    by (simp add: same_format_simps same_format_features)
qed (rule items_nil)

section \<open>The commit block\<close>

lemma commit_bytes_verify:
  assumes "24 \<le> length p" "length p = j_blocksize j"
  shows "jbd2_commit_block_csum_verify env j (jbd2_commit_block_csum_set env j p)"
    and "header_is (jbd2_commit_block_csum_set env j p) ty s = header_is p ty s"
proof -
  let ?q = "put_at (put_at p 12 [0]) 13 [0]"
  have l: "length ?q = j_blocksize j" using assms by simp
  show "jbd2_commit_block_csum_verify env j (jbd2_commit_block_csum_set env j p)"
    using assms l
    by (simp add: jbd2_commit_block_csum_verify_def jbd2_commit_block_csum_set_def Let_def get_be32_same
        zero_field_put_at put_at_twice)
  show "header_is (jbd2_commit_block_csum_set env j p) ty s = header_is p ty s"
    using assms by (intro header_is_cong) (simp add: jbd2_commit_block_csum_set_def Let_def get_be_other)
qed

lemma put_header_is:
  "12 \<le> length p \<Longrightarrow> header_is (put_header p ty s) ty s \<and> length (put_header p ty s) = length p"
  by (simp add: put_header_def Let_def header_is_def get_be_other get_be32_same)

lemma commit_block:
  assumes "writable_log env j"
  shows "header_is (commit_bytes env j s now None) JFS_COMMIT_BLOCK s"
    "jbd2_commit_block_csum_verify env j (commit_bytes env j s now None)"
proof -
  note sz = writable_sizes [OF assms]
  define p0 where "p0 = put_header (replicate (j_blocksize j) 0) JFS_COMMIT_BLOCK s"
  define p1 where "p1 = put_at (put_at (put_at p0 12 [0]) 13 [0]) 16 (put_be32 0)"
  define p2 where "p2 = put_at (put_at p1 48 (put_be32 (fst now) @ replicate 4 0)) 56 (put_be32 (snd now * 1000))"
  have p0: "header_is p0 JFS_COMMIT_BLOCK s" "length p0 = j_blocksize j"
    using put_header_is [of "replicate (j_blocksize j) 0" JFS_COMMIT_BLOCK s] sz by (simp_all add: p0_def)
  have l: "length p1 = j_blocksize j" "length p2 = j_blocksize j" using p0 sz by (simp_all add: p1_def p2_def)
  have "header_is p1 JFS_COMMIT_BLOCK s = header_is p0 JFS_COMMIT_BLOCK s"
    using p0 sz by (intro header_is_cong) (simp add: p1_def get_be_other)
  moreover have "header_is p2 JFS_COMMIT_BLOCK s = header_is p1 JFS_COMMIT_BLOCK s"
    using l sz by (intro header_is_cong) (simp add: p2_def get_be_other)
  moreover have "commit_bytes env j s now None = jbd2_commit_block_csum_set env j p2"
    by (simp add: commit_bytes_def p2_def p1_def p0_def Let_def)
  ultimately show "header_is (commit_bytes env j s now None) JFS_COMMIT_BLOCK s"
    "jbd2_commit_block_csum_verify env j (commit_bytes env j s now None)"
    using p0 l sz by (simp_all add: commit_bytes_verify)
qed

section \<open>Adding to a transaction\<close>

definition open_trans :: "transaction \<Rightarrow> nat \<Rightarrow> bool" where
  "open_trans tr a = (trans_writable tr \<and> tr_block tr = of_nat a)"

lemma open_trans_step [simp]: "open_trans (tr\<lparr>tr_block := of_nat c\<rparr>) c = trans_writable tr"
  by (simp add: open_trans_def trans_writable_def)

lemma add_blocks_done:
  assumes w: "writable_log env j" and tr: "open_trans tr a" and pos: "unat (j_first j) \<le> a" "a + 1 + 2 * length bs < unat (j_last j)"
    and good: "good_blocks j (fs_blocks_count fs) bs" and data: "length fp = length bs" "\<forall>q\<in>set fp. length q = j_blocksize j"
  obtains c d' items where
    "journal_add_blocks_to_trans env True True errno j bs fp (tr, fs, d) = (None, tr\<lparr>tr_block := of_nat c\<rparr>, fs, d')"
    "a \<le> c" "c \<le> a + 1 + 2 * length bs" "laid_out env j (tr_tid tr) d' a c items" "writes_exactly (zip bs fp) items"
    "framed env j d d' a c"
proof (cases "bs = []")
  case True
  have "tr\<lparr>tr_block := of_nat a\<rparr> = tr" using tr by (simp add: open_trans_def)
  with True tr show thesis
    by (intro that [of a d "[]"]) (simp_all add: journal_add_blocks_to_trans_def open_trans_def laid_out_Nil writes_exactly_def no_revokes_def)
next
  case False
  note sz = writable_sizes [OF w]
  let ?p = "put_header (replicate (j_blocksize j) 0) JFS_DESCRIPTOR_BLOCK (tr_tid tr)"
  have p: "desc_ok env j (tr_tid tr) ?p [] (bs = [])"
    using put_header_is [of "replicate (j_blocksize j) 0" JFS_DESCRIPTOR_BLOCK "tr_tid tr"] sz by (simp add: desc_ok_def)
  have "loop_done env j (tr_tid tr) d a (a + 1 + length ([] :: (u64 \<times> block) list)) (a + 1 + length ([] :: (u64 \<times> block) list) + 2 * length bs)
      (writes_exactly ([] @ zip bs fp))
      (blocks_loop env j (fs_blocks_count fs) (tr_tid tr) errno bs fp ?p (tag_off j (length ([] :: (u64 \<times> block) list)))
        (of_nat a) (of_nat (a + 1 + length ([] :: (u64 \<times> block) list))) d)"
    using pos False by (intro blocks_loop_done [OF w p _ _ _ _ good data]) (auto simp: data_blocks_def)
  then have "loop_done env j (tr_tid tr) d a (a + 1) (a + 1 + 2 * length bs) (writes_exactly (zip bs fp))
      (blocks_loop env j (fs_blocks_count fs) (tr_tid tr) errno bs fp ?p 12 (tr_block tr) (tr_block tr + 1) d)"
    using tr by (simp add: tag_off_def open_trans_def add.commute)
  then obtain c d' items where r:
    "blocks_loop env j (fs_blocks_count fs) (tr_tid tr) errno bs fp ?p 12 (tr_block tr) (tr_block tr + 1) d = (None, of_nat c, d')"
    "a \<le> c" "c \<le> a + 1 + 2 * length bs" "laid_out env j (tr_tid tr) d' a c items" "writes_exactly (zip bs fp) items" "framed env j d d' a c"
    by (auto simp: loop_done_def)
  show thesis
    by (rule that [OF _ r(2-6)]) (use False tr r(1) in \<open>simp add: journal_add_blocks_to_trans_def open_trans_def\<close>)
qed

lemma add_revokes_done:
  assumes w: "writable_log env j" and tr: "open_trans tr a" and pos: "unat (j_first j) \<le> a" "a + 1 + length bs < unat (j_last j)"
    and good: "good_blocks j (fs_blocks_count fs) bs"
  obtains c d' items where
    "journal_add_revoke_to_trans env True j bs (tr, fs, d) = (None, tr\<lparr>tr_block := of_nat c\<rparr>, fs, d')"
    "a \<le> c" "c \<le> a + 1 + length bs" "laid_out env j (tr_tid tr) d' a c items" "revokes_exactly bs items" "framed env j d d' a c"
proof (cases "bs = []")
  case True
  have "tr\<lparr>tr_block := of_nat a\<rparr> = tr" using tr by (simp add: open_trans_def)
  with True tr show thesis
    by (intro that [of a d "[]"]) (simp_all add: journal_add_revoke_to_trans_def open_trans_def laid_out_Nil revokes_exactly_def)
next
  case False
  note sz = writable_sizes [OF w]
  let ?p = "put_header (replicate (j_blocksize j) 0) JFS_REVOKE_BLOCK (tr_tid tr)"
  have p: "revs_ok j (tr_tid tr) ?p []"
    using put_header_is [of "replicate (j_blocksize j) 0" JFS_REVOKE_BLOCK "tr_tid tr"] sz by (simp add: revs_ok_def)
  have "loop_done env j (tr_tid tr) d a (a + 1) (a + 1 + length bs) (revokes_exactly ([] @ bs))
      (revoke_loop env j (fs_blocks_count fs) bs ?p (rec_off j (length ([] :: u64 list))) (of_nat a) d)"
    by (rule revoke_loop_done [OF w p pos good])
  then obtain c d' items where r:
    "revoke_loop env j (fs_blocks_count fs) bs ?p 16 (tr_block tr) d = (None, of_nat c, d')"
    "a \<le> c" "c \<le> a + 1 + length bs" "laid_out env j (tr_tid tr) d' a c items" "revokes_exactly bs items" "framed env j d d' a c"
    using tr by (auto simp: loop_done_def open_trans_def)
  show thesis
    by (rule that [OF _ r(2-6)]) (use False tr r(1) in \<open>simp add: journal_add_revoke_to_trans_def open_trans_def\<close>)
qed

section \<open>Writing a transaction\<close>

lemma commit_done:
  assumes w: "writable_log env j" and nc: "\<not> jfs_has_feature_checksum j" and tr: "open_trans tr c" and pos: "in_log j c"
  obtains d' tr' where
    "journal_commit_trans env True m2 now j (tr, fs, d) = (None, tr', fs\<lparr>needs_recovery := True\<rparr>, d')"
    "tr_magic tr' = J_TRANS_MAGIC" "tr_flags tr' AND J_TRANS_COMMITTED \<noteq> 0" "tr_tid tr' = tr_tid tr" "tr_start tr' = tr_start tr"
    "stores env j d c (commit_bytes env j (tr_tid tr) now None) d'"
proof -
  obtain d' where d': "write_log_block env j d (of_nat c) (commit_bytes env j (tr_tid tr) now None) = Inr d'"
    "stores env j d c (commit_bytes env j (tr_tid tr) now None) d'"
    by (rule write_log_block_stores [OF w pos])
  let ?tr = "tr\<lparr>tr_flags := (tr_flags tr OR J_TRANS_COMMITTED) AND NOT J_TRANS_OPEN, tr_block := tr_block tr + 1\<rparr>"
  have "bit (((tr_flags tr OR J_TRANS_COMMITTED) AND NOT J_TRANS_OPEN) AND J_TRANS_COMMITTED) 1"
    by (simp add: J_TRANS_COMMITTED_def J_TRANS_OPEN_def bit_simps)
  then have "((tr_flags tr OR J_TRANS_COMMITTED) AND NOT J_TRANS_OPEN) AND J_TRANS_COMMITTED \<noteq> 0"
    by (metis bit_0_eq bot_apply bot_bool_def)
  with d' tr nc show thesis
    by (intro that [of ?tr d']) (simp_all add: journal_commit_trans_def open_trans_def trans_writable_def)
qed

lemma unat_plus_le: "unat (a + b) \<le> unat a + unat (b :: u64)"
  by (simp add: unat_word_ariths)

lemma guess_part:
  assumes "n < 2 ^ 32" "k \<le> 16" "k \<le> b" "b < 2 ^ 31"
  shows "unat (of_nat n * of_nat k div of_nat b :: u64) \<le> n"
proof -
  have "n * k < 2 ^ 32 * 2 ^ 5" using assms(1,2) by (intro mult_strict_mono) auto
  then have "unat (of_nat n * of_nat k :: u64) = n * k" by (simp add: unat_of_nat flip: of_nat_mult)
  moreover have "unat (of_nat b :: u64) = b" using assms(4) by (simp add: unat_of_nat)
  ultimately have "unat (of_nat n * of_nat k div of_nat b :: u64) = n * k div b" by (simp add: unat_div_distrib)
  also have "\<dots> \<le> n"
  proof (cases "b = 0")
    case False
    have "n * k div b \<le> n * b div b" using assms(3) by (intro div_le_mono mult_le_mono2)
    with False show ?thesis by simp
  qed simp
  finally show ?thesis .
qed

lemma guess_bound:
  assumes "writable_log env j" "n < 2 ^ 32" "r < 2 ^ 32"
  shows "unat (journal_guess_blocks j (of_nat n) (of_nat r)) \<le> 1 + r + 2 * n"
proof -
  note sz = writable_sizes [OF assms(1)]
  let ?x = "of_nat r * of_nat (revoke_size j) div of_nat (tags_end j) :: u64"
  let ?y = "of_nat n * of_nat (journal_tag_bytes j) div of_nat (j_blocksize j - 16 - descr_csum_size j) :: u64"
  have "revoke_size j \<le> 16" by (simp add: revoke_size_def)
  then have "unat ?x \<le> r" using assms(3) sz by (intro guess_part) auto
  moreover have "unat ?y \<le> n"
    using assms(2) sz journal_tag_bytes_bounds(2) [of j] by (intro guess_part) auto
  moreover have "unat (of_nat n :: u64) = n" using assms(2) by (simp add: unat_of_nat)
  moreover have "unat (1 + ?x + ?y + of_nat n) \<le> unat (1 :: u64) + unat ?x + unat ?y + unat (of_nat n :: u64)"
    using unat_plus_le [of "1 + ?x + ?y" "of_nat n"] unat_plus_le [of "1 + ?x" ?y] unat_plus_le [of 1 ?x] by linarith
  ultimately have "unat (1 + ?x + ?y + of_nat n) \<le> 1 + r + 2 * n" by simp
  then show ?thesis by (simp add: journal_guess_blocks_def Let_def)
qed

lemma same_format_refl_updates:
  "same_format j (j\<lparr>j_superblock := (j_superblock j)\<lparr>s_feature_incompat :=
      s_feature_incompat (j_superblock j) OR JFS_FEATURE_INCOMPAT_REVOKE\<rparr>\<rparr>)"
  "same_format j j0 \<Longrightarrow> same_format j (j0\<lparr>j_head := h\<rparr>)"
  "same_format j j0 \<Longrightarrow> same_format j (j0\<lparr>j_tail := h\<rparr>)"
  "same_format j j0 \<Longrightarrow> same_format j (j0\<lparr>j_tail_sequence := s\<rparr>)"
  "same_format j j0 \<Longrightarrow> same_format j (j0\<lparr>j_transaction_sequence := s\<rparr>)"
  "same_format j j0 \<Longrightarrow> same_format j (j0\<lparr>j_superblock := (j_superblock j0)\<lparr>s_start := x\<rparr>\<rparr>)"
  "same_format j j0 \<Longrightarrow> same_format j (j0\<lparr>j_superblock := (j_superblock j0)\<lparr>s_sequence := s\<rparr>\<rparr>)"
  by (auto simp: same_format_def jfs_consts bit_simps intro!: bit_word_eqI)

lemma same_format_sym: "same_format j j' \<Longrightarrow> same_format j' j"
  by (simp add: same_format_def)

lemma framed_same_format: "same_format j j' \<Longrightarrow> framed env j' = framed env j"
  by (simp add: fun_eq_iff framed_def in_log_def lb_def same_format_simps) (simp add: same_format_def)

lemma commit_bytes_same_format: "same_format j j' \<Longrightarrow> commit_bytes env j' = commit_bytes env j"
proof -
  assume sf: "same_format j j'"
  then have f: "j_blocksize j' = j_blocksize j" "j_csum_seed j' = j_csum_seed j" by (simp_all add: same_format_def)
  show ?thesis
    unfolding fun_eq_iff commit_bytes_def jbd2_commit_block_csum_set_def same_format_features [OF sf] f by simp
qed

lemma close_and_release:
  assumes "j_tail j = 0" "tr_magic tr = J_TRANS_MAGIC" "tr_flags tr AND J_TRANS_COMMITTED \<noteq> 0" "same_format j0 j"
    "unat (tr_start tr) < 2 ^ 32"
  obtains j' where "journal_close_trans j tr fs = (None, j', fs\<lparr>needs_recovery := True\<rparr>)"
    "same_format j0 (journal_release_super True False False j')"
    "first_tid (journal_release_super True False False j') = tr_tid tr"
    "log_start (journal_release_super True False False j') = tr_start tr"
    "j_revoke (journal_release_super True False False j') = j_revoke j"
proof -
  have "same_format j0 (j\<lparr>j_tail_sequence := tr_tid tr, j_tail := tr_start tr, j_head := tr_end tr + 1,
      j_transaction_sequence := tr_tid tr + 1,
      j_superblock := j_superblock j\<lparr>s_start := ucast (tr_start tr), s_sequence := tr_tid tr\<rparr>\<rparr>)"
    using assms(4) by (simp add: same_format_def)
  with assms that ucast_ucast_small [OF assms(5)] show thesis
    by (simp add: journal_close_trans_def journal_release_super_def Let_def)
qed

text \<open>
  A journal without a log to replay: the writer starts a new log at the first block.  \<open>n\<close> blocks and \<open>r\<close>
  revocations fit, and no block of the journal looks like the beginning of the transaction after it.
\<close>

definition fresh_log :: "env \<Rightarrow> journal \<Rightarrow> disk \<Rightarrow> nat \<Rightarrow> nat \<Rightarrow> bool" where
  "fresh_log env j d n r =
     (writable_log env j \<and> \<not> jfs_has_feature_checksum j \<and> j_tail j = 0 \<and> j_first j \<noteq> 0 \<and>
      table_ok (j_revoke j) \<and> revoke_map (j_revoke j) = Map.empty \<and>
      unat (j_first j) + 2 * n + r + 3 < unat (j_last j) \<and>
      (\<forall>pos. log_pos j pos \<longrightarrow> stop_at env j d (j_tail_sequence j + 1) pos))"

lemma log_written:
  assumes f: "fresh_log env j d (length bl) (length rl)" and m: "\<forall>k. m k" and flags: "flags AND JOURNAL_WRITE_NO_COMMIT = 0"
    and good: "good_blocks j (fs_blocks_count fs) (bl @ rl)"
    and data: "length fp = length bl" "\<forall>q\<in>set fp. length q = j_blocksize j"
  obtains c d' j' items where
    "journal_write env m errno now j flags bl rl fp fs d = (None, j', fs\<lparr>needs_recovery := True\<rparr>, d')"
    "same_format j (journal_release_super True False False j')"
    "first_tid (journal_release_super True False False j') = j_tail_sequence j"
    "log_start (journal_release_super True False False j') = j_first j"
    "j_revoke (journal_release_super True False False j') = j_revoke j"
    "unat (j_first j) \<le> c" "c + 1 < unat (j_last j)" "c \<le> unat (j_first j) + 2 * length bl + length rl + 2"
    "items_at env j d' (j_tail_sequence j) (j_first j) items (of_nat c)"
    "lb env j d' c = Some (commit_bytes env j (j_tail_sequence j) now None)"
    "lb env j d' (c + 1) = lb env j d (c + 1)"
    "concat (map item_writes items) = zip bl fp" "concat (map item_revokes items) = rl"
    "framed env j d d' (unat (j_first j)) (c + 1)"
proof -
  define j0 where "j0 = (if rl \<noteq> [] then j\<lparr>j_superblock := (j_superblock j)\<lparr>s_feature_incompat :=
      s_feature_incompat (j_superblock j) OR JFS_FEATURE_INCOMPAT_REVOKE\<rparr>\<rparr> else j)"
  have sf: "same_format j j0" using same_format_refl_updates(1) [of j] by (simp add: j0_def) (simp add: same_format_def)
  have w: "writable_log env j0" and nc: "\<not> jfs_has_feature_checksum j0"
    using f by (simp_all add: fresh_log_def same_format_simps [OF sf] same_format_features [OF sf])
  let ?a = "unat (j_first j)" and ?s = "j_tail_sequence j"
  have fits: "?a + 2 * length bl + length rl + 3 < unat (j_last j)" and ok: "journal_ok j"
    using f by (simp_all add: fresh_log_def writable_log_def)
  have last: "unat (j_last j) < 2 ^ 32" by (rule unat_j_last [OF ok])
  have j0: "j_first j0 = j_first j" "j_last j0 = j_last j" "j_tail j0 = 0" "j_tail_sequence j0 = ?s" "j_blocksize j0 = j_blocksize j"
    "j_revoke j0 = j_revoke j" "in_log j0 = in_log j"
    using f by (simp_all add: j0_def fresh_log_def in_log_def fun_eq_iff)
  have lb: "lb env j0 = lb env j" by (simp add: fun_eq_iff lb_def same_format_simps [OF sf])
  have gb: "good_blocks j0 (fs_blocks_count fs) bl" "good_blocks j0 (fs_blocks_count fs) rl"
    using good by (simp_all add: good_blocks_def same_format_features [OF sf])
  let ?g = "journal_guess_blocks j0 (of_nat (length bl)) (of_nat (length rl))"
  let ?tr = "\<lparr>tr_magic = J_TRANS_MAGIC, tr_block = j_first j, tr_start = j_first j, tr_end = j_first j + ?g, tr_tid = ?s, tr_flags = J_TRANS_OPEN\<rparr>"
  have "unat (j_first j + ?g) \<le> ?a + unat ?g" by (rule unat_plus_le)
  also have "\<dots> \<le> unat (j_last j)"
    using guess_bound [OF w, of "length bl" "length rl"] fits last by simp
  finally have op: "journal_open_trans j0 ?g = Inr ?tr"
    by (simp add: journal_open_trans_def j0 word_le_nat_alt word_less_nat_alt)
  have tr: "open_trans ?tr ?a"
    by (simp add: open_trans_def trans_writable_def J_TRANS_OPEN_def J_TRANS_COMMITTED_def)
  obtain b d1 ws where 1: "journal_add_blocks_to_trans env True True errno j0 bl fp (?tr, fs, d) = (None, ?tr\<lparr>tr_block := of_nat b\<rparr>, fs, d1)"
    "?a \<le> b" "b \<le> ?a + 1 + 2 * length bl" "laid_out env j0 ?s d1 ?a b ws" "writes_exactly (zip bl fp) ws" "framed env j0 d d1 ?a b"
    by (rule add_blocks_done [OF w tr _ _ gb(1) data(1), where errno = errno and d = d])
      (use fits data j0 in auto)
  have tr1: "open_trans (?tr\<lparr>tr_block := of_nat b\<rparr>) b" using tr by (simp add: open_trans_def trans_writable_def)
  obtain c d2 rs where 2: "journal_add_revoke_to_trans env True j0 rl (?tr\<lparr>tr_block := of_nat b\<rparr>, fs, d1) =
      (None, ?tr\<lparr>tr_block := of_nat b, tr_block := of_nat c\<rparr>, fs, d2)"
    "b \<le> c" "c \<le> b + 1 + length rl" "laid_out env j0 ?s d2 b c rs" "revokes_exactly rl rs" "framed env j0 d1 d2 b c"
    by (rule add_revokes_done [OF w tr1 _ _ gb(2), where d = d1]) (use 1 fits j0 in auto)
  have c: "?a \<le> c" "c + 1 < unat (j_last j)" "in_log j0 c" "in_log j (c + 1)"
    using 1(2,3) 2(2,3) fits by (simp_all add: in_log_def j0)
  have "lb env j0 d2 m = lb env j0 d1 m" if "?a \<le> m" "m < b" for m
    using 2(6) by (rule framed_inside) (use that 2(2) c in \<open>auto simp: in_log_def j0\<close>)
  then have "laid_out env j0 ?s d2 ?a b ws" by (rule laid_out_cong [OF 1(4)])
  then have lay: "laid_out env j0 ?s d2 ?a c (ws @ rs)" by (rule laid_out_append [OF _ 2(4) 1(2) 2(2)])
  have tr2: "open_trans (?tr\<lparr>tr_block := of_nat b, tr_block := of_nat c\<rparr>) c" using tr by (simp add: open_trans_def trans_writable_def)
  obtain d3 tr3 where 3: "journal_commit_trans env True (m 4) now j0 (?tr\<lparr>tr_block := of_nat b, tr_block := of_nat c\<rparr>, fs, d2) =
      (None, tr3, fs\<lparr>needs_recovery := True\<rparr>, d3)"
    "tr_magic tr3 = J_TRANS_MAGIC" "tr_flags tr3 AND J_TRANS_COMMITTED \<noteq> 0" "tr_tid tr3 = ?s" "tr_start tr3 = j_first j"
    "stores env j0 d2 c (commit_bytes env j0 ?s now None) d3"
    by (rule commit_done [OF w nc tr2 c(3), where d = d2 and fs = fs]) auto
  have "lb env j0 d3 m = lb env j0 d2 m" if "?a \<le> m" "m < c" for m
    using stores_lb [OF 3(6), of m] that c by (simp add: in_log_def j0)
  then have "laid_out env j0 ?s d3 ?a c (ws @ rs)" by (rule laid_out_cong [OF lay])
  from laid_out_items [OF this] have "items_at env j0 d3 ?s (j_first j) (ws @ rs) (of_nat c)" by simp
  then have items: "items_at env j d3 ?s (j_first j) (ws @ rs) (of_nat c)"
    by (rule items_at_same_format [OF _ same_format_sym [OF sf]])
  have fr: "framed env j0 d d3 ?a (c + 1)"
    by (rule framed_trans [OF framed_trans [OF 1(6) 2(6)] framed_stores [OF 3(6), of c "c + 1"]]) (use 1 2 in auto)
  obtain j' where 4: "journal_close_trans j0 tr3 (fs\<lparr>needs_recovery := True\<rparr>) = (None, j', fs\<lparr>needs_recovery := True\<rparr>)"
    "same_format j (journal_release_super True False False j')"
    "first_tid (journal_release_super True False False j') = tr_tid tr3"
    "log_start (journal_release_super True False False j') = tr_start tr3"
    "j_revoke (journal_release_super True False False j') = j_revoke j0"
    using close_and_release [OF j0(3) 3(2,3) sf, of "fs\<lparr>needs_recovery := True\<rparr>"] 3(5) fits last by auto
  have "lb env j d3 c = Some (commit_bytes env j ?s now None)" "lb env j d3 (c + 1) = lb env j d (c + 1)"
    using stores_lb [OF 3(6) c(3)] framed_inside [OF fr, of "c + 1"] c(4) j0(7)
    by (simp_all add: lb commit_bytes_same_format [OF sf])
  moreover have "concat (map item_writes (ws @ rs)) = zip bl fp" "concat (map item_revokes (ws @ rs)) = rl"
    using 1(5) 2(5) by (auto simp: writes_exactly_def no_revokes_def revokes_exactly_def)
  moreover have "framed env j d d3 ?a (c + 1)" using fr by (simp add: framed_same_format [OF sf])
  moreover have "journal_write env m errno now j flags bl rl fp fs d = (None, j', fs\<lparr>needs_recovery := True\<rparr>, d3)"
    using op 1(1) 2(1) 3(1) 4(1) m flags unfolding journal_write_def Let_def j0_def [symmetric] by simp
  ultimately show thesis
    using that [of j' d3 c "ws @ rs"] 4(2-5) 3(4,5) c(1,2) items j0(6) 1(3) 2(3) by simp
qed

lemma written_recoverable:
  assumes f: "fresh_log env j d (length bl) (length rl)" and m: "\<forall>k. m k" and flags: "flags AND JOURNAL_WRITE_NO_COMMIT = 0"
    and good: "good_blocks j (fs_blocks_count fs) (bl @ rl)"
    and data: "length fp = length bl" "\<forall>q\<in>set fp. length q = j_blocksize j"
    and avoid: "\<forall>b\<in>set bl. (j_fs_dev j, b) \<notin> journal_blocks j"
  obtains c d' j' items where
    "journal_write env m errno now j flags bl rl fp fs d = (None, j', fs\<lparr>needs_recovery := True\<rparr>, d')"
    "recoverable env (journal_release_super True False False j') d' [items] []"
    "survivors [items] = filter (\<lambda>w. fst w \<notin> set rl) (zip bl fp)"
    "j_fs_dev (journal_release_super True False False j') = j_fs_dev j"
    "\<forall>dev b. (dev, b) \<notin> journal_blocks j \<longrightarrow> d' dev b = d dev b"
    "first_tid (journal_release_super True False False j') = j_tail_sequence j"
    "trans_at env (journal_release_super True False False j') d' (j_tail_sequence j) (j_first j) [items] (of_nat c)"
    "log_block env (journal_release_super True False False j') d' (of_nat c) = log_block env j d (of_nat c)"
    "log_start (journal_release_super True False False j') = j_first j" "log_block env j d (of_nat c) \<noteq> None"
    "unat (j_first j) < c" "c \<le> unat (j_first j) + 2 * length bl + length rl + 3"
    "items_at env (journal_release_super True False False j') d' (j_tail_sequence j) (j_first j) items (of_nat (c - 1))"
    "commit_at env (journal_release_super True False False j') d' (j_tail_sequence j) (of_nat (c - 1))"
    "concat (map item_writes items) = zip bl fp" "concat (map item_revokes items) = rl"
proof -
  obtain c d' j' items where w:
    "journal_write env m errno now j flags bl rl fp fs d = (None, j', fs\<lparr>needs_recovery := True\<rparr>, d')"
    "same_format j (journal_release_super True False False j')"
    "first_tid (journal_release_super True False False j') = j_tail_sequence j"
    "log_start (journal_release_super True False False j') = j_first j"
    "j_revoke (journal_release_super True False False j') = j_revoke j"
    "unat (j_first j) \<le> c" "c + 1 < unat (j_last j)" "c \<le> unat (j_first j) + 2 * length bl + length rl + 2"
    "items_at env j d' (j_tail_sequence j) (j_first j) items (of_nat c)"
    "lb env j d' c = Some (commit_bytes env j (j_tail_sequence j) now None)"
    "lb env j d' (c + 1) = lb env j d (c + 1)"
    "concat (map item_writes items) = zip bl fp" "concat (map item_revokes items) = rl"
    "framed env j d d' (unat (j_first j)) (c + 1)"
    by (rule log_written [OF f m flags good data, where errno = errno and now = now])
  let ?j = "journal_release_super True False False j'" and ?s = "j_tail_sequence j"
  note sf = same_format_simps [OF w(2)]
  have wl: "writable_log env j" and ok: "journal_ok j" using f by (simp_all add: fresh_log_def writable_log_def)
  have com: "commit_at env ?j d' ?s (of_nat c)"
    using commit_block [OF wl, where s = ?s and now = now] w(10) by (simp add: commit_at_def sf lb_def)
  moreover have "adv ?j (of_nat c) = of_nat (c + 1)" using adv_of_nat [OF ok w(7)] by (simp add: sf)
  moreover have its: "items_at env ?j d' ?s (j_first j) items (of_nat c)" by (rule items_at_same_format [OF w(9,2)])
  ultimately have t: "trans_at env ?j d' ?s (j_first j) [items] (of_nat (c + 1))"
    using trans_cons [of env ?j d' ?s "j_first j" items "of_nat c" "[]" "of_nat (c + 1)"] by (simp only: trans_nil)
  have in_c: "in_log j (c + 1)" using w(6,7) by (simp add: in_log_def)
  then have "stop_at env j d (?s + 1) (of_nat (c + 1))"
    using f log_pos_of_nat [OF ok in_c] unfolding fresh_log_def by blast
  then have nn: "log_block env j d (of_nat (c + 1)) \<noteq> None" and stop: "stop_at env ?j d' (?s + 1) (of_nat (c + 1))"
    using w(11) by (simp_all add: stop_at_def sf lb_def) (auto split: option.splits)
  have first: "log_pos j (j_first j)" using ok by (simp add: log_pos_def journal_ok_def)
  have dev: "j_fs_dev ?j = j_fs_dev j" using w(2) by (simp add: same_format_def)
  have "s_start (j_superblock ?j) \<noteq> 0" using w(4) f by (auto simp: fresh_log_def)
  then have "log_at env ?j d' [items] []"
    using t stop first w(3,4) unfolding log_at_def
    by (intro exI [of _ "of_nat (c + 1)"]) (simp add: sf items_nil)
  moreover have "avoids_journal ?j items"
  proof -
    have "fst x \<in> set bl" if "i \<in> set items" "x \<in> set (item_writes i)" for i x
    proof -
      have "x \<in> set (zip bl fp)" unfolding w(12) [symmetric] using that by auto
      then show ?thesis by (metis prod.collapse set_zip_leftD)
    qed
    with avoid show ?thesis by (auto simp: avoids_journal_def sf dev)
  qed
  ultimately have "recoverable env ?j d' [items] []"
    using f w(2,5) by (simp add: recoverable_def fresh_log_def sf same_format_features ok)
  moreover have "survivors [items] = filter (\<lambda>w. fst w \<notin> set rl) (zip bl fp)"
    using w(12,13) by (simp add: writes_of_def revoked_in_def revokes_of_def)
  moreover have "\<forall>dev b. (dev, b) \<notin> journal_blocks j \<longrightarrow> d' dev b = d dev b" using w(14) by (simp add: framed_def)
  ultimately show thesis using that [of j' d' items "c + 1"] w(1,3,4,6,8,11-13) t dev nn com its by (simp add: lb_def sf)
qed

section \<open>What the writer can change at all\<close>

definition mapped_blocks :: "journal \<Rightarrow> (kdev \<times> u64) set" where
  "mapped_blocks j = {(j_dev j, b) | b. \<exists>pos. journal_bmap j pos = Some b}"

definition outside_same :: "journal \<Rightarrow> disk \<Rightarrow> disk \<Rightarrow> bool" where
  "outside_same j d d' = (\<forall>dev b. (dev, b) \<notin> mapped_blocks j \<longrightarrow> d' dev b = d dev b)"

lemma outside_same_refl [simp]: "outside_same j d d"
  by (simp add: outside_same_def)

lemma outside_same_trans: "outside_same j d d1 \<Longrightarrow> outside_same j d1 d2 \<Longrightarrow> outside_same j d d2"
  by (simp add: outside_same_def)

lemma write_log_block_outside: "write_log_block env j d pos p = Inr d' \<Longrightarrow> outside_same j d d'"
  by (auto simp: write_log_block_def rw_one_def mark_buffer_dirty_def getblk_def outside_same_def mapped_blocks_def set_block_def Let_def
      split: option.splits if_splits)

lemma map_sum_Inr: "map_sum id f x = Inr y \<longleftrightarrow> (\<exists>z. x = Inr z \<and> y = f z)"
  by (cases x) auto

lemma revoke_loop_outside: "revoke_loop env j count bs buf off pos d = (err, c, d') \<Longrightarrow> outside_same j d d'"
proof (induction env j count bs buf off pos d rule: revoke_loop.induct)
  case (1 env j count buf off pos d)
  then show ?case
    by (auto simp: write_revoke_block_def Let_def map_sum_Inr split: sum.splits dest: write_log_block_outside)
next
  case (2 env j count b bs buf off pos d)
  have "write_revoke_block env j d pos buf off = Inr (p, d1) \<Longrightarrow> outside_same j d d1" for p d1
    by (auto simp: write_revoke_block_def Let_def map_sum_Inr dest: write_log_block_outside)
  with 2 show ?case
    by (simp split: if_splits sum.splits prod.splits) (blast intro: outside_same_trans)+
qed

lemma blocks_loop_outside: "blocks_loop env j count s errno bs fp p t q pos d = (err, c, d') \<Longrightarrow> outside_same j d d'"
proof (induction bs arbitrary: fp p t q pos d)
  case Nil
  then show ?case by (auto split: if_splits sum.splits dest: write_log_block_outside)
next
  case (Cons b bs)
  let ?x = "if t + journal_tag_bytes j > tags_end j then
              let jdb = jbd2_descr_block_csum_set env j p
              in map_sum id (\<lambda>d. (jdb, 12, pos, pos + 1, d)) (write_log_block env j d q jdb)
            else Inr (p, t, q, pos, d)"
  show ?case
  proof (cases fp)
    case Nil
    then show ?thesis using Cons.prems by simp
  next
    case fp: (Cons data fp')
    show ?thesis
    proof (cases ?x)
      case (Inl e)
      then show ?thesis using Cons.prems fp by simp
    next
      case (Inr y)
      obtain p1 t1 q1 pos1 d1 where y: "y = (p1, t1, q1, pos1, d1)" by (cases y)
      have d1: "outside_same j d d1"
        using Inr unfolding y by (auto simp: map_sum_Inr Let_def dest: write_log_block_outside split: if_splits)
      obtain p2 data2 n where t: "put_tag env j s p1 t1 b data (bs = []) = (p2, data2, n)" by (rule prod_cases3)
      have "outside_same j d1 d'"
      proof (cases "write_log_block env j d1 pos1 data2")
        case w: (Inr d2)
        have "outside_same j d1 d2" by (rule write_log_block_outside [OF w])
        with Cons.prems fp Inr y t w Cons.IH [of fp' p2 "t1 + n" q1 "pos1 + 1" d2] show ?thesis
          by (auto split: if_splits intro: outside_same_trans)
      qed (use Cons.prems fp Inr y t in \<open>auto split: if_splits\<close>)
      with d1 show ?thesis by (rule outside_same_trans)
    qed
  qed
qed

lemma add_outside:
  "journal_add_blocks_to_trans env m1 m2 errno j bs fp (tr, fs, d) = (err, tr', fs', d') \<Longrightarrow> outside_same j d d' \<and> fs' = fs \<and> tr_magic tr' = tr_magic tr"
  "journal_add_revoke_to_trans env m1 j rs (tr, fs, d) = (err, tr', fs', d') \<Longrightarrow> outside_same j d d' \<and> fs' = fs \<and> tr_magic tr' = tr_magic tr"
  "journal_commit_trans env m1 m2 now j (tr, fs, d) = (err, tr', fs', d') \<Longrightarrow> outside_same j d d' \<and> (err \<noteq> None \<longrightarrow> fs' = fs) \<and> tr_magic tr' = tr_magic tr"
  by (auto simp: journal_add_blocks_to_trans_def journal_add_revoke_to_trans_def journal_commit_trans_def Let_def
      split: if_splits sum.splits prod.splits dest: blocks_loop_outside revoke_loop_outside write_log_block_outside)

lemma open_trans_magic: "journal_open_trans j n = Inr tr \<Longrightarrow> tr_magic tr = J_TRANS_MAGIC"
  by (auto simp: journal_open_trans_def Let_def split: if_splits prod.splits)

lemma mapped_blocks_features:
  "mapped_blocks (j\<lparr>j_superblock := sb\<rparr>) = mapped_blocks j"
  by (simp add: mapped_blocks_def journal_bmap_def)

section \<open>Finding the end of the log\<close>

lemma log_block_bmap:
  assumes "log_block env j d pos = Some p" "ucast (ucast pos :: u32) = pos"
  obtains b where "journal_bmap j pos = Some b" "\<not> read_fails env (j_dev j) b" "d (j_dev j) b = p"
  using assms by (auto simp: log_block_def jread_eq split: option.splits if_splits)

lemma log_pos_ucast: "journal_ok j \<Longrightarrow> log_pos j pos \<Longrightarrow> ucast (ucast pos :: u32) = pos"
  using unat_j_last [of j] by (intro ucast_ucast_small) (simp add: log_pos_def word_less_nat_alt)

text \<open>One turn of the search on a block that can be read.\<close>

lemma find_head_block:
  assumes "journal_ok j" "log_pos j pos" "log_block env j d pos = Some p"
  shows "find_head_step env j d s pos head =
    (if get_be32 p 0 \<noteq> JFS_MAGIC_NUMBER \<or> get_be32 p 8 \<noteq> s then Head_End None s head
     else if get_be32 p 4 = JFS_DESCRIPTOR_BLOCK then Head_Continue s (wrap j (adv j pos + of_nat (count_tags j p))) head
     else if get_be32 p 4 = JFS_COMMIT_BLOCK then Head_Continue (s + 1) (adv j pos) (adv j pos)
     else if get_be32 p 4 = JFS_REVOKE_BLOCK then Head_Continue s (adv j pos) head
     else Head_End (Some JW_INVALID) s head)"
proof -
  obtain b where b: "journal_bmap j pos = Some b" "\<not> read_fails env (j_dev j) b" "d (j_dev j) b = p"
    by (rule log_block_bmap [OF assms(3) log_pos_ucast [OF assms(1,2)]])
  have "fst (rw_one env READ (mark_buffer_uptodate (getblk (j_dev j) b (j_blocksize j)) False) d) =
      (getblk (j_dev j) b (j_blocksize j))\<lparr>b_data := p, b_uptodate := True\<rparr>"
    using b(2,3) by (simp add: rw_one_def mark_buffer_uptodate_def getblk_def)
  then show ?thesis
    using b(1) by (simp add: find_head_step_def adv_def getblk_def Let_def)
qed

lemma find_head_items:
  "items_at env j d s pos items pos' \<Longrightarrow> journal_ok j \<Longrightarrow> log_pos j pos \<Longrightarrow>
   find_head_loop env j d s pos head = find_head_loop env j d s pos' head"
proof (induction rule: items_at.induct)
  case (items_writes pos p ws pos1 items pos')
  have "pos1 = (adv j ^^ length (descr_tags j p)) (adv j pos)" by (rule data_at_advs [OF items_writes(5)])
  then have "pos1 = wrap j (adv j pos + of_nat (count_tags j p))" "log_pos j pos1"
    using items_writes wrap_add_advs [of j "adv j pos" "length (descr_tags j p)"]
    by (simp_all add: count_tags_eq log_pos_adv log_pos_advs)
  with items_writes show ?case
    by (subst find_head_loop.simps) (simp add: find_head_block header_is_def jfs_consts)
next
  case (items_revokes pos p items pos')
  then show ?case
    by (subst find_head_loop.simps) (simp add: find_head_block header_is_def jfs_consts log_pos_adv)
qed simp

lemma find_head_trans:
  "trans_at env j d s pos ts pos' \<Longrightarrow> journal_ok j \<Longrightarrow> log_pos j pos \<Longrightarrow> log_pos j pos' \<and>
   find_head_loop env j d s pos head = find_head_loop env j d (s + of_nat (length ts)) pos' (if ts = [] then head else pos')"
proof (induction arbitrary: head rule: trans_at.induct)
  case (trans_cons s pos t pos1 ts pos')
  have p: "log_pos j pos1" using items_at_log_pos [OF trans_cons(1)] trans_cons.prems by simp
  have e: "find_head_loop env j d s pos head = find_head_loop env j d s pos1 head"
    by (rule find_head_items [OF trans_cons(1)]) (use trans_cons.prems in auto)
  also have "find_head_loop env j d s pos1 head = find_head_loop env j d (s + 1) (adv j pos1) (adv j pos1)"
    using trans_cons(2) p trans_cons.prems
    by (subst find_head_loop.simps) (auto simp: commit_at_def find_head_block header_is_def jfs_consts split: option.splits)
  finally have e2: "find_head_loop env j d s pos head = find_head_loop env j d (s + 1) (adv j pos1) (adv j pos1)" .
  show ?case
  proof (cases "ts = []")
    case True
    with trans_cons(3) have "pos' = adv j pos1" by (auto elim: trans_at_NilE)
    with True e2 trans_cons.prems p
    show ?thesis by (simp add: log_pos_adv)
  next
    case False
    with trans_cons.IH [of "adv j pos1"] trans_cons.prems p e2 show ?thesis
      by (simp add: log_pos_adv add.assoc)
  qed
qed simp

lemma trans_at_last:
  "trans_at env j d s pos ts pos' \<Longrightarrow> ts \<noteq> [] \<Longrightarrow> \<exists>q. commit_at env j d (s + of_nat (length ts) - 1) q \<and> pos' = adv j q"
proof (induction rule: trans_at.induct)
  case (trans_cons s pos t pos1 ts pos')
  then show ?case by (cases "ts = []") (auto elim!: trans_at_NilE simp: add.assoc)
qed simp

lemma find_head_end:
  assumes "journal_ok j" "log_pos j (log_start j)" "s_start (j_superblock j) \<noteq> 0"
    "trans_at env j d (first_tid j) (log_start j) ts pos"
    "items_at env j d (first_tid j + of_nat (length ts)) pos tail pos'" "log_block env j d pos' = Some p"
    "get_be32 p 0 \<noteq> JFS_MAGIC_NUMBER \<or> get_be32 p 8 \<noteq> first_tid j + of_nat (length ts) \<or>
     get_be32 p 4 \<notin> {JFS_DESCRIPTOR_BLOCK, JFS_COMMIT_BLOCK, JFS_REVOKE_BLOCK}"
  shows "journal_find_head env True j d =
    (if get_be32 p 0 \<noteq> JFS_MAGIC_NUMBER \<or> get_be32 p 8 \<noteq> first_tid j + of_nat (length ts)
     then Some (None, j\<lparr>j_transaction_sequence := first_tid j + of_nat (length ts), j_head := pos\<rparr>)
     else Some (Some JW_INVALID, j))"
proof -
  let ?s = "first_tid j + of_nat (length ts)"
  have t: "log_pos j pos" "find_head_loop env j d (first_tid j) (log_start j) (log_start j) = find_head_loop env j d ?s pos pos"
    using find_head_trans [OF assms(4,1,2), of "log_start j"] assms(4) by (auto elim: trans_at_NilE)
  have p': "log_pos j pos'" by (rule items_at_log_pos [OF assms(5,1) t(1)])
  have "find_head_loop env j d ?s pos pos =
      Some (if get_be32 p 0 \<noteq> JFS_MAGIC_NUMBER \<or> get_be32 p 8 \<noteq> ?s then None else Some JW_INVALID, ?s, pos)"
    unfolding find_head_items [OF assms(5,1) t(1)]
    using assms(7) by (subst find_head_loop.simps) (auto simp: find_head_block [OF assms(1) p' assms(6)])
  moreover have "log_start j \<noteq> 0" using assms(3) by (metis unat_ucast_64 unsigned_eq_0_iff)
  ultimately show ?thesis using t(2) by (simp add: journal_find_head_def Let_def)
qed

section \<open>A journal to write\<close>

text \<open>An external journal of twenty blocks of 256 bytes on a device that holds zeros.\<close>

definition blank_journal :: journal where
  "blank_journal = small_journal\<lparr>j_last := 20, j_maxlen := 20, j_blocksize := 256, j_tail := 0\<rparr>"

definition blank_disk :: disk where
  "blank_disk dev b = replicate 256 (case dev of K_DEV_JOURNAL \<Rightarrow> 0 | K_DEV_FS \<Rightarrow> 1)"

definition blank_super :: fs_super where
  "blank_super = \<lparr>fs_blocks_count = 1000, needs_recovery = False\<rparr>"

definition magic_block :: block where
  "magic_block = put_be32 JFS_MAGIC_NUMBER @ replicate 252 7"

lemma blank_features [simp]:
  "jfs_has_feature_checksum blank_journal = False" "jfs_has_feature_64bit blank_journal = False"
  "j_first blank_journal = 1" "j_last blank_journal = 20" "j_tail blank_journal = 0" "j_fs_dev blank_journal = K_DEV_FS"
  "j_dev blank_journal = K_DEV_JOURNAL" "j_blocksize blank_journal = 256" "j_tail_sequence blank_journal = 7"
  "j_maxlen blank_journal = 20" "j_inode blank_journal = None" "j_revoke blank_journal = small_table"
  "length (s_uuid (j_superblock blank_journal)) = 16"
  by (simp_all add: blank_journal_def small_journal_def jfs_has_feature_checksum_def jfs_has_feature_64bit_def
      has_compat_def has_incompat_def)

lemma blank_fresh: "fresh_log ok_env blank_journal blank_disk 2 1"
proof -
  have ok: "journal_ok blank_journal" by (simp add: journal_ok_def)
  have "stop_at ok_env blank_journal blank_disk s pos" if p: "log_pos blank_journal pos" for s pos
  proof -
    have "unat pos < 20" using p by (simp add: log_pos_def word_less_nat_alt)
    then have "(ucast pos :: u32) < 20" by (simp add: word_less_nat_alt unat_ucast_32)
    then have "log_block ok_env blank_journal blank_disk pos = Some (replicate 256 0)"
      by (simp add: log_block_def jread_eq journal_bmap_def ok_env_def blank_disk_def not_le)
    then show ?thesis by (simp add: stop_at_def get_be32_def jfs_consts)
  qed
  moreover have "writable_log ok_env blank_journal"
    using ok by (simp add: writable_log_def journal_bmap_def ok_env_def)
  ultimately show ?thesis by (simp add: fresh_log_def small_table_ok small_table_empty)
qed

section \<open>Properties\<close>

text \<open>
  C1. Writing and recovery fit together: a transaction that the writer puts into an empty log is one
  that recovery, run on the closed journal, replays: the writer succeeds and stores nothing outside of
  the journal, and recovery then gives each block of the list its data (the last for a block listed
  twice), with and without checksums, also data that begin with the journal's magic number, but for
  the blocks that the same transaction revokes, and changes nothing else.
\<close>

theorem journal_write_recover:
  assumes "fresh_log env j d (length bl) (length rl)" "\<forall>k. m k" "flags AND JOURNAL_WRITE_NO_COMMIT = 0"
    "good_blocks j (fs_blocks_count fs) (bl @ rl)" "length fp = length bl" "\<forall>q\<in>set fp. length q = j_blocksize j"
    "\<forall>b\<in>set bl. (j_fs_dev j, b) \<notin> journal_blocks j"
  shows "\<exists>j' d' j'' d''. journal_write env m errno now j flags bl rl fp fs d = (None, j', fs\<lparr>needs_recovery := True\<rparr>, d')
    \<and> (\<forall>dev b. (dev, b) \<notin> journal_blocks j \<longrightarrow> d' dev b = d dev b)
    \<and> journal_recover env (journal_release_super True False False j') d' = Some (sync_blockdev env (j_fs_dev j), j'', d'')
    \<and> (\<forall>b. d'' (j_fs_dev j) b =
         (if write_fails env (j_fs_dev j) b then d' (j_fs_dev j) b
          else (case map_of (rev (filter (\<lambda>w. fst w \<notin> set rl) (zip bl fp))) b of
                  Some p \<Rightarrow> p | None \<Rightarrow> d' (j_fs_dev j) b)))
    \<and> (\<forall>dev b. dev \<noteq> j_fs_dev j \<longrightarrow> d'' dev b = d' dev b)"
proof -
  obtain d' j' items where w:
    "journal_write env m errno now j flags bl rl fp fs d = (None, j', fs\<lparr>needs_recovery := True\<rparr>, d')"
    "recoverable env (journal_release_super True False False j') d' [items] []"
    "survivors [items] = filter (\<lambda>w. fst w \<notin> set rl) (zip bl fp)"
    "j_fs_dev (journal_release_super True False False j') = j_fs_dev j"
    "\<forall>dev b. (dev, b) \<notin> journal_blocks j \<longrightarrow> d' dev b = d dev b"
    by (rule written_recoverable [OF assms, where errno = errno and now = now], rule that)
  obtain j'' where "journal_recover env (journal_release_super True False False j') d' =
      Some (sync_blockdev env (j_fs_dev j), j'', fold (write_block env (j_fs_dev j)) (survivors [items]) d')"
    using journal_recover_fold [OF w(2)] w(4) by metis
  then show ?thesis
    using w(1,3,5) by (auto simp: fold_write_block simp del: survivors.simps)
qed

theorem journal_write_recover_witness:
  "\<exists>j' d' j'' d''. journal_write ok_env (\<lambda>_. True) None (5, 6) blank_journal 0 [100, 101] [101]
       [magic_block, replicate 256 9] blank_super blank_disk = (None, j', blank_super\<lparr>needs_recovery := True\<rparr>, d') \<and>
     journal_recover ok_env (journal_release_super True False False j') d' = Some (None, j'', d'') \<and>
     d'' K_DEV_FS 100 = magic_block \<and> d'' K_DEV_FS 101 = replicate 256 1"
proof -
  have "length magic_block = 256" by (simp add: magic_block_def)
  moreover have "good_blocks blank_journal (fs_blocks_count blank_super) [100, 101, 101]"
    by (simp add: good_blocks_def blank_super_def)
  moreover have nj: "(K_DEV_FS, b) \<notin> journal_blocks blank_journal" for b by (simp add: journal_blocks_def)
  ultimately show ?thesis
    using journal_write_recover [of ok_env blank_journal blank_disk "[100, 101]" "[101]" "\<lambda>_. True" 0 blank_super
        "[magic_block, replicate 256 9]" None "(5, 6)"] blank_fresh
    by (auto simp: JOURNAL_WRITE_NO_COMMIT_def sync_blockdev_def ok_env_def blank_disk_def numeral_2_eq_2)
qed

text \<open>
  C6. The search for the end of the log agrees with recovery about what is committed: on a log that
  holds complete transactions, then possibly items of one without a commit block, and then a block that
  belongs to no transaction, it ends, sets the head to the block behind the last commit block (the start of the log
  when there is none) and the next transaction's number to the one after the last committed one, and
  changes nothing else.  Only when the block that ends the log bears the journal's magic number and the
  next transaction's number, and is of an unknown type, is it an error, which leaves the journal as it
  was.  (A log without such an end can keep the search going forever, as it does recovery.)
\<close>

theorem journal_find_head_correct:
  assumes "journal_ok j" "log_pos j (ucast (s_start (j_superblock j)))" "s_start (j_superblock j) \<noteq> 0"
    "trans_at env j d (s_sequence (j_superblock j)) (ucast (s_start (j_superblock j))) ts pos"
    "items_at env j d (s_sequence (j_superblock j) + of_nat (length ts)) pos tail pos'"
    "log_block env j d pos' = Some p"
    "get_be32 p 0 \<noteq> JFS_MAGIC_NUMBER \<or> get_be32 p 8 \<noteq> s_sequence (j_superblock j) + of_nat (length ts) \<or>
     get_be32 p 4 \<notin> {JFS_DESCRIPTOR_BLOCK, JFS_COMMIT_BLOCK, JFS_REVOKE_BLOCK}"
  shows "journal_find_head env True j d =
      (if get_be32 p 0 = JFS_MAGIC_NUMBER \<and> get_be32 p 8 = s_sequence (j_superblock j) + of_nat (length ts)
       then Some (Some JW_INVALID, j)
       else Some (None, j\<lparr>j_transaction_sequence := s_sequence (j_superblock j) + of_nat (length ts), j_head := pos\<rparr>))
    \<and> (if ts = [] then pos = ucast (s_start (j_superblock j))
       else (\<exists>q. commit_at env j d (s_sequence (j_superblock j) + of_nat (length ts) - 1) q \<and> pos = adv j q))"
proof (intro conjI)
  show "journal_find_head env True j d =
      (if get_be32 p 0 = JFS_MAGIC_NUMBER \<and> get_be32 p 8 = s_sequence (j_superblock j) + of_nat (length ts)
       then Some (Some JW_INVALID, j)
       else Some (None, j\<lparr>j_transaction_sequence := s_sequence (j_superblock j) + of_nat (length ts), j_head := pos\<rparr>))"
    using find_head_end [OF assms] by simp
  show "if ts = [] then pos = ucast (s_start (j_superblock j))
       else (\<exists>q. commit_at env j d (s_sequence (j_superblock j) + of_nat (length ts) - 1) q \<and> pos = adv j q)"
    using trans_at_last [OF assms(4)] assms(4) by (auto elim: trans_at_NilE)
qed

theorem journal_find_head_correct_witness:
  "journal_find_head ok_env True small_journal small_disk =
     Some (None, small_journal\<lparr>j_transaction_sequence := 8, j_head := 4\<rparr>)
   \<and> (\<exists>q. commit_at ok_env small_journal small_disk 7 q \<and> 4 = adv small_journal q)"
proof -
  have ok: "journal_ok small_journal" using small_recoverable by (simp add: recoverable_def)
  have "log_block ok_env small_journal small_disk 5 = Some (replicate 32 0)"
    by (simp add: small_log_block) (simp add: small_block_def)
  with journal_find_head_correct [OF ok _ _ _ _ this, of "[[Writes [(100, replicate 32 0xAB)]]]" 4 "[Revokes [100]]"]
  show ?thesis by (simp add: small_trans small_tail log_pos_def get_be32_def jfs_consts)
qed




text \<open>
  C5. Whatever happens, the writer stores nothing but blocks of the journal, whether it succeeds, runs
  out of memory or space, meets a block number outside of the file system, the end of its file or a
  device error.  When it fails, the file system's superblock is as it was, and so is the journal in memory (where the
  log begins and ends, its sequence numbers, superblock and revocations), but for the feature flag of
  revocations, which is set before anything is written when there are any; blocks of the log may have
  been overwritten.
\<close>

theorem journal_write_contained:
  assumes "journal_write env m errno now j flags bl rl fp fs d = (err, j', fs', d')"
  shows "(\<forall>dev b. (dev, b) \<notin> {(j_dev j, b) | b. \<exists>pos. journal_bmap j pos = Some b} \<longrightarrow> d' dev b = d dev b)
    \<and> (err \<noteq> None \<longrightarrow> fs' = fs \<and>
          j' = (if rl = [] then j
                else j\<lparr>j_superblock := (j_superblock j)\<lparr>s_feature_incompat :=
                    s_feature_incompat (j_superblock j) OR JFS_FEATURE_INCOMPAT_REVOKE\<rparr>\<rparr>))"
proof -
  define j0 where "j0 = (if rl \<noteq> [] then j\<lparr>j_superblock := (j_superblock j)\<lparr>s_feature_incompat :=
      s_feature_incompat (j_superblock j) OR JFS_FEATURE_INCOMPAT_REVOKE\<rparr>\<rparr> else j)"
  have same: "mapped_blocks j0 = mapped_blocks j" by (simp add: j0_def mapped_blocks_features)
  have "outside_same j0 d d' \<and> (err \<noteq> None \<longrightarrow> fs' = fs \<and> j' = j0)"
    using assms unfolding journal_write_def Let_def j0_def [symmetric]
    by (auto split: sum.splits prod.splits if_splits simp: journal_close_trans_def
        dest!: add_outside open_trans_magic intro: outside_same_trans)
  then show ?thesis
    unfolding mapped_blocks_def [symmetric] using same by (auto simp: outside_same_def j0_def)
qed

theorem journal_write_contained_witness:
  "\<exists>d'. journal_write ok_env (\<lambda>_. True) None (5, 6) blank_journal 0 [100, 2000] [] [magic_block, magic_block] blank_super blank_disk
      = (Some JW_BAD_BLOCK, blank_journal, blank_super, d') \<and> d' K_DEV_FS = blank_disk K_DEV_FS"
proof -
  let ?r = "journal_write ok_env (\<lambda>_. True) None (5, 6) blank_journal 0 [100, 2000] [] [magic_block, magic_block] blank_super blank_disk"
  obtain err j' fs' d' where r: "?r = (err, j', fs', d')" by (cases ?r)
  moreover have "fst ?r = Some JW_BAD_BLOCK" by code_simp
  ultimately have "err = Some JW_BAD_BLOCK" by simp
  with r journal_write_contained [OF r] show ?thesis by (auto simp: fun_eq_iff)
qed

text \<open>
  Closing a transaction places the head by the size that was guessed when it was opened.  With blocks
  and revocations the guess is too small by one, and the next transaction overwrites the commit block:
  here block 4 holds the commit of transaction 7 and then the descriptor of transaction 8.
\<close>

lemma second_write_overwrites_commit:
  "case journal_write ok_env (\<lambda>_. True) None (5, 6) blank_journal 0 [100] [101] [magic_block] blank_super blank_disk of
     (err, j1, fs1, d1) \<Rightarrow> err = None \<and> get_be32 (d1 K_DEV_JOURNAL 4) 4 = JFS_COMMIT_BLOCK \<and> get_be32 (d1 K_DEV_JOURNAL 4) 8 = 7 \<and>
       (case journal_write ok_env (\<lambda>_. True) None (5, 6) j1 0 [102] [] [magic_block] fs1 d1 of
          (err, j2, fs2, d2) \<Rightarrow> err = None \<and> get_be32 (d2 K_DEV_JOURNAL 4) 4 = JFS_DESCRIPTOR_BLOCK \<and>
             get_be32 (d2 K_DEV_JOURNAL 4) 8 = 8)"
  by code_simp

end
