(* ===== verification/Icount.thy ===== *)
theory Icount
  imports Sorted_Array Gen_Bitmap_Props
begin

text \<open>
  The inode counts, \<open>lib/ext2fs/icount.c\<close> (built without \<open>CONFIG_TDB\<close>): a bitmap of the inodes with the
  count 1, optionally a bitmap of those with more, and a sorted array for the counts that are greater;
  or, when the memory allows it, a full array of 16-bit counts.  The bitmaps are generic bitmaps
  (theory \<open>Gen_Bitmap64\<close>) of any back end \<open>ops\<close>; a null pointer is \<open>None\<close>.  The specification is a total
  function from inodes to counts.

  Writing behind the end of the full array has no effect on it in the model, and reading there gives
  the byte \<open>junk\<close>.
\<close>

section \<open>The structure\<close>

record icount_el =
  el_ino :: u32
  el_count :: u32

record 'p icount =
  ic_single :: "'p gbmap option"
  ic_multiple :: "'p gbmap option"
  ic_count :: u32
  ic_size :: u32
  ic_num_inodes :: u32
  ic_cursor :: u32
  ic_list :: "icount_el list option"
  ic_last_lookup :: "nat option"
  ic_fullmap :: "u16 list option"

definition icount_16_xlate :: "u32 \<Rightarrow> u16" where
  "icount_16_xlate x = ucast (if x > 65500 then 65500 else x)"

definition EXT2_ICOUNT_OPT_INCREMENT :: u32 where "EXT2_ICOUNT_OPT_INCREMENT = 1"
definition EXT2_ICOUNT_OPT_FULLMAP :: u32 where "EXT2_ICOUNT_OPT_FULLMAP = 2"

text \<open>
  \<open>alloc_icount\<close>: \<open>al\<close> is the allocation of the two bitmaps.  The size of the full array is computed in
  an \<open>unsigned\<close>.
\<close>

definition alloc_icount ::
    "malloc \<Rightarrow> (bool \<Rightarrow> errcode + 'p gbmap) \<Rightarrow> u32 \<Rightarrow> u32 \<Rightarrow> errcode + 'p icount" where
  "alloc_icount mal al inodes_count flags =
     (let ic = \<lparr>ic_single = None, ic_multiple = None, ic_count = 0, ic_size = 0, ic_num_inodes = inodes_count,
                ic_cursor = 0, ic_list = None, ic_last_lookup = None, ic_fullmap = None\<rparr>;
          sz = 2 * inodes_count
      in if \<not> mal 64 then Inl EXT2_ET_NO_MEMORY
         else if flags AND EXT2_ICOUNT_OPT_FULLMAP \<noteq> 0 \<and> flags AND EXT2_ICOUNT_OPT_INCREMENT \<noteq> 0 \<and> mal (unat sz)
         then Inr (ic\<lparr>ic_fullmap := Some (replicate (unat sz div 2) 0)\<rparr>)
         else (case al False of
                 Inl err \<Rightarrow> Inl err
               | Inr single \<Rightarrow>
                   if flags AND EXT2_ICOUNT_OPT_INCREMENT \<noteq> 0
                   then (case al True of
                           Inl err \<Rightarrow> Inl err
                         | Inr multiple \<Rightarrow> Inr (ic\<lparr>ic_single := Some single, ic_multiple := Some multiple\<rparr>))
                   else Inr (ic\<lparr>ic_single := Some single\<rparr>)))"

text \<open>
  \<open>ext2fs_create_icount2\<close>; \<open>num_dirs\<close> is the result of \<open>ext2fs_get_num_dirs\<close>.  The entries of the hint are
  taken over with the count 0.
\<close>

definition ext2fs_create_icount2 ::
    "malloc \<Rightarrow> (bool \<Rightarrow> errcode + 'p gbmap) \<Rightarrow> (errcode + u32) \<Rightarrow> u32 \<Rightarrow> u32 \<Rightarrow> u32 \<Rightarrow> 'p icount option \<Rightarrow>
     errcode + 'p icount" where
  "ext2fs_create_icount2 mal al num_dirs inodes_count flags size0 hint =
     (let size0 = (case hint of Some h \<Rightarrow> if ic_size h > size0 then ic_size h else size0 | None \<Rightarrow> size0)
      in case alloc_icount mal al inodes_count flags of
           Inl err \<Rightarrow> Inl err
         | Inr ic \<Rightarrow>
             if ic_fullmap ic \<noteq> None then Inr ic
             else
               (case (if size0 \<noteq> 0 then Inr size0 else map_sum id (\<lambda>n. n + inodes_count div 50) num_dirs) of
                  Inl err \<Rightarrow> Inl err
                | Inr size0 \<Rightarrow>
                    if \<not> mal (unat size0 * 8) then Inl EXT2_ET_NO_MEMORY
                    else
                      let zeros = replicate (unat size0) \<lparr>el_ino = 0, el_count = 0\<rparr>;
                          ic = ic\<lparr>ic_size := size0, ic_list := Some zeros\<rparr>
                      in case hint of
                           None \<Rightarrow> Inr ic
                         | Some h \<Rightarrow>
                             let old = map (\<lambda>e. \<lparr>el_ino = el_ino e, el_count = 0\<rparr>)
                                         (take (unat (ic_count h)) (case ic_list h of None \<Rightarrow> [] | Some l \<Rightarrow> l))
                             in Inr (ic\<lparr>ic_list := Some (old @ drop (length old) zeros), ic_count := ic_count h\<rparr>)))"

definition ext2fs_create_icount ::
    "malloc \<Rightarrow> (bool \<Rightarrow> errcode + 'p gbmap) \<Rightarrow> (errcode + u32) \<Rightarrow> u32 \<Rightarrow> u32 \<Rightarrow> u32 \<Rightarrow> errcode + 'p icount" where
  "ext2fs_create_icount mal al num_dirs inodes_count flags size0 =
     ext2fs_create_icount2 mal al num_dirs inodes_count flags size0 None"

section \<open>The sorted array\<close>

text \<open>
  \<open>insert_icount_el\<close>: the index of the new element, or \<open>None\<close>.  \<open>est\<close> is the product in floating point
  \<open>count * (num_inodes / last)\<close> that is tried for the new size.
\<close>

definition icount_new_size :: "(u32 \<Rightarrow> u32 \<Rightarrow> u32 \<Rightarrow> u32) \<Rightarrow> 'p icount \<Rightarrow> u32" where
  "icount_new_size est ic =
     (let n = (if ic_count ic \<noteq> 0
               then est (ic_count ic) (ic_num_inodes ic) (el_ino (the (ic_list ic) ! unat (ic_count ic - 1))) else 0)
      in if n < ic_size ic + 100 then ic_size ic + 100 else n)"

definition insert_icount_el ::
    "malloc \<Rightarrow> icount_el \<Rightarrow> (u32 \<Rightarrow> u32 \<Rightarrow> u32 \<Rightarrow> u32) \<Rightarrow> 'p icount \<Rightarrow> u32 \<Rightarrow> nat \<Rightarrow> nat option \<times> 'p icount" where
  "insert_icount_el mal junk est ic0 ino pos =
     (if (case ic_last_lookup ic0 of Some l \<Rightarrow> el_ino (the (ic_list ic0) ! l) = ino | None \<Rightarrow> False)
      then (ic_last_lookup ic0, ic0)
      else
        let new_size = icount_new_size est ic0 in
        if ic_count ic0 \<ge> ic_size ic0 \<and> \<not> mal (unat new_size * 8) then (None, ic0)
        else
          let ic = (if ic_count ic0 \<ge> ic_size ic0
                    then ic0\<lparr>ic_list := Some (resize_arr junk (unat new_size) (the (ic_list ic0))), ic_size := new_size\<rparr>
                    else ic0);
              num = sint (ic_count ic) - int pos
          in if num < 0 then (None, ic)
             else let xs = the (ic_list ic);
                      xs = (if nat num \<noteq> 0 then memmove_up xs pos (nat num) else xs)
                  in (Some pos, ic\<lparr>ic_list := Some (xs[pos := \<lparr>el_ino = ino, el_count = 0\<rparr>]), ic_count := ic_count ic + 1,
                                   ic_last_lookup := Some pos\<rparr>))"

definition get_icount_el ::
    "malloc \<Rightarrow> icount_el \<Rightarrow> (u32 \<Rightarrow> u32 \<Rightarrow> u32 \<Rightarrow> u32) \<Rightarrow> 'p icount \<Rightarrow> u32 \<Rightarrow> bool \<Rightarrow> nat option \<times> 'p icount" where
  "get_icount_el mal junk est ic ino create =
     (case ic_list ic of
        None \<Rightarrow> (None, ic)
      | Some xs \<Rightarrow>
          if create \<and> (ic_count ic = 0 \<or> ino > el_ino (xs ! unat (ic_count ic - 1)))
          then insert_icount_el mal junk est ic ino (unat (ic_count ic))
          else if ic_count ic = 0 then (None, ic)
          else
            let cur = (if ic_cursor ic \<ge> ic_count ic then 0 else ic_cursor ic) in
            if ino = el_ino (xs ! unat cur) then (Some (unat cur), ic\<lparr>ic_cursor := cur + 1\<rparr>)
            else case key_search el_ino xs ino 0 (sint (ic_count ic) - 1) of
                   Inl mid \<Rightarrow> (Some mid, ic\<lparr>ic_cursor := of_nat mid + 1\<rparr>)
                 | Inr low \<Rightarrow>
                     if create then insert_icount_el mal junk est (ic\<lparr>ic_cursor := cur\<rparr>) ino low
                     else (None, ic\<lparr>ic_cursor := cur\<rparr>))"

definition set_el :: "'p icount \<Rightarrow> nat \<Rightarrow> u32 \<Rightarrow> 'p icount" where
  "set_el ic i v = ic\<lparr>ic_list := map_option (\<lambda>xs. xs[i := (xs ! i)\<lparr>el_count := v\<rparr>]) (ic_list ic)\<rparr>"

definition set_inode_count ::
    "malloc \<Rightarrow> icount_el \<Rightarrow> (u32 \<Rightarrow> u32 \<Rightarrow> u32 \<Rightarrow> u32) \<Rightarrow> 'p icount \<Rightarrow> u32 \<Rightarrow> u32 \<Rightarrow> errcode option \<times> 'p icount" where
  "set_inode_count mal junk est ic ino v =
     (case ic_fullmap ic of
        Some fm \<Rightarrow> (None, ic\<lparr>ic_fullmap := Some (fm[unat ino := icount_16_xlate v])\<rparr>)
      | None \<Rightarrow>
          (case get_icount_el mal junk est ic ino True of
             (None, ic) \<Rightarrow> (Some EXT2_ET_NO_MEMORY, ic)
           | (Some el, ic) \<Rightarrow> (None, set_el ic el v)))"

text \<open>Reading the full array, also behind its end.\<close>

definition fullmap_at :: "u16 \<Rightarrow> u16 list \<Rightarrow> u32 \<Rightarrow> u16" where
  "fullmap_at junk fm ino = (if unat ino < length fm then fm ! unat ino else junk)"

text \<open>The error \<open>ENOENT\<close> comes with the count 0, and all callers look at the count only.\<close>

definition get_inode_count ::
    "malloc \<Rightarrow> icount_el \<Rightarrow> (u32 \<Rightarrow> u32 \<Rightarrow> u32 \<Rightarrow> u32) \<Rightarrow> u16 \<Rightarrow> 'p icount \<Rightarrow> u32 \<Rightarrow> (errcode option \<times> u32) \<times> 'p icount" where
  "get_inode_count mal junk est oob ic ino =
     (case ic_fullmap ic of
        Some fm \<Rightarrow> ((None, ucast (fullmap_at oob fm ino)), ic)
      | None \<Rightarrow>
          (case get_icount_el mal junk est ic ino False of
             (None, ic) \<Rightarrow> ((Some ENOENT, 0), ic)
           | (Some el, ic) \<Rightarrow> ((None, el_count (the (ic_list ic) ! el)), ic)))"

section \<open>The operations\<close>

text \<open>The calls on the two bitmaps, which may move the cursors of a bitmap (\<open>ops\<close>: its back end).\<close>

definition test_single :: "'p bitmap_ops \<Rightarrow> 'p icount \<Rightarrow> u32 \<Rightarrow> bool \<times> 'p icount" where
  "test_single ops ic ino =
     (case ext2fs_test_generic_bmap ops (ic_single ic) (ucast ino) of (r, b) \<Rightarrow> (r \<noteq> 0, ic\<lparr>ic_single := b\<rparr>))"

definition mark_single :: "'p bitmap_ops \<Rightarrow> 'p icount \<Rightarrow> u32 \<Rightarrow> 'p icount" where
  "mark_single ops ic ino = ic\<lparr>ic_single := snd (ext2fs_mark_generic_bmap ops (ic_single ic) (ucast ino))\<rparr>"

definition unmark_single :: "'p bitmap_ops \<Rightarrow> 'p icount \<Rightarrow> u32 \<Rightarrow> 'p icount" where
  "unmark_single ops ic ino = ic\<lparr>ic_single := snd (ext2fs_unmark_generic_bmap ops (ic_single ic) (ucast ino))\<rparr>"

definition test_multiple :: "'p bitmap_ops \<Rightarrow> 'p icount \<Rightarrow> u32 \<Rightarrow> bool \<times> 'p icount" where
  "test_multiple ops ic ino =
     (case ext2fs_test_generic_bmap ops (ic_multiple ic) (ucast ino) of (r, b) \<Rightarrow> (r \<noteq> 0, ic\<lparr>ic_multiple := b\<rparr>))"

definition mark_multiple :: "'p bitmap_ops \<Rightarrow> 'p icount \<Rightarrow> u32 \<Rightarrow> 'p icount" where
  "mark_multiple ops ic ino = ic\<lparr>ic_multiple := snd (ext2fs_mark_generic_bmap ops (ic_multiple ic) (ucast ino))\<rparr>"

definition unmark_multiple :: "'p bitmap_ops \<Rightarrow> 'p icount \<Rightarrow> u32 \<Rightarrow> 'p icount" where
  "unmark_multiple ops ic ino = ic\<lparr>ic_multiple := snd (ext2fs_unmark_generic_bmap ops (ic_multiple ic) (ucast ino))\<rparr>"

definition ino_in_range :: "'p icount \<Rightarrow> u32 \<Rightarrow> bool" where
  "ino_in_range ic ino = (ino \<noteq> 0 \<and> ino \<le> ic_num_inodes ic)"

text \<open>
  What the operations depend on: the back end of the bitmaps, the allocator and what it returns, the
  estimate of the size, and what lies behind the full array.
\<close>

record 'p icount_env =
  ie_ops :: "'p bitmap_ops"
  ie_malloc :: malloc
  ie_junk :: icount_el
  ie_est :: "u32 \<Rightarrow> u32 \<Rightarrow> u32 \<Rightarrow> u32"
  ie_oob :: u16

abbreviation get_count :: "'p icount_env \<Rightarrow> 'p icount \<Rightarrow> u32 \<Rightarrow> (errcode option \<times> u32) \<times> 'p icount" where
  "get_count e \<equiv> get_inode_count (ie_malloc e) (ie_junk e) (ie_est e) (ie_oob e)"

abbreviation set_count :: "'p icount_env \<Rightarrow> 'p icount \<Rightarrow> u32 \<Rightarrow> u32 \<Rightarrow> errcode option \<times> 'p icount" where
  "set_count e \<equiv> set_inode_count (ie_malloc e) (ie_junk e) (ie_est e)"

definition ext2fs_icount_fetch :: "'p icount_env \<Rightarrow> 'p icount \<Rightarrow> u32 \<Rightarrow> (errcode + u16) \<times> 'p icount" where
  "ext2fs_icount_fetch e ic ino =
     (if \<not> ino_in_range ic ino then (Inl EXT2_ET_INVALID_ARGUMENT, ic)
      else
        let slow = (\<lambda>ic. case get_count e ic ino of ((_, v), ic) \<Rightarrow> (Inr (icount_16_xlate v), ic))
        in if ic_fullmap ic \<noteq> None then slow ic
           else (case test_single (ie_ops e) ic ino of
                   (True, ic) \<Rightarrow> (Inr 1, ic)
                 | (False, ic) \<Rightarrow>
                     if ic_multiple ic = None then slow ic
                     else (case test_multiple (ie_ops e) ic ino of
                             (False, ic) \<Rightarrow> (Inr 0, ic)
                           | (True, ic) \<Rightarrow> slow ic)))"

definition ext2fs_icount_increment :: "'p icount_env \<Rightarrow> 'p icount \<Rightarrow> u32 \<Rightarrow> (errcode + u16) \<times> 'p icount" where
  "ext2fs_icount_increment e ic ino =
     (let finish = (\<lambda>v ic. (Inr (icount_16_xlate v), if ic_multiple ic \<noteq> None then mark_multiple (ie_ops e) ic ino else ic));
          bump = (\<lambda>ic. case get_count e ic ino of
                     ((_, v), ic) \<Rightarrow> (case set_count e ic ino (v + 1) of
                                       (Some err, ic) \<Rightarrow> (Inl EXT2_ET_NO_MEMORY, ic)
                                     | (None, ic) \<Rightarrow> finish (v + 1) ic))
      in if \<not> ino_in_range ic ino then (Inl EXT2_ET_INVALID_ARGUMENT, ic)
         else case ic_fullmap ic of
           Some fm \<Rightarrow>
             let v = icount_16_xlate (ucast (fullmap_at (ie_oob e) fm ino) + 1)
             in finish (ucast v) (ic\<lparr>ic_fullmap := Some (fm[unat ino := v])\<rparr>)
         | None \<Rightarrow>
             (case test_single (ie_ops e) ic ino of
                (True, ic) \<Rightarrow>
                  (case set_count e ic ino 2 of
                     (Some err, ic) \<Rightarrow> (Inl EXT2_ET_NO_MEMORY, ic)
                   | (None, ic) \<Rightarrow> finish 2 (unmark_single (ie_ops e) ic ino))
              | (False, ic) \<Rightarrow>
                  if ic_multiple ic \<noteq> None
                  then (case test_multiple (ie_ops e) ic ino of
                          (True, ic) \<Rightarrow> bump ic
                        | (False, ic) \<Rightarrow> (Inr 1, mark_single (ie_ops e) ic ino))
                  else bump ic))"

definition ext2fs_icount_decrement :: "'p icount_env \<Rightarrow> 'p icount \<Rightarrow> u32 \<Rightarrow> (errcode + u16) \<times> 'p icount" where
  "ext2fs_icount_decrement e ic ino =
     (let slow = (\<lambda>ic. case get_count e ic ino of
                     ((_, v), ic) \<Rightarrow>
                        if v = 0 then (Inl EXT2_ET_INVALID_ARGUMENT, ic)
                        else (case set_count e ic ino (v - 1) of
                                (Some err, ic) \<Rightarrow> (Inl EXT2_ET_NO_MEMORY, ic)
                              | (None, ic) \<Rightarrow>
                                  let ic = (if v - 1 = 1 then mark_single (ie_ops e) ic ino else ic);
                                      ic = (if v - 1 = 0 \<and> ic_multiple ic \<noteq> None then unmark_multiple (ie_ops e) ic ino else ic)
                                  in (Inr (icount_16_xlate (v - 1)), ic)))
      in if \<not> ino_in_range ic ino then (Inl EXT2_ET_INVALID_ARGUMENT, ic)
         else case ic_fullmap ic of
           Some fm \<Rightarrow>
             let v = fullmap_at (ie_oob e) fm ino
             in if v = 0 then (Inl EXT2_ET_INVALID_ARGUMENT, ic)
                else (Inr (icount_16_xlate (ucast (v - 1))), ic\<lparr>ic_fullmap := Some (fm[unat ino := v - 1])\<rparr>)
         | None \<Rightarrow>
             (case test_single (ie_ops e) ic ino of
                (True, ic) \<Rightarrow>
                  let ic = unmark_single (ie_ops e) ic ino;
                      ic = (if ic_multiple ic \<noteq> None then unmark_multiple (ie_ops e) ic ino else snd (set_count e ic ino 0))
                  in (Inr 0, ic)
              | (False, ic) \<Rightarrow>
                  if ic_multiple ic \<noteq> None
                  then (case test_multiple (ie_ops e) ic ino of
                          (False, ic) \<Rightarrow> (Inl EXT2_ET_INVALID_ARGUMENT, ic)
                        | (True, ic) \<Rightarrow> slow ic)
                  else slow ic))"

definition ext2fs_icount_store :: "'p icount_env \<Rightarrow> 'p icount \<Rightarrow> u32 \<Rightarrow> u16 \<Rightarrow> errcode option \<times> 'p icount" where
  "ext2fs_icount_store e ic ino v =
     (if \<not> ino_in_range ic ino then (Some EXT2_ET_INVALID_ARGUMENT, ic)
      else if ic_fullmap ic \<noteq> None then set_count e ic ino (ucast v)
      else if v = 1
      then let ic = mark_single (ie_ops e) ic ino
           in (None, if ic_multiple ic \<noteq> None then unmark_multiple (ie_ops e) ic ino else ic)
      else if v = 0
      then let ic = unmark_single (ie_ops e) ic ino
           in (None, if ic_multiple ic \<noteq> None then unmark_multiple (ie_ops e) ic ino else snd (set_count e ic ino 0))
      else (case set_count e ic ino (ucast v) of
              (Some err, ic) \<Rightarrow> (Some EXT2_ET_NO_MEMORY, ic)
            | (None, ic) \<Rightarrow>
                let ic = unmark_single (ie_ops e) ic ino
                in (None, if ic_multiple ic \<noteq> None then mark_multiple (ie_ops e) ic ino else ic)))"

text \<open>\<open>ext2fs_icount_validate\<close>, without its messages.\<close>

definition ext2fs_icount_validate :: "'p icount \<Rightarrow> errcode option" where
  "ext2fs_icount_validate ic =
     (if ic_count ic > ic_size ic then Some EXT2_ET_INVALID_ARGUMENT
      else if \<exists>i\<in>set [1..<unat (ic_count ic)]. el_ino (the (ic_list ic) ! (i - 1)) \<ge> el_ino (the (ic_list ic) ! i)
      then Some EXT2_ET_INVALID_ARGUMENT else None)"

definition ext2fs_get_icount_size :: "'p icount option \<Rightarrow> u32" where
  "ext2fs_get_icount_size r = (case r of None \<Rightarrow> 0 | Some ic \<Rightarrow> ic_size ic)"

end
