(* ===== verification/Icount_Props.thy ===== *)
theory Icount_Props
  imports Icount
begin

text \<open>
  The inode counts as a total function from inodes to counts: the sorted array first, then the
  operations for any implementation of the two bitmaps that fulfils the locale \<open>inode_sets\<close>, which
  every back end of the generic bitmaps does.
\<close>

section \<open>The sorted array\<close>

definition ic_elems :: "'p icount \<Rightarrow> icount_el list" where
  "ic_elems ic = take (unat (ic_count ic)) (the (ic_list ic))"

definition list_val :: "'p icount \<Rightarrow> u32 \<Rightarrow> u32" where
  "list_val ic = val_of el_ino el_count (ic_elems ic)"

definition list_ok :: "'p icount \<Rightarrow> bool" where
  "list_ok ic \<longleftrightarrow> ic_fullmap ic = None \<and> unat (ic_num_inodes ic) < 2 ^ 31
     \<and> (\<exists>xs. ic_list ic = Some xs \<and> length xs = unat (ic_size ic) \<and> ic_count ic \<le> ic_size ic)
     \<and> sorted_keys el_ino (ic_elems ic) \<and> (\<forall>el\<in>set (ic_elems ic). ino_in_range ic (el_ino el))
     \<and> (case ic_last_lookup ic of Some l \<Rightarrow> l < unat (ic_count ic) | None \<Rightarrow> True)"

text \<open>All but the array, its size, its cursor and the last element found.\<close>

definition same_icount :: "'p icount \<Rightarrow> 'p icount \<Rightarrow> bool" where
  "same_icount ic' ic \<longleftrightarrow> ic_single ic' = ic_single ic \<and> ic_multiple ic' = ic_multiple ic
     \<and> ic_num_inodes ic' = ic_num_inodes ic \<and> ic_fullmap ic' = ic_fullmap ic"

lemma same_icount_refl [simp]: "same_icount ic ic"
  by (simp add: same_icount_def)

lemma list_ok_length: "list_ok ic \<Longrightarrow> length (ic_elems ic) = unat (ic_count ic)"
  by (auto simp: list_ok_def ic_elems_def word_le_nat_alt)

lemma ic_elems_nth: "i < unat (ic_count ic) \<Longrightarrow> ic_elems ic ! i = the (ic_list ic) ! i"
  by (simp add: ic_elems_def)

text \<open>There is at most one element for each inode.\<close>

lemma keys_bounded:
  assumes "sorted_keys el_ino es" "\<forall>el\<in>set es. el_ino el \<noteq> 0 \<and> el_ino el \<le> n"
  shows "length es \<le> unat n"
proof -
  have "distinct (map el_ino es)"
    using assms(1) by (auto simp: distinct_conv_nth dest: sorted_keys_nth) (metis linorder_neqE_nat order_less_irrefl sorted_keys_nth)
  then have "length es = card (unat ` el_ino ` set es)"
    by (metis (no_types, lifting) card_image distinct_card inj_on_def length_map list.set_map word_unat_eq_iff)
  also have "\<dots> \<le> card {1..unat n}"
    using assms(2) by (intro card_mono) (auto simp: word_le_nat_alt Suc_le_eq unat_gt_0)
  finally show ?thesis by simp
qed

lemma count_bounded: "list_ok ic \<Longrightarrow> unat (ic_count ic) \<le> unat (ic_num_inodes ic)"
  using keys_bounded [of "ic_elems ic" "ic_num_inodes ic"] list_ok_length [of ic]
  by (simp add: list_ok_def ino_in_range_def)

lemma sint_count:
  assumes "list_ok ic"
  shows "sint (ic_count ic) = int (unat (ic_count ic))"
proof -
  have "unat (ic_count ic) < 2 ^ 31" using count_bounded [OF assms] assms by (simp add: list_ok_def)
  then have "int (unat (ic_count ic)) < int (2 ^ 31)" by (simp only: of_nat_less_iff)
  then have "- (2 ^ 31) \<le> uint (ic_count ic)" "uint (ic_count ic) < 2 ^ 31"
    by (simp_all add: order.trans [OF _ uint_ge_0])
  then have "signed_take_bit 31 (uint (ic_count ic)) = uint (ic_count ic)" by (rule signed_take_bit_int_eq_self)
  then show ?thesis by (simp add: sint_uint)
qed

lemma list_ok_cursor [simp]:
  "list_ok (ic\<lparr>ic_cursor := c\<rparr>) = list_ok ic" "list_val (ic\<lparr>ic_cursor := c\<rparr>) = list_val ic"
  "ic_elems (ic\<lparr>ic_cursor := c\<rparr>) = ic_elems ic" "same_icount (ic\<lparr>ic_cursor := c\<rparr>) ic"
  by (simp_all add: list_ok_def list_val_def ic_elems_def ino_in_range_def same_icount_def split: option.split)

lemma insert_icount_el_spec:
  assumes ok: "list_ok ic" and range: "ino_in_range ic ino" and pos: "pos \<le> unat (ic_count ic)"
    and below: "\<forall>i < pos. el_ino (the (ic_list ic) ! i) < ino"
    and above: "\<forall>i < unat (ic_count ic). pos \<le> i \<longrightarrow> ino < el_ino (the (ic_list ic) ! i)"
    and ins: "insert_icount_el mal junk est ic ino pos = (r, ic')"
  shows "list_ok ic' \<and> list_val ic' = list_val ic \<and> same_icount ic' ic \<and> ino \<notin> el_ino ` set (ic_elems ic)
    \<and> (case r of None \<Rightarrow> \<exists>n. \<not> mal n | Some i \<Rightarrow> i < unat (ic_count ic') \<and> el_ino (the (ic_list ic') ! i) = ino)"
proof -
  note len = list_ok_length [OF ok]
  obtain xs where xs: "ic_list ic = Some xs" "length xs = unat (ic_size ic)" "ic_count ic \<le> ic_size ic"
    using ok by (auto simp: list_ok_def)
  have srt: "sorted_keys el_ino (ic_elems ic)" using ok by (simp add: list_ok_def)
  have absent: "ino \<notin> el_ino ` set (ic_elems ic)"
  proof
    assume "ino \<in> el_ino ` set (ic_elems ic)"
    then obtain i where "i < unat (ic_count ic)" "el_ino (the (ic_list ic) ! i) = ino"
      using len by (auto simp: in_set_conv_nth ic_elems_nth)
    with below above show False by (metis less_irrefl not_le)
  qed
  have new: "\<not> (case ic_last_lookup ic of Some l \<Rightarrow> el_ino (the (ic_list ic) ! l) = ino | None \<Rightarrow> False)"
  proof (cases "ic_last_lookup ic")
    case (Some l)
    then have "l < unat (ic_count ic)" using ok by (simp add: list_ok_def)
    then have "ic_elems ic ! l \<in> set (ic_elems ic)" "ic_elems ic ! l = the (ic_list ic) ! l"
      using len by (auto intro: nth_mem simp: ic_elems_nth [symmetric])
    with absent Some show ?thesis by auto
  qed simp
  let ?e = "\<lparr>el_ino = ino, el_count = 0\<rparr>"
  have ins_srt: "sorted_keys el_ino (take pos (ic_elems ic) @ ?e # drop pos (ic_elems ic))"
    using srt below above pos len by (intro sorted_keys_insert) (auto simp: in_set_conv_nth ic_elems_nth)
  have room: "Suc (unat (ic_count ic)) \<le> unat (ic_num_inodes ic)"
  proof -
    from ins_srt have "length (take pos (ic_elems ic) @ ?e # drop pos (ic_elems ic)) \<le> unat (ic_num_inodes ic)"
      using ok range by (intro keys_bounded) (auto simp: list_ok_def ino_in_range_def dest: in_set_takeD in_set_dropD)
    then show ?thesis using len pos by simp
  qed
  have small: "unat (ic_num_inodes ic) < 2 ^ 31" using ok by (simp add: list_ok_def)
  let ?n = "icount_new_size est ic"
  show ?thesis
  proof (cases "ic_count ic \<ge> ic_size ic \<and> \<not> mal (unat ?n * 8)")
    case True
    then have "(r, ic') = (None, ic)" using ins new by (simp add: insert_icount_el_def Let_def del: not_le)
    with ok absent True show ?thesis by auto
  next
    case False
    define ic1 where "ic1 = (if ic_count ic \<ge> ic_size ic
        then ic\<lparr>ic_list := Some (resize_arr junk (unat ?n) xs), ic_size := ?n\<rparr> else ic)"
    have grown: "unat (ic_count ic) < unat ?n" if full: "ic_count ic \<ge> ic_size ic"
    proof -
      have "unat (ic_size ic) \<le> unat (ic_count ic)" using full by (simp add: word_le_nat_alt)
      moreover from this have "unat (ic_size ic + 100) = unat (ic_size ic) + unat (100 :: u32)"
        using room small by (intro iffD1 [OF unat_add_lem]) simp
      ultimately have "unat (ic_size ic + 100) = unat (ic_size ic) + 100" "unat (ic_count ic) = unat (ic_size ic)"
        using xs(3) by (simp_all add: word_le_nat_alt)
      moreover have "unat (ic_size ic + 100) \<le> unat ?n"
        by (simp add: icount_new_size_def Let_def not_less word_le_nat_alt)
      ultimately show ?thesis by simp
    qed
    obtain ys where ys: "ic_list ic1 = Some ys" "unat (ic_count ic) < length ys" "length ys = unat (ic_size ic1)"
      "take (unat (ic_count ic)) ys = ic_elems ic"
    proof (cases "ic_count ic \<ge> ic_size ic")
      case True
      with that [of "resize_arr junk (unat ?n) xs"] grown xs show ?thesis
        by (simp add: ic1_def array_simps ic_elems_def word_le_nat_alt)
    next
      case False
      with that [of xs] xs show ?thesis by (simp add: ic1_def ic_elems_def word_le_nat_alt)
    qed
    define zs where "zs = (if unat (ic_count ic) - pos \<noteq> 0 then memmove_up ys pos (unat (ic_count ic) - pos) else ys)[pos := ?e]"
    have c1: "ic_count ic1 = ic_count ic" "ic_num_inodes ic1 = ic_num_inodes ic" "same_icount ic1 ic" "ic_fullmap ic1 = None"
      using ok by (simp_all add: ic1_def same_icount_def list_ok_def)
    have num: "nat (sint (ic_count ic) - int pos) = unat (ic_count ic) - pos" "\<not> sint (ic_count ic) - int pos < 0"
      unfolding sint_count [OF ok] using pos by (simp_all only: of_nat_diff [symmetric] nat_int)
    have "insert_icount_el mal junk est ic ino pos =
        (Some pos, ic1\<lparr>ic_list := Some zs, ic_count := ic_count ic + 1, ic_last_lookup := Some pos\<rparr>)"
      unfolding insert_icount_el_def if_not_P [OF new [unfolded xs(1) option.sel]] Let_def if_not_P [OF False] xs(1) option.sel
        ic1_def [symmetric] c1(1) if_not_P [OF num(2)] num(1) ys(1) zs_def ..
    from trans [OF ins [symmetric] this] have res: "r = Some pos"
      "ic' = ic1\<lparr>ic_list := Some zs, ic_count := ic_count ic + 1, ic_last_lookup := Some pos\<rparr>"
      by (simp_all only: prod.inject)
    note at = insert_at_take [OF pos ys(2), of ?e, folded zs_def]
    have cnt: "unat (ic_count ic + 1) = Suc (unat (ic_count ic))"
    proof -
      have "unat (ic_count ic + 1) = unat (ic_count ic) + unat (1 :: u32)"
        using room small by (intro iffD1 [OF unat_add_lem]) simp
      then show ?thesis by simp
    qed
    have el: "ic_elems ic' = take pos (ic_elems ic) @ ?e # drop pos (ic_elems ic)"
    proof -
      have "take pos ys = take pos (take (unat (ic_count ic)) ys)" using pos by (simp add: min_def)
      moreover have "ic_elems ic' = take (Suc (unat (ic_count ic))) zs"
        by (simp add: ic_elems_def res cnt)
      ultimately show ?thesis using at(2) by (simp only: ys(4))
    qed
    have "sorted_keys el_ino (ic_elems ic')"
      unfolding el by (rule ins_srt)
    moreover have "list_val ic' = list_val ic" using absent by (simp add: list_val_def el val_of_insert_zero)
    moreover have "ino_in_range ic' = ino_in_range ic" by (simp add: fun_eq_iff ino_in_range_def res c1)
    then have "\<forall>x\<in>set (ic_elems ic'). ino_in_range ic' (el_ino x)"
      unfolding el using ok range by (auto simp: list_ok_def dest: in_set_takeD in_set_dropD)
    moreover have "same_icount ic' ic" using c1(3) by (simp add: same_icount_def res)
    moreover have "el_ino (zs ! pos) = ino" using pos ys(2) at(1) by (simp add: zs_def)
    ultimately show ?thesis
      using absent small at(1) ys(2,3) c1(2,4) pos cnt
      by (simp add: list_ok_def res word_le_nat_alt del: list_update_id)
  qed
qed

text \<open>What \<open>get_icount_el\<close> promises; it fails only for inodes without an element, and with \<open>create\<close> only
  for lack of memory.\<close>

definition icount_found :: "malloc \<Rightarrow> 'p icount \<Rightarrow> u32 \<Rightarrow> bool \<Rightarrow> nat option \<times> 'p icount \<Rightarrow> bool" where
  "icount_found mal ic ino create res \<longleftrightarrow> list_ok (snd res) \<and> list_val (snd res) = list_val ic \<and> same_icount (snd res) ic
     \<and> (case fst res of
          None \<Rightarrow> list_val ic ino = 0 \<and> (create \<longrightarrow> (\<exists>n. \<not> mal n))
        | Some i \<Rightarrow> i < unat (ic_count (snd res)) \<and> el_ino (the (ic_list (snd res)) ! i) = ino)"

lemma icount_found_insert:
  assumes "list_ok ic" "ino_in_range ic ino" "pos \<le> unat (ic_count ic)"
    "\<forall>i < pos. el_ino (the (ic_list ic) ! i) < ino"
    "\<forall>i < unat (ic_count ic). pos \<le> i \<longrightarrow> ino < el_ino (the (ic_list ic) ! i)"
  shows "icount_found mal (ic\<lparr>ic_cursor := c\<rparr>) ino True (insert_icount_el mal junk est ic ino pos)"
proof -
  obtain r ic' where i: "insert_icount_el mal junk est ic ino pos = (r, ic')" by fastforce
  from insert_icount_el_spec [OF assms i] show ?thesis
    by (auto simp: icount_found_def i list_val_def val_of_absent same_icount_def split: option.splits)
qed

lemma el_ino_mono:
  assumes "list_ok ic" "i < j" "j < unat (ic_count ic)"
  shows "el_ino (the (ic_list ic) ! i) < el_ino (the (ic_list ic) ! j)"
  using sorted_keys_nth [of el_ino "ic_elems ic" i j] assms list_ok_length [OF assms(1)]
  by (simp add: list_ok_def ic_elems_nth)

lemma list_val_absent:
  assumes "list_ok ic" "\<forall>i < unat (ic_count ic). el_ino (the (ic_list ic) ! i) \<noteq> ino"
  shows "list_val ic ino = 0"
proof -
  have "ino \<notin> el_ino ` set (ic_elems ic)"
    using assms(2) list_ok_length [OF assms(1)] by (auto simp: in_set_conv_nth) (metis ic_elems_nth)
  then show ?thesis unfolding list_val_def by (rule val_of_absent)
qed

lemma list_val_nth:
  assumes "list_ok ic" "i < unat (ic_count ic)"
  shows "list_val ic (el_ino (the (ic_list ic) ! i)) = el_count (the (ic_list ic) ! i)"
  using val_of_nth [of el_ino "ic_elems ic" i el_count] assms list_ok_length [OF assms(1)]
  by (simp add: list_val_def list_ok_def ic_elems_nth)

lemma get_icount_el_spec:
  assumes ok: "list_ok ic" and range: "ino_in_range ic ino"
  shows "icount_found mal ic ino create (get_icount_el mal junk est ic ino create)"
proof -
  obtain xs where xs: "ic_list ic = Some xs" using ok by (auto simp: list_ok_def)
  have cur_id: "icount_found mal (ic\<lparr>ic_cursor := c\<rparr>) ino b r \<Longrightarrow> icount_found mal ic ino b r" for b c r
    unfolding icount_found_def list_ok_cursor by (simp add: same_icount_def)
  consider (last) "create" "ic_count ic = 0 \<or> ino > el_ino (xs ! unat (ic_count ic - 1))"
    | (empty) "\<not> (create \<and> (ic_count ic = 0 \<or> ino > el_ino (xs ! unat (ic_count ic - 1))))" "ic_count ic = 0"
    | (more) "\<not> (create \<and> (ic_count ic = 0 \<or> ino > el_ino (xs ! unat (ic_count ic - 1))))" "ic_count ic \<noteq> 0"
    by blast
  then show ?thesis
  proof cases
    case last
    have "\<forall>i < unat (ic_count ic). el_ino (the (ic_list ic) ! i) < ino"
    proof (intro allI impI)
      fix i assume i: "i < unat (ic_count ic)"
      then have "ic_count ic \<noteq> 0" by auto
      then have nz: "unat (ic_count ic - 1) = unat (ic_count ic) - 1" by (rule unat_minus_one)
      have l: "el_ino (xs ! (unat (ic_count ic) - 1)) < ino" using last(2) i nz by auto
      have "i < unat (ic_count ic) - 1 \<or> i = unat (ic_count ic) - 1" using i by linarith
      then show "el_ino (the (ic_list ic) ! i) < ino"
        using el_ino_mono [OF ok, of i "unat (ic_count ic) - 1"] i l xs by (auto intro: less_trans)
    qed
    then have "icount_found mal (ic\<lparr>ic_cursor := ic_cursor ic\<rparr>) ino True (insert_icount_el mal junk est ic ino (unat (ic_count ic)))"
      by (intro icount_found_insert [OF ok range]) auto
    with last xs show ?thesis by (simp add: get_icount_el_def)
  next
    case empty
    then have "\<not> create" by blast
    with empty xs ok list_val_absent [OF ok, of ino] show ?thesis by (simp add: get_icount_el_def icount_found_def)
  next
    case more
    let ?cur = "if ic_cursor ic \<ge> ic_count ic then 0 else ic_cursor ic"
    have cur: "unat ?cur < unat (ic_count ic)"
      using more(2) by (auto simp: not_le word_less_nat_alt unat_gt_0)
    show ?thesis
    proof (cases "ino = el_ino (xs ! unat ?cur)")
      case True
      have "get_icount_el mal junk est ic ino create = (Some (unat ?cur), ic\<lparr>ic_cursor := ?cur + 1\<rparr>)"
        unfolding get_icount_el_def xs option.case if_not_P [OF more(1)] if_not_P [OF more(2)] Let_def if_P [OF True] ..
      moreover have "icount_found mal ic ino create (Some (unat ?cur), ic\<lparr>ic_cursor := ?cur + 1\<rparr>)"
        using cur True xs ok unfolding icount_found_def fst_conv snd_conv option.case list_ok_cursor by simp
      ultimately show ?thesis by simp
    next
      case False
      have e: "get_icount_el mal junk est ic ino create =
         (case key_search el_ino xs ino 0 (sint (ic_count ic) - 1) of
            Inl mid \<Rightarrow> (Some mid, ic\<lparr>ic_cursor := of_nat mid + 1\<rparr>)
          | Inr low \<Rightarrow> if create then insert_icount_el mal junk est (ic\<lparr>ic_cursor := ?cur\<rparr>) ino low
                       else (None, ic\<lparr>ic_cursor := ?cur\<rparr>))"
        unfolding get_icount_el_def xs option.case if_not_P [OF more(1)] if_not_P [OF more(2)] Let_def if_not_P [OF False] ..
      have search: "case key_search el_ino xs ino 0 (sint (ic_count ic) - 1) of
          Inl m \<Rightarrow> m < unat (ic_count ic) \<and> el_ino (xs ! m) = ino
        | Inr l \<Rightarrow> l \<le> unat (ic_count ic) \<and> (\<forall>i < l. el_ino (xs ! i) < ino)
            \<and> (\<forall>i < unat (ic_count ic). l \<le> i \<longrightarrow> ino < el_ino (xs ! i))"
      proof -
        obtain n where n: "unat (ic_count ic) = n" by blast
        show ?thesis
          unfolding sint_count [OF ok] n
          by (rule key_search_spec) (use el_ino_mono [OF ok] xs n in auto)
      qed
      show ?thesis
      proof (cases "key_search el_ino xs ino 0 (sint (ic_count ic) - 1)")
        case (Inl m)
        with e search xs ok show ?thesis by (simp add: icount_found_def)
      next
        case (Inr l)
        then have l: "l \<le> unat (ic_count ic)" "\<forall>i < l. el_ino (xs ! i) < ino"
          "\<forall>i < unat (ic_count ic). l \<le> i \<longrightarrow> ino < el_ino (xs ! i)" using search by auto
        show ?thesis
        proof (cases create)
          case True
          have "icount_found mal (ic\<lparr>ic_cursor := ?cur, ic_cursor := ic_cursor ic\<rparr>) ino True
              (insert_icount_el mal junk est (ic\<lparr>ic_cursor := ?cur\<rparr>) ino l)"
            using ok range l xs by (intro icount_found_insert) (simp_all add: ino_in_range_def)
          with e Inr True show ?thesis by simp
        next
          case False
          have "\<forall>i < unat (ic_count ic). el_ino (the (ic_list ic) ! i) \<noteq> ino"
            using l(2,3) xs by (metis less_irrefl not_le option.sel)
          from list_val_absent [OF ok this] e Inr False ok show ?thesis by (simp add: icount_found_def)
        qed
      qed
    qed
  qed
qed

lemma set_el_ok:
  assumes "list_ok ic" "i < unat (ic_count ic)"
  shows "list_ok (set_el ic i v)" "list_val (set_el ic i v) = (list_val ic)(el_ino (the (ic_list ic) ! i) := v)"
    "same_icount (set_el ic i v) ic"
proof -
  obtain xs where xs: "ic_list ic = Some xs" "length xs = unat (ic_size ic)" "ic_count ic \<le> ic_size ic"
    using assms(1) by (auto simp: list_ok_def)
  have l: "i < length (ic_elems ic)" "ic_elems ic ! i = xs ! i"
    using assms xs list_ok_length [OF assms(1)] by (simp_all add: ic_elems_nth)
  have el: "ic_elems (set_el ic i v) = (ic_elems ic)[i := (ic_elems ic ! i)\<lparr>el_count := v\<rparr>]"
    using assms(2) xs by (simp add: ic_elems_def set_el_def take_update_swap)
  have srt: "sorted_keys el_ino (ic_elems ic)" using assms(1) by (simp add: list_ok_def)
  show "list_val (set_el ic i v) = (list_val ic)(el_ino (the (ic_list ic) ! i) := v)"
    unfolding list_val_def el using val_of_update [OF srt l(1), of "(ic_elems ic ! i)\<lparr>el_count := v\<rparr>" el_count] l(2) xs by simp
  have "sorted_keys el_ino (ic_elems (set_el ic i v))" unfolding el by (rule sorted_keys_update [OF srt l(1)]) simp
  moreover have "\<forall>el\<in>set (ic_elems (set_el ic i v)). ino_in_range ic (el_ino el)"
    unfolding el using assms(1) l(1) nth_mem [OF l(1)] by (auto simp: list_ok_def dest!: set_update_subset_insert [THEN subsetD])
  ultimately show "list_ok (set_el ic i v)"
    using assms(1) xs by (simp add: list_ok_def set_el_def ino_in_range_def split: option.splits)
  show "same_icount (set_el ic i v) ic" by (simp add: same_icount_def set_el_def)
qed

lemma set_inode_count_spec:
  assumes ok: "list_ok ic" and range: "ino_in_range ic ino" and s: "set_inode_count mal junk est ic ino v = (r, ic')"
  shows "list_ok ic' \<and> same_icount ic' ic
    \<and> (case r of None \<Rightarrow> list_val ic' = (list_val ic)(ino := v)
       | Some err \<Rightarrow> list_val ic' = list_val ic \<and> list_val ic ino = 0 \<and> (\<exists>n. \<not> mal n))"
proof -
  have fm: "ic_fullmap ic = None" using ok by (simp add: list_ok_def)
  obtain el ic1 where g: "get_icount_el mal junk est ic ino True = (el, ic1)" by fastforce
  have f: "icount_found mal ic ino True (el, ic1)" using get_icount_el_spec [OF ok range, of mal True junk est] g by simp
  show ?thesis
  proof (cases el)
    case None
    with s fm g f show ?thesis by (auto simp: set_inode_count_def icount_found_def)
  next
    case (Some i)
    with s fm g have "r = None" "ic' = set_el ic1 i v" by (auto simp: set_inode_count_def)
    with f Some set_el_ok [of ic1 i v] show ?thesis by (simp add: icount_found_def same_icount_def)
  qed
qed

lemma get_inode_count_spec:
  assumes ok: "list_ok ic" and range: "ino_in_range ic ino" and g: "get_inode_count mal junk est oob ic ino = ((r, v), ic')"
  shows "list_ok ic' \<and> same_icount ic' ic \<and> list_val ic' = list_val ic \<and> v = list_val ic ino"
proof -
  have fm: "ic_fullmap ic = None" using ok by (simp add: list_ok_def)
  obtain el ic1 where e: "get_icount_el mal junk est ic ino False = (el, ic1)" by fastforce
  have f: "icount_found mal ic ino False (el, ic1)" using get_icount_el_spec [OF ok range, of mal False junk est] e by simp
  show ?thesis
  proof (cases el)
    case None
    with g fm e f show ?thesis by (auto simp: get_inode_count_def icount_found_def)
  next
    case (Some i)
    with f have "list_val ic1 ino = el_count (the (ic_list ic1) ! i)"
      using list_val_nth [of ic1 i] by (simp add: icount_found_def)
    with g fm e f Some show ?thesis by (auto simp: get_inode_count_def icount_found_def)
  qed
qed

section \<open>The bitmaps\<close>

text \<open>
  What the counts rely on: a bitmap \<open>g\<close> of the inodes 1 to \<open>n\<close> (\<open>ok n g\<close>) stands for a set, and marking,
  unmarking and testing an inode in this range are insertion, removal and membership.
\<close>

locale inode_sets =
  fixes ops :: "'p bitmap_ops" and ok :: "u32 \<Rightarrow> 'p gbmap option \<Rightarrow> bool" and elems :: "'p gbmap option \<Rightarrow> u32 set"
  assumes not_null: "ok n g \<Longrightarrow> g \<noteq> None"
    and mark_law: "ok n g \<Longrightarrow> ino \<noteq> 0 \<Longrightarrow> ino \<le> n \<Longrightarrow> ext2fs_mark_generic_bmap ops g (ucast ino) = (r, g')
      \<Longrightarrow> ok n g' \<and> elems g' = insert ino (elems g)"
    and unmark_law: "ok n g \<Longrightarrow> ino \<noteq> 0 \<Longrightarrow> ino \<le> n \<Longrightarrow> ext2fs_unmark_generic_bmap ops g (ucast ino) = (r, g')
      \<Longrightarrow> ok n g' \<and> elems g' = elems g - {ino}"
    and test_law: "ok n g \<Longrightarrow> ino \<noteq> 0 \<Longrightarrow> ino \<le> n \<Longrightarrow> ext2fs_test_generic_bmap ops g (ucast ino) = (r, g')
      \<Longrightarrow> ok n g' \<and> elems g' = elems g \<and> (r \<noteq> 0 \<longleftrightarrow> ino \<in> elems g)"

definition wf_icount :: "(u32 \<Rightarrow> 'p gbmap option \<Rightarrow> bool) \<Rightarrow> 'p icount \<Rightarrow> bool" where
  "wf_icount ok ic \<longleftrightarrow> list_ok ic \<and> ok (ic_num_inodes ic) (ic_single ic)
     \<and> (ic_multiple ic = None \<or> ok (ic_num_inodes ic) (ic_multiple ic))"

text \<open>The count of an inode.\<close>

definition icount_val :: "('p gbmap option \<Rightarrow> u32 set) \<Rightarrow> 'p icount \<Rightarrow> u32 \<Rightarrow> u32" where
  "icount_val elems ic i =
     (if i \<in> elems (ic_single ic) then 1
      else if ic_multiple ic \<noteq> None \<and> i \<notin> elems (ic_multiple ic) then 0 else list_val ic i)"

text \<open>The outcome of an operation that makes \<open>f\<close> of the counts, or leaves them for lack of memory.\<close>

definition icount_becomes ::
    "(u32 \<Rightarrow> 'p gbmap option \<Rightarrow> bool) \<Rightarrow> ('p gbmap option \<Rightarrow> u32 set) \<Rightarrow> 'p icount \<Rightarrow> (u32 \<Rightarrow> u32) \<Rightarrow> 'p icount \<Rightarrow> bool" where
  "icount_becomes ok elems ic f ic' \<longleftrightarrow> wf_icount ok ic' \<and> icount_val elems ic' = f \<and> ic_num_inodes ic' = ic_num_inodes ic"

lemma bitmap_fields [simp]:
  "list_ok (ic\<lparr>ic_single := g\<rparr>) = list_ok ic" "list_ok (ic\<lparr>ic_multiple := g\<rparr>) = list_ok ic"
  "list_val (ic\<lparr>ic_single := g\<rparr>) = list_val ic" "list_val (ic\<lparr>ic_multiple := g\<rparr>) = list_val ic"
  "ino_in_range (ic\<lparr>ic_single := g\<rparr>) = ino_in_range ic" "ino_in_range (ic\<lparr>ic_multiple := g\<rparr>) = ino_in_range ic"
  by (simp_all add: list_ok_def list_val_def ic_elems_def ino_in_range_def fun_eq_iff split: option.split)

text \<open>The state of an \<open>icount\<close> as two sets (the second may be absent) and a function.\<close>

definition icount_sees ::
    "(u32 \<Rightarrow> 'p gbmap option \<Rightarrow> bool) \<Rightarrow> ('p gbmap option \<Rightarrow> u32 set) \<Rightarrow> 'p icount \<Rightarrow> u32 \<Rightarrow> u32 set \<Rightarrow> u32 set option \<Rightarrow>
     (u32 \<Rightarrow> u32) \<Rightarrow> bool" where
  "icount_sees ok elems ic n S M L \<longleftrightarrow> wf_icount ok ic \<and> ic_num_inodes ic = n \<and> elems (ic_single ic) = S
     \<and> M = (if ic_multiple ic = None then None else Some (elems (ic_multiple ic))) \<and> list_val ic = L"

definition count_in :: "u32 set \<Rightarrow> u32 set option \<Rightarrow> (u32 \<Rightarrow> u32) \<Rightarrow> u32 \<Rightarrow> u32" where
  "count_in S M L i = (if i \<in> S then 1 else if (case M of Some T \<Rightarrow> i \<notin> T | None \<Rightarrow> False) then 0 else L i)"

lemma icount_val_sees: "icount_sees ok elems ic n S M L \<Longrightarrow> icount_val elems ic = count_in S M L"
  by (simp add: icount_sees_def icount_val_def count_in_def fun_eq_iff)

lemma becomes_sees:
  "icount_sees ok elems ic n S M L \<Longrightarrow> icount_sees ok elems ic' n S' M' L' \<Longrightarrow> count_in S' M' L' = f
    \<Longrightarrow> icount_becomes ok elems ic f ic'"
  using icount_val_sees [of ok elems ic' n S' M' L'] by (simp add: icount_becomes_def icount_sees_def)

lemma sees_multiple: "icount_sees ok elems ic n S M L \<Longrightarrow> (ic_multiple ic = None) = (M = None)"
  by (simp add: icount_sees_def)

lemma sees_range: "icount_sees ok elems ic n S M L \<Longrightarrow> ino_in_range ic ino = (ino \<noteq> 0 \<and> ino \<le> n)"
  by (auto simp: icount_sees_def ino_in_range_def)

lemma sees_fullmap: "icount_sees ok elems ic n S M L \<Longrightarrow> ic_fullmap ic = None"
  by (simp add: icount_sees_def wf_icount_def list_ok_def)

lemma sees_same_icount:
  assumes "icount_sees ok elems ic n S M L" "list_ok ic'" "same_icount ic' ic" "list_val ic' = L'"
  shows "icount_sees ok elems ic' n S M L'"
  using assms unfolding icount_sees_def wf_icount_def same_icount_def by metis

text \<open>The outcome of an operation that makes \<open>f\<close> of the counts and returns \<open>v\<close>: or no memory, and the counts are unchanged.\<close>

definition icount_outcome ::
    "(u32 \<Rightarrow> 'p gbmap option \<Rightarrow> bool) \<Rightarrow> ('p gbmap option \<Rightarrow> u32 set) \<Rightarrow> malloc \<Rightarrow> 'p icount \<Rightarrow> (u32 \<Rightarrow> u32) \<Rightarrow> 'b \<Rightarrow>
     (errcode + 'b) \<times> 'p icount \<Rightarrow> bool" where
  "icount_outcome ok elems mal ic f v res \<longleftrightarrow>
     (case fst res of
        Inr w \<Rightarrow> w = v \<and> icount_becomes ok elems ic f (snd res)
      | Inl err \<Rightarrow> err = EXT2_ET_NO_MEMORY \<and> (\<exists>k. \<not> mal k) \<and> icount_becomes ok elems ic (icount_val elems ic) (snd res))"

lemma outcome_done:
  assumes "icount_sees ok elems ic n S M L" "icount_sees ok elems ic' n S' M' L'" "count_in S' M' L' = f"
  shows "icount_outcome ok elems mal ic f v (Inr v, ic')"
  using becomes_sees [OF assms] by (simp add: icount_outcome_def)

lemma outcome_no_memory:
  assumes "icount_sees ok elems ic n S M L" "icount_sees ok elems ic' n S M L" "\<not> mal k"
  shows "icount_outcome ok elems mal ic f v (Inl EXT2_ET_NO_MEMORY, ic')"
  using becomes_sees [OF assms(1,2) refl] icount_val_sees [OF assms(1)] assms(3) by (auto simp: icount_outcome_def)

context inode_sets
begin

abbreviation "sees \<equiv> icount_sees ok elems"
abbreviation "cnt \<equiv> icount_val elems"
abbreviation "becomes \<equiv> icount_becomes ok elems"

lemma single_ok:
  assumes "sees ic n S M L"
  shows "ok n (ic_single ic)"
  using assms by (auto simp: icount_sees_def wf_icount_def)

lemma multiple_ok:
  assumes "sees ic n S (Some T) L"
  shows "ok n (ic_multiple ic)" "elems (ic_multiple ic) = T"
  using assms by (auto simp: icount_sees_def wf_icount_def split: if_splits)

lemma set_single:
  assumes "sees ic n S M L" "ok n g" "elems g = S'"
  shows "sees (ic\<lparr>ic_single := g\<rparr>) n S' M L"
  using assms unfolding icount_sees_def wf_icount_def by force

lemma set_multiple:
  assumes "sees ic n S M L" "ok n g" "elems g = T"
  shows "sees (ic\<lparr>ic_multiple := g\<rparr>) n S (Some T) L"
  using assms not_null [OF assms(2)] unfolding icount_sees_def wf_icount_def by force

lemma test_single_sees:
  assumes s: "sees ic n S M L" and i: "ino \<noteq> 0" "ino \<le> n" and t: "test_single ops ic ino = (r, ic')"
  shows "r = (ino \<in> S) \<and> sees ic' n S M L"
proof -
  obtain r0 g where c: "ext2fs_test_generic_bmap ops (ic_single ic) (ucast ino) = (r0, g)" by fastforce
  have l: "ok n g" "elems g = S" "(r0 \<noteq> 0) = (ino \<in> S)"
    using test_law [OF single_ok [OF s] i c] s by (simp_all add: icount_sees_def)
  have "r = (r0 \<noteq> 0)" "ic' = ic\<lparr>ic_single := g\<rparr>" using t by (simp_all add: test_single_def c)
  with l set_single [OF s l(1,2)] show ?thesis by simp
qed

lemma test_multiple_sees:
  assumes s: "sees ic n S (Some T) L" and i: "ino \<noteq> 0" "ino \<le> n" and t: "test_multiple ops ic ino = (r, ic')"
  shows "r = (ino \<in> T) \<and> sees ic' n S (Some T) L"
proof -
  obtain r0 g where c: "ext2fs_test_generic_bmap ops (ic_multiple ic) (ucast ino) = (r0, g)" by fastforce
  note m = multiple_ok [OF s]
  have l: "ok n g" "elems g = T" "(r0 \<noteq> 0) = (ino \<in> T)"
    using test_law [OF m(1) i c] m(2) by simp_all
  have "r = (r0 \<noteq> 0)" "ic' = ic\<lparr>ic_multiple := g\<rparr>" using t by (simp_all add: test_multiple_def c)
  with l set_multiple [OF s l(1,2)] show ?thesis by simp
qed

lemma mark_single_sees:
  assumes s: "sees ic n S M L" and i: "ino \<noteq> 0" "ino \<le> n"
  shows "sees (mark_single ops ic ino) n (insert ino S) M L"
  unfolding mark_single_def using mark_law [OF single_ok [OF s] i prod.collapse [symmetric]] s
  by (intro set_single [OF s]) (simp_all add: icount_sees_def)

lemma unmark_single_sees:
  assumes s: "sees ic n S M L" and i: "ino \<noteq> 0" "ino \<le> n"
  shows "sees (unmark_single ops ic ino) n (S - {ino}) M L"
  unfolding unmark_single_def using unmark_law [OF single_ok [OF s] i prod.collapse [symmetric]] s
  by (intro set_single [OF s]) (simp_all add: icount_sees_def)

lemma mark_multiple_sees:
  assumes s: "sees ic n S (Some T) L" and i: "ino \<noteq> 0" "ino \<le> n"
  shows "sees (mark_multiple ops ic ino) n S (Some (insert ino T)) L"
  unfolding mark_multiple_def using mark_law [OF multiple_ok(1) [OF s] i prod.collapse [symmetric]] multiple_ok(2) [OF s]
  by (intro set_multiple [OF s]) simp_all

lemma unmark_multiple_sees:
  assumes s: "sees ic n S (Some T) L" and i: "ino \<noteq> 0" "ino \<le> n"
  shows "sees (unmark_multiple ops ic ino) n S (Some (T - {ino})) L"
  unfolding unmark_multiple_def using unmark_law [OF multiple_ok(1) [OF s] i prod.collapse [symmetric]] multiple_ok(2) [OF s]
  by (intro set_multiple [OF s]) simp_all

lemma get_count_sees:
  assumes s: "sees ic n S M L" and i: "ino \<noteq> 0" "ino \<le> n" and g: "get_count e ic ino = ((r, v), ic')"
  shows "v = L ino \<and> sees ic' n S M L"
proof -
  have "list_ok ic" "list_val ic = L" using s by (simp_all add: icount_sees_def wf_icount_def)
  with get_inode_count_spec [OF _ _ g] sees_range [OF s] i
  show ?thesis by (auto intro: sees_same_icount [OF s])
qed

lemma set_count_sees:
  assumes s: "sees ic n S M L" and i: "ino \<noteq> 0" "ino \<le> n" and g: "set_count e ic ino v = (r, ic')"
  shows "case r of None \<Rightarrow> sees ic' n S M (L(ino := v))
    | Some err \<Rightarrow> sees ic' n S M L \<and> L ino = 0 \<and> (\<exists>k. \<not> ie_malloc e k)"
proof -
  have "list_ok ic" "list_val ic = L" using s by (simp_all add: icount_sees_def wf_icount_def)
  with set_inode_count_spec [OF _ _ g] sees_range [OF s] i
  show ?thesis by (auto intro: sees_same_icount [OF s] split: option.splits)
qed

lemma finish_sees:
  assumes s: "sees ic n S M L" and i: "ino \<noteq> 0" "ino \<le> n"
  shows "sees (if ic_multiple ic \<noteq> None then mark_multiple ops ic ino else ic) n S (map_option (insert ino) M) L"
  using s sees_multiple [OF s] mark_multiple_sees [OF _ i, of ic S _ L] by (cases M) auto

lemma leave_sees:
  assumes s: "sees ic n S M L" and i: "ino \<noteq> 0" "ino \<le> n"
  shows "sees (if ic_multiple ic \<noteq> None then unmark_multiple ops ic ino else ic) n S (map_option (\<lambda>T. T - {ino}) M) L"
  using s sees_multiple [OF s] unmark_multiple_sees [OF _ i, of ic S _ L] by (cases M) auto

lemma fetch_sees:
  assumes s: "sees ic n S M L" and i: "ino \<noteq> 0" "ino \<le> n" and e: "ie_ops e = ops"
    and f: "ext2fs_icount_fetch e ic ino = (r, ic')"
  shows "r = Inr (icount_16_xlate (count_in S M L ino)) \<and> sees ic' n S M L"
proof -
  have xl: "icount_16_xlate 1 = 1" "icount_16_xlate 0 = 0" by (simp_all add: icount_16_xlate_def)
  obtain b ic1 where t: "test_single ops ic ino = (b, ic1)" by fastforce
  from test_single_sees [OF s i t] have b: "b = (ino \<in> S)" and s1: "sees ic1 n S M L" by auto
  obtain v1 r1 ic2 where g: "get_count e ic1 ino = ((r1, v1), ic2)" by (metis surj_pair)
  note g1 = get_count_sees [OF s1 i g]
  note D = f [unfolded ext2fs_icount_fetch_def sees_fullmap [OF s] sees_range [OF s] e t Let_def]
  show ?thesis
  proof (cases "ino \<in> S")
    case True
    with D i b s1 xl show ?thesis by (simp add: count_in_def)
  next
    case False
    show ?thesis
    proof (cases M)
      case None
      with D i b False sees_multiple [OF s1] g g1 show ?thesis by (simp add: count_in_def)
    next
      case (Some T)
      obtain c ic3 where t2: "test_multiple ops ic1 ino = (c, ic3)" by fastforce
      from test_multiple_sees [OF s1 [unfolded Some] i t2] have c: "c = (ino \<in> T)" and s3: "sees ic3 n S (Some T) L" by auto
      obtain v3 r3 ic4 where g3: "get_count e ic3 ino = ((r3, v3), ic4)" by (metis surj_pair)
      note g4 = get_count_sees [OF s3 i g3]
      show ?thesis
      proof (cases "ino \<in> T")
        case True
        with D i b False Some sees_multiple [OF s1] t2 c g3 g4 show ?thesis by (simp add: count_in_def)
      next
        case out: False
        with D i b False Some sees_multiple [OF s1] t2 c s3 xl show ?thesis by (simp add: count_in_def)
      qed
    qed
  qed
qed

lemma bump_outcome:
  assumes s0: "sees ic0 n S M L" and s: "sees ic n S M L" and i: "ino \<noteq> 0" "ino \<le> n" and e: "ie_ops e = ops"
    and out: "ino \<notin> S" "case M of Some T \<Rightarrow> ino \<in> T | None \<Rightarrow> True"
  shows "icount_outcome ok elems (ie_malloc e) ic0 ((count_in S M L)(ino := count_in S M L ino + 1))
      (icount_16_xlate (count_in S M L ino + 1))
      (case get_count e ic ino of
         ((_, v), ic) \<Rightarrow> (case set_count e ic ino (v + 1) of
             (Some err, ic) \<Rightarrow> (Inl EXT2_ET_NO_MEMORY, ic)
           | (None, ic) \<Rightarrow> (Inr (icount_16_xlate (v + 1)), if ic_multiple ic \<noteq> None then mark_multiple ops ic ino else ic)))"
proof -
  obtain v r ic1 where g: "get_count e ic ino = ((r, v), ic1)" by (metis surj_pair)
  note g1 = get_count_sees [OF s i g]
  obtain r2 ic2 where t: "set_count e ic1 ino (v + 1) = (r2, ic2)" by fastforce
  from set_count_sees [OF _ i t] g1
  have t2: "case r2 of None \<Rightarrow> sees ic2 n S M (L(ino := v + 1)) | Some err \<Rightarrow> sees ic2 n S M L \<and> L ino = 0 \<and> (\<exists>k. \<not> ie_malloc e k)"
    by blast
  have c: "count_in S M L ino = v" using out g1 by (cases M) (simp_all add: count_in_def)
  show ?thesis
  proof (cases r2)
    case None
    with t2 have s2: "sees ic2 n S M (L(ino := v + 1))" by simp
    have "count_in S (map_option (insert ino) M) (L(ino := v + 1)) = (count_in S M L)(ino := v + 1)"
      using out by (cases M) (auto simp: count_in_def fun_eq_iff)
    from outcome_done [OF s0 finish_sees [OF s2 i] this] None show ?thesis by (simp add: g t c del: not_None_eq split del: if_split cong: if_cong)
  next
    case (Some err)
    with t2 obtain k where "sees ic2 n S M L" "\<not> ie_malloc e k" by auto
    from outcome_no_memory [where mal = "ie_malloc e", OF s0 this] Some show ?thesis by (simp add: g t)
  qed
qed

lemma increment_outcome:
  assumes s: "sees ic n S M L" and i: "ino \<noteq> 0" "ino \<le> n" and e: "ie_ops e = ops"
  shows "icount_outcome ok elems (ie_malloc e) ic ((count_in S M L)(ino := count_in S M L ino + 1))
      (icount_16_xlate (count_in S M L ino + 1)) (ext2fs_icount_increment e ic ino)"
proof -
  have xl: "icount_16_xlate 1 = 1" by (simp add: icount_16_xlate_def)
  obtain b ic1 where t: "test_single ops ic ino = (b, ic1)" by fastforce
  from test_single_sees [OF s i t] have b: "b = (ino \<in> S)" and s1: "sees ic1 n S M L" by auto
  note D = ext2fs_icount_increment_def [of e ic ino, unfolded e sees_fullmap [OF s] sees_range [OF s] Let_def] t i
  show ?thesis
  proof (cases "ino \<in> S")
    case True
    obtain r2 ic2 where t2: "set_count e ic1 ino 2 = (r2, ic2)" by fastforce
    note q = set_count_sees [OF s1 i t2]
    show ?thesis
    proof (cases r2)
      case None
      with q have s2: "sees ic2 n S M (L(ino := 2))" by simp
      have "count_in (S - {ino}) (map_option (insert ino) M) (L(ino := 2)) = (count_in S M L)(ino := count_in S M L ino + 1)"
        using True by (cases M) (auto simp: count_in_def fun_eq_iff)
      from outcome_done [OF s finish_sees [OF unmark_single_sees [OF s2 i] i] this, of "ie_malloc e" "icount_16_xlate 2"] None True b
      show ?thesis by (simp add: D t2 count_in_def del: not_None_eq split del: if_split cong: if_cong)
    next
      case (Some err)
      with q obtain k where "sees ic2 n S M L" "\<not> ie_malloc e k" by auto
      from outcome_no_memory [where mal = "ie_malloc e", OF s this] Some True b show ?thesis by (simp add: D t2)
    qed
  next
    case False
    show ?thesis
    proof (cases M)
      case None
      with bump_outcome [OF s s1 i e False] False b sees_multiple [OF s1] show ?thesis
        by (simp add: D del: not_None_eq)
    next
      case (Some T)
      obtain c ic3 where t2: "test_multiple ops ic1 ino = (c, ic3)" by fastforce
      from test_multiple_sees [OF s1 [unfolded Some] i t2] have c: "c = (ino \<in> T)" and s3: "sees ic3 n S (Some T) L" by auto
      show ?thesis
      proof (cases "ino \<in> T")
        case True
        with bump_outcome [OF s [unfolded Some] s3 i e False] False b c Some sees_multiple [OF s1] show ?thesis
          by (simp add: D t2 del: not_None_eq)
      next
        case out: False
        have "count_in (insert ino S) (Some T) L = (count_in S M L)(ino := count_in S M L ino + 1)"
          using False out Some by (auto simp: count_in_def fun_eq_iff)
        from outcome_done [OF s mark_single_sees [OF s3 i] this, of "ie_malloc e" 1] False out b c Some sees_multiple [OF s1] xl
        show ?thesis by (simp add: D t2 count_in_def del: not_None_eq)
      qed
    qed
  qed
qed

lemma decrement_step:
  assumes s0: "sees ic0 n S M L" and s: "sees ic n S M L" and i: "ino \<noteq> 0" "ino \<le> n" and e: "ie_ops e = ops"
    and out: "ino \<notin> S" "case M of Some T \<Rightarrow> ino \<in> T | None \<Rightarrow> True" and pos: "count_in S M L ino \<noteq> 0"
    and g: "get_count e ic ino = ((r, v), ic1)" and t: "set_count e ic1 ino (v - 1) = (r2, ic2)"
  shows "v = count_in S M L ino \<and> r2 = None
    \<and> becomes ic0 ((count_in S M L)(ino := v - 1))
        (let ic = (if v - 1 = 1 then mark_single ops ic2 ino else ic2)
         in if v - 1 = 0 \<and> ic_multiple ic \<noteq> None then unmark_multiple ops ic ino else ic)"
proof -
  note g1 = get_count_sees [OF s i g]
  have c: "count_in S M L ino = v" using out g1 by (cases M) (simp_all add: count_in_def)
  note t1 = set_count_sees [OF conjunct2 [OF g1] i t]
  have ok2: "r2 = None" using t1 pos c g1 by (cases r2) auto
  with t1 have s2: "sees ic2 n S M (L(ino := v - 1))" by simp
  consider (one) "v - 1 = 1" | (zero) "v - 1 = 0" | (more) "v - 1 \<noteq> 1" "v - 1 \<noteq> 0" by blast
  then have "becomes ic0 ((count_in S M L)(ino := v - 1))
        (let ic = (if v - 1 = 1 then mark_single ops ic2 ino else ic2)
         in if v - 1 = 0 \<and> ic_multiple ic \<noteq> None then unmark_multiple ops ic ino else ic)"
  proof cases
    case one
    have "count_in (insert ino S) M (L(ino := 1)) = (count_in S M L)(ino := 1)"
      using out by (cases M) (auto simp: count_in_def fun_eq_iff)
    from becomes_sees [OF s0 mark_single_sees [OF s2 [unfolded one] i] this] show ?thesis by (simp add: one)
  next
    case zero
    have "count_in S (map_option (\<lambda>T. T - {ino}) M) (L(ino := 0)) = (count_in S M L)(ino := 0)"
      using out by (cases M) (auto simp: count_in_def fun_eq_iff)
    from becomes_sees [OF s0 leave_sees [OF s2 [unfolded zero] i] this]
    show ?thesis by (simp add: zero del: not_None_eq split del: if_split cong: if_cong)
  next
    case more
    have "count_in S M (L(ino := v - 1)) = (count_in S M L)(ino := v - 1)"
      using out by (cases M) (auto simp: count_in_def fun_eq_iff)
    from becomes_sees [OF s0 s2 this] more show ?thesis by simp
  qed
  with c ok2 show ?thesis by blast
qed

text \<open>Decrementing never fails for lack of memory.\<close>

lemma decrement_sees:
  assumes s: "sees ic n S M L" and i: "ino \<noteq> 0" "ino \<le> n" and e: "ie_ops e = ops"
    and d: "ext2fs_icount_decrement e ic ino = (r, ic')"
  shows "if count_in S M L ino = 0 then r = Inl EXT2_ET_INVALID_ARGUMENT \<and> becomes ic (count_in S M L) ic'
    else r = Inr (icount_16_xlate (count_in S M L ino - 1))
      \<and> becomes ic ((count_in S M L)(ino := count_in S M L ino - 1)) ic'"
proof -
  let ?c = "count_in S M L"
  have xl: "icount_16_xlate 0 = 0" by (simp add: icount_16_xlate_def)
  obtain b ic1 where t: "test_single ops ic ino = (b, ic1)" by fastforce
  from test_single_sees [OF s i t] have b: "b = (ino \<in> S)" and s1: "sees ic1 n S M L" by auto
  define slow where "slow = (\<lambda>ic. case get_count e ic ino of
         ((_, v), ic) \<Rightarrow>
            if v = 0 then (Inl EXT2_ET_INVALID_ARGUMENT, ic)
            else (case set_count e ic ino (v - 1) of
                    (Some err, ic) \<Rightarrow> (Inl EXT2_ET_NO_MEMORY, ic)
                  | (None, ic) \<Rightarrow>
                      let ic = (if v - 1 = 1 then mark_single ops ic ino else ic);
                          ic = (if v - 1 = 0 \<and> ic_multiple ic \<noteq> None then unmark_multiple ops ic ino else ic)
                      in (Inr (icount_16_xlate (v - 1)), ic)))"
  have D: "ext2fs_icount_decrement e ic ino =
      (if b then (Inr 0, let ic = unmark_single ops ic1 ino
            in if ic_multiple ic \<noteq> None then unmark_multiple ops ic ino else snd (set_count e ic ino 0))
       else if ic_multiple ic1 \<noteq> None
       then (case test_multiple ops ic1 ino of (False, ic) \<Rightarrow> (Inl EXT2_ET_INVALID_ARGUMENT, ic) | (True, ic) \<Rightarrow> slow ic)
       else slow ic1)"
    unfolding ext2fs_icount_decrement_def slow_def e t sees_range [OF s] sees_fullmap [OF s]
    using i by (cases b) (simp_all add: Let_def del: not_None_eq split del: if_split cong: if_cong)
  have slow: "if ?c ino = 0 then r = Inl EXT2_ET_INVALID_ARGUMENT \<and> becomes ic ?c ic'
      else r = Inr (icount_16_xlate (?c ino - 1)) \<and> becomes ic (?c(ino := ?c ino - 1)) ic'"
    if s2: "sees ic2 n S M L" and out: "ino \<notin> S" "case M of Some T \<Rightarrow> ino \<in> T | None \<Rightarrow> True" and sl: "slow ic2 = (r, ic')" for ic2
  proof -
    obtain v r3 ic3 where g: "get_count e ic2 ino = ((r3, v), ic3)" by (metis surj_pair)
    note g1 = get_count_sees [OF s2 i g]
    have c: "?c ino = v" using out g1 by (cases M) (simp_all add: count_in_def)
    obtain r4 ic4 where st: "set_count e ic3 ino (v - 1) = (r4, ic4)" by fastforce
    show ?thesis
    proof (cases "v = 0")
      case True
      with sl g c becomes_sees [OF s conjunct2 [OF g1] refl] show ?thesis by (simp add: slow_def)
    next
      case False
      with decrement_step [OF s s2 i e out _ g st] c sl show ?thesis
        by (auto simp: slow_def g st Let_def split del: if_split)
    qed
  qed
  show ?thesis
  proof (cases "ino \<in> S")
    case True
    have u: "sees (unmark_single ops ic1 ino) n (S - {ino}) M L" by (rule unmark_single_sees [OF s1 i])
    have "becomes ic (?c(ino := 0)) (let ic = unmark_single ops ic1 ino
            in if ic_multiple ic \<noteq> None then unmark_multiple ops ic ino else snd (set_count e ic ino 0))"
    proof (cases M)
      case None
      obtain r2 ic2 where st: "set_count e (unmark_single ops ic1 ino) ino 0 = (r2, ic2)" by fastforce
      have "sees ic2 n (S - {ino}) M (L(ino := 0))"
        using set_count_sees [OF u i st] by (cases r2) (auto simp: fun_upd_idem)
      moreover have "count_in (S - {ino}) M (L(ino := 0)) = ?c(ino := 0)"
        using None by (auto simp: count_in_def fun_eq_iff)
      ultimately show ?thesis using becomes_sees [OF s] sees_multiple [OF u] None st by (simp add: Let_def)
    next
      case (Some T)
      have "count_in (S - {ino}) (Some (T - {ino})) L = ?c(ino := 0)"
        using Some by (auto simp: count_in_def fun_eq_iff)
      with becomes_sees [OF s unmark_multiple_sees [OF u [unfolded Some] i]] sees_multiple [OF u] Some
      show ?thesis by (simp add: Let_def del: not_None_eq)
    qed
    with True b d D xl show ?thesis by (auto simp: count_in_def)
  next
    case False
    show ?thesis
    proof (cases M)
      case None
      with slow [OF s1 False] False b d D sees_multiple [OF s1] show ?thesis by (simp split del: if_split)
    next
      case (Some T)
      obtain c ic3 where t2: "test_multiple ops ic1 ino = (c, ic3)" by fastforce
      from test_multiple_sees [OF s1 [unfolded Some] i t2] have c: "c = (ino \<in> T)" and s3: "sees ic3 n S M L"
        unfolding Some by auto
      show ?thesis
      proof (cases "ino \<in> T")
        case True
        with slow [OF s3 False] False b c d D Some sees_multiple [OF s1] t2 show ?thesis by (simp split del: if_split)
      next
        case out: False
        with becomes_sees [OF s s3 refl] False b c d D Some sees_multiple [OF s1] t2 show ?thesis by (simp add: count_in_def)
      qed
    qed
  qed
qed

lemma store_outcome:
  assumes s: "sees ic n S M L" and i: "ino \<noteq> 0" "ino \<le> n" and e: "ie_ops e = ops"
  shows "icount_outcome ok elems (ie_malloc e) ic ((count_in S M L)(ino := ucast v)) ()
      (case ext2fs_icount_store e ic ino v of (None, ic) \<Rightarrow> (Inr (), ic) | (Some err, ic) \<Rightarrow> (Inl err, ic))"
proof -
  let ?c = "count_in S M L"
  note D = ext2fs_icount_store_def [of e ic ino, unfolded e sees_fullmap [OF s] sees_range [OF s] Let_def] i
  consider (one) "v = 1" | (zero) "v = 0" | (more) "v \<noteq> 1" "v \<noteq> 0" by blast
  then show ?thesis
  proof cases
    case one
    have "count_in (insert ino S) (map_option (\<lambda>T. T - {ino}) M) L = ?c(ino := ucast v)"
      using one by (cases M) (auto simp: count_in_def fun_eq_iff)
    from outcome_done [OF s leave_sees [OF mark_single_sees [OF s i] i] this, of "ie_malloc e" "()"] one
    show ?thesis by (simp add: D del: not_None_eq split del: if_split cong: if_cong)
  next
    case zero
    have u: "sees (unmark_single ops ic ino) n (S - {ino}) M L" by (rule unmark_single_sees [OF s i])
    show ?thesis
    proof (cases M)
      case None
      obtain r2 ic2 where st: "set_count e (unmark_single ops ic ino) ino 0 = (r2, ic2)" by fastforce
      have "sees ic2 n (S - {ino}) M (L(ino := 0))"
        using set_count_sees [OF u i st] by (cases r2) (auto simp: fun_upd_idem)
      from outcome_done [OF s this, of "?c(ino := ucast v)" "ie_malloc e" "()"] sees_multiple [OF u] None st zero
      show ?thesis by (auto simp: D count_in_def fun_eq_iff)
    next
      case (Some T)
      have "count_in (S - {ino}) (Some (T - {ino})) L = ?c(ino := ucast v)"
        using Some zero by (auto simp: count_in_def fun_eq_iff)
      from outcome_done [OF s unmark_multiple_sees [OF u [unfolded Some] i] this, of "ie_malloc e" "()"] sees_multiple [OF u] Some zero
      show ?thesis by (simp add: D del: not_None_eq)
    qed
  next
    case more
    obtain r2 ic2 where st: "set_count e ic ino (ucast v) = (r2, ic2)" by fastforce
    note q = set_count_sees [OF s i st]
    show ?thesis
    proof (cases r2)
      case None
      with q have s2: "sees ic2 n S M (L(ino := ucast v))" by simp
      have "count_in (S - {ino}) (map_option (insert ino) M) (L(ino := ucast v)) = ?c(ino := ucast v)"
        by (cases M) (auto simp: count_in_def fun_eq_iff)
      from outcome_done [OF s finish_sees [OF unmark_single_sees [OF s2 i] i] this, of "ie_malloc e" "()"] more None
      show ?thesis by (simp add: D st del: not_None_eq split del: if_split cong: if_cong)
    next
      case (Some err)
      with q obtain k where "sees ic2 n S M L" "\<not> ie_malloc e k" by auto
      from outcome_no_memory [where mal = "ie_malloc e", OF s this] more Some show ?thesis by (simp add: D st)
    qed
  qed
qed

end

end
