(* ===== verification/Icount_Map.thy ===== *)
theory Icount_Map
  imports Icount_Props
begin

text \<open>
  The inode counts on the two back ends of the bitmaps: every back end provides the sets of inodes
  (\<open>inode_sets\<close>), any sequence of operations behaves as on a total function from inodes to counts, and a
  new structure is the function that is 0 everywhere.
\<close>

section \<open>Bitmaps of inodes\<close>

text \<open>A bitmap of the inodes 1 to \<open>n\<close>, as \<open>ext2fs_allocate_inode_bitmap\<close> makes it, and its inodes.\<close>

definition ino_bmap :: "('p bmap64 \<Rightarrow> bool) \<Rightarrow> u32 \<Rightarrow> 'p gbmap option \<Rightarrow> bool" where
  "ino_bmap good n g \<longleftrightarrow>
     (\<exists>b. g = Some (GB64 b) \<and> bmap_ready good b \<and> bm_cluster_bits b = 0 \<and> bm_start b = 1 \<and> bm_end b = ucast n)"

definition ino_set :: "('p bmap64 \<Rightarrow> u64 set) \<Rightarrow> 'p gbmap option \<Rightarrow> u32 set" where
  "ino_set bits g = (case g of Some (GB64 b) \<Rightarrow> {i. ucast i \<in> block_set bits b} | _ \<Rightarrow> {})"

lemma unat_ucast_inode: "unat (ucast (i :: u32) :: u64) = unat i"
proof -
  have "unat i < 2 ^ LENGTH(32)" by (rule unsigned_less)
  then have "unat i < 2 ^ 64" by simp
  then show ?thesis by (simp add: unsigned_ucast_eq take_bit_nat_eq_self)
qed

lemma ucast_inode: "(ucast (i :: u32) :: u64) = ucast j \<longleftrightarrow> i = j"
  by (metis unat_ucast_inode word_unat_eq_iff)

lemma inode_inside:
  assumes "ino \<noteq> (0 :: u32)" "ino \<le> n" "bm_cluster_bits b = 0" "bm_start b = 1" "bm_end b = ucast n"
  shows "\<not> outside64 b (cluster_no b (ucast ino))" "cluster_mates b (ucast ino) = {ucast ino}"
proof -
  have "(1 :: u64) \<le> ucast ino" "(ucast ino :: u64) \<le> ucast n"
    using assms(1,2) by (simp_all add: word_le_nat_alt unat_ucast_inode Suc_le_eq unat_gt_0)
  then have "\<not> outside64 b (ucast ino)" using assms(4,5) by (simp only: outside64_def not_less de_Morgan_disj simp_thms)
  then show "\<not> outside64 b (cluster_no b (ucast ino))" using assms(3) by (simp add: cluster_no_def)
  show "cluster_mates b (ucast ino) = {ucast ino}" using assms(3) by (auto simp: cluster_mates_def cluster_no_def)
qed

lemma ino_bmap_is:
  assumes "bmap_is good bits b S g" "bmap_ready good b" "bm_cluster_bits b = 0" "bm_start b = 1" "bm_end b = ucast n"
  shows "ino_bmap good n g \<and> ino_set bits g = {i. ucast i \<in> S}"
  using assms by (auto simp: bmap_is_def ino_bmap_def ino_set_def bmap_ready_def header_eqs)

sublocale generic_backend \<subseteq> inode_sets ops "ino_bmap wf" "ino_set bits"
proof
  fix n g
  assume "ino_bmap wf n g"
  then show "g \<noteq> None" by (auto simp: ino_bmap_def)
next
  fix n g g' r and ino :: u32
  assume g: "ino_bmap wf n g" and i: "ino \<noteq> 0" "ino \<le> n"
  then obtain b where b: "g = Some (GB64 b)" "bmap_ready wf b" "bm_cluster_bits b = 0" "bm_start b = 1" "bm_end b = ucast n"
    by (auto simp: ino_bmap_def)
  note m = bit_operations [OF b(2) inode_inside(1) [OF i b(3-5)], unfolded inode_inside(2) [OF i b(3-5)], folded b(1)]
  note mk = ino_bmap_is [OF _ b(2-5)]
  have S: "ino_set bits g = {i. ucast i \<in> block_set bits b}" by (simp add: b(1) ino_set_def)
  show "ino_bmap wf n g' \<and> ino_set bits g' = insert ino (ino_set bits g)"
    if "ext2fs_mark_generic_bmap ops g (ucast ino) = (r, g')"
    using mk [of bits "block_set bits b \<union> {ucast ino}" g'] m that S by (auto simp: ucast_inode)
  show "ino_bmap wf n g' \<and> ino_set bits g' = ino_set bits g - {ino}"
    if "ext2fs_unmark_generic_bmap ops g (ucast ino) = (r, g')"
    using mk [of bits "block_set bits b - {ucast ino}" g'] m that S by (auto simp: ucast_inode)
  show "ino_bmap wf n g' \<and> ino_set bits g' = ino_set bits g \<and> (r \<noteq> 0 \<longleftrightarrow> ino \<in> ino_set bits g)"
    if "ext2fs_test_generic_bmap ops g (ucast ino) = (r, g')"
    using mk [of bits "block_set bits b" g'] m that S by auto
qed

section \<open>Sequences of operations\<close>

datatype icount_op = Fetch u32 | Increment u32 | Decrement u32 | Store u32 u16

fun icount_step :: "'p icount_env \<Rightarrow> icount_op \<Rightarrow> 'p icount \<Rightarrow> (errcode + u16) \<times> 'p icount" where
  "icount_step e (Fetch ino) ic = ext2fs_icount_fetch e ic ino"
| "icount_step e (Increment ino) ic = ext2fs_icount_increment e ic ino"
| "icount_step e (Decrement ino) ic = ext2fs_icount_decrement e ic ino"
| "icount_step e (Store ino v) ic =
     (case ext2fs_icount_store e ic ino v of (None, ic) \<Rightarrow> (Inr v, ic) | (Some err, ic) \<Rightarrow> (Inl err, ic))"

fun icount_run :: "'p icount_env \<Rightarrow> icount_op list \<Rightarrow> 'p icount \<Rightarrow> (errcode + u16) list \<times> 'p icount" where
  "icount_run e [] ic = ([], ic)"
| "icount_run e (x # xs) ic =
     (case icount_step e x ic of (r, ic) \<Rightarrow> (case icount_run e xs ic of (rs, ic) \<Rightarrow> (r # rs, ic)))"

text \<open>The same operations on a function from inodes to counts, for a file system with \<open>n\<close> inodes.\<close>

fun count_step :: "u32 \<Rightarrow> icount_op \<Rightarrow> (u32 \<Rightarrow> u32) \<Rightarrow> (errcode + u16) \<times> (u32 \<Rightarrow> u32)" where
  "count_step n (Fetch i) f =
     (if i \<noteq> 0 \<and> i \<le> n then (Inr (icount_16_xlate (f i)), f) else (Inl EXT2_ET_INVALID_ARGUMENT, f))"
| "count_step n (Increment i) f =
     (if i \<noteq> 0 \<and> i \<le> n then (Inr (icount_16_xlate (f i + 1)), f(i := f i + 1)) else (Inl EXT2_ET_INVALID_ARGUMENT, f))"
| "count_step n (Decrement i) f =
     (if i \<noteq> 0 \<and> i \<le> n \<and> f i \<noteq> 0 then (Inr (icount_16_xlate (f i - 1)), f(i := f i - 1))
      else (Inl EXT2_ET_INVALID_ARGUMENT, f))"
| "count_step n (Store i v) f =
     (if i \<noteq> 0 \<and> i \<le> n then (Inr v, f(i := ucast v)) else (Inl EXT2_ET_INVALID_ARGUMENT, f))"

text \<open>The operations that need memory, and the results that a sequence may have if \<open>scarce\<close>.\<close>

fun needs_memory :: "icount_op \<Rightarrow> bool" where
  "needs_memory (Increment i) = True"
| "needs_memory (Store i v) = True"
| "needs_memory _ = False"

fun count_runs :: "u32 \<Rightarrow> bool \<Rightarrow> icount_op list \<Rightarrow> (u32 \<Rightarrow> u32) \<Rightarrow> (errcode + u16) list \<Rightarrow> (u32 \<Rightarrow> u32) \<Rightarrow> bool" where
  "count_runs n scarce [] f rs f' \<longleftrightarrow> rs = [] \<and> f' = f"
| "count_runs n scarce (x # xs) f [] f' \<longleftrightarrow> False"
| "count_runs n scarce (x # xs) f (r # rs) f' \<longleftrightarrow>
     r = fst (count_step n x f) \<and> count_runs n scarce xs (snd (count_step n x f)) rs f'
     \<or> scarce \<and> needs_memory x \<and> r = Inl EXT2_ET_NO_MEMORY \<and> count_runs n scarce xs f rs f'"

text \<open>How the creation fails, and when it makes the full array.\<close>

lemma create_error:
  assumes "ext2fs_create_icount2 mal al num_dirs n flags size0 hint = Inl err"
  shows "err = EXT2_ET_NO_MEMORY \<or> (\<exists>b. al b = Inl err) \<or> num_dirs = Inl err"
proof (cases "alloc_icount mal al n flags")
  case (Inl e)
  with assms have "alloc_icount mal al n flags = Inl err" by (simp add: ext2fs_create_icount2_def)
  then show ?thesis unfolding alloc_icount_def Let_def by (auto split: if_splits sum.splits)
next
  case (Inr ic)
  define sz where "sz = (case hint of Some h \<Rightarrow> if ic_size h > size0 then ic_size h else size0 | None \<Rightarrow> size0)"
  show ?thesis
    using assms Inr unfolding ext2fs_create_icount2_def Let_def sz_def [symmetric]
    by (cases "sz \<noteq> 0"; cases num_dirs; cases hint) (auto split: if_splits)
qed

lemma create_no_fullmap:
  assumes "ext2fs_create_icount2 mal al num_dirs n flags size0 hint = Inr ic"
    and "\<not> (flags AND EXT2_ICOUNT_OPT_FULLMAP \<noteq> 0 \<and> flags AND EXT2_ICOUNT_OPT_INCREMENT \<noteq> 0)"
  shows "ic_fullmap ic = None"
proof (cases "alloc_icount mal al n flags")
  case (Inl e)
  with assms show ?thesis by (simp add: ext2fs_create_icount2_def)
next
  case (Inr ic0)
  then have z: "ic_fullmap ic0 = None" using assms(2) unfolding alloc_icount_def Let_def by (auto split: if_splits sum.splits)
  define sz where "sz = (case hint of Some h \<Rightarrow> if ic_size h > size0 then ic_size h else size0 | None \<Rightarrow> size0)"
  show ?thesis
    using assms(1) Inr z unfolding ext2fs_create_icount2_def Let_def sz_def [symmetric]
    by (cases "sz \<noteq> 0"; cases num_dirs; cases hint) (auto split: if_splits)
qed

context inode_sets
begin

lemma wf_sees: "wf_icount ok ic \<Longrightarrow> sees ic (ic_num_inodes ic) (elems (ic_single ic))
    (if ic_multiple ic = None then None else Some (elems (ic_multiple ic))) (list_val ic)"
  by (simp add: icount_sees_def)

lemma becomes_same: "wf_icount ok ic \<Longrightarrow> becomes ic (cnt ic) ic"
  by (simp add: icount_becomes_def)

lemma step_law:
  assumes wf: "wf_icount ok ic" and e: "ie_ops e = ops" and st: "icount_step e x ic = (r, ic')"
  shows "r = fst (count_step (ic_num_inodes ic) x (cnt ic)) \<and> becomes ic (snd (count_step (ic_num_inodes ic) x (cnt ic))) ic'
    \<or> (\<exists>k. \<not> ie_malloc e k) \<and> needs_memory x \<and> r = Inl EXT2_ET_NO_MEMORY \<and> becomes ic (cnt ic) ic'"
proof -
  note s = wf_sees [OF wf]
  note c = icount_val_sees [OF s, symmetric]
  show ?thesis
  proof (cases x)
    case (Fetch i)
    show ?thesis
    proof (cases "i \<noteq> 0 \<and> i \<le> ic_num_inodes ic")
      case True
      with fetch_sees [OF s _ _ e, of i r ic'] becomes_sees [OF s, of ic' _ _ _ "cnt ic", OF _ c] st Fetch show ?thesis by (simp add: c)
    next
      case False
      with st Fetch becomes_same [OF wf] show ?thesis by (auto simp: ext2fs_icount_fetch_def ino_in_range_def)
    qed
  next
    case (Increment i)
    show ?thesis
    proof (cases "i \<noteq> 0 \<and> i \<le> ic_num_inodes ic")
      case True
      with increment_outcome [OF s _ _ e, of i, unfolded c] st Increment show ?thesis
        by (auto simp: icount_outcome_def split: sum.splits)
    next
      case False
      with st Increment becomes_same [OF wf] show ?thesis by (auto simp: ext2fs_icount_increment_def ino_in_range_def)
    qed
  next
    case (Decrement i)
    show ?thesis
    proof (cases "i \<noteq> 0 \<and> i \<le> ic_num_inodes ic")
      case True
      with decrement_sees [OF s _ _ e, of i r ic', unfolded c] st Decrement show ?thesis by (auto split: if_splits)
    next
      case False
      with st Decrement becomes_same [OF wf] show ?thesis by (auto simp: ext2fs_icount_decrement_def ino_in_range_def)
    qed
  next
    case (Store i v)
    obtain r0 ic0 where t: "ext2fs_icount_store e ic i v = (r0, ic0)" by fastforce
    show ?thesis
    proof (cases "i \<noteq> 0 \<and> i \<le> ic_num_inodes ic")
      case True
      with store_outcome [OF s _ _ e, of i v, unfolded c] st Store t show ?thesis
        by (cases r0) (auto simp: icount_outcome_def)
    next
      case False
      with st Store becomes_same [OF wf] show ?thesis by (auto simp: ext2fs_icount_store_def ino_in_range_def)
    qed
  qed
qed

lemma validate_wf:
  assumes "wf_icount ok ic"
  shows "ext2fs_icount_validate ic = None"
proof -
  have ok: "list_ok ic" and le: "ic_count ic \<le> ic_size ic" using assms by (auto simp: wf_icount_def list_ok_def)
  have "\<not> el_ino (the (ic_list ic) ! i) \<le> el_ino (the (ic_list ic) ! (i - 1))" if "i \<in> set [1..<unat (ic_count ic)]" for i
    using el_ino_mono [OF ok, of "i - 1" i] that by (auto simp: not_le)
  with le show ?thesis by (auto simp: ext2fs_icount_validate_def)
qed

lemma run_law:
  assumes "wf_icount ok ic" "ie_ops e = ops"
  shows "case icount_run e xs ic of (rs, ic') \<Rightarrow> wf_icount ok ic' \<and> ext2fs_icount_validate ic' = None
    \<and> count_runs (ic_num_inodes ic) (\<exists>k. \<not> ie_malloc e k) xs (cnt ic) rs (cnt ic')"
  using assms
proof (induction xs arbitrary: ic)
  case Nil
  then show ?case by (simp add: validate_wf)
next
  case (Cons x xs)
  obtain r ic1 where st: "icount_step e x ic = (r, ic1)" by fastforce
  obtain rs ic2 where run: "icount_run e xs ic1 = (rs, ic2)" by fastforce
  note l = step_law [OF Cons.prems st]
  then have n: "wf_icount ok ic1" "ic_num_inodes ic1 = ic_num_inodes ic" by (auto simp: icount_becomes_def)
  from Cons.IH [OF n(1) Cons.prems(2)] run n
  have "wf_icount ok ic2" "ext2fs_icount_validate ic2 = None"
    "count_runs (ic_num_inodes ic) (\<exists>k. \<not> ie_malloc e k) xs (cnt ic1) rs (cnt ic2)" by auto
  with l show ?case by (auto simp: st run icount_becomes_def)
qed

text \<open>A new structure has the count 0 everywhere, also one that takes over the inodes of a hint.\<close>

lemma create_law:
  assumes al: "\<And>b g. al b = Inr g \<Longrightarrow> ok n (Some g) \<and> elems (Some g) = {}" and n: "unat n < 2 ^ 31"
    and hint: "case hint of None \<Rightarrow> True | Some h \<Rightarrow> wf_icount ok h \<and> ic_num_inodes h \<le> n"
    and cr: "ext2fs_create_icount2 mal al num_dirs n flags size0 hint = Inr ic" and nofull: "ic_fullmap ic = None"
  shows "wf_icount ok ic \<and> cnt ic = (\<lambda>_. 0) \<and> ic_num_inodes ic = n"
proof -
  define sz where "sz = (case hint of Some h \<Rightarrow> if ic_size h > size0 then ic_size h else size0 | None \<Rightarrow> size0)"
  obtain ic0 where a: "alloc_icount mal al n flags = Inr ic0"
    using cr by (auto simp: ext2fs_create_icount2_def Let_def split: sum.splits)
  have full: "ic_fullmap ic0 = None"
    using cr a nofull by (auto simp: ext2fs_create_icount2_def Let_def split: if_splits)
  have ic0: "ok n (ic_single ic0)" "elems (ic_single ic0) = {}" "ic_multiple ic0 = None \<or> ok n (ic_multiple ic0) \<and> elems (ic_multiple ic0) = {}"
    "ic_num_inodes ic0 = n" "ic_last_lookup ic0 = None" "ic_count ic0 = 0"
    using a full by (auto simp: alloc_icount_def Let_def dest: al split: if_splits sum.splits)
  obtain s where s: "(if sz \<noteq> 0 then Inr sz else map_sum id (\<lambda>k. k + n div 50) num_dirs) = Inr s"
    using cr a full unfolding ext2fs_create_icount2_def Let_def sz_def [symmetric]
    by (cases "if sz \<noteq> 0 then Inr sz else map_sum id (\<lambda>k. k + n div 50) num_dirs") simp_all
  define zeros where "zeros = replicate (unat s) \<lparr>el_ino = 0, el_count = 0\<rparr>"
  define old where "old = (case hint of None \<Rightarrow> []
      | Some h \<Rightarrow> map (\<lambda>e. \<lparr>el_ino = el_ino e, el_count = 0\<rparr>) (take (unat (ic_count h)) (case ic_list h of None \<Rightarrow> [] | Some l \<Rightarrow> l)))"
  have res: "ic = ic0\<lparr>ic_size := s, ic_list := Some (old @ drop (length old) zeros), ic_count := (case hint of None \<Rightarrow> 0 | Some h \<Rightarrow> ic_count h)\<rparr>"
    using cr a full ic0(6) s unfolding ext2fs_create_icount2_def Let_def sz_def [symmetric] zeros_def old_def
    by (cases hint) (auto split: if_splits)
  have old: "length old = unat (ic_count ic)" "ic_count ic \<le> s" "sorted_keys el_ino old"
      "\<forall>e\<in>set old. el_ino e \<noteq> 0 \<and> el_ino e \<le> n \<and> el_count e = 0"
  proof -
    have "length old = unat (ic_count ic) \<and> ic_count ic \<le> s \<and> sorted_keys el_ino old
      \<and> (\<forall>e\<in>set old. el_ino e \<noteq> 0 \<and> el_ino e \<le> n \<and> el_count e = 0)"
    proof (cases hint)
      case None
      then show ?thesis by (simp add: old_def res sorted_keys_def)
    next
      case (Some h)
      with hint have h: "list_ok h" "ic_num_inodes h \<le> n" by (auto simp: wf_icount_def)
      then obtain xs where xs: "ic_list h = Some xs" "ic_count h \<le> ic_size h" by (auto simp: list_ok_def)
      have o: "old = map (\<lambda>e. \<lparr>el_ino = el_ino e, el_count = 0\<rparr>) (ic_elems h)" using Some xs by (simp add: old_def ic_elems_def)
      have "ic_size h \<le> s"
      proof (cases "sz = 0")
        case True
        then have "ic_size h = 0" using Some by (auto simp: sz_def not_less split: if_splits)
        then show ?thesis by simp
      next
        case False
        with s have "s = sz" by simp
        then show ?thesis using Some by (auto simp: sz_def not_less)
      qed
      moreover have "sorted_keys el_ino old" using h(1) by (simp add: o list_ok_def sorted_keys_def sorted_wrt_map)
      moreover have "\<forall>e\<in>set old. el_ino e \<noteq> 0 \<and> el_ino e \<le> n \<and> el_count e = 0"
        using h by (auto simp: o list_ok_def ino_in_range_def)
      ultimately show ?thesis using list_ok_length [OF h(1)] Some xs(2) by (simp add: res o)
    qed
    then show "length old = unat (ic_count ic)" "ic_count ic \<le> s" "sorted_keys el_ino old"
      "\<forall>e\<in>set old. el_ino e \<noteq> 0 \<and> el_ino e \<le> n \<and> el_count e = 0" by blast+
  qed
  have el: "ic_elems ic = old" using old(1) by (simp add: ic_elems_def res)
  have "list_ok ic"
    using old ic0 full n by (simp add: list_ok_def el) (simp add: res ino_in_range_def zeros_def word_le_nat_alt)
  moreover have "list_val ic = (\<lambda>_. 0)"
  proof -
    have "val_of el_ino el_count es k = 0" if "\<forall>e\<in>set es. el_count e = 0" for es k
      using that by (induction es) auto
    with old(4) have "val_of el_ino el_count old k = 0" for k by blast
    then show ?thesis by (simp add: list_val_def el fun_eq_iff)
  qed
  ultimately show ?thesis using ic0 by (auto simp: wf_icount_def icount_val_def res)
qed

lemma create_outcome:
  assumes "\<forall>b g. al b = Inr g \<longrightarrow> ok n (Some g) \<and> elems (Some g) = {}" "unat n < 2 ^ 31"
    and "\<not> (flags AND EXT2_ICOUNT_OPT_FULLMAP \<noteq> 0 \<and> flags AND EXT2_ICOUNT_OPT_INCREMENT \<noteq> 0)"
    and "case hint of None \<Rightarrow> True | Some h \<Rightarrow> wf_icount ok h \<and> ic_num_inodes h \<le> n"
  shows "case ext2fs_create_icount2 mal al num_dirs n flags size0 hint of
        Inl err \<Rightarrow> err = EXT2_ET_NO_MEMORY \<or> (\<exists>b. al b = Inl err) \<or> num_dirs = Inl err
      | Inr ic \<Rightarrow> wf_icount ok ic \<and> cnt ic = (\<lambda>_. 0) \<and> ic_num_inodes ic = n"
proof (cases "ext2fs_create_icount2 mal al num_dirs n flags size0 hint")
  case (Inl err)
  with create_error [OF Inl] show ?thesis by simp
next
  case (Inr ic)
  with create_law [OF _ assms(2,4) Inr create_no_fullmap [OF Inr assms(3)]] assms(1) show ?thesis by simp
qed

end

section \<open>The properties\<close>

text \<open>
  C12.  Any sequence of operations on an inode count structure, with bitmaps of either back end, gives the
  results of the same sequence on a total function from inodes to counts, and the structure stands for
  the resulting function; an operation that fails for lack of memory (only increments and stores can)
  leaves all counts as they were.  The structure stays well formed, and its own check accepts it.
\<close>

theorem icount_refines_map:
  assumes "wf_icount (ino_bmap wf_rb) ic" "ie_ops e = ext2fs_blkmap64_rbtree"
    and "wf_icount (ino_bmap wf_ba) jc" "ie_ops d = ext2fs_blkmap64_bitarray junk base"
  shows "(case icount_run e xs ic of (rs, ic') \<Rightarrow>
        wf_icount (ino_bmap wf_rb) ic' \<and> ext2fs_icount_validate ic' = None
      \<and> count_runs (ic_num_inodes ic) (\<exists>k. \<not> ie_malloc e k) xs (icount_val (ino_set rb_bits) ic) rs (icount_val (ino_set rb_bits) ic'))
    \<and> (case icount_run d ys jc of (rs, jc') \<Rightarrow>
        wf_icount (ino_bmap wf_ba) jc' \<and> ext2fs_icount_validate jc' = None
      \<and> count_runs (ic_num_inodes jc) (\<exists>k. \<not> ie_malloc d k) ys (icount_val (ino_set ba_bits) jc) rs (icount_val (ino_set ba_bits) jc'))"
  by (rule conjI [OF rb.run_law [OF assms(1,2)] ba.run_law [OF assms(3,4)]])

text \<open>A structure for 100 inodes and one for 20.\<close>

definition tree_counts :: "rb_private icount" where
  "tree_counts = \<lparr>ic_single = Some (GB64 rb_demo), ic_multiple = None, ic_count = 0, ic_size = 2, ic_num_inodes = 100,
     ic_cursor = 0, ic_list = Some [\<lparr>el_ino = 0, el_count = 0\<rparr>, \<lparr>el_ino = 0, el_count = 0\<rparr>], ic_last_lookup = None, ic_fullmap = None\<rparr>"

definition array_counts :: "ba_private icount" where
  "array_counts = \<lparr>ic_single = Some (GB64 ba_demo), ic_multiple = None, ic_count = 1, ic_size = 1, ic_num_inodes = 20,
     ic_cursor = 0, ic_list = Some [\<lparr>el_ino = 17, el_count = 5\<rparr>], ic_last_lookup = None, ic_fullmap = None\<rparr>"

definition demo_env :: "'p bitmap_ops \<Rightarrow> 'p icount_env" where
  "demo_env ops = \<lparr>ie_ops = ops, ie_malloc = (\<lambda>_. True), ie_junk = \<lparr>el_ino = 0, el_count = 0\<rparr>, ie_est = (\<lambda>_ _ _. 0), ie_oob = 0\<rparr>"

lemma demo_counts_wf:
  "wf_icount (ino_bmap wf_rb) tree_counts" "wf_icount (ino_bmap wf_ba) array_counts"
  using rb_demo_ready(1) ba_demo_ready
  by (simp_all add: wf_icount_def list_ok_def ic_elems_def tree_counts_def array_counts_def ino_bmap_def sorted_keys_def
      ino_in_range_def ba_demo_def)

lemma demo_inodes:
  "i \<in> ino_set rb_bits (Some (GB64 rb_demo)) \<longleftrightarrow> 10 \<le> i \<and> i < 30"
  "i \<in> ino_set ba_bits (Some (GB64 ba_demo)) \<longleftrightarrow> 1 \<le> i \<and> i \<le> 20 \<and> i \<noteq> 17"
proof -
  show "i \<in> ino_set rb_bits (Some (GB64 rb_demo)) \<longleftrightarrow> 10 \<le> i \<and> i < 30"
    by (simp add: ino_set_def plain_demo_blocks word_le_nat_alt word_less_nat_alt unat_ucast_inode)
  have "ucast i \<in> block_set ba_bits ba_demo \<longleftrightarrow> 1 \<le> (ucast i :: u64) \<and> (ucast i :: u64) \<le> 20 \<and> ucast i \<noteq> (17 :: u64)"
    by (auto simp: block_set_def cluster_no_def ba_demo_bits outside64_def) (auto simp: ba_demo_def)
  then show "i \<in> ino_set ba_bits (Some (GB64 ba_demo)) \<longleftrightarrow> 1 \<le> i \<and> i \<le> 20 \<and> i \<noteq> 17"
    by (simp add: ino_set_def word_le_nat_alt word_unat_eq_iff unat_ucast_inode)
qed

lemma demo_counts:
  "icount_val (ino_set rb_bits) tree_counts = (\<lambda>i. if 10 \<le> i \<and> i < 30 then 1 else 0)"
  "icount_val (ino_set ba_bits) array_counts = (\<lambda>i. if 1 \<le> i \<and> i \<le> 20 \<and> i \<noteq> 17 then 1 else if i = 17 then 5 else 0)"
  by (auto simp: icount_val_def demo_inodes tree_counts_def array_counts_def list_val_def ic_elems_def fun_eq_iff)

lemma count_runs_Cons:
  "count_runs n False (x # xs) f rs f' \<longleftrightarrow>
     (\<exists>rs'. rs = fst (count_step n x f) # rs' \<and> count_runs n False xs (snd (count_step n x f)) rs' f')"
  by (cases rs) auto

lemma icount_refines_map_witness:
  "fst (icount_run (demo_env ext2fs_blkmap64_rbtree) [Increment 12, Increment 50, Decrement 50, Fetch 12, Decrement 51] tree_counts)
     = [Inr 2, Inr 1, Inr 0, Inr 2, Inl EXT2_ET_INVALID_ARGUMENT]
   \<and> fst (icount_run (demo_env (ext2fs_blkmap64_bitarray 0 0)) [Increment 17, Decrement 3, Fetch 3, Store 21 7] array_counts)
     = [Inr 6, Inr 0, Inr 0, Inl EXT2_ET_INVALID_ARGUMENT]"
proof -
  note r = icount_refines_map [OF demo_counts_wf(1) _ demo_counts_wf(2), where e = "demo_env ext2fs_blkmap64_rbtree" and
    d = "demo_env (ext2fs_blkmap64_bitarray 0 0)" and junk = 0 and base = 0]
  have m: "ie_malloc (demo_env ops) k" "ie_ops (demo_env ops) = ops" for k and ops :: "'p bitmap_ops"
    by (simp_all add: demo_env_def)
  have n: "ic_num_inodes tree_counts = 100" "ic_num_inodes array_counts = 20" by (simp_all add: tree_counts_def array_counts_def)
  note r = r [OF m(2) m(2), of "[Increment 12, Increment 50, Decrement 50, Fetch 12, Decrement 51]"
      "[Increment 17, Decrement 3, Fetch 3, Store 21 7]", unfolded m n demo_counts]
  show ?thesis
    using conjunct1 [OF r] conjunct2 [OF r]
    by (auto simp: m count_runs_Cons icount_16_xlate_def simp del: icount_run.simps split: prod.splits)
qed

text \<open>
  A new structure, also one made from the inodes of an earlier one, stands for the function that is
  0 everywhere, when the bitmaps that it gets are empty and it is not the full array; there are
  fewer than \<open>2 ^ 31\<close> inodes.
\<close>

theorem create_icount_correct:
  assumes "\<forall>b g. al b = Inr g \<longrightarrow> ino_bmap wf_rb n (Some g) \<and> ino_set rb_bits (Some g) = {}"
    and "\<forall>b g. al' b = Inr g \<longrightarrow> ino_bmap wf_ba n (Some g) \<and> ino_set ba_bits (Some g) = {}"
    and "unat n < 2 ^ 31" "\<not> (flags AND EXT2_ICOUNT_OPT_FULLMAP \<noteq> 0 \<and> flags AND EXT2_ICOUNT_OPT_INCREMENT \<noteq> 0)"
    and "case hint of None \<Rightarrow> True | Some h \<Rightarrow> wf_icount (ino_bmap wf_rb) h \<and> ic_num_inodes h \<le> n"
    and "case hint' of None \<Rightarrow> True | Some h \<Rightarrow> wf_icount (ino_bmap wf_ba) h \<and> ic_num_inodes h \<le> n"
  shows "(case ext2fs_create_icount2 mal al num_dirs n flags size0 hint of
        Inl err \<Rightarrow> err = EXT2_ET_NO_MEMORY \<or> (\<exists>b. al b = Inl err) \<or> num_dirs = Inl err
      | Inr ic \<Rightarrow> wf_icount (ino_bmap wf_rb) ic \<and> icount_val (ino_set rb_bits) ic = (\<lambda>_. 0) \<and> ic_num_inodes ic = n)
    \<and> (case ext2fs_create_icount2 mal al' num_dirs n flags size0 hint' of
        Inl err \<Rightarrow> err = EXT2_ET_NO_MEMORY \<or> (\<exists>b. al' b = Inl err) \<or> num_dirs = Inl err
      | Inr ic \<Rightarrow> wf_icount (ino_bmap wf_ba) ic \<and> icount_val (ino_set ba_bits) ic = (\<lambda>_. 0) \<and> ic_num_inodes ic = n)"
  by (rule conjI [OF rb.create_outcome [OF assms(1,3,4,5)] ba.create_outcome [OF assms(2,3,4,6)]])

definition empty_counts :: "rb_private icount" where
  "empty_counts = tree_counts\<lparr>ic_single := Some (GB64 rb_demo_new), ic_count := 1,
     ic_list := Some [\<lparr>el_ino = 7, el_count = 0\<rparr>, \<lparr>el_ino = 0, el_count = 0\<rparr>]\<rparr>"

lemma create_icount_correct_witness:
  "ext2fs_create_icount2 (\<lambda>_. True) (\<lambda>_. Inr (GB64 rb_demo_new)) (Inl ENOENT) 100 0 0 (Some (tree_counts\<lparr>ic_count := 1, ic_list := Some [\<lparr>el_ino = 7, el_count = 3\<rparr>, \<lparr>el_ino = 0, el_count = 0\<rparr>]\<rparr>))
     = Inr empty_counts \<and> icount_val (ino_set rb_bits) empty_counts = (\<lambda>_. 0)"
proof -
  let ?h = "tree_counts\<lparr>ic_count := 1, ic_list := Some [\<lparr>el_ino = 7, el_count = 3\<rparr>, \<lparr>el_ino = 0, el_count = 0\<rparr>]\<rparr>"
  have r2: "replicate 2 x = [x, x]" for x :: icount_el by (simp add: numeral_2_eq_2)
  have c: "ext2fs_create_icount2 (\<lambda>_. True) (\<lambda>_. Inr (GB64 rb_demo_new)) (Inl ENOENT) 100 0 0 (Some ?h) = Inr empty_counts"
    by (simp add: ext2fs_create_icount2_def alloc_icount_def tree_counts_def empty_counts_def r2)
  have al: "\<forall>b g. (\<lambda>_. Inr (GB64 rb_demo_new)) (b :: bool) = (Inr g :: errcode + _) \<longrightarrow> ino_bmap wf_rb 100 (Some g) \<and> ino_set rb_bits (Some g) = {}"
    using rb_demo_ready(2) by (simp add: ino_bmap_def ino_set_def plain_demo_blocks)
  have wf: "case Some ?h of None \<Rightarrow> True | Some h \<Rightarrow> wf_icount (ino_bmap wf_rb) h \<and> ic_num_inodes h \<le> 100"
    using demo_counts_wf(1) by (simp add: wf_icount_def list_ok_def ic_elems_def tree_counts_def sorted_keys_def ino_in_range_def)
  have al': "\<forall>b g. (\<lambda>_. Inl ENOENT) (b :: bool) = (Inr g :: errcode + _) \<longrightarrow> ino_bmap wf_ba 100 (Some g) \<and> ino_set ba_bits (Some g) = {}"
    by simp
  have h': "case None of None \<Rightarrow> True | Some h \<Rightarrow> wf_icount (ino_bmap wf_ba) h \<and> ic_num_inodes h \<le> (100 :: u32)" by simp
  from create_icount_correct [OF al al' _ _ wf h', where flags = 0 and mal = "\<lambda>_. True" and num_dirs = "Inl ENOENT" and ?size0.0 = 0] c show ?thesis by simp
qed

text \<open>The full array has no entry for the last inode: its count lies behind the end of the array.\<close>

lemma fullmap_misses_last_inode:
  "\<exists>ic. ext2fs_create_icount (\<lambda>_. True) al (Inr 0) 10 3 0 = Inr ic
     \<and> ino_in_range ic 10 \<and> length (the (ic_fullmap ic)) = 10"
  by (simp add: ext2fs_create_icount_def ext2fs_create_icount2_def alloc_icount_def EXT2_ICOUNT_OPT_FULLMAP_def
      EXT2_ICOUNT_OPT_INCREMENT_def ino_in_range_def)

end
