(* ===== verification/Ext2_Fs.thy ===== *)
theory Ext2_Fs
  imports Bytes
begin

text \<open>
  What the code that walks over files and directories sees of a file system: the fields of the
  superblock and of inodes that it reads, the feature tests of \<open>lib/ext2fs/ext2_fs.h\<close>, and the state it
  changes, which is the blocks of the device and the inodes.  Reading and writing of blocks
  (\<open>io_channel_read_blk64\<close>, \<open>io_channel_write_blk64\<close>) and of inodes (\<open>ext2fs_read_inode\<close>,
  \<open>ext2fs_write_inode\<close>, with their cache and scan) are calls that can fail; the record \<open>fs_env\<close> says
  which do.
\<close>

section \<open>Superblock and features\<close>

record ext2_super_block =
  sb_blocks_count :: u32
  sb_blocks_count_hi :: u32
  sb_first_data_block :: u32
  sb_creator_os :: u32
  sb_feature_incompat :: u32
  sb_feature_ro_compat :: u32

definition EXT2_FEATURE_INCOMPAT_FILETYPE :: u32 where "EXT2_FEATURE_INCOMPAT_FILETYPE = 0x0002"
definition EXT4_FEATURE_INCOMPAT_64BIT :: u32 where "EXT4_FEATURE_INCOMPAT_64BIT = 0x0080"
definition EXT4_FEATURE_RO_COMPAT_METADATA_CSUM :: u32 where "EXT4_FEATURE_RO_COMPAT_METADATA_CSUM = 0x0400"

definition ext2fs_has_feature_filetype :: "'a ext2_super_block_scheme \<Rightarrow> bool" where
  "ext2fs_has_feature_filetype sb = (sb_feature_incompat sb AND EXT2_FEATURE_INCOMPAT_FILETYPE \<noteq> 0)"

definition ext2fs_has_feature_64bit :: "'a ext2_super_block_scheme \<Rightarrow> bool" where
  "ext2fs_has_feature_64bit sb = (sb_feature_incompat sb AND EXT4_FEATURE_INCOMPAT_64BIT \<noteq> 0)"

definition ext2fs_has_feature_metadata_csum :: "'a ext2_super_block_scheme \<Rightarrow> bool" where
  "ext2fs_has_feature_metadata_csum sb = (sb_feature_ro_compat sb AND EXT4_FEATURE_RO_COMPAT_METADATA_CSUM \<noteq> 0)"

definition ext2fs_blocks_count :: "'a ext2_super_block_scheme \<Rightarrow> u64" where
  "ext2fs_blocks_count sb =
     ucast (sb_blocks_count sb) OR (if ext2fs_has_feature_64bit sb then push_bit 32 (ucast (sb_blocks_count_hi sb)) else 0)"

section \<open>Inodes\<close>

record ext2_inode =
  i_mode :: u16
  i_size :: u32
  i_links_count :: u16
  i_blocks :: u32
  i_flags :: u32
  i_size_high :: u32
  i_file_acl :: u32
  i_generation :: u32
  i_block :: "u32 list"
  h_i_translator :: u32
  l_i_blocks_hi :: u16
  l_i_file_acl_high :: u16

definition EXT2_NDIR_BLOCKS :: nat where "EXT2_NDIR_BLOCKS = 12"
definition EXT2_IND_BLOCK :: nat where "EXT2_IND_BLOCK = 12"
definition EXT2_DIND_BLOCK :: nat where "EXT2_DIND_BLOCK = 13"
definition EXT2_TIND_BLOCK :: nat where "EXT2_TIND_BLOCK = 14"

definition EXT2_INDEX_FL :: u32 where "EXT2_INDEX_FL = 0x00001000"
definition EXT4_EXTENTS_FL :: u32 where "EXT4_EXTENTS_FL = 0x00080000"
definition EXT4_INLINE_DATA_FL :: u32 where "EXT4_INLINE_DATA_FL = 0x10000000"
definition EXT2_OS_HURD :: u32 where "EXT2_OS_HURD = 1"

definition LINUX_S_ISDIR :: "u16 \<Rightarrow> bool" where
  "LINUX_S_ISDIR m = (m AND 0xF000 = 0x4000)"

section \<open>The file system\<close>

definition EXT2_FLAG_RW :: u32 where "EXT2_FLAG_RW = 0x01"
definition EXT2_FLAG_IMAGE_FILE :: u32 where "EXT2_FLAG_IMAGE_FILE = 0x2000"
definition EXT2_FLAG_IGNORE_CSUM_ERRORS :: u32 where "EXT2_FLAG_IGNORE_CSUM_ERRORS = 0x200000"

text \<open>
  The fields of \<open>struct struct_ext2_filsys\<close> that do not change, and the outcome of what is outside of the
  model: \<open>fe_image_io\<close> is \<open>fs->io = fs->image_io\<close>, \<open>fe_crc\<close> is \<open>ext2fs_crc32c_le\<close>, whose tables are made by
  the build.
\<close>

record fs_env =
  fe_sb :: ext2_super_block
  fe_blocksize :: nat
  fe_flags :: u32
  fe_image_io :: bool
  fe_csum_seed :: u32
  fe_crc :: "u32 \<Rightarrow> u8 list \<Rightarrow> u32"
  fe_malloc :: malloc
  fe_read_error :: "u64 \<Rightarrow> errcode option"
  fe_write_error :: "u64 \<Rightarrow> errcode option"
  fe_inode_read_error :: "u32 \<Rightarrow> errcode option"
  fe_inode_write_error :: "u32 \<Rightarrow> errcode option"

record fs_state =
  fs_dev :: "u64 \<Rightarrow> block"
  fs_inodes :: "u32 \<Rightarrow> ext2_inode"

definition io_read_blk :: "fs_env \<Rightarrow> fs_state \<Rightarrow> u64 \<Rightarrow> errcode + block" where
  "io_read_blk env fs blk = (case fe_read_error env blk of Some e \<Rightarrow> Inl e | None \<Rightarrow> Inr (fs_dev fs blk))"

definition io_write_blk :: "fs_env \<Rightarrow> fs_state \<Rightarrow> u64 \<Rightarrow> block \<Rightarrow> errcode option \<times> fs_state" where
  "io_write_blk env fs blk buf =
     (case fe_write_error env blk of Some e \<Rightarrow> (Some e, fs) | None \<Rightarrow> (None, fs\<lparr>fs_dev := (fs_dev fs)(blk := buf)\<rparr>))"

definition ext2fs_read_inode :: "fs_env \<Rightarrow> fs_state \<Rightarrow> u32 \<Rightarrow> errcode + ext2_inode" where
  "ext2fs_read_inode env fs ino = (case fe_inode_read_error env ino of Some e \<Rightarrow> Inl e | None \<Rightarrow> Inr (fs_inodes fs ino))"

definition ext2fs_write_inode :: "fs_env \<Rightarrow> fs_state \<Rightarrow> u32 \<Rightarrow> ext2_inode \<Rightarrow> errcode option \<times> fs_state" where
  "ext2fs_write_inode env fs ino i =
     (case fe_inode_write_error env ino of
        Some e \<Rightarrow> (Some e, fs) | None \<Rightarrow> (None, fs\<lparr>fs_inodes := (fs_inodes fs)(ino := i)\<rparr>))"

text \<open>\<open>lib/ext2fs/ind_block.c\<close>; a block of addresses is an array of 32-bit numbers.\<close>

definition ext2fs_read_ind_block :: "fs_env \<Rightarrow> fs_state \<Rightarrow> u32 \<Rightarrow> errcode + u32 list" where
  "ext2fs_read_ind_block env fs blk =
     map_sum id (get_le32s (fe_blocksize env div 4))
       (if fe_flags env AND EXT2_FLAG_IMAGE_FILE \<noteq> 0 \<and> \<not> fe_image_io env
        then Inr (replicate (fe_blocksize env) 0)
        else io_read_blk env fs (ucast blk))"

definition ext2fs_write_ind_block :: "fs_env \<Rightarrow> fs_state \<Rightarrow> u32 \<Rightarrow> u32 list \<Rightarrow> errcode option \<times> fs_state" where
  "ext2fs_write_ind_block env fs blk es =
     (if fe_flags env AND EXT2_FLAG_IMAGE_FILE \<noteq> 0 then (None, fs)
      else io_write_blk env fs (ucast blk) (le32s es))"

text \<open>\<open>ext2fs_check_directory\<close>, for inode numbers that exist, without the hook for programs.\<close>

definition ext2fs_check_directory :: "fs_env \<Rightarrow> fs_state \<Rightarrow> u32 \<Rightarrow> errcode option" where
  "ext2fs_check_directory env fs ino =
     (case ext2fs_read_inode env fs ino of
        Inl e \<Rightarrow> Some e
      | Inr inode \<Rightarrow> if \<not> LINUX_S_ISDIR (i_mode inode) then Some EXT2_ET_NO_DIRECTORY else None)"

end
