(* ===== verification/Block_Iterate.thy ===== *)
theory Block_Iterate
  imports Ext2_Fs "HOL-Library.Monad_Syntax"
begin

text \<open>
  The iteration over the blocks of a file with direct and indirect blocks, \<open>lib/ext2fs/block.c\<close>.  The
  function that is called for every block is an argument; it gets the block number, the logical number
  of the block (negative for blocks of addresses), the block and the offset where the number is stored,
  and the state, and returns flags and the block number that is to be stored.  It need not return, so that
  the iteration has an option as its result.  The branch for files with extents, which rests on
  \<open>lib/ext2fs/extent.c\<close>, is an argument.
\<close>

definition BLOCK_CHANGED :: u32 where "BLOCK_CHANGED = 1"
definition BLOCK_ABORT :: u32 where "BLOCK_ABORT = 2"
definition BLOCK_ERROR :: u32 where "BLOCK_ERROR = 4"

definition BLOCK_FLAG_APPEND :: u32 where "BLOCK_FLAG_APPEND = 1"
definition BLOCK_FLAG_DEPTH_TRAVERSE :: u32 where "BLOCK_FLAG_DEPTH_TRAVERSE = 2"
definition BLOCK_FLAG_DATA_ONLY :: u32 where "BLOCK_FLAG_DATA_ONLY = 4"
definition BLOCK_FLAG_READ_ONLY :: u32 where "BLOCK_FLAG_READ_ONLY = 8"
definition BLOCK_FLAG_NO_LARGE :: u32 where "BLOCK_FLAG_NO_LARGE = 0x1000"

definition BLOCK_COUNT_IND :: int where "BLOCK_COUNT_IND = - 1"
definition BLOCK_COUNT_DIND :: int where "BLOCK_COUNT_DIND = - 2"
definition BLOCK_COUNT_TIND :: int where "BLOCK_COUNT_TIND = - 3"
definition BLOCK_COUNT_TRANSLATOR :: int where "BLOCK_COUNT_TRANSLATOR = - 4"

text \<open>Arguments: the block, its logical number, the block and the offset that refer to it, the state.\<close>

type_synonym 's blk_func = "u64 \<Rightarrow> int \<Rightarrow> u64 \<Rightarrow> nat \<Rightarrow> fs_state \<times> 's \<Rightarrow> (u32 \<times> u64 \<times> fs_state \<times> 's) option"

record 's block_context =
  bc_bcount :: int
  bc_errcode :: "errcode option"
  bc_state :: "fs_state \<times> 's"

definition call_func ::
    "'s blk_func \<Rightarrow> u64 \<Rightarrow> int \<Rightarrow> u64 \<Rightarrow> nat \<Rightarrow> 's block_context \<Rightarrow> (u32 \<times> u64 \<times> 's block_context) option" where
  "call_func f blk n ref off c = do { (r, blk, w) \<leftarrow> f blk n ref off (bc_state c); Some (r, blk, c\<lparr>bc_state := w\<rparr>) }"

text \<open>The macros \<open>check_for_ro_violation_return\<close> and \<open>check_for_ro_violation_goto\<close>.\<close>

definition ro_violation :: "u32 \<Rightarrow> u32 \<Rightarrow> bool" where
  "ro_violation flags ret = (flags AND BLOCK_FLAG_READ_ONLY \<noteq> 0 \<and> ret AND BLOCK_CHANGED \<noteq> 0)"

definition violated :: "u32 \<Rightarrow> 's block_context \<Rightarrow> u32 \<times> 's block_context" where
  "violated ret c = (ret OR (BLOCK_ABORT OR BLOCK_ERROR), c\<lparr>bc_errcode := Some EXT2_ET_RO_BLOCK_ITERATE\<rparr>)"

section \<open>Blocks of addresses\<close>

text \<open>
  The loop over the addresses in an indirect block: the new addresses, the flags of all calls, the flags
  for the caller.
\<close>

fun ind_loop ::
    "bool \<Rightarrow> 's blk_func \<Rightarrow> u32 \<Rightarrow> nat \<Rightarrow> u32 list \<Rightarrow> 's block_context \<Rightarrow> (u32 list \<times> u32 \<times> u32 \<times> 's block_context) option" where
  "ind_loop grow f ref off [] c = Some ([], 0, 0, c)"
| "ind_loop grow f ref off (b # bs) c =
     (if \<not> grow \<and> b = 0
      then do { (bs, changed, ret, c) \<leftarrow> ind_loop grow f ref (off + 4) bs (c\<lparr>bc_bcount := bc_bcount c + 1\<rparr>);
                Some (b # bs, changed, ret, c) }
      else do { (fl, blk, c) \<leftarrow> call_func f (ucast b) (bc_bcount c) (ucast ref) off c;
                if fl AND BLOCK_ABORT \<noteq> 0 then Some (ucast blk # bs, fl, BLOCK_ABORT, c)
                else do { (bs, changed, ret, c) \<leftarrow> ind_loop grow f ref (off + 4) bs (c\<lparr>bc_bcount := bc_bcount c + 1\<rparr>);
                          Some (ucast blk # bs, fl OR changed, ret, c) } })"

text \<open>
  The loop over the addresses in a block of the next levels; \<open>inner\<close> iterates over the block at an
  address, \<open>skip\<close> is the number of blocks below an address.  A missing block does not advance the offset.
\<close>

fun ptr_loop ::
    "bool \<Rightarrow> (u32 \<Rightarrow> u32 \<Rightarrow> nat \<Rightarrow> 's block_context \<Rightarrow> (u32 \<times> u32 \<times> 's block_context) option) \<Rightarrow> int \<Rightarrow> u32 \<Rightarrow> nat \<Rightarrow>
     u32 list \<Rightarrow> 's block_context \<Rightarrow> (u32 list \<times> u32 \<times> u32 \<times> 's block_context) option" where
  "ptr_loop grow inner skip ref off [] c = Some ([], 0, 0, c)"
| "ptr_loop grow inner skip ref off (b # bs) c =
     (if \<not> grow \<and> b = 0
      then do { (bs, changed, ret, c) \<leftarrow> ptr_loop grow inner skip ref off bs (c\<lparr>bc_bcount := bc_bcount c + skip\<rparr>);
                Some (b # bs, changed, ret, c) }
      else do { (fl, b, c) \<leftarrow> inner b ref off c;
                if fl AND (BLOCK_ABORT OR BLOCK_ERROR) \<noteq> 0
                then Some (b # bs, fl, fl AND (BLOCK_ABORT OR BLOCK_ERROR), c)
                else do { (bs, changed, ret, c) \<leftarrow> ptr_loop grow inner skip ref (off + 4) bs c;
                          Some (b # bs, fl OR changed, ret, c) } })"

text \<open>
  The text that the functions for the three levels share: \<open>kind\<close> is the logical number reported for the
  block itself, \<open>skip\<close> the number of blocks below it, \<open>bad\<close> the error for a bad address, \<open>loop\<close> the loop
  over the addresses in the block.
\<close>

definition iterate_level ::
    "fs_env \<Rightarrow> u32 \<Rightarrow> 's blk_func \<Rightarrow> int \<Rightarrow> int \<Rightarrow> errcode \<Rightarrow>
     (u32 \<Rightarrow> u32 list \<Rightarrow> 's block_context \<Rightarrow> (u32 list \<times> u32 \<times> u32 \<times> 's block_context) option) \<Rightarrow>
     u32 \<Rightarrow> u32 \<Rightarrow> nat \<Rightarrow> 's block_context \<Rightarrow> (u32 \<times> u32 \<times> 's block_context) option" where
  "iterate_level env flags f kind skip bad loop blk ref off c =
     do { (ret, blk, c) \<leftarrow>
            (if flags AND BLOCK_FLAG_DEPTH_TRAVERSE = 0 \<and> flags AND BLOCK_FLAG_DATA_ONLY = 0
             then do { (r, b, c) \<leftarrow> call_func f (ucast blk) kind (ucast ref) off c; Some (r, ucast b, c) }
             else Some (0, blk, c));
          if ro_violation flags ret then (case violated ret c of (ret, c) \<Rightarrow> Some (ret, blk, c))
          else if blk = 0 \<or> ret AND BLOCK_ABORT \<noteq> 0 then Some (ret, blk, c\<lparr>bc_bcount := bc_bcount c + skip\<rparr>)
          else if ucast blk \<ge> ext2fs_blocks_count (fe_sb env) \<or> blk < sb_first_data_block (fe_sb env)
          then Some (ret OR BLOCK_ERROR, blk, c\<lparr>bc_errcode := Some bad\<rparr>)
          else case ext2fs_read_ind_block env (fst (bc_state c)) blk of
            Inl e \<Rightarrow> Some (ret OR BLOCK_ERROR, blk, c\<lparr>bc_errcode := Some e\<rparr>)
          | Inr es \<Rightarrow>
              do { (es, changed, r, c) \<leftarrow> loop blk es (c\<lparr>bc_errcode := None\<rparr>);
                   if ro_violation flags changed then (case violated changed c of (ret, c) \<Rightarrow> Some (ret, blk, c))
                   else
                     let ret = ret OR r;
                         (ret, c) =
                           (if changed AND BLOCK_CHANGED \<noteq> 0
                            then (case ext2fs_write_ind_block env (fst (bc_state c)) blk es of
                                    (None, fs) \<Rightarrow> (ret, c\<lparr>bc_errcode := None, bc_state := (fs, snd (bc_state c))\<rparr>)
                                  | (Some e, fs) \<Rightarrow>
                                      (ret OR (BLOCK_ERROR OR BLOCK_ABORT), c\<lparr>bc_errcode := Some e, bc_state := (fs, snd (bc_state c))\<rparr>))
                            else (ret, c))
                     in do { (ret, blk, c) \<leftarrow>
                               (if flags AND BLOCK_FLAG_DEPTH_TRAVERSE \<noteq> 0 \<and> flags AND BLOCK_FLAG_DATA_ONLY = 0
                                   \<and> ret AND BLOCK_ABORT = 0
                                then do { (r, b, c) \<leftarrow> call_func f (ucast blk) kind (ucast ref) off c; Some (ret OR r, ucast b, c) }
                                else Some (ret, blk, c));
                             if ro_violation flags ret then (case violated ret c of (ret, c) \<Rightarrow> Some (ret, blk, c))
                             else Some (ret, blk, c) } } }"

definition ind_limit :: "fs_env \<Rightarrow> int" where
  "ind_limit env = int (fe_blocksize env div 4)"

definition block_iterate_ind ::
    "fs_env \<Rightarrow> u32 \<Rightarrow> 's blk_func \<Rightarrow> u32 \<Rightarrow> u32 \<Rightarrow> nat \<Rightarrow> 's block_context \<Rightarrow> (u32 \<times> u32 \<times> 's block_context) option" where
  "block_iterate_ind env flags f =
     iterate_level env flags f BLOCK_COUNT_IND (ind_limit env) EXT2_ET_BAD_IND_BLOCK
       (\<lambda>blk es. ind_loop (flags AND BLOCK_FLAG_APPEND \<noteq> 0) f blk 0 es)"

definition block_iterate_dind ::
    "fs_env \<Rightarrow> u32 \<Rightarrow> 's blk_func \<Rightarrow> u32 \<Rightarrow> u32 \<Rightarrow> nat \<Rightarrow> 's block_context \<Rightarrow> (u32 \<times> u32 \<times> 's block_context) option" where
  "block_iterate_dind env flags f =
     iterate_level env flags f BLOCK_COUNT_DIND (ind_limit env * ind_limit env) EXT2_ET_BAD_DIND_BLOCK
       (\<lambda>blk es. ptr_loop (flags AND BLOCK_FLAG_APPEND \<noteq> 0) (block_iterate_ind env flags f) (ind_limit env) blk 0 es)"

definition block_iterate_tind ::
    "fs_env \<Rightarrow> u32 \<Rightarrow> 's blk_func \<Rightarrow> u32 \<Rightarrow> u32 \<Rightarrow> nat \<Rightarrow> 's block_context \<Rightarrow> (u32 \<times> u32 \<times> 's block_context) option" where
  "block_iterate_tind env flags f =
     iterate_level env flags f BLOCK_COUNT_TIND (ind_limit env * ind_limit env * ind_limit env) EXT2_ET_BAD_TIND_BLOCK
       (\<lambda>blk es. ptr_loop (flags AND BLOCK_FLAG_APPEND \<noteq> 0) (block_iterate_dind env flags f)
          (ind_limit env * ind_limit env) blk 0 es)"

section \<open>The iteration\<close>

text \<open>
  The loop over the direct blocks; the flag says whether a call asked to stop.  The fields \<open>i_block\<close> are
  updated in place.
\<close>

fun direct_loop ::
    "bool \<Rightarrow> 's blk_func \<Rightarrow> nat \<Rightarrow> u32 list \<Rightarrow> u32 \<Rightarrow> 's block_context \<Rightarrow> (u32 list \<times> bool \<times> u32 \<times> 's block_context) option" where
  "direct_loop grow f i [] ret c = Some ([], False, ret, c)"
| "direct_loop grow f i (b # bs) ret c =
     (if b \<noteq> 0 \<or> grow
      then do { (fl, blk, c) \<leftarrow> call_func f (ucast b) (bc_bcount c) 0 i c;
                let ret = ret OR fl
                in if ret AND BLOCK_ABORT \<noteq> 0 then Some (ucast blk # bs, True, ret, c)
                   else do { (bs, ab, ret, c) \<leftarrow> direct_loop grow f (i + 1) bs ret (c\<lparr>bc_bcount := bc_bcount c + 1\<rparr>);
                             Some (ucast blk # bs, ab, ret, c) } }
      else do { (bs, ab, ret, c) \<leftarrow> direct_loop grow f (i + 1) bs ret (c\<lparr>bc_bcount := bc_bcount c + 1\<rparr>);
                Some (b # bs, ab, ret, c) })"

text \<open>One of the three calls for the roots of indirect blocks, as \<open>(inode, stop, ret, context)\<close>.\<close>

definition root_step ::
    "bool \<Rightarrow> (u32 \<Rightarrow> u32 \<Rightarrow> nat \<Rightarrow> 's block_context \<Rightarrow> (u32 \<times> u32 \<times> 's block_context) option) \<Rightarrow> nat \<Rightarrow> int \<Rightarrow>
     ext2_inode \<times> bool \<times> u32 \<times> 's block_context \<Rightarrow> (ext2_inode \<times> bool \<times> u32 \<times> 's block_context) option" where
  "root_step grow iter k skip = (\<lambda>(inode, stop, ret, c).
     if stop then Some (inode, stop, ret, c)
     else if i_block inode ! k \<noteq> 0 \<or> grow
     then do { (r, blk, c) \<leftarrow> iter (i_block inode ! k) 0 k c;
               Some (inode\<lparr>i_block := (i_block inode)[k := blk]\<rparr>, (ret OR r) AND BLOCK_ABORT \<noteq> 0, ret OR r, c) }
     else Some (inode, False, ret, c\<lparr>bc_bcount := bc_bcount c + skip\<rparr>))"

text \<open>The code after the label \<open>abort_exit\<close>, and the result of the function.\<close>

definition abort_exit :: "fs_env \<Rightarrow> u32 \<Rightarrow> ext2_inode \<Rightarrow> u32 \<Rightarrow> 's block_context \<Rightarrow> errcode option \<times> fs_state \<times> 's" where
  "abort_exit env ino inode ret c =
     (let (ret, c) =
        (if ret AND BLOCK_CHANGED \<noteq> 0
         then (case ext2fs_write_inode env (fst (bc_state c)) ino inode of
                 (None, fs) \<Rightarrow> (ret, c\<lparr>bc_state := (fs, snd (bc_state c))\<rparr>)
               | (Some e, fs) \<Rightarrow> (ret OR BLOCK_ERROR, c\<lparr>bc_errcode := Some e, bc_state := (fs, snd (bc_state c))\<rparr>))
         else (ret, c))
      in (if ret AND BLOCK_ERROR \<noteq> 0 then bc_errcode c else None, bc_state c))"

text \<open>
  \<open>extents\<close> is the branch for files with extents: from the inode, the flags so far and the context to the
  result.  \<open>block_buf\<close> says whether the caller provides a buffer.
\<close>

definition ext2fs_block_iterate3 ::
    "fs_env \<Rightarrow> (ext2_inode \<Rightarrow> u32 \<Rightarrow> 's block_context \<Rightarrow> (errcode option \<times> fs_state \<times> 's) option) \<Rightarrow> u32 \<Rightarrow> u32 \<Rightarrow> bool \<Rightarrow>
     's blk_func \<Rightarrow> fs_state \<times> 's \<Rightarrow> (errcode option \<times> fs_state \<times> 's) option" where
  "ext2fs_block_iterate3 env extents ino flags block_buf f w =
     (case ext2fs_read_inode env (fst w) ino of
        Inl e \<Rightarrow> Some (Some e, w)
      | Inr inode \<Rightarrow>
          if i_flags inode AND EXT4_INLINE_DATA_FL \<noteq> 0 then Some (Some EXT2_ET_INLINE_DATA_CANT_ITERATE, w)
          else if flags AND BLOCK_FLAG_NO_LARGE \<noteq> 0 \<and> \<not> LINUX_S_ISDIR (i_mode inode) \<and> i_size_high inode \<noteq> 0
          then Some (Some EXT2_ET_FILE_TOO_BIG, w)
          else if \<not> block_buf \<and> \<not> fe_malloc env (3 * fe_blocksize env) then Some (Some EXT2_ET_NO_MEMORY, w)
          else
            let grow = (flags AND BLOCK_FLAG_APPEND \<noteq> 0);
                c = \<lparr>bc_bcount = 0, bc_errcode = None, bc_state = w\<rparr>
            in do {
              (inode, ret, c, stop) \<leftarrow>
                (if sb_creator_os (fe_sb env) = EXT2_OS_HURD \<and> flags AND BLOCK_FLAG_DATA_ONLY = 0 \<and> h_i_translator inode \<noteq> 0
                 then do { (ret, blk, c) \<leftarrow> call_func f (ucast (h_i_translator inode)) BLOCK_COUNT_TRANSLATOR 0 0 c;
                           let inode = inode\<lparr>h_i_translator := ucast blk\<rparr>
                           in if ret AND BLOCK_ABORT \<noteq> 0 then Some (inode, ret, c, True)
                              else if ro_violation flags ret
                              then (case violated ret c of (ret, c) \<Rightarrow> Some (inode, ret, c, True))
                              else Some (inode, ret, c, False) }
                 else Some (inode, 0, c, False));
              if stop then Some (abort_exit env ino inode ret c)
              else if i_flags inode AND EXT4_EXTENTS_FL \<noteq> 0 then extents inode ret c
              else do {
                (bs, stop, ret, c) \<leftarrow> direct_loop grow f 0 (take EXT2_NDIR_BLOCKS (i_block inode)) ret c;
                let inode = inode\<lparr>i_block := bs @ drop EXT2_NDIR_BLOCKS (i_block inode)\<rparr>;
                    (ret, c, stop) =
                      (if \<not> stop \<and> ro_violation flags ret then (case violated ret c of (ret, c) \<Rightarrow> (ret, c, True))
                       else (ret, c, stop))
                in do {
                  x \<leftarrow> root_step grow (block_iterate_ind env flags f) EXT2_IND_BLOCK (ind_limit env) (inode, stop, ret, c);
                  x \<leftarrow> root_step grow (block_iterate_dind env flags f) EXT2_DIND_BLOCK (ind_limit env * ind_limit env) x;
                  (inode, stop, ret, c) \<leftarrow> root_step grow (block_iterate_tind env flags f) EXT2_TIND_BLOCK 0 x;
                  Some (abort_exit env ino inode ret c) } } })"

section \<open>The interfaces with 32-bit numbers\<close>

definition xlate64_func :: "(u32 \<Rightarrow> int \<Rightarrow> u32 \<Rightarrow> nat \<Rightarrow> fs_state \<times> 's \<Rightarrow> (u32 \<times> u32 \<times> fs_state \<times> 's) option) \<Rightarrow> 's blk_func" where
  "xlate64_func f blk n ref off w = do { (r, b, w) \<leftarrow> f (ucast blk) n (ucast ref) off w; Some (r, ucast b, w) }"

definition ext2fs_block_iterate2 ::
    "fs_env \<Rightarrow> (ext2_inode \<Rightarrow> u32 \<Rightarrow> 's block_context \<Rightarrow> (errcode option \<times> fs_state \<times> 's) option) \<Rightarrow> u32 \<Rightarrow> u32 \<Rightarrow> bool \<Rightarrow>
     (u32 \<Rightarrow> int \<Rightarrow> u32 \<Rightarrow> nat \<Rightarrow> fs_state \<times> 's \<Rightarrow> (u32 \<times> u32 \<times> fs_state \<times> 's) option) \<Rightarrow>
     fs_state \<times> 's \<Rightarrow> (errcode option \<times> fs_state \<times> 's) option" where
  "ext2fs_block_iterate2 env extents ino flags block_buf f = ext2fs_block_iterate3 env extents ino flags block_buf (xlate64_func f)"

text \<open>The logical number is cut to the 32 bits of an \<open>int\<close>.\<close>

definition block_xlate_func :: "(u32 \<Rightarrow> int \<Rightarrow> fs_state \<times> 's \<Rightarrow> (u32 \<times> u32 \<times> fs_state \<times> 's) option) \<Rightarrow>
     u32 \<Rightarrow> int \<Rightarrow> u32 \<Rightarrow> nat \<Rightarrow> fs_state \<times> 's \<Rightarrow> (u32 \<times> u32 \<times> fs_state \<times> 's) option" where
  "block_xlate_func f blk n ref off = f blk (sint (of_int n :: 32 word))"

definition ext2fs_block_iterate ::
    "fs_env \<Rightarrow> (ext2_inode \<Rightarrow> u32 \<Rightarrow> 's block_context \<Rightarrow> (errcode option \<times> fs_state \<times> 's) option) \<Rightarrow> u32 \<Rightarrow> u32 \<Rightarrow> bool \<Rightarrow>
     (u32 \<Rightarrow> int \<Rightarrow> fs_state \<times> 's \<Rightarrow> (u32 \<times> u32 \<times> fs_state \<times> 's) option) \<Rightarrow> fs_state \<times> 's \<Rightarrow> (errcode option \<times> fs_state \<times> 's) option" where
  "ext2fs_block_iterate env extents ino flags block_buf f =
     ext2fs_block_iterate2 env extents ino (BLOCK_FLAG_NO_LARGE OR flags) block_buf (block_xlate_func f)"

end
