(* ===== verification/Block_Iterate_Props.thy ===== *)
theory Block_Iterate_Props
  imports Block_Iterate
begin

text \<open>
  The iteration over the blocks of a file is a walk along a list: the blocks of addresses and the data
  blocks in the order of their logical numbers, with these numbers.  The walk stops when the function
  asks for it.
\<close>

lemma ucast_back [simp]: "(ucast (ucast (e :: u32) :: u64) :: u32) = e"
  by (rule bit_word_eqI) (auto simp: bit_simps)

section \<open>The list of visits\<close>

text \<open>The block, its logical number, and where its number is stored.\<close>

type_synonym visit = "u64 \<times> int \<times> u64 \<times> nat"

definition addrs :: "fs_env \<Rightarrow> (u64 \<Rightarrow> block) \<Rightarrow> u32 \<Rightarrow> u32 list" where
  "addrs env dev b = get_le32s (fe_blocksize env div 4) (dev (ucast b))"

fun data_visits :: "u32 \<Rightarrow> nat \<Rightarrow> int \<Rightarrow> u32 list \<Rightarrow> visit list" where
  "data_visits b off n [] = []"
| "data_visits b off n (e # es) =
     (if e = 0 then [] else [(ucast e, n, ucast b, off)]) @ data_visits b (off + 4) (n + 1) es"

fun ptr_visits :: "(u32 \<Rightarrow> u32 \<Rightarrow> nat \<Rightarrow> int \<Rightarrow> visit list) \<Rightarrow> int \<Rightarrow> u32 \<Rightarrow> nat \<Rightarrow> int \<Rightarrow> u32 list \<Rightarrow> visit list" where
  "ptr_visits inner skip b off n [] = []"
| "ptr_visits inner skip b off n (e # es) =
     (if e = 0 then ptr_visits inner skip b off (n + skip) es
      else inner e b off n @ ptr_visits inner skip b (off + 4) (n + skip) es)"

text \<open>A block of addresses is reported before what is below it, after it, or not at all.\<close>

definition level_visits :: "u32 \<Rightarrow> int \<Rightarrow> u32 \<Rightarrow> u32 \<Rightarrow> nat \<Rightarrow> visit list \<Rightarrow> visit list" where
  "level_visits flags kind b ref off below =
     (let self = (if flags AND BLOCK_FLAG_DATA_ONLY = 0 then [(ucast b, kind, ucast ref, off)] else [])
      in if flags AND BLOCK_FLAG_DEPTH_TRAVERSE = 0 then self @ below else below @ self)"

definition ind_visits :: "fs_env \<Rightarrow> u32 \<Rightarrow> (u64 \<Rightarrow> block) \<Rightarrow> u32 \<Rightarrow> u32 \<Rightarrow> nat \<Rightarrow> int \<Rightarrow> visit list" where
  "ind_visits env flags dev b ref off n = level_visits flags BLOCK_COUNT_IND b ref off (data_visits b 0 n (addrs env dev b))"

definition dind_visits :: "fs_env \<Rightarrow> u32 \<Rightarrow> (u64 \<Rightarrow> block) \<Rightarrow> u32 \<Rightarrow> u32 \<Rightarrow> nat \<Rightarrow> int \<Rightarrow> visit list" where
  "dind_visits env flags dev b ref off n =
     level_visits flags BLOCK_COUNT_DIND b ref off (ptr_visits (ind_visits env flags dev) (ind_limit env) b 0 n (addrs env dev b))"

definition tind_visits :: "fs_env \<Rightarrow> u32 \<Rightarrow> (u64 \<Rightarrow> block) \<Rightarrow> u32 \<Rightarrow> u32 \<Rightarrow> nat \<Rightarrow> int \<Rightarrow> visit list" where
  "tind_visits env flags dev b ref off n =
     level_visits flags BLOCK_COUNT_TIND b ref off
       (ptr_visits (dind_visits env flags dev) (ind_limit env * ind_limit env) b 0 n (addrs env dev b))"

fun direct_visits :: "nat \<Rightarrow> u32 list \<Rightarrow> visit list" where
  "direct_visits i [] = []"
| "direct_visits i (b # bs) = (if b = 0 then [] else [(ucast b, int i, 0, i)]) @ direct_visits (i + 1) bs"

definition root_visits :: "(u32 \<Rightarrow> u32 \<Rightarrow> nat \<Rightarrow> int \<Rightarrow> visit list) \<Rightarrow> ext2_inode \<Rightarrow> nat \<Rightarrow> int \<Rightarrow> visit list" where
  "root_visits vis inode k n = (if i_block inode ! k = 0 then [] else vis (i_block inode ! k) 0 k n)"

definition file_visits :: "fs_env \<Rightarrow> u32 \<Rightarrow> (u64 \<Rightarrow> block) \<Rightarrow> ext2_inode \<Rightarrow> visit list" where
  "file_visits env flags dev inode =
     direct_visits 0 (take 12 (i_block inode))
     @ root_visits (ind_visits env flags dev) inode 12 12
     @ root_visits (dind_visits env flags dev) inode 13 (12 + ind_limit env)
     @ root_visits (tind_visits env flags dev) inode 14 (12 + ind_limit env + ind_limit env * ind_limit env)"

text \<open>Calling a function along the list, until it asks to stop.\<close>

fun visit_all :: "'s blk_func \<Rightarrow> visit list \<Rightarrow> fs_state \<times> 's \<Rightarrow> (bool \<times> fs_state \<times> 's) option" where
  "visit_all f [] w = Some (False, w)"
| "visit_all f ((b, n, ref, off) # vs) w =
     do { (r, _, w) \<leftarrow> f b n ref off w; if r AND BLOCK_ABORT \<noteq> 0 then Some (True, w) else visit_all f vs w }"

lemma visit_all_append:
  "visit_all f (xs @ ys) w = do { (ab, w) \<leftarrow> visit_all f xs w; if ab then Some (True, w) else visit_all f ys w }"
proof (induction xs arbitrary: w)
  case (Cons x xs)
  then show ?case by (cases x) (auto simp: bind_eq_Some_conv split: Option.bind_split)
qed simp

section \<open>What is required\<close>

text \<open>
  The function changes no block number and no other block of the device than the one it is called for,
  and not even this for a block of addresses; it asks for nothing but a stop.
\<close>

definition quiet :: "'s blk_func \<Rightarrow> bool" where
  "quiet f \<longleftrightarrow> (\<forall>b n ref off w r b' w'. f b n ref off w = Some (r, b', w') \<longrightarrow>
     (r = 0 \<or> r = BLOCK_ABORT) \<and> b' = b \<and> (\<forall>m. m \<noteq> b \<or> n < 0 \<longrightarrow> fs_dev (fst w') m = fs_dev (fst w) m))"

text \<open>
  The blocks of addresses are in the set \<open>M\<close>, in range and readable, and no data block is in \<open>M\<close>.
\<close>

definition addr_ok :: "fs_env \<Rightarrow> u64 set \<Rightarrow> u32 \<Rightarrow> bool" where
  "addr_ok env M b \<longleftrightarrow> ucast b \<in> M \<and> ucast b < ext2fs_blocks_count (fe_sb env)
     \<and> sb_first_data_block (fe_sb env) \<le> b \<and> fe_read_error env (ucast b) = None"

definition dind_ok :: "fs_env \<Rightarrow> u64 set \<Rightarrow> (u64 \<Rightarrow> block) \<Rightarrow> u32 \<Rightarrow> bool" where
  "dind_ok env M dev b \<longleftrightarrow> addr_ok env M b \<and> (\<forall>e\<in>set (addrs env dev b). e \<noteq> 0 \<longrightarrow> addr_ok env M e)"

definition tind_ok :: "fs_env \<Rightarrow> u64 set \<Rightarrow> (u64 \<Rightarrow> block) \<Rightarrow> u32 \<Rightarrow> bool" where
  "tind_ok env M dev b \<longleftrightarrow> addr_ok env M b \<and> (\<forall>e\<in>set (addrs env dev b). e \<noteq> 0 \<longrightarrow> dind_ok env M dev e)"

definition apart :: "u64 set \<Rightarrow> visit list \<Rightarrow> bool" where
  "apart M vs \<longleftrightarrow> (\<forall>(b, n, ref, off)\<in>set vs. b \<in> M \<longrightarrow> n < 0)"

definition file_mapped :: "fs_env \<Rightarrow> u64 set \<Rightarrow> u32 \<Rightarrow> (u64 \<Rightarrow> block) \<Rightarrow> ext2_inode \<Rightarrow> bool" where
  "file_mapped env M flags dev inode \<longleftrightarrow> length (i_block inode) = 15
     \<and> (i_block inode ! 12 \<noteq> 0 \<longrightarrow> addr_ok env M (i_block inode ! 12))
     \<and> (i_block inode ! 13 \<noteq> 0 \<longrightarrow> dind_ok env M dev (i_block inode ! 13))
     \<and> (i_block inode ! 14 \<noteq> 0 \<longrightarrow> tind_ok env M dev (i_block inode ! 14))
     \<and> apart M (file_visits env flags dev inode)"

definition agrees :: "u64 set \<Rightarrow> (u64 \<Rightarrow> block) \<Rightarrow> fs_state \<times> 's \<Rightarrow> bool" where
  "agrees M dev w \<longleftrightarrow> (\<forall>m\<in>M. fs_dev (fst w) m = dev m)"

lemma apart_append [simp]: "apart M (xs @ ys) \<longleftrightarrow> apart M xs \<and> apart M ys"
  by (auto simp: apart_def)

lemma visit_all_keeps:
  assumes "quiet f" "apart M vs" "agrees M dev w" "visit_all f vs w = Some (ab, w')"
  shows "agrees M dev w'"
  using assms(2-)
proof (induction vs arbitrary: w)
  case (Cons v vs)
  obtain b n ref off where v: "v = (b, n, ref, off)" by (metis surj_pair)
  obtain r b' w1 where f: "f b n ref off w = Some (r, b', w1)" using Cons.prems(3) by (auto simp: v bind_eq_Some_conv)
  have "fs_dev (fst w1) m = fs_dev (fst w) m" if "m \<in> M" for m
  proof -
    have "m \<noteq> b \<or> n < 0" using Cons.prems(1) that by (auto simp: apart_def v)
    with assms(1) f show ?thesis unfolding quiet_def by blast
  qed
  then have "agrees M dev w1" using Cons.prems(2) by (simp add: agrees_def)
  with Cons show ?case by (auto simp: v f apart_def split: if_splits)
qed simp

lemma flags_stop [simp]: "BLOCK_ABORT AND BLOCK_CHANGED = 0" "BLOCK_ABORT AND BLOCK_ERROR = 0" "BLOCK_ABORT AND BLOCK_ABORT \<noteq> 0"
  "BLOCK_ABORT AND (BLOCK_ABORT OR BLOCK_ERROR) = BLOCK_ABORT" "BLOCK_ABORT \<noteq> 0"
  by (simp_all add: BLOCK_ABORT_def BLOCK_CHANGED_def BLOCK_ERROR_def)

text \<open>
  What a loop or a level does, compared to the walk along the list \<open>vs\<close>; \<open>mk\<close> makes its result from the
  flags and the context.
\<close>

definition walks ::
    "'s blk_func \<Rightarrow> visit list \<Rightarrow> int \<Rightarrow> 's block_context \<Rightarrow> (u32 \<Rightarrow> 's block_context \<Rightarrow> 'r) \<Rightarrow> 'r option \<Rightarrow> bool" where
  "walks f vs skip c mk res \<longleftrightarrow>
     (case visit_all f vs (bc_state c) of
        None \<Rightarrow> res = None
      | Some (ab, w) \<Rightarrow> \<exists>c'. res = Some (mk (if ab then BLOCK_ABORT else 0) c') \<and> bc_state c' = w
          \<and> (\<not> ab \<longrightarrow> bc_bcount c' = bc_bcount c + skip) \<and> (bc_errcode c = None \<longrightarrow> bc_errcode c' = None))"

lemma walks_append:
  assumes "walks f xs s c mk1 res1"
    and "\<And>c'. res1 = Some (mk1 0 c') \<Longrightarrow> visit_all f xs (bc_state c) = Some (False, bc_state c') \<Longrightarrow> bc_bcount c' = bc_bcount c + s \<Longrightarrow>
      (bc_errcode c = None \<longrightarrow> bc_errcode c' = None) \<Longrightarrow> walks f ys t c' mk (g (mk1 0 c'))"
    and "\<And>c'. \<exists>c''. g (mk1 BLOCK_ABORT c') = Some (mk BLOCK_ABORT c'') \<and> bc_state c'' = bc_state c' \<and> bc_errcode c'' = bc_errcode c'"
  shows "walks f (xs @ ys) (s + t) c mk (do { r \<leftarrow> res1; g r })"
proof (cases "visit_all f xs (bc_state c)")
  case None
  with assms(1) show ?thesis by (simp add: walks_def visit_all_append)
next
  case (Some x)
  obtain ab w where x: "x = (ab, w)" by (rule prod.exhaust)
  have "\<exists>c'. res1 = Some (mk1 (if ab then BLOCK_ABORT else 0) c') \<and> bc_state c' = w
    \<and> (\<not> ab \<longrightarrow> bc_bcount c' = bc_bcount c + s) \<and> (bc_errcode c = None \<longrightarrow> bc_errcode c' = None)"
    using assms(1) Some by (simp add: walks_def x)
  then obtain c' where c': "res1 = Some (mk1 (if ab then BLOCK_ABORT else 0) c')" "bc_state c' = w"
    "\<not> ab \<longrightarrow> bc_bcount c' = bc_bcount c + s" "bc_errcode c = None \<longrightarrow> bc_errcode c' = None"
    by (elim exE conjE) (rule that, assumption+)
  show ?thesis
  proof (cases ab)
    case True
    obtain c'' where c'': "g (mk1 BLOCK_ABORT c') = Some (mk BLOCK_ABORT c'')" "bc_state c'' = bc_state c'" "bc_errcode c'' = bc_errcode c'"
      using assms(3) [of c'] by blast
    have "res1 \<bind> g = Some (mk BLOCK_ABORT c'')" using c'(1) True c''(1) by simp
    moreover have "visit_all f (xs @ ys) (bc_state c) = Some (True, w)" using Some True by (simp add: visit_all_append x)
    ultimately show ?thesis
      using c'(2,4) c''(2,3) unfolding walks_def by (simp only: option.case prod.case) (intro exI [of _ c''], simp)
  next
    case False
    with c' Some x have "walks f ys t c' mk (g (mk1 0 c'))" by (intro assms(2)) auto
    then have y: "walks f ys t c' mk (g (mk1 0 c'))" .
    have e: "res1 \<bind> g = g (mk1 0 c')" "visit_all f (xs @ ys) (bc_state c) = visit_all f ys w"
      using c'(1) False Some by (simp_all add: visit_all_append x)
    show ?thesis
    proof (cases "visit_all f ys w")
      case None
      with y c'(2) show ?thesis by (simp add: walks_def e)
    next
      case (Some z)
      obtain ab2 w2 where z: "z = (ab2, w2)" by (rule prod.exhaust)
      have "\<exists>c''. g (mk1 0 c') = Some (mk (if ab2 then BLOCK_ABORT else 0) c'') \<and> bc_state c'' = w2
        \<and> (\<not> ab2 \<longrightarrow> bc_bcount c'' = bc_bcount c' + t) \<and> (bc_errcode c' = None \<longrightarrow> bc_errcode c'' = None)"
        using y Some c'(2) by (simp add: walks_def z)
      then obtain c'' where "g (mk1 0 c') = Some (mk (if ab2 then BLOCK_ABORT else 0) c'')" "bc_state c'' = w2"
        "\<not> ab2 \<longrightarrow> bc_bcount c'' = bc_bcount c' + t" "bc_errcode c' = None \<longrightarrow> bc_errcode c'' = None"
        by (elim exE conjE) (rule that, assumption+)
      with Some z c'(3,4) False show ?thesis unfolding walks_def e by (auto intro!: exI [of _ c''])
    qed
  qed
qed

text \<open>One call.\<close>

lemma call_walks:
  assumes "quiet f"
  shows "walks f [(b, n, ref, off)] 0 c (\<lambda>fl c'. (fl, b, c')) (call_func f b n ref off c)"
proof (cases "f b n ref off (bc_state c)")
  case None
  then show ?thesis by (simp add: walks_def call_func_def)
next
  case (Some x)
  obtain r b' w where x: "x = (r, b', w)" by (metis surj_pair)
  have "(r = 0 \<or> r = BLOCK_ABORT) \<and> b' = b" using assms Some unfolding x quiet_def by blast
  with Some x show ?thesis by (auto simp: walks_def call_func_def)
qed

lemma walks_count:
  assumes "walks f vs s (c\<lparr>bc_bcount := n\<rparr>) mk res" "n + s = bc_bcount c + t"
  shows "walks f vs t c mk res"
  using assms by (auto simp: walks_def split: option.splits)

lemma walks_map:
  assumes "walks f vs s c mk res" "\<And>fl c'. fl = 0 \<or> fl = BLOCK_ABORT \<Longrightarrow> h (mk fl c') = Some (mk' fl c')"
  shows "walks f vs s c mk' (do { r \<leftarrow> res; h r })"
  using assms(1) by (auto simp: walks_def assms(2) split: option.splits)

lemma ind_loop_walks:
  assumes q: "quiet f"
  shows "walks f (data_visits b off (bc_bcount c) es) (int (length es)) c (\<lambda>fl c'. (es, fl, fl, c')) (ind_loop False f b off es c)"
proof (induction es arbitrary: off c)
  case Nil
  then show ?case by (simp add: walks_def)
next
  case (Cons e es)
  have rest: "walks f (data_visits b (off + 4) (bc_bcount c + 1) es) (1 + int (length es)) c (\<lambda>fl c'. (e # es, fl, fl, c'))
      (do { (bs, changed, ret, c) \<leftarrow> ind_loop False f b (off + 4) es (c\<lparr>bc_bcount := bc_bcount c + 1\<rparr>); Some (e # bs, changed, ret, c) })" for c
  proof (rule walks_count [where n = "bc_bcount c + 1" and s = "int (length es)"])
    show "walks f (data_visits b (off + 4) (bc_bcount c + 1) es) (int (length es)) (c\<lparr>bc_bcount := bc_bcount c + 1\<rparr>) (\<lambda>fl c'. (e # es, fl, fl, c'))
      (do { (bs, changed, ret, c) \<leftarrow> ind_loop False f b (off + 4) es (c\<lparr>bc_bcount := bc_bcount c + 1\<rparr>); Some (e # bs, changed, ret, c) })"
      by (rule walks_map [OF Cons.IH [of "off + 4" "c\<lparr>bc_bcount := bc_bcount c + 1\<rparr>", simplified]]) simp
  qed simp
  show ?case
  proof (cases "e = 0")
    case True
    with rest [of c] show ?thesis by (simp add: add.commute)
  next
    case False
    let ?g = "\<lambda>(fl, blk :: u64, c). if fl AND BLOCK_ABORT \<noteq> 0 then Some (ucast blk # es, fl, BLOCK_ABORT, c)
                else do { (bs, changed, ret, c) \<leftarrow> ind_loop False f b (off + 4) es (c\<lparr>bc_bcount := bc_bcount c + 1\<rparr>);
                          Some (ucast blk # bs, fl OR changed, ret, c) }"
    have "walks f ([(ucast e, bc_bcount c, ucast b, off)] @ data_visits b (off + 4) (bc_bcount c + 1) es) (0 + (1 + int (length es))) c
        (\<lambda>fl c'. (e # es, fl, fl, c')) (do { r \<leftarrow> call_func f (ucast e) (bc_bcount c) (ucast b) off c; ?g r })"
    proof (rule walks_append [OF call_walks [OF q]])
      fix c' :: "'a block_context"
      assume n: "bc_bcount c' = bc_bcount c + 0"
      show "walks f (data_visits b (off + 4) (bc_bcount c + 1) es) (1 + int (length es)) c' (\<lambda>fl c'. (e # es, fl, fl, c')) (?g (0, ucast e, c'))"
        using rest [of c'] n by (simp add: case_prod_unfold)
    qed simp
    with False show ?thesis by (simp add: add.commute)
  qed
qed

lemma ptr_loop_walks:
  assumes q: "quiet f"
    and inner: "\<And>b off c. b \<in> set es \<Longrightarrow> b \<noteq> 0 \<Longrightarrow> agrees M dev (bc_state c) \<Longrightarrow> apart M (vis b ref off (bc_bcount c)) \<Longrightarrow>
      walks f (vis b ref off (bc_bcount c)) skip c (\<lambda>fl c'. (fl, b, c')) (inner b ref off c)"
    and "agrees M dev (bc_state c)" "apart M (ptr_visits (\<lambda>e b. vis e b) skip ref off (bc_bcount c) es)"
  shows "walks f (ptr_visits vis skip ref off (bc_bcount c) es) (skip * int (length es)) c (\<lambda>fl c'. (es, fl, fl, c'))
      (ptr_loop False inner skip ref off es c)"
  using inner assms(3,4)
proof (induction es arbitrary: off c)
  case Nil
  then show ?case by (simp add: walks_def)
next
  case (Cons e es)
  note IH = Cons.IH [OF Cons.prems(1)]
  show ?case
  proof (cases "e = 0")
    case True
    have "walks f (ptr_visits vis skip ref off (bc_bcount c + skip) es) (skip * int (length es)) (c\<lparr>bc_bcount := bc_bcount c + skip\<rparr>)
        (\<lambda>fl c'. (es, fl, fl, c')) (ptr_loop False inner skip ref off es (c\<lparr>bc_bcount := bc_bcount c + skip\<rparr>))"
      using IH [of "c\<lparr>bc_bcount := bc_bcount c + skip\<rparr>" off] Cons.prems(2,3) True by simp
    then have "walks f (ptr_visits vis skip ref off (bc_bcount c + skip) es) (skip * int (length es)) (c\<lparr>bc_bcount := bc_bcount c + skip\<rparr>)
        (\<lambda>fl c'. (e # es, fl, fl, c'))
        (do { (bs, changed, ret, c) \<leftarrow> ptr_loop False inner skip ref off es (c\<lparr>bc_bcount := bc_bcount c + skip\<rparr>); Some (e # bs, changed, ret, c) })"
      by (rule walks_map) simp
    from walks_count [OF this, of "skip + skip * int (length es)"] True show ?thesis by (simp add: distrib_left)
  next
    case False
    let ?g = "\<lambda>(fl, b, c). if fl AND (BLOCK_ABORT OR BLOCK_ERROR) \<noteq> 0
                then Some (b # es, fl, fl AND (BLOCK_ABORT OR BLOCK_ERROR), c)
                else do { (bs, changed, ret, c) \<leftarrow> ptr_loop False inner skip ref (off + 4) es c;
                          Some (b # bs, fl OR changed, ret, c) }"
    have ap: "apart M (vis e ref off (bc_bcount c))" "apart M (ptr_visits vis skip ref (off + 4) (bc_bcount c + skip) es)"
      using Cons.prems(3) False by simp_all
    have "walks f (vis e ref off (bc_bcount c) @ ptr_visits vis skip ref (off + 4) (bc_bcount c + skip) es) (skip + skip * int (length es)) c
        (\<lambda>fl c'. (e # es, fl, fl, c')) (do { r \<leftarrow> inner e ref off c; ?g r })"
    proof (rule walks_append [OF Cons.prems(1) [OF _ False Cons.prems(2) ap(1)]])
      fix c' :: "'a block_context"
      assume v: "visit_all f (vis e ref off (bc_bcount c)) (bc_state c) = Some (False, bc_state c')"
        and n: "bc_bcount c' = bc_bcount c + skip"
      have "agrees M dev (bc_state c')" by (rule visit_all_keeps [OF q ap(1) Cons.prems(2) v])
      then have "walks f (ptr_visits vis skip ref (off + 4) (bc_bcount c + skip) es) (skip * int (length es)) c' (\<lambda>fl c'. (es, fl, fl, c'))
          (ptr_loop False inner skip ref (off + 4) es c')"
        using IH [of c' "off + 4"] ap(2) by (simp add: n)
      then show "walks f (ptr_visits vis skip ref (off + 4) (bc_bcount c + skip) es) (skip * int (length es)) c'
          (\<lambda>fl c'. (e # es, fl, fl, c')) (?g (0, e, c'))"
        by (simp add: walks_map)
    qed simp_all
    with False show ?thesis by (simp add: distrib_left)
  qed
qed

lemma walks_cases:
  assumes "walks f vs s c mk res"
  obtains (none) "res = None"
  | (some) fl c' where "res = Some (mk fl c')" "fl = 0 \<or> fl = BLOCK_ABORT" "visit_all f vs (bc_state c) = Some (fl = BLOCK_ABORT, bc_state c')"
      "fl = 0 \<longrightarrow> bc_bcount c' = bc_bcount c + s"
  using assms unfolding walks_def by (auto split: option.splits prod.splits if_splits)

lemma walks_errcode: "walks f vs s (c\<lparr>bc_errcode := None\<rparr>) mk res \<Longrightarrow> walks f vs s c mk res"
  by (auto simp: walks_def split: option.splits)

lemma level_walks:
  assumes q: "quiet f" and b: "b \<noteq> 0" "addr_ok env M b" and image: "fe_flags env AND EXT2_FLAG_IMAGE_FILE = 0"
    and loop: "\<And>c. agrees M dev (bc_state c) \<Longrightarrow> apart M (below (bc_bcount c)) \<Longrightarrow>
      walks f (below (bc_bcount c)) skip c (\<lambda>fl c'. (addrs env dev b, fl, fl, c')) (loop b (addrs env dev b) c)"
    and a: "agrees M dev (bc_state c)" and kind: "kind < 0" and ap: "apart M (below (bc_bcount c))"
  shows "walks f (level_visits flags kind b ref off (below (bc_bcount c))) skip c (\<lambda>fl c'. (fl, b, c'))
      (iterate_level env flags f kind skip bad loop b ref off c)"
proof -
  let ?self = "[(ucast b, kind, ucast ref, off)] :: visit list"
  let ?pre = "flags AND BLOCK_FLAG_DEPTH_TRAVERSE = 0 \<and> flags AND BLOCK_FLAG_DATA_ONLY = 0"
  let ?post = "flags AND BLOCK_FLAG_DEPTH_TRAVERSE \<noteq> 0 \<and> flags AND BLOCK_FLAG_DATA_ONLY = 0"
  have noro: "\<not> ro_violation flags BLOCK_ABORT" "\<not> ro_violation flags 0" by (simp_all add: ro_violation_def)
  define first where "first = (if ?pre then do { (r, b, c) \<leftarrow> call_func f (ucast b) kind (ucast ref) off c; Some (r, ucast b, c) }
             else Some (0 :: u32, b, c))"
  define last where "last = (\<lambda>ret c. if ?post then do { (r, b, c) \<leftarrow> call_func f (ucast b) kind (ucast ref) off c; Some (ret OR r, ucast b :: u32, c) }
             else Some (ret, b, c))"
  define rest where "rest = (\<lambda>c. do { (es, changed, r, c) \<leftarrow> loop b (addrs env dev b) (c\<lparr>bc_errcode := None\<rparr>);
      if r AND BLOCK_ABORT \<noteq> 0 then Some (r, b, c) else last r c })"
  have first: "walks f (if ?pre then ?self else []) 0 c (\<lambda>fl c'. (fl, b, c')) first"
  proof (cases ?pre)
    case True
    have "walks f ?self 0 c (\<lambda>fl c'. (fl, b, c')) (do { (r, b, c) \<leftarrow> call_func f (ucast b) kind (ucast ref) off c; Some (r, ucast b, c) })"
      by (rule walks_map [OF call_walks [OF q]]) simp
    with True show ?thesis by (simp add: first_def)
  qed (auto simp: first_def walks_def)
  have last: "walks f (if ?post then ?self else []) 0 c' (\<lambda>fl c'. (fl, b, c')) (last 0 c')" for c'
  proof (cases ?post)
    case True
    have "walks f ?self 0 c' (\<lambda>fl c'. (fl, b, c')) (do { (r, b, c) \<leftarrow> call_func f (ucast b) kind (ucast ref) off c'; Some (0 OR r, ucast b, c) })"
      by (rule walks_map [OF call_walks [OF q]]) simp
    with True show ?thesis by (simp add: last_def)
  qed (auto simp: last_def walks_def)
  have rest: "walks f (below (bc_bcount c') @ (if ?post then ?self else [])) (skip + 0) c' (\<lambda>fl c'. (fl, b, c')) (rest c')"
    if "agrees M dev (bc_state c')" "apart M (below (bc_bcount c'))" for c'
  proof -
    have "walks f (below (bc_bcount c') @ (if ?post then ?self else [])) (skip + 0) (c'\<lparr>bc_errcode := None\<rparr>) (\<lambda>fl c'. (fl, b, c'))
        (do { r \<leftarrow> loop b (addrs env dev b) (c'\<lparr>bc_errcode := None\<rparr>);
              (case r of (es, changed, r, c) \<Rightarrow> if r AND BLOCK_ABORT \<noteq> 0 then Some (r, b, c) else last r c) })"
    proof (rule walks_append)
      show "walks f (below (bc_bcount c')) skip (c'\<lparr>bc_errcode := None\<rparr>) (\<lambda>fl c'. (addrs env dev b, fl, fl, c')) (loop b (addrs env dev b) (c'\<lparr>bc_errcode := None\<rparr>))"
        using loop [of "c'\<lparr>bc_errcode := None\<rparr>"] that by simp
    qed (use last in \<open>auto simp: flags_stop\<close>)
    then show ?thesis unfolding rest_def by (rule walks_errcode)
  qed
  have eq: "iterate_level env flags f kind skip bad loop b ref off c = do { r \<leftarrow> first;
      (case r of (ret, b', c') \<Rightarrow> if ret AND BLOCK_ABORT \<noteq> 0 then Some (ret, b', c'\<lparr>bc_bcount := bc_bcount c' + skip\<rparr>) else rest c') }"
  proof (rule walks_cases [OF first])
    assume "first = None"
    then show ?thesis unfolding iterate_level_def first_def [symmetric] by simp
  next
    fix fl c1
    assume some: "first = Some (fl, b, c1)" "fl = 0 \<or> fl = BLOCK_ABORT"
      "visit_all f (if ?pre then ?self else []) (bc_state c) = Some (fl = BLOCK_ABORT, bc_state c1)"
      "fl = 0 \<longrightarrow> bc_bcount c1 = bc_bcount c + 0"
    have "apart M (if ?pre then ?self else [])" using kind by (simp add: apart_def)
    from visit_all_keeps [OF q this a some(3)] have a1: "agrees M dev (bc_state c1)" .
    have rd: "ext2fs_read_ind_block env (fst (bc_state c1)) b = Inr (addrs env dev b)"
      using a1 b image by (simp add: ext2fs_read_ind_block_def io_read_blk_def addr_ok_def agrees_def addrs_def)
    have range: "\<not> (ucast b \<ge> ext2fs_blocks_count (fe_sb env) \<or> b < sb_first_data_block (fe_sb env))"
      using b(2) by (simp add: addr_ok_def not_le not_less)
    have noro': "\<not> ro_violation flags fl" using some(2) noro by auto
    show ?thesis
    proof (cases "fl AND BLOCK_ABORT \<noteq> 0")
      case True
      then show ?thesis unfolding iterate_level_def first_def [symmetric] some(1) using noro' by simp
    next
      case False
      then have fl: "fl = 0" using some(2) by auto
      have a2: "agrees M dev (bc_state (c1\<lparr>bc_errcode := None\<rparr>))" "apart M (below (bc_bcount (c1\<lparr>bc_errcode := None\<rparr>)))"
        using a1 ap some(4) fl by simp_all
      have "iterate_level env flags f kind skip bad loop b ref off c = rest c1"
      proof (rule walks_cases [OF loop [OF a2]])
        assume "loop b (addrs env dev b) (c1\<lparr>bc_errcode := None\<rparr>) = None"
        then show ?thesis unfolding iterate_level_def first_def [symmetric] some(1) rest_def
          using noro' range b(1) fl by (simp add: rd)
      next
        fix fl2 c2
        assume "loop b (addrs env dev b) (c1\<lparr>bc_errcode := None\<rparr>) = Some (addrs env dev b, fl2, fl2, c2)" "fl2 = 0 \<or> fl2 = BLOCK_ABORT"
        then show ?thesis unfolding iterate_level_def first_def [symmetric] some(1) rest_def
          using noro noro' range b(1) fl
          by (rule_tac walks_cases [OF call_walks [OF q, of "ucast b" kind "ucast ref" off c2]]) (auto simp add: rd last_def)
      qed
      with fl some(1) show ?thesis by simp
    qed
  qed
  have "walks f ((if ?pre then ?self else []) @ below (bc_bcount c) @ (if ?post then ?self else [])) (0 + (skip + 0)) c (\<lambda>fl c'. (fl, b, c'))
      (iterate_level env flags f kind skip bad loop b ref off c)"
    unfolding eq
  proof (rule walks_append [OF first])
    fix c' :: "'a block_context"
    assume v: "visit_all f (if ?pre then ?self else []) (bc_state c) = Some (False, bc_state c')" and n: "bc_bcount c' = bc_bcount c + 0"
    have "apart M (if ?pre then ?self else [])" using kind by (simp add: apart_def)
    from visit_all_keeps [OF q this a v] rest [of c'] n ap
    show "walks f (below (bc_bcount c) @ (if ?post then ?self else [])) (skip + 0) c' (\<lambda>fl c'. (fl, b, c'))
        (case (0, b, c') of (ret, b', c') \<Rightarrow> if ret AND BLOCK_ABORT \<noteq> 0 then Some (ret, b', c'\<lparr>bc_bcount := bc_bcount c' + skip\<rparr>) else rest c')"
      by simp
  qed auto
  then show ?thesis by (auto simp: level_visits_def Let_def split: if_splits)
qed

lemma length_addrs: "int (length (addrs env dev b)) = ind_limit env"
  by (simp add: addrs_def ind_limit_def)

lemma apart_level: "apart M (level_visits flags kind b ref off below) \<Longrightarrow> apart M below"
  by (auto simp: level_visits_def Let_def split: if_splits)

section \<open>The levels\<close>

lemma ind_walks:
  assumes "quiet f" "b \<noteq> 0" "addr_ok env M b" "fe_flags env AND EXT2_FLAG_IMAGE_FILE = 0" "flags AND BLOCK_FLAG_APPEND = 0"
    and "agrees M dev (bc_state c)" "apart M (ind_visits env flags dev b ref off (bc_bcount c))"
  shows "walks f (ind_visits env flags dev b ref off (bc_bcount c)) (ind_limit env) c (\<lambda>fl c'. (fl, b, c'))
      (block_iterate_ind env flags f b ref off c)"
  unfolding block_iterate_ind_def ind_visits_def
proof (rule level_walks [OF assms(1-4), where below = "\<lambda>n. data_visits b 0 n (addrs env dev b)"])
  show "walks f (data_visits b 0 (bc_bcount c) (addrs env dev b)) (ind_limit env) c (\<lambda>fl c'. (addrs env dev b, fl, fl, c'))
      (ind_loop (flags AND BLOCK_FLAG_APPEND \<noteq> 0) f b 0 (addrs env dev b) c)" for c
    using ind_loop_walks [OF assms(1), of b 0 c "addrs env dev b"] assms(5) by (simp add: length_addrs)
qed (use assms(6) apart_level [OF assms(7) [unfolded ind_visits_def]] in \<open>simp_all add: BLOCK_COUNT_IND_def\<close>)

lemma dind_walks:
  assumes "quiet f" "b \<noteq> 0" "dind_ok env M dev b" "fe_flags env AND EXT2_FLAG_IMAGE_FILE = 0" "flags AND BLOCK_FLAG_APPEND = 0"
    and "agrees M dev (bc_state c)" "apart M (dind_visits env flags dev b ref off (bc_bcount c))"
  shows "walks f (dind_visits env flags dev b ref off (bc_bcount c)) (ind_limit env * ind_limit env) c (\<lambda>fl c'. (fl, b, c'))
      (block_iterate_dind env flags f b ref off c)"
  unfolding block_iterate_dind_def dind_visits_def
proof (rule level_walks [OF assms(1,2) _ assms(4), where below = "\<lambda>n. ptr_visits (ind_visits env flags dev) (ind_limit env) b 0 n (addrs env dev b)"])
  show "addr_ok env M b" using assms(3) by (simp add: dind_ok_def)
  show "walks f (ptr_visits (ind_visits env flags dev) (ind_limit env) b 0 (bc_bcount c) (addrs env dev b)) (ind_limit env * ind_limit env) c
      (\<lambda>fl c'. (addrs env dev b, fl, fl, c'))
      (ptr_loop (flags AND BLOCK_FLAG_APPEND \<noteq> 0) (block_iterate_ind env flags f) (ind_limit env) b 0 (addrs env dev b) c)"
    if "agrees M dev (bc_state c)" "apart M (ptr_visits (ind_visits env flags dev) (ind_limit env) b 0 (bc_bcount c) (addrs env dev b))" for c
  proof -
    have inner: "walks f (ind_visits env flags dev e b off (bc_bcount c)) (ind_limit env) c (\<lambda>fl c'. (fl, e, c')) (block_iterate_ind env flags f e b off c)"
      if "e \<in> set (addrs env dev b)" "e \<noteq> 0" "agrees M dev (bc_state c)" "apart M (ind_visits env flags dev e b off (bc_bcount c))" for e off c
      using assms(3) that by (intro ind_walks [OF assms(1) _ _ assms(4,5)]) (auto simp: dind_ok_def)
    show ?thesis
      using ptr_loop_walks [where es = "addrs env dev b" and vis = "ind_visits env flags dev" and skip = "ind_limit env" and M = M and dev = dev and ref = b
        and inner = "block_iterate_ind env flags f", OF assms(1) inner that] assms(5)
      by (simp add: length_addrs)
  qed
qed (use assms(6) apart_level [OF assms(7) [unfolded dind_visits_def]] in \<open>simp_all add: BLOCK_COUNT_DIND_def\<close>)

lemma tind_walks:
  assumes "quiet f" "b \<noteq> 0" "tind_ok env M dev b" "fe_flags env AND EXT2_FLAG_IMAGE_FILE = 0" "flags AND BLOCK_FLAG_APPEND = 0"
    and "agrees M dev (bc_state c)" "apart M (tind_visits env flags dev b ref off (bc_bcount c))"
  shows "walks f (tind_visits env flags dev b ref off (bc_bcount c)) (ind_limit env * ind_limit env * ind_limit env) c (\<lambda>fl c'. (fl, b, c'))
      (block_iterate_tind env flags f b ref off c)"
  unfolding block_iterate_tind_def tind_visits_def
proof (rule level_walks [OF assms(1,2) _ assms(4),
    where below = "\<lambda>n. ptr_visits (dind_visits env flags dev) (ind_limit env * ind_limit env) b 0 n (addrs env dev b)"])
  show "addr_ok env M b" using assms(3) by (simp add: tind_ok_def)
  show "walks f (ptr_visits (dind_visits env flags dev) (ind_limit env * ind_limit env) b 0 (bc_bcount c) (addrs env dev b))
      (ind_limit env * ind_limit env * ind_limit env) c (\<lambda>fl c'. (addrs env dev b, fl, fl, c'))
      (ptr_loop (flags AND BLOCK_FLAG_APPEND \<noteq> 0) (block_iterate_dind env flags f) (ind_limit env * ind_limit env) b 0 (addrs env dev b) c)"
    if "agrees M dev (bc_state c)"
      "apart M (ptr_visits (dind_visits env flags dev) (ind_limit env * ind_limit env) b 0 (bc_bcount c) (addrs env dev b))" for c
  proof -
    have inner: "walks f (dind_visits env flags dev e b off (bc_bcount c)) (ind_limit env * ind_limit env) c (\<lambda>fl c'. (fl, e, c')) (block_iterate_dind env flags f e b off c)"
      if "e \<in> set (addrs env dev b)" "e \<noteq> 0" "agrees M dev (bc_state c)" "apart M (dind_visits env flags dev e b off (bc_bcount c))" for e off c
      using assms(3) that by (intro dind_walks [OF assms(1) _ _ assms(4,5)]) (auto simp: tind_ok_def)
    show ?thesis
      using ptr_loop_walks [where es = "addrs env dev b" and vis = "dind_visits env flags dev" and skip = "ind_limit env * ind_limit env" and M = M and dev = dev and ref = b
        and inner = "block_iterate_dind env flags f", OF assms(1) inner that] assms(5)
      by (simp add: length_addrs)
  qed
qed (use assms(6) apart_level [OF assms(7) [unfolded tind_visits_def]] in \<open>simp_all add: BLOCK_COUNT_TIND_def\<close>)

lemma direct_loop_walks:
  assumes q: "quiet f" and n: "bc_bcount c = int i"
  shows "walks f (direct_visits i bs) (int (length bs)) c (\<lambda>fl c'. (bs, fl \<noteq> 0, fl, c')) (direct_loop False f i bs 0 c)"
  using n
proof (induction bs arbitrary: i c)
  case Nil
  then show ?case by (simp add: walks_def)
next
  case (Cons b bs)
  have rest: "walks f (direct_visits (i + 1) bs) (1 + int (length bs)) c (\<lambda>fl c'. (b # bs, fl \<noteq> 0, fl, c'))
      (do { (bs, ab, ret, c) \<leftarrow> direct_loop False f (i + 1) bs 0 (c\<lparr>bc_bcount := bc_bcount c + 1\<rparr>); Some (b # bs, ab, ret, c) })"
    if "bc_bcount c = int i" for c
  proof (rule walks_count [where n = "bc_bcount c + 1" and s = "int (length bs)"])
    show "walks f (direct_visits (i + 1) bs) (int (length bs)) (c\<lparr>bc_bcount := bc_bcount c + 1\<rparr>) (\<lambda>fl c'. (b # bs, fl \<noteq> 0, fl, c'))
      (do { (bs, ab, ret, c) \<leftarrow> direct_loop False f (i + 1) bs 0 (c\<lparr>bc_bcount := bc_bcount c + 1\<rparr>); Some (b # bs, ab, ret, c) })"
      by (rule walks_map [OF Cons.IH]) (simp_all add: that)
  qed simp
  show ?case
  proof (cases "b = 0")
    case True
    with rest [OF Cons.prems] show ?thesis by (simp add: add.commute)
  next
    case False
    let ?g = "\<lambda>(fl, blk :: u64, c). let ret = 0 OR fl
                in if ret AND BLOCK_ABORT \<noteq> 0 then Some (ucast blk # bs, True, ret, c)
                   else do { (bs, ab, ret, c) \<leftarrow> direct_loop False f (i + 1) bs ret (c\<lparr>bc_bcount := bc_bcount c + 1\<rparr>);
                             Some (ucast blk # bs, ab, ret, c) }"
    have "walks f ([(ucast b, bc_bcount c, 0, i)] @ direct_visits (i + 1) bs) (0 + (1 + int (length bs))) c
        (\<lambda>fl c'. (b # bs, fl \<noteq> 0, fl, c')) (do { r \<leftarrow> call_func f (ucast b) (bc_bcount c) 0 i c; ?g r })"
    proof (rule walks_append [OF call_walks [OF q]])
      fix c' :: "'a block_context"
      assume n: "bc_bcount c' = bc_bcount c + 0"
      show "walks f (direct_visits (i + 1) bs) (1 + int (length bs)) c' (\<lambda>fl c'. (b # bs, fl \<noteq> 0, fl, c')) (?g (0, ucast b, c'))"
        using rest [of c'] n Cons.prems by (simp add: case_prod_unfold)
    qed simp
    with False Cons.prems show ?thesis by (simp add: add.commute)
  qed
qed

lemma root_step_walks:
  assumes "i_block inode ! k \<noteq> 0 \<longrightarrow> walks f (vis (i_block inode ! k) 0 k (bc_bcount c)) s c (\<lambda>fl c'. (fl, i_block inode ! k, c'))
      (iter (i_block inode ! k) 0 k c)"
  shows "walks f (root_visits vis inode k (bc_bcount c)) (if i_block inode ! k = 0 then skip else s) c (\<lambda>fl c'. (inode, fl \<noteq> 0, fl, c'))
      (root_step False iter k skip (inode, False, 0, c))"
proof (cases "i_block inode ! k = 0")
  case True
  then show ?thesis by (simp add: root_visits_def root_step_def walks_def)
next
  case False
  have "walks f (vis (i_block inode ! k) 0 k (bc_bcount c)) s c (\<lambda>fl c'. (inode, fl \<noteq> 0, fl, c'))
      (do { r \<leftarrow> iter (i_block inode ! k) 0 k c;
            (case r of (r, blk, c) \<Rightarrow> Some (inode\<lparr>i_block := (i_block inode)[k := blk]\<rparr>, (0 OR r) AND BLOCK_ABORT \<noteq> 0, 0 OR r, c)) })"
    by (rule walks_map [OF assms [rule_format, OF False]]) auto
  with False show ?thesis by (simp add: root_visits_def root_step_def)
qed

section \<open>The iteration\<close>

text \<open>What the caller passes: a readable inode with blocks, no request to append, a buffer or memory for it.\<close>

definition iteration_ready :: "fs_env \<Rightarrow> fs_state \<Rightarrow> u32 \<Rightarrow> u32 \<Rightarrow> bool \<Rightarrow> ext2_inode \<Rightarrow> bool" where
  "iteration_ready env fs ino flags block_buf inode \<longleftrightarrow> ext2fs_read_inode env fs ino = Inr inode
     \<and> i_flags inode AND EXT4_INLINE_DATA_FL = 0 \<and> i_flags inode AND EXT4_EXTENTS_FL = 0
     \<and> flags AND BLOCK_FLAG_APPEND = 0 \<and> flags AND BLOCK_FLAG_NO_LARGE = 0
     \<and> (sb_creator_os (fe_sb env) = EXT2_OS_HURD \<longrightarrow> h_i_translator inode = 0)
     \<and> (block_buf \<or> fe_malloc env (3 * fe_blocksize env)) \<and> fe_flags env AND EXT2_FLAG_IMAGE_FILE = 0"

lemma abort_exit_quiet: "fl = 0 \<or> fl = BLOCK_ABORT \<Longrightarrow> abort_exit env ino inode fl c = (None, bc_state c)"
  by (auto simp: abort_exit_def)

lemma block_iterate_walk:
  assumes rdy: "iteration_ready env (fst w) ino flags block_buf inode" and q: "quiet f"
    and mapped: "file_mapped env M flags (fs_dev (fst w)) inode"
  shows "ext2fs_block_iterate3 env extents ino flags block_buf f w =
    do { (ab, w) \<leftarrow> visit_all f (file_visits env flags (fs_dev (fst w)) inode) w; Some (None, w) }"
proof -
  let ?dev = "fs_dev (fst w)" and ?l = "ind_limit env"
  define c0 :: "'a block_context" where "c0 = \<lparr>bc_bcount = 0, bc_errcode = None, bc_state = w\<rparr>"
  have app: "flags AND BLOCK_FLAG_APPEND = 0" and image: "fe_flags env AND EXT2_FLAG_IMAGE_FILE = 0" using rdy by (simp_all add: iteration_ready_def)
  have len: "length (i_block inode) = 15" using mapped by (simp add: file_mapped_def)
  note roots = mapped [unfolded file_mapped_def, THEN conjunct2]
  have ap: "apart M (direct_visits 0 (take 12 (i_block inode)))" "apart M (root_visits (ind_visits env flags ?dev) inode 12 12)"
    "apart M (root_visits (dind_visits env flags ?dev) inode 13 (12 + ?l))"
    "apart M (root_visits (tind_visits env flags ?dev) inode 14 (12 + ?l + ?l * ?l))"
    using roots by (simp_all add: file_visits_def)
  have a0: "agrees M ?dev (bc_state c0)" by (simp add: c0_def agrees_def)
  define s1 where "s1 = do { (bs, stop, ret, c) \<leftarrow> direct_loop False f 0 (take 12 (i_block inode)) 0 c0;
      Some (inode\<lparr>i_block := bs @ drop 12 (i_block inode)\<rparr>, stop, ret, c) }"
  define s2 where "s2 = do { x \<leftarrow> s1; root_step False (block_iterate_ind env flags f) 12 ?l x }"
  define s3 where "s3 = do { x \<leftarrow> s2; root_step False (block_iterate_dind env flags f) 13 (?l * ?l) x }"
  define s4 where "s4 = do { x \<leftarrow> s3; root_step False (block_iterate_tind env flags f) 14 0 x }"
  let ?mk = "\<lambda>fl c'. (inode, fl \<noteq> 0, fl, c')"
  let ?v1 = "direct_visits 0 (take 12 (i_block inode))"
  let ?v2 = "?v1 @ root_visits (ind_visits env flags ?dev) inode 12 12"
  let ?v3 = "?v2 @ root_visits (dind_visits env flags ?dev) inode 13 (12 + ?l)"
  let ?v4 = "?v3 @ root_visits (tind_visits env flags ?dev) inode 14 (12 + ?l + ?l * ?l)"
  have stopped: "\<exists>c''. root_step False iter k skip (?mk BLOCK_ABORT c') = Some (?mk BLOCK_ABORT c'') \<and> bc_state c'' = bc_state c'
      \<and> bc_errcode c'' = bc_errcode c'" for iter k skip c'
    by (simp add: root_step_def)
  have w0: "walks f ?v1 12 c0 (\<lambda>fl c'. (take 12 (i_block inode), fl \<noteq> 0, fl, c')) (direct_loop False f 0 (take 12 (i_block inode)) 0 c0)"
    using direct_loop_walks [OF q, of c0 0 "take 12 (i_block inode)"] len by (simp add: c0_def)
  then have w1: "walks f ?v1 12 c0 ?mk s1" unfolding s1_def by (rule walks_map) simp
  have w2: "walks f ?v2 (12 + ?l) c0 ?mk s2"
    unfolding s2_def
  proof (rule walks_append [OF w1])
    fix c' :: "'a block_context"
    assume v: "visit_all f ?v1 (bc_state c0) = Some (False, bc_state c')" and n: "bc_bcount c' = bc_bcount c0 + 12"
    have n: "bc_bcount c' = 12" using n by (simp add: c0_def)
    have a: "agrees M ?dev (bc_state c')" by (rule visit_all_keeps [OF q ap(1) a0 v])
    have "walks f (root_visits (ind_visits env flags ?dev) inode 12 (bc_bcount c')) (if i_block inode ! 12 = 0 then ?l else ?l) c' ?mk
        (root_step False (block_iterate_ind env flags f) 12 ?l (inode, False, 0, c'))"
    proof (rule root_step_walks, rule impI)
      assume nz: "i_block inode ! 12 \<noteq> 0"
      show "walks f (ind_visits env flags ?dev (i_block inode ! 12) 0 12 (bc_bcount c')) (?l) c' (\<lambda>fl c'. (fl, i_block inode ! 12, c'))
          (block_iterate_ind env flags f (i_block inode ! 12) 0 12 c')"
        by (rule ind_walks [OF q nz _ image app a]) (use roots nz ap(2) n in \<open>simp_all add: root_visits_def\<close>)
    qed
    then show "walks f (root_visits (ind_visits env flags ?dev) inode 12 12) ?l c' ?mk (root_step False (block_iterate_ind env flags f) 12 ?l (?mk 0 c'))"
      by (simp add: n)
  qed (rule stopped)
  have w3: "walks f ?v3 (12 + ?l + ?l * ?l) c0 ?mk s3"
    unfolding s3_def
  proof (rule walks_append [OF w2])
    fix c' :: "'a block_context"
    assume v: "visit_all f ?v2 (bc_state c0) = Some (False, bc_state c')" and n: "bc_bcount c' = bc_bcount c0 + (12 + ?l)"
    have n: "bc_bcount c' = 12 + ?l" using n by (simp add: c0_def)
    have a: "agrees M ?dev (bc_state c')" by (rule visit_all_keeps [OF q _ a0 v]) (simp add: ap)
    have "walks f (root_visits (dind_visits env flags ?dev) inode 13 (bc_bcount c')) (if i_block inode ! 13 = 0 then ?l * ?l else ?l * ?l) c' ?mk
        (root_step False (block_iterate_dind env flags f) 13 (?l * ?l) (inode, False, 0, c'))"
    proof (rule root_step_walks, rule impI)
      assume nz: "i_block inode ! 13 \<noteq> 0"
      show "walks f (dind_visits env flags ?dev (i_block inode ! 13) 0 13 (bc_bcount c')) (?l * ?l) c' (\<lambda>fl c'. (fl, i_block inode ! 13, c'))
          (block_iterate_dind env flags f (i_block inode ! 13) 0 13 c')"
        by (rule dind_walks [OF q nz _ image app a]) (use roots nz ap(3) n in \<open>simp_all add: root_visits_def\<close>)
    qed
    then show "walks f (root_visits (dind_visits env flags ?dev) inode 13 (12 + ?l)) (?l * ?l) c' ?mk
        (root_step False (block_iterate_dind env flags f) 13 (?l * ?l) (?mk 0 c'))"
      by (simp add: n)
  qed (rule stopped)
  have w4: "walks f ?v4 (12 + ?l + ?l * ?l + (if i_block inode ! 14 = 0 then 0 else ?l * ?l * ?l)) c0 ?mk s4"
    unfolding s4_def
  proof (rule walks_append [OF w3])
    fix c' :: "'a block_context"
    assume v: "visit_all f ?v3 (bc_state c0) = Some (False, bc_state c')" and n: "bc_bcount c' = bc_bcount c0 + (12 + ?l + ?l * ?l)"
    have n: "bc_bcount c' = 12 + ?l + ?l * ?l" using n by (simp add: c0_def)
    have a: "agrees M ?dev (bc_state c')" by (rule visit_all_keeps [OF q _ a0 v]) (simp add: ap)
    have "walks f (root_visits (tind_visits env flags ?dev) inode 14 (bc_bcount c')) (if i_block inode ! 14 = 0 then 0 else ?l * ?l * ?l) c' ?mk
        (root_step False (block_iterate_tind env flags f) 14 0 (inode, False, 0, c'))"
    proof (rule root_step_walks, rule impI)
      assume nz: "i_block inode ! 14 \<noteq> 0"
      show "walks f (tind_visits env flags ?dev (i_block inode ! 14) 0 14 (bc_bcount c')) (?l * ?l * ?l) c' (\<lambda>fl c'. (fl, i_block inode ! 14, c'))
          (block_iterate_tind env flags f (i_block inode ! 14) 0 14 c')"
        by (rule tind_walks [OF q nz _ image app a]) (use roots nz ap(4) n in \<open>simp_all add: root_visits_def\<close>)
    qed
    then show "walks f (root_visits (tind_visits env flags ?dev) inode 14 (12 + ?l + ?l * ?l)) (if i_block inode ! 14 = 0 then 0 else ?l * ?l * ?l) c' ?mk
        (root_step False (block_iterate_tind env flags f) 14 0 (?mk 0 c'))"
      by (simp add: n)
  qed (rule stopped)
  have eq: "ext2fs_block_iterate3 env extents ino flags block_buf f w =
      do { (inode, stop, ret, c) \<leftarrow> s4; Some (abort_exit env ino inode ret c) }"
  proof -
    have "ext2fs_block_iterate3 env extents ino flags block_buf f w =
      do { (bs, stop, ret, c) \<leftarrow> direct_loop False f 0 (take 12 (i_block inode)) 0 c0;
           let inode = inode\<lparr>i_block := bs @ drop 12 (i_block inode)\<rparr>;
               (ret, c, stop) =
                 (if \<not> stop \<and> ro_violation flags ret then (case violated ret c of (ret, c) \<Rightarrow> (ret, c, True)) else (ret, c, stop))
           in do {
             x \<leftarrow> root_step False (block_iterate_ind env flags f) 12 ?l (inode, stop, ret, c);
             x \<leftarrow> root_step False (block_iterate_dind env flags f) 13 (?l * ?l) x;
             (inode, stop, ret, c) \<leftarrow> root_step False (block_iterate_tind env flags f) 14 0 x;
             Some (abort_exit env ino inode ret c) } }"
      using rdy unfolding iteration_ready_def ext2fs_block_iterate3_def c0_def
      by (auto simp add: EXT2_NDIR_BLOCKS_def EXT2_IND_BLOCK_def EXT2_DIND_BLOCK_def EXT2_TIND_BLOCK_def)
    also have "\<dots> = do { (inode, stop, ret, c) \<leftarrow> s4; Some (abort_exit env ino inode ret c) }"
    proof (rule walks_cases [OF w0])
      assume "direct_loop False f 0 (take 12 (i_block inode)) 0 c0 = None"
      then show ?thesis by (simp add: s4_def s3_def s2_def s1_def)
    next
      fix fl c'
      assume "direct_loop False f 0 (take 12 (i_block inode)) 0 c0 = Some (take 12 (i_block inode), fl \<noteq> 0, fl, c')" "fl = 0 \<or> fl = BLOCK_ABORT"
      then show ?thesis by (auto simp: s4_def s3_def s2_def s1_def ro_violation_def)
    qed
    finally show ?thesis .
  qed
  show ?thesis
  proof (rule walks_cases [OF w4])
    assume "s4 = None"
    with w4 show ?thesis by (simp add: eq walks_def file_visits_def c0_def split: option.splits)
  next
    fix fl c'
    assume "s4 = Some (?mk fl c')" "fl = 0 \<or> fl = BLOCK_ABORT" "visit_all f ?v4 (bc_state c0) = Some (fl = BLOCK_ABORT, bc_state c')"
    then show ?thesis by (simp add: eq abort_exit_quiet file_visits_def c0_def)
  qed
qed

section \<open>The blocks of a file\<close>

text \<open>
  The addresses of the blocks of a file as one array: a missing block of addresses stands for as many
  zeros as it would have addresses below it.
\<close>

definition ind_addrs :: "fs_env \<Rightarrow> (u64 \<Rightarrow> block) \<Rightarrow> u32 \<Rightarrow> u32 list" where
  "ind_addrs env dev b = (if b = 0 then replicate (fe_blocksize env div 4) 0 else addrs env dev b)"

definition dind_addrs :: "fs_env \<Rightarrow> (u64 \<Rightarrow> block) \<Rightarrow> u32 \<Rightarrow> u32 list" where
  "dind_addrs env dev b = concat (map (ind_addrs env dev) (ind_addrs env dev b))"

definition tind_addrs :: "fs_env \<Rightarrow> (u64 \<Rightarrow> block) \<Rightarrow> u32 \<Rightarrow> u32 list" where
  "tind_addrs env dev b = concat (map (dind_addrs env dev) (ind_addrs env dev b))"

definition file_addrs :: "fs_env \<Rightarrow> (u64 \<Rightarrow> block) \<Rightarrow> ext2_inode \<Rightarrow> u32 list" where
  "file_addrs env dev inode = take 12 (i_block inode) @ ind_addrs env dev (i_block inode ! 12)
     @ dind_addrs env dev (i_block inode ! 13) @ tind_addrs env dev (i_block inode ! 14)"

text \<open>The addresses that are not zero, with their index, and the data blocks of a list of visits.\<close>

fun numbered :: "int \<Rightarrow> u32 list \<Rightarrow> (int \<times> u64) list" where
  "numbered n [] = []"
| "numbered n (e # es) = (if e = 0 then [] else [(n, ucast e)]) @ numbered (n + 1) es"

definition data_of :: "visit list \<Rightarrow> (int \<times> u64) list" where
  "data_of vs = map (\<lambda>(b, n, ref, off). (n, b)) (filter (\<lambda>(b, n, ref, off). 0 \<le> n) vs)"

lemma numbered_append: "numbered n (xs @ ys) = numbered n xs @ numbered (n + int (length xs)) ys"
  by (induction xs arbitrary: n) (simp_all add: add.assoc)

lemma numbered_zeros [simp]: "numbered n (replicate k 0) = []"
  by (induction k arbitrary: n) simp_all

lemma data_of_append [simp]: "data_of (xs @ ys) = data_of xs @ data_of ys" and data_of_Nil [simp]: "data_of [] = []"
  by (simp_all add: data_of_def)

lemma data_of_level: "kind < 0 \<Longrightarrow> data_of (level_visits flags kind b ref off below) = data_of below"
  by (simp add: level_visits_def data_of_def)

lemma data_of_data_visits: "0 \<le> n \<Longrightarrow> data_of (data_visits b off n es) = numbered n es"
  by (induction es arbitrary: off n) (simp_all, simp_all add: data_of_def)

lemma data_of_ind_visits: "0 \<le> n \<Longrightarrow> data_of (ind_visits env flags dev b ref off n) = numbered n (addrs env dev b)"
  by (simp add: ind_visits_def data_of_level data_of_data_visits BLOCK_COUNT_IND_def)

lemma length_ind_addrs [simp]: "length (ind_addrs env dev b) = fe_blocksize env div 4"
  by (simp add: ind_addrs_def addrs_def)

lemma data_of_ptr_visits:
  assumes "0 \<le> n" "0 \<le> skip" "\<And>b. int (length (flat b)) = skip" "flat 0 = replicate (nat skip) 0"
    and "\<And>b off n. b \<noteq> 0 \<Longrightarrow> 0 \<le> n \<Longrightarrow> data_of (inner b ref off n) = numbered n (flat b)"
  shows "data_of (ptr_visits inner skip ref off n es) = numbered n (concat (map flat es))"
  using assms(1)
proof (induction es arbitrary: off n)
  case (Cons e es)
  then show ?case using assms(2-5) by (cases "e = 0") (simp_all add: numbered_append)
qed simp

lemma length_concat_same: "(\<And>x. length (f x) = k) \<Longrightarrow> length (concat (map f xs)) = k * length xs"
  by (induction xs) simp_all

lemma length_dind_addrs [simp]: "length (dind_addrs env dev b) = (fe_blocksize env div 4) * (fe_blocksize env div 4)"
  unfolding dind_addrs_def by (simp add: length_concat_same)

lemma concat_replicate [simp]: "concat (replicate m (replicate k x)) = replicate (m * k) x"
  by (induction m) (simp_all add: replicate_add)

lemma no_addrs [simp]:
  "ind_addrs env dev 0 = replicate (fe_blocksize env div 4) 0"
  "dind_addrs env dev 0 = replicate ((fe_blocksize env div 4) * (fe_blocksize env div 4)) 0"
  "tind_addrs env dev 0 = replicate ((fe_blocksize env div 4) * ((fe_blocksize env div 4) * (fe_blocksize env div 4))) 0"
  by (simp_all add: ind_addrs_def dind_addrs_def tind_addrs_def)

lemma data_of_dind_visits:
  assumes "0 \<le> n" "b \<noteq> 0"
  shows "data_of (dind_visits env flags dev b ref off n) = numbered n (dind_addrs env dev b)"
proof -
  have "data_of (ptr_visits (ind_visits env flags dev) (ind_limit env) b 0 n (addrs env dev b))
      = numbered n (concat (map (ind_addrs env dev) (addrs env dev b)))"
    by (rule data_of_ptr_visits [OF assms(1)]) (simp_all add: ind_limit_def data_of_ind_visits, simp_all add: ind_addrs_def)
  then show ?thesis using assms(2) by (simp add: dind_visits_def data_of_level BLOCK_COUNT_DIND_def dind_addrs_def ind_addrs_def)
qed

lemma data_of_tind_visits:
  assumes "0 \<le> n" "b \<noteq> 0"
  shows "data_of (tind_visits env flags dev b ref off n) = numbered n (tind_addrs env dev b)"
proof -
  have "data_of (ptr_visits (dind_visits env flags dev) (ind_limit env * ind_limit env) b 0 n (addrs env dev b))
      = numbered n (concat (map (dind_addrs env dev) (addrs env dev b)))"
    by (rule data_of_ptr_visits [OF assms(1)]) (simp_all add: ind_limit_def data_of_dind_visits nat_mult_distrib)
  then show ?thesis using assms(2) by (simp add: tind_visits_def data_of_level BLOCK_COUNT_TIND_def tind_addrs_def ind_addrs_def)
qed

lemma data_of_direct_visits: "data_of (direct_visits i bs) = numbered (int i) bs"
  by (induction bs arbitrary: i) (simp_all, simp_all add: data_of_def algebra_simps)

lemma data_of_file_visits:
  assumes "length (i_block inode) = 15"
  shows "data_of (file_visits env flags dev inode) = numbered 0 (file_addrs env dev inode)"
proof -
  have "0 \<le> ind_limit env" by (simp add: ind_limit_def)
  then show ?thesis
    using assms unfolding file_visits_def file_addrs_def root_visits_def
    by (simp add: numbered_append data_of_direct_visits data_of_ind_visits data_of_dind_visits data_of_tind_visits
        ind_limit_def add.assoc) (simp add: ind_addrs_def)
qed

section \<open>The property\<close>

text \<open>
  C16.  On a file without extents whose blocks of addresses are in range and readable, the iteration calls
  the function for the blocks of the file, in order, until it asks to stop, and reports no error; the data
  blocks among them are those of the flat array of addresses of the file, each once, with its logical
  number.
\<close>

theorem block_iterate_correct:
  assumes "iteration_ready env (fst w) ino flags block_buf inode" "quiet f" "file_mapped env M flags (fs_dev (fst w)) inode"
  shows "ext2fs_block_iterate3 env extents ino flags block_buf f w =
      do { (ab, w) \<leftarrow> visit_all f (file_visits env flags (fs_dev (fst w)) inode) w; Some (None, w) }
    \<and> data_of (file_visits env flags (fs_dev (fst w)) inode) = numbered 0 (file_addrs env (fs_dev (fst w)) inode)"
  using block_iterate_walk [OF assms] data_of_file_visits assms(3) by (simp add: file_mapped_def)

text \<open>A file of blocks of 16 bytes with one direct block and two blocks below an indirect block.\<close>

definition walk_env :: fs_env where
  "walk_env = \<lparr>fe_sb = \<lparr>sb_blocks_count = 100, sb_blocks_count_hi = 0, sb_first_data_block = 1, sb_creator_os = 0,
       sb_feature_incompat = 0, sb_feature_ro_compat = 0\<rparr>, fe_blocksize = 16, fe_flags = 0, fe_image_io = False, fe_csum_seed = 0,
     fe_crc = (\<lambda>c _. c), fe_malloc = (\<lambda>_. True), fe_read_error = (\<lambda>_. None), fe_write_error = (\<lambda>_. None),
     fe_inode_read_error = (\<lambda>_. None), fe_inode_write_error = (\<lambda>_. None)\<rparr>"

definition walk_inode :: "u32 \<Rightarrow> u32 \<Rightarrow> ext2_inode" where
  "walk_inode ind dind = \<lparr>i_mode = 0x4000, i_size = 0, i_links_count = 1, i_blocks = 0, i_flags = 0, i_size_high = 0, i_file_acl = 0, i_generation = 0,
     i_block = [20, 0, 0, 0, 0, 0, 0, 0, 0, 0, 0, 0, ind, dind, 0], h_i_translator = 0, l_i_blocks_hi = 0, l_i_file_acl_high = 0\<rparr>"

definition walk_fs :: "ext2_inode \<Rightarrow> fs_state" where
  "walk_fs inode = \<lparr>fs_dev = (\<lambda>b. if b = 30 then le32s [40, 0, 41, 0] else le32s [0, 0, 0, 0]), fs_inodes = (\<lambda>_. inode)\<rparr>"

definition collect :: "(int \<times> u64) list blk_func" where
  "collect b n ref off w = Some (0, b, fst w, snd w @ [(n, b)])"

lemma walk_addrs: "addrs walk_env (fs_dev (walk_fs inode)) 30 = [40, 0, 41, 0]"
proof -
  have "length [40, 0, 41, 0 :: u32] = 4" by simp
  from get_le32s_of_le32s [of "[40, 0, 41, 0]" "[]", unfolded this append_Nil2] show ?thesis
    by (simp add: addrs_def walk_env_def walk_fs_def)
qed

lemma block_iterate_correct_witness:
  "ext2fs_block_iterate3 walk_env (\<lambda>_ _ _. None) 2 BLOCK_FLAG_DATA_ONLY False collect (walk_fs (walk_inode 30 0), [])
     = Some (None, walk_fs (walk_inode 30 0), [(0, 20), (12, 40), (14, 41)])"
proof -
  have v: "file_visits walk_env BLOCK_FLAG_DATA_ONLY (fs_dev (walk_fs (walk_inode 30 0))) (walk_inode 30 0)
      = [(20, 0, 0, 0), (40, 12, 30, 0), (41, 14, 30, 8)]"
    using walk_addrs by (simp add: file_visits_def root_visits_def walk_inode_def ind_visits_def level_visits_def
        BLOCK_FLAG_DATA_ONLY_def BLOCK_FLAG_DEPTH_TRAVERSE_def)
  have "iteration_ready walk_env (fst (walk_fs (walk_inode 30 0), [])) 2 BLOCK_FLAG_DATA_ONLY False (walk_inode 30 0)"
    by (simp add: iteration_ready_def ext2fs_read_inode_def walk_env_def walk_fs_def walk_inode_def BLOCK_FLAG_DATA_ONLY_def
        BLOCK_FLAG_APPEND_def BLOCK_FLAG_NO_LARGE_def EXT2_OS_HURD_def)
  moreover have "quiet collect" by (simp add: quiet_def collect_def)
  moreover have "file_mapped walk_env {30} BLOCK_FLAG_DATA_ONLY (fs_dev (fst (walk_fs (walk_inode 30 0), []))) (walk_inode 30 0)"
    by (simp add: file_mapped_def v apart_def addr_ok_def) (simp add: walk_env_def walk_inode_def ext2fs_blocks_count_def ext2fs_has_feature_64bit_def)
  ultimately show ?thesis using block_iterate_correct [of walk_env "(walk_fs (walk_inode 30 0), [])" 2 BLOCK_FLAG_DATA_ONLY False "walk_inode 30 0" collect "{30}" "\<lambda>_ _ _. None"]
    by (simp add: v collect_def BLOCK_ABORT_def)
qed

text \<open>
  A bad indirect block is not reported when there is a good double indirect block: the error code is
  overwritten.
\<close>

lemma bad_indirect_block_unreported:
  "map_option fst (ext2fs_block_iterate3 walk_env extents 2 BLOCK_FLAG_DATA_ONLY False collect (walk_fs (walk_inode 999 31), [])) = Some None"
  by code_simp

end
