(* ===== verification/Dir_Block.thy ===== *)
theory Dir_Block
  imports Block_Iterate
begin

text \<open>
  Blocks of directories: the fields of an entry (\<open>struct ext2_dir_entry\<close> and its accessors in
  \<open>lib/ext2fs/ext2fs.h\<close>), the length of a record (\<open>lib/ext2fs/dir_iterate.c\<close>), the entry at the end of a block
  that holds its checksum and the checksums of index blocks (\<open>lib/ext2fs/csum.c\<close>), and reading and writing
  (\<open>lib/ext2fs/dirblock.c\<close>).  An entry is addressed by its offset in the block.
\<close>

section \<open>Entries\<close>

definition d_inode :: "block \<Rightarrow> nat \<Rightarrow> u32" where
  "d_inode buf off = get_le32 buf off"

definition d_rec_len :: "block \<Rightarrow> nat \<Rightarrow> u16" where
  "d_rec_len buf off = get_le16 buf (off + 4)"

definition d_name_len :: "block \<Rightarrow> nat \<Rightarrow> u16" where
  "d_name_len buf off = get_le16 buf (off + 6)"

definition set_d_inode :: "block \<Rightarrow> nat \<Rightarrow> u32 \<Rightarrow> block" where
  "set_d_inode buf off v = put_at buf off (le32 v)"

definition set_d_rec_len :: "block \<Rightarrow> nat \<Rightarrow> u16 \<Rightarrow> block" where
  "set_d_rec_len buf off v = put_at buf (off + 4) (le16 v)"

definition ext2fs_dirent_name_len :: "block \<Rightarrow> nat \<Rightarrow> nat" where
  "ext2fs_dirent_name_len buf off = unat (d_name_len buf off AND 0xff)"

definition ext2fs_dirent_set_name_len :: "block \<Rightarrow> nat \<Rightarrow> nat \<Rightarrow> block" where
  "ext2fs_dirent_set_name_len buf off len =
     put_at buf (off + 6) (le16 ((d_name_len buf off AND 0xff00) OR (of_nat len AND 0xff)))"

definition ext2fs_dirent_file_type :: "block \<Rightarrow> nat \<Rightarrow> u16" where
  "ext2fs_dirent_file_type buf off = drop_bit 8 (d_name_len buf off)"

definition ext2fs_dirent_set_file_type :: "block \<Rightarrow> nat \<Rightarrow> u16 \<Rightarrow> block" where
  "ext2fs_dirent_set_file_type buf off t = put_at buf (off + 6) (le16 ((d_name_len buf off AND 0xff) OR push_bit 8 t))"

text \<open>The \<open>n\<close> bytes at the start of the name field.\<close>

definition d_name :: "block \<Rightarrow> nat \<Rightarrow> nat \<Rightarrow> u8 list" where
  "d_name buf off n = take n (drop (off + 8) buf)"

text \<open>\<open>EXT2_DIR_REC_LEN\<close>, the size of an entry with a name of length \<open>n\<close>.\<close>

definition EXT2_DIR_REC_LEN :: "nat \<Rightarrow> nat" where
  "EXT2_DIR_REC_LEN n = (n + 8 + 3) div 4 * 4"

text \<open>Blocks of 64 KiB and more need special values for lengths that do not fit into 16 bits.\<close>

definition EXT4_MAX_REC_LEN :: nat where "EXT4_MAX_REC_LEN = 2 ^ 16 - 1"

definition ext2fs_get_rec_len :: "fs_env \<Rightarrow> u16 \<Rightarrow> nat" where
  "ext2fs_get_rec_len env len =
     (if fe_blocksize env < 65536 then unat len
      else if unat len = EXT4_MAX_REC_LEN \<or> len = 0 then fe_blocksize env
      else unat ((ucast len AND 65532 :: u32) OR push_bit 16 (ucast len AND 3)))"

definition ext2fs_set_rec_len :: "fs_env \<Rightarrow> nat \<Rightarrow> errcode + u16" where
  "ext2fs_set_rec_len env len =
     (if len > fe_blocksize env \<or> fe_blocksize env > 2 ^ 18 \<or> len mod 4 \<noteq> 0 then Inl EINVAL
      else if len < 65536 then Inr (of_nat len)
      else if len = fe_blocksize env then Inr (if fe_blocksize env = 65536 then of_nat EXT4_MAX_REC_LEN else 0)
      else Inr (ucast ((of_nat len AND 65532 :: u32) OR (drop_bit 16 (of_nat len) AND 3))))"

section \<open>The entry with the checksum\<close>

definition EXT2_DIR_NAME_LEN_CSUM :: u16 where "EXT2_DIR_NAME_LEN_CSUM = 0xDE00"

text \<open>\<open>sizeof(struct ext2_dir_entry_tail)\<close> if the file system has checksums\<close>

definition dir_csum_size :: "fs_env \<Rightarrow> nat" where
  "dir_csum_size env = (if ext2fs_has_feature_metadata_csum (fe_sb env) then 12 else 0)"

definition EXT2_DIRENT_TAIL :: "fs_env \<Rightarrow> nat" where
  "EXT2_DIRENT_TAIL env = fe_blocksize env - 12"

definition ext2fs_initialize_dirent_tail :: "fs_env \<Rightarrow> block \<Rightarrow> nat \<Rightarrow> block" where
  "ext2fs_initialize_dirent_tail env buf t =
     (let len = (case ext2fs_set_rec_len env 12 of Inl _ \<Rightarrow> 0 | Inr v \<Rightarrow> v)
      in put_at buf t (le32 0 @ le16 len @ le16 EXT2_DIR_NAME_LEN_CSUM @ le32 0))"

text \<open>The walk of \<open>__get_dirent_tail\<close> to the last entry.\<close>

function dirent_tail_walk :: "block \<Rightarrow> nat \<Rightarrow> nat \<Rightarrow> nat" where
  "dirent_tail_walk buf tl_off d =
     (let rec_len = unat (d_rec_len buf d)
      in if rec_len \<noteq> 0 \<and> rec_len mod 4 = 0
         then (if d + rec_len \<ge> tl_off then d + rec_len else dirent_tail_walk buf tl_off (d + rec_len))
         else d)"
  by pat_completeness auto
termination
  by (relation "measure (\<lambda>(buf, tl_off, d). tl_off - d)") auto

declare dirent_tail_walk.simps [simp del]

definition get_dirent_tail :: "fs_env \<Rightarrow> block \<Rightarrow> errcode + nat" where
  "get_dirent_tail env buf =
     (let tl_off = EXT2_DIRENT_TAIL env; d = dirent_tail_walk buf tl_off 0
      in if d \<noteq> tl_off then Inl EXT2_ET_DIR_NO_SPACE_FOR_CSUM
         else if get_le32 buf d \<noteq> 0 \<or> get_le16 buf (d + 4) \<noteq> 12 \<or> get_le16 buf (d + 6) \<noteq> EXT2_DIR_NAME_LEN_CSUM
         then Inl EXT2_ET_DIR_NO_SPACE_FOR_CSUM
         else Inr d)"

definition ext2fs_dirent_has_tail :: "fs_env \<Rightarrow> block \<Rightarrow> bool" where
  "ext2fs_dirent_has_tail env buf = (case get_dirent_tail env buf of Inl _ \<Rightarrow> False | Inr _ \<Rightarrow> True)"

text \<open>The checksum over the number and generation of the inode and the bytes of each list.\<close>

definition dir_crc :: "fs_env \<Rightarrow> fs_state \<Rightarrow> u32 \<Rightarrow> block list \<Rightarrow> errcode + u32" where
  "dir_crc env fs inum parts =
     (case ext2fs_read_inode env fs inum of
        Inl e \<Rightarrow> Inl e
      | Inr inode \<Rightarrow> Inr (fold (\<lambda>p crc. fe_crc env crc p) (le32 inum # le32 (i_generation inode) # parts) (fe_csum_seed env)))"

definition ext2fs_dirent_csum :: "fs_env \<Rightarrow> fs_state \<Rightarrow> u32 \<Rightarrow> block \<Rightarrow> nat \<Rightarrow> errcode + u32" where
  "ext2fs_dirent_csum env fs inum buf n = dir_crc env fs inum [take n buf]"

definition ext2fs_dirent_csum_verify :: "fs_env \<Rightarrow> fs_state \<Rightarrow> u32 \<Rightarrow> block \<Rightarrow> bool" where
  "ext2fs_dirent_csum_verify env fs inum buf =
     (case get_dirent_tail env buf of
        Inl _ \<Rightarrow> True
      | Inr t \<Rightarrow> (case ext2fs_dirent_csum env fs inum buf t of
                   Inl _ \<Rightarrow> False
                 | Inr calculated \<Rightarrow> get_le32 buf (t + 8) = calculated))"

definition ext2fs_dirent_csum_set :: "fs_env \<Rightarrow> fs_state \<Rightarrow> u32 \<Rightarrow> block \<Rightarrow> errcode + block" where
  "ext2fs_dirent_csum_set env fs inum buf =
     (case get_dirent_tail env buf of
        Inl e \<Rightarrow> Inl e
      | Inr t \<Rightarrow> map_sum id (\<lambda>crc. put_at buf (t + 8) (le32 crc)) (ext2fs_dirent_csum env fs inum buf t))"

text \<open>The offset of the count and the limit of an index block.\<close>

definition get_dx_countlimit :: "fs_env \<Rightarrow> block \<Rightarrow> errcode + nat" where
  "get_dx_countlimit env buf =
     (let bs = fe_blocksize env; rec_len = unat (d_rec_len buf 0);
          check = (\<lambda>off. let sane = (bs - off) div 8
                     in if unat (get_le16 buf off) > sane \<or> unat (get_le16 buf (off + 2)) > sane
                        then Inl EXT2_ET_DIR_NO_SPACE_FOR_CSUM else Inr off)
      in if rec_len = bs \<and> d_name_len buf 0 = 0 then check 8
         else if rec_len = 12
         then if unat (d_rec_len buf 12) \<noteq> bs - 12 then Inl EXT2_ET_DB_NOT_FOUND
              else if get_le32 buf 24 \<noteq> 0 \<or> buf ! 29 \<noteq> 8 then Inl EXT2_ET_DB_NOT_FOUND
              else check 32
         else Inl EXT2_ET_DB_NOT_FOUND)"

definition ext2fs_dx_csum :: "fs_env \<Rightarrow> fs_state \<Rightarrow> u32 \<Rightarrow> block \<Rightarrow> nat \<Rightarrow> nat \<Rightarrow> nat \<Rightarrow> errcode + u32" where
  "ext2fs_dx_csum env fs inum buf count_offset count t =
     (let buf = put_at buf (t + 4) (le32 0)
      in dir_crc env fs inum [take (count_offset + count * 8) buf, take 8 (drop t buf)])"

definition ext2fs_dx_csum_verify :: "fs_env \<Rightarrow> fs_state \<Rightarrow> u32 \<Rightarrow> block \<Rightarrow> bool" where
  "ext2fs_dx_csum_verify env fs inum buf =
     (case get_dx_countlimit env buf of
        Inl _ \<Rightarrow> True
      | Inr off \<Rightarrow>
          let limit = unat (get_le16 buf off); count = unat (get_le16 buf (off + 2)); t = off + 8 * limit
          in if off + limit * 8 > fe_blocksize env - 8 then False
             else case ext2fs_dx_csum env fs inum buf off count t of
                    Inl _ \<Rightarrow> False
                  | Inr calculated \<Rightarrow> get_le32 buf (t + 4) = calculated)"

definition ext2fs_dx_csum_set :: "fs_env \<Rightarrow> fs_state \<Rightarrow> u32 \<Rightarrow> block \<Rightarrow> errcode + block" where
  "ext2fs_dx_csum_set env fs inum buf =
     (case get_dx_countlimit env buf of
        Inl e \<Rightarrow> Inl e
      | Inr off \<Rightarrow>
          let limit = unat (get_le16 buf off); count = unat (get_le16 buf (off + 2)); t = off + 8 * limit
          in if off + limit * 8 > fe_blocksize env - 8 then Inl EXT2_ET_DIR_NO_SPACE_FOR_CSUM
             else map_sum id (\<lambda>crc. put_at buf (t + 4) (le32 crc)) (ext2fs_dx_csum env fs inum buf off count t))"

definition ext2fs_dir_block_csum_verify :: "fs_env \<Rightarrow> fs_state \<Rightarrow> u32 \<Rightarrow> block \<Rightarrow> bool" where
  "ext2fs_dir_block_csum_verify env fs inum buf =
     (if \<not> ext2fs_has_feature_metadata_csum (fe_sb env) then True
      else case get_dirent_tail env buf of
        Inr _ \<Rightarrow> ext2fs_dirent_csum_verify env fs inum buf
      | Inl _ \<Rightarrow> (case get_dx_countlimit env buf of
                   Inr _ \<Rightarrow> ext2fs_dx_csum_verify env fs inum buf
                 | Inl _ \<Rightarrow> False))"

definition ext2fs_dir_block_csum_set :: "fs_env \<Rightarrow> fs_state \<Rightarrow> u32 \<Rightarrow> block \<Rightarrow> errcode + block" where
  "ext2fs_dir_block_csum_set env fs inum buf =
     (if \<not> ext2fs_has_feature_metadata_csum (fe_sb env) then Inr buf
      else case get_dirent_tail env buf of
        Inr _ \<Rightarrow> ext2fs_dirent_csum_set env fs inum buf
      | Inl _ \<Rightarrow> (case get_dx_countlimit env buf of
                   Inr _ \<Rightarrow> ext2fs_dx_csum_set env fs inum buf
                 | Inl _ \<Rightarrow> if fe_flags env AND EXT2_FLAG_IGNORE_CSUM_ERRORS \<noteq> 0 then Inr buf
                            else Inl EXT2_ET_DIR_NO_SPACE_FOR_CSUM))"

section \<open>Reading and writing\<close>

definition ext2fs_read_dir_block4 :: "fs_env \<Rightarrow> fs_state \<Rightarrow> u64 \<Rightarrow> u32 \<Rightarrow> errcode + block" where
  "ext2fs_read_dir_block4 env fs blk ino =
     (case io_read_blk env fs blk of
        Inl e \<Rightarrow> Inl e
      | Inr buf \<Rightarrow>
          if fe_flags env AND EXT2_FLAG_IGNORE_CSUM_ERRORS = 0 \<and> \<not> ext2fs_dir_block_csum_verify env fs ino buf
          then Inl EXT2_ET_DIR_CSUM_INVALID else Inr buf)"

text \<open>On success the buffer of the caller, with its checksum, is on the device.\<close>

definition ext2fs_write_dir_block4 :: "fs_env \<Rightarrow> fs_state \<Rightarrow> u64 \<Rightarrow> block \<Rightarrow> u32 \<Rightarrow> errcode option \<times> fs_state" where
  "ext2fs_write_dir_block4 env fs blk buf ino =
     (case ext2fs_dir_block_csum_set env fs ino buf of
        Inl e \<Rightarrow> (Some e, fs)
      | Inr buf \<Rightarrow> io_write_blk env fs blk buf)"

end
