(* ===== verification/Dir_Iterate.thy ===== *)
theory Dir_Iterate
  imports Dir_Block
begin

text \<open>
  The iteration over the entries of a directory, \<open>lib/ext2fs/dir_iterate.c\<close>, on the iteration over its
  blocks, for directories that are not stored in the inode.  The function that is called for every entry
  gets the kind of the entry and its offset, and may change the block and its own state.  It may make an
  entry so short that the iteration does not advance, so that the loop is a partial function.
\<close>

definition DIRENT_CHANGED :: u32 where "DIRENT_CHANGED = 1"
definition DIRENT_ABORT :: u32 where "DIRENT_ABORT = 2"

definition DIRENT_FLAG_INCLUDE_EMPTY :: u32 where "DIRENT_FLAG_INCLUDE_EMPTY = 1"
definition DIRENT_FLAG_INCLUDE_REMOVED :: u32 where "DIRENT_FLAG_INCLUDE_REMOVED = 2"
definition DIRENT_FLAG_INCLUDE_CSUM :: u32 where "DIRENT_FLAG_INCLUDE_CSUM = 4"

definition DIRENT_DOT_FILE :: nat where "DIRENT_DOT_FILE = 1"
definition DIRENT_OTHER_FILE :: nat where "DIRENT_OTHER_FILE = 3"
definition DIRENT_DELETED_FILE :: nat where "DIRENT_DELETED_FILE = 4"
definition DIRENT_CHECKSUM :: nat where "DIRENT_CHECKSUM = 5"

text \<open>Arguments: the directory, the kind and the offset of the entry, the block size, the block, the state.\<close>

type_synonym 's dirent_func = "u32 \<Rightarrow> nat \<Rightarrow> nat \<Rightarrow> nat \<Rightarrow> block \<Rightarrow> 's \<Rightarrow> u32 \<times> block \<times> 's"

section \<open>Deleted entries\<close>

function validate_entry :: "fs_env \<Rightarrow> block \<Rightarrow> nat \<Rightarrow> nat \<Rightarrow> bool" where
  "validate_entry env buf offset final =
     (if offset < final \<and> offset \<le> fe_blocksize env - 12
      then let rec_len = ext2fs_get_rec_len env (d_rec_len buf offset)
           in if rec_len < 8 \<or> rec_len mod 4 \<noteq> 0 \<or> ext2fs_dirent_name_len buf offset + 8 > rec_len then False
              else validate_entry env buf (offset + rec_len) final
      else offset = final)"
  by pat_completeness auto
termination
  by (relation "measure (\<lambda>(env, buf, offset, final). final - offset)") auto

declare validate_entry.simps [simp del]

text \<open>The loop that looks for a deleted entry behind an entry that is still in use.\<close>

function skip_to_deleted :: "fs_env \<Rightarrow> block \<Rightarrow> nat \<Rightarrow> nat \<Rightarrow> nat" where
  "skip_to_deleted env buf offset final =
     (if offset < final \<and> \<not> validate_entry env buf offset final then skip_to_deleted env buf (offset + 4) final else offset)"
  by pat_completeness auto
termination
  by (relation "measure (\<lambda>(env, buf, offset, final). final - offset)") auto

declare skip_to_deleted.simps [simp del]

section \<open>One block\<close>

definition dirent_corrupted :: "fs_env \<Rightarrow> block \<Rightarrow> nat \<Rightarrow> bool" where
  "dirent_corrupted env buf offset =
     (let rec_len = ext2fs_get_rec_len env (d_rec_len buf offset)
      in offset + rec_len > fe_blocksize env \<or> rec_len < 8 \<or> rec_len mod 4 \<noteq> 0 \<or> ext2fs_dirent_name_len buf offset + 8 > rec_len)"

text \<open>Is the unused entry at this offset the one with the checksum?\<close>

definition dirent_is_tail :: "fs_env \<Rightarrow> block \<Rightarrow> nat \<Rightarrow> bool" where
  "dirent_is_tail env buf offset =
     (offset = fe_blocksize env - dir_csum_size env \<and> unat (d_rec_len buf offset) = dir_csum_size env
      \<and> d_name_len buf offset = EXT2_DIR_NAME_LEN_CSUM)"

text \<open>The code after the label \<open>next\<close>: the next offset and the end of the entry in use.\<close>

definition dirent_next :: "fs_env \<Rightarrow> u32 \<Rightarrow> block \<Rightarrow> nat \<Rightarrow> nat \<Rightarrow> nat \<Rightarrow> nat \<times> nat" where
  "dirent_next env flags buf offset next_real_entry rec_len =
     (let next_real_entry = (if next_real_entry = offset then next_real_entry + rec_len else next_real_entry);
          sz = (ext2fs_dirent_name_len buf offset + 11) div 4 * 4
      in if flags AND DIRENT_FLAG_INCLUDE_REMOVED \<noteq> 0 \<and> rec_len \<noteq> sz
         then (skip_to_deleted env buf (offset + sz) (offset + rec_len), next_real_entry)
         else (offset + rec_len, next_real_entry))"

text \<open>The loop: an error, or whether the block was changed and whether the function asked to stop.\<close>

partial_function (option) dir_loop ::
    "fs_env \<Rightarrow> u32 \<Rightarrow> 's dirent_func \<Rightarrow> u32 \<Rightarrow> nat \<Rightarrow> nat \<Rightarrow> nat \<Rightarrow> bool \<Rightarrow> block \<Rightarrow> 's \<Rightarrow> ((errcode + bool \<times> bool) \<times> block \<times> 's) option" where
  "dir_loop env flags func dir offset next_real_entry entry changed buf s =
     (if \<not> offset < fe_blocksize env - 8 then Some (Inr (changed, False), buf, s)
      else if dirent_corrupted env buf offset then Some (Inl EXT2_ET_DIR_CORRUPTED, buf, s)
      else
        let rec_len = ext2fs_get_rec_len env (d_rec_len buf offset);
            is_tail = (d_inode buf offset = 0 \<and> dirent_is_tail env buf offset)
        in if d_inode buf offset = 0
              \<and> flags AND (if is_tail then DIRENT_FLAG_INCLUDE_CSUM else DIRENT_FLAG_INCLUDE_EMPTY) = 0
           then (case dirent_next env flags buf offset next_real_entry rec_len of
                   (offset, next_real_entry) \<Rightarrow> dir_loop env flags func dir offset next_real_entry entry changed buf s)
           else
             let entry = (if is_tail then DIRENT_CHECKSUM else entry)
             in case func dir (if next_real_entry > offset then DIRENT_DELETED_FILE else entry) offset (fe_blocksize env) buf s of
                  (ret, buf, s) \<Rightarrow>
                    let entry = (if entry < DIRENT_OTHER_FILE then entry + 1 else entry);
                        rec_len = (if ret AND DIRENT_CHANGED \<noteq> 0 then ext2fs_get_rec_len env (d_rec_len buf offset) else rec_len);
                        changed = (changed \<or> ret AND DIRENT_CHANGED \<noteq> 0)
                    in if ret AND DIRENT_ABORT \<noteq> 0 then Some (Inr (changed, True), buf, s)
                       else (case dirent_next env flags buf offset next_real_entry rec_len of
                               (offset, next_real_entry) \<Rightarrow> dir_loop env flags func dir offset next_real_entry entry changed buf s))"

text \<open>
  \<open>ext2fs_process_dir_block\<close>, as the function for the iteration over the blocks; its state is the error
  code \<open>ctx->errcode\<close> and the state of \<open>func\<close>.
\<close>

definition ext2fs_process_dir_block :: "fs_env \<Rightarrow> u32 \<Rightarrow> 's dirent_func \<Rightarrow> u32 \<Rightarrow> (errcode option \<times> 's) blk_func" where
  "ext2fs_process_dir_block env flags func dir blocknr blockcnt ref off w =
     (case w of (fs, err, s) \<Rightarrow>
        if blockcnt < 0 then Some (0, blocknr, fs, err, s)
        else case ext2fs_read_dir_block4 env fs blocknr dir of
          Inl e \<Rightarrow> Some (BLOCK_ABORT, blocknr, fs, Some e, s)
        | Inr buf \<Rightarrow>
            do { (r, buf, s) \<leftarrow> dir_loop env flags func dir 0 0 (if blockcnt \<noteq> 0 then DIRENT_OTHER_FILE else DIRENT_DOT_FILE) False buf s;
                 (case r of
                    Inl e \<Rightarrow> Some (BLOCK_ABORT, blocknr, fs, Some e, s)
                  | Inr (changed, stop) \<Rightarrow>
                      (case (if changed then ext2fs_write_dir_block4 env fs blocknr buf dir else (None, fs)) of
                         (Some e, fs) \<Rightarrow> Some (BLOCK_ABORT, blocknr, fs, Some e, s)
                       | (None, fs) \<Rightarrow> Some (if stop then BLOCK_ABORT else 0, blocknr, fs, None, s))) })"

section \<open>A directory\<close>

text \<open>
  The result is the error code, the file system and the state.  \<open>extents\<close> is the branch for files with
  extents, \<open>inline\<close> the one for directories that are stored in the inode.
\<close>

definition ext2fs_dir_iterate2 ::
    "fs_env \<Rightarrow> (ext2_inode \<Rightarrow> u32 \<Rightarrow> (errcode option \<times> 's) block_context \<Rightarrow> (errcode option \<times> fs_state \<times> errcode option \<times> 's) option) \<Rightarrow>
     (fs_state \<times> errcode option \<times> 's \<Rightarrow> (fs_state \<times> errcode option \<times> 's) option) \<Rightarrow>
     u32 \<Rightarrow> u32 \<Rightarrow> bool \<Rightarrow> 's dirent_func \<Rightarrow> fs_state \<Rightarrow> 's \<Rightarrow> (errcode option \<times> fs_state \<times> 's) option" where
  "ext2fs_dir_iterate2 env extents inlines dir flags block_buf func fs s =
     (case ext2fs_check_directory env fs dir of
        Some e \<Rightarrow> Some (Some e, fs, s)
      | None \<Rightarrow>
          if \<not> block_buf \<and> \<not> fe_malloc env (fe_blocksize env) then Some (Some EXT2_ET_NO_MEMORY, fs, s)
          else do {
            (r, fs, err, s) \<leftarrow> ext2fs_block_iterate3 env extents dir BLOCK_FLAG_READ_ONLY False
                (ext2fs_process_dir_block env flags func dir) (fs, None, s);
            if r = Some EXT2_ET_INLINE_DATA_CANT_ITERATE
            then do { (fs, err, s) \<leftarrow> inlines (fs, err, s); Some (err, fs, s) }
            else if r \<noteq> None then Some (r, fs, s)
            else Some (err, fs, s) })"

text \<open>\<open>ext2fs_dir_iterate\<close>: the function gets neither the directory nor the kind of the entry.\<close>

type_synonym 's entry_func = "nat \<Rightarrow> nat \<Rightarrow> block \<Rightarrow> 's \<Rightarrow> u32 \<times> block \<times> 's"

definition dir_xlate_func :: "'s entry_func \<Rightarrow> 's dirent_func" where
  "dir_xlate_func func dir entry offset blocksize buf s = func offset blocksize buf s"

definition ext2fs_dir_iterate ::
    "fs_env \<Rightarrow> (ext2_inode \<Rightarrow> u32 \<Rightarrow> (errcode option \<times> 's) block_context \<Rightarrow> (errcode option \<times> fs_state \<times> errcode option \<times> 's) option) \<Rightarrow>
     (fs_state \<times> errcode option \<times> 's \<Rightarrow> (fs_state \<times> errcode option \<times> 's) option) \<Rightarrow>
     u32 \<Rightarrow> u32 \<Rightarrow> bool \<Rightarrow> 's entry_func \<Rightarrow> fs_state \<Rightarrow> 's \<Rightarrow> (errcode option \<times> fs_state \<times> 's) option" where
  "ext2fs_dir_iterate env extents inlines dir flags block_buf func fs s =
     ext2fs_dir_iterate2 env extents inlines dir flags block_buf (dir_xlate_func func) fs s"

end
