(* ===== verification/Dir_Ops.thy ===== *)
theory Dir_Ops
  imports Dir_Iterate
begin

text \<open>
  The operations on directories: adding a name (\<open>lib/ext2fs/link.c\<close>), removing one (\<open>lib/ext2fs/unlink.c\<close>),
  looking one up (\<open>lib/ext2fs/lookup.c\<close>), and the first block of a new directory
  (\<open>lib/ext2fs/newdir.c\<close>).  A name is the list of its bytes, without the zero at its end.
\<close>

text \<open>\<open>strncmp\<close>, up to the sign of its result.\<close>

fun strncmp :: "u8 list \<Rightarrow> u8 list \<Rightarrow> nat \<Rightarrow> int" where
  "strncmp (a # as) (b # bs) (Suc n) =
     (if a \<noteq> b then int (unat a) - int (unat b) else if a = 0 then 0 else strncmp as bs n)"
| "strncmp _ _ _ = 0"

section \<open>Link\<close>

record link_state =
  ls_done :: bool
  ls_err :: "errcode option"

text \<open>
  The steps of \<open>link_proc\<close>: the length of the record, the block and the flags for the iteration, or an
  error.  First an unused entry behind this one is taken over.
\<close>

definition link_absorb :: "fs_env \<Rightarrow> nat \<Rightarrow> nat \<Rightarrow> block \<Rightarrow> errcode + nat \<times> block \<times> u32" where
  "link_absorb env offset blocksize buf =
     (let curr = ext2fs_get_rec_len env (d_rec_len buf offset); next = offset + curr
      in if int next < int blocksize - int (8 + dir_csum_size env) \<and> d_inode buf next = 0
            \<and> next + unat (d_rec_len buf next) \<le> blocksize
         then let curr = curr + unat (d_rec_len buf next)
              in map_sum id (\<lambda>v. (curr, set_d_rec_len buf offset v, DIRENT_CHANGED)) (ext2fs_set_rec_len env curr)
         else Inr (curr, buf, 0))"

text \<open>The two steps that make a leaf of an index block.\<close>

definition link_shorten :: "fs_env \<Rightarrow> nat \<Rightarrow> nat \<times> block \<times> u32 \<Rightarrow> errcode + nat \<times> block \<times> u32" where
  "link_shorten env offset = (\<lambda>(curr, buf, ret).
     let curr = curr - dir_csum_size env
     in map_sum id (\<lambda>v. (curr, ext2fs_initialize_dirent_tail env (set_d_rec_len buf offset v) (EXT2_DIRENT_TAIL env), DIRENT_CHANGED))
          (ext2fs_set_rec_len env curr))"

definition link_deconvert_node :: "fs_env \<Rightarrow> nat \<Rightarrow> nat \<times> block \<times> u32 \<Rightarrow> errcode + nat \<times> block \<times> u32" where
  "link_deconvert_node env offset = (\<lambda>(curr, buf, ret).
     if dir_csum_size env \<noteq> 0 \<and> curr = fe_blocksize env \<and> d_inode buf offset = 0
     then link_shorten env offset (curr, buf, ret) else Inr (curr, buf, ret))"

definition link_deconvert_root :: "fs_env \<Rightarrow> nat \<Rightarrow> nat \<times> block \<times> u32 \<Rightarrow> errcode + nat \<times> block \<times> u32" where
  "link_deconvert_root env offset = (\<lambda>(curr, buf, ret).
     if dir_csum_size env \<noteq> 0 \<and> curr = fe_blocksize env - EXT2_DIR_REC_LEN 1 \<and> offset = EXT2_DIR_REC_LEN 1
        \<and> buf ! (offset + 8) = 46 \<and> buf ! (offset + 9) = 46
     then link_shorten env offset (curr, buf, ret) else Inr (curr, buf, ret))"

text \<open>The last step: an entry in use is split when it has room, an unused one is filled.\<close>

definition link_split :: "fs_env \<Rightarrow> nat \<Rightarrow> nat \<Rightarrow> nat \<times> block \<times> u32 \<Rightarrow> link_state \<Rightarrow> u32 \<times> block \<times> link_state" where
  "link_split env rec_len offset = (\<lambda>(curr, buf, ret) ls.
     let min_rec_len = EXT2_DIR_REC_LEN (ext2fs_dirent_name_len buf offset)
     in if curr < min_rec_len + rec_len then (ret, buf, ls)
        else case ext2fs_set_rec_len env min_rec_len of
          Inl e \<Rightarrow> (DIRENT_ABORT, buf, ls\<lparr>ls_err := Some e\<rparr>)
        | Inr v \<Rightarrow>
            let buf = set_d_rec_len buf offset v;
                next = offset + unat (d_rec_len buf offset);
                buf = set_d_inode buf next 0;
                buf = ext2fs_dirent_set_name_len buf next 0;
                buf = ext2fs_dirent_set_file_type buf next 0
            in case ext2fs_set_rec_len env (curr - min_rec_len) of
                 Inl e \<Rightarrow> (DIRENT_ABORT, buf, ls\<lparr>ls_err := Some e\<rparr>)
               | Inr v \<Rightarrow> (DIRENT_CHANGED, set_d_rec_len buf next v, ls))"

definition link_fill :: "fs_env \<Rightarrow> u8 list \<Rightarrow> u32 \<Rightarrow> u16 \<Rightarrow> nat \<Rightarrow> nat \<times> block \<times> u32 \<Rightarrow> link_state \<Rightarrow> u32 \<times> block \<times> link_state" where
  "link_fill env name ino flags offset = (\<lambda>(curr, buf, ret) ls.
     if curr < EXT2_DIR_REC_LEN (length name) then (ret, buf, ls)
     else let buf = set_d_inode buf offset ino;
              buf = ext2fs_dirent_set_name_len buf offset (length name);
              buf = put_at buf (offset + 8) name;
              buf = (if ext2fs_has_feature_filetype (fe_sb env) then ext2fs_dirent_set_file_type buf offset (flags AND 7) else buf)
          in (DIRENT_ABORT OR DIRENT_CHANGED, buf, ls\<lparr>ls_done := True\<rparr>))"

definition link_proc :: "fs_env \<Rightarrow> u8 list \<Rightarrow> u32 \<Rightarrow> u16 \<Rightarrow> link_state entry_func" where
  "link_proc env name ino flags offset blocksize buf ls =
     (if ls_done ls then (DIRENT_ABORT, buf, ls)
      else case link_absorb env offset blocksize buf of
        Inl e \<Rightarrow> (DIRENT_ABORT, buf, ls\<lparr>ls_err := Some e\<rparr>)
      | Inr x \<Rightarrow> (case link_deconvert_node env offset x of
          Inl e \<Rightarrow> (DIRENT_ABORT, fst (snd x), ls\<lparr>ls_err := Some e\<rparr>)
        | Inr x \<Rightarrow> (case link_deconvert_root env offset x of
            Inl e \<Rightarrow> (DIRENT_ABORT, fst (snd x), ls\<lparr>ls_err := Some e\<rparr>)
          | Inr x \<Rightarrow>
              if d_inode (fst (snd x)) offset \<noteq> 0 then link_split env (EXT2_DIR_REC_LEN (length name)) offset x ls
              else link_fill env name ino flags offset x ls)))"

definition ext2fs_link ::
    "fs_env \<Rightarrow> (ext2_inode \<Rightarrow> u32 \<Rightarrow> (errcode option \<times> link_state) block_context \<Rightarrow>
        (errcode option \<times> fs_state \<times> errcode option \<times> link_state) option) \<Rightarrow>
     (fs_state \<times> errcode option \<times> link_state \<Rightarrow> (fs_state \<times> errcode option \<times> link_state) option) \<Rightarrow>
     u32 \<Rightarrow> u8 list \<Rightarrow> u32 \<Rightarrow> u16 \<Rightarrow> fs_state \<Rightarrow> (errcode option \<times> fs_state) option" where
  "ext2fs_link env extents inlines dir name ino flags fs =
     (if fe_flags env AND EXT2_FLAG_RW = 0 then Some (Some EXT2_ET_RO_FILSYS, fs)
      else do {
        (r, fs, ls) \<leftarrow> ext2fs_dir_iterate env extents inlines dir DIRENT_FLAG_INCLUDE_EMPTY False (link_proc env name ino flags) fs
            \<lparr>ls_done = False, ls_err = None\<rparr>;
        (if r \<noteq> None then Some (r, fs)
         else if ls_err ls \<noteq> None then Some (ls_err ls, fs)
         else if \<not> ls_done ls then Some (Some EXT2_ET_DIR_NO_SPACE, fs)
         else case ext2fs_read_inode env fs dir of
           Inl e \<Rightarrow> Some (Some e, fs)
         | Inr inode \<Rightarrow>
             if i_flags inode AND EXT2_INDEX_FL \<noteq> 0
             then Some (ext2fs_write_inode env fs dir (inode\<lparr>i_flags := i_flags inode AND NOT EXT2_INDEX_FL\<rparr>))
             else Some (None, fs)) })"

section \<open>Unlink\<close>

text \<open>\<open>us_prev\<close> is the offset of the entry before.\<close>

record unlink_state =
  us_prev :: "nat option"
  us_done :: bool

definition unlink_proc :: "u8 list option \<Rightarrow> u32 \<Rightarrow> unlink_state entry_func" where
  "unlink_proc name ino offset blocksize buf us =
     (let prev = us_prev us; us = us\<lparr>us_prev := Some offset\<rparr>; n = ext2fs_dirent_name_len buf offset
      in if (case name of
               Some nm \<Rightarrow> n \<noteq> length nm \<or> strncmp (nm @ [0]) (d_name buf offset n) n \<noteq> 0
             | None \<Rightarrow> False)
         then (0, buf, us)
         else if (if ino \<noteq> 0 then d_inode buf offset \<noteq> ino else d_inode buf offset = 0) then (0, buf, us)
         else
           let buf = (if offset \<noteq> 0 then set_d_rec_len buf (the prev) (d_rec_len buf (the prev) + d_rec_len buf offset)
                      else set_d_inode buf offset 0)
           in (DIRENT_ABORT OR DIRENT_CHANGED, buf, us\<lparr>us_done := True\<rparr>))"

definition ext2fs_unlink ::
    "fs_env \<Rightarrow> (ext2_inode \<Rightarrow> u32 \<Rightarrow> (errcode option \<times> unlink_state) block_context \<Rightarrow>
        (errcode option \<times> fs_state \<times> errcode option \<times> unlink_state) option) \<Rightarrow>
     (fs_state \<times> errcode option \<times> unlink_state \<Rightarrow> (fs_state \<times> errcode option \<times> unlink_state) option) \<Rightarrow>
     u32 \<Rightarrow> u8 list option \<Rightarrow> u32 \<Rightarrow> fs_state \<Rightarrow> (errcode option \<times> fs_state) option" where
  "ext2fs_unlink env extents inlines dir name ino fs =
     (if name = None \<and> ino = 0 then Some (Some EXT2_ET_INVALID_ARGUMENT, fs)
      else if fe_flags env AND EXT2_FLAG_RW = 0 then Some (Some EXT2_ET_RO_FILSYS, fs)
      else do {
        (r, fs, us) \<leftarrow> ext2fs_dir_iterate env extents inlines dir DIRENT_FLAG_INCLUDE_EMPTY False (unlink_proc name ino) fs
            \<lparr>us_prev = None, us_done = False\<rparr>;
        (if r \<noteq> None then Some (r, fs) else Some (if us_done us then None else Some EXT2_ET_DIR_NO_SPACE, fs)) })"

section \<open>Lookup\<close>

definition lookup_proc :: "u8 list \<Rightarrow> u32 option entry_func" where
  "lookup_proc name offset blocksize buf found =
     (let n = ext2fs_dirent_name_len buf offset
      in if length name \<noteq> n then (0, buf, found)
         else if strncmp name (d_name buf offset n) n \<noteq> 0 then (0, buf, found)
         else (DIRENT_ABORT, buf, Some (d_inode buf offset)))"

definition ext2fs_lookup ::
    "fs_env \<Rightarrow> (ext2_inode \<Rightarrow> u32 \<Rightarrow> (errcode option \<times> u32 option) block_context \<Rightarrow>
        (errcode option \<times> fs_state \<times> errcode option \<times> u32 option) option) \<Rightarrow>
     (fs_state \<times> errcode option \<times> u32 option \<Rightarrow> (fs_state \<times> errcode option \<times> u32 option) option) \<Rightarrow>
     u32 \<Rightarrow> u8 list \<Rightarrow> bool \<Rightarrow> fs_state \<Rightarrow> ((errcode + u32) \<times> fs_state) option" where
  "ext2fs_lookup env extents inlines dir name block_buf fs =
     do { (r, fs, found) \<leftarrow> ext2fs_dir_iterate env extents inlines dir 0 block_buf (lookup_proc name) fs None;
          (case r of
             Some e \<Rightarrow> Some (Inl e, fs)
           | None \<Rightarrow> (case found of None \<Rightarrow> Some (Inl EXT2_ET_FILE_NOT_FOUND, fs) | Some ino \<Rightarrow> Some (Inr ino, fs))) }"

section \<open>A new directory\<close>

definition EXT2_FT_DIR :: u16 where "EXT2_FT_DIR = 2"

definition ext2fs_new_dir_block :: "fs_env \<Rightarrow> u32 \<Rightarrow> u32 \<Rightarrow> errcode + block" where
  "ext2fs_new_dir_block env dir_ino parent_ino =
     (if \<not> fe_malloc env (fe_blocksize env) then Inl EXT2_ET_NO_MEMORY
      else
        let buf = replicate (fe_blocksize env) 0; csum_size = dir_csum_size env
        in case ext2fs_set_rec_len env (fe_blocksize env - csum_size) of
             Inl e \<Rightarrow> Inl e
           | Inr v \<Rightarrow>
               let buf = set_d_rec_len buf 0 v;
                   finish = (\<lambda>buf. Inr (if csum_size \<noteq> 0 then ext2fs_initialize_dirent_tail env buf (EXT2_DIRENT_TAIL env) else buf))
               in if dir_ino = 0 then finish buf
                  else
                    let filetype = (if ext2fs_has_feature_filetype (fe_sb env) then EXT2_FT_DIR else 0);
                        buf = set_d_inode buf 0 dir_ino;
                        buf = ext2fs_dirent_set_name_len buf 0 1;
                        buf = ext2fs_dirent_set_file_type buf 0 filetype;
                        buf = put_at buf 8 [46];
                        rec_len = fe_blocksize env - csum_size - EXT2_DIR_REC_LEN 1;
                        buf = set_d_rec_len buf 0 (of_nat (EXT2_DIR_REC_LEN 1));
                        d = unat (d_rec_len buf 0)
                    in case ext2fs_set_rec_len env rec_len of
                         Inl e \<Rightarrow> Inl e
                       | Inr v \<Rightarrow>
                           let buf = set_d_rec_len buf d v;
                               buf = set_d_inode buf d parent_ino;
                               buf = ext2fs_dirent_set_name_len buf d 2;
                               buf = ext2fs_dirent_set_file_type buf d filetype
                           in finish (put_at buf (d + 8) [46, 46]))"

end
