(* ===== verification/Dir_Entries.thy ===== *)
theory Dir_Entries
  imports Dir_Ops Block_Iterate_Props
begin

text \<open>
  The block of a directory as a list of entries.  An entry has an inode, a file type, a name, and the bytes
  behind its name; its record length follows.
\<close>

section \<open>Headers in a block\<close>

definition hdr :: "u32 \<Rightarrow> u16 \<Rightarrow> u16 \<Rightarrow> u8 list" where
  "hdr ino rl nf = le32 ino @ le16 rl @ le16 nf"

lemma length_hdr [simp]: "length (hdr ino rl nf) = 8"
  by (simp add: hdr_def)

lemma get_le16_at: "length pre = i \<Longrightarrow> length bs = 2 \<Longrightarrow> get_le16 (pre @ bs @ post) i = get_le16 bs 0"
  by (simp add: get_le16_def nth_append)

lemma get_hdr [simp]:
  assumes "length pre = off"
  shows "d_inode (pre @ hdr ino rl nf @ post) off = ino"
    and "d_rec_len (pre @ hdr ino rl nf @ post) off = rl"
    and "d_name_len (pre @ hdr ino rl nf @ post) off = nf"
  using get_le32_middle [OF assms, of ino "le16 rl @ le16 nf @ post"]
    get_le16_middle [of "pre @ le32 ino" "off + 4" rl "le16 nf @ post"]
    get_le16_middle [of "pre @ le32 ino @ le16 rl" "off + 6" nf post] assms
  by (simp_all add: hdr_def d_inode_def d_rec_len_def d_name_len_def)

lemma set_hdr [simp]:
  assumes "length pre = off"
  shows "set_d_inode (pre @ hdr ino rl nf @ post) off v = pre @ hdr v rl nf @ post"
    and "set_d_rec_len (pre @ hdr ino rl nf @ post) off w = pre @ hdr ino w nf @ post"
    and "put_at (pre @ hdr ino rl nf @ post) (off + 6) (le16 w) = pre @ hdr ino rl w @ post"
  using put_at_middle [OF assms, of "le32 v" "le32 ino" "le16 rl @ le16 nf @ post"]
    put_at_middle [of "pre @ le32 ino" "off + 4" "le16 w" "le16 rl" "le16 nf @ post"]
    put_at_middle [of "pre @ le32 ino @ le16 rl" "off + 6" "le16 w" "le16 nf" post] assms
  by (simp_all add: hdr_def set_d_inode_def set_d_rec_len_def)

lemma le16_get: "length bs = 2 \<Longrightarrow> le16 (get_le16 bs 0) = bs"
proof -
  assume "length bs = 2"
  then obtain a b where "bs = [a, b]" by (auto simp: length_Suc_conv numeral_2_eq_2)
  then show ?thesis
    by (auto simp: le16_def get_le16_def intro!: bit_word_eqI) (auto simp: bit_simps dest: bit_imp_le_length)
qed

lemma le32_get: "length bs = 4 \<Longrightarrow> le32 (get_le32 bs 0) = bs"
proof -
  assume "length bs = 4"
  then obtain a b c d where "bs = [a, b, c, d]" by (auto simp: length_Suc_conv numeral_eq_Suc)
  then show ?thesis
    by (auto simp: le32_def get_le32_def intro!: bit_word_eqI) (auto simp: bit_simps dest: bit_imp_le_length)
qed

text \<open>Any eight bytes are a header.\<close>

lemma hdr_cases:
  assumes "length bs = 8"
  obtains ino rl nf where "bs = hdr ino rl nf"
proof
  have "take 6 bs = take 4 bs @ take 2 (drop 4 bs)" using take_add [of 4 2 bs] by simp
  then have "bs = take 4 bs @ take 2 (drop 4 bs) @ drop 6 bs" using append_take_drop_id [of 6 bs] by simp
  then show "bs = hdr (get_le32 (take 4 bs) 0) (get_le16 (take 2 (drop 4 bs)) 0) (get_le16 (drop 6 bs) 0)"
    using assms by (simp add: hdr_def le32_get le16_get)
qed

section \<open>Entries\<close>

record dirent =
  de_ino :: u32
  de_type :: u8
  de_name :: "u8 list"
  de_slack :: "u8 list"

definition dlen :: "dirent \<Rightarrow> nat" where
  "dlen e = 8 + length (de_name e) + length (de_slack e)"

definition name_and_type :: "nat \<Rightarrow> u8 \<Rightarrow> u16" where
  "name_and_type n t = of_nat n OR push_bit 8 (ucast t)"

definition enc :: "dirent \<Rightarrow> block" where
  "enc e = hdr (de_ino e) (of_nat (dlen e)) (name_and_type (length (de_name e)) (de_type e)) @ de_name e @ de_slack e"

definition encs :: "dirent list \<Rightarrow> block" where
  "encs es = concat (map enc es)"

lemma length_enc [simp]: "length (enc e) = dlen e"
  by (simp add: enc_def dlen_def)

lemma encs_simps [simp]: "encs [] = []" "encs (e # es) = enc e @ encs es" "encs (xs @ ys) = encs xs @ encs ys"
  by (simp_all add: encs_def)

definition dlens :: "dirent list \<Rightarrow> nat" where
  "dlens es = sum_list (map dlen es)"

lemma dlens_simps [simp]: "dlens [] = 0" "dlens (e # es) = dlen e + dlens es" "dlens (xs @ ys) = dlens xs + dlens ys"
  by (simp_all add: dlens_def)

lemma length_encs [simp]: "length (encs es) = dlens es"
  by (induction es) simp_all

text \<open>The fields of the number with the length of the name and the type.\<close>

lemma small_nat_bit: "n < 256 \<Longrightarrow> 8 \<le> k \<Longrightarrow> \<not> bit (of_nat n :: u16) k"
proof
  assume n: "n < 256" "8 \<le> k" "bit (of_nat n :: u16) k"
  then have "bit n k" by (auto simp: bit_simps)
  then have "2 ^ k \<le> n" by (metis bit_iff_odd div_less even_zero not_le)
  moreover have "(2::nat) ^ 8 \<le> 2 ^ k" using n(2) by (rule power_increasing) simp
  ultimately show False using n(1) by simp
qed

lemma mask_bits: "bit (0xff :: u16) k \<longleftrightarrow> k < 8" "bit (0xff00 :: u16) k \<longleftrightarrow> 8 \<le> k \<and> k < 16"
proof -
  have m: "(0xff :: u16) = mask 8" "(0xff00 :: u16) = push_bit 8 (mask 8)" by (simp_all add: mask_eq_exp_minus_1 push_bit_eq_mult)
  show "bit (0xff :: u16) k \<longleftrightarrow> k < 8" "bit (0xff00 :: u16) k \<longleftrightarrow> 8 \<le> k \<and> k < 16"
    by (simp_all only: m bit_mask_iff bit_push_bit_iff) auto
qed

lemma name_and_type_bit:
  assumes "n < 256"
  shows "bit (name_and_type n t) k \<longleftrightarrow> (if k < 8 then bit n k else k < 16 \<and> bit t (k - 8))"
  using small_nat_bit [OF assms, of k] by (auto simp: name_and_type_def bit_simps not_less)

lemma name_and_type_fields:
  assumes "n < 256"
  shows "name_and_type n t AND 0xff = of_nat n"
    and "(name_and_type n t AND 0xff00) OR (of_nat k AND 0xff) = name_and_type (k mod 256) t"
    and "(name_and_type n t AND 0xff) OR push_bit 8 (ucast t') = name_and_type n t'"
    and "drop_bit 8 (name_and_type n t) = ucast t"
proof -
  have "k mod 256 = take_bit 8 k" for k :: nat by (simp add: take_bit_eq_mod)
  then have k: "bit (k mod 256) i \<longleftrightarrow> i < 8 \<and> bit k i" for k i :: nat by (simp add: bit_take_bit_iff)
  note b = name_and_type_bit [OF assms] name_and_type_bit [of "k mod 256", simplified] mask_bits k
  show "name_and_type n t AND 0xff = of_nat n"
  proof (rule bit_word_eqI)
    fix i
    assume "i < LENGTH(16)"
    then show "bit (name_and_type n t AND 0xff) i \<longleftrightarrow> bit (of_nat n :: u16) i"
      using small_nat_bit [OF assms, of i] unfolding bit_and_iff b by (auto simp: bit_of_nat_iff not_less)
  qed
  then show "(name_and_type n t AND 0xff) OR push_bit 8 (ucast t') = name_and_type n t'" by (simp add: name_and_type_def)
  show "drop_bit 8 (name_and_type n t) = ucast t"
    by (intro bit_word_eqI) (auto simp: bit_drop_bit_eq b bit_simps dest: bit_imp_le_length)
  show "(name_and_type n t AND 0xff00) OR (of_nat k AND 0xff) = name_and_type (k mod 256) t"
  proof (rule bit_word_eqI)
    fix i
    assume "i < LENGTH(16)"
    then show "bit ((name_and_type n t AND 0xff00) OR (of_nat k AND 0xff)) i \<longleftrightarrow> bit (name_and_type (k mod 256) t) i"
      unfolding bit_or_iff bit_and_iff b by (auto simp: bit_of_nat_iff)
  qed
qed

section \<open>An entry in a block\<close>

definition entry_ok :: "dirent \<Rightarrow> bool" where
  "entry_ok e \<longleftrightarrow> length (de_name e) \<le> 255 \<and> dlen e mod 4 = 0 \<and> 12 \<le> dlen e
     \<and> (de_ino e \<noteq> 0 \<longrightarrow> de_name e \<noteq> [] \<and> 0 \<notin> set (de_name e))"

lemma unat_of_nat16: "n < 65536 \<Longrightarrow> unat (of_nat n :: u16) = n"
  by (simp add: unat_of_nat)

lemma entry_fields:
  assumes "length pre = off" "length (de_name e) \<le> 255" "dlen e < 65536"
  shows "d_inode (pre @ enc e @ post) off = de_ino e"
    and "unat (d_rec_len (pre @ enc e @ post) off) = dlen e"
    and "ext2fs_dirent_name_len (pre @ enc e @ post) off = length (de_name e)"
    and "d_name (pre @ enc e @ post) off (length (de_name e)) = de_name e"
proof -
  note g = get_hdr [OF assms(1), of "de_ino e" "of_nat (dlen e)" "name_and_type (length (de_name e)) (de_type e)" "de_name e @ de_slack e @ post"]
  show "d_inode (pre @ enc e @ post) off = de_ino e" "unat (d_rec_len (pre @ enc e @ post) off) = dlen e"
    using g(1,2) assms(3) by (simp_all add: enc_def unat_of_nat16)
  show "ext2fs_dirent_name_len (pre @ enc e @ post) off = length (de_name e)"
    using g(3) assms(2) by (simp add: enc_def ext2fs_dirent_name_len_def name_and_type_fields(1) unat_of_nat16)
  show "d_name (pre @ enc e @ post) off (length (de_name e)) = de_name e"
    using assms(1) by (simp add: enc_def d_name_def)
qed

lemma put_name_len:
  assumes "length pre = off" "n < 256" "k < 256"
  shows "ext2fs_dirent_set_name_len (pre @ hdr ino rl (name_and_type n t) @ post) off k = pre @ hdr ino rl (name_and_type k t) @ post"
  using assms by (simp add: ext2fs_dirent_set_name_len_def name_and_type_fields(2))

lemma put_file_type:
  assumes "length pre = off" "n < 256"
  shows "ext2fs_dirent_set_file_type (pre @ hdr ino rl (name_and_type n t) @ post) off (ucast t') = pre @ hdr ino rl (name_and_type n t') @ post"
  using assms by (simp add: ext2fs_dirent_set_file_type_def name_and_type_fields(3))

text \<open>What a block of entries ends with: nothing, or the entry with the checksum.\<close>

definition tail_bytes :: "u32 \<Rightarrow> block" where
  "tail_bytes crc = le32 0 @ le16 12 @ le16 EXT2_DIR_NAME_LEN_CSUM @ le32 crc"

definition dir_tail :: "fs_env \<Rightarrow> u32 \<Rightarrow> block" where
  "dir_tail env crc = (if dir_csum_size env = 0 then [] else tail_bytes crc)"

lemma length_dir_tail [simp]: "length (dir_tail env crc) = dir_csum_size env"
  by (simp add: dir_tail_def tail_bytes_def dir_csum_size_def)

definition small_block :: "fs_env \<Rightarrow> bool" where
  "small_block env \<longleftrightarrow> fe_blocksize env < 65536"

definition entries_ok :: "fs_env \<Rightarrow> dirent list \<Rightarrow> bool" where
  "entries_ok env es \<longleftrightarrow> es \<noteq> [] \<and> (\<forall>e\<in>set es. entry_ok e) \<and> dlens es + dir_csum_size env = fe_blocksize env"

lemma get_rec_len_small: "small_block env \<Longrightarrow> ext2fs_get_rec_len env v = unat v"
  by (simp add: small_block_def ext2fs_get_rec_len_def)

lemma set_rec_len_small:
  "small_block env \<Longrightarrow> n \<le> fe_blocksize env \<Longrightarrow> n mod 4 = 0 \<Longrightarrow> ext2fs_set_rec_len env n = Inr (of_nat n)"
  by (simp add: small_block_def ext2fs_set_rec_len_def)

text \<open>One turn of the loop over a block, at an entry; no deleted entries are asked for.\<close>

lemma dir_loop_entry:
  assumes "entry_ok e" "length pre = off" "off + dlen e + dir_csum_size env \<le> fe_blocksize env" "small_block env"
    "flags = 0 \<or> flags = DIRENT_FLAG_INCLUDE_EMPTY"
  shows "dir_loop env flags (dir_xlate_func f) dir off nre en ch (pre @ enc e @ post) s =
    (if de_ino e = 0 \<and> flags = 0
        then dir_loop env flags (dir_xlate_func f) dir (off + dlen e) (if nre = off then nre + dlen e else nre) en ch (pre @ enc e @ post) s
        else case f off (fe_blocksize env) (pre @ enc e @ post) s of
          (ret, buf, s) \<Rightarrow>
            let len = (if ret AND DIRENT_CHANGED \<noteq> 0 then unat (d_rec_len buf off) else dlen e);
                ch = (ch \<or> ret AND DIRENT_CHANGED \<noteq> 0)
            in if ret AND DIRENT_ABORT \<noteq> 0 then Some (Inr (ch, True), buf, s)
               else dir_loop env flags (dir_xlate_func f) dir (off + len) (if nre = off then nre + len else nre)
                      (if en < DIRENT_OTHER_FILE then en + 1 else en) ch buf s)"
proof -
  have small: "dlen e < 65536" and ok: "length (de_name e) \<le> 255" "dlen e mod 4 = 0" "12 \<le> dlen e" "length (de_name e) + 8 \<le> dlen e"
    using assms by (auto simp: entry_ok_def small_block_def dlen_def)
  note fields = entry_fields [OF assms(2) ok(1) small, of post] get_rec_len_small [OF assms(4)]
  have in_range: "off < fe_blocksize env - 8" using ok assms(3) by simp
  have sound: "\<not> dirent_corrupted env (pre @ enc e @ post) off"
    using ok assms(3) by (simp add: dirent_corrupted_def fields)
  have no_tail: "\<not> dirent_is_tail env (pre @ enc e @ post) off"
    using ok assms(3) by (auto simp: dirent_is_tail_def)
  have next_off: "dirent_next env flags buf off nre n = (off + n, if nre = off then nre + n else nre)" for buf n
    using assms(5) by (auto simp: dirent_next_def DIRENT_FLAG_INCLUDE_EMPTY_def DIRENT_FLAG_INCLUDE_REMOVED_def Let_def)
  have skip: "(de_ino e = 0 \<and> flags AND DIRENT_FLAG_INCLUDE_EMPTY = 0) \<longleftrightarrow> de_ino e = 0 \<and> flags = 0"
    using assms(5) by (auto simp: DIRENT_FLAG_INCLUDE_EMPTY_def)
  show ?thesis
    by (subst dir_loop.simps)
      (simp only: in_range sound no_tail fields next_off skip dir_xlate_func_def Let_def case_prod_unfold fst_conv snd_conv
        simp_thms if_True if_False if_bool_eq_disj [symmetric] cong: if_cong)
qed

text \<open>The end of the block.\<close>

lemma tail_header: "tail_bytes crc = hdr 0 12 EXT2_DIR_NAME_LEN_CSUM @ le32 crc"
  by (simp add: tail_bytes_def hdr_def)

lemma dir_loop_end:
  assumes "length pre = off" "off + dir_csum_size env = fe_blocksize env" "small_block env"
    "flags = 0 \<or> flags = DIRENT_FLAG_INCLUDE_EMPTY"
  shows "dir_loop env flags (dir_xlate_func f) dir off nre en ch (pre @ dir_tail env crc) s = Some (Inr (ch, False), pre @ dir_tail env crc, s)"
proof (cases "dir_csum_size env = 0")
  case True
  with assms(2) have "\<not> off < fe_blocksize env - 8" by simp
  then show ?thesis by (subst dir_loop.simps) simp
next
  case False
  then have csum: "dir_csum_size env = 12" and tail: "dir_tail env crc = hdr 0 12 EXT2_DIR_NAME_LEN_CSUM @ le32 crc"
    by (auto simp: dir_csum_size_def dir_tail_def tail_header split: if_splits)
  note fields = get_hdr [OF assms(1), of 0 12 EXT2_DIR_NAME_LEN_CSUM "le32 crc"] get_rec_len_small [OF assms(3)]
  have sound: "\<not> dirent_corrupted env (pre @ dir_tail env crc) off"
    using assms(1,2) csum by (simp add: dirent_corrupted_def tail get_rec_len_small [OF assms(3)] ext2fs_dirent_name_len_def EXT2_DIR_NAME_LEN_CSUM_def Let_def)
  have is_tail: "dirent_is_tail env (pre @ dir_tail env crc) off"
    using assms(2) csum by (auto simp: dirent_is_tail_def tail fields)
  have flags: "flags AND DIRENT_FLAG_INCLUDE_CSUM = 0" "flags AND DIRENT_FLAG_INCLUDE_REMOVED = 0"
    using assms(4) by (auto simp: DIRENT_FLAG_INCLUDE_EMPTY_def DIRENT_FLAG_INCLUDE_CSUM_def DIRENT_FLAG_INCLUDE_REMOVED_def)
  have "dir_loop env flags (dir_xlate_func f) dir (off + 12) nre en ch (pre @ dir_tail env crc) s = Some (Inr (ch, False), pre @ dir_tail env crc, s)" for nre
  proof -
    have "\<not> off + 12 < fe_blocksize env - 8" using assms(2) csum by simp
    then show ?thesis by (subst dir_loop.simps) simp
  qed
  moreover have "off < fe_blocksize env - 8" using assms(2) csum by simp
  ultimately show ?thesis
    by (subst dir_loop.simps)
      (simp add: sound is_tail flags fields(4) fields(1,2) [folded tail] dirent_next_def Let_def)
qed

end
