(* ===== verification/Dir_Walk.thy ===== *)
theory Dir_Walk
  imports Dir_Entries
begin

text \<open>
  A directory on the device: its data blocks with their entries.  Reading and writing a block, with its
  checksum, and an operation that goes over all entries and stops when it is done.
\<close>

section \<open>Checksums\<close>

definition leaf_crc :: "fs_env \<Rightarrow> u32 \<Rightarrow> u32 \<Rightarrow> block \<Rightarrow> u32" where
  "leaf_crc env dir gen p = fe_crc env (fe_crc env (fe_crc env (fe_csum_seed env) (le32 dir)) (le32 gen)) p"

definition dir_bytes :: "fs_env \<Rightarrow> u32 \<Rightarrow> u32 \<Rightarrow> dirent list \<Rightarrow> block" where
  "dir_bytes env dir gen es = encs es @ dir_tail env (leaf_crc env dir gen (encs es))"

lemma dirent_tail_walk_encs:
  assumes "es \<noteq> []" "\<forall>e\<in>set es. entry_ok e" "length pre + dlens es = t" "dlens es < 65536"
  shows "dirent_tail_walk (pre @ encs es @ post) t (length pre) = t"
  using assms
proof (induction es arbitrary: pre)
  case (Cons e es)
  then have e: "entry_ok e" "dlen e < 65536" "length (de_name e) \<le> 255" by (simp_all add: entry_ok_def)
  have len: "unat (d_rec_len (pre @ enc e @ encs es @ post) (length pre)) = dlen e"
    by (rule entry_fields(2)) (use e in simp_all)
  show ?case
  proof (cases es)
    case Nil
    with Cons.prems e show ?thesis
      using len by (subst dirent_tail_walk.simps) (auto simp: entry_ok_def Let_def)
  next
    case (Cons e' es')
    then have "0 < dlens es" using Cons.prems(2) by (simp add: entry_ok_def)
    with Cons.prems(3) have "length pre + dlen e < t" by simp
    moreover have "dirent_tail_walk ((pre @ enc e) @ encs es @ post) t (length (pre @ enc e)) = t"
      by (rule Cons.IH) (use Cons Cons.prems in simp_all)
    ultimately show ?thesis
      using len e by (subst dirent_tail_walk.simps) (auto simp: entry_ok_def Let_def)
  qed
qed simp

lemma get_dirent_tail_encs:
  assumes "entries_ok env es" "small_block env" "dir_csum_size env \<noteq> 0"
  shows "get_dirent_tail env (encs es @ dir_tail env crc) = Inr (dlens es)"
proof -
  have csum: "dir_csum_size env = 12" using assms(3) by (simp add: dir_csum_size_def split: if_splits)
  have t: "EXT2_DIRENT_TAIL env = dlens es" and small: "dlens es < 65536"
    using assms(1,2) csum by (auto simp: EXT2_DIRENT_TAIL_def entries_ok_def small_block_def)
  have walk: "dirent_tail_walk (encs es @ dir_tail env crc) (dlens es) 0 = dlens es"
    using dirent_tail_walk_encs [of es "[]" "dlens es"] assms(1) small by (simp add: entries_ok_def)
  note h = get_hdr [OF length_encs, of es 0 12 EXT2_DIR_NAME_LEN_CSUM "le32 crc"]
  have "dir_tail env crc = hdr 0 12 EXT2_DIR_NAME_LEN_CSUM @ le32 crc" using csum by (simp add: dir_tail_def tail_header)
  with h walk show ?thesis
    by (simp add: get_dirent_tail_def t d_inode_def d_rec_len_def d_name_len_def)
qed

lemma dirent_csum_encs:
  assumes "ext2fs_read_inode env fs dir = Inr inode"
  shows "ext2fs_dirent_csum env fs dir (encs es @ post) (dlens es) = Inr (leaf_crc env dir (i_generation inode) (encs es))"
  using assms by (simp add: ext2fs_dirent_csum_def dir_crc_def leaf_crc_def)

lemma csum_field:
  assumes "dir_csum_size env \<noteq> 0"
  shows "get_le32 (encs es @ dir_tail env crc) (dlens es + 8) = crc"
    and "put_at (encs es @ dir_tail env crc) (dlens es + 8) (le32 crc') = encs es @ dir_tail env crc'"
  using get_le32_middle [of "encs es @ hdr 0 12 EXT2_DIR_NAME_LEN_CSUM" "dlens es + 8" crc "[]"]
    put_at_middle [of "encs es @ hdr 0 12 EXT2_DIR_NAME_LEN_CSUM" "dlens es + 8" "le32 crc'" "le32 crc" "[]"] assms
  by (simp_all add: dir_tail_def tail_header)

lemma dir_csum_feature: "ext2fs_has_feature_metadata_csum (fe_sb env) \<longleftrightarrow> dir_csum_size env \<noteq> 0"
  by (simp add: dir_csum_size_def)

lemma read_dir_block:
  assumes "entries_ok env es" "small_block env" "ext2fs_read_inode env fs dir = Inr inode" "fe_read_error env blk = None"
    "fs_dev fs blk = dir_bytes env dir (i_generation inode) es"
  shows "ext2fs_read_dir_block4 env fs blk dir = Inr (fs_dev fs blk)"
proof -
  have "ext2fs_dir_block_csum_verify env fs dir (dir_bytes env dir (i_generation inode) es)"
  proof (cases "dir_csum_size env = 0")
    case False
    with get_dirent_tail_encs [OF assms(1,2)] show ?thesis
      by (simp add: ext2fs_dir_block_csum_verify_def ext2fs_dirent_csum_verify_def dir_bytes_def dirent_csum_encs [OF assms(3)] csum_field)
  qed (simp add: ext2fs_dir_block_csum_verify_def dir_csum_feature)
  with assms show ?thesis by (simp add: ext2fs_read_dir_block4_def io_read_blk_def)
qed

lemma write_dir_block:
  assumes "entries_ok env es" "small_block env" "ext2fs_read_inode env fs dir = Inr inode" "fe_write_error env blk = None"
  shows "ext2fs_write_dir_block4 env fs blk (encs es @ dir_tail env crc) dir
    = (None, fs\<lparr>fs_dev := (fs_dev fs)(blk := dir_bytes env dir (i_generation inode) es)\<rparr>)"
proof (cases "dir_csum_size env = 0")
  case True
  then show ?thesis using assms(4)
    by (simp add: ext2fs_write_dir_block4_def ext2fs_dir_block_csum_set_def dir_csum_feature io_write_blk_def dir_bytes_def dir_tail_def)
next
  case False
  with get_dirent_tail_encs [OF assms(1,2)] show ?thesis using assms(4)
    by (simp add: ext2fs_write_dir_block4_def ext2fs_dir_block_csum_set_def ext2fs_dirent_csum_set_def dir_csum_feature io_write_blk_def
        dir_bytes_def dirent_csum_encs [OF assms(3)] csum_field)
qed

section \<open>Directories\<close>

definition dir_blocks :: "fs_env \<Rightarrow> (u64 \<Rightarrow> block) \<Rightarrow> ext2_inode \<Rightarrow> u64 list" where
  "dir_blocks env dev inode = map ucast (filter (\<lambda>e. e \<noteq> 0) (file_addrs env dev inode))"

lemma snd_numbered: "map snd (numbered n es) = map ucast (filter (\<lambda>e. e \<noteq> 0) es)"
  by (induction es arbitrary: n) simp_all

text \<open>
  The directory \<open>dir\<close> has the entries \<open>ess\<close>, a list for every data block; its blocks of addresses are in
  \<open>M\<close>.  Its blocks are apart, and can be read and written.
\<close>

definition directory_on :: "fs_env \<Rightarrow> u64 set \<Rightarrow> u32 \<Rightarrow> fs_state \<Rightarrow> dirent list list \<Rightarrow> bool" where
  "directory_on env M dir fs ess \<longleftrightarrow>
     (let inode = fs_inodes fs dir; bs = dir_blocks env (fs_dev fs) inode
      in small_block env \<and> fe_malloc env (fe_blocksize env) \<and> LINUX_S_ISDIR (i_mode inode)
         \<and> iteration_ready env fs dir BLOCK_FLAG_READ_ONLY False inode
         \<and> file_mapped env M BLOCK_FLAG_READ_ONLY (fs_dev fs) inode
         \<and> distinct bs \<and> (\<forall>b\<in>set bs. fe_read_error env b = None \<and> fe_write_error env b = None)
         \<and> list_all2 (\<lambda>b es. entries_ok env es \<and> fs_dev fs b = dir_bytes env dir (i_generation inode) es) bs ess)"

text \<open>Writing outside of the blocks of addresses changes no address.\<close>

lemma addrs_agree: "\<forall>m\<in>M. dev' m = dev m \<Longrightarrow> ucast b \<in> M \<Longrightarrow> addrs env dev' b = addrs env dev b"
  by (simp add: addrs_def)

lemma ind_visits_agree:
  "\<forall>m\<in>M. dev' m = dev m \<Longrightarrow> addr_ok env M b \<Longrightarrow> ind_visits env flags dev' b = ind_visits env flags dev b"
  by (auto simp: fun_eq_iff ind_visits_def addr_ok_def addrs_agree)

lemma ptr_visits_cong:
  "(\<And>e. e \<in> set es \<Longrightarrow> e \<noteq> 0 \<Longrightarrow> inner e = inner' e) \<Longrightarrow> ptr_visits inner skip b off n es = ptr_visits inner' skip b off n es"
  by (induction es arbitrary: off n) simp_all

lemma dind_visits_agree:
  assumes "\<forall>m\<in>M. dev' m = dev m" "dind_ok env M dev b"
  shows "dind_visits env flags dev' b = dind_visits env flags dev b"
proof (intro ext)
  fix ref off n
  have a: "addrs env dev' b = addrs env dev b" using assms by (simp add: dind_ok_def addr_ok_def addrs_agree)
  have "ind_visits env flags dev' e = ind_visits env flags dev e" if "e \<in> set (addrs env dev b)" "e \<noteq> 0" for e
    using that assms by (intro ind_visits_agree [of M]) (auto simp: dind_ok_def)
  then show "dind_visits env flags dev' b ref off n = dind_visits env flags dev b ref off n"
    unfolding dind_visits_def a by (intro arg_cong [where f = "level_visits _ _ _ _ _"] ptr_visits_cong) blast
qed

lemma dind_ok_agree: "\<forall>m\<in>M. dev' m = dev m \<Longrightarrow> dind_ok env M dev b \<Longrightarrow> dind_ok env M dev' b"
  by (auto simp: dind_ok_def addr_ok_def addrs_agree)

lemma tind_visits_agree:
  assumes "\<forall>m\<in>M. dev' m = dev m" "tind_ok env M dev b"
  shows "tind_visits env flags dev' b = tind_visits env flags dev b"
proof (intro ext)
  fix ref off n
  have a: "addrs env dev' b = addrs env dev b" using assms by (simp add: tind_ok_def addr_ok_def addrs_agree)
  have "dind_visits env flags dev' e = dind_visits env flags dev e" if "e \<in> set (addrs env dev b)" "e \<noteq> 0" for e
    using that assms by (intro dind_visits_agree [of M]) (auto simp: tind_ok_def)
  then show "tind_visits env flags dev' b ref off n = tind_visits env flags dev b ref off n"
    unfolding tind_visits_def a by (intro arg_cong [where f = "level_visits _ _ _ _ _"] ptr_visits_cong) blast
qed

lemma tind_ok_agree: "\<forall>m\<in>M. dev' m = dev m \<Longrightarrow> tind_ok env M dev b \<Longrightarrow> tind_ok env M dev' b"
  by (auto simp: tind_ok_def addr_ok_def addrs_agree intro: dind_ok_agree)

lemma file_visits_agree:
  assumes "\<forall>m\<in>M. dev' m = dev m" "file_mapped env M flags dev inode"
  shows "file_visits env flags dev' inode = file_visits env flags dev inode" and "file_mapped env M flags dev' inode"
proof -
  show v: "file_visits env flags dev' inode = file_visits env flags dev inode"
    using assms unfolding file_visits_def file_mapped_def root_visits_def
    by (simp add: ind_visits_agree [OF assms(1)] dind_visits_agree [OF assms(1)] tind_visits_agree [OF assms(1)])
  show "file_mapped env M flags dev' inode"
    using assms(2) unfolding file_mapped_def v by (auto intro: dind_ok_agree [OF assms(1)] tind_ok_agree [OF assms(1)])
qed

lemma dir_blocks_visits:
  assumes "file_mapped env M flags dev inode"
  shows "dir_blocks env dev inode = map snd (data_of (file_visits env flags dev inode))"
  using assms by (simp add: dir_blocks_def data_of_file_visits file_mapped_def snd_numbered)

section \<open>An operation that goes over the entries\<close>

text \<open>
  What the operation does on the entries of one block: the new entries, whether the block is written, and
  the result, if it is done.  It goes on to the next block when it is not.
\<close>

type_synonym 'r block_step = "dirent list \<Rightarrow> dirent list \<times> bool \<times> 'r option"

fun walk_blocks :: "'r block_step \<Rightarrow> dirent list list \<Rightarrow> dirent list list \<times> 'r option" where
  "walk_blocks step [] = ([], None)"
| "walk_blocks step (es # ess) =
     (case step es of
        (es', ch, Some r) \<Rightarrow> (es' # ess, Some r)
      | (es', ch, None) \<Rightarrow> (case walk_blocks step ess of (ess', r) \<Rightarrow> (es' # ess', r)))"

text \<open>The function for the blocks fits the iteration over them: it changes its own block only.\<close>

lemma io_write_blk_dev: "io_write_blk env fs b buf = (r, fs') \<Longrightarrow> m \<noteq> b \<Longrightarrow> fs_dev fs' m = fs_dev fs m"
  by (auto simp: io_write_blk_def split: option.splits)

lemma write_dir_block_dev: "ext2fs_write_dir_block4 env fs b buf dir = (r, fs') \<Longrightarrow> m \<noteq> b \<Longrightarrow> fs_dev fs' m = fs_dev fs m"
  by (auto simp: ext2fs_write_dir_block4_def dest: io_write_blk_dev split: sum.splits)

lemma quiet_process: "quiet (ext2fs_process_dir_block env flags func dir)"
proof (unfold quiet_def, intro allI impI)
  fix b n ref off and w :: "fs_state \<times> errcode option \<times> 'a" and r b' and w' :: "fs_state \<times> errcode option \<times> 'a"
  assume eq: "ext2fs_process_dir_block env flags func dir b n ref off w = Some (r, b', w')"
  obtain fs err s where w: "w = (fs, err, s)" by (metis surj_pair)
  show "(r = 0 \<or> r = BLOCK_ABORT) \<and> b' = b \<and> (\<forall>m. m \<noteq> b \<or> n < 0 \<longrightarrow> fs_dev (fst w') m = fs_dev (fst w) m)"
  proof (cases "n < 0 \<or> (\<exists>e. ext2fs_read_dir_block4 env fs b dir = Inl e)")
    case True
    with eq show ?thesis by (auto simp: ext2fs_process_dir_block_def w split: if_splits)
  next
    case False
    then obtain buf where rd: "ext2fs_read_dir_block4 env fs b dir = Inr buf" and n: "\<not> n < 0" by (cases "ext2fs_read_dir_block4 env fs b dir") auto
    obtain res buf' s' where loop: "dir_loop env flags func dir 0 0 (if n \<noteq> 0 then DIRENT_OTHER_FILE else DIRENT_DOT_FILE) False buf s = Some (res, buf', s')"
      using eq n rd by (simp add: ext2fs_process_dir_block_def w bind_eq_Some_conv) blast
    show ?thesis
    proof (cases res)
      case (Inl e)
      with eq loop n rd show ?thesis by (auto simp: ext2fs_process_dir_block_def w)
    next
      case (Inr x)
      obtain ch stop where x: "x = (ch, stop)" by (rule prod.exhaust)
      obtain e fs' where wr: "(if ch then ext2fs_write_dir_block4 env fs b buf' dir else (None, fs)) = (e, fs')" by (rule prod.exhaust)
      then have "fs_dev fs' m = fs_dev fs m" if "m \<noteq> b" for m
        using that by (auto split: if_splits dest: write_dir_block_dev)
      with eq loop n rd Inr wr show ?thesis
        by (cases e) (auto simp: ext2fs_process_dir_block_def w x split: if_splits)
    qed
  qed
qed

text \<open>
  The contract between a function for the iteration and such a step: the states of the function are
  \<open>idle\<close> before it is done, and \<open>final\<close> for a result then.
\<close>

locale entry_walk =
  fixes env :: fs_env and flags :: u32 and f :: "'s entry_func" and step :: "'r block_step"
    and idle :: "'s \<Rightarrow> bool" and final :: "'s \<Rightarrow> 'r \<Rightarrow> bool"
  assumes on_block: "entries_ok env es \<Longrightarrow> small_block env \<Longrightarrow> idle s \<Longrightarrow> step es = (es', ch, r) \<Longrightarrow>
      \<exists>s'. dir_loop env flags (dir_xlate_func f) dir 0 0 en False (encs es @ dir_tail env crc) s
          = Some (Inr (ch, r \<noteq> None), encs es' @ dir_tail env crc, s')
        \<and> (case r of None \<Rightarrow> idle s' | Some x \<Rightarrow> final s' x)"
    and step_ok: "entries_ok env es \<Longrightarrow> idle s \<Longrightarrow> step es = (es', ch, r) \<Longrightarrow> entries_ok env es' \<and> (\<not> ch \<longrightarrow> es' = es)"
begin

lemma one_block:
  assumes "entries_ok env es" "small_block env" "idle s" "step es = (es', ch, r)" "0 \<le> n"
    "ext2fs_read_inode env fs dir = Inr inode" "fe_read_error env b = None" "fe_write_error env b = None"
    "fs_dev fs b = dir_bytes env dir (i_generation inode) es"
  shows "\<exists>s'. ext2fs_process_dir_block env flags (dir_xlate_func f) dir b n ref off (fs, err, s)
        = Some (if r = None then 0 else BLOCK_ABORT, b,
            fs\<lparr>fs_dev := (fs_dev fs)(b := dir_bytes env dir (i_generation inode) es')\<rparr>, None, s')
      \<and> (case r of None \<Rightarrow> idle s' | Some x \<Rightarrow> final s' x)"
proof -
  obtain s' where l: "dir_loop env flags (dir_xlate_func f) dir 0 0 (if n \<noteq> 0 then DIRENT_OTHER_FILE else DIRENT_DOT_FILE) False (fs_dev fs b) s
      = Some (Inr (ch, r \<noteq> None), encs es' @ dir_tail env (leaf_crc env dir (i_generation inode) (encs es)), s')"
    and s': "case r of None \<Rightarrow> idle s' | Some x \<Rightarrow> final s' x"
    using on_block [OF assms(1-4)] unfolding assms(9) dir_bytes_def by blast
  have ok: "entries_ok env es'" "\<not> ch \<longrightarrow> es' = es" using step_ok [OF assms(1,3,4)] by simp_all
  note rd = read_dir_block [OF assms(1,2,6,7,9)]
  have wr: "(if ch then ext2fs_write_dir_block4 env fs b (encs es' @ dir_tail env (leaf_crc env dir (i_generation inode) (encs es))) dir else (None, fs))
      = (None, fs\<lparr>fs_dev := (fs_dev fs)(b := dir_bytes env dir (i_generation inode) es')\<rparr>)"
  proof (cases ch)
    case True
    then show ?thesis by (simp add: write_dir_block [OF ok(1) assms(2,6,8)])
  next
    case False
    with ok(2) assms(9) have "(fs_dev fs)(b := dir_bytes env dir (i_generation inode) es') = fs_dev fs" by (metis fun_upd_triv)
    with False show ?thesis by simp
  qed
  show ?thesis using assms(5) s' unfolding ext2fs_process_dir_block_def by (intro exI [of _ s']) (simp add: rd l wr)
qed

lemma all_blocks:
  assumes "list_all2 (\<lambda>b es. entries_ok env es \<and> fs_dev fs b = dir_bytes env dir gen es) (map snd (data_of vs)) ess"
    "distinct (map snd (data_of vs))" "small_block env" "idle s" "walk_blocks step ess = (ess', r)"
    "fe_inode_read_error env dir = None" "i_generation (fs_inodes fs dir) = gen"
    "\<forall>b\<in>set (map snd (data_of vs)). fe_read_error env b = None \<and> fe_write_error env b = None"
  shows "\<exists>fs' s'. visit_all (ext2fs_process_dir_block env flags (dir_xlate_func f) dir) vs (fs, None, s) = Some (r \<noteq> None, fs', None, s')
      \<and> (case r of None \<Rightarrow> idle s' | Some x \<Rightarrow> final s' x) \<and> fs_inodes fs' = fs_inodes fs
      \<and> (\<forall>b. b \<notin> set (map snd (data_of vs)) \<longrightarrow> fs_dev fs' b = fs_dev fs b)
      \<and> list_all2 (\<lambda>b es. entries_ok env es \<and> fs_dev fs' b = dir_bytes env dir gen es) (map snd (data_of vs)) ess'"
  using assms
proof (induction vs arbitrary: fs s ess ess')
  case Nil
  then show ?case by auto
next
  case (Cons v vs)
  obtain b n ref off where v: "v = (b, n, ref, off)" by (metis surj_pair)
  show ?case
  proof (cases "0 \<le> n")
    case False
    then have d: "data_of (v # vs) = data_of vs" by (simp add: data_of_def v)
    have "ext2fs_process_dir_block env flags (dir_xlate_func f) dir b n ref off (fs, None, s) = Some (0, b, fs, None, s)"
      using False by (simp add: ext2fs_process_dir_block_def)
    then show ?thesis using Cons.IH [of fs ess s ess'] Cons.prems unfolding d by (simp add: v)
  next
    case True
    then have d: "map snd (data_of (v # vs)) = b # map snd (data_of vs)" by (simp add: data_of_def v)
    from Cons.prems(1) obtain es ess0 where ess: "ess = es # ess0" and es: "entries_ok env es" "fs_dev fs b = dir_bytes env dir gen es"
      and rest: "list_all2 (\<lambda>b es. entries_ok env es \<and> fs_dev fs b = dir_bytes env dir gen es) (map snd (data_of vs)) ess0"
      unfolding d by (auto simp: list_all2_Cons1)
    obtain es' ch r1 where st: "step es = (es', ch, r1)" by (metis surj_pair)
    let ?fs1 = "fs\<lparr>fs_dev := (fs_dev fs)(b := dir_bytes env dir gen es')\<rparr>"
    obtain s1 where one: "ext2fs_process_dir_block env flags (dir_xlate_func f) dir b n ref off (fs, None, s)
          = Some (if r1 = None then 0 else BLOCK_ABORT, b, ?fs1, None, s1)"
      and s1: "case r1 of None \<Rightarrow> idle s1 | Some x \<Rightarrow> final s1 x"
      using one_block [OF es(1) Cons.prems(3,4) st True, of fs dir "fs_inodes fs dir" b ref off None] es(2) Cons.prems(6-8)
      unfolding d by (auto simp: ext2fs_read_inode_def)
    have ok: "entries_ok env es'" using step_ok [OF es(1) Cons.prems(4) st] by simp
    have b: "b \<notin> set (map snd (data_of vs))" using Cons.prems(2) unfolding d by simp
    have rest1: "list_all2 (\<lambda>b es. entries_ok env es \<and> fs_dev ?fs1 b = dir_bytes env dir gen es) (map snd (data_of vs)) ess0"
      using rest b by (elim list.rel_mono_strong) auto
    show ?thesis
    proof (cases r1)
      case (Some x)
      then have "ess' = es' # ess0" "r = Some x" using Cons.prems(5) by (simp_all add: ess st)
      with one s1 ok rest1 Some show ?thesis unfolding d by (simp add: v)
    next
      case None
      then obtain ess1 where w: "walk_blocks step ess0 = (ess1, r)" and ess': "ess' = es' # ess1"
        using Cons.prems(5) by (auto simp: ess st split: prod.splits)
      have "idle s1" using s1 None by simp
      from Cons.IH [OF rest1 _ Cons.prems(3) this w Cons.prems(6)] Cons.prems(2,7,8)
      obtain fs' s' where IH: "visit_all (ext2fs_process_dir_block env flags (dir_xlate_func f) dir) vs (?fs1, None, s1) = Some (r \<noteq> None, fs', None, s')"
        "case r of None \<Rightarrow> idle s' | Some x \<Rightarrow> final s' x" "fs_inodes fs' = fs_inodes ?fs1"
        "\<forall>b. b \<notin> set (map snd (data_of vs)) \<longrightarrow> fs_dev fs' b = fs_dev ?fs1 b"
        "list_all2 (\<lambda>b es. entries_ok env es \<and> fs_dev fs' b = dir_bytes env dir gen es) (map snd (data_of vs)) ess1"
        unfolding d by auto
      from IH(4) b have "fs_dev fs' b = dir_bytes env dir gen es'" by simp
      with one None IH ok show ?thesis unfolding d ess' by (intro exI [of _ fs'] exI [of _ s']) (auto simp: v)
    qed
  qed
qed

text \<open>The operation on a directory.\<close>

lemma on_directory:
  assumes d: "directory_on env M dir fs ess" and "idle s" and w: "walk_blocks step ess = (ess', r)"
  shows "\<exists>fs' s'. ext2fs_dir_iterate env extents inlines dir flags block_buf f fs s = Some (None, fs', s')
      \<and> (case r of None \<Rightarrow> idle s' | Some x \<Rightarrow> final s' x) \<and> directory_on env M dir fs' ess' \<and> fs_inodes fs' = fs_inodes fs
      \<and> dir_blocks env (fs_dev fs') (fs_inodes fs dir) = dir_blocks env (fs_dev fs) (fs_inodes fs dir)
      \<and> (\<forall>b. b \<notin> set (dir_blocks env (fs_dev fs) (fs_inodes fs dir)) \<longrightarrow> fs_dev fs' b = fs_dev fs b)"
proof -
  let ?inode = "fs_inodes fs dir" and ?g = "ext2fs_process_dir_block env flags (dir_xlate_func f) dir"
  let ?vs = "file_visits env BLOCK_FLAG_READ_ONLY (fs_dev fs) ?inode" and ?bs = "dir_blocks env (fs_dev fs) ?inode"
  have m: "file_mapped env M BLOCK_FLAG_READ_ONLY (fs_dev fs) ?inode" and small: "small_block env"
    and rdy: "iteration_ready env fs dir BLOCK_FLAG_READ_ONLY False ?inode"
    and h: "LINUX_S_ISDIR (i_mode ?inode)" "fe_malloc env (fe_blocksize env)" "distinct ?bs"
      "\<forall>b\<in>set ?bs. fe_read_error env b = None \<and> fe_write_error env b = None"
      "list_all2 (\<lambda>b es. entries_ok env es \<and> fs_dev fs b = dir_bytes env dir (i_generation ?inode) es) ?bs ess"
    using d by (simp_all add: directory_on_def Let_def)
  note bs = dir_blocks_visits [OF m]
  have rd: "fe_inode_read_error env dir = None" using rdy by (auto simp: iteration_ready_def ext2fs_read_inode_def split: option.splits)
  from all_blocks [OF h(5) [unfolded bs] h(3) [unfolded bs] small assms(2) w rd refl h(4) [unfolded bs]]
  obtain fs' s' where run: "visit_all ?g ?vs (fs, None, s) = Some (r \<noteq> None, fs', None, s')"
    and s': "case r of None \<Rightarrow> idle s' | Some x \<Rightarrow> final s' x" and ino: "fs_inodes fs' = fs_inodes fs"
    and other: "\<forall>b. b \<notin> set ?bs \<longrightarrow> fs_dev fs' b = fs_dev fs b"
    and all: "list_all2 (\<lambda>b es. entries_ok env es \<and> fs_dev fs' b = dir_bytes env dir (i_generation ?inode) es) ?bs ess'"
    unfolding bs by blast
  have "ext2fs_block_iterate3 env extents dir BLOCK_FLAG_READ_ONLY False ?g (fs, None, s) = Some (None, fs', None, s')"
    using block_iterate_walk [OF _ quiet_process, of env "(fs, None, s)" dir BLOCK_FLAG_READ_ONLY False ?inode M] rdy m run by simp
  then have "ext2fs_dir_iterate env extents inlines dir flags block_buf f fs s = Some (None, fs', s')"
    using h(1,2) rd by (simp add: ext2fs_dir_iterate_def ext2fs_dir_iterate2_def ext2fs_check_directory_def ext2fs_read_inode_def)
  moreover have "agrees M (fs_dev fs) (fs', None :: errcode option, s')"
    by (rule visit_all_keeps [OF quiet_process _ _ run]) (use m in \<open>simp_all add: file_mapped_def agrees_def\<close>)
  then have agree: "\<forall>b\<in>M. fs_dev fs' b = fs_dev fs b" by (simp add: agrees_def)
  have "file_mapped env M BLOCK_FLAG_READ_ONLY (fs_dev fs') ?inode" and "dir_blocks env (fs_dev fs') ?inode = ?bs"
    using file_visits_agree [OF agree m] by (simp_all add: dir_blocks_visits [OF m] dir_blocks_visits)
  moreover have "iteration_ready env fs' dir BLOCK_FLAG_READ_ONLY False ?inode"
    using rdy ino rd by (simp add: iteration_ready_def ext2fs_read_inode_def)
  ultimately show ?thesis
    using s' ino other all small h by (intro exI [of _ fs'] exI [of _ s']) (simp add: directory_on_def Let_def)
qed

end

end
