(* ===== verification/Dir_Find.thy ===== *)
theory Dir_Find
  imports Dir_Walk
begin

text \<open>Looking a name up and removing an entry, on the list of entries of a block.\<close>

section \<open>Names\<close>

lemma strncmp_names: "length a = length b \<Longrightarrow> 0 \<notin> set b \<Longrightarrow> strncmp (a @ c) b (length b) = 0 \<longleftrightarrow> a = b"
proof (induction a b rule: list_induct2')
  case (4 x xs y ys)
  then show ?case by (auto simp: unsigned_word_eqI)
qed simp_all

lemma strncmp_names0: "length a = length b \<Longrightarrow> 0 \<notin> set b \<Longrightarrow> strncmp a b (length b) = 0 \<longleftrightarrow> a = b"
  using strncmp_names [of a b "[]"] by simp

definition live :: "dirent \<Rightarrow> bool" where
  "live e \<longleftrightarrow> de_ino e \<noteq> 0"

section \<open>Lookup\<close>

definition lookup_step :: "u8 list \<Rightarrow> u32 block_step" where
  "lookup_step name es = (es, False, map_option de_ino (find (\<lambda>e. live e \<and> de_name e = name) es))"

lemma entries_bounds:
  assumes "entries_ok env (pre @ e # es)" "small_block env"
  shows "entry_ok e" "dlens pre + dlen e + dir_csum_size env \<le> fe_blocksize env" "length (de_name e) \<le> 255" "dlen e < 65536"
  using assms by (auto simp: entries_ok_def small_block_def entry_ok_def)

lemma lookup_loop:
  assumes "entries_ok env (pre @ es)" "small_block env"
  shows "dir_loop env 0 (dir_xlate_func (lookup_proc name)) dir (dlens pre) nre0 en0 ch (encs pre @ encs es @ dir_tail env crc) None
    = Some (Inr (ch, find (\<lambda>e. live e \<and> de_name e = name) es \<noteq> None), encs (pre @ es) @ dir_tail env crc,
        map_option de_ino (find (\<lambda>e. live e \<and> de_name e = name) es))"
  using assms
proof (induction es arbitrary: pre nre0 en0)
  case Nil
  then show ?case
    using dir_loop_end [of "encs pre" "dlens pre" env 0] by (simp add: entries_ok_def)
next
  case (Cons e es)
  note b = entries_bounds [OF Cons.prems]
  note fields = entry_fields [OF length_encs b(3,4), of pre "encs es @ dir_tail env crc"]
  have rest: "dir_loop env 0 (dir_xlate_func (lookup_proc name)) dir (dlens pre + dlen e) nre0 en0 ch (encs pre @ enc e @ encs es @ dir_tail env crc) None
    = Some (Inr (ch, find (\<lambda>e. live e \<and> de_name e = name) es \<noteq> None), encs (pre @ e # es) @ dir_tail env crc,
        map_option de_ino (find (\<lambda>e. live e \<and> de_name e = name) es))" for nre0 en0
    using Cons.IH [of "pre @ [e]"] Cons.prems by simp
  note step = dir_loop_entry [OF b(1) length_encs b(2) Cons.prems(2), of 0 "lookup_proc name" dir]
  show ?case
  proof (cases "live e")
    case False
    then show ?thesis using rest step by (simp add: live_def)
  next
    case True
    then have "0 \<notin> set (de_name e)" using b(1) by (simp add: entry_ok_def live_def)
    then have cmp: "(length name \<noteq> length (de_name e)) \<or> (strncmp name (de_name e) (length (de_name e)) \<noteq> 0) \<longleftrightarrow> de_name e \<noteq> name"
      using strncmp_names0 [of name "de_name e"] by auto
    have "lookup_proc name (dlens pre) (fe_blocksize env) (encs pre @ enc e @ encs es @ dir_tail env crc) None
        = (if de_name e = name then (DIRENT_ABORT, encs pre @ enc e @ encs es @ dir_tail env crc, Some (de_ino e))
           else (0, encs pre @ enc e @ encs es @ dir_tail env crc, None))"
      unfolding lookup_proc_def fields Let_def using cmp by (cases "de_name e = name") auto
    then show ?thesis using rest step True by (simp add: live_def DIRENT_ABORT_def DIRENT_CHANGED_def)
  qed
qed

interpretation lk: entry_walk env 0 "lookup_proc name" "lookup_step name" "\<lambda>s. s = None" "\<lambda>s x. s = Some x"
  for env name
proof unfold_locales
  fix es es' :: "dirent list" and s :: "u32 option" and ch and r :: "u32 option" and dir en crc
  assume "entries_ok env es" "small_block env" "s = None" "lookup_step name es = (es', ch, r)"
  then show "\<exists>s'. dir_loop env 0 (dir_xlate_func (lookup_proc name)) dir 0 0 en False (encs es @ dir_tail env crc) s
      = Some (Inr (ch, r \<noteq> None), encs es' @ dir_tail env crc, s') \<and> (case r of None \<Rightarrow> s' = None | Some x \<Rightarrow> s' = Some x)"
    using lookup_loop [of env "[]" es name dir 0 en False crc] by (auto simp: lookup_step_def split: option.splits)
qed (simp add: lookup_step_def)

section \<open>Unlink\<close>

text \<open>The entries that the call asks for; the first of them is merged into the entry before it.\<close>

definition unlinks :: "u8 list option \<Rightarrow> u32 \<Rightarrow> dirent \<Rightarrow> bool" where
  "unlinks name ino e \<longleftrightarrow> (case name of Some n \<Rightarrow> de_name e = n | None \<Rightarrow> True) \<and> (if ino \<noteq> 0 then de_ino e = ino else live e)"

definition merge :: "dirent \<Rightarrow> dirent \<Rightarrow> dirent" where
  "merge p e = p\<lparr>de_slack := de_slack p @ enc e\<rparr>"

fun remove_next :: "(dirent \<Rightarrow> bool) \<Rightarrow> dirent \<Rightarrow> dirent list \<Rightarrow> dirent list option" where
  "remove_next P p [] = None"
| "remove_next P p (e # es) = (if P e then Some (merge p e # es) else map_option (Cons p) (remove_next P e es))"

fun unlink_step :: "(dirent \<Rightarrow> bool) \<Rightarrow> unit block_step" where
  "unlink_step P [] = ([], False, None)"
| "unlink_step P (e # es) =
     (if P e then (e\<lparr>de_ino := 0\<rparr> # es, True, Some ())
      else case remove_next P e es of None \<Rightarrow> (e # es, False, None) | Some es' \<Rightarrow> (es', True, Some ()))"

lemma dlen_merge [simp]: "dlen (merge p e) = dlen p + dlen e"
  by (simp add: merge_def dlen_def)

lemma dlen_no_ino [simp]: "dlen (e\<lparr>de_ino := i\<rparr>) = dlen e"
  by (simp add: dlen_def)

lemma entry_ok_merge: "entry_ok p \<Longrightarrow> entry_ok e \<Longrightarrow> entry_ok (merge p e)"
  unfolding entry_ok_def dlen_merge by (auto simp: merge_def)

lemma remove_next_ok:
  assumes "remove_next P p es = Some es'" "entry_ok p" "\<forall>e\<in>set es. entry_ok e"
  shows "(\<forall>e\<in>set es'. entry_ok e) \<and> dlens es' = dlen p + dlens es"
  using assms by (induction P p es arbitrary: es' rule: remove_next.induct) (auto simp: entry_ok_merge split: if_splits)

lemma unlink_step_ok:
  assumes "entries_ok env es" "unlink_step P es = (es', ch, r)"
  shows "entries_ok env es' \<and> (\<not> ch \<longrightarrow> es' = es)"
proof (cases es)
  case (Cons e es0)
  with assms show ?thesis
    using remove_next_ok [of P e es0]
    by (auto simp: entries_ok_def entry_ok_def [of "e\<lparr>de_ino := 0\<rparr>"] split: if_splits option.splits)
      (auto simp: entry_ok_def)
qed (use assms in simp)

text \<open>The new length of the entry before fits into its field.\<close>

lemma enc_merge:
  assumes "length pre = off" "dlen p + dlen e < 65536" "length (de_name e) \<le> 255"
  shows "set_d_rec_len (pre @ enc p @ enc e @ post) off
      (d_rec_len (pre @ enc p @ enc e @ post) off + d_rec_len (pre @ enc p @ enc e @ post) (off + dlen p)) = pre @ enc (merge p e) @ post"
proof -
  have p: "d_rec_len (pre @ enc p @ enc e @ post) off = of_nat (dlen p)" using assms(1) by (simp add: enc_def)
  have "length (pre @ enc p) = off + dlen p" using assms(1) by simp
  from get_hdr(2) [OF this, of "de_ino e" "of_nat (dlen e)" "name_and_type (length (de_name e)) (de_type e)" "de_name e @ de_slack e @ post"]
  have "d_rec_len (pre @ enc p @ enc e @ post) (off + dlen p) = of_nat (dlen e)" by (simp add: enc_def [of e])
  with p show ?thesis using assms(1) by (simp add: enc_def [of p] enc_def [of "merge p e"]) (simp add: merge_def dlen_def)
qed

lemma unlink_proc_entry:
  assumes "entry_ok e" "dlen e < 65536" "length pre = off" "\<not> us_done us"
  shows "unlink_proc name ino off bs (pre @ enc e @ post) us =
    (if unlinks name ino e
     then (DIRENT_ABORT OR DIRENT_CHANGED,
           if off \<noteq> 0 then set_d_rec_len (pre @ enc e @ post) (the (us_prev us))
               (d_rec_len (pre @ enc e @ post) (the (us_prev us)) + d_rec_len (pre @ enc e @ post) off)
             else pre @ enc (e\<lparr>de_ino := 0\<rparr>) @ post, us\<lparr>us_prev := Some off, us_done := True\<rparr>)
     else (0, pre @ enc e @ post, us\<lparr>us_prev := Some off\<rparr>))"
proof -
  have len: "length (de_name e) \<le> 255" using assms(1) by (simp add: entry_ok_def)
  note fields = entry_fields [OF assms(3) len assms(2), of post]
  have zero: "set_d_inode (pre @ enc e @ post) off 0 = pre @ enc (e\<lparr>de_ino := 0\<rparr>) @ post"
    using assms(3) by (simp add: enc_def dlen_def)
  show ?thesis
  proof (cases "if ino \<noteq> 0 then de_ino e \<noteq> ino else de_ino e = 0")
    case True
    then have "\<not> unlinks name ino e" by (auto simp: unlinks_def live_def split: if_splits)
    with True show ?thesis unfolding unlink_proc_def fields(1) Let_def by simp
  next
    case False
    then have nz: "0 \<notin> set (de_name e)" using assms(1) by (auto simp: entry_ok_def split: if_splits)
    have "(length (de_name e) \<noteq> length n \<or> strncmp (n @ [0]) (de_name e) (length (de_name e)) \<noteq> 0) \<longleftrightarrow> de_name e \<noteq> n" for n
      using strncmp_names [OF _ nz, of n "[0]"] by auto
    then have name: "(case name of None \<Rightarrow> False | Some n \<Rightarrow> length (de_name e) \<noteq> length n \<or> strncmp (n @ [0]) (de_name e) (length (de_name e)) \<noteq> 0)
        \<longleftrightarrow> \<not> (case name of None \<Rightarrow> True | Some n \<Rightarrow> de_name e = n)"
      by (simp split: option.split)
    have ino: "(if ino \<noteq> 0 then de_ino e \<noteq> ino else de_ino e = 0) = False" "(if ino \<noteq> 0 then de_ino e = ino else de_ino e \<noteq> 0) = True"
      using False by (auto split: if_splits)
    show ?thesis
      unfolding unlink_proc_def fields Let_def name unlinks_def live_def ino using zero by (cases "off = 0") simp_all
  qed
qed

lemma unlink_loop:
  assumes "entries_ok env (pre @ p # es)" "small_block env" "\<not> us_done us" "us_prev us = Some (dlens pre)"
  shows "\<exists>us'. dir_loop env DIRENT_FLAG_INCLUDE_EMPTY (dir_xlate_func (unlink_proc name ino)) dir (dlens pre + dlen p) nre en False
        (encs pre @ enc p @ encs es @ dir_tail env crc) us
      = Some (Inr (remove_next (unlinks name ino) p es \<noteq> None, remove_next (unlinks name ino) p es \<noteq> None),
          encs pre @ encs (case remove_next (unlinks name ino) p es of None \<Rightarrow> p # es | Some es' \<Rightarrow> es') @ dir_tail env crc, us')
      \<and> us_done us' = (remove_next (unlinks name ino) p es \<noteq> None)"
  using assms
proof (induction es arbitrary: pre p nre en us)
  case Nil
  then show ?case
    using dir_loop_end [of "encs pre @ enc p" "dlens pre + dlen p" env DIRENT_FLAG_INCLUDE_EMPTY]
    by (intro exI [of _ us]) (simp add: entries_ok_def)
next
  case (Cons e es)
  have b: "entry_ok e" "dlens pre + dlen p + dlen e + dir_csum_size env \<le> fe_blocksize env" "length (de_name e) \<le> 255" "dlen e < 65536"
      "dlen p + dlen e < 65536" "0 < dlen p" "dlens (pre @ [p]) = dlens pre + dlen p"
    using Cons.prems(1,2) by (auto simp: entries_ok_def small_block_def entry_ok_def)
  have len: "length (encs pre @ enc p) = dlens pre + dlen p" by simp
  note step = dir_loop_entry [OF b(1) len b(2) Cons.prems(2) disjI2 [OF refl], of "unlink_proc name ino" dir nre en False]
  note one = unlink_proc_entry [OF b(1,4) len Cons.prems(3), of name ino "fe_blocksize env" "encs es @ dir_tail env crc"]
  show ?case
  proof (cases "unlinks name ino e")
    case True
    have "DIRENT_FLAG_INCLUDE_EMPTY \<noteq> 0" "DIRENT_ABORT OR DIRENT_CHANGED = 3" by (simp_all add: DIRENT_FLAG_INCLUDE_EMPTY_def DIRENT_ABORT_def DIRENT_CHANGED_def)
    then show ?thesis using step one True b(6) Cons.prems(4) enc_merge [OF length_encs b(5,3), of pre "encs es @ dir_tail env crc"]
      by (simp add: DIRENT_ABORT_def DIRENT_CHANGED_def)
  next
    case False
    let ?us = "us\<lparr>us_prev := Some (dlens pre + dlen p)\<rparr>"
    from Cons.IH [of "pre @ [p]" e ?us] Cons.prems(1-3) b(7)
    have rest: "\<exists>us'. dir_loop env DIRENT_FLAG_INCLUDE_EMPTY (dir_xlate_func (unlink_proc name ino)) dir (dlens pre + dlen p + dlen e) nre en False
        (encs pre @ enc p @ enc e @ encs es @ dir_tail env crc) ?us
      = Some (Inr (remove_next (unlinks name ino) e es \<noteq> None, remove_next (unlinks name ino) e es \<noteq> None),
          encs pre @ enc p @ encs (case remove_next (unlinks name ino) e es of None \<Rightarrow> e # es | Some es' \<Rightarrow> es') @ dir_tail env crc, us')
      \<and> us_done us' = (remove_next (unlinks name ino) e es \<noteq> None)" for nre en
      by simp
    have "DIRENT_FLAG_INCLUDE_EMPTY \<noteq> 0" by (simp add: DIRENT_FLAG_INCLUDE_EMPTY_def)
    then have "dir_loop env DIRENT_FLAG_INCLUDE_EMPTY (dir_xlate_func (unlink_proc name ino)) dir (dlens pre + dlen p) nre en False
        (encs pre @ enc p @ enc e @ encs es @ dir_tail env crc) us
      = dir_loop env DIRENT_FLAG_INCLUDE_EMPTY (dir_xlate_func (unlink_proc name ino)) dir (dlens pre + dlen p + dlen e)
          (if nre = dlens pre + dlen p then nre + dlen e else nre) (if en < DIRENT_OTHER_FILE then en + 1 else en) False
          (encs pre @ enc p @ enc e @ encs es @ dir_tail env crc) ?us"
      using step one False by simp
    with rest [of "if nre = dlens pre + dlen p then nre + dlen e else nre" "if en < DIRENT_OTHER_FILE then en + 1 else en"] False show ?thesis
      by (cases "remove_next (unlinks name ino) e es") simp_all
  qed
qed

definition unlink_idle :: "unlink_state \<Rightarrow> bool" where
  "unlink_idle us \<longleftrightarrow> \<not> us_done us"

definition unlink_final :: "unlink_state \<Rightarrow> unit \<Rightarrow> bool" where
  "unlink_final us _ \<longleftrightarrow> us_done us"

interpretation ul: entry_walk env DIRENT_FLAG_INCLUDE_EMPTY "unlink_proc name ino" "unlink_step (unlinks name ino)" unlink_idle unlink_final
  for env name ino
proof unfold_locales
  fix es es' s ch and r :: "unit option" and dir en crc
  assume a: "entries_ok env es" "small_block env" "unlink_idle s" "unlink_step (unlinks name ino) es = (es', ch, r)"
  obtain e es0 where es: "es = e # es0" using a(1) by (cases es) (auto simp: entries_ok_def)
  have b: "entry_ok e" "0 + dlen e + dir_csum_size env \<le> fe_blocksize env" "dlen e < 65536" "\<not> us_done s"
    using a(1-3) es by (auto simp: entries_ok_def small_block_def unlink_idle_def)
  note step = dir_loop_entry [of e "[]", OF b(1) _ b(2) a(2) disjI2 [OF refl], of "unlink_proc name ino" dir 0 en False]
  note one = unlink_proc_entry [of e "[]" 0, OF b(1,3) _ b(4), of name ino "fe_blocksize env" "encs es0 @ dir_tail env crc"]
  have flags: "DIRENT_FLAG_INCLUDE_EMPTY \<noteq> 0" "DIRENT_ABORT OR DIRENT_CHANGED = 3"
    by (simp_all add: DIRENT_FLAG_INCLUDE_EMPTY_def DIRENT_ABORT_def DIRENT_CHANGED_def)
  show "\<exists>s'. dir_loop env DIRENT_FLAG_INCLUDE_EMPTY (dir_xlate_func (unlink_proc name ino)) dir 0 0 en False (encs es @ dir_tail env crc) s
      = Some (Inr (ch, r \<noteq> None), encs es' @ dir_tail env crc, s') \<and> (case r of None \<Rightarrow> unlink_idle s' | Some x \<Rightarrow> unlink_final s' x)"
  proof (cases "unlinks name ino e")
    case True
    with step one a(4) flags show ?thesis
      by (auto simp: es unlink_final_def DIRENT_ABORT_def DIRENT_CHANGED_def)
  next
    case False
    obtain s' where "dir_loop env DIRENT_FLAG_INCLUDE_EMPTY (dir_xlate_func (unlink_proc name ino)) dir (dlens [] + dlen e) (dlen e)
        (if en < DIRENT_OTHER_FILE then en + 1 else en) False (encs [] @ enc e @ encs es0 @ dir_tail env crc) (s\<lparr>us_prev := Some 0\<rparr>)
      = Some (Inr (remove_next (unlinks name ino) e es0 \<noteq> None, remove_next (unlinks name ino) e es0 \<noteq> None),
          encs [] @ encs (case remove_next (unlinks name ino) e es0 of None \<Rightarrow> e # es0 | Some es' \<Rightarrow> es') @ dir_tail env crc, s')
      \<and> us_done s' = (remove_next (unlinks name ino) e es0 \<noteq> None)"
      using unlink_loop [of env "[]" e es0 "s\<lparr>us_prev := Some 0\<rparr>" name ino dir "dlen e" "if en < DIRENT_OTHER_FILE then en + 1 else en" crc] a(1,2) b(4)
      unfolding es by auto
    with step one a(4) flags False show ?thesis
      by (cases "remove_next (unlinks name ino) e es0") (auto simp: es unlink_final_def unlink_idle_def)
  qed
qed (use unlink_step_ok in blast)

end
