(* ===== verification/Dir_Link.thy ===== *)
theory Dir_Link
  imports Dir_Find
begin

text \<open>Adding an entry, on the list of entries of a block.\<close>

section \<open>The steps on entries\<close>

lemma rec_len_bounds:
  "n + 8 \<le> EXT2_DIR_REC_LEN n" "EXT2_DIR_REC_LEN n \<le> n + 11" "EXT2_DIR_REC_LEN n mod 4 = 0" "n \<noteq> 0 \<Longrightarrow> 12 \<le> EXT2_DIR_REC_LEN n"
  unfolding EXT2_DIR_REC_LEN_def by presburger+

definition min_len :: "dirent \<Rightarrow> nat" where
  "min_len e = EXT2_DIR_REC_LEN (length (de_name e))"

lemma min_len_bounds: "length (de_name e) + 8 \<le> min_len e" "min_len e \<le> length (de_name e) + 11" "min_len e mod 4 = 0"
  by (simp_all add: min_len_def rec_len_bounds)

lemma min_len_fits: "entry_ok e \<Longrightarrow> min_len e \<le> dlen e"
proof -
  assume "entry_ok e"
  then have "(8 + length (de_name e) + length (de_slack e)) mod 4 = 0" by (simp add: entry_ok_def dlen_def)
  then show ?thesis unfolding min_len_def EXT2_DIR_REC_LEN_def dlen_def by presburger
qed

text \<open>The next entry is taken over if it is unused.\<close>

fun absorb :: "dirent \<Rightarrow> dirent list \<Rightarrow> dirent \<times> dirent list" where
  "absorb e [] = (e, [])"
| "absorb e (e2 # es) = (if live e2 then (e, e2 # es) else (merge e e2, es))"

definition split_entry :: "dirent \<Rightarrow> dirent \<times> dirent" where
  "split_entry e =
     (e\<lparr>de_slack := take (min_len e - 8 - length (de_name e)) (de_slack e)\<rparr>,
      \<lparr>de_ino = 0, de_type = 0, de_name = [], de_slack = drop (min_len e - length (de_name e)) (de_slack e)\<rparr>)"

definition fill_entry :: "fs_env \<Rightarrow> u8 list \<Rightarrow> u32 \<Rightarrow> u16 \<Rightarrow> dirent \<Rightarrow> dirent" where
  "fill_entry env name ino flags e =
     \<lparr>de_ino = ino, de_type = (if ext2fs_has_feature_filetype (fe_sb env) then ucast (flags AND 7) else de_type e),
      de_name = name, de_slack = drop (length name) (de_name e @ de_slack e)\<rparr>"

lemma absorb_cases:
  obtains (keep) "absorb e es = (e, es)" | (merge) e2 es2 where "es = e2 # es2" "\<not> live e2" "absorb e es = (merge e e2, es2)"
proof (cases es)
  case Nil
  then show ?thesis by (auto intro: keep)
next
  case (Cons e2 es2)
  then show ?thesis by (cases "live e2") (auto intro: keep merge)
qed

lemma length_absorb: "absorb e es = (e', es') \<Longrightarrow> length es' \<le> length es"
  by (cases rule: absorb_cases [of e es]) auto

text \<open>The whole step: the entries, whether some have changed, and whether the name has been added.\<close>

function link_step :: "nat \<Rightarrow> (dirent \<Rightarrow> dirent) \<Rightarrow> unit block_step" where
  "link_step n fill [] = ([], False, None)"
| "link_step n fill (e # es) =
     (case absorb e es of (e', es') \<Rightarrow>
        if live e \<and> min_len e + n \<le> dlen e'
        then (case split_entry e' of (e1, e2) \<Rightarrow> (case absorb e2 es' of (e2', es'') \<Rightarrow> (e1 # fill e2' # es'', True, Some ())))
        else if \<not> live e \<and> n \<le> dlen e' then (fill e' # es', True, Some ())
        else (case link_step n fill es' of (r, ch, x) \<Rightarrow> (e' # r, ch \<or> length es' < length es, x)))"
  by pat_completeness auto
termination
  by (relation "measure (\<lambda>(n, fill, es). length es)") (auto dest!: length_absorb [OF sym])

declare link_step.simps [simp del]

lemma live_merge [simp]: "live (merge p e) = live p" "min_len (merge p e) = min_len p" "de_name (merge p e) = de_name p"
    "de_ino (merge p e) = de_ino p"
  by (simp_all add: merge_def live_def min_len_def)

lemma dlen_split:
  assumes "split_entry e = (e1, e2)" "min_len e + 12 \<le> dlen e"
  shows "dlen e1 = min_len e" "dlen e2 = dlen e - min_len e" "\<not> live e2" "live e1 = live e" "de_name e1 = de_name e" "de_ino e1 = de_ino e"
  using assms min_len_bounds(1) [of e] by (auto simp: split_entry_def dlen_def live_def)

lemma dlen_fill: "EXT2_DIR_REC_LEN (length name) \<le> dlen e \<Longrightarrow> dlen (fill_entry env name ino flags e) = dlen e"
  using rec_len_bounds(1) [of "length name"] by (simp add: fill_entry_def dlen_def)

lemma entry_ok_split:
  assumes "split_entry e = (e1, e2)" "entry_ok e" "live e" "min_len e + n \<le> dlen e" "12 \<le> n"
  shows "entry_ok e1" "entry_ok e2"
proof -
  have n: "de_name e \<noteq> []" using assms(2,3) by (simp add: entry_ok_def live_def)
  then have "12 \<le> min_len e" by (simp add: min_len_def rec_len_bounds)
  moreover have "min_len e + 12 \<le> dlen e" using assms(4,5) by simp
  note d = dlen_split [OF assms(1) this]
  ultimately show "entry_ok e1" using assms(2) d min_len_bounds(3) [of e] unfolding entry_ok_def by simp
  have "dlen e mod 4 = 0" using assms(2) by (simp add: entry_ok_def)
  then have "(dlen e - min_len e) mod 4 = 0" using min_len_bounds(3) [of e] by presburger
  moreover have "de_name e2 = []" using assms(1) by (auto simp: split_entry_def)
  ultimately show "entry_ok e2" using d assms(4,5) unfolding entry_ok_def live_def by simp
qed

definition name_ok :: "u8 list \<Rightarrow> bool" where
  "name_ok name \<longleftrightarrow> name \<noteq> [] \<and> length name \<le> 255 \<and> 0 \<notin> set name"

lemma entry_ok_fill:
  "entry_ok e \<Longrightarrow> name_ok name \<Longrightarrow> EXT2_DIR_REC_LEN (length name) \<le> dlen e \<Longrightarrow> entry_ok (fill_entry env name ino flags e)"
  using dlen_fill [of name e env ino flags] unfolding entry_ok_def name_ok_def by (simp add: fill_entry_def)

lemma absorb_ok:
  assumes "absorb e es = (e', es')" "entry_ok e" "\<forall>x\<in>set es. entry_ok x"
  shows "entry_ok e'" "\<forall>x\<in>set es'. entry_ok x" "dlen e' + dlens es' = dlen e + dlens es" "dlen e \<le> dlen e'"
    "live e' = live e" "min_len e' = min_len e" "de_name e' = de_name e" "de_ino e' = de_ino e" "filter live es' = filter live es"
proof -
  have "entry_ok e' \<and> (\<forall>x\<in>set es'. entry_ok x) \<and> dlen e' + dlens es' = dlen e + dlens es \<and> dlen e \<le> dlen e'
    \<and> live e' = live e \<and> min_len e' = min_len e \<and> de_name e' = de_name e \<and> de_ino e' = de_ino e \<and> filter live es' = filter live es"
    by (cases rule: absorb_cases [of e es]) (use assms in \<open>auto simp: entry_ok_merge\<close>)
  then show "entry_ok e'" "\<forall>x\<in>set es'. entry_ok x" "dlen e' + dlens es' = dlen e + dlens es" "dlen e \<le> dlen e'"
    "live e' = live e" "min_len e' = min_len e" "de_name e' = de_name e" "de_ino e' = de_ino e" "filter live es' = filter live es"
    by simp_all
qed

lemma link_step_ok:
  assumes "\<forall>x\<in>set es. entry_ok x" "link_step (EXT2_DIR_REC_LEN (length name)) (fill_entry env name ino flags) es = (es', ch, r)" "name_ok name"
  shows "(\<forall>x\<in>set es'. entry_ok x) \<and> dlens es' = dlens es \<and> (\<not> ch \<longrightarrow> es' = es) \<and> (es \<noteq> [] \<longrightarrow> es' \<noteq> [])"
  using assms(1,2)
proof (induction "EXT2_DIR_REC_LEN (length name)" "fill_entry env name ino flags" es arbitrary: es' ch r rule: link_step.induct)
  case 1
  then show ?case by (simp add: link_step.simps)
next
  case (2 e es)
  have n: "12 \<le> EXT2_DIR_REC_LEN (length name)" using assms(3) by (simp add: name_ok_def rec_len_bounds)
  obtain e1 es1 where a: "absorb e es = (e1, es1)" by (rule prod.exhaust)
  note ok = absorb_ok [OF a] 
  have e: "entry_ok e" "\<forall>x\<in>set es. entry_ok x" using "2.prems" by simp_all
  note ok = ok [OF e]
  show ?case
  proof (cases "live e \<and> min_len e + EXT2_DIR_REC_LEN (length name) \<le> dlen e1")
    case True
    obtain ea eb where s: "split_entry e1 = (ea, eb)" by (rule prod.exhaust)
    obtain eb' es2 where a2: "absorb eb es1 = (eb', es2)" by (rule prod.exhaust)
    have fits: "live e1" "min_len e1 + EXT2_DIR_REC_LEN (length name) \<le> dlen e1" using True ok by simp_all
    note ok1 = entry_ok_split [OF s ok(1) fits n]
    have "min_len e1 + 12 \<le> dlen e1" using fits n by simp
    note d = dlen_split [OF s this]
    note ok2 = absorb_ok [OF a2 ok1(2) ok(2)]
    have room: "EXT2_DIR_REC_LEN (length name) \<le> dlen eb'" using ok2(4) d fits by simp
    have "es' = ea # fill_entry env name ino flags eb' # es2" "ch"
      using "2.prems"(2) a s a2 True by (simp_all add: link_step.simps)
    then show ?thesis using ok ok1 ok2 d fits entry_ok_fill [OF ok2(1) assms(3) room] dlen_fill [OF room] by auto
  next
    case False
    show ?thesis
    proof (cases "\<not> live e \<and> EXT2_DIR_REC_LEN (length name) \<le> dlen e1")
      case True
      then have "es' = fill_entry env name ino flags e1 # es1" "ch" using "2.prems"(2) a False by (simp_all add: link_step.simps)
      with True ok entry_ok_fill [OF ok(1) assms(3)] show ?thesis by (auto simp: dlen_fill)
    next
      case F2: False
      obtain r2 ch2 x where l: "link_step (EXT2_DIR_REC_LEN (length name)) (fill_entry env name ino flags) es1 = (r2, ch2, x)" by (metis surj_pair)
      have "(\<forall>x\<in>set r2. entry_ok x) \<and> dlens r2 = dlens es1 \<and> (\<not> ch2 \<longrightarrow> r2 = es1) \<and> (es1 \<noteq> [] \<longrightarrow> r2 \<noteq> [])"
        using "2.hyps" [OF a [symmetric]] False F2 ok(2) l by simp
      moreover have "es' = e1 # r2" "ch = (ch2 \<or> length es1 < length es)" using "2.prems"(2) a False F2 l by (simp_all add: link_step.simps)
      moreover have "\<not> length es1 < length es \<Longrightarrow> e1 = e \<and> es1 = es" using a by (cases rule: absorb_cases [of e es]) auto
      ultimately show ?thesis using ok by auto
    qed
  qed
qed

section \<open>The names that it keeps and adds\<close>

definition names :: "dirent list \<Rightarrow> (u8 list \<times> u32) list" where
  "names es = map (\<lambda>e. (de_name e, de_ino e)) (filter live es)"

lemma names_simps [simp]: "names [] = []" "names (e # es) = (if live e then [(de_name e, de_ino e)] else []) @ names es"
    "names (xs @ ys) = names xs @ names ys"
  by (simp_all add: names_def)

text \<open>The number of bytes of an entry that are not in use.\<close>

definition free :: "dirent \<Rightarrow> nat" where
  "free e = (if live e then dlen e - min_len e else dlen e)"

lemma link_step_names:
  assumes "\<forall>x\<in>set es. entry_ok x" "link_step (EXT2_DIR_REC_LEN (length name)) (fill_entry env name ino flags) es = (es', ch, r)"
    "name_ok name" "ino \<noteq> 0"
  shows "case r of
      None \<Rightarrow> names es' = names es \<and> (\<forall>e\<in>set es. free e < EXT2_DIR_REC_LEN (length name))
    | Some _ \<Rightarrow> \<exists>as bs. names es = as @ bs \<and> names es' = as @ (name, ino) # bs"
  using assms(1,2)
proof (induction "EXT2_DIR_REC_LEN (length name)" "fill_entry env name ino flags" es arbitrary: es' ch r rule: link_step.induct)
  case 1
  then show ?case by (simp add: link_step.simps)
next
  case (2 e es)
  let ?n = "EXT2_DIR_REC_LEN (length name)"
  have n: "12 \<le> ?n" using assms(3) by (simp add: name_ok_def rec_len_bounds)
  obtain e1 es1 where a: "absorb e es = (e1, es1)" by (rule prod.exhaust)
  have e: "entry_ok e" "\<forall>x\<in>set es. entry_ok x" using "2.prems" by simp_all
  note ok = absorb_ok [OF a e]
  have names1: "names es1 = names es" using ok(9) by (simp add: names_def)
  have filled: "names (fill_entry env name ino flags x # xs) = (name, ino) # names xs" for x xs
    using assms(4) by (simp add: fill_entry_def live_def)
  show ?case
  proof (cases "live e \<and> min_len e + ?n \<le> dlen e1")
    case True
    obtain ea eb where s: "split_entry e1 = (ea, eb)" by (rule prod.exhaust)
    obtain eb' es2 where a2: "absorb eb es1 = (eb', es2)" by (rule prod.exhaust)
    have fits: "live e1" "min_len e1 + ?n \<le> dlen e1" using True ok by simp_all
    have "min_len e1 + 12 \<le> dlen e1" using fits n by simp
    note d = dlen_split [OF s this]
    note ok2 = absorb_ok [OF a2 entry_ok_split(2) [OF s ok(1) fits n] ok(2)]
    have "names es2 = names es" using ok2(9) names1 by (simp add: names_def)
    moreover have "es' = ea # fill_entry env name ino flags eb' # es2" "r = Some ()"
      using "2.prems"(2) a s a2 True by (simp_all add: link_step.simps)
    moreover have "names (ea # fill_entry env name ino flags eb' # es2) = [(de_name e, de_ino e)] @ (name, ino) # names es2"
      using filled [of eb' es2] d(4-6) ok(7,8) fits(1) by simp
    moreover have "names (e # es) = [(de_name e, de_ino e)] @ names es" using True by simp
    ultimately have "names (e # es) = [(de_name e, de_ino e)] @ names es \<and> names es' = [(de_name e, de_ino e)] @ (name, ino) # names es" "r = Some ()"
      by simp_all
    then show ?thesis by (auto simp del: names_simps append.simps)
  next
    case False
    show ?thesis
    proof (cases "\<not> live e \<and> ?n \<le> dlen e1")
      case True
      then have "es' = fill_entry env name ino flags e1 # es1" "r = Some ()" using "2.prems"(2) a False by (simp_all add: link_step.simps)
      then have "names (e # es) = [] @ names es \<and> names es' = [] @ (name, ino) # names es" "r = Some ()"
        using True filled [of e1 es1] names1 by simp_all
      then show ?thesis by (auto simp del: names_simps append.simps)
    next
      case F2: False
      obtain r2 ch2 x where l: "link_step ?n (fill_entry env name ino flags) es1 = (r2, ch2, x)" by (metis surj_pair)
      have IH: "case x of None \<Rightarrow> names r2 = names es1 \<and> (\<forall>e\<in>set es1. free e < ?n)
          | Some _ \<Rightarrow> \<exists>as bs. names es1 = as @ bs \<and> names r2 = as @ (name, ino) # bs"
        using "2.hyps" [OF a [symmetric]] False F2 ok(2) l by simp
      have es': "es' = e1 # r2" "r = x" using "2.prems"(2) a False F2 l by (simp_all add: link_step.simps)
      have fe: "free e1 < ?n" using False F2 ok(5,6) n by (auto simp: free_def)
      have "free y < ?n" if "y \<in> set (e # es)" "\<forall>y\<in>set es1. free y < ?n" for y
        using that fe a min_len_fits [OF e(1)] by (cases rule: absorb_cases [of e es]) (auto simp: free_def split: if_splits)
      moreover have "\<exists>as bs. names (e # es) = as @ bs \<and> names es' = as @ (name, ino) # bs" if "names es1 = as @ bs" "names r2 = as @ (name, ino) # bs" for as bs
        using that names1 ok es' by (intro exI [of _ "(if live e then [(de_name e, de_ino e)] else []) @ as"] exI [of _ bs]) simp
      ultimately show ?thesis using IH es' names1 ok by (cases x) auto
    qed
  qed
qed

section \<open>The steps on bytes\<close>

lemma enc_merge_at:
  assumes "length pre = off"
  shows "set_d_rec_len (pre @ enc p @ enc e @ post) off (of_nat (dlen p + dlen e)) = pre @ enc (merge p e) @ post"
  using assms by (simp add: enc_def [of p] enc_def [of "merge p e"]) (simp add: merge_def dlen_def)

lemma link_absorb_bytes:
  assumes "entries_ok env (ps @ e # es)" "small_block env" "absorb e es = (e', es')"
  shows "link_absorb env (dlens ps) (fe_blocksize env) (encs ps @ enc e @ encs es @ dir_tail env crc)
    = Inr (dlen e', encs ps @ enc e' @ encs es' @ dir_tail env crc, if length es' < length es then DIRENT_CHANGED else 0)"
proof -
  note b = entries_bounds [OF assms(1,2)]
  have total: "dlens ps + dlen e + dlens es + dir_csum_size env = fe_blocksize env" using assms(1) by (simp add: entries_ok_def)
  note fields = entry_fields [OF length_encs b(3,4), of ps "encs es @ dir_tail env crc"] get_rec_len_small [OF assms(2)]
  show ?thesis
  proof (cases es)
    case Nil
    then have e': "e' = e" "es' = []" using assms(3) by simp_all
    have "\<not> int (dlens ps + dlen e) < int (fe_blocksize env) - int (8 + dir_csum_size env)" using total Nil by simp
    then show ?thesis unfolding link_absorb_def Let_def fields e' by (simp add: Nil)
  next
    case (Cons e2 es2)
    have ok2: "entry_ok e2" "length (de_name e2) \<le> 255" "dlen e2 < 65536" "12 \<le> dlen e2"
      using assms(1,2) by (auto simp: Cons entries_ok_def entry_ok_def small_block_def)
    have "length (encs ps @ enc e) = dlens ps + dlen e" by simp
    note fields2 = entry_fields [OF this ok2(2,3), of "encs es2 @ dir_tail env crc"]
    have cond: "int (dlens ps + dlen e) < int (fe_blocksize env) - int (8 + dir_csum_size env)" "dlens ps + dlen e + dlen e2 \<le> fe_blocksize env"
      using total ok2(4) by (simp_all add: Cons)
    have "(dlen e + dlen e2) mod 4 = 0" using b(1) ok2(1) by (auto simp: entry_ok_def)
    then have set: "ext2fs_set_rec_len env (dlen e + dlen e2) = Inr (of_nat (dlen e + dlen e2))"
      by (rule set_rec_len_small [OF assms(2), rotated]) (use cond in simp)
    show ?thesis
    proof (cases "live e2")
      case True
      then have "d_inode (encs ps @ enc e @ enc e2 @ encs es2 @ dir_tail env crc) (dlens ps + dlen e) \<noteq> 0" using fields2(1) by (simp add: live_def)
      moreover have e': "e' = e" "es' = es" using True assms(3) Cons by simp_all
      ultimately show ?thesis unfolding link_absorb_def Let_def fields e' by (simp add: Cons)
    next
      case False
      have "link_absorb env (dlens ps) (fe_blocksize env) (encs ps @ enc e @ enc e2 @ encs es2 @ dir_tail env crc)
          = Inr (dlen e + dlen e2, set_d_rec_len (encs ps @ enc e @ enc e2 @ encs es2 @ dir_tail env crc) (dlens ps) (of_nat (dlen e + dlen e2)), DIRENT_CHANGED)"
        using False cond fields2 set unfolding link_absorb_def Let_def fields [unfolded Cons encs_simps append_assoc] by (simp add: live_def)
      with False assms(3) show ?thesis using enc_merge_at [of "encs ps" "dlens ps" e e2 "encs es2 @ dir_tail env crc"] by (auto simp: Cons)
    qed
  qed
qed

lemma no_deconvert:
  assumes "off + cur + dir_csum_size env \<le> fe_blocksize env"
  shows "link_deconvert_node env off (cur, buf, ret) = Inr (cur, buf, ret)" "link_deconvert_root env off (cur, buf, ret) = Inr (cur, buf, ret)"
  using assms by (auto simp: link_deconvert_node_def link_deconvert_root_def)

lemma type_bits: "(flags AND 7 :: u16) = ucast (ucast (flags AND 7) :: u8)"
proof (rule bit_word_eqI)
  fix n
  have m: "(7 :: u16) = mask 3" by (simp add: mask_eq_exp_minus_1)
  show "bit (flags AND 7 :: u16) n \<longleftrightarrow> bit (ucast (ucast (flags AND 7) :: u8) :: u16) n"
    unfolding m by (auto simp: bit_simps)
qed

lemma link_fill_bytes:
  assumes "entry_ok e" "dlen e < 65536" "length pre = off" "name_ok name" "EXT2_DIR_REC_LEN (length name) \<le> dlen e"
  shows "link_fill env name ino flags off (dlen e, pre @ enc e @ post, ret) ls
    = (DIRENT_ABORT OR DIRENT_CHANGED, pre @ enc (fill_entry env name ino flags e) @ post, ls\<lparr>ls_done := True\<rparr>)"
proof -
  let ?body = "de_name e @ de_slack e" and ?n = "length name"
  have lens: "length (de_name e) < 256" "?n < 256" "?n \<le> length ?body"
    using assms(1,4,5) rec_len_bounds(1) [of ?n] by (auto simp: entry_ok_def name_ok_def dlen_def)
  let ?t = "if ext2fs_has_feature_filetype (fe_sb env) then ucast (flags AND 7) else de_type e" and ?rl = "of_nat (dlen e) :: u16"
  have body: "take ?n ?body @ drop ?n ?body @ post = ?body @ post" by (simp only: append_assoc [symmetric] append_take_drop_id)
  have e: "pre @ enc e @ post = pre @ hdr (de_ino e) ?rl (name_and_type (length (de_name e)) (de_type e)) @ ?body @ post"
    by (simp add: enc_def)
  have put: "put_at (pre @ hdr ino ?rl nf @ ?body @ post) (off + 8) name = pre @ hdr ino ?rl nf @ name @ drop ?n ?body @ post" for nf
    using put_at_middle [of "pre @ hdr ino ?rl nf" "off + 8" name "take ?n ?body" "drop ?n ?body @ post"] lens assms(3)
    unfolding append_assoc body [unfolded append_assoc] by simp
  have type: "(if ext2fs_has_feature_filetype (fe_sb env)
        then ext2fs_dirent_set_file_type (pre @ hdr ino ?rl (name_and_type ?n (de_type e)) @ name @ drop ?n ?body @ post) off (flags AND 7)
        else pre @ hdr ino ?rl (name_and_type ?n (de_type e)) @ name @ drop ?n ?body @ post)
      = pre @ hdr ino ?rl (name_and_type ?n ?t) @ name @ drop ?n ?body @ post"
    using put_file_type [OF assms(3) lens(2), of ino ?rl "de_type e" "name @ drop ?n ?body @ post" "ucast (flags AND 7)"]
    by (simp add: type_bits [symmetric])
  have dl: "dlen (fill_entry env name ino flags e) = dlen e" by (rule dlen_fill [OF assms(5)])
  show ?thesis
    unfolding link_fill_def e Let_def prod.case set_hdr(1) [OF assms(3)] put_name_len [OF assms(3) lens(1,2)] put type
    using assms(5) by (simp add: enc_def dl) (simp add: fill_entry_def)
qed

lemma link_split_bytes:
  assumes "small_block env" "dlen e \<le> fe_blocksize env" "entry_ok e" "length pre = off" "split_entry e = (e1, e2)"
    "12 \<le> n" "min_len e + n \<le> dlen e"
  shows "link_split env n off (dlen e, pre @ enc e @ post, ret) ls = (DIRENT_CHANGED, pre @ enc e1 @ enc e2 @ post, ls)"
proof -
  let ?len = "length (de_name e)" and ?m = "min_len e"
  let ?k = "?m - 8 - ?len"
  have small: "dlen e < 65536" and len: "?len \<le> 255" "dlen e mod 4 = 0" using assms(1-3) by (auto simp: small_block_def entry_ok_def)
  have m: "?len + 8 \<le> ?m" "?m mod 4 = 0" "?m < 65536" using min_len_bounds [of e] small assms(7) by auto
  have slack: "?k + 8 \<le> length (de_slack e)" "?k + 8 = ?m - ?len" using m(1) assms(6,7) by (auto simp: dlen_def)
  have d: "dlen e1 = ?m" "dlen e2 = dlen e - ?m" using dlen_split [OF assms(5)] assms(6,7) by simp_all
  obtain i r nf where h: "take 8 (drop ?k (de_slack e)) = hdr i r nf"
    by (rule hdr_cases [of "take 8 (drop ?k (de_slack e))"]) (use slack in simp)
  let ?pad = "take ?k (de_slack e)" and ?rest = "drop (?m - ?len) (de_slack e)"
  have "de_slack e = ?pad @ take 8 (drop ?k (de_slack e)) @ drop 8 (drop ?k (de_slack e))" by (simp only: append_take_drop_id)
  also have "drop 8 (drop ?k (de_slack e)) = ?rest" by (simp add: slack(2) [symmetric] add.commute)
  finally have parts: "de_slack e = ?pad @ hdr i r nf @ ?rest" unfolding h .
  let ?nt = "name_and_type ?len (de_type e)"
  have e: "pre @ enc e @ post = pre @ hdr (de_ino e) (of_nat (dlen e)) ?nt @ (de_name e @ ?pad @ hdr i r nf @ ?rest @ post)"
    unfolding enc_def append_assoc by (subst parts) simp
  have e1: "enc e1 = hdr (de_ino e) (of_nat ?m) ?nt @ de_name e @ ?pad"
    using assms(5) by (auto simp: enc_def d(1)) (auto simp: split_entry_def)
  have "enc e2 = hdr 0 (of_nat (dlen e - ?m)) (name_and_type 0 0) @ ?rest"
    using assms(5) by (auto simp: enc_def d(2)) (auto simp: split_entry_def)
  then have e2: "enc e2 = hdr 0 (of_nat (dlen e - ?m)) 0 @ ?rest" by (simp add: name_and_type_def)
  have fields: "ext2fs_dirent_name_len (pre @ enc e @ post) off = ?len" by (rule entry_fields(3) [OF assms(4) len(1) small])
  have len1: "length (pre @ enc e1) = off + ?m" using assms(4) d(1) by simp
  note s1 = set_rec_len_small [OF assms(1), of ?m]
  have "(dlen e - ?m) mod 4 = 0" using len(2) m(2) by presburger
  then have s2: "ext2fs_set_rec_len env (dlen e - ?m) = Inr (of_nat (dlen e - ?m))" using assms(2) by (intro set_rec_len_small [OF assms(1)]) simp_all
  have first: "set_d_rec_len (pre @ enc e @ post) off (of_nat ?m) = (pre @ enc e1) @ hdr i r nf @ ?rest @ post"
    unfolding e e1 by (simp add: assms(4))
  have off: "unat (d_rec_len ((pre @ enc e1) @ hdr i r nf @ ?rest @ post) off) = ?m"
    unfolding e1 using m(3) by (simp add: assms(4) unat_of_nat16)
  have cleared: "ext2fs_dirent_set_file_type (ext2fs_dirent_set_name_len ((pre @ enc e1) @ hdr 0 r nf @ ?rest @ post) (off + ?m) 0) (off + ?m) 0
      = (pre @ enc e1) @ hdr 0 r 0 @ ?rest @ post"
  proof -
    have "ext2fs_dirent_set_name_len ((pre @ enc e1) @ hdr 0 r nf @ ?rest @ post) (off + ?m) 0 = (pre @ enc e1) @ hdr 0 r (nf AND 0xff00) @ ?rest @ post"
      unfolding ext2fs_dirent_set_name_len_def get_hdr(3) [OF len1] by (subst set_hdr(3) [OF len1]) simp
    moreover have "(nf AND 0xff00) AND 0xff = (0 :: u16)" by (rule bit_word_eqI) (unfold bit_and_iff mask_bits, auto)
    then have "ext2fs_dirent_set_file_type ((pre @ enc e1) @ hdr 0 r (nf AND 0xff00) @ ?rest @ post) (off + ?m) 0 = (pre @ enc e1) @ hdr 0 r 0 @ ?rest @ post"
      unfolding ext2fs_dirent_set_file_type_def get_hdr(3) [OF len1] by (subst set_hdr(3) [OF len1]) simp
    ultimately show ?thesis by simp
  qed
  have last: "set_d_rec_len ((pre @ enc e1) @ hdr 0 r 0 @ ?rest @ post) (off + ?m) (of_nat (dlen e - ?m)) = pre @ enc e1 @ enc e2 @ post"
    unfolding set_hdr(2) [OF len1] e2 by simp
  have room: "\<not> dlen e < ?m + n" "EXT2_DIR_REC_LEN ?len = ?m" using assms(7) by (simp_all add: min_len_def)
  have s1: "ext2fs_set_rec_len env ?m = Inr (of_nat ?m)" using s1 m assms(2,7) by simp
  show ?thesis
    unfolding link_split_def prod.case Let_def fields room(2) s1 sum.case first off set_hdr(1) [OF len1] cleared s2 last using room(1) by simp
qed

section \<open>The loop\<close>

lemma link_proc_entry:
  fixes crc :: u32
  assumes "entries_ok env (ps @ e # es)" "small_block env" "absorb e es = (e', es')" "\<not> ls_done ls" "name_ok name"
  defines "n \<equiv> EXT2_DIR_REC_LEN (length name)" and "tail \<equiv> dir_tail env crc"
  shows "link_proc env name ino flags (dlens ps) (fe_blocksize env) (encs ps @ enc e @ encs es @ tail) ls =
    (if live e \<and> min_len e + n \<le> dlen e'
     then (DIRENT_CHANGED, encs ps @ enc (fst (split_entry e')) @ enc (snd (split_entry e')) @ encs es' @ tail, ls)
     else if \<not> live e \<and> n \<le> dlen e'
     then (DIRENT_ABORT OR DIRENT_CHANGED, encs ps @ enc (fill_entry env name ino flags e') @ encs es' @ tail, ls\<lparr>ls_done := True\<rparr>)
     else (if length es' < length es then DIRENT_CHANGED else 0, encs ps @ enc e' @ encs es' @ tail, ls))"
proof -
  let ?ret = "if length es' < length es then DIRENT_CHANGED else 0 :: u32" and ?buf = "encs ps @ enc e' @ encs es' @ tail"
  have e: "entry_ok e" "\<forall>x\<in>set es. entry_ok x" and total: "dlens ps + dlen e + dlens es + dir_csum_size env = fe_blocksize env"
    using assms(1) by (auto simp: entries_ok_def)
  note ok = absorb_ok [OF assms(3) e]
  have size: "dlens ps + dlen e' + dir_csum_size env \<le> fe_blocksize env" using total ok(3) by simp
  have small: "dlen e' < 65536" "length (de_name e') \<le> 255" "dlen e' \<le> fe_blocksize env"
    using size assms(2) ok(1) by (auto simp: small_block_def entry_ok_def)
  note fields = entry_fields [OF length_encs small(2,1), of ps "encs es' @ tail"]
  have n: "12 \<le> n" using assms(5) by (simp add: name_ok_def rec_len_bounds n_def)
  have "link_proc env name ino flags (dlens ps) (fe_blocksize env) (encs ps @ enc e @ encs es @ tail) ls
      = (if live e then link_split env n (dlens ps) (dlen e', ?buf, ?ret) ls else link_fill env name ino flags (dlens ps) (dlen e', ?buf, ?ret) ls)"
    unfolding link_proc_def tail_def link_absorb_bytes [OF assms(1-3)] sum.case no_deconvert [OF size] fst_conv snd_conv
      fields(1) [unfolded tail_def] n_def
    using assms(4) ok(5) by (simp add: live_def)
  also have "\<dots> = (if live e \<and> min_len e + n \<le> dlen e'
     then (DIRENT_CHANGED, encs ps @ enc (fst (split_entry e')) @ enc (snd (split_entry e')) @ encs es' @ tail, ls)
     else if \<not> live e \<and> n \<le> dlen e'
     then (DIRENT_ABORT OR DIRENT_CHANGED, encs ps @ enc (fill_entry env name ino flags e') @ encs es' @ tail, ls\<lparr>ls_done := True\<rparr>)
     else (?ret, ?buf, ls))"
  proof (cases "live e")
    case True
    show ?thesis
    proof (cases "min_len e + n \<le> dlen e'")
      case fits: True
      have "split_entry e' = (fst (split_entry e'), snd (split_entry e'))" by simp
      from link_split_bytes [OF assms(2) small(3) ok(1) length_encs this n] fits ok(6) True show ?thesis by simp
    next
      case False
      then have "link_split env n (dlens ps) (dlen e', ?buf, ?ret) ls = (?ret, ?buf, ls)"
        using ok(6,7) unfolding link_split_def prod.case Let_def fields(3) by (simp add: min_len_def)
      with False True show ?thesis by simp
    qed
  next
    case False
    show ?thesis
    proof (cases "n \<le> dlen e'")
      case True
      then show ?thesis using False link_fill_bytes [OF ok(1) small(1) length_encs assms(5), folded n_def] by simp
    next
      case F: False
      then have "link_fill env name ino flags (dlens ps) (dlen e', ?buf, ?ret) ls = (?ret, ?buf, ls)" by (simp add: link_fill_def n_def)
      with F False show ?thesis by simp
    qed
  qed
  finally show ?thesis .
qed

lemma link_loop:
  assumes "entries_ok env (ps @ es) \<or> (es = [] \<and> dlens ps + dir_csum_size env = fe_blocksize env)" "small_block env" "\<not> ls_done ls" "name_ok name"
    "link_step (EXT2_DIR_REC_LEN (length name)) (fill_entry env name ino flags) es = (es', ch', r)"
  shows "\<exists>ls'. dir_loop env DIRENT_FLAG_INCLUDE_EMPTY (dir_xlate_func (link_proc env name ino flags)) dir (dlens ps) nre en ch
        (encs ps @ encs es @ dir_tail env crc) ls
      = Some (Inr (ch \<or> ch', r \<noteq> None), encs ps @ encs es' @ dir_tail env crc, ls') \<and> ls_done ls' = (r \<noteq> None) \<and> ls_err ls' = ls_err ls"
  using assms(1,3,5)
proof (induction "EXT2_DIR_REC_LEN (length name)" "fill_entry env name ino flags" es arbitrary: ps nre en ch ls es' ch' r rule: link_step.induct)
  case 1
  then have "dlens ps + dir_csum_size env = fe_blocksize env" by (auto simp: entries_ok_def)
  from dir_loop_end [OF length_encs this assms(2) disjI2 [OF refl]] 1 show ?case by (intro exI [of _ ls]) (auto simp: link_step.simps)
next
  case (2 e es)
  let ?n = "EXT2_DIR_REC_LEN (length name)" and ?fill = "fill_entry env name ino flags" and ?tail = "dir_tail env crc"
  let ?loop = "dir_loop env DIRENT_FLAG_INCLUDE_EMPTY (dir_xlate_func (link_proc env name ino flags)) dir"
  have n: "12 \<le> ?n" using assms(4) by (simp add: name_ok_def rec_len_bounds)
  have flags: "DIRENT_FLAG_INCLUDE_EMPTY \<noteq> 0" "DIRENT_CHANGED AND DIRENT_CHANGED \<noteq> 0" "DIRENT_CHANGED AND DIRENT_ABORT = 0"
      "(DIRENT_ABORT OR DIRENT_CHANGED) AND DIRENT_CHANGED \<noteq> 0" "(DIRENT_ABORT OR DIRENT_CHANGED) AND DIRENT_ABORT \<noteq> 0"
    by (simp_all add: DIRENT_FLAG_INCLUDE_EMPTY_def DIRENT_CHANGED_def DIRENT_ABORT_def)
  have all: "entries_ok env (ps @ e # es)" using "2.prems"(1) by simp
  then have e: "entry_ok e" "\<forall>x\<in>set es. entry_ok x" by (simp_all add: entries_ok_def)
  obtain e1 es1 where a: "absorb e es = (e1, es1)" by (rule prod.exhaust)
  note ok = absorb_ok [OF a e]
  note b = entries_bounds [OF all assms(2)]
  have all1: "entries_ok env (ps @ e1 # es1)" using all ok by (auto simp: entries_ok_def)
  note b1 = entries_bounds [OF all1 assms(2)]
  note step = dir_loop_entry [OF b(1) length_encs b(2) assms(2) disjI2 [OF refl], of "link_proc env name ino flags" dir nre en ch "encs es @ ?tail" ls]
  note one = link_proc_entry [OF all assms(2) a "2.prems"(2) assms(4), of ino flags crc]
  show ?case
  proof (cases "live e \<and> min_len e + ?n \<le> dlen e1")
    case True
    obtain ea eb where s: "split_entry e1 = (ea, eb)" by (rule prod.exhaust)
    obtain eb' es2 where a2: "absorb eb es1 = (eb', es2)" by (rule prod.exhaust)
    have fits: "live e1" "min_len e1 + ?n \<le> dlen e1" using True ok by simp_all
    have "min_len e1 + 12 \<le> dlen e1" using fits n by simp
    note d = dlen_split [OF s this]
    note oks = entry_ok_split [OF s ok(1) fits n]
    have alls: "entries_ok env (ps @ ea # eb # es1)" "entries_ok env ((ps @ [ea]) @ eb # es1)"
      using all1 oks d fits(2) by (auto simp: entries_ok_def)
    note bs = entries_bounds [OF alls(1) assms(2)] and bs2 = entries_bounds [OF alls(2) assms(2)]
    have len: "unat (d_rec_len (encs ps @ enc ea @ enc eb @ encs es1 @ ?tail) (dlens ps)) = dlen ea"
      by (rule entry_fields(2) [OF length_encs bs(3,4)])
    obtain nre' en' where first: "?loop (dlens ps) nre en ch (encs ps @ enc e @ encs es @ ?tail) ls
        = ?loop (dlens (ps @ [ea])) nre' en' True (encs (ps @ [ea]) @ enc eb @ encs es1 @ ?tail) ls"
      using step one flags True s len by (simp add: Let_def)
    have "?n \<le> dlen eb'" using absorb_ok(4) [OF a2 oks(2) ok(2)] d fits by simp
    then have fill: "link_proc env name ino flags (dlens (ps @ [ea])) (fe_blocksize env) (encs (ps @ [ea]) @ enc eb @ encs es1 @ ?tail) ls
        = (DIRENT_ABORT OR DIRENT_CHANGED, encs (ps @ [ea]) @ enc (?fill eb') @ encs es2 @ ?tail, ls\<lparr>ls_done := True\<rparr>)"
      using link_proc_entry [OF alls(2) assms(2) a2 "2.prems"(2) assms(4), of ino flags crc] d(3) by simp
    have "?loop (dlens (ps @ [ea])) nre' en' True (encs (ps @ [ea]) @ enc eb @ encs es1 @ ?tail) ls
        = Some (Inr (True, True), encs (ps @ [ea]) @ enc (?fill eb') @ encs es2 @ ?tail, ls\<lparr>ls_done := True\<rparr>)"
      using dir_loop_entry [OF bs2(1) length_encs bs2(2) assms(2) disjI2 [OF refl], of "link_proc env name ino flags" dir nre' en' True "encs es1 @ ?tail" ls]
        fill flags by simp
    moreover have "es' = ea # ?fill eb' # es2" "ch'" "r = Some ()"
      using "2.prems"(3) a s a2 True by (simp_all add: link_step.simps)
    ultimately show ?thesis using first by simp
  next
    case False
    show ?thesis
    proof (cases "\<not> live e \<and> ?n \<le> dlen e1")
      case True
      then have "es' = ?fill e1 # es1" "ch'" "r = Some ()" using "2.prems"(3) a False by (simp_all add: link_step.simps)
      then show ?thesis using step one flags True False by simp
    next
      case F2: False
      obtain r2 ch2 x where l: "link_step ?n ?fill es1 = (r2, ch2, x)" by (metis surj_pair)
      have es': "es' = e1 # r2" "ch' = (ch2 \<or> length es1 < length es)" "r = x"
        using "2.prems"(3) a False F2 l by (simp_all add: link_step.simps)
      have len: "unat (d_rec_len (encs ps @ enc e1 @ encs es1 @ ?tail) (dlens ps)) = dlen e1"
        by (rule entry_fields(2) [OF length_encs b1(3,4)])
      have same: "dlen e = dlen e1" if "\<not> length es1 < length es" using a that by (cases rule: absorb_cases [of e es]) auto
      obtain nre' en' where first: "?loop (dlens ps) nre en ch (encs ps @ enc e @ encs es @ ?tail) ls
        = ?loop (dlens (ps @ [e1])) nre' en' (ch \<or> length es1 < length es) (encs (ps @ [e1]) @ encs es1 @ ?tail) ls"
        using step one flags False F2 len same by (cases "length es1 < length es") (simp_all add: Let_def)
      have next1: "entries_ok env ((ps @ [e1]) @ es1) \<or> es1 = [] \<and> dlens (ps @ [e1]) + dir_csum_size env = fe_blocksize env"
        using all1 by simp
      obtain ls' where "?loop (dlens (ps @ [e1])) nre' en' (ch \<or> length es1 < length es) (encs (ps @ [e1]) @ encs es1 @ ?tail) ls
          = Some (Inr ((ch \<or> length es1 < length es) \<or> ch2, x \<noteq> None), encs (ps @ [e1]) @ encs r2 @ ?tail, ls')
          \<and> ls_done ls' = (x \<noteq> None) \<and> ls_err ls' = ls_err ls"
        using "2.hyps" [OF a [symmetric] _ _ next1 "2.prems"(2) l] False F2 by blast
      with first es' show ?thesis by (intro exI [of _ ls']) (simp add: disj_ac)
    qed
  qed
qed

definition link_idle :: "u8 list \<Rightarrow> link_state \<Rightarrow> bool" where
  "link_idle name ls \<longleftrightarrow> \<not> ls_done ls \<and> ls_err ls = None \<and> name_ok name"

definition link_final :: "link_state \<Rightarrow> unit \<Rightarrow> bool" where
  "link_final ls _ \<longleftrightarrow> ls_done ls \<and> ls_err ls = None"

interpretation ln: entry_walk env DIRENT_FLAG_INCLUDE_EMPTY "link_proc env name ino flags"
    "link_step (EXT2_DIR_REC_LEN (length name)) (fill_entry env name ino flags)" "link_idle name" link_final
  for env name ino flags
proof unfold_locales
  fix es es' s ch and r :: "unit option" and dir en crc
  assume a: "entries_ok env es" "small_block env" "link_idle name s"
    "link_step (EXT2_DIR_REC_LEN (length name)) (fill_entry env name ino flags) es = (es', ch, r)"
  have s: "\<not> ls_done s" "name_ok name" "ls_err s = None" using a(3) by (simp_all add: link_idle_def)
  from link_loop [OF disjI1 a(2) s(1,2) a(4), of "[]" dir 0 en False crc] a(1) s
  show "\<exists>s'. dir_loop env DIRENT_FLAG_INCLUDE_EMPTY (dir_xlate_func (link_proc env name ino flags)) dir 0 0 en False (encs es @ dir_tail env crc) s
      = Some (Inr (ch, r \<noteq> None), encs es' @ dir_tail env crc, s') \<and> (case r of None \<Rightarrow> link_idle name s' | Some x \<Rightarrow> link_final s' x)"
    by (auto simp: link_idle_def link_final_def split: option.splits)
next
  fix es es' ch and r :: "unit option" and s
  assume "entries_ok env es" "link_idle name s" "link_step (EXT2_DIR_REC_LEN (length name)) (fill_entry env name ino flags) es = (es', ch, r)"
  then show "entries_ok env es' \<and> (\<not> ch \<longrightarrow> es' = es)"
    using link_step_ok [of es name env ino flags es' ch r] by (simp add: entries_ok_def link_idle_def)
qed

end
