(* ===== verification/Dir_Map.thy ===== *)
theory Dir_Map
  imports Dir_Link
begin

text \<open>A directory is a map from names to inodes.\<close>

section \<open>The operations on all blocks\<close>

definition contents :: "dirent list list \<Rightarrow> (u8 list \<times> u32) list" where
  "contents ess = concat (map names ess)"

lemma contents_simps [simp]: "contents [] = []" "contents (es # ess) = names es @ contents ess"
  by (simp_all add: contents_def)

text \<open>Lookup\<close>

lemma lookup_names: "map_option de_ino (find (\<lambda>e. live e \<and> de_name e = name) es) = map_of (names es) name"
  by (induction es) auto

lemma walk_lookup: "walk_blocks (lookup_step name) ess = (ess, map_of (contents ess) name)"
proof (induction ess)
  case (Cons es ess)
  then show ?case
    by (cases "map_of (names es) name") (simp_all add: lookup_step_def lookup_names map_add_def split: option.splits)
qed simp

text \<open>Unlink\<close>

fun remove_first :: "('a \<Rightarrow> bool) \<Rightarrow> 'a list \<Rightarrow> 'a list" where
  "remove_first P [] = []"
| "remove_first P (x # xs) = (if P x then xs else x # remove_first P xs)"

lemma remove_first_append: "remove_first P (xs @ ys) = (if \<exists>x\<in>set xs. P x then remove_first P xs @ ys else xs @ remove_first P ys)"
  by (induction xs) auto

lemma remove_first_none: "\<forall>x\<in>set xs. \<not> P x \<Longrightarrow> remove_first P xs = xs"
  by (induction xs) auto

definition asked :: "u8 list option \<Rightarrow> u32 \<Rightarrow> u8 list \<times> u32 \<Rightarrow> bool" where
  "asked name ino x \<longleftrightarrow> (case name of Some n \<Rightarrow> fst x = n | None \<Rightarrow> True) \<and> (ino \<noteq> 0 \<longrightarrow> snd x = ino)"

lemma unlinks_asked: "unlinks name ino e \<longleftrightarrow> live e \<and> asked name ino (de_name e, de_ino e)"
  by (auto simp: unlinks_def asked_def live_def split: option.splits)

lemma remove_next_names:
  "case remove_next (unlinks name ino) p es of
     None \<Rightarrow> \<forall>x\<in>set (names es). \<not> asked name ino x
   | Some es' \<Rightarrow> names es' = names [p] @ remove_first (asked name ino) (names es) \<and> (\<exists>x\<in>set (names es). asked name ino x)"
proof (induction "unlinks name ino" p es rule: remove_next.induct)
  case (2 p e es)
  then show ?case by (auto simp: unlinks_asked split: option.splits)
qed simp

lemma unlink_step_names:
  assumes "unlink_step (unlinks name ino) es = (es', ch, r)"
  shows "names es' = remove_first (asked name ino) (names es) \<and> (r = Some () \<longleftrightarrow> (\<exists>x\<in>set (names es). asked name ino x))"
proof (cases es)
  case (Cons e es0)
  show ?thesis
  proof (cases "unlinks name ino e")
    case True
    with assms Cons show ?thesis by (auto simp: unlinks_asked live_def)
  next
    case False
    with assms Cons remove_next_names [where name = name and ino = ino and p = e and es = es0] show ?thesis
      by (auto simp: unlinks_asked remove_first_none split: option.splits)
  qed
qed (use assms in simp)

lemma walk_unlink:
  assumes "walk_blocks (unlink_step (unlinks name ino)) ess = (ess', r)"
  shows "contents ess' = remove_first (asked name ino) (contents ess) \<and> (r = Some () \<longleftrightarrow> (\<exists>x\<in>set (contents ess). asked name ino x))"
  using assms
proof (induction ess arbitrary: ess' r)
  case (Cons es ess)
  obtain es1 ch r1 where st: "unlink_step (unlinks name ino) es = (es1, ch, r1)" by (metis surj_pair)
  note n = unlink_step_names [OF st]
  show ?case
  proof (cases r1)
    case None
    then have "\<forall>x\<in>set (names es). \<not> asked name ino x" using n by auto
    with n None Cons st show ?thesis by (auto simp: remove_first_append remove_first_none split: prod.splits)
  next
    case (Some u)
    with n Cons.prems st show ?thesis by (auto simp: remove_first_append)
  qed
qed simp

text \<open>Link\<close>

lemma walk_link:
  assumes "\<forall>es\<in>set ess. \<forall>e\<in>set es. entry_ok e"
    "walk_blocks (link_step (EXT2_DIR_REC_LEN (length name)) (fill_entry env name ino flags)) ess = (ess', r)" "name_ok name" "ino \<noteq> 0"
  shows "case r of
      None \<Rightarrow> contents ess' = contents ess \<and> (\<forall>es\<in>set ess. \<forall>e\<in>set es. free e < EXT2_DIR_REC_LEN (length name))
    | Some _ \<Rightarrow> \<exists>as bs. contents ess = as @ bs \<and> contents ess' = as @ (name, ino) # bs"
  using assms(1,2)
proof (induction ess arbitrary: ess' r)
  case (Cons es ess)
  obtain es1 ch r1 where st: "link_step (EXT2_DIR_REC_LEN (length name)) (fill_entry env name ino flags) es = (es1, ch, r1)" by (metis surj_pair)
  have n: "case r1 of
      None \<Rightarrow> names es1 = names es \<and> (\<forall>e\<in>set es. free e < EXT2_DIR_REC_LEN (length name))
    | Some _ \<Rightarrow> \<exists>as bs. names es = as @ bs \<and> names es1 = as @ (name, ino) # bs"
    by (rule link_step_names [OF _ st assms(3,4)]) (use Cons.prems(1) in simp)
  show ?case
  proof (cases r1)
    case None
    obtain ess1 where w: "walk_blocks (link_step (EXT2_DIR_REC_LEN (length name)) (fill_entry env name ino flags)) ess = (ess1, r)" "ess' = es1 # ess1"
      using Cons.prems(2) None st by (auto split: prod.splits)
    have "\<exists>as bs. contents (es # ess) = as @ bs \<and> contents ess' = as @ (name, ino) # bs"
      if "contents ess = as @ bs" "contents ess1 = as @ (name, ino) # bs" for as bs
      using that n None w(2) by (intro exI [of _ "names es @ as"] exI [of _ bs]) simp
    with Cons.IH [OF _ w(1)] Cons.prems(1) n None w(2) show ?thesis by (cases r) auto
  next
    case (Some u)
    then have r: "ess' = es1 # ess" "r = Some ()" using Cons.prems(2) st by simp_all
    obtain as bs where "names es = as @ bs" "names es1 = as @ (name, ino) # bs" using n Some by auto
    then have "contents (es # ess) = as @ (bs @ contents ess) \<and> contents ess' = as @ (name, ino) # (bs @ contents ess)" using r(1) by simp
    then show ?thesis unfolding r(2) option.case by blast
  qed
qed simp

section \<open>The operations on a directory\<close>

lemma directory_same:
  assumes "directory_on env M dir fs ess" "directory_on env M dir fs' ess" "fs_inodes fs' = fs_inodes fs"
    "\<forall>b. b \<notin> set (dir_blocks env (fs_dev fs) (fs_inodes fs dir)) \<longrightarrow> fs_dev fs' b = fs_dev fs b"
    "dir_blocks env (fs_dev fs') (fs_inodes fs dir) = dir_blocks env (fs_dev fs) (fs_inodes fs dir)"
  shows "fs' = fs"
proof -
  let ?bs = "dir_blocks env (fs_dev fs) (fs_inodes fs dir)" and ?g = "i_generation (fs_inodes fs dir)"
  have "list_all2 (\<lambda>b es. fs_dev fs b = dir_bytes env dir ?g es) ?bs ess" "list_all2 (\<lambda>b es. fs_dev fs' b = dir_bytes env dir ?g es) ?bs ess"
    using assms(1,2) unfolding directory_on_def Let_def assms(3,5) by (auto elim: list.rel_mono_strong)
  then have "fs_dev fs' b = fs_dev fs b" if "b \<in> set ?bs" for b
    using that by (auto simp: list_all2_conv_all_nth in_set_conv_nth)
  with assms(4) have "fs_dev fs' = fs_dev fs" by auto
  with assms(3) show ?thesis by simp
qed

lemma directory_entries_ok: "directory_on env M dir fs ess \<Longrightarrow> es \<in> set ess \<Longrightarrow> e \<in> set es \<Longrightarrow> entry_ok e"
  by (auto simp: directory_on_def Let_def list_all2_conv_all_nth in_set_conv_nth [of es] entries_ok_def)

text \<open>Clearing the flag of an index changes nothing else.\<close>

lemma directory_index_cleared:
  assumes "directory_on env M dir fs ess"
  shows "directory_on env M dir (fs\<lparr>fs_inodes := (fs_inodes fs)(dir := fs_inodes fs dir\<lparr>i_flags := i_flags (fs_inodes fs dir) AND NOT EXT2_INDEX_FL\<rparr>)\<rparr>) ess"
proof -
  let ?i = "fs_inodes fs dir"
  let ?j = "?i\<lparr>i_flags := i_flags ?i AND NOT EXT2_INDEX_FL\<rparr>"
  have v: "file_visits env flags dev ?j = file_visits env flags dev ?i" for flags dev by (simp add: file_visits_def root_visits_def)
  have "file_addrs env dev ?j = file_addrs env dev ?i" for dev by (simp add: file_addrs_def)
  then have b: "dir_blocks env dev ?j = dir_blocks env dev ?i" for dev by (simp add: dir_blocks_def)
  have "(x AND y) AND z = 0" if "x AND z = 0" for x y z :: u32 using that by (metis and.assoc and.commute and_zero_eq)
  with assms show ?thesis
    unfolding directory_on_def Let_def
    by (auto simp: b iteration_ready_def ext2fs_read_inode_def file_mapped_def v split: option.splits)
qed

lemma lookup_on_directory:
  assumes "directory_on env M dir fs ess"
  shows "ext2fs_lookup env extents inlines dir name block_buf fs
    = Some (case map_of (contents ess) name of None \<Rightarrow> Inl EXT2_ET_FILE_NOT_FOUND | Some ino \<Rightarrow> Inr ino, fs)"
proof -
  obtain fs' s' where run: "ext2fs_dir_iterate env extents inlines dir 0 block_buf (lookup_proc name) fs None = Some (None, fs', s')"
    and s': "case map_of (contents ess) name of None \<Rightarrow> s' = None | Some x \<Rightarrow> s' = Some x" and d: "directory_on env M dir fs' ess"
    and same: "fs_inodes fs' = fs_inodes fs" "\<forall>b. b \<notin> set (dir_blocks env (fs_dev fs) (fs_inodes fs dir)) \<longrightarrow> fs_dev fs' b = fs_dev fs b"
      "dir_blocks env (fs_dev fs') (fs_inodes fs dir) = dir_blocks env (fs_dev fs) (fs_inodes fs dir)"
    using lk.on_directory [OF assms refl walk_lookup] by blast
  have "fs' = fs" by (rule directory_same [OF assms d same])
  with run s' show ?thesis by (auto simp: ext2fs_lookup_def split: option.splits)
qed

lemma unlink_on_directory:
  assumes "directory_on env M dir fs ess" "fe_flags env AND EXT2_FLAG_RW \<noteq> 0" "name \<noteq> None \<or> ino \<noteq> 0"
  shows "\<exists>fs' ess'. ext2fs_unlink env extents inlines dir name ino fs
      = Some (if \<exists>x\<in>set (contents ess). asked name ino x then None else Some EXT2_ET_DIR_NO_SPACE, fs')
    \<and> directory_on env M dir fs' ess' \<and> contents ess' = remove_first (asked name ino) (contents ess) \<and> fs_inodes fs' = fs_inodes fs
    \<and> (\<forall>b. b \<notin> set (dir_blocks env (fs_dev fs) (fs_inodes fs dir)) \<longrightarrow> fs_dev fs' b = fs_dev fs b)"
proof -
  obtain ess' r where w: "walk_blocks (unlink_step (unlinks name ino)) ess = (ess', r)" by (rule prod.exhaust)
  note c = walk_unlink [OF w]
  have idle: "unlink_idle \<lparr>us_prev = None, us_done = False\<rparr>" by (simp add: unlink_idle_def)
  obtain fs' s' where run: "ext2fs_dir_iterate env extents inlines dir DIRENT_FLAG_INCLUDE_EMPTY False (unlink_proc name ino) fs
        \<lparr>us_prev = None, us_done = False\<rparr> = Some (None, fs', s')"
    and s': "case r of None \<Rightarrow> unlink_idle s' | Some x \<Rightarrow> unlink_final s' x"
    and rest: "directory_on env M dir fs' ess'" "fs_inodes fs' = fs_inodes fs"
      "\<forall>b. b \<notin> set (dir_blocks env (fs_dev fs) (fs_inodes fs dir)) \<longrightarrow> fs_dev fs' b = fs_dev fs b"
    using ul.on_directory [OF assms(1) idle w] by blast
  have "us_done s' \<longleftrightarrow> (\<exists>x\<in>set (contents ess). asked name ino x)"
    using s' c by (cases r) (auto simp: unlink_idle_def unlink_final_def)
  with run assms(2,3) have "ext2fs_unlink env extents inlines dir name ino fs
      = Some (if \<exists>x\<in>set (contents ess). asked name ino x then None else Some EXT2_ET_DIR_NO_SPACE, fs')"
    by (auto simp: ext2fs_unlink_def)
  with rest c show ?thesis by blast
qed

lemma link_on_directory:
  assumes "directory_on env M dir fs ess" "fe_flags env AND EXT2_FLAG_RW \<noteq> 0" "fe_inode_write_error env dir = None" "name_ok name" "ino \<noteq> 0"
  shows "\<exists>r fs' ess'. ext2fs_link env extents inlines dir name ino flags fs = Some (r, fs') \<and> directory_on env M dir fs' ess'
    \<and> (r = None \<and> (\<exists>as bs. contents ess = as @ bs \<and> contents ess' = as @ (name, ino) # bs)
       \<or> r = Some EXT2_ET_DIR_NO_SPACE \<and> contents ess' = contents ess
          \<and> (\<forall>es\<in>set ess. \<forall>e\<in>set es. free e < EXT2_DIR_REC_LEN (length name)))"
proof -
  obtain ess' r where w: "walk_blocks (link_step (EXT2_DIR_REC_LEN (length name)) (fill_entry env name ino flags)) ess = (ess', r)"
    by (rule prod.exhaust)
  have c: "case r of
      None \<Rightarrow> contents ess' = contents ess \<and> (\<forall>es\<in>set ess. \<forall>e\<in>set es. free e < EXT2_DIR_REC_LEN (length name))
    | Some _ \<Rightarrow> \<exists>as bs. contents ess = as @ bs \<and> contents ess' = as @ (name, ino) # bs"
    by (rule walk_link [OF _ w assms(4,5)]) (use directory_entries_ok [OF assms(1)] in blast)
  have idle: "link_idle name \<lparr>ls_done = False, ls_err = None\<rparr>" using assms(4) by (simp add: link_idle_def)
  obtain fs' s' where run: "ext2fs_dir_iterate env extents inlines dir DIRENT_FLAG_INCLUDE_EMPTY False (link_proc env name ino flags) fs
        \<lparr>ls_done = False, ls_err = None\<rparr> = Some (None, fs', s')"
    and s': "case r of None \<Rightarrow> link_idle name s' | Some x \<Rightarrow> link_final s' x" and d: "directory_on env M dir fs' ess'"
    using ln.on_directory [OF assms(1) idle w] by blast
  show ?thesis
  proof (cases r)
    case None
    with run s' assms(2) have "ext2fs_link env extents inlines dir name ino flags fs = Some (Some EXT2_ET_DIR_NO_SPACE, fs')"
      by (simp add: ext2fs_link_def link_idle_def)
    with d c None show ?thesis by auto
  next
    case (Some u)
    let ?fs = "fs'\<lparr>fs_inodes := (fs_inodes fs')(dir := fs_inodes fs' dir\<lparr>i_flags := i_flags (fs_inodes fs' dir) AND NOT EXT2_INDEX_FL\<rparr>)\<rparr>"
    have rd: "fe_inode_read_error env dir = None"
      using d by (auto simp: directory_on_def Let_def iteration_ready_def ext2fs_read_inode_def split: option.splits)
    have "ext2fs_link env extents inlines dir name ino flags fs = Some (None, if i_flags (fs_inodes fs' dir) AND EXT2_INDEX_FL \<noteq> 0 then ?fs else fs')"
      using run s' assms(2,3) Some rd by (simp add: ext2fs_link_def link_final_def ext2fs_read_inode_def ext2fs_write_inode_def)
    moreover have "directory_on env M dir (if i_flags (fs_inodes fs' dir) AND EXT2_INDEX_FL \<noteq> 0 then ?fs else fs') ess'"
      using d directory_index_cleared [OF d] by simp
    moreover have "\<exists>as bs. contents ess = as @ bs \<and> contents ess' = as @ (name, ino) # bs" using c Some by simp
    ultimately show ?thesis by blast
  qed
qed

end
