(* ===== verification/Dir_Rec_Len.thy ===== *)
theory Dir_Rec_Len
  imports Dir_Block Block_Iterate_Props
begin

text \<open>
  The length of a record in 16 bits.  In blocks of 64 KiB and more the two low bits, which are zero in
  every length, hold the bits 16 and 17.
\<close>

definition wide_rec_len :: "u32 \<Rightarrow> u16" where
  "wide_rec_len x = ucast ((x AND 65532) OR (drop_bit 16 x AND 3))"

lemma wide_masks: "bit (65532 :: u32) k \<longleftrightarrow> 2 \<le> k \<and> k < 16" "bit (3 :: u32) k \<longleftrightarrow> k < 2"
proof -
  have m: "(65532 :: u32) = push_bit 2 (mask 14)" "(3 :: u32) = mask 2" by (simp_all add: mask_eq_exp_minus_1 push_bit_eq_mult)
  show "bit (65532 :: u32) k \<longleftrightarrow> 2 \<le> k \<and> k < 16" "bit (3 :: u32) k \<longleftrightarrow> k < 2"
    by (simp_all only: m bit_mask_iff bit_push_bit_iff) auto
qed

lemma wide_rec_len_bit:
  "bit (wide_rec_len x) k \<longleftrightarrow> (if k < 2 then bit x (k + 16) else k < 16 \<and> bit x k)"
proof -
  have "bit x (16 + k) \<Longrightarrow> k < 16" using bit_imp_le_length [of x "16 + k"] by simp
  then show ?thesis
    unfolding wide_rec_len_def bit_ucast_iff bit_or_iff bit_and_iff bit_drop_bit_eq comp_def wide_masks by (auto simp: add.commute)
qed

lemma small_bits:
  assumes "m < 2 ^ j" "j \<le> k"
  shows "\<not> bit (of_nat m :: u32) k"
proof
  assume "bit (of_nat m :: u32) k"
  then have "bit m k" by (auto simp: bit_simps)
  then have "2 ^ k \<le> m" by (metis bit_iff_odd div_less even_zero not_le)
  moreover have "(2::nat) ^ j \<le> 2 ^ k" using assms(2) by (rule power_increasing) simp
  ultimately show False using assms(1) by simp
qed

lemma low_bits:
  assumes "m mod 4 = 0" "k < 2"
  shows "\<not> bit (of_nat m :: u32) k"
proof -
  have "take_bit 2 m = 0" using assms(1) by (simp add: take_bit_eq_mod)
  then have "\<not> bit (take_bit 2 m) k" by simp
  then show ?thesis using assms(2) by (auto simp: bit_simps)
qed

lemma unwide:
  assumes "m mod 4 = 0" "m < 262144"
  shows "(ucast (wide_rec_len (of_nat m)) AND 65532 :: u32) OR push_bit 16 (ucast (wide_rec_len (of_nat m)) AND 3) = of_nat m"
proof (rule bit_word_eqI)
  fix k
  assume "k < LENGTH(32)"
  show "bit ((ucast (wide_rec_len (of_nat m)) AND 65532 :: u32) OR push_bit 16 (ucast (wide_rec_len (of_nat m)) AND 3)) k \<longleftrightarrow> bit (of_nat m :: u32) k"
    using small_bits [of m 18 k] low_bits [OF assms(1), of k] assms(2) \<open>k < LENGTH(32)\<close>
    unfolding bit_or_iff bit_and_iff bit_push_bit_iff bit_ucast_iff wide_rec_len_bit wide_masks
    by (cases "k < 16") (auto split: if_splits)
qed

lemma wide_special:
  assumes "m mod 4 = 0" "65536 \<le> m" "m < 262144"
  shows "wide_rec_len (of_nat m) \<noteq> 0" and "unat (wide_rec_len (of_nat m)) = 65535 \<Longrightarrow> m = 262140"
proof -
  have m: "unat (of_nat m :: u32) = m" using assms(3) by (simp add: unat_of_nat)
  show "wide_rec_len (of_nat m) \<noteq> 0"
  proof
    assume "wide_rec_len (of_nat m) = 0"
    with unwide [OF assms(1,3)] have "(of_nat m :: u32) = 0" by simp
    with m assms(2) show False by simp
  qed
  assume "unat (wide_rec_len (of_nat m)) = 65535"
  then have "unat (wide_rec_len (of_nat m)) = unat (65535 :: u16)" by simp
  then have "wide_rec_len (of_nat m) = 65535" by (simp only: unsigned_word_eqI)
  with unwide [OF assms(1,3)] have "(of_nat m :: u32) = 262140" by simp
  then have "unat (of_nat m :: u32) = 262140" by simp
  with m show "m = 262140" by simp
qed

lemma narrow:
  assumes "m mod 4 = 0" "m < 65536"
  shows "wide_rec_len (of_nat m) = of_nat m"
proof (rule bit_word_eqI)
  fix k
  assume "k < LENGTH(16)"
  then show "bit (wide_rec_len (of_nat m)) k \<longleftrightarrow> bit (of_nat m :: u16) k"
    using small_bits [of m 16 "k + 16"] low_bits [OF assms(1), of k] assms(2) unfolding wide_rec_len_bit by (auto simp: bit_of_nat_iff)
qed

text \<open>
  C39.  A record length above 0 is stored exactly when it is a multiple of four that fits in the block, and the
  block has at most 256 KiB; other lengths are refused.  A stored length is read back, with one
  exception, which is a defect of the encoding: 262140, the length of a record that ends four bytes before
  the end of a block of 256 KiB, has the code that stands for the whole block, and is read back as the
  size of the block.
\<close>

theorem rec_len_roundtrip:
  assumes "0 < len"
  shows "case ext2fs_set_rec_len env len of
      Inr v \<Rightarrow> len \<le> fe_blocksize env \<and> fe_blocksize env \<le> 262144 \<and> len mod 4 = 0
        \<and> ext2fs_get_rec_len env v = (if len = 262140 then fe_blocksize env else len)
    | Inl e \<Rightarrow> e = EINVAL \<and> (fe_blocksize env < len \<or> 262144 < fe_blocksize env \<or> len mod 4 \<noteq> 0)"
proof (cases "len > fe_blocksize env \<or> fe_blocksize env > 262144 \<or> len mod 4 \<noteq> 0")
  case True
  then show ?thesis by (auto simp: ext2fs_set_rec_len_def)
next
  case False
  then have ok: "len \<le> fe_blocksize env" "fe_blocksize env \<le> 262144" "len mod 4 = 0" by simp_all
  consider "len < 65536" | "65536 \<le> len" "len = fe_blocksize env" | "65536 \<le> len" "len < fe_blocksize env" using ok by linarith
  then show ?thesis
  proof cases
    case 1
    have len: "unat (of_nat len :: u16) = len" using 1 by (simp add: unat_of_nat)
    have set: "ext2fs_set_rec_len env len = Inr (of_nat len)" using ok 1 by (simp add: ext2fs_set_rec_len_def)
    have "unat (of_nat len :: u32) = len" using 1 by (simp add: unat_of_nat)
    then have "unat ((ucast (of_nat len :: u16) AND 65532 :: u32) OR push_bit 16 (ucast (of_nat len :: u16) AND 3)) = len"
      using unwide [OF ok(3)] 1 unfolding narrow [OF ok(3) 1] by simp
    moreover have "(of_nat len :: u16) \<noteq> 0" using len assms(1) by (metis unat_0 less_irrefl)
    moreover have "len \<noteq> EXT4_MAX_REC_LEN" using ok(3) by (auto simp: EXT4_MAX_REC_LEN_def)
    ultimately show ?thesis using ok 1 unfolding set sum.case ext2fs_get_rec_len_def len by simp
  next
    case 2
    then show ?thesis by (simp add: ext2fs_set_rec_len_def ext2fs_get_rec_len_def EXT4_MAX_REC_LEN_def ok)
  next
    case 3
    then have small: "len < 262144" using ok by simp
    have set: "ext2fs_set_rec_len env len = Inr (wide_rec_len (of_nat len))" using ok 3 by (simp add: ext2fs_set_rec_len_def wide_rec_len_def)
    show ?thesis
    proof (cases "len = 262140")
      case True
      then show ?thesis using ok 3 by (simp add: ext2fs_set_rec_len_def ext2fs_get_rec_len_def EXT4_MAX_REC_LEN_def)
    next
      case False
      have "unat (of_nat len :: u32) = len" using small by (simp add: unat_of_nat)
      then show ?thesis using wide_special [OF ok(3) 3(1) small] False 3 ok unwide [OF ok(3) small]
        unfolding set sum.case ext2fs_get_rec_len_def EXT4_MAX_REC_LEN_def by auto
    qed
  qed
qed

lemma rec_len_roundtrip_witness:
  "ext2fs_set_rec_len (walk_env\<lparr>fe_blocksize := 262144\<rparr>) 65548 = Inr 13 \<and> ext2fs_get_rec_len (walk_env\<lparr>fe_blocksize := 262144\<rparr>) 13 = 65548
   \<and> ext2fs_set_rec_len (walk_env\<lparr>fe_blocksize := 262144\<rparr>) 262140 = Inr 65535 \<and> ext2fs_get_rec_len (walk_env\<lparr>fe_blocksize := 262144\<rparr>) 65535 = 262144"
proof -
  have "ext2fs_set_rec_len (walk_env\<lparr>fe_blocksize := 262144\<rparr>) 65548 = Inr 13"
    "ext2fs_set_rec_len (walk_env\<lparr>fe_blocksize := 262144\<rparr>) 262140 = Inr 65535"
    by (simp_all add: ext2fs_set_rec_len_def)
  with rec_len_roundtrip [of 65548 "walk_env\<lparr>fe_blocksize := 262144\<rparr>"]
    rec_len_roundtrip [of 262140 "walk_env\<lparr>fe_blocksize := 262144\<rparr>"] show ?thesis by simp
qed

text \<open>
  Adding the codes of two lengths, as \<open>unlink_proc\<close> does, is wrong for blocks of 128 KiB: the entry before
  then covers half of the block only.
\<close>

lemma unlink_adds_codes:
  "map_sum id (\<lambda>v. ext2fs_get_rec_len (walk_env\<lparr>fe_blocksize := 131072\<rparr>) (12 + v))
     (ext2fs_set_rec_len (walk_env\<lparr>fe_blocksize := 131072\<rparr>) (131072 - 12)) = Inr 65536"
  by (simp add: ext2fs_set_rec_len_def ext2fs_get_rec_len_def EXT4_MAX_REC_LEN_def)

end
