(* ===== verification/Dir_Props.thy ===== *)
theory Dir_Props
  imports Dir_Map Dir_Rec_Len
begin

text \<open>The properties of directories.\<close>

section \<open>A new directory\<close>

definition dir_type :: "fs_env \<Rightarrow> u8" where
  "dir_type env = (if ext2fs_has_feature_filetype (fe_sb env) then 2 else 0)"

definition dot_entry :: "fs_env \<Rightarrow> u32 \<Rightarrow> dirent" where
  "dot_entry env ino = \<lparr>de_ino = ino, de_type = dir_type env, de_name = [46], de_slack = [0, 0, 0]\<rparr>"

definition dotdot_entry :: "fs_env \<Rightarrow> u32 \<Rightarrow> dirent" where
  "dotdot_entry env ino = \<lparr>de_ino = ino, de_type = dir_type env, de_name = [46, 46],
     de_slack = replicate (fe_blocksize env - dir_csum_size env - 22) 0\<rparr>"

lemma hdr_zero: "replicate 8 0 = hdr 0 0 0"
  by (simp add: hdr_def le32_def le16_def numeral_eq_Suc)

lemma name_and_type_0: "name_and_type 0 0 = 0"
  by (simp add: name_and_type_def)

lemma csum_size_cases: "dir_csum_size env = 0 \<or> dir_csum_size env = 12"
  by (simp add: dir_csum_size_def)

lemma dot_entries_ok:
  assumes "fe_blocksize env mod 4 = 0" "36 \<le> fe_blocksize env"
  shows "entries_ok env [dot_entry env i, dotdot_entry env j]"
proof -
  have "(fe_blocksize env - dir_csum_size env - 22 + 10) mod 4 = 0"
    using assms csum_size_cases [of env] by (elim disjE) (simp, presburger)+
  with assms csum_size_cases [of env] show ?thesis
    by (auto simp: entries_ok_def entry_ok_def dot_entry_def dotdot_entry_def dlen_def)
qed

lemma zero_block:
  assumes "36 \<le> fe_blocksize env"
  shows "replicate (fe_blocksize env) 0 = hdr 0 0 0 @ [0] @ [0, 0, 0] @ hdr 0 0 0 @ [0, 0]
      @ replicate (fe_blocksize env - dir_csum_size env - 22) 0 @ replicate (dir_csum_size env) (0 :: u8)"
proof -
  have "fe_blocksize env = 8 + (4 + (8 + (2 + ((fe_blocksize env - dir_csum_size env - 22) + dir_csum_size env))))"
    using assms csum_size_cases [of env] by auto
  then have "replicate (fe_blocksize env) (0 :: u8) = replicate 8 0 @ replicate 4 0 @ replicate 8 0 @ replicate 2 0
      @ replicate (fe_blocksize env - dir_csum_size env - 22) 0 @ replicate (dir_csum_size env) 0"
    by (metis replicate_add)
  then show ?thesis by (simp add: hdr_zero) (simp add: numeral_eq_Suc)
qed

lemma put_tail:
  assumes "length pre + 12 = fe_blocksize env" "small_block env"
  shows "ext2fs_initialize_dirent_tail env (pre @ replicate 12 0) (EXT2_DIRENT_TAIL env) = pre @ tail_bytes 0"
proof -
  have "ext2fs_set_rec_len env 12 = Inr 12" using assms set_rec_len_small [of env 12] by simp
  moreover have "EXT2_DIRENT_TAIL env = length pre" using assms by (simp add: EXT2_DIRENT_TAIL_def)
  ultimately show ?thesis
    using put_at_middle [of pre "length pre" "le32 0 @ le16 12 @ le16 EXT2_DIR_NAME_LEN_CSUM @ le32 0" "replicate 12 0" "[]"]
    by (simp add: ext2fs_initialize_dirent_tail_def tail_bytes_def)
qed

lemma ucast_dir_type: "(if ext2fs_has_feature_filetype (fe_sb env) then EXT2_FT_DIR else 0) = ucast (dir_type env)"
  by (simp add: dir_type_def EXT2_FT_DIR_def)

lemma new_dir_block_entries:
  assumes "small_block env" "fe_blocksize env mod 4 = 0" "36 \<le> fe_blocksize env" "fe_malloc env (fe_blocksize env)" "dir_ino \<noteq> 0"
  shows "ext2fs_new_dir_block env dir_ino parent_ino
    = Inr (encs [dot_entry env dir_ino, dotdot_entry env parent_ino] @ dir_tail env 0)"
proof -
  let ?bs = "fe_blocksize env" and ?cs = "dir_csum_size env"
  let ?z = "replicate (?bs - ?cs - 22) (0 :: u8)" and ?c = "replicate ?cs (0 :: u8)" and ?l = "of_nat (?bs - ?cs) :: u16"
  let ?t = "dir_type env"
  have sizes: "?cs + 24 \<le> ?bs" using assms(3) csum_size_cases [of env] by auto
  have m: "(?bs - ?cs) mod 4 = 0" "(?bs - ?cs - 12) mod 4 = 0"
    using assms(2,3) csum_size_cases [of env] by (elim disjE; simp; presburger)+
  have set1: "ext2fs_set_rec_len env (?bs - ?cs) = Inr ?l" by (rule set_rec_len_small [OF assms(1) _ m(1)]) simp
  have set2: "ext2fs_set_rec_len env (?bs - ?cs - EXT2_DIR_REC_LEN 1) = Inr (of_nat (?bs - ?cs - 12))"
    using set_rec_len_small [OF assms(1) _ m(2)] by (simp add: EXT2_DIR_REC_LEN_def)
  let ?rest = "hdr 0 0 0 @ [0, 0] @ ?z @ ?c"
  let ?dot = "hdr dir_ino 12 (name_and_type 1 ?t) @ [46] @ [0, 0, 0]"
  have b1: "set_d_rec_len (replicate ?bs 0) 0 ?l = hdr 0 ?l (name_and_type 0 0) @ [0] @ [0, 0, 0] @ ?rest"
    unfolding zero_block [OF assms(3)] name_and_type_0 by (rule set_hdr(2) [of "[]", simplified]) simp
  have b2: "put_at (ext2fs_dirent_set_file_type (ext2fs_dirent_set_name_len (set_d_inode (hdr 0 ?l (name_and_type 0 0) @ [0] @ [0, 0, 0] @ ?rest) 0 dir_ino) 0 1) 0 (ucast ?t)) 8 [46]
      = hdr dir_ino ?l (name_and_type 1 ?t) @ [46] @ [0, 0, 0] @ ?rest"
    using set_hdr(1) [of "[]" 0 0 ?l "name_and_type 0 0" "[0] @ [0, 0, 0] @ ?rest" dir_ino] put_name_len [of "[]" 0 0 1 dir_ino ?l 0]
      put_file_type [of "[]" 0 1 dir_ino ?l 0] put_at_middle [of "hdr dir_ino ?l (name_and_type 1 ?t)" 8 "[46]" "[0]" "[0, 0, 0] @ ?rest"]
    by simp
  have b3: "set_d_rec_len (hdr dir_ino ?l (name_and_type 1 ?t) @ [46] @ [0, 0, 0] @ ?rest) 0 (of_nat (EXT2_DIR_REC_LEN 1)) = ?dot @ ?rest"
    using set_hdr(2) [of "[]" 0 dir_ino ?l "name_and_type 1 ?t" "[46] @ [0, 0, 0] @ ?rest" 12] by (simp add: EXT2_DIR_REC_LEN_def)
  have d: "unat (d_rec_len (?dot @ ?rest) 0) = 12"
    using get_hdr(2) [of "[]" 0 dir_ino 12 "name_and_type 1 ?t" "[46] @ [0, 0, 0] @ ?rest"] by simp
  have len: "length ?dot = 12" by simp
  let ?l2 = "of_nat (?bs - ?cs - 12) :: u16"
  have b4: "put_at (ext2fs_dirent_set_file_type (ext2fs_dirent_set_name_len (set_d_inode (set_d_rec_len (?dot @ ?rest) 12 ?l2) 12 parent_ino) 12 2) 12 (ucast ?t)) (12 + 8) [46, 46]
      = ?dot @ hdr parent_ino ?l2 (name_and_type 2 ?t) @ [46, 46] @ ?z @ ?c"
  proof -
    have "set_d_inode (set_d_rec_len (?dot @ ?rest) 12 ?l2) 12 parent_ino = ?dot @ hdr parent_ino ?l2 (name_and_type 0 0) @ [0, 0] @ ?z @ ?c"
      unfolding set_hdr(2) [OF len] set_hdr(1) [OF len] name_and_type_0 ..
    moreover have "put_at (?dot @ hdr parent_ino ?l2 (name_and_type 2 ?t) @ [0, 0] @ ?z @ ?c) 20 [46, 46] = ?dot @ hdr parent_ino ?l2 (name_and_type 2 ?t) @ [46, 46] @ ?z @ ?c"
      using put_at_middle [of "?dot @ hdr parent_ino ?l2 (name_and_type 2 ?t)" 20 "[46, 46]" "[0, 0]" "?z @ ?c"] by simp
    moreover note put_name_len [OF len, of 0 2 parent_ino ?l2 0 "[0, 0] @ ?z @ ?c"] put_file_type [OF len, of 2 parent_ino ?l2 0 "[0, 0] @ ?z @ ?c" ?t]
    ultimately show ?thesis by (simp del: append_assoc append.simps)
  qed
  have entries: "?dot @ hdr parent_ino ?l2 (name_and_type 2 ?t) @ [46, 46] @ ?z = encs [dot_entry env dir_ino, dotdot_entry env parent_ino]"
    using sizes by (simp add: enc_def dlen_def dot_entry_def dotdot_entry_def) (simp add: numeral_2_eq_2 add.commute)
  have all: "?dot @ hdr parent_ino ?l2 (name_and_type 2 ?t) @ [46, 46] @ ?z @ ?c = encs [dot_entry env dir_ino, dotdot_entry env parent_ino] @ ?c"
    unfolding entries [symmetric] by simp
  have fin: "(if ?cs \<noteq> 0 then ext2fs_initialize_dirent_tail env (?dot @ hdr parent_ino ?l2 (name_and_type 2 ?t) @ [46, 46] @ ?z @ ?c) (EXT2_DIRENT_TAIL env)
        else ?dot @ hdr parent_ino ?l2 (name_and_type 2 ?t) @ [46, 46] @ ?z @ ?c)
      = encs [dot_entry env dir_ino, dotdot_entry env parent_ino] @ dir_tail env 0"
  proof (cases "?cs = 0")
    case True
    then show ?thesis unfolding all by (simp add: dir_tail_def)
  next
    case False
    then have cs: "?cs = 12" using csum_size_cases [of env] by simp
    have "length (encs [dot_entry env dir_ino, dotdot_entry env parent_ino]) + 12 = ?bs"
      using sizes cs by (simp add: dlen_def dot_entry_def dotdot_entry_def)
    from put_tail [OF this assms(1)] show ?thesis unfolding all by (simp add: dir_tail_def cs)
  qed
  have malloc: "\<not> \<not> fe_malloc env ?bs" using assms(4) by simp
  show ?thesis
    unfolding ext2fs_new_dir_block_def Let_def set1 set2 sum.case ucast_dir_type if_not_P [OF malloc] if_not_P [OF assms(5)] b1 b2 b3 d b4 fin ..
qed

text \<open>
  C40.  The first block of a new directory is a list of two entries that fill the block up to its checksum:
  the name of one dot is the directory, the name of two dots is its parent.
\<close>

theorem new_dir_block_correct:
  assumes "fe_blocksize env < 65536" "fe_blocksize env mod 4 = 0" "36 \<le> fe_blocksize env" "fe_malloc env (fe_blocksize env)"
    "dir_ino \<noteq> 0" "parent_ino \<noteq> 0"
  shows "\<exists>es. ext2fs_new_dir_block env dir_ino parent_ino = Inr (encs es @ dir_tail env 0) \<and> entries_ok env es
    \<and> names es = [([46], dir_ino), ([46, 46], parent_ino)]"
proof (intro exI conjI)
  show "ext2fs_new_dir_block env dir_ino parent_ino = Inr (encs [dot_entry env dir_ino, dotdot_entry env parent_ino] @ dir_tail env 0)"
    using assms by (intro new_dir_block_entries) (simp_all add: small_block_def)
  show "entries_ok env [dot_entry env dir_ino, dotdot_entry env parent_ino]" using assms(2,3) by (rule dot_entries_ok)
  show "names [dot_entry env dir_ino, dotdot_entry env parent_ino] = [([46], dir_ino), ([46, 46], parent_ino)]"
    using assms(5,6) by (simp add: live_def dot_entry_def dotdot_entry_def)
qed

text \<open>Blocks of 64 bytes with a checksum, which is the number of bytes plus the checksum so far.\<close>

definition dir_env :: fs_env where
  "dir_env = walk_env\<lparr>fe_sb := fe_sb walk_env\<lparr>sb_feature_incompat := 2, sb_feature_ro_compat := 0x400\<rparr>,
     fe_blocksize := 64, fe_flags := 1, fe_crc := (\<lambda>c p. c + of_nat (length p))\<rparr>"

lemma dir_env_fields:
  "small_block dir_env" "fe_blocksize dir_env = 64" "dir_csum_size dir_env = 12" "fe_malloc dir_env n" "fe_flags dir_env = 1"
  "fe_read_error dir_env b = None" "fe_write_error dir_env b = None" "fe_inode_read_error dir_env i = None" "fe_inode_write_error dir_env i = None"
  "sb_creator_os (fe_sb dir_env) = 0"
  by (simp_all add: dir_env_def walk_env_def small_block_def dir_csum_size_def ext2fs_has_feature_metadata_csum_def
      EXT4_FEATURE_RO_COMPAT_METADATA_CSUM_def)

lemma new_dir_block_correct_witness:
  "\<exists>es. ext2fs_new_dir_block dir_env 12 2 = Inr (encs es @ dir_tail dir_env 0) \<and> entries_ok dir_env es
    \<and> names es = [([46], 12), ([46, 46], 2)]"
  using new_dir_block_correct [of dir_env 12 2] by (simp add: dir_env_fields)

section \<open>A directory is a map\<close>

definition directory :: "fs_env \<Rightarrow> u64 set \<Rightarrow> u32 \<Rightarrow> fs_state \<Rightarrow> (u8 list \<rightharpoonup> u32) \<Rightarrow> bool" where
  "directory env M dir fs m \<longleftrightarrow>
     (\<exists>ess. directory_on env M dir fs ess \<and> distinct (map fst (contents ess)) \<and> m = map_of (contents ess))"

lemma asked_name:
  assumes "distinct (map fst xs)"
  shows "(\<exists>x\<in>set xs. asked (Some name) ino x) \<longleftrightarrow> (\<exists>i. map_of xs name = Some i \<and> (ino = 0 \<or> ino = i))"
  unfolding map_of_eq_Some_iff [OF assms]
proof
  assume "\<exists>x\<in>set xs. asked (Some name) ino x"
  then obtain x where "x \<in> set xs" "fst x = name" "ino \<noteq> 0 \<longrightarrow> snd x = ino" by (auto simp: asked_def)
  then show "\<exists>i. (name, i) \<in> set xs \<and> (ino = 0 \<or> ino = i)" by (intro exI [of _ "snd x"]) auto
next
  assume "\<exists>i. (name, i) \<in> set xs \<and> (ino = 0 \<or> ino = i)"
  then obtain i where "(name, i) \<in> set xs" "ino = 0 \<or> ino = i" by blast
  then show "\<exists>x\<in>set xs. asked (Some name) ino x" by (intro bexI [of _ "(name, i)"]) (auto simp: asked_def)
qed

lemma set_remove_first: "set (remove_first P xs) \<subseteq> set xs"
  by (induction xs) auto

lemma distinct_remove_first: "distinct (map fst xs) \<Longrightarrow> distinct (map fst (remove_first P xs))"
proof (induction xs)
  case (Cons x xs)
  then show ?case using set_remove_first [of P xs] by auto
qed simp

lemma map_of_remove_first:
  assumes "distinct (map fst xs)" "\<exists>x\<in>set xs. asked (Some name) ino x"
  shows "map_of (remove_first (asked (Some name) ino) xs) = (map_of xs)(name := None)"
  using assms
proof (induction xs)
  case (Cons x xs)
  show ?case
  proof (cases "asked (Some name) ino x")
    case True
    then have "fst x = name" by (simp add: asked_def)
    moreover from this have none: "map_of xs name = None" using Cons.prems(1) by (auto simp: map_of_eq_None_iff)
    then have "(map_of xs)(name := None) = map_of xs" by (metis fun_upd_triv)
    ultimately show ?thesis using True none by (cases x) (auto simp: fun_eq_iff)
  next
    case False
    then obtain y where y: "y \<in> set xs" "asked (Some name) ino y" using Cons.prems(2) by auto
    then have "fst x \<noteq> name" using Cons.prems(1) by (auto simp: asked_def)
    moreover have "map_of (remove_first (asked (Some name) ino) xs) = (map_of xs)(name := None)"
      by (rule Cons.IH) (use Cons.prems(1) y in auto)
    ultimately show ?thesis using False by (cases x) (auto simp: fun_upd_twist)
  qed
qed simp

lemma map_of_insert_at:
  assumes "distinct (map fst (as @ bs))" "map_of (as @ bs) k = None"
  shows "map_of (as @ (k, v) # bs) = (map_of (as @ bs))(k \<mapsto> v)" "distinct (map fst (as @ (k, v) # bs))"
proof -
  have k: "k \<notin> fst ` set as" "k \<notin> fst ` set bs" using assms(2) unfolding map_of_eq_None_iff by auto
  then have "k \<notin> dom (map_of as)" by (simp add: dom_map_of_conv_image_fst)
  then show "map_of (as @ (k, v) # bs) = (map_of (as @ bs))(k \<mapsto> v)" by (simp add: map_add_upd_left)
  show "distinct (map fst (as @ (k, v) # bs))" using k assms(1) by auto
qed

text \<open>
  C2.  A directory with distinct names is a map from names to inodes, whatever its blocks and the order
  and the gaps of its entries are: looking a name up is the value of the map, and changes nothing; removing a name
  (optionally with the inode it must have) deletes it from the map, or reports that it is not there; adding
  a new name updates the map, or reports that there is no space and leaves the map.  The directory stays
  well formed, with valid checksums.
\<close>

theorem directory_refines_map:
  assumes "directory env M dir fs m" "fe_flags env AND EXT2_FLAG_RW \<noteq> 0" "fe_inode_write_error env dir = None"
  shows "ext2fs_lookup env extents inlines dir name block_buf fs
      = Some (case m name of None \<Rightarrow> Inl EXT2_ET_FILE_NOT_FOUND | Some i \<Rightarrow> Inr i, fs)
    \<and> (\<exists>r fs'. ext2fs_unlink env extents' inlines' dir (Some name) ino fs = Some (r, fs')
        \<and> (if \<exists>i. m name = Some i \<and> (ino = 0 \<or> ino = i) then r = None \<and> directory env M dir fs' (m(name := None))
           else r = Some EXT2_ET_DIR_NO_SPACE \<and> directory env M dir fs' m))
    \<and> (m name = None \<and> name_ok name \<and> ino \<noteq> 0 \<longrightarrow>
        (\<exists>r fs'. ext2fs_link env extents'' inlines'' dir name ino flags fs = Some (r, fs')
          \<and> (r = None \<and> directory env M dir fs' (m(name \<mapsto> ino)) \<or> r = Some EXT2_ET_DIR_NO_SPACE \<and> directory env M dir fs' m)))"
proof (intro conjI impI)
  obtain ess where d: "directory_on env M dir fs ess" "distinct (map fst (contents ess))" "m = map_of (contents ess)"
    using assms(1) by (auto simp: directory_def)
  show "ext2fs_lookup env extents inlines dir name block_buf fs
      = Some (case m name of None \<Rightarrow> Inl EXT2_ET_FILE_NOT_FOUND | Some i \<Rightarrow> Inr i, fs)"
    using lookup_on_directory [OF d(1)] by (simp add: d(3))
  obtain fs' ess' where u: "ext2fs_unlink env extents' inlines' dir (Some name) ino fs
      = Some (if \<exists>x\<in>set (contents ess). asked (Some name) ino x then None else Some EXT2_ET_DIR_NO_SPACE, fs')"
    "directory_on env M dir fs' ess'" "contents ess' = remove_first (asked (Some name) ino) (contents ess)"
    using unlink_on_directory [OF d(1) assms(2), of "Some name" ino extents' inlines'] by auto
  show "\<exists>r fs'. ext2fs_unlink env extents' inlines' dir (Some name) ino fs = Some (r, fs')
        \<and> (if \<exists>i. m name = Some i \<and> (ino = 0 \<or> ino = i) then r = None \<and> directory env M dir fs' (m(name := None))
           else r = Some EXT2_ET_DIR_NO_SPACE \<and> directory env M dir fs' m)"
  proof (cases "\<exists>x\<in>set (contents ess). asked (Some name) ino x")
    case True
    then have "directory env M dir fs' (m(name := None))"
      using map_of_remove_first [OF d(2)] distinct_remove_first [OF d(2)] u(2,3) d(3) unfolding directory_def by (intro exI [of _ ess']) simp
    moreover have "\<exists>i. m name = Some i \<and> (ino = 0 \<or> ino = i)" using True unfolding asked_name [OF d(2)] d(3) .
    ultimately show ?thesis using True u(1) by simp
  next
    case False
    then have "contents ess' = contents ess" using u(3) by (simp add: remove_first_none)
    with u(2) d have "directory env M dir fs' m" by (auto simp: directory_def)
    moreover have "\<not> (\<exists>i. m name = Some i \<and> (ino = 0 \<or> ino = i))" using False unfolding asked_name [OF d(2)] d(3) .
    ultimately show ?thesis using False u(1) by simp
  qed
  assume fresh: "m name = None \<and> name_ok name \<and> ino \<noteq> 0"
  then obtain r fs2 ess2 where l: "ext2fs_link env extents'' inlines'' dir name ino flags fs = Some (r, fs2)" "directory_on env M dir fs2 ess2"
    and c: "r = None \<and> (\<exists>as bs. contents ess = as @ bs \<and> contents ess2 = as @ (name, ino) # bs)
       \<or> r = Some EXT2_ET_DIR_NO_SPACE \<and> contents ess2 = contents ess"
    using link_on_directory [OF d(1) assms(2,3), of name ino extents'' inlines'' flags] by blast
  have "directory env M dir fs2 (m(name \<mapsto> ino))" if "contents ess = as @ bs" "contents ess2 = as @ (name, ino) # bs" for as bs
    using map_of_insert_at [of as bs name ino] fresh d that l(2) unfolding directory_def by (intro exI [of _ ess2]) simp
  moreover have "directory env M dir fs2 m" if "contents ess2 = contents ess" using that d l(2) by (auto simp: directory_def)
  ultimately show "\<exists>r fs'. ext2fs_link env extents'' inlines'' dir name ino flags fs = Some (r, fs')
      \<and> (r = None \<and> directory env M dir fs' (m(name \<mapsto> ino)) \<or> r = Some EXT2_ET_DIR_NO_SPACE \<and> directory env M dir fs' m)"
    using l(1) c by blast
qed

text \<open>The new directory 2 in block 20.\<close>

definition dir_fs :: fs_state where
  "dir_fs = (walk_fs (walk_inode 0 0))\<lparr>fs_dev := (\<lambda>_. [])(20 := dir_bytes dir_env 2 0 [dot_entry dir_env 2, dotdot_entry dir_env 2])\<rparr>"

lemma dir_fs_directory: "directory_on dir_env {} 2 dir_fs [[dot_entry dir_env 2, dotdot_entry dir_env 2]]"
proof -
  let ?i = "walk_inode 0 0"
  have i: "fs_inodes dir_fs 2 = ?i" "i_generation ?i = 0" by (simp_all add: dir_fs_def walk_fs_def walk_inode_def)
  have v: "file_visits dir_env BLOCK_FLAG_READ_ONLY (fs_dev dir_fs) ?i = [(20, 0, 0, 0)]"
    by (simp add: file_visits_def root_visits_def walk_inode_def)
  have m: "file_mapped dir_env {} BLOCK_FLAG_READ_ONLY (fs_dev dir_fs) ?i"
    by (simp add: file_mapped_def v apart_def) (simp add: walk_inode_def)
  have b: "dir_blocks dir_env (fs_dev dir_fs) ?i = [20]" unfolding dir_blocks_visits [OF m] v by (simp add: data_of_def)
  have r: "iteration_ready dir_env dir_fs 2 BLOCK_FLAG_READ_ONLY False ?i"
    by (simp add: iteration_ready_def ext2fs_read_inode_def dir_env_fields i EXT2_OS_HURD_def)
      (simp add: walk_inode_def BLOCK_FLAG_READ_ONLY_def BLOCK_FLAG_APPEND_def BLOCK_FLAG_NO_LARGE_def EXT2_FLAG_IMAGE_FILE_def)
  have d: "LINUX_S_ISDIR (i_mode ?i)" by (simp add: LINUX_S_ISDIR_def walk_inode_def)
  have "entries_ok dir_env [dot_entry dir_env 2, dotdot_entry dir_env 2]" by (rule dot_entries_ok) (simp_all add: dir_env_fields)
  then show ?thesis using m r d by (simp add: directory_on_def i b dir_env_fields) (simp add: dir_fs_def)
qed

lemma dir_fs_map: "directory dir_env {} 2 dir_fs [[46] \<mapsto> 2, [46, 46] \<mapsto> 2]"
  unfolding directory_def using dir_fs_directory
  by (intro exI [of _ "[[dot_entry dir_env 2, dotdot_entry dir_env 2]]"])
    (auto simp: dot_entry_def dotdot_entry_def live_def fun_eq_iff)

lemma directory_refines_map_witness:
  "ext2fs_lookup dir_env (\<lambda>_ _ _. None) (\<lambda>_. None) 2 [97] False dir_fs = Some (Inl EXT2_ET_FILE_NOT_FOUND, dir_fs)
    \<and> (\<exists>r fs'. ext2fs_link dir_env (\<lambda>_ _ _. None) (\<lambda>_. None) 2 [97] 12 1 dir_fs = Some (r, fs')
        \<and> (r = None \<and> directory dir_env {} 2 fs' [[46] \<mapsto> 2, [46, 46] \<mapsto> 2, [97] \<mapsto> 12]
           \<or> r = Some EXT2_ET_DIR_NO_SPACE \<and> directory dir_env {} 2 fs' [[46] \<mapsto> 2, [46, 46] \<mapsto> 2]))"
  using directory_refines_map [OF dir_fs_map, of "\<lambda>_ _ _. None" "\<lambda>_. None" "[97]" False "\<lambda>_ _ _. None" "\<lambda>_. None" 12 "\<lambda>_ _ _. None" "\<lambda>_. None" 1]
  by (simp add: dir_env_fields EXT2_FLAG_RW_def name_ok_def)

text \<open>
  C3.  Adding a name succeeds when some entry of the directory has room for it: an unused entry of that
  size, or an entry in use whose name leaves that much of it free.
\<close>

theorem link_finds_room:
  assumes "directory_on env M dir fs ess" "fe_flags env AND EXT2_FLAG_RW \<noteq> 0" "fe_inode_write_error env dir = None" "name_ok name" "ino \<noteq> 0"
    "es \<in> set ess" "e \<in> set es" "EXT2_DIR_REC_LEN (length name) \<le> free e"
  shows "\<exists>fs' ess'. ext2fs_link env extents inlines dir name ino flags fs = Some (None, fs') \<and> directory_on env M dir fs' ess'
    \<and> (\<exists>as bs. contents ess = as @ bs \<and> contents ess' = as @ (name, ino) # bs)"
  using link_on_directory [OF assms(1-5), of extents inlines flags] assms(6-8) by (meson leD)

lemma link_finds_room_witness:
  "\<exists>fs' ess'. ext2fs_link dir_env (\<lambda>_ _ _. None) (\<lambda>_. None) 2 [97] 12 1 dir_fs = Some (None, fs') \<and> directory_on dir_env {} 2 fs' ess'
    \<and> (\<exists>as bs. [([46], 2), ([46, 46], 2)] = as @ bs \<and> contents ess' = as @ ([97], 12) # bs)"
proof -
  have "EXT2_DIR_REC_LEN (length [97 :: u8]) \<le> free (dotdot_entry dir_env 2)"
    by (simp add: free_def live_def min_len_def dlen_def EXT2_DIR_REC_LEN_def dotdot_entry_def dir_env_fields)
  from link_finds_room [OF dir_fs_directory _ _ _ _ _ _ this, of 12 "[dot_entry dir_env 2, dotdot_entry dir_env 2]" "\<lambda>_ _ _. None" "\<lambda>_. None" 1]
  show ?thesis by (simp add: dir_env_fields EXT2_FLAG_RW_def name_ok_def) (simp add: dot_entry_def dotdot_entry_def live_def)
qed

end
