(* ===== verification/Dir_Csum.thy ===== *)
theory Dir_Csum
  imports Dir_Props
begin

text \<open>A block of a directory that has been written passes the check of its checksum when it is read.\<close>

lemma get_before:
  assumes "j + length bs \<le> length p"
  shows "i + 2 \<le> j \<Longrightarrow> get_le16 (put_at p j bs) i = get_le16 p i" "i + 4 \<le> j \<Longrightarrow> get_le32 (put_at p j bs) i = get_le32 p i"
    "i < j \<Longrightarrow> put_at p j bs ! i = p ! i"
  using assms by (simp_all add: get_le16_def get_le32_def nth_put_at)

lemma take_put_at: "i \<le> j \<Longrightarrow> j \<le> length p \<Longrightarrow> take i (put_at p j bs) = take i p"
  by (simp add: put_at_def min_def)

lemma get_put:
  assumes "j + 4 \<le> length p"
  shows "get_le32 (put_at p j (le32 v)) j = v"
  using get_le32_middle [of "take j p" j v "drop (j + 4) p"] assms by (simp add: put_at_def min_def)

lemma dirent_tail_walk_put:
  assumes "t + 6 \<le> j" "j + length bs \<le> length p"
  shows "d \<le> t \<Longrightarrow> dirent_tail_walk (put_at p j bs) t d = dirent_tail_walk p t d"
proof (induction "t - d" arbitrary: d rule: less_induct)
  case less
  have len: "d_rec_len (put_at p j bs) d = d_rec_len p d"
    using less.prems assms by (simp add: d_rec_len_def get_before)
  let ?n = "unat (d_rec_len p d)"
  show ?case
  proof (cases "?n \<noteq> 0 \<and> d + ?n < t")
    case True
    then have "dirent_tail_walk (put_at p j bs) t (d + ?n) = dirent_tail_walk p t (d + ?n)" by (intro less.hyps) auto
    with True show ?thesis by (subst (1 2) dirent_tail_walk.simps) (simp add: len Let_def)
  next
    case False
    then show ?thesis by (subst (1 2) dirent_tail_walk.simps) (auto simp: len Let_def)
  qed
qed

text \<open>The block of entries.\<close>

lemma get_dirent_tail_put:
  assumes "get_dirent_tail env buf = Inr t" "length buf = fe_blocksize env" "12 \<le> fe_blocksize env"
  shows "t + 12 = fe_blocksize env" "get_dirent_tail env (put_at buf (t + 8) (le32 crc)) = Inr t"
proof -
  have t: "t = EXT2_DIRENT_TAIL env" and walk: "dirent_tail_walk buf t 0 = t"
    using assms(1) by (auto simp: get_dirent_tail_def Let_def split: if_splits)
  show b: "t + 12 = fe_blocksize env" using t assms(3) by (simp add: EXT2_DIRENT_TAIL_def)
  have "dirent_tail_walk (put_at buf (t + 8) (le32 crc)) t 0 = t"
    using dirent_tail_walk_put [of t "t + 8" "le32 crc" buf 0] walk b assms(2) by simp
  with assms(1,2) walk b show "get_dirent_tail env (put_at buf (t + 8) (le32 crc)) = Inr t"
    by (simp add: get_dirent_tail_def Let_def t [symmetric] get_before split: if_splits)
qed

text \<open>The index block.\<close>

lemma dx_no_tail:
  assumes "get_dx_countlimit env buf = Inr off" "64 \<le> fe_blocksize env"
  shows "\<exists>e. get_dirent_tail env buf = Inl e" "off = 8 \<and> unat (d_rec_len buf 0) = fe_blocksize env \<or> off = 32 \<and> unat (d_rec_len buf 0) = 12 \<and> unat (d_rec_len buf 12) = fe_blocksize env - 12"
proof -
  show off: "off = 8 \<and> unat (d_rec_len buf 0) = fe_blocksize env \<or> off = 32 \<and> unat (d_rec_len buf 0) = 12 \<and> unat (d_rec_len buf 12) = fe_blocksize env - 12"
    using assms(1) by (auto simp: get_dx_countlimit_def Let_def split: if_splits)
  let ?t = "fe_blocksize env - 12"
  have "dirent_tail_walk buf ?t 12 \<noteq> ?t" if "unat (d_rec_len buf 12) = fe_blocksize env - 12"
    using that assms(2) by (subst dirent_tail_walk.simps) (auto simp: Let_def)
  then have "dirent_tail_walk buf ?t 0 \<noteq> ?t"
    using off assms(2) by (subst dirent_tail_walk.simps) (auto simp: Let_def)
  then show "\<exists>e. get_dirent_tail env buf = Inl e" by (simp add: get_dirent_tail_def EXT2_DIRENT_TAIL_def Let_def)
qed

lemma get_dx_countlimit_put:
  assumes "get_dx_countlimit env buf = Inr off" "64 \<le> fe_blocksize env" "length buf = fe_blocksize env" "off + 4 \<le> j" "j + length bs \<le> length buf"
  shows "get_dx_countlimit env (put_at buf j bs) = Inr off"
proof -
  note off = dx_no_tail(2) [OF assms(1,2)]
  have same: "d_rec_len (put_at buf j bs) 0 = d_rec_len buf 0" "d_name_len (put_at buf j bs) 0 = d_name_len buf 0"
      "get_le16 (put_at buf j bs) off = get_le16 buf off" "get_le16 (put_at buf j bs) (off + 2) = get_le16 buf (off + 2)"
    using off assms(4,5) by (auto simp: d_rec_len_def d_name_len_def get_before)
  have root: "d_rec_len (put_at buf j bs) 12 = d_rec_len buf 12" "get_le32 (put_at buf j bs) 24 = get_le32 buf 24" "put_at buf j bs ! 29 = buf ! 29" if "off = 32"
    using that assms(4,5) by (auto simp: d_rec_len_def get_before)
  show ?thesis using assms(1,2) off same root by (auto simp: get_dx_countlimit_def Let_def split: if_splits)
qed

section \<open>Written and read\<close>

lemma dir_crc_dev: "dir_crc env (fs\<lparr>fs_dev := dev\<rparr>) ino ps = dir_crc env fs ino ps"
  by (simp add: dir_crc_def ext2fs_read_inode_def split: option.split)

lemma dirent_csum_set_verifies:
  assumes "get_dirent_tail env buf = Inr t" "ext2fs_dirent_csum_set env fs ino buf = Inr buf'" "length buf = fe_blocksize env" "12 \<le> fe_blocksize env"
  shows "get_dirent_tail env buf' = Inr t" "ext2fs_dirent_csum_verify env fs ino buf'"
proof -
  obtain crc where crc: "ext2fs_dirent_csum env fs ino buf t = Inr crc" "buf' = put_at buf (t + 8) (le32 crc)"
    using assms(1,2) by (cases "ext2fs_dirent_csum env fs ino buf t") (auto simp: ext2fs_dirent_csum_set_def)
  note p = get_dirent_tail_put [OF assms(1,3,4)]
  show tail: "get_dirent_tail env buf' = Inr t" unfolding crc(2) by (rule p(2))
  have "take t buf' = take t buf" using p(1) assms(3) crc(2) by (simp add: take_put_at)
  then have "ext2fs_dirent_csum env fs ino buf' t = Inr crc" using crc(1) by (simp add: ext2fs_dirent_csum_def)
  moreover have "get_le32 buf' (t + 8) = crc" using p(1) assms(3) crc(2) by (simp add: get_put)
  ultimately show "ext2fs_dirent_csum_verify env fs ino buf'" using tail by (simp add: ext2fs_dirent_csum_verify_def)
qed

lemma dx_csum_set_verifies:
  assumes "get_dx_countlimit env buf = Inr off" "ext2fs_dx_csum_set env fs ino buf = Inr buf'" "length buf = fe_blocksize env" "64 \<le> fe_blocksize env"
  shows "get_dx_countlimit env buf' = Inr off" "ext2fs_dx_csum_verify env fs ino buf'"
proof -
  define limit where "limit = unat (get_le16 buf off)"
  define count where "count = unat (get_le16 buf (off + 2))"
  define t where "t = off + 8 * limit"
  have fits: "\<not> off + limit * 8 > fe_blocksize env - 8"
    using assms(1,2) by (auto simp: ext2fs_dx_csum_set_def Let_def limit_def split: if_splits)
  then obtain crc where crc: "ext2fs_dx_csum env fs ino buf off count t = Inr crc" "buf' = put_at buf (t + 4) (le32 crc)"
    using assms(1,2) by (cases "ext2fs_dx_csum env fs ino buf off count t")
      (auto simp: ext2fs_dx_csum_set_def Let_def limit_def count_def t_def)
  have t: "t + 8 \<le> length buf" "off + 4 \<le> t + 4" using fits assms(3,4) by (auto simp: t_def)
  show cl: "get_dx_countlimit env buf' = Inr off"
    unfolding crc(2) by (rule get_dx_countlimit_put [OF assms(1,4,3)]) (use t in simp_all)
  have same: "get_le16 buf' off = get_le16 buf off" "get_le16 buf' (off + 2) = get_le16 buf (off + 2)"
    unfolding crc(2) using t by (simp_all add: get_before)
  have "put_at buf' (t + 4) (le32 0) = put_at buf (t + 4) (le32 0)" unfolding crc(2) using t by (intro put_at_twice) simp_all
  then have "ext2fs_dx_csum env fs ino buf' off count t = Inr crc" using crc(1) by (simp add: ext2fs_dx_csum_def)
  moreover have "get_le32 buf' (t + 4) = crc" unfolding crc(2) using t by (simp add: get_put)
  ultimately show "ext2fs_dx_csum_verify env fs ino buf'"
    using fits unfolding ext2fs_dx_csum_verify_def cl sum.case same Let_def limit_def [symmetric] count_def [symmetric] t_def [symmetric] by simp
qed

lemma dir_block_csum_set_verifies:
  assumes "ext2fs_dir_block_csum_set env fs ino buf = Inr buf'" "length buf = fe_blocksize env" "64 \<le> fe_blocksize env"
    "fe_flags env AND EXT2_FLAG_IGNORE_CSUM_ERRORS = 0"
  shows "ext2fs_dir_block_csum_verify env fs ino buf'"
proof (cases "ext2fs_has_feature_metadata_csum (fe_sb env)")
  case True
  show ?thesis
  proof (cases "get_dirent_tail env buf")
    case (Inr t)
    with assms(1) True have "ext2fs_dirent_csum_set env fs ino buf = Inr buf'" by (simp add: ext2fs_dir_block_csum_set_def)
    from dirent_csum_set_verifies [OF Inr this assms(2)] assms(3) True show ?thesis by (simp add: ext2fs_dir_block_csum_verify_def)
  next
    case (Inl e)
    with assms(1,4) True obtain off where off: "get_dx_countlimit env buf = Inr off" and set: "ext2fs_dx_csum_set env fs ino buf = Inr buf'"
      by (cases "get_dx_countlimit env buf") (simp_all add: ext2fs_dir_block_csum_set_def)
    note v = dx_csum_set_verifies [OF off set assms(2,3)]
    obtain e where "get_dirent_tail env buf' = Inl e" using dx_no_tail(1) [OF v(1) assms(3)] by blast
    with True v show ?thesis by (simp add: ext2fs_dir_block_csum_verify_def)
  qed
qed (simp add: ext2fs_dir_block_csum_verify_def)

text \<open>
  C4.  Every block of a directory that is written, with entries or with an index, can be read back: its
  checksum is the one that the reader computes, and the reader returns the bytes on the device.
\<close>

theorem dir_block_write_read:
  assumes "ext2fs_write_dir_block4 env fs blk buf ino = (None, fs')" "length buf = fe_blocksize env" "64 \<le> fe_blocksize env"
    "fe_read_error env blk = None"
  shows "ext2fs_read_dir_block4 env fs' blk ino = Inr (fs_dev fs' blk) \<and> (\<forall>b. b \<noteq> blk \<longrightarrow> fs_dev fs' b = fs_dev fs b)"
proof -
  obtain buf' where set: "ext2fs_dir_block_csum_set env fs ino buf = Inr buf'" and fs': "fs' = fs\<lparr>fs_dev := (fs_dev fs)(blk := buf')\<rparr>"
    using assms(1) by (auto simp: ext2fs_write_dir_block4_def io_write_blk_def split: sum.splits option.splits)
  have crc: "dir_crc env fs' ino ps = dir_crc env fs ino ps" for ps unfolding fs' by (rule dir_crc_dev)
  have "ext2fs_dir_block_csum_verify env fs' ino buf' = ext2fs_dir_block_csum_verify env fs ino buf'"
    by (simp add: ext2fs_dir_block_csum_verify_def ext2fs_dirent_csum_verify_def ext2fs_dx_csum_verify_def ext2fs_dirent_csum_def ext2fs_dx_csum_def crc Let_def
        split: sum.splits)
  then show ?thesis
    using dir_block_csum_set_verifies [OF set assms(2,3)] assms(4) by (auto simp: ext2fs_read_dir_block4_def io_read_blk_def fs')
qed

text \<open>The block of a new directory, written with its checksum.\<close>

lemma dir_block_write_read_witness:
  "\<exists>fs'. ext2fs_write_dir_block4 dir_env dir_fs 21 (encs [dot_entry dir_env 2, dotdot_entry dir_env 2] @ dir_tail dir_env 0) 2 = (None, fs')
    \<and> ext2fs_read_dir_block4 dir_env fs' 21 2 = Inr (fs_dev fs' 21)"
proof -
  let ?es = "[dot_entry dir_env 2, dotdot_entry dir_env 2]"
  have ok: "entries_ok dir_env ?es" by (rule dot_entries_ok) (simp_all add: dir_env_fields)
  have "ext2fs_read_inode dir_env dir_fs 2 = Inr (fs_inodes dir_fs 2)" by (simp add: ext2fs_read_inode_def dir_env_fields)
  from write_dir_block [OF ok dir_env_fields(1) this dir_env_fields(7), of 21 0]
  obtain fs' where w: "ext2fs_write_dir_block4 dir_env dir_fs 21 (encs ?es @ dir_tail dir_env 0) 2 = (None, fs')" by blast
  have "length (encs ?es @ dir_tail dir_env 0) = fe_blocksize dir_env" using ok by (simp add: entries_ok_def)
  from dir_block_write_read [OF w this] w show ?thesis by (simp add: dir_env_fields)
qed

end
