(* ===== verification/Group_Desc.thy ===== *)
theory Group_Desc
  imports Crc16 Ext2_Fs Gen_Bitmap64
begin

text \<open>
  The state that the allocation of blocks and inodes works on: the counts of the superblock, the group
  descriptors with their checksums and the two bitmaps, and the access functions of
  \<open>lib/ext2fs/blknum.c\<close> and \<open>lib/ext2fs/csum.c\<close>.  The array of descriptors, whose elements have the size
  that the superblock says, is a list; a descriptor has the 64 bytes of the structure and what follows
  them.
\<close>

section \<open>Superblock, descriptors, state\<close>

record alloc_super = ext2_super_block +
  sb_r_blocks_count :: u32
  sb_r_blocks_count_hi :: u32
  sb_free_blocks_count :: u32
  sb_free_blocks_hi :: u32
  sb_free_inodes_count :: u32
  sb_inodes_count :: u32
  sb_blocks_per_group :: u32
  sb_clusters_per_group :: u32
  sb_inodes_per_group :: u32
  sb_rev_level :: u32
  sb_first_ino :: u32
  sb_log_groups_per_flex :: u8
  sb_desc_size :: u16
  sb_uuid :: "u8 list"
  sb_feature_compat :: u32
  sb_inode_size :: u16
  sb_log_cluster_size :: u32
  sb_reserved_gdt_blocks :: u16
  sb_first_meta_bg :: u32
  sb_backup_bgs :: "u32 \<times> u32"

record ext4_group_desc =
  bg_block_bitmap :: u32
  bg_inode_bitmap :: u32
  bg_inode_table :: u32
  bg_free_blocks_count :: u16
  bg_free_inodes_count :: u16
  bg_used_dirs_count :: u16
  bg_flags :: u16
  bg_exclude_bitmap_lo :: u32
  bg_block_bitmap_csum_lo :: u16
  bg_inode_bitmap_csum_lo :: u16
  bg_itable_unused :: u16
  bg_checksum :: u16
  bg_block_bitmap_hi :: u32
  bg_inode_bitmap_hi :: u32
  bg_inode_table_hi :: u32
  bg_free_blocks_count_hi :: u16
  bg_free_inodes_count_hi :: u16
  bg_used_dirs_count_hi :: u16
  bg_itable_unused_hi :: u16
  bg_exclude_bitmap_hi :: u32
  bg_block_bitmap_csum_hi :: u16
  bg_inode_bitmap_csum_hi :: u16
  bg_reserved :: u32
  bg_rest :: "u8 list"

text \<open>The bytes of a descriptor up to its checksum, and those after it.\<close>

definition desc_head :: "ext4_group_desc \<Rightarrow> block" where
  "desc_head d = le32 (bg_block_bitmap d) @ le32 (bg_inode_bitmap d) @ le32 (bg_inode_table d)
     @ le16 (bg_free_blocks_count d) @ le16 (bg_free_inodes_count d) @ le16 (bg_used_dirs_count d) @ le16 (bg_flags d)
     @ le32 (bg_exclude_bitmap_lo d) @ le16 (bg_block_bitmap_csum_lo d) @ le16 (bg_inode_bitmap_csum_lo d)
     @ le16 (bg_itable_unused d)"

definition desc_tail :: "ext4_group_desc \<Rightarrow> block" where
  "desc_tail d = le32 (bg_block_bitmap_hi d) @ le32 (bg_inode_bitmap_hi d) @ le32 (bg_inode_table_hi d)
     @ le16 (bg_free_blocks_count_hi d) @ le16 (bg_free_inodes_count_hi d) @ le16 (bg_used_dirs_count_hi d)
     @ le16 (bg_itable_unused_hi d) @ le32 (bg_exclude_bitmap_hi d) @ le16 (bg_block_bitmap_csum_hi d)
     @ le16 (bg_inode_bitmap_csum_hi d) @ le32 (bg_reserved d) @ bg_rest d"

text \<open>
  The part of \<open>struct struct_ext2_filsys\<close> that changes.  The two bitmaps may have different back ends.
  \<open>af_stride\<close> is the size, in blocks, of the buffer of zeros that \<open>ext2fs_zero_blocks2\<close> keeps.
\<close>

record ('p, 'q) alloc_fs =
  af_super :: alloc_super
  af_groups :: "ext4_group_desc list"
  af_flags :: u32
  af_block_map :: "'p gbmap option"
  af_inode_map :: "'q gbmap option"
  af_io :: fs_state
  af_stride :: nat

text \<open>Which inode and logical block an allocation is for; only the functions of a client use it.\<close>

record blk_alloc_ctx =
  ctx_ino :: u32
  ctx_lblk :: u64
  ctx_flags :: u32

text \<open>
  What does not change: the file system as in theory \<open>Ext2_Fs\<close> (whose superblock is not used here), the
  tables of operations of the bitmaps, the functions that a client may set, and the outcome of the calls
  outside of the model: zeroing by the I/O manager, \<open>realloc\<close>, and \<open>ext2fs_read_block_bitmap\<close>.
\<close>

record ('p, 'q) alloc_env =
  ae_fs :: fs_env
  ae_block_ops :: "'p bitmap_ops"
  ae_inode_ops :: "'q bitmap_ops"
  ae_cluster_ratio_bits :: nat
  ae_desc_blocks :: u64
  ae_inode_blocks_per_group :: u32
  ae_get_alloc_block2 :: "(u64 \<Rightarrow> blk_alloc_ctx option \<Rightarrow> ('p, 'q) alloc_fs \<Rightarrow> (errcode + u64) \<times> ('p, 'q) alloc_fs) option"
  ae_get_alloc_block :: "(u64 \<Rightarrow> ('p, 'q) alloc_fs \<Rightarrow> (errcode + u64) \<times> ('p, 'q) alloc_fs) option"
  ae_new_range :: "(u32 \<Rightarrow> u64 \<Rightarrow> u64 \<Rightarrow> ('p, 'q) alloc_fs \<Rightarrow> (errcode + u64 \<times> u64) \<times> ('p, 'q) alloc_fs) option"
  ae_block_alloc_stats :: "(u64 \<Rightarrow> int \<Rightarrow> ('p, 'q) alloc_fs \<Rightarrow> ('p, 'q) alloc_fs) option"
  ae_block_alloc_stats_range :: "(u64 \<Rightarrow> u32 \<Rightarrow> int \<Rightarrow> ('p, 'q) alloc_fs \<Rightarrow> ('p, 'q) alloc_fs) option"
  ae_read_block_bitmap :: "('p, 'q) alloc_fs \<Rightarrow> errcode option \<times> ('p, 'q) alloc_fs"
  ae_zeroout :: "u64 \<Rightarrow> u32 \<Rightarrow> bool"
  ae_realloc :: malloc

section \<open>Features and macros\<close>

definition EXT2_FEATURE_RO_COMPAT_LARGE_FILE :: u32 where "EXT2_FEATURE_RO_COMPAT_LARGE_FILE = 0x0002"
definition EXT4_FEATURE_RO_COMPAT_HUGE_FILE :: u32 where "EXT4_FEATURE_RO_COMPAT_HUGE_FILE = 0x0008"
definition EXT4_FEATURE_RO_COMPAT_GDT_CSUM :: u32 where "EXT4_FEATURE_RO_COMPAT_GDT_CSUM = 0x0010"
definition EXT4_HUGE_FILE_FL :: u32 where "EXT4_HUGE_FILE_FL = 0x00040000"
definition EXT2_BG_INODE_UNINIT :: u16 where "EXT2_BG_INODE_UNINIT = 0x0001"
definition EXT2_BG_BLOCK_UNINIT :: u16 where "EXT2_BG_BLOCK_UNINIT = 0x0002"
definition EXT2_FLAG_CHANGED :: u32 where "EXT2_FLAG_CHANGED = 0x02"
definition EXT2_FLAG_DIRTY :: u32 where "EXT2_FLAG_DIRTY = 0x04"
definition EXT2_FLAG_IB_DIRTY :: u32 where "EXT2_FLAG_IB_DIRTY = 0x10"
definition EXT2_FLAG_BB_DIRTY :: u32 where "EXT2_FLAG_BB_DIRTY = 0x20"

definition ext2fs_has_feature_huge_file :: "'a ext2_super_block_scheme \<Rightarrow> bool" where
  "ext2fs_has_feature_huge_file sb = (sb_feature_ro_compat sb AND EXT4_FEATURE_RO_COMPAT_HUGE_FILE \<noteq> 0)"

definition ext2fs_has_feature_gdt_csum :: "'a ext2_super_block_scheme \<Rightarrow> bool" where
  "ext2fs_has_feature_gdt_csum sb = (sb_feature_ro_compat sb AND EXT4_FEATURE_RO_COMPAT_GDT_CSUM \<noteq> 0)"

definition ext2fs_has_group_desc_csum :: "('p, 'q) alloc_fs \<Rightarrow> bool" where
  "ext2fs_has_group_desc_csum fs = (ext2fs_has_feature_metadata_csum (af_super fs) \<or> ext2fs_has_feature_gdt_csum (af_super fs))"

definition EXT2FS_CLUSTER_RATIO :: "('p, 'q) alloc_env \<Rightarrow> u64" where
  "EXT2FS_CLUSTER_RATIO e = push_bit (ae_cluster_ratio_bits e) 1"

definition EXT2FS_CLUSTER_MASK :: "('p, 'q) alloc_env \<Rightarrow> u64" where
  "EXT2FS_CLUSTER_MASK e = EXT2FS_CLUSTER_RATIO e - 1"

definition EXT2_DESC_SIZE :: "alloc_super \<Rightarrow> nat" where
  "EXT2_DESC_SIZE sb = (if sb_feature_incompat sb AND EXT4_FEATURE_INCOMPAT_64BIT \<noteq> 0 then unat (sb_desc_size sb) else 32)"

definition EXT2_FIRST_INODE :: "alloc_super \<Rightarrow> u32" where
  "EXT2_FIRST_INODE sb = (if sb_rev_level sb = 0 then 11 else sb_first_ino sb)"

definition EXT2_GROUPS_TO_BLOCKS :: "alloc_super \<Rightarrow> u32 \<Rightarrow> u64" where
  "EXT2_GROUPS_TO_BLOCKS sb g = ucast (sb_blocks_per_group sb) * ucast g"

definition ext2fs_mark_super_dirty :: "('p, 'q) alloc_fs \<Rightarrow> ('p, 'q) alloc_fs" where
  "ext2fs_mark_super_dirty fs = fs\<lparr>af_flags := af_flags fs OR (EXT2_FLAG_DIRTY OR EXT2_FLAG_CHANGED)\<rparr>"

definition ext2fs_mark_ib_dirty :: "('p, 'q) alloc_fs \<Rightarrow> ('p, 'q) alloc_fs" where
  "ext2fs_mark_ib_dirty fs = fs\<lparr>af_flags := af_flags fs OR (EXT2_FLAG_IB_DIRTY OR EXT2_FLAG_CHANGED)\<rparr>"

definition ext2fs_mark_bb_dirty :: "('p, 'q) alloc_fs \<Rightarrow> ('p, 'q) alloc_fs" where
  "ext2fs_mark_bb_dirty fs = fs\<lparr>af_flags := af_flags fs OR (EXT2_FLAG_BB_DIRTY OR EXT2_FLAG_CHANGED)\<rparr>"

section \<open>Groups of blocks and inodes\<close>

text \<open>\<open>group_desc_count\<close> is the length of the list; a group number is a \<open>dgrp_t\<close>, of 32 bits.\<close>

definition group_desc_count :: "('p, 'q) alloc_fs \<Rightarrow> u32" where
  "group_desc_count fs = of_nat (length (af_groups fs))"

definition ext2fs_group_of_blk2 :: "('p, 'q) alloc_fs \<Rightarrow> u64 \<Rightarrow> u32" where
  "ext2fs_group_of_blk2 fs blk =
     ucast ((blk - ucast (sb_first_data_block (af_super fs))) div ucast (sb_blocks_per_group (af_super fs)))"

definition ext2fs_group_of_ino :: "('p, 'q) alloc_fs \<Rightarrow> u32 \<Rightarrow> u32" where
  "ext2fs_group_of_ino fs ino = (ino - 1) div sb_inodes_per_group (af_super fs)"

definition ext2fs_group_first_block2 :: "('p, 'q) alloc_fs \<Rightarrow> u32 \<Rightarrow> u64" where
  "ext2fs_group_first_block2 fs g = ucast (sb_first_data_block (af_super fs)) + EXT2_GROUPS_TO_BLOCKS (af_super fs) g"

definition ext2fs_group_last_block2 :: "('p, 'q) alloc_fs \<Rightarrow> u32 \<Rightarrow> u64" where
  "ext2fs_group_last_block2 fs g =
     (if g = group_desc_count fs - 1 then ext2fs_blocks_count (af_super fs) - 1
      else ext2fs_group_first_block2 fs g + ucast (sb_blocks_per_group (af_super fs) - 1))"

definition ext2fs_group_blocks_count :: "('p, 'q) alloc_fs \<Rightarrow> u32 \<Rightarrow> u32" where
  "ext2fs_group_blocks_count fs g =
     (if g = group_desc_count fs - 1
      then let n = ucast ((ext2fs_blocks_count (af_super fs) - ucast (sb_first_data_block (af_super fs)))
                          mod ucast (sb_blocks_per_group (af_super fs)))
           in if n = 0 then sb_blocks_per_group (af_super fs) else n
      else sb_blocks_per_group (af_super fs))"

section \<open>Counts of the superblock\<close>

definition ext2fs_blocks_count_set :: "alloc_super \<Rightarrow> u64 \<Rightarrow> alloc_super" where
  "ext2fs_blocks_count_set sb blk =
     (let sb = sb\<lparr>sb_blocks_count := ucast blk\<rparr>
      in if ext2fs_has_feature_64bit sb then sb\<lparr>sb_blocks_count_hi := ucast (drop_bit 32 blk)\<rparr> else sb)"

definition ext2fs_blocks_count_add :: "alloc_super \<Rightarrow> u64 \<Rightarrow> alloc_super" where
  "ext2fs_blocks_count_add sb blk = ext2fs_blocks_count_set sb (ext2fs_blocks_count sb + blk)"

definition ext2fs_r_blocks_count :: "alloc_super \<Rightarrow> u64" where
  "ext2fs_r_blocks_count sb =
     ucast (sb_r_blocks_count sb) OR (if ext2fs_has_feature_64bit sb then push_bit 32 (ucast (sb_r_blocks_count_hi sb)) else 0)"

definition ext2fs_r_blocks_count_set :: "alloc_super \<Rightarrow> u64 \<Rightarrow> alloc_super" where
  "ext2fs_r_blocks_count_set sb blk =
     (let sb = sb\<lparr>sb_r_blocks_count := ucast blk\<rparr>
      in if ext2fs_has_feature_64bit sb then sb\<lparr>sb_r_blocks_count_hi := ucast (drop_bit 32 blk)\<rparr> else sb)"

definition ext2fs_r_blocks_count_add :: "alloc_super \<Rightarrow> u64 \<Rightarrow> alloc_super" where
  "ext2fs_r_blocks_count_add sb blk = ext2fs_r_blocks_count_set sb (ext2fs_r_blocks_count sb + blk)"

definition ext2fs_free_blocks_count :: "alloc_super \<Rightarrow> u64" where
  "ext2fs_free_blocks_count sb =
     ucast (sb_free_blocks_count sb) OR (if ext2fs_has_feature_64bit sb then push_bit 32 (ucast (sb_free_blocks_hi sb)) else 0)"

definition ext2fs_free_blocks_count_set :: "alloc_super \<Rightarrow> u64 \<Rightarrow> alloc_super" where
  "ext2fs_free_blocks_count_set sb blk =
     (let sb = sb\<lparr>sb_free_blocks_count := ucast blk\<rparr>
      in if ext2fs_has_feature_64bit sb then sb\<lparr>sb_free_blocks_hi := ucast (drop_bit 32 blk)\<rparr> else sb)"

definition ext2fs_free_blocks_count_add :: "alloc_super \<Rightarrow> u64 \<Rightarrow> alloc_super" where
  "ext2fs_free_blocks_count_add sb blk = ext2fs_free_blocks_count_set sb (ext2fs_free_blocks_count sb + blk)"

section \<open>Fields of the descriptors\<close>

definition group_desc :: "('p, 'q) alloc_fs \<Rightarrow> u32 \<Rightarrow> ext4_group_desc" where
  "group_desc fs g = af_groups fs ! unat g"

definition update_desc :: "(ext4_group_desc \<Rightarrow> ext4_group_desc) \<Rightarrow> ('p, 'q) alloc_fs \<Rightarrow> u32 \<Rightarrow> ('p, 'q) alloc_fs" where
  "update_desc f fs g = fs\<lparr>af_groups := (af_groups fs)[unat g := f (group_desc fs g)]\<rparr>"

text \<open>Fields of 48 bits in two parts, of which the upper one counts with the 64-bit feature only.\<close>

definition bg_loc :: "('p, 'q) alloc_fs \<Rightarrow> u32 \<Rightarrow> u32 \<Rightarrow> u64" where
  "bg_loc fs lo hi = ucast lo OR (if ext2fs_has_feature_64bit (af_super fs) then push_bit 32 (ucast hi) else 0)"

definition ext2fs_block_bitmap_loc :: "('p, 'q) alloc_fs \<Rightarrow> u32 \<Rightarrow> u64" where
  "ext2fs_block_bitmap_loc fs g = bg_loc fs (bg_block_bitmap (group_desc fs g)) (bg_block_bitmap_hi (group_desc fs g))"

definition ext2fs_inode_bitmap_loc :: "('p, 'q) alloc_fs \<Rightarrow> u32 \<Rightarrow> u64" where
  "ext2fs_inode_bitmap_loc fs g = bg_loc fs (bg_inode_bitmap (group_desc fs g)) (bg_inode_bitmap_hi (group_desc fs g))"

definition ext2fs_inode_table_loc :: "('p, 'q) alloc_fs \<Rightarrow> u32 \<Rightarrow> u64" where
  "ext2fs_inode_table_loc fs g = bg_loc fs (bg_inode_table (group_desc fs g)) (bg_inode_table_hi (group_desc fs g))"

definition ext2fs_block_bitmap_loc_set :: "('p, 'q) alloc_fs \<Rightarrow> u32 \<Rightarrow> u64 \<Rightarrow> ('p, 'q) alloc_fs" where
  "ext2fs_block_bitmap_loc_set fs g blk =
     update_desc (\<lambda>d. let d = d\<lparr>bg_block_bitmap := ucast blk\<rparr>
       in if ext2fs_has_feature_64bit (af_super fs) then d\<lparr>bg_block_bitmap_hi := ucast (drop_bit 32 blk)\<rparr> else d) fs g"

definition ext2fs_inode_bitmap_loc_set :: "('p, 'q) alloc_fs \<Rightarrow> u32 \<Rightarrow> u64 \<Rightarrow> ('p, 'q) alloc_fs" where
  "ext2fs_inode_bitmap_loc_set fs g blk =
     update_desc (\<lambda>d. let d = d\<lparr>bg_inode_bitmap := ucast blk\<rparr>
       in if ext2fs_has_feature_64bit (af_super fs) then d\<lparr>bg_inode_bitmap_hi := ucast (drop_bit 32 blk)\<rparr> else d) fs g"

definition ext2fs_inode_table_loc_set :: "('p, 'q) alloc_fs \<Rightarrow> u32 \<Rightarrow> u64 \<Rightarrow> ('p, 'q) alloc_fs" where
  "ext2fs_inode_table_loc_set fs g blk =
     update_desc (\<lambda>d. let d = d\<lparr>bg_inode_table := ucast blk\<rparr>
       in if ext2fs_has_feature_64bit (af_super fs) then d\<lparr>bg_inode_table_hi := ucast (drop_bit 32 blk)\<rparr> else d) fs g"

definition ext2fs_block_bitmap_checksum :: "('p, 'q) alloc_fs \<Rightarrow> u32 \<Rightarrow> u32" where
  "ext2fs_block_bitmap_checksum fs g =
     (let d = group_desc fs g; csum = ucast (bg_block_bitmap_csum_lo d)
      in if EXT2_DESC_SIZE (af_super fs) \<ge> 58 then csum OR push_bit 16 (ucast (bg_block_bitmap_csum_hi d)) else csum)"

definition ext2fs_inode_bitmap_checksum :: "('p, 'q) alloc_fs \<Rightarrow> u32 \<Rightarrow> u32" where
  "ext2fs_inode_bitmap_checksum fs g =
     (let d = group_desc fs g; csum = ucast (bg_inode_bitmap_csum_lo d)
      in if EXT2_DESC_SIZE (af_super fs) \<ge> 60 then csum OR push_bit 16 (ucast (bg_inode_bitmap_csum_hi d)) else csum)"

text \<open>Counts of 32 bits in two parts.\<close>

definition bg_count :: "('p, 'q) alloc_fs \<Rightarrow> u16 \<Rightarrow> u16 \<Rightarrow> u32" where
  "bg_count fs lo hi = ucast lo OR (if ext2fs_has_feature_64bit (af_super fs) then push_bit 16 (ucast hi) else 0)"

definition ext2fs_bg_free_blocks_count :: "('p, 'q) alloc_fs \<Rightarrow> u32 \<Rightarrow> u32" where
  "ext2fs_bg_free_blocks_count fs g = bg_count fs (bg_free_blocks_count (group_desc fs g)) (bg_free_blocks_count_hi (group_desc fs g))"

definition ext2fs_bg_free_inodes_count :: "('p, 'q) alloc_fs \<Rightarrow> u32 \<Rightarrow> u32" where
  "ext2fs_bg_free_inodes_count fs g = bg_count fs (bg_free_inodes_count (group_desc fs g)) (bg_free_inodes_count_hi (group_desc fs g))"

definition ext2fs_bg_used_dirs_count :: "('p, 'q) alloc_fs \<Rightarrow> u32 \<Rightarrow> u32" where
  "ext2fs_bg_used_dirs_count fs g = bg_count fs (bg_used_dirs_count (group_desc fs g)) (bg_used_dirs_count_hi (group_desc fs g))"

definition ext2fs_bg_itable_unused :: "('p, 'q) alloc_fs \<Rightarrow> u32 \<Rightarrow> u32" where
  "ext2fs_bg_itable_unused fs g = bg_count fs (bg_itable_unused (group_desc fs g)) (bg_itable_unused_hi (group_desc fs g))"

definition ext2fs_bg_free_blocks_count_set :: "('p, 'q) alloc_fs \<Rightarrow> u32 \<Rightarrow> u32 \<Rightarrow> ('p, 'q) alloc_fs" where
  "ext2fs_bg_free_blocks_count_set fs g n =
     update_desc (\<lambda>d. let d = d\<lparr>bg_free_blocks_count := ucast n\<rparr>
       in if ext2fs_has_feature_64bit (af_super fs) then d\<lparr>bg_free_blocks_count_hi := ucast (drop_bit 16 n)\<rparr> else d) fs g"

definition ext2fs_bg_free_inodes_count_set :: "('p, 'q) alloc_fs \<Rightarrow> u32 \<Rightarrow> u32 \<Rightarrow> ('p, 'q) alloc_fs" where
  "ext2fs_bg_free_inodes_count_set fs g n =
     update_desc (\<lambda>d. let d = d\<lparr>bg_free_inodes_count := ucast n\<rparr>
       in if ext2fs_has_feature_64bit (af_super fs) then d\<lparr>bg_free_inodes_count_hi := ucast (drop_bit 16 n)\<rparr> else d) fs g"

definition ext2fs_bg_used_dirs_count_set :: "('p, 'q) alloc_fs \<Rightarrow> u32 \<Rightarrow> u32 \<Rightarrow> ('p, 'q) alloc_fs" where
  "ext2fs_bg_used_dirs_count_set fs g n =
     update_desc (\<lambda>d. let d = d\<lparr>bg_used_dirs_count := ucast n\<rparr>
       in if ext2fs_has_feature_64bit (af_super fs) then d\<lparr>bg_used_dirs_count_hi := ucast (drop_bit 16 n)\<rparr> else d) fs g"

definition ext2fs_bg_itable_unused_set :: "('p, 'q) alloc_fs \<Rightarrow> u32 \<Rightarrow> u32 \<Rightarrow> ('p, 'q) alloc_fs" where
  "ext2fs_bg_itable_unused_set fs g n =
     update_desc (\<lambda>d. let d = d\<lparr>bg_itable_unused := ucast n\<rparr>
       in if ext2fs_has_feature_64bit (af_super fs) then d\<lparr>bg_itable_unused_hi := ucast (drop_bit 16 n)\<rparr> else d) fs g"

definition ext2fs_bg_flags :: "('p, 'q) alloc_fs \<Rightarrow> u32 \<Rightarrow> u16" where
  "ext2fs_bg_flags fs g = bg_flags (group_desc fs g)"

definition ext2fs_bg_flags_zap :: "('p, 'q) alloc_fs \<Rightarrow> u32 \<Rightarrow> ('p, 'q) alloc_fs" where
  "ext2fs_bg_flags_zap fs g = update_desc (\<lambda>d. d\<lparr>bg_flags := 0\<rparr>) fs g"

definition ext2fs_bg_flags_test :: "('p, 'q) alloc_fs \<Rightarrow> u32 \<Rightarrow> u16 \<Rightarrow> bool" where
  "ext2fs_bg_flags_test fs g fl = (bg_flags (group_desc fs g) AND fl \<noteq> 0)"

definition ext2fs_bg_flags_set :: "('p, 'q) alloc_fs \<Rightarrow> u32 \<Rightarrow> u16 \<Rightarrow> ('p, 'q) alloc_fs" where
  "ext2fs_bg_flags_set fs g fl = update_desc (\<lambda>d. d\<lparr>bg_flags := bg_flags d OR fl\<rparr>) fs g"

definition ext2fs_bg_flags_clear :: "('p, 'q) alloc_fs \<Rightarrow> u32 \<Rightarrow> u16 \<Rightarrow> ('p, 'q) alloc_fs" where
  "ext2fs_bg_flags_clear fs g fl = update_desc (\<lambda>d. d\<lparr>bg_flags := bg_flags d AND NOT fl\<rparr>) fs g"

definition ext2fs_bg_checksum :: "('p, 'q) alloc_fs \<Rightarrow> u32 \<Rightarrow> u16" where
  "ext2fs_bg_checksum fs g = bg_checksum (group_desc fs g)"

definition ext2fs_bg_checksum_set :: "('p, 'q) alloc_fs \<Rightarrow> u32 \<Rightarrow> u16 \<Rightarrow> ('p, 'q) alloc_fs" where
  "ext2fs_bg_checksum_set fs g c = update_desc (\<lambda>d. d\<lparr>bg_checksum := c\<rparr>) fs g"

section \<open>Checksums of the descriptors\<close>

definition ext2fs_group_desc_csum :: "('p, 'q) alloc_env \<Rightarrow> ('p, 'q) alloc_fs \<Rightarrow> u32 \<Rightarrow> u16" where
  "ext2fs_group_desc_csum e fs g =
     (let d = group_desc fs g; size = EXT2_DESC_SIZE (af_super fs) in
      if ext2fs_has_feature_metadata_csum (af_super fs)
      then let crc = fe_crc (ae_fs e) (fe_csum_seed (ae_fs e)) (le32 g);
               crc = fe_crc (ae_fs e) crc (take size (desc_head d @ le16 0 @ desc_tail d))
           in ucast (crc AND 0xFFFF)
      else let crc = ext2fs_crc16 (NOT 0) (sb_uuid (af_super fs));
               crc = ext2fs_crc16 crc (le32 g);
               crc = ext2fs_crc16 crc (desc_head d)
           in if 32 < size then ext2fs_crc16 crc (take (size - 32) (desc_tail d)) else crc)"

definition ext2fs_group_desc_csum_verify :: "('p, 'q) alloc_env \<Rightarrow> ('p, 'q) alloc_fs \<Rightarrow> u32 \<Rightarrow> bool" where
  "ext2fs_group_desc_csum_verify e fs g =
     (\<not> (ext2fs_has_group_desc_csum fs \<and> ext2fs_bg_checksum fs g \<noteq> ext2fs_group_desc_csum e fs g))"

definition ext2fs_group_desc_csum_set :: "('p, 'q) alloc_env \<Rightarrow> ('p, 'q) alloc_fs \<Rightarrow> u32 \<Rightarrow> ('p, 'q) alloc_fs" where
  "ext2fs_group_desc_csum_set e fs g =
     (if \<not> ext2fs_has_group_desc_csum fs then fs else ext2fs_bg_checksum_set fs g (ext2fs_group_desc_csum e fs g))"

end
