(* ===== verification/Alloc.thy ===== *)
theory Alloc
  imports Group_Desc "HOL-Library.Monad_Syntax"
begin

text \<open>
  The allocation of blocks and inodes: \<open>lib/ext2fs/alloc_stats.c\<close>, which marks the bitmap and keeps the
  counts, \<open>lib/ext2fs/alloc.c\<close>, which searches, \<open>ext2fs_zero_blocks2\<close> of \<open>lib/ext2fs/mkjournal.c\<close> and the
  block counts of inodes of \<open>lib/ext2fs/i_block.c\<close>.  Searches that may not end are partial functions.
\<close>

section \<open>Marking and counting\<close>

text \<open>\<open>inuse\<close> is +1 or -1; a number that is too large is reported on the terminal only.\<close>

definition ext2fs_inode_alloc_stats2 :: "('p, 'q) alloc_env \<Rightarrow> ('p, 'q) alloc_fs \<Rightarrow> u32 \<Rightarrow> int \<Rightarrow> bool \<Rightarrow> ('p, 'q) alloc_fs" where
  "ext2fs_inode_alloc_stats2 e fs ino inuse isdir =
     (let g = ext2fs_group_of_ino fs ino; ipg = sb_inodes_per_group (af_super fs) in
      if ino > sb_inodes_count (af_super fs) then fs
      else
        let fs = fs\<lparr>af_inode_map := snd ((if inuse > 0 then ext2fs_mark_generic_bmap (ae_inode_ops e)
                     else ext2fs_unmark_generic_bmap (ae_inode_ops e)) (af_inode_map fs) (ucast ino))\<rparr>;
            fs = ext2fs_bg_free_inodes_count_set fs g (ext2fs_bg_free_inodes_count fs g - of_int inuse);
            fs = (if isdir then ext2fs_bg_used_dirs_count_set fs g (ext2fs_bg_used_dirs_count fs g + of_int inuse) else fs);
            fs = ext2fs_bg_flags_clear fs g EXT2_BG_INODE_UNINIT;
            fs = (if ext2fs_has_group_desc_csum fs
                  then let first_unused = ipg - ext2fs_bg_itable_unused fs g + g * ipg + 1;
                           fs = (if ino \<ge> first_unused then ext2fs_bg_itable_unused_set fs g (g * ipg + ipg - ino) else fs)
                       in ext2fs_group_desc_csum_set e fs g
                  else fs);
            fs = fs\<lparr>af_super := (af_super fs)\<lparr>sb_free_inodes_count := sb_free_inodes_count (af_super fs) - of_int inuse\<rparr>\<rparr>
        in ext2fs_mark_ib_dirty (ext2fs_mark_super_dirty fs))"

definition ext2fs_inode_alloc_stats :: "('p, 'q) alloc_env \<Rightarrow> ('p, 'q) alloc_fs \<Rightarrow> u32 \<Rightarrow> int \<Rightarrow> ('p, 'q) alloc_fs" where
  "ext2fs_inode_alloc_stats e fs ino inuse = ext2fs_inode_alloc_stats2 e fs ino inuse False"

definition ext2fs_block_alloc_stats2 :: "('p, 'q) alloc_env \<Rightarrow> ('p, 'q) alloc_fs \<Rightarrow> u64 \<Rightarrow> int \<Rightarrow> ('p, 'q) alloc_fs" where
  "ext2fs_block_alloc_stats2 e fs blk inuse =
     (let g = ext2fs_group_of_blk2 fs blk in
      if blk \<ge> ext2fs_blocks_count (af_super fs) then fs
      else
        let fs = fs\<lparr>af_block_map := snd ((if inuse > 0 then ext2fs_mark_generic_bmap (ae_block_ops e)
                     else ext2fs_unmark_generic_bmap (ae_block_ops e)) (af_block_map fs) blk)\<rparr>;
            fs = ext2fs_bg_free_blocks_count_set fs g (ext2fs_bg_free_blocks_count fs g - of_int inuse);
            fs = ext2fs_bg_flags_clear fs g EXT2_BG_BLOCK_UNINIT;
            fs = ext2fs_group_desc_csum_set e fs g;
            fs = fs\<lparr>af_super := ext2fs_free_blocks_count_add (af_super fs) (of_int (- inuse) * EXT2FS_CLUSTER_RATIO e)\<rparr>;
            fs = ext2fs_mark_bb_dirty (ext2fs_mark_super_dirty fs)
        in case ae_block_alloc_stats e of None \<Rightarrow> fs | Some f \<Rightarrow> f blk inuse fs)"

definition ext2fs_block_alloc_stats :: "('p, 'q) alloc_env \<Rightarrow> ('p, 'q) alloc_fs \<Rightarrow> u32 \<Rightarrow> int \<Rightarrow> ('p, 'q) alloc_fs" where
  "ext2fs_block_alloc_stats e fs blk inuse = ext2fs_block_alloc_stats2 e fs (ucast blk) inuse"

text \<open>
  The loop over the groups that a run of blocks touches.  The number of clusters that a group loses is
  computed without signs, with \<open>-n\<close> as a number of 64 bits.
\<close>

partial_function (option) alloc_stats_loop ::
    "('p, 'q) alloc_env \<Rightarrow> ('p, 'q) alloc_fs \<Rightarrow> u64 \<Rightarrow> u32 \<Rightarrow> int \<Rightarrow> (('p, 'q) alloc_fs \<times> u64 \<times> u32) option" where
  "alloc_stats_loop e fs blk num inuse =
     (if num = 0 then Some (fs, blk, num)
      else
        let g = ext2fs_group_of_blk2 fs blk;
            last_blk = ext2fs_group_last_block2 fs g;
            n = (if blk + ucast num > last_blk then last_blk - blk + 1 else ucast num);
            fs = ext2fs_bg_free_blocks_count_set fs g
                   (ucast ((ucast (ext2fs_bg_free_blocks_count fs g) :: u64) - (of_int inuse * n) div EXT2FS_CLUSTER_RATIO e));
            fs = ext2fs_bg_flags_clear fs g EXT2_BG_BLOCK_UNINIT;
            fs = ext2fs_group_desc_csum_set e fs g;
            fs = fs\<lparr>af_super := ext2fs_free_blocks_count_add (af_super fs) (of_int (- inuse) * n)\<rparr>
        in alloc_stats_loop e fs (blk + n) (num - ucast n) inuse)"

text \<open>The function of the client gets the block and the number that the loop leaves behind.\<close>

definition ext2fs_block_alloc_stats_range ::
    "('p, 'q) alloc_env \<Rightarrow> ('p, 'q) alloc_fs \<Rightarrow> u64 \<Rightarrow> u32 \<Rightarrow> int \<Rightarrow> ('p, 'q) alloc_fs option" where
  "ext2fs_block_alloc_stats_range e fs blk num inuse =
     (if blk + ucast num > ext2fs_blocks_count (af_super fs) then Some fs
      else if inuse = 0 then Some fs
      else
        let fs = fs\<lparr>af_block_map := (if inuse > 0 then ext2fs_mark_block_bitmap_range2 (ae_block_ops e)
                     else ext2fs_unmark_block_bitmap_range2 (ae_block_ops e)) (af_block_map fs) blk num\<rparr>;
            inuse = (if inuse > 0 then 1 else - 1)
        in (case alloc_stats_loop e fs blk num inuse of
              None \<Rightarrow> None
            | Some (fs, blk, num) \<Rightarrow>
                let fs = ext2fs_mark_bb_dirty (ext2fs_mark_super_dirty fs)
                in Some (case ae_block_alloc_stats_range e of None \<Rightarrow> fs | Some f \<Rightarrow> f blk num inuse fs)))"

section \<open>Bitmaps that are not initialized\<close>

definition ext2fs_clear_block_uninit :: "('p, 'q) alloc_env \<Rightarrow> ('p, 'q) alloc_fs \<Rightarrow> u32 \<Rightarrow> ('p, 'q) alloc_fs" where
  "ext2fs_clear_block_uninit e fs g =
     (if g \<ge> group_desc_count fs \<or> \<not> ext2fs_has_group_desc_csum fs \<or> \<not> ext2fs_bg_flags_test fs g EXT2_BG_BLOCK_UNINIT
      then fs
      else ext2fs_mark_bb_dirty (ext2fs_mark_super_dirty
             (ext2fs_group_desc_csum_set e (ext2fs_bg_flags_clear fs g EXT2_BG_BLOCK_UNINIT) g)))"

text \<open>\<open>n\<close> inodes are left.\<close>

primrec unmark_inodes :: "'q bitmap_ops \<Rightarrow> nat \<Rightarrow> u32 \<Rightarrow> 'q gbmap option \<Rightarrow> 'q gbmap option" where
  "unmark_inodes ops 0 ino bm = bm"
| "unmark_inodes ops (Suc n) ino bm = unmark_inodes ops n (ino + 1) (snd (ext2fs_unmark_generic_bmap ops bm (ucast ino)))"

text \<open>The bitmap that is searched, \<open>bm\<close>, need not be that of the file system.\<close>

definition check_inode_uninit ::
    "('p, 'q) alloc_env \<Rightarrow> ('p, 'q) alloc_fs \<Rightarrow> 'q gbmap option \<Rightarrow> u32 \<Rightarrow> ('p, 'q) alloc_fs \<times> 'q gbmap option" where
  "check_inode_uninit e fs bm g =
     (if g \<ge> group_desc_count fs \<or> \<not> ext2fs_has_group_desc_csum fs \<or> \<not> ext2fs_bg_flags_test fs g EXT2_BG_INODE_UNINIT
      then (fs, bm)
      else
        let ipg = sb_inodes_per_group (af_super fs);
            bm = unmark_inodes (ae_inode_ops e) (unat ipg) (g * ipg + 1) bm;
            fs = ext2fs_bg_flags_clear fs g EXT2_BG_INODE_UNINIT;
            fs = ext2fs_bg_flags_clear fs g EXT2_BG_BLOCK_UNINIT;
            fs = ext2fs_group_desc_csum_set e fs g
        in (ext2fs_mark_super_dirty (ext2fs_mark_ib_dirty fs), bm))"

section \<open>A new inode\<close>

text \<open>
  The search starts in the group of the directory and goes round once.  The result is the inode where the
  loop stopped, the file system and the bitmap.
\<close>

partial_function (option) new_inode_loop ::
    "('p, 'q) alloc_env \<Rightarrow> u32 \<Rightarrow> u32 \<Rightarrow> ('p, 'q) alloc_fs \<Rightarrow> 'q gbmap option \<Rightarrow>
     ((errcode + u32) \<times> ('p, 'q) alloc_fs \<times> 'q gbmap option) option" where
  "new_inode_loop e start_inode i fs bm =
     (let ipg = sb_inodes_per_group (af_super fs);
          count = sb_inodes_count (af_super fs);
          ino_in_group = (i - 1) mod ipg;
          g = (i - 1) div ipg;
          (fs, bm) = check_inode_uninit e fs bm g;
          upto = i + (ipg - ino_in_group);
          upto = (if i < start_inode \<and> upto \<ge> start_inode then start_inode - 1 else upto);
          upto = (if upto > count then count else upto)
      in do {
        r \<leftarrow> ext2fs_find_first_zero_generic_bmap (ae_inode_ops e) bm (ucast i) (ucast upto);
        case r of
          Inr first_zero \<Rightarrow> Some (Inr (ucast first_zero), fs, bm)
        | Inl err \<Rightarrow>
            if err \<noteq> ENOENT then Some (Inl EXT2_ET_INODE_ALLOC_FAIL, fs, bm)
            else
              let i = upto + 1;
                  i = (if i > count then EXT2_FIRST_INODE (af_super fs) else i)
              in if i \<noteq> start_inode then new_inode_loop e start_inode i fs bm else Some (Inr i, fs, bm) })"

text \<open>\<open>bm\<close> is the bitmap of the caller, if any; then also the new one is returned.\<close>

definition ext2fs_new_inode ::
    "('p, 'q) alloc_env \<Rightarrow> ('p, 'q) alloc_fs \<Rightarrow> u32 \<Rightarrow> 'q gbmap option \<Rightarrow>
     ((errcode + u32) \<times> ('p, 'q) alloc_fs \<times> 'q gbmap option) option" where
  "ext2fs_new_inode e fs dir bm =
     (let own = (bm = None); bm = (if own then af_inode_map fs else bm) in
      if bm = None then Some (Inl EXT2_ET_NO_INODE_BITMAP, fs, None)
      else
        let ipg = sb_inodes_per_group (af_super fs);
            start_inode = (if dir > 0 then ((dir - 1) div ipg) * ipg + 1 else 0);
            start_inode = (if start_inode < EXT2_FIRST_INODE (af_super fs) then EXT2_FIRST_INODE (af_super fs) else start_inode)
        in if start_inode > sb_inodes_count (af_super fs) then Some (Inl EXT2_ET_INODE_ALLOC_FAIL, fs, bm)
        else do {
          (r, fs, bm) \<leftarrow> new_inode_loop e start_inode start_inode fs bm;
          case r of
            Inl err \<Rightarrow> Some (Inl err, if own then fs\<lparr>af_inode_map := bm\<rparr> else fs, bm)
          | Inr i \<Rightarrow>
              (case ext2fs_test_generic_bmap (ae_inode_ops e) bm (ucast i) of
                 (t, bm) \<Rightarrow> let fs = (if own then fs\<lparr>af_inode_map := bm\<rparr> else fs)
                              in if t \<noteq> 0 then Some (Inl EXT2_ET_INODE_ALLOC_FAIL, fs, bm) else Some (Inr i, fs, bm)) })"

section \<open>A new block\<close>

text \<open>The last part of \<open>ext2fs_new_block3\<close>, from the label \<open>allocated\<close>.\<close>

definition new_block_allocated ::
    "('p, 'q) alloc_env \<Rightarrow> (errcode + u64) \<Rightarrow> ('p, 'q) alloc_fs \<Rightarrow> (errcode + u64) \<times> ('p, 'q) alloc_fs" where
  "new_block_allocated e r fs =
     (case r of
        Inl err \<Rightarrow> (Inl (if err = ENOENT then EXT2_ET_BLOCK_ALLOC_FAIL else err), fs)
      | Inr b \<Rightarrow> (Inr b, ext2fs_clear_block_uninit e fs (ext2fs_group_of_blk2 fs b)))"

text \<open>\<open>bm\<close> is the bitmap of the caller, if any; it is only read.\<close>

definition ext2fs_new_block3 ::
    "('p, 'q) alloc_env \<Rightarrow> ('p, 'q) alloc_fs \<Rightarrow> u64 \<Rightarrow> 'p gbmap option \<Rightarrow> blk_alloc_ctx option \<Rightarrow>
     ((errcode + u64) \<times> ('p, 'q) alloc_fs) option" where
  "ext2fs_new_block3 e fs goal bm ctx =
     (let search =
        (case (if bm = None then af_block_map fs else bm) of
           None \<Rightarrow> Some (Inl EXT2_ET_NO_BLOCK_BITMAP, fs)
         | Some m \<Rightarrow>
             let first = ucast (sb_first_data_block (af_super fs));
                 find = ext2fs_find_first_zero_generic_bmap (ae_block_ops e) (Some m);
                 goal = (if goal = 0 \<or> goal \<ge> ext2fs_blocks_count (af_super fs) then first else goal);
                 goal = goal AND NOT (EXT2FS_CLUSTER_MASK e)
             in do {
               r \<leftarrow> find goal (ext2fs_blocks_count (af_super fs) - 1);
               r \<leftarrow> (if r = Inl ENOENT \<and> goal \<noteq> first then find first (goal - 1) else Some r);
               Some (new_block_allocated e r fs) })
      in if bm = None
         then (case ae_get_alloc_block2 e of
                 Some gab \<Rightarrow> Some (case gab goal ctx fs of (r, fs) \<Rightarrow> new_block_allocated e r fs)
               | None \<Rightarrow>
                   (case ae_get_alloc_block e of
                      Some gab \<Rightarrow> Some (case gab goal fs of (r, fs) \<Rightarrow> new_block_allocated e r fs)
                    | None \<Rightarrow> search))
         else search)"

definition ext2fs_new_block2 ::
    "('p, 'q) alloc_env \<Rightarrow> ('p, 'q) alloc_fs \<Rightarrow> u64 \<Rightarrow> 'p gbmap option \<Rightarrow> ((errcode + u64) \<times> ('p, 'q) alloc_fs) option" where
  "ext2fs_new_block2 e fs goal bm = ext2fs_new_block3 e fs goal bm None"

definition ext2fs_new_block ::
    "('p, 'q) alloc_env \<Rightarrow> ('p, 'q) alloc_fs \<Rightarrow> u32 \<Rightarrow> 'p gbmap option \<Rightarrow> ((errcode + u32) \<times> ('p, 'q) alloc_fs) option" where
  "ext2fs_new_block e fs goal bm = map_option (map_prod (map_sum id ucast) id) (ext2fs_new_block2 e fs (ucast goal) bm)"


section \<open>Zeroing and allocating a block\<close>

text \<open>\<open>io_channel_write_blk64\<close> of \<open>n\<close> blocks of zeros.\<close>

primrec io_write_zeros :: "fs_env \<Rightarrow> nat \<Rightarrow> fs_state \<Rightarrow> u64 \<Rightarrow> errcode option \<times> fs_state" where
  "io_write_zeros env 0 io blk = (None, io)"
| "io_write_zeros env (Suc n) io blk =
     (case io_write_blk env io blk (replicate (fe_blocksize env) 0) of
        (Some err, io) \<Rightarrow> (Some err, io)
      | (None, io) \<Rightarrow> io_write_zeros env n io (blk + 1))"

definition MAX_STRIDE_LENGTH :: "('p, 'q) alloc_env \<Rightarrow> nat" where
  "MAX_STRIDE_LENGTH e = 4194304 div fe_blocksize (ae_fs e)"

text \<open>\<open>left\<close> blocks are left to be written, in pieces of at most \<open>stride\<close> blocks; \<open>stride\<close> is not 0.\<close>

function zero_loop :: "fs_env \<Rightarrow> nat \<Rightarrow> nat \<Rightarrow> fs_state \<Rightarrow> u64 \<Rightarrow> errcode option \<times> fs_state" where
  "zero_loop env stride left io blk =
     (if left = 0 \<or> stride = 0 then (None, io)
      else let r = unat blk mod stride;
               count = (if r \<noteq> 0 then min (stride - r) left else min left stride)
           in case io_write_zeros env count io blk of
                (Some err, io) \<Rightarrow> (Some err, io)
              | (None, io) \<Rightarrow> zero_loop env stride (left - count) io (blk + of_nat count))"
  by pat_completeness auto
termination
proof (relation "measure (\<lambda>(env, stride, left, io, blk). left)", goal_cases)
  case (2 env stride left io blk r count)
  have "r < stride" using 2 by simp
  then have "0 < count" using 2 by (simp split: if_splits)
  then show ?case using 2 by simp
qed simp

declare zero_loop.simps [simp del]

definition ext2fs_zero_blocks2 :: "('p, 'q) alloc_env \<Rightarrow> ('p, 'q) alloc_fs \<Rightarrow> u64 \<Rightarrow> u32 \<Rightarrow> errcode option \<times> ('p, 'q) alloc_fs" where
  "ext2fs_zero_blocks2 e fs blk num =
     (let n = unat num; zero = replicate (fe_blocksize (ae_fs e)) 0 in
      if sint num \<le> 0 then (None, fs)
      else if ae_zeroout e blk num
      then (None, fs\<lparr>af_io := (af_io fs)\<lparr>fs_dev := (\<lambda>b. if blk \<le> b \<and> unat b < unat blk + n then zero else fs_dev (af_io fs) b)\<rparr>\<rparr>)
      else
        let new_stride = min n (MAX_STRIDE_LENGTH e);
            grow = n > af_stride fs \<and> af_stride fs < MAX_STRIDE_LENGTH e
        in if grow \<and> \<not> ae_realloc e (fe_blocksize (ae_fs e) * new_stride) then (Some EXT2_ET_NO_MEMORY, fs)
           else let fs = (if grow then fs\<lparr>af_stride := new_stride\<rparr> else fs)
                in case zero_loop (ae_fs e) (af_stride fs) n (af_io fs) blk of (r, io) \<Rightarrow> (r, fs\<lparr>af_io := io\<rparr>))"

text \<open>\<open>block_buf\<close> says whether the caller provides a buffer.\<close>

definition ext2fs_alloc_block3 ::
    "('p, 'q) alloc_env \<Rightarrow> ('p, 'q) alloc_fs \<Rightarrow> u64 \<Rightarrow> bool \<Rightarrow> blk_alloc_ctx option \<Rightarrow> ((errcode + u64) \<times> ('p, 'q) alloc_fs) option" where
  "ext2fs_alloc_block3 e fs goal block_buf ctx =
     do {
       (r, fs) \<leftarrow>
         (case ae_get_alloc_block2 e of
            Some gab \<Rightarrow> Some (gab goal ctx fs)
          | None \<Rightarrow>
              (case ae_get_alloc_block e of
                 Some gab \<Rightarrow> Some (gab goal fs)
               | None \<Rightarrow>
                   (case (if af_block_map fs = None then ae_read_block_bitmap e fs else (None, fs)) of
                      (Some err, fs) \<Rightarrow> Some (Inl err, fs)
                    | (None, fs) \<Rightarrow> ext2fs_new_block3 e fs goal None ctx)));
       (case r of
          Inl err \<Rightarrow> Some (Inl err, fs)
        | Inr block \<Rightarrow>
            (case (if block_buf
                   then (case io_write_blk (ae_fs e) (af_io fs) block (replicate (fe_blocksize (ae_fs e)) 0) of
                           (w, io) \<Rightarrow> (w, fs\<lparr>af_io := io\<rparr>))
                   else ext2fs_zero_blocks2 e fs block 1) of
               (Some err, fs) \<Rightarrow> Some (Inl err, fs)
             | (None, fs) \<Rightarrow> Some (Inr block, ext2fs_block_alloc_stats2 e fs block 1))) }"

definition ext2fs_alloc_block2 ::
    "('p, 'q) alloc_env \<Rightarrow> ('p, 'q) alloc_fs \<Rightarrow> u64 \<Rightarrow> bool \<Rightarrow> ((errcode + u64) \<times> ('p, 'q) alloc_fs) option" where
  "ext2fs_alloc_block2 e fs goal block_buf = ext2fs_alloc_block3 e fs goal block_buf None"

definition ext2fs_alloc_block ::
    "('p, 'q) alloc_env \<Rightarrow> ('p, 'q) alloc_fs \<Rightarrow> u32 \<Rightarrow> bool \<Rightarrow> ((errcode + u32) \<times> ('p, 'q) alloc_fs) option" where
  "ext2fs_alloc_block e fs goal block_buf =
     map_option (map_prod (map_sum id ucast) id) (ext2fs_alloc_block3 e fs (ucast goal) block_buf None)"

section \<open>Runs of free blocks\<close>

fun ext2fs_get_bitmap_granularity :: "'p gbmap \<Rightarrow> nat" where
  "ext2fs_get_bitmap_granularity (GB32 b) = 0"
| "ext2fs_get_bitmap_granularity (GB64 b) = (if \<not> ext2fs_is_64_bitmap (bm_magic b) then 0 else bm_cluster_bits b)"

text \<open>An error of the test is a number other than 0, which means that all blocks are free.\<close>

partial_function (option) free_blocks_loop ::
    "('p, 'q) alloc_env \<Rightarrow> ('p, 'q) alloc_fs \<Rightarrow> 'p gbmap \<Rightarrow> int \<Rightarrow> u64 \<Rightarrow> u64 \<Rightarrow> u64 \<Rightarrow> u64 \<Rightarrow> (errcode + u64) option" where
  "free_blocks_loop e fs bm num c_ratio start finish b =
     (let wrap = (b + of_int num - 1 \<ge> ext2fs_blocks_count (af_super fs)) in
      if wrap \<and> finish > start then Some (Inl EXT2_ET_BLOCK_ALLOC_FAIL)
      else
        let b = (if wrap then ucast (sb_first_data_block (af_super fs)) else b) in
        if (case ext2fs_test_block_bitmap_range2 (ae_block_ops e) (Some bm) b (of_int num) of Inl _ \<Rightarrow> True | Inr free \<Rightarrow> free)
        then Some (Inr b)
        else if b + c_ratio \<noteq> finish then free_blocks_loop e fs bm num c_ratio start finish (b + c_ratio)
        else Some (Inl EXT2_ET_BLOCK_ALLOC_FAIL))"

definition ext2fs_get_free_blocks2 ::
    "('p, 'q) alloc_env \<Rightarrow> ('p, 'q) alloc_fs \<Rightarrow> u64 \<Rightarrow> u64 \<Rightarrow> int \<Rightarrow> 'p gbmap option \<Rightarrow> (errcode + u64) option" where
  "ext2fs_get_free_blocks2 e fs start finish num bm =
     (case (if bm = None then af_block_map fs else bm) of
        None \<Rightarrow> Some (Inl EXT2_ET_NO_BLOCK_BITMAP)
      | Some m \<Rightarrow>
          let b = (if start = 0 then ucast (sb_first_data_block (af_super fs)) else start);
              finish = (if finish = 0 then start else finish);
              num = (if num = 0 then 1 else num);
              c_ratio = push_bit (ext2fs_get_bitmap_granularity m) 1;
              b = b AND NOT (c_ratio - 1);
              finish = finish AND NOT (c_ratio - 1)
          in free_blocks_loop e fs m num c_ratio start finish b)"

definition ext2fs_get_free_blocks ::
    "('p, 'q) alloc_env \<Rightarrow> ('p, 'q) alloc_fs \<Rightarrow> u32 \<Rightarrow> u32 \<Rightarrow> int \<Rightarrow> 'p gbmap option \<Rightarrow> (errcode + u32) option" where
  "ext2fs_get_free_blocks e fs start finish num bm =
     map_option (map_sum id ucast) (ext2fs_get_free_blocks2 e fs (ucast start) (ucast finish) num bm)"

definition EXT2_NEWRANGE_FIXED_GOAL :: u32 where "EXT2_NEWRANGE_FIXED_GOAL = 1"
definition EXT2_NEWRANGE_MIN_LENGTH :: u32 where "EXT2_NEWRANGE_MIN_LENGTH = 2"
definition EXT2_NEWRANGE_ALL_FLAGS :: u32 where "EXT2_NEWRANGE_ALL_FLAGS = 3"
definition EXT2_ALLOCRANGE_FIXED_GOAL :: u32 where "EXT2_ALLOCRANGE_FIXED_GOAL = 1"
definition EXT2_ALLOCRANGE_ZERO_BLOCKS :: u32 where "EXT2_ALLOCRANGE_ZERO_BLOCKS = 2"
definition EXT2_ALLOCRANGE_ALL_FLAGS :: u32 where "EXT2_ALLOCRANGE_ALL_FLAGS = 3"

text \<open>The result is the run from its start to the block after it.\<close>

partial_function (option) new_range_loop ::
    "('p, 'q) alloc_env \<Rightarrow> ('p, 'q) alloc_fs \<Rightarrow> 'p gbmap \<Rightarrow> u32 \<Rightarrow> u64 \<Rightarrow> u64 \<Rightarrow> bool \<Rightarrow> u64 \<Rightarrow> (errcode + u64 \<times> u64) option" where
  "new_range_loop e fs bm flags goal len looped start =
     (let max_blocks = ext2fs_blocks_count (af_super fs);
          first = ucast (sb_first_data_block (af_super fs));
          fixed = (flags AND EXT2_NEWRANGE_FIXED_GOAL \<noteq> 0)
      in if looped \<and> \<not> start \<le> goal then Some (Inl EXT2_ET_BLOCK_ALLOC_FAIL)
      else do {
        r \<leftarrow> ext2fs_find_first_zero_generic_bmap (ae_block_ops e) (Some bm) start (max_blocks - 1);
        case r of
          Inl err \<Rightarrow>
            if err = ENOENT
            then if fixed \<or> start = first then Some (Inl EXT2_ET_BLOCK_ALLOC_FAIL)
                 else new_range_loop e fs bm flags goal len looped first
            else Some (Inl err)
        | Inr start \<Rightarrow>
            if fixed \<and> start \<noteq> goal then Some (Inl EXT2_ET_BLOCK_ALLOC_FAIL)
            else
              let b = min (start + len - 1) (max_blocks - 1) in
              do {
                s \<leftarrow> ext2fs_find_first_set_generic_bmap (ae_block_ops e) (Some bm) start b;
                case (case s of Inl err \<Rightarrow> if err = ENOENT then Inr (b + 1) else Inl err | Inr en \<Rightarrow> Inr en) of
                  Inl err \<Rightarrow> Some (Inl err)
                | Inr en \<Rightarrow>
                    if flags AND EXT2_NEWRANGE_MIN_LENGTH = 0 \<or> en - start \<ge> len then Some (Inr (start, en))
                    else if fixed then Some (Inl EXT2_ET_BLOCK_ALLOC_FAIL)
                    else if en \<ge> max_blocks
                    then if looped then Some (Inl EXT2_ET_BLOCK_ALLOC_FAIL)
                         else new_range_loop e fs bm flags goal len True first
                    else new_range_loop e fs bm flags goal len looped en } })"

partial_function (option) clear_uninit_loop ::
    "('p, 'q) alloc_env \<Rightarrow> ('p, 'q) alloc_fs \<Rightarrow> u64 \<Rightarrow> u64 \<Rightarrow> ('p, 'q) alloc_fs option" where
  "clear_uninit_loop e fs b en =
     (if b < en
      then clear_uninit_loop e (ext2fs_clear_block_uninit e fs (ext2fs_group_of_blk2 fs b))
             (b + ucast (sb_blocks_per_group (af_super fs))) en
      else Some fs)"

text \<open>The result is the first block of the run and its length.\<close>

definition ext2fs_new_range ::
    "('p, 'q) alloc_env \<Rightarrow> ('p, 'q) alloc_fs \<Rightarrow> u32 \<Rightarrow> u64 \<Rightarrow> u64 \<Rightarrow> 'p gbmap option \<Rightarrow>
     ((errcode + u64 \<times> u64) \<times> ('p, 'q) alloc_fs) option" where
  "ext2fs_new_range e fs flags goal len bm =
     (if len = 0 \<or> flags AND NOT EXT2_NEWRANGE_ALL_FLAGS \<noteq> 0 then Some (Inl EXT2_ET_INVALID_ARGUMENT, fs)
      else if bm = None \<and> ae_new_range e \<noteq> None
      then (case the (ae_new_range e) flags goal len fs of
              (Inl err, fs) \<Rightarrow> Some (Inl err, fs)
            | (Inr (pblk, plen), fs) \<Rightarrow>
                map_option (Pair (Inr (pblk, plen))) (clear_uninit_loop e fs pblk (pblk + plen)))
      else
        (case (if bm = None then af_block_map fs else bm) of
           None \<Rightarrow> Some (Inl EXT2_ET_NO_BLOCK_BITMAP, fs)
         | Some m \<Rightarrow>
             let goal = (if goal = 0 \<or> goal \<ge> ext2fs_blocks_count (af_super fs)
                         then ucast (sb_first_data_block (af_super fs)) else goal)
             in do {
               r \<leftarrow> new_range_loop e fs m flags goal len False goal;
               case r of
                 Inl err \<Rightarrow> Some (Inl err, fs)
               | Inr (start, en) \<Rightarrow> map_option (Pair (Inr (start, en - start))) (clear_uninit_loop e fs start en) }))"

definition ext2fs_alloc_range ::
    "('p, 'q) alloc_env \<Rightarrow> ('p, 'q) alloc_fs \<Rightarrow> u32 \<Rightarrow> u64 \<Rightarrow> u32 \<Rightarrow> ((errcode + u64) \<times> ('p, 'q) alloc_fs) option" where
  "ext2fs_alloc_range e fs flags goal len =
     (if len = 0 \<or> flags AND NOT EXT2_ALLOCRANGE_ALL_FLAGS \<noteq> 0 then Some (Inl EXT2_ET_INVALID_ARGUMENT, fs)
      else
        let newr_flags = EXT2_NEWRANGE_MIN_LENGTH
              OR (if flags AND EXT2_ALLOCRANGE_FIXED_GOAL \<noteq> 0 then EXT2_NEWRANGE_FIXED_GOAL else 0)
        in do {
          (r, fs) \<leftarrow> ext2fs_new_range e fs newr_flags goal (ucast len) None;
          case r of
            Inl err \<Rightarrow> Some (Inl err, fs)
          | Inr (pblk, plen) \<Rightarrow>
              if plen < ucast len then Some (Inl EXT2_ET_BLOCK_ALLOC_FAIL, fs)
              else
                (case (if flags AND EXT2_ALLOCRANGE_ZERO_BLOCKS \<noteq> 0 then ext2fs_zero_blocks2 e fs pblk len else (None, fs)) of
                   (Some err, fs) \<Rightarrow> Some (Inl err, fs)
                 | (None, fs) \<Rightarrow> map_option (Pair (Inr pblk)) (ext2fs_block_alloc_stats_range e fs pblk len 1)) })"

section \<open>Where to look, and what an inode uses\<close>

definition LINUX_S_ISLNK :: "u16 \<Rightarrow> bool" where
  "LINUX_S_ISLNK m = (m AND 0xF000 = 0xA000)"

definition EXT2_I_SIZE :: "ext2_inode \<Rightarrow> u64" where
  "EXT2_I_SIZE inode = ucast (i_size inode) OR push_bit 32 (ucast (i_size_high inode))"

definition ext2fs_is_fast_symlink :: "ext2_inode \<Rightarrow> bool" where
  "ext2fs_is_fast_symlink inode = (LINUX_S_ISLNK (i_mode inode) \<and> EXT2_I_SIZE inode \<noteq> 0 \<and> EXT2_I_SIZE inode < 60)"

text \<open>\<open>extents\<close> is the branch for a file with extents, nothing when one of its calls fails.\<close>

definition ext2fs_find_inode_goal ::
    "(u32 \<Rightarrow> ext2_inode \<Rightarrow> u64 \<Rightarrow> u64 option) \<Rightarrow> ('p, 'q) alloc_fs \<Rightarrow> u32 \<Rightarrow> ext2_inode option \<Rightarrow> u64 \<Rightarrow> u64" where
  "ext2fs_find_inode_goal extents fs ino inode lblk =
     (let log_flex = sb_log_groups_per_flex (af_super fs);
          g = ext2fs_group_of_ino fs ino;
          g = (if log_flex \<noteq> 0 then g AND NOT (push_bit (unat log_flex) 1 - 1) else g);
          no_blocks = ext2fs_group_first_block2 fs g
      in case inode of
           None \<Rightarrow> no_blocks
         | Some i \<Rightarrow>
             if ext2fs_is_fast_symlink i \<or> i_flags i AND EXT4_INLINE_DATA_FL \<noteq> 0 then no_blocks
             else if i_flags i AND EXT4_EXTENTS_FL \<noteq> 0
             then (case extents ino i lblk of Some blk \<Rightarrow> blk | None \<Rightarrow> no_blocks)
             else if i_block i ! 0 \<noteq> 0 then ucast (i_block i ! 0) else no_blocks)"

definition iblk_units :: "('p, 'q) alloc_env \<Rightarrow> ('p, 'q) alloc_fs \<Rightarrow> ext2_inode \<Rightarrow> u64 \<Rightarrow> u64" where
  "iblk_units e fs inode n =
     (if \<not> ext2fs_has_feature_huge_file (af_super fs) \<or> i_flags inode AND EXT4_HUGE_FILE_FL = 0
      then n * of_nat (fe_blocksize (ae_fs e) div 512) else n) * EXT2FS_CLUSTER_RATIO e"

definition iblk_count :: "('p, 'q) alloc_fs \<Rightarrow> ext2_inode \<Rightarrow> u64" where
  "iblk_count fs inode =
     ucast (i_blocks inode) + (if ext2fs_has_feature_huge_file (af_super fs) then push_bit 32 (ucast (l_i_blocks_hi inode)) else 0)"

text \<open>The inode, also where there is an error.\<close>

definition ext2fs_iblk_add_blocks ::
    "('p, 'q) alloc_env \<Rightarrow> ('p, 'q) alloc_fs \<Rightarrow> ext2_inode \<Rightarrow> u64 \<Rightarrow> errcode option \<times> ext2_inode" where
  "ext2fs_iblk_add_blocks e fs inode num_blocks =
     (let b = iblk_count fs inode + iblk_units e fs inode num_blocks in
      if ext2fs_has_feature_huge_file (af_super fs)
      then (None, inode\<lparr>l_i_blocks_hi := ucast (drop_bit 32 b), i_blocks := ucast b\<rparr>)
      else if b > 0xFFFFFFFF then (Some EOVERFLOW, inode)
      else (None, inode\<lparr>i_blocks := ucast b\<rparr>))"

definition ext2fs_iblk_sub_blocks ::
    "('p, 'q) alloc_env \<Rightarrow> ('p, 'q) alloc_fs \<Rightarrow> ext2_inode \<Rightarrow> u64 \<Rightarrow> errcode option \<times> ext2_inode" where
  "ext2fs_iblk_sub_blocks e fs inode num_blocks =
     (let b = iblk_count fs inode; n = iblk_units e fs inode num_blocks in
      if n > b then (Some EOVERFLOW, inode)
      else if ext2fs_has_feature_huge_file (af_super fs)
      then (None, inode\<lparr>l_i_blocks_hi := ucast (drop_bit 32 (b - n)), i_blocks := ucast (b - n)\<rparr>)
      else (None, inode\<lparr>i_blocks := ucast (b - n)\<rparr>))"

definition ext2fs_iblk_set ::
    "('p, 'q) alloc_env \<Rightarrow> ('p, 'q) alloc_fs \<Rightarrow> ext2_inode \<Rightarrow> u64 \<Rightarrow> errcode option \<times> ext2_inode" where
  "ext2fs_iblk_set e fs inode n =
     (let b = iblk_units e fs inode n; inode = inode\<lparr>i_blocks := ucast b\<rparr> in
      if ext2fs_has_feature_huge_file (af_super fs) then (None, inode\<lparr>l_i_blocks_hi := ucast (drop_bit 32 b)\<rparr>)
      else if drop_bit 32 b \<noteq> 0 then (Some EOVERFLOW, inode)
      else (None, inode))"

text \<open>The blocks of an inode: without its attribute block, in all, and in units of 512 bytes.\<close>

definition EXT2_CLUSTER_SIZE :: "alloc_super \<Rightarrow> u64" where
  "EXT2_CLUSTER_SIZE sb = push_bit (unat (sb_log_cluster_size sb)) 1024"

definition ext2fs_inode_i_blocks :: "('p, 'q) alloc_fs \<Rightarrow> ext2_inode \<Rightarrow> u64" where
  "ext2fs_inode_i_blocks fs inode =
     ucast (i_blocks inode) OR (if ext2fs_has_feature_huge_file (af_super fs) then push_bit 32 (ucast (l_i_blocks_hi inode)) else 0)"

definition ext2fs_inode_data_blocks2 :: "('p, 'q) alloc_fs \<Rightarrow> ext2_inode \<Rightarrow> u64" where
  "ext2fs_inode_data_blocks2 fs inode =
     (ucast (i_blocks inode) OR (if ext2fs_has_feature_huge_file (af_super fs) then push_bit 32 (ucast (l_i_blocks_hi inode)) else 0))
     - (if i_file_acl inode \<noteq> 0 then drop_bit 9 (EXT2_CLUSTER_SIZE (af_super fs)) else 0)"

definition ext2fs_get_stat_i_blocks :: "('p, 'q) alloc_env \<Rightarrow> ('p, 'q) alloc_fs \<Rightarrow> ext2_inode \<Rightarrow> u64" where
  "ext2fs_get_stat_i_blocks e fs inode =
     (if ext2fs_has_feature_huge_file (af_super fs)
      then let ret = ucast (i_blocks inode) + push_bit 32 (ucast (l_i_blocks_hi inode))
           in if i_flags inode AND EXT4_HUGE_FILE_FL \<noteq> 0 then ret * of_nat (fe_blocksize (ae_fs e) div 512) else ret
      else ucast (i_blocks inode))"

definition ext2fs_file_acl_block :: "('p, 'q) alloc_fs \<Rightarrow> ext2_inode \<Rightarrow> u64" where
  "ext2fs_file_acl_block fs inode =
     ucast (i_file_acl inode) OR (if ext2fs_has_feature_64bit (af_super fs) then push_bit 32 (ucast (l_i_file_acl_high inode)) else 0)"

definition ext2fs_file_acl_block_set :: "('p, 'q) alloc_fs \<Rightarrow> ext2_inode \<Rightarrow> u64 \<Rightarrow> ext2_inode" where
  "ext2fs_file_acl_block_set fs inode blk =
     (let inode = inode\<lparr>i_file_acl := ucast blk\<rparr>
      in if ext2fs_has_feature_64bit (af_super fs) then inode\<lparr>l_i_file_acl_high := ucast (drop_bit 32 blk)\<rparr> else inode)"

text \<open>The size of an inode; a large file sets a feature of the file system.\<close>

definition LINUX_S_ISREG :: "u16 \<Rightarrow> bool" where
  "LINUX_S_ISREG m = (m AND 0xF000 = 0x8000)"

definition ext2fs_update_dynamic_rev :: "('p, 'q) alloc_fs \<Rightarrow> ('p, 'q) alloc_fs" where
  "ext2fs_update_dynamic_rev fs =
     (if sb_rev_level (af_super fs) > 0 then fs
      else fs\<lparr>af_super := (af_super fs)\<lparr>sb_rev_level := 1, sb_first_ino := 11, sb_inode_size := 128\<rparr>\<rparr>)"

definition ext2fs_needs_large_file_feature :: "u64 \<Rightarrow> bool" where
  "ext2fs_needs_large_file_feature sz = (sz \<ge> 0x80000000)"

definition ext2fs_inode_size_set ::
    "('p, 'q) alloc_fs \<Rightarrow> ext2_inode \<Rightarrow> u64 \<Rightarrow> errcode option \<times> ('p, 'q) alloc_fs \<times> ext2_inode" where
  "ext2fs_inode_size_set fs inode sz =
     (if sint sz < 0 then (Some EINVAL, fs, inode)
      else if \<not> LINUX_S_ISREG (i_mode inode) \<and> drop_bit 32 sz \<noteq> 0 then (Some EXT2_ET_FILE_TOO_BIG, fs, inode)
      else
        let fs = (if LINUX_S_ISREG (i_mode inode) \<and> ext2fs_needs_large_file_feature sz
                    \<and> (sb_feature_ro_compat (af_super fs) AND EXT2_FEATURE_RO_COMPAT_LARGE_FILE = 0 \<or> sb_rev_level (af_super fs) = 0)
                  then let fs = fs\<lparr>af_super := (af_super fs)\<lparr>sb_feature_ro_compat :=
                             sb_feature_ro_compat (af_super fs) OR EXT2_FEATURE_RO_COMPAT_LARGE_FILE\<rparr>\<rparr>
                       in ext2fs_mark_super_dirty (ext2fs_update_dynamic_rev fs)
                  else fs)
        in (None, fs, inode\<lparr>i_size := ucast sz, i_size_high := ucast (drop_bit 32 sz)\<rparr>))"

end
