(* ===== verification/Alloc_Counts.thy ===== *)
theory Alloc_Counts
  imports Alloc Gen_Bitmap_Props
begin

text \<open>
  The invariant of the allocation of blocks: the bitmap covers the file system, and the counts of free
  blocks in the group descriptors and in the superblock are the numbers of free clusters, as far as the
  fields are wide enough.  Marking a free block as used, and a used one as free, keeps it.
\<close>

section \<open>The invariant\<close>

definition fs_first :: "('p, 'q) alloc_fs \<Rightarrow> u64" where
  "fs_first fs = ucast (sb_first_data_block (af_super fs))"

definition fs_count :: "('p, 'q) alloc_fs \<Rightarrow> u64" where
  "fs_count fs = ext2fs_blocks_count (af_super fs)"

text \<open>The bitmap is as \<open>ext2fs_allocate_block_bitmap\<close> makes it; groups and clusters fit together.\<close>

definition covers :: "('p, 'q) alloc_env \<Rightarrow> ('p, 'q) alloc_fs \<Rightarrow> 'p bmap64 \<Rightarrow> bool" where
  "covers e fs b \<longleftrightarrow> bm_cluster_bits b = ae_cluster_ratio_bits e \<and> bm_cluster_bits b < 31
     \<and> bm_start b = cluster_no b (fs_first fs) \<and> bm_end b = cluster_no b (fs_count fs - 1) \<and> bm_end b \<noteq> - 1
     \<and> fs_first fs < fs_count fs"

definition groups_ok :: "('p, 'q) alloc_env \<Rightarrow> ('p, 'q) alloc_fs \<Rightarrow> bool" where
  "groups_ok e fs \<longleftrightarrow> 2 ^ ae_cluster_ratio_bits e dvd unat (fs_first fs)
     \<and> 2 ^ ae_cluster_ratio_bits e dvd unat (sb_blocks_per_group (af_super fs)) \<and> 0 < sb_blocks_per_group (af_super fs)
     \<and> unat (fs_count fs) - unat (fs_first fs) \<le> length (af_groups fs) * unat (sb_blocks_per_group (af_super fs))
     \<and> length (af_groups fs) < 2 ^ 32"

definition wf_alloc :: "('p bmap64 \<Rightarrow> bool) \<Rightarrow> ('p, 'q) alloc_env \<Rightarrow> ('p, 'q) alloc_fs \<Rightarrow> bool" where
  "wf_alloc good e fs \<longleftrightarrow> groups_ok e fs \<and> (\<exists>b. af_block_map fs = Some (GB64 b) \<and> bmap_ready good b \<and> covers e fs b)"

text \<open>The blocks of the file system, those in use, and the free ones.\<close>

definition fs_blocks :: "('p, 'q) alloc_fs \<Rightarrow> u64 set" where
  "fs_blocks fs = {x. fs_first fs \<le> x \<and> x < fs_count fs}"

definition used_blocks :: "('p bmap64 \<Rightarrow> u64 set) \<Rightarrow> ('p, 'q) alloc_fs \<Rightarrow> u64 set" where
  "used_blocks bits fs = (case af_block_map fs of Some (GB64 b) \<Rightarrow> block_set bits b | _ \<Rightarrow> {})"

definition free_blocks :: "('p bmap64 \<Rightarrow> u64 set) \<Rightarrow> ('p, 'q) alloc_fs \<Rightarrow> u64 set" where
  "free_blocks bits fs = fs_blocks fs - used_blocks bits fs"

text \<open>The blocks of the cluster of a block.\<close>

definition fs_cluster :: "('p, 'q) alloc_env \<Rightarrow> u64 \<Rightarrow> u64" where
  "fs_cluster e x = drop_bit (ae_cluster_ratio_bits e) x"

definition cluster_blocks :: "('p, 'q) alloc_env \<Rightarrow> u64 \<Rightarrow> u64 set" where
  "cluster_blocks e x = {y. fs_cluster e y = fs_cluster e x}"

definition group_free :: "('p bmap64 \<Rightarrow> u64 set) \<Rightarrow> ('p, 'q) alloc_env \<Rightarrow> ('p, 'q) alloc_fs \<Rightarrow> u32 \<Rightarrow> u64 set" where
  "group_free bits e fs g = fs_cluster e ` {x \<in> free_blocks bits fs. ext2fs_group_of_blk2 fs x = g}"

text \<open>The width of the counts.\<close>

definition group_width :: "('p, 'q) alloc_fs \<Rightarrow> nat" where
  "group_width fs = (if ext2fs_has_feature_64bit (af_super fs) then 32 else 16)"

definition super_width :: "('p, 'q) alloc_fs \<Rightarrow> nat" where
  "super_width fs = (if ext2fs_has_feature_64bit (af_super fs) then 64 else 32)"

definition counts_ok :: "('p bmap64 \<Rightarrow> u64 set) \<Rightarrow> ('p, 'q) alloc_env \<Rightarrow> ('p, 'q) alloc_fs \<Rightarrow> bool" where
  "counts_ok bits e fs \<longleftrightarrow>
     (\<forall>g. unat g < length (af_groups fs) \<longrightarrow>
        ext2fs_bg_free_blocks_count fs g = take_bit (group_width fs) (of_nat (card (group_free bits e fs g))))
     \<and> ext2fs_free_blocks_count (af_super fs)
         = take_bit (super_width fs) (of_nat (2 ^ ae_cluster_ratio_bits e * card (fs_cluster e ` free_blocks bits fs)))"

section \<open>Counts and fields\<close>

lemma join_halves16: "take_bit 16 n OR push_bit 16 (take_bit 16 (drop_bit 16 n)) = (n :: u32)"
  by (rule bit_word_eqI) (auto simp: bit_simps)

lemma join_halves32: "take_bit 32 n OR push_bit 32 (take_bit 32 (drop_bit 32 n)) = (n :: u64)"
  by (rule bit_word_eqI) (auto simp: bit_simps)

lemma ucast_halves: "ucast (ucast n :: u16) = take_bit 16 (n :: u32)" "ucast (ucast m :: u32) = take_bit 32 (m :: u64)"
  by (auto intro!: bit_word_eqI simp: bit_simps)

lemma take_bit_minus: "take_bit n (take_bit n a - b) = take_bit n (a - b)" for a b :: "'a::len word"
  by transfer (simp add: take_bit_eq_mod mod_simps)

lemma take_bit_plus: "take_bit n (take_bit n a + b) = take_bit n (a + b)" for a b :: "'a::len word"
  by transfer (simp add: take_bit_eq_mod mod_simps)

lemma take_bit_full32: "take_bit 32 a = a" for a :: u32
  by (rule bit_word_eqI) (auto simp: bit_simps)

lemma take_bit_full64: "take_bit 64 a = a" for a :: u64
  by (rule bit_word_eqI) (auto simp: bit_simps)

text \<open>Setting a count, in a descriptor and in the superblock.\<close>

lemma update_desc_fields [simp]:
  "af_super (update_desc f fs g) = af_super fs" "af_block_map (update_desc f fs g) = af_block_map fs"
  "af_inode_map (update_desc f fs g) = af_inode_map fs" "af_io (update_desc f fs g) = af_io fs"
  "af_stride (update_desc f fs g) = af_stride fs" "length (af_groups (update_desc f fs g)) = length (af_groups fs)"
  by (simp_all add: update_desc_def)

lemma group_desc_update:
  "unat g < length (af_groups fs) \<Longrightarrow> group_desc (update_desc f fs g) h = (if h = g then f (group_desc fs g) else group_desc fs h)"
  by (auto simp: group_desc_def update_desc_def nth_list_update word_unat_eq_iff)

lemma free_blocks_count_set:
  "ext2fs_free_blocks_count (ext2fs_free_blocks_count_set sb n) = (if ext2fs_has_feature_64bit sb then n else take_bit 32 n)"
  by (simp add: ext2fs_free_blocks_count_def ext2fs_free_blocks_count_set_def Let_def ext2fs_has_feature_64bit_def
      join_halves32 ucast_halves)

text \<open>What the operations on descriptors and flags leave alone.\<close>

definition same_layout :: "('p, 'q) alloc_fs \<Rightarrow> ('p, 'q) alloc_fs \<Rightarrow> bool" where
  "same_layout fs' fs \<longleftrightarrow> fs_first fs' = fs_first fs \<and> fs_count fs' = fs_count fs
     \<and> sb_blocks_per_group (af_super fs') = sb_blocks_per_group (af_super fs)
     \<and> ext2fs_has_feature_64bit (af_super fs') = ext2fs_has_feature_64bit (af_super fs)
     \<and> length (af_groups fs') = length (af_groups fs)"

lemma same_layout_refl [simp]: "same_layout fs fs"
  by (simp add: same_layout_def)

lemma same_layout_trans: "same_layout fs2 fs1 \<Longrightarrow> same_layout fs1 fs \<Longrightarrow> same_layout fs2 fs"
  by (simp add: same_layout_def)

lemma same_layout_facts:
  assumes "same_layout fs' fs"
  shows "fs_blocks fs' = fs_blocks fs" "ext2fs_group_of_blk2 fs' = ext2fs_group_of_blk2 fs" "group_width fs' = group_width fs"
    "super_width fs' = super_width fs" "groups_ok e fs' = groups_ok e fs" "covers e fs' b = covers e fs b"
  using assms
  by (auto simp: same_layout_def fs_blocks_def ext2fs_group_of_blk2_def fs_first_def fs_count_def group_width_def super_width_def
      groups_ok_def covers_def fun_eq_iff)


text \<open>Counting down and up when a cluster leaves or joins the free ones.\<close>

lemma bg_free_set:
  assumes "unat g < length (af_groups fs)"
  shows "ext2fs_bg_free_blocks_count (ext2fs_bg_free_blocks_count_set fs g n) h =
     (if h = g then take_bit (group_width fs) n else ext2fs_bg_free_blocks_count fs h)"
proof -
  have "ext2fs_bg_free_blocks_count (ext2fs_bg_free_blocks_count_set fs g n) g = take_bit (group_width fs) n"
    by (simp add: ext2fs_bg_free_blocks_count_def ext2fs_bg_free_blocks_count_set_def group_desc_update [OF assms]
        Let_def bg_count_def group_width_def ucast_halves join_halves16 take_bit_full32)
  moreover have "ext2fs_bg_free_blocks_count (ext2fs_bg_free_blocks_count_set fs g n) h = ext2fs_bg_free_blocks_count fs h" if "h \<noteq> g"
    using that by (simp add: ext2fs_bg_free_blocks_count_def ext2fs_bg_free_blocks_count_set_def group_desc_update [OF assms] bg_count_def)
  ultimately show ?thesis by simp
qed

lemma super_free_set:
  "ext2fs_free_blocks_count (ext2fs_free_blocks_count_set (af_super fs) n) = take_bit (super_width fs) n"
  by (simp add: free_blocks_count_set super_width_def take_bit_full64)

text \<open>The steps of \<open>ext2fs_block_alloc_stats2\<close> after the bitmap.\<close>

definition count_step :: "('p, 'q) alloc_env \<Rightarrow> ('p, 'q) alloc_fs \<Rightarrow> u32 \<Rightarrow> u32 \<Rightarrow> u64 \<Rightarrow> ('p, 'q) alloc_fs" where
  "count_step e fs g n m =
     (let fs = ext2fs_bg_free_blocks_count_set fs g n;
          fs = ext2fs_bg_flags_clear fs g EXT2_BG_BLOCK_UNINIT;
          fs = ext2fs_group_desc_csum_set e fs g
      in fs\<lparr>af_super := ext2fs_free_blocks_count_add (af_super fs) m\<rparr>)"

lemma desc_updates:
  assumes "unat g < length (af_groups fs)"
  shows "ext2fs_bg_free_blocks_count (ext2fs_bg_flags_clear fs g fl) h = ext2fs_bg_free_blocks_count fs h"
    and "ext2fs_bg_free_blocks_count (ext2fs_group_desc_csum_set e fs g) h = ext2fs_bg_free_blocks_count fs h"
    and "af_super (ext2fs_bg_flags_clear fs g fl) = af_super fs" "af_super (ext2fs_group_desc_csum_set e fs g) = af_super fs"
    and "af_super (ext2fs_bg_free_blocks_count_set fs g n) = af_super fs"
    and "length (af_groups (ext2fs_bg_flags_clear fs g fl)) = length (af_groups fs)"
    and "length (af_groups (ext2fs_group_desc_csum_set e fs g)) = length (af_groups fs)"
    and "length (af_groups (ext2fs_bg_free_blocks_count_set fs g n)) = length (af_groups fs)"
    and "af_block_map (ext2fs_bg_flags_clear fs g fl) = af_block_map fs"
    and "af_block_map (ext2fs_group_desc_csum_set e fs g) = af_block_map fs"
    and "af_block_map (ext2fs_bg_free_blocks_count_set fs g n) = af_block_map fs"
    and "af_io (ext2fs_bg_flags_clear fs g fl) = af_io fs" "af_io (ext2fs_group_desc_csum_set e fs g) = af_io fs"
    and "af_io (ext2fs_bg_free_blocks_count_set fs g n) = af_io fs"
    and "af_stride (ext2fs_bg_flags_clear fs g fl) = af_stride fs" "af_stride (ext2fs_group_desc_csum_set e fs g) = af_stride fs"
    and "af_stride (ext2fs_bg_free_blocks_count_set fs g n) = af_stride fs"
  using assms
  by (simp_all add: ext2fs_bg_flags_clear_def ext2fs_group_desc_csum_set_def ext2fs_bg_checksum_set_def
      ext2fs_bg_free_blocks_count_def group_desc_update bg_count_def ext2fs_bg_free_blocks_count_set_def)

lemma free_add_fields:
  "fs_first (fs\<lparr>af_super := ext2fs_free_blocks_count_add (af_super fs) m\<rparr>) = fs_first fs"
  "fs_count (fs\<lparr>af_super := ext2fs_free_blocks_count_add (af_super fs) m\<rparr>) = fs_count fs"
  "sb_blocks_per_group (ext2fs_free_blocks_count_add sb m) = sb_blocks_per_group sb"
  "ext2fs_has_feature_64bit (ext2fs_free_blocks_count_add sb m) = ext2fs_has_feature_64bit sb"
  by (simp_all add: fs_first_def fs_count_def ext2fs_free_blocks_count_add_def ext2fs_free_blocks_count_set_def Let_def
      ext2fs_blocks_count_def ext2fs_has_feature_64bit_def)

lemma count_step_effect:
  assumes g: "unat g < length (af_groups fs)"
  shows "same_layout (count_step e fs g n m) fs" "af_block_map (count_step e fs g n m) = af_block_map fs"
    "af_io (count_step e fs g n m) = af_io fs" "af_stride (count_step e fs g n m) = af_stride fs"
    "ext2fs_bg_free_blocks_count (count_step e fs g n m) h = (if h = g then take_bit (group_width fs) n else ext2fs_bg_free_blocks_count fs h)"
    "ext2fs_free_blocks_count (af_super (count_step e fs g n m)) = take_bit (super_width fs) (ext2fs_free_blocks_count (af_super fs) + m)"
proof -
  let ?fs = "ext2fs_group_desc_csum_set e (ext2fs_bg_flags_clear (ext2fs_bg_free_blocks_count_set fs g n) g EXT2_BG_BLOCK_UNINIT) g"
  have l: "unat g < length (af_groups (ext2fs_bg_free_blocks_count_set fs g n))"
    "unat g < length (af_groups (ext2fs_bg_flags_clear (ext2fs_bg_free_blocks_count_set fs g n) g EXT2_BG_BLOCK_UNINIT))"
    using g by (simp_all add: desc_updates [OF g] desc_updates)
  note d = desc_updates [OF l(2)] desc_updates [OF l(1)] desc_updates [OF g]
  have c: "count_step e fs g n m = ?fs\<lparr>af_super := ext2fs_free_blocks_count_add (af_super ?fs) m\<rparr>"
    by (simp add: count_step_def Let_def)
  show "af_block_map (count_step e fs g n m) = af_block_map fs" "af_io (count_step e fs g n m) = af_io fs"
    "af_stride (count_step e fs g n m) = af_stride fs"
    unfolding c by (simp_all add: d)
  show "same_layout (count_step e fs g n m) fs"
    unfolding c same_layout_def free_add_fields by (simp add: d free_add_fields fs_first_def fs_count_def)
  show "ext2fs_free_blocks_count (af_super (count_step e fs g n m)) = take_bit (super_width fs) (ext2fs_free_blocks_count (af_super fs) + m)"
    unfolding c by (simp add: d ext2fs_free_blocks_count_add_def super_free_set)
  have "ext2fs_bg_free_blocks_count (?fs\<lparr>af_super := ext2fs_free_blocks_count_add (af_super ?fs) m\<rparr>) h = ext2fs_bg_free_blocks_count ?fs h"
    by (simp add: ext2fs_bg_free_blocks_count_def group_desc_def bg_count_def free_add_fields)
  then show "ext2fs_bg_free_blocks_count (count_step e fs g n m) h =
      (if h = g then take_bit (group_width fs) n else ext2fs_bg_free_blocks_count fs h)"
    unfolding c by (simp add: d bg_free_set [OF g])
qed


section \<open>Blocks, clusters and groups\<close>

lemma unat_fs_cluster: "unat (fs_cluster e x) = unat x div 2 ^ ae_cluster_ratio_bits e"
  unfolding fs_cluster_def unat_drop_bit_eq by (rule drop_bit_eq_div)

lemma fs_cluster_mono: "x \<le> y \<Longrightarrow> fs_cluster e x \<le> fs_cluster e y"
  by (simp add: word_le_nat_alt unat_fs_cluster div_le_mono)

lemma covers_cluster: "covers e fs b \<Longrightarrow> cluster_no b = fs_cluster e"
  by (simp add: covers_def fs_cluster_def cluster_no_def fun_eq_iff)

lemma covers_mates: "covers e fs b \<Longrightarrow> cluster_mates b x = cluster_blocks e x"
  by (simp add: covers_cluster cluster_mates_def cluster_blocks_def)

lemma fs_block_inside:
  assumes "covers e fs b" "x \<in> fs_blocks fs" shows "\<not> outside64 b (cluster_no b x)"
proof -
  have "fs_count fs \<noteq> 0" using assms(1) by (auto simp: covers_def)
  then have "x \<le> fs_count fs - 1" using assms(2) by (auto simp: fs_blocks_def word_le_nat_alt word_less_nat_alt unat_minus_one)
  then show ?thesis
    using assms by (auto simp: outside64_def covers_def fs_blocks_def not_less cluster_mono)
qed

lemma group_number:
  assumes "groups_ok e fs" "x \<in> fs_blocks fs"
  shows "unat (ext2fs_group_of_blk2 fs x) = (unat x - unat (fs_first fs)) div unat (sb_blocks_per_group (af_super fs))"
    and "unat (ext2fs_group_of_blk2 fs x) < length (af_groups fs)"
proof -
  let ?b = "unat (sb_blocks_per_group (af_super fs))" and ?d = "(unat x - unat (fs_first fs))"
  have le: "fs_first fs \<le> x" "x < fs_count fs" using assms(2) by (simp_all add: fs_blocks_def)
  then have "?d < unat (fs_count fs) - unat (fs_first fs)"
    by (simp add: word_le_nat_alt word_less_nat_alt diff_less_mono)
  also have "\<dots> \<le> length (af_groups fs) * ?b" using assms(1) by (simp add: groups_ok_def)
  finally have l: "?d div ?b < length (af_groups fs)" by (simp add: less_mult_imp_div_less)
  also have "\<dots> < 2 ^ 32" using assms(1) by (simp add: groups_ok_def)
  finally have s: "?d div ?b < 2 ^ 32" .
  have "unat ((x - fs_first fs) div ucast (sb_blocks_per_group (af_super fs)) :: u64) = ?d div ?b"
    using unat_sub [OF le(1)] by (simp add: unat_div unat_ucast_32_64)
  then show u: "unat (ext2fs_group_of_blk2 fs x) = ?d div ?b"
    using s by (simp add: ext2fs_group_of_blk2_def fs_first_def [symmetric] unsigned_ucast_eq take_bit_nat_eq_self)
  show "unat (ext2fs_group_of_blk2 fs x) < length (af_groups fs)" using l u by simp
qed

lemma group_of_mates:
  assumes "groups_ok e fs" "x \<in> fs_blocks fs" "y \<in> fs_blocks fs" "fs_cluster e x = fs_cluster e y"
  shows "ext2fs_group_of_blk2 fs x = ext2fs_group_of_blk2 fs y"
proof -
  let ?R = "2 ^ ae_cluster_ratio_bits e :: nat"
  obtain f c where f: "unat (fs_first fs) = ?R * f" "unat (sb_blocks_per_group (af_super fs)) = ?R * c"
    using assms(1) by (auto simp: groups_ok_def elim!: dvdE)
  have "(unat z - ?R * f) div (?R * c) = (unat z div ?R - f) div c" if "z \<in> fs_blocks fs" for z
  proof -
    have "?R * f \<le> unat z" using that f(1) by (simp add: fs_blocks_def word_le_nat_alt)
    then obtain d where "unat z = ?R * f + d" using le_Suc_ex by blast
    then show ?thesis by (simp add: div_mult2_eq)
  qed
  moreover have "unat x div ?R = unat y div ?R"
    using arg_cong [OF assms(4), of unat] by (simp add: unat_fs_cluster)
  ultimately have "unat (ext2fs_group_of_blk2 fs x) = unat (ext2fs_group_of_blk2 fs y)"
    using assms(2,3) by (simp add: group_number [OF assms(1)] f)
  then show ?thesis by (simp add: word_unat_eq_iff)
qed

lemma image_remove: "f ` {y \<in> A - {y. f y = c}. P y} = f ` {y \<in> A. P y} - {c}"
  and image_remove_all: "f ` (A - {y. f y = c}) = f ` A - {c}"
  by auto

lemma not_in_other_group:
  assumes "groups_ok e fs" "x \<in> fs_blocks fs" "g \<noteq> ext2fs_group_of_blk2 fs x"
  shows "fs_cluster e x \<notin> group_free bits e fs g"
proof
  assume "fs_cluster e x \<in> group_free bits e fs g"
  then obtain y where y: "y \<in> fs_blocks fs" "ext2fs_group_of_blk2 fs y = g" "fs_cluster e x = fs_cluster e y"
    unfolding group_free_def free_blocks_def by blast
  from group_of_mates [OF assms(1,2) y(1,3)] y(2) assms(3) show False by simp
qed

text \<open>What leaves and what joins the free clusters.\<close>

lemma free_after_mark:
  assumes "groups_ok e fs" "x \<in> free_blocks bits fs" "same_layout fs' fs" "used_blocks bits fs' = used_blocks bits fs \<union> cluster_blocks e x"
  shows "free_blocks bits fs' = free_blocks bits fs - cluster_blocks e x"
    and "fs_cluster e ` free_blocks bits fs' = fs_cluster e ` free_blocks bits fs - {fs_cluster e x}"
    and "group_free bits e fs' g = group_free bits e fs g - {fs_cluster e x}"
    and "fs_cluster e x \<in> group_free bits e fs g \<longleftrightarrow> g = ext2fs_group_of_blk2 fs x"
proof -
  note sl = same_layout_facts [OF assms(3)]
  show f: "free_blocks bits fs' = free_blocks bits fs - cluster_blocks e x" using assms(4) by (auto simp: free_blocks_def sl)
  show "fs_cluster e ` free_blocks bits fs' = fs_cluster e ` free_blocks bits fs - {fs_cluster e x}"
    unfolding f cluster_blocks_def by (rule image_remove_all)
  show "group_free bits e fs' g = group_free bits e fs g - {fs_cluster e x}"
    unfolding group_free_def f cluster_blocks_def sl by (rule image_remove)
  have "x \<in> fs_blocks fs" using assms(2) by (simp add: free_blocks_def)
  then show "fs_cluster e x \<in> group_free bits e fs g \<longleftrightarrow> g = ext2fs_group_of_blk2 fs x"
    using not_in_other_group [OF assms(1)] assms(2) by (auto simp: group_free_def)
qed

lemma free_after_unmark:
  assumes "groups_ok e fs" "x \<in> fs_blocks fs" "cluster_blocks e x \<subseteq> used_blocks bits fs" "same_layout fs' fs"
    and "used_blocks bits fs' = used_blocks bits fs - cluster_blocks e x"
  shows "free_blocks bits fs' = free_blocks bits fs \<union> (cluster_blocks e x \<inter> fs_blocks fs)"
    and "fs_cluster e ` free_blocks bits fs' = insert (fs_cluster e x) (fs_cluster e ` free_blocks bits fs)"
    and "group_free bits e fs' g = (if g = ext2fs_group_of_blk2 fs x then insert (fs_cluster e x) (group_free bits e fs g) else group_free bits e fs g)"
    and "fs_cluster e x \<notin> fs_cluster e ` free_blocks bits fs" "fs_cluster e x \<notin> group_free bits e fs g"
proof -
  note sl = same_layout_facts [OF assms(4)]
  show f: "free_blocks bits fs' = free_blocks bits fs \<union> (cluster_blocks e x \<inter> fs_blocks fs)"
    using assms(3,5) by (auto simp: free_blocks_def sl)
  show "fs_cluster e ` free_blocks bits fs' = insert (fs_cluster e x) (fs_cluster e ` free_blocks bits fs)"
    unfolding f using assms(2) by (auto simp: cluster_blocks_def)
  have "{y \<in> free_blocks bits fs'. ext2fs_group_of_blk2 fs' y = g} = {y \<in> free_blocks bits fs. ext2fs_group_of_blk2 fs y = g}
      \<union> (if g = ext2fs_group_of_blk2 fs x then cluster_blocks e x \<inter> fs_blocks fs else {})"
    unfolding f sl using group_of_mates [OF assms(1) _ assms(2)] by (auto simp: cluster_blocks_def)
  then show "group_free bits e fs' g =
      (if g = ext2fs_group_of_blk2 fs x then insert (fs_cluster e x) (group_free bits e fs g) else group_free bits e fs g)"
    unfolding group_free_def using assms(2) by (auto simp: cluster_blocks_def)
  show n: "fs_cluster e x \<notin> fs_cluster e ` free_blocks bits fs"
    using assms(3) by (auto simp: free_blocks_def cluster_blocks_def)
  then show "fs_cluster e x \<notin> group_free bits e fs g" by (auto simp: group_free_def)
qed

end
