(* ===== verification/Alloc_Blocks.thy ===== *)
theory Alloc_Blocks
  imports Alloc_Counts
begin

text \<open>
  Blocks that are marked, freed, searched and allocated, for every back end of the bitmap: the lemmas of the
  locale \<open>generic_backend\<close>, on the invariant of theory \<open>Alloc_Counts\<close>.
\<close>

section \<open>Marking\<close>

text \<open>Where the client has set no function of its own.\<close>

definition no_callbacks :: "('p, 'q) alloc_env \<Rightarrow> bool" where
  "no_callbacks e \<longleftrightarrow> ae_get_alloc_block2 e = None \<and> ae_get_alloc_block e = None \<and> ae_new_range e = None
     \<and> ae_block_alloc_stats e = None \<and> ae_block_alloc_stats_range e = None"

definition alloc_inv :: "('p bmap64 \<Rightarrow> bool) \<Rightarrow> ('p bmap64 \<Rightarrow> u64 set) \<Rightarrow> ('p, 'q) alloc_env \<Rightarrow> ('p, 'q) alloc_fs \<Rightarrow> bool" where
  "alloc_inv good bits e fs \<longleftrightarrow> wf_alloc good e fs \<and> counts_ok bits e fs"

lemma mark_dirty_fields [simp]:
  "af_super (ext2fs_mark_super_dirty fs) = af_super fs" "af_super (ext2fs_mark_bb_dirty fs) = af_super fs"
  "af_groups (ext2fs_mark_super_dirty fs) = af_groups fs" "af_groups (ext2fs_mark_bb_dirty fs) = af_groups fs"
  "af_block_map (ext2fs_mark_super_dirty fs) = af_block_map fs" "af_block_map (ext2fs_mark_bb_dirty fs) = af_block_map fs"
  "af_io (ext2fs_mark_super_dirty fs) = af_io fs" "af_io (ext2fs_mark_bb_dirty fs) = af_io fs"
  "af_stride (ext2fs_mark_super_dirty fs) = af_stride fs" "af_stride (ext2fs_mark_bb_dirty fs) = af_stride fs"
  by (simp_all add: ext2fs_mark_super_dirty_def ext2fs_mark_bb_dirty_def)

lemma same_alloc:
  assumes "af_super fs' = af_super fs" "af_block_map fs' = af_block_map fs" "length (af_groups fs') = length (af_groups fs)"
    and "\<And>g. ext2fs_bg_free_blocks_count fs' g = ext2fs_bg_free_blocks_count fs g"
  shows "alloc_inv good bits e fs' = alloc_inv good bits e fs" "used_blocks bits fs' = used_blocks bits fs"
    "free_blocks bits fs' = free_blocks bits fs" "same_layout fs' fs"
proof -
  show l: "same_layout fs' fs" using assms by (simp add: same_layout_def fs_first_def fs_count_def)
  note sl = same_layout_facts [OF l]
  show u: "used_blocks bits fs' = used_blocks bits fs" using assms(2) by (simp add: used_blocks_def)
  then show f: "free_blocks bits fs' = free_blocks bits fs" by (simp add: free_blocks_def sl)
  show "alloc_inv good bits e fs' = alloc_inv good bits e fs"
    using assms by (simp add: alloc_inv_def wf_alloc_def counts_ok_def group_free_def f sl)
qed

lemma dirty_alloc:
  "alloc_inv good bits e (ext2fs_mark_bb_dirty (ext2fs_mark_super_dirty fs)) = alloc_inv good bits e fs"
  "used_blocks bits (ext2fs_mark_bb_dirty (ext2fs_mark_super_dirty fs)) = used_blocks bits fs"
  "same_layout (ext2fs_mark_bb_dirty (ext2fs_mark_super_dirty fs)) fs"
  by (rule same_alloc; simp add: ext2fs_bg_free_blocks_count_def group_desc_def bg_count_def)+

lemma block_alloc_stats2_step:
  assumes "x < fs_count fs" "ae_block_alloc_stats e = None"
  shows "ext2fs_block_alloc_stats2 e fs x inuse =
    (let bm = snd ((if inuse > 0 then ext2fs_mark_generic_bmap (ae_block_ops e) else ext2fs_unmark_generic_bmap (ae_block_ops e)) (af_block_map fs) x);
         g = ext2fs_group_of_blk2 fs x
     in ext2fs_mark_bb_dirty (ext2fs_mark_super_dirty (count_step e (fs\<lparr>af_block_map := bm\<rparr>) g
          (ext2fs_bg_free_blocks_count fs g - of_int inuse) (of_int (- inuse) * EXT2FS_CLUSTER_RATIO e))))"
proof -
  have "ext2fs_bg_free_blocks_count (fs\<lparr>af_block_map := bm\<rparr>) g = ext2fs_bg_free_blocks_count fs g" for bm g
    by (simp add: ext2fs_bg_free_blocks_count_def group_desc_def bg_count_def)
  then show ?thesis
    using assms unfolding ext2fs_block_alloc_stats2_def count_step_def fs_count_def by (simp add: Let_def not_le del: of_int_minus)
qed

lemma card_remove: "x \<in> A \<Longrightarrow> finite A \<Longrightarrow> int (card (A - {x})) = int (card A) - 1"
  by (cases "card A") (auto simp: card_Diff_singleton)

lemma counts_step:
  assumes "unat g < length (af_groups fs)" "counts_ok bits e fs0" "same_layout fs fs0"
    and b: "\<And>h. ext2fs_bg_free_blocks_count fs h = ext2fs_bg_free_blocks_count fs0 h"
    and sf: "ext2fs_free_blocks_count (af_super fs) = ext2fs_free_blocks_count (af_super fs0)"
    and n: "n = ext2fs_bg_free_blocks_count fs0 g - of_int d" and m: "m = - of_int d * EXT2FS_CLUSTER_RATIO e"
    and cg: "int (card (group_free bits e fs g)) = int (card (group_free bits e fs0 g)) - d"
    and ch: "\<And>h. h \<noteq> g \<Longrightarrow> group_free bits e fs h = group_free bits e fs0 h"
    and cs: "int (card (fs_cluster e ` free_blocks bits fs)) = int (card (fs_cluster e ` free_blocks bits fs0)) - d"
  shows "counts_ok bits e (count_step e fs g n m)"
proof -
  note c = count_step_effect [OF assms(1)]
  let ?fs = "count_step e fs g n m"
  note sl = same_layout_facts [OF c(1)] and sl0 = same_layout_facts [OF assms(3)]
  have f: "free_blocks bits ?fs = free_blocks bits fs" by (simp add: free_blocks_def used_blocks_def c(2) sl)
  have gf: "group_free bits e ?fs h = group_free bits e fs h" for h by (simp add: group_free_def f sl)
  have l: "length (af_groups fs) = length (af_groups fs0)" "length (af_groups ?fs) = length (af_groups fs)"
    using assms(3) c(1) by (simp_all add: same_layout_def)
  have "take_bit (group_width fs0) n = take_bit (group_width fs0) (of_nat (card (group_free bits e fs0 g)) - of_int d)"
    using assms(1,2) unfolding n l by (simp add: counts_ok_def take_bit_minus)
  also have "(of_nat (card (group_free bits e fs0 g)) - of_int d :: u32) = of_nat (card (group_free bits e fs g))"
    using cg by (metis of_int_diff of_int_of_nat_eq)
  finally have 1: "take_bit (group_width fs0) n = take_bit (group_width fs0) (of_nat (card (group_free bits e fs g)))" .
  let ?R = "2 ^ ae_cluster_ratio_bits e :: u64" and ?A = "fs_cluster e ` free_blocks bits fs0" and ?B = "fs_cluster e ` free_blocks bits fs"
  have r: "EXT2FS_CLUSTER_RATIO e = ?R" by (simp add: EXT2FS_CLUSTER_RATIO_def push_bit_eq_mult)
  have "take_bit (super_width fs0) (ext2fs_free_blocks_count (af_super fs0) + m)
      = take_bit (super_width fs0) (?R * of_nat (card ?A) + m)"
    using assms(2) by (simp add: counts_ok_def take_bit_plus)
  also have "?R * of_nat (card ?A) + m = ?R * (of_nat (card ?A) - of_int d)"
    unfolding m r by (simp add: algebra_simps)
  also have "(of_nat (card ?A) - of_int d :: u64) = of_nat (card ?B)"
    using cs by (metis of_int_diff of_int_of_nat_eq)
  finally have 2: "take_bit (super_width fs0) (ext2fs_free_blocks_count (af_super fs0) + m) = take_bit (super_width fs0) (?R * of_nat (card ?B))" .
  show ?thesis
    using assms(2) 1 2 ch by (auto simp: counts_ok_def c(5,6) gf f sl sl0 l b sf)
qed

section \<open>Searching\<close>

text \<open>Where the search starts: at the goal, if it is a block, or at the first block; there at the start of the cluster.\<close>

definition goal_block :: "('p, 'q) alloc_env \<Rightarrow> ('p, 'q) alloc_fs \<Rightarrow> u64 \<Rightarrow> u64" where
  "goal_block e fs goal = (if goal = 0 \<or> goal \<ge> fs_count fs then fs_first fs else goal) AND NOT (EXT2FS_CLUSTER_MASK e)"

text \<open>The first element of \<open>A\<close> from the goal on, or the first of all if there is none.\<close>

definition next_in :: "u64 set \<Rightarrow> u64 \<Rightarrow> u64 \<Rightarrow> bool" where
  "next_in A goal x \<longleftrightarrow> x \<in> A \<and> (if \<exists>y\<in>A. goal \<le> y then goal \<le> x \<and> (\<forall>y\<in>A. goal \<le> y \<longrightarrow> x \<le> y) else \<forall>y\<in>A. x \<le> y)"

lemma unat_align: "unat (x AND NOT (push_bit k 1 - 1)) = unat x div 2 ^ k * 2 ^ k" for x :: u64
proof -
  have m: "push_bit k 1 - 1 = (mask k :: u64)" by (simp add: mask_eq_exp_minus_1 push_bit_eq_mult)
  have "x AND NOT (mask k) = push_bit k (drop_bit k x)" by (rule bit_word_eqI) (auto simp: bit_simps)
  moreover have "push_bit k (drop_bit k x) + take_bit k x = x" by (rule bits_ident)
  ultimately have "x AND NOT (mask k) = x - take_bit k x" by (metis add_diff_cancel_right')
  moreover have t: "unat (take_bit k x) = unat x mod 2 ^ k" unfolding unsigned_take_bit_eq by (rule take_bit_eq_mod)
  moreover have "take_bit k x \<le> x" unfolding word_le_nat_alt t by (rule mod_less_eq_dividend)
  ultimately show ?thesis unfolding m by (simp only: unat_sub minus_mod_eq_div_mult)
qed

lemma goal_block_bounds:
  assumes "groups_ok e fs" "goal = 0 \<or> fs_first fs \<le> goal" "fs_first fs < fs_count fs"
  shows "goal_block e fs goal \<in> fs_blocks fs"
proof -
  let ?g = "if goal = 0 \<or> goal \<ge> fs_count fs then fs_first fs else goal" and ?R = "2 ^ ae_cluster_ratio_bits e :: nat"
  have g: "fs_first fs \<le> ?g" "?g < fs_count fs" using assms(2,3) by auto
  have u: "unat (goal_block e fs goal) = unat ?g div ?R * ?R"
    unfolding goal_block_def EXT2FS_CLUSTER_MASK_def EXT2FS_CLUSTER_RATIO_def by (rule unat_align)
  have "unat (fs_first fs) div ?R * ?R \<le> unat ?g div ?R * ?R"
    using g(1) by (intro mult_le_mono1 div_le_mono) (simp add: word_le_nat_alt)
  moreover have "unat (fs_first fs) div ?R * ?R = unat (fs_first fs)"
    using assms(1) by (intro dvd_div_mult_self) (simp add: groups_ok_def)
  ultimately have "unat (fs_first fs) \<le> unat (goal_block e fs goal)" unfolding u by (simp only:)
  moreover have "unat (goal_block e fs goal) \<le> unat ?g" unfolding u by simp
  ultimately show ?thesis using g(2) by (auto simp: fs_blocks_def word_le_nat_alt word_less_nat_alt)
qed

lemma clear_uninit_alloc:
  assumes "length (af_groups fs) < 2 ^ 32"
  shows "alloc_inv good bits e (ext2fs_clear_block_uninit e fs g) = alloc_inv good bits e fs"
    "used_blocks bits (ext2fs_clear_block_uninit e fs g) = used_blocks bits fs"
    "free_blocks bits (ext2fs_clear_block_uninit e fs g) = free_blocks bits fs"
    "same_layout (ext2fs_clear_block_uninit e fs g) fs" "af_io (ext2fs_clear_block_uninit e fs g) = af_io fs"
    "af_stride (ext2fs_clear_block_uninit e fs g) = af_stride fs" "af_super (ext2fs_clear_block_uninit e fs g) = af_super fs"
    "af_block_map (ext2fs_clear_block_uninit e fs g) = af_block_map fs"
proof -
  let ?fs = "ext2fs_clear_block_uninit e fs g"
  have "af_super ?fs = af_super fs \<and> af_block_map ?fs = af_block_map fs \<and> length (af_groups ?fs) = length (af_groups fs)
    \<and> (\<forall>h. ext2fs_bg_free_blocks_count ?fs h = ext2fs_bg_free_blocks_count fs h) \<and> af_io ?fs = af_io fs \<and> af_stride ?fs = af_stride fs"
  proof (cases "g < group_desc_count fs")
    case True
    then have g: "unat g < length (af_groups fs)"
      using assms by (simp add: group_desc_count_def word_less_nat_alt unat_of_nat)
    then have g2: "unat g < length (af_groups (ext2fs_bg_flags_clear fs g EXT2_BG_BLOCK_UNINIT))" by (simp add: desc_updates)
    have dirty: "ext2fs_bg_free_blocks_count (ext2fs_mark_bb_dirty (ext2fs_mark_super_dirty f)) h = ext2fs_bg_free_blocks_count f h"
      for f :: "('a, 'b) alloc_fs" and h by (simp add: ext2fs_bg_free_blocks_count_def group_desc_def bg_count_def)
    show ?thesis
      by (simp add: ext2fs_clear_block_uninit_def dirty desc_updates [OF g] desc_updates [OF g2])
  qed (simp add: ext2fs_clear_block_uninit_def not_less)
  then have a: "af_super ?fs = af_super fs" "af_block_map ?fs = af_block_map fs" "length (af_groups ?fs) = length (af_groups fs)"
    "\<And>h. ext2fs_bg_free_blocks_count ?fs h = ext2fs_bg_free_blocks_count fs h" "af_io ?fs = af_io fs" "af_stride ?fs = af_stride fs"
    by blast+
  note s = same_alloc [OF a(1-4)]
  show "alloc_inv good bits e ?fs = alloc_inv good bits e fs" "used_blocks bits ?fs = used_blocks bits fs"
    "free_blocks bits ?fs = free_blocks bits fs" "same_layout ?fs fs" by (rule s)+
  show "af_io ?fs = af_io fs" "af_stride ?fs = af_stride fs" "af_super ?fs = af_super fs" "af_block_map ?fs = af_block_map fs" by (rule a)+
qed

context generic_backend
begin

text \<open>Marking a free block, and unmarking a used one.\<close>

lemma wf_alloc_map:
  assumes "wf_alloc wf e fs" "x \<in> fs_blocks fs" "ae_block_ops e = ops"
  obtains b where "af_block_map fs = Some (GB64 b)" "bmap_ready wf b" "covers e fs b" "\<not> outside64 b (cluster_no b x)" "groups_ok e fs"
  using assms fs_block_inside unfolding wf_alloc_def by blast

lemma used_closed:
  assumes "wf_alloc wf e fs" "x \<in> used_blocks bits fs" shows "cluster_blocks e x \<subseteq> used_blocks bits fs"
proof -
  obtain b where b: "af_block_map fs = Some (GB64 b)" "covers e fs b" using assms(1) by (auto simp: wf_alloc_def)
  then show ?thesis using assms(2) by (auto simp: used_blocks_def block_set_def covers_cluster cluster_blocks_def)
qed

lemma wf_alloc_same:
  assumes "wf_alloc wf e fs" "af_block_map fs = Some (GB64 b)" "same_layout fs' fs" "af_block_map fs' = Some (GB64 b')" "wf b'" "same_header b' b"
  shows "wf_alloc wf e fs'"
proof -
  have "fs_first fs' = fs_first fs" "fs_count fs' = fs_count fs" using assms(3) by (simp_all add: same_layout_def)
  then show ?thesis
    using assms by (auto simp: wf_alloc_def same_layout_facts(5) [OF assms(3)] bmap_ready_def covers_def header_eqs [OF assms(6)])
qed

lemma stats_law:
  assumes inv: "alloc_inv wf bits e fs" and x: "x \<in> fs_blocks fs" and e: "ae_block_ops e = ops" "ae_block_alloc_stats e = None"
  shows "x \<in> free_blocks bits fs \<Longrightarrow> alloc_inv wf bits e (ext2fs_block_alloc_stats2 e fs x 1)
      \<and> used_blocks bits (ext2fs_block_alloc_stats2 e fs x 1) = used_blocks bits fs \<union> cluster_blocks e x
      \<and> same_layout (ext2fs_block_alloc_stats2 e fs x 1) fs \<and> af_io (ext2fs_block_alloc_stats2 e fs x 1) = af_io fs"
    and "x \<in> used_blocks bits fs \<Longrightarrow> alloc_inv wf bits e (ext2fs_block_alloc_stats2 e fs x (- 1))
      \<and> used_blocks bits (ext2fs_block_alloc_stats2 e fs x (- 1)) = used_blocks bits fs - cluster_blocks e x
      \<and> same_layout (ext2fs_block_alloc_stats2 e fs x (- 1)) fs \<and> af_io (ext2fs_block_alloc_stats2 e fs x (- 1)) = af_io fs"
proof -
  have wf: "wf_alloc wf e fs" "counts_ok bits e fs" using inv by (simp_all add: alloc_inv_def)
  obtain b where b: "af_block_map fs = Some (GB64 b)" "bmap_ready wf b" "covers e fs b" "\<not> outside64 b (cluster_no b x)" "groups_ok e fs"
    by (rule wf_alloc_map [OF wf(1) x e(1)])
  have lt: "x < fs_count fs" using x by (simp add: fs_blocks_def)
  note g = group_number(2) [OF b(5) x]
  have ub: "used_blocks bits fs = block_set bits b" by (simp add: used_blocks_def b(1))
  let ?g = "ext2fs_group_of_blk2 fs x"
  have upd: "same_layout (fs\<lparr>af_block_map := m\<rparr>) fs" "ext2fs_bg_free_blocks_count (fs\<lparr>af_block_map := m\<rparr>) h = ext2fs_bg_free_blocks_count fs h" for m h
    by (simp_all add: same_layout_def fs_first_def fs_count_def ext2fs_bg_free_blocks_count_def group_desc_def bg_count_def)
  have main: "alloc_inv wf bits e fs' \<and> used_blocks bits fs' = block_set bits b' \<and> same_layout fs' fs \<and> af_io fs' = af_io fs"
    if fs': "fs' = ext2fs_mark_bb_dirty (ext2fs_mark_super_dirty (count_step e (fs\<lparr>af_block_map := Some (GB64 b')\<rparr>) ?g
          (ext2fs_bg_free_blocks_count fs ?g - of_int d) (- of_int d * EXT2FS_CLUSTER_RATIO e)))"
      and b': "wf b'" "same_header b' b"
      and c: "int (card (group_free bits e (fs\<lparr>af_block_map := Some (GB64 b')\<rparr>) ?g)) = int (card (group_free bits e fs ?g)) - d"
        "\<And>h. h \<noteq> ?g \<Longrightarrow> group_free bits e (fs\<lparr>af_block_map := Some (GB64 b')\<rparr>) h = group_free bits e fs h"
        "int (card (fs_cluster e ` free_blocks bits (fs\<lparr>af_block_map := Some (GB64 b')\<rparr>))) = int (card (fs_cluster e ` free_blocks bits fs)) - d"
    for fs' b' d
  proof -
    let ?fs = "fs\<lparr>af_block_map := Some (GB64 b')\<rparr>"
    have g': "unat ?g < length (af_groups ?fs)" using g by simp
    note ce = count_step_effect [OF g']
    have co: "counts_ok bits e (count_step e ?fs ?g (ext2fs_bg_free_blocks_count fs ?g - of_int d) (- of_int d * EXT2FS_CLUSTER_RATIO e))" (is "counts_ok bits e ?c")
      by (rule counts_step [OF g' wf(2) upd(1) upd(2) _ refl refl c]) simp
    have sl: "same_layout ?c fs" using same_layout_trans [OF ce(1) upd(1)] .
    have "wf_alloc wf e ?c" by (rule wf_alloc_same [OF wf(1) b(1) sl _ b']) (simp add: ce(2))
    with co have "alloc_inv wf bits e ?c" by (simp add: alloc_inv_def)
    then show ?thesis
      unfolding fs' dirty_alloc using same_layout_trans [OF dirty_alloc(3) sl] by (simp add: used_blocks_def ce(2,3))
  qed
  have one: "finite (A :: u64 set)" for A by simp
  show "alloc_inv wf bits e (ext2fs_block_alloc_stats2 e fs x 1)
      \<and> used_blocks bits (ext2fs_block_alloc_stats2 e fs x 1) = used_blocks bits fs \<union> cluster_blocks e x
      \<and> same_layout (ext2fs_block_alloc_stats2 e fs x 1) fs \<and> af_io (ext2fs_block_alloc_stats2 e fs x 1) = af_io fs"
    if free: "x \<in> free_blocks bits fs"
  proof -
    obtain r b' where m: "ext2fs_mark_generic_bmap ops (Some (GB64 b)) x = (r, Some (GB64 b'))" "wf b'" "same_header b' b"
      "block_set bits b' = block_set bits b \<union> cluster_blocks e x"
      using gen_mark [OF _ _ b(4)] b(2,3) covers_mates by (fastforce simp: bmap_ready_def)
    have u: "used_blocks bits (fs\<lparr>af_block_map := Some (GB64 b')\<rparr>) = used_blocks bits fs \<union> cluster_blocks e x"
      by (simp add: used_blocks_def b(1) m(4))
    note fr = free_after_mark [OF b(5) free upd(1) u]
    have "fs_cluster e x \<in> fs_cluster e ` free_blocks bits fs" using free by blast
    then have c: "int (card (group_free bits e (fs\<lparr>af_block_map := Some (GB64 b')\<rparr>) ?g)) = int (card (group_free bits e fs ?g)) - 1"
      "int (card (fs_cluster e ` free_blocks bits (fs\<lparr>af_block_map := Some (GB64 b')\<rparr>))) = int (card (fs_cluster e ` free_blocks bits fs)) - 1"
      by (simp_all only: fr(2-4) card_remove one simp_thms)
    have h: "\<And>h. h \<noteq> ?g \<Longrightarrow> group_free bits e (fs\<lparr>af_block_map := Some (GB64 b')\<rparr>) h = group_free bits e fs h"
      using fr(3,4) by simp
    have s: "ext2fs_block_alloc_stats2 e fs x 1 = ext2fs_mark_bb_dirty (ext2fs_mark_super_dirty (count_step e (fs\<lparr>af_block_map := Some (GB64 b')\<rparr>) ?g
          (ext2fs_bg_free_blocks_count fs ?g - of_int 1) (- of_int 1 * EXT2FS_CLUSTER_RATIO e)))"
      using block_alloc_stats2_step [OF lt e(2), of 1] by (simp add: Let_def b(1) m(1) e(1) del: ext2fs_mark_generic_bmap.simps ext2fs_unmark_generic_bmap.simps)
    from main [OF s m(2,3) c(1) h c(2)] show ?thesis unfolding m(4) ub .
  qed
  show "alloc_inv wf bits e (ext2fs_block_alloc_stats2 e fs x (- 1))
      \<and> used_blocks bits (ext2fs_block_alloc_stats2 e fs x (- 1)) = used_blocks bits fs - cluster_blocks e x
      \<and> same_layout (ext2fs_block_alloc_stats2 e fs x (- 1)) fs \<and> af_io (ext2fs_block_alloc_stats2 e fs x (- 1)) = af_io fs"
    if used: "x \<in> used_blocks bits fs"
  proof -
    obtain r b' where m: "ext2fs_unmark_generic_bmap ops (Some (GB64 b)) x = (r, Some (GB64 b'))" "wf b'" "same_header b' b"
      "block_set bits b' = block_set bits b - cluster_blocks e x"
      using gen_unmark [OF _ _ b(4)] b(2,3) covers_mates by (fastforce simp: bmap_ready_def)
    have u: "used_blocks bits (fs\<lparr>af_block_map := Some (GB64 b')\<rparr>) = used_blocks bits fs - cluster_blocks e x"
      by (simp add: used_blocks_def b(1) m(4))
    note fr = free_after_unmark [OF b(5) x used_closed [OF wf(1) used] upd(1) u]
    have c: "int (card (group_free bits e (fs\<lparr>af_block_map := Some (GB64 b')\<rparr>) ?g)) = int (card (group_free bits e fs ?g)) - - 1"
        "\<And>h. h \<noteq> ?g \<Longrightarrow> group_free bits e (fs\<lparr>af_block_map := Some (GB64 b')\<rparr>) h = group_free bits e fs h"
        "int (card (fs_cluster e ` free_blocks bits (fs\<lparr>af_block_map := Some (GB64 b')\<rparr>))) = int (card (fs_cluster e ` free_blocks bits fs)) - - 1"
      using fr(2-5) one by auto
    have s: "ext2fs_block_alloc_stats2 e fs x (- 1) = ext2fs_mark_bb_dirty (ext2fs_mark_super_dirty (count_step e (fs\<lparr>af_block_map := Some (GB64 b')\<rparr>) ?g
          (ext2fs_bg_free_blocks_count fs ?g - of_int (- 1)) (- of_int (- 1) * EXT2FS_CLUSTER_RATIO e)))"
      using block_alloc_stats2_step [OF lt e(2), of "- 1"] by (simp add: Let_def b(1) m(1) e(1) del: ext2fs_mark_generic_bmap.simps ext2fs_unmark_generic_bmap.simps)
    from main [OF s m(2,3) c] show ?thesis unfolding m(4) ub .
  qed
qed

text \<open>A search for a free block, and for one in use.\<close>

lemma search_free:
  assumes "wf_alloc wf e fs" "ae_block_ops e = ops" "s \<in> fs_blocks fs" "s \<le> en" "en < fs_count fs"
  obtains b where "af_block_map fs = Some (GB64 b)" "block_set bits b = used_blocks bits fs"
    "\<exists>r. ext2fs_find_first_set_generic_bmap (ae_block_ops e) (Some (GB64 b)) s en = Some r
      \<and> search_result (\<lambda>x. x \<in> used_blocks bits fs) s en r"
    "used_blocks bits fs \<noteq> {} \<Longrightarrow> \<exists>r. ext2fs_find_first_zero_generic_bmap (ae_block_ops e) (Some (GB64 b)) s en = Some r
      \<and> search_result (\<lambda>x. x \<notin> used_blocks bits fs) s en r"
proof -
  obtain b where b: "af_block_map fs = Some (GB64 b)" "bmap_ready wf b" "covers e fs b" using assms(1) by (auto simp: wf_alloc_def)
  have u: "block_set bits b = used_blocks bits fs" by (simp add: used_blocks_def b(1))
  have "cluster_no b en \<le> bm_end b"
  proof -
    have "en \<le> fs_count fs - 1" using assms(5) unat_minus_one [of "fs_count fs"]
      by (cases "fs_count fs = 0") (auto simp: word_le_nat_alt word_less_nat_alt)
    then show ?thesis using b(3) by (simp add: covers_def cluster_mono)
  qed
  then have "search_ready b s en"
    using b(2,3) assms(3,4) by (auto simp: search_ready_def bmap_ready_def covers_def fs_blocks_def cluster_mono)
  note f = gen_find_first [OF _ this]
  have "bits b \<noteq> {}" if "used_blocks bits fs \<noteq> {}" using that unfolding u [symmetric] by (auto simp: block_set_def)
  then show ?thesis using that [OF b(1) u] f b(2) unfolding u assms(2) bmap_ready_def by blast
qed

lemma new_block_law:
  assumes wf: "wf_alloc wf e fs" and e: "ae_block_ops e = ops" "no_callbacks e"
    and used: "used_blocks bits fs \<noteq> {}" and goal: "goal = 0 \<or> fs_first fs \<le> goal"
  shows "\<exists>r. ext2fs_new_block3 e fs goal None ctx
      = Some (case r of None \<Rightarrow> (Inl EXT2_ET_BLOCK_ALLOC_FAIL, fs) | Some x \<Rightarrow> (Inr x, ext2fs_clear_block_uninit e fs (ext2fs_group_of_blk2 fs x)))
    \<and> (case r of None \<Rightarrow> free_blocks bits fs = {} | Some x \<Rightarrow> next_in (free_blocks bits fs) (goal_block e fs goal) x)"
proof -
  let ?g = "goal_block e fs goal" and ?l = "fs_count fs - 1" and ?U = "used_blocks bits fs"
  obtain b where b: "af_block_map fs = Some (GB64 b)" "covers e fs b" "groups_ok e fs" using wf by (auto simp: wf_alloc_def)
  have fc: "fs_first fs < fs_count fs" using b(2) by (simp add: covers_def)
  then have c0: "fs_count fs \<noteq> 0" by auto
  have last: "?l < fs_count fs" "x < fs_count fs \<Longrightarrow> x \<le> ?l" for x
    using c0 by (auto simp: word_le_nat_alt word_less_nat_alt unat_minus_one unat_gt_0)
  note gb = goal_block_bounds [OF b(3) goal fc]
  have g: "fs_first fs \<le> ?g" "?g < fs_count fs" "?g \<le> ?l" using gb last(2) by (auto simp: fs_blocks_def)
  let ?find = "ext2fs_find_first_zero_generic_bmap (ae_block_ops e) (Some (GB64 b))"
  obtain r1 where r1: "?find ?g ?l = Some r1" "search_result (\<lambda>x. x \<notin> ?U) ?g ?l r1"
    by (rule search_free [OF wf e(1) gb g(3) last(1)]) (use used b(1) in auto)
  have eq: "ext2fs_new_block3 e fs goal None ctx = do {
      r \<leftarrow> (if r1 = Inl ENOENT \<and> ?g \<noteq> fs_first fs then ?find (fs_first fs) (?g - 1) else Some r1);
      Some (new_block_allocated e r fs) }"
    unfolding ext2fs_new_block3_def Let_def fs_first_def [symmetric] fs_count_def [symmetric] goal_block_def [symmetric]
    using e(2) r1(1) by (simp add: no_callbacks_def b(1) del: ext2fs_find_first_zero_generic_bmap.simps)
  show ?thesis
  proof (cases r1)
    case (Inr x)
    then have "first_in (\<lambda>x. x \<notin> ?U) ?g ?l x" using r1(2) by (simp add: search_result_def)
    then have "next_in (free_blocks bits fs) ?g x"
      using g last by (auto simp: next_in_def first_in_def free_blocks_def fs_blocks_def not_less intro: leI)
    then show ?thesis using Inr by (intro exI [of _ "Some x"]) (simp add: eq new_block_allocated_def)
  next
    case (Inl err)
    then have err: "err = ENOENT" and none: "\<And>x. ?g \<le> x \<Longrightarrow> x < fs_count fs \<Longrightarrow> x \<in> ?U"
      using r1(2) last(2) by (auto simp: search_result_def)
    show ?thesis
    proof (cases "?g = fs_first fs")
      case True
      then have "free_blocks bits fs = {}" using none by (auto simp: free_blocks_def fs_blocks_def)
      then show ?thesis using Inl True err by (intro exI [of _ None]) (simp add: eq new_block_allocated_def)
    next
      case False
      then have "fs_first fs < ?g" using g(1) by simp
      then have "?g \<noteq> 0" by auto
      from unat_minus_one [OF this] have u: "unat (?g - 1) = unat ?g - 1" .
      with \<open>fs_first fs < ?g\<close> have g1: "fs_first fs \<le> ?g - 1" "?g - 1 < fs_count fs" "\<And>x. x \<le> ?g - 1 \<longleftrightarrow> x < ?g"
        using g(2) by (auto simp: word_le_nat_alt word_less_nat_alt)
      have ff: "fs_first fs \<in> fs_blocks fs" using fc by (simp add: fs_blocks_def)
      obtain r2 where r2: "?find (fs_first fs) (?g - 1) = Some r2" "search_result (\<lambda>x. x \<notin> ?U) (fs_first fs) (?g - 1) r2"
        by (rule search_free [OF wf e(1) ff g1(1,2)]) (use used b(1) in auto)
      have eq2: "ext2fs_new_block3 e fs goal None ctx = Some (new_block_allocated e r2 fs)" using Inl err False r2(1) by (simp add: eq del: ext2fs_find_first_zero_generic_bmap.simps)
      show ?thesis
      proof (cases r2)
        case (Inl err2)
        then have "err2 = ENOENT" "free_blocks bits fs = {}"
          using r2(2) none g1(3) by (auto simp: search_result_def free_blocks_def fs_blocks_def) (meson not_le)
        then show ?thesis using Inl by (intro exI [of _ None]) (simp add: eq2 new_block_allocated_def)
      next
        case (Inr x)
        then have f: "first_in (\<lambda>x. x \<notin> ?U) (fs_first fs) (?g - 1) x" using r2(2) by (simp add: search_result_def)
        have no: "\<not> (\<exists>y\<in>free_blocks bits fs. ?g \<le> y)" using none by (auto simp: free_blocks_def fs_blocks_def)
        have "x \<in> free_blocks bits fs" using f g1(3) g(2) by (auto simp: first_in_def free_blocks_def fs_blocks_def)
        moreover have "x \<le> y" if "y \<in> free_blocks bits fs" for y
          using f that by (auto simp: first_in_def free_blocks_def fs_blocks_def intro: leI)
        ultimately have "next_in (free_blocks bits fs) ?g x" using no by (simp add: next_in_def)
        then show ?thesis using Inr by (intro exI [of _ "Some x"]) (simp add: eq2 new_block_allocated_def)
      qed
    qed
  qed
qed

text \<open>Allocating a block, with a buffer of the caller.\<close>

lemma alloc_block_law:
  assumes inv: "alloc_inv wf bits e fs" and e: "ae_block_ops e = ops" "no_callbacks e"
    and used: "used_blocks bits fs \<noteq> {}" and goal: "goal = 0 \<or> fs_first fs \<le> goal"
  shows "\<exists>r fs'. ext2fs_alloc_block3 e fs goal True ctx = Some (r, fs') \<and> alloc_inv wf bits e fs' \<and> same_layout fs' fs
    \<and> (case r of
         Inr x \<Rightarrow> next_in (free_blocks bits fs) (goal_block e fs goal) x
           \<and> used_blocks bits fs' = used_blocks bits fs \<union> cluster_blocks e x
           \<and> af_io fs' = (af_io fs)\<lparr>fs_dev := (fs_dev (af_io fs))(x := replicate (fe_blocksize (ae_fs e)) 0)\<rparr>
       | Inl err \<Rightarrow> used_blocks bits fs' = used_blocks bits fs \<and> af_io fs' = af_io fs
           \<and> (if free_blocks bits fs = {} then err = EXT2_ET_BLOCK_ALLOC_FAIL
              else \<exists>x. next_in (free_blocks bits fs) (goal_block e fs goal) x \<and> fe_write_error (ae_fs e) x = Some err))"
proof -
  have wf: "wf_alloc wf e fs" using inv by (simp add: alloc_inv_def)
  then obtain b where m: "af_block_map fs = Some (GB64 b)" and gl: "length (af_groups fs) < 2 ^ 32" by (auto simp: wf_alloc_def groups_ok_def)
  obtain r where r: "ext2fs_new_block3 e fs goal None ctx
      = Some (case r of None \<Rightarrow> (Inl EXT2_ET_BLOCK_ALLOC_FAIL, fs) | Some x \<Rightarrow> (Inr x, ext2fs_clear_block_uninit e fs (ext2fs_group_of_blk2 fs x)))"
    "case r of None \<Rightarrow> free_blocks bits fs = {} | Some x \<Rightarrow> next_in (free_blocks bits fs) (goal_block e fs goal) x"
    using new_block_law [OF wf e used goal] by blast
  show ?thesis
  proof (cases r)
    case None
    with r inv m e(2) show ?thesis by (simp add: ext2fs_alloc_block3_def no_callbacks_def)
  next
    case (Some x)
    let ?c = "ext2fs_clear_block_uninit e fs (ext2fs_group_of_blk2 fs x)" and ?z = "replicate (fe_blocksize (ae_fs e)) 0"
    note cu = clear_uninit_alloc [OF gl, where e = e and g = "ext2fs_group_of_blk2 fs x"]
    have nx: "next_in (free_blocks bits fs) (goal_block e fs goal) x" using r(2) Some by simp
    have ac: "ext2fs_alloc_block3 e fs goal True ctx =
      (case io_write_blk (ae_fs e) (af_io ?c) x ?z of
         (Some err, io) \<Rightarrow> Some (Inl err, ?c\<lparr>af_io := io\<rparr>)
       | (None, io) \<Rightarrow> Some (Inr x, ext2fs_block_alloc_stats2 e (?c\<lparr>af_io := io\<rparr>) x 1))"
      using r(1) Some m e(2) by (simp add: ext2fs_alloc_block3_def no_callbacks_def split: prod.split option.split)
    have io: "alloc_inv wf bits e (?c\<lparr>af_io := io\<rparr>)" "used_blocks bits (?c\<lparr>af_io := io\<rparr>) = used_blocks bits fs"
      "free_blocks bits (?c\<lparr>af_io := io\<rparr>) = free_blocks bits fs" "same_layout (?c\<lparr>af_io := io\<rparr>) fs" for io
    proof -
      note s = same_alloc [of "?c\<lparr>af_io := io\<rparr>" ?c]
      have b: "ext2fs_bg_free_blocks_count (?c\<lparr>af_io := io\<rparr>) g = ext2fs_bg_free_blocks_count ?c g" for g
        by (simp add: ext2fs_bg_free_blocks_count_def group_desc_def bg_count_def)
      show "alloc_inv wf bits e (?c\<lparr>af_io := io\<rparr>)" "used_blocks bits (?c\<lparr>af_io := io\<rparr>) = used_blocks bits fs"
        "free_blocks bits (?c\<lparr>af_io := io\<rparr>) = free_blocks bits fs"
        using s b cu(1-3) inv by simp_all
      show "same_layout (?c\<lparr>af_io := io\<rparr>) fs" using same_layout_trans [OF s(4) cu(4)] b by simp
    qed
    show ?thesis
    proof (cases "fe_write_error (ae_fs e) x")
      case None
      let ?d = "?c\<lparr>af_io := (af_io fs)\<lparr>fs_dev := (fs_dev (af_io fs))(x := ?z)\<rparr>\<rparr>"
      have xf: "x \<in> free_blocks bits ?d" using nx unfolding io(3) next_in_def by blast
      then have xb: "x \<in> fs_blocks ?d" by (simp add: free_blocks_def)
      have cb: "ae_block_alloc_stats e = None" using e(2) by (simp add: no_callbacks_def)
      note st = stats_law(1) [OF io(1) xb e(1) cb xf]
      have "ext2fs_alloc_block3 e fs goal True ctx = Some (Inr x, ext2fs_block_alloc_stats2 e ?d x 1)"
        using None by (simp add: ac io_write_blk_def cu(5))
      moreover have "same_layout (ext2fs_block_alloc_stats2 e ?d x 1) fs" using st same_layout_trans io(4) by blast
      moreover have "used_blocks bits (ext2fs_block_alloc_stats2 e ?d x 1) = used_blocks bits fs \<union> cluster_blocks e x"
        using st unfolding io(2) by blast
      ultimately show ?thesis using st nx by simp
    next
      case (Some err)
      then have "ext2fs_alloc_block3 e fs goal True ctx = Some (Inl err, ?c\<lparr>af_io := af_io fs\<rparr>)"
        by (simp add: ac io_write_blk_def cu(5))
      moreover have "free_blocks bits fs \<noteq> {}" using nx by (auto simp: next_in_def)
      ultimately show ?thesis using io nx Some by auto
    qed
  qed
qed

end

section \<open>Sequences of allocations and frees\<close>

text \<open>
  A block is allocated near a goal, or a block in use is freed, but not the cluster of the block \<open>s\<close>,
  which is in use all the time (that of the superblock).
\<close>

inductive alloc_step :: "('p bmap64 \<Rightarrow> u64 set) \<Rightarrow> u64 \<Rightarrow> ('p, 'q) alloc_env \<Rightarrow> ('p, 'q) alloc_fs \<Rightarrow> ('p, 'q) alloc_fs \<Rightarrow> bool"
  for bits s e where
  allocate: "goal = 0 \<or> fs_first fs \<le> goal \<Longrightarrow> ext2fs_alloc_block3 e fs goal True ctx = Some (r, fs') \<Longrightarrow> alloc_step bits s e fs fs'"
| free: "x \<in> fs_blocks fs \<Longrightarrow> x \<in> used_blocks bits fs \<Longrightarrow> fs_cluster e x \<noteq> fs_cluster e s \<Longrightarrow>
    alloc_step bits s e fs (ext2fs_block_alloc_stats2 e fs x (- 1))"

inductive_cases alloc_stepE: "alloc_step bits s e fs fs'"

context generic_backend
begin

lemma step_keeps:
  assumes "alloc_step bits s e fs fs'" "alloc_inv wf bits e fs" "s \<in> used_blocks bits fs" "ae_block_ops e = ops" "no_callbacks e"
  shows "alloc_inv wf bits e fs' \<and> s \<in> used_blocks bits fs'"
  using assms(1)
proof (cases, goal_cases)
  case (1 goal ctx r)
  obtain r' f where "ext2fs_alloc_block3 e fs goal True ctx = Some (r', f)" "alloc_inv wf bits e f"
      "used_blocks bits fs \<subseteq> used_blocks bits f"
    using alloc_block_law [OF assms(2,4,5) _ 1(1), of ctx] assms(3) by (fastforce split: sum.splits)
  with 1 assms(3) show ?case by auto
next
  case (2 x)
  then show ?case using stats_law(2) [OF assms(2) _ assms(4)] assms(3,5) by (simp add: no_callbacks_def cluster_blocks_def)
qed

lemma steps_keep:
  assumes "(alloc_step bits s e)\<^sup>*\<^sup>* fs fs'" "alloc_inv wf bits e fs" "s \<in> used_blocks bits fs" "ae_block_ops e = ops" "no_callbacks e"
  shows "alloc_inv wf bits e fs' \<and> s \<in> used_blocks bits fs'"
  using assms(1)
proof induction
  case (step y z)
  then show ?case using step_keeps [OF step.hyps(2) _ _ assms(4,5)] by blast
qed (use assms in blast)

end

end
