(* ===== verification/Alloc_Range.thy ===== *)
theory Alloc_Range
  imports Alloc_Blocks
begin

text \<open>
  The search for a run of free blocks: what it finds, that it fails only where there is no such run, and
  exactly when it returns.
\<close>

section \<open>Runs\<close>

definition is_fixed :: "u32 \<Rightarrow> bool" where
  "is_fixed flags \<longleftrightarrow> flags AND EXT2_NEWRANGE_FIXED_GOAL \<noteq> 0"

definition needed :: "u32 \<Rightarrow> u64 \<Rightarrow> nat" where
  "needed flags len = (if flags AND EXT2_NEWRANGE_MIN_LENGTH \<noteq> 0 then unat len else 1)"

text \<open>A run of \<open>n\<close> blocks of \<open>A\<close> starts at \<open>x\<close>.\<close>

definition run_of :: "u64 set \<Rightarrow> nat \<Rightarrow> u64 \<Rightarrow> bool" where
  "run_of A n x \<longleftrightarrow> unat x + n \<le> 2 ^ 64 \<and> run x n \<subseteq> A"

definition last_block :: "('p, 'q) alloc_fs \<Rightarrow> u64" where
  "last_block fs = fs_count fs - 1"

lemma in_fs_blocks: "x \<in> fs_blocks fs \<longleftrightarrow> unat (fs_first fs) \<le> unat x \<and> unat x < unat (fs_count fs)"
  by (simp add: fs_blocks_def word_le_nat_alt word_less_nat_alt)

lemma unat_last: "fs_count fs \<noteq> 0 \<Longrightarrow> unat (last_block fs) = unat (fs_count fs) - 1"
  by (simp add: last_block_def unat_minus_one)

text \<open>
  The condition under which the search goes on for ever: there are free blocks, but not the last one and
  no run of the required length, and the run may start anywhere.
\<close>

definition range_endless :: "('p bmap64 \<Rightarrow> u64 set) \<Rightarrow> ('p, 'q) alloc_fs \<Rightarrow> u32 \<Rightarrow> u64 \<Rightarrow> bool" where
  "range_endless bits fs flags len \<longleftrightarrow> \<not> is_fixed flags \<and> free_blocks bits fs \<noteq> {} \<and> last_block fs \<notin> free_blocks bits fs
     \<and> (\<forall>x. \<not> run_of (free_blocks bits fs) (needed flags len) x)"

text \<open>What is required of the file system and of the length.\<close>

definition range_ready ::
    "('p bmap64 \<Rightarrow> bool) \<Rightarrow> 'p bitmap_ops \<Rightarrow> ('p bmap64 \<Rightarrow> u64 set) \<Rightarrow> ('p, 'q) alloc_env \<Rightarrow> ('p, 'q) alloc_fs \<Rightarrow> 'p gbmap \<Rightarrow> u64 \<Rightarrow> bool" where
  "range_ready good bops bits e fs bm len \<longleftrightarrow> wf_alloc good e fs \<and> ae_block_ops e = bops \<and> used_blocks bits fs \<noteq> {}
     \<and> af_block_map fs = Some bm \<and> 0 < len \<and> unat (fs_count fs) + unat len \<le> 2 ^ 64"

text \<open>One round of the loop, with \<open>F\<close> for the rounds that follow.\<close>

definition range_found ::
    "(bool \<Rightarrow> u64 \<Rightarrow> (errcode + u64 \<times> u64) option) \<Rightarrow> ('p, 'q) alloc_env \<Rightarrow> ('p, 'q) alloc_fs \<Rightarrow> 'p gbmap \<Rightarrow> u32 \<Rightarrow> u64 \<Rightarrow> u64 \<Rightarrow>
     bool \<Rightarrow> u64 \<Rightarrow> (errcode + u64 \<times> u64) option" where
  "range_found F e fs bm flags goal len looped start =
     (if is_fixed flags \<and> start \<noteq> goal then Some (Inl EXT2_ET_BLOCK_ALLOC_FAIL)
      else
        let b = min (start + len - 1) (last_block fs) in
        do {
          s \<leftarrow> ext2fs_find_first_set_generic_bmap (ae_block_ops e) (Some bm) start b;
          case (case s of Inl err \<Rightarrow> if err = ENOENT then Inr (b + 1) else Inl err | Inr en \<Rightarrow> Inr en) of
            Inl err \<Rightarrow> Some (Inl err)
          | Inr en \<Rightarrow>
              if flags AND EXT2_NEWRANGE_MIN_LENGTH = 0 \<or> en - start \<ge> len then Some (Inr (start, en))
              else if is_fixed flags then Some (Inl EXT2_ET_BLOCK_ALLOC_FAIL)
              else if en \<ge> fs_count fs
              then if looped then Some (Inl EXT2_ET_BLOCK_ALLOC_FAIL) else F True (fs_first fs)
              else F looped en })"

definition range_body ::
    "(bool \<Rightarrow> u64 \<Rightarrow> (errcode + u64 \<times> u64) option) \<Rightarrow> ('p, 'q) alloc_env \<Rightarrow> ('p, 'q) alloc_fs \<Rightarrow> 'p gbmap \<Rightarrow> u32 \<Rightarrow> u64 \<Rightarrow> u64 \<Rightarrow>
     bool \<Rightarrow> u64 \<Rightarrow> (errcode + u64 \<times> u64) option" where
  "range_body F e fs bm flags goal len looped start =
     (if looped \<and> \<not> start \<le> goal then Some (Inl EXT2_ET_BLOCK_ALLOC_FAIL)
      else do {
        r \<leftarrow> ext2fs_find_first_zero_generic_bmap (ae_block_ops e) (Some bm) start (last_block fs);
        case r of
          Inl err \<Rightarrow>
            if err = ENOENT
            then if is_fixed flags \<or> start = fs_first fs then Some (Inl EXT2_ET_BLOCK_ALLOC_FAIL) else F looped (fs_first fs)
            else Some (Inl err)
        | Inr start \<Rightarrow> range_found F e fs bm flags goal len looped start })"

lemmas range_folds = fs_first_def [symmetric] fs_count_def [symmetric] is_fixed_def [symmetric] last_block_def [symmetric]

lemma new_range_loop_body:
  "new_range_loop e fs bm flags goal len looped start =
     range_body (new_range_loop e fs bm flags goal len) e fs bm flags goal len looped start"
  by (subst new_range_loop.simps) (simp only: range_body_def range_found_def Let_def range_folds)

text \<open>What the loop returns, and what its failure means.\<close>

definition range_result :: "('p bmap64 \<Rightarrow> u64 set) \<Rightarrow> ('p, 'q) alloc_fs \<Rightarrow> u32 \<Rightarrow> u64 \<Rightarrow> u64 \<Rightarrow> errcode + u64 \<times> u64 \<Rightarrow> bool" where
  "range_result bits fs flags goal len res \<longleftrightarrow> (case res of
       Inr (s, en) \<Rightarrow> s < en \<and> unat en - unat s \<le> unat len \<and> needed flags len \<le> unat en - unat s
         \<and> run_of (free_blocks bits fs) (unat en - unat s) s \<and> (is_fixed flags \<longrightarrow> s = goal)
     | Inl err \<Rightarrow> err = EXT2_ET_BLOCK_ALLOC_FAIL
         \<and> (\<forall>x. (is_fixed flags \<longrightarrow> x = goal) \<longrightarrow> \<not> run_of (free_blocks bits fs) (needed flags len) x))"

context generic_backend
begin

text \<open>One round of the loop.\<close>

lemma range_round:
  assumes wf: "wf_alloc wf e fs" and e: "ae_block_ops e = ops" and used: "used_blocks bits fs \<noteq> {}"
    and bm: "af_block_map fs = Some bm" and start: "start \<in> fs_blocks fs" and go: "\<not> (looped \<and> \<not> start \<le> goal)"
    and len: "0 < len" "unat (fs_count fs) + unat len \<le> 2 ^ 64"
  obtains
    (none) "\<And>x. start \<le> x \<Longrightarrow> x \<notin> free_blocks bits fs"
      "range_body F e fs bm flags goal len looped start =
        (if is_fixed flags \<or> start = fs_first fs then Some (Inl EXT2_ET_BLOCK_ALLOC_FAIL)
         else F looped (fs_first fs))"
  | (found) s en where "start \<le> s" "s \<in> free_blocks bits fs" "\<And>x. start \<le> x \<Longrightarrow> x < s \<Longrightarrow> x \<notin> free_blocks bits fs"
      "s < en" "en \<le> fs_count fs" "unat en \<le> unat s + unat len" "\<And>x. s \<le> x \<Longrightarrow> x < en \<Longrightarrow> x \<in> free_blocks bits fs"
      "en \<notin> free_blocks bits fs \<or> unat en = unat s + unat len"
      "range_body F e fs bm flags goal len looped start =
        (if is_fixed flags \<and> s \<noteq> goal then Some (Inl EXT2_ET_BLOCK_ALLOC_FAIL)
         else if needed flags len \<le> unat en - unat s then Some (Inr (s, en))
         else if is_fixed flags then Some (Inl EXT2_ET_BLOCK_ALLOC_FAIL)
         else if en = fs_count fs
         then if looped then Some (Inl EXT2_ET_BLOCK_ALLOC_FAIL) else F True (fs_first fs)
         else F looped en)"
proof -
  let ?U = "used_blocks bits fs" and ?l = "fs_count fs - 1" and ?find = "ext2fs_find_first_zero_generic_bmap (ae_block_ops e) (Some bm)"
  have c0: "fs_count fs \<noteq> 0" using start by (auto simp: in_fs_blocks)
  have l: "unat ?l = unat (fs_count fs) - 1" using c0 by (simp add: unat_minus_one)
  have lt: "?l < fs_count fs" "start \<le> ?l" using start c0 unfolding word_le_nat_alt word_less_nat_alt l in_fs_blocks by (auto simp: unat_gt_0)
  obtain b where b: "bm = GB64 b" using bm wf by (auto simp: wf_alloc_def)
  obtain r where r: "?find start (last_block fs) = Some r" "search_result (\<lambda>x. x \<notin> ?U) start ?l r"
    unfolding last_block_def by (rule search_free [OF wf e start lt(2,1)]) (use bm used in auto)
  have unfold: "range_body F e fs bm flags goal len looped start =
     (case r of
          Inl err \<Rightarrow>
            if err = ENOENT
            then if is_fixed flags \<or> start = fs_first fs then Some (Inl EXT2_ET_BLOCK_ALLOC_FAIL) else F looped (fs_first fs)
            else Some (Inl err)
        | Inr start \<Rightarrow> range_found F e fs bm flags goal len looped start)"
  proof -
    have c: "(looped \<and> \<not> start \<le> goal) = False" using go by blast
    show ?thesis by (simp only: range_body_def Let_def c if_False r(1) Option.bind.simps)
  qed
  show ?thesis
  proof (cases r)
    case (Inl err)
    then have err: "err = ENOENT" and no: "\<And>x. start \<le> x \<Longrightarrow> x \<le> ?l \<Longrightarrow> x \<in> ?U" using r(2) by (auto simp: search_result_def)
    have "x \<notin> free_blocks bits fs" if "start \<le> x" for x
      using no [OF that] l c0 by (auto simp: free_blocks_def in_fs_blocks word_le_nat_alt)
    then show ?thesis by (rule none) (simp_all add: unfold Inl err)
  next
    case (Inr s)
    then have s: "start \<le> s" "s \<le> ?l" "s \<notin> ?U" "\<And>x. start \<le> x \<Longrightarrow> x < s \<Longrightarrow> x \<in> ?U"
      using r(2) by (auto simp: search_result_def first_in_def)
    have sb: "s \<in> fs_blocks fs" using s(1,2) start c0 l unfolding in_fs_blocks word_le_nat_alt by (auto simp: unat_gt_0)
    define bb where "bb = min (s + len - 1) ?l"
    have ul: "unat (s + len - 1) = unat s + unat len - 1"
    proof -
      have u: "unat (s + len) = unat s + unat len" using len sb by (simp add: unat_word_ariths in_fs_blocks)
      moreover have "0 < unat len" using len(1) by (simp add: word_less_nat_alt)
      ultimately have "s + len \<noteq> 0" by (auto simp: unat_eq_0)
      from unat_minus_one [OF this] show ?thesis unfolding u .
    qed
    have len0: "0 < unat len" using len(1) by (simp add: word_less_nat_alt)
    have bb: "unat bb = min (unat s + unat len - 1) (unat (fs_count fs) - 1)"
      by (simp add: bb_def min_def word_le_nat_alt ul l)
    have bl: "s \<le> bb" "bb < fs_count fs" using len0 sb unfolding word_le_nat_alt word_less_nat_alt bb by (auto simp: in_fs_blocks)
    obtain q where q: "ext2fs_find_first_set_generic_bmap (ae_block_ops e) (Some bm) s bb = Some q" "search_result (\<lambda>x. x \<in> ?U) s bb q"
      by (rule search_free [OF wf e sb bl]) (use bm used in auto)
    have ub: "unat (bb + 1) = unat bb + 1" using bl(2) word_order.extremum [of "fs_count fs"] by (intro unat_succ) (auto dest: leD)
    define en where "en = (case q of Inl err \<Rightarrow> bb + 1 | Inr en \<Rightarrow> en)"
    have en: "s < en" "unat en \<le> unat bb + 1" "en \<in> ?U \<or> en = bb + 1" "\<And>x. s \<le> x \<Longrightarrow> x < en \<Longrightarrow> x \<notin> ?U"
      "(case q of Inl err \<Rightarrow> if err = ENOENT then Inr (bb + 1) else Inl err | Inr en \<Rightarrow> Inr en) = (Inr en :: errcode + u64)"
    proof -
      have "s < en \<and> unat en \<le> unat bb + 1 \<and> (en \<in> ?U \<or> en = bb + 1) \<and> (\<forall>x. s \<le> x \<and> x < en \<longrightarrow> x \<notin> ?U)
        \<and> (case q of Inl err \<Rightarrow> if err = ENOENT then Inr (bb + 1) else Inl err | Inr en \<Rightarrow> Inr en) = (Inr en :: errcode + u64)"
      proof (cases q)
        case (Inl err)
        then show ?thesis using q(2) bl(1) ub by (auto simp: search_result_def en_def word_less_nat_alt word_le_nat_alt)
      next
        case (Inr n)
        then have n: "s \<le> n" "n \<le> bb" "n \<in> ?U" "\<And>x. s \<le> x \<Longrightarrow> x < n \<Longrightarrow> x \<notin> ?U"
          using q(2) by (auto simp: search_result_def first_in_def)
        then have "s < n" using s(3) by (metis order_le_less)
        then show ?thesis using n Inr by (auto simp: en_def word_le_nat_alt)
      qed
      then show "s < en" "unat en \<le> unat bb + 1" "en \<in> ?U \<or> en = bb + 1" "\<And>x. s \<le> x \<Longrightarrow> x < en \<Longrightarrow> x \<notin> ?U"
        "(case q of Inl err \<Rightarrow> if err = ENOENT then Inr (bb + 1) else Inl err | Inr en \<Rightarrow> Inr en) = (Inr en :: errcode + u64)" by blast+
    qed
    have enc: "en \<le> fs_count fs" "unat en \<le> unat s + unat len"
      using en(2) bb bl(2) len0 unfolding word_le_nat_alt word_less_nat_alt by (auto simp: min_def split: if_splits)
    have d: "len \<le> en - s \<longleftrightarrow> unat len \<le> unat en - unat s" using en(1) by (simp add: word_le_nat_alt word_less_nat_alt unat_sub)
    have one: "1 \<le> unat en - unat s" using en(1) by (simp add: word_less_nat_alt)
    have nd: "flags AND EXT2_NEWRANGE_MIN_LENGTH = 0 \<or> len \<le> en - s \<longleftrightarrow> needed flags len \<le> unat en - unat s"
      using one by (auto simp: needed_def d)
    have full: "en \<ge> fs_count fs \<longleftrightarrow> en = fs_count fs" using enc(1) by auto
    show ?thesis
    proof (rule found)
      show "start \<le> s" "s < en" "en \<le> fs_count fs" "unat en \<le> unat s + unat len" by (fact s(1) en(1) enc)+
      show "s \<in> free_blocks bits fs" using sb s(3) by (simp add: free_blocks_def)
      show "x \<notin> free_blocks bits fs" if "start \<le> x" "x < s" for x using s(4) [OF that] by (simp add: free_blocks_def)
      show "x \<in> free_blocks bits fs" if "s \<le> x" "x < en" for x
        using en(4) [OF that] that sb enc(1) by (simp add: free_blocks_def in_fs_blocks word_le_nat_alt word_less_nat_alt)
      show "en \<notin> free_blocks bits fs \<or> unat en = unat s + unat len"
      proof (cases "en = bb + 1 \<and> unat en \<noteq> unat s + unat len")
        case True
        then have "unat en = unat (fs_count fs)" using ub bb len0 sb by (auto simp: min_def in_fs_blocks split: if_splits)
        then show ?thesis by (simp add: free_blocks_def in_fs_blocks)
      qed (use en(3) in \<open>auto simp: free_blocks_def\<close>)
      show "range_body F e fs bm flags goal len looped start =
        (if is_fixed flags \<and> s \<noteq> goal then Some (Inl EXT2_ET_BLOCK_ALLOC_FAIL)
         else if needed flags len \<le> unat en - unat s then Some (Inr (s, en))
         else if is_fixed flags then Some (Inl EXT2_ET_BLOCK_ALLOC_FAIL)
         else if en = fs_count fs
         then if looped then Some (Inl EXT2_ET_BLOCK_ALLOC_FAIL) else F True (fs_first fs)
         else F looped en)"
        unfolding unfold Inr sum.case range_found_def Let_def bb_def [symmetric] last_block_def q(1) by (simp only: en(5) nd full sum.case Option.bind.simps)
    qed
  qed
qed


text \<open>The same, in terms of runs.\<close>

lemma run_of_interval:
  assumes "\<And>x. s \<le> x \<Longrightarrow> x < en \<Longrightarrow> x \<in> A" "n \<le> unat en - unat s" "s < en"
  shows "run_of A n s"
  using assms unsigned_less [of en, where ?'a = nat] by (auto simp: run_of_def run_def word_le_nat_alt word_less_nat_alt)

lemma run_of_member: "run_of A n x \<Longrightarrow> 0 < n \<Longrightarrow> x \<in> A"
  by (auto simp: run_of_def run_def)

lemma needed_pos: "0 < len \<Longrightarrow> 0 < needed flags len \<and> needed flags len \<le> unat len"
  by (auto simp: needed_def word_less_nat_alt)

lemma range_next:
  assumes r: "range_ready wf ops bits e fs bm len" and start: "start \<in> fs_blocks fs" and go: "\<not> (looped \<and> \<not> start \<le> goal)"
  obtains
    (none) "\<And>x. start \<le> x \<Longrightarrow> x \<notin> free_blocks bits fs"
      "range_body F e fs bm flags goal len looped start =
        (if is_fixed flags \<or> start = fs_first fs then Some (Inl EXT2_ET_BLOCK_ALLOC_FAIL) else F looped (fs_first fs))"
  | (success) res where "range_body F e fs bm flags goal len looped start = Some res" "range_result bits fs flags goal len res"
      "\<exists>x. run_of (free_blocks bits fs) (needed flags len) x"
  | (not_there) "is_fixed flags" "range_body F e fs bm flags goal len looped start = Some (Inl EXT2_ET_BLOCK_ALLOC_FAIL)"
      "start = goal \<Longrightarrow> \<not> run_of (free_blocks bits fs) (needed flags len) goal"
  | (short) en where "\<not> is_fixed flags \<and> free_blocks bits fs \<noteq> {}" "start < en" "\<And>x. start \<le> x \<Longrightarrow> x < en \<Longrightarrow> \<not> run_of (free_blocks bits fs) (needed flags len) x"
      "en = fs_count fs \<and> last_block fs \<in> free_blocks bits fs \<and> range_body F e fs bm flags goal len looped start =
          (if looped then Some (Inl EXT2_ET_BLOCK_ALLOC_FAIL) else F True (fs_first fs))
       \<or> en \<in> fs_blocks fs \<and> en \<notin> free_blocks bits fs \<and> range_body F e fs bm flags goal len looped start = F looped en"
proof -
  let ?A = "free_blocks bits fs" and ?n = "needed flags len"
  have R: "wf_alloc wf e fs" "ae_block_ops e = ops" "used_blocks bits fs \<noteq> {}" "af_block_map fs = Some bm" "0 < len"
    "unat (fs_count fs) + unat len \<le> 2 ^ 64" using r by (auto simp: range_ready_def)
  note n = needed_pos [OF R(5), of flags]
  show ?thesis
  proof (cases rule: range_round [OF R(1-4) start go R(5,6), of F flags, case_names N F])
    case N
    then show ?thesis by (rule none)
  next
    case (F s en)
    have sb: "s \<in> fs_blocks fs" using F(2) by (simp add: free_blocks_def)
    show ?thesis
    proof (cases "is_fixed flags \<and> s \<noteq> goal")
      case True
      have "\<not> run_of ?A ?n goal" if "start = goal"
      proof -
        have "goal < s" using F(1) True that by auto
        then show ?thesis using F(3) [of goal] that run_of_member [of ?A ?n goal] n by auto
      qed
      then show ?thesis by (rule not_there [rotated -1]) (use True F(9) in auto)
    next
      case okay: False
      show ?thesis
      proof (cases "?n \<le> unat en - unat s")
        case True
        have "run_of ?A (unat en - unat s) s" "run_of ?A ?n s" using run_of_interval F(4,7) True by blast+
        then show ?thesis using okay F(4,6,9) True by (intro success [of "Inr (s, en)"]) (auto simp: range_result_def)
      next
        case False
        have out: "en \<notin> ?A" using F(8) False n by auto
        have sh: "\<not> run_of ?A ?n x" if x: "start \<le> x" "x < en" for x
        proof
          assume r: "run_of ?A ?n x"
          then have "x \<in> ?A" using run_of_member n by blast
          then have "s \<le> x" using F(3) x(1) not_le by blast
          then have "en \<in> run x ?n" using False x(2) F(4) by (simp add: run_def word_le_nat_alt word_less_nat_alt)
          with r out show False by (auto simp: run_of_def)
        qed
        show ?thesis
        proof (cases "is_fixed flags")
          case True
          with okay F(9) False have "range_body F e fs bm flags goal len looped start = Some (Inl EXT2_ET_BLOCK_ALLOC_FAIL)" by auto
          then show ?thesis using True okay F(4) sh [of goal] by (intro not_there) auto
        next
          case nofix: False
          have "start < en" using F(1,4) by simp
          moreover have "last_block fs \<in> ?A" if "en = fs_count fs"
          proof -
            have "fs_count fs \<noteq> 0" using sb by (auto simp: in_fs_blocks)
            from unat_last [OF this] F(4) that show ?thesis by (intro F(7)) (auto simp: word_le_nat_alt word_less_nat_alt)
          qed
          moreover have "en \<in> fs_blocks fs" if "en \<noteq> fs_count fs"
            using that F(4,5) sb by (auto simp: in_fs_blocks word_le_nat_alt word_less_nat_alt word_unat_eq_iff)
          ultimately show ?thesis using F(9) out nofix False F(2) by (intro short [OF _ _ sh]) auto
        qed
      qed
    qed
  qed
qed

text \<open>A search that goes on for ever.\<close>

lemma range_hangs:
  assumes "new_range_loop e fs bm flags goal len looped start = Some r"
  shows "range_ready wf ops bits e fs bm len \<longrightarrow> start \<in> fs_blocks fs \<longrightarrow> \<not> looped \<longrightarrow> \<not> is_fixed flags \<longrightarrow>
    free_blocks bits fs \<noteq> {} \<longrightarrow> last_block fs \<notin> free_blocks bits fs \<longrightarrow>
    (\<forall>x. \<not> run_of (free_blocks bits fs) (needed flags len) x) \<longrightarrow> False"
proof (rule new_range_loop.raw_induct [OF _ assms], intro impI, goal_cases)
  case (1 f e fs bm flags goal len looped start r)
  let ?F = "f e fs bm flags goal len"
  have body: "range_body ?F e fs bm flags goal len looped start = Some r"
    using 1(2) by (simp only: range_body_def range_found_def Let_def range_folds)
  have first: "fs_first fs \<in> fs_blocks fs" using 1(4) by (auto simp: in_fs_blocks)
  have IH: False if "?F looped s = Some r" "s \<in> fs_blocks fs" for s
    using 1(1) [OF that(1)] 1(3,5-) that(2) by blast
  have go: "\<not> (looped \<and> \<not> start \<le> goal)" using 1(5) by simp
  show False
  proof (cases rule: range_next [OF 1(3,4) go, of ?F flags, case_names none success not_there short])
    case none
    then have "start \<noteq> fs_first fs" using 1(7) by (auto simp: free_blocks_def in_fs_blocks word_le_nat_alt)
    then show False using none(2) body 1(6) first by (auto intro: IH)
  next
    case (short en)
    then show False using body 1(8) by (auto intro: IH)
  qed (use 1 in auto)
qed

lemma run_needed:
  assumes "range_ready wf ops bits e fs bm len" "run_of (free_blocks bits fs) (needed flags len) x"
  shows "x \<in> free_blocks bits fs" "x \<in> fs_blocks fs"
proof -
  have "0 < len" using assms(1) by (simp add: range_ready_def)
  then show "x \<in> free_blocks bits fs" by (rule run_of_member [OF assms(2) conjunct1 [OF needed_pos]])
  then show "x \<in> fs_blocks fs" by (simp add: free_blocks_def)
qed

text \<open>Searches that come to an end.\<close>

lemma range_ends_looped:
  assumes r: "range_ready wf ops bits e fs bm len" and start: "start \<in> fs_blocks fs" and last: "last_block fs \<in> free_blocks bits fs" and nofix: "\<not> is_fixed flags"
    and inv: "\<And>x. x < start \<or> goal \<le> x \<Longrightarrow> \<not> run_of (free_blocks bits fs) (needed flags len) x"
  shows "\<exists>res. new_range_loop e fs bm flags goal len True start = Some res \<and> range_result bits fs flags goal len res"
  using start inv
proof (induction "unat (fs_count fs) - unat start" arbitrary: start rule: less_induct)
  case less
  show ?case
  proof (cases "start \<le> goal")
    case False
    then have "x < start \<or> goal \<le> x" for x by (cases "goal \<le> x") auto
    then show ?thesis using False less.prems(2) nofix
      by (subst new_range_loop_body) (auto simp: range_body_def range_result_def)
  next
    case True
    then have go: "\<not> (True \<and> \<not> start \<le> goal)" by simp
    have ls: "start \<le> last_block fs" using less.prems(1) unat_last [of fs] by (cases "fs_count fs = 0") (auto simp: in_fs_blocks word_le_nat_alt)
    have "\<exists>res. range_body (new_range_loop e fs bm flags goal len) e fs bm flags goal len True start = Some res
        \<and> range_result bits fs flags goal len res"
    proof (cases rule: range_next [OF r less.prems(1) go, of "new_range_loop e fs bm flags goal len" flags, case_names none success not_there short])
      case none
      with last ls show ?thesis by blast
    next
      case (short en)
      have lt: "\<not> run_of (free_blocks bits fs) (needed flags len) x" if "x < en \<or> goal \<le> x" for x
        using that short(3) [of x] less.prems(2) [of x] by (cases "start \<le> x") (auto simp: not_le)
      show ?thesis
      proof (cases "en \<in> fs_blocks fs")
        case True
        then have "range_body (new_range_loop e fs bm flags goal len) e fs bm flags goal len True start = new_range_loop e fs bm flags goal len True en"
          using short(4) by (auto simp: in_fs_blocks)
        moreover have "unat (fs_count fs) - unat en < unat (fs_count fs) - unat start"
          using short(2) less.prems(1) by (auto simp: in_fs_blocks word_less_nat_alt)
        ultimately show ?thesis using less.hyps [OF _ True lt] by simp
      next
        case False
        have "\<not> run_of (free_blocks bits fs) (needed flags len) x" for x
        proof
          assume a: "run_of (free_blocks bits fs) (needed flags len) x"
          then have "x \<in> fs_blocks fs" by (rule run_needed [OF r])
          then show False using lt [of x] a False short(4) by (auto simp: fs_blocks_def)
        qed
        then show ?thesis using False short(4) nofix by (auto simp: range_result_def)
      qed
    qed (use nofix in auto)
    then show ?thesis unfolding new_range_loop_body [of e fs bm flags goal len True start] .
  qed
qed

text \<open>Nothing is free; or the last block is; or there is a run that is long enough.\<close>

lemma range_ends_last:
  assumes r: "range_ready wf ops bits e fs bm len" and start: "start \<in> fs_blocks fs" and last: "last_block fs \<in> free_blocks bits fs" and nofix: "\<not> is_fixed flags"
    and inv: "\<And>x. goal \<le> x \<Longrightarrow> x < start \<Longrightarrow> \<not> run_of (free_blocks bits fs) (needed flags len) x"
  shows "\<exists>res. new_range_loop e fs bm flags goal len False start = Some res \<and> range_result bits fs flags goal len res"
  using start inv
proof (induction "unat (fs_count fs) - unat start" arbitrary: start rule: less_induct)
  case less
  have go: "\<not> (False \<and> \<not> start \<le> goal)" by simp
  have ls: "start \<le> last_block fs" using less.prems(1) unat_last [of fs] by (cases "fs_count fs = 0") (auto simp: in_fs_blocks word_le_nat_alt)
  have "\<exists>res. range_body (new_range_loop e fs bm flags goal len) e fs bm flags goal len False start = Some res
      \<and> range_result bits fs flags goal len res"
  proof (cases rule: range_next [OF r less.prems(1) go, of "new_range_loop e fs bm flags goal len" flags, case_names none success not_there short])
    case none
    with last ls show ?thesis by blast
  next
    case (short en)
    have lt: "\<not> run_of (free_blocks bits fs) (needed flags len) x" if "goal \<le> x" "x < en" for x
      using that short(3) [of x] less.prems(2) [of x] by (cases "start \<le> x") (auto simp: not_le)
    show ?thesis
    proof (cases "en \<in> fs_blocks fs")
      case True
      then have "range_body (new_range_loop e fs bm flags goal len) e fs bm flags goal len False start = new_range_loop e fs bm flags goal len False en"
        using short(4) by (auto simp: in_fs_blocks)
      moreover have "unat (fs_count fs) - unat en < unat (fs_count fs) - unat start"
        using short(2) less.prems(1) by (auto simp: in_fs_blocks word_less_nat_alt)
      ultimately show ?thesis using less.hyps [OF _ True lt] by simp
    next
      case False
      then have en: "en = fs_count fs"
        and b: "range_body (new_range_loop e fs bm flags goal len) e fs bm flags goal len False start = new_range_loop e fs bm flags goal len True (fs_first fs)"
        using short(4) by auto
      have "fs_first fs \<in> fs_blocks fs" using less.prems(1) by (auto simp: in_fs_blocks)
      moreover have "\<not> run_of (free_blocks bits fs) (needed flags len) x" if "x < fs_first fs \<or> goal \<le> x" for x
        using that lt [of x] run_needed(2) [OF r, of flags x] by (auto simp: en fs_blocks_def)
      ultimately show ?thesis unfolding b using range_ends_looped [OF r _ last nofix] by blast
    qed
  qed (use nofix in auto)
  then show ?case unfolding new_range_loop_body [of e fs bm flags goal len False start] .
qed

lemma range_ends_run:
  assumes r: "range_ready wf ops bits e fs bm len" and start: "start \<in> fs_blocks fs" and last: "last_block fs \<notin> free_blocks bits fs" and nofix: "\<not> is_fixed flags"
    and g: "run_of (free_blocks bits fs) (needed flags len) g"
  shows "\<exists>res. new_range_loop e fs bm flags goal len False start = Some res \<and> range_result bits fs flags goal len res"
proof -
  let ?L = "new_range_loop e fs bm flags goal len"
  have go: "\<not> (False \<and> \<not> start \<le> goal)" for start by simp
  have gb: "g \<in> free_blocks bits fs" by (rule run_needed [OF r g])
  then have gfs: "g \<in> fs_blocks fs" "fs_first fs \<le> g" by (simp_all add: free_blocks_def fs_blocks_def)
  have dec: "unat (fs_count fs) - unat en < unat (fs_count fs) - unat start" if "start < en" "start \<in> fs_blocks fs" for start en
    using that by (auto simp: in_fs_blocks word_less_nat_alt)
  have before: "\<exists>res. ?L False start = Some res \<and> range_result bits fs flags goal len res" if "start \<in> fs_blocks fs" "start \<le> g" for start
    using that
  proof (induction "unat (fs_count fs) - unat start" arbitrary: start rule: less_induct)
    case less
    have "\<exists>res. range_body ?L e fs bm flags goal len False start = Some res \<and> range_result bits fs flags goal len res"
    proof (cases rule: range_next [OF r less.prems(1) go, of ?L flags, case_names none success not_there short])
      case none
      with gb less.prems(2) show ?thesis by blast
    next
      case (short en)
      then have "range_body ?L e fs bm flags goal len False start = ?L False en" "en \<in> fs_blocks fs" using last by auto
      moreover have "en \<le> g" using short(3) [of g] g less.prems(2) by (auto simp: not_le [symmetric])
      ultimately show ?thesis using less.hyps [OF dec [OF short(2) less.prems(1)]] by simp
    qed (use nofix in auto)
    then show ?case unfolding new_range_loop_body [of e fs bm flags goal len False start] .
  qed
  show ?thesis
    using start
  proof (induction "unat (fs_count fs) - unat start" arbitrary: start rule: less_induct)
    case less
    have ff: "fs_first fs \<in> fs_blocks fs" using less.prems by (auto simp: in_fs_blocks)
    have "\<exists>res. range_body ?L e fs bm flags goal len False start = Some res \<and> range_result bits fs flags goal len res"
    proof (cases rule: range_next [OF r less.prems go, of ?L flags, case_names none success not_there short])
      case none
      then have "start \<noteq> fs_first fs" using gb gfs(2) by auto
      then show ?thesis using none(2) nofix before [OF ff gfs(2)] by simp
    next
      case (short en)
      then have "range_body ?L e fs bm flags goal len False start = ?L False en" "en \<in> fs_blocks fs" using last by auto
      then show ?thesis using less.hyps [OF dec [OF short(2) less.prems]] by simp
    qed (use nofix in auto)
    then show ?case unfolding new_range_loop_body [of e fs bm flags goal len False start] .
  qed
qed

lemma range_ends_none:
  assumes r: "range_ready wf ops bits e fs bm len" and start: "start \<in> fs_blocks fs" and free: "free_blocks bits fs = {}" and nofix: "\<not> is_fixed flags"
  shows "\<exists>res. new_range_loop e fs bm flags goal len False start = Some res \<and> range_result bits fs flags goal len res"
proof -
  let ?L = "new_range_loop e fs bm flags goal len"
  have go: "\<not> (False \<and> \<not> start \<le> goal)" for start by simp
  have no: "\<not> run_of (free_blocks bits fs) (needed flags len) x" for x
    using run_needed(1) [OF r] free by blast
  have res: "range_result bits fs flags goal len (Inl EXT2_ET_BLOCK_ALLOC_FAIL)" using no by (simp add: range_result_def)
  have step: "range_body ?L e fs bm flags goal len False start =
      (if start = fs_first fs then Some (Inl EXT2_ET_BLOCK_ALLOC_FAIL) else ?L False (fs_first fs))" if "start \<in> fs_blocks fs" for start
  proof (cases rule: range_next [OF r that go, of ?L flags, case_names none success not_there short])
    case (short en)
    with free show ?thesis by blast
  qed (use nofix no in auto)
  have ff: "fs_first fs \<in> fs_blocks fs" using start by (auto simp: in_fs_blocks)
  have "?L False (fs_first fs) = Some (Inl EXT2_ET_BLOCK_ALLOC_FAIL)"
    by (rule trans [OF new_range_loop_body]) (simp add: step [OF ff])
  then have "?L False start = Some (Inl EXT2_ET_BLOCK_ALLOC_FAIL)"
    by (intro trans [OF new_range_loop_body]) (simp add: step [OF start])
  then show ?thesis using res by simp
qed

lemma range_ends_fixed:
  assumes r: "range_ready wf ops bits e fs bm len" and goal: "goal \<in> fs_blocks fs" and fixed: "is_fixed flags"
  shows "\<exists>res. new_range_loop e fs bm flags goal len False goal = Some res \<and> range_result bits fs flags goal len res"
proof -
  have go: "\<not> (False \<and> \<not> goal \<le> goal)" by simp
  have "\<exists>res. range_body (new_range_loop e fs bm flags goal len) e fs bm flags goal len False goal = Some res
      \<and> range_result bits fs flags goal len res"
  proof (cases rule: range_next [OF r goal go, of "new_range_loop e fs bm flags goal len" flags, case_names none success not_there short])
    case none
    then have "\<not> run_of (free_blocks bits fs) (needed flags len) goal" using run_needed(1) [OF r] by blast
    then show ?thesis using none(2) fixed by (simp add: range_result_def)
  next
    case not_there
    then show ?thesis by (simp add: range_result_def)
  qed (use fixed in auto)
  then show ?thesis unfolding new_range_loop_body [of e fs bm flags goal len False goal] .
qed

text \<open>When the search does not return.\<close>

lemma range_loop_law:
  assumes r: "range_ready wf ops bits e fs bm len" and goal: "goal \<in> fs_blocks fs"
  shows "case new_range_loop e fs bm flags goal len False goal of
      None \<Rightarrow> range_endless bits fs flags len
    | Some res \<Rightarrow> range_result bits fs flags goal len res \<and> \<not> range_endless bits fs flags len"
proof (cases "range_endless bits fs flags len")
  case True
  then have "new_range_loop e fs bm flags goal len False goal = None"
    using range_hangs [of e fs bm flags goal len False goal] r goal
    by (cases "new_range_loop e fs bm flags goal len False goal") (auto simp: range_endless_def)
  then show ?thesis using True by simp
next
  case False
  have "\<exists>res. new_range_loop e fs bm flags goal len False goal = Some res \<and> range_result bits fs flags goal len res"
  proof (cases "is_fixed flags")
    case True
    then show ?thesis by (rule range_ends_fixed [OF r goal])
  next
    case nofix: False
    then consider "free_blocks bits fs = {}" | "last_block fs \<in> free_blocks bits fs"
      | x where "last_block fs \<notin> free_blocks bits fs" "run_of (free_blocks bits fs) (needed flags len) x"
      using False unfolding range_endless_def by blast
    then show ?thesis
    proof cases
      case 2
      then show ?thesis by (rule range_ends_last [OF r goal _ nofix]) auto
    qed (use range_ends_none [OF r goal _ nofix] range_ends_run [OF r goal _ nofix] in blast)+
  qed
  then show ?thesis using False by auto
qed

end

end
