(* ===== verification/Alloc_Runs.thy ===== *)
theory Alloc_Runs
  imports Alloc_Range
begin

text \<open>
  The properties of the allocation of blocks on the two back ends of the bitmaps: single blocks, sequences
  of allocations and frees, and runs of blocks, with the case in which the search for a run never ends.
\<close>

section \<open>Runs\<close>

text \<open>What stays the same when descriptors are only marked as initialized.\<close>

definition same_alloc_state :: "('p bmap64 \<Rightarrow> bool) \<Rightarrow> ('p bmap64 \<Rightarrow> u64 set) \<Rightarrow> ('p, 'q) alloc_env \<Rightarrow> ('p, 'q) alloc_fs \<Rightarrow> ('p, 'q) alloc_fs \<Rightarrow> bool" where
  "same_alloc_state good bits e fs' fs \<longleftrightarrow> (alloc_inv good bits e fs \<longrightarrow> alloc_inv good bits e fs')
     \<and> af_block_map fs' = af_block_map fs \<and> same_layout fs' fs \<and> af_io fs' = af_io fs \<and> af_super fs' = af_super fs"

lemma same_alloc_state_used: "same_alloc_state good bits e fs' fs \<Longrightarrow> used_blocks bits fs' = used_blocks bits fs"
  by (simp add: same_alloc_state_def used_blocks_def)

lemma clear_uninit_loop_law:
  assumes "length (af_groups fs) < 2 ^ 32" "0 < sb_blocks_per_group (af_super fs)" "unat en + 2 ^ 32 \<le> 2 ^ 64"
  shows "\<exists>fs'. clear_uninit_loop e fs b en = Some fs' \<and> same_alloc_state good bits e fs' fs"
  using assms
proof (induction "unat en - unat b" arbitrary: fs b rule: less_induct)
  case less
  show ?case
  proof (cases "b < en")
    case False
    then show ?thesis by (subst clear_uninit_loop.simps) (simp add: same_alloc_state_def)
  next
    case True
    let ?c = "ext2fs_clear_block_uninit e fs (ext2fs_group_of_blk2 fs b)" and ?n = "sb_blocks_per_group (af_super fs)"
    note cu = clear_uninit_alloc [OF less.prems(1), where e = e and g = "ext2fs_group_of_blk2 fs b"]
    have s: "same_alloc_state good bits e ?c fs" using cu by (simp add: same_alloc_state_def)
    have "unat (b + ucast ?n) = unat b + unat ?n"
      using True less.prems(3) unat_lt_32 [of ?n] by (simp add: unat_word_ariths unat_ucast_32_64 word_less_nat_alt)
    moreover have "0 < unat ?n" using less.prems(2) by (simp add: word_less_nat_alt)
    ultimately have "unat en - unat (b + ucast ?n) < unat en - unat b" using True by (simp add: word_less_nat_alt)
    from less.hyps [OF this, of ?c] less.prems s obtain fs' where
      fs': "clear_uninit_loop e ?c (b + ucast ?n) en = Some fs'" "same_alloc_state good bits e fs' ?c"
      by (auto simp: same_alloc_state_def same_layout_def)
    moreover have "same_alloc_state good bits e fs' fs"
      using fs'(2) s same_layout_trans unfolding same_alloc_state_def by metis
    ultimately show ?thesis using True by (subst clear_uninit_loop.simps) simp
  qed
qed

text \<open>The first block that is looked at.\<close>

definition range_goal :: "('p, 'q) alloc_fs \<Rightarrow> u64 \<Rightarrow> u64" where
  "range_goal fs goal = (if goal = 0 \<or> goal \<ge> fs_count fs then fs_first fs else goal)"

text \<open>The requirements on the file system, the goal and the length.\<close>

definition range_args :: "('p, 'q) alloc_fs \<Rightarrow> u32 \<Rightarrow> u64 \<Rightarrow> u64 \<Rightarrow> bool" where
  "range_args fs flags goal len \<longleftrightarrow> flags AND NOT EXT2_NEWRANGE_ALL_FLAGS = 0 \<and> 0 < len \<and> (goal = 0 \<or> fs_first fs \<le> goal)
     \<and> unat (fs_count fs) + unat len \<le> 2 ^ 64 \<and> unat (fs_count fs) + 2 ^ 32 \<le> 2 ^ 64"

context generic_backend
begin

lemma new_range_law:
  assumes inv: "alloc_inv wf bits e fs" and e: "ae_block_ops e = ops" "no_callbacks e"
    and used: "used_blocks bits fs \<noteq> {}" and args: "range_args fs flags goal len"
  shows "case ext2fs_new_range e fs flags goal len None of
      None \<Rightarrow> range_endless bits fs flags len
    | Some (r, fs') \<Rightarrow> \<not> range_endless bits fs flags len \<and> same_alloc_state wf bits e fs' fs
        \<and> range_result bits fs flags (range_goal fs goal) len (map_sum id (\<lambda>(s, n). (s, s + n)) r)"
proof -
  obtain b where b: "af_block_map fs = Some (GB64 b)" "covers e fs b" "groups_ok e fs" using inv by (auto simp: alloc_inv_def wf_alloc_def)
  have a: "flags AND NOT EXT2_NEWRANGE_ALL_FLAGS = 0" "0 < len" "goal = 0 \<or> fs_first fs \<le> goal"
    "unat (fs_count fs) + unat len \<le> 2 ^ 64" "unat (fs_count fs) + 2 ^ 32 \<le> 2 ^ 64"
    using args by (simp_all add: range_args_def)
  have gb: "range_goal fs goal \<in> fs_blocks fs"
    using b(2) a(3) by (auto simp: range_goal_def covers_def fs_blocks_def)
  have ready: "range_ready wf ops bits e fs (GB64 b) len"
    using inv e used b a(2,4) by (simp add: range_ready_def alloc_inv_def)
  note law = range_loop_law [OF ready gb, of flags]
  have "len \<noteq> 0" using a(2) by auto
  then have eq: "ext2fs_new_range e fs flags goal len None = do {
      r \<leftarrow> new_range_loop e fs (GB64 b) flags (range_goal fs goal) len False (range_goal fs goal);
      case r of
        Inl err \<Rightarrow> Some (Inl err, fs)
      | Inr (start, en) \<Rightarrow> map_option (Pair (Inr (start, en - start))) (clear_uninit_loop e fs start en) }"
    using a(1) e(2)
    by (simp add: ext2fs_new_range_def b(1) no_callbacks_def Let_def range_goal_def fs_first_def fs_count_def)
  show ?thesis
  proof (cases "new_range_loop e fs (GB64 b) flags (range_goal fs goal) len False (range_goal fs goal)")
    case None
    then show ?thesis using law by (simp add: eq)
  next
    case (Some res)
    show ?thesis
    proof (cases res)
      case (Inl err)
      then show ?thesis using Some law by (simp add: eq same_alloc_state_def)
    next
      case (Inr p)
      obtain s en where p: "p = (s, en)" by (rule prod.exhaust)
      have rr: "range_result bits fs flags (range_goal fs goal) len (Inr (s, en))" using law Some Inr p by simp
      have len: "unat en \<le> unat (fs_count fs)"
      proof (rule ccontr)
        assume n: "\<not> unat en \<le> unat (fs_count fs)"
        have "s < en" "run_of (free_blocks bits fs) (unat en - unat s) s" using rr by (auto simp: range_result_def)
        moreover have "fs_count fs \<noteq> 0" using b(2) by (auto simp: covers_def)
        ultimately have s: "s \<in> fs_blocks fs"
          using run_of_member by (fastforce simp: free_blocks_def word_less_nat_alt)
        then have "fs_count fs \<in> run s (unat en - unat s)"
          using n \<open>s < en\<close> by (auto simp: run_def in_fs_blocks word_le_nat_alt word_less_nat_alt)
        then have "fs_count fs \<in> fs_blocks fs" using \<open>run_of _ _ s\<close> by (auto simp: run_of_def free_blocks_def)
        then show False by (simp add: in_fs_blocks)
      qed
      have "length (af_groups fs) < 2 ^ 32" "0 < sb_blocks_per_group (af_super fs)" using b(3) by (simp_all add: groups_ok_def)
      moreover have "unat en + 2 ^ 32 \<le> 2 ^ 64" using len a(5) by simp
      ultimately obtain fs' where "clear_uninit_loop e fs s en = Some fs'" "same_alloc_state wf bits e fs' fs"
        using clear_uninit_loop_law by blast
      then show ?thesis using Some Inr p law by (simp add: eq)
    qed
  qed
qed

end

section \<open>Counting a run\<close>

text \<open>
  The counts for a given set of free blocks, in a file system whose clusters are single blocks: while the
  loop runs, the bitmap is ahead of the counts.
\<close>

definition counts_for :: "u64 set \<Rightarrow> ('p, 'q) alloc_fs \<Rightarrow> bool" where
  "counts_for A fs \<longleftrightarrow>
     (\<forall>g. unat g < length (af_groups fs) \<longrightarrow>
        ext2fs_bg_free_blocks_count fs g = take_bit (group_width fs) (of_nat (card {x \<in> A. ext2fs_group_of_blk2 fs x = g})))
     \<and> ext2fs_free_blocks_count (af_super fs) = take_bit (super_width fs) (of_nat (card A))"

lemma counts_for_free:
  assumes "ae_cluster_ratio_bits e = 0"
  shows "counts_ok bits e fs = counts_for (free_blocks bits fs) fs"
proof -
  have "fs_cluster e = id" using assms by (simp add: fs_cluster_def fun_eq_iff)
  then show ?thesis using assms by (simp add: counts_ok_def counts_for_def group_free_def)
qed

lemma ucast_diff_down: "(ucast (ucast (a :: u32) - (m :: u64)) :: u32) = a - ucast m"
proof transfer
  fix a m :: int
  have "(a - m mod 2 ^ 64) mod 2 ^ 32 = (a - m mod 2 ^ 64 mod 2 ^ 32) mod 2 ^ 32" by (rule mod_diff_right_eq [symmetric])
  also have "m mod 2 ^ 64 mod 2 ^ 32 = m mod 2 ^ 32" by (rule mod_mod_cancel) (simp add: le_imp_power_dvd)
  also have "(a - m mod 2 ^ 32) mod 2 ^ 32 = (a - m) mod 2 ^ 32" by (rule mod_diff_right_eq)
  finally show "take_bit LENGTH(32) (take_bit LENGTH(64) (take_bit LENGTH(32) a - m)) = take_bit LENGTH(32) (a - take_bit LENGTH(64) m)"
    by (simp add: take_bit_eq_mod mod_simps mod_mod_cancel)
qed

lemma counts_for_step:
  assumes g: "unat g < length (af_groups fs)" and c: "counts_for A fs" and sub: "C \<subseteq> A" "\<And>x. x \<in> C \<Longrightarrow> ext2fs_group_of_blk2 fs x = g"
    and n: "n = ext2fs_bg_free_blocks_count fs g - of_nat (card C)" and m: "m = - of_nat (card C)"
  shows "counts_for (A - C) (count_step e fs g n m)"
proof -
  note ce = count_step_effect [OF g, where e = e and n = n and m = m]
  note sl = same_layout_facts [OF ce(1)]
  have l: "length (af_groups (count_step e fs g n m)) = length (af_groups fs)" using ce(1) by (simp add: same_layout_def)
  have fin: "finite (X :: u64 set)" for X by simp
  have cardC: "card (A - C) = card A - card C" "card C \<le> card A" using sub(1) by (simp_all add: card_Diff_subset card_mono)
  have sets: "{x \<in> A - C. ext2fs_group_of_blk2 fs x = g} = {x \<in> A. ext2fs_group_of_blk2 fs x = g} - C"
    "h \<noteq> g \<Longrightarrow> {x \<in> A - C. ext2fs_group_of_blk2 fs x = h} = {x \<in> A. ext2fs_group_of_blk2 fs x = h}" for h
    using sub(2) by auto
  have subg: "C \<subseteq> {x \<in> A. ext2fs_group_of_blk2 fs x = g}" using sub by auto
  have cg: "card ({x \<in> A. ext2fs_group_of_blk2 fs x = g} - C) = card {x \<in> A. ext2fs_group_of_blk2 fs x = g} - card C"
    "card C \<le> card {x \<in> A. ext2fs_group_of_blk2 fs x = g}"
    using subg by (simp_all add: card_Diff_subset card_mono)
  have 1: "take_bit (group_width fs) n = take_bit (group_width fs) (of_nat (card {x \<in> A. ext2fs_group_of_blk2 fs x = g} - card C))"
    using c g cg(2) unfolding n by (simp add: counts_for_def take_bit_minus of_nat_diff)
  have 2: "take_bit (super_width fs) (ext2fs_free_blocks_count (af_super fs) + m) = take_bit (super_width fs) (of_nat (card A - card C))"
    using c cardC(2) unfolding m by (simp add: counts_for_def take_bit_minus of_nat_diff)
  show ?thesis
    unfolding counts_for_def l sl ce(5,6)
  proof (intro conjI allI impI)
    fix h :: u32 assume h: "unat h < length (af_groups fs)"
    show "(if h = g then take_bit (group_width fs) n else ext2fs_bg_free_blocks_count fs h)
        = take_bit (group_width fs) (of_nat (card {x \<in> A - C. ext2fs_group_of_blk2 fs x = h}))"
    proof (cases "h = g")
      case True
      then show ?thesis using 1 by (simp only: sets(1) cg(1) if_True simp_thms)
    next
      case False
      then show ?thesis using c h by (simp only: sets(2) [OF False] if_False counts_for_def)
    qed
  qed (simp only: 2 cardC(1))
qed

text \<open>The part of a run that lies in the group of its first block.\<close>

lemma group_part:
  assumes ok: "groups_ok e fs" and blk: "blk \<in> fs_blocks fs" and fit: "unat (fs_count fs) + 2 ^ 32 \<le> 2 ^ 64"
    and num: "0 < unat num" "unat blk + unat num \<le> unat (fs_count fs)"
  defines "n \<equiv> (if blk + ucast num > ext2fs_group_last_block2 fs (ext2fs_group_of_blk2 fs blk)
      then ext2fs_group_last_block2 fs (ext2fs_group_of_blk2 fs blk) - blk + 1 else ucast (num :: u32))"
  shows "0 < unat n" "unat n \<le> unat num" "\<And>x. x \<in> run blk (unat n) \<Longrightarrow> ext2fs_group_of_blk2 fs x = ext2fs_group_of_blk2 fs blk"
proof -
  let ?g = "ext2fs_group_of_blk2 fs blk" and ?F = "unat (fs_first fs)" and ?B = "unat (sb_blocks_per_group (af_super fs))" and ?X = "unat blk"
  let ?C = "unat (fs_count fs)" and ?L = "length (af_groups fs)" and ?last = "ext2fs_group_last_block2 fs (ext2fs_group_of_blk2 fs blk)"
  have B: "0 < ?B" using ok by (simp add: groups_ok_def word_less_nat_alt)
  have L: "?L < 2 ^ 32" "?C - ?F \<le> ?L * ?B" using ok by (simp_all add: groups_ok_def)
  have X: "?F \<le> ?X" "?X < ?C" using blk by (simp_all add: in_fs_blocks)
  have G: "unat ?g = (?X - ?F) div ?B" "unat ?g < ?L" by (rule group_number [OF ok blk])+
  have GX: "unat ?g * ?B \<le> ?X - ?F" "?X - ?F < unat ?g * ?B + ?B"
    unfolding G(1) using B div_mod_decomp [of "?X - ?F" ?B] mod_less_divisor [OF B, of "?X - ?F"] by linarith+
  have C32: "unat (group_desc_count fs - 1) = ?L - 1"
    using L(1) G(2) by (simp add: group_desc_count_def unat_sub_if_size unat_of_nat word_size)
  have c0: "fs_count fs \<noteq> 0" using X by auto
  have last: "?X \<le> unat ?last" "unat ?last < unat ?g * ?B + ?B + ?F \<or> unat ?last = ?C - 1 \<and> unat ?g = ?L - 1" "unat ?last < 2 ^ 64 - 1"
  proof -
    have "?X \<le> unat ?last \<and> (unat ?last < unat ?g * ?B + ?B + ?F \<or> unat ?last = ?C - 1 \<and> unat ?g = ?L - 1) \<and> unat ?last < 2 ^ 64 - 1"
    proof (cases "?g = group_desc_count fs - 1")
      case True
      then have "unat ?last = ?C - 1" "unat ?g = ?L - 1"
        using unat_minus_one [OF c0] C32 by (simp_all add: ext2fs_group_last_block2_def fs_count_def)
      then show ?thesis using X fit by auto
    next
      case False
      have b: "unat (sb_blocks_per_group (af_super fs) - 1) = ?B - 1" using B by (intro unat_minus_one) auto
      have B32: "?B < 2 ^ 32" by (rule unat_lt_32)
      have "unat (EXT2_GROUPS_TO_BLOCKS (af_super fs) ?g) = unat ?g * ?B"
        using GX(1) X fit by (simp add: EXT2_GROUPS_TO_BLOCKS_def unat_word_ariths unat_ucast_32_64 mult.commute)
      then have "unat (ext2fs_group_first_block2 fs ?g) = ?F + unat ?g * ?B"
        using GX(1) X fit by (simp add: ext2fs_group_first_block2_def unat_word_ariths fs_first_def [symmetric])
      then have "unat ?last = ?F + unat ?g * ?B + (?B - 1)"
        using False GX(1) X fit B32 by (simp add: ext2fs_group_last_block2_def unat_word_ariths unat_ucast_32_64 b)
      then show ?thesis using GX X B B32 fit by linarith
    qed
    then show "?X \<le> unat ?last" "unat ?last < unat ?g * ?B + ?B + ?F \<or> unat ?last = ?C - 1 \<and> unat ?g = ?L - 1" "unat ?last < 2 ^ 64 - 1" by blast+
  qed
  have bn: "unat (blk + ucast num :: u64) = ?X + unat num"
    using num(2) fit by (simp add: unat_word_ariths unat_ucast_32_64)
  have nn: "unat n = (if ?X + unat num > unat ?last then unat ?last - ?X + 1 else unat num)"
  proof -
    have "unat (?last - blk + 1) = unat ?last - ?X + 1"
    proof -
      have "unat (?last - blk) = unat ?last - ?X" using last(1) by (simp add: unat_sub word_le_nat_alt)
      then show ?thesis using last(3) by (simp add: unat_word_ariths)
    qed
    then show ?thesis by (simp add: n_def word_less_nat_alt bn unat_ucast_32_64)
  qed
  show "0 < unat n" "unat n \<le> unat num" using nn num(1) last(1) by auto
  show "ext2fs_group_of_blk2 fs x = ?g" if x: "x \<in> run blk (unat n)" for x
  proof -
    have xx: "?X \<le> unat x" "unat x < ?X + unat n" "unat x \<le> unat ?last"
      using x nn last(1) by (auto simp: run_def word_le_nat_alt split: if_splits)
    have xb: "x \<in> fs_blocks fs" using xx X num(2) nn last(1) by (auto simp: in_fs_blocks split: if_splits)
    have "(unat x - ?F) div ?B = unat ?g"
    proof (rule div_nat_eqI)
      show "?B * unat ?g \<le> unat x - ?F" using GX(1) xx(1) by (simp add: mult.commute)
      have "unat x - ?F < unat ?g * ?B + ?B"
      proof (cases "unat ?last < unat ?g * ?B + ?B + ?F")
        case False
        then have "unat ?g = ?L - 1" using last(2) by simp
        then have "?L * ?B = unat ?g * ?B + ?B" using G(2) by (cases ?L) simp_all
        moreover have "unat x < ?C" using xb by (simp add: in_fs_blocks)
        ultimately show ?thesis using L(2) X xx(1) by linarith
      qed (use xx B in linarith)
      then show "unat x - ?F < ?B * Suc (unat ?g)" by (simp add: mult.commute)
    qed
    then have "unat (ext2fs_group_of_blk2 fs x) = unat ?g" using group_number(1) [OF ok xb] by simp
    then show ?thesis by (simp add: word_unat_eq_iff)
  qed
qed


lemma alloc_stats_loop_law:
  assumes "groups_ok e fs" "ae_cluster_ratio_bits e = 0" "counts_for A fs" "blk \<in> fs_blocks fs \<or> num = 0"
    and "unat blk + unat num \<le> unat (fs_count fs)" "unat (fs_count fs) + 2 ^ 32 \<le> 2 ^ 64" "run blk (unat num) \<subseteq> A"
  shows "\<exists>fs'. alloc_stats_loop e fs blk num 1 = Some (fs', blk + ucast num, 0) \<and> counts_for (A - run blk (unat num)) fs'
    \<and> same_layout fs' fs \<and> af_block_map fs' = af_block_map fs \<and> af_io fs' = af_io fs"
  using assms
proof (induction "unat num" arbitrary: fs A blk num rule: less_induct)
  case less
  show ?case
  proof (cases "num = 0")
    case True
    then show ?thesis using less.prems(3) by (subst alloc_stats_loop.simps) simp
  next
    case False
    then have num: "0 < unat num" by (simp add: unat_gt_0)
    have blk: "blk \<in> fs_blocks fs" using less.prems(4) False by simp
    let ?g = "ext2fs_group_of_blk2 fs blk"
    define n where "n = (if blk + ucast num > ext2fs_group_last_block2 fs ?g then ext2fs_group_last_block2 fs ?g - blk + 1 else (ucast num :: u64))"
    note gp = group_part [OF less.prems(1) blk less.prems(6) num less.prems(5), folded n_def]
    note g = group_number(2) [OF less.prems(1) blk]
    let ?C = "run blk (unat n)"
    have n32: "unat n < 2 ^ 32" using gp(2) unat_lt_32 [of num] by linarith
    have bn: "unat (blk + n) = unat blk + unat n" using gp(2) less.prems(5,6) by (simp add: unat_word_ariths)
    have un: "unat (ucast n :: u32) = unat n" using n32 by (simp add: unsigned_ucast_eq take_bit_nat_eq_self)
    have un2: "unat (num - ucast n) = unat num - unat n" using gp(2) by (simp add: unat_sub word_le_nat_alt un)
    have card: "card ?C = unat n"
    proof -
      have "?C = (of_nat :: nat \<Rightarrow> u64) ` {unat blk..<unat blk + unat n}"
      proof (intro set_eqI iffI)
        fix x assume "x \<in> ?C"
        then show "x \<in> of_nat ` {unat blk..<unat blk + unat n}"
          by (intro image_eqI [of _ _ "unat x"]) (auto simp: run_def word_le_nat_alt)
      next
        fix x assume "x \<in> (of_nat :: nat \<Rightarrow> u64) ` {unat blk..<unat blk + unat n}"
        then obtain k where k: "x = of_nat k" "unat blk \<le> k" "k < unat blk + unat n" by auto
        then have "unat x = k" using bn unsigned_less [of "blk + n", where ?'a = nat] by (simp add: unat_of_nat)
        then show "x \<in> ?C" using k by (simp add: run_def word_le_nat_alt)
      qed
      moreover have "inj_on (of_nat :: nat \<Rightarrow> u64) {unat blk..<unat blk + unat n}"
      proof (rule inj_onI)
        fix a b assume ab: "a \<in> {unat blk..<unat blk + unat n}" "b \<in> {unat blk..<unat blk + unat n}" "(of_nat a :: u64) = of_nat b"
        then have "unat (of_nat a :: u64) = unat (of_nat b :: u64)" by simp
        then show "a = b" using ab(1,2) bn unsigned_less [of "blk + n", where ?'a = nat] by (simp add: unat_of_nat)
      qed
      ultimately show ?thesis by (simp add: card_image)
    qed
    have nn: "n = of_nat (unat n)" "(ucast n :: u32) = of_nat (unat n)" using un by (simp_all add: word_unat_eq_iff)
    have ratio: "EXT2FS_CLUSTER_RATIO e = 1" using less.prems(2) by (simp add: EXT2FS_CLUSTER_RATIO_def)
    let ?fs = "count_step e fs ?g (ext2fs_bg_free_blocks_count fs ?g - of_nat (card ?C)) (- of_nat (card ?C))"
    have sub: "?C \<subseteq> A" using less.prems(7) gp(2) by (auto simp: run_def)
    have step: "alloc_stats_loop e fs blk num 1 = alloc_stats_loop e ?fs (blk + n) (num - ucast n) 1"
      using False by (subst alloc_stats_loop.simps)
        (simp add: Let_def n_def [symmetric] count_step_def ratio ucast_diff_down card nn [symmetric])
    note ce = count_step_effect [OF g, where e = e and n = "ext2fs_bg_free_blocks_count fs ?g - of_nat (card ?C)" and m = "- of_nat (card ?C)"]
    have sl: "same_layout ?fs fs" by (rule ce(1))
    note sf = same_layout_facts [OF sl]
    have eqs: "fs_count ?fs = fs_count fs" using sl by (simp add: same_layout_def)
    have runs: "A - run blk (unat num) = A - ?C - run (blk + n) (unat num - unat n)"
      using gp(2) bn by (auto simp: run_def word_le_nat_alt)
    have "\<exists>fs'. alloc_stats_loop e ?fs (blk + n) (num - ucast n) 1 = Some (fs', blk + n + ucast (num - ucast n), 0)
      \<and> counts_for (A - ?C - run (blk + n) (unat (num - ucast n))) fs'
      \<and> same_layout fs' ?fs \<and> af_block_map fs' = af_block_map ?fs \<and> af_io fs' = af_io ?fs"
    proof (rule less.hyps)
      show "unat (num - ucast n) < unat num" using gp(1) num by (simp add: un2)
      show "groups_ok e ?fs" using less.prems(1) sf(5) by simp
      show "ae_cluster_ratio_bits e = 0" by fact
      show "counts_for (A - ?C) ?fs" by (rule counts_for_step [OF g less.prems(3) sub gp(3) refl refl])
      show "blk + n \<in> fs_blocks ?fs \<or> num - ucast n = 0"
        using less.prems(5) blk gp(2) by (auto simp: sf(1) in_fs_blocks bn unat_eq_0 [symmetric] un2)
      show "unat (blk + n) + unat (num - ucast n) \<le> unat (fs_count ?fs)"
        using less.prems(5) gp(2) by (simp add: eqs bn un2)
      show "unat (fs_count ?fs) + 2 ^ 32 \<le> 2 ^ 64" using less.prems(6) by (simp add: eqs)
      show "run (blk + n) (unat (num - ucast n)) \<subseteq> A - ?C"
        using less.prems(7) gp(2) by (auto simp: run_def word_le_nat_alt bn un2)
    qed
    then obtain fs' where fs': "alloc_stats_loop e ?fs (blk + n) (num - ucast n) 1 = Some (fs', blk + n + ucast (num - ucast n), 0)"
      "counts_for (A - ?C - run (blk + n) (unat (num - ucast n))) fs'"
      "same_layout fs' ?fs" "af_block_map fs' = af_block_map ?fs" "af_io fs' = af_io ?fs" by blast
    have "ucast (num - ucast n) = ucast num - n"
      using gp(2) by (simp add: word_unat_eq_iff [where ?'a = 64] unat_sub word_le_nat_alt unat_ucast_32_64 un2)
    then have "blk + n + ucast (num - ucast n) = blk + ucast num" by simp
    then show ?thesis using fs' step runs ce(2,3) same_layout_trans [OF fs'(3) sl] by (simp add: un2)
  qed
qed


end
