(* ===== verification/Alloc_Zero.thy ===== *)
theory Alloc_Zero
  imports Alloc_Runs
begin

text \<open>
  Runs that are zeroed and taken: \<open>ext2fs_zero_blocks2\<close> sets every block of the run and no other, and
  \<open>ext2fs_alloc_range\<close> on top of it.
\<close>

section \<open>Zeroing\<close>

text \<open>The device with the blocks of a run set to zero.\<close>

definition zeroed :: "fs_env \<Rightarrow> fs_state \<Rightarrow> u64 \<Rightarrow> nat \<Rightarrow> fs_state" where
  "zeroed env io blk n = io\<lparr>fs_dev := (\<lambda>b. if b \<in> run blk n then replicate (fe_blocksize env) 0 else fs_dev io b)\<rparr>"

lemma zeroed_split:
  assumes "unat blk + m + n \<le> 2 ^ 64"
  shows "zeroed env (zeroed env io blk m) (blk + of_nat m) n = zeroed env io blk (m + n)"
proof (cases "n = 0")
  case False
  then have "unat (blk + of_nat m) = unat blk + m" using assms by (simp add: unat_word_ariths unat_of_nat)
  then show ?thesis by (auto simp: zeroed_def run_def word_le_nat_alt fun_eq_iff)
qed (simp add: zeroed_def)

lemma zeroed_0 [simp]: "zeroed env io blk 0 = io"
  by (simp add: zeroed_def)

lemma io_write_zeros_law:
  "io_write_zeros env n io blk = (None, io') \<Longrightarrow> unat blk + n \<le> 2 ^ 64 \<Longrightarrow> io' = zeroed env io blk n"
proof (induction n arbitrary: io blk)
  case (Suc n)
  let ?z = "zeroed env io blk 1"
  have one: "io\<lparr>fs_dev := (fs_dev io)(blk := replicate (fe_blocksize env) 0)\<rparr> = ?z"
    using run_Suc [of blk 0] Suc.prems(2) by (simp add: zeroed_def fun_upd_def)
  have "io_write_zeros env n ?z (blk + 1) = (None, io')"
    using Suc.prems(1) one by (auto simp: io_write_blk_def split: option.splits)
  moreover have "n = 0 \<or> unat (blk + 1) + n \<le> 2 ^ 64" using Suc.prems(2) unat_succ [of blk] by (cases "blk = - 1") auto
  ultimately have "io' = zeroed env ?z (blk + 1) n" using Suc.IH by (cases "n = 0") auto
  then show ?case using zeroed_split [of blk 1 n env io] Suc.prems(2) by simp
qed simp

text \<open>The number of blocks in the next piece.\<close>

definition zero_piece :: "nat \<Rightarrow> u64 \<Rightarrow> nat \<Rightarrow> nat" where
  "zero_piece stride blk left = (let r = unat blk mod stride in if r \<noteq> 0 then min (stride - r) left else min left stride)"

lemma zero_piece: "0 < stride \<Longrightarrow> 0 < left \<Longrightarrow> 0 < zero_piece stride blk left \<and> zero_piece stride blk left \<le> left"
  using mod_less_divisor [of stride "unat blk"] by (auto simp: zero_piece_def Let_def)

lemma zero_loop_step:
  "0 < stride \<Longrightarrow> 0 < left \<Longrightarrow> zero_loop env stride left io blk =
     (case io_write_zeros env (zero_piece stride blk left) io blk of
        (Some err, io) \<Rightarrow> (Some err, io)
      | (None, io) \<Rightarrow> zero_loop env stride (left - zero_piece stride blk left) io (blk + of_nat (zero_piece stride blk left)))"
  unfolding zero_piece_def Let_def by (rule trans [OF zero_loop.simps]) (simp add: Let_def)

lemma zero_loop_law:
  "zero_loop env stride left io blk = (None, io') \<Longrightarrow> 0 < stride \<Longrightarrow> unat blk + left \<le> 2 ^ 64 \<Longrightarrow> io' = zeroed env io blk left"
proof (induction left arbitrary: io blk rule: less_induct)
  case (less left)
  show ?case
  proof (cases "left = 0")
    case True
    have "zero_loop env stride 0 io blk = (None, io)" by (rule trans [OF zero_loop.simps]) simp
    then show ?thesis using True less.prems(1) by simp
  next
    case False
    let ?c = "zero_piece stride blk left"
    have c: "0 < ?c" "?c \<le> left" using zero_piece [OF less.prems(2)] False by auto
    obtain io1 where io1: "io_write_zeros env ?c io blk = (None, io1)" "zero_loop env stride (left - ?c) io1 (blk + of_nat ?c) = (None, io')"
      using less.prems(1) zero_loop_step [OF less.prems(2), of left env io blk] False by (auto split: prod.splits option.splits)
    have i1: "io1 = zeroed env io blk ?c" using io_write_zeros_law [OF io1(1)] c less.prems(3) by simp
    have "unat (blk + of_nat ?c) + (left - ?c) \<le> 2 ^ 64 \<or> left = ?c"
      using c less.prems(3) by (auto simp: unat_word_ariths unat_of_nat)
    then have "io' = zeroed env io1 (blk + of_nat ?c) (left - ?c)"
      using less.IH [OF _ io1(2) less.prems(2)] c io1(2) zero_loop.simps [of env stride 0 io1] by auto
    then show ?thesis using zeroed_split [of blk ?c "left - ?c" env io] c less.prems(3) by (simp add: i1)
  qed
qed

lemma sint_small:
  assumes "unat (n :: u32) < 2 ^ 31" shows "sint n = int (unat n)"
proof -
  have "int (unat n) < int (2 ^ 31)" using assms by (simp only: of_nat_less_iff)
  then have "- (2 ^ 31) \<le> uint n" "uint n < 2 ^ 31" by (simp_all add: order.trans [OF _ uint_ge_0])
  then have "signed_take_bit 31 (uint n) = uint n" by (rule signed_take_bit_int_eq_self)
  then show ?thesis by (simp add: sint_uint)
qed

text \<open>What zeroing leaves alone, and what it does if there is no error.\<close>

lemma zero_blocks_law:
  assumes "ext2fs_zero_blocks2 e fs blk num = (r, fs')" "0 < fe_blocksize (ae_fs e)" "fe_blocksize (ae_fs e) \<le> 4194304"
    and "unat num < 2 ^ 31" "unat blk + unat num \<le> 2 ^ 64"
  shows "af_super fs' = af_super fs \<and> af_groups fs' = af_groups fs \<and> af_block_map fs' = af_block_map fs"
    and "r = None \<Longrightarrow> af_io fs' = zeroed (ae_fs e) (af_io fs) blk (unat num)"
proof -
  have s: "sint num \<le> 0 \<longleftrightarrow> unat num = 0" unfolding sint_small [OF assms(4)] by (rule of_nat_le_0_iff)
  have z: "(af_io fs)\<lparr>fs_dev := \<lambda>b. if blk \<le> b \<and> unat b < unat blk + unat num then replicate (fe_blocksize (ae_fs e)) 0 else fs_dev (af_io fs) b\<rparr>
      = zeroed (ae_fs e) (af_io fs) blk (unat num)"
    by (simp add: zeroed_def run_def)
  have max: "0 < MAX_STRIDE_LENGTH e" using assms(2,3) by (simp add: MAX_STRIDE_LENGTH_def div_greater_zero_iff)
  note eq = assms(1) [unfolded ext2fs_zero_blocks2_def Let_def s z]
  show "af_super fs' = af_super fs \<and> af_groups fs' = af_groups fs \<and> af_block_map fs' = af_block_map fs"
    using eq by (auto split: if_splits prod.splits)
  show "af_io fs' = zeroed (ae_fs e) (af_io fs) blk (unat num)" if r: "r = None"
  proof (cases "unat num = 0 \<or> ae_zeroout e blk num")
    case True
    then show ?thesis using eq r by (auto split: if_splits)
  next
    case False
    define grow where "grow \<longleftrightarrow> unat num > af_stride fs \<and> af_stride fs < MAX_STRIDE_LENGTH e"
    define st where "st = (if grow then min (unat num) (MAX_STRIDE_LENGTH e) else af_stride fs)"
    have st: "0 < st" using False max by (auto simp: st_def grow_def)
    have "fs' = (fs\<lparr>af_stride := st\<rparr>)\<lparr>af_io := snd (zero_loop (ae_fs e) st (unat num) (af_io fs) blk)\<rparr> 
      \<and> fst (zero_loop (ae_fs e) st (unat num) (af_io fs) blk) = None"
      using eq False r unfolding grow_def [symmetric] st_def by (auto split: if_splits prod.splits)
    then show ?thesis using zero_loop_law [OF _ st assms(5)] by (cases "zero_loop (ae_fs e) st (unat num) (af_io fs) blk") auto
  qed
qed

text \<open>Where no write fails and there is memory, zeroing succeeds.\<close>

definition zero_ok :: "('p, 'q) alloc_env \<Rightarrow> bool" where
  "zero_ok e \<longleftrightarrow> (\<forall>x. fe_write_error (ae_fs e) x = None) \<and> (\<forall>n. ae_realloc e n)"

lemma io_write_zeros_ok: "(\<And>x. fe_write_error env x = None) \<Longrightarrow> fst (io_write_zeros env n io blk) = None"
  by (induction n arbitrary: io blk) (simp_all add: io_write_blk_def)

lemma zero_loop_ok: "(\<And>x. fe_write_error env x = None) \<Longrightarrow> fst (zero_loop env stride left io blk) = None"
proof (induction left arbitrary: io blk rule: less_induct)
  case (less left)
  show ?case
  proof (cases "left = 0 \<or> stride = 0")
    case True
    then show ?thesis by (subst zero_loop.simps) simp
  next
    case False
    let ?c = "zero_piece stride blk left"
    have c: "0 < ?c" using zero_piece [of stride left blk] False by auto
    have "fst (io_write_zeros env ?c io blk) = None" by (rule io_write_zeros_ok) (rule less.prems)
    then obtain io' where "io_write_zeros env ?c io blk = (None, io')" by (cases "io_write_zeros env ?c io blk") simp
    then show ?thesis using zero_loop_step [of stride left env io blk] False less.IH [of "left - ?c"] less.prems c by simp
  qed
qed

lemma zero_blocks_ok: "zero_ok e \<Longrightarrow> fst (ext2fs_zero_blocks2 e fs blk num) = None"
  using zero_loop_ok [of "ae_fs e"] by (auto simp: zero_ok_def ext2fs_zero_blocks2_def Let_def case_prod_unfold)

end
