(* ===== verification/Alloc_Take.thy ===== *)
theory Alloc_Take
  imports Alloc_Zero
begin

text \<open>
  Runs that are taken: \<open>ext2fs_block_alloc_stats_range\<close> marks the blocks of a free run and keeps the counts,
  and \<open>ext2fs_alloc_range\<close> searches, zeroes and takes.
\<close>

section \<open>Taking a run\<close>

lemma counts_for_layout:
  assumes "same_layout fs' fs" "\<And>g. ext2fs_bg_free_blocks_count fs' g = ext2fs_bg_free_blocks_count fs g"
    and "ext2fs_free_blocks_count (af_super fs') = ext2fs_free_blocks_count (af_super fs)"
  shows "counts_for A fs' = counts_for A fs"
  using assms(1) same_layout_facts [OF assms(1)] by (simp add: counts_for_def assms(2,3) same_layout_def)

lemma single_clusters:
  assumes "covers e fs b" "ae_cluster_ratio_bits e = 0"
  shows "cluster_no b x = x" "mates_of_run b s n = run s n"
proof -
  have c: "cluster_no b y = y" for y using assms by (simp add: covers_def cluster_no_def)
  then show "cluster_no b x = x" by simp
  show "mates_of_run b s n = run s n" by (auto simp: mates_of_run_def cluster_mates_def c)
qed

text \<open>The flags of the search.\<close>

definition alloc_newr :: "u32 \<Rightarrow> u32" where
  "alloc_newr flags = EXT2_NEWRANGE_MIN_LENGTH OR (if flags AND EXT2_ALLOCRANGE_FIXED_GOAL \<noteq> 0 then EXT2_NEWRANGE_FIXED_GOAL else 0)"

lemma alloc_newr_facts:
  "alloc_newr flags AND NOT EXT2_NEWRANGE_ALL_FLAGS = 0" "is_fixed (alloc_newr flags) \<longleftrightarrow> flags AND EXT2_ALLOCRANGE_FIXED_GOAL \<noteq> 0"
  "needed (alloc_newr flags) (ucast len) = unat (len :: u32)"
  by (simp_all add: alloc_newr_def EXT2_NEWRANGE_MIN_LENGTH_def EXT2_NEWRANGE_FIXED_GOAL_def EXT2_NEWRANGE_ALL_FLAGS_def
      is_fixed_def needed_def unat_ucast_32_64)

text \<open>What is required of the environment and of the arguments.\<close>

definition take_args :: "('p, 'q) alloc_env \<Rightarrow> ('p, 'q) alloc_fs \<Rightarrow> u32 \<Rightarrow> u64 \<Rightarrow> u32 \<Rightarrow> bool" where
  "take_args e fs flags goal len \<longleftrightarrow> ae_cluster_ratio_bits e = 0 \<and> 0 < fe_blocksize (ae_fs e) \<and> fe_blocksize (ae_fs e) \<le> 4194304
     \<and> flags AND NOT EXT2_ALLOCRANGE_ALL_FLAGS = 0 \<and> 0 < unat len \<and> unat len < 2 ^ 31 \<and> (goal = 0 \<or> fs_first fs \<le> goal)
     \<and> unat (fs_count fs) + 2 ^ 32 \<le> 2 ^ 64"

text \<open>What a run that was taken is, and what a failure means.\<close>

definition take_result ::
    "('p bmap64 \<Rightarrow> u64 set) \<Rightarrow> ('p, 'q) alloc_env \<Rightarrow> ('p, 'q) alloc_fs \<Rightarrow> u32 \<Rightarrow> u64 \<Rightarrow> nat \<Rightarrow> errcode + u64 \<Rightarrow> ('p, 'q) alloc_fs \<Rightarrow> bool" where
  "take_result bits e fs flags goal n r fs' \<longleftrightarrow> (case r of
       Inr s \<Rightarrow> run_of (free_blocks bits fs) n s \<and> (flags AND EXT2_ALLOCRANGE_FIXED_GOAL \<noteq> 0 \<longrightarrow> s = range_goal fs goal)
         \<and> used_blocks bits fs' = used_blocks bits fs \<union> run s n
         \<and> af_io fs' = (if flags AND EXT2_ALLOCRANGE_ZERO_BLOCKS \<noteq> 0 then zeroed (ae_fs e) (af_io fs) s n else af_io fs)
     | Inl err \<Rightarrow> used_blocks bits fs' = used_blocks bits fs
         \<and> (flags AND EXT2_ALLOCRANGE_ZERO_BLOCKS \<noteq> 0 \<and> \<not> zero_ok e \<or> err = EXT2_ET_BLOCK_ALLOC_FAIL
            \<and> (\<forall>x. (flags AND EXT2_ALLOCRANGE_FIXED_GOAL \<noteq> 0 \<longrightarrow> x = range_goal fs goal) \<longrightarrow> \<not> run_of (free_blocks bits fs) n x)))"

context generic_backend
begin

lemma stats_range_law:
  assumes inv: "alloc_inv wf bits e fs" and e: "ae_block_ops e = ops" "no_callbacks e" "ae_cluster_ratio_bits e = 0"
    and num: "0 < unat num" and fit: "unat (fs_count fs) + 2 ^ 32 \<le> 2 ^ 64" and r: "run_of (free_blocks bits fs) (unat num) s"
  shows "\<exists>fs'. ext2fs_block_alloc_stats_range e fs s num 1 = Some fs' \<and> alloc_inv wf bits e fs'
    \<and> used_blocks bits fs' = used_blocks bits fs \<union> run s (unat num) \<and> same_layout fs' fs \<and> af_io fs' = af_io fs"
proof -
  have wf: "wf_alloc wf e fs" "counts_ok bits e fs" using inv by (simp_all add: alloc_inv_def)
  obtain b where b: "af_block_map fs = Some (GB64 b)" "bmap_ready wf b" "covers e fs b" "groups_ok e fs" using wf(1) by (auto simp: wf_alloc_def)
  have ub: "used_blocks bits fs = block_set bits b" by (simp add: used_blocks_def b(1))
  have mem: "x \<in> fs_blocks fs" "x \<notin> used_blocks bits fs" if "x \<in> run s (unat num)" for x
    using r that by (auto simp: run_of_def free_blocks_def)
  have s: "s \<in> fs_blocks fs" using num by (intro mem) (simp add: run_def)
  have le: "unat s + unat num \<le> unat (fs_count fs)"
  proof (rule ccontr)
    assume "\<not> ?thesis"
    then have "fs_count fs \<in> run s (unat num)" using s by (simp add: run_def in_fs_blocks word_le_nat_alt)
    then show False using mem(1) [of "fs_count fs"] by (simp add: in_fs_blocks)
  qed
  have sn: "unat (s + ucast num) = unat s + unat num" using le fit by (simp add: unat_word_ariths unat_ucast_32_64)
  have "s + ucast num \<noteq> 0" using sn num by (metis add_is_0 neq0_conv unat_0)
  from unat_minus_one [OF this] have sn1: "unat (s + ucast num - 1) = unat s + unat num - 1" using sn by simp
  have c0: "fs_count fs \<noteq> 0" using s by (auto simp: in_fs_blocks)
  note single = single_clusters [OF b(3) e(3)]
  have ro: "run_ok b s num" using num le fit b(3) e(3) by (simp add: run_ok_def covers_def)
  have ri: "run_inside b s num"
    using b(3) s le sn1 unat_minus_one [OF c0] num by (simp add: run_inside_def single covers_def in_fs_blocks word_le_nat_alt)
  obtain b' where b': "ext2fs_mark_block_bitmap_range2 ops (Some (GB64 b)) s num = Some (GB64 b')" "wf b'" "same_header b' b"
      "block_set bits b' = used_blocks bits fs \<union> run s (unat num)"
    using gen_range(1) [OF _ _ ro ri] b(2) unfolding single ub bmap_ready_def by blast
  let ?m = "fs\<lparr>af_block_map := Some (GB64 b')\<rparr>"
  have m: "same_layout ?m fs" by (simp add: same_layout_def fs_first_def fs_count_def)
  note ml = same_layout_facts [OF m]
  have "counts_for (free_blocks bits fs) fs" using wf(2) counts_for_free [OF e(3)] by blast
  then have cm: "counts_for (free_blocks bits fs) ?m"
    by (subst counts_for_layout [OF m]) (simp_all add: ext2fs_bg_free_blocks_count_def group_desc_def bg_count_def)
  obtain fs' where fs': "alloc_stats_loop e ?m s num 1 = Some (fs', s + ucast num, 0)"
      "counts_for (free_blocks bits fs - run s (unat num)) fs'" "same_layout fs' ?m" "af_block_map fs' = Some (GB64 b')" "af_io fs' = af_io fs"
    using alloc_stats_loop_law [of e ?m, OF _ e(3) cm, of s num] b(4) s le fit r m
    by (auto simp: ml same_layout_def run_of_def)
  let ?r = "ext2fs_mark_bb_dirty (ext2fs_mark_super_dirty fs')"
  have "\<not> s + ucast num > fs_count fs" using le sn by (simp add: word_less_nat_alt)
  then have eq: "ext2fs_block_alloc_stats_range e fs s num 1 = Some ?r"
    using e(1,2) b'(1) fs'(1) b(1) by (simp add: ext2fs_block_alloc_stats_range_def fs_count_def [symmetric] no_callbacks_def)
  have sl: "same_layout fs' fs" using same_layout_trans [OF fs'(3) m] .
  have u: "used_blocks bits fs' = used_blocks bits fs \<union> run s (unat num)" by (simp add: used_blocks_def [of _ fs'] fs'(4) b'(4))
  have "free_blocks bits fs' = free_blocks bits fs - run s (unat num)" by (auto simp: free_blocks_def u same_layout_facts [OF sl])
  then have "counts_ok bits e fs'" using fs'(2) counts_for_free [OF e(3)] by metis
  then have "alloc_inv wf bits e fs'" using wf_alloc_same [OF wf(1) b(1) sl fs'(4) b'(2,3)] by (simp add: alloc_inv_def)
  then show ?thesis using eq dirty_alloc u sl same_layout_trans fs'(5) by (metis mark_dirty_fields(7,8))
qed

lemma alloc_range_law:
  assumes inv: "alloc_inv wf bits e fs" and e: "ae_block_ops e = ops" "no_callbacks e"
    and used: "used_blocks bits fs \<noteq> {}" and args: "take_args e fs flags goal len"
  shows "case ext2fs_alloc_range e fs flags goal len of
      None \<Rightarrow> range_endless bits fs (alloc_newr flags) (ucast len)
    | Some (r, fs') \<Rightarrow> \<not> range_endless bits fs (alloc_newr flags) (ucast len) \<and> alloc_inv wf bits e fs' \<and> same_layout fs' fs
        \<and> take_result bits e fs flags goal (unat len) r fs'"
proof -
  have a: "ae_cluster_ratio_bits e = 0" "0 < fe_blocksize (ae_fs e)" "fe_blocksize (ae_fs e) \<le> 4194304"
    "flags AND NOT EXT2_ALLOCRANGE_ALL_FLAGS = 0" "0 < unat len" "unat len < 2 ^ 31" "goal = 0 \<or> fs_first fs \<le> goal"
    "unat (fs_count fs) + 2 ^ 32 \<le> 2 ^ 64"
    using args by (simp_all add: take_args_def)
  note nf = alloc_newr_facts [of flags]
  let ?len = "ucast len :: u64" and ?newr = "ext2fs_new_range e fs (alloc_newr flags) goal (ucast len) None"
  have "range_args fs (alloc_newr flags) goal ?len"
    using a unat_lt_32 [of len] by (simp add: range_args_def nf(1) unat_ucast_32_64 word_less_nat_alt)
  note law = new_range_law [OF inv e used this]
  have "len \<noteq> 0" using a(5) by auto
  then have eq: "ext2fs_alloc_range e fs flags goal len = do {
      (r, fs) \<leftarrow> ?newr;
      case r of
        Inl err \<Rightarrow> Some (Inl err, fs)
      | Inr (pblk, plen) \<Rightarrow>
          if plen < ?len then Some (Inl EXT2_ET_BLOCK_ALLOC_FAIL, fs)
          else
            (case (if flags AND EXT2_ALLOCRANGE_ZERO_BLOCKS \<noteq> 0 then ext2fs_zero_blocks2 e fs pblk len else (None, fs)) of
               (Some err, fs) \<Rightarrow> Some (Inl err, fs)
             | (None, fs) \<Rightarrow> map_option (Pair (Inr pblk)) (ext2fs_block_alloc_stats_range e fs pblk len 1)) }"
    using a(4) by (simp only: ext2fs_alloc_range_def alloc_newr_def [symmetric] Let_def if_False simp_thms not_True_eq_False)
  show ?thesis
  proof (cases ?newr)
    case None
    then show ?thesis using law by (simp add: eq)
  next
    case (Some p)
    obtain r fs1 where p: "?newr = Some (r, fs1)" using Some by (cases p) simp
    have n: "\<not> range_endless bits fs (alloc_newr flags) ?len" "same_alloc_state wf bits e fs1 fs"
      "range_result bits fs (alloc_newr flags) (range_goal fs goal) ?len (map_sum id (\<lambda>(s, n). (s, s + n)) r)"
      using law unfolding p by auto
    have i1: "alloc_inv wf bits e fs1" "same_layout fs1 fs" "af_io fs1 = af_io fs"
      using n(2) inv by (simp_all add: same_alloc_state_def)
    note u1 = same_alloc_state_used [OF n(2)]
    have f1: "free_blocks bits fs1 = free_blocks bits fs" by (simp add: free_blocks_def u1 same_layout_facts [OF i1(2)])
    show ?thesis
    proof (cases r)
      case (Inl err)
      then have "ext2fs_alloc_range e fs flags goal len = Some (Inl err, fs1)" by (simp add: eq p)
      then show ?thesis using n i1 u1 Inl by (simp add: take_result_def range_result_def nf)
    next
      case (Inr q)
      obtain s m where q: "r = Inr (s, m)" using Inr by (cases q) simp
      have rr: "s < s + m" "unat (s + m) - unat s = unat len" "run_of (free_blocks bits fs) (unat len) s"
        "flags AND EXT2_ALLOCRANGE_FIXED_GOAL \<noteq> 0 \<Longrightarrow> s = range_goal fs goal"
        using n(3) by (auto simp: q range_result_def nf unat_ucast_32_64)
      have "m = ?len"
      proof -
        have "unat (s + m - s) = unat (s + m) - unat s" by (rule unat_sub) (use rr(1) in simp)
        then have "unat m = unat ?len" using rr(2) by (simp add: unat_ucast_32_64)
        then show ?thesis by (simp only: word_unat_eq_iff)
      qed
      have sl: "unat s + unat len \<le> 2 ^ 64" using rr(3) by (simp add: run_of_def)
      let ?z = "if flags AND EXT2_ALLOCRANGE_ZERO_BLOCKS \<noteq> 0 then ext2fs_zero_blocks2 e fs1 s len else (None, fs1)"
      obtain w fs2 where w: "?z = (w, fs2)" by (rule prod.exhaust)
      have z: "af_super fs2 = af_super fs1 \<and> af_groups fs2 = af_groups fs1 \<and> af_block_map fs2 = af_block_map fs1"
        "w = None \<Longrightarrow> af_io fs2 = (if flags AND EXT2_ALLOCRANGE_ZERO_BLOCKS \<noteq> 0 then zeroed (ae_fs e) (af_io fs) s (unat len) else af_io fs)"
        using w zero_blocks_law [of e fs1 s len w fs2, OF _ a(2,3,6) sl] i1(3) by (auto split: if_splits)
      note s2 = same_alloc [of fs2 fs1]
      have z2: "ext2fs_bg_free_blocks_count fs2 g = ext2fs_bg_free_blocks_count fs1 g" for g
        using z(1) by (simp add: ext2fs_bg_free_blocks_count_def group_desc_def bg_count_def)
      have i2: "alloc_inv wf bits e fs2" "used_blocks bits fs2 = used_blocks bits fs" "free_blocks bits fs2 = free_blocks bits fs" "same_layout fs2 fs"
        using s2 z(1) z2 i1(1) u1 f1 same_layout_trans [OF _ i1(2)] by simp_all
      have eq2: "ext2fs_alloc_range e fs flags goal len =
          (case (w, fs2) of (Some err, fs) \<Rightarrow> Some (Inl err, fs)
             | (None, fs) \<Rightarrow> map_option (Pair (Inr s)) (ext2fs_block_alloc_stats_range e fs s len 1))"
        unfolding eq p w [symmetric] q \<open>m = ?len\<close> by simp
      show ?thesis
      proof (cases w)
        case (Some err)
        then have "flags AND EXT2_ALLOCRANGE_ZERO_BLOCKS \<noteq> 0" "\<not> zero_ok e"
          using w zero_blocks_ok [of e fs1 s len] by (auto split: if_splits)
        then show ?thesis using Some n(1) i2 by (simp add: eq2 take_result_def)
      next
        case None
        have fit: "unat (fs_count fs2) + 2 ^ 32 \<le> 2 ^ 64" using a(8) i2(4) by (simp add: same_layout_def)
        obtain fs' where fs': "ext2fs_block_alloc_stats_range e fs2 s len 1 = Some fs'" "alloc_inv wf bits e fs'"
          "used_blocks bits fs' = used_blocks bits fs \<union> run s (unat len)" "same_layout fs' fs2" "af_io fs' = af_io fs2"
          using stats_range_law [OF i2(1) e a(1,5) fit] rr(3) unfolding i2(2,3) by blast
        then show ?thesis
          using None n(1) rr(3,4) z(2) same_layout_trans [OF fs'(4) i2(4)] by (auto simp: eq2 take_result_def)
      qed
    qed
  qed
qed

end

end
