(* ===== verification/Alloc_Props.thy ===== *)
theory Alloc_Props
  imports Alloc_Take
begin

text \<open>
  The properties of the allocation of blocks on the two back ends of the bitmap: single blocks, sequences of
  allocations and frees, the search for a run with the case in which it never ends, and runs that are taken.
\<close>

text \<open>The invariant holds, some block is in use, and the client has set no function of its own.\<close>

definition alloc_ready ::
    "('p bmap64 \<Rightarrow> bool) \<Rightarrow> 'p bitmap_ops \<Rightarrow> ('p bmap64 \<Rightarrow> u64 set) \<Rightarrow> ('p, 'q) alloc_env \<Rightarrow> ('p, 'q) alloc_fs \<Rightarrow> bool" where
  "alloc_ready good bops bits e fs \<longleftrightarrow> alloc_inv good bits e fs \<and> ae_block_ops e = bops \<and> no_callbacks e \<and> used_blocks bits fs \<noteq> {}"

definition goal_ok :: "('p, 'q) alloc_fs \<Rightarrow> u64 \<Rightarrow> bool" where
  "goal_ok fs goal \<longleftrightarrow> goal = 0 \<or> fs_first fs \<le> goal"

text \<open>What the allocation of a block with a buffer of the caller returns.\<close>

definition block_result ::
    "('p bmap64 \<Rightarrow> u64 set) \<Rightarrow> ('p, 'q) alloc_env \<Rightarrow> ('p, 'q) alloc_fs \<Rightarrow> u64 \<Rightarrow> errcode + u64 \<Rightarrow> ('p, 'q) alloc_fs \<Rightarrow> bool" where
  "block_result bits e fs goal r fs' \<longleftrightarrow> (case r of
       Inr x \<Rightarrow> next_in (free_blocks bits fs) (goal_block e fs goal) x
         \<and> used_blocks bits fs' = used_blocks bits fs \<union> cluster_blocks e x
         \<and> af_io fs' = (af_io fs)\<lparr>fs_dev := (fs_dev (af_io fs))(x := replicate (fe_blocksize (ae_fs e)) 0)\<rparr>
     | Inl err \<Rightarrow> used_blocks bits fs' = used_blocks bits fs \<and> af_io fs' = af_io fs
         \<and> (if free_blocks bits fs = {} then err = EXT2_ET_BLOCK_ALLOC_FAIL
            else \<exists>x. next_in (free_blocks bits fs) (goal_block e fs goal) x \<and> fe_write_error (ae_fs e) x = Some err))"

section \<open>A file system\<close>

text \<open>One group, without the feature of 64 bits, over the blocks from 1 to before \<open>n\<close>, of which \<open>free\<close> are free.\<close>

definition demo_super :: "u32 \<Rightarrow> u32 \<Rightarrow> alloc_super" where
  "demo_super n free = \<lparr>sb_blocks_count = n, sb_blocks_count_hi = 0, sb_first_data_block = 1, sb_creator_os = 0,
     sb_feature_incompat = 0, sb_feature_ro_compat = 0, sb_r_blocks_count = 0, sb_r_blocks_count_hi = 0,
     sb_free_blocks_count = free, sb_free_blocks_hi = 0, sb_free_inodes_count = 0, sb_inodes_count = 16,
     sb_blocks_per_group = 8192, sb_clusters_per_group = 8192, sb_inodes_per_group = 16, sb_rev_level = 1, sb_first_ino = 11,
     sb_log_groups_per_flex = 0, sb_desc_size = 32, sb_uuid = replicate 16 0, sb_feature_compat = 0, sb_inode_size = 128, sb_log_cluster_size = 0,
     sb_reserved_gdt_blocks = 0, sb_first_meta_bg = 0, sb_backup_bgs = (0, 0)\<rparr>"

definition demo_group :: "u16 \<Rightarrow> ext4_group_desc" where
  "demo_group free = \<lparr>bg_block_bitmap = 2, bg_inode_bitmap = 3, bg_inode_table = 4, bg_free_blocks_count = free, bg_free_inodes_count = 0,
     bg_used_dirs_count = 0, bg_flags = 0, bg_exclude_bitmap_lo = 0, bg_block_bitmap_csum_lo = 0, bg_inode_bitmap_csum_lo = 0,
     bg_itable_unused = 0, bg_checksum = 0, bg_block_bitmap_hi = 0, bg_inode_bitmap_hi = 0, bg_inode_table_hi = 0,
     bg_free_blocks_count_hi = 0, bg_free_inodes_count_hi = 0, bg_used_dirs_count_hi = 0, bg_itable_unused_hi = 0,
     bg_exclude_bitmap_hi = 0, bg_block_bitmap_csum_hi = 0, bg_inode_bitmap_csum_hi = 0, bg_reserved = 0, bg_rest = []\<rparr>"

definition demo_inode :: ext2_inode where
  "demo_inode = \<lparr>i_mode = 0, i_size = 0, i_links_count = 0, i_blocks = 0, i_flags = 0, i_size_high = 0, i_file_acl = 0, i_generation = 0,
     i_block = replicate 15 0, h_i_translator = 0, l_i_blocks_hi = 0, l_i_file_acl_high = 0\<rparr>"

definition demo_fs :: "'p bmap64 \<Rightarrow> u32 \<Rightarrow> u32 \<Rightarrow> ('p, rb_private) alloc_fs" where
  "demo_fs b n free = \<lparr>af_super = demo_super n free, af_groups = [demo_group (ucast free)], af_flags = 0,
     af_block_map = Some (GB64 b), af_inode_map = None, af_io = \<lparr>fs_dev = (\<lambda>_. []), fs_inodes = (\<lambda>_. demo_inode)\<rparr>, af_stride = 0\<rparr>"

definition demo_env :: "'p bitmap_ops \<Rightarrow> ('p, rb_private) alloc_env" where
  "demo_env bops = \<lparr>ae_fs = \<lparr>fe_sb = \<lparr>sb_blocks_count = 0, sb_blocks_count_hi = 0, sb_first_data_block = 1, sb_creator_os = 0,
         sb_feature_incompat = 0, sb_feature_ro_compat = 0\<rparr>, fe_blocksize = 16, fe_flags = 0, fe_image_io = False,
       fe_csum_seed = 0, fe_crc = (\<lambda>c _. c), fe_malloc = (\<lambda>_. True), fe_read_error = (\<lambda>_. None), fe_write_error = (\<lambda>_. None),
       fe_inode_read_error = (\<lambda>_. None), fe_inode_write_error = (\<lambda>_. None)\<rparr>,
     ae_block_ops = bops, ae_inode_ops = ext2fs_blkmap64_rbtree, ae_cluster_ratio_bits = 0, ae_desc_blocks = 1,
     ae_inode_blocks_per_group = 2, ae_get_alloc_block2 = None,
     ae_get_alloc_block = None, ae_new_range = None, ae_block_alloc_stats = None, ae_block_alloc_stats_range = None,
     ae_read_block_bitmap = (\<lambda>fs. (Some EXT2_ET_NO_BLOCK_BITMAP, fs)), ae_zeroout = (\<lambda>_ _. False), ae_realloc = (\<lambda>_. True)\<rparr>"

lemma demo_layout [simp]:
  "fs_first (demo_fs b n free) = 1" "fs_count (demo_fs b n free) = ucast n" "af_block_map (demo_fs b n free) = Some (GB64 b)"
  "ae_block_ops (demo_env bops) = bops" "no_callbacks (demo_env bops)" "ae_cluster_ratio_bits (demo_env bops) = 0"
  "fe_blocksize (ae_fs (demo_env bops)) = 16" "fe_write_error (ae_fs (demo_env bops)) x = None"
  "sb_blocks_per_group (af_super (demo_fs b n free)) = 8192" "length (af_groups (demo_fs b n free)) = 1"
  by (simp_all add: fs_first_def fs_count_def demo_fs_def demo_super_def demo_env_def no_callbacks_def ext2fs_blocks_count_def
      ext2fs_has_feature_64bit_def)

lemma demo_ready:
  assumes ready: "bmap_ready good b" and b: "bm_cluster_bits b = 0" "bm_start b = 1" "bm_end b = ucast n - 1"
    and n: "1 < n" "n \<le> 8192" and free: "card (free_blocks bits (demo_fs b n free)) = unat free" and used: "block_set bits b \<noteq> {}"
  shows "alloc_ready good bops bits (demo_env bops) (demo_fs b n free)"
proof -
  let ?fs = "demo_fs b n free :: ('a, rb_private) alloc_fs" and ?e = "demo_env bops :: ('a, rb_private) alloc_env"
  have un: "1 < unat n" "unat n \<le> 8192" using n by (simp_all add: word_less_nat_alt word_le_nat_alt)
  have g: "groups_ok ?e ?fs" using un by (simp add: groups_ok_def unat_ucast_32_64)
  have c: "(1 :: u64) < ucast n" using un by (simp add: word_less_nat_alt unat_ucast_32_64)
  then have c0: "(ucast n :: u64) \<noteq> 0" by auto
  have cov: "covers ?e ?fs b" using b c c0 by (simp add: covers_def cluster_no_def)
  have g0: "ext2fs_group_of_blk2 ?fs x = 0" if "x \<in> fs_blocks ?fs" for x
  proof -
    have "unat (ext2fs_group_of_blk2 ?fs x) = (unat x - 1) div 8192" using group_number(1) [OF g that] by simp
    moreover have "unat x < unat n" using that by (simp add: in_fs_blocks unat_ucast_32_64)
    then have "unat x - 1 < 8192" using un(2) by linarith
    ultimately show ?thesis by (simp add: unat_eq_0)
  qed
  then have gs: "{x \<in> free_blocks bits ?fs. ext2fs_group_of_blk2 ?fs x = 0} = free_blocks bits ?fs" by (auto simp: free_blocks_def)
  have f64: "\<not> ext2fs_has_feature_64bit (af_super ?fs)" by (simp add: demo_fs_def demo_super_def ext2fs_has_feature_64bit_def)
  have 1: "ext2fs_bg_free_blocks_count ?fs 0 = take_bit 16 free"
    using f64 by (simp add: ext2fs_bg_free_blocks_count_def bg_count_def group_desc_def ucast_halves) (simp add: demo_fs_def demo_group_def ucast_halves)
  have 2: "ext2fs_free_blocks_count (af_super ?fs) = take_bit 32 (of_nat (unat free))"
    using f64 by (simp add: ext2fs_free_blocks_count_def) (simp add: demo_fs_def demo_super_def word_unat_eq_iff unsigned_take_bit_eq unat_ucast_32_64 take_bit_nat_eq_self [OF unat_lt_32])
  have "counts_for (free_blocks bits ?fs) ?fs"
    using 1 2 f64 by (simp add: counts_for_def unat_eq_0 gs free group_width_def super_width_def)
  then have "counts_ok bits ?e ?fs" using counts_for_free [of ?e] by simp
  then show ?thesis
    using g cov ready used by (simp add: alloc_ready_def alloc_inv_def wf_alloc_def used_blocks_def)
qed

lemma demo_free:
  assumes "\<And>x. x \<in> free_blocks bits fs \<longleftrightarrow> P (unat x) \<and> unat x < m" "m \<le> 2 ^ 64"
  shows "card (free_blocks bits fs) = card {k. P k \<and> k < m}"
proof -
  have u: "unat (of_nat k :: u64) = k" if "k < m" for k using that assms(2) by (simp add: unat_of_nat)
  have "free_blocks bits fs = (of_nat :: nat \<Rightarrow> u64) ` {k. P k \<and> k < m}"
  proof (intro set_eqI iffI)
    fix x assume "x \<in> free_blocks bits fs"
    then show "x \<in> of_nat ` {k. P k \<and> k < m}" using assms(1) by (intro image_eqI [of _ _ "unat x"]) auto
  next
    fix x assume "x \<in> (of_nat :: nat \<Rightarrow> u64) ` {k. P k \<and> k < m}"
    then obtain k where "x = of_nat k" "P k" "k < m" by blast
    then show "x \<in> free_blocks bits fs" using assms(1) [of x] u [of k] by simp
  qed
  moreover have "inj_on (of_nat :: nat \<Rightarrow> u64) {k. P k \<and> k < m}"
    by (rule inj_on_inverseI [where g = unat]) (simp add: u)
  ultimately show ?thesis by (simp add: card_image)
qed

text \<open>The blocks 10 to 29 of 100 are used; and all blocks of 20 but block 17.\<close>

abbreviation rb_fs :: "(rb_private, rb_private) alloc_fs" where "rb_fs \<equiv> demo_fs rb_demo 101 80"
abbreviation ba_fs :: "(ba_private, rb_private) alloc_fs" where "ba_fs \<equiv> demo_fs ba_demo 21 1"

lemma demo_used: "x \<in> used_blocks rb_bits rb_fs \<longleftrightarrow> 10 \<le> x \<and> x < 30" "x \<in> used_blocks ba_bits ba_fs \<longleftrightarrow> 1 \<le> x \<and> x \<le> 20 \<and> x \<noteq> 17"
proof -
  show "x \<in> used_blocks rb_bits rb_fs \<longleftrightarrow> 10 \<le> x \<and> x < 30" by (simp add: used_blocks_def plain_demo_blocks)
  show "x \<in> used_blocks ba_bits ba_fs \<longleftrightarrow> 1 \<le> x \<and> x \<le> 20 \<and> x \<noteq> 17"
    by (auto simp: used_blocks_def block_set_def cluster_no_def ba_demo_bits outside64_def) (auto simp: ba_demo_def)
qed

lemma demo_free_blocks: "free_blocks rb_bits rb_fs = {x. 1 \<le> x \<and> x < 10 \<or> 30 \<le> x \<and> x < 101}" "free_blocks ba_bits ba_fs = {17}"
proof -
  show "free_blocks rb_bits rb_fs = {x. 1 \<le> x \<and> x < 10 \<or> 30 \<le> x \<and> x < 101}"
  proof -
    have "x < 10 \<Longrightarrow> x < 101" "30 \<le> x \<Longrightarrow> 1 \<le> x" for x :: u64 by (simp_all add: word_le_nat_alt word_less_nat_alt)
    then show ?thesis by (auto simp: free_blocks_def demo_used fs_blocks_def)
  qed
  have e: "x < 21 \<longleftrightarrow> x \<le> 20" for x :: u64
  proof -
    have "unat x < 21 \<longleftrightarrow> unat x \<le> 20" by linarith
    then show ?thesis by (simp add: word_le_nat_alt word_less_nat_alt)
  qed
  have "x \<in> free_blocks ba_bits ba_fs \<longleftrightarrow> x = 17" for x
  proof (cases "x = 17")
    case False
    then show ?thesis unfolding free_blocks_def fs_blocks_def by (simp add: demo_used e)
  qed (simp add: free_blocks_def demo_used fs_blocks_def)
  then show "free_blocks ba_bits ba_fs = {17}" by blast
qed

lemma demo_fs_ready: "alloc_ready wf_rb bops rb_bits (demo_env bops) rb_fs" "alloc_ready wf_ba bops' ba_bits (demo_env bops') ba_fs"
proof -
  have m: "x \<in> free_blocks rb_bits rb_fs \<longleftrightarrow> (1 \<le> unat x \<and> unat x < 10 \<or> 30 \<le> unat x) \<and> unat x < 101" for x
  proof -
    have "x \<in> free_blocks rb_bits rb_fs \<longleftrightarrow> 1 \<le> unat x \<and> unat x < 10 \<or> 30 \<le> unat x \<and> unat x < 101"
      by (simp add: demo_free_blocks word_le_nat_alt word_less_nat_alt)
    then show ?thesis by linarith
  qed
  have "card (free_blocks rb_bits rb_fs) = card {k :: nat. (1 \<le> k \<and> k < 10 \<or> 30 \<le> k) \<and> k < 101}"
    by (rule demo_free [OF m]) simp
  also have "{k :: nat. (1 \<le> k \<and> k < 10 \<or> 30 \<le> k) \<and> k < 101} = {1..<10} \<union> {30..<101}" by auto
  also have "card \<dots> = 80" by (subst card_Un_disjoint) auto
  finally show "alloc_ready wf_rb bops rb_bits (demo_env bops) rb_fs"
    using rb_demo_ready(1) plain_demo_blocks(1) [of 10] by (intro demo_ready) auto
  have "18 \<in> block_set ba_bits ba_demo" using demo_used(2) [of 18] by (simp add: used_blocks_def)
  then show "alloc_ready wf_ba bops' ba_bits (demo_env bops') ba_fs"
    using ba_demo_ready by (intro demo_ready) (auto simp: demo_free_blocks, simp_all add: ba_demo_def)
qed

section \<open>The properties\<close>

abbreviation "rb_ops \<equiv> ext2fs_blkmap64_rbtree"
abbreviation "ba_ops junk base \<equiv> ext2fs_blkmap64_bitarray junk base"



text \<open>
  C14.  Allocating a block near a goal, with a buffer for the zeroes, takes the first free block from the start
  of the goal's cluster on, or else the first free block of all, zeroes that block on the disk and no other,
  and marks its cluster; it fails where there is no free block, and where the write of the block fails, and
  then bitmap and disk are as they were.  Some block is in use, and the client has set no functions.
\<close>

lemma alloc_block_correct:
  assumes "alloc_ready wf_rb rb_ops rb_bits e fs" "goal_ok fs goal"
    and "alloc_ready wf_ba (ba_ops junk base) ba_bits d gs" "goal_ok gs goal'"
  shows "(\<exists>r fs'. ext2fs_alloc_block3 e fs goal True ctx = Some (r, fs') \<and> alloc_inv wf_rb rb_bits e fs' \<and> block_result rb_bits e fs goal r fs')
    \<and> (\<exists>r gs'. ext2fs_alloc_block3 d gs goal' True ctx = Some (r, gs') \<and> alloc_inv wf_ba ba_bits d gs' \<and> block_result ba_bits d gs goal' r gs')"
  using assms rb.alloc_block_law [of e fs goal ctx] ba.alloc_block_law [of d gs junk base goal' ctx]
  unfolding alloc_ready_def goal_ok_def block_result_def by blast

lemma alloc_block_correct_witness:
  "(\<exists>fs'. ext2fs_alloc_block3 (demo_env rb_ops) rb_fs 10 True None = Some (Inr 30, fs') \<and> 30 \<in> used_blocks rb_bits fs')
   \<and> (\<exists>gs'. ext2fs_alloc_block3 (demo_env (ba_ops 0 0)) ba_fs 18 True None = Some (Inr 17, gs') \<and> 20 \<in> used_blocks ba_bits gs')"
proof -
  have g: "goal_block (demo_env bops) fs goal = (if goal = 0 \<or> goal \<ge> fs_count fs then fs_first fs else goal)"
    for bops :: "'p bitmap_ops" and fs goal
    by (simp add: goal_block_def EXT2FS_CLUSTER_MASK_def EXT2FS_CLUSTER_RATIO_def)
  have n: "next_in (free_blocks rb_bits rb_fs) 10 x \<longleftrightarrow> x = 30" "next_in (free_blocks ba_bits ba_fs) 18 x \<longleftrightarrow> x = 17" for x
  proof -
    have "30 \<in> free_blocks rb_bits rb_fs" "\<And>y. y \<in> free_blocks rb_bits rb_fs \<Longrightarrow> 10 \<le> y \<Longrightarrow> 30 \<le> y"
      by (auto simp: demo_free_blocks)
    then show "next_in (free_blocks rb_bits rb_fs) 10 x \<longleftrightarrow> x = 30"
      unfolding next_in_def by (auto intro: order.antisym)
  qed (auto simp: next_in_def demo_free_blocks)
  have ne: "free_blocks rb_bits rb_fs \<noteq> {}" "free_blocks ba_bits ba_fs \<noteq> {}" using n [of 30] n(2) [of 17] by (auto simp: next_in_def)
  from alloc_block_correct [OF demo_fs_ready(1) _ demo_fs_ready(2), where goal = 10 and goal' = 18 and ctx = None and junk = 0 and base = 0]
  obtain r fs' r' gs' where
    r: "ext2fs_alloc_block3 (demo_env rb_ops) rb_fs 10 True None = Some (r, fs')" "block_result rb_bits (demo_env rb_ops) rb_fs 10 r fs'"
    "ext2fs_alloc_block3 (demo_env (ba_ops 0 0)) ba_fs 18 True None = Some (r', gs')" "block_result ba_bits (demo_env (ba_ops 0 0)) ba_fs 18 r' gs'"
    by (auto simp: goal_ok_def)
  have "r = Inr 30 \<and> 30 \<in> used_blocks rb_bits fs'"
    using r(2) ne by (cases r) (auto simp: block_result_def g n cluster_blocks_def)
  moreover have "r' = Inr 17 \<and> 20 \<in> used_blocks ba_bits gs'"
    using r(4) ne by (cases r') (auto simp: block_result_def g n demo_used)
  ultimately show ?thesis using r by blast
qed



text \<open>The run of the last 71 blocks is found; and one of two blocks, where only block 17 is free, never ends.\<close>

lemma demo_no_run: "\<not> run_of {17} 2 x"
proof
  assume "run_of {17} 2 x"
  then have x: "unat x + 2 \<le> 2 ^ 64" "run x 2 \<subseteq> {17}" by (simp_all add: run_of_def)
  have "unat (x + 1) = unat x + 1" using x(1) by (simp add: unat_word_ariths)
  then have "x \<in> run x 2" "x + 1 \<in> run x 2" by (simp_all add: run_def word_le_nat_alt)
  then have "x = 17" "x + 1 = 17" using x(2) by blast+
  then show False by simp
qed


text \<open>
  Where blocks are clusters, \<open>ext2fs_alloc_range\<close> takes a free run of the given length, marks just
  these blocks, sets just these to zero on the disk if asked to, and keeps the counts; it fails without
  taking anything, where nothing was to be zeroed just when there is no such run; and it never returns
  in the case in which the search does not.
\<close>

lemma alloc_range_correct:
  assumes "alloc_ready wf_rb rb_ops rb_bits e fs" "take_args e fs flags goal len"
    and "alloc_ready wf_ba (ba_ops junk base) ba_bits d gs" "take_args d gs flags' goal' len'"
  shows "(case ext2fs_alloc_range e fs flags goal len of
        None \<Rightarrow> range_endless rb_bits fs (alloc_newr flags) (ucast len)
      | Some (r, fs') \<Rightarrow> \<not> range_endless rb_bits fs (alloc_newr flags) (ucast len) \<and> alloc_inv wf_rb rb_bits e fs'
          \<and> take_result rb_bits e fs flags goal (unat len) r fs')
    \<and> (case ext2fs_alloc_range d gs flags' goal' len' of
        None \<Rightarrow> range_endless ba_bits gs (alloc_newr flags') (ucast len')
      | Some (r, gs') \<Rightarrow> \<not> range_endless ba_bits gs (alloc_newr flags') (ucast len') \<and> alloc_inv wf_ba ba_bits d gs'
          \<and> take_result ba_bits d gs flags' goal' (unat len') r gs')"
  using rb.alloc_range_law [of e fs flags goal len] ba.alloc_range_law [of d gs junk base flags' goal' len'] assms
  unfolding alloc_ready_def by (auto split: option.splits)

lemma alloc_range_correct_witness:
  "(\<exists>fs'. ext2fs_alloc_range (demo_env rb_ops) rb_fs 3 30 71 = Some (Inr 30, fs') \<and> used_blocks rb_bits fs' = {10..100}
      \<and> fs_dev (af_io fs') 100 = replicate 16 0)
   \<and> ext2fs_alloc_range (demo_env (ba_ops 0 0)) ba_fs 0 0 2 = None"
proof -
  have a: "take_args (demo_env bops) (demo_fs b 101 80) 3 30 71" "take_args (demo_env bops) (demo_fs b 21 1) 0 0 2" for bops :: "'p bitmap_ops" and b
    by (simp_all add: take_args_def EXT2_ALLOCRANGE_ALL_FLAGS_def)
  have f: "(3 :: u32) AND EXT2_ALLOCRANGE_FIXED_GOAL \<noteq> 0" "(3 :: u32) AND EXT2_ALLOCRANGE_ZERO_BLOCKS \<noteq> 0" "(0 :: u32) AND x = 0" for x
    by (simp_all add: EXT2_ALLOCRANGE_FIXED_GOAL_def EXT2_ALLOCRANGE_ZERO_BLOCKS_def)
  have g: "range_goal rb_fs 30 = 30" by (simp add: range_goal_def)
  have run: "run_of (free_blocks rb_bits rb_fs) 71 30"
    by (auto simp: run_of_def run_def demo_free_blocks word_less_nat_alt)
  have hang: "range_endless ba_bits ba_fs (alloc_newr 0) (ucast (2 :: u32))" and ok: "\<not> range_endless rb_bits rb_fs (alloc_newr 3) (ucast (71 :: u32))"
    unfolding range_endless_def alloc_newr_facts by (simp_all add: f demo_free_blocks demo_no_run last_block_def)
  note n = alloc_range_correct [OF demo_fs_ready(1) a(1) demo_fs_ready(2) a(2), where junk = 0 and base = 0]
  obtain r fs' where r: "ext2fs_alloc_range (demo_env rb_ops) rb_fs 3 30 71 = Some (r, fs')"
      "take_result rb_bits (demo_env rb_ops) rb_fs 3 30 71 r fs'"
    using conjunct1 [OF n] ok by (auto split: option.splits)
  have z: "zero_ok (demo_env rb_ops :: (rb_private, rb_private) alloc_env)" by (simp add: zero_ok_def) (simp add: demo_env_def)
  have r30: "r = Inr 30" "used_blocks rb_bits fs' = used_blocks rb_bits rb_fs \<union> run 30 71"
    "af_io fs' = zeroed (ae_fs (demo_env rb_ops)) (af_io rb_fs) 30 71"
    using r(2) run z f by (auto simp: take_result_def g split: sum.splits)
  have m: "x \<in> used_blocks rb_bits rb_fs \<union> run 30 71 \<longleftrightarrow> x \<in> {10..100}" for x
  proof -
    have "x \<in> used_blocks rb_bits rb_fs \<union> run 30 71 \<longleftrightarrow> 10 \<le> unat x \<and> unat x < 30 \<or> 30 \<le> unat x \<and> unat x < 101"
      by (simp add: demo_used run_def word_le_nat_alt word_less_nat_alt)
    also have "\<dots> \<longleftrightarrow> 10 \<le> unat x \<and> unat x \<le> 100" by linarith
    also have "\<dots> \<longleftrightarrow> x \<in> {10..100}" by (simp add: word_le_nat_alt)
    finally show ?thesis .
  qed
  then have "used_blocks rb_bits fs' = {10..100}" unfolding r30(2) by blast
  moreover have "fs_dev (af_io fs') 100 = replicate 16 0" by (simp add: r30(3) zeroed_def run_def)
  ultimately show ?thesis using r(1) r30(1) conjunct2 [OF n] hang by (auto split: option.splits)
qed

end
