(* ===== verification/Group_Layout.thy ===== *)
theory Group_Layout
  imports Group_Desc "HOL-Library.Monad_Syntax"
begin

text \<open>
  Where the superblock and the group descriptors lie: \<open>lib/ext2fs/closefs.c\<close>, the marking of these blocks in
  \<open>lib/ext2fs/alloc_sb.c\<close>, and the list of the groups with backups in \<open>lib/ext2fs/res_gdt.c\<close>.
  \<open>closefs.c\<close> and \<open>res_gdt.c\<close> decide in different ways which groups have a backup; they agree.
\<close>

section \<open>The code\<close>

definition EXT4_FEATURE_COMPAT_SPARSE_SUPER2 :: u32 where "EXT4_FEATURE_COMPAT_SPARSE_SUPER2 = 0x0200"
definition EXT2_FEATURE_RO_COMPAT_SPARSE_SUPER :: u32 where "EXT2_FEATURE_RO_COMPAT_SPARSE_SUPER = 0x0001"
definition EXT2_FEATURE_INCOMPAT_META_BG :: u32 where "EXT2_FEATURE_INCOMPAT_META_BG = 0x0010"

definition ext2fs_has_feature_sparse_super2 :: "alloc_super \<Rightarrow> bool" where
  "ext2fs_has_feature_sparse_super2 sb = (sb_feature_compat sb AND EXT4_FEATURE_COMPAT_SPARSE_SUPER2 \<noteq> 0)"

definition ext2fs_has_feature_sparse_super :: "alloc_super \<Rightarrow> bool" where
  "ext2fs_has_feature_sparse_super sb = (sb_feature_ro_compat sb AND EXT2_FEATURE_RO_COMPAT_SPARSE_SUPER \<noteq> 0)"

definition ext2fs_has_feature_meta_bg :: "alloc_super \<Rightarrow> bool" where
  "ext2fs_has_feature_meta_bg sb = (sb_feature_incompat sb AND EXT2_FEATURE_INCOMPAT_META_BG \<noteq> 0)"

partial_function (option) test_root :: "u32 \<Rightarrow> u32 \<Rightarrow> bool option" where
  "test_root a b =
     (if a < b then Some False
      else if a = b then Some True
      else if a mod b \<noteq> 0 then Some False
      else test_root (a div b) b)"

text \<open>The result is nothing where \<open>test_root\<close> does not return.\<close>

definition ext2fs_bg_has_super :: "alloc_super \<Rightarrow> u32 \<Rightarrow> bool option" where
  "ext2fs_bg_has_super sb g =
     (if g = 0 then Some True
      else if ext2fs_has_feature_sparse_super2 sb then Some (g = fst (sb_backup_bgs sb) \<or> g = snd (sb_backup_bgs sb))
      else if g \<le> 1 \<or> \<not> ext2fs_has_feature_sparse_super sb then Some True
      else if g AND 1 = 0 then Some False
      else case test_root g 3 of
             None \<Rightarrow> None
           | Some True \<Rightarrow> Some True
           | Some False \<Rightarrow>
               (case test_root g 5 of
                  None \<Rightarrow> None
                | Some True \<Rightarrow> Some True
                | Some False \<Rightarrow> test_root g 7))"

definition EXT2_DESC_PER_BLOCK :: "('p, 'q) alloc_env \<Rightarrow> alloc_super \<Rightarrow> u32" where
  "EXT2_DESC_PER_BLOCK e sb = of_nat (fe_blocksize (ae_fs e) div EXT2_DESC_SIZE sb)"

text \<open>The blocks of the superblock, of the descriptors and of those of a meta group (0 if there are none), and the number of blocks.\<close>

record bgd_loc =
  bl_super :: u64
  bl_old_desc :: u64
  bl_new_desc :: u64
  bl_used :: u32

definition old_desc_blocks :: "('p, 'q) alloc_env \<Rightarrow> ('p, 'q) alloc_fs \<Rightarrow> u64" where
  "old_desc_blocks e fs =
     (if ext2fs_has_feature_meta_bg (af_super fs) then ucast (sb_first_meta_bg (af_super fs))
      else ae_desc_blocks e + ucast (sb_reserved_gdt_blocks (af_super fs)))"

definition ext2fs_super_and_bgd_loc2 :: "('p, 'q) alloc_env \<Rightarrow> ('p, 'q) alloc_fs \<Rightarrow> u32 \<Rightarrow> bgd_loc option" where
  "ext2fs_super_and_bgd_loc2 e fs g =
     (case ext2fs_bg_has_super (af_super fs) g of
        None \<Rightarrow> None
      | Some has_super \<Rightarrow>
          let group_block = ext2fs_group_first_block2 fs g;
              group_block = (if group_block = 0 \<and> fe_blocksize (ae_fs e) = 1024 then 1 else group_block);
              loc = (if has_super then \<lparr>bl_super = group_block, bl_old_desc = 0, bl_new_desc = 0, bl_used = 1\<rparr>
                     else \<lparr>bl_super = 0, bl_old_desc = 0, bl_new_desc = 0, bl_used = 0\<rparr>);
              meta_bg_size = EXT2_DESC_PER_BLOCK e (af_super fs);
              meta_bg = g div meta_bg_size
          in Some
            (if \<not> ext2fs_has_feature_meta_bg (af_super fs) \<or> meta_bg < sb_first_meta_bg (af_super fs)
             then if has_super
                  then loc\<lparr>bl_old_desc := group_block + 1, bl_used := bl_used loc + ucast (old_desc_blocks e fs)\<rparr>
                  else loc
             else if g mod meta_bg_size = 0 \<or> g mod meta_bg_size = 1 \<or> g mod meta_bg_size = meta_bg_size - 1
             then loc\<lparr>bl_new_desc := group_block + (if has_super then 1 else 0), bl_used := bl_used loc + 1\<rparr>
             else loc))"

text \<open>The same with block numbers of 32 bits, the number of the meta group, and the number of blocks left for data.\<close>

definition ext2fs_super_and_bgd_loc :: "('p, 'q) alloc_env \<Rightarrow> ('p, 'q) alloc_fs \<Rightarrow> u32 \<Rightarrow> (u32 \<times> u32 \<times> u32 \<times> u32 \<times> u32) option" where
  "ext2fs_super_and_bgd_loc e fs g =
     (case ext2fs_super_and_bgd_loc2 e fs g of
        None \<Rightarrow> None
      | Some loc \<Rightarrow>
          Some (ucast (bl_super loc), ucast (bl_old_desc loc), ucast (bl_new_desc loc), g div EXT2_DESC_PER_BLOCK e (af_super fs),
                ext2fs_group_blocks_count fs g - (2 + ae_inode_blocks_per_group e + bl_used loc)))"

text \<open>
  The blocks are marked in the bitmap of the caller.  \<open>num_blocks\<close> is an \<open>int\<close>, so that the number of old
  descriptor blocks is cut to 32 bits.
\<close>

definition ext2fs_reserve_super_and_bgd ::
    "('p, 'q) alloc_env \<Rightarrow> ('p, 'q) alloc_fs \<Rightarrow> u32 \<Rightarrow> 'p gbmap option \<Rightarrow> (u32 \<times> 'p gbmap option) option" where
  "ext2fs_reserve_super_and_bgd e fs g bmap =
     (case ext2fs_super_and_bgd_loc2 e fs g of
        None \<Rightarrow> None
      | Some loc \<Rightarrow>
          let mark = (\<lambda>blk bm. snd (ext2fs_mark_generic_bmap (ae_block_ops e) bm blk));
              bm = (if bl_super loc \<noteq> 0 \<or> g = 0 then mark (bl_super loc) bmap else bmap);
              bm = (if g = 0 \<and> fe_blocksize (ae_fs e) = 1024 \<and> EXT2FS_CLUSTER_RATIO e > 1 then mark 0 bm else bm);
              n = (ucast (old_desc_blocks e fs) :: u32);
              n = (if bl_old_desc loc + scast n \<ge> ext2fs_blocks_count (af_super fs)
                   then ucast (ext2fs_blocks_count (af_super fs) - bl_old_desc loc) else n);
              bm = (if bl_old_desc loc \<noteq> 0 then ext2fs_mark_block_bitmap_range2 (ae_block_ops e) bm (bl_old_desc loc) n else bm);
              bm = (if bl_new_desc loc \<noteq> 0 then mark (bl_new_desc loc) bm else bm)
          in Some (ext2fs_group_blocks_count fs g - (2 + ae_inode_blocks_per_group e + bl_used loc), bm))"

text \<open>The three counters start with 1, 5 and 7; the result is the next group with a backup and the new counters.\<close>

definition list_backups :: "('p, 'q) alloc_fs \<Rightarrow> u32 \<times> u32 \<times> u32 \<Rightarrow> u32 \<times> u32 \<times> u32 \<times> u32" where
  "list_backups fs c =
     (case c of (three, five, seven) \<Rightarrow>
        let sb = af_super fs in
        if ext2fs_has_feature_sparse_super2 sb
        then
          if three = 1 \<and> fst (sb_backup_bgs sb) \<noteq> 0 then (fst (sb_backup_bgs sb), 2, five, seven)
          else
            let three = (if three = 1 then 2 else three) in
            if three = 2 \<and> snd (sb_backup_bgs sb) \<noteq> 0 then (snd (sb_backup_bgs sb), 3, five, seven)
            else (group_desc_count fs, (if three = 2 then 3 else three), five, seven)
        else if \<not> ext2fs_has_feature_sparse_super sb then (three, three + 1, five, seven)
        else if seven < (if five < three then five else three) then (seven, three, five, 7 * seven)
        else if five < three then (five, three, 5 * five, seven)
        else (three, 3 * three, five, seven))"

text \<open>The loop of \<open>ext2fs_create_resize_inode\<close> over the groups with backups, as the list of the groups.\<close>

partial_function (option) backup_groups :: "('p, 'q) alloc_fs \<Rightarrow> u32 \<times> u32 \<times> u32 \<Rightarrow> u32 list option" where
  "backup_groups fs c =
     (case list_backups fs c of (grp, c') \<Rightarrow>
        if grp < group_desc_count fs then do { gs \<leftarrow> backup_groups fs c'; Some (grp # gs) } else Some [])"

section \<open>The groups with a backup\<close>

text \<open>What \<open>test_root\<close> decides: whether a number is a power of the other.\<close>

lemma test_root_correct:
  assumes "1 < unat b"
  shows "test_root a b = Some (\<exists>k. unat a = unat b ^ k \<and> 0 < k)"
  using assms
proof (induction "unat a" arbitrary: a rule: less_induct)
  case less
  have b: "b \<noteq> 0" using less.prems by auto
  have pow: "unat b ^ k < unat b \<longleftrightarrow> k = 0" for k
    using less.prems power_strict_increasing_iff [of "unat b" k 1] by simp
  show ?case
  proof (cases "a < b \<or> a = b \<or> a mod b \<noteq> 0")
    case True
    then consider (1) "a < b" | (2) "a = b" | (3) "\<not> a < b" "a \<noteq> b" "a mod b \<noteq> 0" by metis
    then show ?thesis
    proof cases
      case 1
      then have "unat a < unat b" by (simp add: word_less_nat_alt)
      then have "\<not> (\<exists>k. unat a = unat b ^ k \<and> 0 < k)" using pow by (metis less_irrefl)
      then show ?thesis using 1 by (subst test_root.simps) simp
    next
      case 2
      then have "unat a = unat b ^ 1" by simp
      then have "\<exists>k. unat a = unat b ^ k \<and> 0 < k" by blast
      then show ?thesis using 2 by (subst test_root.simps) simp
    next
      case 3
      have "unat b dvd unat a" if "unat a = unat b ^ k" "0 < k" for k using that by (simp add: dvd_power)
      then have "\<not> (\<exists>k. unat a = unat b ^ k \<and> 0 < k)"
        using 3(3) by (metis dvd_imp_mod_0 unat_eq_0 unat_mod)
      then show ?thesis using 3 by (subst test_root.simps) simp
    qed
  next
    case False
    then have ab: "\<not> a < b" "a \<noteq> b" "a mod b = 0" by auto
    then have d: "unat b dvd unat a" by (metis dvd_eq_mod_eq_0 unat_0 unat_mod)
    have q: "unat (a div b) = unat a div unat b" by (simp add: unat_div)
    have big: "unat b < unat a" using ab by (simp add: word_less_nat_alt) (metis linorder_neqE_nat word_unat_eq_iff)
    then have "unat (a div b) < unat a" using less.prems q by simp
    then have IH: "test_root (a div b) b = Some (\<exists>k. unat a div unat b = unat b ^ k \<and> 0 < k)"
      using less.hyps [of "a div b"] less.prems q by simp
    have "(\<exists>k. unat a div unat b = unat b ^ k \<and> 0 < k) \<longleftrightarrow> (\<exists>k. unat a = unat b ^ k \<and> 0 < k)"
    proof
      assume "\<exists>k. unat a div unat b = unat b ^ k \<and> 0 < k"
      then obtain k where "unat a div unat b = unat b ^ k" by blast
      then have "unat a = unat b ^ Suc k" using d by (metis dvd_mult_div_cancel power_Suc)
      then show "\<exists>k. unat a = unat b ^ k \<and> 0 < k" by blast
    next
      assume "\<exists>k. unat a = unat b ^ k \<and> 0 < k"
      then obtain k where k: "unat a = unat b ^ Suc k" by (metis gr0_conv_Suc)
      then have "unat a div unat b = unat b ^ k" using less.prems by simp
      moreover have "k \<noteq> 0" using k big by (intro notI) simp
      ultimately show "\<exists>k. unat a div unat b = unat b ^ k \<and> 0 < k" by blast
    qed
    then show ?thesis using ab IH by (subst test_root.simps) simp
  qed
qed

text \<open>The powers of 3, 5 and 7 from given exponents on, as the counters of \<open>list_backups\<close> have them.\<close>

definition root_powers :: "nat \<Rightarrow> nat \<Rightarrow> nat \<Rightarrow> nat set" where
  "root_powers a b c = {3 ^ k | k. a \<le> k} \<union> {5 ^ k | k. b \<le> k} \<union> {7 ^ k | k. c \<le> k}"

lemma powers_step: "{n ^ k | k. a \<le> k} = insert (n ^ a) {n ^ k | k. Suc a \<le> k}" for n :: nat
proof (intro set_eqI iffI)
  fix x assume "x \<in> {n ^ k | k. a \<le> k}"
  then obtain k where "x = n ^ k" "a \<le> k" by blast
  then show "x \<in> insert (n ^ a) {n ^ k | k. Suc a \<le> k}" by (cases "k = a") (auto intro!: exI [of _ k])
qed (auto intro: Suc_leD)

lemma root_powers_step:
  "root_powers a b c = insert (3 ^ a) (root_powers (Suc a) b c)"
  "root_powers a b c = insert (5 ^ b) (root_powers a (Suc b) c)"
  "root_powers a b c = insert (7 ^ c) (root_powers a b (Suc c))"
  by (auto simp: root_powers_def powers_step [of _ a] powers_step [of _ b] powers_step [of _ c])

lemma root_powers_above:
  assumes "m < 3 ^ a" "m < 5 ^ b" "m < 7 ^ c" "x \<in> root_powers a b c"
  shows "m < x"
  using assms(4) unfolding root_powers_def
  by (auto intro: less_le_trans [OF assms(1)] less_le_trans [OF assms(2)] less_le_trans [OF assms(3)] power_increasing)

lemma roots_differ:
  assumes "0 < b" "0 < c"
  shows "(3 :: nat) ^ a \<noteq> 5 ^ b" "(3 :: nat) ^ a \<noteq> 7 ^ c" "(5 :: nat) ^ b \<noteq> 7 ^ c"
proof -
  have c: "coprime ((p :: nat) ^ i) (q ^ j) \<Longrightarrow> 1 < q ^ j \<Longrightarrow> p ^ i \<noteq> q ^ j" for p q i j by (metis coprime_self less_irrefl nat_dvd_1_iff_1)
  have g: "1 < (5 :: nat) ^ b" "1 < (7 :: nat) ^ c" using assms one_less_power [of "5 :: nat" b] one_less_power [of "7 :: nat" c] by simp_all
  have p: "coprime (3 :: nat) 5" "coprime (3 :: nat) 7" "coprime (5 :: nat) 7" by (simp_all add: coprime_iff_gcd_eq_1 gcd_nat.simps)
  show "(3 :: nat) ^ a \<noteq> 5 ^ b" "(3 :: nat) ^ a \<noteq> 7 ^ c" "(5 :: nat) ^ b \<noteq> 7 ^ c"
    by (rule c; use g p in simp)+
qed

lemma has_super_sparse:
  assumes "\<not> ext2fs_has_feature_sparse_super2 sb" "ext2fs_has_feature_sparse_super sb" "0 < g"
  shows "ext2fs_bg_has_super sb g = Some (unat g \<in> root_powers 0 1 1)"
proof -
  have g: "0 < unat g" "g \<noteq> 0" using assms(3) by (auto simp: word_less_nat_alt)
  have le1: "g \<le> 1 \<longleftrightarrow> unat g = 1" using g by (simp add: word_le_nat_alt) linarith
  have odd: "g AND 1 = 0 \<longleftrightarrow> even (unat g)" using unat_mod [of g 2] by (simp add: and_one_eq even_iff_mod_2_eq_zero unat_eq_0 [symmetric] del: unat_mod)
  show ?thesis
  proof (cases "unat g = 1")
    case True
    then have "unat g \<in> root_powers 0 1 1" by (auto simp: root_powers_def intro: exI [of _ 0])
    then show ?thesis using assms True g le1 by (simp add: ext2fs_bg_has_super_def)
  next
    case False
    have "unat g \<in> root_powers 0 1 1 \<longleftrightarrow> (\<exists>k. unat g = 3 ^ k \<and> 0 < k) \<or> (\<exists>k. unat g = 5 ^ k \<and> 0 < k) \<or> (\<exists>k. unat g = 7 ^ k \<and> 0 < k)"
      using False unfolding root_powers_def by (auto simp: Suc_le_eq)
    moreover have "odd (unat g)" if "unat g \<in> root_powers 0 1 1" using that by (auto simp: root_powers_def)
    ultimately show ?thesis
      using assms False g le1 odd test_root_correct [of 3 g] test_root_correct [of 5 g] test_root_correct [of 7 g]
      by (auto simp: ext2fs_bg_has_super_def split: option.splits bool.splits)
  qed
qed

text \<open>One step of \<open>list_backups\<close>, with powers as counters, below \<open>5 ^ 13\<close>: it returns the smallest power that is left.\<close>

definition counters :: "u32 \<times> u32 \<times> u32 \<Rightarrow> nat \<Rightarrow> nat \<Rightarrow> nat \<Rightarrow> bool" where
  "counters cs a b c \<longleftrightarrow> map unat [fst cs, fst (snd cs), snd (snd cs)] = [3 ^ a, 5 ^ b, 7 ^ c] \<and> 0 < b \<and> 0 < c"

lemma below_5_13:
  assumes "p ^ k < (1220703125 :: nat)" "1 < p" "p ^ n \<ge> 1220703125" "p ^ n < 2 ^ 32"
  shows "p * p ^ k < 2 ^ 32"
proof -
  have "k < n" using assms(1,3) power_less_imp_less_exp [of p k n] assms(2) by linarith
  then have "p ^ Suc k \<le> p ^ n" using assms(2) by (intro power_increasing) simp_all
  then show ?thesis using assms(4) by simp
qed

lemma unat_times_small: "unat n * unat (m :: u32) < 2 ^ 32 \<Longrightarrow> unat (n * m) = unat n * unat m"
  by (simp add: unat_word_ariths)

lemma list_backups_powers:
  assumes "\<not> ext2fs_has_feature_sparse_super2 (af_super fs)" "ext2fs_has_feature_sparse_super (af_super fs)"
    and "counters cs a b c" "list_backups fs cs = (m, cs')" "unat m < 1220703125"
  shows "\<exists>a' b' c'. counters cs' a' b' c' \<and> root_powers a b c = insert (unat m) (root_powers a' b' c')
    \<and> (\<forall>x\<in>root_powers a' b' c'. unat m < x)"
proof -
  obtain three five seven where cs: "cs = (three, five, seven)" by (cases cs)
  have u: "unat three = 3 ^ a" "unat five = 5 ^ b" "unat seven = 7 ^ c" and bc: "0 < b" "0 < c"
    using assms(3) by (simp_all add: counters_def cs)
  have d: "(3 :: nat) ^ a \<noteq> 5 ^ b" "(3 :: nat) ^ a \<noteq> 7 ^ c" "(5 :: nat) ^ b \<noteq> 7 ^ c" by (rule roots_differ [OF bc])+
  have l: "three < five \<longleftrightarrow> (3 :: nat) ^ a < 5 ^ b" "five < three \<longleftrightarrow> (5 :: nat) ^ b < 3 ^ a" "seven < three \<longleftrightarrow> (7 :: nat) ^ c < 3 ^ a"
    "seven < five \<longleftrightarrow> (7 :: nat) ^ c < 5 ^ b" by (simp_all add: word_less_nat_alt u)
  consider (7) "(7 :: nat) ^ c < 3 ^ a" "(7 :: nat) ^ c < 5 ^ b" | (5) "(5 :: nat) ^ b < 3 ^ a" "(5 :: nat) ^ b < 7 ^ c"
    | (3) "(3 :: nat) ^ a < 5 ^ b" "(3 :: nat) ^ a < 7 ^ c" using d by linarith
  then show ?thesis
  proof cases
    case 7
    then have t: "seven < (if five < three then five else three)" by (simp_all add: l)
    then have r: "m = seven" "cs' = (three, five, 7 * seven)" using assms(1,2,4) by (auto simp: list_backups_def cs)
    then have "unat (7 * seven) = 7 * 7 ^ c" using assms(5) u below_5_13 [of 7 c 11] unat_times_small [of 7 seven] by simp
    then have "counters cs' a b (Suc c)" using bc by (simp add: counters_def r u)
    moreover have "7 ^ c < x" if "x \<in> root_powers a b (Suc c)" for x
      using root_powers_above [of "7 ^ c" a b "Suc c" x] 7 that by simp
    ultimately show ?thesis using root_powers_step(3) [of a b c] by (intro exI [of _ a] exI [of _ b] exI [of _ "Suc c"]) (simp add: r u)
  next
    case 5
    then have t: "five < three" "\<not> seven < five" by (simp_all add: l)
    then have r: "m = five" "cs' = (three, 5 * five, seven)" using assms(1,2,4) by (auto simp: list_backups_def cs)
    then have "unat (5 * five) = 5 * 5 ^ b" using assms(5) u below_5_13 [of 5 b 13] unat_times_small [of 5 five] by simp
    then have "counters cs' a (Suc b) c" using bc by (simp add: counters_def r u)
    moreover have "5 ^ b < x" if "x \<in> root_powers a (Suc b) c" for x
      using root_powers_above [of "5 ^ b" a "Suc b" c x] 5 that by simp
    ultimately show ?thesis using root_powers_step(2) [of a b c] by (intro exI [of _ a] exI [of _ "Suc b"] exI [of _ c]) (simp add: r u)
  next
    case 3
    then have t: "\<not> five < three" "\<not> seven < three" by (simp_all add: l)
    then have r: "m = three" "cs' = (3 * three, five, seven)" using assms(1,2,4) by (auto simp: list_backups_def cs)
    then have "unat (3 * three) = 3 * 3 ^ a" using assms(5) u below_5_13 [of 3 a 20] unat_times_small [of 3 three] by simp
    then have "counters cs' (Suc a) b c" using bc by (simp add: counters_def r u)
    moreover have "3 ^ a < x" if "x \<in> root_powers (Suc a) b c" for x
      using root_powers_above [of "3 ^ a" "Suc a" b c x] 3 that by simp
    ultimately show ?thesis using root_powers_step(1) [of a b c] by (intro exI [of _ "Suc a"] exI [of _ b] exI [of _ c]) (simp add: r u)
  qed
qed

lemma list_backups_least:
  assumes "\<not> ext2fs_has_feature_sparse_super2 (af_super fs)" "ext2fs_has_feature_sparse_super (af_super fs)" "counters cs a b c"
  shows "unat (fst (list_backups fs cs)) \<in> root_powers a b c \<and> (\<forall>x\<in>root_powers a b c. unat (fst (list_backups fs cs)) \<le> x)"
proof -
  obtain three five seven where cs: "cs = (three, five, seven)" by (cases cs)
  have u: "unat three = 3 ^ a" "unat five = 5 ^ b" "unat seven = 7 ^ c" using assms(3) by (simp_all add: counters_def cs)
  let ?m = "unat (fst (list_backups fs cs))"
  have m: "?m = min (min (3 ^ a) (5 ^ b)) (7 ^ c)"
    using assms(1,2) by (simp add: list_backups_def cs Let_def word_less_nat_alt u min_def)
  have "3 ^ a \<in> root_powers a b c" "5 ^ b \<in> root_powers a b c" "7 ^ c \<in> root_powers a b c" by (auto simp: root_powers_def)
  then have "?m \<in> root_powers a b c" unfolding m min_def by simp
  moreover have "?m \<le> x" if "x \<in> root_powers a b c" for x
  proof -
    have "?m \<le> 3 ^ a" "?m \<le> 5 ^ b" "?m \<le> 7 ^ c" unfolding m by simp_all
    then show ?thesis using that unfolding root_powers_def
      by (auto intro: order.trans [OF _ power_increasing])
  qed
  ultimately show ?thesis by blast
qed

lemma backup_groups_powers:
  assumes sparse: "\<not> ext2fs_has_feature_sparse_super2 (af_super fs)" "ext2fs_has_feature_sparse_super (af_super fs)"
    and n: "unat (group_desc_count fs) \<le> 1220703125" and cs: "counters cs a b c"
  shows "\<exists>gs. backup_groups fs cs = Some gs \<and> sorted_wrt (<) gs
    \<and> set gs = {g. unat g \<in> root_powers a b c \<and> g < group_desc_count fs}"
  using cs
proof (induction "unat (group_desc_count fs) - unat (fst (list_backups fs cs))" arbitrary: cs a b c rule: less_induct)
  case less
  obtain m cs' where m: "list_backups fs cs = (m, cs')" by (cases "list_backups fs cs")
  have least: "unat m \<in> root_powers a b c" "\<And>x. x \<in> root_powers a b c \<Longrightarrow> unat m \<le> x"
    using list_backups_least [OF sparse less.prems] m by simp_all
  show ?case
  proof (cases "m < group_desc_count fs")
    case False
    then have "{g. unat g \<in> root_powers a b c \<and> g < group_desc_count fs} = {}"
      using least(2) by (force simp: word_less_nat_alt)
    then show ?thesis using False m by (subst backup_groups.simps) simp
  next
    case True
    then have mn: "unat m < unat (group_desc_count fs)" by (simp add: word_less_nat_alt)
    obtain a' b' c' where step: "counters cs' a' b' c'" "root_powers a b c = insert (unat m) (root_powers a' b' c')"
        "\<And>x. x \<in> root_powers a' b' c' \<Longrightarrow> unat m < x"
      using list_backups_powers [OF sparse less.prems m] mn n by auto
    have "unat m < unat (fst (list_backups fs cs'))" using list_backups_least [OF sparse step(1)] step(3) by blast
    then have "unat (group_desc_count fs) - unat (fst (list_backups fs cs')) < unat (group_desc_count fs) - unat (fst (list_backups fs cs))"
      using mn m by simp
    from less.hyps [OF this step(1)] obtain gs where gs: "backup_groups fs cs' = Some gs" "sorted_wrt (<) gs"
        "set gs = {g. unat g \<in> root_powers a' b' c' \<and> g < group_desc_count fs}" by blast
    have "backup_groups fs cs = Some (m # gs)" using True m gs(1) by (subst backup_groups.simps) simp
    moreover have "sorted_wrt (<) (m # gs)" using gs(2,3) step(3) by (simp add: word_less_nat_alt)
    moreover have "set (m # gs) = {g. unat g \<in> root_powers a b c \<and> g < group_desc_count fs}"
      using True by (auto simp: gs(3) step(2) word_unat_eq_iff)
    ultimately show ?thesis by blast
  qed
qed

text \<open>Without the feature, the list is that of all groups.\<close>

lemma backup_groups_all:
  assumes "\<not> ext2fs_has_feature_sparse_super2 (af_super fs)" "\<not> ext2fs_has_feature_sparse_super (af_super fs)"
  shows "\<exists>gs. backup_groups fs (three, five, seven) = Some gs \<and> sorted_wrt (<) gs
    \<and> set gs = {g. three \<le> g \<and> g < group_desc_count fs}"
proof (induction "unat (group_desc_count fs) - unat three" arbitrary: three rule: less_induct)
  case less
  have l: "list_backups fs (three, five, seven) = (three, three + 1, five, seven)" using assms by (simp add: list_backups_def)
  show ?case
  proof (cases "three < group_desc_count fs")
    case False
    then have "{g. three \<le> g \<and> g < group_desc_count fs} = {}" by auto
    then show ?thesis using False l by (subst backup_groups.simps) simp
  next
    case True
    then have u: "unat (three + 1) = unat three + 1" "unat three < unat (group_desc_count fs)"
      using unat_lt_32 [of "group_desc_count fs"] by (simp_all add: word_less_nat_alt unat_word_ariths)
    then have "unat (group_desc_count fs) - unat (three + 1) < unat (group_desc_count fs) - unat three" by linarith
    from less.hyps [OF this] obtain gs where gs: "backup_groups fs (three + 1, five, seven) = Some gs" "sorted_wrt (<) gs"
        "set gs = {g. three + 1 \<le> g \<and> g < group_desc_count fs}" by blast
    have s: "three + 1 \<le> g \<longleftrightarrow> three < g" "three \<le> g \<longleftrightarrow> three = g \<or> three < g" for g
      using u by (auto simp: word_le_nat_alt word_less_nat_alt word_unat_eq_iff)
    show ?thesis using True l gs by (subst backup_groups.simps) (auto simp: s)
  qed
qed

text \<open>With two backups, which the superblock names: those of them that there are.\<close>

lemma backup_groups_two:
  assumes "ext2fs_has_feature_sparse_super2 (af_super fs)" "sb_backup_bgs (af_super fs) = (x, y)" "x < group_desc_count fs" "y < group_desc_count fs"
  shows "backup_groups fs (1, five, seven) = Some (filter (\<lambda>g. g \<noteq> 0) [x, y])"
proof -
  have 3: "backup_groups fs (3, five, seven) = Some []" using assms by (subst backup_groups.simps) (simp add: list_backups_def)
  have 2: "backup_groups fs (2, five, seven) = Some (filter (\<lambda>g. g \<noteq> 0) [y])" using assms 3
    by (subst backup_groups.simps) (simp add: list_backups_def)
  show ?thesis using assms 2 3 by (subst backup_groups.simps) (simp add: list_backups_def)
qed

section \<open>The two ways agree\<close>

text \<open>\<open>test_root\<close> returns, and with it the functions that say where the blocks lie.\<close>

lemma layout_returns:
  "ext2fs_bg_has_super sb g \<noteq> None" "ext2fs_super_and_bgd_loc2 e fs g \<noteq> None" "ext2fs_super_and_bgd_loc e fs g \<noteq> None"
  "ext2fs_reserve_super_and_bgd e fs g bmap \<noteq> None"
proof -
  have h: "ext2fs_bg_has_super sb g \<noteq> None" for sb
    using test_root_correct [of 3 g] test_root_correct [of 5 g] test_root_correct [of 7 g]
    by (auto simp: ext2fs_bg_has_super_def split: option.splits bool.splits)
  then show "ext2fs_bg_has_super sb g \<noteq> None" .
  have l: "ext2fs_super_and_bgd_loc2 e fs g \<noteq> None" using h [of "af_super fs"] by (auto simp: ext2fs_super_and_bgd_loc2_def Let_def)
  then show "ext2fs_super_and_bgd_loc2 e fs g \<noteq> None" .
  then show "ext2fs_super_and_bgd_loc e fs g \<noteq> None" "ext2fs_reserve_super_and_bgd e fs g bmap \<noteq> None"
    by (auto simp: ext2fs_super_and_bgd_loc_def ext2fs_reserve_super_and_bgd_def Let_def)
qed

text \<open>
  The groups that \<open>ext2fs_create_resize_inode\<close> goes through are those with a backup of the superblock by
  \<open>ext2fs_bg_has_super\<close>, without the first group, each once and in order, for up to 5 ^ 13 groups (with
  more, the counters wrap around).
\<close>

theorem backup_groups_correct:
  assumes "if ext2fs_has_feature_sparse_super2 (af_super fs)
      then sb_backup_bgs (af_super fs) = (x, y) \<and> (x = 0 \<or> y = 0 \<or> x < y) \<and> x < group_desc_count fs \<and> y < group_desc_count fs
      else ext2fs_has_feature_sparse_super (af_super fs) \<longrightarrow> group_desc_count fs \<le> 1220703125"
  shows "\<exists>gs. backup_groups fs (1, 5, 7) = Some gs \<and> sorted_wrt (<) gs
    \<and> set gs = {g. 0 < g \<and> g < group_desc_count fs \<and> ext2fs_bg_has_super (af_super fs) g = Some True}"
proof -
  let ?sb = "af_super fs"
  show ?thesis
  proof (cases "ext2fs_has_feature_sparse_super2 ?sb")
    case True
    then have xy: "sb_backup_bgs ?sb = (x, y)" "x = 0 \<or> y = 0 \<or> x < y" "x < group_desc_count fs" "y < group_desc_count fs" using assms by auto
    have "g \<noteq> 0 \<longleftrightarrow> 0 < g" for g :: u32 by (simp add: word_neq_0_conv)
    then show ?thesis using True xy backup_groups_two [OF True xy(1,3,4)] by (auto simp: ext2fs_bg_has_super_def)
  next
    case f2: False
    show ?thesis
    proof (cases "ext2fs_has_feature_sparse_super ?sb")
      case True
      have "counters (1, 5, 7) 0 1 1" by (simp add: counters_def)
      moreover have "unat (group_desc_count fs) \<le> 1220703125" using assms f2 True by (simp add: word_le_nat_alt)
      moreover have "unat g \<in> root_powers 0 1 1 \<and> g < group_desc_count fs \<longleftrightarrow>
          0 < g \<and> g < group_desc_count fs \<and> ext2fs_bg_has_super ?sb g = Some True" for g
        using has_super_sparse [OF f2 True, of g] by (cases "g = 0") (auto simp: root_powers_def word_neq_0_conv)
      ultimately show ?thesis using backup_groups_powers [OF f2 True, of "(1, 5, 7)" 0 1 1] by simp
    next
      case False
      have "1 \<le> g \<longleftrightarrow> 0 < g" for g :: u32 by (simp add: word_le_nat_alt word_less_nat_alt Suc_le_eq)
      then show ?thesis using backup_groups_all [OF f2 False, of 1 5 7] f2 False by (auto simp: ext2fs_bg_has_super_def)
    qed
  qed
qed

end
